(* ===== verification/Xine_Prelude.thy ===== *)
theory Xine_Prelude
  imports Main "HOL-Library.Word" "HOL-Library.Signed_Division"
begin

text \<open>
  What every component of the development shares: the result type of C functions that may
  block or run into undefined behaviour, C integers (truncating division, 32-bit and 64-bit
  two's complement), and the named collections the component proofs simplify with.
\<close>

section \<open>Machine words and C integers\<close>

type_synonym u8 = "8 word"
type_synonym u16 = "16 word"
type_synonym u32 = "32 word"

text \<open>
  Signed C integers are \<open>int\<close> values. Where the code's result depends on the width
  the wrap-around is written out with \<open>s32\<close> and \<open>s64\<close>; C division is
  \<open>sdiv\<close> and \<open>smod\<close> of Signed_Division, which truncate towards zero.
\<close>

definition s32 :: "int \<Rightarrow> int" where
  "s32 x = (x + 2 ^ 31) mod 2 ^ 32 - 2 ^ 31"

definition s64 :: "int \<Rightarrow> int" where
  "s64 x = (x + 2 ^ 63) mod 2 ^ 64 - 2 ^ 63"

text \<open>Values of type \<open>int\<close>.\<close>

definition int_range :: "int \<Rightarrow> bool" where
  "int_range v \<longleftrightarrow> - (2 ^ 31) \<le> v \<and> v < 2 ^ 31"

lemma s32_id: "- (2 ^ 31) \<le> x \<Longrightarrow> x < 2 ^ 31 \<Longrightarrow> s32 x = x"
  by (simp add: s32_def)

lemma s32_range: "- (2 ^ 31) \<le> s32 x \<and> s32 x < 2 ^ 31"
  by (simp add: s32_def)

lemma s64_id: "- (2 ^ 63) \<le> x \<Longrightarrow> x < 2 ^ 63 \<Longrightarrow> s64 x = x"
  by (simp add: s64_def)

lemma sdiv_nonneg: "0 \<le> (a::int) \<Longrightarrow> 0 < b \<Longrightarrow> a sdiv b = a div b"
  by (cases "a = 0") (simp_all add: signed_divide_int_def)

lemma sdiv_nonpos: "(a::int) \<le> 0 \<Longrightarrow> 0 < b \<Longrightarrow> a sdiv b = - ((- a) div b)"
  by (cases "a = 0") (simp_all add: signed_divide_int_def)

lemma smod_nonneg: "0 \<le> (a::int) \<Longrightarrow> 0 < b \<Longrightarrow> a smod b = a mod b"
  using minus_sdiv_mult_eq_smod [of a b] minus_div_mult_eq_mod [of a b] by (simp add: sdiv_nonneg)

text \<open>Values that fit into a word, and rounding down.\<close>

lemma div_bounds: "0 < (f::int) \<Longrightarrow> x div f * f \<le> x \<and> x < x div f * f + f"
  using div_mult_mod_eq [of x f] pos_mod_bound [of f x] pos_mod_sign [of f x] by linarith

lemma mul_div_back:
  fixes t f :: int
  assumes "0 < f" and "0 \<le> t"
  shows "t * f div 1000 * 1000 div f \<le> t" and "(t - t * f div 1000 * 1000 div f) * f < 1000 + f"
proof -
  define q where "q = t * f div 1000"
  define r where "r = q * 1000 div f"
  have a: "q * 1000 \<le> t * f" "t * f < q * 1000 + 1000"
    using div_bounds [of 1000 "t * f"] unfolding q_def [symmetric] by simp_all
  have b: "r * f \<le> q * 1000" "q * 1000 < r * f + f"
    using div_bounds [OF assms(1), of "q * 1000"] unfolding r_def [symmetric] by simp_all
  have "r * f \<le> t * f" using a b by linarith
  then show "t * f div 1000 * 1000 div f \<le> t" using assms(1) unfolding q_def [symmetric] r_def [symmetric] by simp
  have "t * f - r * f < 1000 + f" using a b by linarith
  then show "(t - t * f div 1000 * 1000 div f) * f < 1000 + f"
    unfolding q_def [symmetric] r_def [symmetric] by (simp add: left_diff_distrib)
qed

lemma sint_of_int32: "0 \<le> x \<Longrightarrow> x < 2 ^ 31 \<Longrightarrow> sint (word_of_int x :: u32) = x"
  by transfer (simp add: signed_take_bit_int_eq_self)

lemma uint_of_int32: "0 \<le> x \<Longrightarrow> x < 2 ^ 32 \<Longrightarrow> uint (word_of_int x :: u32) = x"
  by transfer (simp add: take_bit_int_eq_self)

lemma of_int32_eq_0: "0 < x \<Longrightarrow> x < 2 ^ 32 \<Longrightarrow> (word_of_int x :: u32) \<noteq> 0"
  using uint_of_int32 [of x] by (metis less_irrefl less_imp_le uint_0_eq)

text \<open>Division of unsigned values that fit.\<close>

lemma udiv_of_int32:
  "0 \<le> a \<Longrightarrow> a < 2 ^ 32 \<Longrightarrow> 0 \<le> b \<Longrightarrow> b < 2 ^ 32 \<Longrightarrow>
    (word_of_int a :: u32) div word_of_int b = word_of_int (a div b)"
  by transfer (simp add: take_bit_int_eq_self)

lemma div_lt_bound: "0 \<le> (a::int) \<Longrightarrow> a < n \<Longrightarrow> 0 < b \<Longrightarrow> a div b < n"
  using zdiv_mono2 [of a 1 b] by auto

section \<open>Results of C functions\<close>

text \<open>
  \<open>Ret\<close> is a normal return, \<open>Wait\<close> a call that blocks on a condition
  variable (nothing has changed yet), \<open>Fault\<close> undefined behaviour or an abort: a
  dereference of NULL or of freed memory, an access outside an array, a division by zero, a
  failed assertion. \<open>Spin\<close> is no result of the code: it says that the fuel of a
  loop over a pointer chain was used up, and the lemmas say which fuel is enough.
\<close>

datatype 'a outcome = Ret 'a | Wait | Fault | Spin

primrec obind :: "'a outcome \<Rightarrow> ('a \<Rightarrow> 'b outcome) \<Rightarrow> 'b outcome" where
  "obind (Ret x) f = f x"
| "obind Wait f = Wait"
| "obind Fault f = Fault"
| "obind Spin f = Spin"

lemma obind_eq_Ret: "obind m f = Ret y \<longleftrightarrow> (\<exists>x. m = Ret x \<and> f x = Ret y)"
  by (cases m) simp_all

lemma obind_assoc [simp]: "obind (obind m f) g = obind m (\<lambda>x. obind (f x) g)"
  by (cases m) simp_all

text \<open>Reading through a pointer: NULL and addresses that are not allocated fault.\<close>

definition of_opt :: "'a option \<Rightarrow> 'a outcome" where
  "of_opt p = (case p of None \<Rightarrow> Fault | Some a \<Rightarrow> Ret a)"

lemma of_opt_simps [simp]:
  "of_opt None = Fault"
  "of_opt (Some a) = Ret a"
  by (simp_all add: of_opt_def)

lemma of_opt_eq_Ret [simp]: "of_opt p = Ret a \<longleftrightarrow> p = Some a"
  by (cases p) simp_all

text \<open>C's \<open>/\<close> and \<open>%\<close>: division by zero faults.\<close>

definition cdiv :: "int \<Rightarrow> int \<Rightarrow> int outcome" where
  "cdiv a b = (if b = 0 then Fault else Ret (a sdiv b))"

definition cmod :: "int \<Rightarrow> int \<Rightarrow> int outcome" where
  "cmod a b = (if b = 0 then Fault else Ret (a smod b))"

text \<open>Array reads and writes: an index outside the array faults.\<close>

definition aget :: "'a list \<Rightarrow> nat \<Rightarrow> 'a outcome" where
  "aget xs i = (if i < length xs then Ret (xs ! i) else Fault)"

definition aset :: "'a list \<Rightarrow> nat \<Rightarrow> 'a \<Rightarrow> 'a list outcome" where
  "aset xs i x = (if i < length xs then Ret (xs[i := x]) else Fault)"

lemma aget_in [simp]: "i < length xs \<Longrightarrow> aget xs i = Ret (xs ! i)"
  by (simp add: aget_def)

lemma aset_in [simp]: "i < length xs \<Longrightarrow> aset xs i x = Ret (xs[i := x])"
  by (simp add: aset_def)

lemma aget_out [simp]: "length xs \<le> i \<Longrightarrow> aget xs i = Fault"
  by (simp add: aget_def)

lemma aset_out [simp]: "length xs \<le> i \<Longrightarrow> aset xs i x = Fault"
  by (simp add: aset_def)

text \<open>A property of the audio output (audio_out.h) that the buffering control sets, too.\<close>

definition AO_PROP_PAUSED :: int where
  "AO_PROP_PAUSED = 5"

end
