(* ===== verification/C_Text.thy ===== *)
theory C_Text
  imports Xine_Prelude
begin

text \<open>
  C strings, and the decimal numbers that \<open>scanf\<close>, \<open>atoi\<close> and
  \<open>printf\<close> read and write.
\<close>

section \<open>Characters and C strings\<close>

definition NUL :: char where
  "NUL = CHR 0x00"

definition LF :: char where
  "LF = CHR 0x0A"

text \<open>The string an array of characters starts with.\<close>

definition cstr :: "string \<Rightarrow> string" where
  "cstr a = takeWhile (\<lambda>c. c \<noteq> NUL) a"

section \<open>Numbers\<close>

definition is_space :: "char \<Rightarrow> bool" where
  "is_space c \<longleftrightarrow> c = CHR '' '' \<or> (of_char c :: nat) \<in> {9..13}"

definition is_digit :: "char \<Rightarrow> bool" where
  "is_digit c \<longleftrightarrow> (of_char c :: nat) \<in> {48..57}"

fun digits_value :: "string \<Rightarrow> int \<Rightarrow> int" where
  "digits_value [] v = v"
| "digits_value (c # cs) v = (if is_digit c then digits_value cs (10 * v + int (of_char c - 48)) else v)"

text \<open>What \<open>%d\<close> reads, if it finds a number.\<close>

definition scan_int :: "string \<Rightarrow> int option" where
  "scan_int s =
     (let t = dropWhile is_space s;
          neg = (t \<noteq> [] \<and> hd t = CHR ''-'');
          u = (if t \<noteq> [] \<and> (hd t = CHR ''-'' \<or> hd t = CHR ''+'') then tl t else t) in
      if u \<noteq> [] \<and> is_digit (hd u) then Some (if neg then - digits_value u 0 else digits_value u 0) else None)"

fun dec_nat :: "nat \<Rightarrow> string" where
  "dec_nat n = (if n < 10 then [char_of (48 + n)] else dec_nat (n div 10) @ [char_of (48 + n mod 10)])"

declare dec_nat.simps [simp del]

text \<open>What \<open>%d\<close> prints.\<close>

definition dec :: "int \<Rightarrow> string" where
  "dec v = (if v < 0 then CHR ''-'' # dec_nat (nat (- v)) else dec_nat (nat v))"

lemma digit_char: "d < 10 \<Longrightarrow> is_digit (char_of (48 + d)) \<and> (of_char (char_of (48 + d) :: char) :: nat) = 48 + d"
  by (simp add: is_digit_def)

lemma digits_value_snoc:
  assumes "list_all is_digit s"
  shows "digits_value (s @ t) v = digits_value t (digits_value s v)"
  using assms by (induction s arbitrary: v) auto

lemma dec_nat_digits: "list_all is_digit (dec_nat n) \<and> dec_nat n \<noteq> [] \<and> digits_value (dec_nat n) 0 = int n"
proof (induction n rule: dec_nat.induct)
  case (1 n)
  show ?case
  proof (cases "n < 10")
    case True
    then show ?thesis using digit_char [OF True] by (simp add: dec_nat.simps [of n])
  next
    case False
    have "n mod 10 < 10" by simp
    note D = digit_char [OF this]
    have "10 * int (n div 10) + int (n mod 10) = int n" by (metis div_mult_mod_eq mult.commute of_nat_add of_nat_mult of_nat_numeral)
    then show ?thesis using 1 [OF False] False D digits_value_snoc [of "dec_nat (n div 10)" "[char_of (48 + n mod 10)]" 0]
      by (simp add: dec_nat.simps [of n])
  qed
qed

lemma digit_start: "is_digit c \<Longrightarrow> \<not> is_space c \<and> c \<noteq> CHR ''-'' \<and> c \<noteq> CHR ''+''"
  by (auto simp: is_digit_def is_space_def)

lemma scan_dec [simp]: "scan_int (dec v) = Some v"
proof -
  obtain x xs where x: "dec_nat (nat \<bar>v\<bar>) = x # xs" "is_digit x" using dec_nat_digits [of "nat \<bar>v\<bar>"]
    by (cases "dec_nat (nat \<bar>v\<bar>)") auto
  note N = digit_start [OF x(2)] and D = dec_nat_digits [of "nat \<bar>v\<bar>"]
  show ?thesis
  proof (cases "v < 0")
    case True
    then have "dec v = CHR ''-'' # x # xs" using x(1) by (simp add: dec_def)
    moreover have "\<not> is_space (CHR ''-'')" by (simp add: is_space_def)
    ultimately show ?thesis using True x D by (simp add: scan_int_def Let_def)
  next
    case False
    then have "dec v = x # xs" using x(1) by (simp add: dec_def)
    then show ?thesis using False x D N by (simp add: scan_int_def Let_def)
  qed
qed

end
