(* ===== verification/Chain.thy ===== *)
theory Chain
  imports Xine_Prelude
begin

text \<open>
  Singly linked chains in a store. A store gives, for an allocated node, its \<open>next\<close>
  pointer; \<open>lseg\<close> says which nodes a walk from one pointer to another visits, and
  \<open>walk\<close> computes them. Shared by the fifos, the overlay manager and the configuration.
\<close>

type_synonym 'n ptr = "'n option"

section \<open>Segments\<close>

fun lseg :: "('n \<Rightarrow> 'n ptr option) \<Rightarrow> 'n ptr \<Rightarrow> 'n list \<Rightarrow> 'n ptr \<Rightarrow> bool" where
  "lseg nx p [] q = (p = q)"
| "lseg nx p (x # xs) q = (p = Some x \<and> (\<exists>n. nx x = Some n \<and> lseg nx n xs q))"

lemma lseg_append:
  "lseg nx p (xs @ ys) q \<longleftrightarrow> (\<exists>r. lseg nx p xs r \<and> lseg nx r ys q)"
  by (induction xs arbitrary: p) auto

lemma lseg_upd_frame [simp]:
  "x \<notin> set xs \<Longrightarrow> lseg (nx(x := v)) p xs q = lseg nx p xs q"
  by (induction xs arbitrary: p) auto

lemma lseg_None [simp]: "lseg nx None xs None = (xs = [])"
  by (cases xs) auto

lemma lseg_start: "lseg nx p xs None \<Longrightarrow> p = (case xs of [] \<Rightarrow> None | x # _ \<Rightarrow> Some x)"
  by (cases xs) auto

lemma lseg_allocated: "lseg nx p xs q \<Longrightarrow> x \<in> set xs \<Longrightarrow> nx x \<noteq> None"
  by (induction xs arbitrary: p) auto

lemma lseg_cong:
  "(\<And>x. x \<in> set xs \<Longrightarrow> nx x = nx' x) \<Longrightarrow> lseg nx p xs q = lseg nx' p xs q"
  by (induction xs arbitrary: p) auto

lemma lseg_unique: "lseg nx p xs None \<Longrightarrow> lseg nx p ys None \<Longrightarrow> xs = ys"
proof (induction xs arbitrary: p ys)
  case Nil
  then show ?case by simp
next
  case (Cons x xs)
  then show ?case by (cases ys) auto
qed

lemma lseg_distinct: "lseg nx p xs None \<Longrightarrow> distinct xs"
proof (induction xs arbitrary: p)
  case Nil
  then show ?case by simp
next
  case (Cons x xs)
  then obtain n where n: "nx x = Some n" "lseg nx n xs None" by auto
  have "x \<notin> set xs"
  proof
    assume "x \<in> set xs"
    then obtain as bs where xs: "xs = as @ x # bs" by (auto dest: split_list)
    with n(2) have "lseg nx (Some x) (x # bs) None" by (auto simp: lseg_append)
    with n(1) have "lseg nx n bs None" by simp
    with n(2) have "xs = bs" by (rule lseg_unique)
    with xs show False by simp
  qed
  with n Cons.IH show ?case by auto
qed

lemma lseg_snoc:
  assumes "lseg nx p (xs @ [l]) None" and "b \<notin> set (xs @ [l])"
  shows "lseg (nx(l := Some (Some b), b := Some None)) p (xs @ [l, b]) None"
proof -
  from assms(1) have "distinct (xs @ [l])" by (rule lseg_distinct)
  with assms show ?thesis by (auto simp: lseg_append fun_upd_twist)
qed

lemma lseg_unlink:
  assumes "lseg nx p (xs @ a # b # ys) None"
  shows "lseg (nx(a := nx b)) p (xs @ a # ys) None"
proof -
  from assms have "distinct (xs @ a # b # ys)" by (rule lseg_distinct)
  with assms show ?thesis by (auto simp: lseg_append)
qed

lemma lseg_link:
  assumes "lseg nx p (xs @ a # ys) None" and "b \<notin> set (xs @ a # ys)"
  shows "lseg (nx(a := Some (Some b), b := nx a)) p (xs @ a # b # ys) None"
proof -
  from assms(1) have "distinct (xs @ a # ys)" by (rule lseg_distinct)
  with assms show ?thesis by (auto simp: lseg_append fun_upd_twist)
qed

lemma lseg_next:
  "lseg nx p (xs @ a # ys) None \<Longrightarrow> nx a = Some (case ys of [] \<Rightarrow> None | y # _ \<Rightarrow> Some y)"
  by (auto simp: lseg_append split: list.splits)

section \<open>Walking a chain\<close>

fun walk :: "('n \<Rightarrow> 'n ptr option) \<Rightarrow> nat \<Rightarrow> 'n ptr \<Rightarrow> 'n list" where
  "walk nx 0 p = []"
| "walk nx (Suc k) p =
     (case p of None \<Rightarrow> []
      | Some x \<Rightarrow> x # (case nx x of None \<Rightarrow> [] | Some n \<Rightarrow> walk nx k n))"

lemma walk_lseg: "lseg nx p xs None \<Longrightarrow> length xs \<le> k \<Longrightarrow> walk nx k p = xs"
proof (induction xs arbitrary: p k)
  case Nil
  then show ?case by (cases k) auto
next
  case (Cons x xs)
  then show ?case by (cases k) auto
qed

end
