(* ===== verification/Buf_Fifo.thy ===== *)
theory Buf_Fifo
  imports Chain
begin

text \<open>
  The buffer pool and fifo of src/src/xine-engine/buffer.c. Buffer elements live in a store
  and are linked through their \<open>next\<close> fields, as in the code: the fifo from
  \<open>first\<close> to \<open>last\<close>, the free elements from \<open>buffer_pool_top\<close>. An
  element may be queued in another fifo than the one it was allocated from
  (\<open>be_source\<close>). The mutexes make each operation one step; a condition wait is
  \<open>Wait\<close>. Callbacks (net_buf_ctrl.c registers them) read the system and act on the
  world outside it; they are a parameter of the operations that run them.
\<close>

unbundle bit_operations_syntax

section \<open>Data\<close>

type_synonym bufid = nat
type_synonym fifoid = nat

text \<open>\<open>extra_info_t\<close> of xine_internal.h.\<close>

record extra_info =
  ei_input_pos :: int
  ei_input_length :: int
  ei_input_time :: int
  ei_frame_number :: u32
  ei_seek_count :: int
  ei_vpts :: int
  ei_invalid :: int
  ei_total_time :: int

definition extra_info_reset :: extra_info where
  "extra_info_reset =
     \<lparr>ei_input_pos = 0, ei_input_length = 0, ei_input_time = 0, ei_frame_number = 0,
      ei_seek_count = 0, ei_vpts = 0, ei_invalid = 0, ei_total_time = 0\<rparr>"

definition extra_info_merge :: "extra_info \<Rightarrow> extra_info \<Rightarrow> extra_info" where
  "extra_info_merge dst src =
     (if ei_invalid src = 0 then
        dst\<lparr>ei_input_pos := (if ei_input_pos src \<noteq> 0 then ei_input_pos src else ei_input_pos dst),
            ei_input_length := (if ei_input_length src \<noteq> 0 then ei_input_length src
                                else ei_input_length dst),
            ei_input_time := (if ei_input_time src \<noteq> 0 then ei_input_time src
                              else ei_input_time dst),
            ei_frame_number := (if ei_frame_number src \<noteq> 0 then ei_frame_number src
                                else ei_frame_number dst),
            ei_seek_count := (if ei_seek_count src \<noteq> 0 then ei_seek_count src
                              else ei_seek_count dst),
            ei_vpts := (if ei_vpts src \<noteq> 0 then ei_vpts src else ei_vpts dst)\<rparr>
      else dst)"

record buf_element =
  be_next :: "bufid ptr"
  be_mem :: int
  be_content :: int
  be_size :: int
  be_max_size :: int
  be_type :: u32
  be_pts :: int
  be_disc_off :: int
  be_extra_info :: extra_info
  be_decoder_flags :: u32
  be_decoder_info :: "u32 list"
  be_decoder_info_ptr :: "nat list"
  be_source :: fifoid

text \<open>
  A callback array of \<open>BUF_MAX_CALLBACKS\<close> entries: the function pointer and its
  data pointer. The calls stop at the first NULL.
\<close>

type_synonym cb_array = "(nat option \<times> nat) list"

definition BUF_MAX_CALLBACKS :: nat where
  "BUF_MAX_CALLBACKS = 5"

definition BUF_NUM_DEC_INFO :: nat where
  "BUF_NUM_DEC_INFO = 4"

definition BUF_MAJOR_MASK :: u32 where
  "BUF_MAJOR_MASK = 0xFF000000"

definition BUF_CONTROL_BASE :: u32 where
  "BUF_CONTROL_BASE = 0x01000000"

record fifo_buffer =
  ff_first :: "bufid ptr"
  ff_last :: "bufid ptr"
  ff_size :: int
  ff_data_size :: u32
  ff_pool_top :: "bufid ptr"
  ff_num_free :: int
  ff_capacity :: int
  ff_buf_size :: int
  ff_alloc_cb :: cb_array
  ff_put_cb :: cb_array
  ff_get_cb :: cb_array

record 'w bufsys =
  bs_elem :: "bufid \<rightharpoonup> buf_element"
  bs_fifo :: "fifoid \<rightharpoonup> fifo_buffer"
  bs_world :: 'w

type_synonym 'w cb_run = "nat \<Rightarrow> fifoid \<Rightarrow> bufid option \<Rightarrow> nat \<Rightarrow> 'w bufsys \<Rightarrow> 'w"

section \<open>Reading and writing through pointers\<close>

definition elem_of :: "'w bufsys \<Rightarrow> bufid \<Rightarrow> buf_element outcome" where
  "elem_of s b = of_opt (bs_elem s b)"

definition upd_elem :: "bufid \<Rightarrow> (buf_element \<Rightarrow> buf_element) \<Rightarrow> 'w bufsys \<Rightarrow> 'w bufsys outcome" where
  "upd_elem b g s = obind (elem_of s b) (\<lambda>e. Ret (s\<lparr>bs_elem := (bs_elem s)(b \<mapsto> g e)\<rparr>))"

definition fifo_of :: "'w bufsys \<Rightarrow> fifoid \<Rightarrow> fifo_buffer outcome" where
  "fifo_of s f = of_opt (bs_fifo s f)"

definition upd_fifo :: "fifoid \<Rightarrow> (fifo_buffer \<Rightarrow> fifo_buffer) \<Rightarrow> 'w bufsys \<Rightarrow> 'w bufsys outcome" where
  "upd_fifo f g s = obind (fifo_of s f) (\<lambda>F. Ret (s\<lparr>bs_fifo := (bs_fifo s)(f \<mapsto> g F)\<rparr>))"

lemmas buf_access = elem_of_def upd_elem_def fifo_of_def upd_fifo_def

text \<open>\<open>for(i = 0; cb[i]; i++) cb[i](fifo, buf, cb_data[i])\<close>\<close>

fun run_cbs :: "'w cb_run \<Rightarrow> fifoid \<Rightarrow> bufid option \<Rightarrow> cb_array \<Rightarrow> 'w bufsys \<Rightarrow> 'w bufsys outcome" where
  "run_cbs run f b [] s = Fault"
| "run_cbs run f b ((None, d) # cbs) s = Ret s"
| "run_cbs run f b ((Some c, d) # cbs) s =
     run_cbs run f b cbs (s\<lparr>bs_world := run c f b d s\<rparr>)"

section \<open>The pool\<close>

text \<open>\<open>buffer_pool_free\<close>: the element goes back to the pool it came from.\<close>

definition buffer_pool_free :: "bufid \<Rightarrow> 'w bufsys \<Rightarrow> 'w bufsys outcome" where
  "buffer_pool_free b s =
     obind (elem_of s b) (\<lambda>e.
     obind (fifo_of s (be_source e)) (\<lambda>F.
     obind (upd_elem b (\<lambda>e. e\<lparr>be_next := ff_pool_top F\<rparr>) s) (\<lambda>s1.
     obind (upd_fifo (be_source e)
              (\<lambda>F. F\<lparr>ff_pool_top := Some b, ff_num_free := ff_num_free F + 1\<rparr>) s1) (\<lambda>s2.
     if ff_num_free F + 1 > ff_capacity F then Fault else Ret s2))))"

text \<open>The sane values both allocation functions write.\<close>

definition buf_reset :: "buf_element \<Rightarrow> buf_element" where
  "buf_reset e =
     e\<lparr>be_content := be_mem e, be_pts := 0, be_size := 0, be_decoder_flags := 0,
       be_decoder_info := replicate BUF_NUM_DEC_INFO 0,
       be_decoder_info_ptr := replicate BUF_NUM_DEC_INFO 0,
       be_extra_info := extra_info_reset\<rparr>"

text \<open>Taking the top of the pool: the three statements both functions share.\<close>

definition pool_pop :: "fifoid \<Rightarrow> bufid ptr \<Rightarrow> 'w bufsys \<Rightarrow> (bufid \<times> 'w bufsys) outcome" where
  "pool_pop f t s =
     obind (of_opt t) (\<lambda>b.
     obind (elem_of s b) (\<lambda>e.
     obind (upd_fifo f (\<lambda>F. F\<lparr>ff_pool_top := be_next e, ff_num_free := ff_num_free F - 1\<rparr>) s)
       (\<lambda>s1. Ret (b, s1))))"

definition buffer_pool_alloc ::
  "'w cb_run \<Rightarrow> fifoid \<Rightarrow> 'w bufsys \<Rightarrow> (bufid \<times> 'w bufsys) outcome" where
  "buffer_pool_alloc run f s =
     obind (fifo_of s f) (\<lambda>F.
     obind (run_cbs run f None (ff_alloc_cb F) s) (\<lambda>s1.
     if ff_num_free F < 2 then Wait
     else obind (pool_pop f (ff_pool_top F) s1) (\<lambda>(b, s2).
          obind (upd_elem b buf_reset s2) (\<lambda>s3. Ret (b, s3)))))"

definition buffer_pool_try_alloc ::
  "fifoid \<Rightarrow> 'w bufsys \<Rightarrow> (bufid option \<times> 'w bufsys) outcome" where
  "buffer_pool_try_alloc f s =
     obind (fifo_of s f) (\<lambda>F.
     if ff_pool_top F \<noteq> None then
       obind (pool_pop f (ff_pool_top F) s) (\<lambda>(b, s1).
       obind (upd_elem b buf_reset s1) (\<lambda>s2. Ret (Some b, s2)))
     else Ret (None, s))"

section \<open>The fifo\<close>

definition fifo_buffer_put ::
  "'w cb_run \<Rightarrow> fifoid \<Rightarrow> bufid \<Rightarrow> 'w bufsys \<Rightarrow> 'w bufsys outcome" where
  "fifo_buffer_put run f b s =
     obind (fifo_of s f) (\<lambda>F.
     obind (run_cbs run f (Some b) (ff_put_cb F) s) (\<lambda>s1.
     obind (case ff_last F of
              Some l \<Rightarrow> upd_elem l (\<lambda>e. e\<lparr>be_next := Some b\<rparr>) s1
            | None \<Rightarrow> upd_fifo f (\<lambda>F. F\<lparr>ff_first := Some b\<rparr>) s1) (\<lambda>s2.
     obind (upd_fifo f (\<lambda>F. F\<lparr>ff_last := Some b\<rparr>) s2) (\<lambda>s3.
     obind (upd_elem b (\<lambda>e. e\<lparr>be_next := None\<rparr>) s3) (\<lambda>s4.
     obind (elem_of s4 b) (\<lambda>e.
     upd_fifo f (\<lambda>F. F\<lparr>ff_size := ff_size F + 1,
                        ff_data_size := ff_data_size F + word_of_int (be_size e)\<rparr>) s4))))))"

definition fifo_buffer_insert :: "fifoid \<Rightarrow> bufid \<Rightarrow> 'w bufsys \<Rightarrow> 'w bufsys outcome" where
  "fifo_buffer_insert f b s =
     obind (fifo_of s f) (\<lambda>F.
     obind (upd_elem b (\<lambda>e. e\<lparr>be_next := ff_first F\<rparr>) s) (\<lambda>s1.
     obind (elem_of s1 b) (\<lambda>e.
     upd_fifo f (\<lambda>F. F\<lparr>ff_first := Some b,
                        ff_last := (if ff_last F = None then Some b else ff_last F),
                        ff_size := ff_size F + 1,
                        ff_data_size := ff_data_size F + word_of_int (be_size e)\<rparr>) s1)))"

definition fifo_buffer_get ::
  "'w cb_run \<Rightarrow> fifoid \<Rightarrow> 'w bufsys \<Rightarrow> (bufid \<times> 'w bufsys) outcome" where
  "fifo_buffer_get run f s =
     obind (fifo_of s f) (\<lambda>F.
     case ff_first F of
       None \<Rightarrow> Wait
     | Some b \<Rightarrow>
         obind (elem_of s b) (\<lambda>e.
         obind (upd_fifo f
                  (\<lambda>F. F\<lparr>ff_first := be_next e,
                         ff_last := (if be_next e = None then None else ff_last F),
                         ff_size := ff_size F - 1,
                         ff_data_size := ff_data_size F - word_of_int (be_size e)\<rparr>) s) (\<lambda>s1.
         obind (run_cbs run f (Some b) (ff_get_cb F) s1) (\<lambda>s2. Ret (b, s2)))))"

definition is_control :: "buf_element \<Rightarrow> bool" where
  "is_control e \<longleftrightarrow> be_type e AND BUF_MAJOR_MASK = BUF_CONTROL_BASE"

text \<open>The loop of \<open>fifo_buffer_clear\<close> over \<open>buf\<close> and \<open>prev\<close>.\<close>

fun clear_loop ::
  "nat \<Rightarrow> fifoid \<Rightarrow> bufid ptr \<Rightarrow> bufid ptr \<Rightarrow> 'w bufsys \<Rightarrow> 'w bufsys outcome" where
  "clear_loop 0 f buf prev s = Spin"
| "clear_loop (Suc k) f buf prev s =
     (case buf of
        None \<Rightarrow> Ret s
      | Some b \<Rightarrow>
          obind (elem_of s b) (\<lambda>e.
          if \<not> is_control e then
            obind (case prev of
                     Some p \<Rightarrow> upd_elem p (\<lambda>e'. e'\<lparr>be_next := be_next e\<rparr>) s
                   | None \<Rightarrow> upd_fifo f (\<lambda>F. F\<lparr>ff_first := be_next e\<rparr>) s) (\<lambda>s1.
            obind (if be_next e = None then upd_fifo f (\<lambda>F. F\<lparr>ff_last := prev\<rparr>) s1
                   else Ret s1) (\<lambda>s2.
            obind (upd_fifo f
                     (\<lambda>F. F\<lparr>ff_size := ff_size F - 1,
                            ff_data_size := ff_data_size F - word_of_int (be_size e)\<rparr>) s2) (\<lambda>s3.
            obind (buffer_pool_free b s3) (\<lambda>s4.
            clear_loop k f (be_next e) prev s4))))
          else clear_loop k f (be_next e) buf s))"

definition fifo_buffer_clear :: "nat \<Rightarrow> fifoid \<Rightarrow> 'w bufsys \<Rightarrow> 'w bufsys outcome" where
  "fifo_buffer_clear k f s = obind (fifo_of s f) (\<lambda>F. clear_loop k f (ff_first F) None s)"

definition fifo_buffer_size :: "fifoid \<Rightarrow> 'w bufsys \<Rightarrow> int outcome" where
  "fifo_buffer_size f s = obind (fifo_of s f) (\<lambda>F. Ret (ff_size F))"

definition fifo_buffer_data_size :: "fifoid \<Rightarrow> 'w bufsys \<Rightarrow> u32 outcome" where
  "fifo_buffer_data_size f s = obind (fifo_of s f) (\<lambda>F. Ret (ff_data_size F))"

definition fifo_buffer_num_free :: "fifoid \<Rightarrow> 'w bufsys \<Rightarrow> int outcome" where
  "fifo_buffer_num_free f s = obind (fifo_of s f) (\<lambda>F. Ret (ff_num_free F))"

text \<open>
  \<open>fifo_buffer_dispose\<close>: free the pool, then take the control buffers that
  \<open>clear\<close> left in the fifo, until as many elements were received as were made.
\<close>

definition free_elem :: "bufid \<Rightarrow> 'w bufsys \<Rightarrow> 'w bufsys outcome" where
  "free_elem b s = obind (elem_of s b) (\<lambda>e. Ret (s\<lparr>bs_elem := (bs_elem s)(b := None)\<rparr>))"

fun dispose_pool :: "nat \<Rightarrow> bufid ptr \<Rightarrow> nat \<Rightarrow> 'w bufsys \<Rightarrow> (nat \<times> 'w bufsys) outcome" where
  "dispose_pool 0 buf received s = Spin"
| "dispose_pool (Suc k) buf received s =
     (case buf of
        None \<Rightarrow> Ret (received, s)
      | Some b \<Rightarrow>
          obind (elem_of s b) (\<lambda>e.
          obind (free_elem b s) (\<lambda>s1. dispose_pool k (be_next e) (received + 1) s1)))"

fun dispose_rest :: "nat \<Rightarrow> 'w cb_run \<Rightarrow> fifoid \<Rightarrow> 'w bufsys \<Rightarrow> 'w bufsys outcome" where
  "dispose_rest 0 run f s = Ret s"
| "dispose_rest (Suc missing) run f s =
     obind (fifo_buffer_get run f s) (\<lambda>(b, s1).
     obind (free_elem b s1) (\<lambda>s2. dispose_rest missing run f s2))"

definition fifo_buffer_dispose ::
  "nat \<Rightarrow> 'w cb_run \<Rightarrow> fifoid \<Rightarrow> 'w bufsys \<Rightarrow> 'w bufsys outcome" where
  "fifo_buffer_dispose k run f s =
     obind (fifo_buffer_clear k f s) (\<lambda>s1.
     obind (fifo_of s1 f) (\<lambda>F.
     obind (dispose_pool k (ff_pool_top F) 0 s1) (\<lambda>(received, s2).
     obind (dispose_rest (nat (ff_capacity F) - received) run f s2) (\<lambda>s3.
     Ret (s3\<lparr>bs_fifo := (bs_fifo s3)(f := None)\<rparr>)))))"

section \<open>Callback registration\<close>

text \<open>
  Registration writes the callback over the first NULL unless that is the last entry, and
  a NULL behind it. \<open>cb_shift\<close> is the inner loop of the unregister functions
  (\<open>cb[j] = cb[j+1]\<close> while \<open>cb[j]\<close>), \<open>cb_unregister\<close> the outer loop:
  its index moves on after a removal.
\<close>

fun first_null :: "cb_array \<Rightarrow> nat outcome" where
  "first_null [] = Fault"
| "first_null ((None, d) # cbs) = Ret 0"
| "first_null ((Some c, d) # cbs) = obind (first_null cbs) (\<lambda>i. Ret (i + 1))"

definition cb_register :: "nat \<Rightarrow> nat \<Rightarrow> cb_array \<Rightarrow> cb_array outcome" where
  "cb_register c d cbs =
     obind (first_null cbs) (\<lambda>i.
     if i \<noteq> BUF_MAX_CALLBACKS - 1 then
       obind (aset cbs i (Some c, d)) (\<lambda>cbs1.
       obind (aget cbs1 (i + 1)) (\<lambda>x. aset cbs1 (i + 1) (None, snd x)))
     else Ret cbs)"

fun cb_shift :: "cb_array \<Rightarrow> cb_array outcome" where
  "cb_shift [] = Fault"
| "cb_shift ((None, d) # cbs) = Ret ((None, d) # cbs)"
| "cb_shift [(Some c, d)] = Fault"
| "cb_shift ((Some c, d) # x # cbs) = obind (cb_shift (x # cbs)) (\<lambda>ys. Ret (x # ys))"

fun cb_unreg_loop :: "nat \<Rightarrow> nat \<Rightarrow> cb_array \<Rightarrow> nat \<Rightarrow> cb_array outcome" where
  "cb_unreg_loop 0 c cbs i = Spin"
| "cb_unreg_loop (Suc k) c cbs i =
     obind (aget cbs i) (\<lambda>x.
     if fst x = None then Ret cbs
     else if fst x = Some c then
       obind (cb_shift (drop i cbs)) (\<lambda>ys. cb_unreg_loop k c (take i cbs @ ys) (i + 1))
     else cb_unreg_loop k c cbs (i + 1))"

definition cb_unregister :: "nat \<Rightarrow> cb_array \<Rightarrow> cb_array outcome" where
  "cb_unregister c cbs = cb_unreg_loop (Suc (length cbs)) c cbs 0"

definition fifo_register_alloc_cb :: "nat \<Rightarrow> nat \<Rightarrow> fifoid \<Rightarrow> 'w bufsys \<Rightarrow> 'w bufsys outcome" where
  "fifo_register_alloc_cb c d f s =
     obind (fifo_of s f) (\<lambda>F. obind (cb_register c d (ff_alloc_cb F)) (\<lambda>cbs.
     upd_fifo f (\<lambda>F. F\<lparr>ff_alloc_cb := cbs\<rparr>) s))"

definition fifo_register_put_cb :: "nat \<Rightarrow> nat \<Rightarrow> fifoid \<Rightarrow> 'w bufsys \<Rightarrow> 'w bufsys outcome" where
  "fifo_register_put_cb c d f s =
     obind (fifo_of s f) (\<lambda>F. obind (cb_register c d (ff_put_cb F)) (\<lambda>cbs.
     upd_fifo f (\<lambda>F. F\<lparr>ff_put_cb := cbs\<rparr>) s))"

definition fifo_register_get_cb :: "nat \<Rightarrow> nat \<Rightarrow> fifoid \<Rightarrow> 'w bufsys \<Rightarrow> 'w bufsys outcome" where
  "fifo_register_get_cb c d f s =
     obind (fifo_of s f) (\<lambda>F. obind (cb_register c d (ff_get_cb F)) (\<lambda>cbs.
     upd_fifo f (\<lambda>F. F\<lparr>ff_get_cb := cbs\<rparr>) s))"

definition fifo_unregister_alloc_cb :: "nat \<Rightarrow> fifoid \<Rightarrow> 'w bufsys \<Rightarrow> 'w bufsys outcome" where
  "fifo_unregister_alloc_cb c f s =
     obind (fifo_of s f) (\<lambda>F. obind (cb_unregister c (ff_alloc_cb F)) (\<lambda>cbs.
     upd_fifo f (\<lambda>F. F\<lparr>ff_alloc_cb := cbs\<rparr>) s))"

definition fifo_unregister_put_cb :: "nat \<Rightarrow> fifoid \<Rightarrow> 'w bufsys \<Rightarrow> 'w bufsys outcome" where
  "fifo_unregister_put_cb c f s =
     obind (fifo_of s f) (\<lambda>F. obind (cb_unregister c (ff_put_cb F)) (\<lambda>cbs.
     upd_fifo f (\<lambda>F. F\<lparr>ff_put_cb := cbs\<rparr>) s))"

definition fifo_unregister_get_cb :: "nat \<Rightarrow> fifoid \<Rightarrow> 'w bufsys \<Rightarrow> 'w bufsys outcome" where
  "fifo_unregister_get_cb c f s =
     obind (fifo_of s f) (\<lambda>F. obind (cb_unregister c (ff_get_cb F)) (\<lambda>cbs.
     upd_fifo f (\<lambda>F. F\<lparr>ff_get_cb := cbs\<rparr>) s))"

section \<open>Making a fifo\<close>

text \<open>
  \<open>addr i\<close> is the address malloc returns for the i-th element, \<open>mb\<close> the start
  of the aligned chunk, \<open>ei\<close> what the uninitialised extra_info holds.
\<close>

definition round_buf_size :: "u32 \<Rightarrow> u32" where
  "round_buf_size n = (if n mod 2048 \<noteq> 0 then n + (2048 - n mod 2048) else n)"

definition new_elem :: "extra_info \<Rightarrow> int \<Rightarrow> u32 \<Rightarrow> fifoid \<Rightarrow> buf_element" where
  "new_elem ei mem sz f =
     \<lparr>be_next = None, be_mem = mem, be_content = 0, be_size = 0, be_max_size = sint sz,
      be_type = 0, be_pts = 0, be_disc_off = 0, be_extra_info = ei, be_decoder_flags = 0,
      be_decoder_info = replicate BUF_NUM_DEC_INFO 0,
      be_decoder_info_ptr = replicate BUF_NUM_DEC_INFO 0, be_source = f\<rparr>"

fun new_loop ::
  "extra_info \<Rightarrow> (nat \<Rightarrow> bufid) \<Rightarrow> u32 \<Rightarrow> fifoid \<Rightarrow> nat \<Rightarrow> nat \<Rightarrow> int \<Rightarrow> 'w bufsys \<Rightarrow> 'w bufsys outcome" where
  "new_loop ei addr sz f i 0 mb s = Ret s"
| "new_loop ei addr sz f i (Suc todo) mb s =
     obind (buffer_pool_free (addr i)
              (s\<lparr>bs_elem := (bs_elem s)(addr i \<mapsto> new_elem ei mb sz f)\<rparr>)) (\<lambda>s1.
     new_loop ei addr sz f (i + 1) todo (mb + uint sz) s1)"

definition fifo_buffer_new ::
  "extra_info \<Rightarrow> (nat \<Rightarrow> bufid) \<Rightarrow> int \<Rightarrow> fifoid \<Rightarrow> int \<Rightarrow> u32 \<Rightarrow> 'w bufsys \<Rightarrow> 'w bufsys outcome" where
  "fifo_buffer_new ei addr mb f num_buffers buf_size s =
     (let sz = round_buf_size buf_size;
          cbs = replicate BUF_MAX_CALLBACKS (None, 0);
          F = \<lparr>ff_first = None, ff_last = None, ff_size = 0, ff_data_size = 0,
               ff_pool_top = None, ff_num_free = 0, ff_capacity = num_buffers,
               ff_buf_size = sint sz, ff_alloc_cb = cbs, ff_put_cb = cbs, ff_get_cb = cbs\<rparr>
      in new_loop ei addr sz f 0 (nat num_buffers) mb (s\<lparr>bs_fifo := (bs_fifo s)(f \<mapsto> F)\<rparr>))"

end
