(* ===== verification/Buf_Fifo_Inv.thy ===== *)
theory Buf_Fifo_Inv
  imports Buf_Fifo
begin

text \<open>
  The representation invariant of the buffer system and the refinement of every operation:
  \<open>sys_ok s Q P\<close> says that fifo \<open>f\<close> holds the elements \<open>Q f\<close> in this
  order and its pool the elements \<open>P f\<close>, that no element is in two places, and that
  a pool cannot outgrow its capacity. Each operation on the linked store acts on
  \<open>Q\<close> and \<open>P\<close> as the list operation it is meant to be, and cannot fault.
\<close>

section \<open>Abstraction\<close>

definition nxt :: "(bufid \<rightharpoonup> buf_element) \<Rightarrow> bufid \<Rightarrow> bufid ptr option" where
  "nxt m = (\<lambda>b. map_option be_next (m b))"

text \<open>An element without its link.\<close>

definition payload :: "(bufid \<rightharpoonup> buf_element) \<Rightarrow> bufid \<rightharpoonup> buf_element" where
  "payload m = (\<lambda>b. map_option (\<lambda>e. e\<lparr>be_next := None\<rparr>) (m b))"

definition szs :: "(bufid \<rightharpoonup> buf_element) \<Rightarrow> bufid \<Rightarrow> u32" where
  "szs m b = (case m b of None \<Rightarrow> 0 | Some e \<Rightarrow> word_of_int (be_size e))"

definition owned :: "(bufid \<rightharpoonup> buf_element) \<Rightarrow> fifoid \<Rightarrow> bufid set" where
  "owned m f = {b. \<exists>e. m b = Some e \<and> be_source e = f}"

abbreviation links :: "'w bufsys \<Rightarrow> bufid \<Rightarrow> bufid ptr option" where
  "links s \<equiv> nxt (bs_elem s)"

abbreviation sizes :: "'w bufsys \<Rightarrow> bufid \<Rightarrow> u32" where
  "sizes s \<equiv> szs (payload (bs_elem s))"

abbreviation own :: "'w bufsys \<Rightarrow> fifoid \<Rightarrow> bufid set" where
  "own s f \<equiv> owned (payload (bs_elem s)) f"

text \<open>Which fifos exist, and the capacities of their pools.\<close>

definition capmap :: "(fifoid \<rightharpoonup> fifo_buffer) \<Rightarrow> fifoid \<rightharpoonup> int" where
  "capmap m = (\<lambda>f. map_option ff_capacity (m f))"

abbreviation caps :: "'w bufsys \<Rightarrow> fifoid \<rightharpoonup> int" where
  "caps s \<equiv> capmap (bs_fifo s)"

definition cb_wf :: "cb_array \<Rightarrow> bool" where
  "cb_wf cbs \<longleftrightarrow> length cbs = BUF_MAX_CALLBACKS \<and> fst (cbs ! (BUF_MAX_CALLBACKS - 1)) = None"

definition fifo_rep ::
  "(bufid \<Rightarrow> bufid ptr option) \<Rightarrow> (bufid \<Rightarrow> u32) \<Rightarrow> fifo_buffer \<Rightarrow> bufid list \<Rightarrow> bufid list \<Rightarrow> bool" where
  "fifo_rep n z F q p \<longleftrightarrow>
     lseg n (ff_first F) q None \<and> ff_last F = (if q = [] then None else Some (last q)) \<and>
     ff_size F = int (length q) \<and> ff_data_size F = sum_list (map z q) \<and>
     lseg n (ff_pool_top F) p None \<and> ff_num_free F = int (length p)"

definition fifo_ok :: "'w bufsys \<Rightarrow> fifoid \<Rightarrow> bufid list \<Rightarrow> bufid list \<Rightarrow> bool" where
  "fifo_ok s f q p \<longleftrightarrow>
     (case bs_fifo s f of
        None \<Rightarrow> q = [] \<and> p = []
      | Some F \<Rightarrow>
          fifo_rep (links s) (sizes s) F q p \<and>
          cb_wf (ff_alloc_cb F) \<and> cb_wf (ff_put_cb F) \<and> cb_wf (ff_get_cb F) \<and>
          set p \<subseteq> own s f \<and> finite (own s f) \<and>
          int (card (own s f)) \<le> ff_capacity F)"

definition sys_ok :: "'w bufsys \<Rightarrow> (fifoid \<Rightarrow> bufid list) \<Rightarrow> (fifoid \<Rightarrow> bufid list) \<Rightarrow> bool" where
  "sys_ok s Q P \<longleftrightarrow>
     (\<forall>f. fifo_ok s f (Q f) (P f)) \<and>
     (\<forall>f g. f \<noteq> g \<longrightarrow> set (Q f) \<inter> set (Q g) = {}) \<and>
     (\<forall>f g. set (Q f) \<inter> set (P g) = {})"

text \<open>An element a client holds: allocated, in no fifo and in no pool.\<close>

definition held :: "(fifoid \<Rightarrow> bufid list) \<Rightarrow> (fifoid \<Rightarrow> bufid list) \<Rightarrow> 'w bufsys \<Rightarrow> bufid \<Rightarrow> bool" where
  "held Q P s b \<longleftrightarrow> bs_elem s b \<noteq> None \<and> (\<forall>f. b \<notin> set (Q f) \<and> b \<notin> set (P f))"

section \<open>Simplification of updates\<close>

lemma nxt_upd [simp]: "nxt (m(b \<mapsto> e)) = (nxt m)(b \<mapsto> be_next e)"
  by (auto simp: nxt_def fun_eq_iff)

lemma payload_upd [simp]: "payload (m(b \<mapsto> e)) = (payload m)(b \<mapsto> e\<lparr>be_next := None\<rparr>)"
  by (auto simp: payload_def fun_eq_iff)

lemma payload_same [simp]:
  "m b = Some e \<Longrightarrow> (payload m)(b \<mapsto> e\<lparr>be_next := None\<rparr>) = payload m"
  by (auto simp: payload_def fun_eq_iff)

lemma payload_Some: "bs_elem s b = Some e \<Longrightarrow> payload (bs_elem s) b = Some (e\<lparr>be_next := None\<rparr>)"
  by (simp add: payload_def)

lemma payload_None_iff [simp]: "payload (bs_elem s) b = None \<longleftrightarrow> bs_elem s b = None"
  by (simp add: payload_def)

lemma nxt_Some_iff: "links s b = Some n \<longleftrightarrow> (\<exists>e. bs_elem s b = Some e \<and> be_next e = n)"
  by (auto simp: nxt_def)

lemma capmap_upd [simp]: "capmap (m(f \<mapsto> F)) = (capmap m)(f \<mapsto> ff_capacity F)"
  by (auto simp: capmap_def fun_eq_iff)

lemma capmap_same [simp]: "m f = Some F \<Longrightarrow> (capmap m)(f \<mapsto> ff_capacity F) = capmap m"
  by (auto simp: capmap_def fun_eq_iff)

lemma caps_Some:
  "caps s' = caps s \<Longrightarrow> bs_fifo s f = Some F \<Longrightarrow> \<exists>F'. bs_fifo s' f = Some F' \<and> ff_capacity F' = ff_capacity F"
  by (auto simp: capmap_def fun_eq_iff dest: spec [of _ f])

lemma caps_None: "caps s' = caps s \<Longrightarrow> bs_fifo s' f = None \<longleftrightarrow> bs_fifo s f = None"
  by (auto simp: capmap_def fun_eq_iff dest: spec [of _ f])

lemma fifo_rep_cong:
  assumes "\<And>b. b \<in> set q \<union> set p \<Longrightarrow> n b = n' b" and "\<And>b. b \<in> set q \<Longrightarrow> z b = z' b"
  shows "fifo_rep n z F q p = fifo_rep n' z' F q p"
proof -
  have "lseg n x q None = lseg n' x q None" "lseg n x p None = lseg n' x p None" for x
    using assms(1) by (auto intro!: lseg_cong)
  moreover have "sum_list (map z q) = sum_list (map z' q)"
    using assms(2) by (simp cong: map_cong)
  ultimately show ?thesis by (simp add: fifo_rep_def)
qed

section \<open>Facts about a well-formed system\<close>

lemma sys_ok_fifo_ok: "sys_ok s Q P \<Longrightarrow> fifo_ok s f (Q f) (P f)"
  by (simp add: sys_ok_def)

lemma sys_ok_fifo: "sys_ok s Q P \<Longrightarrow> bs_fifo s f = Some F \<Longrightarrow>
    fifo_rep (links s) (sizes s) F (Q f) (P f)"
  by (drule sys_ok_fifo_ok [of _ _ _ f]) (simp add: fifo_ok_def)

lemma sys_ok_cb:
  assumes "sys_ok s Q P" and "bs_fifo s f = Some F"
  shows "cb_wf (ff_alloc_cb F)" "cb_wf (ff_put_cb F)" "cb_wf (ff_get_cb F)"
  using sys_ok_fifo_ok [OF assms(1), of f] assms(2) by (simp_all add: fifo_ok_def)

lemma sys_ok_owned:
  assumes "sys_ok s Q P" and "bs_fifo s f = Some F"
  shows "set (P f) \<subseteq> own s f" "finite (own s f)"
    "int (card (own s f)) \<le> ff_capacity F"
  using sys_ok_fifo_ok [OF assms(1), of f] assms(2) by (simp_all add: fifo_ok_def)

lemma sys_ok_queue_None: "sys_ok s Q P \<Longrightarrow> bs_fifo s f = None \<Longrightarrow> Q f = [] \<and> P f = []"
  by (drule sys_ok_fifo_ok [of _ _ _ f]) (simp add: fifo_ok_def)

lemma sys_ok_distinct:
  assumes "sys_ok s Q P"
  shows "distinct (Q f)" "distinct (P f)"
  using assms sys_ok_queue_None [OF assms, of f] sys_ok_fifo [OF assms, of f]
  by (cases "bs_fifo s f"; auto simp: fifo_rep_def dest: lseg_distinct)+

lemma sys_ok_alloc:
  assumes "sys_ok s Q P" and "b \<in> set (Q f) \<union> set (P f)"
  shows "bs_elem s b \<noteq> None"
proof (cases "bs_fifo s f")
  case None
  with assms sys_ok_queue_None show ?thesis by fastforce
next
  case (Some F)
  with assms sys_ok_fifo have "links s b \<noteq> None"
    by (fastforce simp: fifo_rep_def dest: lseg_allocated)
  then show ?thesis by (simp add: nxt_def)
qed

lemma sys_ok_pool_source:
  assumes "sys_ok s Q P" and "b \<in> set (P f)" and "bs_elem s b = Some e"
  shows "be_source e = f"
proof (cases "bs_fifo s f")
  case None
  with assms sys_ok_queue_None show ?thesis by fastforce
next
  case (Some F)
  with assms sys_ok_owned(1) have "b \<in> own s f" by blast
  with assms(3) show ?thesis by (auto simp: owned_def payload_def)
qed

lemma sys_ok_pool_disjoint:
  assumes "sys_ok s Q P" and "f \<noteq> g"
  shows "set (P f) \<inter> set (P g) = {}"
proof -
  have False if "b \<in> set (P f)" "b \<in> set (P g)" for b
  proof -
    from assms(1) that(1) obtain e where e: "bs_elem s b = Some e"
      using sys_ok_alloc [of s Q P b f] by auto
    then have "be_source e = f" "be_source e = g"
      using that assms(1) sys_ok_pool_source by blast+
    with assms(2) show False by simp
  qed
  then show ?thesis by blast
qed

lemma sys_ok_world [simp]: "sys_ok (s\<lparr>bs_world := w\<rparr>) Q P = sys_ok s Q P"
  by (simp add: sys_ok_def fifo_ok_def cong: option.case_cong)

lemma held_world [simp]: "held Q P (s\<lparr>bs_world := w\<rparr>) b = held Q P s b"
  by (simp add: held_def)

lemma run_cbs_wf:
  assumes "cb_wf cbs"
  shows "\<exists>w. run_cbs run f b cbs s = Ret (s\<lparr>bs_world := w\<rparr>)"
proof -
  have "None \<in> fst ` set cbs"
    using assms by (auto simp: cb_wf_def BUF_MAX_CALLBACKS_def image_iff intro!: bexI [of _ "cbs ! 4"])
  then show ?thesis
  proof (induction run f b cbs s rule: run_cbs.induct)
    case (1 run f b s)
    then show ?case by simp
  next
    case (2 run f b d cbs s)
    show ?case by (auto intro: exI [of _ "bs_world s"])
  next
    case (3 run f b c d cbs s)
    from 3(2) have "None \<in> fst ` set cbs" by auto
    from 3(1) [OF this] show ?case by fastforce
  qed
qed

text \<open>
  Building \<open>sys_ok\<close> after a step that works on fifo \<open>f\<close> and changes links only
  outside the lists of the others.
\<close>

lemma sys_ok_step:
  assumes ok: "sys_ok s Q P"
    and f: "fifo_ok s' f q p"
    and fifos: "\<And>g. g \<noteq> f \<Longrightarrow> bs_fifo s' g = bs_fifo s g"
    and lk: "\<And>b g. g \<noteq> f \<Longrightarrow> b \<in> set (Q g) \<union> set (P g) \<Longrightarrow> links s' b = links s b"
    and sz: "\<And>b g. g \<noteq> f \<Longrightarrow> b \<in> set (Q g) \<Longrightarrow> sizes s' b = sizes s b"
    and owners: "\<And>g. g \<noteq> f \<Longrightarrow> own s' g = own s g"
    and disj: "\<And>g. g \<noteq> f \<Longrightarrow> set q \<inter> set (Q g) = {} \<and> set q \<inter> set (P g) = {} \<and> set p \<inter> set (Q g) = {}"
    and qp: "set q \<inter> set p = {}"
  shows "sys_ok s' (Q(f := q)) (P(f := p))"
proof -
  have "fifo_ok s' g (Q g) (P g)" if "g \<noteq> f" for g
  proof -
    from ok have "fifo_ok s g (Q g) (P g)" by (simp add: sys_ok_def)
    moreover have "fifo_rep (links s') (sizes s') F (Q g) (P g) =
        fifo_rep (links s) (sizes s) F (Q g) (P g)" for F
      using lk [OF that] sz [OF that] by (intro fifo_rep_cong) auto
    ultimately show ?thesis
      using fifos [OF that] owners [OF that] by (simp add: fifo_ok_def cong: option.case_cong)
  qed
  with f have "fifo_ok s' g ((Q(f := q)) g) ((P(f := p)) g)" for g
    by simp
  moreover have "set ((Q(f := q)) g) \<inter> set ((Q(f := q)) h) = {}" if "g \<noteq> h" for g h
    using ok disj [of g] disj [of h] that by (auto simp: sys_ok_def)
  moreover have "set ((Q(f := q)) g) \<inter> set ((P(f := p)) h) = {}" for g h
    using ok disj [of g] disj [of h] qp by (auto simp: sys_ok_def)
  ultimately show ?thesis by (simp add: sys_ok_def)
qed




lemma held_facts:
  assumes "held Q P s b"
  shows "b \<notin> set (Q f)" "b \<notin> set (P f)" "\<exists>e. bs_elem s b = Some e"
  using assms by (auto simp: held_def)

lemma sys_ok_apart:
  assumes "sys_ok s Q P"
  shows "f \<noteq> g \<Longrightarrow> x \<in> set (Q f) \<Longrightarrow> x \<notin> set (Q g)"
    "x \<in> set (Q f) \<Longrightarrow> x \<notin> set (P g)"
    "f \<noteq> g \<Longrightarrow> x \<in> set (P f) \<Longrightarrow> x \<notin> set (P g)"
proof -
  show "x \<notin> set (Q g)" if "f \<noteq> g" "x \<in> set (Q f)"
    using assms that unfolding sys_ok_def by blast
  show "x \<notin> set (P g)" if "x \<in> set (Q f)"
    using assms that unfolding sys_ok_def by blast
  show "x \<notin> set (P g)" if "f \<noteq> g" "x \<in> set (P f)"
    using sys_ok_pool_disjoint [OF assms that(1)] that(2) by blast
qed

definition nowhere :: "(fifoid \<Rightarrow> bufid list) \<Rightarrow> (fifoid \<Rightarrow> bufid list) \<Rightarrow> bufid \<Rightarrow> bool" where
  "nowhere Q P x \<longleftrightarrow> (\<forall>g. x \<notin> set (Q g) \<and> x \<notin> set (P g))"

definition same_cfg :: "fifo_buffer \<Rightarrow> fifo_buffer \<Rightarrow> bool" where
  "same_cfg F F' \<longleftrightarrow> ff_capacity F' = ff_capacity F \<and> ff_buf_size F' = ff_buf_size F \<and>
     ff_alloc_cb F' = ff_alloc_cb F \<and> ff_put_cb F' = ff_put_cb F \<and> ff_get_cb F' = ff_get_cb F"

lemma sys_ok_relink:
  assumes ok: "sys_ok s Q P" and F: "bs_fifo s f = Some F"
    and F': "bs_fifo s' = (bs_fifo s)(f \<mapsto> F')" "same_cfg F F'"
    and rep: "fifo_rep (links s') (sizes s') F' q p"
    and own: "\<And>g. own s' g = own s g"
    and sz: "\<And>x g. g \<noteq> f \<Longrightarrow> x \<in> set (Q g) \<Longrightarrow> sizes s' x = sizes s x"
    and lk: "\<And>x. links s' x \<noteq> links s x \<Longrightarrow> x \<in> set (Q f) \<or> x \<in> set (P f) \<or> nowhere Q P x"
    and q: "\<And>x. x \<in> set q \<Longrightarrow> x \<in> set (Q f) \<or> nowhere Q P x"
    and p: "\<And>x. x \<in> set p \<Longrightarrow> (x \<in> set (P f) \<or> x \<in> set (Q f) \<or> nowhere Q P x) \<and> x \<in> own s f"
    and qp: "set q \<inter> set p = {}"
  shows "sys_ok s' (Q(f := q)) (P(f := p))"
proof (rule sys_ok_step [OF ok])
  show "fifo_ok s' f q p"
    using rep F' own sys_ok_owned [OF ok F] sys_ok_cb [OF ok F] p
    by (auto simp: fifo_ok_def same_cfg_def)
next
  fix b g assume g: "g \<noteq> f" and b: "b \<in> set (Q g) \<union> set (P g)"
  then have "b \<notin> set (Q f)" "b \<notin> set (P f)" "\<not> nowhere Q P b"
    using sys_ok_apart [OF ok] by (auto simp: nowhere_def)
  then show "links s' b = links s b" using lk by blast
next
  fix g assume g: "g \<noteq> f"
  have "x \<notin> set (Q g) \<and> x \<notin> set (P g)" if "x \<in> set q" for x
    using q [OF that] sys_ok_apart(1) [OF ok, of f g x] sys_ok_apart(2) [OF ok, of x f g] g
    by (auto simp: nowhere_def)
  moreover have "x \<notin> set (Q g)" if "x \<in> set p" for x
    using p [OF that] sys_ok_apart(1) [OF ok, of f g x] sys_ok_apart(2) [OF ok, of x g f] g
    by (auto simp: nowhere_def)
  ultimately show "set q \<inter> set (Q g) = {} \<and> set q \<inter> set (P g) = {} \<and> set p \<inter> set (Q g) = {}"
    by blast
qed (use F' own sz qp in auto)

lemma held_nowhere: "held Q P s b \<Longrightarrow> nowhere Q P b"
  by (simp add: held_def nowhere_def)

lemma put_step:
  assumes ok: "sys_ok s Q P" and F: "bs_fifo s f = Some F" and h: "held Q P s b"
  shows "\<exists>s'. fifo_buffer_put run f b s = Ret s' \<and> sys_ok s' (Q(f := Q f @ [b])) P \<and>
    payload (bs_elem s') = payload (bs_elem s) \<and> caps s' = caps s"
proof -
  obtain w where w: "run_cbs run f (Some b) (ff_put_cb F) s = Ret (s\<lparr>bs_world := w\<rparr>)"
    using run_cbs_wf [OF sys_ok_cb(2) [OF ok F], of run f "Some b" s] by (rule exE)
  obtain e where e: "bs_elem s b = Some e" using h held_facts(3) by blast
  note rep = sys_ok_fifo [OF ok F, unfolded fifo_rep_def]
  note h' = held_facts [OF h] held_nowhere [OF h]
  define F' where "F' = (\<lambda>first. F\<lparr>ff_first := first, ff_last := Some b, ff_size := ff_size F + 1,
      ff_data_size := ff_data_size F + word_of_int (be_size e)\<rparr>)"
  define S where "S = (\<lambda>first m. s\<lparr>bs_world := w, bs_elem := m, bs_fifo := (bs_fifo s)(f \<mapsto> F' first)\<rparr>)"
  have okf: "sys_ok (S first m) (Q(f := Q f @ [b])) (P(f := P f))"
    if m: "payload m = payload (bs_elem s)"
      and n: "\<And>x. nxt m x \<noteq> links s x \<Longrightarrow> x \<in> set (Q f) \<or> x = b"
      and seg: "lseg (nxt m) first (Q f @ [b]) None" for first m
  proof (rule sys_ok_relink [OF ok F, where F' = "F' first"])
    have "nxt m x = links s x" if "x \<in> set (P f)" for x
      using n [of x] that h'(2) [of f] sys_ok_apart(2) [OF ok, of x f f] by blast
    then have "lseg (nxt m) (ff_pool_top F) (P f) None"
      using rep lseg_cong [of "P f" "nxt m" "links s"] by simp
    then show "fifo_rep (links (S first m)) (sizes (S first m)) (F' first) (Q f @ [b]) (P f)"
      using rep seg e by (simp add: fifo_rep_def S_def F'_def m szs_def payload_Some)
  qed (use n h' sys_ok_owned [OF ok F] sys_ok_apart(2) [OF ok] in
        \<open>auto simp: S_def F'_def same_cfg_def m\<close>)
  show ?thesis
  proof (cases "Q f = []")
    case True
    have "fifo_buffer_put run f b s = Ret (S (Some b) ((bs_elem s)(b \<mapsto> e\<lparr>be_next := None\<rparr>)))"
      using True w e F rep by (simp add: fifo_buffer_put_def buf_access S_def F'_def)
    moreover have "sys_ok (S (Some b) ((bs_elem s)(b \<mapsto> e\<lparr>be_next := None\<rparr>))) (Q(f := Q f @ [b])) (P(f := P f))"
      by (rule okf) (use True e in \<open>auto simp: split: if_splits\<close>)
    ultimately show ?thesis using F e by (auto simp: S_def F'_def)
  next
    case False
    define l where "l = last (Q f)"
    from False have l: "l \<in> set (Q f)" by (simp add: l_def)
    with ok obtain el where el: "bs_elem s l = Some el" using sys_ok_alloc [OF ok, of l f] by auto
    have lb: "l \<noteq> b" using l h'(1) by blast
    let ?m = "(bs_elem s)(l \<mapsto> el\<lparr>be_next := Some b\<rparr>, b \<mapsto> e\<lparr>be_next := None\<rparr>)"
    have "fifo_buffer_put run f b s = Ret (S (ff_first F) ?m)"
      using False w e F rep el lb by (simp add: fifo_buffer_put_def buf_access l_def S_def F'_def)
    moreover have "sys_ok (S (ff_first F) ?m) (Q(f := Q f @ [b])) (P(f := P f))"
    proof (rule okf)
      have q: "Q f = butlast (Q f) @ [l]" using False by (simp add: l_def)
      then have "lseg ((links s)(l := Some (Some b), b := Some None)) (ff_first F) (butlast (Q f) @ [l, b]) None"
        using rep h'(1) [of f] by (intro lseg_snoc) auto
      then show "lseg (nxt ?m) (ff_first F) (Q f @ [b]) None"
        using q by (simp) (metis append.assoc append_Cons append_Nil)
    qed (use lb l el e in \<open>auto split: if_splits\<close>)
    ultimately show ?thesis using F e el lb by (auto simp: S_def F'_def)
  qed
qed


lemma insert_step:
  assumes ok: "sys_ok s Q P" and F: "bs_fifo s f = Some F" and h: "held Q P s b"
  shows "\<exists>s'. fifo_buffer_insert f b s = Ret s' \<and> sys_ok s' (Q(f := b # Q f)) P \<and>
    payload (bs_elem s') = payload (bs_elem s) \<and> caps s' = caps s"
proof -
  obtain e where e: "bs_elem s b = Some e" using h held_facts(3) by blast
  note rep = sys_ok_fifo [OF ok F, unfolded fifo_rep_def]
  note h' = held_facts [OF h] held_nowhere [OF h]
  define F' where "F' = F\<lparr>ff_first := Some b, ff_last := (if ff_last F = None then Some b else ff_last F),
      ff_size := ff_size F + 1, ff_data_size := ff_data_size F + word_of_int (be_size e)\<rparr>"
  define s' where "s' = s\<lparr>bs_elem := (bs_elem s)(b \<mapsto> e\<lparr>be_next := ff_first F\<rparr>), bs_fifo := (bs_fifo s)(f \<mapsto> F')\<rparr>"
  have "fifo_buffer_insert f b s = Ret s'"
    using e F by (simp add: fifo_buffer_insert_def buf_access s'_def F'_def)
  moreover have "sys_ok s' (Q(f := b # Q f)) (P(f := P f))"
  proof (rule sys_ok_relink [OF ok F, where F' = F'])
    show "fifo_rep (links s') (sizes s') F' (b # Q f) (P f)"
      using rep e h'(1,2) [of f] by (simp add: fifo_rep_def s'_def F'_def szs_def payload_Some)
  qed (use h' e sys_ok_owned [OF ok F] sys_ok_apart(2) [OF ok] in
        \<open>auto simp: s'_def F'_def same_cfg_def split: if_splits\<close>)
  ultimately show ?thesis using F e by (auto simp: s'_def F'_def)
qed

lemma get_step:
  assumes ok: "sys_ok s Q P" and F: "bs_fifo s f = Some F" and q: "Q f = b # qs"
  shows "\<exists>s'. fifo_buffer_get run f s = Ret (b, s') \<and> sys_ok s' (Q(f := qs)) P \<and>
    payload (bs_elem s') = payload (bs_elem s) \<and> caps s' = caps s"
proof -
  obtain e where e: "bs_elem s b = Some e" using sys_ok_alloc [OF ok, of b f] q by auto
  note rep = sys_ok_fifo [OF ok F, unfolded fifo_rep_def]
  define F' where "F' = F\<lparr>ff_first := be_next e, ff_last := (if be_next e = None then None else ff_last F),
      ff_size := ff_size F - 1, ff_data_size := ff_data_size F - word_of_int (be_size e)\<rparr>"
  define s1 where "s1 = s\<lparr>bs_fifo := (bs_fifo s)(f \<mapsto> F')\<rparr>"
  obtain w where w: "run_cbs run f (Some b) (ff_get_cb F) s1 = Ret (s1\<lparr>bs_world := w\<rparr>)"
    using run_cbs_wf [OF sys_ok_cb(3) [OF ok F], of run f "Some b" s1] by (rule exE)
  from rep q e have seg: "lseg (links s) (be_next e) qs None" by (auto simp: nxt_def)
  then have nil: "be_next e = None \<longleftrightarrow> qs = []" by (auto simp: lseg_start split: list.splits)
  have "fifo_buffer_get run f s = Ret (b, s1\<lparr>bs_world := w\<rparr>)"
    using e F rep q w by (simp add: fifo_buffer_get_def buf_access s1_def F'_def)
  moreover have "sys_ok s1 (Q(f := qs)) (P(f := P f))"
  proof (rule sys_ok_relink [OF ok F, where F' = F'])
    show "fifo_rep (links s1) (sizes s1) F' qs (P f)"
      using rep e q seg nil by (simp add: fifo_rep_def s1_def F'_def szs_def payload_Some)
  qed (use q sys_ok_owned [OF ok F] sys_ok_apart(2) [OF ok, of _ f f] in
        \<open>auto simp: s1_def F'_def same_cfg_def split: if_splits\<close>)
  ultimately show ?thesis using F e by (auto simp: s1_def F'_def)
qed

lemma get_waits:
  assumes ok: "sys_ok s Q P" and F: "bs_fifo s f = Some F" and q: "Q f = []"
  shows "fifo_buffer_get run f s = Wait"
  using sys_ok_fifo [OF ok F] q F by (auto simp: fifo_rep_def fifo_buffer_get_def buf_access)

lemma free_step:
  assumes ok: "sys_ok s Q P" and h: "held Q P s b" and e: "bs_elem s b = Some e"
    and F: "bs_fifo s (be_source e) = Some F"
  shows "\<exists>s'. buffer_pool_free b s = Ret s' \<and> sys_ok s' Q (P(be_source e := b # P (be_source e))) \<and>
    payload (bs_elem s') = payload (bs_elem s) \<and> caps s' = caps s"
proof -
  let ?f = "be_source e"
  note rep = sys_ok_fifo [OF ok F, unfolded fifo_rep_def]
  note h' = held_facts [OF h] held_nowhere [OF h]
  note own = sys_ok_owned [OF ok F]
  define F' where "F' = F\<lparr>ff_pool_top := Some b, ff_num_free := ff_num_free F + 1\<rparr>"
  define s' where "s' = s\<lparr>bs_elem := (bs_elem s)(b \<mapsto> e\<lparr>be_next := ff_pool_top F\<rparr>), bs_fifo := (bs_fifo s)(?f \<mapsto> F')\<rparr>"
  have b: "b \<in> own s ?f" using e by (simp add: owned_def payload_Some)
  have "length (b # P ?f) = card (set (b # P ?f))"
    using h'(2) [of ?f] sys_ok_distinct(2) [OF ok, of ?f] by (simp add: distinct_card)
  also have "\<dots> \<le> card (own s ?f)"
    using b own(1,2) by (intro card_mono) auto
  finally have cap: "int (length (P ?f)) + 1 \<le> ff_capacity F" using own(3) by simp
  have "buffer_pool_free b s = Ret s'"
    using e F rep cap by (simp add: buffer_pool_free_def buf_access s'_def F'_def)
  moreover have "sys_ok s' (Q(?f := Q ?f)) (P(?f := b # P ?f))"
  proof (rule sys_ok_relink [OF ok F, where F' = F'])
    show "fifo_rep (links s') (sizes s') F' (Q ?f) (b # P ?f)"
      using rep e h'(1,2) [of ?f] by (simp add: fifo_rep_def s'_def F'_def)
  qed (use h' e b own sys_ok_apart(2) [OF ok, of _ ?f ?f] in
        \<open>auto simp: s'_def F'_def same_cfg_def split: if_splits\<close>)
  ultimately show ?thesis using F e by (auto simp: s'_def F'_def)
qed

lemma held_write:
  assumes ok: "sys_ok s Q P" and n: "nowhere Q P b" and e: "bs_elem s b = Some e"
    and src: "be_source e' = be_source e"
  shows "sys_ok (s\<lparr>bs_elem := (bs_elem s)(b \<mapsto> e')\<rparr>) Q P"
proof -
  let ?s = "s\<lparr>bs_elem := (bs_elem s)(b \<mapsto> e')\<rparr>"
  have own: "own ?s g = own s g" for g
    using e src by (auto simp: owned_def payload_def)
  have "fifo_rep (links ?s) (sizes ?s) F (Q g) (P g) = fifo_rep (links s) (sizes s) F (Q g) (P g)" for F g
    using n by (intro fifo_rep_cong) (auto simp: nowhere_def szs_def)
  then have "fifo_ok ?s g (Q g) (P g) = fifo_ok s g (Q g) (P g)" for g
    using own by (simp add: fifo_ok_def cong: option.case_cong)
  then show ?thesis using ok by (simp add: sys_ok_def)
qed

lemma pop_step:
  assumes ok: "sys_ok s Q P" and F: "bs_fifo s f = Some F" and p: "P f = b # ps"
  shows "\<exists>s' e. bs_elem s b = Some e \<and>
    pool_pop f (ff_pool_top F) s = Ret (b, s') \<and> bs_elem s' = bs_elem s \<and>
    upd_elem b buf_reset s' = Ret (s'\<lparr>bs_elem := (bs_elem s)(b \<mapsto> buf_reset e)\<rparr>) \<and>
    sys_ok (s'\<lparr>bs_elem := (bs_elem s)(b \<mapsto> buf_reset e)\<rparr>) Q (P(f := ps)) \<and>
    caps s' = caps s"
proof -
  obtain e where e: "bs_elem s b = Some e" using sys_ok_alloc [OF ok, of b f] p by auto
  note rep = sys_ok_fifo [OF ok F, unfolded fifo_rep_def]
  define F' where "F' = F\<lparr>ff_pool_top := be_next e, ff_num_free := ff_num_free F - 1\<rparr>"
  define s1 where "s1 = s\<lparr>bs_fifo := (bs_fifo s)(f \<mapsto> F')\<rparr>"
  from rep p e have seg: "lseg (links s) (be_next e) ps None" by (auto simp: nxt_def)
  have "pool_pop f (ff_pool_top F) s = Ret (b, s1)"
    using e F rep p by (simp add: pool_pop_def buf_access s1_def F'_def)
  moreover have ok1: "sys_ok s1 (Q(f := Q f)) (P(f := ps))"
  proof (rule sys_ok_relink [OF ok F, where F' = F'])
    show "fifo_rep (links s1) (sizes s1) F' (Q f) ps"
      using rep p seg by (simp add: fifo_rep_def s1_def F'_def)
  qed (use p sys_ok_owned [OF ok F] sys_ok_apart(2) [OF ok, of _ f f] in
        \<open>auto simp: s1_def F'_def same_cfg_def split: if_splits\<close>)
  moreover have "nowhere Q (P(f := ps)) b"
    using p sys_ok_distinct(2) [OF ok, of f] sys_ok_apart(2) [OF ok, of b _ f] sys_ok_apart(3) [OF ok, of f _ b]
    by (auto simp: nowhere_def)
  moreover have "bs_elem s1 = bs_elem s" by (simp add: s1_def)
  ultimately have "sys_ok (s1\<lparr>bs_elem := (bs_elem s1)(b \<mapsto> buf_reset e)\<rparr>) Q (P(f := ps))"
    using e by (intro held_write [where e = e]) (auto simp: buf_reset_def)
  then show ?thesis
    using e F \<open>pool_pop f (ff_pool_top F) s = Ret (b, s1)\<close> \<open>bs_elem s1 = bs_elem s\<close>
    by (intro exI [of _ s1] exI [of _ e]) (auto simp: buf_access s1_def F'_def)
qed

lemma alloc_step:
  assumes ok: "sys_ok s Q P" and F: "bs_fifo s f = Some F" and p: "P f = b # c # ps"
  shows "\<exists>s' e. bs_elem s b = Some e \<and> buffer_pool_alloc run f s = Ret (b, s') \<and>
    bs_elem s' = (bs_elem s)(b \<mapsto> buf_reset e) \<and> sys_ok s' Q (P(f := c # ps)) \<and>
    caps s' = caps s"
proof -
  obtain w where w: "run_cbs run f None (ff_alloc_cb F) s = Ret (s\<lparr>bs_world := w\<rparr>)"
    using run_cbs_wf [OF sys_ok_cb(1) [OF ok F], of run f None s] by (rule exE)
  have ok': "sys_ok (s\<lparr>bs_world := w\<rparr>) Q P" "bs_fifo (s\<lparr>bs_world := w\<rparr>) f = Some F"
    using ok F by simp_all
  from pop_step [OF ok' p] obtain s' e where
    "bs_elem s b = Some e" "pool_pop f (ff_pool_top F) (s\<lparr>bs_world := w\<rparr>) = Ret (b, s')"
    "upd_elem b buf_reset s' = Ret (s'\<lparr>bs_elem := (bs_elem s)(b \<mapsto> buf_reset e)\<rparr>)"
    "sys_ok (s'\<lparr>bs_elem := (bs_elem s)(b \<mapsto> buf_reset e)\<rparr>) Q (P(f := c # ps))"
    "caps s' = caps s" by auto
  moreover have "\<not> ff_num_free F < 2" using sys_ok_fifo [OF ok F] p by (simp add: fifo_rep_def)
  ultimately show ?thesis using w F
    by (intro exI [of _ "s'\<lparr>bs_elem := (bs_elem s)(b \<mapsto> buf_reset e)\<rparr>"] exI [of _ e])
      (simp add: buffer_pool_alloc_def fifo_of_def)
qed

lemma alloc_waits:
  assumes ok: "sys_ok s Q P" and F: "bs_fifo s f = Some F" and p: "length (P f) < 2"
  shows "buffer_pool_alloc run f s = Wait"
proof -
  obtain w where w: "run_cbs run f None (ff_alloc_cb F) s = Ret (s\<lparr>bs_world := w\<rparr>)"
    using run_cbs_wf [OF sys_ok_cb(1) [OF ok F], of run f None s] by (rule exE)
  then show ?thesis
    using sys_ok_fifo [OF ok F] p F by (simp add: buffer_pool_alloc_def fifo_of_def fifo_rep_def)
qed

lemma try_alloc_step:
  assumes ok: "sys_ok s Q P" and F: "bs_fifo s f = Some F"
  shows "case P f of
      [] \<Rightarrow> buffer_pool_try_alloc f s = Ret (None, s)
    | b # ps \<Rightarrow> \<exists>s' e. bs_elem s b = Some e \<and> buffer_pool_try_alloc f s = Ret (Some b, s') \<and>
        bs_elem s' = (bs_elem s)(b \<mapsto> buf_reset e) \<and> sys_ok s' Q (P(f := ps)) \<and>
        caps s' = caps s"
proof (cases "P f")
  case Nil
  then show ?thesis using sys_ok_fifo [OF ok F] F
    by (simp add: buffer_pool_try_alloc_def fifo_of_def fifo_rep_def)
next
  case (Cons b ps)
  from pop_step [OF ok F Cons] obtain s' e where
    "bs_elem s b = Some e" "pool_pop f (ff_pool_top F) s = Ret (b, s')"
    "upd_elem b buf_reset s' = Ret (s'\<lparr>bs_elem := (bs_elem s)(b \<mapsto> buf_reset e)\<rparr>)"
    "sys_ok (s'\<lparr>bs_elem := (bs_elem s)(b \<mapsto> buf_reset e)\<rparr>) Q (P(f := ps))"
    "caps s' = caps s" by auto
  moreover have "ff_pool_top F \<noteq> None" using sys_ok_fifo [OF ok F] Cons by (auto simp: fifo_rep_def)
  ultimately show ?thesis using F Cons
    by (auto intro!: exI [of _ "s'\<lparr>bs_elem := (bs_elem s)(b \<mapsto> buf_reset e)\<rparr>"] simp: buffer_pool_try_alloc_def fifo_of_def)
qed


section \<open>Clearing a fifo\<close>

definition ctl :: "(bufid \<rightharpoonup> buf_element) \<Rightarrow> bufid \<Rightarrow> bool" where
  "ctl m b = (case m b of None \<Rightarrow> False | Some e \<Rightarrow> is_control e)"

lemma ctl_Some: "m b = Some e \<Longrightarrow> ctl m b = is_control e"
  by (simp add: ctl_def)

definition source_is :: "(bufid \<rightharpoonup> buf_element) \<Rightarrow> fifoid \<Rightarrow> bufid \<Rightarrow> bool" where
  "source_is m f b = (case m b of None \<Rightarrow> False | Some e \<Rightarrow> be_source e = f)"

text \<open>Where the removed elements go: each to the pool it came from, the last one on top.\<close>

definition released :: "(bufid \<rightharpoonup> buf_element) \<Rightarrow> bufid list \<Rightarrow> (fifoid \<Rightarrow> bufid list) \<Rightarrow> fifoid \<Rightarrow> bufid list" where
  "released m bs P g = rev (filter (\<lambda>b. \<not> ctl m b \<and> source_is m g b) bs) @ P g"

lemma released_Nil [simp]: "released m [] P = P"
  by (simp add: released_def fun_eq_iff)

lemma released_Cons:
  "m b = Some e \<Longrightarrow> released m (b # bs) P =
     (if is_control e then released m bs P
      else released m bs (P(be_source e := b # P (be_source e))))"
  by (auto simp: released_def ctl_def source_is_def fun_eq_iff)

lemma ctl_payload [simp]: "ctl (payload m) = ctl m"
  by (auto simp: ctl_def payload_def is_control_def fun_eq_iff split: option.splits)

lemma source_is_payload [simp]: "source_is (payload m) = source_is m"
  by (auto simp: source_is_def payload_def fun_eq_iff split: option.splits)

lemma released_payload [simp]: "released (payload m) = released m"
  by (simp add: released_def fun_eq_iff)

lemma unlink_step:
  assumes ok: "sys_ok s Q P" and F: "bs_fifo s f = Some F" and q: "Q f = kept @ b # rest"
    and e: "bs_elem s b = Some e"
  shows "\<exists>s1 s2 s3.
    (case (if kept = [] then None else Some (last kept)) of
       Some p \<Rightarrow> upd_elem p (\<lambda>e'. e'\<lparr>be_next := be_next e\<rparr>) s
     | None \<Rightarrow> upd_fifo f (\<lambda>F. F\<lparr>ff_first := be_next e\<rparr>) s) = Ret s1 \<and>
    (if be_next e = None
     then upd_fifo f (\<lambda>F. F\<lparr>ff_last := (if kept = [] then None else Some (last kept))\<rparr>) s1
     else Ret s1) = Ret s2 \<and>
    upd_fifo f (\<lambda>F. F\<lparr>ff_size := ff_size F - 1,
       ff_data_size := ff_data_size F - word_of_int (be_size e)\<rparr>) s2 = Ret s3 \<and>
    sys_ok s3 (Q(f := kept @ rest)) P \<and>
    payload (bs_elem s3) = payload (bs_elem s) \<and> caps s3 = caps s \<and>
    bs_elem s3 b = Some e"
proof -
  note rep = sys_ok_fifo [OF ok F, unfolded fifo_rep_def]
  have dist: "distinct (kept @ b # rest)" using sys_ok_distinct(1) [OF ok, of f] q by simp
  have seg: "lseg (links s) (be_next e) rest None"
    using rep q e by (auto simp: lseg_append nxt_def)
  then have nil: "be_next e = None \<longleftrightarrow> rest = []" by (auto simp: lseg_start split: list.splits)
  have okf: "sys_ok (s\<lparr>bs_elem := m, bs_fifo := (bs_fifo s)(f \<mapsto> F')\<rparr>) (Q(f := kept @ rest)) P"
    if m: "payload m = payload (bs_elem s)"
      and n: "\<And>x. nxt m x \<noteq> links s x \<Longrightarrow> x \<in> set (Q f)"
      and sg: "lseg (nxt m) (ff_first F') (kept @ rest) None"
      and la: "ff_last F' = (if kept @ rest = [] then None else Some (last (kept @ rest)))"
      and F': "ff_size F' = ff_size F - 1" "ff_data_size F' = ff_data_size F - word_of_int (be_size e)"
        "ff_pool_top F' = ff_pool_top F" "ff_num_free F' = ff_num_free F" "same_cfg F F'"
    for m F'
  proof -
    let ?s = "s\<lparr>bs_elem := m, bs_fifo := (bs_fifo s)(f \<mapsto> F')\<rparr>"
    have "sys_ok ?s (Q(f := kept @ rest)) (P(f := P f))"
    proof (rule sys_ok_relink [OF ok F, where F' = F'])
      have "nxt m x = links s x" if "x \<in> set (P f)" for x
        using n [of x] that sys_ok_apart(2) [OF ok, of x f f] by blast
      then have "lseg (nxt m) (ff_pool_top F) (P f) None"
        using rep lseg_cong [of "P f" "nxt m" "links s"] by simp
      then show "fifo_rep (links ?s) (sizes ?s) F' (kept @ rest) (P f)"
        using rep sg la F' e q by (auto simp: fifo_rep_def m szs_def payload_Some)
    qed (use n q F' sys_ok_owned [OF ok F] sys_ok_apart(2) [OF ok, of _ f f] in \<open>auto simp: m\<close>)
    then show ?thesis by simp
  qed
  show ?thesis
  proof (cases "kept = []")
    case True
    let ?F = "(if be_next e = None then F\<lparr>ff_first := be_next e, ff_last := None\<rparr> else F\<lparr>ff_first := be_next e\<rparr>)
      \<lparr>ff_size := ff_size F - 1, ff_data_size := ff_data_size F - word_of_int (be_size e)\<rparr>"
    have "sys_ok (s\<lparr>bs_elem := bs_elem s, bs_fifo := (bs_fifo s)(f \<mapsto> ?F)\<rparr>) (Q(f := kept @ rest)) P"
      by (rule okf) (use True seg nil rep q in \<open>auto simp: same_cfg_def\<close>)
    then show ?thesis using True F e by (auto simp: upd_fifo_def fifo_of_def)
  next
    case False
    define l where "l = last kept"
    have k: "kept = butlast kept @ [l]" using False by (simp add: l_def)
    have l: "l \<in> set (Q f)" using False q by (simp add: l_def)
    obtain el where el: "bs_elem s l = Some el" using sys_ok_alloc [OF ok, of l f] l by auto
    have lb: "l \<noteq> b" using dist False by (auto simp: l_def)
    let ?m = "(bs_elem s)(l \<mapsto> el\<lparr>be_next := be_next e\<rparr>)"
    let ?F = "(if be_next e = None then F\<lparr>ff_last := Some l\<rparr> else F)
      \<lparr>ff_size := ff_size F - 1, ff_data_size := ff_data_size F - word_of_int (be_size e)\<rparr>"
    have "lseg (links s) (ff_first F) (butlast kept @ l # b # rest) None"
      using rep q k by (metis append.assoc append_Cons append_Nil)
    then have "lseg ((links s)(l := links s b)) (ff_first F) (butlast kept @ l # rest) None"
      by (rule lseg_unlink)
    moreover have "(links s)(l := links s b) = nxt ?m" using e by (simp add: nxt_def fun_eq_iff)
    ultimately have sg: "lseg (nxt ?m) (ff_first F) (kept @ rest) None"
      using k by (metis append.assoc append_Cons append_Nil)
    have "sys_ok (s\<lparr>bs_elem := ?m, bs_fifo := (bs_fifo s)(f \<mapsto> ?F)\<rparr>) (Q(f := kept @ rest)) P"
      by (rule okf) (use el l sg nil rep q False in \<open>auto simp: same_cfg_def l_def split: if_splits\<close>)
    moreover have "payload ?m = payload (bs_elem s)" using el by simp
    ultimately show ?thesis using False F e el lb
      by (auto simp: upd_fifo_def fifo_of_def upd_elem_def elem_of_def l_def [symmetric])
  qed
qed

lemma clear_loop_ok:
  assumes "sys_ok s Q P" and "bs_fifo s f = Some F" and "Q f = kept @ rest"
    and "buf = (case rest of [] \<Rightarrow> None | b # _ \<Rightarrow> Some b)"
    and "prev = (if kept = [] then None else Some (last kept))"
    and "length rest < k"
    and "\<And>b e. b \<in> set rest \<Longrightarrow> bs_elem s b = Some e \<Longrightarrow> bs_fifo s (be_source e) \<noteq> None"
  shows "\<exists>s'. clear_loop k f buf prev s = Ret s' \<and>
    sys_ok s' (Q(f := kept @ filter (ctl (bs_elem s)) rest)) (released (bs_elem s) rest P) \<and>
    payload (bs_elem s') = payload (bs_elem s) \<and> caps s' = caps s"
  using assms
proof (induction rest arbitrary: s Q P F kept buf prev k)
  case Nil
  then have "Q(f := kept) = Q" by auto
  with Nil show ?case by (cases k) auto
next
  case (Cons b rest)
  from Cons.prems obtain k' where k: "k = Suc k'" by (cases k) auto
  obtain e where e: "bs_elem s b = Some e"
    using sys_ok_alloc [OF Cons.prems(1), of b f] Cons.prems(3) by auto
  have seg: "lseg (links s) (be_next e) rest None"
    using sys_ok_fifo [OF Cons.prems(1,2)] Cons.prems(3) e by (auto simp: fifo_rep_def lseg_append nxt_def)
  have nx: "be_next e = (case rest of [] \<Rightarrow> None | b # _ \<Rightarrow> Some b)"
    using lseg_start [OF seg] .
  show ?case
  proof (cases "is_control e")
    case True
    then have "clear_loop k f buf prev s = clear_loop k' f (be_next e) (Some b) s"
      using k e Cons.prems(4) by (simp add: elem_of_def)
    moreover have "\<exists>s'. clear_loop k' f (be_next e) (Some b) s = Ret s' \<and>
      sys_ok s' (Q(f := (kept @ [b]) @ filter (ctl (bs_elem s)) rest)) (released (bs_elem s) rest P) \<and>
      payload (bs_elem s') = payload (bs_elem s) \<and> caps s' = caps s"
      by (rule Cons.IH [OF Cons.prems(1,2)]) (use Cons.prems k nx in auto)
    moreover have "kept @ filter (ctl (bs_elem s)) (b # rest) = (kept @ [b]) @ filter (ctl (bs_elem s)) rest"
      "released (bs_elem s) (b # rest) P = released (bs_elem s) rest P"
      using True e by (simp_all add: released_Cons ctl_Some)
    ultimately show ?thesis by (simp only:)
  next
    case False
    from unlink_step [OF Cons.prems(1,2,3) e] obtain s1 s2 s3 where
      st: "(case prev of Some p \<Rightarrow> upd_elem p (\<lambda>e'. e'\<lparr>be_next := be_next e\<rparr>) s
        | None \<Rightarrow> upd_fifo f (\<lambda>F. F\<lparr>ff_first := be_next e\<rparr>) s) = Ret s1"
      "(if be_next e = None then upd_fifo f (\<lambda>F. F\<lparr>ff_last := prev\<rparr>) s1 else Ret s1) = Ret s2"
      "upd_fifo f (\<lambda>F. F\<lparr>ff_size := ff_size F - 1,
         ff_data_size := ff_data_size F - word_of_int (be_size e)\<rparr>) s2 = Ret s3"
      and ok3: "sys_ok s3 (Q(f := kept @ rest)) P"
      and p3: "payload (bs_elem s3) = payload (bs_elem s)" "caps s3 = caps s"
        "bs_elem s3 b = Some e"
      unfolding Cons.prems(5) [symmetric] by blast
    obtain G where G: "bs_fifo s3 (be_source e) = Some G"
      using Cons.prems(7) [of b e] e caps_None [OF p3(2), of "be_source e"] by auto
    have dist: "distinct (kept @ b # rest)" using sys_ok_distinct(1) [OF Cons.prems(1), of f] Cons.prems(3) by simp
    have h3: "held (Q(f := kept @ rest)) P s3 b"
      using dist p3(3) Cons.prems(3) sys_ok_apart(1) [OF Cons.prems(1), of f _ b]
        sys_ok_apart(2) [OF Cons.prems(1), of b f] by (auto simp: held_def)
    from free_step [OF ok3 h3 p3(3) G] obtain s4 where
      s4: "buffer_pool_free b s3 = Ret s4"
        "sys_ok s4 (Q(f := kept @ rest)) (P(be_source e := b # P (be_source e)))"
        "payload (bs_elem s4) = payload (bs_elem s)" "caps s4 = caps s"
      using p3(1,2) by auto
    have eqs: "clear_loop k f buf prev s = clear_loop k' f (be_next e) prev s4"
      using k e Cons.prems(4) False st s4(1) by (simp add: elem_of_def)
    obtain F4 where F4: "bs_fifo s4 f = Some F4" using caps_Some [OF s4(4) Cons.prems(2)] by auto
    have pe: "ctl (bs_elem s4) = ctl (bs_elem s)" "released (bs_elem s4) = released (bs_elem s)"
      using s4(3) by (metis ctl_payload, metis released_payload)
    have src: "bs_fifo s4 (be_source e') \<noteq> None" if x: "x \<in> set rest" "bs_elem s4 x = Some e'" for x e'
    proof -
      from x(2) s4(3) have "payload (bs_elem s) x = Some (e'\<lparr>be_next := None\<rparr>)"
        by (metis payload_Some)
      then obtain e2 where "bs_elem s x = Some e2" "be_source e2 = be_source e'"
        by (auto simp: payload_def dest: arg_cong [where f = be_source])
      then show ?thesis using Cons.prems(7) [of x e2] x(1) caps_None [OF s4(4), of "be_source e'"] by auto
    qed
    have "\<exists>s'. clear_loop k' f (be_next e) prev s4 = Ret s' \<and>
      sys_ok s' ((Q(f := kept @ rest))(f := kept @ filter (ctl (bs_elem s4)) rest))
        (released (bs_elem s4) rest (P(be_source e := b # P (be_source e)))) \<and>
      payload (bs_elem s') = payload (bs_elem s4) \<and> caps s' = caps s4"
      by (rule Cons.IH [OF s4(2) F4]) (use Cons.prems k nx src in auto)
    moreover have "filter (ctl (bs_elem s)) (b # rest) = filter (ctl (bs_elem s)) rest"
      "released (bs_elem s) (b # rest) P =
        released (bs_elem s) rest (P(be_source e := b # P (be_source e)))"
      using False e by (simp_all add: released_Cons ctl_Some)
    ultimately show ?thesis by (simp only: eqs s4(3,4) pe fun_upd_upd)
  qed
qed

definition sources_ok :: "'w bufsys \<Rightarrow> bool" where
  "sources_ok s \<longleftrightarrow> (\<forall>b e. bs_elem s b = Some e \<longrightarrow> bs_fifo s (be_source e) \<noteq> None)"

lemma clear_step:
  assumes ok: "sys_ok s Q P" and F: "bs_fifo s f = Some F" and src: "sources_ok s"
    and k: "length (Q f) < k"
  shows "\<exists>s'. fifo_buffer_clear k f s = Ret s' \<and>
    sys_ok s' (Q(f := filter (ctl (bs_elem s)) (Q f))) (released (bs_elem s) (Q f) P) \<and>
    payload (bs_elem s') = payload (bs_elem s) \<and> caps s' = caps s"
proof -
  have "ff_first F = (case Q f of [] \<Rightarrow> None | b # _ \<Rightarrow> Some b)"
    using sys_ok_fifo [OF ok F] by (auto simp: fifo_rep_def dest: lseg_start)
  then show ?thesis
    using clear_loop_ok [OF ok F, of "[]" "Q f" "ff_first F" None k] src k F
    by (simp add: fifo_buffer_clear_def fifo_of_def sources_ok_def)
qed


section \<open>Making a fifo\<close>

lemma dom_payload [simp]: "dom (payload m) = dom m"
  by (auto simp: payload_def)

lemma add_elem:
  assumes ok: "sys_ok s Q P" and F: "bs_fifo s (be_source e) = Some F" and b: "bs_elem s b = None"
    and cap: "int (card (own s (be_source e))) < ff_capacity F"
  shows "sys_ok (s\<lparr>bs_elem := (bs_elem s)(b \<mapsto> e)\<rparr>) Q P"
    and "held Q P (s\<lparr>bs_elem := (bs_elem s)(b \<mapsto> e)\<rparr>) b"
    and "own (s\<lparr>bs_elem := (bs_elem s)(b \<mapsto> e)\<rparr>) g = (if g = be_source e then insert b (own s g) else own s g)"
proof -
  let ?s = "s\<lparr>bs_elem := (bs_elem s)(b \<mapsto> e)\<rparr>" and ?f = "be_source e"
  have n: "nowhere Q P b"
    using sys_ok_alloc [OF ok, of b] b by (auto simp: nowhere_def)
  show own: "own ?s g = (if g = ?f then insert b (own s g) else own s g)" for g
    using b by (auto simp: owned_def payload_def)
  have "b \<notin> own s ?f" using b by (auto simp: owned_def payload_def)
  then have card: "int (card (own ?s ?f)) \<le> ff_capacity F" "finite (own ?s ?f)"
    using cap sys_ok_owned(2) [OF ok F] own [of ?f] by simp_all
  have rep: "fifo_rep (links ?s) (sizes ?s) G (Q g) (P g) = fifo_rep (links s) (sizes s) G (Q g) (P g)" for G g
    using n by (intro fifo_rep_cong) (auto simp: nowhere_def szs_def)
  have "fifo_ok ?s g (Q g) (P g)" for g
  proof (cases "g = ?f")
    case True
    then show ?thesis
      using sys_ok_fifo_ok [OF ok, of g] F card own [of g] rep by (auto simp: fifo_ok_def)
  next
    case False
    then show ?thesis
      using sys_ok_fifo_ok [OF ok, of g] own [of g] rep by (simp add: fifo_ok_def cong: option.case_cong)
  qed
  then show "sys_ok ?s Q P" using ok by (simp add: sys_ok_def)
  show "held Q P ?s b" using n by (simp add: held_def nowhere_def)
qed

lemma new_loop_ok:
  assumes "sys_ok s Q P" and "bs_fifo s f = Some F" and "sources_ok s"
    and "int (card (own s f)) = ff_capacity F - int todo"
    and "\<And>j. i \<le> j \<Longrightarrow> j < i + todo \<Longrightarrow> bs_elem s (addr j) = None"
    and "inj_on addr {i..<i + todo}"
  shows "\<exists>s'. new_loop ei addr sz f i todo mb s = Ret s' \<and>
    sys_ok s' Q (P(f := rev (map addr [i..<i + todo]) @ P f)) \<and> sources_ok s' \<and>
    caps s' = caps s \<and>
    dom (bs_elem s') = dom (bs_elem s) \<union> addr ` {i..<i + todo} \<and>
    (\<forall>g. own s' g = (if g = f then own s g \<union> addr ` {i..<i + todo} else own s g))"
  using assms
proof (induction todo arbitrary: s P F i mb)
  case 0
  then show ?case by (auto simp: )
next
  case (Suc todo)
  let ?e = "new_elem ei mb sz f"
  let ?s = "s\<lparr>bs_elem := (bs_elem s)(addr i \<mapsto> ?e)\<rparr>"
  have src: "be_source ?e = f" by (simp add: new_elem_def)
  have F: "bs_fifo s (be_source ?e) = Some F" using Suc.prems(2) src by simp
  have new: "bs_elem s (addr i) = None" using Suc.prems(5) by simp
  have cap: "int (card (own s (be_source ?e))) < ff_capacity F" using Suc.prems(4) src by simp
  note add = add_elem [OF Suc.prems(1) F new cap, unfolded src]
  have e: "bs_elem ?s (addr i) = Some ?e" "bs_fifo ?s (be_source ?e) = Some F" using F by simp_all
  from free_step [OF add(1,2) e(1,2)] src obtain s1 where
    s1: "buffer_pool_free (addr i) ?s = Ret s1" "sys_ok s1 Q (P(f := addr i # P f))"
      "payload (bs_elem s1) = payload (bs_elem ?s)" "caps s1 = caps s" by auto
  obtain F1 where F1: "bs_fifo s1 f = Some F1" "ff_capacity F1 = ff_capacity F" using caps_Some [OF s1(4) Suc.prems(2)] by auto
  have dom1: "dom (bs_elem s1) = insert (addr i) (dom (bs_elem s))"
    using arg_cong [OF s1(3), of dom] by simp
  have own1: "own s1 g = (if g = f then insert (addr i) (own s g) else own s g)" for g
    using s1(3) add(3) [of g] by simp
  have src1: "sources_ok s1"
    unfolding sources_ok_def
  proof (intro allI impI)
    fix x e1 assume x: "bs_elem s1 x = Some e1"
    then have "x \<in> own s1 (be_source e1)" by (simp add: owned_def payload_Some)
    then have "be_source e1 = f \<or> x \<in> own s (be_source e1)" using own1 by (auto split: if_splits)
    then show "bs_fifo s1 (be_source e1) \<noteq> None"
      using F1 Suc.prems(3) caps_None [OF s1(4), of "be_source e1"]
      by (fastforce simp: owned_def sources_ok_def payload_def)
  qed
  have "addr i \<notin> own s f" using new by (auto simp: owned_def payload_def)
  then have card1: "int (card (own s1 f)) = ff_capacity F1 - int todo"
    using own1 [of f] sys_ok_owned(2) [OF Suc.prems(1,2)] Suc.prems(4) F1(2) by simp
  have fresh1: "bs_elem s1 (addr j) = None" if "i + 1 \<le> j" "j < i + 1 + todo" for j
  proof -
    have "addr j \<noteq> addr i" using inj_onD [OF Suc.prems(6), of j i] that by auto
    then show ?thesis using Suc.prems(5) [of j] dom1 that by (auto simp: domIff)
  qed
  have inj1: "inj_on addr {i + 1..<i + 1 + todo}"
    by (rule inj_on_subset [OF Suc.prems(6)]) auto
  have up: "[i..<i + Suc todo] = i # [i + 1..<i + 1 + todo]" by (simp add: upt_rec)
  have img: "addr ` {i..<i + Suc todo} = insert (addr i) (addr ` {i + 1..<i + 1 + todo})"
    by (auto simp: image_iff) (metis Suc_leI le_neq_implies_less atLeastLessThan_iff)
  from Suc.IH [OF s1(2) F1(1) src1 card1 fresh1 inj1, of "mb + uint sz"] obtain s2 where
    "new_loop ei addr sz f (i + 1) todo (mb + uint sz) s1 = Ret s2"
    "sys_ok s2 Q (P(f := rev (map addr [i + 1..<i + 1 + todo]) @ addr i # P f))"
    "sources_ok s2" "caps s2 = caps s" "dom (bs_elem s2) = dom (bs_elem s1) \<union> addr ` {i + 1..<i + 1 + todo}"
    "\<forall>g. own s2 g = (if g = f then own s1 g \<union> addr ` {i + 1..<i + 1 + todo} else own s1 g)"
    unfolding fun_upd_upd fun_upd_same s1(4) by blast
  then show ?case unfolding up img new_loop.simps s1(1) obind.simps dom1
    by (intro exI [of _ s2]) (simp del: upt.simps add: own1 fun_upd_def)
qed

lemma new_step:
  assumes ok: "sys_ok s Q P" and src: "sources_ok s" and f: "bs_fifo s f = None"
    and n: "0 \<le> n" and inj: "inj_on addr {..<nat n}" and fresh: "\<And>i. i < nat n \<Longrightarrow> bs_elem s (addr i) = None"
  shows "\<exists>s'. fifo_buffer_new ei addr mb f n bsz s = Ret s' \<and>
    sys_ok s' Q (P(f := rev (map addr [0..<nat n]))) \<and> sources_ok s' \<and>
    caps s' = (caps s)(f \<mapsto> n) \<and> dom (bs_elem s') = dom (bs_elem s) \<union> addr ` {..<nat n} \<and>
    (\<forall>g. own s' g = (if g = f then addr ` {..<nat n} else own s g))"
proof -
  define sz where "sz = round_buf_size bsz"
  define cbs :: cb_array where "cbs = replicate BUF_MAX_CALLBACKS (None, 0)"
  define F where "F = \<lparr>ff_first = None, ff_last = None, ff_size = 0, ff_data_size = 0,
     ff_pool_top = None, ff_num_free = 0, ff_capacity = n,
     ff_buf_size = sint sz, ff_alloc_cb = cbs, ff_put_cb = cbs, ff_get_cb = cbs\<rparr>"
  let ?s = "s\<lparr>bs_fifo := (bs_fifo s)(f \<mapsto> F)\<rparr>"
  have none: "own s f = {}" using src f by (fastforce simp: owned_def payload_def sources_ok_def)
  have cb: "cb_wf cbs" by (simp add: cb_wf_def cbs_def BUF_MAX_CALLBACKS_def)
  have PQ: "Q f = []" "P f = []" using sys_ok_queue_None [OF ok f] by auto
  have ok1: "sys_ok ?s Q P"
  proof -
    have "fifo_ok ?s g (Q g) (P g)" for g
      using sys_ok_fifo_ok [OF ok, of g] PQ none cb n
      by (cases "g = f")
        (simp_all add: fifo_ok_def fifo_rep_def F_def cong: option.case_cong)
    then show ?thesis using ok by (simp add: sys_ok_def)
  qed
  have src1: "sources_ok ?s" using src by (auto simp: sources_ok_def)
  have "\<exists>s'. new_loop ei addr sz f 0 (nat n) mb ?s = Ret s' \<and>
    sys_ok s' Q (P(f := rev (map addr [0..<0 + nat n]) @ P f)) \<and> sources_ok s' \<and>
    caps s' = caps ?s \<and> dom (bs_elem s') = dom (bs_elem ?s) \<union> addr ` {0..<0 + nat n} \<and>
    (\<forall>g. own s' g = (if g = f then own ?s g \<union> addr ` {0..<0 + nat n} else own ?s g))"
    by (rule new_loop_ok [OF ok1 _ src1, where F = F])
      (use none n inj fresh in \<open>auto simp: F_def lessThan_atLeast0\<close>)
  moreover have "fifo_buffer_new ei addr mb f n bsz s = new_loop ei addr sz f 0 (nat n) mb ?s"
    by (simp add: fifo_buffer_new_def Let_def F_def cbs_def sz_def)
  ultimately show ?thesis using PQ none by (simp add: F_def lessThan_atLeast0 cong: if_cong)
qed

end
