(* ===== verification/Queue_Iface.thy ===== *)
theory Queue_Iface
  imports Xine_Prelude
begin

text \<open>
  The contract of a blocking first-in first-out queue, as several components of the engine
  provide it (the buffer fifo, the event queue): what a put appends, a get removes first, and
  a get on an empty queue waits. The client lemmas are about any such queue.
\<close>

section \<open>Clients\<close>

fun put_all :: "('b \<Rightarrow> 's \<Rightarrow> 's outcome) \<Rightarrow> 'b list \<Rightarrow> 's \<Rightarrow> 's outcome" where
  "put_all put [] s = Ret s"
| "put_all put (b # bs) s = obind (put b s) (put_all put bs)"

fun get_many :: "('s \<Rightarrow> ('b \<times> 's) outcome) \<Rightarrow> nat \<Rightarrow> 's \<Rightarrow> ('b list \<times> 's) outcome" where
  "get_many get 0 s = Ret ([], s)"
| "get_many get (Suc n) s =
     obind (get s) (\<lambda>(b, s1). obind (get_many get n s1) (\<lambda>(bs, s2). Ret (b # bs, s2)))"

section \<open>The contract\<close>

locale fifo_queue =
  fixes inv :: "'s \<Rightarrow> bool"
    and items :: "'s \<Rightarrow> 'b list"
    and fresh :: "'s \<Rightarrow> 'b \<Rightarrow> bool"
    and put :: "'b \<Rightarrow> 's \<Rightarrow> 's outcome"
    and get :: "'s \<Rightarrow> ('b \<times> 's) outcome"
  assumes put_law: "inv s \<Longrightarrow> fresh s b \<Longrightarrow>
      \<exists>s'. put b s = Ret s' \<and> inv s' \<and> items s' = items s @ [b] \<and>
        (\<forall>c. c \<noteq> b \<longrightarrow> fresh s c \<longrightarrow> fresh s' c)"
    and get_law: "inv s \<Longrightarrow> items s = b # bs \<Longrightarrow>
      \<exists>s'. get s = Ret (b, s') \<and> inv s' \<and> items s' = bs"
    and get_empty: "inv s \<Longrightarrow> items s = [] \<Longrightarrow> get s = Wait"
begin

lemma put_all_items:
  assumes "inv s" and "distinct bs" and "\<And>b. b \<in> set bs \<Longrightarrow> fresh s b"
  shows "\<exists>s'. put_all put bs s = Ret s' \<and> inv s' \<and> items s' = items s @ bs"
  using assms
proof (induction bs arbitrary: s)
  case Nil
  then show ?case by simp
next
  case (Cons b bs)
  then obtain s1 where s1: "put b s = Ret s1" "inv s1" "items s1 = items s @ [b]"
    "\<forall>c. c \<noteq> b \<longrightarrow> fresh s c \<longrightarrow> fresh s1 c"
    using put_law [of s b] by auto
  have "fresh s1 c" if "c \<in> set bs" for c
    using Cons.prems(2,3) s1(4) that by (metis distinct.simps(2) list.set_intros(2))
  then have "\<exists>s'. put_all put bs s1 = Ret s' \<and> inv s' \<and> items s' = items s1 @ bs"
    using Cons.IH [OF s1(2)] Cons.prems(2) by auto
  with s1 show ?case by auto
qed

lemma get_many_items:
  assumes "inv s" and "items s = bs @ cs"
  shows "\<exists>s'. get_many get (length bs) s = Ret (bs, s') \<and> inv s' \<and> items s' = cs"
  using assms
proof (induction bs arbitrary: s)
  case Nil
  then show ?case by simp
next
  case (Cons b bs)
  then obtain s1 where s1: "get s = Ret (b, s1)" "inv s1" "items s1 = bs @ cs"
    using get_law [of s b "bs @ cs"] by auto
  from Cons.IH [OF s1(2,3)] s1(1) show ?case by auto
qed

text \<open>Everything put comes out once, in the order of the puts, and then the reader waits.\<close>

lemma fifo_discipline:
  assumes "inv s" and "distinct bs" and "\<And>b. b \<in> set bs \<Longrightarrow> fresh s b"
  shows "\<exists>s1 s2. put_all put bs s = Ret s1 \<and>
    get_many get (length (items s) + length bs) s1 = Ret (items s @ bs, s2) \<and> get s2 = Wait"
proof -
  from put_all_items [OF assms] obtain s1 where
    s1: "put_all put bs s = Ret s1" "inv s1" "items s1 = items s @ bs" by auto
  from get_many_items [OF s1(2), of "items s @ bs" "[]"] s1(3) obtain s2 where
    s2: "get_many get (length (items s @ bs)) s1 = Ret (items s @ bs, s2)" "inv s2" "items s2 = []"
    by auto
  with s1(1) get_empty show ?thesis by auto
qed

end

text \<open>A queue that copies what is put: the same item can be put again and again.\<close>

locale copying_queue = fifo_queue +
  assumes put_again: "inv s \<Longrightarrow> fresh s b \<Longrightarrow> put b s = Ret s' \<Longrightarrow> fresh s c \<Longrightarrow> fresh s' c"
begin

lemma copy_all_items:
  assumes "inv s" and "\<And>b. b \<in> set bs \<Longrightarrow> fresh s b"
  shows "\<exists>s'. put_all put bs s = Ret s' \<and> inv s' \<and> items s' = items s @ bs"
  using assms
proof (induction bs arbitrary: s)
  case Nil
  then show ?case by simp
next
  case (Cons b bs)
  then obtain s1 where s1: "put b s = Ret s1" "inv s1" "items s1 = items s @ [b]"
    using put_law [of s b] by auto
  have "fresh s1 c" if "c \<in> set bs" for c
    using put_again [OF Cons.prems(1) _ s1(1)] Cons.prems(2) that by simp
  from Cons.IH [OF s1(2) this] s1 show ?case by auto
qed

lemma copy_discipline:
  assumes "inv s" and "\<And>b. b \<in> set bs \<Longrightarrow> fresh s b"
  shows "\<exists>s1 s2. put_all put bs s = Ret s1 \<and>
    get_many get (length (items s) + length bs) s1 = Ret (items s @ bs, s2) \<and> get s2 = Wait"
proof -
  from copy_all_items [OF assms] obtain s1 where
    s1: "put_all put bs s = Ret s1" "inv s1" "items s1 = items s @ bs" by auto
  from get_many_items [OF s1(2), of "items s @ bs" "[]"] s1(3) obtain s2 where
    s2: "get_many get (length (items s @ bs)) s1 = Ret (items s @ bs, s2)" "inv s2" "items s2 = []"
    by auto
  with s1(1) get_empty show ?thesis by auto
qed

end

end
