(* ===== verification/Buf_System.thy ===== *)
theory Buf_System
  imports Buf_Fifo_Inv Queue_Iface
begin

text \<open>
  The buffer system as clients drive it: fifos are made, elements allocated, filled, put,
  taken and freed, fifos cleared, callbacks registered, in any order and by any number of
  clients, each acting only on elements it holds. The invariant of Buf_Fifo_Inv holds in every
  reachable state; so no operation of a well-behaved client faults.
\<close>

section \<open>What a state holds\<close>

definition queue_of :: "fifoid \<Rightarrow> 'w bufsys \<Rightarrow> bufid list" where
  "queue_of f s = (case bs_fifo s f of None \<Rightarrow> []
     | Some F \<Rightarrow> walk (links s) (nat (ff_size F)) (ff_first F))"

definition pool_of :: "fifoid \<Rightarrow> 'w bufsys \<Rightarrow> bufid list" where
  "pool_of f s = (case bs_fifo s f of None \<Rightarrow> []
     | Some F \<Rightarrow> walk (links s) (nat (ff_num_free F)) (ff_pool_top F))"

lemma sys_ok_queue_of:
  assumes "sys_ok s Q P"
  shows "queue_of f s = Q f" and "pool_of f s = P f"
proof -
  show "queue_of f s = Q f"
  proof (cases "bs_fifo s f")
    case None
    then show ?thesis using sys_ok_queue_None [OF assms] by (simp add: queue_of_def)
  next
    case (Some F)
    then show ?thesis using sys_ok_fifo [OF assms Some]
      by (simp add: queue_of_def fifo_rep_def walk_lseg)
  qed
  show "pool_of f s = P f"
  proof (cases "bs_fifo s f")
    case None
    then show ?thesis using sys_ok_queue_None [OF assms] by (simp add: pool_of_def)
  next
    case (Some F)
    then show ?thesis using sys_ok_fifo [OF assms Some]
      by (simp add: pool_of_def fifo_rep_def walk_lseg)
  qed
qed

text \<open>The state is well formed, with the lists read off it.\<close>

definition wf_sys :: "'w bufsys \<Rightarrow> bool" where
  "wf_sys s \<longleftrightarrow> sys_ok s (\<lambda>f. queue_of f s) (\<lambda>f. pool_of f s)"

lemma wf_sysI: "sys_ok s Q P \<Longrightarrow> wf_sys s"
proof -
  assume ok: "sys_ok s Q P"
  then have "(\<lambda>f. queue_of f s) = Q" "(\<lambda>f. pool_of f s) = P"
    by (simp_all add: sys_ok_queue_of fun_eq_iff)
  with ok show "wf_sys s" by (simp add: wf_sys_def)
qed

definition loose :: "'w bufsys \<Rightarrow> bufid \<Rightarrow> bool" where
  "loose s b \<longleftrightarrow> held (\<lambda>f. queue_of f s) (\<lambda>f. pool_of f s) s b"

lemma loose_sys_ok: "sys_ok s Q P \<Longrightarrow> loose s b \<longleftrightarrow> held Q P s b"
  by (simp add: loose_def held_def sys_ok_queue_of)

section \<open>The fifo is a first-in first-out queue\<close>

definition fifo_inv :: "fifoid \<Rightarrow> 'w bufsys \<Rightarrow> bool" where
  "fifo_inv f s \<longleftrightarrow> wf_sys s \<and> bs_fifo s f \<noteq> None"

lemma payload_dom: "payload m' = payload m \<Longrightarrow> m' b = None \<longleftrightarrow> m b = None"
  by (metis map_option_is_None payload_def)

lemma fifo_put_law:
  assumes "fifo_inv f s" and "loose s b"
  shows "\<exists>s'. fifo_buffer_put run f b s = Ret s' \<and> fifo_inv f s' \<and>
    queue_of f s' = queue_of f s @ [b] \<and> (\<forall>c. c \<noteq> b \<longrightarrow> loose s c \<longrightarrow> loose s' c)"
proof -
  let ?Q = "\<lambda>f. queue_of f s" and ?P = "\<lambda>f. pool_of f s"
  from assms obtain F where ok: "sys_ok s ?Q ?P" and F: "bs_fifo s f = Some F"
    by (auto simp: fifo_inv_def wf_sys_def)
  from put_step [OF ok F, of b run] assms(2) obtain s' where
    s': "fifo_buffer_put run f b s = Ret s'" "sys_ok s' (?Q(f := ?Q f @ [b])) ?P"
      "payload (bs_elem s') = payload (bs_elem s)" "caps s' = caps s"
    by (auto simp: loose_def)
  have "loose s' c" if "c \<noteq> b" "loose s c" for c
    unfolding loose_sys_ok [OF s'(2)]
    using that payload_dom [OF s'(3), of c] by (auto simp: loose_def held_def)
  then show ?thesis
    using s' caps_None [OF s'(4), of f] F sys_ok_queue_of(1) [OF s'(2), of f]
    by (auto simp: fifo_inv_def intro: wf_sysI)
qed

lemma fifo_get_law:
  assumes "fifo_inv f s" and "queue_of f s = b # bs"
  shows "\<exists>s'. fifo_buffer_get run f s = Ret (b, s') \<and> fifo_inv f s' \<and> queue_of f s' = bs"
proof -
  let ?Q = "\<lambda>f. queue_of f s" and ?P = "\<lambda>f. pool_of f s"
  from assms obtain F where ok: "sys_ok s ?Q ?P" and F: "bs_fifo s f = Some F"
    by (auto simp: fifo_inv_def wf_sys_def)
  from get_step [OF ok F assms(2), of run] obtain s' where
    s': "fifo_buffer_get run f s = Ret (b, s')" "sys_ok s' (?Q(f := bs)) ?P" "caps s' = caps s"
    by auto
  then show ?thesis
    using caps_None [OF s'(3), of f] F sys_ok_queue_of(1) [OF s'(2), of f]
    by (auto simp: fifo_inv_def intro: wf_sysI)
qed

lemma fifo_get_empty:
  assumes "fifo_inv f s" and "queue_of f s = []"
  shows "fifo_buffer_get run f s = Wait"
  using assms get_waits [of s "\<lambda>f. queue_of f s" "\<lambda>f. pool_of f s" f]
  by (auto simp: fifo_inv_def wf_sys_def)

interpretation bf: fifo_queue "fifo_inv f" "queue_of f" loose "fifo_buffer_put run f" "fifo_buffer_get run f"
  for f run
  by unfold_locales (auto intro: fifo_put_law fifo_get_law fifo_get_empty)

section \<open>Clients and reachable states\<close>

text \<open>
  A state with the set of elements clients hold. A step is one operation of a client: it puts
  or frees only what it holds, and writes only into what it holds (any field but the source).
  Callbacks may also change the world at any time.
\<close>

inductive buf_step :: "'w cb_run \<Rightarrow> 'w bufsys \<times> bufid set \<Rightarrow> 'w bufsys \<times> bufid set \<Rightarrow> bool"
  for run :: "'w cb_run" where
  bnew: "bs_fifo s f = None \<Longrightarrow> 0 \<le> n \<Longrightarrow> inj_on addr {..<nat n} \<Longrightarrow>
    (\<And>i. i < nat n \<Longrightarrow> bs_elem s (addr i) = None) \<Longrightarrow>
    fifo_buffer_new ei addr mb f n sz s = Ret s' \<Longrightarrow> buf_step run (s, H) (s', H)"
| bput: "b \<in> H \<Longrightarrow> fifo_buffer_put run f b s = Ret s' \<Longrightarrow> buf_step run (s, H) (s', H - {b})"
| binsert: "b \<in> H \<Longrightarrow> fifo_buffer_insert f b s = Ret s' \<Longrightarrow> buf_step run (s, H) (s', H - {b})"
| bget: "fifo_buffer_get run f s = Ret (b, s') \<Longrightarrow> buf_step run (s, H) (s', insert b H)"
| balloc: "buffer_pool_alloc run f s = Ret (b, s') \<Longrightarrow> buf_step run (s, H) (s', insert b H)"
| btry: "buffer_pool_try_alloc f s = Ret (Some b, s') \<Longrightarrow> buf_step run (s, H) (s', insert b H)"
| bfree: "b \<in> H \<Longrightarrow> buffer_pool_free b s = Ret s' \<Longrightarrow> buf_step run (s, H) (s', H - {b})"
| bclear: "length (queue_of f s) < k \<Longrightarrow> fifo_buffer_clear k f s = Ret s' \<Longrightarrow> buf_step run (s, H) (s', H)"
| bwrite: "b \<in> H \<Longrightarrow> bs_elem s b = Some e \<Longrightarrow> be_source e' = be_source e \<Longrightarrow>
    buf_step run (s, H) (s\<lparr>bs_elem := (bs_elem s)(b \<mapsto> e')\<rparr>, H)"
| bworld: "buf_step run (s, H) (s\<lparr>bs_world := w\<rparr>, H)"

inductive buf_reach :: "'w cb_run \<Rightarrow> 'w bufsys \<times> bufid set \<Rightarrow> bool" for run :: "'w cb_run" where
  start: "buf_reach run (\<lparr>bs_elem = Map.empty, bs_fifo = Map.empty, bs_world = w\<rparr>, {})"
| step: "buf_reach run x \<Longrightarrow> buf_step run x y \<Longrightarrow> buf_reach run y"

definition buf_inv :: "'w bufsys \<times> bufid set \<Rightarrow> bool" where
  "buf_inv x \<longleftrightarrow> (case x of (s, H) \<Rightarrow>
     wf_sys s \<and> sources_ok s \<and> (\<forall>b. b \<in> H \<longleftrightarrow> loose s b) \<and>
     (\<forall>f F. bs_fifo s f = Some F \<longrightarrow> int (card (own s f)) = ff_capacity F))"

text \<open>The form the preservation lemmas use: any lists \<open>Q\<close> and \<open>P\<close>.\<close>

lemma buf_invI:
  assumes "sys_ok s Q P" and "sources_ok s" and "\<And>b. b \<in> H \<longleftrightarrow> held Q P s b"
    and "\<And>f F. bs_fifo s f = Some F \<Longrightarrow> int (card (own s f)) = ff_capacity F"
  shows "buf_inv (s, H)"
  using assms by (auto simp: buf_inv_def loose_sys_ok [OF assms(1)] intro: wf_sysI)

lemma buf_invD:
  assumes "buf_inv (s, H)"
  shows "sys_ok s (\<lambda>f. queue_of f s) (\<lambda>f. pool_of f s)" "sources_ok s"
    "b \<in> H \<longleftrightarrow> held (\<lambda>f. queue_of f s) (\<lambda>f. pool_of f s) s b"
    "bs_fifo s f = Some F \<Longrightarrow> int (card (own s f)) = ff_capacity F"
  using assms by (auto simp: buf_inv_def wf_sys_def loose_def)

text \<open>A step that keeps the elements' sources and the fifos keeps the global facts.\<close>

lemma buf_inv_step:
  assumes inv: "buf_inv (s, H)" and ok: "sys_ok s' Q P"
    and src: "\<And>b. map_option be_source (bs_elem s' b) = map_option be_source (bs_elem s b)"
    and caps: "caps s' = caps s" and H: "\<And>b. b \<in> H' \<longleftrightarrow> held Q P s' b"
  shows "buf_inv (s', H')"
proof (rule buf_invI [OF ok _ H])
  have own: "own s' g = own s g" for g
    unfolding owned_def payload_def using src by (fastforce simp: map_option_case split: option.splits)
  show "sources_ok s'"
    unfolding sources_ok_def
  proof (intro allI impI)
    fix b e assume "bs_elem s' b = Some e"
    with src [of b] obtain e' where "bs_elem s b = Some e'" "be_source e' = be_source e"
      by (cases "bs_elem s b") auto
    with buf_invD(2) [OF inv] caps_None [OF caps, of "be_source e"]
    show "bs_fifo s' (be_source e) \<noteq> None" by (fastforce simp: sources_ok_def)
  qed
  fix f F assume "bs_fifo s' f = Some F"
  with caps_Some [OF caps [symmetric]] obtain G where
    "bs_fifo s f = Some G" "ff_capacity G = ff_capacity F" by blast
  with buf_invD(4) [OF inv, of f G] own show "int (card (own s' f)) = ff_capacity F" by simp
qed

lemma payload_source:
  "payload m' = payload m \<Longrightarrow> map_option be_source (m' b) = map_option be_source (m b)"
  by (cases "m b"; cases "m' b") (auto simp: payload_def fun_eq_iff dest!: spec [of _ b] arg_cong [where f = be_source])

text \<open>Taking \<open>b\<close> out of the lists of \<open>f\<close> makes it held.\<close>

lemma held_remove:
  assumes "\<And>g. set (Q g) \<union> set (P g) = (if g = f then insert b (set (Q' g) \<union> set (P' g)) else set (Q' g) \<union> set (P' g))"
    and "\<And>g. b \<notin> set (Q' g) \<union> set (P' g)" and "bs_elem s b \<noteq> None"
    and dom: "\<And>c. bs_elem s' c = None \<longleftrightarrow> bs_elem s c = None"
  shows "held Q' P' s' c \<longleftrightarrow> c = b \<or> held Q P s c"
proof (cases "c = b")
  case True
  then show ?thesis using assms(2,3) dom [of b] by (auto simp: held_def)
next
  case False
  have "c \<notin> set (Q g) \<and> c \<notin> set (P g) \<longleftrightarrow> c \<notin> set (Q' g) \<and> c \<notin> set (P' g)" for g
    using assms(1) [of g] False by (auto split: if_splits)
  then show ?thesis using False dom [of c] by (simp add: held_def)
qed

text \<open>What \<open>b\<close>, the first of a queue or of a pool, is not in.\<close>

lemma head_apart:
  assumes ok: "sys_ok s Q P"
  shows "Q f = b # qs \<Longrightarrow> b \<notin> set ((Q(f := qs)) g) \<union> set (P g)"
    and "P f = b # ps \<Longrightarrow> b \<notin> set (Q g) \<union> set ((P(f := ps)) g)"
  using sys_ok_distinct [OF ok, of f] sys_ok_apart(1) [OF ok, of f g b] sys_ok_apart(2) [OF ok, of b f g]
    sys_ok_apart(2) [OF ok, of b g f] sys_ok_apart(3) [OF ok, of f g b] by auto

lemma fifo_exists:
  "fifo_buffer_put run f b s = Ret x \<Longrightarrow> \<exists>F. bs_fifo s f = Some F"
  "fifo_buffer_insert f b s = Ret x \<Longrightarrow> \<exists>F. bs_fifo s f = Some F"
  "fifo_buffer_get run f s = Ret y \<Longrightarrow> \<exists>F. bs_fifo s f = Some F"
  "buffer_pool_alloc run f s = Ret y \<Longrightarrow> \<exists>F. bs_fifo s f = Some F"
  "buffer_pool_try_alloc f s = Ret z \<Longrightarrow> \<exists>F. bs_fifo s f = Some F"
  "fifo_buffer_clear k f s = Ret x \<Longrightarrow> \<exists>F. bs_fifo s f = Some F"
  by (auto simp: fifo_buffer_put_def fifo_buffer_insert_def fifo_buffer_get_def buffer_pool_alloc_def
      buffer_pool_try_alloc_def fifo_buffer_clear_def fifo_of_def obind_eq_Ret)

text \<open>Clearing moves elements from the fifo to pools and loses none.\<close>

lemma held_clear:
  assumes "m c = Some e"
  shows "(\<forall>g. c \<notin> set (Q g) \<and> c \<notin> set (P g)) \<longleftrightarrow>
    (\<forall>g. c \<notin> set ((Q(f := filter (ctl m) (Q f))) g) \<and> c \<notin> set (released m (Q f) P g))"
    (is "?l \<longleftrightarrow> ?r")
proof
  show "?l \<Longrightarrow> ?r" by (auto simp: released_def)
  show ?l if r: ?r
  proof -
    have "c \<notin> set (P g)" for g using r by (auto simp: released_def)
    moreover have "c \<notin> set (Q g)" for g
      using spec [OF r, of g] spec [OF r, of "be_source e"] assms
      by (cases "g = f") (auto simp: released_def source_is_def)
    ultimately show ?thesis by blast
  qed
qed

text \<open>Both allocation functions take the top of the pool.\<close>

lemma buf_inv_take:
  assumes inv: "buf_inv (s, H)" and p: "pool_of f s = b # ps" and e: "bs_elem s b = Some e"
    and m: "bs_elem s' = (bs_elem s)(b \<mapsto> buf_reset e)"
    and ok: "sys_ok s' (\<lambda>f. queue_of f s) ((\<lambda>f. pool_of f s)(f := ps))" and caps: "caps s' = caps s"
  shows "buf_inv (s', insert b H)"
proof (rule buf_inv_step [OF inv ok _ caps])
  note D = buf_invD [OF inv]
  fix c
  show "map_option be_source (bs_elem s' c) = map_option be_source (bs_elem s c)"
    using m e by (simp add: buf_reset_def)
  have "held (\<lambda>f. queue_of f s) ((\<lambda>f. pool_of f s)(f := ps)) s' c \<longleftrightarrow>
      c = b \<or> held (\<lambda>f. queue_of f s) (\<lambda>f. pool_of f s) s c"
    by (rule held_remove [where f = f]) (use p e m head_apart(2) [OF D(1) p] in auto)
  then show "c \<in> insert b H \<longleftrightarrow> held (\<lambda>f. queue_of f s) ((\<lambda>f. pool_of f s)(f := ps)) s' c"
    using D(3) [of c] by simp
qed

lemma buf_step_inv:
  assumes "buf_step run x y" and "buf_inv x"
  shows "buf_inv y"
  using assms
proof (induction rule: buf_step.induct)
  case (bput b H f s s')
  note D = buf_invD [OF bput(3)]
  obtain F where F: "bs_fifo s f = Some F" using fifo_exists(1) [OF bput(2)] by blast
  from put_step [OF D(1) F, of b run] bput D(3) [of b] have
    s': "sys_ok s' ((\<lambda>f. queue_of f s)(f := queue_of f s @ [b])) (\<lambda>f. pool_of f s)"
      "payload (bs_elem s') = payload (bs_elem s)" "caps s' = caps s" by auto
  show ?case
  proof (rule buf_inv_step [OF bput(3) s'(1) payload_source [OF s'(2)] s'(3)])
    fix c show "c \<in> H - {b} \<longleftrightarrow> held ((\<lambda>f. queue_of f s)(f := queue_of f s @ [b])) (\<lambda>f. pool_of f s) s' c"
      using D(3) [of c] payload_dom [OF s'(2), of c] by (auto simp: held_def)
  qed
next
  case (binsert b H f s s')
  note D = buf_invD [OF binsert(3)]
  obtain F where F: "bs_fifo s f = Some F" using fifo_exists(2) [OF binsert(2)] by blast
  from insert_step [OF D(1) F, of b] binsert D(3) [of b] have
    s': "sys_ok s' ((\<lambda>f. queue_of f s)(f := b # queue_of f s)) (\<lambda>f. pool_of f s)"
      "payload (bs_elem s') = payload (bs_elem s)" "caps s' = caps s" by auto
  show ?case
  proof (rule buf_inv_step [OF binsert(3) s'(1) payload_source [OF s'(2)] s'(3)])
    fix c show "c \<in> H - {b} \<longleftrightarrow> held ((\<lambda>f. queue_of f s)(f := b # queue_of f s)) (\<lambda>f. pool_of f s) s' c"
      using D(3) [of c] payload_dom [OF s'(2), of c] by (auto simp: held_def)
  qed
next
  case (bget f s b s' H)
  note D = buf_invD [OF bget(2)]
  obtain F where F: "bs_fifo s f = Some F" using fifo_exists(3) [OF bget(1)] by blast
  obtain qs where q: "queue_of f s = b # qs"
    using get_waits [OF D(1) F, of run] get_step [OF D(1) F, of _ _ run] bget(1)
    by (cases "queue_of f s") auto
  from get_step [OF D(1) F q, of run] bget have
    s': "sys_ok s' ((\<lambda>f. queue_of f s)(f := qs)) (\<lambda>f. pool_of f s)"
      "payload (bs_elem s') = payload (bs_elem s)" "caps s' = caps s" by auto
  show ?case
  proof (rule buf_inv_step [OF bget(2) s'(1) payload_source [OF s'(2)] s'(3)])
    fix c
    have "held ((\<lambda>f. queue_of f s)(f := qs)) (\<lambda>f. pool_of f s) s' c \<longleftrightarrow>
        c = b \<or> held (\<lambda>f. queue_of f s) (\<lambda>f. pool_of f s) s c"
      by (rule held_remove [where f = f])
        (use q head_apart(1) [OF D(1) q] sys_ok_alloc [OF D(1), of b f] payload_dom [OF s'(2)] in auto)
    then show "c \<in> insert b H \<longleftrightarrow> held ((\<lambda>f. queue_of f s)(f := qs)) (\<lambda>f. pool_of f s) s' c"
      using D(3) [of c] by simp
  qed
next
  case (bfree b H s s')
  note D = buf_invD [OF bfree(3)]
  obtain e F where e: "bs_elem s b = Some e" and F: "bs_fifo s (be_source e) = Some F"
    using bfree(2) by (auto simp: buffer_pool_free_def buf_access obind_eq_Ret)
  from free_step [OF D(1) _ e F] bfree D(3) [of b] have
    s': "sys_ok s' (\<lambda>f. queue_of f s) ((\<lambda>f. pool_of f s)(be_source e := b # pool_of (be_source e) s))"
      "payload (bs_elem s') = payload (bs_elem s)" "caps s' = caps s" by auto
  show ?case
  proof (rule buf_inv_step [OF bfree(3) s'(1) payload_source [OF s'(2)] s'(3)])
    fix c show "c \<in> H - {b} \<longleftrightarrow>
      held (\<lambda>f. queue_of f s) ((\<lambda>f. pool_of f s)(be_source e := b # pool_of (be_source e) s)) s' c"
      using D(3) [of c] payload_dom [OF s'(2), of c] by (auto simp: held_def)
  qed
next
  case (bclear f s k s' H)
  note D = buf_invD [OF bclear(3)]
  obtain F where F: "bs_fifo s f = Some F" using fifo_exists(6) [OF bclear(2)] by blast
  from clear_step [OF D(1) F D(2) bclear(1)] bclear(2) have
    s': "sys_ok s' ((\<lambda>f. queue_of f s)(f := filter (ctl (bs_elem s)) (queue_of f s)))
        (released (bs_elem s) (queue_of f s) (\<lambda>f. pool_of f s))"
      "payload (bs_elem s') = payload (bs_elem s)" "caps s' = caps s" by auto
  show ?case
  proof (rule buf_inv_step [OF bclear(3) s'(1) payload_source [OF s'(2)] s'(3)])
    fix c
    have "c \<in> H \<longleftrightarrow> held (\<lambda>f. queue_of f s) (\<lambda>f. pool_of f s) s c" by (rule D(3))
    also have "\<dots> \<longleftrightarrow> held ((\<lambda>f. queue_of f s)(f := filter (ctl (bs_elem s)) (queue_of f s)))
        (released (bs_elem s) (queue_of f s) (\<lambda>f. pool_of f s)) s' c"
      using held_clear [of "bs_elem s" c _ "\<lambda>f. queue_of f s" "\<lambda>f. pool_of f s" f]
      unfolding held_def payload_dom [OF s'(2), of c] by (cases "bs_elem s c") simp_all
    finally show "c \<in> H \<longleftrightarrow> held ((\<lambda>f. queue_of f s)(f := filter (ctl (bs_elem s)) (queue_of f s)))
        (released (bs_elem s) (queue_of f s) (\<lambda>f. pool_of f s)) s' c" .
  qed
next
  case (bwrite b H s e e')
  note D = buf_invD [OF bwrite(4)]
  have "sys_ok (s\<lparr>bs_elem := (bs_elem s)(b \<mapsto> e')\<rparr>) (\<lambda>f. queue_of f s) (\<lambda>f. pool_of f s)"
    by (rule held_write [OF D(1)]) (use D(3) [of b] bwrite held_nowhere in auto)
  then show ?case
    by (rule buf_inv_step [OF bwrite(4)]) (use bwrite D(3) in \<open>auto simp: held_def\<close>)
next
  case (bworld s H w)
  note D = buf_invD [OF bworld]
  show ?case
    by (rule buf_inv_step [OF bworld, where Q = "\<lambda>f. queue_of f s" and P = "\<lambda>f. pool_of f s"])
      (use D in \<open>auto simp: held_def\<close>)
next
  case (balloc f s b s' H)
  note D = buf_invD [OF balloc(2)]
  obtain F where F: "bs_fifo s f = Some F" using fifo_exists(4) [OF balloc(1)] by blast
  have "\<not> length (pool_of f s) < 2"
    using alloc_waits [OF D(1) F, of run] balloc(1) by auto
  then obtain b' c ps where "pool_of f s = b' # c # ps"
    by (cases "pool_of f s" rule: remdups_adj.cases) auto
  with alloc_step [OF D(1) F, of b' c ps run] balloc(1) obtain e where p: "pool_of f s = b # c # ps"
    and e: "bs_elem s b = Some e" and s': "bs_elem s' = (bs_elem s)(b \<mapsto> buf_reset e)"
      "sys_ok s' (\<lambda>f. queue_of f s) ((\<lambda>f. pool_of f s)(f := c # ps))" "caps s' = caps s"
    by auto
  from buf_inv_take [OF balloc(2) p e s'] show ?case .
next
  case (btry f s b s' H)
  note D = buf_invD [OF btry(2)]
  obtain F where F: "bs_fifo s f = Some F" using fifo_exists(5) [OF btry(1)] by blast
  obtain ps e where p: "pool_of f s = b # ps" and e: "bs_elem s b = Some e"
    and s': "bs_elem s' = (bs_elem s)(b \<mapsto> buf_reset e)"
      "sys_ok s' (\<lambda>f. queue_of f s) ((\<lambda>f. pool_of f s)(f := ps))" "caps s' = caps s"
    using try_alloc_step [OF D(1) F] btry(1) by (cases "pool_of f s") auto
  from buf_inv_take [OF btry(2) p e s'] show ?case .
next
  case (bnew s f n addr ei mb sz s' H)
  note D = buf_invD [OF bnew(6)]
  from new_step [OF D(1,2) bnew(1-4), of ei mb sz] bnew(5) have
    s': "sys_ok s' (\<lambda>f. queue_of f s) ((\<lambda>f. pool_of f s)(f := rev (map addr [0..<nat n])))"
      "sources_ok s'" "caps s' = (caps s)(f \<mapsto> n)"
      "dom (bs_elem s') = dom (bs_elem s) \<union> addr ` {..<nat n}"
      "\<And>g. own s' g = (if g = f then addr ` {..<nat n} else own s g)" by auto
  show ?case
  proof (rule buf_invI [OF s'(1,2)])
    fix c
    have pf: "pool_of f s = []" using bnew(1) by (simp add: pool_of_def)
    have fr: "set (rev (map addr [0..<nat n])) = addr ` {..<nat n}"
      by (auto simp: lessThan_atLeast0)
    have dm: "bs_elem s' c = None \<longleftrightarrow> bs_elem s c = None \<and> c \<notin> addr ` {..<nat n}"
      using arg_cong [OF s'(4), of "\<lambda>A. c \<in> A"] by (auto simp: domIff simp del: not_None_eq)
    have no: "bs_elem s c = None" if "c \<in> addr ` {..<nat n}" using that bnew(4) by auto
    show "c \<in> H \<longleftrightarrow>
        held (\<lambda>f. queue_of f s) ((\<lambda>f. pool_of f s)(f := rev (map addr [0..<nat n]))) s' c"
      unfolding D(3) [of c] held_def dm using no pf fr
      by (cases "c \<in> addr ` {..<nat n}") (auto simp del: set_rev set_map)
  next
    fix g G assume G: "bs_fifo s' g = Some G"
    show "int (card (own s' g)) = ff_capacity G"
    proof (cases "g = f")
      case True
      have "card (addr ` {..<nat n}) = nat n" using bnew(3) by (simp add: card_image)
      then show ?thesis using True G s'(3,5) bnew(2) by (auto simp: capmap_def fun_eq_iff dest: spec [of _ f])
    next
      case False
      then have "caps s' g = caps s g" using s'(3) by simp
      with G obtain G' where "bs_fifo s g = Some G'" "ff_capacity G' = ff_capacity G"
        by (cases "bs_fifo s g") (auto simp: capmap_def)
      then show ?thesis using D(4) [of g G'] s'(5) False by simp
    qed
  qed
qed

lemma buf_reach_inv: "buf_reach run x \<Longrightarrow> buf_inv x"
proof (induction rule: buf_reach.induct)
  case (start w)
  show ?case
    by (auto simp: buf_inv_def wf_sys_def sys_ok_def fifo_ok_def queue_of_def pool_of_def
        sources_ok_def loose_def held_def)
next
  case (step x y)
  then show ?case using buf_step_inv by blast
qed

section \<open>Properties\<close>

text \<open>
  C1. No operation of a well-behaved client faults, whatever was done before: putting,
  inserting and freeing an element that is held returns; allocating and getting return or
  wait; clearing returns. In particular the "TOO MANY FREE's" assertion never fails and no
  freed element is freed or queued again.
\<close>

theorem buf_clients_safe:
  assumes "buf_reach run (s, H)" and "b \<in> H" and "bs_fifo s f \<noteq> None"
  shows "(\<exists>s'. fifo_buffer_put run f b s = Ret s') \<and>
    (\<exists>s'. fifo_buffer_insert f b s = Ret s') \<and>
    (\<exists>s'. buffer_pool_free b s = Ret s') \<and>
    (fifo_buffer_get run f s = Wait \<or> (\<exists>r. fifo_buffer_get run f s = Ret r)) \<and>
    (buffer_pool_alloc run f s = Wait \<or> (\<exists>r. buffer_pool_alloc run f s = Ret r)) \<and>
    (\<exists>r. buffer_pool_try_alloc f s = Ret r) \<and>
    (\<exists>s'. fifo_buffer_clear (Suc (length (queue_of f s))) f s = Ret s')"
proof -
  note D = buf_invD [OF buf_reach_inv [OF assms(1)]]
  have h: "held (\<lambda>f. queue_of f s) (\<lambda>f. pool_of f s) s b" using assms(2) D(3) by blast
  obtain F where F: "bs_fifo s f = Some F" using assms(3) by blast
  obtain e where e: "bs_elem s b = Some e" using h by (auto simp: held_def)
  obtain G where G: "bs_fifo s (be_source e) = Some G" using D(2) e by (auto simp: sources_ok_def)
  have "\<exists>s'. fifo_buffer_put run f b s = Ret s'" using put_step [OF D(1) F h, of run] by blast
  moreover have "\<exists>s'. fifo_buffer_insert f b s = Ret s'" using insert_step [OF D(1) F h] by blast
  moreover have "\<exists>s'. buffer_pool_free b s = Ret s'" using free_step [OF D(1) h e G] by blast
  moreover have "fifo_buffer_get run f s = Wait \<or> (\<exists>r. fifo_buffer_get run f s = Ret r)"
    using get_waits [OF D(1) F, of run] get_step [OF D(1) F, of _ _ run] by (cases "queue_of f s") blast+
  moreover have "buffer_pool_alloc run f s = Wait \<or> (\<exists>r. buffer_pool_alloc run f s = Ret r)"
  proof (cases "length (pool_of f s) < 2")
    case True
    then show ?thesis using alloc_waits [OF D(1) F, of run] by blast
  next
    case False
    then obtain b' c ps where "pool_of f s = b' # c # ps"
      by (cases "pool_of f s" rule: remdups_adj.cases) auto
    then show ?thesis using alloc_step [OF D(1) F, of b' c ps run] by blast
  qed
  moreover have "\<exists>r. buffer_pool_try_alloc f s = Ret r"
    using try_alloc_step [OF D(1) F] by (cases "pool_of f s") auto
  moreover have "\<exists>s'. fifo_buffer_clear (Suc (length (queue_of f s))) f s = Ret s'"
    using clear_step [OF D(1) F D(2)] by blast
  ultimately show ?thesis by blast
qed

text \<open>The elements made for a fifo are its capacity in number.\<close>

lemma pool_capacity:
  assumes "buf_reach run (s, H)" and "bs_fifo s f = Some F"
  shows "ff_capacity F = int (length (pool_of f s))
    + int (card {b. source_is (bs_elem s) f b \<and> (\<exists>g. b \<in> set (queue_of g s))})
    + int (card {b \<in> H. source_is (bs_elem s) f b})"
proof -
  note D = buf_invD [OF buf_reach_inv [OF assms(1)]]
  let ?A = "set (pool_of f s)"
  let ?B = "{b. source_is (bs_elem s) f b \<and> (\<exists>g. b \<in> set (queue_of g s))}"
  let ?C = "{b \<in> H. source_is (bs_elem s) f b}"
  have src: "source_is (bs_elem s) f b \<longleftrightarrow> b \<in> own s f" for b
    by (auto simp: source_is_def owned_def payload_def split: option.splits)
  have fin: "finite (own s f)" by (rule sys_ok_owned(2) [OF D(1) assms(2)])
  have "own s f \<subseteq> ?A \<union> ?B \<union> ?C"
  proof
    fix b assume b: "b \<in> own s f"
    then obtain e where e: "bs_elem s b = Some e" "be_source e = f"
      by (auto simp: owned_def payload_def)
    show "b \<in> ?A \<union> ?B \<union> ?C"
      using D(3) [of b] b e sys_ok_pool_source [OF D(1), of b _ e] by (auto simp: src held_def)
  qed
  moreover have "?A \<subseteq> own s f" by (rule sys_ok_owned(1) [OF D(1) assms(2)])
  ultimately have own: "own s f = ?A \<union> ?B \<union> ?C" by (auto simp: src)
  have sub: "?A \<subseteq> own s f" "?B \<subseteq> own s f" "?C \<subseteq> own s f" using own by blast+
  have "?A \<inter> ?B = {}" using sys_ok_apart(2) [OF D(1)] by blast
  moreover have "(?A \<union> ?B) \<inter> ?C = {}" using D(3) by (auto simp: held_def)
  ultimately have "card (own s f) = card ?A + card ?B + card ?C"
    unfolding own using finite_subset [OF sub(1) fin] finite_subset [OF sub(2) fin] finite_subset [OF sub(3) fin]
    by (simp add: card_Un_disjoint)
  moreover have "card ?A = length (pool_of f s)"
    using sys_ok_distinct(2) [OF D(1)] by (simp add: distinct_card)
  ultimately show ?thesis using D(4) [OF assms(2)] by simp
qed

text \<open>Where an element can be.\<close>

datatype place = In_pool fifoid | In_queue fifoid | With_client

fun at_place :: "'w bufsys \<Rightarrow> bufid set \<Rightarrow> bufid \<Rightarrow> place \<Rightarrow> bool" where
  "at_place s H b (In_pool f) = (b \<in> set (pool_of f s))"
| "at_place s H b (In_queue f) = (b \<in> set (queue_of f s))"
| "at_place s H b With_client = (b \<in> H)"

text \<open>The data of a fifo agree with the chains that hang on it.\<close>

definition counters_agree :: "'w bufsys \<Rightarrow> fifo_buffer \<Rightarrow> bufid list \<Rightarrow> bufid list \<Rightarrow> bool" where
  "counters_agree s F q p \<longleftrightarrow>
     lseg (\<lambda>b. map_option be_next (bs_elem s b)) (ff_first F) q None \<and> ff_last F = (if q = [] then None else Some (last q)) \<and>
     lseg (\<lambda>b. map_option be_next (bs_elem s b)) (ff_pool_top F) p None \<and>
     ff_size F = int (length q) \<and> ff_num_free F = int (length p) \<and>
     ff_data_size F = sum_list (map (\<lambda>b. word_of_int (be_size (the (bs_elem s b)))) q)"

text \<open>
  C2. Conservation: in every reachable state each element that was made is in exactly one place,
  the pool of one fifo, the queue of one fifo or a client's hands, and there once; a pool holds
  only elements that were made for its fifo. Every fifo's first, last and top pointers and its
  counts of elements, of bytes and of free elements are those of the chains that hang on it, and
  what was made for it is its capacity in number.
\<close>

theorem buf_conservation:
  assumes "buf_reach run (s, H)"
  shows "(\<forall>b. bs_elem s b \<noteq> None \<longrightarrow> (\<exists>!pl. at_place s H b pl)) \<and>
    (\<forall>b pl. at_place s H b pl \<longrightarrow> bs_elem s b \<noteq> None) \<and>
    (\<forall>f. distinct (pool_of f s) \<and> distinct (queue_of f s) \<and> (\<forall>b \<in> set (pool_of f s). source_is (bs_elem s) f b)) \<and>
    (\<forall>f F. bs_fifo s f = Some F \<longrightarrow> counters_agree s F (queue_of f s) (pool_of f s) \<and>
       ff_capacity F = int (card {b. source_is (bs_elem s) f b}))"
proof (intro conjI allI impI ballI)
  note D = buf_invD [OF buf_reach_inv [OF assms]]
  note ap = sys_ok_apart [OF D(1)]
  show "\<exists>!pl. at_place s H b pl" if b: "bs_elem s b \<noteq> None" for b
  proof -
    have one: "pl = pl'" if "at_place s H b pl" "at_place s H b pl'" for pl pl'
      using that D(3) [of b] ap by (cases pl; cases pl') (auto simp: held_def)
    moreover have "\<exists>pl. at_place s H b pl"
    proof (cases "b \<in> H")
      case True
      then show ?thesis by (intro exI [of _ With_client]) simp
    next
      case False
      then obtain f where "b \<in> set (queue_of f s) \<or> b \<in> set (pool_of f s)" using D(3) [of b] b by (auto simp: held_def)
      then show ?thesis by (metis at_place.simps(1,2))
    qed
    ultimately show ?thesis by blast
  qed
  show "bs_elem s b \<noteq> None" if "at_place s H b pl" for b pl
    using that D(3) [of b] sys_ok_alloc [OF D(1), of b] by (cases pl) (auto simp: held_def)
  show "distinct (pool_of f s)" "distinct (queue_of f s)" for f using sys_ok_distinct [OF D(1)] by simp_all
  show "source_is (bs_elem s) f b" if b: "b \<in> set (pool_of f s)" for f b
  proof -
    obtain e where "bs_elem s b = Some e" using sys_ok_alloc [OF D(1), of b f] b by auto
    then show ?thesis using sys_ok_pool_source [OF D(1) b] by (simp add: source_is_def)
  qed
  fix f F assume F: "bs_fifo s f = Some F"
  note rep = sys_ok_fifo [OF D(1) F, unfolded fifo_rep_def]
  have "sizes s b = word_of_int (be_size (the (bs_elem s b)))" if "b \<in> set (queue_of f s)" for b
    using sys_ok_alloc [OF D(1), of b f] that by (auto simp: szs_def payload_def)
  then have m: "map (sizes s) (queue_of f s) = map (\<lambda>b. word_of_int (be_size (the (bs_elem s b)))) (queue_of f s)" by simp
  show "counters_agree s F (queue_of f s) (pool_of f s)"
    using rep unfolding counters_agree_def nxt_def m [symmetric] by blast
  have "{b. source_is (bs_elem s) f b} = own s f"
    by (auto simp: source_is_def owned_def payload_def split: option.splits)
  then show "ff_capacity F = int (card {b. source_is (bs_elem s) f b})" using D(4) [OF F] by simp
qed

text \<open>
  The emergency buffer: after a blocking allocation returned, one element is still free, so
  a decoder flush that now calls the non-blocking allocation gets it.
\<close>

theorem buf_emergency:
  assumes "buf_reach run (s, H)" and "buffer_pool_alloc run f s = Ret (b, s')"
  shows "\<exists>c s''. c \<noteq> b \<and> buffer_pool_try_alloc f s' = Ret (Some c, s'')"
proof -
  note D = buf_invD [OF buf_reach_inv [OF assms(1)]]
  obtain F where F: "bs_fifo s f = Some F" using fifo_exists(4) [OF assms(2)] by blast
  have "\<not> length (pool_of f s) < 2"
    using alloc_waits [OF D(1) F, of run] assms(2) by auto
  then obtain b' c ps where p: "pool_of f s = b' # c # ps"
    by (cases "pool_of f s" rule: remdups_adj.cases) auto
  with alloc_step [OF D(1) F p, of run] assms(2) have
    s': "b' = b" "sys_ok s' (\<lambda>f. queue_of f s) ((\<lambda>f. pool_of f s)(f := c # ps))" "caps s' = caps s"
    by auto
  obtain F' where F': "bs_fifo s' f = Some F'" using caps_Some [OF s'(3) F] by blast
  have "c \<noteq> b" using sys_ok_distinct(2) [OF D(1), of f] p s'(1) by auto
  then show ?thesis using try_alloc_step [OF s'(2) F'] by auto
qed

text \<open>
  The fifo delivers in order: elements put by a client come out after those already queued,
  each once and in the order of the puts, and a reader of the then empty fifo waits.
\<close>

theorem fifo_in_order:
  assumes "fifo_inv f s" and "distinct bs" and "\<And>b. b \<in> set bs \<Longrightarrow> loose s b"
  shows "\<exists>s1 s2. put_all (fifo_buffer_put run f) bs s = Ret s1 \<and>
    get_many (fifo_buffer_get run f) (length (queue_of f s) + length bs) s1 = Ret (queue_of f s @ bs, s2) \<and>
    fifo_buffer_get run f s2 = Wait"
  using assms by (rule bf.fifo_discipline)


section \<open>A concrete run\<close>

text \<open>A fifo with three buffers, made in the empty system; then one of them allocated.\<close>

definition empty_sys :: "unit bufsys" where
  "empty_sys = \<lparr>bs_elem = Map.empty, bs_fifo = Map.empty, bs_world = ()\<rparr>"

definition no_cb :: "unit cb_run" where
  "no_cb = (\<lambda>c f b d s. ())"

definition demo_new :: "unit bufsys outcome" where
  "demo_new = fifo_buffer_new extra_info_reset (\<lambda>i. i) 0 7 3 100 empty_sys"

definition demo_alloc :: "(bufid \<times> unit bufsys) outcome" where
  "demo_alloc = obind demo_new (buffer_pool_alloc no_cb 7)"

lemma demo_new_reach: "\<exists>s. demo_new = Ret s \<and> buf_reach no_cb (s, {}) \<and> pool_of 7 s = [2, 1, 0] \<and>
    queue_of 7 s = [] \<and> bs_fifo s 7 \<noteq> None"
proof -
  have ok: "sys_ok empty_sys (\<lambda>_. []) (\<lambda>_. [])" "sources_ok empty_sys"
    by (auto simp: empty_sys_def sys_ok_def fifo_ok_def sources_ok_def)
  have up: "rev (map (\<lambda>i. i) [0..<nat 3]) = [2, 1, 0]" by (simp add: upt_rec)
  obtain s where s: "demo_new = Ret s" "sys_ok s (\<lambda>_. []) ((\<lambda>_. [])(7 := [2, 1, 0]))"
      "caps s = (caps empty_sys)(7 \<mapsto> 3)"
    using new_step [OF ok, of 7 3 "\<lambda>i. i" extra_info_reset 0 100] unfolding demo_new_def up
    by (auto simp: empty_sys_def)
  have "buf_reach no_cb (empty_sys, {})" unfolding empty_sys_def by (rule buf_reach.start)
  then have "buf_reach no_cb (s, {})"
    by (rule buf_reach.step) (rule buf_step.bnew [OF _ _ _ _ s(1) [unfolded demo_new_def]],
        auto simp: empty_sys_def)
  moreover have "bs_fifo s 7 \<noteq> None"
    using fun_cong [OF s(3), of 7] by (auto simp: capmap_def)
  ultimately show ?thesis using s(1) by (auto simp: sys_ok_queue_of [OF s(2)])
qed

lemma demo_alloc_reach: "\<exists>s. demo_alloc = Ret (2, s) \<and> buf_reach no_cb (s, {2}) \<and> bs_fifo s 7 \<noteq> None \<and>
    pool_of 7 s = [1, 0] \<and> queue_of 7 s = []"
proof -
  obtain s0 where s0: "demo_new = Ret s0" "buf_reach no_cb (s0, {})" "pool_of 7 s0 = [2, 1, 0]"
    and f: "bs_fifo s0 7 \<noteq> None" "queue_of 7 s0 = []" using demo_new_reach by blast
  note D = buf_invD [OF buf_reach_inv [OF s0(2)]]
  obtain F where F: "bs_fifo s0 7 = Some F" using f by blast
  obtain s where s: "buffer_pool_alloc no_cb 7 s0 = Ret (2, s)"
    "sys_ok s (\<lambda>f. queue_of f s0) ((\<lambda>f. pool_of f s0)(7 := [1, 0]))" "caps s = caps s0"
    using alloc_step [OF D(1) F s0(3), of no_cb] by auto
  have "buf_reach no_cb (s, insert 2 {})"
    using s0(2) by (rule buf_reach.step) (rule buf_step.balloc [OF s(1)])
  moreover have "demo_alloc = Ret (2, s)"
    unfolding demo_alloc_def s0(1) using s(1) by simp
  ultimately show ?thesis
    using caps_None [OF s(3), of 7] f by (auto simp: sys_ok_queue_of [OF s(2)])
qed

theorem buf_clients_safe_witness:
  "\<exists>s. demo_alloc = Ret (2, s) \<and> (\<exists>s'. fifo_buffer_put no_cb 7 2 s = Ret s') \<and>
    (\<exists>s'. buffer_pool_free 2 s = Ret s')"
proof -
  obtain s where s: "demo_alloc = Ret (2, s)" "buf_reach no_cb (s, {2})" "bs_fifo s 7 \<noteq> None"
    using demo_alloc_reach by blast
  show ?thesis using s buf_clients_safe [OF s(2) _ s(3), of 2] by blast
qed

theorem buf_conservation_witness:
  "\<exists>s F. demo_alloc = Ret (2, s) \<and> bs_fifo s 7 = Some F \<and> pool_of 7 s = [1, 0] \<and>
    at_place s {2} 2 With_client \<and> at_place s {2} 1 (In_pool 7) \<and> (\<exists>!pl. at_place s {2} 1 pl) \<and> ff_num_free F = 2"
proof -
  obtain s F where s: "demo_alloc = Ret (2, s)" "buf_reach no_cb (s, {2})" "bs_fifo s 7 = Some F"
      "pool_of 7 s = [1, 0]"
    using demo_alloc_reach by blast
  note C = buf_conservation [OF s(2)]
  have 1: "at_place s {2} 1 (In_pool 7)" using s(4) by simp
  then have "\<exists>!pl. at_place s {2} 1 pl" using C by blast
  moreover have "counters_agree s F (queue_of 7 s) (pool_of 7 s)" using C s(3) by blast
  then have "ff_num_free F = 2" using s(4) by (simp add: counters_agree_def)
  moreover have "at_place s {2} 2 With_client" by simp
  ultimately show ?thesis using s(1,3,4) 1 by blast
qed

theorem buf_emergency_witness:
  "\<exists>s c s''. demo_alloc = Ret (2, s) \<and> c \<noteq> 2 \<and> buffer_pool_try_alloc 7 s = Ret (Some c, s'')"
proof -
  obtain s0 where s0: "demo_new = Ret s0" "buf_reach no_cb (s0, {})" using demo_new_reach by blast
  obtain s where s: "demo_alloc = Ret (2, s)" using demo_alloc_reach by blast
  then have "buffer_pool_alloc no_cb 7 s0 = Ret (2, s)"
    unfolding demo_alloc_def s0(1) by simp
  from buf_emergency [OF s0(2) this] s show ?thesis by blast
qed

theorem fifo_in_order_witness:
  "\<exists>s s1 s2. demo_alloc = Ret (2, s) \<and> put_all (fifo_buffer_put no_cb 7) [2] s = Ret s1 \<and>
    get_many (fifo_buffer_get no_cb 7) (length (queue_of 7 s) + length [2::bufid]) s1 =
      Ret (queue_of 7 s @ [2], s2) \<and>
    fifo_buffer_get no_cb 7 s2 = Wait"
proof -
  obtain s where s: "demo_alloc = Ret (2, s)" "buf_reach no_cb (s, {2})" "bs_fifo s 7 \<noteq> None"
    using demo_alloc_reach by blast
  have "buf_inv (s, {2})" using s(2) by (rule buf_reach_inv)
  then have "fifo_inv 7 s" "loose s 2" using s(3) by (auto simp: buf_inv_def fifo_inv_def)
  then show ?thesis using s(1) fifo_in_order [of 7 s "[2]" no_cb] by auto
qed

section \<open>Callback registration\<close>

text \<open>The callbacks an array holds, in calling order: the entries before the first NULL.\<close>

fun cb_list :: "cb_array \<Rightarrow> (nat \<times> nat) list" where
  "cb_list [] = []"
| "cb_list ((None, d) # cbs) = []"
| "cb_list ((Some c, d) # cbs) = (c, d) # cb_list cbs"

lemma first_null_cb_list: "None \<in> fst ` set cbs \<Longrightarrow> first_null cbs = Ret (length (cb_list cbs))"
  by (induction cbs rule: cb_list.induct) auto

lemma cb_wf_null: "cb_wf cbs \<Longrightarrow> None \<in> fst ` set cbs"
  by (auto simp: cb_wf_def BUF_MAX_CALLBACKS_def image_iff intro!: bexI [of _ "cbs ! 4"])

lemma cb_list_length: "None \<in> fst ` set cbs \<Longrightarrow> length (cb_list cbs) < length cbs"
  by (induction cbs rule: cb_list.induct) auto

lemma cb_list_register:
  "None \<in> fst ` set cbs \<Longrightarrow> i = length (cb_list cbs) \<Longrightarrow> Suc i < length cbs \<Longrightarrow>
    cb_list (cbs[i := (Some c, d), Suc i := (None, d')]) = cb_list cbs @ [(c, d)]"
proof (induction cbs arbitrary: i rule: cb_list.induct)
  case (2 e cbs)
  then show ?case by (cases cbs) auto
qed auto

lemma cb_register_list:
  assumes wf: "cb_wf cbs"
  shows "\<exists>cbs'. cb_register c d cbs = Ret cbs' \<and> cb_wf cbs' \<and>
    cb_list cbs' = (if length (cb_list cbs) < BUF_MAX_CALLBACKS - 1 then cb_list cbs @ [(c, d)]
                    else cb_list cbs)"
proof -
  let ?i = "length (cb_list cbs)"
  note null = cb_wf_null [OF wf]
  have len: "length cbs = 5" "?i < 5" using wf cb_list_length [OF null]
    by (auto simp: cb_wf_def BUF_MAX_CALLBACKS_def)
  show ?thesis
  proof (cases "?i = 4")
    case True
    then show ?thesis using wf first_null_cb_list [OF null]
      by (simp add: cb_register_def BUF_MAX_CALLBACKS_def)
  next
    case False
    let ?d = "snd (cbs[?i := (Some c, d)] ! Suc ?i)"
    let ?cbs = "cbs[?i := (Some c, d), Suc ?i := (None, ?d)]"
    have "cb_register c d cbs = Ret ?cbs"
      using False len first_null_cb_list [OF null] by (simp add: cb_register_def BUF_MAX_CALLBACKS_def)
    moreover have "cb_wf ?cbs"
      using wf len False by (auto simp: cb_wf_def BUF_MAX_CALLBACKS_def nth_list_update)
    ultimately show ?thesis
      using False len cb_list_register [OF null refl, of c d ?d] by (simp add: BUF_MAX_CALLBACKS_def)
  qed
qed


text \<open>
  What unregistering does to the calling order: an entry is removed and the one that moves into
  its place is skipped by the outer loop.
\<close>

fun unreg_spec :: "nat \<Rightarrow> (nat \<times> nat) list \<Rightarrow> (nat \<times> nat) list" where
  "unreg_spec c [] = []"
| "unreg_spec c [x] = (if fst x = c then [] else [x])"
| "unreg_spec c (x # y # xs) =
     (if fst x = c then y # unreg_spec c xs else x # unreg_spec c (y # xs))"

lemma cb_shift_list:
  assumes "None \<in> fst ` set cbs"
  shows "\<exists>y ys. cb_shift ((Some c, d) # cbs) = Ret (y # ys) \<and> y = hd cbs \<and>
    length ys = length cbs \<and> None \<in> fst ` set ys \<and> last ys = last cbs \<and>
    cb_list ys = (case cb_list cbs of [] \<Rightarrow> [] | _ # l \<Rightarrow> l)"
  using assms
proof (induction cbs arbitrary: c d)
  case Nil
  then show ?case by simp
next
  case (Cons x cbs)
  obtain a e where x: "x = (a, e)" by (cases x)
  show ?case
  proof (cases a)
    case None
    then show ?thesis using x by simp
  next
    case (Some c')
    with Cons.prems x have n: "None \<in> fst ` set cbs" by auto
    from Cons.IH [OF n, of c' e] obtain y ys where
      "cb_shift ((Some c', e) # cbs) = Ret (y # ys)" "y = hd cbs" "length ys = length cbs"
      "None \<in> fst ` set ys" "last ys = last cbs"
      "cb_list ys = (case cb_list cbs of [] \<Rightarrow> [] | _ # l \<Rightarrow> l)" by blast
    moreover obtain z zs where "cbs = z # zs" using n by (cases cbs) auto
    moreover have "ys \<noteq> []" using \<open>None \<in> fst ` set ys\<close> by auto
    ultimately show ?thesis using x Some by (cases z; cases "fst z") auto
  qed
qed

lemma cb_unreg_loop_list:
  assumes "None \<in> fst ` set rest" and "length rest < k"
  shows "\<exists>rest'. cb_unreg_loop k c (pre @ rest) (length pre) = Ret (pre @ rest') \<and>
    length rest' = length rest \<and> last rest' = last rest \<and>
    cb_list rest' = unreg_spec c (cb_list rest)"
  using assms
proof (induction k arbitrary: pre rest)
  case 0
  then show ?case by simp
next
  case (Suc k)
  then obtain x xs where rest: "rest = x # xs" by (cases rest) auto
  obtain a d where x: "x = (a, d)" by (cases x)
  show ?case
  proof (cases a)
    case None
    then show ?thesis using rest x by simp
  next
    case (Some c')
    with Suc.prems(1) rest x have n: "None \<in> fst ` set xs" by auto
    then obtain z zs where xs: "xs = z # zs" by (cases xs) auto
    show ?thesis
    proof (cases "c' = c")
      case True
      from cb_shift_list [OF n, of c d] obtain ys where
        ys: "cb_shift ((Some c, d) # xs) = Ret (z # ys)" "length ys = length xs"
          "None \<in> fst ` set ys" "last ys = last xs"
          "cb_list ys = (case cb_list xs of [] \<Rightarrow> [] | _ # l \<Rightarrow> l)"
        using xs by auto
      have "ys \<noteq> []" using ys(3) by auto
      have "\<exists>r. cb_unreg_loop k c ((pre @ [z]) @ ys) (length (pre @ [z])) = Ret ((pre @ [z]) @ r) \<and>
        length r = length ys \<and> last r = last ys \<and> cb_list r = unreg_spec c (cb_list ys)"
        by (rule Suc.IH [OF ys(3)]) (use Suc.prems(2) rest ys(2) in simp)
      then obtain r where r: "cb_unreg_loop k c (pre @ z # ys) (Suc (length pre)) = Ret (pre @ z # r)"
        "length r = length ys" "last r = last ys" "cb_list r = unreg_spec c (cb_list ys)" by auto
      have "r \<noteq> []" using r(2) \<open>ys \<noteq> []\<close> by auto
      moreover have "cb_list (z # r) = unreg_spec c (cb_list rest)"
        using r(4) ys(5) rest x xs Some True by (cases z; cases "fst z") auto
      ultimately show ?thesis using rest x xs Some True ys r
        by (intro exI [of _ "z # r"]) simp
    next
      case False
      have "\<exists>r. cb_unreg_loop k c ((pre @ [x]) @ xs) (length (pre @ [x])) = Ret ((pre @ [x]) @ r) \<and>
        length r = length xs \<and> last r = last xs \<and> cb_list r = unreg_spec c (cb_list xs)"
        by (rule Suc.IH [OF n]) (use Suc.prems(2) rest in simp)
      then obtain r where r: "cb_unreg_loop k c (pre @ x # xs) (Suc (length pre)) = Ret (pre @ x # r)"
        "length r = length xs" "last r = last xs" "cb_list r = unreg_spec c (cb_list xs)" by auto
      have "r \<noteq> []" using r(2) xs by auto
      moreover have "cb_list (x # r) = unreg_spec c (cb_list rest)"
        using r(4) rest x Some False by (cases "cb_list xs") auto
      ultimately show ?thesis using rest x Some False r xs
        by (intro exI [of _ "x # r"]) simp
    qed
  qed
qed

lemma cb_unregister_list:
  assumes wf: "cb_wf cbs"
  shows "\<exists>cbs'. cb_unregister c cbs = Ret cbs' \<and> cb_wf cbs' \<and>
    cb_list cbs' = unreg_spec c (cb_list cbs)"
proof -
  from cb_unreg_loop_list [OF cb_wf_null [OF wf], of "Suc (length cbs)" c "[]"]
  obtain r where r: "cb_unregister c cbs = Ret r" "length r = length cbs" "last r = last cbs"
    "cb_list r = unreg_spec c (cb_list cbs)" by (auto simp: cb_unregister_def)
  have len: "length cbs = 5" using wf by (simp add: cb_wf_def BUF_MAX_CALLBACKS_def)
  then have "cbs \<noteq> []" "r \<noteq> []" using r(2) by auto
  then have "r ! 4 = cbs ! 4" using r(2,3) len by (simp add: last_conv_nth)
  then have "cb_wf r" using wf r(2) by (simp add: cb_wf_def BUF_MAX_CALLBACKS_def)
  with r show ?thesis by blast
qed

lemma unreg_spec_once:
  "c \<notin> fst ` set xs \<Longrightarrow> unreg_spec c xs = xs"
  "c \<notin> fst ` set xs \<Longrightarrow> c \<notin> fst ` set ys \<Longrightarrow> unreg_spec c (xs @ (c, d) # ys) = xs @ ys"
proof -
  show a: "c \<notin> fst ` set xs \<Longrightarrow> unreg_spec c xs = xs" for xs
    by (induction c xs rule: unreg_spec.induct) auto
  show "c \<notin> fst ` set xs \<Longrightarrow> c \<notin> fst ` set ys \<Longrightarrow> unreg_spec c (xs @ (c, d) # ys) = xs @ ys"
  proof (induction xs)
    case Nil
    then show ?case using a [of "tl ys"] by (cases ys) auto
  next
    case (Cons x xs)
    then show ?case by (cases "xs @ (c, d) # ys") auto
  qed
qed

text \<open>
  Registering and unregistering callbacks: a registration appends the callback unless four
  are registered already (then it is dropped without a sign), and unregistering a callback that
  was registered once removes exactly it and keeps the order of the others.
\<close>

theorem cb_register_unregister:
  assumes "cb_wf cbs" and "c \<notin> fst ` set (cb_list cbs)"
  shows "\<exists>cbs1 cbs2. cb_register c d cbs = Ret cbs1 \<and>
    cb_list cbs1 = (if length (cb_list cbs) < BUF_MAX_CALLBACKS - 1 then cb_list cbs @ [(c, d)]
                    else cb_list cbs) \<and>
    cb_unregister c cbs1 = Ret cbs2 \<and> cb_wf cbs2 \<and> cb_list cbs2 = cb_list cbs"
proof -
  obtain cbs1 where 1: "cb_register c d cbs = Ret cbs1" "cb_wf cbs1"
    "cb_list cbs1 = (if length (cb_list cbs) < BUF_MAX_CALLBACKS - 1 then cb_list cbs @ [(c, d)]
                     else cb_list cbs)"
    using cb_register_list [OF assms(1)] by blast
  obtain cbs2 where 2: "cb_unregister c cbs1 = Ret cbs2" "cb_wf cbs2"
    "cb_list cbs2 = unreg_spec c (cb_list cbs1)"
    using cb_unregister_list [OF 1(2)] by blast
  have "unreg_spec c (cb_list cbs1) = cb_list cbs"
    using 1(3) unreg_spec_once(1) [OF assms(2)] unreg_spec_once(2) [OF assms(2), of "[]" d] by auto
  with 1 2 show ?thesis by auto
qed

theorem cb_register_unregister_witness:
  "\<exists>cbs1 cbs2. cb_register 3 9 (replicate 5 (None, 0)) = Ret cbs1 \<and> cb_list cbs1 = [(3, 9)] \<and>
    cb_unregister 3 cbs1 = Ret cbs2 \<and> cb_list cbs2 = []"
proof -
  have "cb_wf (replicate 5 (None, 0))" by (simp add: cb_wf_def BUF_MAX_CALLBACKS_def)
  moreover have "cb_list (replicate 5 (None, 0)) = []" by (simp add: numeral_eq_Suc)
  ultimately show ?thesis
    using cb_register_unregister [of "replicate 5 (None, 0)" 3 9]
    by (auto simp: BUF_MAX_CALLBACKS_def)
qed

text \<open>
  A callback registered twice in a row survives one unregistration: the outer loop steps
  over the second entry, which has just moved into the first one's place.
\<close>

theorem cb_unregister_skips_twin:
  "\<exists>cbs1 cbs2. obind (cb_register c d (replicate BUF_MAX_CALLBACKS (None, 0))) (cb_register c d) = Ret cbs1 \<and>
    cb_list cbs1 = [(c, d), (c, d)] \<and>
    cb_unregister c cbs1 = Ret cbs2 \<and> cb_list cbs2 = [(c, d)]"
  by (simp add: cb_register_def cb_unregister_def BUF_MAX_CALLBACKS_def numeral_eq_Suc aget_def aset_def)


section \<open>Clearing and disposing\<close>

text \<open>
  Clearing a fifo keeps its control buffers, in order, and returns every other element to
  the pool it was allocated from, whichever fifo that is; no element's contents change.
\<close>

theorem fifo_clear_keeps_control:
  assumes "buf_reach run (s, H)" and "bs_fifo s f \<noteq> None" and "length (queue_of f s) < k"
  shows "\<exists>s'. fifo_buffer_clear k f s = Ret s' \<and>
    queue_of f s' = filter (ctl (bs_elem s)) (queue_of f s) \<and>
    pool_of g s' = rev (filter (\<lambda>b. \<not> ctl (bs_elem s) b \<and> source_is (bs_elem s) g b) (queue_of f s))
      @ pool_of g s \<and>
    payload (bs_elem s') = payload (bs_elem s)"
proof -
  note D = buf_invD [OF buf_reach_inv [OF assms(1)]]
  obtain F where F: "bs_fifo s f = Some F" using assms(2) by blast
  from clear_step [OF D(1) F D(2) assms(3)] show ?thesis
    by (auto simp: sys_ok_queue_of released_def)
qed

definition demo_put :: "unit bufsys outcome" where
  "demo_put = obind demo_alloc (\<lambda>(b, s). fifo_buffer_put no_cb 7 b s)"

lemma demo_put_reach: "\<exists>s. demo_put = Ret s \<and> buf_reach no_cb (s, {}) \<and> bs_fifo s 7 \<noteq> None \<and>
    pool_of 7 s = [1, 0] \<and> queue_of 7 s = [2]"
proof -
  obtain s0 where s0: "demo_alloc = Ret (2, s0)" "buf_reach no_cb (s0, {2})" "pool_of 7 s0 = [1, 0]"
    and f: "bs_fifo s0 7 \<noteq> None" "queue_of 7 s0 = []" using demo_alloc_reach by blast
  note D = buf_invD [OF buf_reach_inv [OF s0(2)]]
  obtain F where F: "bs_fifo s0 7 = Some F" using f by blast
  obtain s where s: "fifo_buffer_put no_cb 7 2 s0 = Ret s"
    "sys_ok s ((\<lambda>f. queue_of f s0)(7 := queue_of 7 s0 @ [2])) (\<lambda>f. pool_of f s0)" "caps s = caps s0"
    using put_step [OF D(1) F, of 2 no_cb] D(3) [of 2] by auto
  have "buf_reach no_cb (s, {2} - {2})"
    using s0(2) by (rule buf_reach.step) (rule buf_step.bput [OF _ s(1)], simp)
  moreover have "demo_put = Ret s" unfolding demo_put_def s0(1) using s(1) by simp
  ultimately show ?thesis
    using caps_None [OF s(3), of 7] f s0(3) by (auto simp: sys_ok_queue_of [OF s(2)])
qed

theorem fifo_clear_keeps_control_witness:
  "\<exists>s s'. demo_put = Ret s \<and> queue_of 7 s = [2] \<and> fifo_buffer_clear 5 7 s = Ret s' \<and>
    queue_of 7 s' = filter (ctl (bs_elem s)) (queue_of 7 s)"
proof -
  obtain s where s: "demo_put = Ret s" "buf_reach no_cb (s, {})" "bs_fifo s 7 \<noteq> None" "queue_of 7 s = [2]"
    using demo_put_reach by blast
  then have "length (queue_of 7 s) < 5" by simp
  from fifo_clear_keeps_control [OF s(2,3) this] s(1,4) show ?thesis by blast
qed

definition without :: "(bufid \<rightharpoonup> buf_element) \<Rightarrow> bufid set \<Rightarrow> bufid \<rightharpoonup> buf_element" where
  "without m A = (\<lambda>b. if b \<in> A then None else m b)"

lemma without_simps [simp]:
  "without m {} = m" "without (m(b := None)) A = without m (insert b A)"
  "without (without m A) B = without m (A \<union> B)"
  by (auto simp: without_def fun_eq_iff)

lemma nxt_without: "x \<notin> A \<Longrightarrow> nxt (without m A) x = nxt m x"
  by (simp add: nxt_def without_def)

lemma nxt_removed: "x \<noteq> b \<Longrightarrow> nxt (m(b := None)) x = nxt m x"
  by (simp add: nxt_def)

lemma dispose_pool_ok:
  "lseg (links s) p xs None \<Longrightarrow> length xs < k \<Longrightarrow>
    dispose_pool k p r s = Ret (r + length xs, s\<lparr>bs_elem := without (bs_elem s) (set xs)\<rparr>)"
proof (induction xs arbitrary: k p r s)
  case Nil
  then show ?case by (cases k) auto
next
  case (Cons x xs)
  then obtain k' where k: "k = Suc k'" by (cases k) auto
  from Cons.prems obtain e where e: "bs_elem s x = Some e" "p = Some x"
    and seg: "lseg (links s) (be_next e) xs None" by (auto simp: nxt_Some_iff)
  have "x \<notin> set xs" using lseg_distinct [OF Cons.prems(1)] by simp
  then have "lseg (nxt ((bs_elem s)(x := None))) (be_next e) xs None"
    using seg lseg_cong [of xs "nxt ((bs_elem s)(x := None))" "links s"] nxt_removed by metis
  then have seg': "lseg (links (s\<lparr>bs_elem := (bs_elem s)(x := None)\<rparr>)) (be_next e) xs None"
    by (simp del: without_simps fun_upd_apply)
  have "dispose_pool k' (be_next e) (r + 1) (s\<lparr>bs_elem := (bs_elem s)(x := None)\<rparr>) =
      Ret (r + 1 + length xs, s\<lparr>bs_elem := without ((bs_elem s)(x := None)) (set xs)\<rparr>)"
    using Cons.IH [OF seg', of k' "r + 1"] Cons.prems(2) k
    by (simp del: without_simps fun_upd_apply)
  then show ?case unfolding without_simps(2) using k e by (simp add: elem_of_def free_elem_def)
qed

lemma dispose_rest_ok:
  "bs_fifo s f = Some F \<Longrightarrow> lseg (links s) (ff_first F) q None \<Longrightarrow> cb_wf (ff_get_cb F) \<Longrightarrow>
    \<exists>s' F'. dispose_rest (length q) run f s = Ret s' \<and> bs_elem s' = without (bs_elem s) (set q) \<and>
      bs_fifo s' = (bs_fifo s)(f \<mapsto> F')"
proof (induction q arbitrary: s F)
  case Nil
  then show ?case by (auto simp: fun_eq_iff)
next
  case (Cons b q)
  from Cons.prems obtain e where e: "bs_elem s b = Some e" "ff_first F = Some b"
    and seg: "lseg (links s) (be_next e) q None" by (auto simp: nxt_Some_iff)
  let ?F = "F\<lparr>ff_first := be_next e, ff_last := (if be_next e = None then None else ff_last F),
      ff_size := ff_size F - 1, ff_data_size := ff_data_size F - word_of_int (be_size e)\<rparr>"
  let ?s = "s\<lparr>bs_fifo := (bs_fifo s)(f \<mapsto> ?F)\<rparr>"
  obtain w where w: "run_cbs run f (Some b) (ff_get_cb F) ?s = Ret (?s\<lparr>bs_world := w\<rparr>)"
    using run_cbs_wf [OF Cons.prems(3), of run f "Some b" ?s] by (rule exE)
  let ?s2 = "?s\<lparr>bs_world := w, bs_elem := (bs_elem s)(b := None)\<rparr>"
  have "b \<notin> set q" using lseg_distinct [OF Cons.prems(2)] by simp
  then have seg2: "lseg (links ?s2) (ff_first ?F) q None"
    using seg lseg_cong [of q "nxt ((bs_elem s)(b := None))" "links s"] nxt_removed by simp metis
  have "dispose_rest (length (b # q)) run f s = dispose_rest (length q) run f ?s2"
    using e w Cons.prems(1) by (simp add: fifo_buffer_get_def buf_access free_elem_def)
  moreover have "bs_fifo ?s2 f = Some ?F" by simp
  ultimately show ?case
    using Cons.IH [of ?s2 ?F] seg2 Cons.prems(3) by fastforce
qed

lemma released_set:
  assumes "\<And>b. b \<in> set bs \<Longrightarrow> source_is m f b"
  shows "set (filter (ctl m) bs) \<union> set (released m bs P f) = set bs \<union> set (P f)"
  using assms by (auto simp: released_def)

text \<open>
  Disposing a fifo whose elements have all come home (each is in its pool or its queue, and
  the queue holds no foreign element) returns without waiting, frees exactly its elements, the
  control buffers left in the queue included, and removes the fifo.
\<close>

theorem fifo_dispose_frees_all:
  assumes "buf_reach run (s, H)" and "bs_fifo s f \<noteq> None"
    and home: "set (queue_of f s) \<union> set (pool_of f s) = own s f"
    and k: "length (queue_of f s) + length (pool_of f s) < k"
  shows "\<exists>s'. fifo_buffer_dispose k run f s = Ret s' \<and>
    dom (bs_elem s') = dom (bs_elem s) - own s f \<and> dom (bs_fifo s') = dom (bs_fifo s) - {f}"
proof -
  note D = buf_invD [OF buf_reach_inv [OF assms(1)]]
  obtain F where F: "bs_fifo s f = Some F" using assms(2) by blast
  let ?Q = "filter (ctl (bs_elem s)) (queue_of f s)"
  let ?P = "released (bs_elem s) (queue_of f s) (\<lambda>f. pool_of f s) f"
  have src: "source_is (bs_elem s) f b" if "b \<in> set (queue_of f s)" for b
  proof -
    have "b \<in> own s f" using home that by blast
    then show ?thesis by (auto simp: owned_def payload_def source_is_def)
  qed
  obtain s1 where s1: "fifo_buffer_clear k f s = Ret s1"
    "sys_ok s1 ((\<lambda>f. queue_of f s)(f := ?Q)) (released (bs_elem s) (queue_of f s) (\<lambda>f. pool_of f s))"
    "payload (bs_elem s1) = payload (bs_elem s)" "caps s1 = caps s"
    using clear_step [OF D(1) F D(2), of k] k by auto
  obtain F1 where F1: "bs_fifo s1 f = Some F1" "ff_capacity F1 = ff_capacity F"
    using caps_Some [OF s1(4) F] by blast
  have rep: "fifo_rep (links s1) (sizes s1) F1 ?Q ?P" using sys_ok_fifo [OF s1(2) F1(1)] by simp
  have all: "set ?Q \<union> set ?P = own s f" using released_set [of "queue_of f s" "bs_elem s" f] src home by simp
  have disj: "set ?Q \<inter> set ?P = {}" using sys_ok_apart(2) [OF s1(2), of _ f f] by auto
  have dist: "distinct ?Q" "distinct ?P"
    using sys_ok_distinct [OF s1(2), of f] by simp_all
  have "card (own s f) = card (set ?Q) + card (set ?P)"
    unfolding all [symmetric] using disj by (simp add: card_Un_disjoint)
  then have card: "card (own s f) = length ?Q + length ?P"
    using dist by (simp only: distinct_card)
  then have cap: "nat (ff_capacity F1) - length ?P = length ?Q"
    using D(4) [OF F] F1(2) by simp
  have "length ?P \<le> length (queue_of f s) + length (pool_of f s)"
    by (simp add: released_def)
  then have P: "dispose_pool k (ff_pool_top F1) 0 s1 =
      Ret (length ?P, s1\<lparr>bs_elem := without (bs_elem s1) (set ?P)\<rparr>)"
    using dispose_pool_ok [of s1 "ff_pool_top F1" ?P k 0] rep k by (simp add: fifo_rep_def)
  let ?s2 = "s1\<lparr>bs_elem := without (bs_elem s1) (set ?P)\<rparr>"
  have "lseg (links s1) (ff_first F1) ?Q None" using rep by (simp add: fifo_rep_def)
  moreover have "links ?s2 x = links s1 x" if "x \<in> set ?Q" for x
    using that disj nxt_without [of x "set ?P"] by auto
  ultimately have seg: "lseg (links ?s2) (ff_first F1) ?Q None"
    using lseg_cong [of ?Q "links ?s2" "links s1"] by blast
  obtain s3 F3 where s3: "dispose_rest (length ?Q) run f ?s2 = Ret s3"
    "bs_elem s3 = without (bs_elem ?s2) (set ?Q)" "bs_fifo s3 = (bs_fifo ?s2)(f \<mapsto> F3)"
    using dispose_rest_ok [of ?s2 f F1 ?Q run] seg F1(1) sys_ok_cb(3) [OF s1(2) F1(1)] by auto
  have run: "fifo_buffer_dispose k run f s = Ret (s3\<lparr>bs_fifo := (bs_fifo s3)(f := None)\<rparr>)"
    using s1(1) F1(1) P cap s3(1) by (simp add: fifo_buffer_dispose_def fifo_of_def)
  have "dom (bs_elem s1) = dom (bs_elem s)" using arg_cong [OF s1(3), of dom] by simp
  moreover have "dom (bs_elem s3) = dom (bs_elem s1) - own s f"
    unfolding all [symmetric] using s3(2) by (auto simp: without_def split: if_splits)
  moreover have "dom (bs_fifo s1) = dom (bs_fifo s)"
    by (rule set_eqI) (simp only: domIff caps_None [OF s1(4)])
  ultimately show ?thesis using run s3(3) by (intro exI [of _ "s3\<lparr>bs_fifo := (bs_fifo s3)(f := None)\<rparr>"]) auto
qed

theorem fifo_dispose_frees_all_witness:
  "\<exists>s s'. demo_new = Ret s \<and> fifo_buffer_dispose 5 no_cb 7 s = Ret s' \<and>
    dom (bs_elem s') = dom (bs_elem s) - own s 7 \<and> dom (bs_fifo s') = dom (bs_fifo s) - {7}"
proof -
  obtain s where s: "demo_new = Ret s" "buf_reach no_cb (s, {})" "pool_of 7 s = [2, 1, 0]"
    "queue_of 7 s = []" "bs_fifo s 7 \<noteq> None" using demo_new_reach by blast
  note D = buf_invD [OF buf_reach_inv [OF s(2)]]
  obtain F where F: "bs_fifo s 7 = Some F" using s(5) by blast
  have "int (card (own s 7)) = ff_capacity F" by (rule D(4) [OF F])
  moreover have "source_is (bs_elem s) 7 b \<longleftrightarrow> b \<in> own s 7" for b
    by (auto simp: source_is_def owned_def payload_def split: option.splits)
  moreover have "set (pool_of 7 s) \<subseteq> own s 7" "finite (own s 7)"
    using sys_ok_owned(1,2) [OF D(1) F] by auto
  moreover have "ff_capacity F = 3"
    using s(1) F by (auto simp: demo_new_def fifo_buffer_new_def Let_def eval_nat_numeral
        buffer_pool_free_def buf_access new_elem_def empty_sys_def)
  moreover have "card (set (pool_of 7 s)) = 3" using s(3) by simp
  ultimately have "set (pool_of 7 s) = own s 7"
    by (intro card_subset_eq) auto
  then have "set (queue_of 7 s) \<union> set (pool_of 7 s) = own s 7" using s(4) by simp
  from fifo_dispose_frees_all [OF s(2,5) this, of 5] s show ?thesis by auto
qed

end
