(* ===== verification/Cursor_Iface.thy ===== *)
theory Cursor_Iface
  imports Xine_Prelude
begin

text \<open>
  The contract of a list with a cursor (src/src/xine-utils/list.c), and the loops its clients
  run over it: visiting all contents, searching for one, taking the first. A list is split at
  the cursor into the elements before it and those from it on.
\<close>

section \<open>The list at the cursor\<close>

type_synonym 'c elem = "'c option \<times> int"

text \<open>The elements before the cursor, and those from the cursor on.\<close>

type_synonym 'c clist = "'c elem list \<times> 'c elem list"

definition cl_all :: "'c clist \<Rightarrow> 'c elem list" where
  "cl_all z = fst z @ snd z"

definition cl_content :: "'c clist \<Rightarrow> 'c option" where
  "cl_content z = (case snd z of [] \<Rightarrow> None | e # _ \<Rightarrow> fst e)"

definition cl_first :: "'c clist \<Rightarrow> 'c clist" where
  "cl_first z = ([], cl_all z)"

definition cl_next :: "'c clist \<Rightarrow> 'c option \<times> 'c clist" where
  "cl_next z = (case snd z of
       x # y # r \<Rightarrow> (fst y, (fst z @ [x], y # r))
     | _ \<Rightarrow> (None, z))"

definition cl_last :: "'c clist \<Rightarrow> 'c clist" where
  "cl_last z = (if cl_all z = [] then z else (butlast (cl_all z), [last (cl_all z)]))"

definition cl_prev :: "'c clist \<Rightarrow> 'c option \<times> 'c clist" where
  "cl_prev z =
     (if fst z = [] then (None, z)
      else (fst (last (fst z)), (butlast (fst z), last (fst z) # snd z)))"

definition cl_append :: "'c option \<Rightarrow> 'c clist \<Rightarrow> 'c clist" where
  "cl_append c z = (cl_all z, [(c, 0)])"

definition cl_insert :: "'c option \<Rightarrow> 'c clist \<Rightarrow> 'c clist" where
  "cl_insert c z = (fst z @ [hd (snd z)], (c, 0) # tl (snd z))"

definition cl_priority :: "'c option \<Rightarrow> int \<Rightarrow> 'c clist \<Rightarrow> 'c clist" where
  "cl_priority c p z =
     (takeWhile (\<lambda>e. p < snd e) (cl_all z), (c, p) # dropWhile (\<lambda>e. p < snd e) (cl_all z))"

definition cl_delete :: "'c clist \<Rightarrow> 'c clist" where
  "cl_delete z = (case snd z of
       [] \<Rightarrow> z
     | x # y # r \<Rightarrow> (fst z, y # r)
     | [x] \<Rightarrow> if fst z = [] then ([], []) else (butlast (fst z), [last (fst z)]))"

section \<open>Client loops\<close>

text \<open>\<open>while (q && !found (q)) q = next (list)\<close>\<close>

fun find_loop :: "('s \<Rightarrow> ('c option \<times> 's) outcome) \<Rightarrow> ('c \<Rightarrow> bool) \<Rightarrow> nat \<Rightarrow> 'c option \<Rightarrow> 's \<Rightarrow> ('c option \<times> 's) outcome" where
  "find_loop nextc P 0 q s = Spin"
| "find_loop nextc P (Suc k) q s =
     (case q of None \<Rightarrow> Ret (None, s)
      | Some c \<Rightarrow> if P c then Ret (q, s)
          else obind (nextc s) (\<lambda>(q', s'). find_loop nextc P k q' s'))"

text \<open>\<open>while (q) { body (q); q = next (list) }\<close>, the body working on a state of its own.\<close>

fun visit_loop ::
  "('s \<Rightarrow> ('c option \<times> 's) outcome) \<Rightarrow> ('c \<Rightarrow> 't \<Rightarrow> 't outcome) \<Rightarrow> nat \<Rightarrow> 'c option \<Rightarrow> 's \<Rightarrow> 't \<Rightarrow> ('t \<times> 's) outcome" where
  "visit_loop nextc body 0 q s t = Spin"
| "visit_loop nextc body (Suc k) q s t =
     (case q of None \<Rightarrow> Ret (t, s)
      | Some c \<Rightarrow> obind (body c t) (\<lambda>t'. obind (nextc s) (\<lambda>(q', s').
          visit_loop nextc body k q' s' t')))"

text \<open>What the visit amounts to: the body on every content in order.\<close>

fun fold_all :: "('c \<Rightarrow> 't \<Rightarrow> 't outcome) \<Rightarrow> 'c list \<Rightarrow> 't \<Rightarrow> 't outcome" where
  "fold_all body [] t = Ret t"
| "fold_all body (c # cs) t = obind (body c t) (fold_all body cs)"

definition solid :: "'c clist \<Rightarrow> bool" where
  "solid z \<longleftrightarrow> (\<forall>e \<in> set (cl_all z). fst e \<noteq> None)"

definition contents :: "'c clist \<Rightarrow> 'c list" where
  "contents z = map (the \<circ> fst) (cl_all z)"

text \<open>The position a search stops at: the first match, or the last element.\<close>

definition cl_found :: "('c \<Rightarrow> bool) \<Rightarrow> 'c clist \<Rightarrow> 'c clist" where
  "cl_found P z =
     (if \<exists>e \<in> set (snd z). P (the (fst e)) then
        (fst z @ takeWhile (\<lambda>e. \<not> P (the (fst e))) (snd z), dropWhile (\<lambda>e. \<not> P (the (fst e))) (snd z))
      else (fst z @ butlast (snd z), drop (length (snd z) - 1) (snd z)))"

text \<open>The idiom \<open>c = first (list); if (c) delete_current (list)\<close>.\<close>

definition take_first ::
  "('s \<Rightarrow> ('c option \<times> 's) outcome) \<Rightarrow> ('s \<Rightarrow> 's outcome) \<Rightarrow> 's \<Rightarrow> ('c option \<times> 's) outcome" where
  "take_first firstc deletec s = obind (firstc s) (\<lambda>(c, s1).
     if c = None then Ret (None, s1) else obind (deletec s1) (\<lambda>s2. Ret (c, s2)))"

text \<open>The loops from the first element on; \<open>search\<close> leaves the cursor where it ended.\<close>

definition visit_all ::
  "('s \<Rightarrow> ('c option \<times> 's) outcome) \<Rightarrow> ('s \<Rightarrow> ('c option \<times> 's) outcome) \<Rightarrow> ('c \<Rightarrow> 't \<Rightarrow> 't outcome) \<Rightarrow> nat \<Rightarrow> 's \<Rightarrow> 't \<Rightarrow> ('t \<times> 's) outcome" where
  "visit_all firstc nextc body k s t =
     obind (firstc s) (\<lambda>(c, s1). visit_loop nextc body k c s1 t)"

definition search ::
  "('s \<Rightarrow> ('c option \<times> 's) outcome) \<Rightarrow> ('s \<Rightarrow> ('c option \<times> 's) outcome) \<Rightarrow> ('c \<Rightarrow> bool) \<Rightarrow> nat \<Rightarrow> 's \<Rightarrow> ('c option \<times> 's) outcome" where
  "search firstc nextc P k s = obind (firstc s) (\<lambda>(c, s1). find_loop nextc P k c s1)"

text \<open>A list that holds the contents \<open>cs\<close>, none of them NULL, wherever its cursor is.\<close>

definition holds :: "('s \<Rightarrow> 'c clist \<Rightarrow> bool) \<Rightarrow> 's \<Rightarrow> 'c list \<Rightarrow> bool" where
  "holds sees s cs \<longleftrightarrow> (\<exists>z. sees s z \<and> solid z \<and> contents z = cs)"

lemma holdsI: "sees s z \<Longrightarrow> solid z \<Longrightarrow> contents z = cs \<Longrightarrow> holds sees s cs"
  unfolding holds_def by (intro exI [of _ z] conjI)

lemma clist_all_simps [simp]:
  "cl_all (cl_first z) = cl_all z" "cl_all (cl_append c z) = cl_all z @ [(c, 0)]"
  "fst (cl_first z) = []" "snd (cl_first z) = cl_all z"
  by (simp_all add: cl_all_def cl_first_def cl_append_def)

lemma cl_all_found [simp]: "cl_all (cl_found P z) = cl_all z"
  by (simp add: cl_all_def cl_found_def butlast_conv_take)

section \<open>The contract\<close>

locale cursor_list =
  fixes sees :: "'s \<Rightarrow> 'c clist \<Rightarrow> bool"
    and firstc :: "'s \<Rightarrow> ('c option \<times> 's) outcome"
    and nextc :: "'s \<Rightarrow> ('c option \<times> 's) outcome"
    and appendc :: "'c option \<Rightarrow> 's \<Rightarrow> 's outcome"
    and deletec :: "'s \<Rightarrow> 's outcome"
  assumes first_law: "sees s z \<Longrightarrow>
      \<exists>s'. firstc s = Ret (cl_content (cl_first z), s') \<and> sees s' (cl_first z)"
    and next_law: "sees s z \<Longrightarrow>
      \<exists>s'. nextc s = Ret (fst (cl_next z), s') \<and> sees s' (snd (cl_next z))"
    and append_law: "sees s z \<Longrightarrow> \<exists>s'. appendc c s = Ret s' \<and> sees s' (cl_append c z)"
    and delete_law: "sees s z \<Longrightarrow> snd z \<noteq> [] \<Longrightarrow>
      \<exists>s'. deletec s = Ret s' \<and> sees s' (cl_delete z)"
begin

lemma find_loop_ok:
  assumes "sees s z" and "solid z" and "length (snd z) < k"
  shows "\<exists>s'. find_loop nextc P k (cl_content z) s =
      Ret (if \<exists>e \<in> set (snd z). P (the (fst e)) then cl_content (cl_found P z) else None, s') \<and>
    sees s' (cl_found P z)"
  using assms
proof (induction k arbitrary: s z)
  case 0
  then show ?case by simp
next
  case (Suc k)
  show ?case
  proof (cases "snd z")
    case Nil
    then show ?thesis using Suc.prems by (cases z) (auto simp: cl_content_def cl_found_def)
  next
    case (Cons x r)
    then obtain c where c: "fst x = Some c" using Suc.prems(2) by (auto simp: solid_def cl_all_def)
    show ?thesis
    proof (cases "P c")
      case True
      then show ?thesis using Cons c Suc.prems(1) by (cases z) (auto simp: cl_content_def cl_found_def)
    next
      case False
      from next_law [OF Suc.prems(1)] obtain s1 where
        s1: "nextc s = Ret (fst (cl_next z), s1)" "sees s1 (snd (cl_next z))" by blast
      have step: "find_loop nextc P (Suc k) (cl_content z) s = find_loop nextc P k (fst (cl_next z)) s1"
        using Cons c False s1(1) by (simp add: cl_content_def)
      show ?thesis
      proof (cases r)
        case Nil
        then have "cl_next z = (None, z)" "cl_found P z = z" using Cons c False
          by (auto simp: cl_next_def cl_found_def intro: prod_eqI)
        moreover obtain k' where "k = Suc k'" using Suc.prems(3) Cons by (cases k) auto
        ultimately show ?thesis using step s1(2) Cons Nil c False by simp
      next
        case r: (Cons y r')
        let ?z = "(fst z @ [x], r)"
        have n: "cl_next z = (cl_content ?z, ?z)" using Cons r by (simp add: cl_next_def cl_content_def)
        have f: "cl_found P ?z = cl_found P z"
          using Cons r c False by (simp add: cl_found_def)
        have "solid ?z" "length (snd ?z) < k" using Suc.prems(2,3) Cons
          by (auto simp: solid_def cl_all_def)
        moreover have "sees s1 ?z" using s1(2) n by simp
        moreover have "(\<exists>e \<in> set (snd z). P (the (fst e))) = (\<exists>e \<in> set (snd ?z). P (the (fst e)))"
          using Cons c False by simp
        ultimately show ?thesis using Suc.IH [of s1 ?z] f unfolding step n by (simp only: fst_conv)
      qed
    qed
  qed
qed

lemma visit_loop_ok:
  assumes "sees s z" and "solid z" and "length (snd z) < k"
    and "fold_all body (map (the \<circ> fst) (snd z)) t = Ret t'"
  shows "\<exists>s'. visit_loop nextc body k (cl_content z) s t = Ret (t', s') \<and> sees s' (cl_found (\<lambda>_. False) z)"
  using assms
proof (induction k arbitrary: s z t)
  case 0
  then show ?case by simp
next
  case (Suc k)
  show ?case
  proof (cases "snd z")
    case Nil
    then show ?thesis using Suc.prems by (cases z) (auto simp: cl_content_def cl_found_def)
  next
    case (Cons x r)
    then obtain c where c: "fst x = Some c" using Suc.prems(2) by (auto simp: solid_def cl_all_def)
    obtain t1 where t1: "body c t = Ret t1" "fold_all body (map (the \<circ> fst) r) t1 = Ret t'"
      using Suc.prems(4) Cons c by (auto simp: obind_eq_Ret comp_def)
    from next_law [OF Suc.prems(1)] obtain s1 where
      s1: "nextc s = Ret (fst (cl_next z), s1)" "sees s1 (snd (cl_next z))" by blast
    have step: "visit_loop nextc body (Suc k) (cl_content z) s t = visit_loop nextc body k (fst (cl_next z)) s1 t1"
      using Cons c t1(1) s1(1) by (simp add: cl_content_def)
    show ?thesis
    proof (cases r)
      case Nil
      then have "cl_next z = (None, z)" "cl_found (\<lambda>_. False) z = z" using Cons c
        by (auto simp: cl_next_def cl_found_def intro: prod_eqI)
      moreover obtain k' where "k = Suc k'" using Suc.prems(3) Cons by (cases k) auto
      ultimately show ?thesis using step s1(2) Nil t1(2) by simp
    next
      case r: (Cons y r')
      let ?z = "(fst z @ [x], r)"
      have n: "cl_next z = (cl_content ?z, ?z)" using Cons r by (simp add: cl_next_def cl_content_def)
      have f: "cl_found (\<lambda>_. False) ?z = cl_found (\<lambda>_. False) z"
        using Cons r c by (simp add: cl_found_def)
      have "solid ?z" "length (snd ?z) < k" using Suc.prems(2,3) Cons
        by (auto simp: solid_def cl_all_def)
      moreover have "sees s1 ?z" using s1(2) n by simp
      ultimately show ?thesis using Suc.IH [of s1 ?z t1] step n f t1(2) by (auto simp: comp_def)
    qed
  qed
qed

lemma take_first_ok:
  assumes "sees s z" and "solid z"
  shows "\<exists>s'. take_first firstc deletec s = Ret (cl_content (cl_first z), s') \<and> sees s' ([], tl (cl_all z))"
proof -
  from first_law [OF assms(1)] obtain s1 where
    s1: "firstc s = Ret (cl_content (cl_first z), s1)" "sees s1 (cl_first z)" by blast
  show ?thesis
  proof (cases "cl_all z")
    case Nil
    then show ?thesis using s1 by (simp add: take_first_def cl_first_def cl_content_def)
  next
    case (Cons x r)
    then have "cl_content (cl_first z) \<noteq> None" using assms(2)
      by (simp add: solid_def cl_content_def cl_first_def)
    moreover from delete_law [OF s1(2)] Cons obtain s2 where
      "deletec s1 = Ret s2" "sees s2 (cl_delete (cl_first z))" by (auto simp: cl_first_def)
    moreover have "cl_delete (cl_first z) = ([], r)" using Cons
      by (cases r) (simp_all add: cl_first_def cl_delete_def)
    ultimately show ?thesis using s1(1) Cons by (auto simp: take_first_def)
  qed
qed

lemma holds_append:
  "holds sees s cs \<Longrightarrow> \<exists>s'. appendc (Some c) s = Ret s' \<and> holds sees s' (cs @ [c])"
proof -
  assume "holds sees s cs"
  then obtain z where z: "sees s z" "solid z" "contents z = cs" by (auto simp: holds_def)
  obtain s' where "appendc (Some c) s = Ret s'" "sees s' (cl_append (Some c) z)"
    using append_law [OF z(1)] by blast
  moreover have "solid (cl_append (Some c) z)" "contents (cl_append (Some c) z) = cs @ [c]"
    using z by (auto simp: solid_def contents_def)
  ultimately show ?thesis unfolding holds_def by blast
qed

lemma holds_first:
  assumes "holds sees s cs"
  shows "\<exists>s'. firstc s = Ret (case cs of [] \<Rightarrow> None | c # _ \<Rightarrow> Some c, s') \<and> holds sees s' cs"
proof -
  obtain z where z: "sees s z" "solid z" "contents z = cs" using assms(1) by (auto simp: holds_def)
  obtain s1 where s1: "firstc s = Ret (cl_content (cl_first z), s1)" "sees s1 (cl_first z)"
    using first_law [OF z(1)] by blast
  have "cl_content (cl_first z) = (case cs of [] \<Rightarrow> None | c # _ \<Rightarrow> Some c)"
    using z(2,3) by (cases "cl_all z") (auto simp: contents_def solid_def cl_content_def)
  moreover have "solid (cl_first z)" "contents (cl_first z) = cs" using z by (simp_all add: solid_def contents_def)
  with s1(2) have "holds sees s1 cs" by (rule holdsI)
  ultimately show ?thesis using s1(1) by simp
qed

lemma holds_take:
  "holds sees s cs \<Longrightarrow> \<exists>s'. take_first firstc deletec s =
      Ret (case cs of [] \<Rightarrow> None | c # _ \<Rightarrow> Some c, s') \<and> holds sees s' (tl cs)"
proof -
  assume "holds sees s cs"
  then obtain z where z: "sees s z" "solid z" "contents z = cs" by (auto simp: holds_def)
  obtain s' where s': "take_first firstc deletec s = Ret (cl_content (cl_first z), s')"
    "sees s' ([], tl (cl_all z))" using take_first_ok [OF z(1,2)] by blast
  have "cl_content (cl_first z) = (case cs of [] \<Rightarrow> None | c # _ \<Rightarrow> Some c)"
    using z(2,3) by (cases "cl_all z") (auto simp: contents_def solid_def cl_content_def)
  moreover have so: "solid ([], tl (cl_all z))"
    using z(2) unfolding solid_def cl_all_def [of "([], _)"] by (cases "cl_all z") simp_all
  have co: "contents ([], tl (cl_all z)) = tl cs"
    using z(3) by (auto simp: contents_def cl_all_def map_tl)
  from s'(2) so co have "holds sees s' (tl cs)" by (rule holdsI)
  ultimately show ?thesis using s'(1) by simp
qed

lemma holds_visit:
  assumes "holds sees s cs" and "length cs < k" and "fold_all body cs t = Ret t'"
  shows "\<exists>s'. visit_all firstc nextc body k s t = Ret (t', s') \<and> holds sees s' cs"
proof -
  obtain z where z: "sees s z" "solid z" "contents z = cs" using assms(1) by (auto simp: holds_def)
  obtain s1 where s1: "firstc s = Ret (cl_content (cl_first z), s1)" "sees s1 (cl_first z)"
    using first_law [OF z(1)] by blast
  have so: "solid (cl_first z)" using z(2) by (simp add: solid_def)
  have le: "length (snd (cl_first z)) < k" using assms(2) z(3) by (auto simp: contents_def)
  have fo: "fold_all body (map (the \<circ> fst) (snd (cl_first z))) t = Ret t'"
    using assms(3) z(3) by (simp add: contents_def comp_def)
  from visit_loop_ok [OF s1(2) so le fo]
  obtain s' where s': "visit_loop nextc body k (cl_content (cl_first z)) s1 t = Ret (t', s')"
    "sees s' (cl_found (\<lambda>_. False) (cl_first z))" by (elim exE conjE)
  have "solid (cl_found (\<lambda>_. False) (cl_first z))"
    "contents (cl_found (\<lambda>_. False) (cl_first z)) = cs" using z by (auto simp: solid_def contents_def)
  with s'(2) have "holds sees s' cs" by (rule holdsI)
  then show ?thesis using s1(1) s'(1) by (simp add: visit_all_def)
qed

text \<open>Searching, and deleting what the cursor is on after it: the last element on a miss.\<close>

lemma holds_search_delete:
  assumes "holds sees s cs" and "length cs < k"
  shows "\<exists>s1. search firstc nextc P k s = Ret (find P cs, s1) \<and> holds sees s1 cs \<and>
    (find P cs \<noteq> None \<longrightarrow> (\<exists>s2. deletec s1 = Ret s2 \<and>
       holds sees s2 (takeWhile (\<lambda>c. \<not> P c) cs @ tl (dropWhile (\<lambda>c. \<not> P c) cs)))) \<and>
    (find P cs = None \<longrightarrow> cs \<noteq> [] \<longrightarrow> (\<exists>s2. deletec s1 = Ret s2 \<and> holds sees s2 (butlast cs)))"
proof -
  obtain z where z: "sees s z" "solid z" "contents z = cs" using assms(1) by (auto simp: holds_def)
  let ?f = "cl_found P (cl_first z)" and ?no = "\<lambda>e. \<not> P (the (fst e))"
  obtain s1 where s1: "firstc s = Ret (cl_content (cl_first z), s1)" "sees s1 (cl_first z)"
    using first_law [OF z(1)] by blast
  have sol: "solid (cl_first z)" using z(2) by (simp add: solid_def)
  have len: "length (snd (cl_first z)) < k" using assms(2) z(3) by (auto simp: contents_def)
  obtain s2 where s2: "find_loop nextc P k (cl_content (cl_first z)) s1 =
      Ret (if \<exists>e \<in> set (cl_all z). P (the (fst e)) then cl_content ?f else None, s2)" "sees s2 ?f"
    using find_loop_ok [OF s1(2) sol len, of P] by auto
  have cs: "cs = map (the \<circ> fst) (cl_all z)" using z(3) by (simp add: contents_def)
  have tws: "takeWhile (\<lambda>c. \<not> P c) cs = map (the \<circ> fst) (takeWhile ?no (cl_all z))"
    "dropWhile (\<lambda>c. \<not> P c) cs = map (the \<circ> fst) (dropWhile ?no (cl_all z))"
    by (simp_all add: cs takeWhile_map dropWhile_map comp_def)
  have ex: "(\<exists>e \<in> set (cl_all z). P (the (fst e))) \<longleftrightarrow> find P cs \<noteq> None"
    by (auto simp: cs find_None_iff)
  have solf: "solid ?f" "contents ?f = cs" using z by (auto simp: solid_def contents_def)
  have fnd: "?f = (takeWhile ?no (cl_all z), dropWhile ?no (cl_all z))"
      "cl_content ?f = find P cs" if "find P cs \<noteq> None"
  proof -
    have ne: "dropWhile ?no (cl_all z) \<noteq> []" using that ex by (auto simp: dropWhile_eq_Nil_conv)
    then show f: "?f = (takeWhile ?no (cl_all z), dropWhile ?no (cl_all z))"
      using that ex by (simp add: cl_found_def)
    obtain x r where x: "dropWhile ?no (cl_all z) = x # r" using ne by (cases "dropWhile ?no (cl_all z)") auto
    then have "dropWhile (\<lambda>c. \<not> P c) cs = the (fst x) # map (the \<circ> fst) r" by (simp add: tws)
    then have "find P cs = Some (the (fst x))" by (simp add: find_dropWhile comp_def)
    moreover have "x \<in> set (cl_all z)" using x set_dropWhileD [of x ?no] by simp
    then have "fst x \<noteq> None" using z(2) by (simp add: solid_def)
    ultimately show "cl_content ?f = find P cs" using x by (simp add: f cl_content_def)
  qed
  have del: "\<exists>s3. deletec s2 = Ret s3 \<and> holds sees s3 (map (the \<circ> fst) (fst ?f @ tl (snd ?f)))"
    if "snd ?f \<noteq> []"
  proof -
    have all: "cl_all (cl_delete ?f) = fst ?f @ tl (snd ?f)" using \<open>snd ?f \<noteq> []\<close>
      by (cases "snd ?f"; cases "tl (snd ?f)"; cases "fst ?f" rule: rev_cases)
        (auto simp: cl_delete_def cl_all_def)
    have "set (tl (snd ?f)) \<subseteq> set (snd ?f)" by (cases "snd ?f") auto
    then have "solid (cl_delete ?f)" using solf(1) unfolding solid_def all by (auto simp: cl_all_def)
    with delete_law [OF s2(2) \<open>snd ?f \<noteq> []\<close>] all show ?thesis unfolding holds_def contents_def by metis
  qed
  have "search firstc nextc P k s = Ret (find P cs, s2)"
    using s1(1) s2(1) fnd(2) unfolding ex by (auto simp: search_def)
  moreover have "holds sees s2 cs" using s2(2) solf unfolding holds_def by blast
  moreover have "find P cs \<noteq> None \<longrightarrow> (\<exists>s3. deletec s2 = Ret s3 \<and>
       holds sees s3 (takeWhile (\<lambda>c. \<not> P c) cs @ tl (dropWhile (\<lambda>c. \<not> P c) cs)))"
  proof
    assume a: "find P cs \<noteq> None"
    then have "snd ?f \<noteq> []" using fnd(1) ex by (auto simp: dropWhile_eq_Nil_conv)
    from del [OF this] show "\<exists>s3. deletec s2 = Ret s3 \<and>
       holds sees s3 (takeWhile (\<lambda>c. \<not> P c) cs @ tl (dropWhile (\<lambda>c. \<not> P c) cs))"
      unfolding fnd(1) [OF a] tws by (simp add: map_tl)
  qed
  moreover have "find P cs = None \<longrightarrow> cs \<noteq> [] \<longrightarrow> (\<exists>s3. deletec s2 = Ret s3 \<and> holds sees s3 (butlast cs))"
  proof (intro impI)
    assume a: "find P cs = None" "cs \<noteq> []"
    have f: "?f = (butlast (cl_all z), drop (length (cl_all z) - 1) (cl_all z))"
      using a(1) ex by (simp add: cl_found_def)
    have ne: "cl_all z \<noteq> []" using a(2) cs by auto
    then obtain xs x where "cl_all z = xs @ [x]" by (cases "cl_all z" rule: rev_cases) auto
    then have "snd ?f \<noteq> []" "tl (snd ?f) = []" unfolding f by simp_all
    have "map (the \<circ> fst) (fst ?f @ tl (snd ?f)) = butlast cs"
      unfolding \<open>tl (snd ?f) = []\<close> by (simp add: f cs map_butlast)
    with del [OF \<open>snd ?f \<noteq> []\<close>] show "\<exists>s3. deletec s2 = Ret s3 \<and> holds sees s3 (butlast cs)"
      by (simp only:)
  qed
  ultimately show ?thesis by (intro exI [of _ s2] conjI)
qed

end

end
