(* ===== verification/Xine_List.thy ===== *)
theory Xine_List
  imports Chain Cursor_Iface
begin

text \<open>
  The doubly linked list with a built-in cursor of src/src/xine-utils/list.c. Each list has
  its store of nodes; \<open>malloc\<close> hands out the addresses from \<open>xl_fresh\<close> on.
  The refinement lemmas relate every operation to a list split at the cursor: the elements
  before it, and those from it on (\<open>clist\<close>).
\<close>

section \<open>Data\<close>

record 'c lnode =
  ln_next :: "nat ptr"
  ln_prev :: "nat ptr"
  ln_content :: "'c option"
  ln_priority :: int

record 'c xlist =
  xl_node :: "nat \<rightharpoonup> 'c lnode"
  xl_fresh :: nat
  xl_first :: "nat ptr"
  xl_last :: "nat ptr"
  xl_cur :: "nat ptr"

section \<open>Reading and writing nodes\<close>

definition node_at :: "nat ptr \<Rightarrow> 'c xlist \<Rightarrow> 'c lnode outcome" where
  "node_at p l = obind (of_opt p) (\<lambda>a. of_opt (xl_node l a))"

definition set_node :: "nat ptr \<Rightarrow> ('c lnode \<Rightarrow> 'c lnode) \<Rightarrow> 'c xlist \<Rightarrow> 'c xlist outcome" where
  "set_node p g l =
     obind (of_opt p) (\<lambda>a. obind (of_opt (xl_node l a)) (\<lambda>n.
     Ret (l\<lparr>xl_node := (xl_node l)(a \<mapsto> g n)\<rparr>)))"

text \<open>\<open>xine_xmalloc\<close> zeroes the node.\<close>

definition malloc_node :: "'c option \<Rightarrow> int \<Rightarrow> 'c xlist \<Rightarrow> nat \<times> 'c xlist" where
  "malloc_node c prio l =
     (xl_fresh l,
      l\<lparr>xl_node := (xl_node l)(xl_fresh l \<mapsto>
           \<lparr>ln_next = None, ln_prev = None, ln_content = c, ln_priority = prio\<rparr>),
        xl_fresh := xl_fresh l + 1\<rparr>)"

definition free_node :: "nat ptr \<Rightarrow> 'c xlist \<Rightarrow> 'c xlist outcome" where
  "free_node p l =
     obind (of_opt p) (\<lambda>a. obind (of_opt (xl_node l a)) (\<lambda>_.
     Ret (l\<lparr>xl_node := (xl_node l)(a := None)\<rparr>)))"

section \<open>The operations\<close>

definition xine_list_new :: "'c xlist" where
  "xine_list_new =
     \<lparr>xl_node = Map.empty, xl_fresh = 1, xl_first = None, xl_last = None, xl_cur = None\<rparr>"

fun free_nodes :: "nat \<Rightarrow> nat ptr \<Rightarrow> 'c xlist \<Rightarrow> 'c xlist outcome" where
  "free_nodes 0 node l = Spin"
| "free_nodes (Suc k) node l =
     (if node = None then Ret l
      else obind (node_at node l) (\<lambda>n.
           obind (free_node node l) (\<lambda>l1. free_nodes k (ln_next n) l1)))"

definition xine_list_free :: "nat \<Rightarrow> 'c xlist \<Rightarrow> 'c xlist outcome" where
  "xine_list_free k l =
     (if xl_first l = None then Ret l
      else obind (free_nodes k (xl_first l) l) (\<lambda>l1.
           Ret (l1\<lparr>xl_first := None, xl_cur := None, xl_last := None\<rparr>)))"

definition xine_list_first_content :: "'c xlist \<Rightarrow> ('c option \<times> 'c xlist) outcome" where
  "xine_list_first_content l =
     (let l1 = l\<lparr>xl_cur := xl_first l\<rparr> in
      if xl_first l1 \<noteq> None then obind (node_at (xl_first l1) l1) (\<lambda>n. Ret (ln_content n, l1))
      else Ret (None, l1))"

definition xine_list_next_content :: "'c xlist \<Rightarrow> ('c option \<times> 'c xlist) outcome" where
  "xine_list_next_content l =
     (if xl_cur l \<noteq> None then
        obind (node_at (xl_cur l) l) (\<lambda>c.
        if ln_next c \<noteq> None then
          obind (node_at (ln_next c) l) (\<lambda>n. Ret (ln_content n, l\<lparr>xl_cur := ln_next c\<rparr>))
        else Ret (None, l))
      else Ret (None, l))"

definition xine_list_is_empty :: "'c xlist option \<Rightarrow> int" where
  "xine_list_is_empty lp =
     (case lp of None \<Rightarrow> -1 | Some l \<Rightarrow> if xl_first l \<noteq> None then 1 else 0)"

definition xine_list_last_content :: "'c xlist \<Rightarrow> ('c option \<times> 'c xlist) outcome" where
  "xine_list_last_content l =
     (if xl_last l \<noteq> None then
        obind (node_at (xl_last l) l) (\<lambda>n. Ret (ln_content n, l\<lparr>xl_cur := xl_last l\<rparr>))
      else Ret (None, l))"

definition xine_list_prev_content :: "'c xlist \<Rightarrow> ('c option \<times> 'c xlist) outcome" where
  "xine_list_prev_content l =
     (if xl_cur l \<noteq> None then
        obind (node_at (xl_cur l) l) (\<lambda>c.
        if ln_prev c \<noteq> None then
          obind (node_at (ln_prev c) l) (\<lambda>n. Ret (ln_content n, l\<lparr>xl_cur := ln_prev c\<rparr>))
        else Ret (None, l))
      else Ret (None, l))"

text \<open>The \<open>while(1)\<close> loop of the sorted insertion; \<open>node\<close> is the new node.\<close>

fun priority_loop :: "nat \<Rightarrow> nat \<Rightarrow> int \<Rightarrow> nat ptr \<Rightarrow> 'c xlist \<Rightarrow> 'c xlist outcome" where
  "priority_loop 0 node priority cur l = Spin"
| "priority_loop (Suc k) node priority cur l =
     obind (node_at cur l) (\<lambda>c.
     if priority \<ge> ln_priority c then
       obind (set_node (Some node) (\<lambda>n. n\<lparr>ln_next := cur, ln_prev := ln_prev c\<rparr>) l) (\<lambda>l1.
       obind (if ln_prev c \<noteq> None then set_node (ln_prev c) (\<lambda>n. n\<lparr>ln_next := Some node\<rparr>) l1
              else Ret (l1\<lparr>xl_first := Some node\<rparr>)) (\<lambda>l2.
       obind (set_node cur (\<lambda>n. n\<lparr>ln_prev := Some node\<rparr>) l2) (\<lambda>l3.
       Ret (l3\<lparr>xl_cur := Some node\<rparr>))))
     else if ln_next c = None then
       obind (set_node (Some node) (\<lambda>n. n\<lparr>ln_next := None, ln_prev := cur\<rparr>) l) (\<lambda>l1.
       obind (set_node cur (\<lambda>n. n\<lparr>ln_next := Some node\<rparr>) l1) (\<lambda>l2.
       Ret (l2\<lparr>xl_cur := Some node, xl_last := Some node\<rparr>)))
     else priority_loop k node priority (ln_next c) l)"

definition xine_list_append_priority_content ::
  "nat \<Rightarrow> 'c option \<Rightarrow> int \<Rightarrow> 'c xlist \<Rightarrow> 'c xlist outcome" where
  "xine_list_append_priority_content k content priority l =
     (let (node, l1) = malloc_node content priority l in
      if xl_first l1 \<noteq> None then priority_loop k node priority (xl_first l1) l1
      else set_node (Some node) (\<lambda>n. n\<lparr>ln_prev := None, ln_next := None\<rparr>)
             (l1\<lparr>xl_first := Some node, xl_last := Some node, xl_cur := Some node\<rparr>))"

definition xine_list_append_content :: "'c option \<Rightarrow> 'c xlist \<Rightarrow> 'c xlist outcome" where
  "xine_list_append_content content l =
     (let (node, l1) = malloc_node content 0 l in
      if xl_last l1 \<noteq> None then
        obind (set_node (Some node) (\<lambda>n. n\<lparr>ln_next := None, ln_prev := xl_last l1\<rparr>) l1) (\<lambda>l2.
        obind (set_node (xl_last l2) (\<lambda>n. n\<lparr>ln_next := Some node\<rparr>) l2) (\<lambda>l3.
        Ret (l3\<lparr>xl_last := Some node, xl_cur := Some node\<rparr>)))
      else set_node (Some node) (\<lambda>n. n\<lparr>ln_prev := None, ln_next := None\<rparr>)
             (l1\<lparr>xl_first := Some node, xl_last := Some node, xl_cur := Some node\<rparr>))"

definition xine_list_insert_content :: "'c option \<Rightarrow> 'c xlist \<Rightarrow> 'c xlist outcome" where
  "xine_list_insert_content content l =
     obind (node_at (xl_cur l) l) (\<lambda>c.
     if ln_next c \<noteq> None then
       (let (node, l1) = malloc_node content 0 l; nodecur = xl_cur l; nodenext = ln_next c in
        obind (set_node nodecur (\<lambda>n. n\<lparr>ln_next := Some node\<rparr>) l1) (\<lambda>l2.
        obind (set_node nodenext (\<lambda>n. n\<lparr>ln_prev := Some node\<rparr>) l2) (\<lambda>l3.
        obind (set_node (Some node) (\<lambda>n. n\<lparr>ln_prev := nodecur, ln_next := nodenext\<rparr>) l3) (\<lambda>l4.
        Ret (l4\<lparr>xl_cur := Some node\<rparr>)))))
     else xine_list_append_content content l)"

definition xine_list_delete_current :: "'c xlist \<Rightarrow> 'c xlist outcome" where
  "xine_list_delete_current l =
     obind (node_at (xl_cur l) l) (\<lambda>c.
     obind (if ln_prev c \<noteq> None then set_node (ln_prev c) (\<lambda>n. n\<lparr>ln_next := ln_next c\<rparr>) l
            else Ret (l\<lparr>xl_first := ln_next c\<rparr>)) (\<lambda>l1.
     obind (if ln_next c \<noteq> None then
              obind (set_node (ln_next c) (\<lambda>n. n\<lparr>ln_prev := ln_prev c\<rparr>) l1) (\<lambda>l2.
              Ret (l2\<lparr>xl_cur := ln_next c\<rparr>))
            else Ret (l1\<lparr>xl_last := ln_prev c, xl_cur := ln_prev c\<rparr>)) (\<lambda>l3.
     free_node (xl_cur l) l3)))"

section \<open>The chain of nodes\<close>

text \<open>
  \<open>dseg m p pr xs q l\<close>: from \<open>p\<close> the \<open>next\<close> pointers visit \<open>xs\<close> and
  arrive at \<open>q\<close>; each \<open>prev\<close> names the node before, the first one's is
  \<open>pr\<close>, and \<open>l\<close> is the last node visited (\<open>pr\<close> for none).
\<close>

fun dseg :: "(nat \<rightharpoonup> 'c lnode) \<Rightarrow> nat ptr \<Rightarrow> nat ptr \<Rightarrow> nat list \<Rightarrow> nat ptr \<Rightarrow> nat ptr \<Rightarrow> bool" where
  "dseg m p pr [] q l \<longleftrightarrow> p = q \<and> pr = l"
| "dseg m p pr (x # xs) q l \<longleftrightarrow>
     p = Some x \<and> (\<exists>n. m x = Some n \<and> ln_prev n = pr \<and> dseg m (ln_next n) (Some x) xs q l)"

lemma dseg_append:
  "dseg m p pr (xs @ ys) q l \<longleftrightarrow> (\<exists>r t. dseg m p pr xs r t \<and> dseg m r t ys q l)"
  by (induction xs arbitrary: p pr) auto

lemma dseg_frame [simp]:
  "x \<notin> set xs \<Longrightarrow> dseg (m(x := v)) p pr xs q l = dseg m p pr xs q l"
  by (induction xs arbitrary: p pr) auto

lemma dseg_lseg: "dseg m p pr xs q l \<Longrightarrow> lseg (\<lambda>a. map_option ln_next (m a)) p xs q"
  by (induction xs arbitrary: p pr) auto

lemma dseg_distinct: "dseg m p pr xs None l \<Longrightarrow> distinct xs"
  by (blast intro: lseg_distinct dseg_lseg)

lemma dseg_ends:
  "dseg m p pr xs q l \<Longrightarrow> p = (case xs of [] \<Rightarrow> q | x # _ \<Rightarrow> Some x) \<and>
    l = (if xs = [] then pr else Some (last xs))"
  by (induction xs arbitrary: p pr) (auto split: if_splits)

definition elem_at :: "(nat \<rightharpoonup> 'c lnode) \<Rightarrow> nat \<Rightarrow> 'c elem" where
  "elem_at m a = (case m a of None \<Rightarrow> (None, 0) | Some n \<Rightarrow> (ln_content n, ln_priority n))"

definition xl_rep :: "'c xlist \<Rightarrow> nat list \<Rightarrow> nat list \<Rightarrow> bool" where
  "xl_rep l bs as \<longleftrightarrow>
     dseg (xl_node l) (xl_first l) None (bs @ as) None (xl_last l) \<and>
     xl_cur l = (case as of [] \<Rightarrow> None | a # _ \<Rightarrow> Some a) \<and> (as = [] \<longrightarrow> bs = []) \<and>
     dom (xl_node l) = set (bs @ as) \<and> (\<forall>a \<in> set (bs @ as). a < xl_fresh l)"

text \<open>The list read off the nodes: every node's address is below \<open>xl_fresh\<close>.\<close>

definition xl_ids :: "'c xlist \<Rightarrow> nat list" where
  "xl_ids l = walk (\<lambda>a. map_option ln_next (xl_node l a)) (xl_fresh l) (xl_first l)"

definition xl_abs :: "'c xlist \<Rightarrow> 'c clist" where
  "xl_abs l =
     (map (elem_at (xl_node l)) (takeWhile (\<lambda>a. xl_cur l \<noteq> Some a) (xl_ids l)),
      map (elem_at (xl_node l)) (dropWhile (\<lambda>a. xl_cur l \<noteq> Some a) (xl_ids l)))"

definition xl_wf :: "'c xlist \<Rightarrow> bool" where
  "xl_wf l \<longleftrightarrow> (\<exists>bs as. xl_rep l bs as)"


section \<open>Every operation refines its list function\<close>

lemmas xl_ops = xine_list_first_content_def xine_list_next_content_def xine_list_last_content_def
  xine_list_prev_content_def node_at_def set_node_def malloc_node_def free_node_def Let_def

lemma xl_rep_distinct: "xl_rep l bs as \<Longrightarrow> distinct (bs @ as)"
  unfolding xl_rep_def by (blast dest: dseg_distinct)

lemma xl_rep_cur:
  "xl_rep l bs (x # as) \<longleftrightarrow>
     (\<exists>n. dseg (xl_node l) (xl_first l) None bs (Some x) (ln_prev n) \<and> xl_node l x = Some n \<and>
       dseg (xl_node l) (ln_next n) (Some x) as None (xl_last l)) \<and>
     xl_cur l = Some x \<and> dom (xl_node l) = set (bs @ x # as) \<and>
     (\<forall>a \<in> set (bs @ x # as). a < xl_fresh l)"
  by (auto simp: xl_rep_def dseg_append dest: dseg_ends)

lemma elems_frame [simp]:
  "x \<notin> set xs \<Longrightarrow> map (elem_at (m(x := v))) xs = map (elem_at m) xs"
  by (simp add: elem_at_def)

lemma elem_at_upd [simp]: "elem_at (m(x \<mapsto> n)) x = (ln_content n, ln_priority n)"
  by (simp add: elem_at_def)

definition abs_of :: "'c xlist \<Rightarrow> nat list \<Rightarrow> nat list \<Rightarrow> 'c clist" where
  "abs_of l bs as = (map (elem_at (xl_node l)) bs, map (elem_at (xl_node l)) as)"

lemma xl_ids_rep: "xl_rep l bs as \<Longrightarrow> xl_ids l = bs @ as"
proof -
  assume r: "xl_rep l bs as"
  then have "lseg (\<lambda>a. map_option ln_next (xl_node l a)) (xl_first l) (bs @ as) None"
    unfolding xl_rep_def by (blast dest: dseg_lseg)
  moreover have "length (bs @ as) \<le> xl_fresh l"
  proof -
    have "set (bs @ as) \<subseteq> {..<xl_fresh l}" using r by (auto simp: xl_rep_def)
    then have "card (set (bs @ as)) \<le> card {..<xl_fresh l}" by (rule card_mono [OF finite_lessThan])
    then show ?thesis using distinct_card [OF xl_rep_distinct [OF r]] by simp
  qed
  ultimately show ?thesis unfolding xl_ids_def by (rule walk_lseg)
qed

lemma xl_abs_rep: "xl_rep l bs as \<Longrightarrow> xl_abs l = abs_of l bs as"
proof -
  assume r: "xl_rep l bs as"
  have d: "distinct (bs @ as)" by (rule xl_rep_distinct [OF r])
  have "takeWhile (\<lambda>a. xl_cur l \<noteq> Some a) (bs @ as) = bs \<and>
        dropWhile (\<lambda>a. xl_cur l \<noteq> Some a) (bs @ as) = as"
  proof (cases as)
    case Nil
    then show ?thesis using r by (auto simp: xl_rep_def)
  next
    case (Cons a as')
    then have "xl_cur l = Some a" "a \<notin> set bs" using r d by (auto simp: xl_rep_def)
    then have "\<forall>b \<in> set bs. xl_cur l \<noteq> Some b" by auto
    then show ?thesis unfolding Cons using \<open>xl_cur l = Some a\<close>
      by (simp add: takeWhile_append2 dropWhile_append2)
  qed
  then show ?thesis by (simp add: xl_abs_def abs_of_def xl_ids_rep [OF r])
qed

lemma xl_wfE:
  assumes "xl_wf l"
  obtains bs as where "xl_rep l bs as" "xl_abs l = abs_of l bs as"
  using assms xl_abs_rep unfolding xl_wf_def by blast

text \<open>What a lemma about an operation has to show of its result.\<close>

definition xl_is :: "'c xlist \<Rightarrow> 'c clist \<Rightarrow> bool" where
  "xl_is l z \<longleftrightarrow> xl_wf l \<and> xl_abs l = z"

lemma xl_isI: "xl_rep l bs as \<Longrightarrow> abs_of l bs as = z \<Longrightarrow> xl_is l z"
  using xl_abs_rep unfolding xl_is_def xl_wf_def by blast

lemma xl_isE:
  assumes "xl_is l z"
  obtains bs as where "xl_rep l bs as" "z = abs_of l bs as"
  using assms xl_wfE unfolding xl_is_def by metis

lemma elem_at_Some: "m x = Some n \<Longrightarrow> elem_at m x = (ln_content n, ln_priority n)"
  by (simp add: elem_at_def)

lemma list_new_ok: "xl_is xine_list_new ([], [])"
  by (rule xl_isI [of _ "[]" "[]"]) (simp_all add: xl_rep_def xine_list_new_def abs_of_def)

lemma list_first_ok:
  assumes "xl_is l z"
  shows "\<exists>l'. xine_list_first_content l = Ret (cl_content (cl_first z), l') \<and> xl_is l' (cl_first z)"
proof -
  obtain bs as where r: "xl_rep l bs as" and z: "z = abs_of l bs as" using assms by (rule xl_isE)
  have z': "abs_of l [] (bs @ as) = cl_first z" by (simp add: z abs_of_def cl_first_def cl_all_def)
  have r': "xl_rep (l\<lparr>xl_cur := xl_first l\<rparr>) [] (bs @ as)"
    using r dseg_ends by (fastforce simp: xl_rep_def)
  have "abs_of (l\<lparr>xl_cur := xl_first l\<rparr>) [] (bs @ as) = cl_first z"
    using z' by (simp add: abs_of_def)
  with r' have "xl_is (l\<lparr>xl_cur := xl_first l\<rparr>) (cl_first z)" by (rule xl_isI)
  moreover have "xine_list_first_content l = Ret (cl_content (cl_first z), l\<lparr>xl_cur := xl_first l\<rparr>)"
  proof (cases "bs @ as")
    case Nil
    then show ?thesis using r by (simp add: xl_rep_def xl_ops z cl_first_def cl_all_def abs_of_def cl_content_def)
  next
    case (Cons x xs)
    then obtain n where "xl_first l = Some x" "xl_node l x = Some n" using r by (auto simp: xl_rep_def)
    then show ?thesis unfolding z' [symmetric] using Cons
      by (simp add: xl_ops abs_of_def cl_content_def elem_at_Some)
  qed
  ultimately show ?thesis by blast
qed

lemma list_next_ok:
  assumes "xl_is l z"
  shows "\<exists>l'. xine_list_next_content l = Ret (fst (cl_next z), l') \<and> xl_is l' (snd (cl_next z))"
proof -
  obtain bs as where r: "xl_rep l bs as" and z: "z = abs_of l bs as" using assms by (rule xl_isE)
  show ?thesis
  proof (cases as)
    case Nil
    then show ?thesis using r assms by (simp add: xl_rep_def xl_ops z cl_next_def abs_of_def)
  next
    case (Cons x xs)
    show ?thesis
    proof (cases xs)
      case Nil
      then show ?thesis using r Cons assms unfolding Cons xl_rep_cur z
        by (auto simp: xl_ops cl_next_def abs_of_def)
    next
      case (Cons y ys)
      note as = \<open>as = x # xs\<close> Cons
      from r obtain n n' where n: "xl_node l x = Some n" "ln_next n = Some y" "xl_node l y = Some n'"
        "xl_cur l = Some x" unfolding as xl_rep_cur by auto
      let ?l = "l\<lparr>xl_cur := Some y\<rparr>"
      have "xl_rep ?l (bs @ [x]) (y # ys)" using r unfolding as xl_rep_def by auto
      moreover have "abs_of ?l (bs @ [x]) (y # ys) = snd (cl_next z)"
        by (simp add: z as abs_of_def cl_next_def)
      moreover have "xine_list_next_content l = Ret (fst (cl_next z), ?l)"
        using n by (simp add: xl_ops z as abs_of_def cl_next_def elem_at_Some)
      ultimately show ?thesis using xl_isI by blast
    qed
  qed
qed

lemma list_last_ok:
  assumes "xl_is l z"
  shows "\<exists>l'. xine_list_last_content l = Ret (cl_content (cl_last z), l') \<and> xl_is l' (cl_last z)"
proof -
  obtain bs as where r: "xl_rep l bs as" and z: "z = abs_of l bs as" using assms by (rule xl_isE)
  show ?thesis
  proof (cases "bs @ as" rule: rev_cases)
    case Nil
    then show ?thesis using r assms
      by (auto simp: xl_rep_def xl_ops z cl_last_def cl_all_def abs_of_def cl_content_def)
  next
    case (snoc xs x)
    then obtain n where n: "xl_last l = Some x" "xl_node l x = Some n"
      using r by (auto simp: xl_rep_def dseg_append)
    let ?l = "l\<lparr>xl_cur := Some x\<rparr>"
    have "xl_rep ?l xs [x]" using r snoc by (simp add: xl_rep_def)
    moreover have all: "cl_all z = map (elem_at (xl_node l)) xs @ [elem_at (xl_node l) x]"
    proof -
      have "cl_all z = map (elem_at (xl_node l)) (bs @ as)" by (simp add: z cl_all_def abs_of_def)
      then show ?thesis unfolding snoc by simp
    qed
    then have "abs_of ?l xs [x] = cl_last z" by (simp add: abs_of_def cl_last_def)
    moreover have "xine_list_last_content l = Ret (cl_content (cl_last z), ?l)"
      using n by (simp add: xl_ops cl_last_def all cl_content_def elem_at_Some)
    ultimately show ?thesis using xl_isI by blast
  qed
qed

lemma list_prev_ok:
  assumes "xl_is l z"
  shows "\<exists>l'. xine_list_prev_content l = Ret (fst (cl_prev z), l') \<and> xl_is l' (snd (cl_prev z))"
proof -
  obtain bs as where r: "xl_rep l bs as" and z: "z = abs_of l bs as" using assms by (rule xl_isE)
  show ?thesis
  proof (cases bs rule: rev_cases)
    case Nil
    then show ?thesis using r assms
      by (cases as) (auto simp: xl_rep_def xl_ops z cl_prev_def abs_of_def)
  next
    case (snoc ys y)
    then obtain x xs where as: "as = x # xs" using r by (cases as) (auto simp: xl_rep_def)
    from r obtain n n' where n: "xl_node l x = Some n" "ln_prev n = Some y" "xl_node l y = Some n'"
      "xl_cur l = Some x" unfolding as snoc xl_rep_cur by (auto simp: dseg_append)
    let ?l = "l\<lparr>xl_cur := Some y\<rparr>"
    have "xl_rep ?l ys (y # as)" using r unfolding snoc xl_rep_def by auto
    moreover have "abs_of ?l ys (y # as) = snd (cl_prev z)"
      by (simp add: z snoc abs_of_def cl_prev_def)
    moreover have "xine_list_prev_content l = Ret (fst (cl_prev z), ?l)"
      using n by (simp add: xl_ops z snoc abs_of_def cl_prev_def elem_at_Some)
    ultimately show ?thesis using xl_isI by blast
  qed
qed

lemma elem_at_links [simp]:
  "m x = Some n \<Longrightarrow> elem_at (m(x \<mapsto> n\<lparr>ln_next := p\<rparr>)) = elem_at m"
  "m x = Some n \<Longrightarrow> elem_at (m(x \<mapsto> n\<lparr>ln_prev := p\<rparr>)) = elem_at m"
  by (auto simp: elem_at_def fun_eq_iff)

lemma fresh_notin: "xl_rep l bs as \<Longrightarrow> xl_fresh l \<notin> set bs \<and> xl_fresh l \<notin> set as \<and> xl_node l (xl_fresh l) = None"
proof -
  assume r: "xl_rep l bs as"
  then have "xl_fresh l \<notin> set (bs @ as)" by (auto simp: xl_rep_def)
  moreover have "dom (xl_node l) = set (bs @ as)" using r by (simp add: xl_rep_def)
  ultimately show ?thesis by auto
qed

lemma dseg_relink_last:
  assumes "dseg m p pr (xs @ [x]) None l" and "m x = Some n"
  shows "dseg (m(x \<mapsto> n\<lparr>ln_next := q\<rparr>)) p pr (xs @ [x]) q l"
proof -
  have "x \<notin> set xs" using dseg_distinct [OF assms(1)] by simp
  with assms show ?thesis by (auto simp: dseg_append)
qed

lemma list_append_ok:
  assumes "xl_is l z"
  shows "\<exists>l'. xine_list_append_content c l = Ret l' \<and> xl_is l' (cl_append c z)"
proof -
  obtain bs as where r: "xl_rep l bs as" and z: "z = abs_of l bs as" using assms by (rule xl_isE)
  let ?a = "xl_fresh l"
  note fr = fresh_notin [OF r]
  show ?thesis
  proof (cases "bs @ as" rule: rev_cases)
    case Nil
    let ?l = "l\<lparr>xl_node := [?a \<mapsto> \<lparr>ln_next = None, ln_prev = None, ln_content = c, ln_priority = 0\<rparr>],
      xl_fresh := ?a + 1, xl_first := Some ?a, xl_last := Some ?a, xl_cur := Some ?a\<rparr>"
    have "xl_node l = Map.empty" using r Nil by (simp add: xl_rep_def)
    then have "xine_list_append_content c l = Ret ?l"
      using r Nil by (simp add: xine_list_append_content_def xl_ops xl_rep_def)
    moreover have "xl_rep ?l [] [?a]" by (simp add: xl_rep_def)
    moreover have "abs_of ?l [] [?a] = cl_append c z"
      using Nil by (simp add: z abs_of_def cl_append_def cl_all_def)
    ultimately show ?thesis using xl_isI by blast
  next
    case (snoc xs x)
    have all: "cl_append c z = (map (elem_at (xl_node l)) (xs @ [x]), [(c, 0)])"
      by (simp only: snoc [symmetric] map_append cl_append_def cl_all_def z abs_of_def fst_conv snd_conv)
    from r obtain n where n: "xl_node l x = Some n" and lst: "xl_last l = Some x"
      unfolding xl_rep_def snoc by (auto simp: dseg_append)
    have x: "x \<noteq> ?a" "?a \<notin> set xs" using fr snoc
      by (metis Un_iff append_is_Nil_conv in_set_conv_decomp set_append)+
    let ?n = "\<lparr>ln_next = None, ln_prev = Some x, ln_content = c, ln_priority = 0\<rparr>"
    let ?m = "(xl_node l)(?a \<mapsto> ?n, x \<mapsto> n\<lparr>ln_next := Some ?a\<rparr>)"
    let ?l = "l\<lparr>xl_node := ?m, xl_fresh := ?a + 1, xl_last := Some ?a, xl_cur := Some ?a\<rparr>"
    have run: "xine_list_append_content c l = Ret ?l"
      using n x lst by (simp add: xine_list_append_content_def xl_ops)
    have "dseg (xl_node l) (xl_first l) None (xs @ [x]) None (xl_last l)"
      using r unfolding xl_rep_def snoc by simp
    from dseg_relink_last [OF this n, of "Some ?a"]
    have "dseg ((xl_node l)(x \<mapsto> n\<lparr>ln_next := Some ?a\<rparr>)) (xl_first l) None (xs @ [x]) (Some ?a) (Some x)"
      using lst by simp
    then have "dseg ?m (xl_first l) None ((xs @ [x]) @ [?a]) None (Some ?a)"
      using x by (subst fun_upd_twist, simp, simp only: dseg_append [of _ _ _ "xs @ [x]" "[?a]"]) auto
    moreover have "dom (xl_node l) = set (xs @ [x])" "\<forall>b \<in> set (xs @ [x]). b < ?a"
      using r unfolding xl_rep_def snoc by simp_all
    ultimately have "xl_rep ?l (xs @ [x]) [?a]" by (auto simp: xl_rep_def)
    moreover have "abs_of ?l (xs @ [x]) [?a] = cl_append c z"
      unfolding all using n x by (simp add: abs_of_def elem_at_def)
    ultimately show ?thesis using run xl_isI by blast
  qed
qed


lemma dseg_relink:
  "dseg m p pr (xs @ [x]) q' l \<Longrightarrow> x \<notin> set xs \<Longrightarrow> m x = Some n \<Longrightarrow>
    dseg (m(x \<mapsto> n\<lparr>ln_next := q\<rparr>)) p pr (xs @ [x]) q l"
  by (auto simp: dseg_append)

lemma dseg_relink_prev:
  "dseg m p pr (y # ys) q l \<Longrightarrow> y \<notin> set ys \<Longrightarrow> m y = Some n \<Longrightarrow>
    dseg (m(y \<mapsto> n\<lparr>ln_prev := pr'\<rparr>)) p pr' (y # ys) q l"
  by auto

lemma list_delete_ok:
  assumes "xl_is l z" and "snd z \<noteq> []"
  shows "\<exists>l'. xine_list_delete_current l = Ret l' \<and> xl_is l' (cl_delete z)"
proof -
  obtain bs as' where r': "xl_rep l bs as'" and z': "z = abs_of l bs as'" using assms(1) by (rule xl_isE)
  then obtain x as where as': "as' = x # as" using assms(2) by (cases as') (auto simp: abs_of_def)
  have r: "xl_rep l bs (x # as)" and z: "z = abs_of l bs (x # as)" using r' z' as' by auto
  let ?m = "xl_node l"
  from r obtain n where n: "?m x = Some n" "xl_cur l = Some x"
    and b: "dseg ?m (xl_first l) None bs (Some x) (ln_prev n)"
    and a: "dseg ?m (ln_next n) (Some x) as None (xl_last l)"
    and dom: "dom ?m = set (bs @ x # as)" and fr: "\<forall>a \<in> set (bs @ x # as). a < xl_fresh l"
    unfolding xl_rep_cur by blast
  have d: "distinct (bs @ x # as)" by (rule xl_rep_distinct [OF r])
  show ?thesis
  proof (cases bs rule: rev_cases)
    case Nil
    then have p: "ln_prev n = None" using b by simp
    show ?thesis
    proof (cases as)
      case (Cons y ys)
      then obtain n' where n': "?m y = Some n'" "ln_next n = Some y" using a by auto
      let ?l = "l\<lparr>xl_node := (?m(y \<mapsto> n'\<lparr>ln_prev := None\<rparr>))(x := None), xl_first := Some y, xl_cur := Some y\<rparr>"
      have ne: "x \<noteq> y" "y \<notin> set ys" "x \<notin> set ys" using d Cons by auto
      have "xine_list_delete_current l = Ret ?l"
        using n n' p ne by (simp add: xine_list_delete_current_def xl_ops)
      moreover have "xl_rep ?l [] (y # ys)"
        using a n' ne dom fr Cons Nil d by (auto simp: xl_rep_def)
      moreover have "abs_of ?l [] (y # ys) = cl_delete z"
        using ne n' Nil Cons by (simp add: z abs_of_def cl_delete_def elem_at_Some)
      ultimately show ?thesis using xl_isI by blast
    next
      case as: Nil
      then have nn: "ln_next n = None" using a by simp
      let ?l = "l\<lparr>xl_node := ?m(x := None), xl_first := None, xl_last := None, xl_cur := None\<rparr>"
      have "xine_list_delete_current l = Ret ?l"
        using n nn p by (simp add: xine_list_delete_current_def xl_ops)
      moreover have "xl_rep ?l [] []" using dom as Nil by (simp add: xl_rep_def)
      moreover have "abs_of ?l [] [] = cl_delete z" using as Nil by (simp add: z abs_of_def cl_delete_def)
      ultimately show ?thesis using xl_isI by blast
    qed
  next
    case (snoc ws w)
    from b snoc obtain nw where w: "?m w = Some nw" "ln_prev n = Some w" by (auto simp: dseg_append)
    have ne: "x \<noteq> w" "x \<notin> set ws" "w \<notin> set ws" using d snoc by auto
    let ?m1 = "?m(w \<mapsto> nw\<lparr>ln_next := ln_next n\<rparr>)"
    have b1: "dseg ?m1 (xl_first l) None (ws @ [w]) (ln_next n) (Some w)"
      using dseg_relink [OF b [unfolded snoc] ne(3) w(1)] w(2) by simp
    show ?thesis
    proof (cases as)
      case (Cons y ys)
      then obtain n' where n': "?m y = Some n'" "ln_next n = Some y" using a by auto
      have ne': "x \<noteq> y" "y \<notin> set ys" "x \<notin> set ys" "y \<noteq> w" "y \<notin> set ws" "w \<notin> set ys"
        using d Cons snoc by auto
      let ?m2 = "?m1(y \<mapsto> n'\<lparr>ln_prev := Some w\<rparr>)"
      let ?l = "l\<lparr>xl_node := ?m2(x := None), xl_cur := Some y\<rparr>"
      have "xine_list_delete_current l = Ret ?l"
        using n n' w ne ne' by (simp add: xine_list_delete_current_def xl_ops)
      moreover have "dseg ?m1 (Some y) (Some x) (y # ys) None (xl_last l)"
        using a Cons n'(2) ne' by simp
      from dseg_relink_prev [OF this ne'(2), of n' "Some w"] have
        "dseg ?m2 (Some y) (Some w) (y # ys) None (xl_last l)" using n' ne' by simp
      then have "dseg (?m2(x := None)) (xl_first l) None ((ws @ [w]) @ y # ys) None (xl_last l)"
        using b1 n'(2) ne ne' by (subst dseg_append) (auto simp del: dseg.simps fun_upd_apply)
      then have "xl_rep ?l (ws @ [w]) (y # ys)"
        using dom fr d Cons snoc n w n' by (auto simp: xl_rep_def simp del: dseg.simps)
      moreover have "abs_of ?l (ws @ [w]) (y # ys) = cl_delete z"
        using ne ne' w n' snoc Cons by (simp add: z abs_of_def cl_delete_def elem_at_def)
      ultimately show ?thesis using xl_isI by blast
    next
      case Nil
      then have nn: "ln_next n = None" using a by simp
      let ?l = "l\<lparr>xl_node := ?m1(x := None), xl_last := Some w, xl_cur := Some w\<rparr>"
      have "xine_list_delete_current l = Ret ?l"
        using n nn w ne by (simp add: xine_list_delete_current_def xl_ops)
      moreover have "dseg (?m1(x := None)) (xl_first l) None (ws @ [w]) None (Some w)"
        using b1 nn ne by simp
      then have "xl_rep ?l ws [w]"
        using dom fr d Nil snoc n w by (auto simp: xl_rep_def simp del: dseg.simps)
      moreover have "abs_of ?l ws [w] = cl_delete z"
        using ne w snoc Nil by (simp add: z abs_of_def cl_delete_def elem_at_def)
      ultimately show ?thesis using xl_isI by blast
    qed
  qed
qed

lemma list_insert_ok:
  assumes "xl_is l z" and "snd z \<noteq> []"
  shows "\<exists>l'. xine_list_insert_content c l = Ret l' \<and> xl_is l' (cl_insert c z)"
proof -
  obtain bs as' where r': "xl_rep l bs as'" and z': "z = abs_of l bs as'" using assms(1) by (rule xl_isE)
  then obtain x as where as': "as' = x # as" using assms(2) by (cases as') (auto simp: abs_of_def)
  have r: "xl_rep l bs (x # as)" and z: "z = abs_of l bs (x # as)" using r' z' as' by auto
  let ?m = "xl_node l" and ?a = "xl_fresh l"
  from r obtain n where n: "?m x = Some n" "xl_cur l = Some x"
    and b: "dseg ?m (xl_first l) None bs (Some x) (ln_prev n)"
    and a: "dseg ?m (ln_next n) (Some x) as None (xl_last l)"
    and dom: "dom ?m = set (bs @ x # as)" and fr: "\<forall>a \<in> set (bs @ x # as). a < xl_fresh l"
    unfolding xl_rep_cur by blast
  have d: "distinct (bs @ x # as)" by (rule xl_rep_distinct [OF r])
  show ?thesis
  proof (cases as)
    case Nil
    then have "ln_next n = None" using a by simp
    then have "xine_list_insert_content c l = xine_list_append_content c l"
      using n by (simp add: xine_list_insert_content_def xl_ops)
    moreover have "cl_insert c z = cl_append c z"
      using Nil by (simp add: cl_insert_def cl_append_def cl_all_def z abs_of_def)
    ultimately show ?thesis using list_append_ok [OF assms(1)] by simp
  next
    case (Cons y ys)
    then obtain n' where n': "?m y = Some n'" "ln_next n = Some y" using a by auto
    have ne: "x \<noteq> y" "y \<notin> set ys" "x \<notin> set ys" "x \<notin> set bs" "y \<notin> set bs" using d Cons by auto
    have fa: "?a \<noteq> x" "?a \<noteq> y" "?a \<notin> set bs" "?a \<notin> set ys"
      using fresh_notin [OF r] Cons by auto
    let ?m1 = "?m(?a \<mapsto> \<lparr>ln_next = Some y, ln_prev = Some x, ln_content = c, ln_priority = 0\<rparr>)"
    let ?m2 = "?m1(x \<mapsto> n\<lparr>ln_next := Some ?a\<rparr>, y \<mapsto> n'\<lparr>ln_prev := Some ?a\<rparr>)"
    let ?l = "l\<lparr>xl_node := ?m2, xl_fresh := ?a + 1, xl_cur := Some ?a\<rparr>"
    have "xine_list_insert_content c l = Ret ?l"
      using n n' ne fa by (simp add: xine_list_insert_content_def xl_ops fun_upd_twist)
    moreover have "xl_rep ?l (bs @ [x]) (?a # y # ys)"
      unfolding xl_rep_cur using a b n n' ne fa fr dom Cons by (auto simp: dseg_append intro: less_SucI)
    moreover have "abs_of ?l (bs @ [x]) (?a # y # ys) = cl_insert c z"
      using ne fa n n' Cons by (simp add: z abs_of_def cl_insert_def elem_at_def)
    ultimately show ?thesis using xl_isI by blast
  qed
qed


lemma dom_upd_same: "m x = Some n \<Longrightarrow> dom (m(x \<mapsto> n')) = dom m"
  by auto

lemma priority_loop_ok:
  fixes p :: int
  assumes "dseg (xl_node l) (xl_first l) None (xs @ y # ys) None (xl_last l)"
    and "xl_node l a = Some nd" and "a \<notin> set (xs @ y # ys)" and "length ys < k"
  defines "P \<equiv> \<lambda>b. p < snd (elem_at (xl_node l) b)"
  shows "\<exists>l'. priority_loop k a p (Some y) l = Ret l' \<and>
    dseg (xl_node l') (xl_first l') None (xs @ takeWhile P (y # ys) @ a # dropWhile P (y # ys)) None (xl_last l') \<and>
    xl_cur l' = Some a \<and> xl_fresh l' = xl_fresh l \<and> elem_at (xl_node l') = elem_at (xl_node l) \<and>
    dom (xl_node l') = dom (xl_node l)"
  using assms(1,3,4)
proof (induction k arbitrary: xs y ys)
  case 0
  then show ?case by simp
next
  case (Suc k)
  let ?m = "xl_node l"
  from Suc.prems(1) obtain n where n: "?m y = Some n"
    and b: "dseg ?m (xl_first l) None xs (Some y) (ln_prev n)"
    and r: "dseg ?m (ln_next n) (Some y) ys None (xl_last l)"
    by (auto simp: dseg_append dest: dseg_ends)
  have d: "y \<notin> set xs" "y \<notin> set ys" "set xs \<inter> set ys = {}" "distinct xs"
    using dseg_distinct [OF Suc.prems(1)] by auto
  have a: "a \<noteq> y" "a \<notin> set xs" "a \<notin> set ys" using Suc.prems(2) by auto
  show ?case
  proof (cases "P y")
    case False
    then have le: "ln_priority n \<le> p" using n by (simp add: P_def elem_at_Some)
    let ?m1 = "?m(a \<mapsto> nd\<lparr>ln_next := Some y, ln_prev := ln_prev n\<rparr>, y \<mapsto> n\<lparr>ln_prev := Some a\<rparr>)"
    show ?thesis
    proof (cases xs rule: rev_cases)
      case Nil
      let ?l = "l\<lparr>xl_node := ?m1, xl_first := Some a, xl_cur := Some a\<rparr>"
      have p: "ln_prev n = None" using b Nil by simp
      have "priority_loop (Suc k) a p (Some y) l = Ret ?l"
        using n le a assms(2) p by (simp add: node_at_def set_node_def)
      moreover have "dseg ?m1 (Some a) None (a # y # ys) None (xl_last l)"
        using r a d p by auto
      ultimately show ?thesis using False Nil n assms(2) a by (auto simp: elem_at_def fun_eq_iff)
    next
      case (snoc ws w)
      then obtain nw where w: "?m w = Some nw" "ln_prev n = Some w" using b by (auto simp: dseg_append)
      have ne: "w \<noteq> y" "w \<noteq> a" "w \<notin> set ws" "a \<notin> set ws" "y \<notin> set ws" "w \<notin> set ys"
        using d a snoc by auto
      let ?m2 = "?m1(w \<mapsto> nw\<lparr>ln_next := Some a\<rparr>)"
      let ?l = "l\<lparr>xl_node := ?m2, xl_cur := Some a\<rparr>"
      have run: "priority_loop (Suc k) a p (Some y) l = Ret ?l"
        using n le a assms(2) w ne by (simp add: node_at_def set_node_def fun_upd_twist)
      have "dseg ?m2 (xl_first l) None (ws @ [w]) (Some a) (Some w)"
        using dseg_relink [OF b [unfolded snoc] ne(3) w(1), of "Some a"] ne w(2)
        by (auto simp: dseg_append)
      moreover have "dseg ?m2 (Some a) (Some w) (a # y # ys) None (xl_last l)"
        using r a d w ne by auto
      ultimately have "dseg ?m2 (xl_first l) None ((ws @ [w]) @ a # y # ys) None (xl_last l)"
        unfolding dseg_append [of _ _ _ "ws @ [w]"] by blast
      then show ?thesis using run False snoc n assms(2) a w ne
        by (auto simp: elem_at_def fun_eq_iff)
    qed
  next
    case True
    then have gt: "\<not> ln_priority n \<le> p" using n by (simp add: P_def elem_at_Some)
    show ?thesis
    proof (cases ys)
      case Nil
      then have nn: "ln_next n = None" and l: "xl_last l = Some y" using r by auto
      let ?m1 = "?m(a \<mapsto> nd\<lparr>ln_next := None, ln_prev := Some y\<rparr>, y \<mapsto> n\<lparr>ln_next := Some a\<rparr>)"
      let ?l = "l\<lparr>xl_node := ?m1, xl_cur := Some a, xl_last := Some a\<rparr>"
      have run: "priority_loop (Suc k) a p (Some y) l = Ret ?l"
        using n gt a assms(2) nn by (simp add: node_at_def set_node_def)
      have "dseg ?m1 (xl_first l) None xs (Some y) (ln_prev n)" using b d a by simp
      then have "dseg ?m1 (xl_first l) None (xs @ [y, a]) None (Some a)"
        using a by (auto simp: dseg_append)
      then show ?thesis using run True Nil n assms(2) a by (auto simp: elem_at_def fun_eq_iff)
    next
      case (Cons y' ys')
      then have nn: "ln_next n = Some y'" using r by simp
      have "priority_loop (Suc k) a p (Some y) l = priority_loop k a p (Some y') l"
        using n gt nn by (simp add: node_at_def)
      then show ?thesis
        using Suc.IH [of "xs @ [y]" y' ys'] Suc.prems Cons True by simp
    qed
  qed
qed

lemma list_priority_ok:
  assumes "xl_is l z" and "length (cl_all z) \<le> k"
  shows "\<exists>l'. xine_list_append_priority_content k c p l = Ret l' \<and> xl_is l' (cl_priority c p z)"
proof -
  obtain bs as where r: "xl_rep l bs as" and z: "z = abs_of l bs as" using assms(1) by (rule xl_isE)
  let ?a = "xl_fresh l"
  let ?n = "\<lparr>ln_next = None, ln_prev = None, ln_content = c, ln_priority = p\<rparr>"
  let ?l1 = "l\<lparr>xl_node := (xl_node l)(?a \<mapsto> ?n), xl_fresh := ?a + 1\<rparr>"
  note fr = fresh_notin [OF r]
  have all: "cl_all z = map (elem_at (xl_node l)) (bs @ as)" by (simp add: z cl_all_def abs_of_def)
  show ?thesis
  proof (cases "bs @ as")
    case Nil
    let ?l = "?l1\<lparr>xl_first := Some ?a, xl_last := Some ?a, xl_cur := Some ?a\<rparr>"
    have "xl_first l = None" using r Nil by (simp add: xl_rep_def)
    then have "xine_list_append_priority_content k c p l = Ret ?l"
      by (simp add: xine_list_append_priority_content_def xl_ops)
    moreover have "xl_rep ?l [] [?a]" using r Nil by (simp add: xl_rep_def)
    moreover have "abs_of ?l [] [?a] = cl_priority c p z"
      using Nil all by (simp add: abs_of_def cl_priority_def)
    ultimately show ?thesis using xl_isI by blast
  next
    case (Cons y ys)
    have seg: "dseg (xl_node l) (xl_first l) None (y # ys) None (xl_last l)"
      using r unfolding xl_rep_def Cons by simp
    have na: "?a \<notin> set (y # ys)" using fr Cons by (metis Un_iff set_append)
    let ?P = "\<lambda>b. p < snd (elem_at (xl_node l) b)"
    have P: "takeWhile (\<lambda>b. p < snd (elem_at (xl_node ?l1) b)) (y # ys) = takeWhile ?P (y # ys)"
      "dropWhile (\<lambda>b. p < snd (elem_at (xl_node ?l1) b)) (y # ys) = dropWhile ?P (y # ys)"
      using na by (auto intro!: takeWhile_cong dropWhile_cong simp: elem_at_def)
    have "dseg (xl_node ?l1) (xl_first ?l1) None ([] @ y # ys) None (xl_last ?l1)"
      using seg by (simp add: dseg_frame [OF na] del: dseg.simps fun_upd_apply)
    moreover have "length ys < k" using assms(2) unfolding all Cons by simp
    ultimately obtain l' where l': "priority_loop k ?a p (Some y) ?l1 = Ret l'"
      "dseg (xl_node l') (xl_first l') None (takeWhile ?P (y # ys) @ ?a # dropWhile ?P (y # ys)) None (xl_last l')"
      "xl_cur l' = Some ?a" "xl_fresh l' = ?a + 1" "elem_at (xl_node l') = elem_at (xl_node ?l1)"
      "dom (xl_node l') = dom (xl_node ?l1)"
      using priority_loop_ok [of ?l1 "[]" y ys ?a ?n k p, unfolded P] na by auto
    have "xine_list_append_priority_content k c p l = Ret l'"
      using l'(1) seg by (simp add: xine_list_append_priority_content_def malloc_node_def)
    moreover have "dom (xl_node l) = set (y # ys)" "\<forall>b \<in> set (y # ys). b < ?a + 1"
      using r unfolding xl_rep_def Cons by auto
    moreover have "set (y # ys) = set (takeWhile ?P (y # ys)) \<union> set (dropWhile ?P (y # ys))"
      by (metis set_append takeWhile_dropWhile_id)
    ultimately have "xine_list_append_priority_content k c p l = Ret l'"
      "xl_rep l' (takeWhile ?P (y # ys)) (?a # dropWhile ?P (y # ys))"
      using l'(2-4,6) by (auto simp: xl_rep_def ball_Un list.set(2) [of ?a] simp del: takeWhile.simps dropWhile.simps list.set)
    moreover have same: "map (elem_at (xl_node ?l1)) xs = map (elem_at (xl_node l)) xs"
      if "set xs \<subseteq> set (y # ys)" for xs
      using that na by (intro map_cong) (auto simp: elem_at_def)
    have "map (elem_at (xl_node ?l1)) (takeWhile ?P (y # ys)) = map (elem_at (xl_node l)) (takeWhile ?P (y # ys))"
      "map (elem_at (xl_node ?l1)) (dropWhile ?P (y # ys)) = map (elem_at (xl_node l)) (dropWhile ?P (y # ys))"
      by (rule same, meson set_takeWhileD subsetI) (rule same, meson set_dropWhileD subsetI)
    moreover have "elem_at (xl_node ?l1) ?a = (c, p)" by (simp add: elem_at_def)
    ultimately have "abs_of l' (takeWhile ?P (y # ys)) (?a # dropWhile ?P (y # ys)) = cl_priority c p z"
      unfolding all cl_priority_def abs_of_def l'(5) Cons takeWhile_map dropWhile_map list.map(2) [of _ ?a] comp_def
      by (simp only:)
    with \<open>xine_list_append_priority_content k c p l = Ret l'\<close> \<open>xl_rep l' _ _\<close> show ?thesis
      using xl_isI by blast
  qed
qed

lemma free_nodes_ok:
  "dseg (xl_node l) p pr xs None t \<Longrightarrow> length xs < k \<Longrightarrow>
    \<exists>m. free_nodes k p l = Ret (l\<lparr>xl_node := m\<rparr>) \<and> dom m = dom (xl_node l) - set xs"
proof (induction xs arbitrary: k p pr l)
  case Nil
  then show ?case by (cases k) (auto intro: exI [of _ "xl_node l"])
next
  case (Cons x xs)
  then obtain k' n where k: "k = Suc k'" and n: "p = Some x" "xl_node l x = Some n"
    and s: "dseg (xl_node l) (ln_next n) (Some x) xs None t" by (cases k) auto
  have "x \<notin> set xs" using dseg_distinct [OF Cons.prems(1)] by simp
  then have "dseg (xl_node (l\<lparr>xl_node := (xl_node l)(x := None)\<rparr>)) (ln_next n) (Some x) xs None t"
    using s by simp
  from Cons.IH [OF this, of k'] Cons.prems(2) k obtain m where
    "free_nodes k' (ln_next n) (l\<lparr>xl_node := (xl_node l)(x := None)\<rparr>) = Ret (l\<lparr>xl_node := m\<rparr>)"
    "dom m = dom (xl_node l) - {x} - set xs" by (auto simp del: fun_upd_apply)
  then show ?case using k n by (intro exI [of _ m]) (auto simp: node_at_def free_node_def)
qed

lemma list_free_ok:
  assumes "xl_is l z" and "length (cl_all z) < k"
  shows "\<exists>l'. xine_list_free k l = Ret l' \<and> xl_is l' ([], []) \<and> xl_node l' = Map.empty"
proof -
  obtain bs as where r: "xl_rep l bs as" and z: "z = abs_of l bs as" using assms(1) by (rule xl_isE)
  have *: "xl_is l' ([], [])" if "xl_node l' = Map.empty" "xl_first l' = None" "xl_last l' = None" "xl_cur l' = None" for l' :: "'a xlist"
    using that by (intro xl_isI [of _ "[]" "[]"]) (auto simp: xl_rep_def abs_of_def)
  show ?thesis
  proof (cases "xl_first l")
    case None
    then have "bs @ as = []" using r by (cases "bs @ as") (auto simp: xl_rep_def)
    then show ?thesis using r None * [of l] by (auto simp: xine_list_free_def xl_rep_def)
  next
    case (Some x)
    have "dseg (xl_node l) (xl_first l) None (bs @ as) None (xl_last l)" "dom (xl_node l) = set (bs @ as)"
      using r by (auto simp: xl_rep_def)
    moreover have "length (bs @ as) < k" using assms(2) by (simp add: z cl_all_def abs_of_def)
    ultimately obtain m where "free_nodes k (xl_first l) l = Ret (l\<lparr>xl_node := m\<rparr>)" "dom m = {}"
      using free_nodes_ok [of l "xl_first l" None "bs @ as" "xl_last l" k] by auto
    then show ?thesis using Some * by (auto simp: xine_list_free_def)
  qed
qed


section \<open>The interface, and the properties of the list\<close>

text \<open>What searching an element and deleting it finds and removes.\<close>

lemma remove1_split: "remove1 x xs = takeWhile (\<lambda>y. \<not> y = x) xs @ tl (dropWhile (\<lambda>y. \<not> y = x) xs)"
  by (induction xs) auto

lemma find_eq: "find (\<lambda>y. y = x) xs = (if x \<in> set xs then Some x else None)"
  by (induction xs) auto

interpretation xl: cursor_list xl_is xine_list_first_content xine_list_next_content
  xine_list_append_content xine_list_delete_current
  by unfold_locales (simp_all add: list_first_ok list_next_ok list_append_ok list_delete_ok)

text \<open>
  The cursor moves of list.c on a well-formed list return and are exactly the moves on the
  list split at the cursor: \<open>first\<close>, \<open>last\<close>, \<open>next\<close> and
  \<open>prev\<close> return the content they arrive at, or NULL (and stay) at the ends; the
  elements are left alone.
\<close>

theorem list_cursor_moves:
  assumes "xl_is l z"
  shows "\<exists>l1 l2 l3 l4.
    xine_list_first_content l = Ret (cl_content (cl_first z), l1) \<and> xl_is l1 (cl_first z) \<and>
    xine_list_last_content l = Ret (cl_content (cl_last z), l2) \<and> xl_is l2 (cl_last z) \<and>
    xine_list_next_content l = Ret (fst (cl_next z), l3) \<and> xl_is l3 (snd (cl_next z)) \<and>
    xine_list_prev_content l = Ret (fst (cl_prev z), l4) \<and> xl_is l4 (snd (cl_prev z)) \<and>
    cl_all (cl_first z) = cl_all z \<and> cl_all (cl_last z) = cl_all z \<and>
    cl_all (snd (cl_next z)) = cl_all z \<and> cl_all (snd (cl_prev z)) = cl_all z"
proof -
  have "cl_all (cl_first z) = cl_all z" "cl_all (cl_last z) = cl_all z"
    "cl_all (snd (cl_next z)) = cl_all z" "cl_all (snd (cl_prev z)) = cl_all z"
    by (auto simp: cl_all_def cl_first_def cl_last_def cl_next_def cl_prev_def split: list.splits)
  with list_first_ok [OF assms] list_last_ok [OF assms] list_next_ok [OF assms]
    list_prev_ok [OF assms] show ?thesis by auto
qed

text \<open>A list made by three appends, with the cursor on the last.\<close>

definition list3 :: "nat xlist outcome" where
  "list3 = obind (xine_list_append_content (Some 10) xine_list_new) (\<lambda>l1.
     obind (xine_list_append_content (Some 11) l1) (xine_list_append_content (Some 12)))"

lemma list3_is: "\<exists>l. list3 = Ret l \<and> xl_is l ([(Some 10, 0), (Some 11, 0)], [(Some 12, 0)])"
proof -
  obtain l1 where l1: "xine_list_append_content (Some (10::nat)) xine_list_new = Ret l1"
    "xl_is l1 ([], [(Some 10, 0)])"
    using list_append_ok [OF list_new_ok, of "Some 10"] by (auto simp: cl_append_def cl_all_def)
  obtain l2 where l2: "xine_list_append_content (Some 11) l1 = Ret l2"
    "xl_is l2 ([(Some 10, 0)], [(Some 11, 0)])"
    using list_append_ok [OF l1(2), of "Some 11"] by (auto simp: cl_append_def cl_all_def)
  obtain l3 where l3: "xine_list_append_content (Some 12) l2 = Ret l3"
    "xl_is l3 ([(Some 10, 0), (Some 11, 0)], [(Some 12, 0)])"
    using list_append_ok [OF l2(2), of "Some 12"] by (auto simp: cl_append_def cl_all_def)
  show ?thesis using l1(1) l2(1) l3 by (auto simp: list3_def)
qed

theorem list_cursor_moves_witness:
  "\<exists>l l3 l4. list3 = Ret l \<and> xine_list_next_content l = Ret (None, l3) \<and>
    xine_list_prev_content l = Ret (Some 11, l4)"
proof -
  obtain l where l: "list3 = Ret l" "xl_is l ([(Some 10, 0), (Some 11, 0)], [(Some 12, 0)])"
    using list3_is by blast
  from list_cursor_moves [OF l(2)] l(1) show ?thesis
    by (auto simp: cl_next_def cl_prev_def cl_content_def)
qed

lemma xl_is_size: "xl_is l z \<Longrightarrow> card (dom (xl_node l)) = length (cl_all z)"
proof -
  assume "xl_is l z"
  then obtain bs as where r: "xl_rep l bs as" and z: "z = abs_of l bs as" by (rule xl_isE)
  then have "dom (xl_node l) = set (bs @ as)" by (simp add: xl_rep_def)
  then show ?thesis using distinct_card [OF xl_rep_distinct [OF r]]
    by (simp add: z cl_all_def abs_of_def)
qed

lemma list_delete_current_fault: "xl_is l z \<Longrightarrow> snd z = [] \<Longrightarrow> xine_list_delete_current l = Fault"
proof -
  assume "xl_is l z" and z: "snd z = []"
  from this(1) obtain bs as where "xl_rep l bs as" "z = abs_of l bs as" by (rule xl_isE)
  then have "xl_cur l = None" using z by (auto simp: xl_rep_def abs_of_def)
  then show ?thesis by (simp add: xine_list_delete_current_def node_at_def)
qed

text \<open>
  Deleting the current element removes exactly that element and frees its node; the cursor
  moves to the next element, or to the one before when the last was deleted. On an empty list
  the function dereferences the NULL cursor.
\<close>

theorem list_delete_current_spec:
  assumes "xl_is l z"
  shows "(snd z \<noteq> [] \<longrightarrow>
      (\<exists>l'. xine_list_delete_current l = Ret l' \<and> xl_is l' (cl_delete z) \<and>
        cl_all (cl_delete z) = fst z @ tl (snd z) \<and>
        snd (cl_delete z) = (if tl (snd z) \<noteq> [] then tl (snd z) else drop (length (fst z) - 1) (fst z)) \<and>
        card (dom (xl_node l')) = card (dom (xl_node l)) - 1)) \<and>
    (snd z = [] \<longrightarrow> xine_list_delete_current l = Fault)"
proof (cases "snd z")
  case Nil
  then show ?thesis using list_delete_current_fault [OF assms] by simp
next
  case (Cons x r)
  obtain l' where l': "xine_list_delete_current l = Ret l'" "xl_is l' (cl_delete z)"
    using list_delete_ok [OF assms] Cons by auto
  moreover have all: "cl_all (cl_delete z) = fst z @ tl (snd z)" using Cons
    by (cases r; cases "fst z" rule: rev_cases) (auto simp: cl_delete_def cl_all_def)
  moreover have "snd (cl_delete z) = (if tl (snd z) \<noteq> [] then tl (snd z) else drop (length (fst z) - 1) (fst z))"
    using Cons by (cases r; cases "fst z" rule: rev_cases) (auto simp: cl_delete_def)
  ultimately show ?thesis using xl_is_size [OF assms] xl_is_size [OF l'(2)] Cons all by (simp add: cl_all_def)
qed

theorem list_delete_current_spec_witness:
  "\<exists>l l'. list3 = Ret l \<and> xine_list_delete_current l = Ret l' \<and>
    xl_is l' ([(Some 10, 0)], [(Some 11, 0)])"
proof -
  obtain l where l: "list3 = Ret l" "xl_is l ([(Some 10, 0), (Some 11, 0)], [(Some 12, 0)])"
    using list3_is by blast
  from list_delete_current_spec [OF l(2)] l(1) show ?thesis by (auto simp: cl_delete_def)
qed

text \<open>
  Appending with a priority keeps a list that is sorted by falling priority sorted, adds
  exactly the new element, in front of the elements of the same priority, and leaves the
  cursor on it. The loop ends: as much fuel as there are elements is enough.
\<close>

theorem list_priority_sorted:
  assumes "xl_is l z" and "sorted_wrt (\<lambda>a b. snd b \<le> snd a) (cl_all z)" and "length (cl_all z) \<le> k"
  shows "\<exists>l' b r. xine_list_append_priority_content k c p l = Ret l' \<and> xl_is l' (b, (c, p) # r) \<and>
    b @ r = cl_all z \<and> (\<forall>e \<in> set b. p < snd e) \<and> (\<forall>e \<in> set r. snd e \<le> p) \<and>
    sorted_wrt (\<lambda>a b. snd b \<le> snd a) (b @ (c, p) # r)"
proof -
  let ?b = "takeWhile (\<lambda>e. p < snd e) (cl_all z)" and ?r = "dropWhile (\<lambda>e. p < snd e) (cl_all z)"
  obtain l' where "xine_list_append_priority_content k c p l = Ret l'" "xl_is l' (?b, (c, p) # ?r)"
    using list_priority_ok [OF assms(1,3)] by (auto simp: cl_priority_def)
  moreover have b: "\<forall>e \<in> set ?b. p < snd e" by (auto dest: set_takeWhileD)
  moreover have s: "sorted_wrt (\<lambda>a b. snd b \<le> snd a) (?b @ ?r)" using assms(2) by simp
  have r: "\<forall>e \<in> set ?r. snd e \<le> p"
  proof (cases ?r)
    case (Cons x xs)
    then have "\<not> p < snd x" by (metis dropWhile_eq_Cons_conv)
    then show ?thesis using s unfolding Cons by (auto simp: sorted_wrt_append)
  qed (simp only: list.set(1) ball_empty)
  moreover have "sorted_wrt (\<lambda>a b. snd b \<le> snd a) (?b @ (c, p) # ?r)"
    using s b r by (force simp: sorted_wrt_append)
  ultimately show ?thesis by (metis takeWhile_dropWhile_id)
qed

theorem list_priority_sorted_witness:
  "\<exists>l l' b r. list3 = Ret l \<and> xine_list_append_priority_content 3 (Some 9) 5 l = Ret l' \<and>
    xl_is l' (b, (Some 9, 5) # r)"
proof -
  obtain l where l: "list3 = Ret l" "xl_is l ([(Some 10, 0), (Some 11, 0)], [(Some 12, 0)])"
    using list3_is by blast
  from list_priority_sorted [OF l(2), of 3 "Some 9" 5] l(1) show ?thesis
    by (auto simp: cl_all_def)
qed

text \<open>
  \<open>xine_list_insert_content\<close> puts the new element right behind the current one (at
  the end, when the current one is the last) and moves the cursor to it;
  \<open>xine_list_append_content\<close> puts it at the end; \<open>xine_list_free\<close> leaves an
  empty list and no node allocated. Inserting into an empty list dereferences the NULL cursor.
\<close>

theorem list_insert_append_free:
  assumes "xl_is l z" and "length (cl_all z) < k"
  shows "\<exists>l1 l2 l3.
    (if snd z = [] then xine_list_insert_content c l = Fault
     else xine_list_insert_content c l = Ret l1 \<and> xl_is l1 (fst z @ [hd (snd z)], (c, 0) # tl (snd z))) \<and>
    xine_list_append_content c l = Ret l2 \<and> xl_is l2 (cl_all z, [(c, 0)]) \<and>
    xine_list_free k l = Ret l3 \<and> xl_is l3 ([], []) \<and> xl_node l3 = Map.empty"
proof -
  have "xine_list_insert_content c l = Fault" if "snd z = []"
  proof -
    obtain bs as where "xl_rep l bs as" "z = abs_of l bs as" using assms(1) by (rule xl_isE)
    then have "xl_cur l = None" using that by (auto simp: xl_rep_def abs_of_def)
    then show ?thesis by (simp add: xine_list_insert_content_def node_at_def)
  qed
  with list_insert_ok [OF assms(1), of c] list_append_ok [OF assms(1), of c] list_free_ok [OF assms]
  show ?thesis by (auto simp: cl_insert_def cl_append_def)
qed

theorem list_insert_append_free_witness:
  "\<exists>l l2. list3 = Ret l \<and> xine_list_append_content None l = Ret l2 \<and>
    xl_is l2 ([(Some 10, 0), (Some 11, 0), (Some 12, 0)], [(None, 0)])"
proof -
  obtain l where l: "list3 = Ret l" "xl_is l ([(Some 10, 0), (Some 11, 0)], [(Some 12, 0)])"
    using list3_is by blast
  have "length (cl_all ([(Some 10, 0), (Some 11, 0)], [(Some (12::nat), 0)])) < 4" by (simp add: cl_all_def)
  from list_insert_append_free [OF l(2) this, of None] l(1) show ?thesis by (auto simp: cl_all_def)
qed

text \<open>
  \<open>xine_list_is_empty\<close> answers 1 for a list that has elements and 0 for an empty
  one: the opposite of its name.
\<close>

theorem list_is_empty_inverted:
  assumes "xl_is l z"
  shows "xine_list_is_empty (Some l) = (if cl_all z = [] then 0 else 1)"
proof -
  obtain bs as where r: "xl_rep l bs as" "z = abs_of l bs as" using assms by (rule xl_isE)
  then show ?thesis by (cases "bs @ as") (auto simp: xl_rep_def xine_list_is_empty_def cl_all_def abs_of_def)
qed

theorem list_is_empty_inverted_witness:
  "\<exists>l. list3 = Ret l \<and> xine_list_is_empty (Some l) = 1"
proof -
  obtain l where l: "list3 = Ret l" "xl_is l ([(Some 10, 0), (Some 11, 0)], [(Some 12, 0)])"
    using list3_is by blast
  from list_is_empty_inverted [OF l(2)] have "xine_list_is_empty (Some l) = 1" by (simp add: cl_all_def)
  with l(1) show ?thesis by blast
qed

end
