(* ===== verification/Events.thy ===== *)
theory Events
  imports Xine_List Queue_Iface
begin

text \<open>
  The event queues and cue points of src/src/xine-engine/events.c, over the lists of list.c.
  Event structures, queues and cue points live in stores; \<open>malloc\<close> hands out the
  addresses from the \<open>fresh\<close> counters on. A listener thread is the callback it runs;
  disposing a queue joins it, so its loop runs there to its end.
\<close>

section \<open>Data\<close>

record cue_point =
  cp_cuetime :: int
  cp_frequency :: int
  cp_currtime :: int
  cp_user_data :: nat

text \<open>What an event's \<open>data\<close> points to: bytes, or a cue point structure.\<close>

datatype event_data = Bytes "u8 list" | Cue cue_point

record xine_event =
  ev_type :: int
  ev_data :: "event_data option"
  ev_data_length :: int
  ev_tv :: int

text \<open>
  \<open>eq_lost\<close> counts the listener threads whose handle a later one has overwritten: they
  wait for events like the one that \<open>listener_thread\<close> points to.
\<close>

record event_queue =
  eq_events :: "nat xlist"
  eq_listener :: "nat option"
  eq_lost :: nat

record 'w evsys =
  es_event :: "nat \<rightharpoonup> xine_event"
  es_efresh :: nat
  es_queue :: "nat \<rightharpoonup> event_queue"
  es_qfresh :: nat
  es_queues :: "nat xlist"
  es_cue :: "nat \<rightharpoonup> cue_point"
  es_cfresh :: nat
  es_cues :: "nat xlist"
  es_next_cue_time :: u32
  es_org_next_cue_time :: int
  es_next_cue_data :: "nat option"
  es_clock :: int
  es_vpts_offset :: int
  es_tv :: int
  es_world :: 'w

text \<open>A listener callback gets the queue's user data and the event, and acts on the world.\<close>

type_synonym 'w ev_cb = "nat \<Rightarrow> xine_event \<Rightarrow> 'w \<Rightarrow> 'w"

definition XINE_EVENT_QUIT :: int where
  "XINE_EVENT_QUIT = 7"

definition XINE_EVENT_CUE_POINT :: int where
  "XINE_EVENT_CUE_POINT = 13"

text \<open>\<open>sizeof (xine_cue_point_data_t)\<close> on the 32-bit ABI.\<close>

definition CUE_POINT_SIZE :: int where
  "CUE_POINT_SIZE = 16"

section \<open>Stores\<close>

definition queue_at :: "nat \<Rightarrow> 'w evsys \<Rightarrow> event_queue outcome" where
  "queue_at q s = of_opt (es_queue s q)"

definition event_at :: "nat \<Rightarrow> 'w evsys \<Rightarrow> xine_event outcome" where
  "event_at e s = of_opt (es_event s e)"

definition set_events :: "nat \<Rightarrow> event_queue \<Rightarrow> nat xlist \<Rightarrow> 'w evsys \<Rightarrow> 'w evsys" where
  "set_events q Q l s = s\<lparr>es_queue := (es_queue s)(q \<mapsto> Q\<lparr>eq_events := l\<rparr>)\<rparr>"

definition malloc_event :: "xine_event \<Rightarrow> 'w evsys \<Rightarrow> nat \<times> 'w evsys" where
  "malloc_event ev s =
     (es_efresh s, s\<lparr>es_event := (es_event s)(es_efresh s \<mapsto> ev), es_efresh := es_efresh s + 1\<rparr>)"

section \<open>Taking events\<close>

definition xine_event_get :: "nat \<Rightarrow> 'w evsys \<Rightarrow> (nat option \<times> 'w evsys) outcome" where
  "xine_event_get q s =
     obind (queue_at q s) (\<lambda>Q.
     obind (take_first xine_list_first_content xine_list_delete_current (eq_events Q)) (\<lambda>(e, l).
     Ret (e, set_events q Q l s)))"

definition xine_event_wait :: "nat \<Rightarrow> 'w evsys \<Rightarrow> (nat \<times> 'w evsys) outcome" where
  "xine_event_wait q s =
     obind (queue_at q s) (\<lambda>Q.
     obind (xine_list_first_content (eq_events Q)) (\<lambda>(e, l).
     case e of None \<Rightarrow> Wait
     | Some ev \<Rightarrow> obind (xine_list_delete_current l) (\<lambda>l1. Ret (ev, set_events q Q l1 s))))"

text \<open>\<open>xine_event_free\<close>: an event and its data are freed together.\<close>

definition xine_event_free :: "nat \<Rightarrow> 'w evsys \<Rightarrow> 'w evsys outcome" where
  "xine_event_free e s =
     obind (event_at e s) (\<lambda>_. Ret (s\<lparr>es_event := (es_event s)(e := None)\<rparr>))"

section \<open>Sending\<close>

text \<open>\<open>malloc\<close> and \<open>memcpy\<close> of \<open>data_length\<close> bytes.\<close>

definition copy_data :: "event_data option \<Rightarrow> int \<Rightarrow> event_data option outcome" where
  "copy_data d n =
     (if n > 0 then
        case d of None \<Rightarrow> Ret None
        | Some (Cue c) \<Rightarrow> Ret (Some (Cue c))
        | Some (Bytes bs) \<Rightarrow> if nat n \<le> length bs then Ret (Some (Bytes (take (nat n) bs))) else Fault
      else Ret None)"

definition send_one :: "xine_event \<Rightarrow> nat \<Rightarrow> 'w evsys \<Rightarrow> 'w evsys outcome" where
  "send_one ev q s =
     obind (copy_data (ev_data ev) (ev_data_length ev)) (\<lambda>d.
     (let (cev, s1) = malloc_event
            \<lparr>ev_type = ev_type ev, ev_data = d, ev_data_length = ev_data_length ev, ev_tv = es_tv s\<rparr> s in
      obind (queue_at q s1) (\<lambda>Q.
      obind (xine_list_append_content (Some cev) (eq_events Q)) (\<lambda>l.
      Ret (set_events q Q l s1)))))"

definition xine_event_send :: "nat \<Rightarrow> xine_event \<Rightarrow> 'w evsys \<Rightarrow> 'w evsys outcome" where
  "xine_event_send k ev s =
     obind (visit_all xine_list_first_content xine_list_next_content (send_one ev) k (es_queues s) s)
       (\<lambda>(s1, l). Ret (s1\<lparr>es_queues := l\<rparr>))"

section \<open>Queues\<close>

definition xine_event_new_queue :: "'w evsys \<Rightarrow> (nat \<times> 'w evsys) outcome" where
  "xine_event_new_queue s =
     (let q = es_qfresh s;
          s1 = s\<lparr>es_queue := (es_queue s)(q \<mapsto> \<lparr>eq_events = xine_list_new, eq_listener = None, eq_lost = 0\<rparr>),
                 es_qfresh := q + 1\<rparr> in
      obind (xine_list_append_content (Some q) (es_queues s1)) (\<lambda>l.
      Ret (q, s1\<lparr>es_queues := l\<rparr>)))"

fun listener_loop :: "nat \<Rightarrow> 'w ev_cb \<Rightarrow> nat \<Rightarrow> nat \<Rightarrow> 'w evsys \<Rightarrow> 'w evsys outcome" where
  "listener_loop 0 cb ud q s = Spin"
| "listener_loop (Suc k) cb ud q s =
     obind (xine_event_wait q s) (\<lambda>(e, s1).
     obind (event_at e s1) (\<lambda>ev.
     if ev_type ev = XINE_EVENT_QUIT then xine_event_free e s1
     else obind (xine_event_free e (s1\<lparr>es_world := cb ud ev (es_world s1)\<rparr>)) (\<lambda>s2.
          listener_loop k cb ud q s2)))"

text \<open>A second call starts a second thread on the queue; both use the later user data.\<close>

definition xine_event_create_listener_thread :: "nat \<Rightarrow> nat \<Rightarrow> 'w evsys \<Rightarrow> 'w evsys outcome" where
  "xine_event_create_listener_thread q ud s =
     obind (queue_at q s) (\<lambda>Q.
     Ret (s\<lparr>es_queue := (es_queue s)(q \<mapsto>
       Q\<lparr>eq_listener := Some ud, eq_lost := (if eq_listener Q = None then eq_lost Q else eq_lost Q + 1)\<rparr>)\<rparr>))"

text \<open>\<open>while ((event = xine_event_get (queue))) xine_event_free (event)\<close>\<close>

fun drain_loop :: "nat \<Rightarrow> nat \<Rightarrow> 'w evsys \<Rightarrow> 'w evsys outcome" where
  "drain_loop 0 q s = Spin"
| "drain_loop (Suc k) q s =
     obind (xine_event_get q s) (\<lambda>(e, s1).
     case e of None \<Rightarrow> Ret s1
     | Some ev \<Rightarrow> obind (xine_event_free ev s1) (\<lambda>s2. drain_loop k q s2))"

text \<open>
  The listener is joined. With a second thread on the queue only one of them gets the quit
  event: either the join waits for the other for ever, or the other waits on in a queue that is
  freed. Both are a fault here.
\<close>

definition xine_event_dispose_queue :: "nat \<Rightarrow> 'w ev_cb \<Rightarrow> nat \<Rightarrow> 'w evsys \<Rightarrow> 'w evsys outcome" where
  "xine_event_dispose_queue k cb queue s =
     obind (search xine_list_first_content xine_list_next_content (\<lambda>q. q = queue) k (es_queues s)) (\<lambda>(q, l).
     if q = None then Ret (s\<lparr>es_queues := l\<rparr>)
     else
       obind (xine_list_delete_current l) (\<lambda>l1.
       (let (qev, s1) = malloc_event
              \<lparr>ev_type = XINE_EVENT_QUIT, ev_data = None, ev_data_length = 0, ev_tv = 0\<rparr>
              (s\<lparr>es_queues := l1\<rparr>) in
        obind (queue_at queue s1) (\<lambda>Q.
        obind (xine_list_append_content (Some qev) (eq_events Q)) (\<lambda>l2.
        obind (case eq_listener Q of
                 None \<Rightarrow> Ret (set_events queue Q l2 s1)
               | Some ud \<Rightarrow>
                   if eq_lost Q \<noteq> 0 then Fault else listener_loop k cb ud queue (set_events queue Q l2 s1)) (\<lambda>s2.
        obind (drain_loop k queue s2) (\<lambda>s3.
        Ret (s3\<lparr>es_queue := (es_queue s3)(queue := None)\<rparr>))))))))"

section \<open>Cue points\<close>

definition cue_at :: "nat \<Rightarrow> 'w evsys \<Rightarrow> cue_point outcome" where
  "cue_at c s = of_opt (es_cue s c)"

definition xine_event_create_cue_point :: "int \<Rightarrow> int \<Rightarrow> nat \<Rightarrow> 'w evsys \<Rightarrow> 'w evsys outcome" where
  "xine_event_create_cue_point cuetime frequency ud s =
     (let c = es_cfresh s;
          s1 = s\<lparr>es_cue := (es_cue s)(c \<mapsto> \<lparr>cp_cuetime = cuetime, cp_frequency = frequency,
                   cp_currtime = 0, cp_user_data = ud\<rparr>), es_cfresh := c + 1\<rparr> in
      obind (xine_list_append_content (Some c) (es_cues s1)) (\<lambda>l. Ret (s1\<lparr>es_cues := l\<rparr>)))"

text \<open>The search reads each cue point through its pointer; freeing NULL does nothing.\<close>

definition cue_matches :: "'w evsys \<Rightarrow> int \<Rightarrow> int \<Rightarrow> nat \<Rightarrow> bool" where
  "cue_matches s cuetime frequency c \<longleftrightarrow>
     (case es_cue s c of None \<Rightarrow> False
      | Some p \<Rightarrow> cp_cuetime p = cuetime \<and> cp_frequency p = frequency)"

definition xine_event_dispose_cue_point :: "nat \<Rightarrow> int \<Rightarrow> int \<Rightarrow> 'w evsys \<Rightarrow> 'w evsys outcome" where
  "xine_event_dispose_cue_point k cuetime frequency s =
     obind (search xine_list_first_content xine_list_next_content
              (cue_matches s cuetime frequency) k (es_cues s)) (\<lambda>(c, l).
     obind (xine_list_delete_current l) (\<lambda>l1.
     Ret (s\<lparr>es_cues := l1,
            es_cue := (case c of None \<Rightarrow> es_cue s | Some p \<Rightarrow> (es_cue s)(p := None))\<rparr>)))"

text \<open>One round of the loop: \<open>next_time\<close> and \<open>next_cue_data\<close>.\<close>

definition recalc_one :: "int \<Rightarrow> 'w evsys \<Rightarrow> nat \<Rightarrow> int \<times> nat option \<Rightarrow> (int \<times> nat option) outcome" where
  "recalc_one cur_time s c acc =
     (let next_time = fst acc in
      obind (cue_at c s) (\<lambda>p.
      if cp_cuetime p > cur_time \<and> cp_cuetime p < next_time then Ret (cp_cuetime p, Some c)
      else if cp_frequency p \<noteq> 0 \<and> cp_cuetime p < cur_time then
        obind (cmod (cur_time - cp_cuetime p) (cp_frequency p)) (\<lambda>r.
        if cp_frequency p - r < next_time - cur_time
        then Ret (s32 (cp_frequency p - r + cur_time), Some c) else Ret acc)
      else Ret acc))"

text \<open>
  \<open>next_time\<close> is an \<open>int\<close>: \<open>next_time*90\<close> is written out at 32 bits, before
  the 64-bit \<open>vpts_offset\<close> is added.
\<close>

definition xine_recalculate_next_cue_point :: "nat \<Rightarrow> int \<Rightarrow> 'w evsys \<Rightarrow> 'w evsys outcome" where
  "xine_recalculate_next_cue_point k cur_time0 s =
     (let cur_time1 = (if cur_time0 = 0 then es_clock s else cur_time0);
          cur_time = (cur_time1 - es_vpts_offset s) sdiv 90 in
      obind (visit_all xine_list_first_content xine_list_next_content (recalc_one cur_time s) k
               (es_cues s) (0x7FFFFFFF, es_next_cue_data s)) (\<lambda>((next_time, nd), l).
      Ret (s\<lparr>es_cues := l, es_next_cue_data := nd,
             es_next_cue_time := word_of_int (s32 (next_time * 90) + es_vpts_offset s)\<rparr>)))"

text \<open>One round of \<open>xine_cue_point_event\<close>; the remainder is taken before the test.\<close>

definition fire_cue :: "nat \<Rightarrow> int \<Rightarrow> nat \<Rightarrow> cue_point \<Rightarrow> 'w evsys \<Rightarrow> 'w evsys outcome" where
  "fire_cue k cur_time c p s =
     (let p' = p\<lparr>cp_currtime := cur_time\<rparr> in
      xine_event_send k \<lparr>ev_type = XINE_EVENT_CUE_POINT, ev_data = Some (Cue p'),
          ev_data_length = CUE_POINT_SIZE, ev_tv = 0\<rparr> (s\<lparr>es_cue := (es_cue s)(c \<mapsto> p')\<rparr>))"

definition cue_one :: "nat \<Rightarrow> int \<Rightarrow> int \<Rightarrow> nat \<Rightarrow> 'w evsys \<Rightarrow> 'w evsys outcome" where
  "cue_one k cur_time next_time c s =
     obind (cue_at c s) (\<lambda>p.
     if cp_cuetime p \<le> cur_time \<and> cp_cuetime p \<ge> next_time then fire_cue k cur_time c p s
     else
       obind (cmod (next_time - cp_cuetime p) (cp_frequency p)) (\<lambda>r.
       (let nf = cp_frequency p - r; next_freq = (if nf = cp_frequency p then 0 else nf) in
        if cp_frequency p \<noteq> 0 \<and> cp_cuetime p < cur_time \<and> next_freq \<le> cur_time - next_time
        then fire_cue k cur_time c p s else Ret s)))"

definition xine_cue_point_event :: "nat \<Rightarrow> int \<Rightarrow> 'w evsys \<Rightarrow> 'w evsys outcome" where
  "xine_cue_point_event k in_cur_time s =
     (let cur_time = s32 ((in_cur_time - es_vpts_offset s) sdiv 90);
          next_time = es_org_next_cue_time s in
      if cur_time < next_time then Ret s
      else
        obind (visit_all xine_list_first_content xine_list_next_content
                 (cue_one k cur_time next_time) k (es_cues s) s) (\<lambda>(s1, l).
        xine_recalculate_next_cue_point k in_cur_time (s1\<lparr>es_cues := l\<rparr>)))"

end
