(* ===== verification/Events_Inv.thy ===== *)
theory Events_Inv
  imports Events
begin

text \<open>
  The invariant of the event queues (each allocated event is in exactly one queue or held by
  a client), every operation's step lemma, and the clients as a step relation.
\<close>

section \<open>The invariant\<close>

text \<open>
  \<open>ev_ok s QS E H\<close>: the stream lists the queues \<open>QS\<close>, queue \<open>q\<close> holds the
  events \<open>E q\<close>, and the clients hold the events \<open>H\<close>; every allocated event is in
  one of these places.
\<close>

definition queues_ok :: "'w evsys \<Rightarrow> nat list \<Rightarrow> bool" where
  "queues_ok s QS \<longleftrightarrow> holds xl_is (es_queues s) QS \<and> distinct QS \<and> set QS \<subseteq> dom (es_queue s) \<and>
     (\<forall>q \<in> dom (es_queue s). q < es_qfresh s) \<and> (\<forall>Q \<in> ran (es_queue s). eq_lost Q = 0)"

definition events_ok :: "'w evsys \<Rightarrow> (nat \<Rightarrow> nat list) \<Rightarrow> nat set \<Rightarrow> bool" where
  "events_ok s E H \<longleftrightarrow>
     (\<forall>q. case es_queue s q of None \<Rightarrow> E q = [] | Some Q \<Rightarrow> holds xl_is (eq_events Q) (E q)) \<and>
     (\<forall>q. distinct (E q) \<and> H \<inter> set (E q) = {}) \<and>
     (\<forall>q q'. q \<noteq> q' \<longrightarrow> set (E q) \<inter> set (E q') = {}) \<and>
     dom (es_event s) = H \<union> (\<Union>q. set (E q)) \<and> (\<forall>e \<in> dom (es_event s). e < es_efresh s)"

lemma events_ok_queue:
  "events_ok s E H \<Longrightarrow> es_queue s q = Some Q \<Longrightarrow> holds xl_is (eq_events Q) (E q)"
  unfolding events_ok_def by (metis option.simps(5))

lemma events_ok_alloc: "events_ok s E H \<Longrightarrow> e \<in> H \<union> set (E q) \<Longrightarrow> \<exists>ev. es_event s e = Some ev"
  unfolding events_ok_def by blast

lemma events_ok_fresh: "events_ok s E H \<Longrightarrow> es_efresh s \<notin> H \<and> es_efresh s \<notin> set (E q)"
  unfolding events_ok_def by (metis UN_I UNIV_I Un_iff less_irrefl)

lemma events_okD:
  assumes "events_ok s E H"
  shows "distinct (E q)" and "H \<inter> set (E q) = {}" and "q \<noteq> q' \<Longrightarrow> set (E q) \<inter> set (E q') = {}"
    and "dom (es_event s) = H \<union> (\<Union>q. set (E q))" and "\<forall>e \<in> dom (es_event s). e < es_efresh s"
    and "case es_queue s q of None \<Rightarrow> E q = [] | Some Q \<Rightarrow> holds xl_is (eq_events Q) (E q)"
  using assms unfolding events_ok_def by (elim conjE; simp)+

lemma Union_split: "(\<Union>q. set ((E::nat \<Rightarrow> nat list) q)) = set (E q) \<union> (\<Union>q' \<in> - {q}. set (E q'))"
  by (auto; metis)

text \<open>Only these parts of the state matter.\<close>

lemma events_ok_cong:
  "events_ok s E H \<Longrightarrow> es_queue s' = es_queue s \<Longrightarrow> es_event s' = es_event s \<Longrightarrow>
    es_efresh s' = es_efresh s \<Longrightarrow> events_ok s' E H"
  unfolding events_ok_def by simp

text \<open>Changing one queue's list.\<close>

lemma events_ok_set:
  assumes "events_ok s E H" and "es_queue s q = Some Q" and "holds xl_is l es"
    and "distinct es" and "set es \<inter> H' = {}" and "\<And>q'. q' \<noteq> q \<Longrightarrow> set (E q') \<inter> (set es \<union> H') = {}"
    and "dom m = H' \<union> set es \<union> (\<Union>q' \<in> - {q}. set (E q'))" and "\<forall>e \<in> dom m. e < n"
  shows "events_ok (s\<lparr>es_event := m, es_efresh := n, es_queue := (es_queue s)(q \<mapsto> Q\<lparr>eq_events := l\<rparr>)\<rparr>)
    (E(q := es)) H'"
proof -
  have "(\<Union>q'. set ((E(q := es)) q')) = set es \<union> (\<Union>q' \<in> - {q}. set (E q'))"
    using Union_split [of "E(q := es)" q] by simp
  moreover have "set ((E(q := es)) q') \<inter> set ((E(q := es)) q'') = {}" if "q' \<noteq> q''" for q' q''
    using that assms(6) [of q'] assms(6) [of q''] events_okD(3) [OF assms(1), of q' q''] by auto
  moreover have "H' \<inter> set ((E(q := es)) q') = {}" for q' using assms(5) assms(6) [of q'] by auto
  moreover have "case ((es_queue s)(q \<mapsto> Q\<lparr>eq_events := l\<rparr>)) q' of None \<Rightarrow> (E(q := es)) q' = []
      | Some Q \<Rightarrow> holds xl_is (eq_events Q) ((E(q := es)) q')" for q'
    using events_okD(6) [OF assms(1), of q'] assms(3) by (cases "q' = q") (simp_all cong: option.case_cong)
  moreover have "distinct ((E(q := es)) q')" for q' using assms(4) events_okD(1) [OF assms(1)] by simp
  ultimately show ?thesis using assms(7,8) unfolding events_ok_def
    by (simp only: evsys.simps evsys.select_convs simp_thms) (simp add: Un_assoc)
qed

text \<open>Appending a new event to a queue.\<close>

lemma push_ok:
  assumes "events_ok s E H" and "es_queue s q = Some Q"
  shows "\<exists>l. xine_list_append_content (Some (es_efresh s)) (eq_events Q) = Ret l \<and>
    events_ok (set_events q Q l (snd (malloc_event ev s))) (E(q := E q @ [es_efresh s])) H"
proof -
  have hq: "holds xl_is (eq_events Q) (E q)" by (rule events_ok_queue [OF assms])
  obtain l where l: "xine_list_append_content (Some (es_efresh s)) (eq_events Q) = Ret l"
    "holds xl_is l (E q @ [es_efresh s])" using xl.holds_append [OF hq] by blast
  note fr = events_ok_fresh [OF assms(1)]
  note D = events_okD [OF assms(1)] and U = Union_split [of E q]
  have "events_ok (s\<lparr>es_event := (es_event s)(es_efresh s \<mapsto> ev), es_efresh := es_efresh s + 1,
      es_queue := (es_queue s)(q \<mapsto> Q\<lparr>eq_events := l\<rparr>)\<rparr>) (E(q := E q @ [es_efresh s])) H"
  proof (rule events_ok_set [OF assms l(2)])
    show "set (E q') \<inter> (set (E q @ [es_efresh s]) \<union> H) = {}" if "q' \<noteq> q" for q'
      using D(3) [OF that] D(2) [of q'] fr [of q'] by auto
    show "dom ((es_event s)(es_efresh s \<mapsto> ev)) = H \<union> set (E q @ [es_efresh s]) \<union> (\<Union>q' \<in> - {q}. set (E q'))"
      using D(4) U by auto
    show "\<forall>e \<in> dom ((es_event s)(es_efresh s \<mapsto> ev)). e < es_efresh s + 1" using D(5) by (auto simp: less_Suc_eq)
  qed (use D(1,2) fr in auto)
  then show ?thesis using l(1) by (simp add: set_events_def malloc_event_def)
qed

text \<open>Taking the first event of a queue.\<close>

lemma take_events_ok:
  assumes "events_ok s E H" and "es_queue s q = Some Q" and "holds xl_is l (tl (E q))"
  shows "events_ok (set_events q Q l s) (E(q := tl (E q))) (H \<union> set (take 1 (E q)))"
proof -
  note D = events_okD [OF assms(1)] and U = Union_split [of E q]
  have S: "set (E q) = set (take 1 (E q)) \<union> set (tl (E q))" by (cases "E q") auto
  have "events_ok (s\<lparr>es_event := es_event s, es_efresh := es_efresh s,
      es_queue := (es_queue s)(q \<mapsto> Q\<lparr>eq_events := l\<rparr>)\<rparr>) (E(q := tl (E q))) (H \<union> set (take 1 (E q)))"
  proof (rule events_ok_set [OF assms])
    show "distinct (tl (E q))" using D(1) by (rule distinct_tl)
    show "set (tl (E q)) \<inter> (H \<union> set (take 1 (E q))) = {}"
      using D(1,2) [of q] by (cases "E q") auto
    show "set (E q') \<inter> (set (tl (E q)) \<union> (H \<union> set (take 1 (E q)))) = {}" if "q' \<noteq> q" for q'
      using D(3) [OF that] D(2) [of q'] S by auto
    show "dom (es_event s) = H \<union> set (take 1 (E q)) \<union> set (tl (E q)) \<union> (\<Union>q' \<in> - {q}. set (E q'))"
      using D(4) U S by auto
  qed (use D(5) in auto)
  then show ?thesis by (simp add: set_events_def)
qed

lemma get_ok:
  assumes "events_ok s E H" and "es_queue s q = Some Q"
  shows "\<exists>l. xine_event_get q s = Ret (case E q of [] \<Rightarrow> None | e # _ \<Rightarrow> Some e, set_events q Q l s) \<and>
    events_ok (set_events q Q l s) (E(q := tl (E q))) (H \<union> set (take 1 (E q)))"
proof -
  obtain l where "take_first xine_list_first_content xine_list_delete_current (eq_events Q) =
      Ret (case E q of [] \<Rightarrow> None | c # _ \<Rightarrow> Some c, l)" "holds xl_is l (tl (E q))"
    using xl.holds_take [OF events_ok_queue [OF assms]] by blast
  then show ?thesis using take_events_ok [OF assms] assms(2)
    by (auto simp: xine_event_get_def queue_at_def)
qed

lemma wait_get: "xine_event_wait q s =
    (case xine_event_get q s of Ret (None, _) \<Rightarrow> Wait | Ret (Some e, s') \<Rightarrow> Ret (e, s')
     | Wait \<Rightarrow> Wait | Fault \<Rightarrow> Fault | Spin \<Rightarrow> Spin)"
proof (cases "queue_at q s")
  case (Ret Q)
  show ?thesis
  proof (cases "xine_list_first_content (eq_events Q)")
    case R: (Ret r)
    obtain e l where r: "r = (e, l)" by (cases r)
    show ?thesis
    proof (cases e)
      case None
      then show ?thesis using Ret R r by (simp add: xine_event_wait_def xine_event_get_def take_first_def)
    next
      case (Some ev)
      then show ?thesis using Ret R r
        by (cases "xine_list_delete_current l") (simp_all add: xine_event_wait_def xine_event_get_def take_first_def)
    qed
  qed (use Ret in \<open>simp_all add: xine_event_wait_def xine_event_get_def take_first_def\<close>)
qed (simp_all add: xine_event_wait_def xine_event_get_def)

lemma wait_ok:
  assumes "events_ok s E H" and "es_queue s q = Some Q"
  shows "(E q = [] \<longrightarrow> xine_event_wait q s = Wait) \<and>
    (E q \<noteq> [] \<longrightarrow> (\<exists>l. xine_event_wait q s = Ret (hd (E q), set_events q Q l s) \<and>
       events_ok (set_events q Q l s) (E(q := tl (E q))) (insert (hd (E q)) H)))"
proof (cases "E q")
  case Nil
  then show ?thesis using get_ok [OF assms] by (auto simp: wait_get)
next
  case (Cons e es)
  then show ?thesis using get_ok [OF assms] by (auto simp: wait_get)
qed

lemma free_ok:
  assumes "events_ok s E H" and "e \<in> H"
  shows "xine_event_free e s = Ret (s\<lparr>es_event := (es_event s)(e := None)\<rparr>) \<and>
    events_ok (s\<lparr>es_event := (es_event s)(e := None)\<rparr>) E (H - {e})"
proof -
  obtain ev where "es_event s e = Some ev" using events_ok_alloc [OF assms(1)] assms(2) by blast
  then have "xine_event_free e s = Ret (s\<lparr>es_event := (es_event s)(e := None)\<rparr>)"
    by (simp add: xine_event_free_def event_at_def)
  moreover have "e \<notin> set (E q)" for q using events_okD(2) [OF assms(1)] assms(2) by blast
  ultimately show ?thesis using assms unfolding events_ok_def by auto
qed

section \<open>Sending\<close>

definition listeners :: "(nat \<rightharpoonup> event_queue) \<Rightarrow> nat \<rightharpoonup> nat option \<times> nat" where
  "listeners m = (\<lambda>q. map_option (\<lambda>Q. (eq_listener Q, eq_lost Q)) (m q))"

lemma listeners_dom: "listeners m' = listeners m \<Longrightarrow> dom m' = dom m"
proof -
  assume e: "listeners m' = listeners m"
  have "m' q = None \<longleftrightarrow> m q = None" for q
    using fun_cong [OF e, of q] by (cases "m q"; cases "m' q") (simp_all add: listeners_def)
  then show ?thesis by (auto simp: dom_def)
qed

lemma listeners_lost:
  assumes "listeners m' = listeners m" and "\<forall>Q \<in> ran m. eq_lost Q = 0"
  shows "\<forall>Q \<in> ran m'. eq_lost Q = 0"
proof
  fix Q assume "Q \<in> ran m'"
  then obtain q where "m' q = Some Q" by (auto simp: ran_def)
  then have "listeners m q = Some (eq_listener Q, eq_lost Q)" using fun_cong [OF assms(1), of q] by (simp add: listeners_def)
  then show "eq_lost Q = 0" using assms(2) by (auto simp: listeners_def ran_def)
qed

lemma listeners_upd [simp]:
  "m q = Some Q \<Longrightarrow> listeners (m(q \<mapsto> Q\<lparr>eq_events := l\<rparr>)) = listeners m"
  by (auto simp: listeners_def fun_eq_iff)

definition event_copy :: "xine_event \<Rightarrow> event_data option \<Rightarrow> int \<Rightarrow> xine_event" where
  "event_copy ev d tv =
     \<lparr>ev_type = ev_type ev, ev_data = d, ev_data_length = ev_data_length ev, ev_tv = tv\<rparr>"

lemma send_one_ok:
  assumes "events_ok s E H" and "es_queue s q = Some Q"
    and "copy_data (ev_data ev) (ev_data_length ev) = Ret d"
  shows "\<exists>l. send_one ev q s = Ret (set_events q Q l (snd (malloc_event (event_copy ev d (es_tv s)) s))) \<and>
    events_ok (set_events q Q l (snd (malloc_event (event_copy ev d (es_tv s)) s)))
      (E(q := E q @ [es_efresh s])) H"
  using push_ok [OF assms(1,2), of "event_copy ev d (es_tv s)"] assms(2,3)
  by (auto simp: send_one_def malloc_event_def event_copy_def queue_at_def)

lemma events_ok_old: "events_ok s E H \<Longrightarrow> e \<in> set (E q) \<Longrightarrow> es_event s e \<noteq> None \<and> e < es_efresh s"
proof -
  assume ok: "events_ok s E H" and "e \<in> set (E q)"
  then have "e \<in> dom (es_event s)" unfolding events_okD(4) [OF ok] by blast
  then show ?thesis using events_okD(5) [OF ok] by blast
qed

lemma events_ok_map_same:
  assumes "events_ok s E H" and "\<And>e. es_event s e \<noteq> None \<Longrightarrow> m e = es_event s e"
  shows "map m (E q) = map (es_event s) (E q)"
proof (rule map_cong [OF refl])
  fix e assume "e \<in> set (E q)"
  then have "es_event s e \<noteq> None" using events_ok_old [OF assms(1)] by blast
  then show "m e = es_event s e" by (rule assms(2))
qed

lemma send_all_ok:
  assumes "events_ok s E H" and "set qs \<subseteq> dom (es_queue s)" and "distinct qs"
    and "copy_data (ev_data ev) (ev_data_length ev) = Ret d"
  shows "\<exists>m n Qs E'. fold_all (send_one ev) qs s = Ret (s\<lparr>es_event := m, es_efresh := n, es_queue := Qs\<rparr>) \<and>
    events_ok (s\<lparr>es_event := m, es_efresh := n, es_queue := Qs\<rparr>) E' H \<and>
    listeners Qs = listeners (es_queue s) \<and>
    (\<forall>q. map m (E' q) = map (es_event s) (E q) @ (if q \<in> set qs then [Some (event_copy ev d (es_tv s))] else [])) \<and>
    (\<forall>e. es_event s e \<noteq> None \<longrightarrow> m e = es_event s e)"
  using assms(1-3)
proof (induction qs arbitrary: s E)
  case Nil
  then show ?case
    by (intro exI [of _ "es_event s"] exI [of _ "es_efresh s"] exI [of _ "es_queue s"] exI [of _ E]) simp
next
  case (Cons q qs)
  then obtain Q where Q: "es_queue s q = Some Q" by auto
  let ?c = "event_copy ev d (es_tv s)"
  obtain l where l: "send_one ev q s = Ret (set_events q Q l (snd (malloc_event ?c s)))"
    "events_ok (set_events q Q l (snd (malloc_event ?c s))) (E(q := E q @ [es_efresh s])) H"
    using send_one_ok [OF Cons.prems(1) Q assms(4)] by blast
  define s1 where "s1 = set_events q Q l (snd (malloc_event ?c s))"
  have s1: "s1 = s\<lparr>es_event := (es_event s)(es_efresh s \<mapsto> ?c), es_efresh := es_efresh s + 1,
      es_queue := (es_queue s)(q \<mapsto> Q\<lparr>eq_events := l\<rparr>)\<rparr>"
    by (simp add: s1_def set_events_def malloc_event_def)
  have ls: "listeners (es_queue s1) = listeners (es_queue s)" using Q by (simp add: s1)
  have sub: "set qs \<subseteq> dom (es_queue s1)" using Cons.prems(2) listeners_dom [OF ls] by simp
  have dq: "distinct qs" using Cons.prems(3) by simp
  from Cons.IH [OF l(2) [folded s1_def] sub dq] obtain m n Qs E' where
    r: "fold_all (send_one ev) qs s1 = Ret (s1\<lparr>es_event := m, es_efresh := n, es_queue := Qs\<rparr>)"
    "events_ok (s1\<lparr>es_event := m, es_efresh := n, es_queue := Qs\<rparr>) E' H"
    "listeners Qs = listeners (es_queue s1)"
    "\<And>q'. map m (E' q') = map (es_event s1) ((E(q := E q @ [es_efresh s])) q') @
       (if q' \<in> set qs then [Some (event_copy ev d (es_tv s1))] else [])"
    "\<And>e. es_event s1 e \<noteq> None \<Longrightarrow> m e = es_event s1 e" by blast
  have eq: "s1\<lparr>es_event := m, es_efresh := n, es_queue := Qs\<rparr> = s\<lparr>es_event := m, es_efresh := n, es_queue := Qs\<rparr>"
    by (simp add: s1)
  have keep: "es_event s1 e = es_event s e" if "es_event s e \<noteq> None" for e
    using that events_okD(5) [OF Cons.prems(1)] by (auto simp: s1)
  have "map m (E' q') = map (es_event s) (E q') @ (if q' \<in> set (q # qs) then [Some ?c] else [])" for q'
    unfolding r(4) using Cons.prems(3) events_ok_map_same [OF Cons.prems(1) keep, of q']
    by (auto simp: s1)
  moreover have "m e = es_event s e" if "es_event s e \<noteq> None" for e
    using that keep [OF that] r(5) [of e] by simp
  ultimately show ?case using l(1) r(1-3) ls unfolding eq s1_def [symmetric]
    by (intro exI [of _ m] exI [of _ n] exI [of _ Qs] exI [of _ E']) simp
qed

section \<open>Draining and listening\<close>

lemma drain_ok:
  "events_ok s E H \<Longrightarrow> es_queue s q \<noteq> None \<Longrightarrow> length (E q) < k \<Longrightarrow>
    \<exists>m Qs. drain_loop k q s = Ret (s\<lparr>es_event := m, es_queue := Qs\<rparr>) \<and>
      events_ok (s\<lparr>es_event := m, es_queue := Qs\<rparr>) (E(q := [])) H \<and>
      listeners Qs = listeners (es_queue s) \<and> (\<forall>e. e \<notin> set (E q) \<longrightarrow> m e = es_event s e)"
proof (induction k arbitrary: s E)
  case 0
  then show ?case by simp
next
  case (Suc k)
  obtain Q where Q: "es_queue s q = Some Q" using Suc.prems(2) by blast
  obtain l where l: "xine_event_get q s = Ret (case E q of [] \<Rightarrow> None | e # _ \<Rightarrow> Some e, set_events q Q l s)"
    "events_ok (set_events q Q l s) (E(q := tl (E q))) (H \<union> set (take 1 (E q)))"
    using get_ok [OF Suc.prems(1) Q] by blast
  have ls: "listeners ((es_queue s)(q \<mapsto> Q\<lparr>eq_events := l\<rparr>)) = listeners (es_queue s)" using Q by simp
  show ?case
  proof (cases "E q")
    case Nil
    then have "drain_loop (Suc k) q s = Ret (s\<lparr>es_event := es_event s, es_queue := (es_queue s)(q \<mapsto> Q\<lparr>eq_events := l\<rparr>)\<rparr>)"
      using l(1) by (simp add: set_events_def)
    moreover have "events_ok (s\<lparr>es_event := es_event s, es_queue := (es_queue s)(q \<mapsto> Q\<lparr>eq_events := l\<rparr>)\<rparr>) (E(q := [])) H"
      using l(2) Nil by (simp add: set_events_def)
    ultimately show ?thesis using ls by blast
  next
    case (Cons e es)
    let ?s1 = "set_events q Q l s"
    define s2 where "s2 = ?s1\<lparr>es_event := (es_event ?s1)(e := None)\<rparr>"
    have "e \<notin> H" using events_okD(2) [OF Suc.prems(1), of q] Cons by simp
    then have H: "insert e H - {e} = H" by simp
    have ok: "events_ok ?s1 (E(q := es)) (insert e H)" using l(2) Cons by simp
    from free_ok [OF ok, of e] have f: "xine_event_free e ?s1 = Ret s2" "events_ok s2 (E(q := es)) H"
      by (simp_all add: s2_def H)
    have q2: "es_queue s2 q \<noteq> None" by (simp add: s2_def set_events_def)
    have len: "length ((E(q := es)) q) < k" using Suc.prems(3) Cons by simp
    from Suc.IH [OF f(2) q2 len, unfolded fun_upd_same] obtain m Qs where r: "drain_loop k q s2 = Ret (s2\<lparr>es_event := m, es_queue := Qs\<rparr>)"
      "events_ok (s2\<lparr>es_event := m, es_queue := Qs\<rparr>) ((E(q := es))(q := [])) H"
      "listeners Qs = listeners (es_queue s2)" "\<forall>e'. e' \<notin> set es \<longrightarrow> m e' = es_event s2 e'" by (elim exE conjE)
    have eq: "s2\<lparr>es_event := m, es_queue := Qs\<rparr> = s\<lparr>es_event := m, es_queue := Qs\<rparr>"
      by (simp add: s2_def set_events_def)
    have "drain_loop (Suc k) q s = Ret (s\<lparr>es_event := m, es_queue := Qs\<rparr>)"
      using l(1) Cons f(1) r(1) eq by simp
    moreover have "listeners Qs = listeners (es_queue s)" using r(3) ls by (simp add: s2_def set_events_def)
    moreover have "m e' = es_event s e'" if "e' \<notin> set (E q)" for e'
      using r(4) that Cons by (simp add: s2_def set_events_def)
    ultimately show ?thesis using r(2) unfolding eq fun_upd_upd by blast
  qed
qed

text \<open>The events a listener hands to its callback: those before the first quit event.\<close>

definition not_quit :: "(nat \<rightharpoonup> xine_event) \<Rightarrow> nat \<Rightarrow> bool" where
  "not_quit m e \<longleftrightarrow> (case m e of None \<Rightarrow> False | Some ev \<Rightarrow> ev_type ev \<noteq> XINE_EVENT_QUIT)"

definition call_all :: "'w ev_cb \<Rightarrow> nat \<Rightarrow> xine_event list \<Rightarrow> 'w \<Rightarrow> 'w" where
  "call_all cb ud evs w = fold (cb ud) evs w"

lemma listener_ok:
  "events_ok s E H \<Longrightarrow> es_queue s q \<noteq> None \<Longrightarrow> length (E q) \<le> k \<Longrightarrow>
    dropWhile (not_quit (es_event s)) (E q) \<noteq> [] \<Longrightarrow>
    \<exists>m Qs. listener_loop k cb ud q s = Ret (s\<lparr>es_event := m, es_queue := Qs,
        es_world := call_all cb ud (map (the \<circ> es_event s) (takeWhile (not_quit (es_event s)) (E q))) (es_world s)\<rparr>) \<and>
      events_ok (s\<lparr>es_event := m, es_queue := Qs\<rparr>) (E(q := tl (dropWhile (not_quit (es_event s)) (E q)))) H \<and>
      listeners Qs = listeners (es_queue s) \<and> (\<forall>e. e \<notin> set (E q) \<longrightarrow> m e = es_event s e)"
proof (induction k arbitrary: s E)
  case 0
  then show ?case by simp
next
  case (Suc k)
  obtain Q where Q: "es_queue s q = Some Q" using Suc.prems(2) by blast
  obtain e es where E: "E q = e # es" using Suc.prems(4) by (cases "E q") auto
  obtain ev where ev: "es_event s e = Some ev" using events_ok_alloc [OF Suc.prems(1), of e q] E by auto
  obtain l where l: "xine_event_wait q s = Ret (e, set_events q Q l s)"
    "events_ok (set_events q Q l s) (E(q := es)) (insert e H)"
    using wait_ok [OF Suc.prems(1) Q] E by auto
  have ls: "listeners ((es_queue s)(q \<mapsto> Q\<lparr>eq_events := l\<rparr>)) = listeners (es_queue s)" using Q by simp
  have "e \<notin> H" using events_okD(2) [OF Suc.prems(1), of q] E by simp
  then have H: "insert e H - {e} = H" by simp
  have dist: "e \<notin> set es" using events_okD(1) [OF Suc.prems(1), of q] E by simp
  show ?case
  proof (cases "ev_type ev = XINE_EVENT_QUIT")
    case True
    let ?s1 = "set_events q Q l s"
    have "xine_event_free e ?s1 = Ret (s\<lparr>es_event := (es_event s)(e := None), es_queue := (es_queue s)(q \<mapsto> Q\<lparr>eq_events := l\<rparr>),
        es_world := es_world s\<rparr>)"
      "events_ok (s\<lparr>es_event := (es_event s)(e := None), es_queue := (es_queue s)(q \<mapsto> Q\<lparr>eq_events := l\<rparr>)\<rparr>) (E(q := es)) H"
      using free_ok [OF l(2), of e] by (simp add: H set_events_def)
        (rule events_ok_cong [OF conjunct2 [OF free_ok [OF l(2), of e, unfolded H]]], simp_all add: set_events_def)
    moreover have "not_quit (es_event s) e = False" using ev True by (simp add: not_quit_def)
    moreover have "listener_loop (Suc k) cb ud q s = xine_event_free e ?s1"
      using l(1) ev True by (simp add: event_at_def set_events_def)
    ultimately show ?thesis using E ls
      by (intro exI [of _ "(es_event s)(e := None)"] exI [of _ "(es_queue s)(q \<mapsto> Q\<lparr>eq_events := l\<rparr>)"])
        (simp add: call_all_def fun_upd_other del: fun_upd_apply listener_loop.simps)
  next
    case False
    let ?w = "cb ud ev (es_world s)"
    let ?s1 = "(set_events q Q l s)\<lparr>es_world := ?w\<rparr>"
    define s2 where "s2 = ?s1\<lparr>es_event := (es_event ?s1)(e := None)\<rparr>"
    have "events_ok ?s1 (E(q := es)) (insert e H)"
      by (rule events_ok_cong [OF l(2)]) simp_all
    from free_ok [OF this, of e] have f: "xine_event_free e ?s1 = Ret s2" "events_ok s2 (E(q := es)) H"
      by (simp_all add: s2_def H)
    have nq: "not_quit (es_event s) e" using ev False by (simp add: not_quit_def)
    have same: "es_event s2 x = es_event s x" if "x \<in> set es" for x
      using that dist by (auto simp: s2_def set_events_def)
    then have nqs: "takeWhile (not_quit (es_event s2)) es = takeWhile (not_quit (es_event s)) es"
      "dropWhile (not_quit (es_event s2)) es = dropWhile (not_quit (es_event s)) es"
      by (auto intro!: takeWhile_cong dropWhile_cong simp: not_quit_def)
    have maps: "map (the \<circ> es_event s2) (takeWhile (not_quit (es_event s)) es) =
        map (the \<circ> es_event s) (takeWhile (not_quit (es_event s)) es)"
      using same by (auto dest: set_takeWhileD)
    have q2: "es_queue s2 q \<noteq> None" by (simp add: s2_def set_events_def)
    have len: "length ((E(q := es)) q) \<le> k" using Suc.prems(3) E by simp
    have dw: "dropWhile (not_quit (es_event s2)) ((E(q := es)) q) \<noteq> []"
      using Suc.prems(4) E nq nqs by simp
    from Suc.IH [OF f(2) q2 len dw, unfolded fun_upd_same nqs maps] obtain m Qs where
      r: "listener_loop k cb ud q s2 = Ret (s2\<lparr>es_event := m, es_queue := Qs,
        es_world := call_all cb ud (map (the \<circ> es_event s) (takeWhile (not_quit (es_event s)) es)) (es_world s2)\<rparr>)"
      "events_ok (s2\<lparr>es_event := m, es_queue := Qs\<rparr>) ((E(q := es))(q := tl (dropWhile (not_quit (es_event s)) es))) H"
      "listeners Qs = listeners (es_queue s2)" "\<forall>e'. e' \<notin> set es \<longrightarrow> m e' = es_event s2 e'"
      by (elim exE conjE)
    have w2: "es_world s2 = ?w" by (simp add: s2_def)
    have "listener_loop (Suc k) cb ud q s = listener_loop k cb ud q s2"
      using l(1) ev False f(1) by (simp add: event_at_def set_events_def)
    moreover have "s2\<lparr>es_event := m, es_queue := Qs, es_world := w\<rparr> = s\<lparr>es_event := m, es_queue := Qs, es_world := w\<rparr>" for w
      by (simp add: s2_def set_events_def)
    moreover have "events_ok (s\<lparr>es_event := m, es_queue := Qs\<rparr>) (E(q := tl (dropWhile (not_quit (es_event s)) es))) H"
      using r(2) unfolding fun_upd_upd by (rule events_ok_cong) (simp_all add: s2_def set_events_def)
    moreover have "listeners Qs = listeners (es_queue s)" using r(3) ls by (simp add: s2_def set_events_def)
    moreover have "m e' = es_event s e'" if "e' \<notin> set (E q)" for e'
      using r(4) that E by (simp add: s2_def set_events_def)
    ultimately show ?thesis using r(1) E nq ev
      by (intro exI [of _ m] exI [of _ Qs]) (simp add: call_all_def w2 comp_def del: fun_upd_apply listener_loop.simps)
  qed
qed

section \<open>The operations on queues\<close>

lemma queues_ok_cong:
  "queues_ok s QS \<Longrightarrow> es_queues s' = es_queues s \<Longrightarrow> listeners (es_queue s') = listeners (es_queue s) \<Longrightarrow>
    es_qfresh s' = es_qfresh s \<Longrightarrow> queues_ok s' QS"
  using listeners_dom [of "es_queue s'" "es_queue s"] listeners_lost [of "es_queue s'" "es_queue s"] by (simp add: queues_ok_def)

text \<open>A queue without a listener.\<close>

definition idle :: "'w evsys \<Rightarrow> nat \<Rightarrow> bool" where
  "idle s q \<longleftrightarrow> (\<exists>Q. es_queue s q = Some Q \<and> eq_listener Q = None)"

lemma send_ok:
  assumes "queues_ok s QS" and "events_ok s E H" and "length QS < k"
    and "copy_data (ev_data ev) (ev_data_length ev) = Ret d"
  shows "\<exists>m n Qs l E'. let s' = s\<lparr>es_event := m, es_efresh := n, es_queue := Qs, es_queues := l\<rparr> in
    xine_event_send k ev s = Ret s' \<and> queues_ok s' QS \<and> events_ok s' E' H \<and>
    listeners Qs = listeners (es_queue s) \<and>
    (\<forall>q. map m (E' q) = map (es_event s) (E q) @ (if q \<in> set QS then [Some (event_copy ev d (es_tv s))] else [])) \<and>
    (\<forall>e. es_event s e \<noteq> None \<longrightarrow> m e = es_event s e)"
proof -
  have Q: "holds xl_is (es_queues s) QS" "distinct QS" "set QS \<subseteq> dom (es_queue s)"
    using assms(1) by (simp_all add: queues_ok_def)
  from send_all_ok [OF assms(2) Q(3,2) assms(4)] obtain m n Qs E' where
    r: "fold_all (send_one ev) QS s = Ret (s\<lparr>es_event := m, es_efresh := n, es_queue := Qs\<rparr>)"
    "events_ok (s\<lparr>es_event := m, es_efresh := n, es_queue := Qs\<rparr>) E' H"
    "listeners Qs = listeners (es_queue s)"
    "\<forall>q. map m (E' q) = map (es_event s) (E q) @ (if q \<in> set QS then [Some (event_copy ev d (es_tv s))] else [])"
    "\<forall>e. es_event s e \<noteq> None \<longrightarrow> m e = es_event s e" by (elim exE conjE)
  from xl.holds_visit [OF Q(1) assms(3) r(1)] obtain l where
    l: "visit_all xine_list_first_content xine_list_next_content (send_one ev) k (es_queues s) s =
      Ret (s\<lparr>es_event := m, es_efresh := n, es_queue := Qs\<rparr>, l)" "holds xl_is l QS" by blast
  let ?s' = "s\<lparr>es_event := m, es_efresh := n, es_queue := Qs, es_queues := l\<rparr>"
  have "xine_event_send k ev s = Ret ?s'" using l(1) by (simp add: xine_event_send_def)
  moreover have "queues_ok ?s' QS"
    using assms(1) l(2) listeners_dom [OF r(3)] listeners_lost [OF r(3)] by (simp add: queues_ok_def)
  moreover have "events_ok ?s' E' H" using r(2) by (rule events_ok_cong) simp_all
  ultimately show ?thesis using r(3-5) unfolding Let_def by blast
qed

lemma new_queue_ok:
  assumes "queues_ok s QS" and "events_ok s E H"
  shows "\<exists>s'. xine_event_new_queue s = Ret (es_qfresh s, s') \<and> queues_ok s' (QS @ [es_qfresh s]) \<and>
    idle s' (es_qfresh s) \<and> events_ok s' E H \<and> dom (es_queue s') = insert (es_qfresh s) (dom (es_queue s)) \<and>
    es_event s' = es_event s \<and> es_qfresh s \<notin> dom (es_queue s)"
proof -
  let ?q = "es_qfresh s"
  let ?qs = "(es_queue s)(?q \<mapsto> \<lparr>eq_events = xine_list_new, eq_listener = None, eq_lost = 0\<rparr>)"
  have Q: "holds xl_is (es_queues s) QS" "distinct QS" "set QS \<subseteq> dom (es_queue s)"
    "\<forall>q \<in> dom (es_queue s). q < ?q" using assms(1) by (simp_all add: queues_ok_def)
  obtain l where l: "xine_list_append_content (Some ?q) (es_queues s) = Ret l" "holds xl_is l (QS @ [?q])"
    using xl.holds_append [OF Q(1)] by blast
  have fr: "?q \<notin> dom (es_queue s)" using Q(4) by blast
  have Eq: "E ?q = []" using events_okD(6) [OF assms(2), of ?q] fr by (auto split: option.splits)
  have new: "holds xl_is xine_list_new []"
    by (rule holdsI [of xl_is, OF list_new_ok]) (simp_all add: solid_def contents_def cl_all_def)
  let ?s' = "s\<lparr>es_queue := ?qs, es_qfresh := ?q + 1, es_queues := l\<rparr>"
  have "xine_event_new_queue s = Ret (?q, ?s')"
    using l(1) by (simp add: xine_event_new_queue_def Let_def)
  moreover have "queues_ok ?s' (QS @ [?q])"
    using l(2) Q(2-4) fr assms(1) by (auto simp: queues_ok_def less_Suc_eq ran_def)
  moreover have "idle ?s' ?q" by (simp add: idle_def)
  moreover have "case ?qs q of None \<Rightarrow> E q = [] | Some Q \<Rightarrow> holds xl_is (eq_events Q) (E q)" for q
    using events_okD(6) [OF assms(2), of q] new Eq by (cases "q = ?q") (simp_all cong: option.case_cong)
  then have "events_ok ?s' E H" using assms(2) unfolding events_ok_def by simp
  ultimately show ?thesis using fr by auto
qed

text \<open>What the listener of a queue still reads of its events before the quit event that
  disposing appends.\<close>

definition heard :: "(nat \<rightharpoonup> xine_event) \<Rightarrow> nat list \<Rightarrow> xine_event list" where
  "heard m es = map (the \<circ> m) (takeWhile (not_quit m) es)"

lemma dispose_ok:
  assumes "queues_ok s QS" and "events_ok s E H" and "q \<in> set QS" and "length QS < k"
    and "length (E q) + 1 < k"
  shows "\<exists>s'. xine_event_dispose_queue k cb q s = Ret s' \<and> queues_ok s' (remove1 q QS) \<and>
    events_ok s' (E(q := [])) H \<and> dom (es_queue s') = dom (es_queue s) - {q} \<and>
    (\<forall>q'. \<forall>e \<in> set (E q'). q' \<noteq> q \<longrightarrow> es_event s' e = es_event s e) \<and>
    (\<forall>e \<in> H. es_event s' e = es_event s e) \<and>
    es_world s' = (case es_queue s q of None \<Rightarrow> es_world s | Some Q \<Rightarrow>
      (case eq_listener Q of None \<Rightarrow> es_world s
       | Some ud \<Rightarrow> call_all cb ud (heard (es_event s) (E q)) (es_world s)))"
proof -
  have QS: "holds xl_is (es_queues s) QS" "distinct QS" "set QS \<subseteq> dom (es_queue s)"
    "\<forall>q \<in> dom (es_queue s). q < es_qfresh s" using assms(1) by (simp_all add: queues_ok_def)
  obtain Q where Q: "es_queue s q = Some Q" using QS(3) assms(3) by blast
  from xl.holds_search_delete [OF QS(1) assms(4), of "\<lambda>x. x = q"] assms(3) obtain l0 l1 where
    l: "search xine_list_first_content xine_list_next_content (\<lambda>x. x = q) k (es_queues s) = Ret (Some q, l0)"
      "xine_list_delete_current l0 = Ret l1" "holds xl_is l1 (remove1 q QS)"
    by (auto simp: find_eq remove1_split)
  let ?qe = "\<lparr>ev_type = XINE_EVENT_QUIT, ev_data = None, ev_data_length = 0, ev_tv = 0\<rparr>"
  let ?e = "es_efresh s"
  let ?s0 = "s\<lparr>es_queues := l1\<rparr>"
  have ok0: "events_ok ?s0 E H" by (rule events_ok_cong [OF assms(2)]) simp_all
  from push_ok [OF ok0, of q Q ?qe] Q obtain l2 where
    l2: "xine_list_append_content (Some ?e) (eq_events Q) = Ret l2"
    "events_ok (set_events q Q l2 (snd (malloc_event ?qe ?s0))) (E(q := E q @ [?e])) H" by auto
  define s2 where "s2 = set_events q Q l2 (snd (malloc_event ?qe ?s0))"
  let ?E2 = "E(q := E q @ [?e])"
  have s2: "es_event s2 = (es_event s)(?e \<mapsto> ?qe)" "es_world s2 = es_world s" "es_queues s2 = l1"
    "es_qfresh s2 = es_qfresh s" "es_queue s2 = (es_queue s)(q \<mapsto> Q\<lparr>eq_events := l2\<rparr>)"
    by (simp_all add: s2_def set_events_def malloc_event_def)
  have ls2: "listeners (es_queue s2) = listeners (es_queue s)" using Q by (simp add: s2(5))
  have ok2: "events_ok s2 ?E2 H" using l2(2) by (simp add: s2_def)
  have old: "es_event s2 e = es_event s e" if "e \<in> H \<union> set (E q')" for e q'
    using that events_ok_fresh [OF assms(2)] by (auto simp: s2(1))
  have hd: "takeWhile (not_quit (es_event s2)) (E q @ [?e]) = takeWhile (not_quit (es_event s)) (E q)"
    "dropWhile (not_quit (es_event s2)) (E q @ [?e]) \<noteq> []"
    "length (tl (dropWhile (not_quit (es_event s2)) (E q @ [?e]))) \<le> length (E q)"
  proof -
    have nq: "\<not> not_quit (es_event s2) ?e" by (simp add: not_quit_def s2(1))
    have same: "not_quit (es_event s2) x = not_quit (es_event s) x" if "x \<in> set (E q)" for x
      using old [of x q] that by (simp add: not_quit_def)
    have "takeWhile (not_quit (es_event s2)) (E q) = takeWhile (not_quit (es_event s)) (E q)"
      by (rule takeWhile_cong) (simp_all add: same)
    then show "takeWhile (not_quit (es_event s2)) (E q @ [?e]) = takeWhile (not_quit (es_event s)) (E q)"
      using nq by (simp add: takeWhile_tail)
    show "dropWhile (not_quit (es_event s2)) (E q @ [?e]) \<noteq> []" using nq by simp
    show "length (tl (dropWhile (not_quit (es_event s2)) (E q @ [?e]))) \<le> length (E q)"
      using length_dropWhile_le [of "not_quit (es_event s2)" "E q @ [?e]"] by simp
  qed
  have q2: "es_queue s2 q \<noteq> None" by (simp add: s2(5))
  \<comment> \<open>the listener, if any\<close>
  define lis where "lis = (case eq_listener Q of None \<Rightarrow> Ret s2 | Some ud \<Rightarrow> listener_loop k cb ud q s2)"
  define w where "w = (case eq_listener Q of None \<Rightarrow> es_world s
       | Some ud \<Rightarrow> call_all cb ud (heard (es_event s) (E q)) (es_world s))"
  have "\<exists>m Qs es. lis = Ret (s2\<lparr>es_event := m, es_queue := Qs, es_world := w\<rparr>) \<and>
      events_ok (s2\<lparr>es_event := m, es_queue := Qs\<rparr>) (E(q := es)) H \<and> length es < k \<and>
      set es \<subseteq> set (E q @ [?e]) \<and>
      listeners Qs = listeners (es_queue s) \<and> (\<forall>e. e \<notin> set (E q @ [?e]) \<longrightarrow> m e = es_event s2 e)"
  proof (cases "eq_listener Q")
    case None
    then have "lis = Ret (s2\<lparr>es_event := es_event s2, es_queue := es_queue s2, es_world := w\<rparr>)"
      by (simp add: lis_def w_def s2(2) [symmetric])
    then show ?thesis using ok2 ls2 assms(5)
      by (intro exI [of _ "es_event s2"] exI [of _ "es_queue s2"] exI [of _ "E q @ [?e]"]) simp
  next
    case (Some ud)
    have len: "length (?E2 q) \<le> k" using assms(5) by simp
    have dw: "dropWhile (not_quit (es_event s2)) (?E2 q) \<noteq> []" using hd(2) by simp
    from listener_ok [OF ok2 q2 len dw, of cb ud, unfolded fun_upd_same fun_upd_upd hd(1)] obtain m Qs where
      r: "listener_loop k cb ud q s2 = Ret (s2\<lparr>es_event := m, es_queue := Qs,
        es_world := call_all cb ud (map (the \<circ> es_event s2) (takeWhile (not_quit (es_event s)) (E q))) (es_world s2)\<rparr>)"
      "events_ok (s2\<lparr>es_event := m, es_queue := Qs\<rparr>)
        (E(q := tl (dropWhile (not_quit (es_event s2)) (E q @ [?e])))) H"
      "listeners Qs = listeners (es_queue s2)" "\<forall>e. e \<notin> set (E q @ [?e]) \<longrightarrow> m e = es_event s2 e"
      by (elim exE conjE)
    have "map (the \<circ> es_event s2) (takeWhile (not_quit (es_event s)) (E q)) = heard (es_event s) (E q)"
      unfolding heard_def using old [of _ q] by (auto dest: set_takeWhileD)
    then have "lis = Ret (s2\<lparr>es_event := m, es_queue := Qs, es_world := w\<rparr>)"
      using r(1) Some by (simp add: lis_def w_def s2(2))
    moreover have "set (tl (dropWhile (not_quit (es_event s2)) (E q @ [?e]))) \<subseteq> set (E q @ [?e])"
      by (rule subsetI) (drule list.set_sel(2) [OF hd(2)], drule set_dropWhileD, blast)
    moreover have "length (tl (dropWhile (not_quit (es_event s2)) (E q @ [?e]))) < k"
      using hd(3) assms(5) by linarith
    ultimately show ?thesis using r(2,4) r(3) [unfolded ls2]
      by (intro exI [of _ m] exI [of _ Qs] exI [of _ "tl (dropWhile (not_quit (es_event s2)) (E q @ [?e]))"] conjI)
  qed
  then obtain m Qs es where r: "lis = Ret (s2\<lparr>es_event := m, es_queue := Qs, es_world := w\<rparr>)"
    "events_ok (s2\<lparr>es_event := m, es_queue := Qs\<rparr>) (E(q := es)) H" "length es < k" "set es \<subseteq> set (E q @ [?e])"
    "listeners Qs = listeners (es_queue s)" "\<forall>e. e \<notin> set (E q @ [?e]) \<longrightarrow> m e = es_event s2 e"
    by (elim exE conjE)
  define s3 where "s3 = s2\<lparr>es_event := m, es_queue := Qs, es_world := w\<rparr>"
  have ok3: "events_ok s3 (E(q := es)) H" unfolding s3_def by (rule events_ok_cong [OF r(2)]) simp_all
  have "es_queue s3 q \<noteq> None" using listeners_dom [OF r(5)] Q by (auto simp: s3_def)
  from drain_ok [OF ok3 this, of k, unfolded fun_upd_same fun_upd_upd, OF r(3)] obtain m4 Qs4 where
    d: "drain_loop k q s3 = Ret (s3\<lparr>es_event := m4, es_queue := Qs4\<rparr>)"
    "events_ok (s3\<lparr>es_event := m4, es_queue := Qs4\<rparr>) (E(q := [])) H"
    "listeners Qs4 = listeners (es_queue s3)" "\<forall>e. e \<notin> set es \<longrightarrow> m4 e = es_event s3 e"
    by (elim exE conjE)
  let ?s' = "s3\<lparr>es_event := m4, es_queue := Qs4(q := None)\<rparr>"
  define s1 where "s1 = snd (malloc_event ?qe ?s0)"
  have m1: "malloc_event ?qe ?s0 = (?e, s1)" "queue_at q s1 = Ret Q" "set_events q Q l2 s1 = s2"
    using Q by (simp_all add: s1_def s2_def malloc_event_def queue_at_def)
  have "eq_lost Q = 0" using assms(1) Q by (auto simp: queues_ok_def ran_def)
  then have "xine_event_dispose_queue k cb q s =
      obind lis (\<lambda>s2. obind (drain_loop k q s2) (\<lambda>s3. Ret (s3\<lparr>es_queue := (es_queue s3)(q := None)\<rparr>)))"
    using l(1,2) l2(1) by (simp add: xine_event_dispose_queue_def m1 lis_def cong: option.case_cong)
  then have run: "xine_event_dispose_queue k cb q s = Ret ?s'"
    using r(1) d(1) by (simp add: s3_def)
  have "\<forall>Q \<in> ran (es_queue s). eq_lost Q = 0" using assms(1) by (simp add: queues_ok_def)
  then have lost4: "\<forall>Q \<in> ran Qs4. eq_lost Q = 0"
    using listeners_lost [OF d(3)] listeners_lost [OF r(5)] by (simp add: s3_def)
  have dom4: "dom Qs4 = dom (es_queue s)" using listeners_dom [OF d(3)] listeners_dom [OF r(5)] by (simp add: s3_def)
  have "queues_ok ?s' (remove1 q QS)"
    unfolding queues_ok_def using l(3) QS(2-4) dom4 lost4 by (auto simp: s3_def s2(3,4) set_remove1_eq ran_def)
  moreover have "case (Qs4(q := None)) q' of None \<Rightarrow> (E(q := [])) q' = [] | Some Q \<Rightarrow> holds xl_is (eq_events Q) ((E(q := [])) q')" for q'
    using events_okD(6) [OF d(2), of q'] by (cases "q' = q") (simp_all cong: option.case_cong)
  then have "events_ok ?s' (E(q := [])) H" using d(2) unfolding events_ok_def by simp
  moreover have keep: "m4 e = es_event s e" if "e \<notin> set (E q)" "e \<in> H \<union> set (E q')" for e q'
  proof -
    have "e \<noteq> ?e" using that(2) events_ok_fresh [OF assms(2)] by auto
    then have "e \<notin> set (E q @ [?e])" using that(1) by simp
    then show ?thesis using d(4) r(4,6) old [OF that(2)] by (auto simp: s3_def)
  qed
  have "\<forall>e \<in> H. m4 e = es_event s e" using keep events_okD(2) [OF assms(2), of q] by blast
  moreover have "\<forall>q'. \<forall>e \<in> set (E q'). q' \<noteq> q \<longrightarrow> m4 e = es_event s e"
    using keep events_okD(3) [OF assms(2)] by (metis UnCI disjoint_iff)
  ultimately show ?thesis using run dom4 Q by (intro exI [of _ ?s']) (auto simp: s3_def w_def)
qed

section \<open>Reading the state\<close>

definition queue_ids :: "'w evsys \<Rightarrow> nat list" where
  "queue_ids s = contents (xl_abs (es_queues s))"

definition event_ids :: "'w evsys \<Rightarrow> nat \<Rightarrow> nat list" where
  "event_ids s q = (case es_queue s q of None \<Rightarrow> [] | Some Q \<Rightarrow> contents (xl_abs (eq_events Q)))"

definition pending :: "'w evsys \<Rightarrow> nat \<Rightarrow> xine_event list" where
  "pending s q = map (the \<circ> es_event s) (event_ids s q)"

lemma holds_contents: "holds xl_is l cs \<Longrightarrow> contents (xl_abs l) = cs"
  by (auto simp: holds_def xl_is_def)

definition ev_inv :: "'w evsys \<Rightarrow> nat set \<Rightarrow> bool" where
  "ev_inv s H \<longleftrightarrow> queues_ok s (queue_ids s) \<and> set (queue_ids s) = dom (es_queue s) \<and>
     events_ok s (event_ids s) H"

lemma event_ids_ok: "events_ok s E H \<Longrightarrow> event_ids s = E"
proof (rule ext)
  fix q
  assume "events_ok s E H"
  from events_okD(6) [OF this, of q] show "event_ids s q = E q"
    by (auto simp: event_ids_def holds_contents split: option.splits)
qed

lemma ev_invI:
  assumes "queues_ok s QS" and "set QS = dom (es_queue s)" and "events_ok s E H"
  shows "ev_inv s H" and "queue_ids s = QS" and "event_ids s = E"
proof -
  show q: "queue_ids s = QS" using assms(1) by (simp add: queues_ok_def queue_ids_def holds_contents)
  show e: "event_ids s = E" by (rule event_ids_ok [OF assms(3)])
  show "ev_inv s H" using assms by (simp add: ev_inv_def q e)
qed

lemma ev_invD:
  assumes "ev_inv s H"
  shows "queues_ok s (queue_ids s)" and "set (queue_ids s) = dom (es_queue s)"
    and "events_ok s (event_ids s) H"
  using assms by (simp_all add: ev_inv_def)

section \<open>Clients of the event queues\<close>

text \<open>
  The second component of the state is the set of events the clients have taken and not yet
  freed. A client frees only events it has, uses only queues that exist, and starts a listener
  only on a queue that has none; the fuel of the
  loops is above the number of queues and events. \<open>ev_other\<close> is whatever happens to the
  cue points, the clocks and the listeners' world.
\<close>

definition enough :: "nat \<Rightarrow> 'w evsys \<Rightarrow> bool" where
  "enough k s \<longleftrightarrow> length (queue_ids s) < k \<and> (\<forall>q. length (event_ids s q) + 1 < k)"

inductive ev_step :: "'w ev_cb \<Rightarrow> 'w evsys \<times> nat set \<Rightarrow> 'w evsys \<times> nat set \<Rightarrow> bool" for cb where
  ev_send: "copy_data (ev_data ev) (ev_data_length ev) = Ret d \<Longrightarrow> enough k s \<Longrightarrow>
     xine_event_send k ev s = Ret s' \<Longrightarrow> ev_step cb (s, H) (s', H)"
| ev_get: "es_queue s q \<noteq> None \<Longrightarrow> xine_event_get q s = Ret (e, s') \<Longrightarrow>
     ev_step cb (s, H) (s', H \<union> set_option e)"
| ev_wait: "es_queue s q \<noteq> None \<Longrightarrow> xine_event_wait q s = Ret (e, s') \<Longrightarrow>
     ev_step cb (s, H) (s', insert e H)"
| ev_free: "e \<in> H \<Longrightarrow> xine_event_free e s = Ret s' \<Longrightarrow> ev_step cb (s, H) (s', H - {e})"
| ev_new: "xine_event_new_queue s = Ret (q, s') \<Longrightarrow> ev_step cb (s, H) (s', H)"
| ev_listen: "idle s q \<Longrightarrow> xine_event_create_listener_thread q ud s = Ret s' \<Longrightarrow>
     ev_step cb (s, H) (s', H)"
| ev_dispose: "es_queue s q \<noteq> None \<Longrightarrow> enough k s \<Longrightarrow> xine_event_dispose_queue k cb q s = Ret s' \<Longrightarrow>
     ev_step cb (s, H) (s', H)"
| ev_other: "ev_step cb (s, H)
     (s\<lparr>es_cue := m, es_cfresh := n, es_cues := l, es_next_cue_time := nt, es_org_next_cue_time := ot,
        es_next_cue_data := nd, es_clock := c, es_vpts_offset := vo, es_tv := tv, es_world := w\<rparr>, H)"

inductive_cases ev_stepE: "ev_step cb (s, H) y"

inductive ev_reach :: "'w ev_cb \<Rightarrow> 'w evsys \<times> nat set \<Rightarrow> bool" for cb where
  init: "es_event s = Map.empty \<Longrightarrow> es_queue s = Map.empty \<Longrightarrow> es_queues s = xine_list_new \<Longrightarrow>
     ev_reach cb (s, {})"
| step: "ev_reach cb x \<Longrightarrow> ev_step cb x y \<Longrightarrow> ev_reach cb y"

lemma ev_inv_init:
  "es_event s = Map.empty \<Longrightarrow> es_queue s = Map.empty \<Longrightarrow> es_queues s = xine_list_new \<Longrightarrow> ev_inv s {}"
proof (rule ev_invI(1))
  assume "es_event s = Map.empty" "es_queue s = Map.empty" "es_queues s = xine_list_new"
  moreover have "holds xl_is xine_list_new []"
    by (rule holdsI [of xl_is, OF list_new_ok]) (simp_all add: solid_def contents_def cl_all_def)
  ultimately show "queues_ok s []" "set [] = dom (es_queue s)" "events_ok s (\<lambda>_. []) {}"
    by (simp_all add: queues_ok_def events_ok_def)
qed

lemma send_inv:
  assumes "ev_inv s H" and "length (queue_ids s) < k"
    and "copy_data (ev_data ev) (ev_data_length ev) = Ret d"
  shows "\<exists>s'. xine_event_send k ev s = Ret s' \<and> ev_inv s' H \<and> queue_ids s' = queue_ids s \<and>
    dom (es_queue s') = dom (es_queue s) \<and> es_tv s' = es_tv s \<and> es_world s' = es_world s \<and>
    (\<forall>q. pending s' q = pending s q @
       (if q \<in> set (queue_ids s) then [event_copy ev d (es_tv s)] else [])) \<and>
    (\<forall>e. es_event s e \<noteq> None \<longrightarrow> es_event s' e = es_event s e) \<and>
    es_cue s' = es_cue s \<and> es_cues s' = es_cues s \<and> es_cfresh s' = es_cfresh s \<and>
    es_clock s' = es_clock s \<and> es_vpts_offset s' = es_vpts_offset s"
proof -
  note I = ev_invD [OF assms(1)]
  from send_ok [OF I(1,3) assms(2,3)] obtain m n Qs l E' where
    r: "let s' = s\<lparr>es_event := m, es_efresh := n, es_queue := Qs, es_queues := l\<rparr> in
    xine_event_send k ev s = Ret s' \<and> queues_ok s' (queue_ids s) \<and> events_ok s' E' H \<and>
    listeners Qs = listeners (es_queue s) \<and>
    (\<forall>q. map m (E' q) = map (es_event s) (event_ids s q) @
      (if q \<in> set (queue_ids s) then [Some (event_copy ev d (es_tv s))] else [])) \<and>
    (\<forall>e. es_event s e \<noteq> None \<longrightarrow> m e = es_event s e)" by (elim exE)
  let ?s' = "s\<lparr>es_event := m, es_efresh := n, es_queue := Qs, es_queues := l\<rparr>"
  have R: "xine_event_send k ev s = Ret ?s'" "queues_ok ?s' (queue_ids s)" "events_ok ?s' E' H"
    "listeners Qs = listeners (es_queue s)"
    "\<And>q. map m (E' q) = map (es_event s) (event_ids s q) @
      (if q \<in> set (queue_ids s) then [Some (event_copy ev d (es_tv s))] else [])"
    "\<And>e. es_event s e \<noteq> None \<Longrightarrow> m e = es_event s e" using r by (simp_all add: Let_def)
  have dom: "dom Qs = dom (es_queue s)" by (rule listeners_dom [OF R(4)])
  have "set (queue_ids s) = dom (es_queue ?s')" using dom I(2) by simp
  note J = ev_invI [OF R(2) this R(3)]
  have "pending ?s' q = map the (map m (E' q))" for q by (simp add: pending_def J(3))
  then have "pending ?s' q = pending s q @ (if q \<in> set (queue_ids s) then [event_copy ev d (es_tv s)] else [])" for q
    unfolding R(5) by (simp add: pending_def)
  then show ?thesis using R(1,6) J(1,2) dom by (intro exI [of _ ?s']) simp
qed

lemma get_inv:
  assumes "ev_inv s H" and "es_queue s q \<noteq> None"
  shows "\<exists>s'. xine_event_get q s = Ret (case event_ids s q of [] \<Rightarrow> None | e # _ \<Rightarrow> Some e, s') \<and>
    ev_inv s' (H \<union> set (take 1 (event_ids s q))) \<and> queue_ids s' = queue_ids s \<and>
    event_ids s' = (event_ids s)(q := tl (event_ids s q)) \<and> es_event s' = es_event s \<and>
    dom (es_queue s') = dom (es_queue s) \<and> es_tv s' = es_tv s"
proof -
  note I = ev_invD [OF assms(1)]
  obtain Q where Q: "es_queue s q = Some Q" using assms(2) by blast
  from get_ok [OF I(3) Q] obtain l where
    l: "xine_event_get q s = Ret (case event_ids s q of [] \<Rightarrow> None | e # _ \<Rightarrow> Some e, set_events q Q l s)"
    "events_ok (set_events q Q l s) ((event_ids s)(q := tl (event_ids s q))) (H \<union> set (take 1 (event_ids s q)))"
    by (elim exE conjE)
  let ?s' = "set_events q Q l s"
  have q: "queues_ok ?s' (queue_ids s)"
    by (rule queues_ok_cong [OF I(1)]) (simp_all add: set_events_def Q)
  have d: "set (queue_ids s) = dom (es_queue ?s')" using I(2) Q by (auto simp: set_events_def)
  from ev_invI [OF q d l(2)] l(1) d I(2) show ?thesis
    by (intro exI [of _ ?s']) (simp add: set_events_def)
qed

lemma wait_inv:
  assumes "ev_inv s H" and "es_queue s q \<noteq> None"
  shows "(event_ids s q = [] \<longrightarrow> xine_event_wait q s = Wait) \<and>
    (event_ids s q \<noteq> [] \<longrightarrow> (\<exists>s'. xine_event_wait q s = Ret (hd (event_ids s q), s') \<and>
       ev_inv s' (insert (hd (event_ids s q)) H) \<and> queue_ids s' = queue_ids s \<and>
       event_ids s' = (event_ids s)(q := tl (event_ids s q)) \<and> es_event s' = es_event s \<and>
       dom (es_queue s') = dom (es_queue s) \<and> es_tv s' = es_tv s))"
  using get_inv [OF assms] by (cases "event_ids s q") (auto simp: wait_get)

lemma free_inv:
  assumes "ev_inv s H" and "e \<in> H"
  shows "xine_event_free e s = Ret (s\<lparr>es_event := (es_event s)(e := None)\<rparr>) \<and>
    ev_inv (s\<lparr>es_event := (es_event s)(e := None)\<rparr>) (H - {e}) \<and>
    queue_ids (s\<lparr>es_event := (es_event s)(e := None)\<rparr>) = queue_ids s \<and>
    event_ids (s\<lparr>es_event := (es_event s)(e := None)\<rparr>) = event_ids s"
proof -
  note I = ev_invD [OF assms(1)]
  let ?s' = "s\<lparr>es_event := (es_event s)(e := None)\<rparr>"
  have q: "queues_ok ?s' (queue_ids s)" by (rule queues_ok_cong [OF I(1)]) simp_all
  have d: "set (queue_ids s) = dom (es_queue ?s')" using I(2) by simp
  from free_ok [OF I(3) assms(2)] ev_invI [OF q d] show ?thesis by blast
qed

lemma new_inv:
  assumes "ev_inv s H"
  shows "\<exists>s'. xine_event_new_queue s = Ret (es_qfresh s, s') \<and> ev_inv s' H \<and>
    queue_ids s' = queue_ids s @ [es_qfresh s] \<and> es_qfresh s \<notin> set (queue_ids s) \<and> pending s' = pending s \<and>
    idle s' (es_qfresh s)"
proof -
  note I = ev_invD [OF assms(1)]
  obtain s' where r: "xine_event_new_queue s = Ret (es_qfresh s, s')" "queues_ok s' (queue_ids s @ [es_qfresh s])"
    "events_ok s' (event_ids s) H" "dom (es_queue s') = insert (es_qfresh s) (dom (es_queue s))"
    "es_event s' = es_event s" "es_qfresh s \<notin> dom (es_queue s)" "idle s' (es_qfresh s)"
    using new_queue_ok [OF I(1,3)] by blast
  have d: "set (queue_ids s @ [es_qfresh s]) = dom (es_queue s')" using r(4) I(2) by simp
  from ev_invI [OF r(2) d r(3)] r I(2) show ?thesis by (auto simp: pending_def fun_eq_iff)
qed

lemma listen_inv:
  assumes "ev_inv s H" and "idle s q"
  shows "\<exists>s'. xine_event_create_listener_thread q ud s = Ret s' \<and> ev_inv s' H"
proof -
  note I = ev_invD [OF assms(1)]
  obtain Q where Q: "es_queue s q = Some Q" "eq_listener Q = None" using assms(2) by (auto simp: idle_def)
  let ?s' = "s\<lparr>es_queue := (es_queue s)(q \<mapsto> Q\<lparr>eq_listener := Some ud, eq_lost := eq_lost Q\<rparr>)\<rparr>"
  have "queues_ok ?s' (queue_ids s)" using I(1) Q by (auto simp: queues_ok_def ran_def split: if_splits)
  moreover have "set (queue_ids s) = dom (es_queue ?s')" using I(2) Q by auto
  moreover have cs: "case es_queue ?s' q' of None \<Rightarrow> event_ids s q' = [] | Some Q \<Rightarrow> holds xl_is (eq_events Q) (event_ids s q')" for q'
    using events_okD(6) [OF I(3), of q'] Q by (cases "q' = q") simp_all
  have "events_ok ?s' (event_ids s) H" using I(3) cs unfolding events_ok_def by simp
  ultimately have "ev_inv ?s' H" by (rule ev_invI(1))
  then show ?thesis using Q by (simp add: xine_event_create_listener_thread_def queue_at_def)
qed

lemma dispose_inv:
  assumes "ev_inv s H" and "es_queue s q \<noteq> None" and "enough k s"
  shows "\<exists>s'. xine_event_dispose_queue k cb q s = Ret s' \<and> ev_inv s' H \<and>
    queue_ids s' = remove1 q (queue_ids s) \<and> dom (es_queue s') = dom (es_queue s) - {q} \<and>
    pending s' = (pending s)(q := []) \<and>
    es_world s' = (case eq_listener (the (es_queue s q)) of None \<Rightarrow> es_world s
       | Some ud \<Rightarrow> call_all cb ud (takeWhile (\<lambda>ev. ev_type ev \<noteq> XINE_EVENT_QUIT) (pending s q)) (es_world s))"
proof -
  note I = ev_invD [OF assms(1)]
  obtain Q where Q: "es_queue s q = Some Q" using assms(2) by blast
  have qs: "q \<in> set (queue_ids s)" using I(2) Q by auto
  from dispose_ok [OF I(1,3) qs, of k cb] assms(3) obtain s' where
    r: "xine_event_dispose_queue k cb q s = Ret s'" "queues_ok s' (remove1 q (queue_ids s))"
    "events_ok s' ((event_ids s)(q := [])) H" "dom (es_queue s') = dom (es_queue s) - {q}"
    "\<forall>q'. \<forall>e \<in> set (event_ids s q'). q' \<noteq> q \<longrightarrow> es_event s' e = es_event s e"
    "es_world s' = (case es_queue s q of None \<Rightarrow> es_world s | Some Q \<Rightarrow>
      (case eq_listener Q of None \<Rightarrow> es_world s
       | Some ud \<Rightarrow> call_all cb ud (heard (es_event s) (event_ids s q)) (es_world s)))"
    by (auto simp: enough_def)
  have d: "set (remove1 q (queue_ids s)) = dom (es_queue s')"
    using r(4) I(1,2) by (simp add: queues_ok_def set_remove1_eq)
  note J = ev_invI [OF r(2) d r(3)]
  have "pending s' q' = ((pending s)(q := [])) q'" for q'
    using r(5) by (auto simp: pending_def J(3))
  moreover have nq: "not_quit (es_event s) e = (ev_type (the (es_event s e)) \<noteq> XINE_EVENT_QUIT)"
    if "e \<in> set (event_ids s q)" for e
  proof -
    obtain ev where "es_event s e = Some ev" using events_ok_old [OF I(3) \<open>e \<in> set (event_ids s q)\<close>] by blast
    then show ?thesis by (simp add: not_quit_def)
  qed
  have "heard (es_event s) (event_ids s q) = takeWhile (\<lambda>ev. ev_type ev \<noteq> XINE_EVENT_QUIT) (pending s q)"
    unfolding heard_def pending_def takeWhile_map
    by (intro arg_cong [of _ _ "map _"] takeWhile_cong) (simp_all add: nq)
  ultimately show ?thesis using r(1,4,6) J(1,2) Q by (auto simp: fun_eq_iff cong: option.case_cong)
qed

text \<open>Disposing a queue that a second listener was started on.\<close>

lemma second_listener:
  assumes "ev_inv s H" and "es_queue s q = Some Q" and "eq_listener Q \<noteq> None" and "enough k s"
  shows "\<exists>s'. xine_event_create_listener_thread q ud s = Ret s' \<and> xine_event_dispose_queue k cb q s' = Fault"
proof -
  note I = ev_invD [OF assms(1)]
  let ?Q = "Q\<lparr>eq_listener := Some ud, eq_lost := eq_lost Q + 1\<rparr>"
  let ?s = "s\<lparr>es_queue := (es_queue s)(q \<mapsto> ?Q)\<rparr>"
  have c: "xine_event_create_listener_thread q ud s = Ret ?s"
    using assms(2,3) by (auto simp: xine_event_create_listener_thread_def queue_at_def)
  have h: "holds xl_is (es_queues ?s) (queue_ids s)" using I(1) by (simp add: queues_ok_def)
  have q: "q \<in> set (queue_ids s)" using I(2) assms(2) by auto
  have len: "length (queue_ids s) < k" using assms(4) by (simp add: enough_def)
  obtain l0 l1 where l: "search xine_list_first_content xine_list_next_content (\<lambda>x. x = q) k (es_queues ?s) = Ret (Some q, l0)"
    "xine_list_delete_current l0 = Ret l1" using xl.holds_search_delete [OF h len, of "\<lambda>x. x = q"] q by (auto simp: find_eq)
  have e: "holds xl_is (eq_events Q) (event_ids s q)" using events_okD(6) [OF I(3), of q] assms(2) by simp
  obtain l2 where l2: "xine_list_append_content (Some (es_efresh s)) (eq_events Q) = Ret l2"
    using xl.holds_append [OF e, of "es_efresh s"] by (elim exE conjE)
  have "xine_event_dispose_queue k cb q ?s = Fault"
    using l l2 by (simp add: xine_event_dispose_queue_def malloc_event_def queue_at_def)
  then show ?thesis using c by blast
qed

lemma ev_inv_other:
  "ev_inv s H \<Longrightarrow> ev_inv (s\<lparr>es_cue := m, es_cfresh := n, es_cues := l, es_next_cue_time := nt,
     es_org_next_cue_time := ot, es_next_cue_data := nd, es_clock := c, es_vpts_offset := vo, es_tv := tv,
     es_world := w\<rparr>) H"
  by (simp add: ev_inv_def queues_ok_def events_ok_def queue_ids_def event_ids_def [abs_def])

lemma ev_step_inv: "ev_step cb x y \<Longrightarrow> ev_inv (fst x) (snd x) \<Longrightarrow> ev_inv (fst y) (snd y)"
proof (induction rule: ev_step.induct)
  case (ev_send ev d k s s' H)
  then show ?case using send_inv [of s H k ev d] by (auto simp: enough_def)
next
  case (ev_get s q e s' H)
  then show ?case using get_inv [of s H q] by (cases "event_ids s q") auto
next
  case (ev_wait s q e s' H)
  then show ?case using wait_inv [of s H q] by (cases "event_ids s q = []") auto
next
  case (ev_free e H s s')
  then show ?case using free_inv [of s H e] by auto
next
  case (ev_new s q s' H)
  then show ?case using new_inv [of s H] by auto
next
  case (ev_listen s q ud s' H)
  then show ?case using listen_inv [of s H q ud] by auto
next
  case (ev_dispose s q k s' H)
  then show ?case using dispose_inv [of s H q k cb] by auto
next
  case ev_other
  then show ?case by (simp add: ev_inv_other)
qed

lemma ev_reach_inv: "ev_reach cb x \<Longrightarrow> ev_inv (fst x) (snd x)"
  by (induction rule: ev_reach.induct) (auto intro: ev_inv_init ev_step_inv)

end
