(* ===== verification/Event_System.thy ===== *)
theory Event_System
  imports Events_Inv
begin

text \<open>
  The properties of the event queues and the cue points, the queue interface on the event
  queue, and runs of the model that show that the properties' hypotheses can hold.
\<close>

section \<open>Properties of the event queues\<close>


definition ev_start :: "unit evsys" where
  "ev_start =
     \<lparr>es_event = Map.empty, es_efresh = 0, es_queue = Map.empty, es_qfresh = 0, es_queues = xine_list_new,
      es_cue = Map.empty, es_cfresh = 0, es_cues = xine_list_new, es_next_cue_time = 0,
      es_org_next_cue_time = 0, es_next_cue_data = None, es_clock = 0, es_vpts_offset = 0,
      es_tv = 5, es_world = ()\<rparr>"

definition ev_run :: "(nat \<times> unit evsys) outcome" where
  "ev_run = xine_event_new_queue ev_start"

definition no_listen :: "unit ev_cb" where
  "no_listen = (\<lambda>_ _ w. w)"

lemma ev_run_ok: "\<exists>s. ev_run = Ret (0, s) \<and> ev_reach no_listen (s, {}) \<and> queue_ids s = [0] \<and>
    pending s 0 = [] \<and> es_tv s = 5 \<and> es_queue s 0 \<noteq> None \<and> enough 3 s"
proof -
  have 0: "ev_reach no_listen (ev_start, {})" by (rule ev_reach.init) (simp_all add: ev_start_def)
  have I: "ev_inv ev_start {}" using ev_reach_inv [OF 0] by simp
  have e: "queue_ids ev_start = []" "event_ids ev_start q = []" "es_qfresh ev_start = 0" for q
    by (simp_all add: ev_start_def queue_ids_def event_ids_def xine_list_new_def contents_def
        xl_abs_def xl_ids_def cl_all_def)
  obtain s where s: "xine_event_new_queue ev_start = Ret (0, s)" "ev_inv s {}" "queue_ids s = [0]"
    "pending s = pending ev_start" using new_inv [OF I] by (auto simp: e)
  have "es_tv s = 5" using s(1)
    by (auto simp: xine_event_new_queue_def Let_def obind_eq_Ret ev_start_def)
  moreover have "es_queue s 0 \<noteq> None" using ev_invD(2) [OF s(2)] s(3) by auto
  moreover have p: "pending s q = []" for q using s(4) by (simp add: pending_def e)
  then have "event_ids s q = []" for q using p [of q] by (simp add: pending_def)
  then have "enough 3 s" by (simp add: enough_def s(3))
  moreover have "ev_reach no_listen (s, {})" using 0 ev_step.ev_new [OF s(1)] by (rule ev_reach.step)
  ultimately show ?thesis using s p by (auto simp: ev_run_def)
qed


text \<open>
  \<open>xine_event_send\<close> appends to every queue of the stream, and to no other, one copy of
  the event (with the data copied and the time filled in); what the queues hold already, the
  events the clients hold and the listeners' world stay as they are.
\<close>

theorem event_send_delivers:
  assumes "ev_reach cb (s, H)" and "enough k s"
    and "copy_data (ev_data ev) (ev_data_length ev) = Ret d"
  shows "\<exists>s'. xine_event_send k ev s = Ret s' \<and> queue_ids s' = queue_ids s \<and>
    (\<forall>q \<in> set (queue_ids s). pending s' q = pending s q @
       [\<lparr>ev_type = ev_type ev, ev_data = d, ev_data_length = ev_data_length ev, ev_tv = es_tv s\<rparr>]) \<and>
    (\<forall>e \<in> H. es_event s' e = es_event s e) \<and> es_world s' = es_world s"
proof -
  have I: "ev_inv s H" using ev_reach_inv [OF assms(1)] by simp
  have "length (queue_ids s) < k" using assms(2) by (simp add: enough_def)
  from send_inv [OF I this assms(3)] obtain s' where
    r: "xine_event_send k ev s = Ret s'" "queue_ids s' = queue_ids s" "es_world s' = es_world s"
    "\<forall>q. pending s' q = pending s q @
       (if q \<in> set (queue_ids s) then [event_copy ev d (es_tv s)] else [])"
    "\<forall>e. es_event s e \<noteq> None \<longrightarrow> es_event s' e = es_event s e" by blast
  have "es_event s e \<noteq> None" if "e \<in> H" for e
    using events_ok_alloc [OF ev_invD(3) [OF I], of e] that by auto
  with r show ?thesis by (intro exI [of _ s']) (simp add: event_copy_def)
qed

definition ping :: xine_event where
  "ping = \<lparr>ev_type = 2, ev_data = Some (Bytes [7, 8]), ev_data_length = 1, ev_tv = 0\<rparr>"

theorem event_send_delivers_witness:
  "\<exists>s s'. ev_run = Ret (0, s) \<and> xine_event_send 3 ping s = Ret s' \<and>
    pending s' 0 = [\<lparr>ev_type = 2, ev_data = Some (Bytes [7]), ev_data_length = 1, ev_tv = 5\<rparr>]"
proof -
  obtain s where s: "ev_run = Ret (0, s)" "ev_reach no_listen (s, {})" "pending s 0 = []" "queue_ids s = [0]"
    "es_tv s = 5" "enough 3 s" using ev_run_ok by blast
  have "copy_data (ev_data ping) (ev_data_length ping) = Ret (Some (Bytes [7]))"
    by (simp add: copy_data_def ping_def)
  from event_send_delivers [OF s(2,6) this] s show ?thesis by (auto simp: ping_def)
qed

text \<open>
  C4. Disposing a queue returns (joining its listener does not hang) and leaks nothing: the
  queue and all its events are gone, every allocated event is still in exactly one other queue
  or held by a client, the other queues are as before, and a listener has been called with
  exactly the events before the first quit event, in order.
\<close>

theorem event_dispose_queue_complete:
  assumes "ev_reach cb (s, H)" and "es_queue s q \<noteq> None" and "enough k s"
  shows "\<exists>s'. xine_event_dispose_queue k cb q s = Ret s' \<and>
    queue_ids s' = remove1 q (queue_ids s) \<and> es_queue s' q = None \<and>
    (\<forall>q'. q' \<noteq> q \<longrightarrow> pending s' q' = pending s q') \<and>
    dom (es_event s') = H \<union> (\<Union>q'. set (event_ids s' q')) \<and>
    es_world s' = (case eq_listener (the (es_queue s q)) of None \<Rightarrow> es_world s
       | Some ud \<Rightarrow> fold (cb ud) (takeWhile (\<lambda>ev. ev_type ev \<noteq> XINE_EVENT_QUIT) (pending s q)) (es_world s))"
proof -
  have I: "ev_inv s H" using ev_reach_inv [OF assms(1)] by simp
  from dispose_inv [OF I assms(2,3), of cb] obtain s' where
    r: "xine_event_dispose_queue k cb q s = Ret s'" "ev_inv s' H" "queue_ids s' = remove1 q (queue_ids s)"
    "dom (es_queue s') = dom (es_queue s) - {q}" "pending s' = (pending s)(q := [])"
    "es_world s' = (case eq_listener (the (es_queue s q)) of None \<Rightarrow> es_world s
       | Some ud \<Rightarrow> call_all cb ud (takeWhile (\<lambda>ev. ev_type ev \<noteq> XINE_EVENT_QUIT) (pending s q)) (es_world s))"
    by blast
  have "es_queue s' q = None" using r(4) by auto
  moreover have "dom (es_event s') = H \<union> (\<Union>q'. set (event_ids s' q'))"
    by (rule events_okD(4) [OF ev_invD(3) [OF r(2)]])
  ultimately show ?thesis using r(1,3,5) r(6) [unfolded call_all_def] by (intro exI [of _ s']) simp
qed

theorem event_dispose_queue_complete_witness:
  "\<exists>s s'. ev_run = Ret (0, s) \<and> xine_event_dispose_queue 3 no_listen 0 s = Ret s' \<and>
    queue_ids s' = [] \<and> es_queue s' 0 = None"
proof -
  obtain s where s: "ev_run = Ret (0, s)" "ev_reach no_listen (s, {})" "queue_ids s = [0]"
    "es_queue s 0 \<noteq> None" "enough 3 s" using ev_run_ok by blast
  from event_dispose_queue_complete [OF s(2,4,5)] s show ?thesis by auto
qed

section \<open>An event queue is a first-in first-out queue\<close>

text \<open>What a reader does with a queue: wait, look at the event, free it.\<close>

definition event_next :: "nat \<Rightarrow> 'w evsys \<Rightarrow> (xine_event \<times> 'w evsys) outcome" where
  "event_next q s =
     obind (xine_event_wait q s) (\<lambda>(e, s1). obind (event_at e s1) (\<lambda>ev.
     obind (xine_event_free e s1) (\<lambda>s2. Ret (ev, s2))))"

definition sendable :: "'w evsys \<Rightarrow> xine_event \<Rightarrow> bool" where
  "sendable s ev \<longleftrightarrow> ev_tv ev = es_tv s \<and> copy_data (ev_data ev) (ev_data_length ev) = Ret (ev_data ev)"

definition reads_from :: "nat \<Rightarrow> nat \<Rightarrow> 'w evsys \<Rightarrow> bool" where
  "reads_from k q s \<longleftrightarrow> (\<exists>H. ev_inv s H) \<and> q \<in> set (queue_ids s) \<and> length (queue_ids s) < k"

lemma event_next_ok:
  assumes "reads_from k q s" and "pending s q = ev # evs"
  shows "\<exists>s'. event_next q s = Ret (ev, s') \<and> reads_from k q s' \<and> pending s' q = evs"
proof -
  obtain H where I: "ev_inv s H" using assms(1) by (auto simp: reads_from_def)
  have q: "es_queue s q \<noteq> None" using ev_invD(2) [OF I] assms(1) by (auto simp: reads_from_def)
  obtain e es where es: "event_ids s q = e # es" "the (es_event s e) = ev" "map (the \<circ> es_event s) es = evs"
    using assms(2) by (auto simp: pending_def)
  obtain s1 where s1: "xine_event_wait q s = Ret (e, s1)" "ev_inv s1 (insert e H)" "queue_ids s1 = queue_ids s"
    "event_ids s1 = (event_ids s)(q := es)" "es_event s1 = es_event s"
    using wait_inv [OF I q] es(1) by auto
  obtain ev' where ev': "es_event s e = Some ev'"
    using events_ok_alloc [OF ev_invD(3) [OF I], of e q] es(1) by auto
  let ?s2 = "s1\<lparr>es_event := (es_event s1)(e := None)\<rparr>"
  have f: "xine_event_free e s1 = Ret ?s2" "ev_inv ?s2 (insert e H - {e})" "queue_ids ?s2 = queue_ids s1"
    "event_ids ?s2 = event_ids s1" using free_inv [OF s1(2), of e] by simp_all
  have "e \<notin> set es" using events_okD(1) [OF ev_invD(3) [OF I], of q] es(1) by simp
  then have "pending ?s2 q = evs" using es(3) unfolding pending_def f(4) by (auto simp: s1(4,5))
  moreover have "event_next q s = Ret (ev, ?s2)"
    using s1(1,5) f(1) ev' es(2) by (simp add: event_next_def event_at_def)
  moreover have "reads_from k q ?s2"
    using f(2,3) s1(3) assms(1) unfolding reads_from_def by (metis (no_types))
  ultimately show ?thesis by blast
qed

interpretation evq: copying_queue "reads_from k q" "\<lambda>s. pending s q" sendable "xine_event_send k" "event_next q"
  for k q
proof unfold_locales
  fix s :: "'a evsys" and ev
  assume r: "reads_from k q s" and f: "sendable s ev"
  obtain H where I: "ev_inv s H" using r by (auto simp: reads_from_def)
  have l: "length (queue_ids s) < k" "q \<in> set (queue_ids s)" using r by (auto simp: reads_from_def)
  have c: "copy_data (ev_data ev) (ev_data_length ev) = Ret (ev_data ev)" "event_copy ev (ev_data ev) (es_tv s) = ev"
    using f by (simp_all add: sendable_def event_copy_def)
  obtain s' where s': "xine_event_send k ev s = Ret s'" "ev_inv s' H" "queue_ids s' = queue_ids s"
    "es_tv s' = es_tv s" "\<forall>q. pending s' q = pending s q @ (if q \<in> set (queue_ids s) then [ev] else [])"
    using send_inv [OF I l(1) c(1)] unfolding c(2) by blast
  then show "\<exists>s'. xine_event_send k ev s = Ret s' \<and> reads_from k q s' \<and> pending s' q = pending s q @ [ev] \<and>
      (\<forall>c. c \<noteq> ev \<longrightarrow> sendable s c \<longrightarrow> sendable s' c)"
    using l by (auto simp: reads_from_def sendable_def)
  show "sendable s' c" if "xine_event_send k ev s = Ret s'" "sendable s c" for s' c
    using that s'(1,4) by (simp add: sendable_def)
next
  fix s :: "'a evsys" and ev evs
  assume "reads_from k q s" "pending s q = ev # evs"
  then show "\<exists>s'. event_next q s = Ret (ev, s') \<and> reads_from k q s' \<and> pending s' q = evs"
    by (rule event_next_ok)
next
  fix s :: "'a evsys"
  assume r: "reads_from k q s" and e: "pending s q = []"
  obtain H where I: "ev_inv s H" using r by (auto simp: reads_from_def)
  have "es_queue s q \<noteq> None" using ev_invD(2) [OF I] r by (auto simp: reads_from_def)
  from wait_inv [OF I this] e show "event_next q s = Wait" by (simp add: event_next_def pending_def)
qed

text \<open>
  A reader of a queue sees every event sent, the same event sent twice included, once
  and in the order of the sends, behind what the queue held; then it waits.
\<close>

theorem events_in_order:
  assumes "ev_reach cb (s, H)" and "q \<in> set (queue_ids s)" and "length (queue_ids s) < k"
    and "\<And>ev. ev \<in> set evs \<Longrightarrow> ev_tv ev = es_tv s \<and>
      copy_data (ev_data ev) (ev_data_length ev) = Ret (ev_data ev)"
  shows "\<exists>s1 s2. put_all (xine_event_send k) evs s = Ret s1 \<and>
    get_many (event_next q) (length (pending s q) + length evs) s1 = Ret (pending s q @ evs, s2) \<and>
    event_next q s2 = Wait"
proof -
  have "reads_from k q s" using ev_reach_inv [OF assms(1)] assms(2,3) by (auto simp: reads_from_def)
  then show ?thesis by (rule evq.copy_discipline) (use assms(4) in \<open>simp add: sendable_def\<close>)
qed

definition pong :: xine_event where
  "pong = \<lparr>ev_type = 3, ev_data = None, ev_data_length = 0, ev_tv = 5\<rparr>"

theorem events_in_order_witness:
  "\<exists>s s1 s2. ev_run = Ret (0, s) \<and> put_all (xine_event_send 3) [pong, pong] s = Ret s1 \<and>
    get_many (event_next 0) 2 s1 = Ret ([pong, pong], s2)"
proof -
  obtain s where s: "ev_run = Ret (0, s)" "ev_reach no_listen (s, {})" "pending s 0 = []" "queue_ids s = [0]"
    "es_tv s = 5" using ev_run_ok by blast
  have "\<exists>s1 s2. put_all (xine_event_send 3) [pong, pong] s = Ret s1 \<and>
      get_many (event_next 0) (length (pending s 0) + length [pong, pong]) s1 =
        Ret (pending s 0 @ [pong, pong], s2) \<and> event_next 0 s2 = Wait"
    by (rule events_in_order [OF s(2)]) (use s in \<open>auto simp: pong_def copy_data_def\<close>)
  moreover have "length (pending s 0) + length [pong, pong] = 2" "pending s 0 @ [pong, pong] = [pong, pong]"
    using s(3) by simp_all
  ultimately show ?thesis using s(1) by metis
qed

section \<open>Cue points\<close>

definition cue_ids :: "'w evsys \<Rightarrow> nat list" where
  "cue_ids s = contents (xl_abs (es_cues s))"

definition cue_inv :: "'w evsys \<Rightarrow> bool" where
  "cue_inv s \<longleftrightarrow> holds xl_is (es_cues s) (cue_ids s) \<and> distinct (cue_ids s) \<and>
     set (cue_ids s) \<subseteq> dom (es_cue s) \<and> (\<forall>c \<in> dom (es_cue s). c < es_cfresh s)"

definition cues :: "'w evsys \<Rightarrow> cue_point list" where
  "cues s = map (the \<circ> es_cue s) (cue_ids s)"

lemma cue_invI:
  assumes "holds xl_is (es_cues s) cs" and "distinct cs" and "set cs \<subseteq> dom (es_cue s)"
    and "\<forall>c \<in> dom (es_cue s). c < es_cfresh s"
  shows "cue_inv s" and "cue_ids s = cs"
proof -
  show "cue_ids s = cs" using assms(1) by (simp add: cue_ids_def holds_contents)
  with assms show "cue_inv s" by (simp add: cue_inv_def)
qed

lemma find_remove1:
  "find P xs = Some c \<Longrightarrow> takeWhile (\<lambda>c. \<not> P c) xs @ tl (dropWhile (\<lambda>c. \<not> P c) xs) = remove1 c xs"
  by (induction xs) (auto simp: find_Some_iff split: if_splits)

lemma dispose_cue_ok:
  assumes "cue_inv s" and "length (cue_ids s) < k"
  shows "(case find (cue_matches s t f) (cue_ids s) of
      Some c \<Rightarrow> \<exists>s'. xine_event_dispose_cue_point k t f s = Ret s' \<and> cue_inv s' \<and>
        cue_ids s' = remove1 c (cue_ids s) \<and> es_cue s' = (es_cue s)(c := None)
    | None \<Rightarrow> if cue_ids s = [] then xine_event_dispose_cue_point k t f s = Fault
        else \<exists>s'. xine_event_dispose_cue_point k t f s = Ret s' \<and> cue_inv s' \<and>
          cue_ids s' = butlast (cue_ids s) \<and> es_cue s' = es_cue s)"
proof -
  let ?P = "cue_matches s t f" and ?cs = "cue_ids s"
  have I: "holds xl_is (es_cues s) ?cs" "distinct ?cs" "set ?cs \<subseteq> dom (es_cue s)"
    "\<forall>c \<in> dom (es_cue s). c < es_cfresh s" using assms(1) by (simp_all add: cue_inv_def)
  obtain l where l: "search xine_list_first_content xine_list_next_content ?P k (es_cues s) = Ret (find ?P ?cs, l)"
    "holds xl_is l ?cs"
    "find ?P ?cs \<noteq> None \<longrightarrow> (\<exists>l1. xine_list_delete_current l = Ret l1 \<and>
       holds xl_is l1 (takeWhile (\<lambda>c. \<not> ?P c) ?cs @ tl (dropWhile (\<lambda>c. \<not> ?P c) ?cs)))"
    "find ?P ?cs = None \<longrightarrow> ?cs \<noteq> [] \<longrightarrow> (\<exists>l1. xine_list_delete_current l = Ret l1 \<and> holds xl_is l1 (butlast ?cs))"
    using xl.holds_search_delete [OF I(1) assms(2), of ?P] by (elim exE conjE)
  show ?thesis
  proof (cases "find ?P ?cs")
    case None
    show ?thesis
    proof (cases "?cs = []")
      case True
      then have "xl_is l (xl_abs l)" "snd (xl_abs l) = []" using l(2)
        by (auto simp: holds_def xl_is_def contents_def cl_all_def)
      then have "xine_list_delete_current l = Fault" using list_delete_current_fault by blast
      then show ?thesis using True None l(1) by (simp add: xine_event_dispose_cue_point_def)
    next
      case False
      then obtain l1 where l1: "xine_list_delete_current l = Ret l1" "holds xl_is l1 (butlast ?cs)"
        using None l(4) by blast
      let ?s' = "s\<lparr>es_cues := l1, es_cue := es_cue s\<rparr>"
      have "set (butlast ?cs) \<subseteq> dom (es_cue s)" using I(3) by (auto dest: in_set_butlastD)
      then have "cue_inv ?s'" "cue_ids ?s' = butlast ?cs"
        using cue_invI [of ?s' "butlast ?cs"] l1(2) I(2,4) by (simp_all add: distinct_butlast)
      moreover have "xine_event_dispose_cue_point k t f s = Ret ?s'"
        using None l(1) l1(1) by (simp add: xine_event_dispose_cue_point_def)
      ultimately show ?thesis using None False by simp
    qed
  next
    case (Some c)
    have fc: "takeWhile (\<lambda>c. \<not> ?P c) ?cs @ tl (dropWhile (\<lambda>c. \<not> ?P c) ?cs) = remove1 c ?cs"
      by (rule find_remove1 [OF Some])
    then obtain l1 where l1: "xine_list_delete_current l = Ret l1" "holds xl_is l1 (remove1 c ?cs)"
      using Some l(3) by (simp add: fc) blast
    let ?s' = "s\<lparr>es_cues := l1, es_cue := (es_cue s)(c := None)\<rparr>"
    have "set (remove1 c ?cs) \<subseteq> dom ((es_cue s)(c := None))" using I(2,3) by (auto simp: set_remove1_eq)
    then have "cue_inv ?s'" "cue_ids ?s' = remove1 c ?cs"
      using cue_invI [of ?s' "remove1 c ?cs"] l1(2) I(2,4) by (simp_all add: distinct_remove1)
    moreover have "xine_event_dispose_cue_point k t f s = Ret ?s'"
      using Some l(1) l1(1) by (simp add: xine_event_dispose_cue_point_def)
    ultimately show ?thesis using Some by simp
  qed
qed

text \<open>
  \<open>xine_event_dispose_cue_point\<close> removes and frees the first cue point with the given
  time and frequency. When there is none it removes the last cue point of the list, whatever
  that is, without freeing it; on an empty list it dereferences NULL.
\<close>

theorem dispose_cue_point_spec:
  assumes "cue_inv s" and "length (cue_ids s) < k"
  shows "(case find (cue_matches s t f) (cue_ids s) of
      Some c \<Rightarrow> \<exists>s'. xine_event_dispose_cue_point k t f s = Ret s' \<and> cue_inv s' \<and>
        cue_ids s' = remove1 c (cue_ids s) \<and> es_cue s' = (es_cue s)(c := None)
    | None \<Rightarrow> if cue_ids s = [] then xine_event_dispose_cue_point k t f s = Fault
        else \<exists>s'. xine_event_dispose_cue_point k t f s = Ret s' \<and> cue_inv s' \<and>
          cue_ids s' = butlast (cue_ids s) \<and> es_cue s' = es_cue s)"
  by (rule dispose_cue_ok [OF assms])

section \<open>The next cue point\<close>

text \<open>
  When a cue point is next due after \<open>t\<close>: at its time if that is to come, else at the next
  multiple of its frequency after it; a frequency of 0 means once.
\<close>

definition next_due :: "int \<Rightarrow> cue_point \<Rightarrow> int option" where
  "next_due t p =
     (if cp_cuetime p > t then Some (cp_cuetime p)
      else if cp_frequency p > 0 \<and> cp_cuetime p < t
      then Some (t + cp_frequency p - (t - cp_cuetime p) mod cp_frequency p) else None)"

lemma next_due_period:
  assumes "next_due t p = Some d" and "cp_frequency p > 0"
  shows "d > t" and "cp_cuetime p < t \<Longrightarrow> (d - cp_cuetime p) mod cp_frequency p = 0 \<and> d \<le> t + cp_frequency p"
proof -
  have m: "0 \<le> (t - cp_cuetime p) mod cp_frequency p" "(t - cp_cuetime p) mod cp_frequency p < cp_frequency p"
    using assms(2) by simp_all
  then show "d > t" using assms(1) by (auto simp: next_due_def split: if_splits)
  assume "cp_cuetime p < t"
  then have d: "d = t + cp_frequency p - (t - cp_cuetime p) mod cp_frequency p"
    using assms by (auto simp: next_due_def)
  have "d - cp_cuetime p = cp_frequency p * (1 + (t - cp_cuetime p) div cp_frequency p)"
    unfolding d distrib_left using minus_mod_eq_mult_div [of "t - cp_cuetime p" "cp_frequency p"] by simp
  then have "(d - cp_cuetime p) mod cp_frequency p = 0" by simp
  then show "(d - cp_cuetime p) mod cp_frequency p = 0 \<and> d \<le> t + cp_frequency p"
    using m d by simp
qed

definition earliest :: "int \<Rightarrow> cue_point list \<Rightarrow> int \<Rightarrow> int" where
  "earliest t ps T = fold (\<lambda>p T. case next_due t p of None \<Rightarrow> T | Some d \<Rightarrow> min T d) ps T"

lemma recalc_one_ok:
  assumes "es_cue s c = Some p" and "cp_frequency p \<ge> 0" and "- (2 ^ 31) \<le> t" and "T \<le> 0x7FFFFFFF"
  shows "\<exists>d. recalc_one t s c (T, d0) = Ret (case next_due t p of None \<Rightarrow> T | Some x \<Rightarrow> min T x, d)"
proof -
  have sm: "(t - cp_cuetime p) smod cp_frequency p = (t - cp_cuetime p) mod cp_frequency p"
    if "cp_cuetime p < t" "cp_frequency p > 0"
    using that by (simp add: smod_nonneg)
  show ?thesis
  proof (cases "cp_cuetime p > t")
    case True
    then show ?thesis using assms(1) by (auto simp: recalc_one_def cue_at_def next_due_def min_def)
  next
    case False
    show ?thesis
    proof (cases "cp_frequency p \<noteq> 0 \<and> cp_cuetime p < t")
      case True
      let ?r = "(t - cp_cuetime p) mod cp_frequency p"
      have fp: "cp_frequency p > 0" using True assms(2) by simp
      then have r: "?r < cp_frequency p" by simp
      have "s32 (cp_frequency p - ?r + t) = cp_frequency p - ?r + t" if "cp_frequency p - ?r < T - t"
        using that r assms(3,4) by (intro s32_id) simp_all
      then show ?thesis using assms(1) False True fp sm
        by (auto simp: recalc_one_def cue_at_def next_due_def cmod_def min_def algebra_simps)
    next
      case F: False
      then show ?thesis using assms(1,2) False
        by (auto simp: recalc_one_def cue_at_def next_due_def)
    qed
  qed
qed

lemma recalc_fold:
  assumes "- (2 ^ 31) \<le> t"
  shows "set cs \<subseteq> dom (es_cue s) \<Longrightarrow> (\<forall>c \<in> set cs. cp_frequency (the (es_cue s c)) \<ge> 0) \<Longrightarrow>
    T \<le> 0x7FFFFFFF \<Longrightarrow>
    \<exists>d. fold_all (recalc_one t s) cs (T, d0) = Ret (earliest t (map (the \<circ> es_cue s) cs) T, d)"
proof (induction cs arbitrary: T d0)
  case Nil
  then show ?case by (simp add: earliest_def)
next
  case (Cons c cs)
  then obtain p where p: "es_cue s c = Some p" by auto
  let ?T = "case next_due t p of None \<Rightarrow> T | Some x \<Rightarrow> min T x"
  obtain d1 where d1: "recalc_one t s c (T, d0) = Ret (?T, d1)"
    using recalc_one_ok [OF p _ assms Cons.prems(3)] Cons.prems(2) p by auto
  have "?T \<le> 0x7FFFFFFF" using Cons.prems(3) by (auto split: option.splits)
  from Cons.IH [OF _ _ this, of d1] Cons.prems(1,2) d1 p show ?case by (simp add: earliest_def)
qed

lemma earliest_Min:
  "earliest t ps T = Min (insert T (\<Union>p \<in> set ps. set_option (next_due t p)))"
proof (induction ps arbitrary: T)
  case Nil
  then show ?case by (simp add: earliest_def)
next
  case (Cons p ps)
  let ?A = "\<Union>p \<in> set ps. set_option (next_due t p)"
  have fin: "finite ?A" by simp
  have "earliest t (p # ps) T = earliest t ps (case next_due t p of None \<Rightarrow> T | Some d \<Rightarrow> min T d)"
    by (simp add: earliest_def)
  also have "\<dots> = Min (insert T (set_option (next_due t p) \<union> ?A))"
    unfolding Cons.IH using fin
    by (cases "next_due t p"; cases "?A = {}") (simp_all add: Min_insert min.assoc insert_commute)
  finally show ?case by simp
qed

lemma recalc_run:
  fixes s :: "'w evsys" and now :: int
  assumes "cue_inv s" and "length (cue_ids s) < k" and "\<forall>p \<in> set (cues s). cp_frequency p \<ge> 0"
  defines "t \<equiv> ((if now = 0 then es_clock s else now) - es_vpts_offset s) sdiv 90"
  defines "T \<equiv> Min (insert 0x7FFFFFFF (\<Union>p \<in> set (cues s). set_option (next_due t p)))"
  assumes "- (2 ^ 31) \<le> t"
  shows "\<exists>l d. xine_recalculate_next_cue_point k now s = Ret (s\<lparr>es_cues := l, es_next_cue_data := d,
      es_next_cue_time := word_of_int (s32 (T * 90) + es_vpts_offset s)\<rparr>) \<and> holds xl_is l (cue_ids s)"
proof -
  have I: "holds xl_is (es_cues s) (cue_ids s)" "set (cue_ids s) \<subseteq> dom (es_cue s)"
    using assms(1) by (simp_all add: cue_inv_def)
  have fr: "\<forall>c \<in> set (cue_ids s). cp_frequency (the (es_cue s c)) \<ge> 0"
    using assms(3) by (simp add: cues_def)
  obtain d where d: "fold_all (recalc_one t s) (cue_ids s) (0x7FFFFFFF, es_next_cue_data s) =
      Ret (earliest t (cues s) 0x7FFFFFFF, d)"
    using recalc_fold [OF assms(6) I(2) fr, of "0x7FFFFFFF"] by (auto simp: cues_def)
  have T: "earliest t (cues s) 0x7FFFFFFF = T" unfolding T_def by (rule earliest_Min)
  from xl.holds_visit [OF I(1) assms(2) d] obtain l where
    l: "visit_all xine_list_first_content xine_list_next_content (recalc_one t s) k (es_cues s)
      (0x7FFFFFFF, es_next_cue_data s) = Ret ((T, d), l)" "holds xl_is l (cue_ids s)"
    unfolding T by blast
  let ?s' = "s\<lparr>es_cues := l, es_next_cue_data := d,
    es_next_cue_time := word_of_int (s32 (T * 90) + es_vpts_offset s)\<rparr>"
  have "xine_recalculate_next_cue_point k now s = Ret ?s'"
    using l(1) by (simp add: xine_recalculate_next_cue_point_def t_def Let_def)
  then show ?thesis using l(2) by blast
qed

lemma recalc_returns:
  fixes s :: "'w evsys" and now :: int
  assumes "cue_inv s" and "length (cue_ids s) < k" and "\<forall>p \<in> set (cues s). cp_frequency p \<ge> 0"
    and "- (2 ^ 31) \<le> ((if now = 0 then es_clock s else now) - es_vpts_offset s) sdiv 90"
  shows "\<exists>s'. xine_recalculate_next_cue_point k now s = Ret s'"
  using recalc_run [OF assms] by blast

lemma recalc_keeps:
  "xine_recalculate_next_cue_point k now s = Ret s' \<Longrightarrow> es_event s' = es_event s \<and> es_queue s' = es_queue s"
  by (auto simp: xine_recalculate_next_cue_point_def Let_def obind_eq_Ret)

text \<open>
  With frequencies that are not negative, \<open>xine_recalculate_next_cue_point\<close> finds the
  earliest time a cue point is due after now (in milliseconds of the stream), at most
  \<open>0x7FFFFFFF\<close>, and sets \<open>next_cue_time\<close> to the vpts of it. While that time
  times 90 fits an \<open>int\<close> (6.6 hours) nothing overflows.
\<close>

theorem recalculate_next_cue:
  fixes s :: "'w evsys" and now :: int
  assumes "cue_inv s" and "length (cue_ids s) < k" and "\<forall>p \<in> set (cues s). cp_frequency p \<ge> 0"
  defines "t \<equiv> ((if now = 0 then es_clock s else now) - es_vpts_offset s) sdiv 90"
  defines "T \<equiv> Min (insert 0x7FFFFFFF (\<Union>p \<in> set (cues s). set_option (next_due t p)))"
  assumes "- (2 ^ 31) \<le> t"
  shows "\<exists>s'. xine_recalculate_next_cue_point k now s = Ret s' \<and> cues s' = cues s \<and>
    es_next_cue_time s' = word_of_int (s32 (T * 90) + es_vpts_offset s) \<and>
    (0 \<le> T \<and> T * 90 < 2 ^ 31 \<longrightarrow> es_next_cue_time s' = word_of_int (T * 90 + es_vpts_offset s))"
proof -
  from recalc_run [OF assms(1-3) assms(6) [unfolded t_def], folded t_def, folded T_def] obtain l d where
    r: "xine_recalculate_next_cue_point k now s = Ret (s\<lparr>es_cues := l, es_next_cue_data := d,
      es_next_cue_time := word_of_int (s32 (T * 90) + es_vpts_offset s)\<rparr>)" "holds xl_is l (cue_ids s)"
    by (elim exE conjE) (rule that)
  have "s32 (T * 90) = T * 90" if "0 \<le> T \<and> T * 90 < 2 ^ 31" using that by (intro s32_id) auto
  moreover have "cues (s\<lparr>es_cues := l, es_next_cue_data := d,
      es_next_cue_time := word_of_int (s32 (T * 90) + es_vpts_offset s)\<rparr>) = cues s"
    using holds_contents [OF r(2)] by (simp add: cues_def cue_ids_def)
  ultimately show ?thesis using r(1) by auto
qed

lemma create_cue_ok:
  assumes "cue_inv s"
  shows "\<exists>s'. xine_event_create_cue_point t f ud s = Ret s' \<and> cue_inv s' \<and>
    cues s' = cues s @ [\<lparr>cp_cuetime = t, cp_frequency = f, cp_currtime = 0, cp_user_data = ud\<rparr>] \<and>
    cue_ids s' = cue_ids s @ [es_cfresh s] \<and> es_clock s' = es_clock s \<and> es_vpts_offset s' = es_vpts_offset s \<and>
    es_org_next_cue_time s' = es_org_next_cue_time s"
proof -
  let ?cs = "cue_ids s" and ?c = "es_cfresh s"
  have I: "holds xl_is (es_cues s) ?cs" "distinct ?cs" "set ?cs \<subseteq> dom (es_cue s)"
    "\<forall>c \<in> dom (es_cue s). c < es_cfresh s" using assms by (simp_all add: cue_inv_def)
  obtain l where l: "xine_list_append_content (Some ?c) (es_cues s) = Ret l" "holds xl_is l (?cs @ [?c])"
    using xl.holds_append [OF I(1)] by blast
  let ?p = "\<lparr>cp_cuetime = t, cp_frequency = f, cp_currtime = 0, cp_user_data = ud\<rparr>"
  let ?s' = "s\<lparr>es_cue := (es_cue s)(?c \<mapsto> ?p), es_cfresh := ?c + 1, es_cues := l\<rparr>"
  have nc: "?c \<notin> set ?cs" using I(3,4) by blast
  have "cue_inv ?s'" and ids: "cue_ids ?s' = ?cs @ [?c]"
    using cue_invI [of ?s' "?cs @ [?c]"] l(2) I nc by (auto simp: less_Suc_eq)
  moreover have "cues ?s' = cues s @ [?p]" unfolding cues_def ids using nc by auto
  ultimately show ?thesis using l(1)
    by (intro exI [of _ ?s']) (simp add: xine_event_create_cue_point_def Let_def)
qed

text \<open>A stream with two cue points: 1000 once, 400 every 300; the clock stands at 90000.\<close>

definition cue_demo :: "unit evsys outcome" where
  "cue_demo = obind (xine_event_create_cue_point 1000 0 0 (ev_start\<lparr>es_clock := 90000\<rparr>))
     (xine_event_create_cue_point 400 300 0)"

lemma cue_demo_ok: "\<exists>s. cue_demo = Ret s \<and> cue_inv s \<and> map cp_cuetime (cues s) = [1000, 400] \<and>
    map cp_frequency (cues s) = [0, 300] \<and> cue_ids s = [0, 1] \<and> es_clock s = 90000 \<and>
    es_vpts_offset s = 0 \<and> es_org_next_cue_time s = 0"
proof -
  let ?s0 = "ev_start\<lparr>es_clock := 90000\<rparr>"
  have n: "holds xl_is (es_cues ?s0) []" unfolding ev_start_def evsys.simps
    by (rule holdsI [of xl_is, OF list_new_ok]) (simp_all add: solid_def contents_def cl_all_def)
  have i: "cue_inv ?s0" "cue_ids ?s0 = []"
    using cue_invI [of ?s0 "[]", OF n] by (simp_all add: ev_start_def)
  have i': "cues ?s0 = []" using i(2) by (simp add: cues_def)
  have f: "es_cfresh ?s0 = 0" "es_clock ?s0 = 90000" "es_vpts_offset ?s0 = 0" "es_org_next_cue_time ?s0 = 0"
    by (simp_all add: ev_start_def)
  obtain s1 where s1: "xine_event_create_cue_point 1000 0 0 ?s0 = Ret s1" "cue_inv s1"
    "cues s1 = [\<lparr>cp_cuetime = 1000, cp_frequency = 0, cp_currtime = 0, cp_user_data = 0\<rparr>]" "cue_ids s1 = [0]"
    "es_clock s1 = 90000" "es_vpts_offset s1 = 0" "es_org_next_cue_time s1 = 0"
    using create_cue_ok [OF i(1), of 1000 0 0] i(2) i' f by auto
  have "es_cfresh s1 = 1" using s1(1) f(1)
    by (auto simp: xine_event_create_cue_point_def Let_def obind_eq_Ret)
  with create_cue_ok [OF s1(2), of 400 300 0] s1 show ?thesis
    by (auto simp: cue_demo_def)
qed

theorem dispose_cue_point_spec_witness:
  "\<exists>s s'. cue_demo = Ret s \<and> xine_event_dispose_cue_point 3 77 0 s = Ret s' \<and>
    cue_ids s = [0, 1] \<and> cue_ids s' = [0] \<and> es_cue s' = es_cue s"
proof -
  obtain s where s: "cue_demo = Ret s" "cue_inv s" "map cp_cuetime (cues s) = [1000, 400]" "cue_ids s = [0, 1]"
    using cue_demo_ok by (elim exE conjE) (rule that)
  have "length (cue_ids s) < 3" using s(4) by simp
  note R = dispose_cue_point_spec [OF s(2) this, of 77 0]
  have sub: "set (cue_ids s) \<subseteq> dom (es_cue s)" using s(2) by (simp add: cue_inv_def)
  have "\<not> cue_matches s 77 0 0" "\<not> cue_matches s 77 0 1"
    using s(3,4) sub by (auto simp: cues_def cue_matches_def)
  then have "find (cue_matches s 77 0) (cue_ids s) = None" using s(4) by simp
  with R s(1,4) show ?thesis by auto
qed

theorem recalculate_next_cue_witness:
  "\<exists>s s'. cue_demo = Ret s \<and> xine_recalculate_next_cue_point 3 54000 s = Ret s' \<and>
    es_next_cue_time s' = 63000"
proof -
  obtain s where s: "cue_demo = Ret s" "cue_inv s" "map cp_cuetime (cues s) = [1000, 400]"
    "map cp_frequency (cues s) = [0, 300]" "cue_ids s = [0, 1]" "es_vpts_offset s = 0"
    using cue_demo_ok by (elim exE conjE) (rule that)
  obtain p p' where p: "cues s = [p, p']" "cp_cuetime p = 1000" "cp_cuetime p' = 400"
    "cp_frequency p = 0" "cp_frequency p' = 300" using s(3,4) by auto
  have len: "length (cue_ids s) < 3" using s(5) by simp
  have fr: "\<forall>p \<in> set (cues s). cp_frequency p \<ge> 0" using p by simp
  have t: "((if (54000::int) = 0 then es_clock s else 54000) - es_vpts_offset s) sdiv 90 = 600"
    using s(6) by (simp add: sdiv_nonneg)
  have ge: "- (2 ^ 31) \<le> ((if (54000::int) = 0 then es_clock s else 54000) - es_vpts_offset s) sdiv 90"
    unfolding t by simp
  have M: "Min (insert 0x7FFFFFFF (\<Union>p \<in> set (cues s). set_option (next_due 600 p))) = 700"
    using p by (simp add: next_due_def)
  from recalculate_next_cue [OF s(2) len fr ge, unfolded t M] s(1,6) show ?thesis by auto
qed

text \<open>
  Without any cue point to come, the product \<open>0x7FFFFFFF * 90\<close> does not fit an
  \<open>int\<close>: \<open>next_cue_time\<close> becomes 90 ticks before the stream's vpts offset, a time that
  has passed, instead of one that never comes.
\<close>

theorem no_next_cue_overflows:
  assumes "cue_inv s" and "cue_ids s = []" and "0 < k" and "- (2 ^ 31) \<le> (now - es_vpts_offset s) sdiv 90"
    and "now \<noteq> 0" and "90 \<le> es_vpts_offset s" and "es_vpts_offset s < 2 ^ 32"
  shows "\<exists>s'. xine_recalculate_next_cue_point k now s = Ret s' \<and>
    uint (es_next_cue_time s') = es_vpts_offset s - 90"
proof -
  have c: "cues s = []" using assms(2) by (simp add: cues_def)
  have "((if now = 0 then es_clock s else now) - es_vpts_offset s) sdiv 90 = (now - es_vpts_offset s) sdiv 90"
    using assms(5) by simp
  then have I: "holds xl_is (es_cues s) []" using assms(1,2) by (simp add: cue_inv_def)
  have d: "fold_all (recalc_one t s) [] (0x7FFFFFFF, es_next_cue_data s) = Ret (0x7FFFFFFF, es_next_cue_data s)" for t
    by simp
  have len: "length ([]::nat list) < k" using assms(3) by simp
  obtain l where l: "visit_all xine_list_first_content xine_list_next_content
      (recalc_one ((now - es_vpts_offset s) sdiv 90) s) k (es_cues s) (0x7FFFFFFF, es_next_cue_data s) =
      Ret ((0x7FFFFFFF, es_next_cue_data s), l)"
    using xl.holds_visit [OF I len d] by blast
  have "s32 (0x7FFFFFFF * 90) = - 90" by (simp add: s32_def)
  then have "uint (word_of_int (s32 (0x7FFFFFFF * 90) + es_vpts_offset s) :: u32) = es_vpts_offset s - 90"
    using assms(6,7) unfolding uint_word_of_int by simp
  then show ?thesis using l assms(5) by (simp add: xine_recalculate_next_cue_point_def Let_def)
qed

theorem no_next_cue_overflows_witness:
  "\<exists>s s'. s = ev_start\<lparr>es_vpts_offset := 1000\<rparr> \<and> xine_recalculate_next_cue_point 1 5000 s = Ret s' \<and>
    uint (es_next_cue_time s') = 910"
proof -
  let ?s = "ev_start\<lparr>es_vpts_offset := 1000\<rparr>"
  have n: "holds xl_is (es_cues ?s) []" unfolding ev_start_def evsys.simps
    by (rule holdsI [of xl_is, OF list_new_ok]) (simp_all add: solid_def contents_def cl_all_def)
  have i: "cue_inv ?s" "cue_ids ?s = []"
    using cue_invI [of ?s "[]", OF n] by (simp_all add: ev_start_def)
  have o: "es_vpts_offset ?s = 1000" by simp
  have ge: "- (2 ^ 31) \<le> (5000 - es_vpts_offset ?s) sdiv 90" unfolding o by (simp add: sdiv_nonneg)
  from no_next_cue_overflows [OF i(1,2) _ ge, of 1] show ?thesis unfolding o by simp
qed

text \<open>
  A cue point of frequency 0 ("only called at the cuetime") that is not due right now makes
  \<open>xine_cue_point_event\<close> divide by zero: the remainder is taken before the frequency is
  tested.
\<close>

theorem cue_point_frequency_0_faults:
  assumes "cue_inv s" and "cue_ids s = c # cs" and "es_cue s c = Some p" and "cp_frequency p = 0"
    and "es_org_next_cue_time s \<le> s32 ((now - es_vpts_offset s) sdiv 90)"
    and "cp_cuetime p < es_org_next_cue_time s \<or> s32 ((now - es_vpts_offset s) sdiv 90) < cp_cuetime p"
    and "0 < k"
  shows "xine_cue_point_event k now s = Fault"
proof -
  let ?t = "s32 ((now - es_vpts_offset s) sdiv 90)"
  have "holds xl_is (es_cues s) (c # cs)" using assms(1,2) by (simp add: cue_inv_def)
  then obtain z where z: "xl_is (es_cues s) z" "solid z" "contents z = c # cs" by (auto simp: holds_def)
  obtain l where l: "xine_list_first_content (es_cues s) = Ret (cl_content (cl_first z), l)"
    using list_first_ok [OF z(1)] by blast
  have "cl_content (cl_first z) = Some c"
    using z(2,3) by (cases "cl_all z") (auto simp: cl_content_def contents_def solid_def)
  moreover have "cue_one k ?t (es_org_next_cue_time s) c s = Fault"
    using assms(3,4,6) by (auto simp: cue_one_def cue_at_def cmod_def)
  moreover obtain k' where "k = Suc k'" using assms(7) by (cases k) auto
  ultimately have "visit_all xine_list_first_content xine_list_next_content
      (cue_one k ?t (es_org_next_cue_time s)) k (es_cues s) s = Fault"
    using l by (simp add: visit_all_def)
  then show ?thesis using assms(5) by (simp add: xine_cue_point_event_def Let_def)
qed

theorem cue_point_frequency_0_faults_witness:
  "\<exists>s. cue_demo = Ret s \<and> xine_cue_point_event 3 9000 s = Fault"
proof -
  obtain s where s: "cue_demo = Ret s" "cue_inv s" "map cp_cuetime (cues s) = [1000, 400]"
    "map cp_frequency (cues s) = [0, 300]" "cue_ids s = [0, 1]" "es_vpts_offset s = 0" "es_org_next_cue_time s = 0"
    using cue_demo_ok by (elim exE conjE) (rule that)
  have "0 \<in> dom (es_cue s)" using s(2,5) by (simp add: cue_inv_def)
  then obtain p where p: "es_cue s 0 = Some p" by blast
  then have pp: "cp_cuetime p = 1000" "cp_frequency p = 0" using s(3-5) by (simp_all add: cues_def)
  have t: "s32 ((9000 - es_vpts_offset s) sdiv 90) = 100" using s(6) by (simp add: sdiv_nonneg s32_id)
  from cue_point_frequency_0_faults [OF s(2,5) p pp(2), of 9000 3, unfolded t s(7) pp] s(1) show ?thesis by auto
qed

section \<open>Sending the cue points that are due\<close>

definition same_cue_state :: "'w evsys \<Rightarrow> 'w evsys \<Rightarrow> bool" where
  "same_cue_state s s' \<longleftrightarrow> es_cues s' = es_cues s \<and> es_cfresh s' = es_cfresh s \<and> es_clock s' = es_clock s \<and>
     es_vpts_offset s' = es_vpts_offset s \<and> es_tv s' = es_tv s \<and> queue_ids s' = queue_ids s \<and>
     (\<forall>c. map_option (\<lambda>p. (cp_cuetime p, cp_frequency p)) (es_cue s' c) =
          map_option (\<lambda>p. (cp_cuetime p, cp_frequency p)) (es_cue s c))"

text \<open>Due at \<open>t\<close> after \<open>n\<close>: passed in between, or a period of it ends in between.\<close>

definition cue_due :: "int \<Rightarrow> int \<Rightarrow> cue_point \<Rightarrow> bool" where
  "cue_due t n p \<longleftrightarrow> n \<le> cp_cuetime p \<and> cp_cuetime p \<le> t \<or>
     cp_cuetime p < t \<and>
       (let nf = cp_frequency p - (n - cp_cuetime p) smod cp_frequency p in
        (if nf = cp_frequency p then 0 else nf) \<le> t - n)"

definition cue_event :: "int \<Rightarrow> int \<Rightarrow> cue_point \<Rightarrow> xine_event" where
  "cue_event t tv p = \<lparr>ev_type = XINE_EVENT_CUE_POINT, ev_data = Some (Cue (p\<lparr>cp_currtime := t\<rparr>)),
     ev_data_length = CUE_POINT_SIZE, ev_tv = tv\<rparr>"

lemma cue_one_ok:
  assumes "ev_inv s H" and "length (queue_ids s) < k" and "es_cue s c = Some p" and "cp_frequency p \<noteq> 0"
  shows "\<exists>s'. cue_one k t n c s = Ret s' \<and> ev_inv s' H \<and> same_cue_state s s' \<and>
    (\<forall>c'. c' \<noteq> c \<longrightarrow> es_cue s' c' = es_cue s c') \<and>
    (\<forall>q \<in> set (queue_ids s). pending s' q = pending s q @ (if cue_due t n p then [cue_event t (es_tv s) p] else []))"
proof (cases "cue_due t n p")
  case False
  then have "cue_one k t n c s = Ret s"
    using assms(3,4) by (auto simp: cue_one_def cue_at_def cue_due_def cmod_def Let_def)
  then show ?thesis using False assms(1) by (simp add: same_cue_state_def)
next
  case True
  let ?p = "p\<lparr>cp_currtime := t\<rparr>"
  let ?ev = "\<lparr>ev_type = XINE_EVENT_CUE_POINT, ev_data = Some (Cue ?p), ev_data_length = CUE_POINT_SIZE, ev_tv = 0\<rparr>"
  let ?s1 = "s\<lparr>es_cue := (es_cue s)(c \<mapsto> ?p)\<rparr>"
  have ids: "queue_ids ?s1 = queue_ids s" "event_ids ?s1 = event_ids s"
    by (simp_all add: queue_ids_def event_ids_def fun_eq_iff)
  have pe: "pending ?s1 = pending s" unfolding pending_def ids by simp
  have I: "ev_inv ?s1 H" using assms(1) unfolding ev_inv_def ids by (simp add: queues_ok_def events_ok_def)
  have cp: "copy_data (ev_data ?ev) (ev_data_length ?ev) = Ret (Some (Cue ?p))"
    by (simp add: copy_data_def CUE_POINT_SIZE_def)
  have len: "length (queue_ids ?s1) < k" using assms(2) ids by simp
  from send_inv [OF I len cp] obtain s' where
    r: "xine_event_send k ?ev ?s1 = Ret s'" "ev_inv s' H" "queue_ids s' = queue_ids ?s1" "es_tv s' = es_tv ?s1"
    "\<forall>q. pending s' q = pending ?s1 q @ (if q \<in> set (queue_ids ?s1) then [event_copy ?ev (Some (Cue ?p)) (es_tv ?s1)] else [])"
    "es_cue s' = es_cue ?s1" "es_cues s' = es_cues ?s1" "es_cfresh s' = es_cfresh ?s1"
    "es_clock s' = es_clock ?s1" "es_vpts_offset s' = es_vpts_offset ?s1"
    by (elim exE conjE) (rule that)
  have "cue_one k t n c s = fire_cue k t c p s"
    using True assms(3,4) by (auto simp: cue_one_def cue_at_def cue_due_def cmod_def Let_def)
  then have "cue_one k t n c s = Ret s'" using r(1) by (simp add: fire_cue_def)
  moreover have "same_cue_state s s'" using r(3,4,6-10) assms(3) ids by (simp add: same_cue_state_def)
  moreover have "pending s' q = pending s q @ [cue_event t (es_tv s) p]" if "q \<in> set (queue_ids s)" for q
    using r(5) that ids pe by (simp add: event_copy_def cue_event_def)
  ultimately show ?thesis using True r(2,6) by (intro exI [of _ s']) simp
qed

lemma same_cue_state_trans:
  "same_cue_state s s1 \<Longrightarrow> same_cue_state s1 s2 \<Longrightarrow> same_cue_state s s2"
  by (simp add: same_cue_state_def)

lemma same_cue_state_freq:
  assumes "same_cue_state s s'" and "es_cue s c = Some p"
  shows "\<exists>p'. es_cue s' c = Some p' \<and> cp_frequency p' = cp_frequency p"
proof -
  have "map_option (\<lambda>p. (cp_cuetime p, cp_frequency p)) (es_cue s' c) = Some (cp_cuetime p, cp_frequency p)"
    using assms by (simp add: same_cue_state_def)
  then show ?thesis by auto
qed

lemma cue_fold_ok:
  "ev_inv s H \<Longrightarrow> length (queue_ids s) < k \<Longrightarrow> distinct cs \<Longrightarrow> set cs \<subseteq> dom (es_cue s) \<Longrightarrow>
    \<forall>c \<in> set cs. cp_frequency (the (es_cue s c)) \<noteq> 0 \<Longrightarrow>
    \<exists>s'. fold_all (cue_one k t n) cs s = Ret s' \<and> ev_inv s' H \<and> same_cue_state s s' \<and>
      (\<forall>q \<in> set (queue_ids s). pending s' q = pending s q @
         map (cue_event t (es_tv s)) (filter (cue_due t n) (map (the \<circ> es_cue s) cs)))"
proof (induction cs arbitrary: s)
  case Nil
  then show ?case by (simp add: same_cue_state_def)
next
  case (Cons c cs)
  then obtain p where p: "es_cue s c = Some p" by auto
  have f: "cp_frequency p \<noteq> 0" using Cons.prems(5) p by simp
  from cue_one_ok [OF Cons.prems(1,2) p f, of t n] obtain s1 where
    s1: "cue_one k t n c s = Ret s1" "ev_inv s1 H" "same_cue_state s s1"
    "\<forall>c'. c' \<noteq> c \<longrightarrow> es_cue s1 c' = es_cue s c'"
    "\<forall>q \<in> set (queue_ids s). pending s1 q = pending s q @ (if cue_due t n p then [cue_event t (es_tv s) p] else [])"
    by (elim exE conjE) (rule that)
  have same: "\<forall>c' \<in> set cs. es_cue s1 c' = es_cue s c'" using s1(4) Cons.prems(3) by auto
  have ids: "queue_ids s1 = queue_ids s" "es_tv s1 = es_tv s" using s1(3) by (simp_all add: same_cue_state_def)
  have sub: "set cs \<subseteq> dom (es_cue s1)" using Cons.prems(4) same by (force simp: dom_def)
  have fr: "\<forall>c' \<in> set cs. cp_frequency (the (es_cue s1 c')) \<noteq> 0" using Cons.prems(5) same by simp
  have len: "length (queue_ids s1) < k" using Cons.prems(2) ids by simp
  have dc: "distinct cs" using Cons.prems(3) by simp
  from Cons.IH [OF s1(2) len dc sub fr] obtain s2 where
    s2: "fold_all (cue_one k t n) cs s1 = Ret s2" "ev_inv s2 H" "same_cue_state s1 s2"
    "\<forall>q \<in> set (queue_ids s1). pending s2 q = pending s1 q @
         map (cue_event t (es_tv s1)) (filter (cue_due t n) (map (the \<circ> es_cue s1) cs))"
    by (elim exE conjE) (rule that)
  have mp: "map (the \<circ> es_cue s1) cs = map (the \<circ> es_cue s) cs" using same by simp
  have "\<forall>q \<in> set (queue_ids s). pending s2 q = pending s q @
         map (cue_event t (es_tv s)) (filter (cue_due t n) (map (the \<circ> es_cue s) (c # cs)))"
    using s1(5) s2(4) [unfolded mp] ids p by simp
  moreover have "fold_all (cue_one k t n) (c # cs) s = Ret s2" using s1(1) s2(1) by simp
  ultimately show ?case using s2(2) same_cue_state_trans [OF s1(3) s2(3)] by blast
qed

text \<open>
  With frequencies above 0, \<open>xine_cue_point_event\<close> returns, and every queue of the
  stream gets one event, in the order of the cue points, for each of them that is due and none
  for the others.
\<close>

theorem cue_point_event_sends_due:
  assumes "ev_reach cb (s, H)" and "cue_inv s" and "length (cue_ids s) < k" and "length (queue_ids s) < k"
    and "\<forall>p \<in> set (cues s). cp_frequency p > 0" and "now \<noteq> 0"
    and "t = (now - es_vpts_offset s) sdiv 90" and "es_org_next_cue_time s \<le> t" and "- (2 ^ 31) \<le> t" and "t < 2 ^ 31"
  shows "\<exists>s'. xine_cue_point_event k now s = Ret s' \<and>
    (\<forall>q \<in> set (queue_ids s). pending s' q = pending s q @
       map (cue_event t (es_tv s)) (filter (cue_due t (es_org_next_cue_time s)) (cues s)))"
proof -
  let ?o = "es_org_next_cue_time s"
  have I: "ev_inv s H" using ev_reach_inv [OF assms(1)] by simp
  have t32: "s32 t = t" using assms(9,10) by (rule s32_id)
  have C: "holds xl_is (es_cues s) (cue_ids s)" "distinct (cue_ids s)" "set (cue_ids s) \<subseteq> dom (es_cue s)"
    "\<forall>c \<in> dom (es_cue s). c < es_cfresh s" using assms(2) by (simp_all add: cue_inv_def)
  have fr: "\<forall>c \<in> set (cue_ids s). cp_frequency (the (es_cue s c)) \<noteq> 0" using assms(5) by (auto simp: cues_def)
  from cue_fold_ok [OF I assms(4) C(2,3) fr, of t ?o] obtain s1 where
    s1: "fold_all (cue_one k t ?o) (cue_ids s) s = Ret s1" "ev_inv s1 H" "same_cue_state s s1"
    "\<forall>q \<in> set (queue_ids s). pending s1 q = pending s q @
       map (cue_event t (es_tv s)) (filter (cue_due t ?o) (cues s))"
    unfolding cues_def [symmetric] by (elim exE conjE) (rule that)
  obtain l1 where l1: "visit_all xine_list_first_content xine_list_next_content (cue_one k t ?o) k (es_cues s) s = Ret (s1, l1)"
    "holds xl_is l1 (cue_ids s)" using xl.holds_visit [OF C(1) assms(3) s1(1)] by blast
  let ?s2 = "s1\<lparr>es_cues := l1\<rparr>"
  have dom: "dom (es_cue s1) = dom (es_cue s)"
  proof (rule set_eqI)
    fix c
    have "map_option (\<lambda>p. (cp_cuetime p, cp_frequency p)) (es_cue s1 c) =
          map_option (\<lambda>p. (cp_cuetime p, cp_frequency p)) (es_cue s c)"
      using s1(3) by (simp add: same_cue_state_def)
    then show "c \<in> dom (es_cue s1) \<longleftrightarrow> c \<in> dom (es_cue s)"
      by (cases "es_cue s1 c"; cases "es_cue s c") auto
  qed
  have cf: "es_cfresh s1 = es_cfresh s" "es_vpts_offset s1 = es_vpts_offset s"
    using s1(3) by (simp_all add: same_cue_state_def)
  have I2: "cue_inv ?s2" "cue_ids ?s2 = cue_ids s"
    using cue_invI [of ?s2 "cue_ids s"] l1(2) C(2-4) dom cf by simp_all
  have "cp_frequency (the (es_cue s1 c)) \<ge> 0" if c: "c \<in> set (cue_ids s)" for c
  proof -
    obtain p where p: "es_cue s c = Some p" using C(3) c by blast
    then have "p \<in> set (cues s)" using c by (force simp: cues_def)
    then show ?thesis using same_cue_state_freq [OF s1(3) p] assms(5) by fastforce
  qed
  then have fr2: "\<forall>p \<in> set (cues ?s2). cp_frequency p \<ge> 0" using I2(2) by (simp add: cues_def)
  have len2: "length (cue_ids ?s2) < k" using assms(3) I2(2) by simp
  have t2: "((if now = 0 then es_clock ?s2 else now) - es_vpts_offset ?s2) sdiv 90 = t"
    using assms(6,7) cf by simp
  obtain s3 where s3: "xine_recalculate_next_cue_point k now ?s2 = Ret s3"
    using recalc_returns [OF I2(1) len2 fr2, of now] unfolding t2 using assms(9) by blast
  have ev: "pending s3 q = pending s1 q" for q using recalc_keeps [OF s3] by (simp add: pending_def event_ids_def)
  have "xine_cue_point_event k now s = Ret s3"
    using l1(1) s3 assms(8) t32 unfolding assms(7) by (simp add: xine_cue_point_event_def Let_def)
  then show ?thesis using s1(4) ev by auto
qed

text \<open>One queue and one cue point, at 400 and then every 300.\<close>

definition cue_demo2 :: "unit evsys outcome" where
  "cue_demo2 = obind ev_run (\<lambda>(q, s). xine_event_create_cue_point 400 300 0 s)"

lemma create_cue_step:
  "xine_event_create_cue_point t f ud s = Ret s' \<Longrightarrow> ev_step cb (s, H) (s', H)"
proof -
  assume "xine_event_create_cue_point t f ud s = Ret s'"
  then obtain m l where s': "s' = s\<lparr>es_cue := m, es_cfresh := es_cfresh s + 1, es_cues := l\<rparr>"
    by (auto simp: xine_event_create_cue_point_def Let_def obind_eq_Ret)
  have "ev_step cb (s, H)
     (s\<lparr>es_cue := m, es_cfresh := es_cfresh s + 1, es_cues := l, es_next_cue_time := es_next_cue_time s,
        es_org_next_cue_time := es_org_next_cue_time s, es_next_cue_data := es_next_cue_data s,
        es_clock := es_clock s, es_vpts_offset := es_vpts_offset s, es_tv := es_tv s, es_world := es_world s\<rparr>, H)"
    by (rule ev_step.ev_other)
  then show ?thesis by (simp add: s')
qed

theorem cue_point_event_sends_due_witness:
  "\<exists>s s'. cue_demo2 = Ret s \<and> xine_cue_point_event 3 63000 s = Ret s' \<and> length (pending s' 0) = 1"
proof -
  obtain s0 where s0: "ev_run = Ret (0, s0)" "ev_reach no_listen (s0, {})" "queue_ids s0 = [0]"
    "pending s0 0 = []" using ev_run_ok by blast
  have e: "es_cues s0 = xine_list_new" "es_cue s0 = Map.empty" "es_cfresh s0 = 0" "es_vpts_offset s0 = 0"
    "es_org_next_cue_time s0 = 0"
    using s0(1) by (auto simp: ev_run_def xine_event_new_queue_def Let_def obind_eq_Ret ev_start_def)
  have n: "holds xl_is (es_cues s0) []" unfolding e
    by (rule holdsI [of xl_is, OF list_new_ok]) (simp_all add: solid_def contents_def cl_all_def)
  have i: "cue_inv s0" "cue_ids s0 = []" using cue_invI [of s0 "[]", OF n] e by simp_all
  then have "cues s0 = []" by (simp add: cues_def)
  then obtain s where s: "xine_event_create_cue_point 400 300 0 s0 = Ret s" "cue_inv s" "cue_ids s = [0]"
    "cues s = [\<lparr>cp_cuetime = 400, cp_frequency = 300, cp_currtime = 0, cp_user_data = 0\<rparr>]"
    "es_vpts_offset s = 0" "es_org_next_cue_time s = 0"
    using create_cue_ok [OF i(1), of 400 300 0] i(2) e by auto
  have r: "ev_reach no_listen (s, {})" using s0(2) create_cue_step [OF s(1)] by (rule ev_reach.step)
  have es: "es_queues s = es_queues s0" "es_queue s = es_queue s0" "es_event s = es_event s0"
    using s(1) by (auto simp: xine_event_create_cue_point_def Let_def obind_eq_Ret)
  have q: "queue_ids s = [0]" "pending s 0 = []"
    using s0(3,4) es by (simp_all add: queue_ids_def pending_def event_ids_def)
  have t: "700 = (63000 - es_vpts_offset s) sdiv 90" using s(5) by (simp add: sdiv_nonneg)
  have len: "length (cue_ids s) < 3" "length (queue_ids s) < 3" using s(3) q by simp_all
  have fr: "\<forall>p \<in> set (cues s). cp_frequency p > 0" "63000 \<noteq> (0::int)" "es_org_next_cue_time s \<le> 700"
    "- (2 ^ 31) \<le> (700::int)" "(700::int) < 2 ^ 31" using s(4,6) by simp_all
  obtain s' where s': "xine_cue_point_event 3 63000 s = Ret s'" "pending s' 0 = pending s 0 @
       map (cue_event 700 (es_tv s)) (filter (cue_due 700 (es_org_next_cue_time s)) (cues s))"
    using cue_point_event_sends_due [OF r s(2) len fr(1,2) t fr(3-5)] q by auto
  have "cue_due 700 0 \<lparr>cp_cuetime = 400, cp_frequency = 300, cp_currtime = 0, cp_user_data = 0\<rparr>"
    by (simp add: cue_due_def)
  then have "length (pending s' 0) = 1" unfolding s'(2) using q(2) s(4,6) by simp
  moreover have "cue_demo2 = Ret s" unfolding cue_demo2_def s0(1) using s(1) by simp
  ultimately show ?thesis using s'(1) by blast
qed

end
