(* ===== verification/Scr_Clock.thy ===== *)
theory Scr_Clock
  imports Xine_Prelude
begin

text \<open>
  The system clock references and the master clock of src/src/xine-engine/metronom.c: the
  unix SCR, and the clock that holds up to ten providers and follows the one of the highest
  priority. \<open>gettimeofday\<close> is the argument \<open>tv\<close>, in seconds and microseconds; the
  doubles of the unix SCR are read as exact numbers, so that \<open>speed_factor\<close> is
  \<open>speed * 22500\<close> and the conversion to \<open>int64_t\<close> truncates.
\<close>

section \<open>The unix system clock reference\<close>

record timeval =
  tv_sec :: int
  tv_usec :: int

record unixscr =
  us_cur_time :: timeval
  us_cur_pts :: int
  us_speed_factor :: int

definition XINE_SPEED_PAUSE :: int where
  "XINE_SPEED_PAUSE = 0"

definition XINE_SPEED_NORMAL :: int where
  "XINE_SPEED_NORMAL = 4"

definition unixscr_get_priority :: int where
  "unixscr_get_priority = 5"

text \<open>\<open>cur_pts + dsec * f + dusec * f / 1e6\<close>, truncated.\<close>

definition unixscr_pts :: "timeval \<Rightarrow> unixscr \<Rightarrow> int" where
  "unixscr_pts tv u =
     (us_cur_pts u * 1000000 +
      (tv_sec tv - tv_sec (us_cur_time u)) * us_speed_factor u * 1000000 +
      (tv_usec tv - tv_usec (us_cur_time u)) * us_speed_factor u) sdiv 1000000"

definition unixscr_set_pivot :: "timeval \<Rightarrow> unixscr \<Rightarrow> unixscr" where
  "unixscr_set_pivot tv u = u\<lparr>us_cur_time := tv, us_cur_pts := unixscr_pts tv u\<rparr>"

definition unixscr_set_speed :: "timeval \<Rightarrow> int \<Rightarrow> unixscr \<Rightarrow> int \<times> unixscr" where
  "unixscr_set_speed tv speed u =
     (speed, (unixscr_set_pivot tv u)\<lparr>us_speed_factor := speed * 22500\<rparr>)"

definition unixscr_adjust :: "timeval \<Rightarrow> int \<Rightarrow> unixscr \<Rightarrow> unixscr" where
  "unixscr_adjust tv vpts u = u\<lparr>us_cur_time := tv, us_cur_pts := vpts\<rparr>"

text \<open>\<open>tv'\<close> is the second reading, in \<open>unixscr_set_speed\<close>.\<close>

definition unixscr_start :: "timeval \<Rightarrow> timeval \<Rightarrow> int \<Rightarrow> unixscr \<Rightarrow> unixscr" where
  "unixscr_start tv tv' start_vpts u =
     snd (unixscr_set_speed tv' XINE_SPEED_NORMAL (u\<lparr>us_cur_time := tv, us_cur_pts := start_vpts\<rparr>))"

definition unixscr_get_current :: "timeval \<Rightarrow> unixscr \<Rightarrow> int" where
  "unixscr_get_current tv u = unixscr_pts tv u"

definition unixscr_init :: "timeval \<Rightarrow> unixscr" where
  "unixscr_init tv =
     snd (unixscr_set_speed tv XINE_SPEED_PAUSE
            \<lparr>us_cur_time = \<lparr>tv_sec = 0, tv_usec = 0\<rparr>, us_cur_pts = 0, us_speed_factor = 0\<rparr>)"

section \<open>The master clock\<close>

text \<open>
  What the clock calls of a provider, by the provider's address: the plugins behind it are not
  all in this file, so they act on a world \<open>'w\<close> that holds their state and the time.
\<close>

record 'w scr_api =
  sa_interface_version :: "nat \<Rightarrow> int"
  sa_get_priority :: "nat \<Rightarrow> int"
  sa_start :: "nat \<Rightarrow> int \<Rightarrow> 'w \<Rightarrow> 'w"
  sa_get_current :: "nat \<Rightarrow> 'w \<Rightarrow> int"
  sa_set_speed :: "nat \<Rightarrow> int \<Rightarrow> 'w \<Rightarrow> int \<times> 'w"
  sa_adjust :: "nat \<Rightarrow> int \<Rightarrow> 'w \<Rightarrow> 'w"
  sa_exit :: "nat \<Rightarrow> 'w \<Rightarrow> 'w"

record 'w metronom_clock =
  ck_scr_list :: "nat option list"
  ck_scr_master :: "nat option"
  ck_thread_running :: bool
  ck_scr_adjustable :: int
  ck_speed :: int
  ck_world :: 'w

definition MAX_SCR_PROVIDERS :: nat where
  "MAX_SCR_PROVIDERS = 10"

text \<open>\<open>for (scr = scr_list; ...; scr++) if (*scr) f (*scr)\<close>\<close>

fun scr_all :: "(nat \<Rightarrow> 'w \<Rightarrow> 'w) \<Rightarrow> nat option list \<Rightarrow> 'w \<Rightarrow> 'w" where
  "scr_all f [] w = w"
| "scr_all f (None # xs) w = scr_all f xs w"
| "scr_all f (Some i # xs) w = scr_all f xs (f i w)"

definition metronom_start_clock :: "'w scr_api \<Rightarrow> int \<Rightarrow> 'w metronom_clock \<Rightarrow> 'w metronom_clock" where
  "metronom_start_clock A pts c =
     c\<lparr>ck_world := scr_all (\<lambda>i. sa_start A i pts) (ck_scr_list c) (ck_world c), ck_speed := XINE_SPEED_NORMAL\<rparr>"

definition metronom_get_current_time :: "'w scr_api \<Rightarrow> 'w metronom_clock \<Rightarrow> int outcome" where
  "metronom_get_current_time A c = obind (of_opt (ck_scr_master c)) (\<lambda>m. Ret (sa_get_current A m (ck_world c)))"

definition metronom_stop_clock :: "'w scr_api \<Rightarrow> 'w metronom_clock \<Rightarrow> 'w metronom_clock" where
  "metronom_stop_clock A c =
     c\<lparr>ck_world := scr_all (\<lambda>i w. snd (sa_set_speed A i XINE_SPEED_PAUSE w)) (ck_scr_list c) (ck_world c)\<rparr>"

definition metronom_resume_clock :: "'w scr_api \<Rightarrow> 'w metronom_clock \<Rightarrow> 'w metronom_clock" where
  "metronom_resume_clock A c =
     c\<lparr>ck_world := scr_all (\<lambda>i w. snd (sa_set_speed A i XINE_SPEED_NORMAL w)) (ck_scr_list c) (ck_world c)\<rparr>"

definition metronom_adjust_clock :: "'w scr_api \<Rightarrow> int \<Rightarrow> 'w metronom_clock \<Rightarrow> 'w metronom_clock outcome" where
  "metronom_adjust_clock A desired_pts c =
     (if ck_scr_adjustable c \<noteq> 0 then
        obind (of_opt (ck_scr_master c)) (\<lambda>m.
        Ret (c\<lparr>ck_world := sa_adjust A m desired_pts (ck_world c)\<rparr>))
      else Ret c)"

definition metronom_set_speed :: "'w scr_api \<Rightarrow> int \<Rightarrow> 'w metronom_clock \<Rightarrow> (int \<times> 'w metronom_clock) outcome" where
  "metronom_set_speed A speed c =
     obind (of_opt (ck_scr_master c)) (\<lambda>m.
     (let (true_speed, w) = sa_set_speed A m speed (ck_world c) in
      Ret (true_speed,
           c\<lparr>ck_speed := true_speed,
             ck_world := scr_all (\<lambda>i w. snd (sa_set_speed A i true_speed w)) (ck_scr_list c) w\<rparr>)))"

definition CLOCK_SCR_ADJUSTABLE :: int where
  "CLOCK_SCR_ADJUSTABLE = 1"

definition metronom_clock_set_option :: "int \<Rightarrow> int \<Rightarrow> 'w metronom_clock \<Rightarrow> 'w metronom_clock" where
  "metronom_clock_set_option opt val c =
     (if opt = CLOCK_SCR_ADJUSTABLE then c\<lparr>ck_scr_adjustable := s32 val\<rparr> else c)"

definition metronom_clock_get_option :: "int \<Rightarrow> 'w metronom_clock \<Rightarrow> int" where
  "metronom_clock_get_option opt c = (if opt = CLOCK_SCR_ADJUSTABLE then ck_scr_adjustable c else 0)"

text \<open>The loop of \<open>get_master_scr\<close>: \<open>select\<close> (-1 is None) and \<open>maxprio\<close>.\<close>

fun master_loop :: "'w scr_api \<Rightarrow> nat option list \<Rightarrow> nat option \<Rightarrow> int \<Rightarrow> nat option" where
  "master_loop A [] sel maxprio = sel"
| "master_loop A (None # xs) sel maxprio = master_loop A xs sel maxprio"
| "master_loop A (Some i # xs) sel maxprio =
     (if maxprio < sa_get_priority A i then master_loop A xs (Some i) (sa_get_priority A i)
      else master_loop A xs sel maxprio)"

definition get_master_scr :: "'w scr_api \<Rightarrow> 'w metronom_clock \<Rightarrow> nat option" where
  "get_master_scr A c = master_loop A (ck_scr_list c) None 0"

text \<open>The first index from \<open>i\<close> on with the given entry.\<close>

fun index_from :: "nat option \<Rightarrow> nat option list \<Rightarrow> nat \<Rightarrow> nat option" where
  "index_from x [] i = None"
| "index_from x (y # ys) i = (if y = x then Some i else index_from x ys (i + 1))"

definition metronom_register_scr :: "'w scr_api \<Rightarrow> nat \<Rightarrow> 'w metronom_clock \<Rightarrow> int \<times> 'w metronom_clock" where
  "metronom_register_scr A scr c =
     (if sa_interface_version A scr \<noteq> 2 then (-1, c)
      else case index_from None (ck_scr_list c) 0 of
             None \<Rightarrow> (-1, c)
           | Some i \<Rightarrow>
               (let c1 = c\<lparr>ck_scr_list := (ck_scr_list c)[i := Some scr]\<rparr> in
                (0, c1\<lparr>ck_scr_master := get_master_scr A c1\<rparr>)))"

definition metronom_unregister_scr :: "'w scr_api \<Rightarrow> nat \<Rightarrow> 'w metronom_clock \<Rightarrow> 'w metronom_clock outcome" where
  "metronom_unregister_scr A scr c =
     (case index_from (Some scr) (drop 1 (ck_scr_list c)) 1 of
        None \<Rightarrow> Ret c
      | Some i \<Rightarrow>
          (let c1 = c\<lparr>ck_scr_list := (ck_scr_list c)[i := None]\<rparr> in
           obind (metronom_get_current_time A c1) (\<lambda>time.
           (let c2 = c1\<lparr>ck_world := scr_all (\<lambda>i. sa_adjust A i time) (ck_scr_list c1) (ck_world c1)\<rparr> in
            Ret (c2\<lparr>ck_scr_master := get_master_scr A c2\<rparr>)))))"

text \<open>One round of \<open>metronom_sync_loop\<close>, every five seconds.\<close>

definition metronom_sync :: "'w scr_api \<Rightarrow> 'w metronom_clock \<Rightarrow> 'w metronom_clock outcome" where
  "metronom_sync A c =
     (if ck_thread_running c then
        obind (of_opt (ck_scr_master c)) (\<lambda>m.
        (let pts = sa_get_current A m (ck_world c) in
         Ret (c\<lparr>ck_world := scr_all (\<lambda>i w. if i \<noteq> m then sa_adjust A i pts w else w) (ck_scr_list c) (ck_world c)\<rparr>)))
      else Ret c)"

definition metronom_clock_exit :: "'w scr_api \<Rightarrow> 'w metronom_clock \<Rightarrow> 'w" where
  "metronom_clock_exit A c = scr_all (sa_exit A) (ck_scr_list c) (ck_world c)"

text \<open>The unix SCR is registered first; the uninitialised fields are arguments.\<close>

definition metronom_clock_init :: "'w scr_api \<Rightarrow> nat \<Rightarrow> int \<Rightarrow> 'w \<Rightarrow> 'w metronom_clock" where
  "metronom_clock_init A unix speed0 w =
     (snd (metronom_register_scr A unix
        \<lparr>ck_scr_list = replicate MAX_SCR_PROVIDERS None, ck_scr_master = None, ck_thread_running = False,
         ck_scr_adjustable = 1, ck_speed = speed0, ck_world = w\<rparr>))\<lparr>ck_thread_running := True\<rparr>"


section \<open>The unix clock runs at its speed\<close>

text \<open>
  What the master clock relies on in a provider: it can be set to a value, changing its speed
  does not make it jump, and it advances by the speed's ticks per second. Times are in
  microseconds.
\<close>

locale scr_source =
  fixes current :: "int \<Rightarrow> 's \<Rightarrow> int"
    and set_rate :: "int \<Rightarrow> int \<Rightarrow> 's \<Rightarrow> 's"
    and adjust :: "int \<Rightarrow> int \<Rightarrow> 's \<Rightarrow> 's"
  assumes adjust_law: "current t (adjust t v s) = v"
    and rate_law: "current t (set_rate t n s) = current t s"
    and run_law: "0 \<le> current t s \<Longrightarrow> 0 \<le> n \<Longrightarrow> 0 \<le> d \<Longrightarrow>
      current (t + d) (set_rate t n s) = current t s + d * n * 22500 div 1000000"
begin

text \<open>A pause loses no ticks and invents none: playing for \<open>d\<close> after a pause of any
  length shows the ticks of \<open>d\<close>.\<close>

lemma pause_resume:
  assumes "0 \<le> current t s" and "0 \<le> p" and "0 \<le> d" and "0 \<le> n"
  shows "current (t + p + d) (set_rate (t + p) n (set_rate t 0 s)) = current t s + d * n * 22500 div 1000000"
proof -
  have p: "current (t + p) (set_rate t 0 s) = current t s" using run_law [OF assms(1) _ assms(2), of 0] by simp
  with assms(1) have "0 \<le> current (t + p) (set_rate t 0 s)" by simp
  from run_law [OF this assms(4,3)] p show ?thesis by simp
qed

lemma runs_forward:
  assumes "0 \<le> current t s" and "0 \<le> n" and "0 \<le> d" and "d \<le> d'"
  shows "current (t + d) (set_rate t n s) \<le> current (t + d') (set_rate t n s)"
proof -
  have "d * n * 22500 \<le> d' * n * 22500" using assms(2,4) by (simp add: mult_right_mono)
  then show ?thesis using run_law [OF assms(1,2)] assms(3,4) zdiv_mono1 by simp
qed

end

definition tv_of :: "int \<Rightarrow> timeval" where
  "tv_of t = \<lparr>tv_sec = t div 1000000, tv_usec = t mod 1000000\<rparr>"

lemma sec_usec: "(x - x') * f * M + (y - y') * f = ((x * M + y) - (x' * M + y')) * (f::int)"
  by (simp add: algebra_simps)

lemma unixscr_pts_at:
  "us_cur_time u = tv_of t \<Longrightarrow>
    unixscr_pts (tv_of (t + d)) u = (us_cur_pts u * 1000000 + d * us_speed_factor u) sdiv 1000000"
proof -
  assume u: "us_cur_time u = tv_of t"
  have "((t + d) div 1000000 - t div 1000000) * f * 1000000 + ((t + d) mod 1000000 - t mod 1000000) * f = d * f" for f :: int
    using sec_usec [of "(t + d) div 1000000" "t div 1000000" f 1000000 "(t + d) mod 1000000" "t mod 1000000"]
    by (simp add: div_mult_mod_eq)
  then show ?thesis by (simp add: unixscr_pts_def u tv_of_def add.assoc)
qed

definition us_rate :: "int \<Rightarrow> int \<Rightarrow> unixscr \<Rightarrow> unixscr" where
  "us_rate t n u = snd (unixscr_set_speed (tv_of t) n u)"

lemma us_rate_reads:
  "unixscr_get_current (tv_of (t + d)) (us_rate t n u) =
    (unixscr_get_current (tv_of t) u * 1000000 + d * (n * 22500)) sdiv 1000000"
  unfolding unixscr_get_current_def
  by (subst unixscr_pts_at [of _ t]) (simp_all add: us_rate_def unixscr_set_speed_def unixscr_set_pivot_def)

lemma sdiv_cancel: "x * 1000000 sdiv 1000000 = (x::int)"
proof (cases "0 \<le> x")
  case False
  then have "x * 1000000 sdiv 1000000 = - (- (x * 1000000) div 1000000)" by (intro sdiv_nonpos) auto
  then show ?thesis by simp
qed (simp add: sdiv_nonneg)

interpretation us: scr_source "\<lambda>t. unixscr_get_current (tv_of t)" us_rate "\<lambda>t. unixscr_adjust (tv_of t)"
proof unfold_locales
  fix t v n d :: int and u :: unixscr
  show "unixscr_get_current (tv_of t) (unixscr_adjust (tv_of t) v u) = v"
    using unixscr_pts_at [of "unixscr_adjust (tv_of t) v u" t 0]
    by (simp add: unixscr_get_current_def unixscr_adjust_def sdiv_cancel)
  show "unixscr_get_current (tv_of t) (us_rate t n u) = unixscr_get_current (tv_of t) u"
    using us_rate_reads [of t 0 n u] by (simp add: sdiv_cancel)
  assume a: "0 \<le> unixscr_get_current (tv_of t) u" "0 \<le> n" "0 \<le> d"
  have "(c * 1000000 + d * (n * 22500)) sdiv 1000000 = c + d * n * 22500 div 1000000" if "0 \<le> c" for c :: int
  proof -
    have "(c * 1000000 + d * (n * 22500)) sdiv 1000000 = (d * n * 22500 + c * 1000000) div 1000000"
      using that a(2,3) by (simp add: sdiv_nonneg add.commute mult.assoc)
    then show ?thesis by simp
  qed
  then show "unixscr_get_current (tv_of (t + d)) (us_rate t n u) =
      unixscr_get_current (tv_of t) u + d * n * 22500 div 1000000"
    using a(1) by (simp add: us_rate_reads)
qed

text \<open>
  The unix SCR: an adjusted clock shows the value it was set to; changing the speed makes
  no jump; at speed \<open>n\<close> (4 is normal) it advances by \<open>n * 22500\<close> ticks a second, never
  backwards; and a pause, however long, adds no tick.
\<close>

theorem unixscr_runs:
  assumes "0 \<le> unixscr_get_current (tv_of t) u" and "0 \<le> n" and "0 \<le> d" and "0 \<le> p"
  shows "unixscr_get_current (tv_of t) (unixscr_adjust (tv_of t) v u) = v \<and>
    unixscr_get_current (tv_of (t + d)) (snd (unixscr_set_speed (tv_of t) n u)) =
      unixscr_get_current (tv_of t) u + d * n * 22500 div 1000000 \<and>
    unixscr_get_current (tv_of (t + p + d)) (snd (unixscr_set_speed (tv_of (t + p)) n
        (snd (unixscr_set_speed (tv_of t) XINE_SPEED_PAUSE u)))) =
      unixscr_get_current (tv_of t) u + d * n * 22500 div 1000000"
  using us.adjust_law [of t v u] us.run_law [OF assms(1-3)] us.pause_resume [OF assms(1,4,3,2)]
  by (simp add: us_rate_def XINE_SPEED_PAUSE_def)

theorem unixscr_runs_witness:
  "unixscr_get_current (tv_of 3500000) (snd (unixscr_set_speed (tv_of 1000000) XINE_SPEED_NORMAL
     (unixscr_init (tv_of 500000)))) = 225000"
proof -
  have 0: "unixscr_get_current (tv_of 1000000) (unixscr_init (tv_of 500000)) = 0"
    by (simp add: unixscr_init_def unixscr_set_speed_def unixscr_set_pivot_def unixscr_get_current_def
        unixscr_pts_def tv_of_def XINE_SPEED_PAUSE_def sdiv_nonneg)
  show ?thesis
    using unixscr_runs [of 1000000 "unixscr_init (tv_of 500000)" 4 2500000 0 0] 0
    by (simp add: XINE_SPEED_NORMAL_def)
qed

section \<open>The master is the best provider\<close>

lemma master_loop_spec:
  "if \<exists>i. Some i \<in> set xs \<and> mp < sa_get_priority A i
   then \<exists>m. master_loop A xs sel mp = Some m \<and> Some m \<in> set xs \<and> mp < sa_get_priority A m \<and>
     (\<forall>i. Some i \<in> set xs \<longrightarrow> sa_get_priority A i \<le> sa_get_priority A m)
   else master_loop A xs sel mp = sel"
proof (induction xs arbitrary: sel mp)
  case Nil
  then show ?case by simp
next
  case (Cons x xs)
  show ?case
  proof (cases x)
    case None
    then show ?thesis using Cons.IH [of mp sel] by simp
  next
    case (Some i)
    show ?thesis
    proof (cases "mp < sa_get_priority A i")
      case True
      have "\<exists>m. master_loop A xs (Some i) (sa_get_priority A i) = Some m \<and> Some m \<in> set (Some i # xs) \<and>
          mp < sa_get_priority A m \<and> (\<forall>j. Some j \<in> set (Some i # xs) \<longrightarrow> sa_get_priority A j \<le> sa_get_priority A m)"
      proof (cases "\<exists>j. Some j \<in> set xs \<and> sa_get_priority A i < sa_get_priority A j")
        case True': True
        with Cons.IH [of "sa_get_priority A i" "Some i"] obtain m where
          "master_loop A xs (Some i) (sa_get_priority A i) = Some m" "Some m \<in> set xs"
          "sa_get_priority A i < sa_get_priority A m"
          "\<forall>j. Some j \<in> set xs \<longrightarrow> sa_get_priority A j \<le> sa_get_priority A m" by auto
        with True show ?thesis by auto
      next
        case False
        with Cons.IH [of "sa_get_priority A i" "Some i"] True show ?thesis by (auto simp: not_less)
      qed
      then show ?thesis using Some True by auto
    next
      case False
      show ?thesis
      proof (cases "\<exists>j. Some j \<in> set xs \<and> mp < sa_get_priority A j")
        case True
        with Cons.IH [of mp sel] obtain m where
          "master_loop A xs sel mp = Some m" "Some m \<in> set xs" "mp < sa_get_priority A m"
          "\<forall>j. Some j \<in> set xs \<longrightarrow> sa_get_priority A j \<le> sa_get_priority A m" by auto
        with False Some True show ?thesis by auto
      next
        case F: False
        have "master_loop A xs sel mp = sel" using Cons.IH [of mp sel] F by (simp only: if_False)
        with False Some F show ?thesis by auto
      qed
    qed
  qed
qed

lemma index_from_spec:
  "index_from x ys i = (if x \<in> set ys then Some (i + length (takeWhile (\<lambda>y. y \<noteq> x) ys)) else None)"
  by (induction ys arbitrary: i) auto

text \<open>
  The clocks the operations reach. Only a provider that has been registered with a positive
  priority can be master.
\<close>

definition clock_ok :: "'w scr_api \<Rightarrow> nat \<Rightarrow> 'w metronom_clock \<Rightarrow> bool" where
  "clock_ok A unix c \<longleftrightarrow>
     length (ck_scr_list c) = MAX_SCR_PROVIDERS \<and> ck_scr_list c ! 0 = Some unix \<and>
     (\<exists>m. ck_scr_master c = Some m \<and> Some m \<in> set (ck_scr_list c) \<and> 0 < sa_get_priority A m \<and>
        (\<forall>i. Some i \<in> set (ck_scr_list c) \<longrightarrow> sa_get_priority A i \<le> sa_get_priority A m))"

lemma get_master_ok:
  assumes "length (ck_scr_list c) = MAX_SCR_PROVIDERS" and "ck_scr_list c ! 0 = Some unix"
    and "0 < sa_get_priority A unix"
  shows "clock_ok A unix (c\<lparr>ck_scr_master := get_master_scr A c\<rparr>)"
proof -
  have "Some unix \<in> set (ck_scr_list c)" using assms(1,2) by (metis MAX_SCR_PROVIDERS_def nth_mem zero_less_numeral)
  then have "\<exists>i. Some i \<in> set (ck_scr_list c) \<and> 0 < sa_get_priority A i" using assms(3) by blast
  with master_loop_spec [of "ck_scr_list c" 0 A None] show ?thesis using assms(1,2)
    by (simp only: if_True) (simp add: clock_ok_def get_master_scr_def)
qed

lemma register_ok:
  assumes "clock_ok A unix c" and "0 < sa_get_priority A unix"
  shows "clock_ok A unix (snd (metronom_register_scr A scr c))"
proof -
  note ck = assms(1) [unfolded clock_ok_def]
  show ?thesis
  proof (cases "sa_interface_version A scr \<noteq> 2 \<or> None \<notin> set (ck_scr_list c)")
    case True
    then show ?thesis using assms(1) by (auto simp: metronom_register_scr_def index_from_spec)
  next
    case False
    let ?i = "length (takeWhile (\<lambda>y. y \<noteq> None) (ck_scr_list c))"
    have "ck_scr_list c \<noteq> []" using ck by (auto simp: MAX_SCR_PROVIDERS_def)
    then have "?i \<noteq> 0" using ck by (cases "ck_scr_list c") auto
    then have "(ck_scr_list c)[?i := Some scr] ! 0 = Some unix" using ck by simp
    then show ?thesis using False ck assms(2)
      by (simp add: metronom_register_scr_def index_from_spec Let_def get_master_ok)
  qed
qed

lemma unregister_ok:
  assumes "clock_ok A unix c" and "0 < sa_get_priority A unix"
  shows "\<exists>c'. metronom_unregister_scr A scr c = Ret c' \<and> clock_ok A unix c'"
proof -
  note ck = assms(1) [unfolded clock_ok_def]
  obtain m where m: "ck_scr_master c = Some m" using ck by blast
  show ?thesis
  proof (cases "Some scr \<in> set (drop 1 (ck_scr_list c))")
    case True
    let ?i = "1 + length (takeWhile (\<lambda>y. y \<noteq> Some scr) (drop 1 (ck_scr_list c)))"
    have "(ck_scr_list c)[?i := None] ! 0 = Some unix" using ck by simp
    then show ?thesis using True ck assms(2) m
      by (simp add: metronom_unregister_scr_def index_from_spec Let_def metronom_get_current_time_def get_master_ok)
  next
    case False
    then show ?thesis using assms(1) by (simp add: metronom_unregister_scr_def index_from_spec)
  qed
qed

lemma init_ok:
  assumes "0 < sa_get_priority A unix" and "sa_interface_version A unix = 2"
  shows "clock_ok A unix (metronom_clock_init A unix n w)"
proof -
  let ?c = "\<lparr>ck_scr_list = (replicate MAX_SCR_PROVIDERS None)[0 := Some unix], ck_scr_master = None,
    ck_thread_running = False, ck_scr_adjustable = 1, ck_speed = n, ck_world = w\<rparr>"
  have "clock_ok A unix (?c\<lparr>ck_scr_master := get_master_scr A ?c\<rparr>)"
    by (rule get_master_ok) (simp_all add: MAX_SCR_PROVIDERS_def assms(1))
  then show ?thesis using assms(2)
    by (simp add: metronom_clock_init_def metronom_register_scr_def index_from_spec clock_ok_def Let_def
        MAX_SCR_PROVIDERS_def)
qed

inductive clock_reach :: "'w scr_api \<Rightarrow> nat \<Rightarrow> 'w metronom_clock \<Rightarrow> bool" for A unix where
  ck_init: "clock_reach A unix (metronom_clock_init A unix n w)"
| ck_register: "clock_reach A unix c \<Longrightarrow> clock_reach A unix (snd (metronom_register_scr A scr c))"
| ck_unregister: "clock_reach A unix c \<Longrightarrow> metronom_unregister_scr A scr c = Ret c' \<Longrightarrow> clock_reach A unix c'"
| ck_start: "clock_reach A unix c \<Longrightarrow> clock_reach A unix (metronom_start_clock A pts c)"
| ck_stop: "clock_reach A unix c \<Longrightarrow> clock_reach A unix (metronom_stop_clock A c)"
| ck_resume: "clock_reach A unix c \<Longrightarrow> clock_reach A unix (metronom_resume_clock A c)"
| ck_adjust: "clock_reach A unix c \<Longrightarrow> metronom_adjust_clock A pts c = Ret c' \<Longrightarrow> clock_reach A unix c'"
| ck_speed: "clock_reach A unix c \<Longrightarrow> metronom_set_speed A n c = Ret (m, c') \<Longrightarrow> clock_reach A unix c'"
| ck_option: "clock_reach A unix c \<Longrightarrow> clock_reach A unix (metronom_clock_set_option opt v c)"
| ck_sync: "clock_reach A unix c \<Longrightarrow> metronom_sync A c = Ret c' \<Longrightarrow> clock_reach A unix c'"
| ck_time: "clock_reach A unix c \<Longrightarrow> clock_reach A unix (c\<lparr>ck_world := w\<rparr>)"

lemma clock_ok_cong:
  "clock_ok A unix c \<Longrightarrow> ck_scr_list c' = ck_scr_list c \<Longrightarrow> ck_scr_master c' = ck_scr_master c \<Longrightarrow> clock_ok A unix c'"
  by (simp add: clock_ok_def)

lemma clock_reach_ok:
  assumes "0 < sa_get_priority A unix" and "sa_interface_version A unix = 2"
  shows "clock_reach A unix c \<Longrightarrow> clock_ok A unix c"
proof (induction rule: clock_reach.induct)
  case (ck_init n w)
  show ?case by (rule init_ok [OF assms])
next
  case (ck_register c scr)
  then show ?case using register_ok [OF _ assms(1)] by blast
next
  case (ck_unregister c scr c')
  then show ?case using unregister_ok [OF _ assms(1), of c scr] by auto
next
  case (ck_adjust c pts c')
  then show ?case by (auto simp: metronom_adjust_clock_def obind_eq_Ret split: if_splits intro: clock_ok_cong)
next
  case (ck_speed c n m c')
  then obtain i where "(let (true_speed, w) = sa_set_speed A i n (ck_world c) in
      Ret (true_speed, c\<lparr>ck_speed := true_speed,
             ck_world := scr_all (\<lambda>i w. snd (sa_set_speed A i true_speed w)) (ck_scr_list c) w\<rparr>)) = Ret (m, c')"
    by (auto simp: metronom_set_speed_def obind_eq_Ret)
  then show ?case using ck_speed by (cases "sa_set_speed A i n (ck_world c)") (auto intro: clock_ok_cong)
next
  case (ck_sync c c')
  then show ?case by (auto simp: metronom_sync_def obind_eq_Ret Let_def split: if_splits intro: clock_ok_cong)
qed (auto simp: metronom_start_clock_def metronom_stop_clock_def metronom_resume_clock_def
    metronom_clock_set_option_def intro: clock_ok_cong)


text \<open>Providers that are unix clocks, all read at one time; the world holds their states.\<close>

definition unix_api :: "(nat \<Rightarrow> int) \<Rightarrow> timeval \<Rightarrow> (nat \<Rightarrow> unixscr) scr_api" where
  "unix_api prio tv =
     \<lparr>sa_interface_version = (\<lambda>_. 2), sa_get_priority = prio,
      sa_start = (\<lambda>i pts w. w(i := unixscr_start tv tv pts (w i))),
      sa_get_current = (\<lambda>i w. unixscr_get_current tv (w i)),
      sa_set_speed = (\<lambda>i n w. (n, w(i := snd (unixscr_set_speed tv n (w i))))),
      sa_adjust = (\<lambda>i v w. w(i := unixscr_adjust tv v (w i))), sa_exit = (\<lambda>i w. w)\<rparr>"

definition two_scr :: "(nat \<Rightarrow> unixscr) metronom_clock" where
  "two_scr = (let A = unix_api (\<lambda>i. if i = 8 then 10 else unixscr_get_priority) (tv_of 0) in
     snd (metronom_register_scr A 8 (metronom_clock_init A 3 0 (\<lambda>_. unixscr_init (tv_of 0)))))"


section \<open>Handing over the time\<close>

text \<open>What scr_plugin_t promises of a provider: setting one sets it, and no other.\<close>

definition providers_independent :: "'w scr_api \<Rightarrow> bool" where
  "providers_independent A \<longleftrightarrow>
     (\<forall>i v w. sa_get_current A i (sa_adjust A i v w) = v) \<and>
     (\<forall>i j v w. i \<noteq> j \<longrightarrow> sa_get_current A j (sa_adjust A i v w) = sa_get_current A j w)"

lemma scr_all_adjust:
  assumes "providers_independent A"
  shows "(Some i \<in> set xs \<or> sa_get_current A i w = v) \<Longrightarrow> sa_get_current A i (scr_all (\<lambda>i. sa_adjust A i v) xs w) = v"
proof (induction xs arbitrary: w)
  case (Cons x xs)
  then show ?case using assms
    by (cases x) (auto simp: providers_independent_def split: if_splits, metis+)
qed simp

lemma scr_all_adjust_but:
  assumes "providers_independent A"
  shows "(Some i \<in> set xs \<and> i \<noteq> m \<or> sa_get_current A i w = v) \<Longrightarrow>
    sa_get_current A i (scr_all (\<lambda>i w. if i \<noteq> m then sa_adjust A i v w else w) xs w) = v"
proof (induction xs arbitrary: w)
  case (Cons x xs)
  show ?case
  proof (cases x)
    case None
    then show ?thesis using Cons by simp
  next
    case (Some j)
    let ?w = "if j \<noteq> m then sa_adjust A j v w else w"
    have "Some i \<in> set xs \<and> i \<noteq> m \<or> sa_get_current A i ?w = v"
      using Cons.prems Some assms by (cases "i = j") (auto simp: providers_independent_def)
    from Cons.IH [OF this] Some show ?thesis by simp
  qed
qed simp

text \<open>
  Unregistering a provider, the master included, keeps the time: every provider left, the
  new master among them, shows what the old master showed. The same holds after each round of
  the sync loop.
\<close>

theorem clock_keeps_time:
  assumes "clock_reach A unix c" and "0 < sa_get_priority A unix" and "sa_interface_version A unix = 2"
    and "providers_independent A" and "scr \<noteq> unix" and "Some scr \<in> set (ck_scr_list c)" and "ck_thread_running c"
  shows "\<exists>c' c'' t. metronom_get_current_time A c = Ret t \<and>
    metronom_unregister_scr A scr c = Ret c' \<and> metronom_get_current_time A c' = Ret t \<and>
    (\<forall>i. Some i \<in> set (ck_scr_list c') \<longrightarrow> sa_get_current A i (ck_world c') = t) \<and>
    metronom_sync A c = Ret c'' \<and> metronom_get_current_time A c'' = Ret t \<and>
    (\<forall>i. Some i \<in> set (ck_scr_list c'') \<longrightarrow> sa_get_current A i (ck_world c'') = t)"
proof -
  have ok: "clock_ok A unix c" by (rule clock_reach_ok [OF assms(2,3,1)])
  then obtain m where m: "ck_scr_master c = Some m" "length (ck_scr_list c) = MAX_SCR_PROVIDERS"
    "ck_scr_list c ! 0 = Some unix" "Some m \<in> set (ck_scr_list c)" by (auto simp: clock_ok_def)
  let ?t = "sa_get_current A m (ck_world c)"
  have "ck_scr_list c \<noteq> []" using m(4) by auto
  then have in1: "Some scr \<in> set (drop 1 (ck_scr_list c))"
    using assms(5,6) m(3) by (cases "ck_scr_list c") auto
  obtain c' where c': "metronom_unregister_scr A scr c = Ret c'" "clock_ok A unix c'"
    using unregister_ok [OF ok assms(2)] by blast
  have w': "ck_world c' = scr_all (\<lambda>i. sa_adjust A i ?t) (ck_scr_list c') (ck_world c)"
    using c'(1) in1 m(1) by (auto simp: metronom_unregister_scr_def index_from_spec Let_def metronom_get_current_time_def)
  have all': "sa_get_current A i (ck_world c') = ?t" if "Some i \<in> set (ck_scr_list c')" for i
    unfolding w' using scr_all_adjust [OF assms(4)] that by blast
  obtain m' where m': "ck_scr_master c' = Some m'" "Some m' \<in> set (ck_scr_list c')"
    using c'(2) by (auto simp: clock_ok_def)
  let ?c'' = "c\<lparr>ck_world := scr_all (\<lambda>i w. if i \<noteq> m then sa_adjust A i ?t w else w) (ck_scr_list c) (ck_world c)\<rparr>"
  have "metronom_sync A c = Ret ?c''" using assms(7) m(1) by (simp add: metronom_sync_def Let_def)
  moreover have "sa_get_current A i (ck_world ?c'') = ?t" if "Some i \<in> set (ck_scr_list c)" for i
    using scr_all_adjust_but [OF assms(4), of i "ck_scr_list c" m "ck_world c" ?t] that by (cases "i = m") auto
  ultimately show ?thesis using c'(1) all' m m'
    by (intro exI [of _ c'] exI [of _ ?c''] exI [of _ ?t]) (simp add: metronom_get_current_time_def)
qed

theorem clock_keeps_time_witness:
  "\<exists>c' c'' t. metronom_unregister_scr (unix_api (\<lambda>i. if i = 8 then 10 else unixscr_get_priority) (tv_of 0)) 8 two_scr = Ret c' \<and>
    metronom_get_current_time (unix_api (\<lambda>i. if i = 8 then 10 else unixscr_get_priority) (tv_of 0)) c' = Ret t"
proof -
  let ?A = "unix_api (\<lambda>i. if i = 8 then 10 else unixscr_get_priority) (tv_of 0)"
  have r: "clock_reach ?A 3 two_scr"
    unfolding two_scr_def Let_def by (intro clock_reach.ck_register clock_reach.ck_init)
  have a: "0 < sa_get_priority ?A 3" "sa_interface_version ?A 3 = 2"
    by (simp_all add: unix_api_def unixscr_get_priority_def)
  have "unixscr_get_current (tv_of 0) (unixscr_adjust (tv_of 0) v u) = v" for v u
    by (rule us.adjust_law)
  then have i: "providers_independent ?A" by (simp add: providers_independent_def unix_api_def)
  have l: "Some 8 \<in> set (ck_scr_list two_scr)" "ck_thread_running two_scr"
    by (simp_all add: two_scr_def metronom_clock_init_def metronom_register_scr_def Let_def unix_api_def
        MAX_SCR_PROVIDERS_def numeral_eq_Suc)
  from clock_keeps_time [OF r a i _ l] show ?thesis by fastforce
qed

end
