(* ===== verification/Metronom.thy ===== *)
theory Metronom
  imports Scr_Clock Event_System
begin

text \<open>
  The virtual presentation time of a stream: metronom_t of src/src/xine-engine/metronom.c. Times
  are ticks of 1/90000 second; the 64-bit fields are integers (they do not wrap within a
  million years of playback), the \<open>int\<close> fields are wrapped with \<open>s32\<close> where they are
  assigned.
\<close>

section \<open>Data\<close>

record metronom =
  mt_pts_per_smpls :: int
  mt_video_vpts :: int
  mt_spu_vpts :: int
  mt_audio_vpts :: int
  mt_vpts_offset :: int
  mt_video_drift :: int
  mt_video_drift_step :: int
  mt_audio_samples :: int
  mt_audio_drift_step :: int
  mt_av_offset :: int
  mt_spu_offset :: int
  mt_have_audio :: bool
  mt_video_discontinuity_count :: int
  mt_audio_discontinuity_count :: int
  mt_discontinuity_handled_count :: int
  mt_force_video_jump :: bool
  mt_force_audio_jump :: bool
  mt_img_duration :: int
  mt_img_cpt :: int
  mt_last_video_pts :: int
  mt_last_audio_pts :: int

text \<open>The fields of \<open>vo_frame_t\<close> that metronom reads and writes.\<close>

record vo_frame =
  fr_pts :: int
  fr_duration :: int
  fr_vpts :: int

definition AUDIO_SAMPLE_NUM :: int where
  "AUDIO_SAMPLE_NUM = 32768"

definition VIDEO_DRIFT_TOLERANCE :: int where
  "VIDEO_DRIFT_TOLERANCE = 45000"

definition AUDIO_DRIFT_TOLERANCE :: int where
  "AUDIO_DRIFT_TOLERANCE = 45000"

definition DISC_STREAMSTART :: int where
  "DISC_STREAMSTART = 0"

definition DISC_RELATIVE :: int where
  "DISC_RELATIVE = 1"

definition DISC_ABSOLUTE :: int where
  "DISC_ABSOLUTE = 2"

definition DISC_STREAMSEEK :: int where
  "DISC_STREAMSEEK = 3"

definition metronom_init :: "bool \<Rightarrow> int \<Rightarrow> metronom" where
  "metronom_init have_audio prebuffer =
     \<lparr>mt_pts_per_smpls = 0, mt_video_vpts = prebuffer, mt_spu_vpts = 0, mt_audio_vpts = prebuffer,
      mt_vpts_offset = 0, mt_video_drift = 0, mt_video_drift_step = 0, mt_audio_samples = 0,
      mt_audio_drift_step = 0, mt_av_offset = 0, mt_spu_offset = 0, mt_have_audio = have_audio,
      mt_video_discontinuity_count = 0, mt_audio_discontinuity_count = 0,
      mt_discontinuity_handled_count = 0, mt_force_video_jump = False, mt_force_audio_jump = False,
      mt_img_duration = 3000, mt_img_cpt = 0, mt_last_video_pts = 0, mt_last_audio_pts = 0\<rparr>"

section \<open>Subpictures and options\<close>

definition metronom_set_audio_rate :: "int \<Rightarrow> metronom \<Rightarrow> metronom" where
  "metronom_set_audio_rate pts_per_smpls m = m\<lparr>mt_pts_per_smpls := pts_per_smpls\<rparr>"

definition metronom_got_spu_packet :: "int \<Rightarrow> metronom \<Rightarrow> int \<times> metronom" where
  "metronom_got_spu_packet pts m =
     (let vpts0 = pts + mt_vpts_offset m + mt_spu_offset m;
          vpts = (if vpts0 < mt_spu_vpts m then mt_spu_vpts m else vpts0) in
      (vpts, m\<lparr>mt_spu_vpts := vpts\<rparr>))"

definition METRONOM_AV_OFFSET :: int where
  "METRONOM_AV_OFFSET = 2"

definition METRONOM_ADJ_VPTS_OFFSET :: int where
  "METRONOM_ADJ_VPTS_OFFSET = 3"

definition METRONOM_FRAME_DURATION :: int where
  "METRONOM_FRAME_DURATION = 4"

definition METRONOM_SPU_OFFSET :: int where
  "METRONOM_SPU_OFFSET = 5"

definition METRONOM_VPTS_OFFSET :: int where
  "METRONOM_VPTS_OFFSET = 6"

definition metronom_set_option :: "int \<Rightarrow> int \<Rightarrow> metronom \<Rightarrow> metronom" where
  "metronom_set_option opt v m =
     (if opt = METRONOM_AV_OFFSET then m\<lparr>mt_av_offset := v\<rparr>
      else if opt = METRONOM_SPU_OFFSET then m\<lparr>mt_spu_offset := v\<rparr>
      else if opt = METRONOM_ADJ_VPTS_OFFSET then m\<lparr>mt_audio_vpts := mt_audio_vpts m + v\<rparr>
      else m)"

definition metronom_get_option :: "int \<Rightarrow> metronom \<Rightarrow> int" where
  "metronom_get_option opt m =
     (if opt = METRONOM_AV_OFFSET then mt_av_offset m
      else if opt = METRONOM_SPU_OFFSET then mt_spu_offset m
      else if opt = METRONOM_FRAME_DURATION then mt_img_duration m
      else if opt = METRONOM_VPTS_OFFSET then mt_vpts_offset m
      else 0)"

section \<open>Discontinuities\<close>

text \<open>
  The handlers of the video and the audio decoder thread wait for each other on condition
  variables, which gives the lock up: each is the part before its wait loop and the part
  after, which is \<open>Wait\<close> while the loop's condition holds. \<open>now i\<close> is the clock's
  \<open>i\<close>-th reading in the handler.
\<close>

definition video_disc_enter :: "metronom \<Rightarrow> metronom" where
  "video_disc_enter m = m\<lparr>mt_video_discontinuity_count := mt_video_discontinuity_count m + 1\<rparr>"

text \<open>The two adjustments with the prebuffer.\<close>

definition prebuffer_adjust :: "(nat \<Rightarrow> int) \<Rightarrow> int \<Rightarrow> int \<Rightarrow> metronom \<Rightarrow> metronom" where
  "prebuffer_adjust now prebuffer type m =
     (let m1 = (if mt_video_vpts m < now 0 \<or> type = DISC_STREAMSTART \<or> type = DISC_STREAMSEEK
                then m\<lparr>mt_video_vpts := prebuffer + now 1\<rparr> else m) in
      if mt_audio_vpts m1 < now 2 \<or> type = DISC_STREAMSTART \<or> type = DISC_STREAMSEEK
      then m1\<lparr>mt_audio_vpts := prebuffer + now 3\<rparr> else m1)"

definition disc_switch :: "int \<Rightarrow> int \<Rightarrow> metronom \<Rightarrow> metronom" where
  "disc_switch type disc_off m =
     (if type = DISC_STREAMSTART then
        (if mt_video_vpts m > mt_audio_vpts m
         then m\<lparr>mt_vpts_offset := mt_video_vpts m, mt_audio_vpts := mt_video_vpts m\<rparr>
         else m\<lparr>mt_vpts_offset := mt_audio_vpts m, mt_video_vpts := mt_audio_vpts m\<rparr>)
        \<lparr>mt_force_audio_jump := True, mt_force_video_jump := True, mt_video_drift := 0\<rparr>
      else if type = DISC_ABSOLUTE then
        m\<lparr>mt_vpts_offset := mt_video_vpts m - disc_off, mt_force_audio_jump := False, mt_force_video_jump := False\<rparr>
      else if type = DISC_RELATIVE then
        m\<lparr>mt_vpts_offset := mt_vpts_offset m - disc_off, mt_force_audio_jump := False, mt_force_video_jump := False\<rparr>
      else if type = DISC_STREAMSEEK then
        m\<lparr>mt_vpts_offset := mt_video_vpts m - disc_off, mt_force_audio_jump := True, mt_force_video_jump := True,
          mt_video_drift := 0\<rparr>
      else m)"

text \<open>
  After the wait. \<open>xine_recalculate_next_cue_point\<close> reads the clock once more and the new
  offset; \<open>es\<close> is the event part of the stream.
\<close>

definition video_disc_finish ::
  "nat \<Rightarrow> (nat \<Rightarrow> int) \<Rightarrow> int \<Rightarrow> int \<Rightarrow> int \<Rightarrow> metronom \<times> 'w evsys \<Rightarrow> (metronom \<times> 'w evsys) outcome" where
  "video_disc_finish k now prebuffer type disc_off ms =
     (let (m, es) = ms in
      if mt_have_audio m \<and> mt_audio_discontinuity_count m < mt_video_discontinuity_count m then Wait
      else
        (let m1 = disc_switch type disc_off (prebuffer_adjust now prebuffer type m);
             m2 = m1\<lparr>mt_last_video_pts := 0, mt_last_audio_pts := 0,
                     mt_discontinuity_handled_count := mt_discontinuity_handled_count m1 + 1\<rparr> in
         obind (xine_recalculate_next_cue_point k 0
                  (es\<lparr>es_clock := now 4, es_vpts_offset := mt_vpts_offset m2\<rparr>)) (\<lambda>es1.
         Ret (m2, es1))))"

definition metronom_handle_video_discontinuity ::
  "nat \<Rightarrow> (nat \<Rightarrow> int) \<Rightarrow> int \<Rightarrow> int \<Rightarrow> int \<Rightarrow> metronom \<times> 'w evsys \<Rightarrow> (metronom \<times> 'w evsys) outcome" where
  "metronom_handle_video_discontinuity k now prebuffer type disc_off ms =
     video_disc_finish k now prebuffer type disc_off (video_disc_enter (fst ms), snd ms)"

definition audio_disc_enter :: "metronom \<Rightarrow> metronom" where
  "audio_disc_enter m = m\<lparr>mt_audio_discontinuity_count := mt_audio_discontinuity_count m + 1\<rparr>"

definition audio_disc_finish :: "metronom \<Rightarrow> metronom outcome" where
  "audio_disc_finish m =
     (if mt_audio_discontinuity_count m > mt_discontinuity_handled_count m then Wait
      else Ret (m\<lparr>mt_audio_samples := 0, mt_audio_drift_step := 0\<rparr>))"

definition metronom_handle_audio_discontinuity :: "metronom \<Rightarrow> metronom outcome" where
  "metronom_handle_audio_discontinuity m = audio_disc_finish (audio_disc_enter m)"

section \<open>Video frames\<close>

text \<open>The duration: given, computed from the last pts, or the last one known.\<close>

definition frame_duration :: "vo_frame \<Rightarrow> metronom \<Rightarrow> (metronom \<times> vo_frame) outcome" where
  "frame_duration img m =
     (if fr_duration img = 0 then
        obind (if mt_last_video_pts m \<noteq> 0 \<and> mt_img_cpt m \<noteq> 0 then
                 obind (cdiv (fr_pts img - mt_last_video_pts m) (mt_img_cpt m)) (\<lambda>d. Ret (m\<lparr>mt_img_duration := d\<rparr>))
               else Ret m) (\<lambda>m1.
        Ret (m1, img\<lparr>fr_duration := s32 (mt_img_duration m1)\<rparr>))
      else Ret (m\<lparr>mt_img_duration := fr_duration img\<rparr>, img))"

definition video_predict :: "int \<Rightarrow> metronom \<Rightarrow> metronom" where
  "video_predict pts m =
     (let vpts = pts + mt_vpts_offset m; diff = mt_video_vpts m - vpts in
      if \<bar>diff\<bar> > VIDEO_DRIFT_TOLERANCE \<or> mt_force_video_jump m
      then m\<lparr>mt_force_video_jump := False, mt_video_vpts := vpts, mt_video_drift := 0\<rparr>
      else m\<lparr>mt_video_drift := diff, mt_video_drift_step := diff sdiv 30\<rparr>)"

definition video_advance :: "metronom \<times> vo_frame \<Rightarrow> metronom \<times> vo_frame" where
  "video_advance mf =
     (let (m, img) = mf;
          img1 = img\<lparr>fr_vpts := mt_video_vpts m + mt_av_offset m\<rparr>;
          (m2, img2) =
            (if mt_video_drift m * mt_video_drift_step m > 0
             then (m\<lparr>mt_video_drift := mt_video_drift m - mt_video_drift_step m\<rparr>,
                   img1\<lparr>fr_duration := s32 (fr_duration img1 - mt_video_drift_step m)\<rparr>)
             else (m, img1)) in
      (m2\<lparr>mt_video_vpts := mt_video_vpts m2 + fr_duration img2\<rparr>, img2))"

definition metronom_got_video_frame :: "vo_frame \<Rightarrow> metronom \<Rightarrow> (metronom \<times> vo_frame) outcome" where
  "metronom_got_video_frame img m =
     (let pts = fr_pts img; m0 = m\<lparr>mt_img_cpt := s32 (mt_img_cpt m + 1)\<rparr> in
      if pts \<noteq> 0 \<and> pts \<noteq> mt_last_video_pts m0 then
        obind (frame_duration img m0) (\<lambda>(m1, img1).
        Ret (video_advance
               (video_predict pts (m1\<lparr>mt_img_cpt := 0, mt_last_video_pts := pts\<rparr>), img1)))
      else if fr_duration img = 0 then
        Ret (video_advance (m0, img\<lparr>fr_duration := s32 (mt_img_duration m0)\<rparr>))
      else Ret (video_advance (m0\<lparr>mt_img_duration := fr_duration img\<rparr>, img)))"

section \<open>Audio samples\<close>

text \<open>\<open>audio_samples * 4\<close> is an \<open>int\<close> product; the step may change the rate by 25% at most.\<close>

definition audio_drift :: "int \<Rightarrow> metronom \<Rightarrow> metronom outcome" where
  "audio_drift diff m =
     (if mt_audio_samples m \<noteq> 0 then
        obind (cdiv (diff * AUDIO_SAMPLE_NUM) (s32 (mt_audio_samples m * 4))) (\<lambda>d0.
        (let d1 = (if d0 > mt_pts_per_smpls m sdiv 4 then mt_pts_per_smpls m sdiv 4 else d0);
             d2 = (if d1 < - mt_pts_per_smpls m sdiv 4 then - mt_pts_per_smpls m sdiv 4 else d1) in
         Ret (m\<lparr>mt_audio_drift_step := d2\<rparr>)))
      else Ret m)"

definition audio_predict :: "int \<Rightarrow> metronom \<Rightarrow> metronom outcome" where
  "audio_predict pts m =
     (let vpts = pts + mt_vpts_offset m; diff = mt_audio_vpts m - vpts; m1 = m\<lparr>mt_last_audio_pts := pts\<rparr> in
      obind (if \<bar>diff\<bar> > AUDIO_DRIFT_TOLERANCE \<or> mt_force_audio_jump m1
             then Ret (m1\<lparr>mt_force_audio_jump := False, mt_audio_vpts := vpts, mt_audio_drift_step := 0\<rparr>)
             else audio_drift diff m1) (\<lambda>m2.
      Ret (m2\<lparr>mt_audio_samples := 0\<rparr>)))"

definition metronom_got_audio_samples :: "int \<Rightarrow> int \<Rightarrow> metronom \<Rightarrow> (int \<times> metronom) outcome" where
  "metronom_got_audio_samples pts nsamples m =
     obind (if pts \<noteq> 0 \<and> pts \<noteq> mt_last_audio_pts m then audio_predict pts m else Ret m) (\<lambda>m1.
     (let vpts = mt_audio_vpts m1 in
      Ret (vpts,
           m1\<lparr>mt_audio_vpts := vpts + nsamples * mt_pts_per_smpls m1 sdiv AUDIO_SAMPLE_NUM,
              mt_audio_samples := s32 (mt_audio_samples m1 + nsamples),
              mt_vpts_offset := mt_vpts_offset m1 + nsamples * mt_audio_drift_step m1 sdiv AUDIO_SAMPLE_NUM\<rparr>)))"

end
