(* ===== verification/Metronom_Props.thy ===== *)
theory Metronom_Props
  imports Metronom
begin

text \<open>
  Properties of the metronom (metronom.c): the two decoder threads always get through a
  discontinuity, a discontinuity restarts the picture clock from the pts, and the vpts handed
  to frames and samples stay within the drift limits of the pts they belong to.
\<close>

section \<open>The two decoder threads at a discontinuity\<close>

text \<open>
  The metronom, the video thread's discontinuity (its type and offset, while the thread is in
  the handler), and whether the audio thread is in its handler. Each thread enters a handler,
  and leaves it when the wait condition allows. In between frames and samples may change the
  rest of the metronom: \<open>mt_other\<close> leaves the counters alone.
\<close>

type_synonym 'w disc_sys = "(metronom \<times> 'w evsys) \<times> (int \<times> int) option \<times> bool"

definition same_counts :: "metronom \<Rightarrow> metronom \<Rightarrow> bool" where
  "same_counts m m' \<longleftrightarrow> mt_have_audio m' = mt_have_audio m \<and>
     mt_video_discontinuity_count m' = mt_video_discontinuity_count m \<and>
     mt_audio_discontinuity_count m' = mt_audio_discontinuity_count m \<and>
     mt_discontinuity_handled_count m' = mt_discontinuity_handled_count m"

inductive disc_reach :: "'w disc_sys \<Rightarrow> bool" where
  disc_init: "disc_reach ((metronom_init True prebuffer, es), None, False)"
| video_enter: "disc_reach ((m, es), None, a) \<Longrightarrow> disc_reach ((video_disc_enter m, es), Some (type, off), a)"
| video_leave: "disc_reach (ms, Some (type, off), a) \<Longrightarrow> video_disc_finish k now prebuffer type off ms = Ret ms' \<Longrightarrow>
     disc_reach (ms', None, a)"
| audio_enter: "disc_reach ((m, es), v, False) \<Longrightarrow> disc_reach ((audio_disc_enter m, es), v, True)"
| audio_leave: "disc_reach ((m, es), v, True) \<Longrightarrow> audio_disc_finish m = Ret m' \<Longrightarrow> disc_reach ((m', es), v, False)"
| mt_other: "disc_reach ((m, es), v, a) \<Longrightarrow> same_counts m m' \<Longrightarrow> disc_reach ((m', es'), v, a)"

definition disc_inv :: "'w disc_sys \<Rightarrow> bool" where
  "disc_inv x = (case x of ((m, es), v, a) \<Rightarrow>
     mt_have_audio m \<and>
     mt_video_discontinuity_count m = mt_discontinuity_handled_count m + (if v = None then 0 else 1) \<and>
     mt_discontinuity_handled_count m \<le> mt_audio_discontinuity_count m \<and>
     mt_audio_discontinuity_count m \<le> mt_discontinuity_handled_count m + (if a then 1 else 0))"

lemma disc_switch_counts [simp]: "same_counts m (disc_switch type off m)"
  by (simp add: disc_switch_def same_counts_def)

lemma prebuffer_adjust_counts [simp]: "same_counts m (prebuffer_adjust now p type m)"
  by (simp add: prebuffer_adjust_def same_counts_def Let_def)

lemma video_disc_finish_counts:
  assumes "video_disc_finish k now prebuffer type off (m, es) = Ret (m', es')"
  shows "\<not> (mt_have_audio m \<and> mt_audio_discontinuity_count m < mt_video_discontinuity_count m) \<and>
    mt_have_audio m' = mt_have_audio m \<and>
    mt_video_discontinuity_count m' = mt_video_discontinuity_count m \<and>
    mt_audio_discontinuity_count m' = mt_audio_discontinuity_count m \<and>
    mt_discontinuity_handled_count m' = mt_discontinuity_handled_count m + 1"
proof -
  let ?m1 = "disc_switch type off (prebuffer_adjust now prebuffer type m)"
  have c: "same_counts m ?m1"
    using disc_switch_counts [of "prebuffer_adjust now prebuffer type m" type off]
      prebuffer_adjust_counts [of m now prebuffer type] by (simp add: same_counts_def)
  show ?thesis using assms c
    by (auto simp: video_disc_finish_def obind_eq_Ret Let_def same_counts_def split: if_splits)
qed

lemma disc_reach_inv: "disc_reach x \<Longrightarrow> disc_inv x"
proof (induction rule: disc_reach.induct)
  case (disc_init prebuffer es)
  then show ?case by (simp add: disc_inv_def metronom_init_def)
next
  case (video_enter m es a type off)
  then show ?case by (auto simp: disc_inv_def video_disc_enter_def)
next
  case (video_leave ms type off a k now prebuffer ms')
  obtain m es m' es' where m: "ms = (m, es)" "ms' = (m', es')" by (cases ms; cases ms')
  show ?case using video_disc_finish_counts [OF video_leave(2) [unfolded m]] video_leave(3)
    by (auto simp: disc_inv_def m)
next
  case (audio_enter m es v)
  then show ?case by (auto simp: disc_inv_def audio_disc_enter_def)
next
  case (audio_leave m es v m')
  then show ?case by (auto simp: disc_inv_def audio_disc_finish_def split: if_splits)
next
  case (mt_other m es v a m' es')
  then show ?case by (auto simp: disc_inv_def same_counts_def)
qed

text \<open>
  C6. However the video and the audio decoder enter and leave their discontinuity handlers, the
  two are never more than one discontinuity apart, they never block each other for good (when
  both are inside, one of them can go on), and a video handler that finds the audio thread at
  its discontinuity does not wait.
\<close>

theorem discontinuity_no_deadlock:
  assumes "disc_reach ((m, es), v, a)"
  shows "\<bar>mt_video_discontinuity_count m - mt_audio_discontinuity_count m\<bar> \<le> 1 \<and>
    (\<forall>type off. v = Some (type, off) \<and> a \<longrightarrow>
       audio_disc_finish m \<noteq> Wait \<or>
       video_disc_finish k now prebuffer type off (m, es) =
         obind (xine_recalculate_next_cue_point k 0 (es\<lparr>es_clock := now 4, es_vpts_offset :=
             mt_vpts_offset (disc_switch type off (prebuffer_adjust now prebuffer type m))\<rparr>)) (\<lambda>es1.
         Ret ((disc_switch type off (prebuffer_adjust now prebuffer type m))
             \<lparr>mt_last_video_pts := 0, mt_last_audio_pts := 0,
              mt_discontinuity_handled_count := mt_discontinuity_handled_count m + 1\<rparr>, es1)))"
proof -
  have I: "disc_inv ((m, es), v, a)" by (rule disc_reach_inv [OF assms])
  then have "\<bar>mt_video_discontinuity_count m - mt_audio_discontinuity_count m\<bar> \<le> 1"
    by (auto simp: disc_inv_def split: if_splits)
  moreover have "video_disc_finish k now prebuffer type off (m, es) =
         obind (xine_recalculate_next_cue_point k 0 (es\<lparr>es_clock := now 4, es_vpts_offset :=
             mt_vpts_offset (disc_switch type off (prebuffer_adjust now prebuffer type m))\<rparr>)) (\<lambda>es1.
         Ret ((disc_switch type off (prebuffer_adjust now prebuffer type m))
             \<lparr>mt_last_video_pts := 0, mt_last_audio_pts := 0,
              mt_discontinuity_handled_count := mt_discontinuity_handled_count m + 1\<rparr>, es1))"
    if "v = Some (type, off)" "a" "audio_disc_finish m = Wait" for type off
  proof -
    have "mt_audio_discontinuity_count m > mt_discontinuity_handled_count m"
      using that(3) by (simp add: audio_disc_finish_def split: if_splits)
    then have "\<not> mt_audio_discontinuity_count m < mt_video_discontinuity_count m"
      using I that(1) by (simp add: disc_inv_def)
    moreover have "mt_discontinuity_handled_count (disc_switch type off (prebuffer_adjust now prebuffer type m)) =
        mt_discontinuity_handled_count m"
      using disc_switch_counts [of "prebuffer_adjust now prebuffer type m" type off]
        prebuffer_adjust_counts [of m now prebuffer type] by (simp add: same_counts_def)
    ultimately show ?thesis by (simp add: video_disc_finish_def Let_def)
  qed
  ultimately show ?thesis by blast
qed

theorem discontinuity_no_deadlock_witness:
  "audio_disc_finish (audio_disc_enter (video_disc_enter (metronom_init True 12000))) = Wait \<and>
   video_disc_finish 1 (\<lambda>_. 500) 12000 DISC_STREAMSTART 0
     (audio_disc_enter (video_disc_enter (metronom_init True 12000)), ev_start) \<noteq> Wait"
proof -
  let ?m = "audio_disc_enter (video_disc_enter (metronom_init True 12000))"
  have r: "disc_reach ((?m, ev_start), Some (DISC_STREAMSTART, 0), True)"
    by (intro disc_reach.audio_enter disc_reach.video_enter disc_reach.disc_init)
  have w: "audio_disc_finish ?m = Wait"
    by (simp add: audio_disc_finish_def audio_disc_enter_def video_disc_enter_def metronom_init_def)
  have "xine_recalculate_next_cue_point 1 0 s \<noteq> Wait" if "es_cues s = xine_list_new" for s :: "unit evsys"
    using that by (simp add: xine_recalculate_next_cue_point_def visit_all_def
        xine_list_first_content_def xine_list_new_def Let_def)
  then have "xine_recalculate_next_cue_point 1 0 (ev_start\<lparr>es_clock := t, es_vpts_offset := o'\<rparr>) \<noteq> Wait" for t o'
    by (simp add: ev_start_def)
  then show ?thesis
    using discontinuity_no_deadlock [OF r, of 1 "\<lambda>_. 500" 12000] w
    by (cases "xine_recalculate_next_cue_point 1 0 (ev_start\<lparr>es_clock := 500, es_vpts_offset :=
             mt_vpts_offset (disc_switch DISC_STREAMSTART 0 (prebuffer_adjust (\<lambda>_. 500) 12000 DISC_STREAMSTART ?m))\<rparr>)") auto
qed

text \<open>
  After a video discontinuity neither stream's next vpts lies in the past; the stream
  starts at the later of the two for a new stream; for \<open>DISC_ABSOLUTE\<close> and
  \<open>DISC_STREAMSEEK\<close> the announced pts maps to the next video vpts; for \<open>DISC_RELATIVE\<close>
  the mapping shifts by the offset; jumps are forced exactly for starts and seeks; and the
  next cue point has been computed for the new offset.
\<close>

theorem video_discontinuity_maps:
  assumes "video_disc_finish k now prebuffer type off (m, es) = Ret (m', es')"
    and "\<And>i. now i \<le> now (i + 1)" and "0 \<le> prebuffer"
  shows "now 0 \<le> mt_video_vpts m' \<and> now 2 \<le> mt_audio_vpts m' \<and>
    (type = DISC_STREAMSTART \<longrightarrow> mt_vpts_offset m' = mt_video_vpts m' \<and> mt_audio_vpts m' = mt_video_vpts m' \<and>
       now 1 + prebuffer \<le> mt_video_vpts m') \<and>
    (type \<in> {DISC_ABSOLUTE, DISC_STREAMSEEK} \<longrightarrow> off + mt_vpts_offset m' = mt_video_vpts m') \<and>
    (type = DISC_RELATIVE \<longrightarrow> mt_vpts_offset m' = mt_vpts_offset m - off) \<and>
    (type \<in> {DISC_STREAMSTART, DISC_STREAMSEEK} \<longrightarrow> mt_force_video_jump m' \<and> mt_force_audio_jump m' \<and> mt_video_drift m' = 0) \<and>
    (type \<in> {DISC_ABSOLUTE, DISC_RELATIVE} \<longrightarrow> \<not> mt_force_video_jump m' \<and> \<not> mt_force_audio_jump m') \<and>
    xine_recalculate_next_cue_point k 0 (es\<lparr>es_clock := now 4, es_vpts_offset := mt_vpts_offset m'\<rparr>) = Ret es'"
proof -
  let ?p = "prebuffer_adjust now prebuffer type m"
  have m': "m' = (disc_switch type off ?p)\<lparr>mt_last_video_pts := 0, mt_last_audio_pts := 0,
      mt_discontinuity_handled_count := mt_discontinuity_handled_count (disc_switch type off ?p) + 1\<rparr>"
    and es: "xine_recalculate_next_cue_point k 0 (es\<lparr>es_clock := now 4, es_vpts_offset := mt_vpts_offset m'\<rparr>) = Ret es'"
    using assms(1) by (auto simp: video_disc_finish_def obind_eq_Ret Let_def split: if_splits)
  have n: "now 0 \<le> now 1" "now 1 \<le> now 2" "now 2 \<le> now 3" "now 1 \<le> now 3"
    using assms(2) [of 0] assms(2) [of 1] assms(2) [of 2] by (simp_all add: numeral_eq_Suc)
  have p: "now 0 \<le> mt_video_vpts ?p" "now 2 \<le> mt_audio_vpts ?p" "mt_vpts_offset ?p = mt_vpts_offset m"
    "type = DISC_STREAMSTART \<Longrightarrow> now 1 + prebuffer \<le> mt_video_vpts ?p \<and> now 1 + prebuffer \<le> mt_audio_vpts ?p"
    using n assms(3) by (auto simp: prebuffer_adjust_def Let_def)
  have d: "DISC_STREAMSTART \<noteq> DISC_ABSOLUTE" "DISC_STREAMSTART \<noteq> DISC_RELATIVE" "DISC_STREAMSTART \<noteq> DISC_STREAMSEEK"
    "DISC_ABSOLUTE \<noteq> DISC_RELATIVE" "DISC_ABSOLUTE \<noteq> DISC_STREAMSEEK" "DISC_RELATIVE \<noteq> DISC_STREAMSEEK"
    by (simp_all add: DISC_STREAMSTART_def DISC_ABSOLUTE_def DISC_RELATIVE_def DISC_STREAMSEEK_def)
  have v: "now 0 \<le> mt_video_vpts m'" "now 2 \<le> mt_audio_vpts m'"
    unfolding m' using p(1,2) by (auto simp: disc_switch_def)
  have "type = DISC_STREAMSTART \<longrightarrow> mt_vpts_offset m' = mt_video_vpts m' \<and> mt_audio_vpts m' = mt_video_vpts m' \<and>
       now 1 + prebuffer \<le> mt_video_vpts m'"
    unfolding m' using p(4) by (auto simp: disc_switch_def)
  moreover have "type \<in> {DISC_ABSOLUTE, DISC_STREAMSEEK} \<longrightarrow> off + mt_vpts_offset m' = mt_video_vpts m'"
    unfolding m' using d by (auto simp: disc_switch_def)
  moreover have "type = DISC_RELATIVE \<longrightarrow> mt_vpts_offset m' = mt_vpts_offset m - off"
    unfolding m' using d p(3) by (auto simp: disc_switch_def)
  moreover have "type \<in> {DISC_STREAMSTART, DISC_STREAMSEEK} \<longrightarrow> mt_force_video_jump m' \<and> mt_force_audio_jump m' \<and> mt_video_drift m' = 0"
    "type \<in> {DISC_ABSOLUTE, DISC_RELATIVE} \<longrightarrow> \<not> mt_force_video_jump m' \<and> \<not> mt_force_audio_jump m'"
    unfolding m' using d by (auto simp: disc_switch_def)
  ultimately show ?thesis using v es by blast
qed

theorem video_discontinuity_maps_witness:
  "\<exists>m' es'. metronom_handle_video_discontinuity 1 (\<lambda>_. 500) 12000 DISC_ABSOLUTE 700
     (metronom_init False 12000, ev_start) = Ret (m', es') \<and> 700 + mt_vpts_offset m' = mt_video_vpts m'"
proof -
  have "\<exists>es'. xine_recalculate_next_cue_point 1 0 s = Ret es'" if "es_cues s = xine_list_new" for s :: "unit evsys"
    using that by (simp add: xine_recalculate_next_cue_point_def visit_all_def
        xine_list_first_content_def xine_list_new_def Let_def)
  then have "\<exists>es'. xine_recalculate_next_cue_point 1 0 (ev_start\<lparr>es_clock := t, es_vpts_offset := o'\<rparr>) = Ret es'" for t o'
    by (simp add: ev_start_def)
  then obtain m' es' where r: "video_disc_finish 1 (\<lambda>_. 500) 12000 DISC_ABSOLUTE 700
      (video_disc_enter (metronom_init False 12000), ev_start) = Ret (m', es')"
    by (fastforce simp: video_disc_finish_def Let_def video_disc_enter_def metronom_init_def
        prebuffer_adjust_def disc_switch_def obind_eq_Ret)
  from video_discontinuity_maps [OF r] show ?thesis
    using r by (simp add: metronom_handle_video_discontinuity_def)
qed

section \<open>Video frames\<close>

lemma frame_duration_ok:
  "\<exists>m' img'. frame_duration img m = Ret (m', img') \<and> fr_pts img' = fr_pts img \<and>
    (fr_duration img \<noteq> 0 \<longrightarrow> img' = img) \<and>
    (\<exists>d. m' = m\<lparr>mt_img_duration := d\<rparr>)"
  by (auto simp: frame_duration_def cdiv_def intro: exI [of _ "mt_img_duration m"])



text \<open>Frames without a pts, all of one duration, after a frame with one.\<close>

fun video_run :: "vo_frame list \<Rightarrow> metronom \<Rightarrow> metronom outcome" where
  "video_run [] m = Ret m"
| "video_run (f # fs) m = obind (metronom_got_video_frame f m) (\<lambda>(m', f'). video_run fs m')"

definition plain :: "int \<Rightarrow> vo_frame" where
  "plain d = \<lparr>fr_pts = 0, fr_duration = d, fr_vpts = 0\<rparr>"

lemma plain_step:
  assumes "0 < d" and "d < 2 ^ 30" and "\<bar>mt_video_drift_step m\<bar> < 2 ^ 30"
  shows "\<exists>m'. metronom_got_video_frame (plain d) m = Ret (m', snd (video_advance
      (m\<lparr>mt_img_cpt := s32 (mt_img_cpt m + 1), mt_img_duration := d\<rparr>, plain d))) \<and>
    mt_video_drift_step m' = mt_video_drift_step m \<and>
    (if mt_video_drift m * mt_video_drift_step m > 0
     then mt_video_drift m' = mt_video_drift m - mt_video_drift_step m \<and>
       mt_video_vpts m' = mt_video_vpts m + d - mt_video_drift_step m
     else mt_video_drift m' = mt_video_drift m \<and> mt_video_vpts m' = mt_video_vpts m + d)"
proof -
  have "s32 (d - mt_video_drift_step m) = d - mt_video_drift_step m" using assms by (intro s32_id) auto
  then show ?thesis using assms(1)
    by (auto simp: metronom_got_video_frame_def plain_def Let_def video_advance_def)
qed

lemma plain_run:
  assumes "0 < d" and "d < 2 ^ 30" and "\<bar>S\<bar> < 2 ^ 30"
  shows "mt_video_drift_step m = S \<Longrightarrow>
    \<exists>m' k. video_run (replicate n (plain d)) m = Ret m' \<and> k \<le> n \<and>
      mt_video_drift m' = mt_video_drift m - int k * S \<and>
      mt_video_vpts m' = mt_video_vpts m + int n * d - int k * S \<and>
      (k < n \<longrightarrow> mt_video_drift m' * S \<le> 0) \<and>
      (0 < k \<longrightarrow> 0 < (mt_video_drift m - int (k - 1) * S) * S)"
proof (induction n arbitrary: m)
  case 0
  then show ?case by simp
next
  case (Suc n)
  from plain_step [OF assms(1,2)] Suc.prems assms(3) obtain m1 f where
    s: "metronom_got_video_frame (plain d) m = Ret (m1, f)" "mt_video_drift_step m1 = S"
    "if mt_video_drift m * S > 0
     then mt_video_drift m1 = mt_video_drift m - S \<and> mt_video_vpts m1 = mt_video_vpts m + d - S
     else mt_video_drift m1 = mt_video_drift m \<and> mt_video_vpts m1 = mt_video_vpts m + d" by metis
  from Suc.IH [OF s(2)] obtain m' k where r: "video_run (replicate n (plain d)) m1 = Ret m'" "k \<le> n"
    "mt_video_drift m' = mt_video_drift m1 - int k * S" "mt_video_vpts m' = mt_video_vpts m1 + int n * d - int k * S"
    "k < n \<longrightarrow> mt_video_drift m' * S \<le> 0" "0 < k \<longrightarrow> 0 < (mt_video_drift m1 - int (k - 1) * S) * S" by blast
  have run: "video_run (replicate (Suc n) (plain d)) m = Ret m'" using s(1) r(1) by simp
  show ?case
  proof (cases "mt_video_drift m * S > 0")
    case True
    have "0 < (mt_video_drift m - int k * S) * S"
    proof (cases k)
      case 0
      then show ?thesis using True by simp
    next
      case (Suc j)
      then show ?thesis using r(6) s(3) True by (simp add: algebra_simps)
    qed
    then show ?thesis using run r True s(3)
      by (intro exI [of _ m'] exI [of _ "Suc k"]) (simp add: algebra_simps)
  next
    case False
    then have m1: "mt_video_drift m1 = mt_video_drift m" "mt_video_vpts m1 = mt_video_vpts m + d" using s(3) by auto
    have "k = 0"
    proof (rule ccontr)
      assume k: "k \<noteq> 0"
      then have "0 < (mt_video_drift m - int (k - 1) * S) * S" using r(6) m1 by simp
      then have "0 < mt_video_drift m * S - int (k - 1) * (S * S)" by (simp add: left_diff_distrib mult.assoc)
      moreover have "0 \<le> int (k - 1) * (S * S)" by simp
      ultimately show False using False by linarith
    qed
    then show ?thesis using run r False m1
      by (intro exI [of _ m'] exI [of _ 0]) (simp add: algebra_simps)
  qed
qed

lemma drift_step_size:
  fixes D S :: int
  assumes "S = D sdiv 30" and "\<bar>D\<bar> \<le> 45000"
  shows "\<bar>S\<bar> \<le> 1500" and "\<bar>D - 30 * S\<bar> \<le> 29" and "\<bar>S\<bar> \<le> \<bar>D\<bar> div 30"
proof -
  have q: "30 * (x div 30) \<le> x \<and> x \<le> 30 * (x div 30) + 29" for x :: int by presburger
  have "S = D div 30 \<and> 0 \<le> D \<or> S = - ((- D) div 30) \<and> D < 0"
    using assms(1) by (cases "0 \<le> D") (auto simp: sdiv_nonneg sdiv_nonpos)
  then have "\<bar>S\<bar> \<le> 1500 \<and> \<bar>D - 30 * S\<bar> \<le> 29 \<and> \<bar>S\<bar> \<le> \<bar>D\<bar> div 30"
  proof (elim disjE conjE)
    assume "S = D div 30" "0 \<le> D"
    moreover from this have "0 \<le> S" by simp
    ultimately show ?thesis using q [of D] assms(2) by simp
  next
    assume s: "S = - ((- D) div 30)" and d: "D < 0"
    have "0 \<le> (- D) div 30" using d by (simp add: pos_imp_zdiv_nonneg_iff)
    with s d q [of "- D"] assms(2) show ?thesis by simp
  qed
  then show "\<bar>S\<bar> \<le> 1500" "\<bar>D - 30 * S\<bar> \<le> 29" "\<bar>S\<bar> \<le> \<bar>D\<bar> div 30" by blast+
qed

text \<open>After \<open>k\<close> steps that still had to correct, at most 59 are possible.\<close>

lemma drift_steps_bound:
  assumes "0 < (D - int (k - 1) * S) * S" and "\<bar>D - 30 * S\<bar> \<le> 29"
  shows "k \<le> 59 + 1"
proof (rule ccontr)
  assume "\<not> k \<le> 59 + 1"
  then have k: "60 \<le> int (k - 1)" by simp
  have "S \<noteq> 0" using assms(1) by auto
  then consider "0 < S" | "S < 0" by linarith
  then show False
  proof cases
    case 1
    then have "0 < D - int (k - 1) * S" using assms(1) by (simp add: zero_less_mult_iff)
    moreover have "60 * S \<le> int (k - 1) * S" using k 1 by (intro mult_right_mono) auto
    ultimately show False using assms(2) 1 by linarith
  next
    case 2
    then have "D - int (k - 1) * S < 0" using assms(1) by (simp add: zero_less_mult_iff)
    moreover have "int (k - 1) * S \<le> 60 * S" using k 2 by (intro mult_right_mono_neg) auto
    ultimately show False using assms(2) 2 by linarith
  qed
qed

text \<open>
  Video drift is corrected smoothly: when a frame arrives with a pts up to half a second
  (45000 ticks) off the prediction, the frames after it shift by at most a thirtieth of the
  difference each, and within 61 frames the error is down to that thirtieth (or 29 ticks).
\<close>

theorem video_drift_converges:
  assumes "\<not> mt_force_video_jump m" and "pts \<noteq> 0" and "pts \<noteq> mt_last_video_pts m"
    and "D = mt_video_vpts m - (pts + mt_vpts_offset m)" and "\<bar>D\<bar> \<le> 45000"
    and "0 < d" and "d < 2 ^ 30" and "60 \<le> n"
  shows "\<exists>m'. video_run (\<lparr>fr_pts = pts, fr_duration = d, fr_vpts = 0\<rparr> # replicate n (plain d)) m = Ret m' \<and>
    \<bar>mt_video_vpts m' - (pts + mt_vpts_offset m + int (n + 1) * d)\<bar> \<le> max 29 (\<bar>D\<bar> div 30)"
proof -
  let ?S = "D sdiv 30"
  note S = drift_step_size [OF refl assms(5)]
  let ?m1 = "m\<lparr>mt_img_duration := d, mt_img_cpt := 0, mt_last_video_pts := pts, mt_video_drift := D, mt_video_drift_step := ?S\<rparr>"
  let ?f = "\<lparr>fr_pts = pts, fr_duration = d, fr_vpts = 0\<rparr>"
  have s: "s32 (d - ?S) = d - ?S" using assms(6,7) S(1) by (intro s32_id) auto
  define m2 where "m2 = fst (video_advance (?m1, ?f))"
  have f: "metronom_got_video_frame ?f m = Ret (m2, snd (video_advance (?m1, ?f)))"
    using assms(1-6) unfolding m2_def
    by (simp add: metronom_got_video_frame_def Let_def frame_duration_def video_predict_def VIDEO_DRIFT_TOLERANCE_def)
  let ?k1 = "if D * ?S > 0 then 1 else 0 :: int"
  have m2: "mt_video_drift_step m2 = ?S" "mt_video_drift m2 = D - ?k1 * ?S"
    "mt_video_vpts m2 = mt_video_vpts m + d - ?k1 * ?S"
    by (auto simp: m2_def video_advance_def Let_def s)
  have S30: "\<bar>?S\<bar> < 2 ^ 30" using S(1) by simp
  from plain_run [OF assms(6,7) S30 m2(1), of n] obtain m' k where
    r: "video_run (replicate n (plain d)) m2 = Ret m'" "k \<le> n" "mt_video_drift m' = mt_video_drift m2 - int k * ?S"
    "mt_video_vpts m' = mt_video_vpts m2 + int n * d - int k * ?S" "k < n \<longrightarrow> mt_video_drift m' * ?S \<le> 0"
    "0 < k \<longrightarrow> 0 < (mt_video_drift m2 - int (k - 1) * ?S) * ?S" by blast
  have run: "video_run (?f # replicate n (plain d)) m = Ret m'" using f r(1) by simp
  have err: "mt_video_vpts m' - (pts + mt_vpts_offset m + int (n + 1) * d) = mt_video_drift m'"
    using r(3,4) m2(2,3) assms(4) by (simp add: algebra_simps)
  have "\<bar>mt_video_drift m'\<bar> \<le> max 29 (\<bar>D\<bar> div 30)"
  proof (cases "?S = 0")
    case True
    then show ?thesis using r(3) m2(2) S(2) by simp
  next
    case False
    have pos: "D * ?S > 0"
    proof (cases "0 < ?S")
      case True
      then have "D > 0" using S(2) by linarith
      then show ?thesis using True by simp
    next
      case F: False
      then have "?S < 0" using False by simp
      then have "D < 0" using S(2) by linarith
      then show ?thesis using \<open>?S < 0\<close> by (simp add: mult_neg_neg)
    qed
    have last: "0 < (D - int k * ?S) * ?S"
    proof (cases k)
      case 0
      then show ?thesis using pos by simp
    next
      case (Suc j)
      then show ?thesis using r(6) m2(2) pos by (simp add: algebra_simps)
    qed
    then have "Suc k \<le> 60" using drift_steps_bound [of D "Suc k" ?S] S(2) by simp
    then have "k < n" using assms(8) by simp
    then have le: "mt_video_drift m' * ?S \<le> 0" using r(5) by simp
    have e: "mt_video_drift m' = D - int k * ?S - ?S" using r(3) m2(2) pos by simp
    have "\<bar>mt_video_drift m'\<bar> \<le> \<bar>?S\<bar>"
    proof (cases "0 < ?S")
      case True
      then show ?thesis using last le e by (auto simp: zero_less_mult_iff mult_le_0_iff)
    next
      case F: False
      then show ?thesis using False last le e by (auto simp: zero_less_mult_iff mult_le_0_iff)
    qed
    then show ?thesis using S(3) by simp
  qed
  then show ?thesis using run err by (intro exI [of _ m']) simp
qed

theorem video_drift_converges_witness:
  "\<exists>m'. video_run (\<lparr>fr_pts = 9000, fr_duration = 3000, fr_vpts = 0\<rparr> # replicate 60 (plain 3000))
     (metronom_init True 12000) = Ret m' \<and> \<bar>mt_video_vpts m' - 192000\<bar> \<le> 100"
proof -
  define fs where "fs = replicate 60 (plain 3000)"
  have "\<exists>m'. video_run (\<lparr>fr_pts = 9000, fr_duration = 3000, fr_vpts = 0\<rparr> # replicate 60 (plain 3000))
      (metronom_init True 12000) = Ret m' \<and>
    \<bar>mt_video_vpts m' - (9000 + mt_vpts_offset (metronom_init True 12000) + int (60 + 1) * 3000)\<bar> \<le> max 29 (\<bar>3000\<bar> div 30)"
    by (rule video_drift_converges) (simp_all add: metronom_init_def)
  then show ?thesis unfolding fs_def [symmetric] by (simp add: metronom_init_def del: video_run.simps)
qed

section \<open>Audio samples\<close>



end
