(* ===== verification/Mcd.thy ===== *)
theory Mcd
  imports Event_System
begin

text \<open>
  The media control driver of OS/2, src/src/mcd/mcd.c: the messages an application sends to a
  video device, carried out by the xine engine. The constants, structures and calls of
  \<open>os2me.h\<close> are not in the repository: message numbers, flags, items and formats are
  constructors, a parameter block is one record with the fields of all blocks, and what the
  driver asks of the engine and of the system is recorded as a list of calls, which the answers
  are functions of. The event queue and the cue points of the stream are those of events.c.
\<close>

section \<open>Messages\<close>

datatype mci_id = MCI_OPEN | MCI_LOAD | MCI_PLAY | MCI_STOP | MCI_CLOSE | MCI_GETDEVCAPS | MCI_STATUS
  | MCI_SET | MCI_WINDOW | MCI_CUE | MCI_SET_POSITION_ADVISE | MCI_PAUSE | MCI_RESUME | MCI_SEEK | MCI_PUT
  | MCI_ACQUIREDEVICE | MCI_RELEASEDEVICE | MCIDRV_RESTORE | MCIDRV_SAVE | MCI_OTHER nat

datatype mci_flag = MCI_WAIT | MCI_NOTIFY | MCI_OPEN_ELEMENT | MCI_CLOSE_EXIT | MCI_GETDEVCAPS_MESSAGE
  | MCI_GETDEVCAPS_ITEM | MCI_STATUS_ITEM | MCI_SET_TIME_FORMAT | MCI_DGV_WINDOW_TEXT
  | MCI_DGV_WINDOW_DEFAULT | MCI_DGV_WINDOW_HWND | MCI_TO | MCI_TO_START | MCI_TO_END
  | MCI_SET_POSITION_ADVISE_ON | MCI_SET_POSITION_ADVISE_OFF | MCI_DGV_PUT_DESTINATION

datatype mci_item = MCI_DGV_GETDEVCAPS_NORMAL_RATE | MCI_GETDEVCAPS_USES_FILES | MCI_GETDEVCAPS_CAN_PLAY
  | MCI_GETDEVCAPS_CAN_SETVOLUME | MCI_GETDEVCAPS_HAS_AUDIO | MCI_GETDEVCAPS_HAS_VIDEO
  | MCI_DGV_GETDEVCAPS_CAN_DISTORT | MCI_DGV_GETDEVCAPS_CAN_STRETCH | MCI_GETDEVCAPS_CAN_EJECT
  | MCI_GETDEVCAPS_CAN_LOCKEJECT | MCI_GETDEVCAPS_CAN_PROCESS_INTERNAL | MCI_GETDEVCAPS_CAN_RECORD
  | MCI_GETDEVCAPS_CAN_RECORD_INSERT | MCI_GETDEVCAPS_CAN_SAVE | MCI_GETDEVCAPS_CAN_STREAM
  | MCI_GETDEVCAPS_HAS_IMAGE | MCI_DGV_GETDEVCAPS_CAN_REVERSE
  | MCI_STATUS_MEDIA_PRESENT | MCI_STATUS_READY | MCI_STATUS_VIDEO | MCI_STATUS_LENGTH
  | MCI_STATUS_POSITION | MCI_STATUS_POSITION_IN_TRACK | MCI_STATUS_MODE | MCI_STATUS_TIME_FORMAT
  | MCI_DGV_STATUS_VIDEO_X_EXTENT | MCI_DGV_STATUS_VIDEO_Y_EXTENT | MCI_DGV_STATUS_HWND | ITEM_OTHER nat

datatype mci_format = MCI_FORMAT_MILLISECONDS | MCI_FORMAT_MMTIME | MCI_FORMAT_FRAMES | MCI_FORMAT_FPS
  | FORMAT_OTHER nat

datatype mci_mode = MCI_MODE_NOT_READY | MCI_MODE_STOP | MCI_MODE_PLAY

text \<open>What is stored into \<open>ulReturn\<close>.\<close>

datatype mci_value = MCI_TRUE | MCI_FALSE | Num u32 | Mode mci_mode | Fmt mci_format | Hwnd nat

text \<open>The result: an error, or success with the type of the returned value in the upper half.\<close>

datatype mci_rtype = NO_RETURN | MCI_TRUE_FALSE_RETURN | MCI_SPEED_FORMAT_RETURN | MCI_INTEGER_RETURNED
  | MCI_MODE_RETURN | MCI_TIME_FORMAT_RETURN | Upper u32

datatype mci_rc = MCIERR_SUCCESS mci_rtype | MCIERR_FILE_NOT_FOUND | MCIERR_INVALID_MEDIA_TYPE
  | MCIERR_DRIVER | MCIERR_UNSUPPORTED_FLAG | MCIERR_UNRECOGNIZED_COMMAND

type_synonym mci_flags = "mci_flag list"

abbreviation has_flag :: "mci_flag \<Rightarrow> mci_flags \<Rightarrow> bool" where
  "has_flag f fl \<equiv> f \<in> set fl"

text \<open>The parameter block behind \<open>ulParam2\<close>.\<close>

record mci_parms =
  pm_hwndCallback :: nat
  pm_usDeviceID :: nat
  pm_pszElementName :: string
  pm_usMessage :: mci_id
  pm_ulItem :: mci_item
  pm_ulReturn :: "mci_value option"
  pm_ulTimeFormat :: mci_format
  pm_pszText :: string
  pm_hwndDest :: nat
  pm_ulTo :: u32
  pm_ulUnits :: u32
  pm_usUserParm :: nat
  pm_rc :: "int list"

section \<open>The instance and its surroundings\<close>

record tmcdxine =
  mi_DeviceID :: nat
  mi_playuserparm :: nat
  mi_playflags :: mci_flags
  mi_playcallback :: nat
  mi_playsem :: nat
  mi_event_queue :: nat
  mi_speedformat :: mci_format
  mi_timeformat :: mci_format
  mi_fps :: int
  mi_posadviseUnits :: int
  mi_posadviseCallback :: nat
  mi_posadviseUserParm :: nat
  mi_defaultwindow :: bool
  mi_newwindow :: bool
  mi_Display :: nat
  mi_hasput :: bool
  mi_putrect :: "int list"
  mi_filename :: string
  mi_title :: string
  mi_cuetime :: int
  mi_logfile :: int

datatype notify_code = MCI_NOTIFY_SUCCESSFUL | MCI_NOTIFY_ABORTED

datatype mcd_call = C_xine_new | C_config_load | C_config_save | C_xine_init | C_open_video | C_open_audio
  | C_stream_new | C_open string | C_get_error | C_get_status | C_get_stream_info nat | C_get_pos_length
  | C_play int int | C_stop | C_set_speed int | C_close | C_dispose | C_close_video | C_close_audio
  | C_exit | C_close_fd int | C_notify nat nat nat mci_id notify_code | C_position_change nat nat nat int
  | C_raise_window | C_window_text string | C_unsubclass nat

text \<open>
  One instance (instances share nothing), the open semaphores by their handles (posted or not),
  and the calls made so far. \<open>mw_inst\<close> is None before MCI_OPEN and after MCI_CLOSE.
\<close>

record mcd_world =
  mw_inst :: "tmcdxine option"
  mw_sem :: "nat \<rightharpoonup> bool"
  mw_sfresh :: nat
  mw_calls :: "mcd_call list"

type_synonym mcd = "mcd_world evsys"

text \<open>
  The answers, as functions of the calls made so far: they may change at every call.
  \<open>xine_get_pos_length\<close> leaves its results alone when the position is not known (None);
  \<open>en_advise\<close> is the number behind the constant \<open>MCI_SET_POSITION_ADVISE\<close>.
\<close>

record mcd_env =
  en_video :: "mcd_call list \<Rightarrow> bool"
  en_audio :: "mcd_call list \<Rightarrow> bool"
  en_open :: "string \<Rightarrow> mcd_call list \<Rightarrow> bool"
  en_error :: "mcd_call list \<Rightarrow> int"
  en_status :: "mcd_call list \<Rightarrow> nat"
  en_info :: "nat \<Rightarrow> mcd_call list \<Rightarrow> u32"
  en_pos :: "mcd_call list \<Rightarrow> (int \<times> int \<times> int) option"
  en_advise :: nat

definition XINE_EVENT_UI_PLAYBACK_FINISHED :: int where
  "XINE_EVENT_UI_PLAYBACK_FINISHED = 1"

definition XINE_ERROR_MALFORMED_MRL :: int where
  "XINE_ERROR_MALFORMED_MRL = 4"

definition XINE_STATUS_STOP :: nat where
  "XINE_STATUS_STOP = 1"

definition XINE_STATUS_PLAY :: nat where
  "XINE_STATUS_PLAY = 2"

definition XINE_STREAM_INFO_VIDEO_WIDTH :: nat where
  "XINE_STREAM_INFO_VIDEO_WIDTH = 2"

definition XINE_STREAM_INFO_VIDEO_HEIGHT :: nat where
  "XINE_STREAM_INFO_VIDEO_HEIGHT = 3"

definition XINE_STREAM_INFO_FRAME_DURATION :: nat where
  "XINE_STREAM_INFO_FRAME_DURATION = 10"

text \<open>Making a call, and reading and writing the instance.\<close>

definition call :: "mcd_call \<Rightarrow> mcd_world \<Rightarrow> mcd_world" where
  "call c w = w\<lparr>mw_calls := mw_calls w @ [c]\<rparr>"

abbreviation calls :: "mcd_call \<Rightarrow> mcd \<Rightarrow> mcd" where
  "calls c s \<equiv> s\<lparr>es_world := call c (es_world s)\<rparr>"

definition the_inst :: "mcd \<Rightarrow> tmcdxine outcome" where
  "the_inst s = of_opt (mw_inst (es_world s))"

definition put_inst :: "tmcdxine \<Rightarrow> mcd \<Rightarrow> mcd" where
  "put_inst i s = s\<lparr>es_world := (es_world s)\<lparr>mw_inst := Some i\<rparr>\<rparr>"

definition set_sem :: "nat \<Rightarrow> bool \<Rightarrow> mcd_world \<Rightarrow> mcd_world" where
  "set_sem h b w = w\<lparr>mw_sem := (mw_sem w)(h \<mapsto> b)\<rparr>"

definition notify :: "tmcdxine \<Rightarrow> nat \<Rightarrow> nat \<Rightarrow> mci_id \<Rightarrow> notify_code \<Rightarrow> mcd_world \<Rightarrow> mcd_world" where
  "notify i hwnd userparm m code = call (C_notify (mi_DeviceID i) hwnd userparm m code)"

section \<open>Times\<close>

definition statusconvert :: "mci_mode list" where
  "statusconvert = [MCI_MODE_NOT_READY, MCI_MODE_STOP, MCI_MODE_PLAY, MCI_MODE_NOT_READY]"

definition WaitForEnd :: "mcd \<Rightarrow> (mci_rc \<times> mcd) outcome" where
  "WaitForEnd s =
     obind (the_inst s) (\<lambda>i.
     if has_flag MCI_WAIT (mi_playflags i) \<and> mw_sem (es_world s) (mi_playsem i) \<noteq> Some True then Wait
     else Ret (MCIERR_SUCCESS NO_RETURN, s))"

definition toMMFormat :: "tmcdxine \<Rightarrow> int \<Rightarrow> u32" where
  "toMMFormat i time =
     word_of_int (case mi_timeformat i of
       MCI_FORMAT_MILLISECONDS \<Rightarrow> time
     | MCI_FORMAT_MMTIME \<Rightarrow> s32 (time * 3)
     | MCI_FORMAT_FRAMES \<Rightarrow> s32 (time * mi_fps i) sdiv 1000
     | _ \<Rightarrow> 0)"

text \<open>\<open>time\<close> is unsigned, so \<open>fps\<close> is converted to unsigned as well.\<close>

definition fromMMFormat :: "tmcdxine \<Rightarrow> u32 \<Rightarrow> int outcome" where
  "fromMMFormat i time =
     (case mi_timeformat i of
        MCI_FORMAT_MILLISECONDS \<Rightarrow> Ret (sint time)
      | MCI_FORMAT_MMTIME \<Rightarrow> Ret (sint (time div 3))
      | MCI_FORMAT_FRAMES \<Rightarrow>
          (let fps = word_of_int (mi_fps i) :: u32 in
           if fps = 0 then Fault else Ret (sint (time * 1000 div fps)))
      | _ \<Rightarrow> Ret 0)"

text \<open>\<open>90000 / xine_get_stream_info (...)\<close>, an unsigned division.\<close>

definition frames_per_second :: "mcd_env \<Rightarrow> mcd \<Rightarrow> (int \<times> mcd) outcome" where
  "frames_per_second en s =
     (let d = en_info en XINE_STREAM_INFO_FRAME_DURATION (mw_calls (es_world s)) in
      if d = 0 then Fault
      else Ret (sint (90000 div d), calls (C_get_stream_info XINE_STREAM_INFO_FRAME_DURATION) s))"

section \<open>The event listener\<close>

text \<open>
  It runs on a thread of its own. Only \<open>xine_cue_point_event\<close> sends events of the cue point
  type, with a cue point as their data.
\<close>

definition mcd_listener :: "mcd_env \<Rightarrow> mcd_world ev_cb" where
  "mcd_listener en ud ev w =
     (case mw_inst w of None \<Rightarrow> w
      | Some i \<Rightarrow>
          if ev_type ev = XINE_EVENT_UI_PLAYBACK_FINISHED then
            (let i' = (case en_pos en (mw_calls w) of None \<Rightarrow> i
                       | Some (pos_stream, pos_time, len) \<Rightarrow> i\<lparr>mi_cuetime := len\<rparr>);
                 w1 = set_sem (mi_playsem i) True ((call C_get_pos_length w)\<lparr>mw_inst := Some i'\<rparr>) in
             if has_flag MCI_NOTIFY (mi_playflags i')
             then notify i' (mi_playcallback i') (mi_playuserparm i') MCI_PLAY MCI_NOTIFY_SUCCESSFUL w1 else w1)
          else if ev_type ev = XINE_EVENT_CUE_POINT then
            (case ev_data ev of
               Some (Cue c) \<Rightarrow>
                 call (C_position_change (mi_DeviceID i) (mi_posadviseCallback i) (mi_posadviseUserParm i)
                        (s32 (cp_currtime c * 3))) w
             | _ \<Rightarrow> w)
          else w)"

section \<open>Loading\<close>

text \<open>\<open>strcpy\<close> into an array of \<open>n\<close> characters.\<close>

definition c_strcpy :: "nat \<Rightarrow> string \<Rightarrow> string outcome" where
  "c_strcpy n src = (if length src < n then Ret src else Fault)"

definition load_name :: "string \<Rightarrow> string outcome" where
  "load_name filename =
     (if take 14 filename = ''.inet+file:///'' then
        obind (c_strcpy 200 (drop 14 filename)) (\<lambda>f.
        Ret (if 1 < length f \<and> f ! 1 = CHR ''|'' then f[1 := CHR '':''] else f))
      else if take 6 filename = ''.inet+'' then c_strcpy 200 (drop 6 filename)
      else c_strcpy 200 filename)"

definition load :: "mcd_env \<Rightarrow> string \<Rightarrow> mcd \<Rightarrow> (mci_rc \<times> mcd) outcome" where
  "load en filename s =
     obind (load_name filename) (\<lambda>f.
     obind (the_inst s) (\<lambda>i0.
     (let s0 = put_inst (i0\<lparr>mi_filename := f\<rparr>) s; ok = en_open en f (mw_calls (es_world s0)); s1 = calls (C_open f) s0 in
      if \<not> ok then
        Ret (if en_error en (mw_calls (es_world s1)) = XINE_ERROR_MALFORMED_MRL then MCIERR_FILE_NOT_FOUND
             else MCIERR_INVALID_MEDIA_TYPE, calls C_get_error s1)
      else if mi_timeformat i0 = MCI_FORMAT_FRAMES then
        obind (frames_per_second en s1) (\<lambda>(fps, s2).
        obind (the_inst s2) (\<lambda>i.
        Ret (MCIERR_SUCCESS NO_RETURN, put_inst (i\<lparr>mi_fps := fps\<rparr>) s2)))
      else Ret (MCIERR_SUCCESS NO_RETURN, s1))))"

section \<open>The messages\<close>

text \<open>
  Each branch of the switch: \<open>Inl rc\<close> for a \<open>return\<close>, \<open>Inr\<close> for a
  \<open>break\<close>, after which the driver notifies the application if it is to.
\<close>

type_synonym mci_branch = "((mci_rc, unit) sum \<times> mci_parms \<times> mcd) outcome"

definition ret :: "mci_rc \<Rightarrow> mci_parms \<Rightarrow> mcd \<Rightarrow> mci_branch" where
  "ret rc p s = Ret (Inl rc, p, s)"

definition brk :: "mci_parms \<Rightarrow> mcd \<Rightarrow> mci_branch" where
  "brk p s = Ret (Inr (), p, s)"

text \<open>\<open>xine_stream_new\<close>: empty lists of queues and cue points.\<close>

definition stream_new :: "mcd \<Rightarrow> mcd" where
  "stream_new s = calls C_stream_new
     (s\<lparr>es_queues := xine_list_new, es_cues := xine_list_new, es_next_cue_time := 0x7FFFFFFF\<rparr>)"

text \<open>\<open>g\<close> is what the memory that \<open>malloc\<close> returns holds.\<close>

definition mci_open :: "mcd_env \<Rightarrow> tmcdxine \<Rightarrow> mci_flags \<Rightarrow> mci_parms \<Rightarrow> mcd \<Rightarrow> mci_branch" where
  "mci_open en g fl p s =
     (let i = g\<lparr>mi_DeviceID := pm_usDeviceID p, mi_timeformat := MCI_FORMAT_MMTIME,
               mi_speedformat := MCI_FORMAT_FPS, mi_posadviseUnits := 0, mi_defaultwindow := True,
               mi_newwindow := True, mi_hasput := False, mi_cuetime := 0\<rparr>;
          s1 = calls C_xine_init (calls C_config_load (calls C_xine_new (put_inst i s)));
          video = en_video en (mw_calls (es_world s1)); s2 = calls C_open_video s1 in
      if \<not> video then ret MCIERR_DRIVER p s2
      else
        (let audio = en_audio en (mw_calls (es_world s2)); s3 = calls C_open_audio s2 in
         if \<not> audio then ret MCIERR_DRIVER p s3
         else
           obind (xine_event_new_queue (stream_new s3)) (\<lambda>(q, s4).
           obind (xine_event_create_listener_thread q 0 (put_inst (i\<lparr>mi_event_queue := q\<rparr>) s4)) (\<lambda>s5.
           (let h = mw_sfresh (es_world s5);
                s6 = put_inst (i\<lparr>mi_event_queue := q, mi_playsem := h\<rparr>)
                       (s5\<lparr>es_world := (set_sem h False (es_world s5))\<lparr>mw_sfresh := h + 1\<rparr>\<rparr>) in
            if has_flag MCI_OPEN_ELEMENT fl then
              obind (load en (pm_pszElementName p) s6) (\<lambda>(err, s7).
              if err \<noteq> MCIERR_SUCCESS NO_RETURN then ret err p s7 else brk p s7)
            else brk p s6)))))"

text \<open>The result of \<open>load\<close> goes into \<open>err\<close>, which nothing reads.\<close>

definition mci_load :: "mcd_env \<Rightarrow> mci_flags \<Rightarrow> mci_parms \<Rightarrow> mcd \<Rightarrow> mci_branch" where
  "mci_load en fl p s =
     (if \<not> has_flag MCI_OPEN_ELEMENT fl then ret MCIERR_INVALID_MEDIA_TYPE p s
      else
        obind (the_inst s) (\<lambda>i.
        obind (load en (pm_pszElementName p) (put_inst (i\<lparr>mi_cuetime := 0\<rparr>) s)) (\<lambda>(err, s1).
        brk p s1)))"

text \<open>Up to \<open>WaitForEnd\<close>; raising the default window waits for the window thread.\<close>

definition mci_play_start :: "mci_flags \<Rightarrow> nat \<Rightarrow> mci_parms \<Rightarrow> mcd \<Rightarrow> mcd outcome" where
  "mci_play_start fl userparm p s =
     obind (the_inst s) (\<lambda>i0.
     (let i = i0\<lparr>mi_playuserparm := userparm, mi_playflags := fl, mi_playcallback := pm_hwndCallback p\<rparr>;
          s1 = put_inst i s;
          s2 = (if mi_defaultwindow i then calls C_raise_window s1 else s1) in
      Ret (calls (C_play 0 (mi_cuetime i)) (s2\<lparr>es_world := set_sem (mi_playsem i) False (es_world s2)\<rparr>))))"

definition mci_play :: "mci_flags \<Rightarrow> nat \<Rightarrow> mci_parms \<Rightarrow> mcd \<Rightarrow> mci_branch" where
  "mci_play fl userparm p s =
     obind (mci_play_start fl userparm p s) (\<lambda>s1.
     obind (WaitForEnd s1) (\<lambda>(rc, s2). ret rc p s2))"

text \<open>Stopping tells the application that asked to be notified of the end of play.\<close>

definition abort_play :: "mcd \<Rightarrow> mcd outcome" where
  "abort_play s =
     obind (the_inst s) (\<lambda>i.
     Ret (if has_flag MCI_NOTIFY (mi_playflags i)
          then s\<lparr>es_world := notify i (mi_playcallback i) (mi_playuserparm i) MCI_PLAY MCI_NOTIFY_ABORTED (es_world s)\<rparr>
          else s))"

definition mci_stop :: "mcd_env \<Rightarrow> mci_parms \<Rightarrow> mcd \<Rightarrow> mci_branch" where
  "mci_stop en p s =
     obind (the_inst s) (\<lambda>i.
     (let i' = (case en_pos en (mw_calls (es_world s)) of None \<Rightarrow> i
                | Some (pos_stream, pos_time, len) \<Rightarrow> i\<lparr>mi_cuetime := pos_time\<rparr>) in
      obind (abort_play (calls C_stop (put_inst i' (calls C_get_pos_length s)))) (\<lambda>s1.
      brk p s1)))"

text \<open>\<open>xine_dispose\<close> frees the cue points of the stream.\<close>

fun dispose_cues :: "nat \<Rightarrow> mcd \<Rightarrow> mcd outcome" where
  "dispose_cues 0 s = Spin"
| "dispose_cues (Suc k) s =
     obind (take_first xine_list_first_content xine_list_delete_current (es_cues s)) (\<lambda>(c, l).
     case c of None \<Rightarrow> Ret (s\<lparr>es_cues := l\<rparr>)
     | Some a \<Rightarrow> dispose_cues k (s\<lparr>es_cues := l, es_cue := (es_cue s)(a := None)\<rparr>))"

definition mci_close :: "nat \<Rightarrow> mcd_env \<Rightarrow> mci_flags \<Rightarrow> mci_parms \<Rightarrow> mcd \<Rightarrow> mci_branch" where
  "mci_close k en fl p s =
     (if has_flag MCI_CLOSE_EXIT fl then ret (MCIERR_SUCCESS NO_RETURN) p s
      else
        obind (the_inst s) (\<lambda>i.
        obind (xine_event_dispose_queue k (mcd_listener en) (mi_event_queue i) (calls C_config_save s)) (\<lambda>s1.
        obind (dispose_cues k (calls C_dispose (calls C_close s1))) (\<lambda>s2.
        obind (the_inst s2) (\<lambda>i2.
        (let s3 = calls (C_close_fd (mi_logfile i2)) (calls C_exit (calls C_close_audio (calls C_close_video s2))) in
         brk p (s3\<lparr>es_world := (es_world s3)\<lparr>mw_inst := None\<rparr>\<rparr>)))))))"

definition caps_messages :: "mci_id list" where
  "caps_messages = [MCI_OPEN, MCI_GETDEVCAPS, MCI_PLAY, MCI_CLOSE, MCI_STOP, MCI_LOAD, MCI_ACQUIREDEVICE,
     MCI_RELEASEDEVICE, MCIDRV_RESTORE, MCIDRV_SAVE, MCI_CUE, MCI_WINDOW, MCI_SET, MCI_STATUS]"

definition caps_true_items :: "mci_item list" where
  "caps_true_items = [MCI_GETDEVCAPS_USES_FILES, MCI_GETDEVCAPS_CAN_PLAY, MCI_GETDEVCAPS_CAN_SETVOLUME,
     MCI_GETDEVCAPS_HAS_AUDIO, MCI_GETDEVCAPS_HAS_VIDEO, MCI_DGV_GETDEVCAPS_CAN_DISTORT,
     MCI_DGV_GETDEVCAPS_CAN_STRETCH]"

definition caps_false_items :: "mci_item list" where
  "caps_false_items = [MCI_GETDEVCAPS_CAN_EJECT, MCI_GETDEVCAPS_CAN_LOCKEJECT,
     MCI_GETDEVCAPS_CAN_PROCESS_INTERNAL, MCI_GETDEVCAPS_CAN_RECORD, MCI_GETDEVCAPS_CAN_RECORD_INSERT,
     MCI_GETDEVCAPS_CAN_SAVE, MCI_GETDEVCAPS_CAN_STREAM, MCI_GETDEVCAPS_HAS_IMAGE,
     MCI_DGV_GETDEVCAPS_CAN_REVERSE]"

definition mci_getdevcaps :: "mcd_env \<Rightarrow> mci_flags \<Rightarrow> mci_parms \<Rightarrow> mcd \<Rightarrow> mci_branch" where
  "mci_getdevcaps en fl p s =
     (if has_flag MCI_GETDEVCAPS_MESSAGE fl then
        ret (MCIERR_SUCCESS MCI_TRUE_FALSE_RETURN)
          (p\<lparr>pm_ulReturn := Some (if pm_usMessage p \<in> set caps_messages then MCI_TRUE else MCI_FALSE)\<rparr>) s
      else if has_flag MCI_GETDEVCAPS_ITEM fl then
        (if pm_ulItem p = MCI_DGV_GETDEVCAPS_NORMAL_RATE then
           obind (the_inst s) (\<lambda>i.
           if mi_speedformat i = MCI_FORMAT_FPS then
             (let d = sint (en_info en XINE_STREAM_INFO_FRAME_DURATION (mw_calls (es_world s))) in
              ret (MCIERR_SUCCESS MCI_SPEED_FORMAT_RETURN)
                (p\<lparr>pm_ulReturn := Some (Num (if d \<noteq> 0 then word_of_int (90000 sdiv d) else 0))\<rparr>)
                (calls (C_get_stream_info XINE_STREAM_INFO_FRAME_DURATION) s))
           else ret (MCIERR_SUCCESS MCI_SPEED_FORMAT_RETURN) (p\<lparr>pm_ulReturn := Some (Num 100)\<rparr>) s)
         else if pm_ulItem p \<in> set caps_true_items then
           ret (MCIERR_SUCCESS MCI_TRUE_FALSE_RETURN) (p\<lparr>pm_ulReturn := Some MCI_TRUE\<rparr>) s
         else if pm_ulItem p \<in> set caps_false_items then
           ret (MCIERR_SUCCESS MCI_TRUE_FALSE_RETURN) (p\<lparr>pm_ulReturn := Some MCI_FALSE\<rparr>) s
         else brk p s)
      else brk p s)"

text \<open>\<open>pos_time\<close> and \<open>length_time\<close> are locals: \<open>g\<close> is what they hold before.\<close>

definition status_position :: "mcd_env \<Rightarrow> int \<Rightarrow> mcd \<Rightarrow> (u32 \<times> mcd) outcome" where
  "status_position en g s =
     obind (the_inst s) (\<lambda>i.
     (let stat = en_status en (mw_calls (es_world s)); s1 = calls C_get_status s in
      if stat = XINE_STATUS_PLAY then
        Ret (toMMFormat i (case en_pos en (mw_calls (es_world s1)) of None \<Rightarrow> g
               | Some (pos_stream, pos_time, len) \<Rightarrow> pos_time), calls C_get_pos_length s1)
      else Ret (toMMFormat i (mi_cuetime i), s1)))"

definition status_length :: "mcd_env \<Rightarrow> int \<Rightarrow> mcd \<Rightarrow> (u32 \<times> mcd) outcome" where
  "status_length en g s =
     obind (the_inst s) (\<lambda>i.
     Ret (toMMFormat i (case en_pos en (mw_calls (es_world s)) of None \<Rightarrow> g
            | Some (pos_stream, pos_time, len) \<Rightarrow> len), calls C_get_pos_length s))"

definition mci_status :: "mcd_env \<Rightarrow> int \<Rightarrow> nat \<Rightarrow> mci_flags \<Rightarrow> mci_parms \<Rightarrow> mcd \<Rightarrow> mci_branch" where
  "mci_status en g client fl p s =
     (if \<not> has_flag MCI_STATUS_ITEM fl then ret MCIERR_UNSUPPORTED_FLAG p s
      else if pm_ulItem p = MCI_STATUS_MEDIA_PRESENT \<or> pm_ulItem p = MCI_STATUS_READY then
        obind (the_inst s) (\<lambda>_.
        (let stat = en_status en (mw_calls (es_world s)) in
         ret (MCIERR_SUCCESS MCI_TRUE_FALSE_RETURN)
           (p\<lparr>pm_ulReturn := Some (if stat = XINE_STATUS_STOP \<or> stat = XINE_STATUS_PLAY then MCI_TRUE else MCI_FALSE)\<rparr>)
           (calls C_get_status s)))
      else if pm_ulItem p = MCI_STATUS_VIDEO then
        ret (MCIERR_SUCCESS MCI_TRUE_FALSE_RETURN) (p\<lparr>pm_ulReturn := Some MCI_TRUE\<rparr>) s
      else if pm_ulItem p = MCI_STATUS_LENGTH then
        obind (status_length en g s) (\<lambda>(v, s1).
        ret (MCIERR_SUCCESS MCI_INTEGER_RETURNED) (p\<lparr>pm_ulReturn := Some (Num v)\<rparr>) s1)
      else if pm_ulItem p = MCI_STATUS_POSITION \<or> pm_ulItem p = MCI_STATUS_POSITION_IN_TRACK then
        obind (status_position en g s) (\<lambda>(v, s1).
        ret (MCIERR_SUCCESS MCI_INTEGER_RETURNED) (p\<lparr>pm_ulReturn := Some (Num v)\<rparr>) s1)
      else if pm_ulItem p = MCI_STATUS_MODE then
        obind (the_inst s) (\<lambda>_.
        obind (aget statusconvert (en_status en (mw_calls (es_world s)))) (\<lambda>m.
        ret (MCIERR_SUCCESS MCI_MODE_RETURN) (p\<lparr>pm_ulReturn := Some (Mode m)\<rparr>) (calls C_get_status s)))
      else if pm_ulItem p = MCI_STATUS_TIME_FORMAT then
        obind (the_inst s) (\<lambda>i.
        ret (MCIERR_SUCCESS MCI_TIME_FORMAT_RETURN) (p\<lparr>pm_ulReturn := Some (Fmt (mi_timeformat i))\<rparr>) s)
      else if pm_ulItem p = MCI_DGV_STATUS_VIDEO_X_EXTENT then
        obind (the_inst s) (\<lambda>_.
        ret (MCIERR_SUCCESS (Upper (en_info en XINE_STREAM_INFO_VIDEO_WIDTH (mw_calls (es_world s))))) p
          (calls (C_get_stream_info XINE_STREAM_INFO_VIDEO_WIDTH) s))
      else if pm_ulItem p = MCI_DGV_STATUS_VIDEO_Y_EXTENT then
        obind (the_inst s) (\<lambda>_.
        ret (MCIERR_SUCCESS (Upper (en_info en XINE_STREAM_INFO_VIDEO_HEIGHT (mw_calls (es_world s))))) p
          (calls (C_get_stream_info XINE_STREAM_INFO_VIDEO_HEIGHT) s))
      else if pm_ulItem p = MCI_DGV_STATUS_HWND then
        obind (the_inst s) (\<lambda>_.
        ret (MCIERR_SUCCESS MCI_TIME_FORMAT_RETURN) (p\<lparr>pm_ulReturn := Some (Hwnd client)\<rparr>) s)
      else ret MCIERR_UNSUPPORTED_FLAG p s)"

definition mci_set :: "mcd_env \<Rightarrow> mci_flags \<Rightarrow> mci_parms \<Rightarrow> mcd \<Rightarrow> mci_branch" where
  "mci_set en fl p s =
     (if has_flag MCI_SET_TIME_FORMAT fl then
        obind (the_inst s) (\<lambda>i.
        (let i1 = i\<lparr>mi_timeformat := pm_ulTimeFormat p\<rparr> in
         if mi_timeformat i1 = MCI_FORMAT_FRAMES then
           obind (frames_per_second en (put_inst i1 s)) (\<lambda>(fps, s1). brk p (put_inst (i1\<lparr>mi_fps := fps\<rparr>) s1))
         else brk p (put_inst i1 s)))
      else brk p s)"

definition mci_window :: "mci_flags \<Rightarrow> mci_parms \<Rightarrow> mcd \<Rightarrow> mci_branch" where
  "mci_window fl p s =
     (if has_flag MCI_DGV_WINDOW_TEXT fl then
        obind (the_inst s) (\<lambda>i.
        obind (c_strcpy 200 (pm_pszText p)) (\<lambda>t.
        brk p (calls (C_window_text t) (put_inst (i\<lparr>mi_title := t\<rparr>) s))))
      else if has_flag MCI_DGV_WINDOW_DEFAULT fl \<or> has_flag MCI_DGV_WINDOW_HWND fl then
        obind (the_inst s) (\<lambda>i.
        (let s1 = (if \<not> mi_defaultwindow i then calls (C_unsubclass (mi_Display i)) s else s);
             i1 = (if has_flag MCI_DGV_WINDOW_DEFAULT fl then i\<lparr>mi_defaultwindow := True\<rparr>
                   else i\<lparr>mi_defaultwindow := False, mi_Display := pm_hwndDest p\<rparr>) in
         brk p (put_inst (i1\<lparr>mi_newwindow := True\<rparr>) s1)))
      else brk p s)"

definition mci_cue :: "mci_flags \<Rightarrow> mci_parms \<Rightarrow> mcd \<Rightarrow> mci_branch" where
  "mci_cue fl p s =
     (if has_flag MCI_TO fl then
        obind (the_inst s) (\<lambda>i.
        obind (fromMMFormat i (pm_ulTo p)) (\<lambda>t. brk p (put_inst (i\<lparr>mi_cuetime := t\<rparr>) s)))
      else brk p s)"

definition drop_advise :: "nat \<Rightarrow> mcd \<Rightarrow> mcd outcome" where
  "drop_advise k s =
     obind (the_inst s) (\<lambda>i.
     if mi_posadviseUnits i > 0 then xine_event_dispose_cue_point k 0 (mi_posadviseUnits i) s else Ret s)"

definition mci_set_position_advise :: "nat \<Rightarrow> mcd_env \<Rightarrow> mci_flags \<Rightarrow> mci_parms \<Rightarrow> mcd \<Rightarrow> mci_branch" where
  "mci_set_position_advise k en fl p s =
     (if has_flag MCI_SET_POSITION_ADVISE_ON fl then
        obind (drop_advise k s) (\<lambda>s1.
        obind (the_inst s1) (\<lambda>i.
        obind (fromMMFormat i (pm_ulUnits p)) (\<lambda>u.
        obind (xine_event_create_cue_point 0 u (en_advise en)
                 (put_inst (i\<lparr>mi_posadviseUnits := u, mi_posadviseUserParm := pm_usUserParm p,
                             mi_posadviseCallback := pm_hwndCallback p\<rparr>) s1)) (\<lambda>s2.
        brk p s2))))
      else if has_flag MCI_SET_POSITION_ADVISE_OFF fl then
        obind (drop_advise k s) (\<lambda>s1.
        obind (the_inst s1) (\<lambda>i.
        brk p (put_inst (i\<lparr>mi_posadviseUnits := 0\<rparr>) s1)))
      else brk p s)"

definition mci_pause :: "mci_parms \<Rightarrow> mcd \<Rightarrow> mci_branch" where
  "mci_pause p s = obind (the_inst s) (\<lambda>_. brk p (calls (C_set_speed 0) s))"

definition mci_resume :: "mci_parms \<Rightarrow> mcd \<Rightarrow> mci_branch" where
  "mci_resume p s = obind (the_inst s) (\<lambda>_. brk p (calls (C_set_speed 4) s))"

definition mci_seek :: "mcd_env \<Rightarrow> mci_flags \<Rightarrow> mci_parms \<Rightarrow> mcd \<Rightarrow> mci_branch" where
  "mci_seek en fl p s =
     obind (the_inst s) (\<lambda>_.
     obind (abort_play (calls C_stop s)) (\<lambda>s1.
     obind (the_inst s1) (\<lambda>i.
     if has_flag MCI_TO_START fl then brk p (put_inst (i\<lparr>mi_cuetime := 0\<rparr>) s1)
     else if has_flag MCI_TO_END fl then
       brk p (put_inst (case en_pos en (mw_calls (es_world s1)) of None \<Rightarrow> i
                        | Some (pos_stream, pos_time, len) \<Rightarrow> i\<lparr>mi_cuetime := len\<rparr>) (calls C_get_pos_length s1))
     else if has_flag MCI_TO fl then
       obind (fromMMFormat i (pm_ulTo p)) (\<lambda>t. brk p (put_inst (i\<lparr>mi_cuetime := t\<rparr>) s1))
     else brk p s1)))"

definition mci_put :: "mci_flags \<Rightarrow> mci_parms \<Rightarrow> mcd \<Rightarrow> mci_branch" where
  "mci_put fl p s =
     (if has_flag MCI_DGV_PUT_DESTINATION fl then
        obind (the_inst s) (\<lambda>i. brk p (put_inst (i\<lparr>mi_hasput := True, mi_putrect := pm_rc p\<rparr>) s))
      else brk p s)"

section \<open>The driver entry\<close>

definition mci_switch ::
  "nat \<Rightarrow> mcd_env \<Rightarrow> tmcdxine \<Rightarrow> int \<Rightarrow> nat \<Rightarrow> mci_id \<Rightarrow> mci_flags \<Rightarrow> nat \<Rightarrow> mci_parms \<Rightarrow> mcd \<Rightarrow> mci_branch" where
  "mci_switch k en g gi client msg fl userparm p s =
     (case msg of
        MCI_OPEN \<Rightarrow> mci_open en g fl p s
      | MCI_LOAD \<Rightarrow> mci_load en fl p s
      | MCI_PLAY \<Rightarrow> mci_play fl userparm p s
      | MCI_STOP \<Rightarrow> mci_stop en p s
      | MCI_CLOSE \<Rightarrow> mci_close k en fl p s
      | MCI_GETDEVCAPS \<Rightarrow> mci_getdevcaps en fl p s
      | MCI_STATUS \<Rightarrow> mci_status en gi client fl p s
      | MCI_SET \<Rightarrow> mci_set en fl p s
      | MCI_WINDOW \<Rightarrow> mci_window fl p s
      | MCI_CUE \<Rightarrow> mci_cue fl p s
      | MCI_SET_POSITION_ADVISE \<Rightarrow> mci_set_position_advise k en fl p s
      | MCI_PAUSE \<Rightarrow> mci_pause p s
      | MCI_RESUME \<Rightarrow> mci_resume p s
      | MCI_SEEK \<Rightarrow> mci_seek en fl p s
      | MCI_PUT \<Rightarrow> mci_put fl p s
      | MCI_ACQUIREDEVICE \<Rightarrow> brk p s
      | MCI_RELEASEDEVICE \<Rightarrow> brk p s
      | MCIDRV_RESTORE \<Rightarrow> brk p s
      | MCIDRV_SAVE \<Rightarrow> brk p s
      | MCI_OTHER n \<Rightarrow> ret MCIERR_UNRECOGNIZED_COMMAND p s)"

definition mciDriverEntry ::
  "nat \<Rightarrow> mcd_env \<Rightarrow> tmcdxine \<Rightarrow> int \<Rightarrow> nat \<Rightarrow> mci_id \<Rightarrow> mci_flags \<Rightarrow> nat \<Rightarrow> mci_parms \<Rightarrow> mcd \<Rightarrow>
   (mci_rc \<times> mci_parms \<times> mcd) outcome" where
  "mciDriverEntry k en g gi client msg fl userparm p s =
     obind (mci_switch k en g gi client msg fl userparm p s) (\<lambda>(b, p1, s1).
     case b of
       Inl rc \<Rightarrow> Ret (rc, p1, s1)
     | Inr _ \<Rightarrow>
         if has_flag MCI_NOTIFY fl then
           obind (the_inst s1) (\<lambda>i.
           Ret (MCIERR_SUCCESS NO_RETURN, p1,
                s1\<lparr>es_world := notify i (pm_hwndCallback p1) userparm msg MCI_NOTIFY_SUCCESSFUL (es_world s1)\<rparr>))
         else Ret (MCIERR_SUCCESS NO_RETURN, p1, s1))"

end
