(* ===== verification/Mcd_Inv.thy ===== *)
theory Mcd_Inv
  imports Mcd
begin

text \<open>
  The invariant of the media control driver: an open driver has one event queue with its
  listener, its semaphore, and the cue point of its position advise after those that were left
  behind; a closed one has no event, queue or cue point. Every message that does not fault, the
  engine and the listener keep it; which messages fault is said exactly.
\<close>

section \<open>The driver's invariant\<close>

lemma world_simps [simp]:
  "ev_inv (s\<lparr>es_world := w\<rparr>) H = ev_inv s H"
  "queue_ids (s\<lparr>es_world := w\<rparr>) = queue_ids s"
  "event_ids (s\<lparr>es_world := w\<rparr>) = event_ids s"
  "pending (s\<lparr>es_world := w\<rparr>) = pending s"
  "cue_inv (s\<lparr>es_world := w\<rparr>) = cue_inv s"
  "cue_ids (s\<lparr>es_world := w\<rparr>) = cue_ids s"
  "cues (s\<lparr>es_world := w\<rparr>) = cues s"
  "enough k (s\<lparr>es_world := w\<rparr>) = enough k s"
  by (simp_all add: ev_inv_def queues_ok_def events_ok_def queue_ids_def event_ids_def [abs_def] pending_def [abs_def]
      cue_inv_def cue_ids_def cues_def enough_def)

lemma world_eq [simp]: "s\<lparr>es_world := w\<rparr> = s\<lparr>es_world := w'\<rparr> \<longleftrightarrow> w = w'"
  by (cases s) simp

lemma put_inst_simps [simp]:
  "put_inst i (s\<lparr>es_world := w\<rparr>) = s\<lparr>es_world := w\<lparr>mw_inst := Some i\<rparr>\<rparr>"
  "mw_inst (call c w) = mw_inst w"
  "mw_inst (notify i h u m n w) = mw_inst w"
  "mw_inst (set_sem h b w) = mw_inst w"
  "mw_calls (call c w) = mw_calls w @ [c]"
  "mw_calls (set_sem h b w) = mw_calls w"
  "mw_sem (call c w) = mw_sem w"
  by (simp_all add: put_inst_def call_def notify_def set_sem_def)

text \<open>
  A position advise with units that convert to zero or less makes a cue point that nothing takes
  away: \<open>left\<close> are the cue points that were left behind like this.
\<close>

definition cue_key :: "cue_point \<Rightarrow> int \<times> int" where
  "cue_key p = (cp_cuetime p, cp_frequency p)"

definition advise_cues :: "mcd \<Rightarrow> (int \<times> int) list" where
  "advise_cues s = map cue_key (cues s)"

definition left :: "(int \<times> int) list \<Rightarrow> (int \<times> int) list" where
  "left ks = filter (\<lambda>(t, f). f \<le> 0) ks"

definition current_advise :: "tmcdxine \<Rightarrow> (int \<times> int) list" where
  "current_advise i = (if mi_posadviseUnits i > 0 then [(0, mi_posadviseUnits i)] else [])"

definition mcd_inv :: "mcd \<Rightarrow> tmcdxine \<Rightarrow> bool" where
  "mcd_inv s i \<longleftrightarrow> mw_inst (es_world s) = Some i \<and> ev_inv s {} \<and> cue_inv s \<and> dom (es_cue s) = set (cue_ids s) \<and>
     queue_ids s = [mi_event_queue i] \<and> mi_playsem i \<in> dom (mw_sem (es_world s)) \<and>
     advise_cues s = left (advise_cues s) @ current_advise i"

text \<open>The messages that leave queues and cue points alone.\<close>

definition keeps :: "tmcdxine \<Rightarrow> tmcdxine \<Rightarrow> bool" where
  "keeps i i' \<longleftrightarrow> mi_event_queue i' = mi_event_queue i \<and> mi_posadviseUnits i' = mi_posadviseUnits i \<and>
     mi_playsem i' = mi_playsem i"

lemma mcd_inv_world:
  assumes "mcd_inv s i" and "mw_inst w = Some i'" and "keeps i i'" and "dom (mw_sem (es_world s)) \<subseteq> dom (mw_sem w)"
  shows "mcd_inv (s\<lparr>es_world := w\<rparr>) i'"
  using assms by (auto simp: mcd_inv_def keeps_def advise_cues_def current_advise_def)

lemma mcd_inv_inst: "mcd_inv s i \<Longrightarrow> mw_inst (es_world s) = Some i"
  by (simp add: mcd_inv_def)

text \<open>The messages that fault, each for one reason the code does not check.\<close>

definition no_rate :: "tmcdxine \<Rightarrow> bool" where
  "no_rate i \<longleftrightarrow> mi_timeformat i = MCI_FORMAT_FRAMES \<and> (word_of_int (mi_fps i) :: u32) = 0"

definition no_duration :: "mcd_env \<Rightarrow> mcd_call list \<Rightarrow> bool" where
  "no_duration en cs \<longleftrightarrow> en_info en XINE_STREAM_INFO_FRAME_DURATION cs = 0"

definition load_faults :: "mcd_env \<Rightarrow> tmcdxine \<Rightarrow> string \<Rightarrow> mcd_call list \<Rightarrow> bool" where
  "load_faults en i filename cs =
     (case load_name filename of
        Ret f \<Rightarrow> mi_timeformat i = MCI_FORMAT_FRAMES \<and> en_open en f cs \<and> no_duration en (cs @ [C_open f])
      | _ \<Rightarrow> True)"

definition message_faults :: "mcd_env \<Rightarrow> mcd \<Rightarrow> tmcdxine \<Rightarrow> mci_id \<Rightarrow> mci_flags \<Rightarrow> mci_parms \<Rightarrow> bool" where
  "message_faults en s i msg fl p =
     (case msg of
        MCI_LOAD \<Rightarrow> has_flag MCI_OPEN_ELEMENT fl \<and> load_faults en i (pm_pszElementName p) (mw_calls (es_world s))
      | MCI_SET \<Rightarrow> has_flag MCI_SET_TIME_FORMAT fl \<and> pm_ulTimeFormat p = MCI_FORMAT_FRAMES \<and>
          no_duration en (mw_calls (es_world s))
      | MCI_CUE \<Rightarrow> has_flag MCI_TO fl \<and> no_rate i
      | MCI_SEEK \<Rightarrow> \<not> has_flag MCI_TO_START fl \<and> \<not> has_flag MCI_TO_END fl \<and> has_flag MCI_TO fl \<and> no_rate i
      | MCI_SET_POSITION_ADVISE \<Rightarrow> has_flag MCI_SET_POSITION_ADVISE_ON fl \<and> no_rate i
      | MCI_STATUS \<Rightarrow> has_flag MCI_STATUS_ITEM fl \<and> pm_ulItem p = MCI_STATUS_MODE \<and>
          \<not> en_status en (mw_calls (es_world s)) < 4
      | MCI_WINDOW \<Rightarrow> has_flag MCI_DGV_WINDOW_TEXT fl \<and> \<not> length (pm_pszText p) < 200
      | MCI_CLOSE \<Rightarrow> \<not> has_flag MCI_CLOSE_EXIT fl \<and> has_flag MCI_NOTIFY fl
      | _ \<Rightarrow> False)"

lemma from_format: "if no_rate i then fromMMFormat i v = Fault else \<exists>t. fromMMFormat i v = Ret t"
  by (simp add: fromMMFormat_def no_rate_def Let_def split: mci_format.splits)

lemma rate_of:
  "frames_per_second en s =
    (if no_duration en (mw_calls (es_world s)) then Fault
     else Ret (sint (90000 div en_info en XINE_STREAM_INFO_FRAME_DURATION (mw_calls (es_world s))),
       calls (C_get_stream_info XINE_STREAM_INFO_FRAME_DURATION) s))"
  by (simp add: frames_per_second_def no_duration_def Let_def)

text \<open>A message that returns, having changed the instance and the calls only.\<close>

definition world_run :: "mci_branch \<Rightarrow> mcd \<Rightarrow> tmcdxine \<Rightarrow> bool" where
  "world_run r s i \<longleftrightarrow> (\<exists>b p w i'. r = Ret (b, p, s\<lparr>es_world := w\<rparr>) \<and> mw_inst w = Some i' \<and> keeps i i' \<and>
     dom (mw_sem (es_world s)) \<subseteq> dom (mw_sem w))"

abbreviation run_or_fault :: "bool \<Rightarrow> mci_branch \<Rightarrow> mcd \<Rightarrow> tmcdxine \<Rightarrow> bool" where
  "run_or_fault f r s i \<equiv> (if f then r = Fault else world_run r s i)"

lemma world_runI: "r = Ret (b, p, s\<lparr>es_world := w\<rparr>) \<Longrightarrow> mw_inst w = Some i' \<Longrightarrow> keeps i i' \<Longrightarrow>
    dom (mw_sem (es_world s)) \<subseteq> dom (mw_sem w) \<Longrightarrow> world_run r s i"
  unfolding world_run_def by blast

lemma keeps_refl: "keeps i i"
  by (simp add: keeps_def)

lemma world_run_same: "mw_inst (es_world s) = Some i \<Longrightarrow> world_run (Ret (b, p, s)) s i"
  by (rule world_runI [of _ b p "es_world s" s]) (simp_all add: keeps_def)

lemma name_ok: "length f < 200 \<Longrightarrow> \<exists>g. load_name f = Ret g"
  by (auto simp: load_name_def c_strcpy_def)

lemma load_cases:
  assumes "mw_inst (es_world s) = Some i"
  shows "if load_faults en i f (mw_calls (es_world s)) then load en f s = Fault
    else \<exists>rc w i'. load en f s = Ret (rc, s\<lparr>es_world := w\<rparr>) \<and> mw_inst w = Some i' \<and> keeps i i' \<and>
      dom (mw_sem (es_world s)) \<subseteq> dom (mw_sem w)"
proof (cases "load_name f")
  case (Ret g)
  then show ?thesis using assms
    by (simp add: load_def load_faults_def the_inst_def rate_of Let_def put_inst_def keeps_def)
qed (auto simp: load_def load_faults_def load_name_def c_strcpy_def split: if_splits)

lemmas world_msg = the_inst_def ret_def brk_def Let_def put_inst_def keeps_def

lemma run_load:
  assumes "mw_inst (es_world s) = Some i"
  shows "run_or_fault (message_faults en s i MCI_LOAD fl p) (mci_load en fl p s) s i"
proof (cases "has_flag MCI_OPEN_ELEMENT fl")
  case True
  let ?i = "i\<lparr>mi_cuetime := 0\<rparr>"
  have f: "mw_inst (es_world (put_inst ?i s)) = Some ?i" by (simp add: put_inst_def)
  have e: "load_faults en ?i = load_faults en i" by (intro ext) (simp add: load_faults_def cong: outcome.case_cong)
  have r: "mci_load en fl p s = obind (load en (pm_pszElementName p) (put_inst ?i s)) (\<lambda>(err, s1). brk p s1)"
    using True assms by (simp add: mci_load_def the_inst_def)
  show ?thesis
  proof (cases "load_faults en i (pm_pszElementName p) (mw_calls (es_world s))")
    case bad: True
    then show ?thesis using load_cases [OF f, of en "pm_pszElementName p"] True r e
      by (simp add: message_faults_def put_inst_def)
  next
    case False
    then obtain rc w i' where l: "load en (pm_pszElementName p) (put_inst ?i s) = Ret (rc, put_inst ?i s\<lparr>es_world := w\<rparr>)"
      "mw_inst w = Some i'" "keeps ?i i'" "dom (mw_sem (es_world s)) \<subseteq> dom (mw_sem w)"
      using load_cases [OF f, of en "pm_pszElementName p"] e by (auto simp: put_inst_def)
    have "mci_load en fl p s = Ret (Inr (), p, s\<lparr>es_world := w\<rparr>)" using r l(1) by (simp add: brk_def put_inst_def)
    moreover have "keeps i i'" using l(3) by (simp add: keeps_def)
    ultimately show ?thesis using l(2,4) False by (simp add: message_faults_def world_runI)
  qed
next
  case False
  then show ?thesis using assms by (simp add: mci_load_def ret_def world_run_same message_faults_def)
qed

lemma sem_dom: "dom (mw_sem (set_sem h b w)) = insert h (dom (mw_sem w))"
  "dom (mw_sem (call c w)) = dom (mw_sem w)" "dom (mw_sem (notify i hw u m n w)) = dom (mw_sem w)"
  by (auto simp: set_sem_def call_def notify_def)

lemma run_play:
  assumes "mw_inst (es_world s) = Some i" and "\<not> has_flag MCI_WAIT fl"
  shows "world_run (mci_play fl u p s) s i"
  using assms unfolding mci_play_def mci_play_start_def WaitForEnd_def
  by (simp add: world_msg world_run_def sem_dom subset_insertI)

lemma play_waits:
  assumes "mw_inst (es_world s) = Some i" and "has_flag MCI_WAIT fl"
  shows "mci_play fl u p s = Wait \<and> (\<exists>s1. mci_play_start fl u p s = Ret s1)"
  using assms unfolding mci_play_def mci_play_start_def WaitForEnd_def
  by (simp add: world_msg set_sem_def call_def)

lemma abort_play_run:
  assumes "mw_inst (es_world s) = Some i"
  shows "\<exists>w. abort_play s = Ret (s\<lparr>es_world := w\<rparr>) \<and> mw_inst w = Some i \<and> dom (mw_sem w) = dom (mw_sem (es_world s))"
  using assms by (cases "has_flag MCI_NOTIFY (mi_playflags i)")
    (simp_all add: abort_play_def the_inst_def exI [of _ "es_world s"] sem_dom)

lemma run_stop:
  assumes "mw_inst (es_world s) = Some i"
  shows "world_run (mci_stop en p s) s i"
proof -
  define j where "j = (case en_pos en (mw_calls (es_world s)) of None \<Rightarrow> i
                | Some (pos_stream, pos_time, len) \<Rightarrow> i\<lparr>mi_cuetime := pos_time\<rparr>)"
  have j: "keeps i j" by (auto simp: j_def keeps_def split: option.splits)
  let ?s1 = "calls C_stop (put_inst j (calls C_get_pos_length s))"
  obtain w where w: "abort_play ?s1 = Ret (?s1\<lparr>es_world := w\<rparr>)" "mw_inst w = Some j"
    "dom (mw_sem w) = dom (mw_sem (es_world s))"
    using abort_play_run [of ?s1 j] by (auto simp: put_inst_def)
  have "mci_stop en p s = obind (abort_play ?s1) (\<lambda>s1. brk p s1)"
    using assms unfolding j_def by (simp add: mci_stop_def the_inst_def Let_def)
  then have "mci_stop en p s = Ret (Inr (), p, s\<lparr>es_world := w\<rparr>)" using w(1) by (simp add: brk_def)
  then show ?thesis using w(2,3) j by (simp add: world_runI)
qed

lemma run_seek:
  assumes "mw_inst (es_world s) = Some i"
  shows "run_or_fault (message_faults en s i MCI_SEEK fl p) (mci_seek en fl p s) s i"
proof -
  obtain w where w: "abort_play (calls C_stop s) = Ret (s\<lparr>es_world := w\<rparr>)" "mw_inst w = Some i"
    "dom (mw_sem w) = dom (mw_sem (es_world s))"
    using abort_play_run [of "calls C_stop s" i] assms by auto
  show ?thesis using w assms from_format [of i "pm_ulTo p"] unfolding mci_seek_def world_run_def message_faults_def
    by (auto simp: the_inst_def brk_def Let_def put_inst_def keeps_def split: option.splits if_splits)
qed

lemma run_caps:
  assumes "mw_inst (es_world s) = Some i"
  shows "world_run (mci_getdevcaps en fl p s) s i"
proof -
  have [simp]: "world_run (Ret (b, p', calls c s)) s i" "world_run (Ret (b, p', s)) s i" for b p' c
    using world_run_same [OF assms] world_runI [OF refl, of "call c (es_world s)" i i s b p'] assms
    by (simp_all add: keeps_refl)
  show ?thesis using assms unfolding mci_getdevcaps_def by (simp add: the_inst_def ret_def brk_def Let_def)
qed

lemma run_status:
  assumes "mw_inst (es_world s) = Some i"
  shows "run_or_fault (message_faults en s i MCI_STATUS fl p) (mci_status en g client fl p s) s i"
proof -
  have k [simp]: "world_run (Ret (b, p', s\<lparr>es_world := w\<rparr>)) s i" if "mw_inst w = Some i" "mw_sem w = mw_sem (es_world s)" for b p' w
    using world_runI [OF refl that(1) keeps_refl] that(2) by simp
  have [simp]: "world_run (Ret (b, p', s)) s i" for b p' using world_run_same [OF assms] .
  have l: "length statusconvert = 4" by (simp add: statusconvert_def)
  have st: "aget statusconvert n = (if n < 4 then Ret (statusconvert ! n) else Fault)" for n by (simp add: aget_def l)
  show ?thesis
  proof (cases "has_flag MCI_STATUS_ITEM fl \<and> pm_ulItem p = MCI_STATUS_MODE")
    case True
    then show ?thesis using assms by (simp add: mci_status_def message_faults_def the_inst_def ret_def st)
  next
    case False
    have nf: "\<not> message_faults en s i MCI_STATUS fl p" using False by (auto simp: message_faults_def)
    have "world_run (mci_status en g client fl p s) s i" using assms False unfolding mci_status_def
      by (simp add: the_inst_def ret_def Let_def status_length_def status_position_def)
    then show ?thesis using nf by simp
  qed
qed

lemma run_set:
  assumes "mw_inst (es_world s) = Some i"
  shows "run_or_fault (message_faults en s i MCI_SET fl p) (mci_set en fl p s) s i"
proof (cases "has_flag MCI_SET_TIME_FORMAT fl \<and> pm_ulTimeFormat p = MCI_FORMAT_FRAMES")
  case True
  then show ?thesis using assms unfolding mci_set_def message_faults_def
    by (simp add: world_msg world_run_def rate_of)
next
  case False
  have nf: "\<not> message_faults en s i MCI_SET fl p" using False by (auto simp: message_faults_def)
  have "world_run (mci_set en fl p s) s i" using assms world_run_same [OF assms] False unfolding mci_set_def
    by (simp add: world_msg world_run_def)
  then show ?thesis using nf by simp
qed

lemma run_window:
  assumes "mw_inst (es_world s) = Some i"
  shows "run_or_fault (message_faults en s i MCI_WINDOW fl p) (mci_window fl p s) s i"
proof (cases "has_flag MCI_DGV_WINDOW_TEXT fl")
  case True
  then show ?thesis using assms unfolding mci_window_def message_faults_def
    by (simp add: world_msg world_run_def c_strcpy_def)
next
  case False
  have nf: "\<not> message_faults en s i MCI_WINDOW fl p" using False by (auto simp: message_faults_def)
  have "world_run (mci_window fl p s) s i"
  proof (cases "has_flag MCI_DGV_WINDOW_DEFAULT fl \<or> has_flag MCI_DGV_WINDOW_HWND fl")
    case True
    define w where "w = (if \<not> mi_defaultwindow i then call (C_unsubclass (mi_Display i)) (es_world s) else es_world s)"
    define j where "j = (if has_flag MCI_DGV_WINDOW_DEFAULT fl then i\<lparr>mi_defaultwindow := True\<rparr>
                   else i\<lparr>mi_defaultwindow := False, mi_Display := pm_hwndDest p\<rparr>)\<lparr>mi_newwindow := True\<rparr>"
    have s1: "(if \<not> mi_defaultwindow i then calls (C_unsubclass (mi_Display i)) s else s) = s\<lparr>es_world := w\<rparr>"
      by (simp add: w_def)
    have "mci_window fl p s = Ret (Inr (), p, put_inst j (s\<lparr>es_world := w\<rparr>))"
      unfolding s1 [symmetric] j_def using assms False True by (simp only: mci_window_def the_inst_def brk_def Let_def
        of_opt_simps obind.simps if_True if_False simp_thms)
    moreover have "keeps i j" by (simp add: keeps_def j_def)
    moreover have "mw_sem w = mw_sem (es_world s)" by (simp add: w_def)
    ultimately show ?thesis using world_runI [of _ _ _ "w\<lparr>mw_inst := Some j\<rparr>" s j i] by simp
  next
    case no: False
    then show ?thesis using world_run_same [OF assms] False by (simp add: mci_window_def brk_def)
  qed
  then show ?thesis using nf by simp
qed

lemma run_cue:
  assumes "mw_inst (es_world s) = Some i"
  shows "run_or_fault (message_faults en s i MCI_CUE fl p) (mci_cue fl p s) s i"
proof (cases "has_flag MCI_TO fl")
  case True
  show ?thesis
  proof (cases "no_rate i")
    case no: True
    then show ?thesis using True from_format [of i "pm_ulTo p"] assms
      by (simp add: mci_cue_def message_faults_def the_inst_def)
  next
    case False
    then obtain t where "fromMMFormat i (pm_ulTo p) = Ret t" using from_format [of i "pm_ulTo p"] by auto
    then have "mci_cue fl p s = Ret (Inr (), p, put_inst (i\<lparr>mi_cuetime := t\<rparr>) s)"
      using True assms by (simp add: mci_cue_def the_inst_def brk_def)
    moreover have "keeps i (i\<lparr>mi_cuetime := t\<rparr>)" by (simp add: keeps_def)
    ultimately show ?thesis using False world_runI [of _ _ _ "(es_world s)\<lparr>mw_inst := Some (i\<lparr>mi_cuetime := t\<rparr>)\<rparr>" s]
      by (simp add: put_inst_def message_faults_def)
  qed
next
  case False
  then show ?thesis using world_run_same [OF assms] by (simp add: mci_cue_def message_faults_def brk_def)
qed

lemma run_others:
  assumes "mw_inst (es_world s) = Some i"
  shows "world_run (mci_pause p s) s i" and "world_run (mci_resume p s) s i" and "world_run (mci_put fl p s) s i"
    and "world_run (brk p s) s i" and "world_run (ret rc p s) s i"
  using assms world_run_same [OF assms] unfolding mci_pause_def mci_resume_def mci_put_def
  by (simp_all add: world_msg world_run_def)

section \<open>Position advises\<close>

lemma cue_part_simps [simp]:
  "ev_inv (s\<lparr>es_cues := l\<rparr>) H = ev_inv s H"
  "ev_inv (s\<lparr>es_cue := m\<rparr>) H = ev_inv s H"
  "ev_inv (s\<lparr>es_cfresh := n\<rparr>) H = ev_inv s H"
  "queue_ids (s\<lparr>es_cues := l\<rparr>) = queue_ids s"
  "queue_ids (s\<lparr>es_cue := m\<rparr>) = queue_ids s"
  "queue_ids (s\<lparr>es_cfresh := n\<rparr>) = queue_ids s"
  by (simp_all add: ev_inv_def queues_ok_def events_ok_def queue_ids_def event_ids_def [abs_def])

lemma dispose_cue_frame:
  "xine_event_dispose_cue_point k t f s = Ret s' \<Longrightarrow> \<exists>l m. s' = s\<lparr>es_cues := l, es_cue := m\<rparr>"
  by (auto simp: xine_event_dispose_cue_point_def obind_eq_Ret)

lemma create_cue_frame:
  "xine_event_create_cue_point t f ud s = Ret s' \<Longrightarrow>
    \<exists>l m. s' = s\<lparr>es_cue := m, es_cfresh := es_cfresh s + 1, es_cues := l\<rparr> \<and> dom m = insert (es_cfresh s) (dom (es_cue s))"
  unfolding xine_event_create_cue_point_def Let_def obind_eq_Ret
  by (elim exE conjE, rule exI, rule exI [of _ "(es_cue s)(es_cfresh s \<mapsto> \<lparr>cp_cuetime = t, cp_frequency = f,
        cp_currtime = 0, cp_user_data = ud\<rparr>)"]) auto

lemma left_simps [simp]: "left (ks @ ls) = left ks @ left ls" "left [] = []" "left (left ks) = left ks"
  "left [(t, f)] = (if f \<le> 0 then [(t, f)] else [])"
  by (simp_all add: left_def)

lemma left_le: "(t, f) \<in> set (left ks) \<Longrightarrow> f \<le> 0"
  by (simp add: left_def)

text \<open>The cue point of the advise is the only one the search can find.\<close>

lemma cues_one:
  assumes "advise_cues s = left (advise_cues s) @ [(0, u)]" and "u > 0" and "cue_inv s"
  shows "\<exists>cs c. cue_ids s = cs @ [c] \<and> find (cue_matches s 0 u) (cue_ids s) = Some c \<and> c \<notin> set cs"
proof -
  obtain cs c where c: "cue_ids s = cs @ [c]" using assms(1) by (cases "cue_ids s" rule: rev_cases) (auto simp: advise_cues_def cues_def)
  have D: "set (cs @ [c]) \<subseteq> dom (es_cue s)" "distinct (cs @ [c])" using assms(3) unfolding c [symmetric] cue_inv_def by blast+
  have "map (\<lambda>c. cue_key (the (es_cue s c))) cs @ [cue_key (the (es_cue s c))] = left (advise_cues s) @ [(0, u)]"
  proof -
    have "advise_cues s = map (\<lambda>c. cue_key (the (es_cue s c))) cs @ [cue_key (the (es_cue s c))]"
      unfolding advise_cues_def cues_def c by simp
    then show ?thesis using assms(1) by (rule subst)
  qed
  then have k: "map (\<lambda>c. cue_key (the (es_cue s c))) cs = left (advise_cues s)" "cue_key (the (es_cue s c)) = (0, u)"
    by simp_all
  have n: "\<not> cue_matches s 0 u x" if "x \<in> set cs" for x
  proof -
    have "cue_key (the (es_cue s x)) \<in> set (left (advise_cues s))" using k(1) that by (metis image_eqI set_map)
    then have "cp_frequency (the (es_cue s x)) \<le> 0" using left_le by (auto simp: cue_key_def)
    then show ?thesis using assms(2) D(1) that by (auto simp: cue_matches_def)
  qed
  have "cue_matches s 0 u c" using k(2) D(1) by (auto simp: cue_matches_def cue_key_def)
  then have "find (cue_matches s 0 u) (cs @ [c]) = Some c" using n by (induction cs) auto
  then show ?thesis using c D(2) by auto
qed

lemma drop_advise_ok:
  assumes "mcd_inv s i" and "length (cue_ids s) < k"
  shows "\<exists>l m. drop_advise k s = Ret (s\<lparr>es_cues := l, es_cue := m\<rparr>) \<and> cue_inv (s\<lparr>es_cues := l, es_cue := m\<rparr>) \<and>
    advise_cues (s\<lparr>es_cues := l, es_cue := m\<rparr>) = left (advise_cues s) \<and>
    dom m = set (cue_ids (s\<lparr>es_cues := l, es_cue := m\<rparr>))"
proof (cases "mi_posadviseUnits i > 0")
  case True
  let ?u = "mi_posadviseUnits i"
  have I: "mw_inst (es_world s) = Some i" "cue_inv s" "dom (es_cue s) = set (cue_ids s)"
    "advise_cues s = left (advise_cues s) @ [(0, ?u)]"
    using assms(1) True by (simp_all add: mcd_inv_def current_advise_def)
  obtain cs c where c: "cue_ids s = cs @ [c]" "find (cue_matches s 0 ?u) (cue_ids s) = Some c" "c \<notin> set cs"
    using cues_one [OF I(4) True I(2)] by blast
  then obtain s' where s': "xine_event_dispose_cue_point k 0 ?u s = Ret s'" "cue_inv s'"
      "cue_ids s' = cs" "es_cue s' = (es_cue s)(c := None)"
    using dispose_cue_ok [OF I(2) assms(2), of 0 ?u] by (auto simp: remove1_append)
  obtain l m where f: "s' = s\<lparr>es_cues := l, es_cue := m\<rparr>" using dispose_cue_frame [OF s'(1)] by blast
  have dm: "dom m = set (cue_ids s')" using s'(3,4) f I(3) c(1,3) by auto
  have e: "map (\<lambda>c. cue_key (the (es_cue s' c))) cs = map (\<lambda>c. cue_key (the (es_cue s c))) cs"
    using s'(4) c(3) by (intro map_cong) auto
  have a: "advise_cues s = map (\<lambda>c. cue_key (the (es_cue s c))) cs @ [cue_key (the (es_cue s c))]"
    using c(1) by (simp add: advise_cues_def cues_def)
  have "advise_cues s' = left (advise_cues s)"
  proof -
    have "advise_cues s' = map (\<lambda>c. cue_key (the (es_cue s' c))) cs" unfolding advise_cues_def cues_def s'(3) by simp
    also have "\<dots> = butlast (advise_cues s)" unfolding e a by simp
    also have "\<dots> = left (advise_cues s)" by (subst I(4)) simp
    finally show ?thesis .
  qed
  moreover have "drop_advise k s = Ret s'" using s'(1) True I(1) by (simp add: drop_advise_def the_inst_def)
  ultimately show ?thesis using s'(2) dm unfolding f by blast
next
  case False
  then have "advise_cues s = left (advise_cues s)" "cue_inv s" "dom (es_cue s) = set (cue_ids s)"
    using assms(1) by (simp_all add: mcd_inv_def current_advise_def)
  moreover have "drop_advise k s = Ret s" using False assms(1) by (simp add: drop_advise_def the_inst_def mcd_inv_def)
  moreover have "s\<lparr>es_cues := es_cues s, es_cue := es_cue s\<rparr> = s" by simp
  ultimately show ?thesis by metis
qed

text \<open>What the advise message does to the cue points.\<close>

definition advise_step :: "mci_flags \<Rightarrow> tmcdxine \<Rightarrow> u32 \<Rightarrow> mcd \<Rightarrow> mcd \<Rightarrow> bool" where
  "advise_step fl i units s s' \<longleftrightarrow>
     (if has_flag MCI_SET_POSITION_ADVISE_ON fl
      then \<exists>u. fromMMFormat i units = Ret u \<and> advise_cues s' = left (advise_cues s) @ [(0, u)]
      else if has_flag MCI_SET_POSITION_ADVISE_OFF fl then advise_cues s' = left (advise_cues s)
      else advise_cues s' = advise_cues s)"

lemma advise_on_ok:
  assumes "mcd_inv s i" and "length (cue_ids s) < k" and "has_flag MCI_SET_POSITION_ADVISE_ON fl"
    and "fromMMFormat i (pm_ulUnits p) = Ret u"
  shows "\<exists>s' i'. mci_set_position_advise k en fl p s = Ret (Inr (), p, s') \<and> mcd_inv s' i' \<and>
    advise_cues s' = left (advise_cues s) @ [(0, u)]"
proof -
  obtain l m where d: "drop_advise k s = Ret (s\<lparr>es_cues := l, es_cue := m\<rparr>)" "cue_inv (s\<lparr>es_cues := l, es_cue := m\<rparr>)"
    "advise_cues (s\<lparr>es_cues := l, es_cue := m\<rparr>) = left (advise_cues s)"
    "dom m = set (cue_ids (s\<lparr>es_cues := l, es_cue := m\<rparr>))" using drop_advise_ok [OF assms(1,2)] by blast
  let ?s1 = "s\<lparr>es_cues := l, es_cue := m\<rparr>"
  have I: "mw_inst (es_world s) = Some i" "ev_inv s {}" "queue_ids s = [mi_event_queue i]"
    "mi_playsem i \<in> dom (mw_sem (es_world s))" using assms(1) by (simp_all add: mcd_inv_def)
  let ?i' = "i\<lparr>mi_posadviseUnits := u, mi_posadviseUserParm := pm_usUserParm p,
               mi_posadviseCallback := pm_hwndCallback p\<rparr>"
  let ?s2 = "put_inst ?i' ?s1"
  have ci: "cue_inv ?s2" using d(2) by (simp add: put_inst_def)
  obtain s2 where s2: "xine_event_create_cue_point 0 u (en_advise en) ?s2 = Ret s2" "cue_inv s2"
    "cues s2 = cues ?s2 @ [\<lparr>cp_cuetime = 0, cp_frequency = u, cp_currtime = 0, cp_user_data = en_advise en\<rparr>]"
    "cue_ids s2 = cue_ids ?s2 @ [es_cfresh ?s2]"
    using create_cue_ok [OF ci, of 0 u "en_advise en"] by blast
  obtain l2 m2 where f: "s2 = ?s2\<lparr>es_cue := m2, es_cfresh := es_cfresh ?s2 + 1, es_cues := l2\<rparr>"
    "dom m2 = insert (es_cfresh ?s2) (dom m)"
    using create_cue_frame [OF s2(1)] by (auto simp: put_inst_def)
  have ids: "cue_ids ?s2 = cue_ids ?s1" "cues ?s2 = cues ?s1" by (simp_all add: put_inst_def)
  have adv: "advise_cues s2 = left (advise_cues s) @ [(0, u)]"
    using d(3) unfolding advise_cues_def s2(3) ids by (simp add: cue_key_def)
  have "mw_inst (es_world s2) = Some ?i'" "ev_inv s2 {}" "queue_ids s2 = [mi_event_queue i]"
    "mi_playsem i \<in> dom (mw_sem (es_world s2))"
    unfolding f(1) using I(2-4) by (simp_all add: put_inst_def)
  moreover have "dom (es_cue s2) = set (cue_ids s2)" unfolding s2(4) ids using f d(4) by simp
  moreover have "advise_cues s2 = left (advise_cues s2) @ current_advise ?i'" unfolding adv by (simp add: current_advise_def)
  ultimately have "mcd_inv s2 ?i'" using s2(2) by (simp add: mcd_inv_def)
  moreover have "mci_set_position_advise k en fl p s = Ret (Inr (), p, s2)"
    using assms(3,4) d(1) s2(1) I(1) by (simp add: mci_set_position_advise_def the_inst_def brk_def)
  ultimately show ?thesis using adv by blast
qed

lemma advise_ok:
  assumes "mcd_inv s i" and "length (cue_ids s) < k"
  shows "if has_flag MCI_SET_POSITION_ADVISE_ON fl \<and> no_rate i then mci_set_position_advise k en fl p s = Fault
    else \<exists>s' i'. mci_set_position_advise k en fl p s = Ret (Inr (), p, s') \<and> mcd_inv s' i' \<and>
      advise_step fl i (pm_ulUnits p) s s'"
proof -
  obtain l m where d: "drop_advise k s = Ret (s\<lparr>es_cues := l, es_cue := m\<rparr>)" "cue_inv (s\<lparr>es_cues := l, es_cue := m\<rparr>)"
    "advise_cues (s\<lparr>es_cues := l, es_cue := m\<rparr>) = left (advise_cues s)"
    "dom m = set (cue_ids (s\<lparr>es_cues := l, es_cue := m\<rparr>))" using drop_advise_ok [OF assms(1,2)] by blast
  let ?s1 = "s\<lparr>es_cues := l, es_cue := m\<rparr>"
  have I: "mw_inst (es_world s) = Some i" "ev_inv s {}" "queue_ids s = [mi_event_queue i]"
    "mi_playsem i \<in> dom (mw_sem (es_world s))" using assms(1) by (simp_all add: mcd_inv_def)
  consider (on) "has_flag MCI_SET_POSITION_ADVISE_ON fl"
    | (off) "\<not> has_flag MCI_SET_POSITION_ADVISE_ON fl" "has_flag MCI_SET_POSITION_ADVISE_OFF fl"
    | (none) "\<not> has_flag MCI_SET_POSITION_ADVISE_ON fl" "\<not> has_flag MCI_SET_POSITION_ADVISE_OFF fl" by blast
  then show ?thesis
  proof cases
    case on
    show ?thesis
    proof (cases "no_rate i")
      case True
      then show ?thesis using on from_format [of i "pm_ulUnits p"] d(1) I(1)
        by (simp add: mci_set_position_advise_def the_inst_def)
    next
      case False
      then obtain u where u: "fromMMFormat i (pm_ulUnits p) = Ret u" using from_format [of i "pm_ulUnits p"] by auto
      from advise_on_ok [OF assms on u, of en] show ?thesis using on False u by (auto simp: advise_step_def)
    qed
  next
    case off
    let ?i' = "i\<lparr>mi_posadviseUnits := 0\<rparr>"
    have a: "advise_cues (put_inst ?i' ?s1) = left (advise_cues s)" using d(3) by (simp add: put_inst_def advise_cues_def)
    have "mcd_inv (put_inst ?i' ?s1) ?i'" unfolding mcd_inv_def a
      using d(2,4) I(2-4) by (simp add: put_inst_def current_advise_def)
    moreover have "mci_set_position_advise k en fl p s = Ret (Inr (), p, put_inst ?i' ?s1)"
      using off d(1) I(1) by (simp add: mci_set_position_advise_def the_inst_def brk_def)
    ultimately show ?thesis using off a by (simp add: advise_step_def) blast
  next
    case none
    then show ?thesis using assms(1) by (auto simp: mci_set_position_advise_def brk_def advise_step_def)
  qed
qed

section \<open>Opening\<close>

definition mcd_off :: "mcd \<Rightarrow> bool" where
  "mcd_off s \<longleftrightarrow> mw_inst (es_world s) = None \<and> ev_inv s {} \<and> es_queue s = Map.empty \<and> es_event s = Map.empty \<and>
     es_cue s = Map.empty"

lemma list_new_holds: "holds xl_is xine_list_new []"
  by (rule holdsI [of xl_is, OF list_new_ok]) (simp_all add: solid_def contents_def cl_all_def)

lemma ev_inv_empty: "ev_inv s {} \<Longrightarrow> es_queue s = Map.empty \<Longrightarrow> es_event s = Map.empty"
proof -
  assume a: "ev_inv s {}" "es_queue s = Map.empty"
  have "event_ids s q = []" for q by (simp add: event_ids_def a(2))
  then show ?thesis using events_okD(4) [OF ev_invD(3) [OF a(1)]] by simp
qed

lemma stream_new_ok:
  assumes "ev_inv s {}" and "es_queue s = Map.empty" and "es_cue s = Map.empty"
  shows "ev_inv (stream_new s) {} \<and> queue_ids (stream_new s) = [] \<and> cue_inv (stream_new s) \<and>
    cue_ids (stream_new s) = [] \<and> es_cue (stream_new s) = Map.empty"
proof -
  have q: "queues_ok (stream_new s) []" using assms(2) list_new_holds
    by (simp add: queues_ok_def stream_new_def)
  have d: "set [] = dom (es_queue (stream_new s))" by (simp add: stream_new_def assms(2))
  have e: "events_ok (stream_new s) (event_ids s) {}"
    using ev_invD(3) [OF assms(1)] by (rule events_ok_cong) (simp_all add: stream_new_def)
  have c: "holds xl_is (es_cues (stream_new s)) []" by (simp add: stream_new_def list_new_holds)
  have "cue_inv (stream_new s)" "cue_ids (stream_new s) = []"
    using cue_invI [OF c] assms(3) by (simp_all add: stream_new_def)
  then show ?thesis using ev_invI [OF q d e] assms(3) by (simp add: stream_new_def)
qed

lemma new_queue_frame:
  "xine_event_new_queue s = Ret (q, s') \<Longrightarrow> \<exists>m n l. s' = s\<lparr>es_queue := m, es_qfresh := n, es_queues := l\<rparr>"
  by (auto simp: xine_event_new_queue_def Let_def obind_eq_Ret)

lemma listen_frame:
  "xine_event_create_listener_thread q ud s = Ret s' \<Longrightarrow> \<exists>m. s' = s\<lparr>es_queue := m\<rparr>"
  by (auto simp: xine_event_create_listener_thread_def obind_eq_Ret)

lemma queue_part_simps [simp]:
  "cue_inv (s\<lparr>es_queue := m\<rparr>) = cue_inv s"
  "cue_inv (s\<lparr>es_qfresh := n\<rparr>) = cue_inv s"
  "cue_inv (s\<lparr>es_queues := l\<rparr>) = cue_inv s"
  "cue_ids (s\<lparr>es_queue := m\<rparr>) = cue_ids s"
  "cue_ids (s\<lparr>es_qfresh := n\<rparr>) = cue_ids s"
  "cue_ids (s\<lparr>es_queues := l\<rparr>) = cue_ids s"
  "queue_ids (s\<lparr>es_queue := m\<rparr>) = queue_ids s"
  by (simp_all add: cue_inv_def cue_ids_def queue_ids_def)

lemma stream_new_sem: "mw_sem (es_world (stream_new s)) = mw_sem (es_world s)"
  by (simp add: stream_new_def)

text \<open>The engine part of MCI_OPEN: the stream, its queue and the listener.\<close>

lemma open_stream:
  assumes "mcd_off s" and "mw_inst w = Some i"
  shows "\<exists>q s4. xine_event_new_queue (stream_new (s\<lparr>es_world := w\<rparr>)) = Ret (q, s4) \<and>
    (\<forall>j. \<exists>s5. xine_event_create_listener_thread q 0 (put_inst j s4) = Ret s5 \<and> ev_inv s5 {} \<and> cue_inv s5 \<and>
       cue_ids s5 = [] \<and> queue_ids s5 = [q] \<and> es_cue s5 = Map.empty \<and>
       es_event s5 = es_event s \<and> es_world s5 = (call C_stream_new w)\<lparr>mw_inst := Some j\<rparr>)"
proof -
  let ?s3 = "s\<lparr>es_world := w\<rparr>"
  have o: "ev_inv ?s3 {}" "es_queue ?s3 = Map.empty" "es_cue ?s3 = Map.empty"
    using assms(1) by (simp_all add: mcd_off_def)
  note n = stream_new_ok [OF o]
  let ?q = "es_qfresh (stream_new ?s3)"
  obtain s4 where s4: "xine_event_new_queue (stream_new ?s3) = Ret (?q, s4)" "ev_inv s4 {}" "queue_ids s4 = [?q]"
    using new_inv [of "stream_new ?s3" "{}"] n by auto
  obtain m a l where f: "s4 = (stream_new ?s3)\<lparr>es_queue := m, es_qfresh := a, es_queues := l\<rparr>"
    using new_queue_frame [OF s4(1)] by blast
  have c: "cue_inv s4" "cue_ids s4 = []" "es_cue s4 = Map.empty" unfolding f using n by simp_all
  have w4: "es_world s4 = call C_stream_new w" "es_event s4 = es_event s" unfolding f by (simp_all add: stream_new_def)
  have qs: "idle s4 ?q" using new_inv [of "stream_new ?s3" "{}"] n s4(1) by auto
  have "\<exists>s5. xine_event_create_listener_thread ?q 0 (put_inst j s4) = Ret s5 \<and> ev_inv s5 {} \<and> cue_inv s5 \<and>
       cue_ids s5 = [] \<and> queue_ids s5 = [?q] \<and> es_cue s5 = Map.empty \<and>
       es_event s5 = es_event s \<and> es_world s5 = (call C_stream_new w)\<lparr>mw_inst := Some j\<rparr>" for j
  proof -
    have "ev_inv (put_inst j s4) {}" "idle (put_inst j s4) ?q"
      using s4(2) qs by (simp_all add: put_inst_def idle_def)
    from listen_inv [OF this, of 0] obtain s5 where s5: "xine_event_create_listener_thread ?q 0 (put_inst j s4) = Ret s5"
      "ev_inv s5 {}" by blast
    obtain m' where "s5 = (put_inst j s4)\<lparr>es_queue := m'\<rparr>" using listen_frame [OF s5(1)] by blast
    then show ?thesis using s5 c s4(3) w4 by (intro exI [of _ s5]) (simp add: put_inst_def)
  qed
  then show ?thesis using s4(1) by blast
qed

lemma load_keeps:
  assumes "load en f s = Ret (rc, s')" and "mw_inst (es_world s) = Some i" and "mi_timeformat i = MCI_FORMAT_MMTIME"
  shows "\<exists>w i'. s' = s\<lparr>es_world := w\<rparr> \<and> mw_inst w = Some i' \<and> keeps i i' \<and> mw_sem w = mw_sem (es_world s)"
  using assms by (auto simp: load_def the_inst_def obind_eq_Ret Let_def put_inst_def keeps_def split: if_splits)

lemma open_inv:
  assumes "mcd_off s" and "mci_open en g fl p s = Ret (Inr (), p', s')"
  shows "\<exists>i. mcd_inv s' i"
proof -
  let ?i = "g\<lparr>mi_DeviceID := pm_usDeviceID p, mi_timeformat := MCI_FORMAT_MMTIME,
               mi_speedformat := MCI_FORMAT_FPS, mi_posadviseUnits := 0, mi_defaultwindow := True,
               mi_newwindow := True, mi_hasput := False, mi_cuetime := 0\<rparr>"
  define w where "w = call C_open_audio (call C_open_video (call C_xine_init (call C_config_load (call C_xine_new
      ((es_world s)\<lparr>mw_inst := Some ?i\<rparr>)))))"
  have wi: "mw_inst w = Some ?i" by (simp add: w_def)
  obtain q s4 where s4: "xine_event_new_queue (stream_new (s\<lparr>es_world := w\<rparr>)) = Ret (q, s4)"
    "\<forall>j. \<exists>s5. xine_event_create_listener_thread q 0 (put_inst j s4) = Ret s5 \<and> ev_inv s5 {} \<and> cue_inv s5 \<and>
       cue_ids s5 = [] \<and> queue_ids s5 = [q] \<and> es_cue s5 = Map.empty \<and>
       es_event s5 = es_event s \<and> es_world s5 = (call C_stream_new w)\<lparr>mw_inst := Some j\<rparr>"
    using open_stream [OF assms(1) wi] by blast
  let ?i2 = "?i\<lparr>mi_event_queue := q\<rparr>"
  obtain s5 where s5: "xine_event_create_listener_thread q 0 (put_inst ?i2 s4) = Ret s5" "ev_inv s5 {}" "cue_inv s5"
       "cue_ids s5 = []" "queue_ids s5 = [q]" "es_cue s5 = Map.empty" using s4(2) by blast
  let ?h = "mw_sfresh (es_world s5)"
  let ?i3 = "?i\<lparr>mi_event_queue := q, mi_playsem := ?h\<rparr>"
  define s6 where "s6 = put_inst ?i3 (s5\<lparr>es_world := (set_sem ?h False (es_world s5))\<lparr>mw_sfresh := ?h + 1\<rparr>\<rparr>)"
  have I: "mcd_inv s6 ?i3" using s5 by (simp add: s6_def mcd_inv_def cues_def advise_cues_def current_advise_def left_def sem_dom)
  have "s' = s6 \<or> (\<exists>rc. load en (pm_pszElementName p) s6 = Ret (rc, s'))"
  proof -
    have "(if has_flag MCI_OPEN_ELEMENT fl then
              obind (load en (pm_pszElementName p) s6) (\<lambda>(err, s7).
              if err \<noteq> MCIERR_SUCCESS NO_RETURN then ret err p s7 else brk p s7)
            else brk p s6) = Ret (Inr (), p', s')"
      using assms(2) s4(1) s5(1) unfolding w_def s6_def
      by (auto simp: mci_open_def Let_def ret_def put_inst_def split: if_splits)
    then show ?thesis by (auto simp: obind_eq_Ret ret_def brk_def split: if_splits)
  qed
  then show ?thesis
  proof
    assume "\<exists>rc. load en (pm_pszElementName p) s6 = Ret (rc, s')"
    then obtain rc where "load en (pm_pszElementName p) s6 = Ret (rc, s')" by blast
    from load_keeps [OF this, of ?i3] mcd_inv_inst [OF I] obtain w' i' where
      "s' = s6\<lparr>es_world := w'\<rparr>" "mw_inst w' = Some i'" "keeps ?i3 i'" "mw_sem w' = mw_sem (es_world s6)" by auto
    then show ?thesis using mcd_inv_world [OF I, of w' i'] by auto
  qed (use I in blast)
qed

section \<open>Closing\<close>

text \<open>The listener only adds calls of its own and may set the cue time.\<close>

definition listener_call :: "mcd_call \<Rightarrow> bool" where
  "listener_call c \<longleftrightarrow> c = C_get_pos_length \<or> (\<exists>d h u m n. c = C_notify d h u m n) \<or> (\<exists>d h u t. c = C_position_change d h u t)"

lemma same_inst: "\<exists>t. i = i\<lparr>mi_cuetime := t\<rparr>"
  by (rule exI [of _ "mi_cuetime i"]) simp

lemma listener_run:
  assumes "mw_inst w = Some i"
  shows "\<exists>cs t. mw_calls (mcd_listener en ud ev w) = mw_calls w @ cs \<and> (\<forall>c \<in> set cs. listener_call c) \<and>
    mw_inst (mcd_listener en ud ev w) = Some (i\<lparr>mi_cuetime := t\<rparr>) \<and>
    dom (mw_sem w) \<subseteq> dom (mw_sem (mcd_listener en ud ev w))"
proof (cases "ev_type ev = XINE_EVENT_UI_PLAYBACK_FINISHED")
  case True
  let ?t = "case en_pos en (mw_calls w) of None \<Rightarrow> mi_cuetime i | Some (pos_stream, pos_time, len) \<Rightarrow> len"
  have "(case en_pos en (mw_calls w) of None \<Rightarrow> i
      | Some (pos_stream, pos_time, len) \<Rightarrow> i\<lparr>mi_cuetime := len\<rparr>) = i\<lparr>mi_cuetime := ?t\<rparr>"
    by (auto split: option.splits)
  moreover have "dom (mw_sem w) \<subseteq> dom (mw_sem (mcd_listener en ud ev w))"
    using assms True unfolding mcd_listener_def Let_def by (simp add: sem_dom subset_insertI)
  ultimately show ?thesis using assms True unfolding mcd_listener_def Let_def
    by (auto simp: notify_def listener_call_def call_def set_sem_def)
next
  case False
  have "mcd_listener en ud ev w = w \<or> (\<exists>d h u t. mcd_listener en ud ev w = call (C_position_change d h u t) w)"
    using False assms unfolding mcd_listener_def by (auto split: option.splits event_data.splits)
  then show ?thesis using assms same_inst [of i] by (auto simp: listener_call_def)
qed

lemma call_all_run:
  "mw_inst w = Some i \<Longrightarrow> \<exists>cs t. mw_calls (call_all (mcd_listener en) ud evs w) = mw_calls w @ cs \<and>
    (\<forall>c \<in> set cs. listener_call c) \<and> mw_inst (call_all (mcd_listener en) ud evs w) = Some (i\<lparr>mi_cuetime := t\<rparr>) \<and>
    dom (mw_sem w) \<subseteq> dom (mw_sem (call_all (mcd_listener en) ud evs w))"
proof (induction evs arbitrary: w i)
  case Nil
  then show ?case using same_inst [of i] by (simp add: call_all_def)
next
  case (Cons ev evs)
  obtain cs t where c: "mw_calls (mcd_listener en ud ev w) = mw_calls w @ cs" "\<forall>c \<in> set cs. listener_call c"
    "mw_inst (mcd_listener en ud ev w) = Some (i\<lparr>mi_cuetime := t\<rparr>)"
    "dom (mw_sem w) \<subseteq> dom (mw_sem (mcd_listener en ud ev w))" using listener_run [OF Cons.prems] by blast
  obtain cs' t' where "mw_calls (call_all (mcd_listener en) ud evs (mcd_listener en ud ev w)) = mw_calls (mcd_listener en ud ev w) @ cs'"
    "\<forall>c \<in> set cs'. listener_call c"
    "mw_inst (call_all (mcd_listener en) ud evs (mcd_listener en ud ev w)) = Some (i\<lparr>mi_cuetime := t, mi_cuetime := t'\<rparr>)"
    "dom (mw_sem (mcd_listener en ud ev w)) \<subseteq> dom (mw_sem (call_all (mcd_listener en) ud evs (mcd_listener en ud ev w)))"
    using Cons.IH [OF c(3)] by blast
  then show ?case using c(1,2,4) subset_trans by (intro exI [of _ "cs @ cs'"] exI [of _ t']) (simp add: call_all_def, blast)
qed

lemma dispose_cues_ok:
  "holds xl_is (es_cues s) cs \<Longrightarrow> length cs < k \<Longrightarrow>
    \<exists>l. dispose_cues k s = Ret (s\<lparr>es_cues := l, es_cue := es_cue s |` (- set cs)\<rparr>)"
proof (induction k arbitrary: s cs)
  case 0
  then show ?case by simp
next
  case (Suc k)
  from xl.holds_take [OF Suc.prems(1)] obtain l where
    l: "take_first xine_list_first_content xine_list_delete_current (es_cues s) =
        Ret (case cs of [] \<Rightarrow> None | c # _ \<Rightarrow> Some c, l)" "holds xl_is l (tl cs)" by blast
  show ?case
  proof (cases cs)
    case Nil
    then have "dispose_cues (Suc k) s = Ret (s\<lparr>es_cues := l\<rparr>)" using l(1) by simp
    moreover have "s\<lparr>es_cues := l, es_cue := es_cue s\<rparr> = s\<lparr>es_cues := l\<rparr>" by simp
    ultimately show ?thesis using Nil by (auto simp: restrict_map_def)
  next
    case (Cons c cs')
    let ?s1 = "s\<lparr>es_cues := l, es_cue := (es_cue s)(c := None)\<rparr>"
    have "holds xl_is (es_cues ?s1) cs'" "length cs' < k" using l(2) Suc.prems(2) Cons by simp_all
    from Suc.IH [OF this] obtain l' where
      "dispose_cues k ?s1 = Ret (?s1\<lparr>es_cues := l', es_cue := es_cue ?s1 |` (- set cs')\<rparr>)" by blast
    moreover have "(es_cue s)(c := None) |` (- set cs') = es_cue s |` (- set (c # cs'))"
      by (auto simp: fun_eq_iff restrict_map_def)
    ultimately show ?thesis using l(1) Cons by (intro exI [of _ l']) simp
  qed
qed

definition release_calls :: "tmcdxine \<Rightarrow> mcd_call list" where
  "release_calls i = [C_close, C_dispose, C_close_video, C_close_audio, C_exit, C_close_fd (mi_logfile i)]"

text \<open>Disposing a queue leaves the cue points alone.\<close>

definition same_cues :: "'w evsys \<Rightarrow> 'w evsys \<Rightarrow> bool" where
  "same_cues s s' \<longleftrightarrow> es_cue s' = es_cue s \<and> es_cues s' = es_cues s \<and> es_cfresh s' = es_cfresh s"

lemma same_cues_set: "same_cues s (set_events q Q l s)" "same_cues s (s\<lparr>es_event := m\<rparr>)"
  by (simp_all add: same_cues_def set_events_def)

lemma get_same_cues: "xine_event_get q s = Ret (e, s') \<Longrightarrow> same_cues s s'"
  unfolding xine_event_get_def obind_eq_Ret by (elim exE conjE) (auto simp: same_cues_set)

lemma wait_same_cues: "xine_event_wait q s = Ret (e, s') \<Longrightarrow> same_cues s s'"
  unfolding wait_get by (auto dest: get_same_cues split: option.splits outcome.splits)

lemma free_same_cues: "xine_event_free e s = Ret s' \<Longrightarrow> same_cues s s'"
  unfolding xine_event_free_def obind_eq_Ret by (elim exE conjE) (auto simp: same_cues_set)

lemmas queue_ops_same_cues = wait_same_cues get_same_cues free_same_cues

lemma same_cues_trans: "same_cues s s1 \<Longrightarrow> same_cues s1 s2 \<Longrightarrow> same_cues s s2"
  by (simp add: same_cues_def)

lemma same_cues_world: "same_cues (s\<lparr>es_world := w\<rparr>) s' \<longleftrightarrow> same_cues s s'"
  by (simp add: same_cues_def)

lemma listener_same_cues: "listener_loop k cb ud q s = Ret s' \<Longrightarrow> same_cues s s'"
proof (induction k arbitrary: s)
  case (Suc k)
  from Suc.prems show ?case
    by (auto simp: obind_eq_Ret same_cues_def dest!: queue_ops_same_cues Suc.IH split: if_splits)
qed simp

lemma drain_same_cues: "drain_loop k q s = Ret s' \<Longrightarrow> same_cues s s'"
proof (induction k arbitrary: s)
  case (Suc k)
  from Suc.prems show ?case
    by (auto simp: obind_eq_Ret same_cues_def dest!: queue_ops_same_cues Suc.IH split: option.splits)
qed simp

lemma dispose_same_cues:
  assumes "xine_event_dispose_queue k cb q s = Ret s'"
  shows "same_cues s s'"
proof -
  from assms obtain a l where a: "search xine_list_first_content xine_list_next_content (\<lambda>x. x = q) k (es_queues s) = Ret (a, l)"
    by (auto simp: xine_event_dispose_queue_def obind_eq_Ret)
  show ?thesis
  proof (cases a)
    case None
    then show ?thesis using assms a by (auto simp: xine_event_dispose_queue_def same_cues_def)
  next
    case (Some x)
    let ?qe = "\<lparr>ev_type = XINE_EVENT_QUIT, ev_data = None, ev_data_length = 0, ev_tv = 0\<rparr>"
    obtain l1 where l1: "xine_list_delete_current l = Ret l1"
      using assms a Some by (auto simp: xine_event_dispose_queue_def obind_eq_Ret)
    define s1 where "s1 = snd (malloc_event ?qe (s\<lparr>es_queues := l1\<rparr>))"
    have s1: "malloc_event ?qe (s\<lparr>es_queues := l1\<rparr>) = (es_efresh s, s1)" "es_cue s1 = es_cue s" "es_cues s1 = es_cues s" "es_cfresh s1 = es_cfresh s"
      by (simp_all add: s1_def malloc_event_def)
    have "obind (queue_at q s1) (\<lambda>Q.
        obind (xine_list_append_content (Some (es_efresh s)) (eq_events Q)) (\<lambda>l2.
        obind (case eq_listener Q of None \<Rightarrow> Ret (set_events q Q l2 s1)
               | Some ud \<Rightarrow> if eq_lost Q \<noteq> 0 then Fault else listener_loop k cb ud q (set_events q Q l2 s1)) (\<lambda>s2.
        obind (drain_loop k q s2) (\<lambda>s3. Ret (s3\<lparr>es_queue := (es_queue s3)(q := None)\<rparr>))))) = Ret s'"
      using assms a Some l1 by (simp add: xine_event_dispose_queue_def s1(1))
    then obtain Q l2 s2 s3 where r:
      "(case eq_listener Q of None \<Rightarrow> Ret (set_events q Q l2 s1)
        | Some ud \<Rightarrow> if eq_lost Q \<noteq> 0 then Fault else listener_loop k cb ud q (set_events q Q l2 s1)) = Ret s2"
      "drain_loop k q s2 = Ret s3" "s' = s3\<lparr>es_queue := (es_queue s3)(q := None)\<rparr>"
      unfolding obind_eq_Ret by (elim exE conjE) simp
    have "same_cues s1 s2" using r(1) listener_same_cues [of k cb _ q "set_events q Q l2 s1" s2]
      by (auto simp: same_cues_def set_events_def split: option.splits if_splits)
    then show ?thesis using r(3) s1 drain_same_cues [OF r(2)] by (simp add: same_cues_def)
  qed
qed

lemma close_ok:
  assumes "mcd_inv s i" and "enough k s" and "length (cue_ids s) < k" and "\<not> has_flag MCI_CLOSE_EXIT fl"
  shows "\<exists>s' cs. mci_close k en fl p s = Ret (Inr (), p, s') \<and> mcd_off s' \<and> (\<forall>c \<in> set cs. listener_call c) \<and>
    mw_calls (es_world s') = mw_calls (es_world s) @ C_config_save # cs @ release_calls i \<and>
    dom (mw_sem (es_world s)) \<subseteq> dom (mw_sem (es_world s'))"
proof -
  have I: "mw_inst (es_world s) = Some i" "ev_inv s {}" "cue_inv s" "dom (es_cue s) = set (cue_ids s)"
    "queue_ids s = [mi_event_queue i]" using assms(1) by (simp_all add: mcd_inv_def)
  let ?s0 = "calls C_config_save s" and ?q = "mi_event_queue i"
  have q: "ev_inv ?s0 {}" "es_queue ?s0 ?q \<noteq> None" "enough k ?s0"
    using I(2,5) ev_invD(2) [OF I(2)] assms(2) by auto
  obtain s1 where s1: "xine_event_dispose_queue k (mcd_listener en) ?q ?s0 = Ret s1" "ev_inv s1 {}"
    "dom (es_queue s1) = dom (es_queue s) - {?q}"
    "es_world s1 = (case eq_listener (the (es_queue ?s0 ?q)) of None \<Rightarrow> es_world ?s0
       | Some ud \<Rightarrow> call_all (mcd_listener en) ud (takeWhile (\<lambda>ev. ev_type ev \<noteq> XINE_EVENT_QUIT) (pending ?s0 ?q)) (es_world ?s0))"
    using dispose_inv [OF q, of "mcd_listener en"] by auto
  have "mw_inst (es_world ?s0) = Some i" using I(1) by simp
  then have "\<exists>cs t. mw_calls (es_world s1) = mw_calls (es_world ?s0) @ cs \<and> (\<forall>c \<in> set cs. listener_call c) \<and>
      mw_inst (es_world s1) = Some (i\<lparr>mi_cuetime := t\<rparr>) \<and>
      dom (mw_sem (es_world s)) \<subseteq> dom (mw_sem (es_world s1))"
  proof (cases "eq_listener (the (es_queue ?s0 ?q))")
    case None
    then show ?thesis using s1(4) I(1) by (intro exI [of _ "[]"] exI [of _ "mi_cuetime i"]) simp
  next
    case (Some ud)
    then show ?thesis unfolding s1(4) using call_all_run [of "es_world ?s0" i] I(1) by simp
  qed
  then obtain cs t where w1: "mw_calls (es_world s1) = mw_calls (es_world s) @ C_config_save # cs"
    "\<forall>c \<in> set cs. listener_call c" "mw_inst (es_world s1) = Some (i\<lparr>mi_cuetime := t\<rparr>)"
    "dom (mw_sem (es_world s)) \<subseteq> dom (mw_sem (es_world s1))" by auto
  have qe: "es_queue s1 = Map.empty" using s1(3) I(5) ev_invD(2) [OF I(2)] by auto
  have ce: "es_cue s1 = es_cue s" "es_cues s1 = es_cues s" using dispose_same_cues [OF s1(1)] by (simp_all add: same_cues_def)
  let ?s1 = "calls C_dispose (calls C_close s1)"
  have "holds xl_is (es_cues ?s1) (cue_ids s)" using I(3) ce by (simp add: cue_inv_def)
  then obtain l where l: "dispose_cues k ?s1 = Ret (?s1\<lparr>es_cues := l, es_cue := es_cue ?s1 |` (- set (cue_ids s))\<rparr>)"
    using dispose_cues_ok [of ?s1] assms(3) by blast
  have em: "es_cue ?s1 |` (- set (cue_ids s)) = Map.empty"
    using I(4) ce by (auto simp: fun_eq_iff restrict_map_def domIff set_eq_iff)
  let ?w2 = "call C_dispose (call C_close (es_world s1))"
  let ?s2 = "s1\<lparr>es_cues := l, es_cue := Map.empty, es_world := ?w2\<rparr>"
  have l': "dispose_cues k ?s1 = Ret ?s2" using l unfolding em by simp
  define s3 where "s3 = calls (C_close_fd (mi_logfile i)) (calls C_exit (calls C_close_audio (calls C_close_video ?s2)))"
  let ?s' = "s3\<lparr>es_world := (es_world s3)\<lparr>mw_inst := None\<rparr>\<rparr>"
  have "mci_close k en fl p s = Ret (Inr (), p, ?s')"
    using assms(4) I(1) s1(1) l' w1(3) unfolding s3_def by (simp add: mci_close_def the_inst_def brk_def Let_def)
  moreover have "mcd_off ?s'" using s1(2) qe ev_inv_empty [OF s1(2) qe] by (simp add: mcd_off_def s3_def)
  moreover have "mw_calls (es_world ?s') = mw_calls (es_world s) @ C_config_save # cs @ release_calls i"
    by (simp add: s3_def w1(1) release_calls_def)
  moreover have "dom (mw_sem (es_world s)) \<subseteq> dom (mw_sem (es_world ?s'))" using w1(4) by (simp add: s3_def)
  ultimately show ?thesis using w1(2) by blast
qed

section \<open>The driver's runs\<close>

text \<open>
  The multimedia manager opens a device that is not open and sends other messages to an open one
  only. A message that faults has no state after it. A MCI_PLAY with MCI_WAIT is
  \<open>mr_wait\<close>, the part before it waits.
\<close>

text \<open>
  Beside the messages: the engine sends events, works with the cue points and moves its clocks,
  and the listener takes one event of the driver's queue.
\<close>

inductive mcd_reach :: "mcd_env \<Rightarrow> mcd \<Rightarrow> bool" for en where
  mr_start: "mw_inst (es_world s) = None \<Longrightarrow> es_event s = Map.empty \<Longrightarrow> es_queue s = Map.empty \<Longrightarrow>
     es_queues s = xine_list_new \<Longrightarrow> es_cue s = Map.empty \<Longrightarrow> mcd_reach en s"
| mr_open: "mcd_reach en s \<Longrightarrow> mw_inst (es_world s) = None \<Longrightarrow>
     mciDriverEntry k en g gi client MCI_OPEN fl u p s = Ret (MCIERR_SUCCESS NO_RETURN, p', s') \<Longrightarrow> mcd_reach en s'"
| mr_message: "mcd_reach en s \<Longrightarrow> mw_inst (es_world s) = Some i \<Longrightarrow> msg \<noteq> MCI_OPEN \<Longrightarrow> enough k s \<Longrightarrow>
     length (cue_ids s) < k \<Longrightarrow> mciDriverEntry k en g gi client msg fl u p s = Ret (rc, p', s') \<Longrightarrow> mcd_reach en s'"
| mr_wait: "mcd_reach en s \<Longrightarrow> mci_play_start fl u p s = Ret s' \<Longrightarrow> mcd_reach en s'"
| mr_event: "mcd_reach en s \<Longrightarrow> copy_data (ev_data ev) (ev_data_length ev) = Ret d \<Longrightarrow> enough k s \<Longrightarrow>
     xine_event_send k ev s = Ret s' \<Longrightarrow> mcd_reach en s'"
| mr_listener: "mcd_reach en s \<Longrightarrow> mw_inst (es_world s) = Some i \<Longrightarrow>
     xine_event_wait (mi_event_queue i) s = Ret (e, s1) \<Longrightarrow> event_at e s1 = Ret ev \<Longrightarrow>
     xine_event_free e (s1\<lparr>es_world := mcd_listener en 0 ev (es_world s1)\<rparr>) = Ret s' \<Longrightarrow> mcd_reach en s'"
| mr_engine: "mcd_reach en s \<Longrightarrow> mw_inst (es_world s) \<noteq> None \<Longrightarrow> holds xl_is l (cue_ids s) \<Longrightarrow>
     (\<And>c. map_option cue_key (m c) = map_option cue_key (es_cue s c)) \<Longrightarrow>
     mcd_reach en (s\<lparr>es_cues := l, es_cue := m, es_next_cue_time := nt, es_org_next_cue_time := ot,
        es_next_cue_data := nd, es_clock := c, es_vpts_offset := vo, es_tv := tv\<rparr>)"

lemma mcd_inv_cong:
  assumes "mcd_inv s i" and "ev_inv s' {}" and "queue_ids s' = queue_ids s" and "same_cues s s'"
    and "mw_inst (es_world s') = Some i'" and "keeps i i'" and "dom (mw_sem (es_world s)) \<subseteq> dom (mw_sem (es_world s'))"
  shows "mcd_inv s' i'"
proof -
  have "cue_ids s' = cue_ids s" "cue_inv s' = cue_inv s" "cues s' = cues s"
    using assms(4) by (simp_all add: same_cues_def cue_ids_def cue_inv_def cues_def)
  then show ?thesis using assms by (auto simp: mcd_inv_def keeps_def same_cues_def advise_cues_def current_advise_def)
qed

lemma engine_inv:
  assumes "mcd_inv s i" and "holds xl_is l (cue_ids s)"
    and "\<And>c. map_option cue_key (m c) = map_option cue_key (es_cue s c)"
  shows "mcd_inv (s\<lparr>es_cues := l, es_cue := m, es_next_cue_time := nt, es_org_next_cue_time := ot,
        es_next_cue_data := nd, es_clock := c, es_vpts_offset := vo, es_tv := tv\<rparr>) i" (is "mcd_inv ?s i")
proof -
  have d: "dom m = dom (es_cue s)"
  proof (rule set_eqI)
    fix c show "c \<in> dom m \<longleftrightarrow> c \<in> dom (es_cue s)" using assms(3) [of c] by (cases "m c"; cases "es_cue s c") auto
  qed
  have I: "cue_inv s" "dom (es_cue s) = set (cue_ids s)" "ev_inv s {}" using assms(1) by (simp_all add: mcd_inv_def)
  have h: "holds xl_is (es_cues ?s) (cue_ids s)" using assms(2) by simp
  have i: "distinct (cue_ids s)" "set (cue_ids s) \<subseteq> dom (es_cue s)" "\<forall>c \<in> dom (es_cue s). c < es_cfresh s"
    using I(1) unfolding cue_inv_def by blast+
  have "es_cue ?s = m" "es_cfresh ?s = es_cfresh s" by simp_all
  note ci = cue_invI [OF h i(1), unfolded this d, OF i(2,3)]
  have "cue_key (the (m c)) = cue_key (the (es_cue s c))" if "c \<in> set (cue_ids s)" for c
  proof -
    have "c \<in> dom m" and "c \<in> dom (es_cue s)" unfolding d I(2) using that by assumption+
    then obtain x y where "m c = Some x" "es_cue s c = Some y" by auto
    then show ?thesis using assms(3) [of c] by simp
  qed
  then have "map cue_key (cues ?s) = map cue_key (cues s)" by (simp add: cues_def ci(2))
  moreover have "ev_inv ?s {}" using I(3)
    by (simp add: ev_inv_def queues_ok_def events_ok_def queue_ids_def event_ids_def [abs_def])
  moreover have "queue_ids ?s = queue_ids s" by (simp add: queue_ids_def)
  ultimately show ?thesis using assms(1) ci d I(2) by (simp add: mcd_inv_def advise_cues_def)
qed

lemma listener_inv:
  assumes "mcd_inv s i" and "xine_event_wait (mi_event_queue i) s = Ret (e, s1)" and "event_at e s1 = Ret ev"
    and "xine_event_free e (s1\<lparr>es_world := mcd_listener en 0 ev (es_world s1)\<rparr>) = Ret s'"
  shows "\<exists>i'. mcd_inv s' i' \<and> keeps i i'"
proof -
  have I: "ev_inv s {}" "queue_ids s = [mi_event_queue i]" "mw_inst (es_world s) = Some i"
    using assms(1) by (simp_all add: mcd_inv_def)
  have q: "es_queue s (mi_event_queue i) \<noteq> None" using ev_invD(2) [OF I(1)] I(2) by auto
  have w: "ev_inv s1 {e}" "queue_ids s1 = queue_ids s" using wait_inv [OF I(1) q] assms(2)
    by (cases "event_ids s (mi_event_queue i) = []"; auto)+
  have "es_world s1 = es_world s" using assms(2) unfolding wait_get
    by (auto simp: xine_event_get_def obind_eq_Ret set_events_def split: option.splits outcome.splits)
  then obtain t where t: "mw_inst (mcd_listener en 0 ev (es_world s1)) = Some (i\<lparr>mi_cuetime := t\<rparr>)"
    "dom (mw_sem (es_world s)) \<subseteq> dom (mw_sem (mcd_listener en 0 ev (es_world s1)))"
    using listener_run [of "es_world s1" i] I(3) by metis
  let ?s2 = "s1\<lparr>es_world := mcd_listener en 0 ev (es_world s1)\<rparr>"
  have "ev_inv ?s2 {e}" using w(1) by simp
  from free_inv [OF this, of e] assms(4) have f: "s' = ?s2\<lparr>es_event := (es_event ?s2)(e := None)\<rparr>" "ev_inv s' {}"
    "queue_ids s' = queue_ids s" using w(2) by auto
  have "same_cues s s'" using wait_same_cues [OF assms(2)] f(1) by (simp add: same_cues_def)
  moreover have "mw_inst (es_world s') = Some (i\<lparr>mi_cuetime := t\<rparr>)" using f(1) t by simp
  moreover have "keeps i (i\<lparr>mi_cuetime := t\<rparr>)" by (simp add: keeps_def)
  moreover have "dom (mw_sem (es_world s)) \<subseteq> dom (mw_sem (es_world s'))" using f(1) t(2) by simp
  ultimately show ?thesis using mcd_inv_cong [OF assms(1) f(2,3)] by blast
qed

definition closes :: "mci_id \<Rightarrow> mci_flags \<Rightarrow> bool" where
  "closes msg fl \<longleftrightarrow> msg = MCI_CLOSE \<and> \<not> has_flag MCI_CLOSE_EXIT fl"

text \<open>What a message leaves: nothing after MCI_CLOSE, and the cue points of the advise.\<close>

definition after_message :: "mci_id \<Rightarrow> mci_flags \<Rightarrow> tmcdxine \<Rightarrow> mci_parms \<Rightarrow> mcd \<Rightarrow> mcd \<Rightarrow> bool" where
  "after_message msg fl i p s s' \<longleftrightarrow>
     (if closes msg fl then mcd_off s'
      else (\<exists>i'. mcd_inv s' i') \<and>
        (if msg = MCI_SET_POSITION_ADVISE then advise_step fl i (pm_ulUnits p) s s' else advise_cues s' = advise_cues s))"

lemma run_after:
  assumes "world_run r s i" and "mcd_inv s i" and "msg \<noteq> MCI_SET_POSITION_ADVISE" and "\<not> closes msg fl"
  shows "\<exists>b p' s'. r = Ret (b, p', s') \<and> after_message msg fl i p s s'"
proof -
  obtain b p' w i' where w: "r = Ret (b, p', s\<lparr>es_world := w\<rparr>)" "mw_inst w = Some i'" "keeps i i'"
    "dom (mw_sem (es_world s)) \<subseteq> dom (mw_sem w)" using assms(1) unfolding world_run_def by blast
  have "advise_cues (s\<lparr>es_world := w\<rparr>) = advise_cues s" by (simp add: advise_cues_def)
  then show ?thesis using w(1) mcd_inv_world [OF assms(2) w(2-4)] assms(3,4) by (auto simp: after_message_def)
qed

lemma switch_ok:
  assumes "mcd_inv s i" and "msg \<noteq> MCI_OPEN" and "enough k s" and "length (cue_ids s) < k"
    and "\<not> (msg = MCI_PLAY \<and> has_flag MCI_WAIT fl)"
  shows "if message_faults en s i msg fl p \<and> msg \<noteq> MCI_CLOSE then mci_switch k en g gi client msg fl u p s = Fault
    else \<exists>b p' s'. mci_switch k en g gi client msg fl u p s = Ret (b, p', s') \<and> after_message msg fl i p s s' \<and>
      (closes msg fl \<longrightarrow> b = Inr ())"
proof -
  note I = mcd_inv_inst [OF assms(1)]
  note run = run_load [OF I] run_stop [OF I] run_seek [OF I] run_caps [OF I] run_status [OF I]
    run_set [OF I] run_window [OF I] run_cue [OF I] run_others [OF I]
  have after: "\<exists>b p' s'. r = Ret (b, p', s') \<and> after_message msg fl i p s s' \<and> (closes msg fl \<longrightarrow> b = Inr ())"
    if "world_run r s i" "msg \<noteq> MCI_SET_POSITION_ADVISE" "\<not> closes msg fl" for r
    using run_after [OF that(1) assms(1) that(2,3), of p] that(3) by blast
  show ?thesis
  proof (cases msg)
    case MCI_OPEN
    then show ?thesis using assms(2) by simp
  next
    case MCI_PLAY
    then have "\<not> has_flag MCI_WAIT fl" using assms(5) by simp
    from after [OF run_play [OF I this, of u p]] MCI_PLAY show ?thesis
      by (simp add: mci_switch_def closes_def message_faults_def)
  next
    case MCI_CLOSE
    show ?thesis
    proof (cases "has_flag MCI_CLOSE_EXIT fl")
      case True
      then show ?thesis using MCI_CLOSE assms(1)
        by (auto simp: mci_switch_def mci_close_def ret_def closes_def after_message_def)
    next
      case False
      from close_ok [OF assms(1,3,4) False, of en p] MCI_CLOSE False show ?thesis
        by (auto simp: mci_switch_def closes_def after_message_def)
    qed
  next
    case MCI_SET_POSITION_ADVISE
    from advise_ok [OF assms(1,4), of fl en p] MCI_SET_POSITION_ADVISE show ?thesis
      by (auto simp: mci_switch_def closes_def message_faults_def after_message_def split: if_splits)
  next
    case MCI_LOAD
    from MCI_LOAD run(1) [of en fl p] show ?thesis
      using after [of "mci_load en fl p s"] by (simp add: mci_switch_def closes_def split: if_splits)
  next
    case MCI_SEEK
    from MCI_SEEK run(3) [of en fl p] show ?thesis
      using after [of "mci_seek en fl p s"] by (simp add: mci_switch_def closes_def split: if_splits)
  next
    case MCI_STATUS
    from MCI_STATUS run(5) [of en fl p gi client] show ?thesis
      using after [of "mci_status en gi client fl p s"] by (simp add: mci_switch_def closes_def split: if_splits)
  next
    case MCI_SET
    from MCI_SET run(6) [of en fl p] show ?thesis
      using after [of "mci_set en fl p s"] by (simp add: mci_switch_def closes_def split: if_splits)
  next
    case MCI_WINDOW
    from MCI_WINDOW run(7) [of en fl p] show ?thesis
      using after [of "mci_window fl p s"] by (simp add: mci_switch_def closes_def split: if_splits)
  next
    case MCI_CUE
    from MCI_CUE run(8) [of en fl p] show ?thesis
      using after [of "mci_cue fl p s"] by (simp add: mci_switch_def closes_def split: if_splits)
  qed (use run after in \<open>simp_all add: mci_switch_def closes_def message_faults_def\<close>)
qed

lemma entry_ok:
  assumes "mcd_inv s i" and "msg \<noteq> MCI_OPEN" and "enough k s" and "length (cue_ids s) < k"
    and "\<not> (msg = MCI_PLAY \<and> has_flag MCI_WAIT fl)"
  shows "if message_faults en s i msg fl p then mciDriverEntry k en g gi client msg fl u p s = Fault
    else \<exists>rc p' s'. mciDriverEntry k en g gi client msg fl u p s = Ret (rc, p', s') \<and> after_message msg fl i p s s'"
proof -
  note S = switch_ok [OF assms, of en p g gi client u]
  show ?thesis
  proof (cases "message_faults en s i msg fl p \<and> msg \<noteq> MCI_CLOSE")
    case True
    then show ?thesis using S by (simp add: mciDriverEntry_def)
  next
    case False
    then obtain b p1 s1 where s1: "mci_switch k en g gi client msg fl u p s = Ret (b, p1, s1)"
      "after_message msg fl i p s s1" "closes msg fl \<longrightarrow> b = Inr ()" using S by auto
    have nf: "message_faults en s i msg fl p \<longleftrightarrow> closes msg fl \<and> has_flag MCI_NOTIFY fl"
      using False by (auto simp: message_faults_def closes_def)
    consider (inl) rc where "b = Inl rc" | (quiet) "b = Inr ()" "\<not> has_flag MCI_NOTIFY fl"
      | (closed) "b = Inr ()" "has_flag MCI_NOTIFY fl" "closes msg fl"
      | (tell) "b = Inr ()" "has_flag MCI_NOTIFY fl" "\<not> closes msg fl" by (cases b) auto
    then show ?thesis
    proof cases
      case inl
      then show ?thesis using s1 nf by (auto simp: mciDriverEntry_def)
    next
      case quiet
      then show ?thesis using s1 nf by (auto simp: mciDriverEntry_def)
    next
      case closed
      then have "mw_inst (es_world s1) = None" using s1(2) by (simp add: after_message_def mcd_off_def)
      then show ?thesis using s1 nf closed by (simp add: mciDriverEntry_def the_inst_def)
    next
      case tell
      then obtain i' where i': "mcd_inv s1 i'" using s1(2) by (auto simp: after_message_def)
      let ?s' = "s1\<lparr>es_world := notify i' (pm_hwndCallback p1) u msg MCI_NOTIFY_SUCCESSFUL (es_world s1)\<rparr>"
      have "mciDriverEntry k en g gi client msg fl u p s = Ret (MCIERR_SUCCESS NO_RETURN, p1, ?s')"
        using s1(1) tell mcd_inv_inst [OF i'] by (simp add: mciDriverEntry_def the_inst_def)
      moreover have "mcd_inv ?s' i'"
        by (rule mcd_inv_world [OF i' _ keeps_refl]) (simp_all add: mcd_inv_inst [OF i'] notify_def)
      moreover have "advise_cues ?s' = advise_cues s1" by (simp add: advise_cues_def)
      ultimately show ?thesis using s1(2) tell(3) nf by (auto simp: after_message_def advise_step_def)
    qed
  qed
qed

lemma entry_waits:
  assumes "mw_inst (es_world s) = Some i" and "has_flag MCI_WAIT fl"
  shows "mciDriverEntry k en g gi client MCI_PLAY fl u p s = Wait"
  using play_waits [OF assms, of u p] by (simp add: mciDriverEntry_def mci_switch_def)

lemma entry_ret:
  assumes "mcd_inv s i" and "msg \<noteq> MCI_OPEN" and "enough k s" and "length (cue_ids s) < k"
    and "mciDriverEntry k en g gi client msg fl u p s = Ret (rc, p', s')"
  shows "after_message msg fl i p s s' \<and> \<not> message_faults en s i msg fl p \<and>
    (if closes msg fl then mcd_off s' else \<exists>i'. mcd_inv s' i')"
proof -
  have w: "\<not> (msg = MCI_PLAY \<and> has_flag MCI_WAIT fl)"
    using assms(5) entry_waits [OF mcd_inv_inst [OF assms(1)], of fl k en g gi client u p] by auto
  have "after_message msg fl i p s s'" "\<not> message_faults en s i msg fl p"
    using entry_ok [OF assms(1-4) w, of en p g gi client u] assms(5) by (auto split: if_splits)
  then show ?thesis by (simp add: after_message_def)
qed

definition mcd_ok :: "mcd \<Rightarrow> bool" where
  "mcd_ok s \<longleftrightarrow> (case mw_inst (es_world s) of None \<Rightarrow> mcd_off s | Some i \<Rightarrow> mcd_inv s i)"

lemma mcd_okI: "mcd_off s \<Longrightarrow> mcd_ok s" "mcd_inv s i \<Longrightarrow> mcd_ok s"
  by (simp_all add: mcd_ok_def mcd_off_def mcd_inv_def)

lemma open_entry_ok:
  assumes "mcd_off s" and "mciDriverEntry k en g gi client MCI_OPEN fl u p s = Ret (MCIERR_SUCCESS NO_RETURN, p', s')"
  shows "\<exists>i. mcd_inv s' i"
proof -
  obtain b p1 s1 where o: "mci_open en g fl p s = Ret (b, p1, s1)"
    "(case b of Inl rc \<Rightarrow> Ret (rc, p1, s1)
      | Inr _ \<Rightarrow> if has_flag MCI_NOTIFY fl then obind (the_inst s1) (\<lambda>i. Ret (MCIERR_SUCCESS NO_RETURN, p1,
                s1\<lparr>es_world := notify i (pm_hwndCallback p1) u MCI_OPEN MCI_NOTIFY_SUCCESSFUL (es_world s1)\<rparr>))
         else Ret (MCIERR_SUCCESS NO_RETURN, p1, s1)) = Ret (MCIERR_SUCCESS NO_RETURN, p', s')"
    using assms(2) by (auto simp: mciDriverEntry_def mci_switch_def obind_eq_Ret)
  show ?thesis
  proof (cases b)
    case (Inl rc)
    then show ?thesis using o by (auto simp: mci_open_def Let_def ret_def brk_def obind_eq_Ret split: if_splits)
  next
    case (Inr x)
    then have "mci_open en g fl p s = Ret (Inr (), p1, s1)" using o(1) by simp
    from open_inv [OF assms(1) this] obtain i where i: "mcd_inv s1 i" by blast
    note I = mcd_inv_inst [OF i]
    show ?thesis
    proof (cases "has_flag MCI_NOTIFY fl")
      case True
      have "mcd_inv (s1\<lparr>es_world := notify i (pm_hwndCallback p1) u MCI_OPEN MCI_NOTIFY_SUCCESSFUL (es_world s1)\<rparr>) i"
        by (rule mcd_inv_world [OF i _ keeps_refl]) (simp_all add: I notify_def)
      then show ?thesis using o(2) Inr True I by (auto simp: the_inst_def)
    next
      case False
      then show ?thesis using o(2) Inr i by auto
    qed
  qed
qed

lemma mcd_reach_ok: "mcd_reach en s \<Longrightarrow> mcd_ok s"
proof (induction rule: mcd_reach.induct)
  case (mr_start s)
  then show ?case using ev_inv_init [of s] by (simp add: mcd_ok_def mcd_off_def)
next
  case (mr_open s k g gi client fl u p p' s')
  then have "mcd_off s" by (simp add: mcd_ok_def)
  from open_entry_ok [OF this mr_open.hyps(3)] show ?case by (auto intro: mcd_okI(2))
next
  case (mr_message s i msg fl p k g gi client u rc p' s')
  then have "mcd_inv s i" by (simp add: mcd_ok_def)
  from entry_ret [OF this mr_message.hyps(3-6)] show ?case by (auto split: if_splits intro: mcd_okI)
next
  case (mr_wait s fl u p s')
  show ?case
  proof (cases "mw_inst (es_world s)")
    case None
    then show ?thesis using mr_wait.hyps(2) by (simp add: mci_play_start_def the_inst_def)
  next
    case (Some i)
    then have i: "mcd_inv s i" using mr_wait by (simp add: mcd_ok_def)
    have "\<exists>w i'. s' = s\<lparr>es_world := w\<rparr> \<and> mw_inst w = Some i' \<and> keeps i i' \<and> dom (mw_sem (es_world s)) \<subseteq> dom (mw_sem w)"
      using mr_wait.hyps(2) Some by (auto simp: mci_play_start_def the_inst_def Let_def put_inst_def keeps_def sem_dom)
    then show ?thesis using mcd_inv_world [OF i] by (auto intro: mcd_okI)
  qed
next
  case (mr_event s ev d k s')
  have len: "length (queue_ids s) < k" using mr_event.hyps(3) by (simp add: enough_def)
  have ok: "mcd_ok s" by (rule mr_event.IH)
  show ?case
  proof (cases "mw_inst (es_world s)")
    case None
    then have o: "mcd_off s" using ok by (simp add: mcd_ok_def)
    then have "ev_inv s {}" by (simp add: mcd_off_def)
    from send_inv [OF this len mr_event.hyps(2)] mr_event.hyps(4) have s': "ev_inv s' {}" "dom (es_queue s') = dom (es_queue s)"
      "es_world s' = es_world s" "es_cue s' = es_cue s" by auto
    have "es_queue s' = Map.empty" using s'(2) o by (simp add: mcd_off_def)
    then show ?thesis using s' o ev_inv_empty [OF s'(1)] None by (simp add: mcd_ok_def mcd_off_def)
  next
    case (Some i)
    then have i: "mcd_inv s i" using ok by (simp add: mcd_ok_def)
    then have "ev_inv s {}" by (simp add: mcd_inv_def)
    from send_inv [OF this len mr_event.hyps(2)] mr_event.hyps(4) have s': "ev_inv s' {}" "queue_ids s' = queue_ids s"
      "es_world s' = es_world s" "same_cues s s'" by (auto simp: same_cues_def)
    have "mcd_inv s' i"
      by (rule mcd_inv_cong [OF i s'(1,2,4) _ keeps_refl]) (use i s'(3) in \<open>simp_all add: mcd_inv_def\<close>)
    then show ?thesis by (rule mcd_okI)
  qed
next
  case (mr_listener s i e s1 ev s')
  then have "mcd_inv s i" by (simp add: mcd_ok_def)
  from listener_inv [OF this mr_listener.hyps(3-5)] show ?case by (auto intro: mcd_okI)
next
  case (mr_engine s l m nt ot nd c vo tv)
  then obtain i where "mcd_inv s i" by (auto simp: mcd_ok_def)
  from engine_inv [OF this mr_engine.hyps(3,4)] show ?case by (rule mcd_okI)
qed

text \<open>Opening: the time format is MMTIME, so loading does not divide.\<close>

definition open_faults :: "mcd_env \<Rightarrow> mcd_call list \<Rightarrow> mci_flags \<Rightarrow> mci_parms \<Rightarrow> bool" where
  "open_faults en cs fl p \<longleftrightarrow> en_video en (cs @ [C_xine_new, C_config_load, C_xine_init]) \<and>
     en_audio en (cs @ [C_xine_new, C_config_load, C_xine_init, C_open_video]) \<and>
     has_flag MCI_OPEN_ELEMENT fl \<and> load_name (pm_pszElementName p) = Fault"

lemma load_any:
  assumes "mw_inst (es_world s) = Some i" and "mi_timeformat i = MCI_FORMAT_MMTIME"
  shows "if load_name f = Fault then load en f s = Fault
    else \<exists>rc w. load en f s = Ret (rc, s\<lparr>es_world := w\<rparr>) \<and> mw_inst w \<noteq> None"
proof (cases "load_name f")
  case (Ret g)
  then show ?thesis using assms by (simp add: load_def the_inst_def Let_def put_inst_def)
qed (auto simp: load_def load_name_def c_strcpy_def split: if_splits)

lemma open_ok:
  assumes "mcd_off s"
  shows "if open_faults en (mw_calls (es_world s)) fl p then mciDriverEntry k en g gi client MCI_OPEN fl u p s = Fault
    else \<exists>rc p' s'. mciDriverEntry k en g gi client MCI_OPEN fl u p s = Ret (rc, p', s') \<and>
    ((\<forall>c. en_video en c \<and> en_audio en c) \<and> \<not> has_flag MCI_OPEN_ELEMENT fl \<longrightarrow>
      rc = MCIERR_SUCCESS NO_RETURN \<and> es_event s' = es_event s \<and> cue_ids s' = [] \<and>
      (\<exists>i. mw_inst (es_world s') = Some i \<and> mi_timeformat i = MCI_FORMAT_MMTIME \<and> mi_playflags i = mi_playflags g \<and>
         mi_posadviseUnits i = 0))"
proof -
  let ?i = "g\<lparr>mi_DeviceID := pm_usDeviceID p, mi_timeformat := MCI_FORMAT_MMTIME,
               mi_speedformat := MCI_FORMAT_FPS, mi_posadviseUnits := 0, mi_defaultwindow := True,
               mi_newwindow := True, mi_hasput := False, mi_cuetime := 0\<rparr>"
  define w where "w = call C_open_audio (call C_open_video (call C_xine_init (call C_config_load (call C_xine_new
      ((es_world s)\<lparr>mw_inst := Some ?i\<rparr>)))))"
  have wi: "mw_inst w = Some ?i" by (simp add: w_def)
  obtain q s4 where s4: "xine_event_new_queue (stream_new (s\<lparr>es_world := w\<rparr>)) = Ret (q, s4)"
    "\<forall>j. \<exists>s5. xine_event_create_listener_thread q 0 (put_inst j s4) = Ret s5 \<and> ev_inv s5 {} \<and> cue_inv s5 \<and>
       cue_ids s5 = [] \<and> queue_ids s5 = [q] \<and> es_cue s5 = Map.empty \<and>
       es_event s5 = es_event s \<and> es_world s5 = (call C_stream_new w)\<lparr>mw_inst := Some j\<rparr>"
    using open_stream [OF assms(1) wi] by blast
  obtain s5 where s5: "xine_event_create_listener_thread q 0 (put_inst (?i\<lparr>mi_event_queue := q\<rparr>) s4) = Ret s5"
    "es_event s5 = es_event s" "cue_ids s5 = []" using s4(2) by blast
  let ?h = "mw_sfresh (es_world s5)"
  let ?i3 = "?i\<lparr>mi_event_queue := q, mi_playsem := ?h\<rparr>"
  define s6 where "s6 = put_inst ?i3 (s5\<lparr>es_world := (set_sem ?h False (es_world s5))\<lparr>mw_sfresh := ?h + 1\<rparr>\<rparr>)"
  have i6: "mw_inst (es_world s6) = Some ?i3" "es_event s6 = es_event s" "cue_ids s6 = []" by (simp_all add: s6_def s5(2,3))
  have l: "if load_name (pm_pszElementName p) = Fault then load en (pm_pszElementName p) s6 = Fault
    else \<exists>rc w. load en (pm_pszElementName p) s6 = Ret (rc, s6\<lparr>es_world := w\<rparr>) \<and> mw_inst w \<noteq> None"
    using load_any [OF i6(1), of "pm_pszElementName p" en] by simp
  have r: "mci_open en g fl p s =
     (if \<not> en_video en (mw_calls (es_world s) @ [C_xine_new, C_config_load, C_xine_init]) then
        ret MCIERR_DRIVER p (s\<lparr>es_world := call C_open_video (call C_xine_init (call C_config_load (call C_xine_new
          ((es_world s)\<lparr>mw_inst := Some ?i\<rparr>))))\<rparr>)
      else if \<not> en_audio en (mw_calls (es_world s) @ [C_xine_new, C_config_load, C_xine_init, C_open_video]) then
        ret MCIERR_DRIVER p (s\<lparr>es_world := w\<rparr>)
      else if has_flag MCI_OPEN_ELEMENT fl then
        obind (load en (pm_pszElementName p) s6) (\<lambda>(err, s7).
          if err \<noteq> MCIERR_SUCCESS NO_RETURN then ret err p s7 else brk p s7)
      else brk p s6)"
    using s4(1) s5(1) unfolding w_def s6_def
    by (simp add: mci_open_def Let_def put_inst_def cong: if_cong)
  show ?thesis
  proof (cases "open_faults en (mw_calls (es_world s)) fl p")
    case True
    then show ?thesis using l unfolding mciDriverEntry_def mci_switch_def by (simp add: r open_faults_def)
  next
    case False
    then show ?thesis using i6 l unfolding mciDriverEntry_def mci_switch_def
      by (auto simp: r ret_def brk_def the_inst_def open_faults_def split: if_splits)
  qed
qed

end
