(* ===== verification/Mcd_Props.thy ===== *)
theory Mcd_Props
  imports Mcd_Inv
begin

text \<open>
  The properties of the media control driver: its time formats, the messages it answers, its
  position advise, what it releases, and two ways in which it misleads the application.
\<close>

section \<open>Times\<close>

text \<open>
  The time formats: a time in milliseconds, as long as the products stay below
  \<open>2 ^ 31\<close>, comes back from the conversion to milliseconds and to MMTIME (1/3000 second) as it
  was; through frames it comes back at or before itself, by less than one frame and one
  millisecond; and the position of a frame, reported in frames, is that frame or the one before.
\<close>

theorem mcd_time_formats:
  assumes "0 \<le> t" and "t < 2 ^ 31"
  shows "(mi_timeformat i = MCI_FORMAT_MILLISECONDS \<longrightarrow> fromMMFormat i (toMMFormat i t) = Ret t) \<and>
    (mi_timeformat i = MCI_FORMAT_MMTIME \<and> t * 3 < 2 ^ 31 \<longrightarrow> fromMMFormat i (toMMFormat i t) = Ret t) \<and>
    (mi_timeformat i = MCI_FORMAT_FRAMES \<and> 0 < mi_fps i \<and> mi_fps i < 2 ^ 31 \<and> t * mi_fps i < 2 ^ 31 \<longrightarrow>
       (\<exists>t'. fromMMFormat i (toMMFormat i t) = Ret t' \<and> t' \<le> t \<and> (t - t') * mi_fps i < 1000 + mi_fps i)) \<and>
    (mi_timeformat i = MCI_FORMAT_FRAMES \<and> 0 < mi_fps i \<and> mi_fps i \<le> 1000 \<and> t * 1000 < 2 ^ 31 \<longrightarrow>
       (\<exists>t'. fromMMFormat i (word_of_int t) = Ret t' \<and> toMMFormat i t' \<in> {word_of_int t, word_of_int (t - 1)}))"
proof (intro conjI impI)
  show "fromMMFormat i (toMMFormat i t) = Ret t" if "mi_timeformat i = MCI_FORMAT_MILLISECONDS"
    using that assms by (simp add: fromMMFormat_def toMMFormat_def sint_of_int32)
next
  assume f: "mi_timeformat i = MCI_FORMAT_MMTIME \<and> t * 3 < 2 ^ 31"
  have "(word_of_int (t * 3) :: u32) div 3 = word_of_int (t * 3 div 3)"
    using udiv_of_int32 [of "t * 3" 3] f assms by simp
  then show "fromMMFormat i (toMMFormat i t) = Ret t"
    using f assms by (simp add: fromMMFormat_def toMMFormat_def s32_id sint_of_int32)
next
  let ?f = "mi_fps i"
  assume f: "mi_timeformat i = MCI_FORMAT_FRAMES \<and> 0 < ?f \<and> ?f < 2 ^ 31 \<and> t * ?f < 2 ^ 31"
  let ?q = "t * ?f div 1000"
  have q: "0 \<le> t * ?f" "0 \<le> ?q" "?q * 1000 \<le> t * ?f" using f assms div_mult_mod_eq [of "t * ?f" 1000]
    by (simp_all add: pos_imp_zdiv_nonneg_iff)
  have "(word_of_int ?q * 1000 :: u32) = word_of_int (?q * 1000)" by simp
  also have "\<dots> div word_of_int ?f = word_of_int (?q * 1000 div ?f)"
    using f q by (intro udiv_of_int32) auto
  finally have w: "(word_of_int ?q * 1000 :: u32) div word_of_int ?f = word_of_int (?q * 1000 div ?f)" .
  have "?q * 1000 div ?f < 2 ^ 31" using f q by (intro div_lt_bound) auto
  then have "sint (word_of_int (?q * 1000 div ?f) :: u32) = ?q * 1000 div ?f"
    using f q by (intro sint_of_int32) (simp_all add: pos_imp_zdiv_nonneg_iff)
  moreover have "(word_of_int ?f :: u32) \<noteq> 0" using f by (intro of_int32_eq_0) auto
  moreover have "toMMFormat i t = word_of_int ?q"
    using f q by (simp add: toMMFormat_def s32_id sdiv_nonneg)
  ultimately have "fromMMFormat i (toMMFormat i t) = Ret (?q * 1000 div ?f)"
    using f w by (simp add: fromMMFormat_def)
  then show "\<exists>t'. fromMMFormat i (toMMFormat i t) = Ret t' \<and> t' \<le> t \<and> (t - t') * ?f < 1000 + ?f"
    using mul_div_back [of ?f t] f assms by blast
next
  let ?f = "mi_fps i"
  assume f: "mi_timeformat i = MCI_FORMAT_FRAMES \<and> 0 < ?f \<and> ?f \<le> 1000 \<and> t * 1000 < 2 ^ 31"
  define t' where "t' = t * 1000 div ?f"
  have t': "t' * ?f \<le> t * 1000" "t * 1000 < t' * ?f + ?f" "0 \<le> t'"
    using div_bounds [of ?f "t * 1000"] f assms unfolding t'_def by (simp_all add: pos_imp_zdiv_nonneg_iff)
  have lt: "t' < 2 ^ 31" unfolding t'_def using f assms by (intro div_lt_bound) auto
  have "(word_of_int t * 1000 :: u32) = word_of_int (t * 1000)" by simp
  also have "\<dots> div word_of_int ?f = word_of_int t'"
    unfolding t'_def using f assms by (intro udiv_of_int32) auto
  finally have w: "(word_of_int t * 1000 :: u32) div word_of_int ?f = word_of_int t'" .
  have "(word_of_int ?f :: u32) \<noteq> 0" using f by (intro of_int32_eq_0) auto
  then have r: "fromMMFormat i (word_of_int t) = Ret t'"
    using f w sint_of_int32 [OF t'(3) lt] by (simp add: fromMMFormat_def)
  have nn: "0 \<le> t' * ?f" using t'(3) f by simp
  have "s32 (t' * ?f) = t' * ?f" using nn f t'(1) by (intro s32_id) linarith+
  then have "toMMFormat i t' = word_of_int (t' * ?f div 1000)"
    using f nn by (simp add: toMMFormat_def sdiv_nonneg)
  moreover have "t' * ?f div 1000 = t \<or> t' * ?f div 1000 = t - 1"
  proof -
    have "t' * ?f div 1000 \<le> t" using zdiv_mono1 [OF t'(1), of 1000] by simp
    moreover have "t - 1 \<le> t' * ?f div 1000" using t'(2) f zdiv_mono1 [of "(t - 1) * 1000" "t' * ?f" 1000] by simp
    ultimately show ?thesis by linarith
  qed
  ultimately show "\<exists>t'. fromMMFormat i (word_of_int t) = Ret t' \<and> toMMFormat i t' \<in> {word_of_int t, word_of_int (t - 1)}"
    using r by auto
qed

definition some_inst :: tmcdxine where
  "some_inst = \<lparr>mi_DeviceID = 1, mi_playuserparm = 0, mi_playflags = [], mi_playcallback = 0, mi_playsem = 0,
     mi_event_queue = 0, mi_speedformat = MCI_FORMAT_FPS, mi_timeformat = MCI_FORMAT_MMTIME, mi_fps = 25,
     mi_posadviseUnits = 0, mi_posadviseCallback = 0, mi_posadviseUserParm = 0, mi_defaultwindow = True,
     mi_newwindow = True, mi_Display = 0, mi_hasput = False, mi_putrect = [], mi_filename = [], mi_title = [],
     mi_cuetime = 0, mi_logfile = 0\<rparr>"

theorem mcd_time_formats_witness:
  "fromMMFormat some_inst (toMMFormat some_inst 100000) = Ret 100000 \<and>
   (\<exists>t'. fromMMFormat (some_inst\<lparr>mi_timeformat := MCI_FORMAT_FRAMES, mi_fps := 30\<rparr>) (word_of_int 100) = Ret t' \<and>
     toMMFormat (some_inst\<lparr>mi_timeformat := MCI_FORMAT_FRAMES, mi_fps := 30\<rparr>) t' \<in> {word_of_int 100, word_of_int (100 - 1)})"
  using mcd_time_formats [of 100000 some_inst]
    mcd_time_formats [of 100 "some_inst\<lparr>mi_timeformat := MCI_FORMAT_FRAMES, mi_fps := 30\<rparr>"]
  by (simp add: some_inst_def)

section \<open>Properties of the driver\<close>

text \<open>
  C9. In whatever state the messages, the engine's events and the listener have left the driver,
  and whatever the engine answers, a message does not return exactly in these cases: MCI_PLAY
  with MCI_WAIT waits for the end of play; loading a name that does not fit into 200 characters,
  and a title that does not, overflow their array; with the time format in frames, loading and
  MCI_SET divide by the frame duration of the stream, which is 0 until the engine knows it, and
  MCI_CUE, MCI_SEEK and MCI_SET_POSITION_ADVISE by the frame rate, which is 0 for a duration
  above 90000; MCI_STATUS_MODE reads past its table for a status the engine does not have; and
  MCI_CLOSE with MCI_NOTIFY reads the instance it has freed. Every other message returns, and
  only MCI_CLOSE ends the instance.
\<close>

theorem mcd_messages_return:
  assumes "mcd_reach en s" and "enough k s" and "length (cue_ids s) < k"
  shows "case mw_inst (es_world s) of
      None \<Rightarrow>
        if open_faults en (mw_calls (es_world s)) fl p then mciDriverEntry k en g gi client MCI_OPEN fl u p s = Fault
        else \<exists>rc p' s'. mciDriverEntry k en g gi client MCI_OPEN fl u p s = Ret (rc, p', s')
    | Some i \<Rightarrow> msg \<noteq> MCI_OPEN \<longrightarrow>
        (if msg = MCI_PLAY \<and> has_flag MCI_WAIT fl then mciDriverEntry k en g gi client msg fl u p s = Wait
         else if message_faults en s i msg fl p then mciDriverEntry k en g gi client msg fl u p s = Fault
         else \<exists>rc p' s'. mciDriverEntry k en g gi client msg fl u p s = Ret (rc, p', s') \<and>
           (mw_inst (es_world s') = None \<longleftrightarrow> closes msg fl))"
proof (cases "mw_inst (es_world s)")
  case None
  then have "mcd_off s" using mcd_reach_ok [OF assms(1)] by (simp add: mcd_ok_def)
  then show ?thesis using open_ok [of s en fl p k g gi client u] None by (auto split: if_splits)
next
  case (Some i)
  then have i: "mcd_inv s i" using mcd_reach_ok [OF assms(1)] by (simp add: mcd_ok_def)
  have "if msg = MCI_PLAY \<and> has_flag MCI_WAIT fl then mciDriverEntry k en g gi client msg fl u p s = Wait
         else if message_faults en s i msg fl p then mciDriverEntry k en g gi client msg fl u p s = Fault
         else \<exists>rc p' s'. mciDriverEntry k en g gi client msg fl u p s = Ret (rc, p', s') \<and>
           (mw_inst (es_world s') = None \<longleftrightarrow> closes msg fl)" if m: "msg \<noteq> MCI_OPEN"
  proof (cases "msg = MCI_PLAY \<and> has_flag MCI_WAIT fl")
    case True
    then show ?thesis using entry_waits [OF Some] by simp
  next
    case False
    have "after_message msg fl i p s s' \<Longrightarrow> mw_inst (es_world s') = None \<longleftrightarrow> closes msg fl" for s'
      by (auto simp: after_message_def mcd_off_def mcd_inv_def split: if_splits)
    then show ?thesis using entry_ok [OF i m assms(2,3) False, of en p g gi client u] False by (auto split: if_splits)
  qed
  then show ?thesis unfolding Some option.case by blast
qed

text \<open>
  C10. While a position advise of positive units is on, the stream has exactly one cue point of
  positive period, at time 0 and with the period that was asked for; while it is off, none:
  switching it on again replaces the one before, switching it off takes it away, and no other
  message touches it. Units that convert to zero or less make a cue point as well, but one that
  no later advise takes away: such cue points pile up until MCI_CLOSE frees them all.
\<close>

theorem mcd_position_advise_one:
  assumes "mcd_reach en s" and "mw_inst (es_world s) = Some i"
  shows "advise_cues s = left (advise_cues s) @ (if mi_posadviseUnits i > 0 then [(0, mi_posadviseUnits i)] else []) \<and>
    (msg \<noteq> MCI_OPEN \<and> enough k s \<and> length (cue_ids s) < k \<and>
       mciDriverEntry k en g gi client msg fl u p s = Ret (rc, p', s') \<longrightarrow>
     (if msg = MCI_CLOSE \<and> \<not> has_flag MCI_CLOSE_EXIT fl then es_cue s' = Map.empty
      else if msg = MCI_SET_POSITION_ADVISE \<and> has_flag MCI_SET_POSITION_ADVISE_ON fl then
        \<exists>units. fromMMFormat i (pm_ulUnits p) = Ret units \<and> advise_cues s' = left (advise_cues s) @ [(0, units)]
      else if msg = MCI_SET_POSITION_ADVISE \<and> has_flag MCI_SET_POSITION_ADVISE_OFF fl then
        advise_cues s' = left (advise_cues s)
      else advise_cues s' = advise_cues s))"
proof -
  have i: "mcd_inv s i" using mcd_reach_ok [OF assms(1)] assms(2) by (simp add: mcd_ok_def)
  have "after_message msg fl i p s s'" if "msg \<noteq> MCI_OPEN" "enough k s" "length (cue_ids s) < k"
    "mciDriverEntry k en g gi client msg fl u p s = Ret (rc, p', s')"
    using entry_ret [OF i that] by blast
  then show ?thesis using i
    by (auto simp: mcd_inv_def current_advise_def after_message_def advise_step_def closes_def mcd_off_def split: if_splits)
qed

text \<open>
  C11. MCI_CLOSE makes the engine calls that release the stream, the drivers and the engine, in
  this order and each once, after the listener has seen the last events; no event, queue or cue
  point stays allocated. The semaphore \<open>playsem\<close> is not closed: it stays open, with
  nothing left that names it. With MCI_NOTIFY the driver reads the instance it has just freed.
\<close>

theorem mcd_close_releases:
  assumes "mcd_reach en s" and "enough k s" and "length (cue_ids s) < k"
    and "mw_inst (es_world s) = Some i" and "\<not> has_flag MCI_CLOSE_EXIT fl"
  shows "if has_flag MCI_NOTIFY fl then mciDriverEntry k en g gi client MCI_CLOSE fl u p s = Fault
    else \<exists>s' cs. mciDriverEntry k en g gi client MCI_CLOSE fl u p s = Ret (MCIERR_SUCCESS NO_RETURN, p, s') \<and>
      mw_inst (es_world s') = None \<and> es_event s' = Map.empty \<and> es_queue s' = Map.empty \<and> es_cue s' = Map.empty \<and>
      mi_playsem i \<in> dom (mw_sem (es_world s')) \<and>
      (\<forall>c \<in> set cs. listener_call c) \<and>
      mw_calls (es_world s') = mw_calls (es_world s) @ C_config_save # cs @
        [C_close, C_dispose, C_close_video, C_close_audio, C_exit, C_close_fd (mi_logfile i)]"
proof -
  have i: "mcd_inv s i" using mcd_reach_ok [OF assms(1)] assms(4) by (simp add: mcd_ok_def)
  obtain s' cs where c: "mci_close k en fl p s = Ret (Inr (), p, s')" "mcd_off s'" "\<forall>c \<in> set cs. listener_call c"
    "mw_calls (es_world s') = mw_calls (es_world s) @ C_config_save # cs @ release_calls i"
    "dom (mw_sem (es_world s)) \<subseteq> dom (mw_sem (es_world s'))"
    using close_ok [OF i assms(2,3,5)] by blast
  have "mw_inst (es_world s') = None" using c(2) by (simp add: mcd_off_def)
  moreover have "mi_playsem i \<in> dom (mw_sem (es_world s'))" using c(5) i by (auto simp: mcd_inv_def)
  ultimately show ?thesis using c
    by (auto simp: mciDriverEntry_def mci_switch_def mcd_off_def the_inst_def release_calls_def)
qed

text \<open>
  MCI_LOAD answers success, and notifies success, whether the engine could open the element
  or not; MCI_OPEN with the same element returns the error.
\<close>

theorem mcd_load_hides_error:
  assumes "mcd_reach en s" and "mw_inst (es_world s) = Some i"
    and "length (pm_pszElementName p) < 200" and "\<And>f c. \<not> en_open en f c" and "has_flag MCI_OPEN_ELEMENT fl"
  shows "(\<exists>s'. mciDriverEntry k en g gi client MCI_LOAD fl u p s = Ret (MCIERR_SUCCESS NO_RETURN, p, s') \<and>
      (has_flag MCI_NOTIFY fl \<longrightarrow> last (mw_calls (es_world s')) =
         C_notify (mi_DeviceID i) (pm_hwndCallback p) u MCI_LOAD MCI_NOTIFY_SUCCESSFUL)) \<and>
    (\<forall>s0 rc p' s'. mciDriverEntry k en g gi client MCI_OPEN fl u p s0 = Ret (rc, p', s') \<longrightarrow> rc \<noteq> MCIERR_SUCCESS NO_RETURN)"
proof
  obtain f where f: "load_name (pm_pszElementName p) = Ret f" using name_ok [OF assms(3)] by blast
  let ?i = "i\<lparr>mi_cuetime := 0, mi_filename := f\<rparr>"
  let ?w = "call C_get_error (call (C_open f) ((es_world s)\<lparr>mw_inst := Some ?i\<rparr>))"
  have "mci_load en fl p s = Ret (Inr (), p, s\<lparr>es_world := ?w\<rparr>)"
    using assms(2,4,5) f by (simp add: mci_load_def load_def the_inst_def Let_def put_inst_def brk_def)
  then show "\<exists>s'. mciDriverEntry k en g gi client MCI_LOAD fl u p s = Ret (MCIERR_SUCCESS NO_RETURN, p, s') \<and>
      (has_flag MCI_NOTIFY fl \<longrightarrow> last (mw_calls (es_world s')) =
         C_notify (mi_DeviceID i) (pm_hwndCallback p) u MCI_LOAD MCI_NOTIFY_SUCCESSFUL)"
    by (simp add: mciDriverEntry_def mci_switch_def the_inst_def notify_def)
next
  have l: "load en n s1 = Ret (rc, s2) \<Longrightarrow> rc \<noteq> MCIERR_SUCCESS NO_RETURN" for n s1 rc s2
    using assms(4) by (auto simp: load_def obind_eq_Ret Let_def split: if_splits)
  then have "mci_open en g fl p s0 = Ret (b, p', s') \<Longrightarrow> \<exists>rc. b = Inl rc \<and> rc \<noteq> MCIERR_SUCCESS NO_RETURN" for s0 b p' s'
    using assms(5) by (fastforce simp: mci_open_def Let_def ret_def brk_def obind_eq_Ret split: if_splits)
  then show "\<forall>s0 rc p' s'. mciDriverEntry k en g gi client MCI_OPEN fl u p s0 = Ret (rc, p', s') \<longrightarrow> rc \<noteq> MCIERR_SUCCESS NO_RETURN"
    by (fastforce simp: mciDriverEntry_def mci_switch_def obind_eq_Ret)
qed

definition finished_event :: xine_event where
  "finished_event = \<lparr>ev_type = XINE_EVENT_UI_PLAYBACK_FINISHED, ev_data = None, ev_data_length = 0, ev_tv = 0\<rparr>"

definition play_notice :: "mcd_call \<Rightarrow> bool" where
  "play_notice c = (case c of C_notify d h u m n \<Rightarrow> m = MCI_PLAY | _ \<Rightarrow> False)"

lemma stop_notice:
  assumes "mw_inst (es_world s) = Some i" and "has_flag MCI_NOTIFY (mi_playflags i)" and "msg \<in> {MCI_STOP, MCI_SEEK}"
    and "mciDriverEntry k en g gi client msg [] u p s = Ret (rc, p', s')"
  shows "filter play_notice (mw_calls (es_world s')) = filter play_notice (mw_calls (es_world s)) @
    [C_notify (mi_DeviceID i) (mi_playcallback i) (mi_playuserparm i) MCI_PLAY MCI_NOTIFY_ABORTED]"
  using assms unfolding mciDriverEntry_def mci_switch_def mci_stop_def mci_seek_def abort_play_def
  by (auto simp: the_inst_def put_inst_def brk_def Let_def notify_def play_notice_def split: option.splits)

text \<open>
  An application that asked to be notified of the end of play gets the notification when the
  stream ends, but MCI_STOP (and MCI_SEEK) after that tells it once more, that play was aborted:
  the flags of MCI_PLAY are never cleared.
\<close>

theorem mcd_stop_notifies_again:
  assumes "mw_inst (es_world s) = Some i" and "has_flag MCI_NOTIFY (mi_playflags i)" and "msg \<in> {MCI_STOP, MCI_SEEK}"
    and "mciDriverEntry k en g gi client msg [] u p (s\<lparr>es_world := mcd_listener en 0 finished_event (es_world s)\<rparr>) = Ret (rc, p', s')"
  shows "filter play_notice (mw_calls (es_world s')) = filter play_notice (mw_calls (es_world s)) @
    [C_notify (mi_DeviceID i) (mi_playcallback i) (mi_playuserparm i) MCI_PLAY MCI_NOTIFY_SUCCESSFUL,
     C_notify (mi_DeviceID i) (mi_playcallback i) (mi_playuserparm i) MCI_PLAY MCI_NOTIFY_ABORTED]"
proof -
  let ?w = "mcd_listener en 0 finished_event (es_world s)"
  obtain t where t: "mw_inst ?w = Some (i\<lparr>mi_cuetime := t\<rparr>)" using listener_run [OF assms(1)] by blast
  have "filter play_notice (mw_calls ?w) = filter play_notice (mw_calls (es_world s)) @
      [C_notify (mi_DeviceID i) (mi_playcallback i) (mi_playuserparm i) MCI_PLAY MCI_NOTIFY_SUCCESSFUL]"
    using assms(1,2) by (auto simp: mcd_listener_def finished_event_def Let_def notify_def play_notice_def split: option.splits)
  moreover have "filter play_notice (mw_calls (es_world s')) = filter play_notice (mw_calls ?w) @
      [C_notify (mi_DeviceID i) (mi_playcallback i) (mi_playuserparm i) MCI_PLAY MCI_NOTIFY_ABORTED]"
    using stop_notice [OF _ _ assms(3,4)] t assms(2) by simp
  ultimately show ?thesis by simp
qed

section \<open>The driver's properties at work\<close>

definition demo_env :: mcd_env where
  "demo_env = \<lparr>en_video = \<lambda>_. True, en_audio = \<lambda>_. True, en_open = \<lambda>_ _. False, en_error = \<lambda>_. 1, en_status = \<lambda>_. 1,
     en_info = \<lambda>_ _. 0, en_pos = \<lambda>_. Some (0, 5000, 90000), en_advise = 41\<rparr>"

definition demo_parms :: mci_parms where
  "demo_parms = \<lparr>pm_hwndCallback = 7, pm_usDeviceID = 3, pm_pszElementName = ''a.avi'', pm_usMessage = MCI_PLAY,
     pm_ulItem = MCI_STATUS_MODE, pm_ulReturn = None, pm_ulTimeFormat = MCI_FORMAT_MMTIME, pm_pszText = [],
     pm_hwndDest = 0, pm_ulTo = 0, pm_ulUnits = 3000, pm_usUserParm = 9, pm_rc = []\<rparr>"

definition demo_start :: mcd where
  "demo_start =
     \<lparr>es_event = Map.empty, es_efresh = 0, es_queue = Map.empty, es_qfresh = 0, es_queues = xine_list_new,
      es_cue = Map.empty, es_cfresh = 0, es_cues = xine_list_new, es_next_cue_time = 0,
      es_org_next_cue_time = 0, es_next_cue_data = None, es_clock = 0, es_vpts_offset = 0, es_tv = 5,
      es_world = \<lparr>mw_inst = None, mw_sem = Map.empty, mw_sfresh = 0, mw_calls = []\<rparr>\<rparr>"

definition demo_open :: "(mci_rc \<times> mci_parms \<times> mcd) outcome" where
  "demo_open = mciDriverEntry 3 demo_env some_inst 0 0 MCI_OPEN [] 0 demo_parms demo_start"

lemma demo_opened:
  "\<exists>p s i. demo_open = Ret (MCIERR_SUCCESS NO_RETURN, p, s) \<and> mcd_reach demo_env s \<and> mw_inst (es_world s) = Some i \<and>
     enough 9 s \<and> length (cue_ids s) < 9 \<and> cue_ids s = [] \<and> mi_timeformat i = MCI_FORMAT_MMTIME"
proof -
  have 0: "mcd_reach demo_env demo_start" by (rule mr_start) (simp_all add: demo_start_def)
  then have off: "mcd_off demo_start" using mcd_reach_ok [OF 0] by (simp add: mcd_ok_def demo_start_def)
  obtain p s i where s: "demo_open = Ret (MCIERR_SUCCESS NO_RETURN, p, s)" "es_event s = Map.empty"
    "mw_inst (es_world s) = Some i" "mi_timeformat i = MCI_FORMAT_MMTIME" "mi_posadviseUnits i = 0" "cue_ids s = []"
    using open_ok [OF off, of demo_env "[]" demo_parms 3 some_inst 0 0 0] unfolding demo_open_def
    by (auto simp: demo_parms_def demo_env_def demo_start_def open_faults_def)
  have r: "mcd_reach demo_env s" using mr_open [OF 0 _ s(1) [unfolded demo_open_def]] by (simp add: demo_start_def)
  then have I: "mcd_inv s i" using mcd_reach_ok [OF r] s(3) by (simp add: mcd_ok_def)
  then have "event_ids s q = []" for q
    using events_okD(4) [OF ev_invD(3), of s "{}"] s(2) by (auto simp: mcd_inv_def)
  moreover have "length (queue_ids s) = 1" "cue_ids s = []" using I s(6) by (simp_all add: mcd_inv_def)
  ultimately have "enough 9 s" "length (cue_ids s) < 9" by (simp_all add: enough_def)
  then show ?thesis using s r by blast
qed

abbreviation demo_message :: "mci_id \<Rightarrow> mci_flags \<Rightarrow> mcd \<Rightarrow> (mci_rc \<times> mci_parms \<times> mcd) outcome" where
  "demo_message msg fl s \<equiv> mciDriverEntry 9 demo_env some_inst 0 0 msg fl 0 demo_parms s"

lemma demo_returns:
  assumes "mcd_reach demo_env s" and "mw_inst (es_world s) = Some i" and "enough 9 s" and "length (cue_ids s) < 9"
    and "msg \<noteq> MCI_OPEN" and "msg \<noteq> MCI_PLAY" and "\<not> message_faults demo_env s i msg fl demo_parms"
  shows "\<exists>rc p' s' . demo_message msg fl s = Ret (rc, p', s') \<and> after_message msg fl i demo_parms s s'"
proof -
  have i: "mcd_inv s i" using mcd_reach_ok [OF assms(1)] assms(2) by (simp add: mcd_ok_def)
  have n: "\<not> (msg = MCI_PLAY \<and> has_flag MCI_WAIT fl)" using assms(6) by simp
  show ?thesis using entry_ok [OF i assms(5,3,4) n, of demo_env demo_parms some_inst 0 0 0] assms(7) by auto
qed

theorem mcd_messages_return_witness:
  "\<exists>p s rc p' s'. demo_open = Ret (MCIERR_SUCCESS NO_RETURN, p, s) \<and>
     demo_message MCI_SET_POSITION_ADVISE [MCI_SET_POSITION_ADVISE_ON] s = Ret (rc, p', s') \<and>
     demo_message MCI_PLAY [MCI_WAIT] s = Wait \<and>
     mciDriverEntry 9 demo_env some_inst 0 0 MCI_SET [MCI_SET_TIME_FORMAT] 0
       (demo_parms\<lparr>pm_ulTimeFormat := MCI_FORMAT_FRAMES\<rparr>) s = Fault"
proof -
  obtain p s i where s: "demo_open = Ret (MCIERR_SUCCESS NO_RETURN, p, s)" "mcd_reach demo_env s"
    "mw_inst (es_world s) = Some i" "enough 9 s" "length (cue_ids s) < 9" "mi_timeformat i = MCI_FORMAT_MMTIME"
    using demo_opened by blast
  note m = mcd_messages_return [OF s(2,4,5), unfolded s(3) option.case]
  have "\<not> message_faults demo_env s i MCI_SET_POSITION_ADVISE fl q" for fl q
    using s(6) by (simp add: message_faults_def no_rate_def)
  moreover have "message_faults demo_env s i MCI_SET [MCI_SET_TIME_FORMAT] (demo_parms\<lparr>pm_ulTimeFormat := MCI_FORMAT_FRAMES\<rparr>)"
    by (simp add: message_faults_def no_duration_def demo_env_def)
  ultimately show ?thesis
    using s(1) m [of MCI_PLAY "[MCI_WAIT]" some_inst 0 0 0 demo_parms]
      m [of MCI_SET_POSITION_ADVISE "[MCI_SET_POSITION_ADVISE_ON]" some_inst 0 0 0 demo_parms]
      m [of MCI_SET "[MCI_SET_TIME_FORMAT]" some_inst 0 0 0 "demo_parms\<lparr>pm_ulTimeFormat := MCI_FORMAT_FRAMES\<rparr>"]
    by simp blast
qed

theorem mcd_position_advise_one_witness:
  "\<exists>p s rc p' s'. demo_open = Ret (MCIERR_SUCCESS NO_RETURN, p, s) \<and>
     demo_message MCI_SET_POSITION_ADVISE [MCI_SET_POSITION_ADVISE_ON] s = Ret (rc, p', s') \<and>
     advise_cues s' = [(0, 1000)]"
proof -
  obtain p s i where s: "demo_open = Ret (MCIERR_SUCCESS NO_RETURN, p, s)" "mcd_reach demo_env s"
    "mw_inst (es_world s) = Some i" "enough 9 s" "cue_ids s = []" "mi_timeformat i = MCI_FORMAT_MMTIME"
    using demo_opened by blast
  have l: "length (cue_ids s) < 9" using s(5) by simp
  obtain rc p' s' where s': "demo_message MCI_SET_POSITION_ADVISE [MCI_SET_POSITION_ADVISE_ON] s = Ret (rc, p', s')"
    using demo_returns [OF s(2,3,4) l, of MCI_SET_POSITION_ADVISE "[MCI_SET_POSITION_ADVISE_ON]"] s(6)
    by (auto simp: message_faults_def no_rate_def)
  from mcd_position_advise_one [OF s(2,3), of MCI_SET_POSITION_ADVISE 9 some_inst 0 0 "[MCI_SET_POSITION_ADVISE_ON]" 0
      demo_parms rc p' s'] s(4) l s'
  have "\<exists>units. fromMMFormat i 3000 = Ret units \<and> advise_cues s' = left (advise_cues s) @ [(0, units)]"
    by (simp add: demo_parms_def)
  then have "advise_cues s' = [(0, 1000)]" using s(5,6) by (simp add: fromMMFormat_def advise_cues_def cues_def)
  then show ?thesis using s(1) s' by blast
qed

theorem mcd_close_releases_witness:
  "\<exists>p s s'. demo_open = Ret (MCIERR_SUCCESS NO_RETURN, p, s) \<and>
     demo_message MCI_CLOSE [] s = Ret (MCIERR_SUCCESS NO_RETURN, demo_parms, s') \<and> mw_inst (es_world s') = None \<and>
     demo_message MCI_CLOSE [MCI_NOTIFY] s = Fault"
proof -
  obtain p s i where s: "demo_open = Ret (MCIERR_SUCCESS NO_RETURN, p, s)" "mcd_reach demo_env s"
    "mw_inst (es_world s) = Some i" "enough 9 s" "length (cue_ids s) < 9"
    using demo_opened by blast
  from mcd_close_releases [OF s(2,4,5,3), of "[]" some_inst 0 0 0 demo_parms]
    mcd_close_releases [OF s(2,4,5,3), of "[MCI_NOTIFY]" some_inst 0 0 0 demo_parms] s(1)
  show ?thesis by auto
qed

theorem mcd_load_hides_error_witness:
  "\<exists>p s s'. demo_open = Ret (MCIERR_SUCCESS NO_RETURN, p, s) \<and>
     demo_message MCI_LOAD [MCI_OPEN_ELEMENT] s = Ret (MCIERR_SUCCESS NO_RETURN, demo_parms, s')"
proof -
  obtain p s i where s: "demo_open = Ret (MCIERR_SUCCESS NO_RETURN, p, s)" "mcd_reach demo_env s"
    "mw_inst (es_world s) = Some i" using demo_opened by blast
  from mcd_load_hides_error [OF s(2,3), of demo_parms "[MCI_OPEN_ELEMENT]" 9 some_inst 0 0 0] s(1)
  show ?thesis by (auto simp: demo_parms_def demo_env_def)
qed

definition demo_playing :: mcd where
  "demo_playing = demo_start\<lparr>es_world := \<lparr>mw_inst = Some (some_inst\<lparr>mi_playflags := [MCI_NOTIFY]\<rparr>),
     mw_sem = [0 \<mapsto> False], mw_sfresh = 1, mw_calls = [C_play 0 0]\<rparr>\<rparr>"

theorem mcd_stop_notifies_again_witness:
  "\<exists>rc p' s'. demo_message MCI_STOP [] (demo_playing\<lparr>es_world := mcd_listener demo_env 0 finished_event (es_world demo_playing)\<rparr>) =
       Ret (rc, p', s') \<and>
     filter play_notice (mw_calls (es_world s')) =
       [C_notify 1 0 0 MCI_PLAY MCI_NOTIFY_SUCCESSFUL, C_notify 1 0 0 MCI_PLAY MCI_NOTIFY_ABORTED]"
proof -
  let ?s = "demo_playing\<lparr>es_world := mcd_listener demo_env 0 finished_event (es_world demo_playing)\<rparr>"
  have e: "\<exists>rc p' s'. demo_message MCI_STOP [] ?s = Ret (rc, p', s')"
    by (simp add: mciDriverEntry_def mci_switch_def mci_stop_def demo_playing_def mcd_listener_def finished_event_def
        demo_env_def the_inst_def abort_play_def brk_def put_inst_def Let_def)
  have w: "mw_inst (es_world demo_playing) = Some (some_inst\<lparr>mi_playflags := [MCI_NOTIFY]\<rparr>)"
    "filter play_notice (mw_calls (es_world demo_playing)) = []" by (simp_all add: demo_playing_def play_notice_def)
  from e mcd_stop_notifies_again [OF w(1), of MCI_STOP 9 demo_env some_inst 0 0 0 demo_parms] w(2) show ?thesis
    by (fastforce simp: some_inst_def)
qed

end
