(* ===== verification/Overlay.thy ===== *)
theory Overlay
  imports Xine_Prelude
begin

text \<open>
  The overlay manager, src/src/xine-engine/video_overlay.c: subtitles and menus to show and to
  hide at given times. Events wait in 50 slots, linked by index in the order of their times;
  slot 0 holds only the head of the chain. Objects are what the handles name, and five of them
  can be showing. Overlays and their run-length data are allocated: an address is freed at most
  once, and \<open>free\<close> of anything else faults. Each operation holds its locks to its end.
\<close>

section \<open>Data\<close>

record vo_overlay =
  ov_rle :: "nat option"
  ov_data_size :: int
  ov_num_rle :: int
  ov_x :: int
  ov_y :: int
  ov_width :: int
  ov_height :: int
  ov_color :: "u32 list"
  ov_trans :: "u8 list"
  ov_rgb_clut :: int
  ov_clip_top :: int
  ov_clip_bottom :: int
  ov_clip_left :: int
  ov_clip_right :: int
  ov_clip_color :: "u32 list"
  ov_clip_trans :: "u8 list"
  ov_clip_rgb_clut :: int

definition OVL_PALETTE_SIZE :: nat where
  "OVL_PALETTE_SIZE = 256"

definition no_overlay :: vo_overlay where
  "no_overlay = \<lparr>ov_rle = None, ov_data_size = 0, ov_num_rle = 0, ov_x = 0, ov_y = 0, ov_width = 0, ov_height = 0,
     ov_color = replicate OVL_PALETTE_SIZE 0, ov_trans = replicate OVL_PALETTE_SIZE 0, ov_rgb_clut = 0,
     ov_clip_top = 0, ov_clip_bottom = 0, ov_clip_left = 0, ov_clip_right = 0,
     ov_clip_color = replicate OVL_PALETTE_SIZE 0, ov_clip_trans = replicate OVL_PALETTE_SIZE 0, ov_clip_rgb_clut = 0\<rparr>"

record ov_object =
  ob_handle :: int
  ob_object_type :: int
  ob_pts :: int
  ob_overlay :: "nat option"

text \<open>An event in its slot; the fields of its object that the manager uses.\<close>

record ov_event =
  oe_type :: nat
  oe_vpts :: int
  oe_handle :: int
  oe_pts :: int
  oe_overlay :: "nat option"

record ov_slot =
  sl_event :: "ov_event option"
  sl_next :: nat

record overlays =
  ol_events :: "ov_slot list"
  ol_objects :: "ov_object list"
  ol_showing :: "int list"
  ol_changed :: int
  ol_ovl :: "nat \<rightharpoonup> vo_overlay"
  ol_fresh :: nat
  ol_rle :: "nat set"

definition MAX_OBJECTS :: nat where
  "MAX_OBJECTS = 50"

definition MAX_EVENTS :: nat where
  "MAX_EVENTS = 50"

definition MAX_SHOWING :: nat where
  "MAX_SHOWING = 5"

definition OVERLAY_EVENT_NULL :: nat where
  "OVERLAY_EVENT_NULL = 0"

definition OVERLAY_EVENT_SHOW :: nat where
  "OVERLAY_EVENT_SHOW = 1"

definition OVERLAY_EVENT_HIDE :: nat where
  "OVERLAY_EVENT_HIDE = 2"

definition OVERLAY_EVENT_MENU_BUTTON :: nat where
  "OVERLAY_EVENT_MENU_BUTTON = 3"

definition OVERLAY_EVENT_FREE_HANDLE :: nat where
  "OVERLAY_EVENT_FREE_HANDLE = 8"

section \<open>Memory\<close>

definition ovl_at :: "nat \<Rightarrow> overlays \<Rightarrow> vo_overlay outcome" where
  "ovl_at a s = of_opt (ol_ovl s a)"

definition free_rle :: "nat option \<Rightarrow> overlays \<Rightarrow> overlays outcome" where
  "free_rle r s =
     (case r of None \<Rightarrow> Ret s
      | Some b \<Rightarrow> if b \<in> ol_rle s then Ret (s\<lparr>ol_rle := ol_rle s - {b}\<rparr>) else Fault)"

definition free_ovl :: "nat \<Rightarrow> overlays \<Rightarrow> overlays outcome" where
  "free_ovl a s = obind (ovl_at a s) (\<lambda>_. Ret (s\<lparr>ol_ovl := (ol_ovl s)(a := None)\<rparr>))"

text \<open>\<open>if (p) { if (p->rle) free (p->rle); free (p); }\<close>\<close>

definition free_with_rle :: "nat option \<Rightarrow> overlays \<Rightarrow> overlays outcome" where
  "free_with_rle p s =
     (case p of None \<Rightarrow> Ret s
      | Some a \<Rightarrow>
          obind (ovl_at a s) (\<lambda>v.
          obind (free_rle (ov_rle v) s) (\<lambda>s1.
          free_ovl a s1)))"

definition free_without_rle :: "nat option \<Rightarrow> overlays \<Rightarrow> overlays outcome" where
  "free_without_rle p s = (case p of None \<Rightarrow> Ret s | Some a \<Rightarrow> free_ovl a s)"

section \<open>Slots and objects\<close>

definition slot_at :: "nat \<Rightarrow> overlays \<Rightarrow> ov_slot outcome" where
  "slot_at n s = aget (ol_events s) n"

definition event_in :: "nat \<Rightarrow> overlays \<Rightarrow> ov_event outcome" where
  "event_in n s = obind (slot_at n s) (\<lambda>sl. of_opt (sl_event sl))"

definition set_next :: "nat \<Rightarrow> nat \<Rightarrow> overlays \<Rightarrow> overlays outcome" where
  "set_next n v s =
     obind (slot_at n s) (\<lambda>sl. Ret (s\<lparr>ol_events := (ol_events s)[n := sl\<lparr>sl_next := v\<rparr>]\<rparr>))"

definition set_event :: "nat \<Rightarrow> ov_event \<Rightarrow> overlays \<Rightarrow> overlays outcome" where
  "set_event n e s =
     obind (slot_at n s) (\<lambda>sl. Ret (s\<lparr>ol_events := (ol_events s)[n := sl\<lparr>sl_event := Some e\<rparr>]\<rparr>))"

definition object_at :: "int \<Rightarrow> overlays \<Rightarrow> ov_object outcome" where
  "object_at h s = (if h < 0 then Fault else aget (ol_objects s) (nat h))"

definition set_object :: "int \<Rightarrow> ov_object \<Rightarrow> overlays \<Rightarrow> overlays" where
  "set_object h ob s = s\<lparr>ol_objects := (ol_objects s)[nat h := ob]\<rparr>"

section \<open>Showing\<close>

text \<open>The first index whose entry satisfies \<open>P\<close>, as the search loops find it.\<close>

fun first_index :: "('a \<Rightarrow> bool) \<Rightarrow> 'a list \<Rightarrow> nat option" where
  "first_index P [] = None"
| "first_index P (x # xs) = (if P x then Some 0 else map_option Suc (first_index P xs))"

definition add_showing_handle :: "int \<Rightarrow> overlays \<Rightarrow> overlays" where
  "add_showing_handle handle s =
     (let s1 = s\<lparr>ol_changed := ol_changed s + 1\<rparr> in
      case first_index (\<lambda>h. h = handle) (ol_showing s1) of
        Some _ \<Rightarrow> s1
      | None \<Rightarrow>
          (case first_index (\<lambda>h. h < 0) (ol_showing s1) of
             Some i \<Rightarrow> s1\<lparr>ol_showing := (ol_showing s1)[i := handle]\<rparr>
           | None \<Rightarrow> s1))"

definition remove_showing_handle :: "int \<Rightarrow> overlays \<Rightarrow> overlays" where
  "remove_showing_handle handle s =
     s\<lparr>ol_changed := ol_changed s + 1, ol_showing := map (\<lambda>h. if h = handle then - 1 else h) (ol_showing s)\<rparr>"

section \<open>The event chain\<close>

text \<open>
  \<open>remove_events_handle\<close>: \<open>last_event\<close> stays while the event behind it is removed, and moves on
  otherwise.
\<close>

definition unlink_event :: "nat \<Rightarrow> nat \<Rightarrow> overlays \<Rightarrow> overlays outcome" where
  "unlink_event last_event this_event s =
     obind (slot_at this_event s) (\<lambda>sl.
     obind (set_next last_event (sl_next sl) s) (\<lambda>s1.
     obind (event_in this_event s1) (\<lambda>e.
     obind (free_with_rle (oe_overlay e) s1) (\<lambda>s2.
     obind (set_next this_event 0 s2) (\<lambda>s3.
     set_event this_event (e\<lparr>oe_overlay := None, oe_type := OVERLAY_EVENT_NULL\<rparr>) s3)))))"

fun remove_loop :: "nat \<Rightarrow> int \<Rightarrow> nat \<Rightarrow> overlays \<Rightarrow> overlays outcome" where
  "remove_loop 0 handle last_event s = Spin"
| "remove_loop (Suc k) handle last_event s =
     obind (slot_at last_event s) (\<lambda>sl.
     if sl_next sl = 0 then Ret s
     else
       obind (event_in (sl_next sl) s) (\<lambda>e.
       if oe_handle e = handle
       then obind (unlink_event last_event (sl_next sl) s) (\<lambda>s1. remove_loop k handle last_event s1)
       else remove_loop k handle (sl_next sl) s))"

definition remove_events_handle :: "nat \<Rightarrow> int \<Rightarrow> overlays \<Rightarrow> overlays outcome" where
  "remove_events_handle k handle s = remove_loop k handle 0 s"

section \<open>Handles\<close>

definition video_overlay_get_handle :: "int \<Rightarrow> overlays \<Rightarrow> int \<times> overlays" where
  "video_overlay_get_handle object_type s =
     (case first_index (\<lambda>ob. \<not> ob_handle ob > - 1) (ol_objects s) of
        None \<Rightarrow> (- 1, s)
      | Some n \<Rightarrow>
          (int n, s\<lparr>ol_objects := (ol_objects s)[n := (ol_objects s ! n)\<lparr>ob_handle := int n, ob_object_type := object_type\<rparr>]\<rparr>))"

definition internal_video_overlay_free_handle :: "int \<Rightarrow> overlays \<Rightarrow> overlays outcome" where
  "internal_video_overlay_free_handle handle s =
     obind (object_at handle s) (\<lambda>ob.
     obind (free_with_rle (ob_overlay ob) s) (\<lambda>s1.
     Ret (set_object handle (ob\<lparr>ob_overlay := None, ob_handle := - 1\<rparr>) s1)))"

definition video_overlay_free_handle :: "nat \<Rightarrow> int \<Rightarrow> overlays \<Rightarrow> overlays outcome" where
  "video_overlay_free_handle k handle s =
     obind (remove_events_handle k handle (remove_showing_handle handle s)) (\<lambda>s1.
     internal_video_overlay_free_handle handle s1)"

text \<open>\<open>for (i = 0; i < n; i++) internal_video_overlay_free_handle (this, i)\<close>\<close>

fun free_handles :: "nat \<Rightarrow> overlays \<Rightarrow> overlays outcome" where
  "free_handles 0 s = Ret s"
| "free_handles (Suc n) s = obind (free_handles n s) (\<lambda>s1. internal_video_overlay_free_handle (int n) s1)"

text \<open>\<open>xine_xmalloc\<close> zeroes a new event.\<close>

definition video_overlay_reset :: "overlays \<Rightarrow> overlays outcome" where
  "video_overlay_reset s =
     obind (free_handles MAX_OBJECTS
       (s\<lparr>ol_events := map (\<lambda>sl.
            \<lparr>sl_event = Some ((case sl_event sl of None \<Rightarrow> \<lparr>oe_type = 0, oe_vpts = 0, oe_handle = 0, oe_pts = 0, oe_overlay = None\<rparr>
                              | Some e \<Rightarrow> e)\<lparr>oe_type := 0\<rparr>), sl_next = 0\<rparr>) (ol_events s)\<rparr>)) (\<lambda>s1.
     Ret (s1\<lparr>ol_showing := replicate MAX_SHOWING (- 1), ol_changed := 0\<rparr>))"

definition video_overlay_init :: "overlays \<Rightarrow> overlays outcome" where
  "video_overlay_init s = video_overlay_reset s"

text \<open>The new manager is zeroed: no event is allocated.\<close>

definition video_overlay_new_manager :: overlays where
  "video_overlay_new_manager =
     \<lparr>ol_events = replicate MAX_EVENTS \<lparr>sl_event = None, sl_next = 0\<rparr>,
      ol_objects = replicate MAX_OBJECTS \<lparr>ob_handle = 0, ob_object_type = 0, ob_pts = 0, ob_overlay = None\<rparr>,
      ol_showing = replicate MAX_SHOWING 0, ol_changed = 0, ol_ovl = Map.empty, ol_fresh = 0, ol_rle = {}\<rparr>"

section \<open>Adding an event\<close>

text \<open>
  The event of the caller: its overlay is the caller's own, which is cleared when it is taken.
\<close>

record caller_event =
  ce_type :: nat
  ce_vpts :: int
  ce_handle :: int
  ce_pts :: int
  ce_overlay :: "vo_overlay option"

text \<open>A free slot from \<open>n\<close> on: reading the type dereferences the event.\<close>

fun find_free :: "nat \<Rightarrow> nat \<Rightarrow> overlays \<Rightarrow> nat outcome" where
  "find_free 0 n s = Ret n"
| "find_free (Suc k) n s =
     obind (event_in n s) (\<lambda>e. if oe_type e > 0 then find_free k (n + 1) s else Ret n)"

text \<open>Where to insert: the last event whose time is not after the new one's, and the next.\<close>

fun find_place :: "nat \<Rightarrow> int \<Rightarrow> nat \<Rightarrow> overlays \<Rightarrow> (nat \<times> nat) outcome" where
  "find_place 0 vpts last_event s = Spin"
| "find_place (Suc k) vpts last_event s =
     obind (slot_at last_event s) (\<lambda>sl.
     if sl_next sl = 0 then Ret (last_event, 0)
     else
       obind (event_in (sl_next sl) s) (\<lambda>e.
       if oe_vpts e \<le> vpts then find_place k vpts (sl_next sl) s else Ret (last_event, sl_next sl)))"

definition take_overlay :: "vo_overlay option \<Rightarrow> overlays \<Rightarrow> nat option \<times> overlays" where
  "take_overlay ov s =
     (case ov of None \<Rightarrow> (None, s)
      | Some v \<Rightarrow> (Some (ol_fresh s), s\<lparr>ol_ovl := (ol_ovl s)(ol_fresh s \<mapsto> v), ol_fresh := ol_fresh s + 1\<rparr>))"

definition video_overlay_add_event :: "nat \<Rightarrow> caller_event \<Rightarrow> overlays \<Rightarrow> (int \<times> caller_event \<times> overlays) outcome" where
  "video_overlay_add_event k ev s =
     obind (find_free (MAX_EVENTS - 1) 1 s) (\<lambda>new_event.
     if new_event < MAX_EVENTS then
       obind (find_place k (ce_vpts ev) 0 s) (\<lambda>(last_event, this_event).
       obind (set_next last_event new_event s) (\<lambda>s1.
       obind (set_next new_event this_event s1) (\<lambda>s2.
       (let (a, s3) = take_overlay (ce_overlay ev) s2 in
        obind (set_event new_event \<lparr>oe_type = ce_type ev, oe_vpts = ce_vpts ev, oe_handle = ce_handle ev,
                 oe_pts = ce_pts ev, oe_overlay = a\<rparr> s3) (\<lambda>s4.
        Ret (int new_event, ev\<lparr>ce_overlay := map_option (\<lambda>_. no_overlay) (ce_overlay ev)\<rparr>, s4))))))
     else Ret (- 1, ev, s))"

section \<open>Processing the events\<close>

definition show_event :: "nat \<Rightarrow> int \<Rightarrow> ov_event \<Rightarrow> overlays \<Rightarrow> overlays outcome" where
  "show_event this_event handle e s =
     (if oe_overlay e \<noteq> None then
        obind (object_at handle s) (\<lambda>ob.
        obind (free_with_rle (ob_overlay ob) s) (\<lambda>s1.
        obind (set_event this_event (e\<lparr>oe_overlay := None\<rparr>)
                (set_object handle (ob\<lparr>ob_handle := handle, ob_overlay := oe_overlay e, ob_pts := oe_pts e\<rparr>) s1)) (\<lambda>s2.
        Ret (add_showing_handle handle s2))))
      else Ret s)"

definition hide_event :: "nat \<Rightarrow> int \<Rightarrow> ov_event \<Rightarrow> overlays \<Rightarrow> overlays outcome" where
  "hide_event this_event handle e s =
     obind (free_without_rle (oe_overlay e) s) (\<lambda>s1.
     obind (set_event this_event (e\<lparr>oe_overlay := None\<rparr>) s1) (\<lambda>s2.
     Ret (remove_showing_handle handle s2)))"

definition free_handle_event :: "nat \<Rightarrow> nat \<Rightarrow> int \<Rightarrow> ov_event \<Rightarrow> overlays \<Rightarrow> overlays outcome" where
  "free_handle_event k this_event handle e s =
     obind (free_without_rle (oe_overlay e) s) (\<lambda>s1.
     obind (set_event this_event (e\<lparr>oe_overlay := None, oe_handle := - 1\<rparr>) s1) (\<lambda>s2.
     obind (remove_events_handle k handle (remove_showing_handle handle s2)) (\<lambda>s3.
     internal_video_overlay_free_handle handle s3)))"

text \<open>The clip of the event's overlay goes to the object's; four entries of the palettes.\<close>

definition copy_clip :: "vo_overlay \<Rightarrow> vo_overlay \<Rightarrow> vo_overlay" where
  "copy_clip ev v = v\<lparr>ov_clip_top := ov_clip_top ev, ov_clip_bottom := ov_clip_bottom ev,
     ov_clip_left := ov_clip_left ev, ov_clip_right := ov_clip_right ev,
     ov_clip_color := take 4 (ov_clip_color ev) @ drop 4 (ov_clip_color v),
     ov_clip_trans := take 4 (ov_clip_trans ev) @ drop 4 (ov_clip_trans v),
     ov_clip_rgb_clut := ov_clip_rgb_clut ev\<rparr>"

definition button_clip :: "int \<Rightarrow> ov_event \<Rightarrow> overlays \<Rightarrow> overlays outcome" where
  "button_clip handle e s =
     (case oe_overlay e of
        None \<Rightarrow> Ret s
      | Some a \<Rightarrow>
          obind (object_at handle s) (\<lambda>ob.
          case ob_overlay ob of
            None \<Rightarrow> Ret s
          | Some b \<Rightarrow>
              obind (ovl_at a s) (\<lambda>ev.
              obind (ovl_at b s) (\<lambda>v.
              Ret (add_showing_handle handle
                (set_object handle (ob\<lparr>ob_handle := handle\<rparr>) (s\<lparr>ol_ovl := (ol_ovl s)(b \<mapsto> copy_clip ev v)\<rparr>)))))))"

text \<open>After it the event's overlay is dereferenced without a test.\<close>

definition button_event :: "nat \<Rightarrow> int \<Rightarrow> ov_event \<Rightarrow> overlays \<Rightarrow> overlays outcome" where
  "button_event this_event handle e s =
     obind (button_clip handle e s) (\<lambda>s1.
     obind (of_opt (oe_overlay e)) (\<lambda>a.
     obind (ovl_at a s1) (\<lambda>ev.
     obind (free_rle (ov_rle ev) s1) (\<lambda>s2.
     obind (free_ovl a s2) (\<lambda>s3.
     set_event this_event (e\<lparr>oe_overlay := None\<rparr>) s3)))))"

definition process_event :: "nat \<Rightarrow> nat \<Rightarrow> overlays \<Rightarrow> overlays outcome" where
  "process_event k this_event s =
     obind (event_in this_event s) (\<lambda>e.
     (let handle = oe_handle e in
      if oe_type e = OVERLAY_EVENT_SHOW then show_event this_event handle e s
      else if oe_type e = OVERLAY_EVENT_HIDE then hide_event this_event handle e s
      else if oe_type e = OVERLAY_EVENT_FREE_HANDLE then free_handle_event k this_event handle e s
      else if oe_type e = OVERLAY_EVENT_MENU_BUTTON then button_event this_event handle e s
      else Ret s))"

definition drop_event :: "nat \<Rightarrow> overlays \<Rightarrow> overlays outcome" where
  "drop_event this_event s =
     obind (slot_at this_event s) (\<lambda>sl.
     obind (set_next 0 (sl_next sl) s) (\<lambda>s1.
     obind (set_next this_event 0 s1) (\<lambda>s2.
     obind (event_in this_event s2) (\<lambda>e.
     set_event this_event (e\<lparr>oe_type := 0\<rparr>) s2))))"

fun event_loop :: "nat \<Rightarrow> int \<Rightarrow> int \<Rightarrow> overlays \<Rightarrow> (int \<times> overlays) outcome" where
  "event_loop 0 vpts processed s = Spin"
| "event_loop (Suc k) vpts processed s =
     obind (slot_at 0 s) (\<lambda>sl.
     if sl_next sl = 0 then Ret (processed, s)
     else
       obind (event_in (sl_next sl) s) (\<lambda>e.
       if vpts > oe_vpts e \<or> vpts = 0 then
         obind (process_event (Suc k) (sl_next sl) s) (\<lambda>s1.
         obind (drop_event (sl_next sl) s1) (\<lambda>s2.
         event_loop k vpts (processed + 1) s2))
       else Ret (processed, s)))"

definition video_overlay_event :: "nat \<Rightarrow> int \<Rightarrow> overlays \<Rightarrow> (int \<times> overlays) outcome" where
  "video_overlay_event k vpts s = event_loop k vpts 0 s"

definition video_overlay_flush_events :: "nat \<Rightarrow> overlays \<Rightarrow> overlays outcome" where
  "video_overlay_flush_events k s = obind (video_overlay_event k 0 s) (\<lambda>(_, s1). Ret s1)"

definition video_overlay_redraw_needed :: "nat \<Rightarrow> int \<Rightarrow> overlays \<Rightarrow> (int \<times> overlays) outcome" where
  "video_overlay_redraw_needed k vpts s =
     obind (video_overlay_event k vpts s) (\<lambda>(_, s1). Ret (ol_changed s1, s1))"

section \<open>Blending\<close>

text \<open>The calls of the video driver, each made if the driver has the function.\<close>

datatype blend_call = Overlay_begin int | Overlay_blend "nat option" | Overlay_end

fun blend_showing :: "int list \<Rightarrow> overlays \<Rightarrow> blend_call list outcome" where
  "blend_showing [] s = Ret []"
| "blend_showing (h # hs) s =
     (if h \<ge> 0 then
        obind (object_at h s) (\<lambda>ob.
        obind (blend_showing hs s) (\<lambda>cs. Ret (Overlay_blend (ob_overlay ob) # cs)))
      else blend_showing hs s)"

definition video_overlay_multiple_overlay_blend ::
  "nat \<Rightarrow> bool \<times> bool \<times> bool \<Rightarrow> int \<Rightarrow> bool \<Rightarrow> overlays \<Rightarrow> (blend_call list \<times> overlays) outcome" where
  "video_overlay_multiple_overlay_blend k has vpts enabled s =
     (let (has_begin, has_blend, has_end) = has in
      obind (video_overlay_event k vpts s) (\<lambda>(_, s1).
      obind (if enabled \<and> has_blend then blend_showing (ol_showing s1) s1 else Ret []) (\<lambda>cs.
      Ret ((if has_begin then [Overlay_begin (ol_changed s1)] else []) @ cs @ (if has_end then [Overlay_end] else []),
           s1\<lparr>ol_changed := 0\<rparr>))))"

section \<open>Disposing\<close>

fun free_overlays :: "nat option list \<Rightarrow> overlays \<Rightarrow> overlays outcome" where
  "free_overlays [] s = Ret s"
| "free_overlays (p # ps) s = obind (free_with_rle p s) (\<lambda>s1. free_overlays ps s1)"

definition video_overlay_dispose :: "overlays \<Rightarrow> overlays outcome" where
  "video_overlay_dispose s =
     obind (free_overlays (map (\<lambda>sl. case sl_event sl of None \<Rightarrow> None | Some e \<Rightarrow> oe_overlay e) (ol_events s)) s) (\<lambda>s1.
     free_overlays (map ob_overlay (ol_objects s1)) s1)"

end
