(* ===== verification/Overlay_Heap.thy ===== *)
theory Overlay_Heap
  imports Overlay Chain
begin

text \<open>
  The slots and the heap of the overlay manager: which slot or object holds which overlay, that no
  two hold the same, that no two overlays share run-length data, and what freeing, moving and
  allocating an overlay does; the chain of the slots in use, and the removal of the events of a
  handle.
\<close>

section \<open>The chain of slots\<close>

definition idx_ptr :: "nat \<Rightarrow> nat ptr" where
  "idx_ptr n = (if n = 0 then None else Some n)"

definition nexts :: "ov_slot list \<Rightarrow> nat \<Rightarrow> nat ptr option" where
  "nexts evs n = (if n < length evs then Some (idx_ptr (sl_next (evs ! n))) else None)"

lemma nexts_set_next:
  "n < length evs \<Longrightarrow> nexts (evs[n := sl\<lparr>sl_next := v\<rparr>]) = (nexts evs)(n := Some (idx_ptr v))"
  by (auto simp: nexts_def fun_eq_iff nth_list_update)

lemma nexts_set_event:
  "n < length evs \<Longrightarrow> nexts (evs[n := (evs ! n)\<lparr>sl_event := e\<rparr>]) = nexts evs"
  by (auto simp: nexts_def fun_eq_iff nth_list_update)

section \<open>Who holds which overlay\<close>

text \<open>Two keys of the map never share a value.\<close>

definition inj_map :: "('a \<rightharpoonup> 'b) \<Rightarrow> bool" where
  "inj_map m \<longleftrightarrow> (\<forall>x y a. m x = Some a \<and> m y = Some a \<longrightarrow> x = y)"

lemma inj_mapD: "inj_map m \<Longrightarrow> m x = Some a \<Longrightarrow> m y = Some a \<Longrightarrow> x = y"
  unfolding inj_map_def by blast

lemma inj_map_drop: "inj_map m \<Longrightarrow> inj_map (m(x := None))"
  unfolding inj_map_def by auto

lemma inj_map_add: "inj_map m \<Longrightarrow> a \<notin> ran m \<Longrightarrow> inj_map (m(x := Some a))"
  unfolding inj_map_def ran_def by auto

lemma ran_drop:
  assumes "inj_map m"
  shows "ran (m(x := None)) = ran m - set_option (m x)"
proof (rule set_eqI)
  fix b
  have "(\<exists>y. y \<noteq> x \<and> m y = Some b) \<longleftrightarrow> (\<exists>y. m y = Some b) \<and> m x \<noteq> Some b"
    using inj_mapD [OF assms] by metis
  then show "b \<in> ran (m(x := None)) \<longleftrightarrow> b \<in> ran m - set_option (m x)"
    by (auto simp: ran_def)
qed

lemma ran_add: "m x = None \<Longrightarrow> ran (m(x := w)) = set_option w \<union> ran m"
  by (cases w) (simp_all add: fun_upd_idem)

text \<open>The run-length data of each overlay.\<close>

definition rle_of :: "(nat \<rightharpoonup> vo_overlay) \<Rightarrow> nat \<rightharpoonup> nat" where
  "rle_of H a = (case H a of None \<Rightarrow> None | Some v \<Rightarrow> ov_rle v)"

lemma rle_of_simps [simp]:
  "rle_of (H(a := None)) = (rle_of H)(a := None)"
  "rle_of (H(a := Some v)) = (rle_of H)(a := ov_rle v)"
  by (simp_all add: rle_of_def fun_eq_iff)

lemma rle_of_none: "H a = None \<Longrightarrow> rle_of H a = None"
  by (simp add: rle_of_def)

lemma rle_of_some: "H a = Some v \<Longrightarrow> rle_of H a = ov_rle v"
  by (simp add: rle_of_def)

text \<open>Holders are the slots (\<open>Inl\<close>) and the objects (\<open>Inr\<close>).\<close>

definition heap_ok :: "(nat + nat \<Rightarrow> nat option) \<Rightarrow> (nat \<rightharpoonup> vo_overlay) \<Rightarrow> nat set \<Rightarrow> nat \<Rightarrow> bool" where
  "heap_ok own H R fresh \<longleftrightarrow>
     inj_map own \<and> ran own = dom H \<and> (\<forall>a \<in> dom H. a < fresh) \<and> inj_map (rle_of H) \<and> ran (rle_of H) \<subseteq> R"

lemma heap_held: "heap_ok own H R f \<Longrightarrow> own x = Some a \<Longrightarrow> \<exists>v. H a = Some v"
  unfolding heap_ok_def by (metis domD ranI)

lemma heap_rle: "heap_ok own H R f \<Longrightarrow> H a = Some v \<Longrightarrow> ov_rle v = Some b \<Longrightarrow> b \<in> R"
  unfolding heap_ok_def by (metis rle_of_some ranI subsetD)

lemma heap_drop:
  assumes "heap_ok own H R f" and "own x = Some a" and "H a = Some v"
  shows "heap_ok (own(x := None)) (H(a := None)) (R - set_option (ov_rle v)) f"
  using assms unfolding heap_ok_def by (auto simp: ran_drop inj_map_drop rle_of_some)

lemma heap_none: "heap_ok own H R f \<Longrightarrow> own x = None \<Longrightarrow> heap_ok (own(x := None)) H R f"
  by (simp add: fun_upd_idem)

lemma heap_move:
  assumes "heap_ok own H R f" and "own x = Some a" and "own y = None"
  shows "heap_ok (own(x := None, y := Some a)) H R f"
proof -
  have h: "inj_map own" "ran own = dom H" using assms(1) by (simp_all add: heap_ok_def)
  have r: "ran (own(x := None)) = ran own - {a}" using ran_drop [OF h(1)] assms(2) by simp
  have "a \<in> ran own" using assms(2) by (rule ranI)
  then have "ran (own(x := None, y := Some a)) = ran own"
    using assms(3) r by (subst ran_add) auto
  moreover have "inj_map (own(x := None, y := Some a))"
    using inj_map_add [OF inj_map_drop [OF h(1)]] r by simp
  ultimately show ?thesis using assms(1) unfolding heap_ok_def by simp
qed

lemma heap_new:
  assumes "heap_ok own H R f" and "own x = None" and "set_option (ov_rle v) \<subseteq> R - ran (rle_of H)"
  shows "heap_ok (own(x := Some f)) (H(f \<mapsto> v)) R (f + 1)"
proof -
  have h: "inj_map own" "ran own = dom H" "\<forall>a \<in> dom H. a < f" "inj_map (rle_of H)" "ran (rle_of H) \<subseteq> R"
    using assms(1) by (simp_all add: heap_ok_def)
  have nf: "H f = None" using h(3) by (metis domIff less_irrefl)
  have "ran (own(x := Some f)) = dom (H(f \<mapsto> v))" using ran_add [of own x "Some f"] assms(2) h(2) by simp
  moreover have "inj_map (own(x := Some f))" using inj_map_add [OF h(1)] h(2) nf by (simp add: domIff)
  moreover have "inj_map (rle_of (H(f \<mapsto> v)))"
  proof (cases "ov_rle v")
    case None then show ?thesis using h(4) by (simp add: inj_map_drop)
  next
    case (Some b) then show ?thesis using inj_map_add [OF h(4)] assms(3) by simp
  qed
  moreover have "ran (rle_of (H(f \<mapsto> v))) \<subseteq> R"
    using ran_add [of "rle_of H" f "ov_rle v"] rle_of_none [of H f] nf h(5) assms(3) by auto
  moreover have "\<forall>a \<in> dom (H(f \<mapsto> v)). a < f + 1" using h(3) by (auto intro: less_SucI)
  ultimately show ?thesis unfolding heap_ok_def by blast
qed

text \<open>Changing an overlay without its run-length data.\<close>

lemma heap_change:
  assumes "heap_ok own H R f" and "H a = Some v" and "ov_rle v' = ov_rle v"
  shows "heap_ok own (H(a \<mapsto> v')) R f"
proof -
  have "rle_of (H(a \<mapsto> v')) = rle_of H" using assms(2,3) by (auto simp: rle_of_def)
  moreover have "dom (H(a \<mapsto> v')) = dom H" using assms(2) by auto
  ultimately show ?thesis using assms(1) unfolding heap_ok_def by metis
qed

text \<open>What a holder holds, as a value.\<close>

definition hval :: "('x \<Rightarrow> nat option) \<Rightarrow> (nat \<rightharpoonup> vo_overlay) \<Rightarrow> 'x \<Rightarrow> vo_overlay option" where
  "hval own H x = (case own x of None \<Rightarrow> None | Some a \<Rightarrow> H a)"

lemma hval_drop:
  assumes "inj_map own" and "own x = Some a"
  shows "hval (own(x := None)) (H(a := None)) = (hval own H)(x := None)"
proof (rule ext)
  fix y show "hval (own(x := None)) (H(a := None)) y = ((hval own H)(x := None)) y"
    using inj_mapD [OF assms(1) assms(2), of y] by (auto simp: hval_def split: option.splits)
qed

lemma hval_none: "own x = None \<Longrightarrow> hval own H = (hval own H)(x := None)"
  by (auto simp: hval_def fun_eq_iff)

lemma hval_move: "own x = Some a \<Longrightarrow> x \<noteq> y \<Longrightarrow> hval (own(x := None, y := Some a)) H = (hval own H)(x := None, y := H a)"
  by (auto simp: hval_def fun_eq_iff)

lemma hval_new: "heap_ok own H R f \<Longrightarrow> hval (own(x := Some f)) (H(f \<mapsto> v)) = (hval own H)(x := Some v)"
proof (rule ext)
  fix y assume h: "heap_ok own H R f"
  have "own y \<noteq> Some f"
  proof
    assume "own y = Some f"
    then have "f \<in> dom H" using h ranI [of own y f] unfolding heap_ok_def by simp
    moreover have "\<forall>a \<in> dom H. a < f" using h unfolding heap_ok_def by simp
    ultimately have "f < f" by (rule bspec [rotated])
    then show False by simp
  qed
  then show "hval (own(x := Some f)) (H(f \<mapsto> v)) y = ((hval own H)(x := Some v)) y"
    by (auto simp: hval_def split: option.splits)
qed

lemma hval_change:
  assumes "inj_map own" and "own x = Some a"
  shows "hval own (H(a \<mapsto> v)) = (hval own H)(x := Some v)"
proof (rule ext)
  fix y show "hval own (H(a \<mapsto> v)) y = ((hval own H)(x := Some v)) y"
  proof (cases "y = x")
    case True
    then show ?thesis using assms(2) by (simp add: hval_def)
  next
    case False
    then have "own y \<noteq> Some a" using inj_mapD [OF assms(1) assms(2)] by blast
    then show ?thesis using False by (simp add: hval_def split: option.splits)
  qed
qed

lemma heap_inj: "heap_ok own H R f \<Longrightarrow> inj_map own"
  by (simp add: heap_ok_def)

lemma hval_held: "heap_ok own H R f \<Longrightarrow> (hval own H x = None) = (own x = None)"
  using heap_held [of own H R f x] by (auto simp: hval_def split: option.splits)

section \<open>Well-formed slots\<close>

definition ev_at :: "ov_slot list \<Rightarrow> nat \<Rightarrow> ov_event" where
  "ev_at evs n = the (sl_event (evs ! n))"

text \<open>
  The chain \<open>cs\<close>: every slot has an event, the slots in use are those of the chain, and only
  they have an overlay.
\<close>

definition chain_ok :: "ov_slot list \<Rightarrow> nat list \<Rightarrow> bool" where
  "chain_ok evs cs \<longleftrightarrow>
     length evs = MAX_EVENTS \<and> (\<forall>n < MAX_EVENTS. sl_event (evs ! n) \<noteq> None) \<and>
     lseg (nexts evs) (Some 0) (0 # cs) None \<and>
     (\<forall>n < MAX_EVENTS. 0 < n \<longrightarrow> (0 < oe_type (ev_at evs n)) = (n \<in> set cs)) \<and>
     (\<forall>n < MAX_EVENTS. n \<notin> set cs \<longrightarrow> oe_overlay (ev_at evs n) = None)"

lemma chain_len: "chain_ok evs cs \<Longrightarrow> length evs = MAX_EVENTS"
  by (simp add: chain_ok_def)

lemma chain_event: "chain_ok evs cs \<Longrightarrow> n < MAX_EVENTS \<Longrightarrow> sl_event (evs ! n) = Some (ev_at evs n)"
  by (simp add: chain_ok_def ev_at_def)

lemma chain_distinct: "chain_ok evs cs \<Longrightarrow> distinct (0 # cs)"
  unfolding chain_ok_def by (rule lseg_distinct) blast

lemma chain_bound: "chain_ok evs cs \<Longrightarrow> n \<in> set (0 # cs) \<Longrightarrow> n < MAX_EVENTS"
proof -
  assume c: "chain_ok evs cs" and n: "n \<in> set (0 # cs)"
  have l: "lseg (nexts evs) (Some 0) (0 # cs) None" and "length evs = MAX_EVENTS"
    using c unfolding chain_ok_def by simp_all
  have "nexts evs n \<noteq> None" by (rule lseg_allocated [OF l n])
  moreover note \<open>length evs = MAX_EVENTS\<close>
  ultimately show "n < MAX_EVENTS" by (simp add: nexts_def split: if_splits)
qed

lemma chain_pos: "chain_ok evs cs \<Longrightarrow> n \<in> set cs \<Longrightarrow> 0 < n"
  using chain_distinct [of evs cs] by (cases n) auto

lemma chain_length: assumes "chain_ok evs cs" shows "length cs < MAX_EVENTS"
proof -
  have "set (0 # cs) \<subseteq> {..< MAX_EVENTS}" using chain_bound [OF assms] by auto
  then have "card (set (0 # cs)) \<le> card {..< MAX_EVENTS}" by (rule card_mono [OF finite_lessThan])
  then show ?thesis using distinct_card [OF chain_distinct [OF assms]] by simp
qed

text \<open>What the walk reads: the next slot, 0 at the end.\<close>

lemma chain_next:
  assumes "chain_ok evs (xs @ ys)"
  shows "sl_next (evs ! last (0 # xs)) = (case ys of [] \<Rightarrow> 0 | y # _ \<Rightarrow> y)"
proof -
  define zs where "zs = butlast (0 # xs)"
  define a where "a = last (0 # xs)"
  have zs: "0 # xs = zs @ [a]" unfolding zs_def a_def by simp
  have l: "lseg (nexts evs) (Some 0) (0 # (xs @ ys)) None" using assms unfolding chain_ok_def by blast
  also have "0 # (xs @ ys) = zs @ a # ys" using zs by (metis append.assoc append_Cons append_Nil)
  finally have "nexts evs a = Some (case ys of [] \<Rightarrow> None | y # _ \<Rightarrow> Some y)" by (rule lseg_next)
  moreover have "0 < y" if "y \<in> set ys" for y using chain_pos [OF assms] that by simp
  ultimately have "sl_next (evs ! a) = (case ys of [] \<Rightarrow> 0 | y # _ \<Rightarrow> y)"
    by (auto simp: nexts_def idx_ptr_def split: if_splits list.splits)
  then show ?thesis by (simp only: a_def)
qed

lemma chain_last_bound: "chain_ok evs (xs @ ys) \<Longrightarrow> last (0 # xs) < MAX_EVENTS"
  by (rule chain_bound) (auto simp: last_in_set)

lemma chain_update:
  assumes "chain_ok evs cs" and "length evs' = MAX_EVENTS" and "lseg (nexts evs') (Some 0) (0 # cs') None"
    and "\<And>n. n < MAX_EVENTS \<Longrightarrow> sl_event (evs' ! n) = (if n = b then Some e else sl_event (evs ! n))"
    and "\<And>n. n \<noteq> b \<Longrightarrow> (n \<in> set cs') = (n \<in> set cs)"
    and "0 < b \<Longrightarrow> (0 < oe_type e) = (b \<in> set cs')" and "b \<notin> set cs' \<Longrightarrow> oe_overlay e = None"
  shows "chain_ok evs' cs'"
proof -
  note h = assms(1) [unfolded chain_ok_def]
  have e: "ev_at evs' n = (if n = b then e else ev_at evs n)" if "n < MAX_EVENTS" for n
    using assms(4) [OF that] by (simp add: ev_at_def)
  have "sl_event (evs' ! n) \<noteq> None" if "n < MAX_EVENTS" for n using assms(4) [OF that] h that by simp
  moreover have "(0 < oe_type (ev_at evs' n)) = (n \<in> set cs')" if "n < MAX_EVENTS" "0 < n" for n
    using e [OF that(1)] h that assms(5) [of n] assms(6) by auto
  moreover have "oe_overlay (ev_at evs' n) = None" if "n < MAX_EVENTS" "n \<notin> set cs'" for n
    using e [OF that(1)] h that assms(5) [of n] assms(7) by auto
  ultimately show ?thesis unfolding chain_ok_def using assms(2,3) by blast
qed

text \<open>Another event in a slot of the chain.\<close>

lemma chain_set:
  assumes "chain_ok evs cs" and "n \<in> set cs" and "0 < oe_type e"
  shows "chain_ok (evs[n := (evs ! n)\<lparr>sl_event := Some e\<rparr>]) cs"
proof (rule chain_update [OF assms(1)])
  have n: "n < length evs" using chain_bound [OF assms(1), of n] assms(2) chain_len [OF assms(1)] by simp
  then show "lseg (nexts (evs[n := (evs ! n)\<lparr>sl_event := Some e\<rparr>])) (Some 0) (0 # cs) None"
    using assms(1) unfolding chain_ok_def by (simp add: nexts_set_event)
  show "sl_event (evs[n := (evs ! n)\<lparr>sl_event := Some e\<rparr>] ! m) = (if m = n then Some e else sl_event (evs ! m))" for m
    using n by (simp add: nth_list_update)
qed (use assms chain_len [OF assms(1)] in simp_all)

text \<open>Unlinking a slot and marking it as free.\<close>

lemma chain_unlink:
  assumes "chain_ok evs (xs @ b # ys)" and "oe_type e = 0" and "oe_overlay e = None"
  shows "chain_ok (evs[last (0 # xs) := (evs ! last (0 # xs))\<lparr>sl_next := sl_next (evs ! b)\<rparr>,
                       b := \<lparr>sl_event = Some e, sl_next = 0\<rparr>]) (xs @ ys)"
proof -
  define zs where "zs = butlast (0 # xs)"
  define a where "a = last (0 # xs)"
  have zs: "0 # xs = zs @ [a]" unfolding zs_def a_def by simp
  note h = assms(1) [unfolded chain_ok_def]
  have len: "length evs = MAX_EVENTS" using h by blast
  have ab: "a < length evs" "b < length evs" unfolding len a_def
    using chain_last_bound [OF assms(1)] chain_bound [OF assms(1), of b] by simp_all
  have d: "distinct (0 # xs @ b # ys)" by (rule chain_distinct [OF assms(1)])
  then have db: "b \<notin> set (0 # xs)" "b \<notin> set ys" by auto
  have ne: "a \<noteq> b" using db(1) unfolding a_def by (metis last_in_set list.distinct(1))
  have "lseg (nexts evs) (Some 0) (0 # (xs @ b # ys)) None" using h by blast
  also have "0 # (xs @ b # ys) = zs @ a # b # ys" using zs by (metis append.assoc append_Cons append_Nil)
  finally have "lseg ((nexts evs)(a := nexts evs b)) (Some 0) (zs @ a # ys) None" by (rule lseg_unlink)
  moreover have "zs @ a # ys = 0 # (xs @ ys)" using zs by (metis append.assoc append_Cons append_Nil)
  ultimately have l: "lseg ((nexts evs)(a := nexts evs b)) (Some 0) (0 # (xs @ ys)) None" by simp
  let ?evs = "evs[a := (evs ! a)\<lparr>sl_next := sl_next (evs ! b)\<rparr>, b := \<lparr>sl_event = Some e, sl_next = 0\<rparr>]"
  have "nexts ?evs n = ((nexts evs)(a := nexts evs b)) n" if "n \<in> set (0 # (xs @ ys))" for n
    using that db ab ne by (auto simp: nexts_def nth_list_update)
  then have "lseg (nexts ?evs) (Some 0) (0 # (xs @ ys)) None"
    using l lseg_cong [of "0 # (xs @ ys)" "nexts ?evs" "(nexts evs)(a := nexts evs b)" "Some 0" None] by blast
  moreover have "sl_event (?evs ! n) = (if n = b then Some e else sl_event (evs ! n))" if "n < MAX_EVENTS" for n
    using that ab len by (simp add: nth_list_update)
  ultimately have "chain_ok ?evs (xs @ ys)"
    by (intro chain_update [OF assms(1), of ?evs "xs @ ys" b e]) (use assms(2,3) db len in simp_all)
  then show ?thesis unfolding a_def .
qed

text \<open>Linking a free slot in.\<close>

lemma chain_insert:
  assumes "chain_ok evs (xs @ ys)" and "0 < b" and "b < MAX_EVENTS" and "b \<notin> set (xs @ ys)" and "0 < oe_type e"
  shows "chain_ok (evs[last (0 # xs) := (evs ! last (0 # xs))\<lparr>sl_next := b\<rparr>,
                       b := \<lparr>sl_event = Some e, sl_next = (case ys of [] \<Rightarrow> 0 | y # _ \<Rightarrow> y)\<rparr>]) (xs @ b # ys)"
proof -
  define zs where "zs = butlast (0 # xs)"
  define a where "a = last (0 # xs)"
  have zs: "0 # xs = zs @ [a]" unfolding zs_def a_def by simp
  note h = assms(1) [unfolded chain_ok_def]
  have len: "length evs = MAX_EVENTS" using h by blast
  have ab: "a < length evs" "b < length evs" unfolding len a_def
    using chain_last_bound [OF assms(1)] assms(3) by simp_all
  have db: "b \<notin> set (0 # xs)" "b \<notin> set ys" using assms(2,4) by auto
  have ne: "a \<noteq> b" using db(1) unfolding a_def by (metis last_in_set list.distinct(1))
  have l0: "lseg (nexts evs) (Some 0) (0 # (xs @ ys)) None" using h by blast
  also have e1: "0 # (xs @ ys) = zs @ a # ys" using zs by (metis append.assoc append_Cons append_Nil)
  finally have l1: "lseg (nexts evs) (Some 0) (zs @ a # ys) None" .
  have nb: "b \<notin> set (zs @ a # ys)" unfolding e1 [symmetric] using db by auto
  have e2: "zs @ a # b # ys = 0 # (xs @ b # ys)" using zs by (metis append.assoc append_Cons append_Nil)
  have l: "lseg ((nexts evs)(a := Some (Some b), b := nexts evs a)) (Some 0) (0 # (xs @ b # ys)) None"
    using lseg_link [OF l1 nb] unfolding e2 .
  let ?evs = "evs[a := (evs ! a)\<lparr>sl_next := b\<rparr>, b := \<lparr>sl_event = Some e, sl_next = (case ys of [] \<Rightarrow> 0 | y # _ \<Rightarrow> y)\<rparr>]"
  have "sl_next (evs ! a) = (case ys of [] \<Rightarrow> 0 | y # _ \<Rightarrow> y)" unfolding a_def by (rule chain_next [OF assms(1)])
  then have "nexts ?evs n = ((nexts evs)(a := Some (Some b), b := nexts evs a)) n" for n
    using ab ne assms(2) by (auto simp: nexts_def nth_list_update idx_ptr_def)
  then have "nexts ?evs = (nexts evs)(a := Some (Some b), b := nexts evs a)" by blast
  then have "lseg (nexts ?evs) (Some 0) (0 # (xs @ b # ys)) None" using l by simp
  moreover have "sl_event (?evs ! n) = (if n = b then Some e else sl_event (evs ! n))" if "n < MAX_EVENTS" for n
    using that ab len by (simp add: nth_list_update)
  ultimately have "chain_ok ?evs (xs @ b # ys)"
    by (intro chain_update [OF assms(1), of ?evs "xs @ b # ys" b e]) (use assms(5) len in simp_all)
  then show ?thesis unfolding a_def .
qed

section \<open>Well-formed states\<close>

definition own_of :: "ov_slot list \<Rightarrow> ov_object list \<Rightarrow> nat + nat \<Rightarrow> nat option" where
  "own_of evs obs x =
     (case x of Inl n \<Rightarrow> if n < length evs then oe_overlay (ev_at evs n) else None
      | Inr n \<Rightarrow> if n < length obs then ob_overlay (obs ! n) else None)"

lemma slot_next_event [simp]: "sl_event (evs[a := (evs ! a)\<lparr>sl_next := v\<rparr>] ! n) = sl_event (evs ! n)"
  by (cases "a < length evs") (simp_all add: nth_list_update list_update_beyond)

lemma slot_whole [simp]: "sl\<lparr>sl_next := v, sl_event := e\<rparr> = \<lparr>sl_event = e, sl_next = v\<rparr>"
  by (cases sl) simp

lemma own_next: "own_of (evs[n := (evs ! n)\<lparr>sl_next := v\<rparr>]) obs = own_of evs obs"
  by (auto simp: own_of_def fun_eq_iff ev_at_def split: sum.splits)

lemma own_event:
  "n < length evs \<Longrightarrow> own_of (evs[n := sl]) obs = (own_of evs obs)(Inl n := oe_overlay (the (sl_event sl)))"
  by (auto simp: own_of_def fun_eq_iff ev_at_def split: sum.splits)

lemma own_object: "n < length obs \<Longrightarrow> own_of evs (obs[n := ob]) = (own_of evs obs)(Inr n := ob_overlay ob)"
  by (auto simp: own_of_def fun_eq_iff split: sum.splits)

definition core :: "overlays \<Rightarrow> nat list \<Rightarrow> bool" where
  "core s cs \<longleftrightarrow>
     chain_ok (ol_events s) cs \<and> length (ol_objects s) = MAX_OBJECTS \<and> length (ol_showing s) = MAX_SHOWING \<and>
     heap_ok (own_of (ol_events s) (ol_objects s)) (ol_ovl s) (ol_rle s) (ol_fresh s)"

abbreviation evn :: "overlays \<Rightarrow> nat \<Rightarrow> ov_event" where
  "evn s n \<equiv> ev_at (ol_events s) n"

text \<open>The overlay a slot or an object holds.\<close>

definition val :: "overlays \<Rightarrow> nat + nat \<Rightarrow> vo_overlay option" where
  "val s = hval (own_of (ol_events s) (ol_objects s)) (ol_ovl s)"

lemma core_chain: "core s cs \<Longrightarrow> chain_ok (ol_events s) cs"
  by (simp add: core_def)

lemma core_len:
  "core s cs \<Longrightarrow> length (ol_events s) = MAX_EVENTS"
  "core s cs \<Longrightarrow> length (ol_objects s) = MAX_OBJECTS"
  "core s cs \<Longrightarrow> length (ol_showing s) = MAX_SHOWING"
  by (simp_all add: core_def chain_ok_def)

lemma core_heap: "core s cs \<Longrightarrow> heap_ok (own_of (ol_events s) (ol_objects s)) (ol_ovl s) (ol_rle s) (ol_fresh s)"
  by (simp add: core_def)

lemma core_event: "core s cs \<Longrightarrow> n \<in> set (0 # cs) \<Longrightarrow> sl_event (ol_events s ! n) = Some (evn s n)"
  using chain_event [OF core_chain] chain_bound [OF core_chain] by blast

lemma event_in_ok: "core s cs \<Longrightarrow> n < MAX_EVENTS \<Longrightarrow> event_in n s = Ret (evn s n)"
  using chain_event [OF core_chain] core_len(1) by (simp add: event_in_def slot_at_def)

lemma slot_at_ok: "core s cs \<Longrightarrow> n < MAX_EVENTS \<Longrightarrow> slot_at n s = Ret (ol_events s ! n)"
  using core_len(1) by (simp add: slot_at_def)

section \<open>Freeing an overlay\<close>

definition drop_ovl :: "nat option \<Rightarrow> overlays \<Rightarrow> overlays" where
  "drop_ovl p s =
     (case p of None \<Rightarrow> s
      | Some a \<Rightarrow> s\<lparr>ol_ovl := (ol_ovl s)(a := None), ol_rle := ol_rle s - set_option (rle_of (ol_ovl s) a)\<rparr>)"

lemma drop_ovl_fields [simp]:
  "ol_events (drop_ovl p s) = ol_events s" "ol_objects (drop_ovl p s) = ol_objects s"
  "ol_showing (drop_ovl p s) = ol_showing s" "ol_changed (drop_ovl p s) = ol_changed s"
  "ol_fresh (drop_ovl p s) = ol_fresh s"
  by (simp_all add: drop_ovl_def split: option.splits)

lemma drop_ovl_upd [simp]:
  "drop_ovl p (s\<lparr>ol_events := evs\<rparr>) = (drop_ovl p s)\<lparr>ol_events := evs\<rparr>"
  "drop_ovl p (s\<lparr>ol_objects := obs\<rparr>) = (drop_ovl p s)\<lparr>ol_objects := obs\<rparr>"
  by (simp_all add: drop_ovl_def split: option.splits)

lemma drop_ovl_heap:
  assumes "heap_ok own (ol_ovl s) (ol_rle s) f" and "own x = p"
  shows "heap_ok (own(x := None)) (ol_ovl (drop_ovl p s)) (ol_rle (drop_ovl p s)) f"
proof (cases p)
  case None
  then show ?thesis using heap_none [OF assms(1)] assms(2) by (simp add: drop_ovl_def)
next
  case (Some a)
  then obtain v where v: "ol_ovl s a = Some v" using heap_held [OF assms(1)] assms(2) by blast
  show ?thesis using heap_drop [OF assms(1) _ v] assms(2) Some v by (simp add: drop_ovl_def rle_of_some)
qed

lemma drop_ovl_val:
  assumes "heap_ok own (ol_ovl s) (ol_rle s) f" and "own x = p"
  shows "hval (own(x := None)) (ol_ovl (drop_ovl p s)) = (hval own (ol_ovl s))(x := None)"
proof (cases p)
  case None
  then show ?thesis using hval_none [of own x] assms(2) by (simp add: drop_ovl_def fun_upd_idem)
next
  case (Some a)
  then show ?thesis using hval_drop [OF heap_inj [OF assms(1)]] assms(2) by (simp add: drop_ovl_def)
qed

lemma free_with_rle_ok:
  assumes "heap_ok own (ol_ovl s) (ol_rle s) f" and "own x = p"
  shows "free_with_rle p s = Ret (drop_ovl p s)"
proof (cases p)
  case None
  then show ?thesis by (simp add: free_with_rle_def drop_ovl_def)
next
  case (Some a)
  then obtain v where v: "ol_ovl s a = Some v" using heap_held [OF assms(1)] assms(2) by blast
  show ?thesis
  proof (cases "ov_rle v")
    case None
    then show ?thesis using Some v
      by (simp add: free_with_rle_def drop_ovl_def ovl_at_def free_rle_def free_ovl_def rle_of_some)
  next
    case (Some b)
    then have "b \<in> ol_rle s" using heap_rle [OF assms(1) v] by blast
    then show ?thesis using \<open>p = Some a\<close> Some v
      by (simp add: free_with_rle_def drop_ovl_def ovl_at_def free_rle_def free_ovl_def rle_of_some)
  qed
qed

lemma free_without_rle_ok:
  assumes "heap_ok own (ol_ovl s) (ol_rle s) f" and "own x = p" and "\<And>a. p = Some a \<Longrightarrow> rle_of (ol_ovl s) a = None"
  shows "free_without_rle p s = Ret (drop_ovl p s)"
proof (cases p)
  case None
  then show ?thesis by (simp add: free_without_rle_def drop_ovl_def)
next
  case (Some a)
  then obtain v where v: "ol_ovl s a = Some v" using heap_held [OF assms(1)] assms(2) by blast
  show ?thesis using Some v assms(3) [OF Some] by (simp add: free_without_rle_def drop_ovl_def ovl_at_def free_ovl_def)
qed

section \<open>Unlinking\<close>

definition unlinked :: "nat \<Rightarrow> nat \<Rightarrow> overlays \<Rightarrow> overlays" where
  "unlinked a b s = (drop_ovl (oe_overlay (evn s b)) s)\<lparr>ol_events :=
     (ol_events s)[a := (ol_events s ! a)\<lparr>sl_next := sl_next (ol_events s ! b)\<rparr>,
        b := \<lparr>sl_event = Some ((evn s b)\<lparr>oe_overlay := None, oe_type := 0\<rparr>), sl_next = 0\<rparr>]\<rparr>"

lemma core_split:
  assumes "core s (xs @ b # ys)"
  shows "last (0 # xs) < MAX_EVENTS" "b < MAX_EVENTS" "0 < b" "last (0 # xs) \<noteq> b"
proof -
  note c = core_chain [OF assms]
  show "last (0 # xs) < MAX_EVENTS" by (rule chain_last_bound [OF c])
  show "b < MAX_EVENTS" using chain_bound [OF c] by simp
  show "0 < b" using chain_pos [OF c] by simp
  have "b \<notin> set (0 # xs)" using chain_distinct [OF c] by auto
  then show "last (0 # xs) \<noteq> b" by (metis last_in_set list.distinct(1))
qed

lemma unlinked_core:
  assumes "core s (xs @ b # ys)"
  shows "core (unlinked (last (0 # xs)) b s) (xs @ ys)" and "val (unlinked (last (0 # xs)) b s) = (val s)(Inl b := None)"
proof -
  have b: "b < length (ol_events s)" using core_split(2) [OF assms] core_len(1) [OF assms] by simp
  have o: "own_of (ol_events s) (ol_objects s) (Inl b) = oe_overlay (evn s b)" using b by (simp add: own_of_def)
  have "chain_ok (ol_events (unlinked (last (0 # xs)) b s)) (xs @ ys)"
    unfolding unlinked_def using chain_unlink [OF core_chain [OF assms]] by simp
  moreover have own: "own_of (ol_events (unlinked (last (0 # xs)) b s)) (ol_objects s) = (own_of (ol_events s) (ol_objects s))(Inl b := None)"
    unfolding unlinked_def using b by (simp add: own_event own_next)
  ultimately show "core (unlinked (last (0 # xs)) b s) (xs @ ys)"
    using drop_ovl_heap [OF core_heap [OF assms] o] core_len [OF assms] by (simp add: core_def unlinked_def)
  show "val (unlinked (last (0 # xs)) b s) = (val s)(Inl b := None)"
    using drop_ovl_val [OF core_heap [OF assms] o] own by (simp add: val_def unlinked_def)
qed

lemma unlink_event_ok:
  assumes "core s (xs @ b # ys)"
  shows "unlink_event (last (0 # xs)) b s = Ret (unlinked (last (0 # xs)) b s)"
proof -
  define a where "a = last (0 # xs)"
  note l = core_split [OF assms, folded a_def]
  have len: "length (ol_events s) = MAX_EVENTS" by (rule core_len(1) [OF assms])
  define s1 where "s1 = s\<lparr>ol_events := (ol_events s)[a := (ol_events s ! a)\<lparr>sl_next := sl_next (ol_events s ! b)\<rparr>]\<rparr>"
  have n: "set_next a (sl_next (ol_events s ! b)) s = Ret s1"
    using l len by (simp add: set_next_def slot_at_def s1_def)
  have se: "sl_event (ol_events s ! b) = Some (evn s b)" by (rule chain_event [OF core_chain [OF assms] l(2)])
  have e: "event_in b s1 = Ret (evn s b)" using l len se by (simp add: event_in_def slot_at_def s1_def)
  have "heap_ok (own_of (ol_events s) (ol_objects s)) (ol_ovl s1) (ol_rle s1) (ol_fresh s)"
    using core_heap [OF assms] by (simp add: s1_def)
  then have f: "free_with_rle (oe_overlay (evn s b)) s1 = Ret (drop_ovl (oe_overlay (evn s b)) s1)"
    by (rule free_with_rle_ok [where x = "Inl b"]) (simp add: own_of_def l len)
  show ?thesis unfolding unlink_event_def a_def [symmetric]
    using l len by (simp add: slot_at_ok [OF assms] n e f)
      (simp add: s1_def set_next_def set_event_def slot_at_def unlinked_def OVERLAY_EVENT_NULL_def)
qed

lemma unlinked_ev: "core s (xs @ b # ys) \<Longrightarrow> n \<noteq> b \<Longrightarrow> n < MAX_EVENTS \<Longrightarrow> evn (unlinked a b s) n = evn s n"
  by (simp add: unlinked_def ev_at_def core_len)

text \<open>What the removal of events leaves alone.\<close>

definition only_removed :: "overlays \<Rightarrow> overlays \<Rightarrow> bool" where
  "only_removed s s' \<longleftrightarrow> ol_objects s' = ol_objects s \<and> ol_showing s' = ol_showing s \<and> ol_changed s' = ol_changed s \<and>
     ol_fresh s' = ol_fresh s"

lemma only_removed_refl: "only_removed s s"
  by (simp add: only_removed_def)

lemma only_removed_trans: "only_removed s s1 \<Longrightarrow> only_removed s1 s2 \<Longrightarrow> only_removed s s2"
  unfolding only_removed_def by simp

lemma unlinked_removed: "only_removed s (unlinked a b s)"
  by (simp add: only_removed_def unlinked_def)

lemma remove_loop_ok:
  assumes "core s (xs @ ys)" and "length ys < k"
  shows "\<exists>s'. remove_loop k h (last (0 # xs)) s = Ret s' \<and> core s' (xs @ filter (\<lambda>n. oe_handle (evn s n) \<noteq> h) ys) \<and>
      (\<forall>n \<in> set xs \<union> {n \<in> set ys. oe_handle (evn s n) \<noteq> h}. evn s' n = evn s n) \<and> only_removed s s' \<and>
      val s' = (\<lambda>x. if x \<in> Inl ` {n \<in> set ys. oe_handle (evn s n) = h} then None else val s x)"
  using assms
proof (induction k arbitrary: xs ys s)
  case 0
  then show ?case by simp
next
  case (Suc k)
  define a where "a = last (0 # xs)"
  have sl: "slot_at a s = Ret (ol_events s ! a)" "sl_next (ol_events s ! a) = (case ys of [] \<Rightarrow> 0 | y # _ \<Rightarrow> y)"
    unfolding a_def using slot_at_ok [OF Suc.prems(1)] chain_last_bound [OF core_chain [OF Suc.prems(1)]]
      chain_next [OF core_chain [OF Suc.prems(1)]] by simp_all
  show ?case
  proof (cases ys)
    case Nil
    then have "remove_loop (Suc k) h a s = Ret s" using sl by simp
    then show ?thesis using Nil Suc.prems(1) unfolding a_def by (auto simp: only_removed_refl fun_eq_iff)
  next
    case (Cons y zs)
    note c = Suc.prems(1) [unfolded Cons]
    note l = core_split [OF c]
    have e: "event_in y s = Ret (evn s y)" by (rule event_in_ok [OF c l(2)])
    have d: "y \<notin> set (xs @ zs)" using chain_distinct [OF core_chain [OF c]] by auto
    have k: "length zs < k" using Suc.prems(2) Cons by simp
    show ?thesis
    proof (cases "oe_handle (evn s y) = h")
      case True
      define s1 where "s1 = unlinked a y s"
      have u: "unlink_event a y s = Ret s1" unfolding a_def s1_def by (rule unlink_event_ok [OF c])
      have c1: "core s1 (xs @ zs)" and v1: "val s1 = (val s)(Inl y := None)" unfolding a_def s1_def by (rule unlinked_core [OF c])+
      have same: "evn s1 n = evn s n" if "n \<in> set (xs @ zs)" for n
        unfolding s1_def using that d chain_bound [OF core_chain [OF c], of n] by (intro unlinked_ev [OF c]) auto
      obtain s2 where s2: "remove_loop k h a s1 = Ret s2" "core s2 (xs @ filter (\<lambda>n. oe_handle (evn s1 n) \<noteq> h) zs)"
        "\<forall>n \<in> set xs \<union> {n \<in> set zs. oe_handle (evn s1 n) \<noteq> h}. evn s2 n = evn s1 n" "only_removed s1 s2"
        "val s2 = (\<lambda>x. if x \<in> Inl ` {n \<in> set zs. oe_handle (evn s1 n) = h} then None else val s1 x)"
        using Suc.IH [OF c1 k] unfolding a_def by blast
      have "filter (\<lambda>n. oe_handle (evn s1 n) \<noteq> h) zs = filter (\<lambda>n. oe_handle (evn s n) \<noteq> h) ys"
        using same True Cons by (simp cong: filter_cong)
      moreover have "remove_loop (Suc k) h a s = Ret s2" using sl Cons l e True u s2(1) by simp
      moreover have "evn s2 n = evn s n" if "n \<in> set xs \<union> {n \<in> set ys. oe_handle (evn s n) \<noteq> h}" for n
        using that s2(3) same True Cons by auto
      moreover have "only_removed s s2" using only_removed_trans [OF _ s2(4)] unlinked_removed by (simp add: s1_def)
      moreover have "val s2 = (\<lambda>x. if x \<in> Inl ` {n \<in> set ys. oe_handle (evn s n) = h} then None else val s x)"
        unfolding s2(5) v1 using same True Cons by (auto simp: fun_eq_iff)
      ultimately show ?thesis using s2(2) unfolding a_def by (metis (no_types, lifting))
    next
      case False
      have c1: "core s ((xs @ [y]) @ zs)" using c by simp
      obtain s2 where s2: "remove_loop k h y s = Ret s2" "core s2 ((xs @ [y]) @ filter (\<lambda>n. oe_handle (evn s n) \<noteq> h) zs)"
        "\<forall>n \<in> set (xs @ [y]) \<union> {n \<in> set zs. oe_handle (evn s n) \<noteq> h}. evn s2 n = evn s n" "only_removed s s2"
        "val s2 = (\<lambda>x. if x \<in> Inl ` {n \<in> set zs. oe_handle (evn s n) = h} then None else val s x)"
        using Suc.IH [OF c1 k] by auto
      have "remove_loop (Suc k) h a s = Ret s2" using sl Cons l e False s2(1) by simp
      moreover have "evn s2 n = evn s n" if "n \<in> set xs \<union> {n \<in> set ys. oe_handle (evn s n) \<noteq> h}" for n
        using that s2(3) Cons by auto
      moreover have "val s2 = (\<lambda>x. if x \<in> Inl ` {n \<in> set ys. oe_handle (evn s n) = h} then None else val s x)"
        unfolding s2(5) using False Cons by (auto simp: fun_eq_iff)
      ultimately show ?thesis using s2(2,4) False Cons unfolding a_def by auto
    qed
  qed
qed

end
