(* ===== verification/Overlay_Spec.thy ===== *)
theory Overlay_Spec
  imports Overlay
begin

text \<open>
  The contract of the overlay manager: the manager as a value, without slots, addresses and links,
  its operations, and the invariant of the value that they keep.
\<close>

section \<open>Showing\<close>

lemma first_index_Some: "first_index P xs = Some i \<Longrightarrow> i < length xs \<and> P (xs ! i) \<and> (\<forall>j < i. \<not> P (xs ! j))"
proof (induction xs arbitrary: i)
  case Nil
  then show ?case by simp
next
  case (Cons x xs)
  then show ?case by (auto split: if_splits simp: nth_Cons less_Suc_eq_0_disj split: nat.split)
qed

lemma first_index_None: "first_index P xs = None \<Longrightarrow> x \<in> set xs \<Longrightarrow> \<not> P x"
  by (induction xs) (auto split: if_splits)

definition add_handle :: "int \<Rightarrow> int list \<Rightarrow> int list" where
  "add_handle h sh =
     (if h \<in> set sh then sh
      else case first_index (\<lambda>h. h < 0) sh of None \<Rightarrow> sh | Some i \<Rightarrow> sh[i := h])"

definition drop_handle :: "int \<Rightarrow> int list \<Rightarrow> int list" where
  "drop_handle h sh = map (\<lambda>x. if x = h then - 1 else x) sh"

lemma first_index_mem: "(first_index (\<lambda>x. x = h) sh = None) = (h \<notin> set sh)"
  by (induction sh) auto

lemma add_showing_handle_is:
  "add_showing_handle h s = s\<lparr>ol_changed := ol_changed s + 1, ol_showing := add_handle h (ol_showing s)\<rparr>"
proof (cases "h \<in> set (ol_showing s)")
  case True
  then have "first_index (\<lambda>x. x = h) (ol_showing s) \<noteq> None" by (simp add: first_index_mem)
  then show ?thesis using True by (auto simp: add_showing_handle_def add_handle_def)
next
  case False
  then have "first_index (\<lambda>x. x = h) (ol_showing s) = None" by (simp add: first_index_mem)
  then show ?thesis using False by (simp add: add_showing_handle_def add_handle_def split: option.splits)
qed

lemma remove_showing_handle_is:
  "remove_showing_handle h s = s\<lparr>ol_changed := ol_changed s + 1, ol_showing := drop_handle h (ol_showing s)\<rparr>"
  by (simp add: remove_showing_handle_def drop_handle_def)

lemma add_handle_length [simp]: "length (add_handle h sh) = length sh"
  by (simp add: add_handle_def split: option.splits)

lemma drop_handle_length [simp]: "length (drop_handle h sh) = length sh"
  by (simp add: drop_handle_def)

section \<open>The manager as a value\<close>

text \<open>
  What the manager promises, without slots, addresses and links: the events that are pending in the
  order of their times with the overlays they bring, for each handle its object (the handle, or -1
  when it is free) with the overlay it has, and the handles showing.
\<close>

record ov_abs =
  oa_pending :: "caller_event list"
  oa_objs :: "(int \<times> vo_overlay option) list"
  oa_showing :: "int list"

definition spec_process :: "caller_event \<Rightarrow> ov_abs \<Rightarrow> ov_abs" where
  "spec_process e A =
     (let h = ce_handle e; n = nat (ce_handle e) in
      if ce_type e = OVERLAY_EVENT_SHOW then
        (case ce_overlay e of None \<Rightarrow> A
         | Some v \<Rightarrow> A\<lparr>oa_objs := (oa_objs A)[n := (h, Some v)], oa_showing := add_handle h (oa_showing A)\<rparr>)
      else if ce_type e = OVERLAY_EVENT_HIDE then A\<lparr>oa_showing := drop_handle h (oa_showing A)\<rparr>
      else if ce_type e = OVERLAY_EVENT_FREE_HANDLE then
        A\<lparr>oa_pending := filter (\<lambda>e. ce_handle e \<noteq> h) (oa_pending A), oa_objs := (oa_objs A)[n := (- 1, None)],
          oa_showing := drop_handle h (oa_showing A)\<rparr>
      else
        (case (ce_overlay e, snd (oa_objs A ! n)) of
           (Some v, Some w) \<Rightarrow> A\<lparr>oa_objs := (oa_objs A)[n := (h, Some (copy_clip v w))], oa_showing := add_handle h (oa_showing A)\<rparr>
         | _ \<Rightarrow> A))"

lemma spec_process_shrinks: "length (oa_pending (spec_process e A)) \<le> length (oa_pending A)"
  by (simp add: spec_process_def Let_def split: option.splits)

text \<open>What is due is processed in order; how many events were, and the manager after it.\<close>

function spec_event :: "int \<Rightarrow> ov_abs \<Rightarrow> int \<times> ov_abs" where
  "spec_event vpts A =
     (case oa_pending A of [] \<Rightarrow> (0, A)
      | e # es \<Rightarrow>
          if vpts > ce_vpts e \<or> vpts = 0
          then (let (m, A1) = spec_event vpts (spec_process e (A\<lparr>oa_pending := es\<rparr>)) in (m + 1, A1))
          else (0, A))"
  by pat_completeness auto
termination
proof (relation "measure (\<lambda>(vpts, A). length (oa_pending A))")
  fix vpts :: int and A :: ov_abs and e es
  assume "oa_pending A = e # es"
  then show "((vpts, spec_process e (A\<lparr>oa_pending := es\<rparr>)), vpts, A) \<in> measure (\<lambda>(vpts, A). length (oa_pending A))"
    using spec_process_shrinks [of e "A\<lparr>oa_pending := es\<rparr>"] by simp
qed simp

declare spec_event.simps [simp del]

text \<open>A new event goes behind those whose time is not after its own.\<close>

definition spec_add :: "caller_event \<Rightarrow> ov_abs \<Rightarrow> ov_abs" where
  "spec_add e A = A\<lparr>oa_pending := takeWhile (\<lambda>x. ce_vpts x \<le> ce_vpts e) (oa_pending A) @ e #
     dropWhile (\<lambda>x. ce_vpts x \<le> ce_vpts e) (oa_pending A)\<rparr>"

text \<open>Freeing a handle drops all that is of it.\<close>

definition spec_free :: "int \<Rightarrow> ov_abs \<Rightarrow> ov_abs" where
  "spec_free h A = A\<lparr>oa_pending := filter (\<lambda>e. ce_handle e \<noteq> h) (oa_pending A),
     oa_objs := (oa_objs A)[nat h := (- 1, None)], oa_showing := drop_handle h (oa_showing A)\<rparr>"

section \<open>The invariant of the value\<close>

text \<open>Every handle shown has an overlay, and none is shown twice.\<close>

definition shown_ok :: "(int \<times> vo_overlay option) list \<Rightarrow> int list \<Rightarrow> bool" where
  "shown_ok obs sh \<longleftrightarrow>
     (\<forall>h \<in> set sh. h = - 1 \<or> 0 \<le> h \<and> h < int (length obs) \<and> snd (obs ! nat h) \<noteq> None) \<and>
     distinct (filter (\<lambda>h. 0 \<le> h) sh)"

lemma filter_update_in:
  "i < length xs \<Longrightarrow> \<not> P (xs ! i) \<Longrightarrow> P y \<Longrightarrow> y \<notin> set xs \<Longrightarrow> distinct (filter P xs) \<Longrightarrow> distinct (filter P (xs[i := y]))"
proof (induction xs arbitrary: i)
  case Nil
  then show ?case by simp
next
  case (Cons x xs)
  then show ?case by (cases i) (auto split: if_splits dest: set_update_subset_insert [THEN subsetD])
qed

lemma shown_add:
  assumes "shown_ok obs sh" and "0 \<le> h" and "h < int (length obs)" and "snd (obs ! nat h) \<noteq> None"
  shows "shown_ok obs (add_handle h sh)"
proof (cases "h \<in> set sh \<or> first_index (\<lambda>h. h < 0) sh = None")
  case True
  then show ?thesis using assms(1) by (auto simp: add_handle_def)
next
  case False
  then obtain i where i: "first_index (\<lambda>h. h < 0) sh = Some i" and n: "h \<notin> set sh" by auto
  have j: "i < length sh" "sh ! i < 0" using first_index_Some [OF i] by auto
  have "distinct (filter (\<lambda>h. 0 \<le> h) (sh[i := h]))"
    using filter_update_in [of i sh "\<lambda>h. 0 \<le> h" h] assms(1,2) j n unfolding shown_ok_def by simp
  then show ?thesis using assms i n set_update_subset_insert [of sh i h]
    unfolding shown_ok_def add_handle_def by auto
qed

lemma shown_drop: "shown_ok obs sh \<Longrightarrow> shown_ok obs (drop_handle h sh) \<and> (0 \<le> h \<longrightarrow> h \<notin> set (drop_handle h sh))"
proof -
  assume s: "shown_ok obs sh"
  have eq: "filter (\<lambda>h. 0 \<le> h) (drop_handle h sh) = filter (\<lambda>x. x \<noteq> h) (filter (\<lambda>h. 0 \<le> h) sh)"
    unfolding drop_handle_def by (induction sh) auto
  have "distinct (filter (\<lambda>h. 0 \<le> h) sh)" using s unfolding shown_ok_def by blast
  then have "distinct (filter (\<lambda>h. 0 \<le> h) (drop_handle h sh))" unfolding eq by (rule distinct_filter)
  then show ?thesis using s unfolding shown_ok_def by (auto simp: drop_handle_def)
qed

text \<open>Changing an object that is not shown, or one that has an overlay after it.\<close>

lemma shown_object:
  assumes "shown_ok obs sh" and "int n \<notin> set sh \<or> snd ob \<noteq> None"
  shows "shown_ok (obs[n := ob]) sh"
proof -
  have "h = - 1 \<or> 0 \<le> h \<and> h < int (length obs) \<and> snd (obs[n := ob] ! nat h) \<noteq> None" if h: "h \<in> set sh" for h
  proof -
    have "h = - 1 \<or> 0 \<le> h \<and> h < int (length obs) \<and> snd (obs ! nat h) \<noteq> None"
      using assms(1) h unfolding shown_ok_def by blast
    then show ?thesis using assms(2) h by (cases "nat h = n") (auto simp: nth_list_update)
  qed
  then show ?thesis using assms(1) unfolding shown_ok_def by simp
qed

text \<open>
  Events of the four types, of a handle there is. A button brings an overlay, since the code reads
  it without a test; events to hide and to free bring no run-length data, which would leak.
\<close>

definition ce_good :: "caller_event \<Rightarrow> bool" where
  "ce_good e \<longleftrightarrow>
     ce_type e \<in> {OVERLAY_EVENT_SHOW, OVERLAY_EVENT_HIDE, OVERLAY_EVENT_MENU_BUTTON, OVERLAY_EVENT_FREE_HANDLE} \<and>
     0 \<le> ce_handle e \<and> ce_handle e < int MAX_OBJECTS \<and>
     (ce_type e = OVERLAY_EVENT_MENU_BUTTON \<longrightarrow> ce_overlay e \<noteq> None) \<and>
     (ce_type e \<in> {OVERLAY_EVENT_HIDE, OVERLAY_EVENT_FREE_HANDLE} \<longrightarrow>
        (case ce_overlay e of None \<Rightarrow> True | Some v \<Rightarrow> ov_rle v = None))"

text \<open>An object is of its handle, or it is free: without overlay and without events.\<close>

definition objs_ok :: "(int \<times> vo_overlay option) list \<Rightarrow> caller_event list \<Rightarrow> bool" where
  "objs_ok obs es \<longleftrightarrow>
     length obs = MAX_OBJECTS \<and>
     (\<forall>n < MAX_OBJECTS. fst (obs ! n) = int n \<or>
        fst (obs ! n) = - 1 \<and> snd (obs ! n) = None \<and> (\<forall>e \<in> set es. ce_handle e \<noteq> int n))"

definition abs_ok :: "ov_abs \<Rightarrow> bool" where
  "abs_ok A \<longleftrightarrow> sorted (map ce_vpts (oa_pending A)) \<and> (\<forall>e \<in> set (oa_pending A). ce_good e) \<and>
     shown_ok (oa_objs A) (oa_showing A) \<and> objs_ok (oa_objs A) (oa_pending A)"

lemma nth_upd: "j < length xs \<Longrightarrow> xs[i := x] ! j = (if j = i then x else xs ! j)"
  by (cases "i < length xs") (simp_all add: nth_list_update)

lemma objs_set: "objs_ok obs es \<Longrightarrow> 0 \<le> h \<Longrightarrow> objs_ok (obs[nat h := (h, v)]) es"
  unfolding objs_ok_def by (simp add: nth_upd)

lemma objs_less: "objs_ok obs es \<Longrightarrow> set es' \<subseteq> set es \<Longrightarrow> objs_ok obs es'"
  unfolding objs_ok_def by blast

lemma objs_free:
  "objs_ok obs es \<Longrightarrow> 0 \<le> h \<Longrightarrow> objs_ok (obs[nat h := (- 1, None)]) (filter (\<lambda>e. ce_handle e \<noteq> h) es)"
  unfolding objs_ok_def by (auto simp: nth_upd)

lemma abs_ok_free:
  assumes "abs_ok A" and "0 \<le> h"
  shows "abs_ok (spec_free h A)"
  using assms shown_drop [of "oa_objs A" "oa_showing A" h] shown_object [of "oa_objs A" "drop_handle h (oa_showing A)" "nat h" "(- 1, None)"]
    objs_free [of "oa_objs A" "oa_pending A" h]
  unfolding abs_ok_def spec_free_def by (simp add: sorted_filter)

lemma abs_ok_tail: "abs_ok A \<Longrightarrow> oa_pending A = e # es \<Longrightarrow> abs_ok (A\<lparr>oa_pending := es\<rparr>) \<and> ce_good e"
  unfolding abs_ok_def by (auto elim: objs_less)

lemma abs_ok_show:
  assumes "abs_ok A" and "0 \<le> h" and "h < int MAX_OBJECTS"
  shows "abs_ok (A\<lparr>oa_objs := (oa_objs A)[nat h := (h, Some v)], oa_showing := add_handle h (oa_showing A)\<rparr>)"
proof -
  have a: "shown_ok (oa_objs A) (oa_showing A)" "objs_ok (oa_objs A) (oa_pending A)" using assms(1) by (simp_all add: abs_ok_def)
  have "length (oa_objs A) = MAX_OBJECTS" using a(2) by (simp add: objs_ok_def)
  then have "shown_ok ((oa_objs A)[nat h := (h, Some v)]) (add_handle h (oa_showing A))"
    using shown_object [OF a(1), of "nat h" "(h, Some v)"] assms(2,3) by (intro shown_add) simp_all
  then show ?thesis using assms(1) objs_set [OF a(2) assms(2)] unfolding abs_ok_def by simp
qed

lemma abs_ok_process:
  assumes "abs_ok A" and "ce_good e"
  shows "abs_ok (spec_process e A)"
proof -
  have h: "0 \<le> ce_handle e" "ce_handle e < int MAX_OBJECTS" using assms(2) by (simp_all add: ce_good_def)
  have "spec_process e A = spec_free (ce_handle e) A" if "ce_type e = OVERLAY_EVENT_FREE_HANDLE"
    using that by (simp add: spec_process_def spec_free_def Let_def OVERLAY_EVENT_FREE_HANDLE_def OVERLAY_EVENT_SHOW_def OVERLAY_EVENT_HIDE_def)
  moreover have "abs_ok (A\<lparr>oa_showing := drop_handle (ce_handle e) (oa_showing A)\<rparr>)"
    using assms(1) shown_drop [of "oa_objs A" "oa_showing A" "ce_handle e"] unfolding abs_ok_def by simp
  ultimately show ?thesis using assms(1) abs_ok_show [OF assms(1) h] abs_ok_free [OF assms(1) h(1)]
    by (auto simp: spec_process_def Let_def split: option.splits)
qed

lemma abs_ok_event: "abs_ok A \<Longrightarrow> abs_ok (snd (spec_event vpts A))"
proof (induction vpts A rule: spec_event.induct)
  case (1 vpts A)
  show ?case
  proof (cases "oa_pending A")
    case Nil
    then show ?thesis using "1.prems" by (simp add: spec_event.simps [of vpts A])
  next
    case (Cons e es)
    then show ?thesis using "1.prems" "1.IH" [OF Cons] abs_ok_process abs_ok_tail [OF "1.prems" Cons]
      by (auto simp: spec_event.simps [of vpts A] split: prod.splits)
  qed
qed

text \<open>Nothing that is due is left.\<close>

lemma spec_event_done: "abs_ok A \<Longrightarrow> e \<in> set (oa_pending (snd (spec_event vpts A))) \<Longrightarrow> vpts \<noteq> 0 \<and> vpts \<le> ce_vpts e"
proof (induction vpts A rule: spec_event.induct)
  case (1 vpts A)
  show ?case
  proof (cases "oa_pending A")
    case Nil
    then show ?thesis using "1.prems" by (simp add: spec_event.simps [of vpts A])
  next
    case (Cons e' es)
    note t = abs_ok_tail [OF "1.prems"(1) Cons]
    show ?thesis
    proof (cases "vpts > ce_vpts e' \<or> vpts = 0")
      case True
      have "abs_ok (spec_process e' (A\<lparr>oa_pending := es\<rparr>))" using abs_ok_process t by blast
      moreover have "e \<in> set (oa_pending (snd (spec_event vpts (spec_process e' (A\<lparr>oa_pending := es\<rparr>)))))"
        using "1.prems"(2) Cons True by (simp add: spec_event.simps [of vpts A] split: prod.splits)
      ultimately show ?thesis by (rule "1.IH" [OF Cons True])
    next
      case False
      then have "e \<in> set (e' # es)" using "1.prems"(2) Cons by (simp add: spec_event.simps [of vpts A])
      moreover have "sorted (map ce_vpts (e' # es))" using "1.prems"(1) unfolding abs_ok_def Cons by blast
      ultimately show ?thesis using False by auto
    qed
  qed
qed

lemma sorted_dropWhile:
  "sorted (map f xs) \<Longrightarrow> \<forall>x \<in> set (dropWhile (\<lambda>x. f x \<le> c) xs). c \<le> f x"
  for f :: "'a \<Rightarrow> int"
  by (induction xs) auto

lemma sorted_between:
  "sorted (map f (xs @ ys)) \<Longrightarrow> \<forall>x \<in> set xs. f x \<le> f e \<Longrightarrow> \<forall>y \<in> set ys. f e \<le> f y \<Longrightarrow> sorted (map f (xs @ e # ys))"
  for f :: "'a \<Rightarrow> int"
  by (auto simp: sorted_append)

lemma abs_ok_add:
  assumes "abs_ok A" and "ce_good e" and "fst (oa_objs A ! nat (ce_handle e)) = ce_handle e"
  shows "abs_ok (spec_add e A)"
proof -
  let ?P = "\<lambda>x. ce_vpts x \<le> ce_vpts e"
  let ?L = "oa_pending A"
  have s: "sorted (map ce_vpts ?L)" using assms(1) by (simp add: abs_ok_def)
  have "\<forall>x \<in> set (takeWhile ?P ?L). ce_vpts x \<le> ce_vpts e" by (auto dest: set_takeWhileD)
  then have "sorted (map ce_vpts (takeWhile ?P ?L @ e # dropWhile ?P ?L))"
    by (intro sorted_between [OF _ _ sorted_dropWhile [OF s]]) (simp_all add: s)
  then have "sorted (map ce_vpts (oa_pending (spec_add e A)))" by (simp add: spec_add_def)
  moreover have set: "set (oa_pending (spec_add e A)) = insert e (set ?L)"
  proof -
    have "set ?L = set (takeWhile ?P ?L) \<union> set (dropWhile ?P ?L)" by (metis set_append takeWhile_dropWhile_id)
    then show ?thesis unfolding spec_add_def by auto
  qed
  moreover have "objs_ok (oa_objs A) (oa_pending (spec_add e A))"
    using assms unfolding abs_ok_def objs_ok_def set by (auto simp: ce_good_def)
  ultimately show ?thesis using assms(1,2) unfolding abs_ok_def by (simp add: spec_add_def)
qed

end
