(* ===== verification/Overlay_Refine.thy ===== *)
theory Overlay_Refine
  imports Overlay_Heap Overlay_Spec
begin

text \<open>
  Every operation of the overlay manager on well-formed slots and heap returns, keeps them
  well-formed and is the operation of the value.
\<close>

section \<open>Processing one event\<close>

text \<open>The slot of an event in the chain; only its overlay and handle change.\<close>

lemma set_event_ok:
  "n < length (ol_events s) \<Longrightarrow> set_event n e s = Ret (s\<lparr>ol_events := (ol_events s)[n := (ol_events s ! n)\<lparr>sl_event := Some e\<rparr>]\<rparr>)"
  by (simp add: set_event_def slot_at_def)

definition with_event :: "nat \<Rightarrow> ov_event \<Rightarrow> overlays \<Rightarrow> overlays" where
  "with_event n e s = s\<lparr>ol_events := (ol_events s)[n := (ol_events s ! n)\<lparr>sl_event := Some e\<rparr>]\<rparr>"

lemma with_event_ev: "n < length (ol_events s) \<Longrightarrow> m < length (ol_events s) \<Longrightarrow> evn (with_event n e s) m = (if m = n then e else evn s m)"
  by (simp add: with_event_def ev_at_def nth_list_update)

lemma with_event_own:
  "n < length (ol_events s) \<Longrightarrow>
    own_of (ol_events (with_event n e s)) obs = (own_of (ol_events s) obs)(Inl n := oe_overlay e)"
  by (simp add: with_event_def own_event)

lemma with_event_fields [simp]:
  "ol_objects (with_event n e s) = ol_objects s" "ol_showing (with_event n e s) = ol_showing s"
  "ol_changed (with_event n e s) = ol_changed s" "ol_ovl (with_event n e s) = ol_ovl s"
  "ol_rle (with_event n e s) = ol_rle s" "ol_fresh (with_event n e s) = ol_fresh s"
  by (simp_all add: with_event_def)

lemma with_event_chain:
  "chain_ok (ol_events s) cs \<Longrightarrow> n \<in> set cs \<Longrightarrow> 0 < oe_type e \<Longrightarrow> chain_ok (ol_events (with_event n e s)) cs"
  unfolding with_event_def by (simp add: chain_set)

lemma core_showing: "core s cs \<Longrightarrow> length sh = MAX_SHOWING \<Longrightarrow> core (s\<lparr>ol_changed := c, ol_showing := sh\<rparr>) cs"
  by (simp add: core_def)

lemma object_at_ok: "core s cs \<Longrightarrow> 0 \<le> h \<Longrightarrow> h < int MAX_OBJECTS \<Longrightarrow> object_at h s = Ret (ol_objects s ! nat h)"
  by (simp add: object_at_def core_len)

lemma own_slot: "core s cs \<Longrightarrow> n < MAX_EVENTS \<Longrightarrow> own_of (ol_events s) (ol_objects s) (Inl n) = oe_overlay (evn s n)"
  by (simp add: own_of_def core_len)

lemma own_obj: "core s cs \<Longrightarrow> n < MAX_OBJECTS \<Longrightarrow> own_of (ol_events s) (ol_objects s) (Inr n) = ob_overlay (ol_objects s ! n)"
  by (simp add: own_of_def core_len)

lemma show_event_ok:
  assumes "core s cs" and "b \<in> set cs" and "e = evn s b" and "oe_overlay e = Some a"
    and "0 \<le> h" and "h < int MAX_OBJECTS"
  defines "s1 \<equiv> add_showing_handle h (with_event b (e\<lparr>oe_overlay := None\<rparr>)
    (set_object h ((ol_objects s ! nat h)\<lparr>ob_handle := h, ob_overlay := Some a, ob_pts := oe_pts e\<rparr>)
      (drop_ovl (ob_overlay (ol_objects s ! nat h)) s)))"
  shows "show_event b h e s = Ret s1" and "core s1 cs" and "val s1 = (val s)(Inl b := None, Inr (nat h) := val s (Inl b))"
proof -
  let ?ob = "ol_objects s ! nat h"
  let ?own = "own_of (ol_events s) (ol_objects s)"
  have b: "b < MAX_EVENTS" "0 < b" using chain_bound [OF core_chain [OF assms(1)]] chain_pos [OF core_chain [OF assms(1)]] assms(2) by auto
  have h: "nat h < MAX_OBJECTS" using assms(5,6) by simp
  have ob: "?own (Inr (nat h)) = ob_overlay ?ob" by (rule own_obj [OF assms(1) h])
  have f: "free_with_rle (ob_overlay ?ob) s = Ret (drop_ovl (ob_overlay ?ob) s)"
    by (rule free_with_rle_ok [OF core_heap [OF assms(1)] ob])
  show "show_event b h e s = Ret s1"
    unfolding show_event_def s1_def using assms(4) object_at_ok [OF assms(1,5,6)] f b core_len(1) [OF assms(1)]
    by (simp add: set_event_ok set_object_def with_event_def)
  have t: "0 < oe_type e" using core_chain [OF assms(1)] b assms(2,3) unfolding chain_ok_def by auto
  have "chain_ok (ol_events s1) cs"
    unfolding s1_def using with_event_chain [of _ cs b "e\<lparr>oe_overlay := None\<rparr>"] core_chain [OF assms(1)] assms(2) t
    by (simp add: add_showing_handle_is set_object_def)
  moreover have "heap_ok (?own(Inr (nat h) := None)) (ol_ovl (drop_ovl (ob_overlay ?ob) s)) (ol_rle (drop_ovl (ob_overlay ?ob) s)) (ol_fresh s)"
    by (rule drop_ovl_heap [OF core_heap [OF assms(1)] ob])
  then have "heap_ok (?own(Inr (nat h) := None, Inl b := None, Inr (nat h) := Some a))
      (ol_ovl (drop_ovl (ob_overlay ?ob) s)) (ol_rle (drop_ovl (ob_overlay ?ob) s)) (ol_fresh s)"
    by (rule heap_move) (use own_slot [OF assms(1) b(1)] assms(3,4) in simp_all)
  moreover have own: "own_of (ol_events s1) (ol_objects s1) = ?own(Inr (nat h) := None, Inl b := None, Inr (nat h) := Some a)"
    unfolding s1_def using b h core_len [OF assms(1)] by (simp add: add_showing_handle_is set_object_def with_event_own own_object fun_upd_twist [of "Inr (nat h)" "Inl b"])
  ultimately show "core s1 cs" unfolding core_def own using core_len [OF assms(1)]
    by (simp add: s1_def add_showing_handle_is set_object_def)
  let ?H = "ol_ovl (drop_ovl (ob_overlay ?ob) s)"
  have o: "(?own(Inr (nat h) := None)) (Inl b) = Some a" using own_slot [OF assms(1) b(1)] assms(3,4) by simp
  have d: "hval (?own(Inr (nat h) := None)) ?H = (val s)(Inr (nat h) := None)"
    unfolding val_def by (rule drop_ovl_val [OF core_heap [OF assms(1)] ob])
  have "?H a = val s (Inl b)" using fun_cong [OF d, of "Inl b"] o by (simp add: hval_def)
  then have "hval (?own(Inr (nat h) := None, Inl b := None, Inr (nat h) := Some a)) ?H = (val s)(Inl b := None, Inr (nat h) := val s (Inl b))"
    using hval_move [of "?own(Inr (nat h) := None)" "Inl b" a "Inr (nat h)" ?H] o unfolding d by (simp add: fun_upd_twist [of "Inr (nat h)" "Inl b"])
  then show "val s1 = (val s)(Inl b := None, Inr (nat h) := val s (Inl b))"
    unfolding val_def own by (simp add: s1_def add_showing_handle_is set_object_def)
qed

text \<open>Freeing the overlay of the event.\<close>

lemma drop_event_overlay:
  assumes "core s cs" and "b \<in> set cs" and "oe_overlay e = None" and "oe_type e = oe_type (evn s b)"
  shows "core (with_event b e (drop_ovl (oe_overlay (evn s b)) s)) cs"
    and "val (with_event b e (drop_ovl (oe_overlay (evn s b)) s)) = (val s)(Inl b := None)"
proof -
  have b: "b < MAX_EVENTS" "0 < b" using chain_bound [OF core_chain [OF assms(1)]] chain_pos [OF core_chain [OF assms(1)]] assms(2) by auto
  have "0 < oe_type e" using core_chain [OF assms(1)] b assms(2,4) unfolding chain_ok_def by auto
  then have "chain_ok (ol_events (with_event b e (drop_ovl (oe_overlay (evn s b)) s))) cs"
    using core_chain [OF assms(1)] assms(2) by (intro with_event_chain) simp_all
  then show "core (with_event b e (drop_ovl (oe_overlay (evn s b)) s)) cs"
    using drop_ovl_heap [OF core_heap [OF assms(1)] own_slot [OF assms(1) b(1)]] core_len [OF assms(1)] b assms(3)
    by (simp add: core_def with_event_own)
  show "val (with_event b e (drop_ovl (oe_overlay (evn s b)) s)) = (val s)(Inl b := None)"
    using drop_ovl_val [OF core_heap [OF assms(1)] own_slot [OF assms(1) b(1)]] core_len [OF assms(1)] b assms(3)
    by (simp add: val_def with_event_own)
qed

lemma hide_event_ok:
  fixes h :: int
  assumes "core s cs" and "b \<in> set cs" and "e = evn s b" and "\<And>v. val s (Inl b) = Some v \<Longrightarrow> ov_rle v = None"
  defines "s1 \<equiv> remove_showing_handle h (with_event b (e\<lparr>oe_overlay := None\<rparr>) (drop_ovl (oe_overlay e) s))"
  shows "hide_event b h e s = Ret s1" and "core s1 cs" and "val s1 = (val s)(Inl b := None)"
proof -
  have b: "b < MAX_EVENTS" using chain_bound [OF core_chain [OF assms(1)]] assms(2) by simp
  have "rle_of (ol_ovl s) a = None" if "oe_overlay e = Some a" for a
    using assms(3,4) that own_slot [OF assms(1) b] by (simp add: val_def hval_def rle_of_def split: option.splits)
  then have "free_without_rle (oe_overlay e) s = Ret (drop_ovl (oe_overlay e) s)"
    using free_without_rle_ok [OF core_heap [OF assms(1)] own_slot [OF assms(1) b]] assms(3) by simp
  then show "hide_event b h e s = Ret s1" unfolding hide_event_def s1_def
    using b core_len(1) [OF assms(1)] by (simp add: set_event_ok with_event_def)
  have d: "core (with_event b (e\<lparr>oe_overlay := None\<rparr>) (drop_ovl (oe_overlay e) s)) cs"
    "val (with_event b (e\<lparr>oe_overlay := None\<rparr>) (drop_ovl (oe_overlay e) s)) = (val s)(Inl b := None)"
    using drop_event_overlay [OF assms(1,2)] assms(3) by simp_all
  show "core s1 cs" unfolding s1_def remove_showing_handle_is by (rule core_showing [OF d(1)]) (simp add: core_len [OF assms(1)])
  show "val s1 = (val s)(Inl b := None)" using d(2) unfolding s1_def remove_showing_handle_is val_def by simp
qed

lemma free_handle_ok:
  assumes "core s cs" and "0 \<le> h" and "h < int MAX_OBJECTS"
  defines "s1 \<equiv> set_object h ((ol_objects s ! nat h)\<lparr>ob_overlay := None, ob_handle := - 1\<rparr>)
    (drop_ovl (ob_overlay (ol_objects s ! nat h)) s)"
  shows "internal_video_overlay_free_handle h s = Ret s1" and "core s1 cs" and "val s1 = (val s)(Inr (nat h) := None)"
proof -
  have h: "nat h < MAX_OBJECTS" using assms(2,3) by simp
  note ob = own_obj [OF assms(1) h]
  show "internal_video_overlay_free_handle h s = Ret s1"
    unfolding internal_video_overlay_free_handle_def s1_def
    using object_at_ok [OF assms(1-3)] free_with_rle_ok [OF core_heap [OF assms(1)] ob] by simp
  show "core s1 cs" using drop_ovl_heap [OF core_heap [OF assms(1)] ob] core_len [OF assms(1)] core_chain [OF assms(1)] h
    unfolding core_def s1_def by (simp add: set_object_def own_object)
  show "val s1 = (val s)(Inr (nat h) := None)"
    using drop_ovl_val [OF core_heap [OF assms(1)] ob] core_len [OF assms(1)] h
    unfolding val_def s1_def by (simp add: set_object_def own_object)
qed

lemma button_event_ok:
  assumes "core s cs" and "b \<in> set cs" and "e = evn s b" and "oe_overlay e \<noteq> None" and "0 \<le> h" and "h < int MAX_OBJECTS"
  shows "\<exists>s1. button_event b h e s = Ret s1 \<and> core s1 cs \<and>
    ol_events s1 = ol_events (with_event b (e\<lparr>oe_overlay := None\<rparr>) s) \<and>
    (case val s (Inr (nat h)) of
       None \<Rightarrow> ol_objects s1 = ol_objects s \<and> ol_showing s1 = ol_showing s \<and> val s1 = (val s)(Inl b := None)
     | Some w \<Rightarrow> ol_objects s1 = (ol_objects s)[nat h := (ol_objects s ! nat h)\<lparr>ob_handle := h\<rparr>] \<and>
       ol_showing s1 = add_handle h (ol_showing s) \<and>
       (\<exists>v. val s (Inl b) = Some v \<and> val s1 = (val s)(Inr (nat h) := Some (copy_clip v w), Inl b := None)))"
proof -
  have b: "b < MAX_EVENTS" using chain_bound [OF core_chain [OF assms(1)]] assms(2) by simp
  have h: "nat h < MAX_OBJECTS" using assms(5,6) by simp
  obtain a where a: "oe_overlay e = Some a" using assms(4) by auto
  have oa: "own_of (ol_events s) (ol_objects s) (Inl b) = Some a" using own_slot [OF assms(1) b] a assms(3) by simp
  obtain v where v: "ol_ovl s a = Some v" using heap_held [OF core_heap [OF assms(1)] oa] by blast
  have fin: "\<exists>s1. obind (of_opt (oe_overlay e)) (\<lambda>a. obind (ovl_at a t) (\<lambda>ev. obind (free_rle (ov_rle ev) t) (\<lambda>s2.
        obind (free_ovl a s2) (\<lambda>s3. set_event b (e\<lparr>oe_overlay := None\<rparr>) s3)))) = Ret s1 \<and> core s1 cs \<and>
      ol_events s1 = ol_events (with_event b (e\<lparr>oe_overlay := None\<rparr>) t) \<and> val s1 = (val t)(Inl b := None) \<and>
      ol_objects s1 = ol_objects t \<and> ol_showing s1 = ol_showing t"
    if t: "core t cs" "ol_events t = ol_events s" for t
  proof -
    have ev: "evn t b = e" using t(2) assms(3) by simp
    have o: "own_of (ol_events t) (ol_objects t) (Inl b) = Some a" using own_slot [OF t(1) b] a ev by simp
    have "free_with_rle (Some a) t = Ret (drop_ovl (Some a) t)" by (rule free_with_rle_ok [OF core_heap [OF t(1)] o])
    then have "obind (ovl_at a t) (\<lambda>ev. obind (free_rle (ov_rle ev) t) (free_ovl a)) = Ret (drop_ovl (Some a) t)"
      by (simp add: free_with_rle_def)
    then have "obind (of_opt (oe_overlay e)) (\<lambda>a. obind (ovl_at a t) (\<lambda>ev. obind (free_rle (ov_rle ev) t) (\<lambda>s2.
        obind (free_ovl a s2) (\<lambda>s3. set_event b (e\<lparr>oe_overlay := None\<rparr>) s3)))) =
        Ret (with_event b (e\<lparr>oe_overlay := None\<rparr>) (drop_ovl (Some a) t))"
      using a b core_len(1) [OF t(1)] by (simp add: set_event_ok with_event_def flip: obind_assoc)
    moreover have "core (with_event b (e\<lparr>oe_overlay := None\<rparr>) (drop_ovl (Some a) t)) cs"
      "val (with_event b (e\<lparr>oe_overlay := None\<rparr>) (drop_ovl (Some a) t)) = (val t)(Inl b := None)"
      using drop_event_overlay [OF t(1) assms(2), of "e\<lparr>oe_overlay := None\<rparr>"] ev a by simp_all
    ultimately show ?thesis by (simp add: with_event_def)
  qed
  show ?thesis
  proof (cases "ob_overlay (ol_objects s ! nat h)")
    case None
    then have "button_clip h e s = Ret s" using a object_at_ok [OF assms(1,5,6)] by (simp add: button_clip_def)
    moreover have "val s (Inr (nat h)) = None" using None own_obj [OF assms(1) h] by (simp add: val_def hval_def)
    ultimately show ?thesis using fin [OF assms(1)] unfolding button_event_def
      by (simp cong: conj_cong) blast
  next
    case (Some c)
    have oc: "own_of (ol_events s) (ol_objects s) (Inr (nat h)) = Some c" using own_obj [OF assms(1) h] Some by simp
    obtain w where w: "ol_ovl s c = Some w" using heap_held [OF core_heap [OF assms(1)] oc] by blast
    define t where "t = add_showing_handle h (set_object h ((ol_objects s ! nat h)\<lparr>ob_handle := h\<rparr>)
      (s\<lparr>ol_ovl := (ol_ovl s)(c \<mapsto> copy_clip v w)\<rparr>))"
    have clip: "button_clip h e s = Ret t"
      using a Some v w object_at_ok [OF assms(1,5,6)] by (simp add: button_clip_def ovl_at_def t_def)
    have r: "ov_rle (copy_clip v w) = ov_rle w" by (simp add: copy_clip_def)
    have own: "own_of (ol_events s) ((ol_objects s)[nat h := (ol_objects s ! nat h)\<lparr>ob_handle := h\<rparr>]) = own_of (ol_events s) (ol_objects s)"
      using own_object [of "nat h" "ol_objects s" "ol_events s"] h core_len(2) [OF assms(1)] oc Some
      by (simp add: fun_upd_idem)
    then have ct: "core t cs" using heap_change [OF core_heap [OF assms(1)] w r] core_len [OF assms(1)] core_chain [OF assms(1)]
      unfolding core_def by (simp add: t_def add_showing_handle_is set_object_def)
    have "hval (own_of (ol_events s) (ol_objects s)) ((ol_ovl s)(c \<mapsto> copy_clip v w)) = (val s)(Inr (nat h) := Some (copy_clip v w))"
      unfolding val_def by (rule hval_change [OF heap_inj [OF core_heap [OF assms(1)]] oc])
    then have vt: "val t = (val s)(Inr (nat h) := Some (copy_clip v w))"
      unfolding val_def using own by (simp add: t_def add_showing_handle_is set_object_def)
    have "ol_events t = ol_events s" by (simp add: t_def add_showing_handle_is set_object_def)
    from fin [OF ct this] obtain s1 where s1: "button_event b h e s = Ret s1" "core s1 cs"
      "ol_events s1 = ol_events (with_event b (e\<lparr>oe_overlay := None\<rparr>) t)" "val s1 = (val t)(Inl b := None)"
      "ol_objects s1 = ol_objects t" "ol_showing s1 = ol_showing t"
      unfolding button_event_def clip obind.simps by blast
    moreover have "val s (Inl b) = Some v" "val s (Inr (nat h)) = Some w" using oa oc v w by (simp_all add: val_def hval_def)
    ultimately show ?thesis unfolding vt
      by (simp add: t_def add_showing_handle_is set_object_def with_event_def)
  qed
qed

section \<open>The value of a state\<close>

definition aev :: "overlays \<Rightarrow> nat \<Rightarrow> caller_event" where
  "aev s n = \<lparr>ce_type = oe_type (evn s n), ce_vpts = oe_vpts (evn s n), ce_handle = oe_handle (evn s n),
     ce_pts = oe_pts (evn s n), ce_overlay = val s (Inl n)\<rparr>"

definition aobjs :: "overlays \<Rightarrow> (int \<times> vo_overlay option) list" where
  "aobjs s = map (\<lambda>n. (ob_handle (ol_objects s ! n), val s (Inr n))) [0 ..< MAX_OBJECTS]"

definition absv :: "overlays \<Rightarrow> nat list \<Rightarrow> ov_abs" where
  "absv s cs = \<lparr>oa_pending = map (aev s) cs, oa_objs = aobjs s, oa_showing = ol_showing s\<rparr>"

lemma aev_fields [simp]:
  "ce_type (aev s n) = oe_type (evn s n)" "ce_vpts (aev s n) = oe_vpts (evn s n)"
  "ce_handle (aev s n) = oe_handle (evn s n)" "ce_pts (aev s n) = oe_pts (evn s n)"
  "ce_overlay (aev s n) = val s (Inl n)"
  by (simp_all add: aev_def)

lemma absv_fields [simp]:
  "oa_pending (absv s cs) = map (aev s) cs" "oa_objs (absv s cs) = aobjs s" "oa_showing (absv s cs) = ol_showing s"
  by (simp_all add: absv_def)

lemma aobjs_nth: "n < MAX_OBJECTS \<Longrightarrow> aobjs s ! n = (ob_handle (ol_objects s ! n), val s (Inr n))"
  by (simp add: aobjs_def)

lemma aobjs_upd:
  assumes "ol_objects s1 = (ol_objects s)[i := ob]" and "length (ol_objects s) = MAX_OBJECTS"
    and "\<And>n. n \<noteq> i \<Longrightarrow> val s1 (Inr n) = val s (Inr n)" and "val s1 (Inr i) = v"
  shows "aobjs s1 = (aobjs s)[i := (ob_handle ob, v)]"
proof (rule nth_equalityI)
  show "length (aobjs s1) = length ((aobjs s)[i := (ob_handle ob, v)])" by (simp add: aobjs_def)
  fix n assume "n < length (aobjs s1)"
  then have "n < MAX_OBJECTS" by (simp add: aobjs_def)
  moreover have "length (aobjs s) = MAX_OBJECTS" by (simp add: aobjs_def)
  ultimately show "aobjs s1 ! n = (aobjs s)[i := (ob_handle ob, v)] ! n"
    using assms by (simp add: aobjs_nth nth_upd)
qed

lemma aobjs_same:
  "ol_objects s1 = ol_objects s \<Longrightarrow> (\<And>n. val s1 (Inr n) = val s (Inr n)) \<Longrightarrow> aobjs s1 = aobjs s"
  by (simp add: aobjs_def)

lemma aev_same: "evn s1 n = evn s n \<Longrightarrow> val s1 (Inl n) = val s (Inl n) \<Longrightarrow> aev s1 n = aev s n"
  by (simp add: aev_def)

text \<open>The other events of a chain when the head's slot changes.\<close>

lemma pending_rest:
  assumes "core s (b # ys)" and "ol_events s1 = ol_events (with_event b e s)"
    and "\<And>n. n \<noteq> b \<Longrightarrow> val s1 (Inl n) = val s (Inl n)"
  shows "map (aev s1) ys = map (aev s) ys" and "evn s1 b = e"
proof -
  have n: "n < length (ol_events s)" if "n \<in> set (b # ys)" for n
    using chain_bound [OF core_chain [OF assms(1)], of n] core_len(1) [OF assms(1)] that by simp
  have "evn s1 n = evn s n" if "n \<in> set ys" for n
  proof -
    have "n \<noteq> b" using that chain_distinct [OF core_chain [OF assms(1)]] by auto
    then show ?thesis using n [of n] n [of b] that assms(2) with_event_ev [of b s n e] by simp
  qed
  moreover have "n \<noteq> b" if "n \<in> set ys" for n using that chain_distinct [OF core_chain [OF assms(1)]] by auto
  ultimately show "map (aev s1) ys = map (aev s) ys" using assms(3) by (auto intro!: aev_same)
  show "evn s1 b = e" using n [of b] assms(2) with_event_ev [of b s b e] by simp
qed

lemma event_numbers:
  "OVERLAY_EVENT_SHOW = 1" "OVERLAY_EVENT_HIDE = 2" "OVERLAY_EVENT_MENU_BUTTON = 3" "OVERLAY_EVENT_FREE_HANDLE = 8"
  by (simp_all add: OVERLAY_EVENT_SHOW_def OVERLAY_EVENT_HIDE_def OVERLAY_EVENT_MENU_BUTTON_def OVERLAY_EVENT_FREE_HANDLE_def)

definition processed :: "nat \<Rightarrow> nat \<Rightarrow> nat list \<Rightarrow> overlays \<Rightarrow> bool" where
  "processed k b ys s \<longleftrightarrow> (\<exists>s1 zs. process_event k b s = Ret s1 \<and> core s1 (b # zs) \<and> oe_overlay (evn s1 b) = None \<and>
     length zs \<le> length ys \<and> absv s1 zs = spec_process (aev s b) (absv s ys))"

lemma processedI:
  assumes "process_event k b s = Ret s1" and "core s1 (b # zs)" and "oe_overlay (evn s1 b) = None"
    and "length zs \<le> length ys" and "absv s1 zs = spec_process (aev s b) (absv s ys)"
  shows "processed k b ys s"
  using assms unfolding processed_def by blast

lemma process_show:
  assumes "core s (b # ys)" and "ce_good (aev s b)" and "oe_type (evn s b) = OVERLAY_EVENT_SHOW"
  shows "processed k b ys s"
proof -
  let ?e = "evn s b" and ?h = "oe_handle (evn s b)"
  have b: "b < MAX_EVENTS" using chain_bound [OF core_chain [OF assms(1)]] by simp
  have h: "0 \<le> ?h" "?h < int MAX_OBJECTS" using assms(2) by (simp_all add: ce_good_def)
  note pe = event_in_ok [OF assms(1) b]
  show ?thesis
  proof (cases "oe_overlay ?e")
    case None
    then have "val s (Inl b) = None" using own_slot [OF assms(1) b] by (simp add: val_def hval_def)
    then show ?thesis unfolding processed_def using None assms pe
      by (auto simp: process_event_def show_event_def spec_process_def intro!: exI [of _ s] exI [of _ ys])
  next
    case (Some a)
    then obtain v where v: "val s (Inl b) = Some v"
      using own_slot [OF assms(1) b] hval_held [OF core_heap [OF assms(1)], of "Inl b"] by (auto simp: val_def)
    have bs: "b \<in> set (b # ys)" by simp
    define s1 where "s1 = add_showing_handle ?h (with_event b (?e\<lparr>oe_overlay := None\<rparr>)
      (set_object ?h ((ol_objects s ! nat ?h)\<lparr>ob_handle := ?h, ob_overlay := Some a, ob_pts := oe_pts ?e\<rparr>)
      (drop_ovl (ob_overlay (ol_objects s ! nat ?h)) s)))"
    note sh = show_event_ok [OF assms(1) bs refl Some h, folded s1_def]
    have p: "process_event k b s = Ret s1" using pe assms(3) sh(1) by (simp add: process_event_def)
    have ev: "ol_events s1 = ol_events (with_event b (?e\<lparr>oe_overlay := None\<rparr>) s)"
      by (simp add: s1_def add_showing_handle_is set_object_def with_event_def)
    have ob: "ol_objects s1 = (ol_objects s)[nat ?h := (ol_objects s ! nat ?h)\<lparr>ob_handle := ?h, ob_overlay := Some a, ob_pts := oe_pts ?e\<rparr>]"
      by (simp add: s1_def add_showing_handle_is set_object_def)
    have "map (aev s1) ys = map (aev s) ys" "evn s1 b = ?e\<lparr>oe_overlay := None\<rparr>"
      by (rule pending_rest [OF assms(1) ev], simp add: sh(3))+
    moreover have "aobjs s1 = (aobjs s)[nat ?h := (?h, Some v)]"
      using aobjs_upd [OF ob core_len(2) [OF assms(1)], of "Some v"] sh(3) v by simp
    moreover have "ol_showing s1 = add_handle ?h (ol_showing s)" by (simp add: s1_def add_showing_handle_is set_object_def)
    ultimately have "absv s1 ys = spec_process (aev s b) (absv s ys)"
      using assms(3) v by (simp add: absv_def spec_process_def Let_def cong: map_cong)
    from processedI [OF p sh(2) _ _ this] show ?thesis by (simp add: \<open>evn s1 b = _\<close>)
  qed
qed

lemma process_hide:
  assumes "core s (b # ys)" and "ce_good (aev s b)" and "oe_type (evn s b) = OVERLAY_EVENT_HIDE"
  shows "processed k b ys s"
proof -
  let ?e = "evn s b" and ?h = "oe_handle (evn s b)"
  have b: "b < MAX_EVENTS" using chain_bound [OF core_chain [OF assms(1)]] by simp
  have bs: "b \<in> set (b # ys)" by simp
  have r: "ov_rle v = None" if "val s (Inl b) = Some v" for v
    using assms(2,3) that by (simp add: ce_good_def)
  define s1 where "s1 = remove_showing_handle ?h (with_event b (?e\<lparr>oe_overlay := None\<rparr>) (drop_ovl (oe_overlay ?e) s))"
  note hd = hide_event_ok [OF assms(1) bs refl r, of ?h, folded s1_def]
  have p: "process_event k b s = Ret s1"
    using event_in_ok [OF assms(1) b] assms(3) hd(1) by (simp add: process_event_def event_numbers)
  have ev: "ol_events s1 = ol_events (with_event b (?e\<lparr>oe_overlay := None\<rparr>) s)"
    by (simp add: s1_def remove_showing_handle_is with_event_def)
  have m: "map (aev s1) ys = map (aev s) ys" "evn s1 b = ?e\<lparr>oe_overlay := None\<rparr>"
    by (rule pending_rest [OF assms(1) ev], simp add: hd(3))+
  have "aobjs s1 = aobjs s" by (rule aobjs_same) (simp_all add: hd(3), simp add: s1_def remove_showing_handle_is)
  moreover have "ol_showing s1 = drop_handle ?h (ol_showing s)" by (simp add: s1_def remove_showing_handle_is)
  ultimately have "absv s1 ys = spec_process (aev s b) (absv s ys)"
    using assms(3) m(1) by (simp add: absv_def spec_process_def Let_def event_numbers cong: map_cong)
  from processedI [OF p hd(2) _ _ this] show ?thesis by (simp add: m)
qed

lemma process_button:
  assumes "core s (b # ys)" and "ce_good (aev s b)" and "oe_type (evn s b) = OVERLAY_EVENT_MENU_BUTTON"
  shows "processed k b ys s"
proof -
  let ?e = "evn s b" and ?h = "oe_handle (evn s b)"
  have b: "b < MAX_EVENTS" using chain_bound [OF core_chain [OF assms(1)]] by simp
  have h: "0 \<le> ?h" "?h < int MAX_OBJECTS" using assms(2) by (simp_all add: ce_good_def)
  have bs: "b \<in> set (b # ys)" by simp
  have "val s (Inl b) \<noteq> None" using assms(2,3) by (simp add: ce_good_def)
  then have "oe_overlay ?e \<noteq> None" using own_slot [OF assms(1) b] by (auto simp: val_def hval_def split: option.splits)
  from button_event_ok [OF assms(1) bs refl this h] obtain s1 where s1: "button_event b ?h ?e s = Ret s1" "core s1 (b # ys)"
    "ol_events s1 = ol_events (with_event b (?e\<lparr>oe_overlay := None\<rparr>) s)"
    "case val s (Inr (nat ?h)) of
       None \<Rightarrow> ol_objects s1 = ol_objects s \<and> ol_showing s1 = ol_showing s \<and> val s1 = (val s)(Inl b := None)
     | Some w \<Rightarrow> ol_objects s1 = (ol_objects s)[nat ?h := (ol_objects s ! nat ?h)\<lparr>ob_handle := ?h\<rparr>] \<and>
       ol_showing s1 = add_handle ?h (ol_showing s) \<and>
       (\<exists>v. val s (Inl b) = Some v \<and> val s1 = (val s)(Inr (nat ?h) := Some (copy_clip v w), Inl b := None))"
    by blast
  have p: "process_event k b s = Ret s1"
    using event_in_ok [OF assms(1) b] assms(3) s1(1) by (simp add: process_event_def event_numbers)
  have "val s1 (Inl n) = val s (Inl n)" if "n \<noteq> b" for n using s1(4) that by (auto split: option.splits)
  from pending_rest [OF assms(1) s1(3) this]
  have m: "map (aev s1) ys = map (aev s) ys" "evn s1 b = ?e\<lparr>oe_overlay := None\<rparr>" by simp_all
  have n: "aobjs s ! nat ?h = (ob_handle (ol_objects s ! nat ?h), val s (Inr (nat ?h)))" using h by (simp add: aobjs_nth)
  have "absv s1 ys = spec_process (aev s b) (absv s ys)"
  proof (cases "val s (Inr (nat ?h))")
    case None
    then have "aobjs s1 = aobjs s" using s1(4) by (intro aobjs_same) simp_all
    then show ?thesis using None s1(4) assms(3) m(1) n
      by (simp add: absv_def spec_process_def Let_def event_numbers cong: map_cong split: option.split)
  next
    case (Some w)
    then obtain v where v: "val s (Inl b) = Some v" "val s1 = (val s)(Inr (nat ?h) := Some (copy_clip v w), Inl b := None)"
      and ob: "ol_objects s1 = (ol_objects s)[nat ?h := (ol_objects s ! nat ?h)\<lparr>ob_handle := ?h\<rparr>]"
      and sh: "ol_showing s1 = add_handle ?h (ol_showing s)" using s1(4) by auto
    have "aobjs s1 = (aobjs s)[nat ?h := (?h, Some (copy_clip v w))]"
      using aobjs_upd [OF ob core_len(2) [OF assms(1)], of "Some (copy_clip v w)"] v(2) by simp
    then show ?thesis using v(1) sh Some assms(3) m(1) n
      by (simp add: absv_def spec_process_def Let_def event_numbers cong: map_cong)
  qed
  from processedI [OF p s1(2) _ _ this] show ?thesis by (simp add: m)
qed

text \<open>The handle of the event is cleared first, so that its own slot stays in the chain.\<close>

lemma process_free:
  assumes "core s (b # ys)" and "ce_good (aev s b)" and "oe_type (evn s b) = OVERLAY_EVENT_FREE_HANDLE"
    and "length (b # ys) < k"
  shows "processed k b ys s"
proof -
  let ?e = "evn s b" and ?h = "oe_handle (evn s b)"
  let ?e' = "?e\<lparr>oe_overlay := None, oe_handle := - 1\<rparr>"
  have b: "b < MAX_EVENTS" using chain_bound [OF core_chain [OF assms(1)]] by simp
  have h: "0 \<le> ?h" "?h < int MAX_OBJECTS" using assms(2) by (simp_all add: ce_good_def)
  have bs: "b \<in> set (b # ys)" by simp
  have o: "own_of (ol_events s) (ol_objects s) (Inl b) = oe_overlay ?e" by (rule own_slot [OF assms(1) b])
  have "rle_of (ol_ovl s) a = None" if "oe_overlay ?e = Some a" for a
    using assms(2,3) o that by (auto simp: val_def hval_def rle_of_def ce_good_def split: option.splits)
  then have f: "free_without_rle (oe_overlay ?e) s = Ret (drop_ovl (oe_overlay ?e) s)"
    by (rule free_without_rle_ok [OF core_heap [OF assms(1)] o])
  define s2 where "s2 = remove_showing_handle ?h (with_event b ?e' (drop_ovl (oe_overlay ?e) s))"
  have d: "core (with_event b ?e' (drop_ovl (oe_overlay ?e) s)) (b # ys)"
    "val (with_event b ?e' (drop_ovl (oe_overlay ?e) s)) = (val s)(Inl b := None)"
    using drop_event_overlay [OF assms(1) bs, of ?e'] by simp_all
  have c2: "core s2 (b # ys)" unfolding s2_def remove_showing_handle_is
    by (rule core_showing [OF d(1)]) (simp add: core_len [OF assms(1)])
  have v2: "val s2 = (val s)(Inl b := None)" using d(2) unfolding s2_def remove_showing_handle_is val_def by simp
  have ev: "ol_events s2 = ol_events (with_event b ?e' s)" by (simp add: s2_def remove_showing_handle_is with_event_def)
  have m2: "map (aev s2) ys = map (aev s) ys" "evn s2 b = ?e'"
    by (rule pending_rest [OF assms(1) ev], simp add: v2)+
  define zs where "zs = filter (\<lambda>n. oe_handle (evn s2 n) \<noteq> ?h) ys"
  have "filter (\<lambda>n. oe_handle (evn s2 n) \<noteq> ?h) (b # ys) = b # zs" using m2(2) h by (simp add: zs_def)
  with remove_loop_ok [of s2 "[]" "b # ys" k ?h] c2 assms(4) obtain s3 where s3:
    "remove_loop k ?h 0 s2 = Ret s3" "core s3 (b # zs)"
    "\<forall>n \<in> {n \<in> set (b # ys). oe_handle (evn s2 n) \<noteq> ?h}. evn s3 n = evn s2 n" "only_removed s2 s3"
    "val s3 = (\<lambda>x. if x \<in> Inl ` {n \<in> set (b # ys). oe_handle (evn s2 n) = ?h} then None else val s2 x)"
    by auto
  define s4 where "s4 = set_object ?h ((ol_objects s3 ! nat ?h)\<lparr>ob_overlay := None, ob_handle := - 1\<rparr>)
    (drop_ovl (ob_overlay (ol_objects s3 ! nat ?h)) s3)"
  note fh = free_handle_ok [OF s3(2) h, folded s4_def]
  have p: "process_event k b s = Ret s4"
    using event_in_ok [OF assms(1) b] assms(3) f b core_len(1) [OF assms(1)] s3(1) fh(1)
    by (simp add: process_event_def event_numbers free_handle_event_def set_event_ok remove_events_handle_def s2_def with_event_def)
  have ev4: "ol_events s4 = ol_events s3" by (simp add: s4_def set_object_def)
  have e4: "evn s4 n = evn s2 n" if "n \<in> set (b # zs)" for n
    using s3(3) that ev4 m2(2) h by (auto simp: zs_def)
  have v4: "val s4 (Inl n) = val s2 (Inl n)" if "n \<in> set (b # zs)" for n
    using that m2(2) h unfolding fh(3) s3(5) by (auto simp: zs_def)
  have ov: "oe_overlay (evn s4 b) = None" using e4 [of b] m2(2) by simp
  have "map (aev s4) zs = map (aev s2) zs" using e4 v4 by (auto intro!: aev_same)
  also have "\<dots> = filter (\<lambda>e. ce_handle e \<noteq> ?h) (map (aev s2) ys)" by (simp add: zs_def filter_map comp_def)
  finally have pend: "map (aev s4) zs = filter (\<lambda>e. ce_handle e \<noteq> ?h) (map (aev s) ys)" unfolding m2(1) .
  have obs: "ol_objects s4 = (ol_objects s)[nat ?h := (ol_objects s3 ! nat ?h)\<lparr>ob_overlay := None, ob_handle := - 1\<rparr>]"
    using s3(4) by (simp add: s4_def set_object_def only_removed_def s2_def remove_showing_handle_is)
  have "aobjs s4 = (aobjs s)[nat ?h := (- 1, None)]"
    using aobjs_upd [OF obs core_len(2) [OF assms(1)], of None] unfolding fh(3) s3(5) v2 by (simp add: image_iff)
  moreover have "ol_showing s4 = drop_handle ?h (ol_showing s)"
    using s3(4) by (simp add: s4_def set_object_def only_removed_def s2_def remove_showing_handle_is)
  ultimately have "absv s4 zs = spec_process (aev s b) (absv s ys)"
    using assms(3) pend by (simp add: absv_def spec_process_def Let_def event_numbers)
  from processedI [OF p fh(2) ov _ this] show ?thesis by (simp add: zs_def)
qed

lemma process_ok:
  assumes "core s (b # ys)" and "ce_good (aev s b)" and "length (b # ys) < k"
  shows "processed k b ys s"
proof -
  have "oe_type (evn s b) \<in> {OVERLAY_EVENT_SHOW, OVERLAY_EVENT_HIDE, OVERLAY_EVENT_MENU_BUTTON, OVERLAY_EVENT_FREE_HANDLE}"
    using assms(2) by (simp add: ce_good_def)
  then show ?thesis using process_show [OF assms(1,2)] process_hide [OF assms(1,2)] process_button [OF assms(1,2)]
      process_free [OF assms(1,2) _ assms(3)] by auto
qed

section \<open>All that is due\<close>

definition dropped :: "nat \<Rightarrow> overlays \<Rightarrow> overlays" where
  "dropped b s = s\<lparr>ol_events := (ol_events s)[0 := (ol_events s ! 0)\<lparr>sl_next := sl_next (ol_events s ! b)\<rparr>,
     b := \<lparr>sl_event = Some ((evn s b)\<lparr>oe_type := 0\<rparr>), sl_next = 0\<rparr>]\<rparr>"

lemma drop_event_ok:
  assumes "core s (b # ys)" and "oe_overlay (evn s b) = None"
  shows "drop_event b s = Ret (dropped b s)" and "core (dropped b s) ys" and "absv (dropped b s) ys = absv s ys"
proof -
  have c: "core s ([] @ b # ys)" using assms(1) by simp
  have l: "0 < MAX_EVENTS" "b < MAX_EVENTS" "0 < b" using core_split [OF c] by simp_all
  have len: "length (ol_events s) = MAX_EVENTS" by (rule core_len(1) [OF assms(1)])
  have se: "sl_event (ol_events s ! b) = Some (evn s b)" by (rule chain_event [OF core_chain [OF assms(1)] l(2)])
  show "drop_event b s = Ret (dropped b s)"
    using l len se by (simp add: drop_event_def slot_at_def set_next_def set_event_def event_in_def dropped_def)
  have own: "own_of (ol_events (dropped b s)) (ol_objects s) = own_of (ol_events s) (ol_objects s)"
    using l len assms(2) own_slot [OF assms(1) l(2)] by (simp add: dropped_def own_event own_next fun_upd_idem)
  have "chain_ok (ol_events (dropped b s)) ys"
    using chain_unlink [of "ol_events s" "[]" b ys "(evn s b)\<lparr>oe_type := 0\<rparr>"] core_chain [OF assms(1)] assms(2)
    by (simp add: dropped_def)
  then show "core (dropped b s) ys" using own core_heap [OF assms(1)] core_len [OF assms(1)]
    by (simp add: core_def dropped_def)
  have v: "val (dropped b s) = val s" using own by (simp add: val_def dropped_def)
  have "evn (dropped b s) n = evn s n" if "n \<in> set ys" for n
  proof -
    have "n \<noteq> b" using that chain_distinct [OF core_chain [OF assms(1)]] by auto
    then show ?thesis by (simp add: dropped_def ev_at_def)
  qed
  then have "map (aev (dropped b s)) ys = map (aev s) ys" using v by (auto intro!: aev_same)
  moreover have "aobjs (dropped b s) = aobjs s" using v by (intro aobjs_same) (simp_all add: dropped_def)
  ultimately show "absv (dropped b s) ys = absv s ys" by (simp add: absv_def) (simp add: dropped_def)
qed

lemma event_loop_ok:
  assumes "core s cs" and "abs_ok (absv s cs)" and "length cs < k"
  shows "\<exists>m A s' cs'. spec_event vpts (absv s cs) = (m, A) \<and> event_loop k vpts p s = Ret (p + m, s') \<and>
      core s' cs' \<and> absv s' cs' = A"
  using assms
proof (induction k arbitrary: p s cs)
  case 0
  then show ?case by simp
next
  case (Suc k)
  have l: "0 < MAX_EVENTS" by (simp add: MAX_EVENTS_def)
  have sl: "slot_at 0 s = Ret (ol_events s ! 0)" "sl_next (ol_events s ! 0) = (case cs of [] \<Rightarrow> 0 | y # _ \<Rightarrow> y)"
    using slot_at_ok [OF Suc.prems(1) l] chain_next [of "ol_events s" "[]" cs] core_chain [OF Suc.prems(1)] by simp_all
  show ?case
  proof (cases cs)
    case Nil
    then have "event_loop (Suc k) vpts p s = Ret (p + 0, s)" using sl by simp
    moreover have "spec_event vpts (absv s cs) = (0, absv s cs)" by (simp add: Nil spec_event.simps [of vpts "absv s []"])
    ultimately show ?thesis using Suc.prems(1) by blast
  next
    case (Cons b ys)
    note c = Suc.prems(1) [unfolded Cons]
    have b: "b < MAX_EVENTS" "0 < b" using chain_bound [OF core_chain [OF c]] chain_pos [OF core_chain [OF c]] by simp_all
    have e: "event_in b s = Ret (evn s b)" by (rule event_in_ok [OF c b(1)])
    have pend: "oa_pending (absv s cs) = aev s b # map (aev s) ys" using Cons by simp
    have t: "(absv s cs)\<lparr>oa_pending := map (aev s) ys\<rparr> = absv s ys" by (simp add: absv_def)
    note at = abs_ok_tail [OF Suc.prems(2) pend, unfolded t]
    show ?thesis
    proof (cases "vpts > oe_vpts (evn s b) \<or> vpts = 0")
      case True
      have "length (b # ys) < Suc k" using Suc.prems(3) Cons by simp
      then have "processed (Suc k) b ys s" using at by (intro process_ok [OF c]) simp_all
      then obtain s1 zs where s1: "process_event (Suc k) b s = Ret s1" "core s1 (b # zs)" "oe_overlay (evn s1 b) = None"
        "length zs \<le> length ys" "absv s1 zs = spec_process (aev s b) (absv s ys)"
        unfolding processed_def by blast
      note dr = drop_event_ok [OF s1(2,3)]
      have "abs_ok (absv (dropped b s1) zs)" unfolding dr(3) s1(5) by (rule abs_ok_process) (use at in simp_all)
      moreover have "length zs < k" using Suc.prems(3) Cons s1(4) by simp
      ultimately obtain m A s' cs' where r: "spec_event vpts (absv (dropped b s1) zs) = (m, A)"
        "event_loop k vpts (p + 1) (dropped b s1) = Ret (p + 1 + m, s')" "core s' cs'" "absv s' cs' = A"
        using Suc.IH [OF dr(2)] by blast
      have "spec_event vpts (absv s cs) = (m + 1, A)"
        using r(1) True unfolding dr(3) s1(5) spec_event.simps [of vpts "absv s cs"] pend by (simp add: t)
      moreover have "event_loop (Suc k) vpts p s = Ret (p + (m + 1), s')"
        using sl Cons b e True s1(1) dr(1) r(2) by (simp add: ac_simps)
      ultimately show ?thesis using r(3,4) by blast
    next
      case False
      have "event_loop (Suc k) vpts p s = Ret (p + 0, s)" using sl Cons b e False by simp
      moreover have "spec_event vpts (absv s cs) = (0, absv s cs)"
        using pend False by (simp add: spec_event.simps [of vpts "absv s cs"])
      ultimately show ?thesis using Suc.prems(1) by blast
    qed
  qed
qed

section \<open>Adding an event\<close>

lemma find_free_ok:
  assumes "core s cs" and "m + k = MAX_EVENTS" and "0 < m"
  shows "\<exists>n. find_free k m s = Ret n \<and> m \<le> n \<and> n \<le> MAX_EVENTS \<and> (n < MAX_EVENTS \<longrightarrow> n \<notin> set cs) \<and>
    (\<forall>j. m \<le> j \<and> j < n \<longrightarrow> j \<in> set cs)"
  using assms(2,3)
proof (induction k arbitrary: m)
  case 0
  then show ?case by auto
next
  case (Suc k)
  have m: "m < MAX_EVENTS" using Suc.prems by simp
  have e: "event_in m s = Ret (evn s m)" by (rule event_in_ok [OF assms(1) m])
  have t: "(0 < oe_type (evn s m)) = (m \<in> set cs)" using core_chain [OF assms(1)] m Suc.prems unfolding chain_ok_def by blast
  show ?case
  proof (cases "m \<in> set cs")
    case True
    obtain n where "find_free k (m + 1) s = Ret n" "m + 1 \<le> n" "n \<le> MAX_EVENTS" "n < MAX_EVENTS \<longrightarrow> n \<notin> set cs"
      "\<forall>j. m + 1 \<le> j \<and> j < n \<longrightarrow> j \<in> set cs" using Suc.IH [of "m + 1"] Suc.prems by auto
    moreover have "\<forall>j. m \<le> j \<and> j < n \<longrightarrow> j \<in> set cs"
      using calculation(5) True by (metis Suc_eq_plus1 Suc_leI le_eq_less_or_eq)
    ultimately show ?thesis using e t True by auto
  next
    case False
    then show ?thesis using e t m by auto
  qed
qed

lemma full_length:
  assumes "core s cs"
  shows "(\<forall>j. 1 \<le> j \<and> j < MAX_EVENTS \<longrightarrow> j \<in> set cs) = (length cs = MAX_EVENTS - 1)"
proof -
  have sub: "set cs \<subseteq> {1 ..< MAX_EVENTS}"
    using chain_bound [OF core_chain [OF assms]] chain_pos [OF core_chain [OF assms]] by force
  have card: "card (set cs) = length cs" using chain_distinct [OF core_chain [OF assms]] by (simp add: distinct_card)
  have "(\<forall>j. 1 \<le> j \<and> j < MAX_EVENTS \<longrightarrow> j \<in> set cs) = ({1 ..< MAX_EVENTS} \<subseteq> set cs)" by auto
  also have "\<dots> = (set cs = {1 ..< MAX_EVENTS})" using sub by blast
  also have "\<dots> = (length cs = MAX_EVENTS - 1)"
  proof
    assume "length cs = MAX_EVENTS - 1"
    then show "set cs = {1 ..< MAX_EVENTS}" using sub card by (intro card_subset_eq) simp_all
  next
    assume "set cs = {1 ..< MAX_EVENTS}"
    then show "length cs = MAX_EVENTS - 1" using card by simp
  qed
  finally show ?thesis .
qed

lemma find_place_ok:
  fixes vpts :: int
  assumes "core s (xs @ ys)" and "length ys < k"
  defines "P \<equiv> \<lambda>n. oe_vpts (evn s n) \<le> vpts"
  shows "find_place k vpts (last (0 # xs)) s =
    Ret (last (0 # xs @ takeWhile P ys), case dropWhile P ys of [] \<Rightarrow> 0 | y # _ \<Rightarrow> y)"
  using assms(1,2)
proof (induction k arbitrary: xs ys)
  case 0
  then show ?case by simp
next
  case (Suc k)
  define a where "a = last (0 # xs)"
  have sl: "slot_at a s = Ret (ol_events s ! a)" "sl_next (ol_events s ! a) = (case ys of [] \<Rightarrow> 0 | y # _ \<Rightarrow> y)"
    unfolding a_def using slot_at_ok [OF Suc.prems(1)] chain_last_bound [OF core_chain [OF Suc.prems(1)]]
      chain_next [OF core_chain [OF Suc.prems(1)]] by simp_all
  show ?case unfolding a_def [symmetric]
  proof (cases ys)
    case Nil
    then show "find_place (Suc k) vpts a s = Ret (last (0 # xs @ takeWhile P ys), case dropWhile P ys of [] \<Rightarrow> 0 | y # _ \<Rightarrow> y)"
      using sl by (simp add: a_def)
  next
    case (Cons y zs)
    note c = Suc.prems(1) [unfolded Cons]
    note l = core_split [OF c]
    have e: "event_in y s = Ret (evn s y)" by (rule event_in_ok [OF c l(2)])
    show "find_place (Suc k) vpts a s = Ret (last (0 # xs @ takeWhile P ys), case dropWhile P ys of [] \<Rightarrow> 0 | y # _ \<Rightarrow> y)"
    proof (cases "P y")
      case True
      have "core s ((xs @ [y]) @ zs)" using c by simp
      from Suc.IH [OF this] show ?thesis using Suc.prems(2) sl Cons l e True by (simp add: P_def)
    next
      case False
      then show ?thesis using sl Cons l e by (simp add: P_def a_def)
    qed
  qed
qed

definition linked :: "nat \<Rightarrow> nat \<Rightarrow> nat \<Rightarrow> ov_event \<Rightarrow> overlays \<Rightarrow> overlays" where
  "linked a n nx e s = s\<lparr>ol_events := (ol_events s)[a := (ol_events s ! a)\<lparr>sl_next := n\<rparr>, n := \<lparr>sl_event = Some e, sl_next = nx\<rparr>]\<rparr>"

lemma add_event_runs:
  fixes e :: caller_event
  assumes "core s cs" and "length cs < k" and "find_free (MAX_EVENTS - 1) 1 s = Ret n" and "n < MAX_EVENTS" and "n \<notin> set cs" and "0 < n"
  defines "P \<equiv> \<lambda>m. oe_vpts (evn s m) \<le> ce_vpts e"
  defines "e' \<equiv> \<lparr>oe_type = ce_type e, oe_vpts = ce_vpts e, oe_handle = ce_handle e, oe_pts = ce_pts e,
    oe_overlay = fst (take_overlay (ce_overlay e) s)\<rparr>"
  defines "s1 \<equiv> linked (last (0 # takeWhile P cs)) n (case dropWhile P cs of [] \<Rightarrow> 0 | y # _ \<Rightarrow> y) e' (snd (take_overlay (ce_overlay e) s))"
  shows "video_overlay_add_event k e s = Ret (int n, e\<lparr>ce_overlay := map_option (\<lambda>_. no_overlay) (ce_overlay e)\<rparr>, s1)"
proof -
  have fp: "find_place k (ce_vpts e) 0 s = Ret (last (0 # takeWhile P cs), case dropWhile P cs of [] \<Rightarrow> 0 | y # _ \<Rightarrow> y)"
    using find_place_ok [of s "[]" cs k "ce_vpts e"] assms(1,2) by (simp add: P_def)
  define a where "a = last (0 # takeWhile P cs)"
  define nx where "nx = (case dropWhile P cs of [] \<Rightarrow> 0 | y # _ \<Rightarrow> y)"
  have "core s (takeWhile P cs @ dropWhile P cs)" using assms(1) by simp
  then have a: "a < MAX_EVENTS" unfolding a_def by (intro chain_last_bound [OF core_chain])
  have "n \<notin> set (0 # takeWhile P cs)" using assms(5,6) by (auto dest: set_takeWhileD)
  then have ne: "a \<noteq> n" unfolding a_def by (metis last_in_set list.distinct(1))
  have len: "length (ol_events s) = MAX_EVENTS" by (rule core_len(1) [OF assms(1)])
  show ?thesis unfolding video_overlay_add_event_def assms(3) obind.simps s1_def
    using fp assms(4) a ne len unfolding a_def [symmetric] nx_def [symmetric]
    by (cases "ce_overlay e") (simp_all add: set_next_def set_event_def slot_at_def take_overlay_def linked_def e'_def)
qed

text \<open>The caller owns the run-length data it passes.\<close>

definition caller_rle :: "caller_event \<Rightarrow> overlays \<Rightarrow> bool" where
  "caller_rle e s \<longleftrightarrow>
     (case ce_overlay e of None \<Rightarrow> True | Some v \<Rightarrow> set_option (ov_rle v) \<subseteq> ol_rle s - ran (rle_of (ol_ovl s)))"

lemma linked_own:
  assumes "a < length (ol_events s)" and "n < length (ol_events s)" and "a \<noteq> n"
  shows "own_of (ol_events (linked a n nx e s)) obs = (own_of (ol_events s) obs)(Inl n := oe_overlay e)"
  using assms by (simp add: linked_def own_event own_next)

lemma take_heap:
  fixes e :: caller_event
  assumes "heap_ok own (ol_ovl s) (ol_rle s) (ol_fresh s)" and "own x = None" and "caller_rle e s"
  defines "s1 \<equiv> snd (take_overlay (ce_overlay e) s)" and "p \<equiv> fst (take_overlay (ce_overlay e) s)"
  shows "heap_ok (own(x := p)) (ol_ovl s1) (ol_rle s1) (ol_fresh s1)" and
    "hval (own(x := p)) (ol_ovl s1) = (hval own (ol_ovl s))(x := ce_overlay e)"
proof -
  have "heap_ok (own(x := p)) (ol_ovl s1) (ol_rle s1) (ol_fresh s1) \<and>
    hval (own(x := p)) (ol_ovl s1) = (hval own (ol_ovl s))(x := ce_overlay e)"
  proof (cases "ce_overlay e")
    case None
    then show ?thesis using assms(1,2) hval_none [of own x "ol_ovl s"]
      by (simp add: s1_def p_def take_overlay_def fun_upd_idem)
  next
    case (Some v)
    have "set_option (ov_rle v) \<subseteq> ol_rle s - ran (rle_of (ol_ovl s))" using assms(3) Some by (simp add: caller_rle_def)
    from heap_new [OF assms(1,2) this] hval_new [OF assms(1)] show ?thesis
      using Some by (simp add: s1_def p_def take_overlay_def)
  qed
  then show "heap_ok (own(x := p)) (ol_ovl s1) (ol_rle s1) (ol_fresh s1)"
    "hval (own(x := p)) (ol_ovl s1) = (hval own (ol_ovl s))(x := ce_overlay e)" by blast+
qed

lemma take_overlay_fields [simp]:
  "ol_events (snd (take_overlay v s)) = ol_events s" "ol_objects (snd (take_overlay v s)) = ol_objects s"
  "ol_showing (snd (take_overlay v s)) = ol_showing s" "ol_changed (snd (take_overlay v s)) = ol_changed s"
  by (simp_all add: take_overlay_def split: option.split)

lemma add_event_ok:
  assumes "core s cs" and "length cs < k" and "0 < ce_type e" and "caller_rle e s"
  shows "if length cs = MAX_EVENTS - 1 then video_overlay_add_event k e s = Ret (- 1, e, s)
    else \<exists>n s1 cs1. video_overlay_add_event k e s = Ret (int n, e\<lparr>ce_overlay := map_option (\<lambda>_. no_overlay) (ce_overlay e)\<rparr>, s1) \<and>
      0 < n \<and> n < MAX_EVENTS \<and> core s1 cs1 \<and> absv s1 cs1 = spec_add e (absv s cs)"
proof -
  obtain n where n: "find_free (MAX_EVENTS - 1) 1 s = Ret n" "1 \<le> n" "n \<le> MAX_EVENTS" "n < MAX_EVENTS \<longrightarrow> n \<notin> set cs"
    "\<forall>j. 1 \<le> j \<and> j < n \<longrightarrow> j \<in> set cs" using find_free_ok [OF assms(1), of 1 "MAX_EVENTS - 1"] by (auto simp: MAX_EVENTS_def)
  have full: "(length cs = MAX_EVENTS - 1) = (n = MAX_EVENTS)" using full_length [OF assms(1)] n(2-5) by (metis le_neq_implies_less)
  show ?thesis
  proof (cases "n = MAX_EVENTS")
    case True
    then show ?thesis using full n(1) by (simp add: video_overlay_add_event_def)
  next
    case False
    then have nn: "n < MAX_EVENTS" "n \<notin> set cs" "0 < n" using n by simp_all
    define P where "P = (\<lambda>m. oe_vpts (evn s m) \<le> ce_vpts e)"
    define xs where "xs = takeWhile P cs"
    define ys where "ys = dropWhile P cs"
    define e' where "e' = \<lparr>oe_type = ce_type e, oe_vpts = ce_vpts e, oe_handle = ce_handle e, oe_pts = ce_pts e,
      oe_overlay = fst (take_overlay (ce_overlay e) s)\<rparr>"
    define s0 where "s0 = snd (take_overlay (ce_overlay e) s)"
    define s1 where "s1 = linked (last (0 # xs)) n (case ys of [] \<Rightarrow> 0 | y # _ \<Rightarrow> y) e' s0"
    have r: "video_overlay_add_event k e s = Ret (int n, e\<lparr>ce_overlay := map_option (\<lambda>_. no_overlay) (ce_overlay e)\<rparr>, s1)"
      unfolding s1_def s0_def e'_def xs_def ys_def P_def by (rule add_event_runs [OF assms(1,2) n(1) nn])
    have cs: "cs = xs @ ys" by (simp add: xs_def ys_def)
    have c: "chain_ok (ol_events s) (xs @ ys)" using core_chain [OF assms(1)] cs by simp
    have a: "last (0 # xs) < MAX_EVENTS" by (rule chain_last_bound [OF c])
    have "n \<notin> set (0 # xs)" using nn cs by simp
    then have ne: "last (0 # xs) \<noteq> n" by (metis last_in_set list.distinct(1))
    have len: "length (ol_events s0) = MAX_EVENTS" "ol_objects s0 = ol_objects s" "ol_showing s0 = ol_showing s"
      "ol_events s0 = ol_events s" using core_len(1) [OF assms(1)] by (simp_all add: s0_def)
    have own: "own_of (ol_events s1) (ol_objects s1) = (own_of (ol_events s) (ol_objects s))(Inl n := oe_overlay e')"
      unfolding s1_def using linked_own [of "last (0 # xs)" s0 n] a nn(1) ne len by (simp add: linked_def)
    have on: "own_of (ol_events s) (ol_objects s) (Inl n) = None"
      using own_slot [OF assms(1) nn(1)] core_chain [OF assms(1)] nn(1,2) unfolding chain_ok_def by simp
    note th = take_heap [OF core_heap [OF assms(1)] on assms(4)]
    have ch: "chain_ok (ol_events s1) (xs @ n # ys)"
      using chain_insert [OF c nn(3,1) _ , of e'] nn(2) cs assms(3) len by (simp add: s1_def linked_def e'_def)
    have c1: "core s1 (xs @ n # ys)" unfolding core_def own
      using ch th(1) core_len [OF assms(1)] len by (simp add: s1_def linked_def e'_def s0_def)
    have v: "val s1 = (val s)(Inl n := ce_overlay e)" unfolding val_def own
      using th(2) by (simp add: s1_def linked_def e'_def s0_def)
    have ev: "evn s1 m = (if m = n then e' else evn s m)" if "m < MAX_EVENTS" for m
      using that nn(1) len by (simp add: s1_def linked_def ev_at_def nth_list_update)
    have old: "aev s1 m = aev s m" if "m \<in> set cs" for m
    proof -
      have "m \<noteq> n" "m < MAX_EVENTS" using that nn chain_bound [OF core_chain [OF assms(1)], of m] by auto
      then show ?thesis using ev v by (intro aev_same) simp_all
    qed
    have new: "aev s1 n = e" using ev [OF nn(1)] v by (simp add: aev_def e'_def)
    have P: "takeWhile (\<lambda>x. ce_vpts x \<le> ce_vpts e) (map (aev s) cs) = map (aev s) xs"
      "dropWhile (\<lambda>x. ce_vpts x \<le> ce_vpts e) (map (aev s) cs) = map (aev s) ys"
      by (simp_all add: takeWhile_map dropWhile_map comp_def xs_def ys_def P_def)
    have "map (aev s1) (xs @ n # ys) = map (aev s) xs @ e # map (aev s) ys" using old new cs by simp
    moreover have "aobjs s1 = aobjs s" using v len by (intro aobjs_same) (simp_all add: s1_def linked_def)
    moreover have "ol_showing s1 = ol_showing s" using len by (simp add: s1_def linked_def)
    ultimately have "absv s1 (xs @ n # ys) = spec_add e (absv s cs)" by (simp add: absv_def spec_add_def P)
    then show ?thesis using full False r c1 nn by auto
  qed
qed

section \<open>Handles\<close>

lemma free_handle_abs:
  assumes "core s cs" and "length cs < k" and "0 \<le> h" and "h < int MAX_OBJECTS"
  shows "\<exists>s1 cs1. video_overlay_free_handle k h s = Ret s1 \<and> core s1 cs1 \<and> absv s1 cs1 = spec_free h (absv s cs)"
proof -
  define s2 where "s2 = remove_showing_handle h s"
  have c2: "core s2 cs" unfolding s2_def remove_showing_handle_is by (rule core_showing [OF assms(1)]) (simp add: core_len [OF assms(1)])
  have v2: "val s2 = val s" and e2: "evn s2 = evn s" by (simp_all add: s2_def remove_showing_handle_is val_def)
  define zs where "zs = filter (\<lambda>n. oe_handle (evn s n) \<noteq> h) cs"
  from remove_loop_ok [of s2 "[]" cs k h] c2 assms(2) obtain s3 where s3: "remove_loop k h 0 s2 = Ret s3" "core s3 zs"
    "\<forall>n \<in> {n \<in> set cs. oe_handle (evn s n) \<noteq> h}. evn s3 n = evn s n" "only_removed s2 s3"
    "val s3 = (\<lambda>x. if x \<in> Inl ` {n \<in> set cs. oe_handle (evn s n) = h} then None else val s x)"
    unfolding zs_def v2 e2 by auto
  define s4 where "s4 = set_object h ((ol_objects s3 ! nat h)\<lparr>ob_overlay := None, ob_handle := - 1\<rparr>)
    (drop_ovl (ob_overlay (ol_objects s3 ! nat h)) s3)"
  note fh = free_handle_ok [OF s3(2) assms(3,4), folded s4_def]
  have r: "video_overlay_free_handle k h s = Ret s4"
    using s3(1) fh(1) by (simp add: video_overlay_free_handle_def remove_events_handle_def s2_def)
  have ev4: "ol_events s4 = ol_events s3" by (simp add: s4_def set_object_def)
  have "aev s4 n = aev s n" if "n \<in> set zs" for n
    using that s3(3) unfolding aev_def ev4 fh(3) s3(5) by (auto simp: zs_def)
  then have "map (aev s4) zs = map (aev s) zs" by simp
  also have "\<dots> = filter (\<lambda>e. ce_handle e \<noteq> h) (map (aev s) cs)" by (simp add: zs_def filter_map comp_def)
  finally have pend: "map (aev s4) zs = filter (\<lambda>e. ce_handle e \<noteq> h) (map (aev s) cs)" .
  have obs: "ol_objects s4 = (ol_objects s)[nat h := (ol_objects s3 ! nat h)\<lparr>ob_overlay := None, ob_handle := - 1\<rparr>]"
    using s3(4) by (simp add: s4_def set_object_def only_removed_def s2_def remove_showing_handle_is)
  have "aobjs s4 = (aobjs s)[nat h := (- 1, None)]"
    using aobjs_upd [OF obs core_len(2) [OF assms(1)], of None] unfolding fh(3) s3(5) by (simp add: image_iff)
  moreover have "ol_showing s4 = drop_handle h (ol_showing s)"
    using s3(4) by (simp add: s4_def set_object_def only_removed_def s2_def remove_showing_handle_is)
  ultimately have "absv s4 zs = spec_free h (absv s cs)" using pend by (simp add: absv_def spec_free_def)
  then show ?thesis using r fh(2) by blast
qed

text \<open>A handle that is given out was free.\<close>

definition spec_get :: "ov_abs \<Rightarrow> int \<times> ov_abs" where
  "spec_get A =
     (case first_index (\<lambda>ob. fst ob = - 1) (oa_objs A) of None \<Rightarrow> (- 1, A)
      | Some n \<Rightarrow> (int n, A\<lparr>oa_objs := (oa_objs A)[n := (int n, None)]\<rparr>))"

lemma first_index_map: "first_index P (map f xs) = first_index (\<lambda>x. P (f x)) xs"
  by (induction xs) auto

lemma first_index_cong: "(\<And>x. x \<in> set xs \<Longrightarrow> P x = Q x) \<Longrightarrow> first_index P xs = first_index Q xs"
  by (induction xs) auto

lemma get_handle_abs:
  assumes "core s cs" and "abs_ok (absv s cs)"
  shows "\<exists>s1. core s1 cs \<and> (fst (video_overlay_get_handle t s), absv s1 cs) = spec_get (absv s cs) \<and>
    snd (video_overlay_get_handle t s) = s1"
proof -
  have len: "length (ol_objects s) = MAX_OBJECTS" by (rule core_len(2) [OF assms(1)])
  have o: "ob_handle (ol_objects s ! n) = int n \<or> ob_handle (ol_objects s ! n) = - 1 \<and> val s (Inr n) = None" if "n < MAX_OBJECTS" for n
    using assms(2) that by (auto simp: abs_ok_def objs_ok_def aobjs_nth)
  have map: "ol_objects s = map (\<lambda>n. ol_objects s ! n) [0 ..< MAX_OBJECTS]" using len by (metis map_nth)
  have "first_index (\<lambda>ob. \<not> ob_handle ob > - 1) (ol_objects s) = first_index (\<lambda>n. \<not> ob_handle (ol_objects s ! n) > - 1) [0 ..< MAX_OBJECTS]"
    by (subst map) (rule first_index_map)
  also have "\<dots> = first_index (\<lambda>n. ob_handle (ol_objects s ! n) = - 1) [0 ..< MAX_OBJECTS]"
    by (rule first_index_cong) (use o in fastforce)
  also have "\<dots> = first_index (\<lambda>ob. fst ob = - 1) (aobjs s)" by (simp add: aobjs_def first_index_map)
  finally have fi: "first_index (\<lambda>ob. \<not> ob_handle ob > - 1) (ol_objects s) = first_index (\<lambda>ob. fst ob = - 1) (aobjs s)" .
  show ?thesis
  proof (cases "first_index (\<lambda>ob. fst ob = - 1) (aobjs s)")
    case None
    then show ?thesis using fi assms(1) by (simp add: video_overlay_get_handle_def spec_get_def)
  next
    case (Some n)
    then have n: "n < MAX_OBJECTS" "ob_handle (ol_objects s ! n) = - 1"
      using first_index_Some [OF Some] by (auto simp: aobjs_def)
    define ob where "ob = (ol_objects s ! n)\<lparr>ob_handle := int n, ob_object_type := t\<rparr>"
    define s1 where "s1 = s\<lparr>ol_objects := (ol_objects s)[n := ob]\<rparr>"
    have "own_of (ol_events s) (ol_objects s1) = own_of (ol_events s) (ol_objects s)"
      using own_object [of n "ol_objects s" "ol_events s" ob] n len own_obj [OF assms(1) n(1)]
      by (simp add: s1_def ob_def fun_upd_idem)
    then have own: "own_of (ol_events s1) (ol_objects s1) = own_of (ol_events s) (ol_objects s)" by (simp add: s1_def)
    have c1: "core s1 cs" unfolding core_def own using core_heap [OF assms(1)] core_chain [OF assms(1)] core_len [OF assms(1)]
      by (simp add: s1_def)
    have v: "val s1 = val s" unfolding val_def own by (simp add: s1_def)
    have "val s (Inr n) = None" using o [OF n(1)] n(2) by auto
    then have "aobjs s1 = (aobjs s)[n := (int n, None)]"
      using aobjs_upd [of s1 s n ob None] v len by (simp add: s1_def ob_def)
    moreover have "map (aev s1) cs = map (aev s) cs" using v by (simp add: aev_def s1_def)
    ultimately have "absv s1 cs = (absv s cs)\<lparr>oa_objs := (aobjs s)[n := (int n, None)]\<rparr>"
      by (simp add: absv_def) (simp add: s1_def)
    then show ?thesis using Some fi c1 by (simp add: video_overlay_get_handle_def spec_get_def s1_def ob_def)
  qed
qed

lemma abs_ok_get: "abs_ok A \<Longrightarrow> abs_ok (snd (spec_get A))"
proof (cases "first_index (\<lambda>ob. fst ob = - 1) (oa_objs A)")
  case None
  then show "abs_ok A \<Longrightarrow> abs_ok (snd (spec_get A))" by (simp add: spec_get_def)
next
  case (Some n)
  assume a: "abs_ok A"
  have len: "length (oa_objs A) = MAX_OBJECTS" using a by (simp add: abs_ok_def objs_ok_def)
  have n: "n < MAX_OBJECTS" "fst (oa_objs A ! n) = - 1" using first_index_Some [OF Some] len by auto
  have none: "snd (oa_objs A ! n) = None" using a n unfolding abs_ok_def objs_ok_def by force
  have "objs_ok ((oa_objs A)[n := (int n, None)]) (oa_pending A)"
    using a unfolding abs_ok_def objs_ok_def by (auto simp: nth_upd)
  moreover have "int n \<notin> set (oa_showing A)" using a none unfolding abs_ok_def shown_ok_def by auto
  then have "shown_ok ((oa_objs A)[n := (int n, None)]) (oa_showing A)"
    using a shown_object [of "oa_objs A" "oa_showing A" n "(int n, None)"] unfolding abs_ok_def by blast
  ultimately show "abs_ok (snd (spec_get A))" using a Some by (simp add: spec_get_def abs_ok_def)
qed

section \<open>Blending and disposing\<close>

lemma blend_showing_ok:
  assumes "core s cs" and "\<forall>h \<in> set hs. h < int MAX_OBJECTS"
  shows "blend_showing hs s = Ret (map (\<lambda>h. Overlay_blend (ob_overlay (ol_objects s ! nat h))) (filter (\<lambda>h. 0 \<le> h) hs))"
  using assms(2) by (induction hs) (simp_all add: object_at_ok [OF assms(1)])

lemma free_overlays_ok:
  assumes "heap_ok own (ol_ovl s) (ol_rle s) (ol_fresh s)" and "distinct xs"
  shows "\<exists>s1. free_overlays (map own xs) s = Ret s1 \<and>
    heap_ok (\<lambda>x. if x \<in> set xs then None else own x) (ol_ovl s1) (ol_rle s1) (ol_fresh s1) \<and>
    ol_objects s1 = ol_objects s \<and> ol_rle s1 - ran (rle_of (ol_ovl s1)) = ol_rle s - ran (rle_of (ol_ovl s))"
  using assms
proof (induction xs arbitrary: own s)
  case Nil
  then show ?case by simp
next
  case (Cons x xs)
  define s1 where "s1 = drop_ovl (own x) s"
  have f: "free_with_rle (own x) s = Ret s1" unfolding s1_def by (rule free_with_rle_ok [OF Cons.prems(1) refl])
  have h: "heap_ok (own(x := None)) (ol_ovl s1) (ol_rle s1) (ol_fresh s1)"
    using drop_ovl_heap [OF Cons.prems(1) refl, of x] by (simp add: s1_def)
  have m: "map (own(x := None)) xs = map own xs" and d: "distinct xs" using Cons.prems(2) by auto
  obtain s2 where s2: "free_overlays (map own xs) s1 = Ret s2"
    "heap_ok (\<lambda>y. if y \<in> set xs then None else (own(x := None)) y) (ol_ovl s2) (ol_rle s2) (ol_fresh s2)"
    "ol_objects s2 = ol_objects s1" "ol_rle s2 - ran (rle_of (ol_ovl s2)) = ol_rle s1 - ran (rle_of (ol_ovl s1))"
    using Cons.IH [OF h d, unfolded m] by blast
  have "(\<lambda>y. if y \<in> set xs then None else (own(x := None)) y) = (\<lambda>y. if y \<in> set (x # xs) then None else own y)" by auto
  moreover have "ol_rle s1 - ran (rle_of (ol_ovl s1)) = ol_rle s - ran (rle_of (ol_ovl s))"
  proof -
    have "inj_map (rle_of (ol_ovl s))" using Cons.prems(1) by (simp add: heap_ok_def)
    then show ?thesis by (cases "own x") (auto simp: s1_def drop_ovl_def ran_drop intro: ranI)
  qed
  ultimately show ?case using f s2 by (auto simp: s1_def)
qed

lemma overlay_dispose_ok:
  assumes "core s cs"
  shows "\<exists>s1. video_overlay_dispose s = Ret s1 \<and> ol_ovl s1 = Map.empty \<and> ol_rle s1 = ol_rle s - ran (rle_of (ol_ovl s))"
proof -
  let ?own = "own_of (ol_events s) (ol_objects s)"
  let ?xs = "map Inl [0 ..< MAX_EVENTS] :: (nat + nat) list" and ?ys = "map Inr [0 ..< MAX_OBJECTS] :: (nat + nat) list"
  have len: "length (ol_events s) = MAX_EVENTS" "length (ol_objects s) = MAX_OBJECTS" by (rule core_len [OF assms])+
  have e: "map (\<lambda>sl. case sl_event sl of None \<Rightarrow> None | Some e \<Rightarrow> oe_overlay e) (ol_events s) = map ?own ?xs"
  proof (rule nth_equalityI)
    fix n assume "n < length (map (\<lambda>sl. case sl_event sl of None \<Rightarrow> None | Some e \<Rightarrow> oe_overlay e) (ol_events s))"
    then show "map (\<lambda>sl. case sl_event sl of None \<Rightarrow> None | Some e \<Rightarrow> oe_overlay e) (ol_events s) ! n = map ?own ?xs ! n"
      using len chain_event [OF core_chain [OF assms], of n] by (simp add: own_of_def)
  qed (simp add: len)
  have d: "distinct ?xs" "distinct ?ys" by (simp_all add: distinct_map)
  obtain s1 where s1: "free_overlays (map ?own ?xs) s = Ret s1"
    "heap_ok (\<lambda>x. if x \<in> set ?xs then None else ?own x) (ol_ovl s1) (ol_rle s1) (ol_fresh s1)"
    "ol_objects s1 = ol_objects s" "ol_rle s1 - ran (rle_of (ol_ovl s1)) = ol_rle s - ran (rle_of (ol_ovl s))"
    using free_overlays_ok [OF core_heap [OF assms] d(1)] by blast
  let ?own1 = "\<lambda>x. if x \<in> set ?xs then None else ?own x"
  have o: "map ob_overlay (ol_objects s1) = map ?own1 ?ys"
  proof (rule nth_equalityI)
    fix n assume "n < length (map ob_overlay (ol_objects s1))"
    then show "map ob_overlay (ol_objects s1) ! n = map ?own1 ?ys ! n"
      using len s1(3) by (auto simp: own_of_def)
  qed (simp add: len s1(3))
  obtain s2 where s2: "free_overlays (map ?own1 ?ys) s1 = Ret s2"
    "heap_ok (\<lambda>x. if x \<in> set ?ys then None else ?own1 x) (ol_ovl s2) (ol_rle s2) (ol_fresh s2)"
    "ol_rle s2 - ran (rle_of (ol_ovl s2)) = ol_rle s1 - ran (rle_of (ol_ovl s1))"
    using free_overlays_ok [OF s1(2) d(2)] by blast
  have "(\<lambda>x. if x \<in> set ?ys then None else ?own1 x) = Map.empty"
  proof (rule ext)
    fix x show "(if x \<in> set ?ys then None else ?own1 x) = None"
      by (cases x) (auto simp: own_of_def len)
  qed
  then have "dom (ol_ovl s2) = {}" using s2(2) unfolding heap_ok_def by (metis ran_empty)
  then have "ol_ovl s2 = Map.empty" by simp
  moreover from this have "ran (rle_of (ol_ovl s2)) = {}" by (auto simp: rle_of_def ran_def)
  ultimately show ?thesis using e o s1 s2 by (simp add: video_overlay_dispose_def)
qed

end
