(* ===== verification/Overlay_Props.thy ===== *)
theory Overlay_Props
  imports Overlay_Refine
begin

text \<open>
  The overlay manager with its clients: the states they can reach, and the properties.
\<close>

section \<open>The manager at the start\<close>

definition ov_start :: overlays where
  "ov_start =
     \<lparr>ol_events = replicate MAX_EVENTS \<lparr>sl_event = Some \<lparr>oe_type = 0, oe_vpts = 0, oe_handle = 0, oe_pts = 0, oe_overlay = None\<rparr>, sl_next = 0\<rparr>,
      ol_objects = replicate MAX_OBJECTS \<lparr>ob_handle = - 1, ob_object_type = 0, ob_pts = 0, ob_overlay = None\<rparr>,
      ol_showing = replicate MAX_SHOWING (- 1), ol_changed = 0, ol_ovl = Map.empty, ol_fresh = 0, ol_rle = {}\<rparr>"

lemma map_upto_upd: "n < m \<Longrightarrow> (map f [0 ..< m])[n := y] = map (f(n := y)) [0 ..< m]"
  by (rule nth_equalityI) (auto simp: nth_list_update)

lemma free_handles_fresh:
  assumes "ol_objects s = map (\<lambda>_. z) [0 ..< MAX_OBJECTS]" and "ob_overlay z = None" and "n \<le> MAX_OBJECTS"
  shows "free_handles n s = Ret (s\<lparr>ol_objects := map (\<lambda>i. if i < n then z\<lparr>ob_handle := - 1\<rparr> else z) [0 ..< MAX_OBJECTS]\<rparr>)"
  using assms(3)
proof (induction n)
  case 0
  show ?case using assms(1) by simp
next
  case (Suc n)
  have z: "z\<lparr>ob_overlay := None, ob_handle := - 1\<rparr> = z\<lparr>ob_handle := - 1\<rparr>" using assms(2) by (cases z) simp
  have "(\<lambda>i. if i < n then z\<lparr>ob_handle := - 1\<rparr> else z)(n := z\<lparr>ob_handle := - 1\<rparr>) = (\<lambda>i. if i < Suc n then z\<lparr>ob_handle := - 1\<rparr> else z)"
    by auto
  then show ?case using Suc assms(2) z
    by (simp add: internal_video_overlay_free_handle_def object_at_def free_with_rle_def set_object_def map_upto_upd)
qed

lemma overlay_init_ok: "video_overlay_init video_overlay_new_manager = Ret ov_start"
proof -
  let ?z = "\<lparr>ob_handle = 0, ob_object_type = 0, ob_pts = 0, ob_overlay = None\<rparr>"
  let ?s = "video_overlay_new_manager\<lparr>ol_events := replicate MAX_EVENTS \<lparr>sl_event = Some \<lparr>oe_type = 0, oe_vpts = 0, oe_handle = 0, oe_pts = 0, oe_overlay = None\<rparr>, sl_next = 0\<rparr>\<rparr>"
  have r: "replicate m x = map (\<lambda>_. x) [0 ..< m]" for m and x :: 'a by (simp add: map_replicate_const)
  have "free_handles MAX_OBJECTS ?s = Ret (?s\<lparr>ol_objects := map (\<lambda>i. if i < MAX_OBJECTS then ?z\<lparr>ob_handle := - 1\<rparr> else ?z) [0 ..< MAX_OBJECTS]\<rparr>)"
    by (rule free_handles_fresh) (simp_all add: video_overlay_new_manager_def map_replicate_const)
  moreover have "map (\<lambda>i. if i < MAX_OBJECTS then ?z\<lparr>ob_handle := - 1\<rparr> else ?z) [0 ..< MAX_OBJECTS] =
      replicate MAX_OBJECTS \<lparr>ob_handle = - 1, ob_object_type = 0, ob_pts = 0, ob_overlay = None\<rparr>"
    by (rule nth_equalityI) simp_all
  ultimately have "free_handles MAX_OBJECTS ?s = Ret (?s\<lparr>ol_objects := replicate MAX_OBJECTS \<lparr>ob_handle = - 1, ob_object_type = 0, ob_pts = 0, ob_overlay = None\<rparr>\<rparr>)"
    by simp
  then show ?thesis
    by (simp add: video_overlay_init_def video_overlay_reset_def video_overlay_new_manager_def ov_start_def)
qed

lemma start_core: "core ov_start []"
proof -
  have own: "own_of (ol_events ov_start) (ol_objects ov_start) = Map.empty"
    by (auto simp: own_of_def ev_at_def ov_start_def fun_eq_iff split: sum.split)
  have "heap_ok Map.empty Map.empty {} 0" by (auto simp: heap_ok_def inj_map_def rle_of_def ran_def)
  moreover have "chain_ok (ol_events ov_start) []"
    by (simp add: chain_ok_def ov_start_def ev_at_def nexts_def idx_ptr_def MAX_EVENTS_def)
  ultimately show ?thesis unfolding core_def own by (simp add: ov_start_def)
qed

lemma start_abs: "absv ov_start [] = \<lparr>oa_pending = [], oa_objs = replicate MAX_OBJECTS (- 1, None), oa_showing = replicate MAX_SHOWING (- 1)\<rparr>"
proof -
  have "val ov_start x = None" for x
    using hval_held [OF core_heap [OF start_core], of x]
    by (simp add: val_def own_of_def ev_at_def ov_start_def split: sum.splits)
  then have "aobjs ov_start = replicate MAX_OBJECTS (- 1, None)"
    unfolding aobjs_def by (intro nth_equalityI) (simp_all add: ov_start_def)
  then show ?thesis by (simp add: absv_def ov_start_def)
qed

lemma start_ok: "abs_ok (absv ov_start [])"
  unfolding start_abs by (simp add: abs_ok_def shown_ok_def objs_ok_def MAX_SHOWING_def)

section \<open>Clients\<close>

text \<open>
  What the spu decoders and video_out.c call, and their own allocations of run-length data. A
  client adds only events it may add: of a handle it has been given and with data that is its own.
\<close>

datatype ov_op = O_malloc nat | O_free nat | O_get int | O_free_handle int | O_add caller_event
  | O_flush | O_redraw int | O_blend "bool \<times> bool \<times> bool" int bool

datatype ov_out = R_none | R_handle int | R_add int caller_event | R_redraw int | R_blend "blend_call list"

definition ov_run :: "ov_op \<Rightarrow> overlays \<Rightarrow> (ov_out \<times> overlays) outcome" where
  "ov_run op s =
     (case op of
        O_malloc b \<Rightarrow> Ret (R_none, s\<lparr>ol_rle := insert b (ol_rle s)\<rparr>)
      | O_free b \<Rightarrow> obind (free_rle (Some b) s) (\<lambda>s1. Ret (R_none, s1))
      | O_get t \<Rightarrow> (let (h, s1) = video_overlay_get_handle t s in Ret (R_handle h, s1))
      | O_free_handle h \<Rightarrow> obind (video_overlay_free_handle MAX_EVENTS h s) (\<lambda>s1. Ret (R_none, s1))
      | O_add e \<Rightarrow> obind (video_overlay_add_event MAX_EVENTS e s) (\<lambda>(n, e1, s1). Ret (R_add n e1, s1))
      | O_flush \<Rightarrow> obind (video_overlay_flush_events MAX_EVENTS s) (\<lambda>s1. Ret (R_none, s1))
      | O_redraw v \<Rightarrow> obind (video_overlay_redraw_needed MAX_EVENTS v s) (\<lambda>(n, s1). Ret (R_redraw n, s1))
      | O_blend has v en \<Rightarrow> obind (video_overlay_multiple_overlay_blend MAX_EVENTS has v en s) (\<lambda>(cs, s1). Ret (R_blend cs, s1)))"

definition ov_allowed :: "ov_op \<Rightarrow> overlays \<Rightarrow> bool" where
  "ov_allowed op s =
     (case op of
        O_malloc b \<Rightarrow> b \<notin> ol_rle s
      | O_free b \<Rightarrow> b \<in> ol_rle s - ran (rle_of (ol_ovl s))
      | O_free_handle h \<Rightarrow> 0 \<le> h \<and> h < int MAX_OBJECTS
      | O_add e \<Rightarrow> ce_good e \<and> caller_rle e s \<and> ob_handle (ol_objects s ! nat (ce_handle e)) = ce_handle e
      | _ \<Rightarrow> True)"

inductive ov_reach :: "overlays \<Rightarrow> bool" where
  ov_reach_init: "video_overlay_init video_overlay_new_manager = Ret s \<Longrightarrow> ov_reach s"
| ov_reach_step: "ov_reach s \<Longrightarrow> ov_allowed op s \<Longrightarrow> ov_run op s = Ret (r, s1) \<Longrightarrow> ov_reach s1"

text \<open>The value of a manager, computed by walking its chain.\<close>

definition manager :: "overlays \<Rightarrow> ov_abs" where
  "manager s = absv s (walk (nexts (ol_events s)) MAX_EVENTS (idx_ptr (sl_next (ol_events s ! 0))))"

lemma manager_is: "core s cs \<Longrightarrow> manager s = absv s cs"
proof -
  assume c: "core s cs"
  have "lseg (nexts (ol_events s)) (Some 0) (0 # cs) None" using core_chain [OF c] unfolding chain_ok_def by blast
  then have "lseg (nexts (ol_events s)) (idx_ptr (sl_next (ol_events s ! 0))) cs None"
    by (auto simp: nexts_def split: if_splits)
  moreover have "length cs \<le> MAX_EVENTS" using chain_length [OF core_chain [OF c]] by simp
  ultimately show ?thesis by (simp add: manager_def walk_lseg)
qed

definition spec_op :: "ov_op \<Rightarrow> ov_abs \<Rightarrow> ov_abs" where
  "spec_op op A =
     (case op of
        O_get t \<Rightarrow> snd (spec_get A)
      | O_free_handle h \<Rightarrow> spec_free h A
      | O_add e \<Rightarrow> if length (oa_pending A) = MAX_EVENTS - 1 then A else spec_add e A
      | O_flush \<Rightarrow> snd (spec_event 0 A)
      | O_redraw v \<Rightarrow> snd (spec_event v A)
      | O_blend has v en \<Rightarrow> snd (spec_event v A)
      | _ \<Rightarrow> A)"

text \<open>What the callers get.\<close>

definition spec_out :: "ov_op \<Rightarrow> ov_abs \<Rightarrow> ov_out \<Rightarrow> bool" where
  "spec_out op A r =
     (case op of
        O_get t \<Rightarrow> r = R_handle (fst (spec_get A))
      | O_add e \<Rightarrow>
          if length (oa_pending A) = MAX_EVENTS - 1 then r = R_add (- 1) e
          else (case r of R_add n e1 \<Rightarrow> 0 < n \<and> n < int MAX_EVENTS \<and> e1 = e\<lparr>ce_overlay := map_option (\<lambda>_. no_overlay) (ce_overlay e)\<rparr> | _ \<Rightarrow> False)
      | _ \<Rightarrow> True)"

definition ov_ok :: "overlays \<Rightarrow> bool" where
  "ov_ok s \<longleftrightarrow> (\<exists>cs. core s cs \<and> abs_ok (absv s cs))"

text \<open>The overlays given to the driver are those of the handles showing, and they are allocated.\<close>

definition blend_valid :: "ov_out \<Rightarrow> overlays \<Rightarrow> bool" where
  "blend_valid r s =
     (case r of R_blend cs \<Rightarrow> (\<forall>p. Overlay_blend p \<in> set cs \<longrightarrow> (\<exists>a. p = Some a \<and> a \<in> dom (ol_ovl s))) | _ \<Rightarrow> True)"

definition ov_step_ok :: "ov_op \<Rightarrow> overlays \<Rightarrow> bool" where
  "ov_step_ok op s \<longleftrightarrow> (\<exists>r s1. ov_run op s = Ret (r, s1) \<and> ov_ok s1 \<and> manager s1 = spec_op op (manager s) \<and>
     spec_out op (manager s) r \<and> blend_valid r s1)"

lemma ov_step_okI:
  assumes "core s cs" and "ov_run op s = Ret (r, s1)" and "core s1 cs1" and "absv s1 cs1 = spec_op op (absv s cs)"
    and "abs_ok (spec_op op (absv s cs))" and "spec_out op (absv s cs) r" and "blend_valid r s1"
  shows "ov_step_ok op s"
  using assms unfolding ov_step_ok_def ov_ok_def manager_is [OF assms(1)] by (metis manager_is)

lemma event_ok:
  assumes "core s cs" and "abs_ok (absv s cs)"
  obtains m s1 cs1 where "video_overlay_event MAX_EVENTS v s = Ret (m, s1)" "core s1 cs1"
    "(m, absv s1 cs1) = spec_event v (absv s cs)"
proof -
  from event_loop_ok [OF assms chain_length [OF core_chain [OF assms(1)]], of v 0]
  obtain m A s' cs' where "spec_event v (absv s cs) = (m, A)" "event_loop MAX_EVENTS v 0 s = Ret (0 + m, s')"
    "core s' cs'" "absv s' cs' = A" by blast
  then show ?thesis by (intro that [of m s' cs']) (simp_all add: video_overlay_event_def)
qed

lemma core_rle:
  assumes "core s cs" and "ran (rle_of (ol_ovl s)) \<subseteq> R"
  shows "core (s\<lparr>ol_rle := R\<rparr>) cs" and "absv (s\<lparr>ol_rle := R\<rparr>) cs = absv s cs"
proof -
  show "core (s\<lparr>ol_rle := R\<rparr>) cs" using assms by (simp add: core_def heap_ok_def)
  have "val (s\<lparr>ol_rle := R\<rparr>) = val s" by (simp add: val_def)
  then show "absv (s\<lparr>ol_rle := R\<rparr>) cs = absv s cs" by (simp add: absv_def aobjs_def aev_def)
qed

lemma core_changed:
  "core s cs \<Longrightarrow> core (s\<lparr>ol_changed := c\<rparr>) cs" "absv (s\<lparr>ol_changed := c\<rparr>) cs = absv s cs"
proof -
  have "val (s\<lparr>ol_changed := c\<rparr>) = val s" by (simp add: val_def)
  then show "absv (s\<lparr>ol_changed := c\<rparr>) cs = absv s cs" by (simp add: absv_def aobjs_def aev_def)
qed (simp add: core_def)

lemma core_rles: "core s cs \<Longrightarrow> ran (rle_of (ol_ovl s)) \<subseteq> ol_rle s"
  by (simp add: core_def heap_ok_def)

text \<open>What is showing has an overlay.\<close>

lemma shown_overlay:
  assumes "core s cs" and "abs_ok (absv s cs)" and "h \<in> set (ol_showing s)" and "0 \<le> h"
  shows "h < int MAX_OBJECTS" and "\<exists>a. ob_overlay (ol_objects s ! nat h) = Some a \<and> a \<in> dom (ol_ovl s)"
proof -
  have l: "length (aobjs s) = MAX_OBJECTS" by (simp add: aobjs_def)
  have "h < int (length (aobjs s)) \<and> snd (aobjs s ! nat h) \<noteq> None"
    using assms(2-4) unfolding abs_ok_def shown_ok_def by (auto dest: bspec)
  then show b: "h < int MAX_OBJECTS" and "\<exists>a. ob_overlay (ol_objects s ! nat h) = Some a \<and> a \<in> dom (ol_ovl s)"
    using l own_obj [OF assms(1), of "nat h"] assms(4) by (auto simp: aobjs_nth val_def hval_def split: option.splits)
qed

lemma blend_ok:
  assumes "core s cs" and "abs_ok (absv s cs)"
  shows "\<exists>calls. blend_showing (ol_showing s) s = Ret calls \<and> blend_valid (R_blend calls) s"
proof -
  have "\<forall>h \<in> set (ol_showing s). h < int MAX_OBJECTS"
    using shown_overlay(1) [OF assms] by (metis le_less_trans not_le of_nat_0_le_iff)
  from blend_showing_ok [OF assms(1) this] show ?thesis
    using shown_overlay(2) [OF assms] by (auto simp: blend_valid_def)
qed

section \<open>Every operation\<close>

lemma step_rle:
  assumes "core s cs" and "abs_ok (absv s cs)" and "ran (rle_of (ol_ovl s)) \<subseteq> R"
    and "ov_run op s = Ret (R_none, s\<lparr>ol_rle := R\<rparr>)" and "\<And>A. spec_op op A = A" and "spec_out op (absv s cs) R_none"
  shows "ov_step_ok op s"
  by (rule ov_step_okI [OF assms(1,4) core_rle(1) [OF assms(1,3)]])
    (simp_all add: core_rle(2) [OF assms(1,3)] assms(2,5,6) blend_valid_def)

lemma step_malloc: "core s cs \<Longrightarrow> abs_ok (absv s cs) \<Longrightarrow> ov_step_ok (O_malloc b) s"
  by (rule step_rle [where R = "insert b (ol_rle s)"]) (use core_rles [of s cs] in \<open>auto simp: ov_run_def spec_op_def spec_out_def\<close>)

lemma step_free: "core s cs \<Longrightarrow> abs_ok (absv s cs) \<Longrightarrow> ov_allowed (O_free b) s \<Longrightarrow> ov_step_ok (O_free b) s"
  by (rule step_rle [where R = "ol_rle s - {b}"])
    (use core_rles [of s cs] in \<open>auto simp: ov_run_def spec_op_def spec_out_def free_rle_def ov_allowed_def\<close>)

lemma step_get:
  assumes "core s cs" and "abs_ok (absv s cs)"
  shows "ov_step_ok (O_get t) s"
proof -
  obtain h s1 where g: "video_overlay_get_handle t s = (h, s1)" by fastforce
  with get_handle_abs [OF assms, of t] have c: "core s1 cs" "(h, absv s1 cs) = spec_get (absv s cs)" by auto
  show ?thesis
    by (rule ov_step_okI [OF assms(1) _ c(1), where r = "R_handle h"])
      (use g c(2) [symmetric] abs_ok_get [OF assms(2)] in \<open>simp_all add: ov_run_def spec_op_def spec_out_def blend_valid_def\<close>)
qed

lemma step_free_handle:
  assumes "core s cs" and "abs_ok (absv s cs)" and "ov_allowed (O_free_handle h) s"
  shows "ov_step_ok (O_free_handle h) s"
proof -
  have h: "0 \<le> h" "h < int MAX_OBJECTS" using assms(3) by (simp_all add: ov_allowed_def)
  obtain s1 cs1 where "video_overlay_free_handle MAX_EVENTS h s = Ret s1" "core s1 cs1" "absv s1 cs1 = spec_free h (absv s cs)"
    using free_handle_abs [OF assms(1) chain_length [OF core_chain [OF assms(1)]] h] by blast
  then show ?thesis using abs_ok_free [OF assms(2) h(1)]
    by (intro ov_step_okI [OF assms(1), of _ R_none s1 cs1]) (simp_all add: ov_run_def spec_op_def spec_out_def blend_valid_def)
qed

lemma step_add:
  assumes "core s cs" and "abs_ok (absv s cs)" and "ov_allowed (O_add e) s"
  shows "ov_step_ok (O_add e) s"
proof -
  have e: "ce_good e" "caller_rle e s" "ob_handle (ol_objects s ! nat (ce_handle e)) = ce_handle e"
    using assms(3) by (simp_all add: ov_allowed_def)
  have t: "0 < ce_type e" using e(1) by (auto simp: ce_good_def event_numbers)
  note r = add_event_ok [OF assms(1) chain_length [OF core_chain [OF assms(1)]] t e(2)]
  have f: "fst (oa_objs (absv s cs) ! nat (ce_handle e)) = ce_handle e"
  proof -
    have "0 \<le> ce_handle e" "ce_handle e < int MAX_OBJECTS" using e(1) by (simp_all add: ce_good_def)
    then have "nat (ce_handle e) < MAX_OBJECTS" by simp
    then show ?thesis using e(3) by (simp add: aobjs_nth)
  qed
  note ok = abs_ok_add [OF assms(2) e(1) f]
  show ?thesis
  proof (cases "length cs = MAX_EVENTS - 1")
    case True
    then show ?thesis using r assms(2)
      by (intro ov_step_okI [OF assms(1) _ assms(1), of _ "R_add (- 1) e"]) (simp_all add: ov_run_def spec_op_def spec_out_def blend_valid_def)
  next
    case False
    then obtain n s1 cs1 where "video_overlay_add_event MAX_EVENTS e s = Ret (int n, e\<lparr>ce_overlay := map_option (\<lambda>_. no_overlay) (ce_overlay e)\<rparr>, s1)"
      "0 < n" "n < MAX_EVENTS" "core s1 cs1" "absv s1 cs1 = spec_add e (absv s cs)" using r by auto
    then show ?thesis using False ok
      by (intro ov_step_okI [OF assms(1), of _ "R_add (int n) (e\<lparr>ce_overlay := map_option (\<lambda>_. no_overlay) (ce_overlay e)\<rparr>)" s1 cs1])
        (simp_all add: ov_run_def spec_op_def spec_out_def blend_valid_def)
  qed
qed

lemma step_event:
  assumes "core s cs" and "abs_ok (absv s cs)"
  shows "ov_step_ok O_flush s" and "ov_step_ok (O_redraw v) s" and "ov_step_ok (O_blend has v en) s"
proof -
  have ok: "abs_ok (snd (spec_event v (absv s cs)))" for v by (rule abs_ok_event [OF assms(2)])
  obtain m s1 cs1 where e0: "video_overlay_event MAX_EVENTS 0 s = Ret (m, s1)" "core s1 cs1"
    "(m, absv s1 cs1) = spec_event 0 (absv s cs)" by (rule event_ok [OF assms])
  show "ov_step_ok O_flush s" using e0(1) ok e0(3) [symmetric]
    by (intro ov_step_okI [OF assms(1) _ e0(2), of _ R_none])
      (simp_all add: ov_run_def video_overlay_flush_events_def spec_op_def spec_out_def blend_valid_def, metis snd_conv)
  obtain m s1 cs1 where e: "video_overlay_event MAX_EVENTS v s = Ret (m, s1)" "core s1 cs1"
    "(m, absv s1 cs1) = spec_event v (absv s cs)" by (rule event_ok [OF assms])
  have ok1: "abs_ok (absv s1 cs1)" using ok [of v] e(3) by (metis snd_conv)
  show "ov_step_ok (O_redraw v) s" using e(1) ok1 e(3) [symmetric]
    by (intro ov_step_okI [OF assms(1) _ e(2), of _ "R_redraw (ol_changed s1)"])
      (simp_all add: ov_run_def video_overlay_redraw_needed_def spec_op_def spec_out_def blend_valid_def)
  obtain hb hbl he where has: "has = (hb, hbl, he)" by (cases has)
  obtain calls where b: "blend_showing (ol_showing s1) s1 = Ret calls" "blend_valid (R_blend calls) s1"
    using blend_ok [OF e(2) ok1] by blast
  define cs' where "cs' = (if en \<and> hbl then calls else [])"
  define out where "out = (if hb then [Overlay_begin (ol_changed s1)] else []) @ cs' @ (if he then [Overlay_end] else [])"
  have r: "ov_run (O_blend has v en) s = Ret (R_blend out, s1\<lparr>ol_changed := 0\<rparr>)"
    using e(1) b(1) by (simp add: ov_run_def video_overlay_multiple_overlay_blend_def has out_def cs'_def)
  have "blend_valid (R_blend out) (s1\<lparr>ol_changed := 0\<rparr>)" using b(2) by (auto simp: blend_valid_def out_def cs'_def split: if_splits)
  then show "ov_step_ok (O_blend has v en) s" using ok1 e(3) [symmetric]
    by (intro ov_step_okI [OF assms(1) r core_changed(1) [OF e(2)]]) (simp_all add: core_changed(2) spec_op_def spec_out_def)
qed

lemma every_step: "ov_ok s \<Longrightarrow> ov_allowed op s \<Longrightarrow> ov_step_ok op s"
  unfolding ov_ok_def
  by (cases op) (auto intro: step_malloc step_free step_get step_free_handle step_add step_event)

lemma reach_ok: "ov_reach s \<Longrightarrow> ov_ok s"
proof (induction rule: ov_reach.induct)
  case (ov_reach_init s)
  then show ?case using overlay_init_ok start_core start_ok by (auto simp: ov_ok_def)
next
  case (ov_reach_step s op r s1)
  then show ?case using every_step [of s op] by (auto simp: ov_step_ok_def)
qed

section \<open>Properties\<close>


lemma start_reach: "ov_reach ov_start"
  by (rule ov_reach_init [OF overlay_init_ok])

definition example_event :: caller_event where
  "example_event = \<lparr>ce_type = OVERLAY_EVENT_SHOW, ce_vpts = 900, ce_handle = 0, ce_pts = 0, ce_overlay = Some no_overlay\<rparr>"

definition example_manager :: overlays where
  "example_manager = ov_start\<lparr>ol_objects := (ol_objects ov_start)[0 := \<lparr>ob_handle = 0, ob_object_type = 1, ob_pts = 0, ob_overlay = None\<rparr>]\<rparr>"

lemma example_reach: "ov_reach example_manager" and example_allowed: "ov_allowed (O_add example_event) example_manager"
proof -
  have "first_index (\<lambda>ob. \<not> ob_handle ob > - 1) (ol_objects ov_start) = Some 0"
    by (simp add: ov_start_def MAX_OBJECTS_def numeral_eq_Suc)
  then have "ov_run (O_get 1) ov_start = Ret (R_handle 0, example_manager)"
    by (simp add: ov_run_def video_overlay_get_handle_def example_manager_def ov_start_def MAX_OBJECTS_def)
  from ov_reach_step [OF start_reach _ this] show "ov_reach example_manager" by (simp add: ov_allowed_def)
  show "ov_allowed (O_add example_event) example_manager"
    by (simp add: ov_allowed_def ce_good_def example_event_def caller_rle_def no_overlay_def example_manager_def ov_start_def MAX_OBJECTS_def)
qed




text \<open>
  C14. Processing the events at a time ends, counts the events it processed, and leaves no event
  pending that is due: with time 0 none at all, otherwise only those whose time is not before it.
  What is left is in the order of the times.
\<close>

theorem overlay_events_done:
  assumes "ov_reach s"
  shows "\<exists>m s1. video_overlay_event MAX_EVENTS vpts s = Ret (m, s1) \<and> m = fst (spec_event vpts (manager s)) \<and>
    (\<forall>e \<in> set (oa_pending (manager s1)). vpts \<noteq> 0 \<and> vpts \<le> ce_vpts e) \<and> sorted (map ce_vpts (oa_pending (manager s1)))"
proof -
  obtain cs where c: "core s cs" "abs_ok (absv s cs)" using reach_ok [OF assms] by (auto simp: ov_ok_def)
  obtain m s1 cs1 where e: "video_overlay_event MAX_EVENTS vpts s = Ret (m, s1)" "core s1 cs1"
    "(m, absv s1 cs1) = spec_event vpts (absv s cs)" by (rule event_ok [OF c])
  have a: "manager s = absv s cs" "manager s1 = snd (spec_event vpts (absv s cs))" "m = fst (spec_event vpts (absv s cs))"
    using manager_is [OF c(1)] manager_is [OF e(2)] e(3) by (simp_all add: prod_eq_iff)
  have "sorted (map ce_vpts (oa_pending (manager s1)))" using abs_ok_event [OF c(2), of vpts] unfolding a(2) abs_ok_def by blast
  moreover have "\<forall>e \<in> set (oa_pending (manager s1)). vpts \<noteq> 0 \<and> vpts \<le> ce_vpts e"
    using spec_event_done [OF c(2)] unfolding a(2) by blast
  ultimately show ?thesis using e(1) a(1,3) by metis
qed

theorem overlay_events_done_witness:
  "\<exists>m s1. video_overlay_event MAX_EVENTS 1000 example_manager = Ret (m, s1) \<and> m = fst (spec_event 1000 (manager example_manager)) \<and>
    list_all (\<lambda>e. 1000 \<le> ce_vpts e) (oa_pending (manager s1)) \<and> sorted (map ce_vpts (oa_pending (manager s1)))"
  using overlay_events_done [OF example_reach, of 1000] by (auto simp: list_all_iff)

end
