(* ===== verification/Net_Buf.thy ===== *)
theory Net_Buf
  imports Buf_Fifo Scr_Clock
begin

text \<open>
  The network buffering control, src/src/input/net_buf_ctrl.c: callbacks on the video and the audio
  fifo of a stream that pause the engine while the fifos fill and let it run again. What it does to
  the engine is a list of calls. Its state is the world of the fifos of Buf_Fifo. The counts
  of elements and sizes are far below the limits of \<open>int\<close>, so that its arithmetic is exact;
  the statistics it prints are left out.
\<close>

section \<open>Data\<close>

record nbc =
  nb_buffering :: bool
  nb_enabled :: bool
  nb_progress :: int
  nb_video_fifo :: fifoid
  nb_audio_fifo :: "fifoid option"
  nb_video_fifo_fill :: int
  nb_audio_fifo_fill :: int
  nb_video_fifo_free :: int
  nb_audio_fifo_free :: int
  nb_video_fifo_length :: int
  nb_audio_fifo_length :: int
  nb_low_water_mark :: int
  nb_high_water_mark :: int
  nb_video_last_pts :: int
  nb_audio_last_pts :: int
  nb_video_first_pts :: int
  nb_audio_first_pts :: int
  nb_video_fifo_size :: int
  nb_audio_fifo_size :: int
  nb_video_br :: int
  nb_audio_br :: int
  nb_video_in_disc :: int
  nb_audio_in_disc :: int

text \<open>
  The calls to the engine: progress events, the speed and the options of the clock, and the
  pause property of the audio output.
\<close>

datatype nbc_call = C_report int | C_speed int | C_option int int | C_property int int

text \<open>What it uses of the stream: four entries of \<open>stream_info\<close>, whether there is audio output.\<close>

record nbc_stream =
  ns_has_video :: int
  ns_has_audio :: int
  ns_video_bitrate :: int
  ns_audio_bitrate :: int
  ns_audio_out :: bool
  ns_calls :: "nbc_call list"

type_synonym nbc_state = "nbc \<times> nbc_stream"

record nbc_world =
  nw_nbc :: "nbc option"
  nw_stream :: nbc_stream

definition DEFAULT_LOW_WATER_MARK :: int where
  "DEFAULT_LOW_WATER_MARK = 1"

definition DEFAULT_HIGH_WATER_MARK :: int where
  "DEFAULT_HIGH_WATER_MARK = 5000"

definition FULL_FIFO_MARK :: int where
  "FULL_FIFO_MARK = 5"

datatype fifo_action = FIFO_PUT | FIFO_GET

definition BUF_CONTROL_END :: u32 where
  "BUF_CONTROL_END = 0x01010000"

definition BUF_CONTROL_NOP :: u32 where
  "BUF_CONTROL_NOP = 0x01040000"

definition BUF_CONTROL_NEWPTS :: u32 where
  "BUF_CONTROL_NEWPTS = 0x01070000"

definition BUF_FLAG_END_USER :: u32 where
  "BUF_FLAG_END_USER = 0x0020"

definition BUF_FLAG_END_STREAM :: u32 where
  "BUF_FLAG_END_STREAM = 0x0040"

section \<open>Calls to the engine\<close>

definition report_progress :: "int \<Rightarrow> nbc_stream \<Rightarrow> nbc_stream" where
  "report_progress p x = x\<lparr>ns_calls := ns_calls x @ [C_report (if p > 100 then 100 else p)]\<rparr>"

definition nbc_set_speed_pause :: "nbc_stream \<Rightarrow> nbc_stream" where
  "nbc_set_speed_pause x =
     x\<lparr>ns_calls := ns_calls x @ [C_speed XINE_SPEED_PAUSE, C_option CLOCK_SCR_ADJUSTABLE 0] @
        (if ns_audio_out x then [C_property AO_PROP_PAUSED 2] else [])\<rparr>"

definition nbc_set_speed_normal :: "nbc_stream \<Rightarrow> nbc_stream" where
  "nbc_set_speed_normal x =
     x\<lparr>ns_calls := ns_calls x @ [C_speed XINE_SPEED_NORMAL, C_option CLOCK_SCR_ADJUSTABLE 1] @
        (if ns_audio_out x then [C_property AO_PROP_PAUSED 0] else [])\<rparr>"

section \<open>The length of a fifo\<close>

definition video_pts :: "buf_element \<Rightarrow> fifo_action \<Rightarrow> nbc \<Rightarrow> nbc" where
  "video_pts buf action n =
     (case action of
        FIFO_PUT \<Rightarrow> n\<lparr>nb_video_last_pts := be_pts buf,
          nb_video_first_pts := (if nb_video_first_pts n = 0 then be_pts buf else nb_video_first_pts n)\<rparr>
      | FIFO_GET \<Rightarrow> n\<lparr>nb_video_first_pts := be_pts buf\<rparr>)"

definition video_length :: "buf_element \<Rightarrow> fifo_action \<Rightarrow> nbc_stream \<Rightarrow> nbc \<Rightarrow> nbc outcome" where
  "video_length buf action x n =
     (if ns_video_bitrate x \<noteq> 0 then
        obind (cdiv (8000 * nb_video_fifo_size n) (ns_video_bitrate x)) (\<lambda>len.
        Ret (n\<lparr>nb_video_br := ns_video_bitrate x, nb_video_fifo_length := len\<rparr>))
      else if be_pts buf \<noteq> 0 \<and> nb_video_in_disc n = 0 then
        (let n1 = video_pts buf action n; len = (nb_video_last_pts n1 - nb_video_first_pts n1) sdiv 90 in
         if len \<noteq> 0 then
           obind (cdiv (nb_video_fifo_size n1) len) (\<lambda>q. Ret (n1\<lparr>nb_video_fifo_length := len, nb_video_br := 8000 * q\<rparr>))
         else Ret (n1\<lparr>nb_video_fifo_length := len, nb_video_br := 0\<rparr>))
      else if nb_video_br n \<noteq> 0 then
        obind (cdiv (8000 * nb_video_fifo_size n) (nb_video_br n)) (\<lambda>len. Ret (n\<lparr>nb_video_fifo_length := len\<rparr>))
      else Ret n)"

definition compute_video :: "fifo_buffer \<Rightarrow> buf_element \<Rightarrow> fifo_action \<Rightarrow> nbc_stream \<Rightarrow> nbc \<Rightarrow> nbc outcome" where
  "compute_video F buf action x n =
     obind (cdiv (100 * ff_size F) (ff_size F + ff_num_free F - 1)) (\<lambda>fill.
     video_length buf action x
       (n\<lparr>nb_video_fifo_free := ff_num_free F, nb_video_fifo_fill := fill, nb_video_fifo_size := uint (ff_data_size F)\<rparr>))"

definition audio_pts :: "buf_element \<Rightarrow> fifo_action \<Rightarrow> nbc \<Rightarrow> nbc" where
  "audio_pts buf action n =
     (case action of
        FIFO_PUT \<Rightarrow> n\<lparr>nb_audio_last_pts := be_pts buf,
          nb_audio_first_pts := (if nb_audio_first_pts n = 0 then be_pts buf else nb_audio_first_pts n)\<rparr>
      | FIFO_GET \<Rightarrow> n\<lparr>nb_audio_first_pts := be_pts buf\<rparr>)"

definition audio_length :: "buf_element \<Rightarrow> fifo_action \<Rightarrow> nbc_stream \<Rightarrow> nbc \<Rightarrow> nbc outcome" where
  "audio_length buf action x n =
     (if ns_audio_bitrate x \<noteq> 0 then
        obind (cdiv (8000 * nb_audio_fifo_size n) (ns_audio_bitrate x)) (\<lambda>len.
        Ret (n\<lparr>nb_audio_br := ns_audio_bitrate x, nb_audio_fifo_length := len\<rparr>))
      else if be_pts buf \<noteq> 0 \<and> nb_audio_in_disc n = 0 then
        (let n1 = audio_pts buf action n; len = (nb_audio_last_pts n1 - nb_audio_first_pts n1) sdiv 90 in
         if len \<noteq> 0 then
           obind (cdiv (nb_audio_fifo_size n1) len) (\<lambda>q. Ret (n1\<lparr>nb_audio_fifo_length := len, nb_audio_br := 8000 * q\<rparr>))
         else Ret (n1\<lparr>nb_audio_fifo_length := len, nb_audio_br := 0\<rparr>))
      else if nb_audio_br n \<noteq> 0 then
        obind (cdiv (8000 * nb_audio_fifo_size n) (nb_audio_br n)) (\<lambda>len. Ret (n\<lparr>nb_audio_fifo_length := len\<rparr>))
      else Ret n)"

definition compute_audio :: "fifo_buffer \<Rightarrow> buf_element \<Rightarrow> fifo_action \<Rightarrow> nbc_stream \<Rightarrow> nbc \<Rightarrow> nbc outcome" where
  "compute_audio F buf action x n =
     obind (cdiv (100 * ff_size F) (ff_size F + ff_num_free F - 1)) (\<lambda>fill.
     audio_length buf action x
       (n\<lparr>nb_audio_fifo_free := ff_num_free F, nb_audio_fifo_fill := fill, nb_audio_fifo_size := uint (ff_data_size F)\<rparr>))"

definition nbc_compute_fifo_length :: "fifoid \<Rightarrow> fifo_buffer \<Rightarrow> buf_element \<Rightarrow> fifo_action \<Rightarrow> nbc_stream \<Rightarrow> nbc \<Rightarrow> nbc outcome" where
  "nbc_compute_fifo_length f F buf action x n =
     (if f = nb_video_fifo n then compute_video F buf action x n else compute_audio F buf action x n)"

section \<open>The callbacks\<close>

text \<open>A full fifo ends the buffering, before the allocation waits.\<close>

definition nbc_alloc_cb :: "fifo_buffer \<Rightarrow> nbc_state \<Rightarrow> nbc_state" where
  "nbc_alloc_cb F st =
     (let (n, x) = st in
      if nb_buffering n \<and> ff_num_free F \<le> 1
      then (n\<lparr>nb_progress := 100, nb_buffering := False\<rparr>, nbc_set_speed_normal (report_progress 100 x))
      else (n, x))"

text \<open>A new stream starts.\<close>

definition start_buffering :: "nbc_state \<Rightarrow> nbc_state" where
  "start_buffering st =
     (let (n, x) = st in
      if \<not> nb_enabled n then
        (n\<lparr>nb_enabled := True, nb_buffering := True, nb_video_first_pts := 0, nb_video_last_pts := 0,
           nb_audio_first_pts := 0, nb_audio_last_pts := 0, nb_video_fifo_length := 0, nb_audio_fifo_length := 0,
           nb_progress := 0\<rparr>,
         report_progress 0 (nbc_set_speed_pause x))
      else (n, x))"

definition buffering_progress :: "nbc_stream \<Rightarrow> nbc \<Rightarrow> int outcome" where
  "buffering_progress x n =
     obind (cdiv (nb_video_fifo_length n * 50) (nb_high_water_mark n)) (\<lambda>v.
     obind (cdiv (nb_audio_fifo_length n * 50) (nb_high_water_mark n)) (\<lambda>a.
     (let video_p = (if v > 50 then 50 else v);
          audio_p = (if a > 50 then 50 else a);
          progress = (if ns_has_video x \<noteq> 0 \<and> ns_has_audio x \<noteq> 0 then video_p + audio_p
                      else if ns_has_video x \<noteq> 0 then 2 * video_p else 2 * audio_p) in
      Ret (if progress = 0
           then (if nb_video_fifo_fill n > nb_audio_fifo_fill n then nb_video_fifo_fill n else nb_audio_fifo_fill n)
           else progress))))"

definition check_buffering :: "nbc_state \<Rightarrow> nbc_state outcome" where
  "check_buffering st =
     (let (n, x) = st in
      if nb_buffering n then
        (if (ns_has_video x = 0 \<or> nb_video_fifo_length n > nb_high_water_mark n) \<and>
            (ns_has_audio x = 0 \<or> nb_audio_fifo_length n > nb_high_water_mark n) \<and>
            (ns_has_video x \<noteq> 0 \<or> ns_has_audio x \<noteq> 0)
         then Ret (n\<lparr>nb_progress := 100, nb_buffering := False\<rparr>, nbc_set_speed_normal (report_progress 100 x))
         else
           obind (buffering_progress x n) (\<lambda>progress.
           if progress > nb_progress n
           then Ret (n\<lparr>nb_progress := progress\<rparr>, report_progress progress x)
           else Ret (n, x)))
      else Ret (n, x))"

text \<open>A control buffer: the end of the stream, and discontinuities.\<close>

definition put_end :: "buf_element \<Rightarrow> nbc_state \<Rightarrow> nbc_state" where
  "put_end buf st =
     (let (n, x) = st in
      if be_decoder_flags buf AND BUF_FLAG_END_USER \<noteq> 0 \<or> be_decoder_flags buf AND BUF_FLAG_END_STREAM \<noteq> 0 then
        (if nb_buffering n
         then (n\<lparr>nb_enabled := False, nb_buffering := False, nb_progress := 100\<rparr>,
               nbc_set_speed_normal (report_progress 100 x))
         else (n\<lparr>nb_enabled := False\<rparr>, x))
      else (n, x))"

definition put_disc :: "fifoid \<Rightarrow> nbc \<Rightarrow> nbc" where
  "put_disc f n =
     (if f = nb_video_fifo n then n\<lparr>nb_video_in_disc := nb_video_in_disc n + 1\<rparr>
      else n\<lparr>nb_audio_in_disc := nb_audio_in_disc n + 1\<rparr>)"

definition store_sizes :: "fifoid \<Rightarrow> fifo_buffer \<Rightarrow> nbc \<Rightarrow> nbc" where
  "store_sizes f F n =
     (if f = nb_video_fifo n then n\<lparr>nb_video_fifo_free := ff_num_free F, nb_video_fifo_size := uint (ff_data_size F)\<rparr>
      else n\<lparr>nb_audio_fifo_free := ff_num_free F, nb_audio_fifo_size := uint (ff_data_size F)\<rparr>)"

definition nbc_put_cb :: "fifoid \<Rightarrow> fifo_buffer \<Rightarrow> buf_element \<Rightarrow> nbc_state \<Rightarrow> nbc_state outcome" where
  "nbc_put_cb f F buf st =
     (if \<not> is_control buf then
        (let (n1, x1) = start_buffering st in
         obind (nbc_compute_fifo_length f F buf FIFO_PUT x1 n1) (\<lambda>n2.
         check_buffering (n2, x1)))
      else
        (let (n1, x1) = (if be_type buf = BUF_CONTROL_NOP \<or> be_type buf = BUF_CONTROL_END then put_end buf st
                         else if be_type buf = BUF_CONTROL_NEWPTS then (put_disc f (fst st), snd st)
                         else st) in
         Ret (store_sizes f F n1, x1)))"

text \<open>An empty fifo starts the buffering, unless the other one is full.\<close>

definition check_empty :: "fifoid \<Rightarrow> fifo_buffer \<Rightarrow> nbc_state \<Rightarrow> nbc_state" where
  "check_empty f F st =
     (let (n, x) = st in
      if nb_enabled n then
        (if \<not> nb_buffering n then
           (if ff_size F = 0 \<and>
               ((f = nb_video_fifo n \<and> ns_has_video x \<noteq> 0) \<or> (Some f = nb_audio_fifo n \<and> ns_has_audio x \<noteq> 0)) \<and>
               (if f = nb_video_fifo n then nb_audio_fifo_free n else nb_video_fifo_free n) > FULL_FIFO_MARK
            then (n\<lparr>nb_buffering := True, nb_progress := 0\<rparr>, nbc_set_speed_pause (report_progress 0 x))
            else (n, x))
         else (n, nbc_set_speed_pause x))
      else (n, x))"

definition get_disc :: "fifoid \<Rightarrow> nbc \<Rightarrow> nbc" where
  "get_disc f n =
     (if f = nb_video_fifo n then n\<lparr>nb_video_in_disc := nb_video_in_disc n - 1\<rparr>
      else n\<lparr>nb_audio_in_disc := nb_audio_in_disc n - 1\<rparr>)"

definition nbc_get_cb :: "fifoid \<Rightarrow> fifo_buffer \<Rightarrow> buf_element \<Rightarrow> nbc_state \<Rightarrow> nbc_state outcome" where
  "nbc_get_cb f F buf st =
     (let (n, x) = st in
      if \<not> is_control buf then
        obind (nbc_compute_fifo_length f F buf FIFO_GET x n) (\<lambda>n1. Ret (check_empty f F (n1, x)))
      else
        (let n1 = (if be_type buf = BUF_CONTROL_NEWPTS then get_disc f n else n) in
         Ret (store_sizes f F n1, x)))"

section \<open>In the fifos\<close>

text \<open>
  The function pointers that are registered, and what calling one does to the world of the fifos:
  the \<open>fifo\<close> and \<open>buf\<close> arguments are read from their memory, \<open>this\<close> is freed by
  \<open>nbc_close\<close>.
\<close>

definition NBC_ALLOC_CB :: nat where
  "NBC_ALLOC_CB = 0"

definition NBC_PUT_CB :: nat where
  "NBC_PUT_CB = 1"

definition NBC_GET_CB :: nat where
  "NBC_GET_CB = 2"

definition nbc_dispatch :: "nat \<Rightarrow> fifoid \<Rightarrow> fifo_buffer \<Rightarrow> buf_element option \<Rightarrow> nbc_state \<Rightarrow> nbc_state outcome" where
  "nbc_dispatch c f F b st =
     (if c = NBC_ALLOC_CB then Ret (nbc_alloc_cb F st)
      else obind (of_opt b) (\<lambda>buf. if c = NBC_PUT_CB then nbc_put_cb f F buf st else nbc_get_cb f F buf st))"

definition nbc_run :: "nbc_world outcome cb_run" where
  "nbc_run c f b d s =
     obind (bs_world s) (\<lambda>w.
     obind (of_opt (nw_nbc w)) (\<lambda>n.
     obind (fifo_of s f) (\<lambda>F.
     obind (nbc_dispatch c f F (case b of None \<Rightarrow> None | Some a \<Rightarrow> bs_elem s a) (n, nw_stream w)) (\<lambda>(n1, x1).
     Ret \<lparr>nw_nbc = Some n1, nw_stream = x1\<rparr>))))"

definition nbc_new :: "fifoid \<Rightarrow> fifoid option \<Rightarrow> nbc" where
  "nbc_new video audio =
     \<lparr>nb_buffering = False, nb_enabled = False, nb_progress = 0, nb_video_fifo = video, nb_audio_fifo = audio,
      nb_video_fifo_fill = 0, nb_audio_fifo_fill = 0, nb_video_fifo_free = 0, nb_audio_fifo_free = 0,
      nb_video_fifo_length = 0, nb_audio_fifo_length = 0, nb_low_water_mark = DEFAULT_LOW_WATER_MARK,
      nb_high_water_mark = DEFAULT_HIGH_WATER_MARK, nb_video_last_pts = 0, nb_audio_last_pts = 0,
      nb_video_first_pts = 0, nb_audio_first_pts = 0, nb_video_fifo_size = 0, nb_audio_fifo_size = 0,
      nb_video_br = 0, nb_audio_br = 0, nb_video_in_disc = 0, nb_audio_in_disc = 0\<rparr>"

definition register_cbs :: "fifoid \<Rightarrow> 'w bufsys \<Rightarrow> 'w bufsys outcome" where
  "register_cbs f s =
     obind (fifo_register_alloc_cb NBC_ALLOC_CB 0 f s) (\<lambda>s1.
     obind (fifo_register_put_cb NBC_PUT_CB 0 f s1) (\<lambda>s2.
     fifo_register_get_cb NBC_GET_CB 0 f s2))"

definition unregister_cbs :: "fifoid \<Rightarrow> 'w bufsys \<Rightarrow> 'w bufsys outcome" where
  "unregister_cbs f s =
     obind (fifo_unregister_alloc_cb NBC_ALLOC_CB f s) (\<lambda>s1.
     obind (fifo_unregister_put_cb NBC_PUT_CB f s1) (\<lambda>s2.
     fifo_unregister_get_cb NBC_GET_CB f s2))"

definition nbc_init :: "nbc_stream \<Rightarrow> fifoid \<Rightarrow> fifoid option \<Rightarrow> nbc_world outcome bufsys \<Rightarrow> nbc_world outcome bufsys outcome" where
  "nbc_init x video audio s =
     obind (register_cbs video (s\<lparr>bs_world := Ret \<lparr>nw_nbc = Some (nbc_new video audio), nw_stream = x\<rparr>\<rparr>)) (\<lambda>s1.
     case audio of None \<Rightarrow> Ret s1 | Some f \<Rightarrow> register_cbs f s1)"

text \<open>What \<open>nbc_close\<close> does before it frees.\<close>

definition close_engine :: "nbc_state \<Rightarrow> nbc_stream" where
  "close_engine st =
     (let (n, x) = st; x1 = x\<lparr>ns_calls := ns_calls x @ [C_option CLOCK_SCR_ADJUSTABLE 1]\<rparr> in
      if nb_buffering n then nbc_set_speed_normal x1 else x1)"

definition nbc_close :: "fifoid \<Rightarrow> fifoid option \<Rightarrow> nbc_world outcome bufsys \<Rightarrow> nbc_world outcome bufsys outcome" where
  "nbc_close video audio s =
     obind (unregister_cbs video s) (\<lambda>s1.
     obind (case audio of None \<Rightarrow> Ret s1 | Some f \<Rightarrow> unregister_cbs f s1) (\<lambda>s2.
     obind (bs_world s2) (\<lambda>w.
     obind (of_opt (nw_nbc w)) (\<lambda>n.
     Ret (s2\<lparr>bs_world := Ret \<lparr>nw_nbc = None, nw_stream = close_engine (n, nw_stream w)\<rparr>\<rparr>)))))"

text \<open>Both only print that they are deprecated; so does \<open>nbc_check_buffers\<close> nothing.\<close>

definition nbc_set_high_water_mark :: "int \<Rightarrow> nbc \<Rightarrow> nbc" where
  "nbc_set_high_water_mark value n = n"

definition nbc_set_low_water_mark :: "int \<Rightarrow> nbc \<Rightarrow> nbc" where
  "nbc_set_low_water_mark value n = n"

definition nbc_check_buffers :: "nbc \<Rightarrow> nbc" where
  "nbc_check_buffers n = n"

end
