(* ===== verification/Net_Buf_Props.thy ===== *)
theory Net_Buf_Props
  imports Net_Buf
begin

text \<open>
  The network buffering control in any order of its callbacks: the states it can reach, their
  invariant, the symmetry of audio and video, and the properties.
\<close>

section \<open>Reachable states\<close>

text \<open>
  The callbacks in any order on any state of the fifos; the decoders write the stream information
  at any time.
\<close>

inductive nbc_reach :: "nbc_state \<Rightarrow> bool" where
  nbc_reach_init: "ns_calls x = [] \<Longrightarrow> nbc_reach (nbc_new video audio, x)"
| nbc_reach_call: "nbc_reach st \<Longrightarrow> nbc_dispatch c f F b st = Ret st1 \<Longrightarrow> nbc_reach st1"
| nbc_reach_info: "nbc_reach (n, x) \<Longrightarrow>
    nbc_reach (n, x\<lparr>ns_has_video := hv, ns_has_audio := ha, ns_video_bitrate := vb, ns_audio_bitrate := ab\<rparr>)"

text \<open>The engine after some calls: speed, whether the clock may be adjusted, pause property.\<close>

definition engine_call :: "int \<times> int \<times> int \<Rightarrow> nbc_call \<Rightarrow> int \<times> int \<times> int" where
  "engine_call e c =
     (let (speed, adj, paused) = e in
      case c of
        C_speed v \<Rightarrow> (v, adj, paused)
      | C_option opt v \<Rightarrow> if opt = CLOCK_SCR_ADJUSTABLE then (speed, v, paused) else e
      | C_property p v \<Rightarrow> if p = AO_PROP_PAUSED then (speed, adj, v) else e
      | C_report _ \<Rightarrow> e)"

definition engine :: "nbc_call list \<Rightarrow> int \<times> int \<times> int" where
  "engine cs = foldl engine_call (XINE_SPEED_NORMAL, 1, 0) cs"

definition running :: "int \<times> int \<times> int" where
  "running = (XINE_SPEED_NORMAL, 1, 0)"

definition paused :: "bool \<Rightarrow> int \<times> int \<times> int" where
  "paused audio_out = (XINE_SPEED_PAUSE, 0, if audio_out then 2 else 0)"

text \<open>The progress reported since the last start at 0.\<close>

definition phase_call :: "int list \<Rightarrow> nbc_call \<Rightarrow> int list" where
  "phase_call rs c = (case c of C_report p \<Rightarrow> if p = 0 then [0] else rs @ [p] | _ \<Rightarrow> rs)"

definition phase :: "nbc_call list \<Rightarrow> int list" where
  "phase cs = foldl phase_call [] cs"

section \<open>One invariant\<close>

definition nbc_inv :: "nbc_state \<Rightarrow> bool" where
  "nbc_inv st \<longleftrightarrow>
     (let (n, x) = st; rs = phase (ns_calls x) in
      engine (ns_calls x) = (if nb_buffering n then paused (ns_audio_out x) else running) \<and>
      (nb_buffering n \<longrightarrow> nb_enabled n \<and> rs \<noteq> [] \<and> 0 \<le> nb_progress n \<and> (\<forall>r \<in> set rs. r \<le> nb_progress n)) \<and>
      (\<not> nb_buffering n \<longrightarrow> rs = [] \<or> last rs = 100) \<and>
      sorted rs \<and> (\<forall>r \<in> set rs. 0 \<le> r \<and> r \<le> 100))"

lemma nbc_inv_pair:
  "nbc_inv (n, x) \<longleftrightarrow>
     engine (ns_calls x) = (if nb_buffering n then paused (ns_audio_out x) else running) \<and>
     (nb_buffering n \<longrightarrow> nb_enabled n \<and> phase (ns_calls x) \<noteq> [] \<and> 0 \<le> nb_progress n \<and>
        (\<forall>r \<in> set (phase (ns_calls x)). r \<le> nb_progress n)) \<and>
     (\<not> nb_buffering n \<longrightarrow> phase (ns_calls x) = [] \<or> last (phase (ns_calls x)) = 100) \<and>
     sorted (phase (ns_calls x)) \<and> (\<forall>r \<in> set (phase (ns_calls x)). 0 \<le> r \<and> r \<le> 100)"
  by (simp add: nbc_inv_def Let_def)

lemmas engine_simps = engine_def engine_call_def running_def paused_def
lemmas phase_simps = phase_def phase_call_def

lemma engine_pause: "engine (ns_calls x) = running \<or> engine (ns_calls x) = paused (ns_audio_out x) \<Longrightarrow>
    engine (ns_calls (nbc_set_speed_pause x)) = paused (ns_audio_out x)"
  by (auto simp: engine_simps nbc_set_speed_pause_def CLOCK_SCR_ADJUSTABLE_def AO_PROP_PAUSED_def)

lemma engine_normal: "engine (ns_calls x) = running \<or> engine (ns_calls x) = paused (ns_audio_out x) \<Longrightarrow>
    engine (ns_calls (nbc_set_speed_normal x)) = running"
  by (auto simp: engine_simps nbc_set_speed_normal_def CLOCK_SCR_ADJUSTABLE_def AO_PROP_PAUSED_def)

lemma engine_report [simp]: "engine (ns_calls (report_progress p x)) = engine (ns_calls x)"
  by (simp add: engine_simps report_progress_def split: prod.split)

lemma phase_speed [simp]:
  "phase (ns_calls (nbc_set_speed_pause x)) = phase (ns_calls x)" "phase (ns_calls (nbc_set_speed_normal x)) = phase (ns_calls x)"
  by (simp_all add: phase_simps nbc_set_speed_pause_def nbc_set_speed_normal_def)

lemma phase_report [simp]:
  "phase (ns_calls (report_progress p x)) =
    (if p = 0 then [0] else phase (ns_calls x) @ [if p > 100 then 100 else p])"
  by (simp add: phase_simps report_progress_def)

lemma out_same [simp]:
  "ns_audio_out (report_progress p x) = ns_audio_out x" "ns_audio_out (nbc_set_speed_pause x) = ns_audio_out x"
  "ns_audio_out (nbc_set_speed_normal x) = ns_audio_out x"
  by (simp_all add: report_progress_def nbc_set_speed_pause_def nbc_set_speed_normal_def)

text \<open>Buffering begins, goes on and ends.\<close>

lemma inv_begin:
  assumes "nbc_inv (n, x)"
  shows "nbc_inv (n\<lparr>nb_buffering := True, nb_enabled := True, nb_progress := 0\<rparr>, report_progress 0 (nbc_set_speed_pause x))"
    and "nbc_inv (n\<lparr>nb_buffering := True, nb_enabled := True, nb_progress := 0\<rparr>, nbc_set_speed_pause (report_progress 0 x))"
  using assms engine_pause [of x] engine_pause [of "report_progress 0 x"] by (auto simp: nbc_inv_pair split: if_splits)

lemma inv_end:
  assumes "nbc_inv (n, x)" and "nb_buffering n"
  shows "nbc_inv (n\<lparr>nb_progress := 100, nb_buffering := False\<rparr>, nbc_set_speed_normal (report_progress 100 x))"
  using assms engine_normal [of "report_progress 100 x"] by (auto simp: nbc_inv_pair sorted_append)

lemma inv_report:
  assumes "nbc_inv (n, x)" and "nb_buffering n" and "p > nb_progress n"
  shows "nbc_inv (n\<lparr>nb_progress := p\<rparr>, report_progress p x)"
  using assms by (auto simp: nbc_inv_pair sorted_append)

text \<open>Fields the invariant does not speak of.\<close>

lemma inv_other:
  "nbc_inv (n, x) \<Longrightarrow> nb_buffering n1 = nb_buffering n \<Longrightarrow> nb_enabled n1 = nb_enabled n \<Longrightarrow> nb_progress n1 = nb_progress n \<Longrightarrow>
    nbc_inv (n1, x)"
  by (simp add: nbc_inv_pair)

definition same_phase :: "nbc \<Rightarrow> nbc \<Rightarrow> bool" where
  "same_phase n n1 \<longleftrightarrow> nb_buffering n1 = nb_buffering n \<and> nb_enabled n1 = nb_enabled n \<and> nb_progress n1 = nb_progress n"

lemma video_length_keeps: "video_length buf action x n = Ret n1 \<Longrightarrow> same_phase n n1"
  by (auto simp: video_length_def video_pts_def same_phase_def Let_def obind_eq_Ret split: if_splits fifo_action.splits)

lemma audio_length_keeps: "audio_length buf action x n = Ret n1 \<Longrightarrow> same_phase n n1"
  by (auto simp: audio_length_def audio_pts_def same_phase_def Let_def obind_eq_Ret split: if_splits fifo_action.splits)

lemma compute_keeps: "nbc_compute_fifo_length f F buf action x n = Ret n1 \<Longrightarrow> same_phase n n1"
  by (auto simp: nbc_compute_fifo_length_def compute_video_def compute_audio_def obind_eq_Ret split: if_splits
      dest!: video_length_keeps audio_length_keeps) (simp_all add: same_phase_def)

lemma inv_alloc: "nbc_inv st \<Longrightarrow> nbc_inv (nbc_alloc_cb F st)"
  using inv_end by (cases st) (auto simp: nbc_alloc_cb_def)

lemma inv_start: "nbc_inv st \<Longrightarrow> nbc_inv (start_buffering st)"
proof (cases st)
  case (Pair n x)
  assume "nbc_inv st"
  then show ?thesis using inv_begin(1) [of n x] Pair
    by (auto simp: start_buffering_def elim: inv_other)
qed

lemma inv_check: "nbc_inv st \<Longrightarrow> check_buffering st = Ret st1 \<Longrightarrow> nbc_inv st1"
  using inv_end inv_report by (cases st) (auto simp: check_buffering_def obind_eq_Ret split: if_splits)

lemma inv_put_end: "nbc_inv st \<Longrightarrow> nbc_inv (put_end buf st)"
proof (cases st)
  case (Pair n x)
  assume i: "nbc_inv st"
  show ?thesis
  proof (cases "nb_buffering n")
    case True
    then have "nbc_inv (n\<lparr>nb_progress := 100, nb_buffering := False\<rparr>, nbc_set_speed_normal (report_progress 100 x))"
      using i Pair inv_end by blast
    then show ?thesis using Pair i True by (auto simp: put_end_def nbc_inv_pair)
  next
    case False
    then show ?thesis using Pair i by (auto simp: put_end_def nbc_inv_pair)
  qed
qed

lemma inv_empty: "nbc_inv st \<Longrightarrow> nbc_inv (check_empty f F st)"
proof (cases st)
  case (Pair n x)
  assume i: "nbc_inv st"
  show ?thesis
  proof (cases "nb_buffering n")
    case True
    then show ?thesis using Pair i engine_pause [of x] by (auto simp: check_empty_def nbc_inv_pair)
  next
    case False
    have "nbc_inv (n\<lparr>nb_buffering := True, nb_progress := 0\<rparr>, nbc_set_speed_pause (report_progress 0 x))" if "nb_enabled n"
      using inv_begin(2) [of n x] i Pair that by (auto elim: inv_other)
    then show ?thesis using Pair i False by (auto simp: check_empty_def)
  qed
qed

lemma inv_store: "nbc_inv (n, x) \<Longrightarrow> nbc_inv (store_sizes f F n, x)"
  by (erule inv_other) (simp_all add: store_sizes_def)

lemma inv_dispatch:
  assumes "nbc_inv st" and "nbc_dispatch c f F b st = Ret st1"
  shows "nbc_inv st1"
proof -
  obtain n x where st: "st = (n, x)" by (cases st)
  have "nbc_inv st1" if p: "nbc_put_cb f F buf st = Ret st1" for buf
  proof (cases "is_control buf")
    case True
    have "nbc_inv (put_disc f n, x)" using assms(1) unfolding st by (rule inv_other) (simp_all add: put_disc_def)
    then show ?thesis using p True inv_put_end [OF assms(1), of buf] assms(1) st
      by (auto simp: nbc_put_cb_def split: if_splits prod.splits intro: inv_store)
  next
    case False
    obtain n1 x1 where s: "start_buffering st = (n1, x1)" by fastforce
    then obtain n2 where n2: "nbc_compute_fifo_length f F buf FIFO_PUT x1 n1 = Ret n2" "check_buffering (n2, x1) = Ret st1"
      using p False by (auto simp: nbc_put_cb_def obind_eq_Ret)
    have "nbc_inv (n2, x1)" using inv_start [OF assms(1)] compute_keeps [OF n2(1)] unfolding s by (auto simp: same_phase_def elim: inv_other)
    then show ?thesis using inv_check n2(2) by blast
  qed
  moreover have "nbc_inv st1" if g: "nbc_get_cb f F buf st = Ret st1" for buf
  proof (cases "is_control buf")
    case True
    have "nbc_inv (get_disc f n, x)" using assms(1) unfolding st by (rule inv_other) (simp_all add: get_disc_def)
    then show ?thesis using g True assms(1) st by (auto simp: nbc_get_cb_def intro: inv_store)
  next
    case False
    then obtain n2 where n2: "nbc_compute_fifo_length f F buf FIFO_GET x n = Ret n2" "st1 = check_empty f F (n2, x)"
      using g st by (auto simp: nbc_get_cb_def obind_eq_Ret)
    have "nbc_inv (n2, x)" using assms(1) compute_keeps [OF n2(1)] unfolding st by (auto simp: same_phase_def elim: inv_other)
    then show ?thesis using inv_empty n2(2) by blast
  qed
  moreover have "nbc_inv (nbc_alloc_cb F st)" by (rule inv_alloc [OF assms(1)])
  ultimately show ?thesis using assms(2) by (auto simp: nbc_dispatch_def obind_eq_Ret split: if_splits)
qed

lemma nbc_reach_inv: "nbc_reach st \<Longrightarrow> nbc_inv st"
proof (induction rule: nbc_reach.induct)
  case (nbc_reach_init x video audio)
  then show ?case by (simp add: nbc_inv_pair nbc_new_def engine_simps phase_simps)
next
  case (nbc_reach_call st c f F b st1)
  then show ?case by (blast intro: inv_dispatch)
next
  case (nbc_reach_info n x hv ha vb ab)
  then show ?case by (simp add: nbc_inv_pair)
qed

section \<open>Audio and video\<close>

definition mirror_nbc :: "nbc \<Rightarrow> nbc" where
  "mirror_nbc n =
     \<lparr>nb_buffering = nb_buffering n, nb_enabled = nb_enabled n, nb_progress = nb_progress n,
      nb_video_fifo = the (nb_audio_fifo n), nb_audio_fifo = Some (nb_video_fifo n),
      nb_video_fifo_fill = nb_audio_fifo_fill n, nb_audio_fifo_fill = nb_video_fifo_fill n,
      nb_video_fifo_free = nb_audio_fifo_free n, nb_audio_fifo_free = nb_video_fifo_free n,
      nb_video_fifo_length = nb_audio_fifo_length n, nb_audio_fifo_length = nb_video_fifo_length n,
      nb_low_water_mark = nb_low_water_mark n, nb_high_water_mark = nb_high_water_mark n,
      nb_video_last_pts = nb_audio_last_pts n, nb_audio_last_pts = nb_video_last_pts n,
      nb_video_first_pts = nb_audio_first_pts n, nb_audio_first_pts = nb_video_first_pts n,
      nb_video_fifo_size = nb_audio_fifo_size n, nb_audio_fifo_size = nb_video_fifo_size n,
      nb_video_br = nb_audio_br n, nb_audio_br = nb_video_br n,
      nb_video_in_disc = nb_audio_in_disc n, nb_audio_in_disc = nb_video_in_disc n\<rparr>"

definition mirror_stream :: "nbc_stream \<Rightarrow> nbc_stream" where
  "mirror_stream x = x\<lparr>ns_has_video := ns_has_audio x, ns_has_audio := ns_has_video x,
     ns_video_bitrate := ns_audio_bitrate x, ns_audio_bitrate := ns_video_bitrate x\<rparr>"

definition mirror :: "nbc_state \<Rightarrow> nbc_state" where
  "mirror st = (mirror_nbc (fst st), mirror_stream (snd st))"

definition omap :: "('a \<Rightarrow> 'b) \<Rightarrow> 'a outcome \<Rightarrow> 'b outcome" where
  "omap g m = obind m (\<lambda>a. Ret (g a))"

lemma omap_simps [simp]: "omap g (Ret a) = Ret (g a)" "omap g Fault = Fault"
  by (simp_all add: omap_def)

lemma omap_bind: "omap g (obind m h) = obind m (\<lambda>a. omap g (h a))"
  by (simp add: omap_def)

lemma mirror_calls [simp]:
  "report_progress p (mirror_stream x) = mirror_stream (report_progress p x)"
  "nbc_set_speed_pause (mirror_stream x) = mirror_stream (nbc_set_speed_pause x)"
  "nbc_set_speed_normal (mirror_stream x) = mirror_stream (nbc_set_speed_normal x)"
  by (simp_all add: mirror_stream_def report_progress_def nbc_set_speed_pause_def nbc_set_speed_normal_def)

lemma mirror_pts:
  "audio_pts buf action (mirror_nbc n) = mirror_nbc (video_pts buf action n)"
  "video_pts buf action (mirror_nbc n) = mirror_nbc (audio_pts buf action n)"
  by (cases action; simp add: mirror_nbc_def audio_pts_def video_pts_def)+

lemma mirror_length:
  "audio_length buf action (mirror_stream x) (mirror_nbc n) = omap mirror_nbc (video_length buf action x n)"
  "video_length buf action (mirror_stream x) (mirror_nbc n) = omap mirror_nbc (audio_length buf action x n)"
  unfolding audio_length_def video_length_def mirror_pts Let_def if_distrib [of "omap mirror_nbc"] omap_bind omap_simps
  by (simp_all add: mirror_nbc_def mirror_stream_def)

lemma mirror_compute:
  assumes "nb_audio_fifo n = Some a" and "a \<noteq> nb_video_fifo n" and "f = nb_video_fifo n \<or> f = a"
  shows "nbc_compute_fifo_length f F buf action (mirror_stream x) (mirror_nbc n) = omap mirror_nbc (nbc_compute_fifo_length f F buf action x n)"
proof -
  have a: "compute_audio F buf action (mirror_stream x) (mirror_nbc n) = omap mirror_nbc (compute_video F buf action x n)"
    unfolding compute_audio_def compute_video_def omap_bind mirror_length(1) [symmetric] by (simp add: mirror_nbc_def)
  have v: "compute_video F buf action (mirror_stream x) (mirror_nbc n) = omap mirror_nbc (compute_audio F buf action x n)"
    unfolding compute_audio_def compute_video_def omap_bind mirror_length(2) [symmetric] by (simp add: mirror_nbc_def)
  show ?thesis using assms a v by (auto simp: nbc_compute_fifo_length_def mirror_nbc_def)
qed

text \<open>The fifos stay the two of the stream.\<close>

definition two_fifos :: "fifoid \<Rightarrow> nbc \<Rightarrow> bool" where
  "two_fifos f n \<longleftrightarrow> (\<exists>a. nb_audio_fifo n = Some a \<and> a \<noteq> nb_video_fifo n \<and> (f = nb_video_fifo n \<or> f = a))"

lemma length_fifos:
  "video_length buf action x n = Ret n1 \<Longrightarrow> nb_audio_fifo n1 = nb_audio_fifo n \<and> nb_video_fifo n1 = nb_video_fifo n"
  "audio_length buf action x n = Ret n1 \<Longrightarrow> nb_audio_fifo n1 = nb_audio_fifo n \<and> nb_video_fifo n1 = nb_video_fifo n"
  by (auto simp: video_length_def video_pts_def audio_length_def audio_pts_def Let_def obind_eq_Ret split: if_splits fifo_action.splits)

lemma compute_fifos:
  assumes "nbc_compute_fifo_length f F buf action x n = Ret n1"
  shows "two_fifos g n1 = two_fifos g n"
proof -
  have "nb_audio_fifo n1 = nb_audio_fifo n \<and> nb_video_fifo n1 = nb_video_fifo n"
    using assms by (auto simp: nbc_compute_fifo_length_def compute_video_def compute_audio_def obind_eq_Ret split: if_splits
      dest!: length_fifos)
  then show ?thesis by (simp add: two_fifos_def)
qed

lemma mirror_fields:
  "nb_buffering (mirror_nbc n) = nb_buffering n" "nb_enabled (mirror_nbc n) = nb_enabled n" "nb_progress (mirror_nbc n) = nb_progress n"
  "nb_video_fifo_length (mirror_nbc n) = nb_audio_fifo_length n" "nb_audio_fifo_length (mirror_nbc n) = nb_video_fifo_length n"
  "nb_video_fifo_free (mirror_nbc n) = nb_audio_fifo_free n" "nb_audio_fifo_free (mirror_nbc n) = nb_video_fifo_free n"
  "nb_high_water_mark (mirror_nbc n) = nb_high_water_mark n"
  "ns_has_video (mirror_stream x) = ns_has_audio x" "ns_has_audio (mirror_stream x) = ns_has_video x"
  by (simp_all add: mirror_nbc_def mirror_stream_def)

lemma mirror_upd:
  "(mirror_nbc n)\<lparr>nb_progress := p\<rparr> = mirror_nbc (n\<lparr>nb_progress := p\<rparr>)"
  "(mirror_nbc n)\<lparr>nb_buffering := b\<rparr> = mirror_nbc (n\<lparr>nb_buffering := b\<rparr>)"
  "(mirror_nbc n)\<lparr>nb_enabled := b\<rparr> = mirror_nbc (n\<lparr>nb_enabled := b\<rparr>)"
  by (simp_all add: mirror_nbc_def)

lemma mirror_start: "start_buffering (mirror st) = mirror (start_buffering st)"
  by (cases st) (simp add: start_buffering_def mirror_def, simp add: mirror_nbc_def)

lemma mirror_progress:
  assumes "ns_has_video x \<noteq> 0 \<or> ns_has_audio x \<noteq> 0"
  shows "buffering_progress (mirror_stream x) (mirror_nbc n) = buffering_progress x n"
  using assms by (auto simp: buffering_progress_def mirror_nbc_def mirror_stream_def cdiv_def Let_def)

lemma mirror_check:
  assumes "ns_has_video (snd st) \<noteq> 0 \<or> ns_has_audio (snd st) \<noteq> 0"
  shows "check_buffering (mirror st) = omap mirror (check_buffering st)"
proof (cases st)
  case (Pair n x)
  have "buffering_progress (mirror_stream x) (mirror_nbc n) = buffering_progress x n"
    using mirror_progress assms Pair by simp
  then have "check_buffering (mirror_nbc n, mirror_stream x) = omap mirror (check_buffering (n, x))"
    unfolding check_buffering_def Let_def prod.case mirror_fields mirror_upd mirror_calls
      if_distrib [of "omap mirror"] omap_bind omap_simps mirror_def fst_conv snd_conv by (simp add: conj_ac disj_ac)
  then show ?thesis unfolding Pair by (simp add: mirror_def)
qed

lemma mirror_end: "put_end buf (mirror st) = mirror (put_end buf st)"
  by (cases st) (simp add: put_end_def mirror_def, simp add: mirror_nbc_def)

lemma mirror_store:
  assumes "two_fifos f n"
  shows "store_sizes f F (mirror_nbc n) = mirror_nbc (store_sizes f F n)"
    and "put_disc f (mirror_nbc n) = mirror_nbc (put_disc f n)" and "get_disc f (mirror_nbc n) = mirror_nbc (get_disc f n)"
  using assms by (auto simp: two_fifos_def store_sizes_def put_disc_def get_disc_def mirror_nbc_def)

lemma mirror_empty:
  assumes "two_fifos f (fst st)"
  shows "check_empty f F (mirror st) = mirror (check_empty f F st)"
proof (cases st)
  case (Pair n x)
  then obtain a where a: "nb_audio_fifo n = Some a" "a \<noteq> nb_video_fifo n" "f = nb_video_fifo n \<or> f = a"
    using assms by (auto simp: two_fifos_def)
  have m: "nb_enabled (mirror_nbc n) = nb_enabled n" "nb_buffering (mirror_nbc n) = nb_buffering n"
    "nb_video_fifo (mirror_nbc n) = a" "nb_audio_fifo (mirror_nbc n) = Some (nb_video_fifo n)"
    "nb_video_fifo_free (mirror_nbc n) = nb_audio_fifo_free n" "nb_audio_fifo_free (mirror_nbc n) = nb_video_fifo_free n"
    "ns_has_video (mirror_stream x) = ns_has_audio x" "ns_has_audio (mirror_stream x) = ns_has_video x"
    "(mirror_nbc n)\<lparr>nb_buffering := True, nb_progress := 0\<rparr> = mirror_nbc (n\<lparr>nb_buffering := True, nb_progress := 0\<rparr>)"
    using a(1) by (simp_all add: mirror_nbc_def mirror_stream_def)
  show ?thesis using a unfolding Pair by (auto simp: check_empty_def mirror_def m)
qed

lemma mirror_alloc: "nbc_alloc_cb F (mirror st) = mirror (nbc_alloc_cb F st)"
  by (cases st) (simp add: nbc_alloc_cb_def mirror_def, simp add: mirror_nbc_def)

lemma start_keeps:
  "two_fifos f (fst (start_buffering st)) = two_fifos f (fst st)"
  "ns_has_video (snd (start_buffering st)) = ns_has_video (snd st)" "ns_has_audio (snd (start_buffering st)) = ns_has_audio (snd st)"
  by (cases st; simp add: start_buffering_def two_fifos_def report_progress_def nbc_set_speed_pause_def)+

lemma mirror_put:
  assumes "two_fifos f (fst st)" and "ns_has_video (snd st) \<noteq> 0 \<or> ns_has_audio (snd st) \<noteq> 0"
  shows "nbc_put_cb f F buf (mirror st) = omap mirror (nbc_put_cb f F buf st)"
proof (cases "is_control buf")
  case True
  have e: "two_fifos f (fst (put_end buf st))" using assms(1) by (cases st) (auto simp: put_end_def two_fifos_def)
  have d: "two_fifos f (put_disc f (fst st))" using assms(1) by (auto simp: put_disc_def two_fifos_def)
  show ?thesis using True assms(1) mirror_store(1) [OF assms(1), of F] mirror_store(2,3) [OF assms(1)] mirror_store(1) [OF e, of F] mirror_store(1) [OF d, of F] mirror_end [of buf st]
    by (simp add: nbc_put_cb_def mirror_def split: prod.split)
next
  case False
  obtain n1 x1 where s: "start_buffering st = (n1, x1)" by fastforce
  have two: "two_fifos f n1" and has: "ns_has_video x1 \<noteq> 0 \<or> ns_has_audio x1 \<noteq> 0"
    using start_keeps(1) [of f st] start_keeps(2,3) [of st] assms unfolding s by simp_all
  have sm: "start_buffering (mirror st) = (mirror_nbc n1, mirror_stream x1)" unfolding mirror_start s by (simp add: mirror_def)
  have c: "nbc_compute_fifo_length f F buf FIFO_PUT (mirror_stream x1) (mirror_nbc n1) = omap mirror_nbc (nbc_compute_fifo_length f F buf FIFO_PUT x1 n1)"
    using two mirror_compute by (auto simp: two_fifos_def)
  have "check_buffering (mirror_nbc n2, mirror_stream x1) = omap mirror (check_buffering (n2, x1))" for n2
    using mirror_check [of "(n2, x1)"] has by (simp add: mirror_def)
  then show ?thesis using False unfolding nbc_put_cb_def sm s by (simp add: c omap_bind) (simp add: omap_def)
qed

lemma mirror_get:
  assumes "two_fifos f (fst st)"
  shows "nbc_get_cb f F buf (mirror st) = omap mirror (nbc_get_cb f F buf st)"
proof (cases st)
  case (Pair n x)
  note two = assms [unfolded Pair fst_conv]
  show ?thesis
  proof (cases "is_control buf")
    case True
    have "two_fifos f (get_disc f n)" using two by (auto simp: get_disc_def two_fifos_def)
    then show ?thesis using True mirror_store(1) [OF two, of F] mirror_store(3) [OF two] mirror_store(1) [of f "get_disc f n" F]
      unfolding Pair by (simp add: nbc_get_cb_def mirror_def)
  next
    case False
    have c: "nbc_compute_fifo_length f F buf FIFO_GET (mirror_stream x) (mirror_nbc n) = omap mirror_nbc (nbc_compute_fifo_length f F buf FIFO_GET x n)"
      using two mirror_compute by (auto simp: two_fifos_def)
    have "check_empty f F (mirror_nbc n1, mirror_stream x) = mirror (check_empty f F (n1, x))"
      if "nbc_compute_fifo_length f F buf FIFO_GET x n = Ret n1" for n1
      using mirror_empty [of f "(n1, x)" F] compute_fifos [OF that, of f] two by (simp add: mirror_def)
    then show ?thesis using False unfolding Pair nbc_get_cb_def mirror_def
      by (cases "nbc_compute_fifo_length f F buf FIFO_GET x n") (simp_all add: c omap_def mirror_def)
  qed
qed

section \<open>Properties\<close>


text \<open>
  The progress that is reported to the user lies between 0 and 100, starts anew at 0 with every
  buffering, never decreases until the next one, and ends at 100.
\<close>

theorem nbc_progress:
  assumes "nbc_reach (n, x)"
  shows "(let rs = phase (ns_calls x) in sorted rs \<and> (\<forall>r \<in> set rs. 0 \<le> r \<and> r \<le> 100) \<and>
    (rs = [] \<or> nb_buffering n \<or> last rs = 100) \<and> (nb_buffering n \<longrightarrow> rs \<noteq> [] \<and> last rs \<le> nb_progress n))"
  using nbc_reach_inv [OF assms] by (auto simp: nbc_inv_pair Let_def)

text \<open>
  The code treats audio and video alike: with the roles of the two fifos and of all that is
  stored and known about them exchanged, every callback does the same, with the roles exchanged.
  (A buffer put into a fifo while the stream has neither is the exception.)
\<close>

theorem nbc_audio_video:
  assumes "nb_audio_fifo n = Some a" and "a \<noteq> nb_video_fifo n" and "f = nb_video_fifo n \<or> f = a"
    and "c = NBC_PUT_CB \<Longrightarrow> ns_has_video x \<noteq> 0 \<or> ns_has_audio x \<noteq> 0"
  shows "nbc_dispatch c f F b (mirror (n, x)) = obind (nbc_dispatch c f F b (n, x)) (\<lambda>st. Ret (mirror st))"
proof -
  have two: "two_fifos f (fst (n, x))" using assms(1-3) by (auto simp: two_fifos_def)
  show ?thesis
  proof (cases b)
    case None
    then show ?thesis by (simp add: nbc_dispatch_def mirror_alloc)
  next
    case (Some buf)
    then show ?thesis using mirror_put [OF two, of F buf] mirror_get [OF two, of F buf] assms(4)
      by (simp add: nbc_dispatch_def mirror_alloc omap_def)
  qed
qed


section \<open>Examples\<close>

definition example_fifo :: "int \<Rightarrow> int \<Rightarrow> fifo_buffer" where
  "example_fifo filled free = \<lparr>ff_first = None, ff_last = None, ff_size = filled, ff_data_size = 1000, ff_pool_top = None, ff_num_free = free,
     ff_capacity = 10, ff_buf_size = 2048, ff_alloc_cb = (Some NBC_ALLOC_CB, 0) # replicate 4 (None, 0),
     ff_put_cb = (Some NBC_PUT_CB, 0) # replicate 4 (None, 0), ff_get_cb = (Some NBC_GET_CB, 0) # replicate 4 (None, 0)\<rparr>"

definition example_buf :: buf_element where
  "example_buf = (new_elem extra_info_reset 0 2048 0)\<lparr>be_type := 0x02000000, be_pts := 9000\<rparr>"

definition example_stream :: nbc_stream where
  "example_stream = \<lparr>ns_has_video = 1, ns_has_audio = 1, ns_video_bitrate = 0, ns_audio_bitrate = 0, ns_audio_out = True, ns_calls = []\<rparr>"

text \<open>The first buffer of a stream, put into the video fifo.\<close>

definition example_nbc :: nbc_state where
  "example_nbc =
     ((nbc_new 0 (Some 1))\<lparr>nb_enabled := True, nb_buffering := True, nb_progress := 37, nb_video_fifo_free := 6, nb_video_fifo_fill := 37,
        nb_video_fifo_size := 1000, nb_video_last_pts := 9000, nb_video_first_pts := 9000, nb_video_br := 0\<rparr>,
      example_stream\<lparr>ns_calls := [C_speed XINE_SPEED_PAUSE, C_option CLOCK_SCR_ADJUSTABLE 0, C_property AO_PROP_PAUSED 2,
        C_report 0, C_report 37]\<rparr>)"

lemma example_put: "nbc_dispatch NBC_PUT_CB 0 (example_fifo 3 6) (Some example_buf) (nbc_new 0 (Some 1), example_stream) = Ret example_nbc"
proof -
  have "\<not> is_control example_buf"
    by (simp add: is_control_def example_buf_def BUF_MAJOR_MASK_def BUF_CONTROL_BASE_def)
  moreover have "be_pts example_buf = 9000" by (simp add: example_buf_def)
  ultimately show ?thesis
    by (simp add: nbc_dispatch_def nbc_put_cb_def NBC_ALLOC_CB_def NBC_PUT_CB_def start_buffering_def nbc_new_def
        nbc_compute_fifo_length_def compute_video_def video_length_def video_pts_def check_buffering_def buffering_progress_def
        cdiv_def example_fifo_def example_stream_def example_nbc_def report_progress_def nbc_set_speed_pause_def
        DEFAULT_HIGH_WATER_MARK_def Let_def sdiv_nonneg)
qed

lemma example_nbc_reach: "nbc_reach example_nbc"
  by (rule nbc_reach_call [OF _ example_put], rule nbc_reach_init) (simp add: example_stream_def)

lemma example_nbc_pair: "example_nbc = (fst example_nbc, snd example_nbc)"
  by simp


theorem nbc_progress_witness:
  "phase (ns_calls (snd example_nbc)) = [0, 37] \<and> sorted (phase (ns_calls (snd example_nbc))) \<and>
   list_all (\<lambda>r. 0 \<le> r \<and> r \<le> 100) (phase (ns_calls (snd example_nbc))) \<and>
   last (phase (ns_calls (snd example_nbc))) \<le> nb_progress (fst example_nbc)"
proof -
  have "nb_buffering (fst example_nbc)" "phase (ns_calls (snd example_nbc)) = [0, 37]" by (simp_all add: example_nbc_def phase_simps)
  then show ?thesis using nbc_progress [of "fst example_nbc" "snd example_nbc"] example_nbc_reach
    by (simp add: Let_def list_all_iff)
qed

theorem nbc_audio_video_witness:
  "nbc_dispatch NBC_GET_CB 0 (example_fifo 0 9) (Some example_buf) (mirror (nbc_new 0 (Some 1), example_stream)) =
     obind (nbc_dispatch NBC_GET_CB 0 (example_fifo 0 9) (Some example_buf) (nbc_new 0 (Some 1), example_stream)) (\<lambda>st. Ret (mirror st))"
  by (rule nbc_audio_video [where a = 1]) (simp_all add: nbc_new_def example_stream_def)

definition example_system :: "nbc_world outcome bufsys" where
  "example_system = \<lparr>bs_elem = Map.empty, bs_fifo = [0 \<mapsto> example_fifo 9 1],
     bs_world = Ret \<lparr>nw_nbc = Some (fst example_nbc), nw_stream = snd example_nbc\<rparr>\<rparr>"


end
