(* ===== verification/Xml_Lexer.thy ===== *)
theory Xml_Lexer
  imports C_Text
begin

text \<open>
  The XML lexer, src/src/xine-utils/xmllexer.c. The buffer and the token of the caller are arrays:
  reading and writing outside them faults. The static variables of the file are a record.
  The token is never NULL. What is printed is left out.
\<close>

section \<open>Data\<close>

datatype token = T_ERROR | T_EOF | T_EOL | T_SEPAR | T_M_START_1 | T_M_START_2 | T_M_STOP_1 | T_M_STOP_2
  | T_EQUAL | T_QUOTE | T_STRING | T_IDENT | T_DATA | T_C_START | T_C_STOP | T_TI_START | T_TI_STOP
  | T_DOCTYPE_START | T_DOCTYPE_STOP

datatype lexer_mode = NORMAL | DATA

record lexer =
  lexbuf :: string
  lexbuf_size :: nat
  lexbuf_pos :: nat
  lex_mode :: lexer_mode
  in_comment :: bool

definition lexer_init :: "string \<Rightarrow> nat \<Rightarrow> lexer" where
  "lexer_init buf n = \<lparr>lexbuf = buf, lexbuf_size = n, lexbuf_pos = 0, lex_mode = NORMAL, in_comment = False\<rparr>"

text \<open>Some characters.\<close>

definition TAB :: char where
  "TAB = CHR 0x09"

definition CR :: char where
  "CR = CHR 0x0D"

definition DQ :: char where
  "DQ = CHR 0x22"

definition BSL :: char where
  "BSL = CHR 0x5C"

section \<open>One step\<close>

text \<open>
  Where the loop stands: the token, its length, the state; or the function has returned.
\<close>

datatype lex_result = More string nat nat lexer | Done token string lexer

definition advance :: "nat \<Rightarrow> lexer \<Rightarrow> lexer" where
  "advance n L = L\<lparr>lexbuf_pos := lexbuf_pos L + n\<rparr>"

text \<open>\<open>tok[tok_pos] = c; tok_pos++; lexbuf_pos++\<close>, and the next state.\<close>

definition keep :: "char \<Rightarrow> nat \<Rightarrow> string \<Rightarrow> nat \<Rightarrow> lexer \<Rightarrow> lex_result outcome" where
  "keep c state tok p L = obind (aset tok p c) (\<lambda>tok1. Ret (More tok1 (p + 1) state (advance 1 L)))"

text \<open>\<open>tok[tok_pos] = '\0'; return t\<close>\<close>

definition finish :: "token \<Rightarrow> string \<Rightarrow> nat \<Rightarrow> lexer \<Rightarrow> lex_result outcome" where
  "finish t tok p L = obind (aset tok p NUL) (\<lambda>tok1. Ret (Done t tok1 L))"

text \<open>The last character of a token: \<open>tok[tok_pos] = c; lexbuf_pos++; tok_pos++; tok[tok_pos] = '\0'; return t\<close>\<close>

definition keep_finish :: "char \<Rightarrow> token \<Rightarrow> string \<Rightarrow> nat \<Rightarrow> lexer \<Rightarrow> lex_result outcome" where
  "keep_finish c t tok p L = obind (aset tok p c) (\<lambda>tok1. finish t tok1 (p + 1) (advance 1 L))"

definition lex_start :: "char \<Rightarrow> string \<Rightarrow> nat \<Rightarrow> lexer \<Rightarrow> lex_result outcome" where
  "lex_start c tok p L =
     (if c = LF \<or> c = CR then keep c 1 tok p L
      else if c = CHR '' '' \<or> c = TAB then keep c 2 tok p L
      else if c = CHR ''<'' then keep c 3 tok p L
      else if c = CHR ''>'' then keep c 4 tok p L
      else if c = CHR ''/'' then keep c (if in_comment L then 0 else 5) tok p L
      else if c = CHR ''='' then keep c 6 tok p L
      else if c = DQ then Ret (More tok p 7 (advance 1 L))
      else if c = CHR ''-'' then keep c 10 tok p L
      else if c = CHR ''?'' then keep c 9 tok p L
      else keep c 100 tok p L)"

definition lex_m_start :: "char \<Rightarrow> string \<Rightarrow> nat \<Rightarrow> lexer \<Rightarrow> lex_result outcome" where
  "lex_m_start c tok p L =
     (if c = CHR ''/'' then keep_finish c T_M_START_2 tok p L
      else if c = CHR ''!'' then keep c 8 tok p L
      else if c = CHR ''?'' then keep_finish c T_TI_START tok p L
      else finish T_M_START_1 tok p L)"

definition to_data :: "lexer \<Rightarrow> lexer" where
  "to_data L = (if in_comment L then L else L\<lparr>lex_mode := DATA\<rparr>)"

definition lex_m_stop_2 :: "char \<Rightarrow> string \<Rightarrow> nat \<Rightarrow> lexer \<Rightarrow> lex_result outcome" where
  "lex_m_stop_2 c tok p L =
     (if c = CHR ''>'' then keep_finish c T_M_STOP_2 tok p (to_data L) else finish T_ERROR tok p L)"

definition lex_string :: "char \<Rightarrow> string \<Rightarrow> nat \<Rightarrow> lexer \<Rightarrow> lex_result outcome" where
  "lex_string c tok p L =
     obind (aset tok p c) (\<lambda>tok1.
     if c = DQ then finish T_STRING tok1 p (advance 1 L) else Ret (More tok1 (p + 1) 7 (advance 1 L)))"

text \<open>\<open>strncmp (lexbuf + lexbuf_pos, s, n) == 0\<close> stops at the first difference.\<close>

fun same_at :: "string \<Rightarrow> nat \<Rightarrow> string \<Rightarrow> bool outcome" where
  "same_at buf i [] = Ret True"
| "same_at buf i (c # s) = obind (aget buf i) (\<lambda>b. if b = c then same_at buf (i + 1) s else Ret False)"

text \<open>\<open>strncpy (tok + tok_pos, s, n)\<close> writes no NUL here.\<close>

fun copy_at :: "string \<Rightarrow> nat \<Rightarrow> string \<Rightarrow> string outcome" where
  "copy_at tok p [] = Ret tok"
| "copy_at tok p (c # s) = obind (aset tok p c) (\<lambda>tok1. copy_at tok1 (p + 1) s)"

definition lex_bang :: "char \<Rightarrow> string \<Rightarrow> nat \<Rightarrow> lexer \<Rightarrow> lex_result outcome" where
  "lex_bang c tok p L =
     (if c = CHR ''-'' then
        obind (aget (lexbuf L) (lexbuf_pos L + 1)) (\<lambda>d.
        if d = CHR ''-'' then
          obind (aset tok p (CHR ''-'')) (\<lambda>tok1.
          obind (aset tok1 (p + 1) (CHR ''-'')) (\<lambda>tok2.
          finish T_C_START tok2 (p + 2) ((advance 2 L)\<lparr>in_comment := True\<rparr>)))
        else Ret (More tok p 8 (advance 1 L)))
      else if c = CHR ''D'' then
        obind (same_at (lexbuf L) (lexbuf_pos L + 1) ''OCTYPE'') (\<lambda>same.
        if same then obind (copy_at tok p ''DOCTYPE'') (\<lambda>tok1. Ret (Done T_DOCTYPE_START tok1 (advance 7 L)))
        else Ret (Done T_ERROR tok (advance 1 L)))
      else Ret (Done T_ERROR tok L))"

definition lex_ti_stop :: "char \<Rightarrow> string \<Rightarrow> nat \<Rightarrow> lexer \<Rightarrow> lex_result outcome" where
  "lex_ti_stop c tok p L = (if c = CHR ''>'' then keep_finish c T_TI_STOP tok p L else finish T_ERROR tok p L)"

text \<open>\<open>-->\<close> behind an identifier is left for the next token.\<close>

definition lex_comment_stop :: "char \<Rightarrow> string \<Rightarrow> nat \<Rightarrow> lexer \<Rightarrow> lex_result outcome" where
  "lex_comment_stop c tok p L =
     (if c = CHR ''>'' then
        obind (aset tok p c) (\<lambda>tok1.
        obind (aset tok1 (p + 1) NUL) (\<lambda>tok2.
        if length (cstr tok2) \<noteq> 3
        then obind (aset tok2 (p + 1 - 3) NUL) (\<lambda>tok3. Ret (Done T_IDENT tok3 (L\<lparr>lexbuf_pos := lexbuf_pos L + 1 - 3\<rparr>)))
        else Ret (Done T_C_STOP tok2 ((advance 1 L)\<lparr>in_comment := False\<rparr>))))
      else keep c 100 tok p L)"

definition ident_stop :: "char \<Rightarrow> bool" where
  "ident_stop c \<longleftrightarrow> c \<in> {CHR ''<'', CHR ''>'', BSL, DQ, CHR '' '', TAB, CHR ''=''}"

definition lex_ident :: "char \<Rightarrow> string \<Rightarrow> nat \<Rightarrow> lexer \<Rightarrow> lex_result outcome" where
  "lex_ident c tok p L =
     (if ident_stop c then finish T_IDENT tok p L
      else if c = CHR ''?'' then keep c 9 tok p L
      else if c = CHR ''-'' then keep c 10 tok p L
      else keep c 100 tok p L)"

definition lex_normal :: "char \<Rightarrow> string \<Rightarrow> nat \<Rightarrow> nat \<Rightarrow> lexer \<Rightarrow> lex_result outcome" where
  "lex_normal c tok p state L =
     (if state = 0 then lex_start c tok p L
      else if state = 1 then (if c = LF \<or> c = CR then keep c 1 tok p L else finish T_EOL tok p L)
      else if state = 2 then (if c = CHR '' '' \<or> c = TAB then keep c 2 tok p L else finish T_SEPAR tok p L)
      else if state = 3 then lex_m_start c tok p L
      else if state = 4 then finish T_M_STOP_1 tok p (to_data L)
      else if state = 5 then lex_m_stop_2 c tok p L
      else if state = 6 then finish T_EQUAL tok p L
      else if state = 7 then lex_string c tok p L
      else if state = 8 then lex_bang c tok p L
      else if state = 9 then lex_ti_stop c tok p L
      else if state = 10 then keep c (if c = CHR ''-'' then 11 else 100) tok p L
      else if state = 11 then lex_comment_stop c tok p L
      else if state = 100 then lex_ident c tok p L
      else Ret (Done T_ERROR tok L))"

definition lex_step :: "char \<Rightarrow> string \<Rightarrow> nat \<Rightarrow> nat \<Rightarrow> lexer \<Rightarrow> lex_result outcome" where
  "lex_step c tok p state L =
     (case lex_mode L of
        NORMAL \<Rightarrow> lex_normal c tok p state L
      | DATA \<Rightarrow> if c = CHR ''<'' then finish T_DATA tok p (L\<lparr>lex_mode := NORMAL\<rparr>) else keep c state tok p L)"

section \<open>A token\<close>

text \<open>Behind the loop: the token array is full, or the buffer is at its end.\<close>

definition end_token :: "nat \<Rightarrow> token" where
  "end_token state =
     (if state \<le> 2 then T_EOF
      else if state = 3 then T_M_START_1
      else if state = 4 then T_M_STOP_1
      else if state = 6 then T_EQUAL
      else if state = 7 then T_STRING
      else if state = 100 then T_DATA
      else T_ERROR)"

definition lex_end :: "nat \<Rightarrow> string \<Rightarrow> nat \<Rightarrow> nat \<Rightarrow> lexer \<Rightarrow> (token \<times> string \<times> lexer) outcome" where
  "lex_end tok_size tok p state L =
     (if tok_size \<le> p then Ret (T_ERROR, tok, L)
      else if lexbuf_size L \<le> lexbuf_pos L then obind (aset tok p NUL) (\<lambda>tok1. Ret (end_token state, tok1, L))
      else Ret (T_ERROR, tok, L))"

text \<open>Every turn of the loop that does not return moves on by one character: as much fuel is enough.\<close>

fun lex_loop :: "nat \<Rightarrow> nat \<Rightarrow> string \<Rightarrow> nat \<Rightarrow> nat \<Rightarrow> lexer \<Rightarrow> (token \<times> string \<times> lexer) outcome" where
  "lex_loop 0 tok_size tok p state L = Spin"
| "lex_loop (Suc k) tok_size tok p state L =
     (if p < tok_size \<and> lexbuf_pos L < lexbuf_size L then
        obind (aget (lexbuf L) (lexbuf_pos L)) (\<lambda>c.
        obind (lex_step c tok p state L) (\<lambda>r.
        case r of
          More tok1 p1 state1 L1 \<Rightarrow> lex_loop k tok_size tok1 p1 state1 L1
        | Done t tok1 L1 \<Rightarrow> Ret (t, tok1, L1)))
      else lex_end tok_size tok p state L)"

definition lexer_get_token :: "string \<Rightarrow> nat \<Rightarrow> lexer \<Rightarrow> (token \<times> string \<times> lexer) outcome" where
  "lexer_get_token tok tok_size L = lex_loop (Suc (lexbuf_size L - lexbuf_pos L)) tok_size tok 0 0 L"

end
