(* ===== verification/Xml_Parser.thy ===== *)
theory Xml_Parser
  imports Xml_Lexer
begin

text \<open>
  The XML parser, src/src/xine-utils/xmlparser.c. A node is a value: the parser builds each node once
  and nothing points into it, so the list of its properties and the list of its children
  (linked by \<open>next\<close> in the code) are lists. Freeing a tree is not modelled. Error
  messages are left out.
\<close>

section \<open>Data\<close>

datatype xml_node = Xml_node (xn_name: "string option") (xn_data: "string option")
  (xn_props: "(string \<times> string option) list") (xn_child: "xml_node list")

datatype parser_mode = XML_PARSER_CASE_INSENSITIVE | XML_PARSER_CASE_SENSITIVE

definition TOKEN_SIZE :: nat where
  "TOKEN_SIZE = 4 * 1024"

definition MAX_RECURSION :: nat where
  "MAX_RECURSION = 10"

definition STATE_IDLE :: nat where
  "STATE_IDLE = 0"

definition STATE_NODE :: nat where
  "STATE_NODE = 1"

definition STATE_COMMENT :: nat where
  "STATE_COMMENT = 7"

text \<open>The string in an array: without a NUL the C functions read over its end.\<close>

definition string_in :: "string \<Rightarrow> string outcome" where
  "string_in a = (if NUL \<in> set a then Ret (cstr a) else Fault)"

definition toupper :: "char \<Rightarrow> char" where
  "toupper c = (let n = of_char c :: nat in if 97 \<le> n \<and> n \<le> 122 then char_of (n - 32) else c)"

definition tolower :: "char \<Rightarrow> char" where
  "tolower c = (let n = of_char c :: nat in if 65 \<le> n \<and> n \<le> 90 then char_of (n + 32) else c)"

definition strtoupper :: "string \<Rightarrow> string" where
  "strtoupper s = map toupper s"

definition strcasecmp :: "string \<Rightarrow> string \<Rightarrow> bool" where
  "strcasecmp a b \<longleftrightarrow> map tolower a \<noteq> map tolower b"

text \<open>An identifier as the parser keeps it.\<close>

definition ident_in :: "parser_mode \<Rightarrow> string \<Rightarrow> string outcome" where
  "ident_in mode tok =
     obind (string_in tok) (\<lambda>s. Ret (if mode = XML_PARSER_CASE_INSENSITIVE then strtoupper s else s))"

section \<open>A node\<close>

text \<open>The local variables of \<open>xml_parser_get_node\<close>, and the data and the children of its node.\<close>

record parse_state =
  ps_state :: nat
  ps_res :: token
  ps_tok :: string
  ps_bypass :: bool
  ps_node_name :: string
  ps_property_name :: string
  ps_properties :: "(string \<times> string option) list"
  ps_data :: "string option"
  ps_child :: "xml_node list"

definition parse_start :: parse_state where
  "parse_start = \<lparr>ps_state = STATE_IDLE, ps_res = T_EOF, ps_tok = replicate TOKEN_SIZE NUL, ps_bypass = False, ps_node_name = [],
     ps_property_name = [], ps_properties = [], ps_data = None, ps_child = []\<rparr>"

text \<open>Go on, return, or parse a subtree first.\<close>

datatype parse_result = P_go parse_state | P_return int parse_state | P_subtree parse_state

definition step_idle :: "parse_state \<Rightarrow> parse_result outcome" where
  "step_idle ps =
     (case ps_res ps of
        T_EOL \<Rightarrow> Ret (P_go ps)
      | T_SEPAR \<Rightarrow> Ret (P_go ps)
      | T_EOF \<Rightarrow> Ret (P_return 0 ps)
      | T_M_START_1 \<Rightarrow> Ret (P_go (ps\<lparr>ps_state := STATE_NODE\<rparr>))
      | T_M_START_2 \<Rightarrow> Ret (P_go (ps\<lparr>ps_state := 3\<rparr>))
      | T_C_START \<Rightarrow> Ret (P_go (ps\<lparr>ps_state := STATE_COMMENT\<rparr>))
      | T_TI_START \<Rightarrow> Ret (P_go (ps\<lparr>ps_state := 8\<rparr>))
      | T_DOCTYPE_START \<Rightarrow> Ret (P_go (ps\<lparr>ps_state := 9\<rparr>))
      | T_DATA \<Rightarrow> obind (string_in (ps_tok ps)) (\<lambda>s. Ret (P_go (ps\<lparr>ps_data := Some s\<rparr>)))
      | _ \<Rightarrow> Ret (P_return (- 1) ps))"

definition step_node :: "parser_mode \<Rightarrow> parse_state \<Rightarrow> parse_result outcome" where
  "step_node mode ps =
     (case ps_res ps of
        T_IDENT \<Rightarrow> obind (ident_in mode (ps_tok ps)) (\<lambda>s.
          Ret (P_go (ps\<lparr>ps_properties := [], ps_node_name := s, ps_state := 2\<rparr>)))
      | _ \<Rightarrow> Ret (P_return (- 1) ps))"

definition leaf :: "parse_state \<Rightarrow> xml_node" where
  "leaf ps = Xml_node (Some (ps_node_name ps)) None (ps_properties ps) []"

definition step_props :: "parser_mode \<Rightarrow> parse_state \<Rightarrow> parse_result outcome" where
  "step_props mode ps =
     (case ps_res ps of
        T_EOL \<Rightarrow> Ret (P_go ps)
      | T_SEPAR \<Rightarrow> Ret (P_go ps)
      | T_M_STOP_1 \<Rightarrow> Ret (P_subtree ps)
      | T_M_STOP_2 \<Rightarrow> Ret (P_go (ps\<lparr>ps_child := ps_child ps @ [leaf ps], ps_state := STATE_IDLE\<rparr>))
      | T_IDENT \<Rightarrow> obind (ident_in mode (ps_tok ps)) (\<lambda>s. Ret (P_go (ps\<lparr>ps_property_name := s, ps_state := 5\<rparr>)))
      | _ \<Rightarrow> Ret (P_return (- 1) ps))"

definition step_end_name :: "parser_mode \<Rightarrow> string \<Rightarrow> parse_state \<Rightarrow> parse_result outcome" where
  "step_end_name mode root_name ps =
     (case ps_res ps of
        T_IDENT \<Rightarrow> obind (ident_in mode (ps_tok ps)) (\<lambda>s.
          Ret (if s = root_name then P_go (ps\<lparr>ps_state := 4\<rparr>) else P_return (- 1) ps))
      | _ \<Rightarrow> Ret (P_return (- 1) ps))"

definition step_end :: "parse_state \<Rightarrow> parse_result outcome" where
  "step_end ps = (case ps_res ps of T_M_STOP_1 \<Rightarrow> Ret (P_return 0 ps) | _ \<Rightarrow> Ret (P_return (- 1) ps))"

text \<open>A name without a value is kept only before the end of the tag.\<close>

definition step_prop_name :: "parse_state \<Rightarrow> parse_result outcome" where
  "step_prop_name ps =
     (case ps_res ps of
        T_EOL \<Rightarrow> Ret (P_go ps)
      | T_SEPAR \<Rightarrow> Ret (P_go ps)
      | T_EQUAL \<Rightarrow> Ret (P_go (ps\<lparr>ps_state := 6\<rparr>))
      | T_IDENT \<Rightarrow> Ret (P_go (ps\<lparr>ps_bypass := True, ps_state := 2\<rparr>))
      | T_M_STOP_1 \<Rightarrow> Ret (P_go (ps\<lparr>ps_properties := ps_properties ps @ [(ps_property_name ps, None)], ps_bypass := True, ps_state := 2\<rparr>))
      | _ \<Rightarrow> Ret (P_return (- 1) ps))"

definition step_prop_value :: "parse_state \<Rightarrow> parse_result outcome" where
  "step_prop_value ps =
     (case ps_res ps of
        T_EOL \<Rightarrow> Ret (P_go ps)
      | T_SEPAR \<Rightarrow> Ret (P_go ps)
      | _ \<Rightarrow>
          if ps_res ps \<in> {T_STRING, T_IDENT} then
            obind (string_in (ps_tok ps)) (\<lambda>v.
            Ret (P_go (ps\<lparr>ps_properties := ps_properties ps @ [(ps_property_name ps, Some v)], ps_state := 2\<rparr>)))
          else Ret (P_return (- 1) ps))"

definition node_step :: "parser_mode \<Rightarrow> string \<Rightarrow> parse_state \<Rightarrow> parse_result outcome" where
  "node_step mode root_name ps =
     (if ps_state ps = STATE_IDLE then step_idle ps
      else if ps_state ps = STATE_NODE then step_node mode ps
      else if ps_state ps = 2 then step_props mode ps
      else if ps_state ps = 3 then step_end_name mode root_name ps
      else if ps_state ps = 4 then step_end ps
      else if ps_state ps = 5 then step_prop_name ps
      else if ps_state ps = 6 then step_prop_value ps
      else if ps_state ps = STATE_COMMENT then
        Ret (P_go (ps\<lparr>ps_state := (if ps_res ps = T_C_STOP then STATE_IDLE else STATE_COMMENT)\<rparr>))
      else if ps_state ps = 8 then Ret (P_go (ps\<lparr>ps_state := (if ps_res ps = T_TI_STOP then 0 else 8)\<rparr>))
      else if ps_state ps = 9 then Ret (P_go (ps\<lparr>ps_state := (if ps_res ps = T_M_STOP_1 then 0 else 9)\<rparr>))
      else Ret (P_return (- 1) ps))"

definition next_token :: "parse_state \<Rightarrow> lexer \<Rightarrow> (token \<times> string \<times> lexer) outcome" where
  "next_token ps L = (if ps_bypass ps then Ret (ps_res ps, ps_tok ps, L) else lexer_get_token (ps_tok ps) TOKEN_SIZE L)"

text \<open>
  The loop, with the call for a subtree in it. What comes back is the result, the local variables
  with the node's data and children, and the lexer.
\<close>

fun node_loop :: "nat \<Rightarrow> parser_mode \<Rightarrow> string \<Rightarrow> nat \<Rightarrow> parse_state \<Rightarrow> lexer \<Rightarrow> (int \<times> parse_state \<times> lexer) outcome" where
  "node_loop 0 mode root_name depth ps L = Spin"
| "node_loop (Suc k) mode root_name depth ps L =
     obind (next_token ps L) (\<lambda>(res, tok, L1).
     if \<not> ps_bypass ps \<and> res = T_ERROR then Ret (- 1, ps\<lparr>ps_res := res, ps_tok := tok\<rparr>, L1)
     else
       obind (node_step mode root_name (ps\<lparr>ps_res := res, ps_tok := tok, ps_bypass := False\<rparr>)) (\<lambda>r.
       case r of
         P_go ps1 \<Rightarrow> node_loop k mode root_name depth ps1 L1
       | P_return n ps1 \<Rightarrow> Ret (n, ps1, L1)
       | P_subtree ps1 \<Rightarrow>
           obind (if depth + 1 < MAX_RECURSION then node_loop k mode (ps_node_name ps1) (depth + 1) parse_start L1
                  else Ret (- 1, parse_start, L1)) (\<lambda>(n, sub, L2).
           if n \<noteq> 0 then Ret (n, ps1, L2)
           else node_loop k mode root_name depth
                  (ps1\<lparr>ps_child := ps_child ps1 @ [Xml_node (Some (ps_node_name ps1)) (ps_data sub) (ps_properties ps1) (ps_child sub)],
                       ps_state := STATE_IDLE\<rparr>) L2)))"

definition xml_parser_get_node :: "nat \<Rightarrow> parser_mode \<Rightarrow> string \<Rightarrow> nat \<Rightarrow> lexer \<Rightarrow> (int \<times> parse_state \<times> lexer) outcome" where
  "xml_parser_get_node k mode root_name depth L =
     (if depth < MAX_RECURSION then node_loop k mode root_name depth parse_start L else Ret (- 1, parse_start, L))"

text \<open>The result of the node is overwritten.\<close>

definition xml_parser_build_tree :: "nat \<Rightarrow> parser_mode \<Rightarrow> lexer \<Rightarrow> (int \<times> xml_node option) outcome" where
  "xml_parser_build_tree k mode L =
     obind (xml_parser_get_node k mode [] 0 L) (\<lambda>(res, tmp_node, L1).
     case ps_child tmp_node of [t] \<Rightarrow> Ret (0, Some t) | _ \<Rightarrow> Ret (- 1, None))"

definition xml_parser_init :: "string \<Rightarrow> nat \<Rightarrow> parser_mode \<Rightarrow> lexer \<times> parser_mode" where
  "xml_parser_init buf n mode = (lexer_init buf n, mode)"

section \<open>Properties of a node\<close>

fun find_property :: "(string \<times> string option) list \<Rightarrow> string \<Rightarrow> string option" where
  "find_property [] name = None"
| "find_property ((n, v) # ps) name = (if \<not> strcasecmp n name then v else find_property ps name)"

definition xml_parser_get_property :: "xml_node \<Rightarrow> string \<Rightarrow> string option" where
  "xml_parser_get_property node name = find_property (xn_props node) name"

definition xml_parser_get_property_bool :: "xml_node \<Rightarrow> string \<Rightarrow> int \<Rightarrow> int" where
  "xml_parser_get_property_bool node name def_value =
     (case xml_parser_get_property node name of None \<Rightarrow> def_value
      | Some v \<Rightarrow> if \<not> strcasecmp v ''true'' then 1 else 0)"

definition xml_parser_get_property_int :: "xml_node \<Rightarrow> string \<Rightarrow> int \<Rightarrow> int" where
  "xml_parser_get_property_int node name def_value =
     (case xml_parser_get_property node name of None \<Rightarrow> def_value
      | Some v \<Rightarrow> (case scan_int v of None \<Rightarrow> def_value | Some n \<Rightarrow> n))"

section \<open>Printing a tree\<close>

text \<open>What is printed, as a string; a NULL string prints as \<open>(null)\<close>.\<close>

definition shown :: "string option \<Rightarrow> string" where
  "shown s = (case s of None \<Rightarrow> ''(null)'' | Some a \<Rightarrow> a)"

definition printf_indent :: "nat \<Rightarrow> string \<Rightarrow> string" where
  "printf_indent n s = replicate n (CHR '' '') @ s"

fun dump_props :: "nat \<Rightarrow> (string \<times> string option) list \<Rightarrow> string" where
  "dump_props n [] = []"
| "dump_props n ((a, v) # ps) =
     a @ [CHR ''='', CHR 0x27] @ shown v @ [CHR 0x27] @ (if ps = [] then [] else [LF] @ printf_indent n []) @ dump_props n ps"

fun xml_parser_dump_node :: "xml_node \<Rightarrow> nat \<Rightarrow> string" where
  "xml_parser_dump_node (Xml_node name data props child) indent =
     printf_indent indent (''<'' @ shown name @ '' '') @
     dump_props (indent + 2 + length (shown name)) props @ ''>'' @ [LF] @
     concat (map (\<lambda>n. xml_parser_dump_node n (indent + 2)) child) @
     printf_indent indent (''</'' @ shown name @ ''>'' @ [LF])"

definition xml_parser_dump_tree :: "xml_node \<Rightarrow> string" where
  "xml_parser_dump_tree node = xml_parser_dump_node node 0"

end
