(* ===== verification/Xml_Tokens.thy ===== *)
theory Xml_Tokens
  imports Xml_Parser
begin

text \<open>
  What the lexer makes of each kind of token: the text that is left before and behind it, the
  characters it writes, and its mode.
\<close>

section \<open>The text that is left\<close>

definition lex_wf :: "lexer \<Rightarrow> bool" where
  "lex_wf L \<longleftrightarrow> lexbuf_size L \<le> length (lexbuf L) \<and> lexbuf_pos L \<le> lexbuf_size L"

definition rest :: "lexer \<Rightarrow> string" where
  "rest L = take (lexbuf_size L - lexbuf_pos L) (drop (lexbuf_pos L) (lexbuf L))"

lemma rest_length: "lex_wf L \<Longrightarrow> length (rest L) = lexbuf_size L - lexbuf_pos L"
  by (auto simp: rest_def lex_wf_def min_def)

lemma rest_Cons:
  assumes "lex_wf L" and "rest L = c # cs"
  shows "lexbuf_pos L < lexbuf_size L" and "aget (lexbuf L) (lexbuf_pos L) = Ret c" and "rest (advance 1 L) = cs" and "lex_wf (advance 1 L)"
proof -
  have l: "lexbuf_size L - lexbuf_pos L = Suc (length cs)" using rest_length [OF assms(1)] assms(2) by simp
  then show s: "lexbuf_pos L < lexbuf_size L" by simp
  then have "lexbuf_pos L < length (lexbuf L)" using assms(1) by (simp add: lex_wf_def)
  then have d: "drop (lexbuf_pos L) (lexbuf L) = lexbuf L ! lexbuf_pos L # drop (Suc (lexbuf_pos L)) (lexbuf L)" by (rule Cons_nth_drop_Suc [symmetric])
  then have c: "c = lexbuf L ! lexbuf_pos L" and cs: "take (length cs) (drop (Suc (lexbuf_pos L)) (lexbuf L)) = cs"
    using assms(2) l by (simp_all add: rest_def)
  show "aget (lexbuf L) (lexbuf_pos L) = Ret c" using \<open>lexbuf_pos L < length (lexbuf L)\<close> c by simp
  have "lexbuf_size L - Suc (lexbuf_pos L) = length cs" using l by simp
  then show "rest (advance 1 L) = cs" using cs by (simp add: rest_def advance_def)
  show "lex_wf (advance 1 L)" using assms(1) s by (simp add: lex_wf_def advance_def)
qed

lemma rest_Nil: "lex_wf L \<Longrightarrow> rest L = [] \<Longrightarrow> \<not> lexbuf_pos L < lexbuf_size L"
  using rest_length [of L] by simp

lemma advance_advance [simp]: "advance m (advance n L) = advance (n + m) L"
  by (simp add: advance_def ac_simps)

lemma advance_0 [simp]: "advance 0 L = L"
  by (simp add: advance_def)

lemma advance_fields [simp]:
  "lexbuf (advance n L) = lexbuf L" "lexbuf_size (advance n L) = lexbuf_size L" "lex_mode (advance n L) = lex_mode L"
  "in_comment (advance n L) = in_comment L" "lexbuf_pos (advance n L) = lexbuf_pos L + n"
  by (simp_all add: advance_def)

lemma rest_same: "lexbuf L1 = lexbuf L \<Longrightarrow> lexbuf_size L1 = lexbuf_size L \<Longrightarrow> lexbuf_pos L1 = lexbuf_pos L \<Longrightarrow> rest L1 = rest L \<and> lex_wf L1 = lex_wf L"
  by (simp add: rest_def lex_wf_def)

lemma rest_append:
  "lex_wf L \<Longrightarrow> rest L = s @ r \<Longrightarrow> rest (advance (length s) L) = r \<and> lex_wf (advance (length s) L)"
proof (induction s arbitrary: L)
  case Nil
  then show ?case by simp
next
  case (Cons c s)
  then have "rest (advance 1 L) = s @ r" "lex_wf (advance 1 L)" using rest_Cons [of L c "s @ r"] by simp_all
  from Cons.IH [OF this(2,1)] show ?case by simp
qed

section \<open>Writing a token\<close>

definition put :: "string \<Rightarrow> nat \<Rightarrow> string \<Rightarrow> string" where
  "put tok p s = take p tok @ s @ drop (p + length s) tok"

lemma put_length [simp]: "p + length s \<le> length tok \<Longrightarrow> length (put tok p s) = length tok"
  by (simp add: put_def)

lemma put_Nil [simp]: "put tok p [] = tok"
  by (simp add: put_def)

lemma put_one: "p < length tok \<Longrightarrow> tok[p := c] = put tok p [c]"
  by (simp add: put_def upd_conv_take_nth_drop)

lemma put_put: "p + length s + length t \<le> length tok \<Longrightarrow> put (put tok p s) (p + length s) t = put tok p (s @ t)"
  by (simp add: put_def ac_simps)

lemma cstr_put: "length s < length tok \<Longrightarrow> NUL \<notin> set s \<Longrightarrow> cstr (put tok 0 (s @ [NUL])) = s"
proof -
  assume "length s < length tok" "NUL \<notin> set s"
  then have "takeWhile (\<lambda>c. c \<noteq> NUL) (s @ NUL # drop (Suc (length s)) tok) = s"
    by (subst takeWhile_append2) auto
  then show ?thesis by (simp add: cstr_def put_def)
qed

lemma string_in_put: "length s < length tok \<Longrightarrow> NUL \<notin> set s \<Longrightarrow> string_in (put tok 0 (s @ [NUL])) = Ret s"
  using cstr_put [of s tok] by (simp add: string_in_def) (simp add: put_def)

section \<open>Runs of characters\<close>

lemma lex_more:
  assumes "lex_wf L" and "rest L = c # cs" and "p < n" and "n \<le> length tok" and "lex_step c tok p state L = keep c state1 tok p L"
  shows "lex_loop (Suc k) n tok p state L = lex_loop k n (put tok p [c]) (p + 1) state1 (advance 1 L)"
  using assms rest_Cons [OF assms(1,2)] by (simp add: keep_def put_one)

lemma lex_done:
  assumes "lex_wf L" and "rest L = c # cs" and "p < n" and "n \<le> length tok" and "lex_step c tok p state L = finish t tok p L1"
  shows "lex_loop (Suc k) n tok p state L = Ret (t, put tok p [NUL], L1)"
  using assms rest_Cons [OF assms(1,2)] by (simp add: finish_def put_one)

lemma lex_run:
  assumes "lex_wf L" and "rest L = s @ r" and "p + length s \<le> n" and "n \<le> length tok" and "lex_mode L = m"
    and "\<And>c tok p L. c \<in> set s \<Longrightarrow> lex_mode L = m \<Longrightarrow> lex_step c tok p state L = keep c state tok p L"
  shows "lex_loop (length s + k) n tok p state L = lex_loop k n (put tok p s) (p + length s) state (advance (length s) L)"
  using assms
proof (induction s arbitrary: L tok p)
  case Nil
  then show ?case by simp
next
  case (Cons c s)
  have r: "rest L = c # s @ r" using Cons.prems(2) by simp
  note a = rest_Cons [OF Cons.prems(1) r]
  have "lex_loop (Suc (length s + k)) n tok p state L = lex_loop (length s + k) n (put tok p [c]) (p + 1) state (advance 1 L)"
    using Cons.prems by (intro lex_more [OF Cons.prems(1) r]) simp_all
  also have "\<dots> = lex_loop k n (put (put tok p [c]) (p + 1) s) (p + 1 + length s) state (advance (length s) (advance 1 L))"
    using Cons.prems a by (intro Cons.IH) simp_all
  also have "put (put tok p [c]) (p + 1) s = put tok p (c # s)" using put_put [of p "[c]" s tok] Cons.prems(3,4) by simp
  finally show ?case by simp
qed

text \<open>A token of one character and others of its kind, ended by the next character.\<close>

lemma token_run:
  assumes "lex_wf L" and "rest L = c # s @ d # r" and "lex_mode L = NORMAL" and "length s + 1 < n" and "n \<le> length tok"
    and "\<And>tok. lex_start c tok 0 L = keep c state tok 0 L"
    and "\<And>x tok p L. x \<in> set s \<Longrightarrow> lex_normal x tok p state L = keep x state tok p L"
    and "\<And>tok p L. lex_normal d tok p state L = finish t tok p (g L)"
  shows "lexer_get_token tok n L = Ret (t, put tok 0 (c # s @ [NUL]), g (advance (length s + 1) L))"
proof -
  note a = rest_Cons [OF assms(1,2)]
  have b: "rest (advance (length s) (advance 1 L)) = d # r" "lex_wf (advance (length s) (advance 1 L))"
    using rest_append [OF a(4,3)] by simp_all
  have len: "lexbuf_size L - lexbuf_pos L = Suc (length s + Suc (length r))" using rest_length [OF assms(1)] assms(2) by simp
  have "lexer_get_token tok n L = lex_loop (Suc (length s + Suc (Suc (length r)))) n tok 0 0 L"
    unfolding lexer_get_token_def len by simp
  also have "\<dots> = lex_loop (length s + Suc (Suc (length r))) n (put tok 0 [c]) 1 state (advance 1 L)"
    using assms by (subst lex_more [OF assms(1,2)]) (simp_all add: lex_step_def lex_normal_def)
  also have "\<dots> = lex_loop (Suc (Suc (length r))) n (put (put tok 0 [c]) 1 s) (1 + length s) state (advance (length s) (advance 1 L))"
    using assms by (intro lex_run [OF a(4,3), where m = NORMAL]) (simp_all add: lex_step_def)
  also have "put (put tok 0 [c]) 1 s = put tok 0 (c # s)" using put_put [of 0 "[c]" s tok] assms(4,5) by simp
  also have "lex_loop (Suc (Suc (length r))) n (put tok 0 (c # s)) (1 + length s) state (advance (length s) (advance 1 L)) =
      Ret (t, put (put tok 0 (c # s)) (1 + length s) [NUL], g (advance (length s) (advance 1 L)))"
    using assms by (intro lex_done [OF b(2,1)]) (simp_all add: lex_step_def)
  also have "put (put tok 0 (c # s)) (1 + length s) [NUL] = put tok 0 (c # s @ [NUL])"
    using put_put [of 0 "c # s" "[NUL]" tok] assms(4,5) by simp
  finally show ?thesis by simp
qed

section \<open>The tokens of a document\<close>

lemmas chars = LF_def CR_def TAB_def DQ_def BSL_def NUL_def

text \<open>Characters a name may have; the first one begins no other token.\<close>

definition ident_char :: "char \<Rightarrow> bool" where
  "ident_char c \<longleftrightarrow> \<not> ident_stop c \<and> c \<noteq> CHR ''?'' \<and> c \<noteq> CHR ''-'' \<and> c \<noteq> NUL"

definition good_ident :: "string \<Rightarrow> bool" where
  "good_ident s \<longleftrightarrow> s \<noteq> [] \<and> list_all ident_char s \<and> hd s \<notin> {LF, CR, CHR ''/'', CHR ''!''} \<and> length s < TOKEN_SIZE"

lemma token_m_start_1:
  assumes "lex_wf L" and "rest L = CHR ''<'' # d # r" and "lex_mode L = NORMAL" and "2 \<le> n" and "n \<le> length tok"
    and "d \<notin> {CHR ''/'', CHR ''!'', CHR ''?''}"
  shows "lexer_get_token tok n L = Ret (T_M_START_1, put tok 0 (''<'' @ [NUL]), advance 1 L)"
  using token_run [of L "CHR ''<''" "[]" d r n tok 3 T_M_START_1 "\<lambda>L. L"] assms
  by (simp add: lex_start_def lex_normal_def lex_m_start_def chars)

lemma token_separ:
  assumes "lex_wf L" and "rest L = CHR '' '' # d # r" and "lex_mode L = NORMAL" and "2 \<le> n" and "n \<le> length tok"
    and "d \<noteq> CHR '' ''" and "d \<noteq> TAB"
  shows "lexer_get_token tok n L = Ret (T_SEPAR, put tok 0 ('' '' @ [NUL]), advance 1 L)"
  using token_run [of L "CHR '' ''" "[]" d r n tok 2 T_SEPAR "\<lambda>L. L"] assms
  by (simp add: lex_start_def lex_normal_def chars)

lemma token_equal:
  assumes "lex_wf L" and "rest L = CHR ''='' # d # r" and "lex_mode L = NORMAL" and "2 \<le> n" and "n \<le> length tok"
  shows "lexer_get_token tok n L = Ret (T_EQUAL, put tok 0 (''='' @ [NUL]), advance 1 L)"
  using token_run [of L "CHR ''=''" "[]" d r n tok 6 T_EQUAL "\<lambda>L. L"] assms
  by (simp add: lex_start_def lex_normal_def chars)

lemma token_m_stop_1:
  assumes "lex_wf L" and "rest L = CHR ''>'' # d # r" and "lex_mode L = NORMAL" and "2 \<le> n" and "n \<le> length tok"
  shows "lexer_get_token tok n L = Ret (T_M_STOP_1, put tok 0 (''>'' @ [NUL]), to_data (advance 1 L))"
  using token_run [of L "CHR ''>''" "[]" d r n tok 4 T_M_STOP_1 to_data] assms
  by (simp add: lex_start_def lex_normal_def chars)

lemma token_ident:
  assumes "lex_wf L" and "rest L = s @ d # r" and "lex_mode L = NORMAL" and "n \<le> length tok" and "length s < n"
    and "good_ident s" and "ident_stop d"
  shows "lexer_get_token tok n L = Ret (T_IDENT, put tok 0 (s @ [NUL]), advance (length s) L)"
proof -
  obtain c cs where s: "s = c # cs" using assms(6) by (cases s) (auto simp: good_ident_def)
  have run: "lex_normal x tok p 100 L = keep x 100 tok p L" if "x \<in> set cs" for x tok p L
    using assms(6) that s by (auto simp: good_ident_def list_all_iff ident_char_def lex_normal_def lex_ident_def)
  have start: "lex_start c tok 0 L = keep c 100 tok 0 L" for tok
    using assms(6) s by (auto simp: good_ident_def ident_char_def ident_stop_def lex_start_def)
  show ?thesis using token_run [of L c cs d r n tok 100 T_IDENT "\<lambda>L. L", OF assms(1) _ assms(3) _ assms(4) start run] assms s
    by (simp add: lex_normal_def lex_ident_def)
qed

text \<open>End of the buffer.\<close>

lemma token_eof:
  assumes "lex_wf L" and "rest L = []" and "0 < n" and "n \<le> length tok"
  shows "lexer_get_token tok n L = Ret (T_EOF, put tok 0 [NUL], L)"
proof -
  have "aset tok 0 NUL = Ret (put tok 0 [NUL])" using put_one [of 0 tok NUL] assms(3,4) unfolding aset_def by (metis le_trans less_le_trans)
  then show ?thesis using rest_Nil [OF assms(1,2)] assms by (simp add: lexer_get_token_def lex_end_def end_token_def)
qed

lemma token_last_stop:
  assumes "lex_wf L" and "rest L = ''>''" and "lex_mode L = NORMAL" and "2 \<le> n" and "n \<le> length tok"
  shows "lexer_get_token tok n L = Ret (T_M_STOP_1, put tok 0 (''>'' @ [NUL]), advance 1 L)"
proof -
  note a = rest_Cons [OF assms(1,2)]
  have len: "lexbuf_size L - lexbuf_pos L = 1" using rest_length [OF assms(1)] assms(2) by simp
  have "lexer_get_token tok n L = lex_loop (Suc (Suc 0)) n tok 0 0 L" unfolding lexer_get_token_def len by simp
  also have "\<dots> = lex_loop (Suc 0) n (put tok 0 ''>'') 1 4 (advance 1 L)"
    using assms by (subst lex_more [OF assms(1,2)]) (simp_all add: lex_step_def lex_normal_def lex_start_def chars)
  also have "\<dots> = Ret (T_M_STOP_1, put (put tok 0 ''>'') 1 [NUL], advance 1 L)"
    using rest_Nil [OF a(4,3)] assms by (simp add: lex_end_def end_token_def put_one)
  also have "put (put tok 0 ''>'') 1 [NUL] = put tok 0 (''>'' @ [NUL])" using put_put [of 0 "''>''" "[NUL]" tok] assms(4,5) by simp
  finally show ?thesis .
qed

lemma token_m_start_2:
  assumes "lex_wf L" and "rest L = CHR ''<'' # CHR ''/'' # r" and "lex_mode L = NORMAL" and "3 \<le> n" and "n \<le> length tok"
  shows "\<exists>tok1. lexer_get_token tok n L = Ret (T_M_START_2, tok1, advance 2 L) \<and> length tok1 = length tok"
proof -
  note a = rest_Cons [OF assms(1,2)]
  note b = rest_Cons [OF a(4,3)]
  have len: "lexbuf_size L - lexbuf_pos L = Suc (Suc (length r))" using rest_length [OF assms(1)] assms(2) by simp
  have "lexer_get_token tok n L = lex_loop (Suc (Suc (Suc (length r)))) n tok 0 0 L" unfolding lexer_get_token_def len by simp
  also have "\<dots> = lex_loop (Suc (Suc (length r))) n (put tok 0 ''<'') 1 3 (advance 1 L)"
    using assms by (subst lex_more [OF assms(1,2)]) (simp_all add: lex_step_def lex_normal_def lex_start_def chars)
  also have "\<dots> = Ret (T_M_START_2, (put tok 0 ''<'')[1 := CHR ''/'', 2 := NUL], advance 2 L)"
    using b a assms by (simp add: lex_step_def lex_normal_def lex_m_start_def keep_finish_def finish_def eval_nat_numeral)
  finally show ?thesis using assms(4,5) by simp
qed

text \<open>A string in quotes, and the text between tags.\<close>

lemma token_string:
  assumes "lex_wf L" and "rest L = DQ # s @ DQ # r" and "lex_mode L = NORMAL" and "length s < n" and "n \<le> length tok" and "DQ \<notin> set s"
  shows "lexer_get_token tok n L = Ret (T_STRING, put tok 0 (s @ [NUL]), advance (length s + 2) L)"
proof -
  note a = rest_Cons [OF assms(1,2)]
  have b: "rest (advance (length s) (advance 1 L)) = DQ # r" "lex_wf (advance (length s) (advance 1 L))"
    using rest_append [OF a(4,3)] by simp_all
  note e = rest_Cons [OF b(2,1)]
  have len: "lexbuf_size L - lexbuf_pos L = Suc (length s + Suc (length r))" using rest_length [OF assms(1)] assms(2) by simp
  have "lexer_get_token tok n L = lex_loop (Suc (length s + Suc (Suc (length r)))) n tok 0 0 L"
    unfolding lexer_get_token_def len by simp
  also have "\<dots> = lex_loop (length s + Suc (Suc (length r))) n tok 0 7 (advance 1 L)"
    using a assms by (simp add: lex_step_def lex_normal_def lex_start_def chars)
  also have "\<dots> = lex_loop (Suc (Suc (length r))) n (put tok 0 s) (0 + length s) 7 (advance (length s) (advance 1 L))"
  proof (intro lex_run [OF a(4,3), where m = NORMAL])
    fix c tok1 p and L1 :: lexer
    assume "c \<in> set s" "lex_mode L1 = NORMAL"
    then show "lex_step c tok1 p 7 L1 = keep c 7 tok1 p L1"
      using assms(6) by (cases "c = DQ") (simp_all add: lex_step_def lex_normal_def lex_string_def keep_def)
  qed (use assms in simp_all)
  also have "\<dots> = Ret (T_STRING, (put tok 0 s)[length s := DQ, length s := NUL], advance 1 (advance (length s) (advance 1 L)))"
    using e assms by (simp add: lex_step_def lex_normal_def lex_string_def finish_def)
  also have "(put tok 0 s)[length s := DQ, length s := NUL] = put tok 0 (s @ [NUL])"
    using put_one [of "length s" "put tok 0 s" NUL] put_put [of 0 s "[NUL]" tok] assms(4,5) by simp
  finally show ?thesis by simp
qed

lemma token_data:
  assumes "lex_wf L" and "rest L = s @ CHR ''<'' # r" and "lex_mode L = DATA" and "length s < n" and "n \<le> length tok" and "CHR ''<'' \<notin> set s"
  shows "lexer_get_token tok n L = Ret (T_DATA, put tok 0 (s @ [NUL]), (advance (length s) L)\<lparr>lex_mode := NORMAL\<rparr>)"
proof -
  have b: "rest (advance (length s) L) = CHR ''<'' # r" "lex_wf (advance (length s) L)"
    using rest_append [OF assms(1,2)] by simp_all
  have len: "lexbuf_size L - lexbuf_pos L = length s + Suc (length r)" using rest_length [OF assms(1)] assms(2) by simp
  have "lexer_get_token tok n L = lex_loop (length s + Suc (Suc (length r))) n tok 0 0 L"
    unfolding lexer_get_token_def len by simp
  also have "\<dots> = lex_loop (Suc (Suc (length r))) n (put tok 0 s) (0 + length s) 0 (advance (length s) L)"
    using assms by (intro lex_run [OF assms(1,2), where m = DATA]) (auto simp: lex_step_def)
  also have "\<dots> = Ret (T_DATA, put (put tok 0 s) (length s) [NUL], (advance (length s) L)\<lparr>lex_mode := NORMAL\<rparr>)"
    using assms by (intro lex_done [OF b(2,1), THEN trans]) (simp_all add: lex_step_def)
  also have "put (put tok 0 s) (length s) [NUL] = put tok 0 (s @ [NUL])" using put_put [of 0 s "[NUL]" tok] assms(4,5) by simp
  finally show ?thesis .
qed

section \<open>Constants\<close>

lemma TOKEN_SIZE_gt: "8 < TOKEN_SIZE"
  by (simp add: TOKEN_SIZE_def)

lemmas node_steps = node_step_def STATE_IDLE_def STATE_NODE_def STATE_COMMENT_def

end
