(* ===== verification/Xml_Lexer_Safe.thy ===== *)
theory Xml_Lexer_Safe
  imports Xml_Tokens
begin

text \<open>
  The lexer on a text with a NUL behind it, with a token array longer than the text: it stays in
  its arrays, returns, and every token but the last moves on.
\<close>

section \<open>The lexer stays in its arrays and moves on\<close>

text \<open>A NUL stands behind the text.\<close>

definition lex_ok :: "lexer \<Rightarrow> bool" where
  "lex_ok L \<longleftrightarrow> lexbuf_size L < length (lexbuf L) \<and> lexbuf L ! lexbuf_size L = NUL \<and> lexbuf_pos L \<le> lexbuf_size L"

definition same_text :: "lexer \<Rightarrow> lexer \<Rightarrow> bool" where
  "same_text L0 L \<longleftrightarrow> lexbuf L = lexbuf L0 \<and> lexbuf_size L = lexbuf_size L0"

definition lex_left :: "lexer \<Rightarrow> nat" where
  "lex_left L = 2 * (lexbuf_size L - lexbuf_pos L) + (case lex_mode L of NORMAL \<Rightarrow> 0 | DATA \<Rightarrow> 1)"

definition occurs :: "char \<Rightarrow> lexer \<Rightarrow> bool" where
  "occurs c L \<longleftrightarrow> c \<in> set (take (lexbuf_size L) (lexbuf L))"

definition lex_inv :: "lexer \<Rightarrow> nat \<Rightarrow> string \<Rightarrow> nat \<Rightarrow> nat \<Rightarrow> lexer \<Rightarrow> bool" where
  "lex_inv L0 n tok p st L \<longleftrightarrow>
     same_text L0 L \<and> lex_ok L \<and> lex_mode L = lex_mode L0 \<and> lexbuf_size L0 < n \<and> length tok = n \<and>
     lexbuf_pos L0 + p \<le> lexbuf_pos L \<and>
     (st \<noteq> 0 \<longrightarrow> lexbuf_pos L0 < lexbuf_pos L \<and> lex_mode L0 = NORMAL) \<and> (st = 8 \<longrightarrow> occurs (CHR ''!'') L0) \<and>
     (st = 10 \<longrightarrow> 1 \<le> p \<and> (p = 1 \<longrightarrow> tok ! 0 = CHR ''-'')) \<and>
     (st = 11 \<longrightarrow> 2 \<le> p \<and> (p = 2 \<longrightarrow> tok ! 0 = CHR ''-'' \<and> tok ! 1 = CHR ''-''))"

definition lex_post :: "lexer \<Rightarrow> nat \<Rightarrow> token \<Rightarrow> string \<Rightarrow> lexer \<Rightarrow> bool" where
  "lex_post L0 n t tok L \<longleftrightarrow>
     same_text L0 L \<and> lex_ok L \<and> length tok = n \<and> (t \<notin> {T_EOF, T_ERROR} \<longrightarrow> lex_left L < lex_left L0) \<and> (t = T_EOF \<longrightarrow> lex_left L \<le> lex_left L0) \<and>
     (t \<in> {T_IDENT, T_STRING, T_DATA} \<longrightarrow> NUL \<in> set tok) \<and>
     (t \<in> {T_C_START, T_DOCTYPE_START} \<longrightarrow> occurs (CHR ''!'') L0) \<and> (t = T_TI_START \<longrightarrow> occurs (CHR ''?'') L0)"

definition step_ok :: "lexer \<Rightarrow> nat \<Rightarrow> nat \<Rightarrow> lex_result outcome \<Rightarrow> bool" where
  "step_ok L0 n q r \<longleftrightarrow>
     (case r of
        Ret (More tok p st L) \<Rightarrow> lex_inv L0 n tok p st L \<and> lexbuf_pos L = Suc q
      | Ret (Done t tok L) \<Rightarrow> lex_post L0 n t tok L
      | _ \<Rightarrow> False)"

lemma keep_ok:
  assumes "lex_inv L0 n tok p st L" and "lexbuf_pos L < lexbuf_size L"
    and "st1 \<noteq> 0 \<Longrightarrow> lex_mode L0 = NORMAL" and "st1 = 8 \<Longrightarrow> occurs (CHR ''!'') L0"
    and "st1 = 10 \<Longrightarrow> p = 0 \<Longrightarrow> c = CHR ''-''" and "st1 = 11 \<Longrightarrow> st = 10 \<and> c = CHR ''-''"
  shows "step_ok L0 n (lexbuf_pos L) (keep c st1 tok p L)"
proof -
  have p: "p < length tok" using assms(1,2) by (simp add: lex_inv_def same_text_def)
  have "lex_inv L0 n (tok[p := c]) (Suc p) st1 (advance (Suc 0) L)"
    using assms p by (auto simp: lex_inv_def same_text_def lex_ok_def nth_list_update)
  then show ?thesis using p by (simp add: keep_def step_ok_def)
qed

lemma finish_ok:
  assumes "lex_inv L0 n tok p st L" and "p1 < n" and "length tok1 = n" and "same_text L0 L1" and "lex_ok L1"
    and "t \<noteq> T_ERROR \<Longrightarrow> lex_left L1 < lex_left L0"
    and "t \<in> {T_C_START, T_DOCTYPE_START} \<Longrightarrow> occurs (CHR ''!'') L0" and "t = T_TI_START \<Longrightarrow> occurs (CHR ''?'') L0"
  shows "step_ok L0 n q (finish t tok1 p1 L1)"
proof -
  have "NUL \<in> set (tok1[p1 := NUL])" using assms(2,3) by (simp add: set_update_memI)
  then show ?thesis using assms by (auto simp: finish_def step_ok_def lex_post_def)
qed

lemma inv_facts:
  assumes "lex_inv L0 n tok p st L" and "lexbuf_pos L < lexbuf_size L"
  shows "Suc p < n" and "length tok = n" and "same_text L0 L" and "lex_ok L" and "same_text L0 (to_data L)" and "lex_ok (to_data L)"
    and "lex_mode L = lex_mode L0"
    and "st \<noteq> 0 \<Longrightarrow> lex_left L < lex_left L0" and "st \<noteq> 0 \<Longrightarrow> lex_left (to_data L) < lex_left L0"
  using assms by (auto simp: lex_inv_def same_text_def lex_ok_def lex_left_def to_data_def)

lemma same_text_advance: "same_text L0 L \<Longrightarrow> same_text L0 (advance m L)"
  by (simp add: same_text_def)

lemma finish_here:
  assumes "lex_inv L0 n tok p st L" and "lexbuf_pos L < lexbuf_size L" and "st \<noteq> 0" and "L1 = L \<or> L1 = to_data L"
    and "t \<notin> {T_C_START, T_DOCTYPE_START, T_TI_START}"
  shows "step_ok L0 n q (finish t tok p L1)"
  using inv_facts [OF assms(1,2)] assms(3-5) by (intro finish_ok [OF assms(1)]) auto

lemma keep_finish_ok:
  assumes "lex_inv L0 n tok p st L" and "lexbuf_pos L < lexbuf_size L" and "st \<noteq> 0" and "L1 = L \<or> L1 = to_data L"
    and "t \<in> {T_C_START, T_DOCTYPE_START} \<Longrightarrow> occurs (CHR ''!'') L0" and "t = T_TI_START \<Longrightarrow> occurs (CHR ''?'') L0"
  shows "step_ok L0 n q (keep_finish c t tok p L1)"
proof -
  note f = inv_facts [OF assms(1,2)]
  have 1: "same_text L0 (advance 1 L1)" using f assms(4) by (auto simp: same_text_advance)
  have 2: "lex_ok (advance 1 L1)" using f assms(2,4) by (auto simp: lex_ok_def to_data_def)
  have 3: "lex_left (advance 1 L1) < lex_left L0"
    using f(8,9) [OF assms(3)] assms(4) by (auto simp: lex_left_def)
  have "step_ok L0 n q (finish t (tok[p := c]) (p + 1) (advance 1 L1))"
    using f 1 2 3 assms(5,6) by (intro finish_ok [OF assms(1)]) auto
  then show ?thesis using f(1,2) by (simp add: keep_finish_def)
qed

lemma lex_start_ok:
  assumes "lex_inv L0 n tok p 0 L" and "lexbuf_pos L < lexbuf_size L" and "lex_mode L0 = NORMAL"
  shows "step_ok L0 n (lexbuf_pos L) (lex_start c tok p L)"
proof -
  have k: "step_ok L0 n (lexbuf_pos L) (keep c1 st1 tok p L)" if "st1 \<notin> {8, 10, 11}" for c1 st1
    using that assms(3) by (intro keep_ok [OF assms(1,2)]) simp_all
  have d: "step_ok L0 n (lexbuf_pos L) (keep (CHR ''-'') 10 tok p L)"
    using assms(3) by (intro keep_ok [OF assms(1,2)]) simp_all
  have "lex_inv L0 n tok p 7 (advance 1 L)" using assms by (auto simp: lex_inv_def same_text_def lex_ok_def)
  then have "step_ok L0 n (lexbuf_pos L) (Ret (More tok p 7 (advance 1 L)))" by (simp add: step_ok_def)
  then show ?thesis unfolding lex_start_def by (simp add: k d)
qed

lemma m_start_ok:
  assumes "lex_inv L0 n tok p 3 L" and "lexbuf_pos L < lexbuf_size L" and "lex_mode L0 = NORMAL" and "occurs c L0"
  shows "step_ok L0 n (lexbuf_pos L) (lex_m_start c tok p L)"
proof -
  have "step_ok L0 n (lexbuf_pos L) (keep (CHR ''!'') 8 tok p L)" if "c = CHR ''!''"
    using assms(3,4) that by (intro keep_ok [OF assms(1,2)]) simp_all
  moreover have "step_ok L0 n (lexbuf_pos L) (keep_finish (CHR ''?'') T_TI_START tok p L)" if "c = CHR ''?''"
    using assms(4) that by (intro keep_finish_ok [OF assms(1,2)]) simp_all
  moreover have "step_ok L0 n (lexbuf_pos L) (keep_finish (CHR ''/'') T_M_START_2 tok p L)"
    by (intro keep_finish_ok [OF assms(1,2)]) simp_all
  moreover have "step_ok L0 n (lexbuf_pos L) (finish T_M_START_1 tok p L)" by (intro finish_here [OF assms(1,2)]) simp_all
  ultimately show ?thesis by (simp add: lex_m_start_def)
qed

lemma string_ok:
  assumes "lex_inv L0 n tok p 7 L" and "lexbuf_pos L < lexbuf_size L"
  shows "step_ok L0 n (lexbuf_pos L) (lex_string c tok p L)"
proof -
  note f = inv_facts [OF assms]
  have 1: "lex_inv L0 n (tok[p := c]) (Suc p) 7 (advance 1 L)" using assms by (auto simp: lex_inv_def same_text_def lex_ok_def)
  have 2: "same_text L0 (advance 1 L)" "lex_ok (advance 1 L)" "lex_left (advance 1 L) < lex_left L0"
    using f(3,4) f(8) assms(2) by (auto simp: same_text_def lex_ok_def lex_left_def)
  have 3: "step_ok L0 n (lexbuf_pos L) (finish T_STRING (tok[p := c]) p (advance 1 L))"
    using f 2 by (intro finish_ok [OF assms(1)]) simp_all
  have "step_ok L0 n (lexbuf_pos L) (Ret (More (tok[p := c]) (Suc p) 7 (advance 1 L)))" using 1 by (simp add: step_ok_def)
  then show ?thesis using f(1,2) 3 by (cases "c = DQ") (simp_all add: lex_string_def)
qed

text \<open>The comparison stops at the NUL behind the text.\<close>

lemma same_at_ok:
  assumes "size1 < length buf" and "buf ! size1 = NUL" and "i \<le> size1" and "NUL \<notin> set s"
  shows "\<exists>b. same_at buf i s = Ret b \<and> (b \<longrightarrow> i + length s \<le> size1)"
  using assms(3,4)
proof (induction s arbitrary: i)
  case Nil
  then show ?case by (intro exI [of _ True]) simp
next
  case (Cons c s)
  have i: "i < length buf" using Cons.prems(1) assms(1) by simp
  show ?case
  proof (cases "buf ! i = c")
    case True
    then have "i \<noteq> size1" using assms(2) Cons.prems(2) by auto
    then show ?thesis using Cons.IH [of "i + 1"] Cons.prems True i by auto
  next
    case False
    then show ?thesis using i by (intro exI [of _ False]) simp
  qed
qed

lemma copy_at_ok: "p + length s \<le> length tok \<Longrightarrow> \<exists>tok1. copy_at tok p s = Ret tok1 \<and> length tok1 = length tok"
proof (induction s arbitrary: p tok)
  case Nil
  then show ?case by simp
next
  case (Cons c s)
  then show ?case using Cons.IH [of "p + 1" "tok[p := c]"] by simp
qed

lemma post_error: "lex_inv L0 n tok p st L \<Longrightarrow> same_text L0 L1 \<Longrightarrow> lex_ok L1 \<Longrightarrow> step_ok L0 n q (Ret (Done T_ERROR tok L1))"
  by (simp add: step_ok_def lex_post_def lex_inv_def)

lemma bang_ok:
  assumes "lex_inv L0 n tok p 8 L" and "lexbuf_pos L < lexbuf_size L"
  shows "step_ok L0 n (lexbuf_pos L) (lex_bang c tok p L)"
proof -
  note f = inv_facts [OF assms]
  have b: "lexbuf_size L < length (lexbuf L)" "lexbuf L ! lexbuf_size L = NUL" using f(4) by (simp_all add: lex_ok_def)
  have o: "occurs (CHR ''!'') L0" "lex_mode L = NORMAL" and p: "p \<le> lexbuf_pos L" and n: "lexbuf_size L < n"
    using assms(1) by (auto simp: lex_inv_def same_text_def)
  have a: "same_text L0 (advance m L)" "m + lexbuf_pos L \<le> lexbuf_size L \<Longrightarrow> lex_ok (advance m L)"
    "m + lexbuf_pos L \<le> lexbuf_size L \<Longrightarrow> lex_left (advance m L) < lex_left L0" for m
    using f(3,4,8) by (auto simp: same_text_def lex_ok_def lex_left_def)
  have "lex_inv L0 n tok p 8 (advance 1 L)" using assms by (auto simp: lex_inv_def same_text_def lex_ok_def)
  then have more: "step_ok L0 n (lexbuf_pos L) (Ret (More tok p 8 (advance 1 L)))" by (simp add: step_ok_def)
  let ?C = "(advance 2 L)\<lparr>in_comment := True\<rparr>"
  have c: "step_ok L0 n (lexbuf_pos L) (finish T_C_START (tok[p := CHR ''-'', p + 1 := CHR ''-'']) (p + 2) ?C)"
    if "lexbuf L ! (lexbuf_pos L + 1) = CHR ''-''"
  proof -
    have "CHR ''-'' \<noteq> NUL" by (simp add: NUL_def)
    then have "lexbuf_pos L + 1 \<noteq> lexbuf_size L" using that b(2) by auto
    then have s: "2 + lexbuf_pos L \<le> lexbuf_size L" using assms(2) by simp
    have "same_text L0 ?C" "lex_ok ?C" "lex_left ?C < lex_left L0" using a [of 2] s by (auto simp: same_text_def lex_ok_def lex_left_def)
    then show ?thesis using f o p s n by (intro finish_ok [OF assms(1)]) simp_all
  qed
  obtain same where s: "same_at (lexbuf L) (lexbuf_pos L + 1) ''OCTYPE'' = Ret same"
    "same \<longrightarrow> lexbuf_pos L + 7 \<le> lexbuf_size L"
    using same_at_ok [OF b, of "lexbuf_pos L + 1" "''OCTYPE''"] assms(2) by (auto simp: NUL_def)
  have d: "\<exists>tok1. copy_at tok p ''DOCTYPE'' = Ret tok1 \<and> step_ok L0 n (lexbuf_pos L) (Ret (Done T_DOCTYPE_START tok1 (advance 7 L)))"
    if "same"
  proof -
    have 7: "7 + lexbuf_pos L \<le> lexbuf_size L" using s(2) that by simp
    then obtain tok1 where "copy_at tok p ''DOCTYPE'' = Ret tok1" "length tok1 = n"
      using copy_at_ok [of p "''DOCTYPE''" tok] f(2) p n by auto
    then show ?thesis using a [of 7] 7 o by (simp add: step_ok_def lex_post_def)
  qed
  have e: "step_ok L0 n (lexbuf_pos L) (Ret (Done T_ERROR tok (advance 1 L)))" "step_ok L0 n (lexbuf_pos L) (Ret (Done T_ERROR tok L))"
    using post_error [OF assms(1) a(1) a(2) [of 1]] post_error [OF assms(1) f(3,4)] assms(2) by simp_all
  have "lexbuf_pos L + 1 < length (lexbuf L)" using b(1) assms(2) by simp
  then show ?thesis
    using more c d e s(1) f(1,2) by (auto simp: lex_bang_def simp del: same_at.simps copy_at.simps)
qed

lemma comment_stop_ok:
  assumes "lex_inv L0 n tok p 11 L" and "lexbuf_pos L < lexbuf_size L" and "lex_mode L0 = NORMAL"
  shows "step_ok L0 n (lexbuf_pos L) (lex_comment_stop c tok p L)"
proof -
  note f = inv_facts [OF assms(1,2)]
  have k: "step_ok L0 n (lexbuf_pos L) (keep c 100 tok p L)" using assms(3) by (intro keep_ok [OF assms(1,2)]) simp_all
  have p: "2 \<le> p" "lexbuf_pos L0 + p \<le> lexbuf_pos L" "p = 2 \<Longrightarrow> tok ! 0 = CHR ''-'' \<and> tok ! 1 = CHR ''-''"
    using assms(1) by (simp_all add: lex_inv_def)
  let ?t = "tok[p := CHR ''>'', Suc p := NUL]"
  let ?I = "L\<lparr>lexbuf_pos := lexbuf_pos L + 1 - 3\<rparr>"
  let ?C = "(advance 1 L)\<lparr>in_comment := False\<rparr>"
  have i: "step_ok L0 n (lexbuf_pos L) (Ret (Done T_IDENT (?t[Suc p - 3 := NUL]) ?I))" if "length (cstr ?t) \<noteq> 3"
  proof -
    have "p \<noteq> 2"
    proof
      assume "p = 2"
      moreover obtain a b r where "tok = a # b # r" using f(1,2) p(1) by (cases tok; cases "tl tok") auto
      moreover obtain d e s where "r = d # e # s" using calculation f(1,2) by (cases r; cases "tl r") auto
      ultimately have "?t = ''-->'' @ NUL # s" using p(3) by (simp add: numeral_2_eq_2)
      then show False using that by (simp add: cstr_def NUL_def)
    qed
    then have "lexbuf_pos L0 < lexbuf_pos L + 1 - 3" using p(1,2) by simp
    then have "lex_left ?I < lex_left L0" "same_text L0 ?I" "lex_ok ?I"
      using f(3,4,7) assms(2) by (auto simp: lex_left_def same_text_def lex_ok_def)
    then show ?thesis using f(1,2) by (simp add: step_ok_def lex_post_def set_update_memI)
  qed
  have s: "step_ok L0 n (lexbuf_pos L) (Ret (Done T_C_STOP ?t ?C))"
    using f(2,3,4,7,8) assms(2) by (auto simp: step_ok_def lex_post_def same_text_def lex_ok_def lex_left_def)
  show ?thesis using i s k f(1,2) by (simp add: lex_comment_stop_def)
qed

lemma ident_ok:
  assumes "lex_inv L0 n tok p 100 L" and "lexbuf_pos L < lexbuf_size L" and "lex_mode L0 = NORMAL"
  shows "step_ok L0 n (lexbuf_pos L) (lex_ident c tok p L)"
proof -
  have k: "step_ok L0 n (lexbuf_pos L) (keep d st1 tok p L)" if "st1 = 9 \<or> st1 = 100 \<or> st1 = 10 \<and> d = CHR ''-''" for d st1
    using that assms(3) by (intro keep_ok [OF assms(1,2)]) auto
  have "step_ok L0 n (lexbuf_pos L) (finish T_IDENT tok p L)" by (intro finish_here [OF assms(1,2)]) simp_all
  then show ?thesis by (simp add: lex_ident_def k)
qed

lemma normal_ok:
  assumes "lex_inv L0 n tok p st L" and "lexbuf_pos L < lexbuf_size L" and "lex_mode L0 = NORMAL" and "occurs c L0"
  shows "step_ok L0 n (lexbuf_pos L) (lex_normal c tok p st L)"
proof -
  note f = inv_facts [OF assms(1,2)]
  have k: "step_ok L0 n (lexbuf_pos L) (keep c st1 tok p L)" if "st1 \<notin> {8, 10, 11}" for st1
    using that assms(3) by (intro keep_ok [OF assms(1,2)]) simp_all
  have h: "step_ok L0 n (lexbuf_pos L) (finish t tok p L1)" if "st \<noteq> 0" "L1 = L \<or> L1 = to_data L" "t \<notin> {T_C_START, T_DOCTYPE_START, T_TI_START}" for t L1
    using that by (intro finish_here [OF assms(1,2)])
  have kf: "step_ok L0 n (lexbuf_pos L) (keep_finish d t tok p L1)" if "st \<noteq> 0" "L1 = L \<or> L1 = to_data L" "t \<notin> {T_C_START, T_DOCTYPE_START, T_TI_START}" for d t L1
    using that by (intro keep_finish_ok [OF assms(1,2)]) auto
  have e: "step_ok L0 n (lexbuf_pos L) (Ret (Done T_ERROR tok L))" by (rule post_error [OF assms(1) f(3,4)])
  have c10: "step_ok L0 n (lexbuf_pos L) (keep c (if c = CHR ''-'' then 11 else 100) tok p L)" if "st = 10"
    using that assms(3) by (intro keep_ok [OF assms(1,2)]) (auto split: if_splits)
  consider "st = 0" | "st = 1" | "st = 2" | "st = 3" | "st = 4" | "st = 5" | "st = 6" | "st = 7" | "st = 8" | "st = 9" | "st = 10" | "st = 11" | "st = 100"
    | "st \<notin> {0, 1, 2, 3, 4, 5, 6, 7, 8, 9, 10, 11, 100}" by blast
  then show ?thesis
  proof cases
    case 1 then show ?thesis using lex_start_ok assms by (simp add: lex_normal_def)
  next
    case 2 then show ?thesis by (simp add: lex_normal_def k h)
  next
    case 3 then show ?thesis by (simp add: lex_normal_def k h)
  next
    case 4 then show ?thesis using m_start_ok assms by (simp add: lex_normal_def)
  next
    case 5 then show ?thesis by (simp add: lex_normal_def h)
  next
    case 6 then show ?thesis using kf h by (simp add: lex_normal_def lex_m_stop_2_def)
  next
    case 7 then show ?thesis by (simp add: lex_normal_def h)
  next
    case 8 then show ?thesis using string_ok assms by (simp add: lex_normal_def)
  next
    case 9 then show ?thesis using bang_ok assms by (simp add: lex_normal_def)
  next
    case 10 then show ?thesis using kf h by (simp add: lex_normal_def lex_ti_stop_def)
  next
    case 11 then show ?thesis using c10 by (simp add: lex_normal_def)
  next
    case 12 then show ?thesis using comment_stop_ok assms by (simp add: lex_normal_def)
  next
    case 13 then show ?thesis using ident_ok assms by (simp add: lex_normal_def)
  next
    case 14 then show ?thesis using e by (simp add: lex_normal_def)
  qed
qed

lemma step_lex_ok:
  assumes "lex_inv L0 n tok p st L" and "lexbuf_pos L < lexbuf_size L" and "occurs c L0"
  shows "step_ok L0 n (lexbuf_pos L) (lex_step c tok p st L)"
proof (cases "lex_mode L0")
  case NORMAL
  then show ?thesis using normal_ok assms inv_facts(7) [OF assms(1,2)] by (simp add: lex_step_def)
next
  case DATA
  note f = inv_facts [OF assms(1,2)]
  have st: "st = 0" using assms(1) DATA by (cases st) (simp_all add: lex_inv_def)
  have k: "step_ok L0 n (lexbuf_pos L) (keep c 0 tok p L)" using st assms(1) by (intro keep_ok [OF _ assms(2), of L0 n tok p 0]) simp_all
  have "lexbuf_pos L0 \<le> lexbuf_pos L" "lexbuf_size L0 = lexbuf_size L" using assms(1) by (simp_all add: lex_inv_def same_text_def)
  then have "step_ok L0 n (lexbuf_pos L) (finish T_DATA tok p (L\<lparr>lex_mode := NORMAL\<rparr>))"
    using f DATA by (intro finish_ok [OF assms(1)]) (auto simp: same_text_def lex_ok_def lex_left_def)
  then show ?thesis using k st f(7) DATA by (simp add: lex_step_def)
qed

lemma end_token_kinds: "end_token st \<notin> {T_C_START, T_DOCTYPE_START, T_TI_START}" "st = 0 \<Longrightarrow> end_token st = T_EOF"
  by (simp_all add: end_token_def)

lemma end_ok:
  assumes "lex_inv L0 n tok p st L" and "lexbuf_size L \<le> lexbuf_pos L"
  shows "\<exists>t tok1. lex_end n tok p st L = Ret (t, tok1, L) \<and> lex_post L0 n t tok1 L"
proof -
  have i: "same_text L0 L" "lex_ok L" "lexbuf_size L0 < n" "length tok = n" "lexbuf_pos L0 + p \<le> lexbuf_pos L"
    using assms(1) by (simp_all add: lex_inv_def)
  have p: "p < n" using i by (simp add: lex_ok_def same_text_def)
  have "lex_left L < lex_left L0" if "st \<noteq> 0"
    using assms that i(2) by (simp add: lex_inv_def lex_left_def same_text_def lex_ok_def)
  moreover have "lex_left L \<le> lex_left L0" using assms(1) i(2,5) by (simp add: lex_inv_def lex_left_def same_text_def)
  ultimately have "lex_post L0 n (end_token st) (tok[p := NUL]) L"
    using i p end_token_kinds by (simp add: lex_post_def set_update_memI) blast
  then show ?thesis using assms(2) p i by (simp add: lex_end_def)
qed

lemma occurs_at:
  assumes "same_text L0 L" and "lexbuf_pos L < lexbuf_size L" and "lexbuf_pos L < length (lexbuf L)"
  shows "occurs (lexbuf L ! lexbuf_pos L) L0"
  using nth_mem [of "lexbuf_pos L" "take (lexbuf_size L) (lexbuf L)"] assms by (simp add: occurs_def same_text_def)

lemma loop_ok:
  assumes "lex_inv L0 n tok p st L" and "lexbuf_size L - lexbuf_pos L < k"
  shows "\<exists>t tok1 L1. lex_loop k n tok p st L = Ret (t, tok1, L1) \<and> lex_post L0 n t tok1 L1"
  using assms
proof (induction k arbitrary: tok p st L)
  case 0
  then show ?case by simp
next
  case (Suc k)
  show ?case
  proof (cases "lexbuf_pos L < lexbuf_size L")
    case True
    have p: "p < n" using inv_facts(1) [OF Suc.prems(1) True] by simp
    have i: "lexbuf_pos L < length (lexbuf L)" using inv_facts(4) [OF Suc.prems(1) True] True by (simp add: lex_ok_def)
    have oc: "occurs (lexbuf L ! lexbuf_pos L) L0" using inv_facts(3) [OF Suc.prems(1) True] True i by (rule occurs_at)
    have s: "step_ok L0 n (lexbuf_pos L) (lex_step (lexbuf L ! lexbuf_pos L) tok p st L)"
      by (rule step_lex_ok [OF Suc.prems(1) True oc])
    then obtain r where r: "lex_step (lexbuf L ! lexbuf_pos L) tok p st L = Ret r" by (auto simp: step_ok_def split: outcome.splits)
    show ?thesis
    proof (cases r)
      case (More tok1 p1 st1 L1)
      then have inv: "lex_inv L0 n tok1 p1 st1 L1" and q: "lexbuf_pos L1 = Suc (lexbuf_pos L)" using s r by (simp_all add: step_ok_def)
      have "lexbuf_size L1 = lexbuf_size L" using inv Suc.prems(1) by (simp add: lex_inv_def same_text_def)
      then have "lexbuf_size L1 - lexbuf_pos L1 < k" using Suc.prems(2) True q by simp
      from Suc.IH [OF inv this] show ?thesis using True p i r More by simp
    next
      case (Done t tok1 L1)
      then show ?thesis using True p i r s by (simp add: step_ok_def)
    qed
  next
    case False
    then show ?thesis using end_ok [OF Suc.prems(1)] by auto
  qed
qed

lemma lexer_ok:
  assumes "lex_ok L" and "lexbuf_size L < n" and "length tok = n"
  shows "\<exists>t tok1 L1. lexer_get_token tok n L = Ret (t, tok1, L1) \<and> lex_post L n t tok1 L1"
  unfolding lexer_get_token_def using assms by (intro loop_ok) (simp_all add: lex_inv_def same_text_def)

end
