(* ===== verification/Xml_Roundtrip.thy ===== *)
theory Xml_Roundtrip
  imports Xml_Tokens
begin

text \<open>
  A tree printed as a document is parsed to the same tree. The parser is followed token by token
  over configurations: what is left of the text, and the local variables.
\<close>

section \<open>Documents\<close>

text \<open>A tree as a document, with the text of a node behind its children.\<close>

definition text_props :: "(string \<times> string option) list \<Rightarrow> string" where
  "text_props ps = concat (map (\<lambda>(p, v). '' '' @ p @ ''='' @ [DQ] @ the v @ [DQ]) ps)"

fun xml_text :: "xml_node \<Rightarrow> string" where
  "xml_text (Xml_node n d ps cs) =
     ''<'' @ the n @ text_props ps @ ''>'' @ concat (map xml_text cs) @ the d @ ''</'' @ the n @ ''>''"

text \<open>
  What the format can express: names of the characters a name may have (in capital letters if
  the parser ignores case), quotes not in values, no tag in the text, all shorter than a token,
  not nested too deep.
\<close>

definition good_name :: "parser_mode \<Rightarrow> string \<Rightarrow> bool" where
  "good_name mode s \<longleftrightarrow> good_ident s \<and> (mode = XML_PARSER_CASE_INSENSITIVE \<longrightarrow> strtoupper s = s)"

definition good_value :: "string \<Rightarrow> bool" where
  "good_value s \<longleftrightarrow> list_all (\<lambda>c. c \<noteq> DQ \<and> c \<noteq> NUL) s \<and> length s < TOKEN_SIZE"

definition good_data :: "string \<Rightarrow> bool" where
  "good_data s \<longleftrightarrow> list_all (\<lambda>c. c \<noteq> CHR ''<'' \<and> c \<noteq> NUL) s \<and> length s < TOKEN_SIZE"

definition good_prop :: "parser_mode \<Rightarrow> string \<times> string option \<Rightarrow> bool" where
  "good_prop mode q \<longleftrightarrow> good_name mode (fst q) \<and> (case snd q of None \<Rightarrow> False | Some v \<Rightarrow> good_value v)"

fun printable :: "parser_mode \<Rightarrow> nat \<Rightarrow> xml_node \<Rightarrow> bool" where
  "printable mode 0 t = False"
| "printable mode (Suc k) (Xml_node n d ps cs) =
     ((case n of None \<Rightarrow> False | Some s \<Rightarrow> good_name mode s) \<and> (case d of None \<Rightarrow> False | Some s \<Rightarrow> good_data s) \<and>
      list_all (good_prop mode) ps \<and> list_all (printable mode k) cs)"

section \<open>Tokens of the parser\<close>

text \<open>Two for every character that is left, and one for the data mode: every token lessens it.\<close>

definition mu :: "lexer \<Rightarrow> nat" where
  "mu L = 2 * length (rest L) + (case lex_mode L of NORMAL \<Rightarrow> 0 | DATA \<Rightarrow> 1)"

type_synonym config = "nat \<times> parse_state \<times> lexer"

definition runs :: "parser_mode \<Rightarrow> string \<Rightarrow> nat \<Rightarrow> config \<Rightarrow> (int \<times> parse_state \<times> lexer) outcome" where
  "runs mode root depth x = (case x of (K, ps, L) \<Rightarrow> node_loop K mode root depth ps L)"

text \<open>State and local variables, the mode of the lexer, the text that is left; fuel is enough.\<close>

definition conf :: "lexer_mode \<Rightarrow> string \<Rightarrow> nat \<Rightarrow> string \<times> string \<Rightarrow> (string \<times> string option) list \<Rightarrow>
    string option \<times> xml_node list \<Rightarrow> config \<Rightarrow> bool" where
  "conf m txt st names props node x \<longleftrightarrow>
     (case x of (K, ps, L) \<Rightarrow>
        mu L < K \<and> ps_state ps = st \<and> \<not> ps_bypass ps \<and> length (ps_tok ps) = TOKEN_SIZE \<and>
        ps_node_name ps = fst names \<and> ps_property_name ps = snd names \<and> ps_properties ps = props \<and>
        ps_data ps = fst node \<and> ps_child ps = snd node \<and>
        lex_wf L \<and> \<not> in_comment L \<and> lex_mode L = m \<and> rest L = txt)"

text \<open>With less fuel the loop comes to a configuration from which it gives the same.\<close>

definition leads :: "parser_mode \<Rightarrow> string \<Rightarrow> nat \<Rightarrow> config \<Rightarrow> (config \<Rightarrow> bool) \<Rightarrow> bool" where
  "leads mode root depth x P \<longleftrightarrow> (\<exists>y. runs mode root depth x = runs mode root depth y \<and> fst y \<le> fst x \<and> P y)"

lemma leads_refl: "P x \<Longrightarrow> leads mode root depth x P"
  unfolding leads_def by blast

lemma leads_trans: "leads mode root depth x P \<Longrightarrow> (\<And>y. P y \<Longrightarrow> leads mode root depth y Q) \<Longrightarrow> leads mode root depth x Q"
  unfolding leads_def by (metis order_trans)

text \<open>One token that the parser goes on from.\<close>

definition goes :: "parse_result outcome \<Rightarrow> (parse_state \<Rightarrow> bool) \<Rightarrow> bool" where
  "goes r P \<longleftrightarrow> (case r of Ret (P_go ps) \<Rightarrow> P ps | _ \<Rightarrow> False)"

lemma goes_Ret [simp]: "goes (Ret (P_go ps)) P = P ps"
  by (simp add: goes_def)

lemma go_token:
  assumes "conf m txt st names props node (K, ps, L)"
    and "lexer_get_token (ps_tok ps) TOKEN_SIZE L = Ret (t, tok1, L1)" and "t \<noteq> T_ERROR"
    and "goes (node_step mode root (ps\<lparr>ps_res := t, ps_tok := tok1, ps_bypass := False\<rparr>))
      (\<lambda>ps1. conf m1 txt1 st1 names1 props1 node1 (mu L, ps1, L1))"
  shows "leads mode root depth (K, ps, L) (conf m1 txt1 st1 names1 props1 node1)"
proof -
  have K: "mu L < K" "\<not> ps_bypass ps" using assms(1) by (simp_all add: conf_def)
  then obtain k where k: "K = Suc k" "mu L \<le> k" by (cases K) auto
  obtain ps1 where ps1: "node_step mode root (ps\<lparr>ps_res := t, ps_tok := tok1, ps_bypass := False\<rparr>) = Ret (P_go ps1)"
    "conf m1 txt1 st1 names1 props1 node1 (mu L, ps1, L1)"
    using assms(4) by (auto simp: goes_def split: outcome.splits parse_result.splits)
  have "runs mode root depth (K, ps, L) = runs mode root depth (k, ps1, L1)"
    using assms(2,3) ps1(1) K(2) by (simp add: runs_def k(1) next_token_def)
  moreover have "conf m1 txt1 st1 names1 props1 node1 (k, ps1, L1)" using ps1(2) k(2) by (simp add: conf_def)
  moreover have "fst (k, ps1, L1) \<le> fst (K, ps, L)" using k(1) by simp
  ultimately show ?thesis unfolding leads_def by blast
qed

lemma conf_tok: "conf m txt st names props node (K, ps, L) \<Longrightarrow> length (ps_tok ps) = TOKEN_SIZE \<and> lex_wf L \<and> rest L = txt \<and> lex_mode L = m \<and> \<not> in_comment L"
  by (simp add: conf_def)

lemma conf_vars: "conf m txt st names props node (K, ps, L) \<Longrightarrow>
    ps_state ps = st \<and> ps_node_name ps = fst names \<and> ps_property_name ps = snd names \<and> ps_properties ps = props \<and>
    ps_data ps = fst node \<and> ps_child ps = snd node"
  by (simp add: conf_def)

lemma go_separ:
  assumes "conf NORMAL (CHR '' '' # d # r) 2 names props node x" and "d \<noteq> CHR '' ''" and "d \<noteq> TAB"
  shows "leads mode root depth x (conf NORMAL (d # r) 2 names props node)"
proof -
  obtain K ps L where x: "x = (K, ps, L)" by (cases x) auto
  note c = assms(1) [unfolded x] and ct = conf_tok [OF assms(1) [unfolded x]]
  have wf: "lex_wf L" and rl: "rest L = CHR '' '' # d # r" using ct by simp_all
  note a = rest_Cons [OF wf rl, simplified]
  have t: "lexer_get_token (ps_tok ps) TOKEN_SIZE L = Ret (T_SEPAR, put (ps_tok ps) 0 ('' '' @ [NUL]), advance 1 L)"
    using assms ct TOKEN_SIZE_gt by (intro token_separ [OF wf rl]) simp_all
  show ?thesis unfolding x
    using TOKEN_SIZE_gt
    by (intro go_token [OF c t]) (simp_all add: conf_vars [OF c] a ct node_steps step_props_def conf_def mu_def)
qed

lemma ident_in_put: "good_name mode s \<Longrightarrow> length a = TOKEN_SIZE \<Longrightarrow> ident_in mode (put a 0 (s @ [NUL])) = Ret s"
proof -
  assume g: "good_name mode s" and l: "length a = TOKEN_SIZE"
  have "length s < length a" using g l by (simp add: good_name_def good_ident_def)
  moreover have "NUL \<notin> set s" using g unfolding good_name_def good_ident_def list_all_iff ident_char_def by blast
  ultimately have "string_in (put a 0 (s @ [NUL])) = Ret s" by (rule string_in_put)
  then show ?thesis using g by (simp add: ident_in_def good_name_def)
qed

lemma token_ident_conf:
  assumes "conf NORMAL (s @ d # r) st names props node (K, ps, L)" and "good_name mode s" and "ident_stop d"
  shows "lexer_get_token (ps_tok ps) TOKEN_SIZE L = Ret (T_IDENT, put (ps_tok ps) 0 (s @ [NUL]), advance (length s) L)"
    and "rest (advance (length s) L) = d # r" and "lex_wf (advance (length s) L)" and "s \<noteq> []" and "length (put (ps_tok ps) 0 (s @ [NUL])) = TOKEN_SIZE"
proof -
  note ct = conf_tok [OF assms(1)]
  have s: "s \<noteq> []" "length s < TOKEN_SIZE" using assms(2) by (simp_all add: good_name_def good_ident_def)
  then show "s \<noteq> []" "length (put (ps_tok ps) 0 (s @ [NUL])) = TOKEN_SIZE" using ct by simp_all
  show "rest (advance (length s) L) = d # r" "lex_wf (advance (length s) L)" using rest_append [of L s "d # r"] ct by simp_all
  show "lexer_get_token (ps_tok ps) TOKEN_SIZE L = Ret (T_IDENT, put (ps_tok ps) 0 (s @ [NUL]), advance (length s) L)"
    using assms(2,3) ct s by (intro token_ident [of L s d r]) (simp_all add: good_name_def)
qed

lemma go_prop_name:
  assumes "conf NORMAL (s @ d # r) 2 names props node x" and "good_name mode s" and "ident_stop d"
  shows "leads mode root depth x (conf NORMAL (d # r) 5 (fst names, s) props node)"
proof -
  obtain K ps L where x: "x = (K, ps, L)" by (cases x) auto
  note c = assms(1) [unfolded x] and ct = conf_tok [OF assms(1) [unfolded x]]
  note t = token_ident_conf [OF c assms(2,3)]
  have i: "ident_in mode (put (ps_tok ps) 0 (s @ [NUL])) = Ret s" using ident_in_put [OF assms(2)] ct by simp
  show ?thesis unfolding x
    using TOKEN_SIZE_gt
    by (intro go_token [OF c t(1)]) (simp_all add: conf_vars [OF c] t ct i node_steps step_props_def conf_def mu_def)
qed

lemma go_node_name:
  assumes "conf NORMAL (s @ d # r) STATE_NODE names props node x" and "good_name mode s" and "ident_stop d"
  shows "leads mode root depth x (conf NORMAL (d # r) 2 (s, snd names) [] node)"
proof -
  obtain K ps L where x: "x = (K, ps, L)" by (cases x) auto
  note c = assms(1) [unfolded x] and ct = conf_tok [OF assms(1) [unfolded x]]
  note t = token_ident_conf [OF c assms(2,3)]
  have i: "ident_in mode (put (ps_tok ps) 0 (s @ [NUL])) = Ret s" using ident_in_put [OF assms(2)] ct by simp
  show ?thesis unfolding x
    using TOKEN_SIZE_gt
    by (intro go_token [OF c t(1)]) (simp_all add: conf_vars [OF c] t ct i node_steps step_node_def conf_def mu_def)
qed

lemma go_end_name:
  assumes "conf NORMAL (root @ d # r) 3 names props node x" and "good_name mode root" and "ident_stop d"
  shows "leads mode root depth x (conf NORMAL (d # r) 4 names props node)"
proof -
  obtain K ps L where x: "x = (K, ps, L)" by (cases x) auto
  note c = assms(1) [unfolded x] and ct = conf_tok [OF assms(1) [unfolded x]]
  note t = token_ident_conf [OF c assms(2,3)]
  have i: "ident_in mode (put (ps_tok ps) 0 (root @ [NUL])) = Ret root" using ident_in_put [OF assms(2)] ct by simp
  show ?thesis unfolding x
    using TOKEN_SIZE_gt
    by (intro go_token [OF c t(1)]) (simp_all add: conf_vars [OF c] t ct i node_steps step_end_name_def conf_def mu_def)
qed

lemma go_equal:
  assumes "conf NORMAL (CHR ''='' # d # r) 5 names props node x"
  shows "leads mode root depth x (conf NORMAL (d # r) 6 names props node)"
proof -
  obtain K ps L where x: "x = (K, ps, L)" by (cases x) auto
  note c = assms(1) [unfolded x] and ct = conf_tok [OF assms(1) [unfolded x]]
  have wf: "lex_wf L" and rl: "rest L = CHR ''='' # d # r" using ct by simp_all
  note a = rest_Cons [OF wf rl, simplified]
  have t: "lexer_get_token (ps_tok ps) TOKEN_SIZE L = Ret (T_EQUAL, put (ps_tok ps) 0 (''='' @ [NUL]), advance 1 L)"
    using ct TOKEN_SIZE_gt by (intro token_equal [OF wf rl]) simp_all
  show ?thesis unfolding x
    using TOKEN_SIZE_gt
    by (intro go_token [OF c t]) (simp_all add: conf_vars [OF c] a ct node_steps step_prop_name_def conf_def mu_def)
qed

lemma go_value:
  assumes "conf NORMAL (DQ # v @ DQ # r) 6 names props node x" and "good_value v"
  shows "leads mode root depth x (conf NORMAL r 2 names (props @ [(snd names, Some v)]) node)"
proof -
  obtain K ps L where x: "x = (K, ps, L)" by (cases x) auto
  note c = assms(1) [unfolded x] and ct = conf_tok [OF assms(1) [unfolded x]]
  have v: "DQ \<notin> set v" "NUL \<notin> set v" "length v < TOKEN_SIZE" using assms(2) by (auto simp: good_value_def list_all_iff)
  have t: "lexer_get_token (ps_tok ps) TOKEN_SIZE L = Ret (T_STRING, put (ps_tok ps) 0 (v @ [NUL]), advance (length v + 2) L)"
    using ct v by (intro token_string) simp_all
  have "rest L = (DQ # v @ [DQ]) @ r" using ct by simp
  then have a: "rest (advance (length v + 2) L) = r" "lex_wf (advance (length v + 2) L)"
    using rest_append [of L "DQ # v @ [DQ]" r] ct by simp_all
  have l: "length (put (ps_tok ps) 0 (v @ [NUL])) = TOKEN_SIZE" using ct v by simp
  have s: "string_in (put (ps_tok ps) 0 (v @ [NUL])) = Ret v" using string_in_put [of v] v ct by simp
  show ?thesis unfolding x
    using TOKEN_SIZE_gt
    by (intro go_token [OF c t]) (simp_all add: conf_vars [OF c] a [simplified] ct v s l [simplified] node_steps step_prop_value_def conf_def mu_def)
qed

lemma go_props:
  assumes "conf NORMAL (text_props qs @ CHR ''>'' # r) 2 names props node x" and "list_all (good_prop mode) qs"
  shows "leads mode root depth x (\<lambda>y. \<exists>p. conf NORMAL (CHR ''>'' # r) 2 (fst names, p) (props @ qs) node y)"
  using assms
proof (induction qs arbitrary: names props x)
  case Nil
  then show ?case by (intro leads_refl exI [of _ "snd names"]) (simp add: text_props_def)
next
  case (Cons q qs)
  obtain p v where q: "q = (p, Some v)" using Cons.prems(2) by (cases q) (auto simp: good_prop_def split: option.splits)
  have g: "good_name mode p" "good_value v" "list_all (good_prop mode) qs" using Cons.prems(2) q by (simp_all add: good_prop_def [of mode "(p, Some v)"])
  obtain d s where p: "p = d # s" using g(1) by (cases p) (auto simp: good_name_def good_ident_def)
  have d: "d \<noteq> CHR '' ''" "d \<noteq> TAB" using g(1) p by (auto simp: good_name_def good_ident_def ident_char_def ident_stop_def)
  have e: "ident_stop (CHR ''='')" by (simp add: ident_stop_def)
  define tl where "tl = text_props qs @ CHR ''>'' # r"
  have "text_props (q # qs) @ CHR ''>'' # r = CHR '' '' # d # (s @ CHR ''='' # DQ # v @ DQ # tl)"
    using q p by (simp add: text_props_def tl_def)
  then have c: "conf NORMAL (CHR '' '' # d # (s @ CHR ''='' # DQ # v @ DQ # tl)) 2 names props node x"
    using Cons.prems(1) by simp
  have 1: "leads mode root depth x (conf NORMAL (p @ CHR ''='' # DQ # v @ DQ # tl) 2 names props node)"
    using go_separ [OF c d] unfolding p append.simps .
  have 4: "leads mode root depth y (conf NORMAL tl 2 (fst names, p) (props @ [q]) node)"
    if "conf NORMAL (DQ # v @ DQ # tl) 6 (fst names, p) props node y" for y
    using go_value [OF that g(2)] q by simp
  have 5: "leads mode root depth y (\<lambda>y. \<exists>p. conf NORMAL (CHR ''>'' # r) 2 (fst names, p) (props @ q # qs) node y)"
    if "conf NORMAL tl 2 (fst names, p) (props @ [q]) node y" for y
    using Cons.IH [OF that [unfolded tl_def] g(3)] by simp
  show ?case
    by (rule leads_trans [OF 1], rule leads_trans [OF go_prop_name [OF _ g(1) e]], assumption,
      rule leads_trans [OF go_equal], assumption, rule leads_trans [OF 4], assumption, rule 5)
qed

section \<open>Nodes\<close>

lemma go_open:
  assumes "conf NORMAL (CHR ''<'' # d # r) STATE_IDLE names props node x" and "d \<notin> {CHR ''/'', CHR ''!'', CHR ''?''}"
  shows "leads mode root depth x (conf NORMAL (d # r) STATE_NODE names props node)"
proof -
  obtain K ps L where x: "x = (K, ps, L)" by (cases x) auto
  note c = assms(1) [unfolded x] and ct = conf_tok [OF assms(1) [unfolded x]]
  have wf: "lex_wf L" and rl: "rest L = CHR ''<'' # d # r" using ct by simp_all
  note a = rest_Cons [OF wf rl, simplified]
  have t: "lexer_get_token (ps_tok ps) TOKEN_SIZE L = Ret (T_M_START_1, put (ps_tok ps) 0 (''<'' @ [NUL]), advance 1 L)"
    using assms ct TOKEN_SIZE_gt by (intro token_m_start_1 [OF wf rl]) simp_all
  show ?thesis unfolding x
    using TOKEN_SIZE_gt
    by (intro go_token [OF c t]) (simp_all add: conf_vars [OF c] a ct node_steps step_idle_def conf_def mu_def)
qed

lemma go_data:
  assumes "conf DATA (s @ CHR ''<'' # r) STATE_IDLE names props node x" and "good_data s"
  shows "leads mode root depth x (conf NORMAL (CHR ''<'' # r) STATE_IDLE names props (Some s, snd node))"
proof -
  obtain K ps L where x: "x = (K, ps, L)" by (cases x) auto
  note c = assms(1) [unfolded x] and ct = conf_tok [OF assms(1) [unfolded x]]
  have s: "CHR ''<'' \<notin> set s" "NUL \<notin> set s" "length s < TOKEN_SIZE" using assms(2) by (auto simp: good_data_def list_all_iff)
  let ?L = "(advance (length s) L)\<lparr>lex_mode := NORMAL\<rparr>"
  have t: "lexer_get_token (ps_tok ps) TOKEN_SIZE L = Ret (T_DATA, put (ps_tok ps) 0 (s @ [NUL]), ?L)"
    using ct s by (intro token_data) simp_all
  have a: "rest ?L = CHR ''<'' # r" "lex_wf ?L"
    using rest_append [of L s "CHR ''<'' # r"] ct rest_same [of ?L "advance (length s) L"] by simp_all
  have i: "string_in (put (ps_tok ps) 0 (s @ [NUL])) = Ret s" using string_in_put [of s] s ct by simp
  have l: "length (put (ps_tok ps) 0 (s @ [NUL])) = TOKEN_SIZE" using ct s by simp
  show ?thesis unfolding x
    using TOKEN_SIZE_gt
    by (intro go_token [OF c t]) (simp_all add: conf_vars [OF c] a ct s i l node_steps step_idle_def conf_def mu_def)
qed

lemma go_close:
  assumes "conf NORMAL (CHR ''<'' # CHR ''/'' # r) STATE_IDLE names props node x"
  shows "leads mode root depth x (conf NORMAL r 3 names props node)"
proof -
  obtain K ps L where x: "x = (K, ps, L)" by (cases x) auto
  note c = assms(1) [unfolded x] and ct = conf_tok [OF assms(1) [unfolded x]]
  have wf: "lex_wf L" and rl: "rest L = CHR ''<'' # CHR ''/'' # r" using ct by simp_all
  have a: "rest (advance 2 L) = r" "lex_wf (advance 2 L)"
    using rest_append [of L "''</''" r] wf rl by (simp_all add: numeral_2_eq_2)
  obtain tok1 where t: "lexer_get_token (ps_tok ps) TOKEN_SIZE L = Ret (T_M_START_2, tok1, advance 2 L)" and l: "length tok1 = TOKEN_SIZE"
    using token_m_start_2 [OF wf rl, of TOKEN_SIZE "ps_tok ps"] ct TOKEN_SIZE_gt by auto
  show ?thesis unfolding x
    by (intro go_token [OF c t])
      (simp_all add: conf_vars [OF c] a ct l node_steps step_idle_def conf_def mu_def)
qed

text \<open>Behind an end tag the lexer reads text, but at the end of the buffer.\<close>

definition after :: "string \<Rightarrow> lexer_mode" where
  "after r = (if r = [] then NORMAL else DATA)"

text \<open>The parser returns with a node of this text and these children.\<close>

definition returns :: "parser_mode \<Rightarrow> string \<Rightarrow> nat \<Rightarrow> config \<Rightarrow> string option \<Rightarrow> xml_node list \<Rightarrow> string \<Rightarrow> bool" where
  "returns mode root depth x dat ch r \<longleftrightarrow>
     (\<exists>ps L. runs mode root depth x = Ret (0, ps, L) \<and> ps_data ps = dat \<and> ps_child ps = ch \<and>
        mu L < fst x \<and> lex_wf L \<and> \<not> in_comment L \<and> lex_mode L = after r \<and> rest L = r)"

lemma returns_leads: "leads mode root depth x P \<Longrightarrow> (\<And>y. P y \<Longrightarrow> returns mode root depth y dat ch r) \<Longrightarrow> returns mode root depth x dat ch r"
  unfolding leads_def returns_def by (metis order_less_le_trans)

text \<open>The end of a tag.\<close>

lemma token_stop:
  assumes "lex_wf L" and "rest L = CHR ''>'' # r" and "lex_mode L = NORMAL" and "\<not> in_comment L" and "length tok = TOKEN_SIZE"
  shows "\<exists>L1. lexer_get_token tok TOKEN_SIZE L = Ret (T_M_STOP_1, put tok 0 (''>'' @ [NUL]), L1) \<and>
    lex_wf L1 \<and> \<not> in_comment L1 \<and> rest L1 = r \<and> lex_mode L1 = after r"
proof (cases r)
  case Nil
  then show ?thesis using token_last_stop [of L TOKEN_SIZE tok] rest_Cons [OF assms(1,2)] assms TOKEN_SIZE_gt by (simp add: after_def)
next
  case (Cons d s)
  then show ?thesis
    using token_m_stop_1 [of L d s TOKEN_SIZE tok] rest_Cons [OF assms(1,2)] assms TOKEN_SIZE_gt
      rest_same [of "to_data (advance 1 L)" "advance 1 L"]
    by (simp add: after_def to_data_def)
qed

lemma returns_stop:
  assumes "conf NORMAL (CHR ''>'' # r) 4 names props node x"
  shows "returns mode root depth x (fst node) (snd node) r"
proof -
  obtain K ps L where x: "x = (K, ps, L)" by (cases x) auto
  note c = assms(1) [unfolded x] and ct = conf_tok [OF assms(1) [unfolded x]]
  obtain L1 where t: "lexer_get_token (ps_tok ps) TOKEN_SIZE L = Ret (T_M_STOP_1, put (ps_tok ps) 0 (''>'' @ [NUL]), L1)"
    and L1: "lex_wf L1" "\<not> in_comment L1" "rest L1 = r" "lex_mode L1 = after r"
    using token_stop [of L r "ps_tok ps"] ct by auto
  have K: "mu L < K" "\<not> ps_bypass ps" using c by (simp_all add: conf_def)
  then obtain k where k: "K = Suc k" by (cases K) auto
  have "mu L1 < mu L" using ct L1 by (simp add: mu_def split: lexer_mode.split)
  then have m: "mu L1 < Suc k" using K k by simp
  show ?thesis
    unfolding returns_def x runs_def k
    using t L1 K m by (simp add: next_token_def node_steps step_end_def conf_vars [OF c])
qed

lemma go_subtree:
  assumes "conf NORMAL (CHR ''>'' # d # r) 2 names props (dat, ch) x" and "depth + 1 < MAX_RECURSION"
    and sub: "\<And>y. conf DATA (d # r) STATE_IDLE ([], []) [] (None, []) y \<Longrightarrow> returns mode (fst names) (depth + 1) y sdat sch r1"
  shows "leads mode root depth x (conf (after r1) r1 STATE_IDLE names props (dat, ch @ [Xml_node (Some (fst names)) sdat props sch]))"
proof -
  obtain K ps L where x: "x = (K, ps, L)" by (cases x) auto
  note c = assms(1) [unfolded x] and ct = conf_tok [OF assms(1) [unfolded x]]
  obtain L1 where t: "lexer_get_token (ps_tok ps) TOKEN_SIZE L = Ret (T_M_STOP_1, put (ps_tok ps) 0 (''>'' @ [NUL]), L1)"
    and L1: "lex_wf L1" "\<not> in_comment L1" "rest L1 = d # r" "lex_mode L1 = DATA"
    using token_stop [of L "d # r" "ps_tok ps"] ct by (auto simp: after_def)
  have K: "mu L < K" "\<not> ps_bypass ps" using c by (simp_all add: conf_def)
  then obtain k where k: "K = Suc k" by (cases K) auto
  have "mu L1 < mu L" using ct L1 by (simp add: mu_def)
  then have "conf DATA (d # r) STATE_IDLE ([], []) [] (None, []) (k, parse_start, L1)"
    using K k L1 by (simp add: conf_def parse_start_def)
  from sub [OF this] obtain ps2 L2 where s: "node_loop k mode (fst names) (Suc depth) parse_start L1 = Ret (0, ps2, L2)"
    "ps_data ps2 = sdat" "ps_child ps2 = sch" "mu L2 < k" "lex_wf L2" "\<not> in_comment L2" "lex_mode L2 = after r1" "rest L2 = r1"
    by (auto simp: returns_def runs_def)
  define ps1 where "ps1 = ps\<lparr>ps_res := T_M_STOP_1, ps_tok := put (ps_tok ps) 0 (''>'' @ [NUL]), ps_bypass := False\<rparr>"
  define ps3 where "ps3 = ps1\<lparr>ps_child := ch @ [Xml_node (Some (fst names)) sdat props sch], ps_state := STATE_IDLE\<rparr>"
  have st: "node_step mode root ps1 = Ret (P_subtree ps1)"
    by (simp add: ps1_def node_steps step_props_def conf_vars [OF c])
  have "runs mode root depth x = runs mode root depth (k, ps3, L2)"
    using t K(2) st [unfolded ps1_def] s assms(2)
    by (simp add: x runs_def k next_token_def ps1_def ps3_def conf_vars [OF c])
  moreover have "conf (after r1) r1 STATE_IDLE names props (dat, ch @ [Xml_node (Some (fst names)) sdat props sch]) (k, ps3, L2)"
    using s ct TOKEN_SIZE_gt by (simp add: conf_def ps3_def ps1_def conf_vars [OF c])
  moreover have "fst (k, ps3, L2) \<le> fst x" using x k by simp
  ultimately show ?thesis unfolding leads_def by blast
qed

lemma props_head: "\<exists>d s. text_props ps @ CHR ''>'' # r = d # s \<and> ident_stop d"
proof (cases ps)
  case Nil
  then show ?thesis by (simp add: text_props_def ident_stop_def)
next
  case (Cons q qs)
  then show ?thesis by (cases q) (simp add: text_props_def ident_stop_def)
qed

text \<open>The start tag of a node, and the node behind it.\<close>

lemma go_tag:
  assumes "conf NORMAL (CHR ''<'' # n @ text_props ps @ CHR ''>'' # d # r) STATE_IDLE names props (dat, ch) x"
    and n: "good_name mode n" and "list_all (good_prop mode) ps" and "depth + 1 < MAX_RECURSION"
    and sub: "\<And>y. conf DATA (d # r) STATE_IDLE ([], []) [] (None, []) y \<Longrightarrow> returns mode n (depth + 1) y sdat sch r1"
  shows "leads mode root depth x (\<lambda>y. \<exists>p. conf (after r1) r1 STATE_IDLE (n, p) ps (dat, ch @ [Xml_node (Some n) sdat ps sch]) y)"
proof -
  obtain e s where es: "text_props ps @ CHR ''>'' # d # r = e # s" "ident_stop e" using props_head by blast
  obtain a b where ab: "n = a # b" "a \<notin> {CHR ''/'', CHR ''!'', CHR ''?''}"
    using n by (cases n) (auto simp: good_name_def good_ident_def ident_char_def)
  have c: "conf NORMAL (CHR ''<'' # a # b @ e # s) STATE_IDLE names props (dat, ch) x" using assms(1) es(1) ab(1) by simp
  have 1: "leads mode root depth x (conf NORMAL (n @ e # s) STATE_NODE names props (dat, ch))"
    using go_open [OF c ab(2)] ab(1) by simp
  have 2: "leads mode root depth y (conf NORMAL (text_props ps @ CHR ''>'' # d # r) 2 (n, snd names) [] (dat, ch))"
    if "conf NORMAL (n @ e # s) STATE_NODE names props (dat, ch) y" for y
    using go_node_name [OF that n es(2)] es(1) by simp
  have 3: "leads mode root depth y (\<lambda>y. \<exists>p. conf NORMAL (CHR ''>'' # d # r) 2 (n, p) ps (dat, ch) y)"
    if "conf NORMAL (text_props ps @ CHR ''>'' # d # r) 2 (n, snd names) [] (dat, ch) y" for y
    using go_props [OF that assms(3)] by simp
  have 4: "leads mode root depth y (\<lambda>y. \<exists>p. conf (after r1) r1 STATE_IDLE (n, p) ps (dat, ch @ [Xml_node (Some n) sdat ps sch]) y)"
    if y: "\<exists>p. conf NORMAL (CHR ''>'' # d # r) 2 (n, p) ps (dat, ch) y" for y
  proof -
    obtain p where p: "conf NORMAL (CHR ''>'' # d # r) 2 (n, p) ps (dat, ch) y" using y by blast
    have "leads mode root depth y (conf (after r1) r1 STATE_IDLE (n, p) ps (dat, ch @ [Xml_node (Some n) sdat ps sch]))"
      using go_subtree [OF p assms(4), where sdat = sdat and sch = sch and ?r1.0 = r1] sub by simp
    then show ?thesis by (rule leads_trans) (auto intro: leads_refl)
  qed
  show ?thesis by (rule leads_trans [OF 1], rule leads_trans [OF 2], assumption, rule leads_trans [OF 3], assumption, rule 4)
qed

text \<open>The nodes and the text in a node, up to its end tag.\<close>

definition contents_ok :: "parser_mode \<Rightarrow> nat \<Rightarrow> bool" where
  "contents_ok mode k \<longleftrightarrow> (\<forall>ts s root depth names props dat ch x r.
     list_all (printable mode k) ts \<and> good_data s \<and> good_name mode root \<and> depth + k < MAX_RECURSION \<and>
     conf DATA (concat (map xml_text ts) @ s @ CHR ''<'' # CHR ''/'' # root @ CHR ''>'' # r) STATE_IDLE names props (dat, ch) x \<longrightarrow>
     returns mode root depth x (Some s) (ch @ ts) r)"

lemma contents_end:
  assumes "good_data s" and "good_name mode root"
    and "conf DATA (s @ CHR ''<'' # CHR ''/'' # root @ CHR ''>'' # r) STATE_IDLE names props (dat, ch) x"
  shows "returns mode root depth x (Some s) ch r"
proof -
  have e: "ident_stop (CHR ''>'')" by (simp add: ident_stop_def)
  have 1: "leads mode root depth x (conf NORMAL (CHR ''<'' # CHR ''/'' # root @ CHR ''>'' # r) STATE_IDLE names props (Some s, ch))"
    using go_data [OF assms(3,1)] by simp
  have 2: "returns mode root depth y (Some s) ch r" if "conf NORMAL (CHR ''>'' # r) 4 names props (Some s, ch) y" for y
    using returns_stop [OF that] by simp
  show ?thesis
    by (rule returns_leads [OF 1], rule returns_leads [OF go_close], assumption, rule returns_leads [OF go_end_name [OF _ assms(2) e]],
      assumption, rule 2)
qed

text \<open>A node at one level, when the contents of the next are right.\<close>

lemma go_node:
  assumes "contents_ok mode k" and t: "printable mode (Suc k) t" and "depth + Suc k < MAX_RECURSION"
    and "conf NORMAL (xml_text t @ r) STATE_IDLE names props (dat, ch) x"
  shows "leads mode root depth x (\<lambda>y. \<exists>names props. conf (after r) r STATE_IDLE names props (dat, ch @ [t]) y)"
proof -
  obtain n s ps cs where x: "t = Xml_node (Some n) (Some s) ps cs" and g: "good_name mode n" "good_data s"
    "list_all (good_prop mode) ps" "list_all (printable mode k) cs"
    using t by (cases t) (auto split: option.splits)
  define body where "body = concat (map xml_text cs) @ s @ CHR ''<'' # CHR ''/'' # n @ CHR ''>'' # r"
  obtain d tl where d: "body = d # tl" by (cases body) (simp_all add: body_def)
  have c: "conf NORMAL (CHR ''<'' # n @ text_props ps @ CHR ''>'' # d # tl) STATE_IDLE names props (dat, ch) x"
    using assms(4) d [symmetric] by (simp add: x body_def)
  have sub: "returns mode n (depth + 1) y (Some s) cs r" if "conf DATA (d # tl) STATE_IDLE ([], []) [] (None, []) y" for y
    using assms(1) [unfolded contents_ok_def, rule_format, of cs s n "depth + 1" r "([], [])" "[]" None "[]" y] g assms(3) that
      d [symmetric] by (simp add: body_def)
  have "leads mode root depth x (\<lambda>y. \<exists>p. conf (after r) r STATE_IDLE (n, p) ps (dat, ch @ [t]) y)"
    using go_tag [OF c g(1,3), of depth "Some s" cs r root] sub assms(3) by (simp add: x)
  then show ?thesis by (rule leads_trans) (auto intro: leads_refl)
qed

lemma contents: "contents_ok mode k"
proof (induction k)
  case 0
  have nil: "ts = []" if "list_all (printable mode 0) ts" for ts using that by (cases ts) simp_all
  show ?case unfolding contents_ok_def
  proof (intro allI impI, elim conjE)
    fix ts s root names props dat ch x r and depth :: nat
    assume a: "list_all (printable mode 0) ts" "good_data s" "good_name mode root"
      "conf DATA (concat (map xml_text ts) @ s @ CHR ''<'' # CHR ''/'' # root @ CHR ''>'' # r) STATE_IDLE names props (dat, ch) x"
    show "returns mode root depth x (Some s) (ch @ ts) r"
      using contents_end [OF a(2,3), of r names props dat ch x depth] a(4) nil [OF a(1)] by simp
  qed
next
  case (Suc k)
  have step: "returns mode root depth x (Some s) (ch @ ts) r"
    if g: "good_data s" "good_name mode root" "depth + Suc k < MAX_RECURSION"
      and "list_all (printable mode (Suc k)) ts"
      and "conf DATA (concat (map xml_text ts) @ s @ CHR ''<'' # CHR ''/'' # root @ CHR ''>'' # r) STATE_IDLE names props (dat, ch) x"
    for ts s root names props dat ch x r and depth :: nat
    using that(4,5)
  proof (induction ts arbitrary: names props dat ch x)
    case Nil
    then show ?case using contents_end [OF g(1,2), of r names props dat ch x depth] by simp
  next
    case (Cons t ts)
    define tl where "tl = concat (map xml_text ts) @ s @ CHR ''<'' # CHR ''/'' # root @ CHR ''>'' # r"
    have tl: "after tl = DATA" by (simp add: tl_def after_def)
    obtain u where u: "xml_text t = CHR ''<'' # u" by (cases t) simp
    have "conf DATA ([] @ CHR ''<'' # (u @ tl)) STATE_IDLE names props (dat, ch) x" using Cons.prems(2) by (simp add: u tl_def)
    then have 1: "leads mode root depth x (conf NORMAL (xml_text t @ tl) STATE_IDLE names props (Some [], ch))"
      using go_data [of "[]" "u @ tl" names props "(dat, ch)" x] u by (simp add: good_data_def TOKEN_SIZE_def)
    have 2: "leads mode root depth y (\<lambda>y. \<exists>names props. conf (after tl) tl STATE_IDLE names props (Some [], ch @ [t]) y)"
      if "conf NORMAL (xml_text t @ tl) STATE_IDLE names props (Some [], ch) y" for y
      using Cons.prems(1) by (intro go_node [OF Suc.IH _ g(3) that]) simp
    have 3: "returns mode root depth y (Some s) (ch @ t # ts) r"
      if y: "\<exists>names props. conf (after tl) tl STATE_IDLE names props (Some [], ch @ [t]) y" for y
    proof -
      obtain names1 props1 where "conf DATA tl STATE_IDLE names1 props1 (Some [], ch @ [t]) y" using y tl by auto
      then show ?thesis using Cons.IH [of names1 props1 "Some []" "ch @ [t]" y] Cons.prems(1) by (simp add: tl_def)
    qed
    show ?case by (rule returns_leads [OF 1], rule returns_leads [OF 2], assumption, rule 3)
  qed
  then show ?case unfolding contents_ok_def by blast
qed

text \<open>The end of the buffer, read at the top.\<close>

lemma top_end:
  assumes "conf NORMAL [] STATE_IDLE names props node x"
  shows "\<exists>ps L. runs mode root depth x = Ret (0, ps, L) \<and> ps_child ps = snd node"
proof -
  obtain K ps L where x: "x = (K, ps, L)" by (cases x) auto
  note c = assms(1) [unfolded x] and ct = conf_tok [OF assms(1) [unfolded x]]
  have t: "lexer_get_token (ps_tok ps) TOKEN_SIZE L = Ret (T_EOF, put (ps_tok ps) 0 [NUL], L)"
    using ct TOKEN_SIZE_gt by (intro token_eof) simp_all
  have K: "mu L < K" "\<not> ps_bypass ps" using c by (simp_all add: conf_def)
  then obtain k where k: "K = Suc k" by (cases K) auto
  show ?thesis using t K by (simp add: x runs_def k next_token_def node_steps step_idle_def conf_vars [OF c])
qed

text \<open>
  C17. A tree printed as a document is parsed to the same tree, for every tree the format can express and
  the parser takes: with names of the characters an identifier may have (in capital letters if the
  parser ignores case), quoted values, text behind the children of a node, and at most as deep as
  \<open>MAX_RECURSION\<close> allows. Enough fuel is twice the length of the document.
\<close>

theorem xml_roundtrip:
  assumes "printable mode (MAX_RECURSION - 1) t" and "2 * length (xml_text t) < k"
  shows "xml_parser_build_tree k mode (lexer_init (xml_text t @ z) (length (xml_text t))) = Ret (0, Some t)"
proof -
  let ?L = "lexer_init (xml_text t @ z) (length (xml_text t))"
  obtain j where j: "MAX_RECURSION = Suc (Suc j)" "MAX_RECURSION - 1 = Suc j" by (simp add: MAX_RECURSION_def)
  have "conf NORMAL (xml_text t @ []) STATE_IDLE ([], []) [] (None, []) (k, parse_start, ?L)"
    using assms(2) by (simp add: conf_def parse_start_def lexer_init_def lex_wf_def rest_def mu_def)
  from go_node [OF contents [of mode j] _ _ this, where depth = 0 and root = "[]"] assms(1) j
  obtain y names props where y: "runs mode [] 0 (k, parse_start, ?L) = runs mode [] 0 y"
    "conf NORMAL [] STATE_IDLE names props (None, [t]) y" by (auto simp: leads_def after_def)
  obtain ps L where "runs mode [] 0 y = Ret (0, ps, L)" "ps_child ps = [t]" using top_end [OF y(2), of mode "[]" 0] by auto
  then show ?thesis using y(1) by (simp add: xml_parser_build_tree_def xml_parser_get_node_def runs_def j(1))
qed

definition demo_tree :: xml_node where
  "demo_tree = Xml_node (Some ''ASX'') (Some ''x'') [(''VERSION'', Some ''3 0''), (''A'', Some [])]
     [Xml_node (Some ''ENTRY'') (Some []) [] [], Xml_node (Some ''REF'') (Some '' 1'') [(''HREF'', Some ''mms://h/<a>'')] []]"

theorem xml_roundtrip_witness:
  "xml_parser_build_tree 300 XML_PARSER_CASE_INSENSITIVE (lexer_init (xml_text demo_tree @ ''...'') (length (xml_text demo_tree))) =
     Ret (0, Some demo_tree)"
proof -
  have names: "list_all (good_name XML_PARSER_CASE_INSENSITIVE) [''ASX'', ''VERSION'', ''A'', ''ENTRY'', ''REF'', ''HREF'']"
    by (simp add: good_name_def good_ident_def ident_char_def ident_stop_def TOKEN_SIZE_def chars strtoupper_def toupper_def)
  obtain j where depth: "MAX_RECURSION - 1 = Suc (Suc j)" by (simp add: MAX_RECURSION_def)
  have "printable XML_PARSER_CASE_INSENSITIVE (MAX_RECURSION - 1) demo_tree"
    unfolding depth using names by (simp add: demo_tree_def good_prop_def good_value_def good_data_def TOKEN_SIZE_def chars)
  moreover have "2 * length (xml_text demo_tree) < 300" by (simp add: demo_tree_def text_props_def)
  ultimately show ?thesis by (rule xml_roundtrip)
qed

end
