(* ===== verification/Xml_Parser_Props.thy ===== *)
theory Xml_Parser_Props
  imports Xml_Lexer_Safe
begin

text \<open>
  The parser stays in its arrays, returns when nothing is skipped, and what happens otherwise: a
  comment without an end, a token as long as its array.
\<close>

section \<open>The parser stays in its arrays and returns\<close>

definition token_ok :: "parse_state \<Rightarrow> bool" where
  "token_ok ps \<longleftrightarrow> length (ps_tok ps) = TOKEN_SIZE \<and> (ps_res ps \<in> {T_IDENT, T_STRING, T_DATA} \<longrightarrow> NUL \<in> set (ps_tok ps))"

text \<open>Inside a comment, a processing instruction or a document type.\<close>

definition skipping :: "parse_state \<Rightarrow> bool" where
  "skipping ps \<longleftrightarrow> ps_state ps \<in> {7, 8, 9}"

definition go_ok :: "parse_state \<Rightarrow> parse_state \<Rightarrow> bool" where
  "go_ok ps ps1 \<longleftrightarrow>
     ps_tok ps1 = ps_tok ps \<and> ps_res ps1 = ps_res ps \<and> (ps_res ps = T_EOF \<longrightarrow> skipping ps) \<and>
     (ps_bypass ps1 \<longrightarrow> ps_res ps \<in> {T_IDENT, T_M_STOP_1} \<and> ps_state ps1 = 2 \<and> ps_state ps = 5) \<and>
     (skipping ps1 \<longrightarrow> skipping ps \<or> ps_res ps \<in> {T_C_START, T_TI_START, T_DOCTYPE_START})"

definition node_ok :: "parse_state \<Rightarrow> parse_result outcome \<Rightarrow> bool" where
  "node_ok ps r \<longleftrightarrow>
     (case r of
        Ret (P_go ps1) \<Rightarrow> go_ok ps ps1
      | Ret (P_return n ps1) \<Rightarrow> True
      | Ret (P_subtree ps1) \<Rightarrow> ps1 = ps \<and> ps_res ps = T_M_STOP_1
      | _ \<Rightarrow> False)"

lemma string_in_ok: "token_ok ps \<Longrightarrow> ps_res ps \<in> {T_IDENT, T_STRING, T_DATA} \<Longrightarrow> string_in (ps_tok ps) = Ret (cstr (ps_tok ps))"
  by (auto simp: token_ok_def string_in_def)

lemma node_ok_Ret [simp]: "node_ok ps (Ret (P_go ps1)) = go_ok ps ps1" "node_ok ps (Ret (P_return n ps1))"
    "node_ok ps (Ret (P_subtree ps1)) \<longleftrightarrow> ps1 = ps \<and> ps_res ps = T_M_STOP_1"
  by (simp_all add: node_ok_def)

lemma step_idle_ok: "token_ok ps \<Longrightarrow> \<not> ps_bypass ps \<Longrightarrow> ps_state ps = 0 \<Longrightarrow> node_ok ps (step_idle ps)"
  using string_in_ok [of ps] by (cases "ps_res ps") (simp_all add: step_idle_def go_ok_def skipping_def node_steps)

lemma step_node_ok: "token_ok ps \<Longrightarrow> \<not> ps_bypass ps \<Longrightarrow> node_ok ps (step_node mode ps)"
  using string_in_ok [of ps] by (cases "ps_res ps") (simp_all add: step_node_def go_ok_def skipping_def ident_in_def)

lemma step_props_ok: "token_ok ps \<Longrightarrow> \<not> ps_bypass ps \<Longrightarrow> ps_state ps = 2 \<Longrightarrow> node_ok ps (step_props mode ps)"
  using string_in_ok [of ps] by (cases "ps_res ps") (simp_all add: step_props_def go_ok_def skipping_def ident_in_def node_steps)

lemma step_end_name_ok: "token_ok ps \<Longrightarrow> \<not> ps_bypass ps \<Longrightarrow> node_ok ps (step_end_name mode root ps)"
  using string_in_ok [of ps] by (cases "ps_res ps") (simp_all add: step_end_name_def go_ok_def skipping_def ident_in_def)

lemma step_end_ok: "node_ok ps (step_end ps)"
  by (cases "ps_res ps") (simp_all add: step_end_def)

lemma step_prop_name_ok: "\<not> ps_bypass ps \<Longrightarrow> ps_state ps = 5 \<Longrightarrow> node_ok ps (step_prop_name ps)"
  by (cases "ps_res ps") (simp_all add: step_prop_name_def go_ok_def skipping_def)

lemma step_prop_value_ok: "token_ok ps \<Longrightarrow> \<not> ps_bypass ps \<Longrightarrow> ps_state ps = 6 \<Longrightarrow> node_ok ps (step_prop_value ps)"
  using string_in_ok [of ps] by (cases "ps_res ps") (simp_all add: step_prop_value_def go_ok_def skipping_def)

lemma node_step_ok:
  assumes "token_ok ps" and "\<not> ps_bypass ps"
  shows "node_ok ps (node_step mode root ps)"
  using step_idle_ok [OF assms] step_node_ok [OF assms] step_props_ok [OF assms] step_end_name_ok [OF assms] step_end_ok
    step_prop_name_ok [OF assms(2)] step_prop_value_ok [OF assms] assms
  by (simp add: node_steps) (simp add: go_ok_def skipping_def)

text \<open>Between two steps: the arrays are large enough, and a token that is kept is one for the state.\<close>

definition loop_inv :: "parse_state \<Rightarrow> lexer \<Rightarrow> bool" where
  "loop_inv ps L \<longleftrightarrow>
     lex_ok L \<and> lexbuf_size L < TOKEN_SIZE \<and> token_ok ps \<and>
     (ps_bypass ps \<longrightarrow> ps_res ps \<in> {T_IDENT, T_M_STOP_1} \<and> ps_state ps = 2)"

definition skips :: "parse_state \<Rightarrow> lexer \<Rightarrow> bool" where
  "skips ps L \<longleftrightarrow> skipping ps \<or> occurs (CHR ''!'') L \<or> occurs (CHR ''?'') L"

definition weight :: "parse_state \<Rightarrow> lexer \<Rightarrow> nat" where
  "weight ps L = 2 * lex_left L + (if ps_bypass ps then 1 else 0)"

definition result_ok :: "nat \<Rightarrow> parse_state \<Rightarrow> lexer \<Rightarrow> (int \<times> parse_state \<times> lexer) outcome \<Rightarrow> bool" where
  "result_ok k ps L r \<longleftrightarrow>
     (case r of
        Ret (n, ps1, L1) \<Rightarrow> n = 0 \<longrightarrow> same_text L L1 \<and> lex_ok L1 \<and> lex_left L1 \<le> lex_left L
      | Spin \<Rightarrow> skips ps L \<or> k \<le> weight ps L
      | _ \<Rightarrow> False)"

text \<open>The next token, read or kept.\<close>

lemma next_ok:
  assumes "loop_inv ps L"
  obtains t tok1 L1 where "next_token ps L = Ret (t, tok1, L1)" and "same_text L L1" and "lex_ok L1"
    and "token_ok (ps\<lparr>ps_res := t, ps_tok := tok1, ps_bypass := False\<rparr>)"
    and "t \<noteq> T_ERROR \<Longrightarrow> lex_left L1 \<le> lex_left L"
    and "t \<notin> {T_EOF, T_ERROR} \<Longrightarrow> ps_bypass ps \<or> lex_left L1 < lex_left L"
    and "t \<in> {T_C_START, T_TI_START, T_DOCTYPE_START} \<Longrightarrow> occurs (CHR ''!'') L \<or> occurs (CHR ''?'') L"
    and "ps_bypass ps \<Longrightarrow> t \<noteq> T_EOF \<and> t \<noteq> T_ERROR"
proof (cases "ps_bypass ps")
  case True
  then show ?thesis using assms
    by (intro that [of "ps_res ps" "ps_tok ps" L]) (auto simp: next_token_def loop_inv_def same_text_def token_ok_def)
next
  case False
  obtain t tok1 L1 where t: "lexer_get_token (ps_tok ps) TOKEN_SIZE L = Ret (t, tok1, L1)" "lex_post L TOKEN_SIZE t tok1 L1"
    using lexer_ok [of L TOKEN_SIZE "ps_tok ps"] assms by (auto simp: loop_inv_def token_ok_def)
  then show ?thesis using False
    by (intro that [of t tok1 L1]) (auto simp: next_token_def lex_post_def token_ok_def)
qed

lemma result_ok_step:
  assumes "result_ok k ps1 L1 r" and "same_text L L1" and "lex_left L1 \<le> lex_left L" and "skips ps1 L1 \<Longrightarrow> skips ps L"
    and "skips ps L \<or> weight ps1 L1 < weight ps L"
  shows "result_ok (Suc k) ps L r"
  using assms by (cases r) (auto simp: result_ok_def same_text_def)

lemma occurs_same: "same_text L L1 \<Longrightarrow> occurs c L1 = occurs c L"
  by (simp add: occurs_def same_text_def)

lemma parse_start_fields [simp]:
  "ps_bypass parse_start = False" "skipping parse_start = False" "token_ok parse_start" "ps_state parse_start = 0"
  by (simp_all add: parse_start_def skipping_def token_ok_def STATE_IDLE_def)

text \<open>What the loop does with a token, and the part behind the start of a subtree.\<close>

definition subtree_then :: "nat \<Rightarrow> parser_mode \<Rightarrow> string \<Rightarrow> nat \<Rightarrow> parse_state \<Rightarrow> lexer \<Rightarrow> (int \<times> parse_state \<times> lexer) outcome" where
  "subtree_then k mode root depth ps L =
     obind (if depth + 1 < MAX_RECURSION then node_loop k mode (ps_node_name ps) (depth + 1) parse_start L
            else Ret (- 1, parse_start, L)) (\<lambda>(n, sub, L2).
     if n \<noteq> 0 then Ret (n, ps, L2)
     else node_loop k mode root depth
            (ps\<lparr>ps_child := ps_child ps @ [Xml_node (Some (ps_node_name ps)) (ps_data sub) (ps_properties ps) (ps_child sub)],
                 ps_state := STATE_IDLE\<rparr>) L2)"

lemma node_loop_next:
  assumes "next_token ps L = Ret (t, tok, L1)" and "t \<noteq> T_ERROR"
    and "node_step mode root (ps\<lparr>ps_res := t, ps_tok := tok, ps_bypass := False\<rparr>) = Ret r"
  shows "node_loop (Suc k) mode root depth ps L =
    (case r of P_go ps1 \<Rightarrow> node_loop k mode root depth ps1 L1 | P_return n ps1 \<Rightarrow> Ret (n, ps1, L1)
     | P_subtree ps1 \<Rightarrow> subtree_then k mode root depth ps1 L1)"
  using assms by (cases r) (simp_all add: subtree_then_def)

lemma subtree_result:
  assumes IH: "\<And>root depth ps L. loop_inv ps L \<Longrightarrow> result_ok k ps L (node_loop k mode root depth ps L)"
    and inv: "loop_inv parse_start L1" and same: "same_text L L1" and le: "lex_left L1 \<le> lex_left L"
    and ps: "token_ok ps1" "\<not> ps_bypass ps1" and w: "2 * lex_left L1 < weight ps L"
  shows "result_ok (Suc k) ps L (subtree_then k mode root depth ps1 L1)"
proof -
  define q where "q = (if depth + 1 < MAX_RECURSION then node_loop k mode (ps_node_name ps1) (depth + 1) parse_start L1
              else Ret (- 1, parse_start, L1))"
  have q: "result_ok k parse_start L1 q" using IH [OF inv] unfolding q_def by (simp add: result_ok_def)
  show ?thesis
  proof (cases q)
    case (Ret x)
    obtain m sub L2 where x: "x = (m, sub, L2)" by (cases x) auto
    show ?thesis
    proof (cases "m = 0")
      case True
      then have L2: "same_text L1 L2" "lex_ok L2" "lex_left L2 \<le> lex_left L1" using q Ret x by (simp_all add: result_ok_def)
      define ps3 where "ps3 = ps1\<lparr>ps_child := ps_child ps1 @ [Xml_node (Some (ps_node_name ps1)) (ps_data sub) (ps_properties ps1) (ps_child sub)],
                   ps_state := STATE_IDLE\<rparr>"
      have same2: "same_text L L2" using same L2(1) by (simp add: same_text_def)
      have i3: "loop_inv ps3 L2" using ps L2 inv by (auto simp: loop_inv_def ps3_def token_ok_def same_text_def)
      have le2: "lex_left L2 \<le> lex_left L" using L2(3) le by simp
      have 1: "skips ps3 L2 \<Longrightarrow> skips ps L" by (auto simp: skips_def occurs_same [OF same2] ps3_def skipping_def STATE_IDLE_def)
      have "weight ps3 L2 = 2 * lex_left L2" using ps(2) by (simp add: weight_def ps3_def)
      then have 2: "skips ps L \<or> weight ps3 L2 < weight ps L" using w L2(3) by simp
      have "subtree_then k mode root depth ps1 L1 = node_loop k mode root depth ps3 L2"
        unfolding subtree_then_def q_def [symmetric] using Ret x True by (simp add: ps3_def)
      then show ?thesis by (simp add: result_ok_step [OF IH [OF i3] same2 le2 1 2])
    next
      case False
      then have "subtree_then k mode root depth ps1 L1 = Ret (m, ps1, L2)"
        unfolding subtree_then_def q_def [symmetric] using Ret x by simp
      then show ?thesis using False by (simp add: result_ok_def)
    qed
  next
    case Spin
    then have "subtree_then k mode root depth ps1 L1 = Spin" unfolding subtree_then_def q_def [symmetric] by simp
    moreover have "skips ps L \<or> Suc k \<le> weight ps L" using q Spin w
      by (auto simp: result_ok_def weight_def skips_def occurs_same [OF same])
    ultimately show ?thesis by (simp add: result_ok_def)
  qed (use q in \<open>simp_all add: result_ok_def\<close>)
qed

lemma loop_result: "loop_inv ps L \<Longrightarrow> result_ok k ps L (node_loop k mode root depth ps L)"
proof (induction k arbitrary: root depth ps L)
  case 0
  then show ?case by (simp add: result_ok_def)
next
  case (Suc k)
  obtain t tok1 L1 where n: "next_token ps L = Ret (t, tok1, L1)" and same: "same_text L L1" and ok: "lex_ok L1"
    and tok: "token_ok (ps\<lparr>ps_res := t, ps_tok := tok1, ps_bypass := False\<rparr>)"
    and le: "t \<noteq> T_ERROR \<Longrightarrow> lex_left L1 \<le> lex_left L"
    and less: "t \<notin> {T_EOF, T_ERROR} \<Longrightarrow> ps_bypass ps \<or> lex_left L1 < lex_left L"
    and tag: "t \<in> {T_C_START, T_TI_START, T_DOCTYPE_START} \<Longrightarrow> occurs (CHR ''!'') L \<or> occurs (CHR ''?'') L"
    and kept: "ps_bypass ps \<Longrightarrow> t \<noteq> T_EOF \<and> t \<noteq> T_ERROR"
    using next_ok [OF Suc.prems] by blast
  define ps1 where "ps1 = ps\<lparr>ps_res := t, ps_tok := tok1, ps_bypass := False\<rparr>"
  have b: "ps_bypass ps \<Longrightarrow> ps_state ps = 2" and size: "lexbuf_size L1 < TOKEN_SIZE"
    using Suc.prems same by (auto simp: loop_inv_def same_text_def)
  have tok: "token_ok ps1" using tok by (simp add: ps1_def)
  show ?case
  proof (cases "t = T_ERROR")
    case True
    then show ?thesis using n kept by (auto simp: result_ok_def)
  next
    case False
    then have le: "lex_left L1 \<le> lex_left L" by (rule le)
    have s: "node_ok ps1 (node_step mode root ps1)" using tok by (intro node_step_ok) (simp_all add: ps1_def)
    then obtain r where r: "node_step mode root ps1 = Ret r" by (auto simp: node_ok_def split: outcome.splits)
    note loop = node_loop_next [OF n False r [unfolded ps1_def], of k depth]
    show ?thesis
    proof (cases r)
      case (P_return m ps2)
      then show ?thesis using loop same ok le by (simp add: result_ok_def)
    next
      case (P_go ps2)
      then have g: "go_ok ps1 ps2" using s r by simp
      have inv: "loop_inv ps2 L1" using g tok ok size by (auto simp: loop_inv_def go_ok_def token_ok_def)
      have 1: "skips ps L" if "skips ps2 L1"
        using that g tag by (auto simp: skips_def occurs_same [OF same] go_ok_def ps1_def skipping_def)
      have 2: "skips ps L \<or> weight ps2 L1 < weight ps L"
      proof (cases "t = T_EOF")
        case True
        then show ?thesis using g by (simp add: go_ok_def ps1_def skips_def skipping_def)
      next
        case False
        then show ?thesis using less \<open>t \<noteq> T_ERROR\<close> le g b by (auto simp: weight_def go_ok_def ps1_def)
      qed
      show ?thesis unfolding loop using P_go by (simp add: result_ok_step [OF Suc.IH [OF inv] same le 1 2])
    next
      case (P_subtree ps2)
      then have t: "ps2 = ps1" "t = T_M_STOP_1" using s r by (simp_all add: ps1_def)
      have "2 * lex_left L1 < weight ps L" using less t le by (auto simp: weight_def)
      moreover have "loop_inv parse_start L1" using ok size by (simp add: loop_inv_def)
      moreover have "\<not> ps_bypass ps1" by (simp add: ps1_def)
      ultimately show ?thesis
        unfolding loop P_subtree parse_result.case t(1) using subtree_result [OF Suc.IH _ same le tok] by blast
    qed
  qed
qed

text \<open>A text with a NUL behind it, shorter than a token.\<close>

lemma text_start_ok: "length s < TOKEN_SIZE \<Longrightarrow> loop_inv parse_start (lexer_init (s @ NUL # z) (length s))"
  by (simp add: loop_inv_def lex_ok_def lexer_init_def nth_append)

text \<open>
  C18. On a text with a NUL behind it that is shorter than a token may be, the parser never reads or writes
  outside the buffer and its token, and no string it copies is without an end: whatever the text
  is, and however long the parser runs.
\<close>

theorem xml_parser_safe:
  assumes "length s < TOKEN_SIZE"
  shows "xml_parser_build_tree k mode (lexer_init (s @ NUL # z) (length s)) \<notin> {Fault, Wait}"
  using loop_result [OF text_start_ok [OF assms, of z], of k mode "[]" 0]
  by (auto simp: xml_parser_build_tree_def xml_parser_get_node_def MAX_RECURSION_def result_ok_def split: outcome.splits list.splits)

text \<open>
  C19. On such a text without exclamation and question marks, which begin what the parser skips,
  it returns: every token takes something away from what is left. Enough fuel is four times the length.
\<close>

theorem xml_parser_returns:
  assumes "length s < TOKEN_SIZE" and "CHR ''!'' \<notin> set s" and "CHR ''?'' \<notin> set s" and "4 * length s < k"
  shows "\<exists>res. xml_parser_build_tree k mode (lexer_init (s @ NUL # z) (length s)) = Ret res"
proof -
  let ?L = "lexer_init (s @ NUL # z) (length s)"
  have "\<not> skips parse_start ?L" using assms(2,3) by (simp add: skips_def occurs_def lexer_init_def)
  moreover have "weight parse_start ?L = 4 * length s" by (simp add: weight_def lex_left_def lexer_init_def)
  ultimately obtain res where "node_loop k mode [] 0 parse_start ?L = Ret res"
    using loop_result [OF text_start_ok [OF assms(1), of z], of k mode "[]" 0] assms(4)
    by (auto simp: result_ok_def split: outcome.splits)
  then show ?thesis by (cases res) (auto simp: xml_parser_build_tree_def xml_parser_get_node_def MAX_RECURSION_def split: list.splits)
qed

theorem xml_parser_safe_witness:
  "xml_parser_build_tree 50 XML_PARSER_CASE_SENSITIVE (lexer_init (''<a <!D b-->'' @ NUL # []) (length ''<a <!D b-->'')) \<notin> {Fault, Wait}"
  using xml_parser_safe [of "''<a <!D b-->''" 50 XML_PARSER_CASE_SENSITIVE "[]"] by (simp add: TOKEN_SIZE_def)

theorem xml_parser_returns_witness:
  "\<exists>res. xml_parser_build_tree 50 XML_PARSER_CASE_SENSITIVE (lexer_init (''<a b-->c'' @ NUL # []) (length ''<a b-->c'')) = Ret res"
  using xml_parser_returns [of "''<a b-->c''" 50 XML_PARSER_CASE_SENSITIVE "[]"] by (simp add: TOKEN_SIZE_def)

section \<open>A comment without an end\<close>

text \<open>The tokens of a comment in a text without tags and dashes.\<close>

definition quiet :: "char \<Rightarrow> bool" where
  "quiet c \<longleftrightarrow> c \<notin> {CHR ''<'', CHR ''>'', CHR ''?'', CHR ''-''}"

definition commented :: "lexer \<Rightarrow> bool" where
  "commented L \<longleftrightarrow> lex_mode L = NORMAL \<and> in_comment L"

definition quiet_state :: "nat \<Rightarrow> bool" where
  "quiet_state st \<longleftrightarrow> st \<in> {0, 1, 2, 6, 7, 100}"

definition quiet_result :: "lex_result outcome \<Rightarrow> bool" where
  "quiet_result r \<longleftrightarrow>
     (case r of
        Ret (More tok p st L) \<Rightarrow> quiet_state st \<and> commented L
      | Ret (Done t tok L) \<Rightarrow> t \<notin> {T_ERROR, T_C_STOP} \<and> commented L
      | _ \<Rightarrow> True)"

lemma quiet_keep: "quiet_state st \<Longrightarrow> commented L \<Longrightarrow> quiet_result (keep c st tok p L)"
  by (cases "p < length tok") (simp_all add: keep_def quiet_result_def commented_def)

lemma quiet_finish: "t \<notin> {T_ERROR, T_C_STOP} \<Longrightarrow> commented L \<Longrightarrow> quiet_result (finish t tok p L)"
  by (cases "p < length tok") (simp_all add: finish_def quiet_result_def)

lemma quiet_step:
  assumes "quiet c" and "quiet_state st" and "commented L"
  shows "quiet_result (lex_step c tok p st L)"
proof -
  have k: "quiet_result (keep d st1 tok p L)" if "quiet_state st1" for d st1 using that assms(3) by (rule quiet_keep)
  have f: "quiet_result (finish t tok p L)" if "t \<notin> {T_ERROR, T_C_STOP}" for t using that assms(3) by (rule quiet_finish)
  have a: "commented (advance 1 L)" and m: "lex_mode L = NORMAL" "in_comment L" using assms(3) by (simp_all add: commented_def)
  have q7: "quiet_result (Ret (More tok1 p1 7 (advance 1 L)))" for tok1 p1 using a by (simp add: quiet_result_def quiet_state_def)
  have s: "quiet_result (lex_string c tok p L)"
    using q7 quiet_finish [OF _ a, of T_STRING] by (cases "p < length tok") (simp_all add: lex_string_def quiet_result_def)
  have 0: "quiet_result (lex_start c tok p L)"
    using assms(1) m q7 k by (simp add: lex_start_def quiet_def quiet_state_def)
  have 100: "quiet_result (lex_ident c tok p L)"
    using assms(1) k f by (simp add: lex_ident_def quiet_def quiet_state_def)
  have 1: "quiet_result (if c = LF \<or> c = CR then keep c 1 tok p L else finish T_EOL tok p L)"
    "quiet_result (if c = CHR '' '' \<or> c = TAB then keep c 2 tok p L else finish T_SEPAR tok p L)"
    using k f by (simp_all add: quiet_state_def)
  consider "st = 0" | "st = 1" | "st = 2" | "st = 6" | "st = 7" | "st = 100" using assms(2) by (auto simp: quiet_state_def)
  then show ?thesis by cases (simp_all add: lex_step_def lex_normal_def m 0 1 [simplified] s 100 f)
qed

definition quiet_text :: "lexer \<Rightarrow> bool" where
  "quiet_text L \<longleftrightarrow> (\<forall>i. lexbuf_pos L \<le> i \<and> i < lexbuf_size L \<longrightarrow> quiet (lexbuf L ! i))"

lemma quiet_loop:
  assumes "lex_inv L0 n tok p st L" and "quiet_text L0" and "quiet_state st" and "commented L"
    and "lex_loop k n tok p st L = Ret (t, tok1, L1)"
  shows "t \<notin> {T_ERROR, T_C_STOP} \<and> commented L1"
  using assms(1,3-5)
proof (induction k arbitrary: tok p st L)
  case 0
  then show ?case by simp
next
  case (Suc k)
  show ?case
  proof (cases "lexbuf_pos L < lexbuf_size L")
    case True
    note f = inv_facts [OF Suc.prems(1) True]
    have i: "lexbuf_pos L < length (lexbuf L)" using f(4) True by (simp add: lex_ok_def)
    have oc: "occurs (lexbuf L ! lexbuf_pos L) L0" using f(3) True i by (rule occurs_at)
    have s: "step_ok L0 n (lexbuf_pos L) (lex_step (lexbuf L ! lexbuf_pos L) tok p st L)"
      by (rule step_lex_ok [OF Suc.prems(1) True oc])
    have q: "quiet_result (lex_step (lexbuf L ! lexbuf_pos L) tok p st L)"
    proof (rule quiet_step [OF _ Suc.prems(2,3)])
      show "quiet (lexbuf L ! lexbuf_pos L)"
        using assms(2) Suc.prems(1) True by (simp add: quiet_text_def lex_inv_def same_text_def)
    qed
    obtain r where r: "lex_step (lexbuf L ! lexbuf_pos L) tok p st L = Ret r" using s by (auto simp: step_ok_def split: outcome.splits)
    show ?thesis
    proof (cases r)
      case (More tok2 p2 st2 L2)
      then show ?thesis using Suc.IH [of tok2 p2 st2 L2] Suc.prems(4) s q r True f(1) i by (simp add: step_ok_def quiet_result_def)
    next
      case (Done t2 tok2 L2)
      then show ?thesis using Suc.prems(4) q r True f(1) i by (simp add: quiet_result_def)
    qed
  next
    case False
    then have p: "p < n" "length tok = n" using Suc.prems(1) by (auto simp: lex_inv_def lex_ok_def same_text_def)
    then have "t = end_token st" "L1 = L" using Suc.prems(4) False by (simp_all add: lex_end_def)
    then show ?thesis using Suc.prems(2,3) by (auto simp: end_token_def quiet_state_def)
  qed
qed

text \<open>The parser reads the end of the buffer again and again.\<close>

lemma comment_spins:
  assumes "loop_inv ps L" and "ps_state ps = STATE_COMMENT" and "\<not> ps_bypass ps" and "commented L" and "quiet_text L"
  shows "node_loop k mode root depth ps L = Spin"
  using assms
proof (induction k arbitrary: ps L)
  case 0
  then show ?case by simp
next
  case (Suc k)
  have l: "lex_ok L" "lexbuf_size L < TOKEN_SIZE" "length (ps_tok ps) = TOKEN_SIZE" using Suc.prems(1) by (simp_all add: loop_inv_def token_ok_def)
  obtain t tok1 L1 where t: "lexer_get_token (ps_tok ps) TOKEN_SIZE L = Ret (t, tok1, L1)" and post: "lex_post L TOKEN_SIZE t tok1 L1"
    using lexer_ok [OF l] by blast
  have "lex_inv L TOKEN_SIZE (ps_tok ps) 0 0 L" using l by (simp add: lex_inv_def same_text_def)
  then have q: "t \<notin> {T_ERROR, T_C_STOP}" "commented L1"
    using quiet_loop [of L TOKEN_SIZE "ps_tok ps" 0 0 L "Suc (lexbuf_size L - lexbuf_pos L)" t tok1 L1] Suc.prems(4,5) t
    by (auto simp: lexer_get_token_def quiet_state_def)
  define ps1 where "ps1 = ps\<lparr>ps_res := t, ps_tok := tok1, ps_bypass := False, ps_state := STATE_COMMENT\<rparr>"
  have "node_loop (Suc k) mode root depth ps L = node_loop k mode root depth ps1 L1"
    using t q(1) Suc.prems(2,3) by (simp add: next_token_def node_steps ps1_def)
  also have "\<dots> = Spin"
  proof (rule Suc.IH)
    show "loop_inv ps1 L1" using post l by (auto simp: loop_inv_def lex_post_def token_ok_def ps1_def same_text_def)
    have "lexbuf_pos L \<le> lexbuf_pos L1" "same_text L L1"
      using post q Suc.prems(4) l(1) by (auto simp: lex_post_def lex_left_def commented_def same_text_def lex_ok_def)
    then show "quiet_text L1" using Suc.prems(5) by (simp add: quiet_text_def same_text_def)
  qed (use Suc.prems q in \<open>simp_all add: ps1_def\<close>)
  finally show ?case .
qed

text \<open>
  A comment without an end is never left: at the end of the buffer the lexer returns \<open>T_EOF\<close> again
  and again, which the parser skips as a part of the comment. No fuel is enough.
\<close>

theorem xml_comment_hangs:
  assumes "length s + 4 < TOKEN_SIZE" and "list_all quiet s"
  shows "xml_parser_build_tree k mode (lexer_init (''<!--'' @ s @ NUL # z) (length s + 4)) = Spin"
proof (cases k)
  case 0
  then show ?thesis by (simp add: xml_parser_build_tree_def xml_parser_get_node_def MAX_RECURSION_def)
next
  case (Suc j)
  let ?L = "lexer_init (''<!--'' @ s @ NUL # z) (length s + 4)"
  let ?L1 = "(advance 4 ?L)\<lparr>in_comment := True\<rparr>"
  let ?tok = "replicate TOKEN_SIZE NUL"
  have T: "8 < TOKEN_SIZE" by (rule TOKEN_SIZE_gt)
  have size: "lexbuf_size ?L - lexbuf_pos ?L = Suc (Suc (Suc (Suc (length s))))" by (simp add: lexer_init_def)
  have "lexer_get_token ?tok TOKEN_SIZE ?L = lex_loop (Suc (Suc (Suc (Suc (Suc (length s)))))) TOKEN_SIZE ?tok 0 0 ?L"
    unfolding lexer_get_token_def size ..
  also have "\<dots> = Ret (T_C_START, ?tok[0 := CHR ''<'', 1 := CHR ''!'', 2 := CHR ''-'', 3 := CHR ''-'', 4 := NUL], ?L1)"
    using T by (simp add: lexer_init_def lex_step_def lex_normal_def lex_start_def lex_m_start_def lex_bang_def keep_def finish_def chars
      advance_def numeral_2_eq_2 numeral_3_eq_3 eval_nat_numeral)
  finally obtain tok1 where t: "lexer_get_token ?tok TOKEN_SIZE ?L = Ret (T_C_START, tok1, ?L1)" and len: "length tok1 = TOKEN_SIZE"
    by simp
  have ps0: "ps_tok parse_start = ?tok" by (simp add: parse_start_def)
  define ps1 where "ps1 = parse_start\<lparr>ps_res := T_C_START, ps_tok := tok1, ps_bypass := False, ps_state := STATE_COMMENT\<rparr>"
  have "node_loop (Suc j) mode [] 0 parse_start ?L = node_loop j mode [] 0 ps1 ?L1"
    using t ps0 by (simp add: next_token_def node_steps step_idle_def ps1_def)
  also have "\<dots> = Spin"
  proof (rule comment_spins)
    show "loop_inv ps1 ?L1" using assms(1) len by (simp add: loop_inv_def lex_ok_def lexer_init_def nth_append token_ok_def ps1_def)
    have "quiet (lexbuf ?L1 ! i)" if i: "4 \<le> i" "i < length s + 4" for i
    proof -
      obtain j where j: "i = 4 + j" using i(1) by (auto simp: le_iff_add)
      then have "lexbuf ?L1 ! i = s ! j" using i(2) by (simp add: lexer_init_def nth_append eval_nat_numeral)
      then show ?thesis using assms(2) i(2) j by (simp add: list_all_length)
    qed
    then show "quiet_text ?L1" by (simp add: quiet_text_def lexer_init_def)
  qed (simp_all add: ps1_def commented_def lexer_init_def)
  finally show ?thesis using Suc by (simp add: xml_parser_build_tree_def xml_parser_get_node_def MAX_RECURSION_def)
qed

section \<open>A token too long\<close>

lemma overflow_end:
  assumes "lex_wf L" and "rest L = ''?>''" and "lex_mode L = NORMAL" and "length t = n" and "n = Suc (Suc p)"
  shows "lex_loop 3 n t p 100 L = Fault"
proof -
  note a = rest_Cons [OF assms(1,2)]
  note b = rest_Cons [OF a(4,3)]
  have "lex_loop 3 n t p 100 L = lex_loop 2 n (put t p ''?'') (p + 1) 9 (advance 1 L)"
    using lex_more [OF assms(1,2), of p n t 100 9 2] assms
    by (simp add: lex_step_def lex_normal_def lex_ident_def ident_stop_def chars numeral_3_eq_3 numeral_2_eq_2)
  also have "\<dots> = Fault"
    using b assms by (simp add: lex_step_def lex_normal_def lex_ti_stop_def keep_finish_def finish_def numeral_2_eq_2)
  finally show ?thesis .
qed

text \<open>
  A name that leaves room for two more characters in the token, with a question mark and a \<open>>\<close>
  behind it, writes the NUL outside the token: the last character of a two-character end is
  stored without a look at the room that is left.
\<close>

theorem xml_token_overflow:
  assumes "good_ident s" and "length s = TOKEN_SIZE - 2"
  shows "xml_parser_build_tree (Suc k) mode (lexer_init (s @ ''?>'' @ z) (length s + 2)) = Fault"
proof -
  let ?L = "lexer_init (s @ ''?>'' @ z) (length s + 2)"
  let ?tok = "replicate TOKEN_SIZE NUL"
  obtain c cs where s: "s = c # cs" using assms(1) by (cases s) (auto simp: good_ident_def)
  have T: "8 < TOKEN_SIZE" by (rule TOKEN_SIZE_gt)
  have wf: "lex_wf ?L" and r: "rest ?L = c # cs @ ''?>''" by (simp_all add: lex_wf_def rest_def lexer_init_def s)
  note a = rest_Cons [OF wf r]
  let ?M = "advance (length cs) (advance 1 ?L)"
  have b: "rest ?M = CHR ''?'' # ''>''" "lex_wf ?M" using rest_append [OF a(4,3)] by simp_all
  have m: "lex_mode ?M = NORMAL" "lex_mode ?L = NORMAL" "\<not> in_comment ?L" by (simp_all add: lexer_init_def)
  have run: "lex_step x t p 100 L = keep x 100 t p L" if "x \<in> set cs" "lex_mode L = NORMAL" for x t p L
    using assms(1) that s by (auto simp: good_ident_def list_all_iff ident_char_def lex_step_def lex_normal_def lex_ident_def)
  have start: "lex_step c ?tok 0 0 ?L = keep c 100 ?tok 0 ?L"
    using assms(1) s m by (auto simp: good_ident_def ident_char_def ident_stop_def lex_step_def lex_normal_def lex_start_def)
  have n: "Suc (length cs) = TOKEN_SIZE - 2" using assms(2) s by simp
  have size: "lexbuf_size ?L - lexbuf_pos ?L = Suc (length cs + 2)" by (simp add: lexer_init_def s)
  have "lexer_get_token ?tok TOKEN_SIZE ?L = lex_loop (Suc (length cs + 3)) TOKEN_SIZE ?tok 0 0 ?L"
    unfolding lexer_get_token_def size by (simp add: numeral_3_eq_3)
  also have "\<dots> = lex_loop (length cs + 3) TOKEN_SIZE (put ?tok 0 [c]) 1 100 (advance 1 ?L)"
    using T by (subst lex_more [OF wf r _ _ start]) simp_all
  also have "\<dots> = lex_loop 3 TOKEN_SIZE (put (put ?tok 0 [c]) 1 cs) (1 + length cs) 100 ?M"
    using T n m by (intro lex_run [OF a(4,3), where m = NORMAL]) (simp_all add: run)
  also have "\<dots> = Fault"
    using T n m by (intro overflow_end [OF b(2,1)]) simp_all
  finally have f: "lexer_get_token ?tok TOKEN_SIZE ?L = Fault" .
  have "next_token parse_start ?L = Fault" using f by (simp add: next_token_def parse_start_def)
  then show ?thesis by (simp add: xml_parser_build_tree_def xml_parser_get_node_def MAX_RECURSION_def)
qed

theorem xml_comment_hangs_witness:
  "xml_parser_build_tree 1000 XML_PARSER_CASE_SENSITIVE (lexer_init (''<!--'' @ ''no end'' @ NUL # []) (length ''no end'' + 4)) = Spin"
  using xml_comment_hangs [of "''no end''" 1000 XML_PARSER_CASE_SENSITIVE "[]"] by (simp add: TOKEN_SIZE_def quiet_def)

theorem xml_token_overflow_witness:
  "xml_parser_build_tree 1 XML_PARSER_CASE_SENSITIVE
     (lexer_init (replicate 4094 (CHR ''a'') @ ''?>'' @ ''</a>'') (length (replicate 4094 (CHR ''a'')) + 2)) = Fault"
proof -
  have "list_all ident_char (replicate 4094 (CHR ''a''))"
    by (simp add: list_all_length ident_char_def ident_stop_def chars)
  then have "good_ident (replicate 4094 (CHR ''a''))"
    by (simp add: good_ident_def TOKEN_SIZE_def chars hd_replicate)
  then show ?thesis
    using xml_token_overflow [of "replicate 4094 (CHR ''a'')" 0 XML_PARSER_CASE_SENSITIVE "''</a>''"] by (simp add: TOKEN_SIZE_def)
qed

end
