(* ===== verification/Vo_Frames.thy ===== *)
theory Vo_Frames
  imports Metronom Buf_Fifo
begin

unbundle bit_operations_syntax

text \<open>
  The frames of the video output, src/src/xine-engine/video_out.c: \<open>vo_frame_t\<close>
  (video_out.h) in a store, linked through \<open>next\<close>, the queues of free and of waiting
  frames, the lock counters, and the copy of a frame. The video driver is a parameter, its calls
  are a list.
\<close>

section \<open>Data\<close>

text \<open>
  Widths and heights are \<open>int\<close> as in the structure. The ratio, a
  \<open>double\<close>, is only handed on: here the numbers it is the quotient of. A picture is
  \<open>base\<close>, its three planes (each the array its pointer points to), and
  \<open>pitches\<close>.
\<close>

type_synonym plane = "u8 list option"
type_synonym picture = "(plane \<times> plane \<times> plane) \<times> (int \<times> int \<times> int)"

record vframe =
  vf_time :: vo_frame
  vf_bad_frame :: bool
  vf_picture :: picture
  vf_top_field_first :: bool
  vf_repeat_first_field :: bool
  vf_progressive_frame :: bool
  vf_macroblocks :: "nat option"
  vf_extra_info :: extra_info
  vf_width :: int
  vf_height :: int
  vf_ratio :: "int \<times> int"
  vf_format :: u32
  vf_flags :: u32
  vf_proc_called :: bool
  vf_stream :: "nat option"
  vf_next :: "nat option"
  vf_lock :: int
  vf_id :: nat
  vf_is_first :: bool
  vf_has_proc_frame :: bool
  vf_has_proc_slice :: bool

record img_buf_fifo =
  iq_first :: "nat option"
  iq_last :: "nat option"
  iq_num :: int
  iq_locked :: bool

text \<open>What video_out.c uses of a stream.\<close>

record vo_stream =
  st_metronom :: metronom
  st_decoder_info :: extra_info
  st_current_info :: extra_info
  st_first_frame_flag :: int
  st_skipped :: int
  st_discarded :: int
  st_has_still :: bool
  st_spu_channel_user :: int
  st_fifo_size :: int
  st_next_cue_time :: int
  st_has_decoder :: bool

text \<open>Calls to the driver, the overlay manager and the rest of the engine.\<close>

datatype vo_call =
    V_update_format nat | V_proc_frame nat | V_proc_slice nat "int list" | V_display nat | V_dispose_frame nat
  | V_blend int nat bool | V_flush_overlays | V_dispose_overlays | V_dispose_driver | V_set_property int int
  | V_dropped nat int int int int | V_first_frame nat | V_flush_decoder nat | V_cue_points nat int

record vos =
  vs_free :: img_buf_fifo
  vs_display :: img_buf_fifo
  vs_frame :: "nat \<rightharpoonup> vframe"
  vs_stream :: "nat \<rightharpoonup> vo_stream"
  vs_streams :: "nat xlist"
  vs_last_frame :: "nat option"
  vs_img_backup :: "nat option"
  vs_redraw_needed :: int
  vs_discard_frames :: int
  vs_loop_running :: bool
  vs_opened :: bool
  vs_delivered :: int
  vs_skipped :: int
  vs_discarded :: int
  vs_warn_skipped :: int
  vs_warn_discarded :: int
  vs_warn_exceeded :: int
  vs_warn_sent :: int
  vs_last_delivery_pts :: int
  vs_overlay_enabled :: bool
  vs_grab_only :: bool
  vs_current_width :: int
  vs_current_height :: int
  vs_current_duration :: int
  vs_drop_limit :: int
  vs_drop_cpt :: int
  vs_calls :: "vo_call list"

text \<open>
  The driver: the planes and pitches of a frame for a width, a height, a format and flags; whether
  its \<open>proc\<close> functions set \<open>proc_called\<close>; its answers, which may depend
  on the calls so far.
\<close>

record vo_driver =
  drv_format :: "u32 \<Rightarrow> u32 \<Rightarrow> u32 \<Rightarrow> u32 \<Rightarrow> picture"
  drv_proc_frame :: "vframe \<Rightarrow> bool"
  drv_proc_slice :: "vframe \<Rightarrow> bool"
  drv_redraw_needed :: "vo_call list \<Rightarrow> int"
  drv_capabilities :: u32
  drv_get_property :: "vo_call list \<Rightarrow> int \<Rightarrow> int"
  drv_set_property :: "vo_call list \<Rightarrow> int \<Rightarrow> int \<Rightarrow> int"
  drv_min_max :: "int \<Rightarrow> int \<times> int"
  drv_alloc_frame :: "nat \<Rightarrow> vframe option"

definition XINE_IMGFMT_YV12 :: u32 where
  "XINE_IMGFMT_YV12 = 0x32315659"

definition VO_BOTH_FIELDS :: u32 where
  "VO_BOTH_FIELDS = 3"

section \<open>Access\<close>

definition frame_at :: "nat \<Rightarrow> vos \<Rightarrow> vframe outcome" where
  "frame_at f s = of_opt (vs_frame s f)"

definition put_frame :: "nat \<Rightarrow> vframe \<Rightarrow> vos \<Rightarrow> vos" where
  "put_frame f v s = s\<lparr>vs_frame := (vs_frame s)(f \<mapsto> v)\<rparr>"

definition stream_at :: "nat \<Rightarrow> vos \<Rightarrow> vo_stream outcome" where
  "stream_at st s = of_opt (vs_stream s st)"

definition put_stream :: "nat \<Rightarrow> vo_stream \<Rightarrow> vos \<Rightarrow> vos" where
  "put_stream st S s = s\<lparr>vs_stream := (vs_stream s)(st \<mapsto> S)\<rparr>"

definition vo_call :: "vo_call \<Rightarrow> vos \<Rightarrow> vos" where
  "vo_call c s = s\<lparr>vs_calls := vs_calls s @ [c]\<rparr>"

section \<open>Queues\<close>

definition vo_new_img_buf_queue :: img_buf_fifo where
  "vo_new_img_buf_queue = \<lparr>iq_first = None, iq_last = None, iq_num = 0, iq_locked = False\<rparr>"

text \<open>The queue functions work on the frames and one queue. The first statement is an assertion.\<close>

type_synonym on_queue = "(nat \<rightharpoonup> vframe) \<times> img_buf_fifo"

definition vo_append_to_img_buf_queue_int :: "nat \<Rightarrow> on_queue \<Rightarrow> on_queue outcome" where
  "vo_append_to_img_buf_queue_int img x =
     (let (fr, q) = x in
      obind (of_opt (fr img)) (\<lambda>v.
      if vf_next v \<noteq> None then Fault
      else
        (case iq_first q of
           None \<Rightarrow> Ret (fr, q\<lparr>iq_first := Some img, iq_last := Some img, iq_num := 1\<rparr>)
         | Some _ \<Rightarrow>
             (case iq_last q of
                None \<Rightarrow> Ret (fr, q\<lparr>iq_num := iq_num q + 1\<rparr>)
              | Some l \<Rightarrow>
                  obind (of_opt (fr l)) (\<lambda>w.
                  Ret (fr(l \<mapsto> w\<lparr>vf_next := Some img\<rparr>), q\<lparr>iq_last := Some img, iq_num := iq_num q + 1\<rparr>))))))"

text \<open>Taking the first frame; duplicating a frame does the same without waiting.\<close>

definition queue_pop :: "nat \<Rightarrow> on_queue \<Rightarrow> on_queue outcome" where
  "queue_pop img x =
     (let (fr, q) = x in
      obind (of_opt (fr img)) (\<lambda>v.
      (let fr1 = fr(img \<mapsto> v\<lparr>vf_next := None\<rparr>) in
       if vf_next v = None then Ret (fr1, q\<lparr>iq_first := None, iq_last := None, iq_num := 0\<rparr>)
       else Ret (fr1, q\<lparr>iq_first := vf_next v, iq_num := iq_num q - 1\<rparr>))))"

definition vo_remove_from_img_buf_queue_int :: "on_queue \<Rightarrow> (nat \<times> on_queue) outcome" where
  "vo_remove_from_img_buf_queue_int x =
     (let (fr, q) = x in
      case iq_first q of
        None \<Rightarrow> Wait
      | Some img \<Rightarrow> if iq_locked q then Wait else obind (queue_pop img x) (\<lambda>x1. Ret (img, x1)))"

definition append_free :: "nat \<Rightarrow> vos \<Rightarrow> vos outcome" where
  "append_free img s =
     obind (vo_append_to_img_buf_queue_int img (vs_frame s, vs_free s)) (\<lambda>(fr, q). Ret (s\<lparr>vs_frame := fr, vs_free := q\<rparr>))"

definition append_display :: "nat \<Rightarrow> vos \<Rightarrow> vos outcome" where
  "append_display img s =
     obind (vo_append_to_img_buf_queue_int img (vs_frame s, vs_display s)) (\<lambda>(fr, q). Ret (s\<lparr>vs_frame := fr, vs_display := q\<rparr>))"

definition remove_free :: "vos \<Rightarrow> (nat \<times> vos) outcome" where
  "remove_free s =
     obind (vo_remove_from_img_buf_queue_int (vs_frame s, vs_free s)) (\<lambda>(img, fr, q).
     Ret (img, s\<lparr>vs_frame := fr, vs_free := q\<rparr>))"

definition remove_display :: "vos \<Rightarrow> (nat \<times> vos) outcome" where
  "remove_display s =
     obind (vo_remove_from_img_buf_queue_int (vs_frame s, vs_display s)) (\<lambda>(img, fr, q).
     Ret (img, s\<lparr>vs_frame := fr, vs_display := q\<rparr>))"

section \<open>Lock counters\<close>

definition vo_frame_inc_lock :: "nat \<Rightarrow> vos \<Rightarrow> vos outcome" where
  "vo_frame_inc_lock img s =
     obind (frame_at img s) (\<lambda>v. Ret (put_frame img (v\<lparr>vf_lock := vf_lock v + 1\<rparr>) s))"

definition vo_frame_dec_lock :: "nat \<Rightarrow> vos \<Rightarrow> vos outcome" where
  "vo_frame_dec_lock img s =
     obind (frame_at img s) (\<lambda>v.
     (let s1 = put_frame img (v\<lparr>vf_lock := vf_lock v - 1\<rparr>) s in
      if vf_lock v - 1 = 0 then append_free img s1 else Ret s1))"

section \<open>The driver's part of a frame\<close>

text \<open>
  \<open>while ((height -= 16) > -16) { proc_slice (img, src); src[i] += ... }\<close>: the
  offsets of the slices.
\<close>

function slice_offsets :: "int \<Rightarrow> int list \<Rightarrow> int list \<Rightarrow> int list list" where
  "slice_offsets height src step =
     (if height - 16 > - 16 then src # slice_offsets (height - 16) (map2 (+) src step) step else [])"
  by pat_completeness auto
termination by (relation "measure (\<lambda>(h, _, _). nat h)") auto

declare slice_offsets.simps [simp del]

definition frame_slices :: "vframe \<Rightarrow> int list list" where
  "frame_slices v =
     (let (p0, p1, p2) = snd (vf_picture v) in
      if vf_format v = XINE_IMGFMT_YV12 then slice_offsets (vf_height v) [0, 0, 0] [16 * p0, 8 * p1, 8 * p2]
      else slice_offsets (vf_height v) [0] [16 * p0])"

definition vo_frame_driver_proc :: "vo_driver \<Rightarrow> nat \<Rightarrow> vos \<Rightarrow> vos outcome" where
  "vo_frame_driver_proc drv img s =
     obind (frame_at img s) (\<lambda>v.
     (let s1 = (if vf_has_proc_frame v
                then vo_call (V_proc_frame img) (put_frame img (v\<lparr>vf_proc_called := drv_proc_frame drv v\<rparr>) s) else s) in
      obind (frame_at img s1) (\<lambda>v1.
      if vf_proc_called v1 then Ret s1
      else if vf_has_proc_slice v1 then
        Ret (put_frame img (v1\<lparr>vf_proc_called := frame_slices v1 \<noteq> [] \<and> drv_proc_slice drv v1\<rparr>)
               (s1\<lparr>vs_calls := vs_calls s1 @ map (V_proc_slice img) (frame_slices v1)\<rparr>))
      else Ret s1)))"

definition update_frame_format :: "vo_driver \<Rightarrow> nat \<Rightarrow> vframe \<Rightarrow> vos \<Rightarrow> vos" where
  "update_frame_format drv img v s =
     vo_call (V_update_format img) (put_frame img
       (v\<lparr>vf_picture := drv_format drv (word_of_int (vf_width v)) (word_of_int (vf_height v)) (vf_format v) (vf_flags v)\<rparr>) s)"

definition vo_get_frame ::
  "vo_driver \<Rightarrow> u32 \<Rightarrow> u32 \<Rightarrow> int \<times> int \<Rightarrow> u32 \<Rightarrow> u32 \<Rightarrow> vos \<Rightarrow> (nat \<times> vos) outcome" where
  "vo_get_frame drv width height ratio format flags s =
     obind (remove_free s) (\<lambda>(img, s1).
     obind (frame_at img s1) (\<lambda>v.
     Ret (img, update_frame_format drv img
       (v\<lparr>vf_lock := 1, vf_width := sint width, vf_height := sint height,
          vf_ratio := (if fst ratio * snd ratio \<le> 0 then (uint width, uint height) else ratio),
          vf_format := format, vf_flags := flags, vf_proc_called := False, vf_bad_frame := False,
          vf_progressive_frame := False, vf_repeat_first_field := False, vf_top_field_first := True,
          vf_macroblocks := None, vf_extra_info := extra_info_reset\<rparr>) s1)))"

section \<open>Copies\<close>

text \<open>\<open>if (img->base[i]) xine_fast_memcpy (dupl->base[i], img->base[i], n)\<close>\<close>

definition copy_plane :: "int \<Rightarrow> plane \<Rightarrow> plane \<Rightarrow> plane outcome" where
  "copy_plane n src dst =
     (case src of
        None \<Rightarrow> Ret dst
      | Some p \<Rightarrow>
          obind (of_opt dst) (\<lambda>d.
          if 0 \<le> n \<and> nat n \<le> length p \<and> nat n \<le> length d then Ret (Some (take (nat n) p @ drop (nat n) d)) else Fault))"

definition copy_picture :: "vframe \<Rightarrow> vframe \<Rightarrow> picture outcome" where
  "copy_picture img dupl =
     (let half = s32 (vf_height img + 1) sdiv 2;
          ((b0, b1, b2), (p0, p1, p2)) = vf_picture img;
          ((d0, d1, d2), pitches) = vf_picture dupl in
      obind (copy_plane (s32 (p0 * vf_height img)) b0 d0) (\<lambda>e0.
      if vf_format img = XINE_IMGFMT_YV12 then
        obind (copy_plane (s32 (p1 * half)) b1 d1) (\<lambda>e1.
        obind (copy_plane (s32 (p2 * half)) b2 d2) (\<lambda>e2.
        Ret ((e0, e1, e2), pitches)))
      else Ret ((e0, d1, d2), pitches)))"

text \<open>The time of the copy: no stamps, the duration of the original.\<close>

definition duplicate_frame :: "vo_driver \<Rightarrow> nat \<Rightarrow> vos \<Rightarrow> (nat option \<times> vos) outcome" where
  "duplicate_frame drv img s =
     (case iq_first (vs_free s) of
        None \<Rightarrow> Ret (None, s)
      | Some dupl \<Rightarrow>
          obind (queue_pop dupl (vs_frame s, vs_free s)) (\<lambda>(fr, q).
          (let s1 = s\<lparr>vs_frame := fr, vs_free := q\<rparr> in
           obind (frame_at dupl s1) (\<lambda>d.
           obind (frame_at img s1) (\<lambda>v.
           (let s2 = update_frame_format drv dupl
                  (d\<lparr>vf_lock := 1, vf_width := vf_width v, vf_height := vf_height v, vf_ratio := vf_ratio v,
                     vf_format := vf_format v, vf_flags := vf_flags v OR VO_BOTH_FIELDS\<rparr>) s1 in
            obind (frame_at dupl s2) (\<lambda>d2.
            obind (frame_at img s2) (\<lambda>v2.
            obind (copy_picture v2 d2) (\<lambda>pic.
            Ret (Some dupl, put_frame dupl
              (d2\<lparr>vf_picture := pic, vf_bad_frame := False, vf_time := \<lparr>fr_pts = 0, fr_duration = fr_duration (vf_time v2), fr_vpts = 0\<rparr>,
                  vf_proc_called := False, vf_stream := vf_stream v2, vf_extra_info := vf_extra_info v2\<rparr>) s2))))))))))"

end
