(* ===== verification/Video_Out.thy ===== *)
theory Video_Out
  imports Vo_Frames Scr_Clock
begin

text \<open>
  The video output, src/src/xine-engine/video_out.c: what decoders, the output loop and frontends
  call. Every function between two locks is a function of the state. A reading of the clock is an
  argument. \<open>k\<close> is the fuel of the loops over the streams and the frames.
\<close>

definition NUM_FRAME_BUFFERS :: nat where
  "NUM_FRAME_BUFFERS = 15"

text \<open>A loop over the streams, with the lock on their list.\<close>

definition for_streams :: "nat \<Rightarrow> (nat \<Rightarrow> vos \<Rightarrow> vos outcome) \<Rightarrow> vos \<Rightarrow> vos outcome" where
  "for_streams k body s =
     obind (visit_all xine_list_first_content xine_list_next_content body k (vs_streams s) s) (\<lambda>(s1, l).
     Ret (s1\<lparr>vs_streams := l\<rparr>))"

section \<open>A frame of the decoder\<close>

text \<open>\<open>frame_drop_limit\<close> rises from -2 to 3 with the first ten frames after a seek.\<close>

definition drop_limit :: "vo_stream \<Rightarrow> vos \<Rightarrow> vos" where
  "drop_limit S s =
     (let s1 = (if st_first_frame_flag S = 2 then s\<lparr>vs_drop_cpt := 10\<rparr> else s) in
      if vs_drop_cpt s1 \<noteq> 0 then s1\<lparr>vs_drop_limit := 3 - vs_drop_cpt s1 sdiv 2, vs_drop_cpt := vs_drop_cpt s1 - 1\<rparr>
      else s1)"

definition frames_to_skip :: "int \<Rightarrow> int \<Rightarrow> int \<Rightarrow> int outcome" where
  "frames_to_skip diff duration limit =
     obind (cdiv (- 1 * diff) duration) (\<lambda>d.
     (let n = s32 ((d + limit) * 2) in Ret (if n < 0 then 0 else n)))"

definition delivery :: "nat \<Rightarrow> nat \<Rightarrow> int \<Rightarrow> vos \<Rightarrow> (int \<times> vos) outcome" where
  "delivery img st cur_vpts s =
     obind (frame_at img s) (\<lambda>v.
     obind (stream_at st s) (\<lambda>S.
     (let t = vf_time v;
          s1 = put_frame img (v\<lparr>vf_extra_info := (vf_extra_info v)\<lparr>ei_vpts := fr_vpts t\<rparr>,
                 vf_time := (if fr_duration t \<le> 0 then t\<lparr>fr_duration := 3000\<rparr> else t)\<rparr>) s;
          s2 = drop_limit S (s1\<lparr>vs_last_delivery_pts := cur_vpts, vs_delivered := vs_delivered s1 + 1\<rparr>) in
      obind (frames_to_skip (fr_vpts t - cur_vpts) (if fr_duration t \<le> 0 then 3000 else fr_duration t) (vs_drop_limit s2)) (\<lambda>n.
      Ret (n, s2)))))"

text \<open>The first frame after a seek is marked; without an output loop the flag is cleared.\<close>

definition mark_first :: "nat \<Rightarrow> nat \<Rightarrow> vos \<Rightarrow> vos outcome" where
  "mark_first img st s =
     obind (stream_at st s) (\<lambda>S.
     if st_first_frame_flag S = 2 then
       obind (frame_at img s) (\<lambda>v.
       Ret (put_frame img (v\<lparr>vf_is_first := True\<rparr>)
              (put_stream st (S\<lparr>st_first_frame_flag := (if vs_grab_only s then 0 else 1)\<rparr>) s)))
     else Ret s)"

definition queue_frame :: "nat \<Rightarrow> vo_driver \<Rightarrow> nat \<Rightarrow> int \<Rightarrow> vos \<Rightarrow> vos outcome" where
  "queue_frame k drv img skip s =
     obind (frame_at img s) (\<lambda>v.
     obind (if skip = 0 \<and> \<not> vf_proc_called v then vo_frame_driver_proc drv img s else Ret s) (\<lambda>s1.
     obind (frame_at img s1) (\<lambda>v1.
     obind (for_streams k (mark_first img) (put_frame img (v1\<lparr>vf_is_first := False\<rparr>) s1)) (\<lambda>s2.
     obind (vo_frame_inc_lock img s2) (append_display img)))))"

definition skip_bad_frame :: "nat \<Rightarrow> nat \<Rightarrow> vos \<Rightarrow> vos outcome" where
  "skip_bad_frame img st s =
     obind (frame_at img s) (\<lambda>v.
     obind (stream_at st s) (\<lambda>S.
     Ret ((put_stream st (S\<lparr>st_current_info := extra_info_merge (st_current_info S) (vf_extra_info v)\<rparr>) s)
            \<lparr>vs_skipped := vs_skipped s + 1\<rparr>)))"

text \<open>
  Every 200 frames: the rates of lost frames, told to the streams, with an event when they stay
  too high.
\<close>

definition tell_stream :: "bool \<Rightarrow> nat \<Rightarrow> vos \<Rightarrow> vos outcome" where
  "tell_stream send_event st s =
     obind (stream_at st s) (\<lambda>S.
     obind (cdiv (1000 * vs_skipped s) (vs_delivered s)) (\<lambda>sk.
     obind (cdiv (1000 * vs_discarded s) (vs_delivered s)) (\<lambda>di.
     (let s1 = put_stream st (S\<lparr>st_skipped := sk, st_discarded := di\<rparr>) s in
      Ret (if send_event then vo_call (V_dropped st sk (vs_warn_skipped s * 10) di (vs_warn_discarded s * 10)) s1 else s1)))))"

definition measure_drops :: "nat \<Rightarrow> vos \<Rightarrow> vos outcome" where
  "measure_drops k s =
     (if vs_delivered s smod 200 = 0 \<and> vs_delivered s \<noteq> 0 then
        obind (cdiv (100 * vs_skipped s) (vs_delivered s)) (\<lambda>sk.
        obind (cdiv (100 * vs_discarded s) (vs_delivered s)) (\<lambda>di.
        (let exceeded = (if sk > vs_warn_skipped s \<or> di > vs_warn_discarded s then vs_warn_exceeded s + 1 else 0);
             send_event = (exceeded = 5 \<and> vs_warn_sent s = 0);
             s1 = s\<lparr>vs_warn_exceeded := exceeded, vs_warn_sent := vs_warn_sent s + (if send_event then 1 else 0)\<rparr> in
         obind (for_streams k (tell_stream send_event) s1) (\<lambda>s2.
         Ret (s2\<lparr>vs_delivered := 0, vs_discarded := 0, vs_skipped := 0\<rparr>)))))
      else Ret s)"

text \<open>The metronom gives the frame its time. What comes back is the number of frames to skip.\<close>

definition draw_time :: "nat \<Rightarrow> nat \<Rightarrow> vos \<Rightarrow> vos outcome" where
  "draw_time img st s =
     obind (frame_at img s) (\<lambda>v.
     obind (stream_at st s) (\<lambda>S.
     obind (metronom_got_video_frame (vf_time v) (st_metronom S)) (\<lambda>(m, t).
     Ret ((put_stream st (S\<lparr>st_metronom := m\<rparr>)
             (put_frame img (v\<lparr>vf_stream := Some st, vf_extra_info := extra_info_merge (vf_extra_info v) (st_decoder_info S),
                vf_time := t\<rparr>) s))
          \<lparr>vs_current_width := vf_width v, vs_current_height := vf_height v, vs_current_duration := fr_duration t\<rparr>))))"

definition vo_frame_draw :: "nat \<Rightarrow> vo_driver \<Rightarrow> int \<Rightarrow> nat \<Rightarrow> nat \<Rightarrow> vos \<Rightarrow> (int \<times> vos) outcome" where
  "vo_frame_draw k drv cur_vpts img st s =
     obind (draw_time img st s) (\<lambda>s1.
     if vs_grab_only s1 \<and> vs_discard_frames s1 \<noteq> 0 then Ret (0, s1)
     else
       obind (if vs_grab_only s1 then Ret (0, s1) else delivery img st cur_vpts s1) (\<lambda>(skip, s2).
       obind (frame_at img s2) (\<lambda>v.
       obind (if \<not> vf_bad_frame v then queue_frame k drv img skip s2 else skip_bad_frame img st s2) (\<lambda>s3.
       obind (measure_drops k s3) (\<lambda>s4.
       Ret (skip, s4))))))"

section \<open>The output loop\<close>

text \<open>A frame that is too old, or flushed: the last one is kept as a backup for a still picture.\<close>

definition drop_frame :: "nat \<Rightarrow> vos \<Rightarrow> vos outcome" where
  "drop_frame img s =
     (if vs_discard_frames s \<noteq> 0 then
        (if vs_img_backup s = None then Ret (s\<lparr>vs_img_backup := Some img\<rparr>) else vo_frame_dec_lock img s)
      else if iq_first (vs_display s) = None then
        obind (case vs_img_backup s of None \<Rightarrow> Ret s | Some b \<Rightarrow> vo_frame_dec_lock b s) (\<lambda>s1.
        Ret (s1\<lparr>vs_img_backup := Some img, vs_redraw_needed := 4\<rparr>))
      else vo_frame_dec_lock img s)"

definition tell_position :: "nat \<Rightarrow> vos \<Rightarrow> vos outcome" where
  "tell_position img s =
     obind (frame_at img s) (\<lambda>v.
     obind (of_opt (vf_stream v)) (\<lambda>st.
     obind (stream_at st s) (\<lambda>S.
     Ret (put_stream st (S\<lparr>st_current_info := extra_info_merge (st_current_info S) (vf_extra_info v)\<rparr>) s))))"

definition expire_one :: "vos \<Rightarrow> vos outcome" where
  "expire_one s =
     (let s1 = (if vs_discard_frames s = 0 then s\<lparr>vs_discarded := vs_discarded s + 1\<rparr> else s) in
      obind (remove_display s1) (\<lambda>(img, s2).
      obind (tell_position img s2) (drop_frame img)))"

fun expire_loop :: "nat \<Rightarrow> int \<Rightarrow> int \<Rightarrow> nat option \<Rightarrow> vos \<Rightarrow> vos outcome" where
  "expire_loop 0 cur_vpts diff img s = Spin"
| "expire_loop (Suc k) cur_vpts diff img s =
     (case img of
        None \<Rightarrow> Ret s
      | Some f \<Rightarrow>
          obind (frame_at f s) (\<lambda>v.
          if \<not> (diff > fr_duration (vf_time v) \<or> vs_discard_frames s \<noteq> 0) then Ret s
          else if vf_is_first v then
            Ret (if vf_lock v = 1 then put_frame f (v\<lparr>vf_time := (vf_time v)\<lparr>fr_vpts := cur_vpts\<rparr>\<rparr>) s else s)
          else
            (let diff1 = cur_vpts - fr_vpts (vf_time v) in
             if diff1 > fr_duration (vf_time v) \<or> vs_discard_frames s \<noteq> 0 then
               obind (expire_one s) (\<lambda>s1. expire_loop k cur_vpts diff1 (iq_first (vs_display s1)) s1)
             else expire_loop k cur_vpts diff1 img s)))"

definition expire_frames :: "nat \<Rightarrow> int \<Rightarrow> vos \<Rightarrow> vos outcome" where
  "expire_frames k cur_vpts s = expire_loop k cur_vpts 1000000 (iq_first (vs_display s)) s"

definition still_frame :: "vo_driver \<Rightarrow> int \<Rightarrow> nat \<Rightarrow> vos \<Rightarrow> (nat option \<times> vos) outcome" where
  "still_frame drv cur_vpts backup s =
     obind (duplicate_frame drv backup s) (\<lambda>(img, s1).
     case img of
       None \<Rightarrow> Ret (None, s1)
     | Some f \<Rightarrow>
         obind (frame_at f s1) (\<lambda>v.
         Ret (Some f, put_frame f (v\<lparr>vf_time := (vf_time v)\<lparr>fr_vpts := cur_vpts\<rparr>, vf_extra_info := extra_info_reset\<rparr>) s1)))"

text \<open>The last frame of the queue is copied as a backup when a still picture may follow.\<close>

definition backup_last :: "vo_driver \<Rightarrow> nat \<Rightarrow> vos \<Rightarrow> vos outcome" where
  "backup_last drv img s =
     obind (frame_at img s) (\<lambda>v.
     if vf_next v \<noteq> None then Ret s
     else
       obind (of_opt (vf_stream v)) (\<lambda>st.
       obind (stream_at st s) (\<lambda>S.
       if st_has_still S \<or> st_fifo_size S < 10
       then obind (duplicate_frame drv img s) (\<lambda>(b, s1). Ret (s1\<lparr>vs_img_backup := b\<rparr>)) else Ret s)))"

definition free_backup :: "vos \<Rightarrow> vos outcome" where
  "free_backup s =
     (case vs_img_backup s of
        None \<Rightarrow> Ret s
      | Some b \<Rightarrow> obind (vo_frame_dec_lock b s) (\<lambda>s1. Ret (s1\<lparr>vs_img_backup := None\<rparr>)))"

definition get_next_frame :: "vo_driver \<Rightarrow> int \<Rightarrow> vos \<Rightarrow> (nat option \<times> vos) outcome" where
  "get_next_frame drv cur_vpts s =
     (case iq_first (vs_display s) of
        None \<Rightarrow>
          (case vs_img_backup s of
             Some b \<Rightarrow> if vs_redraw_needed s = 1 then still_frame drv cur_vpts b s
                      else Ret (None, if vs_redraw_needed s \<noteq> 0 then s\<lparr>vs_redraw_needed := vs_redraw_needed s - 1\<rparr> else s)
           | None \<Rightarrow> Ret (None, if vs_redraw_needed s \<noteq> 0 then s\<lparr>vs_redraw_needed := vs_redraw_needed s - 1\<rparr> else s))
      | Some f \<Rightarrow>
          obind (frame_at f s) (\<lambda>v.
          if cur_vpts - fr_vpts (vf_time v) < 0 then Ret (None, s)
          else
            obind (free_backup s) (\<lambda>s1.
            obind (backup_last drv f s1) (\<lambda>s2.
            obind (remove_display s2) (\<lambda>(img, s3). Ret (Some img, s3))))))"

text \<open>\<open>ovl\<close> is the answer of the overlay manager's \<open>redraw_needed\<close>.\<close>

definition release_last :: "vos \<Rightarrow> vos outcome" where
  "release_last s =
     (case vs_last_frame s of None \<Rightarrow> Ret s | Some l \<Rightarrow> vo_frame_dec_lock l s)"

definition wake_play :: "nat \<Rightarrow> vos \<Rightarrow> vos outcome" where
  "wake_play st s =
     obind (stream_at st s) (\<lambda>S.
     if st_first_frame_flag S \<noteq> 0
     then Ret (vo_call (V_first_frame st) (put_stream st (S\<lparr>st_first_frame_flag := 0\<rparr>) s)) else Ret s)"

definition shown_position :: "nat \<Rightarrow> vos \<Rightarrow> vos outcome" where
  "shown_position img s =
     obind (frame_at img s) (\<lambda>v.
     obind (of_opt (vf_stream v)) (\<lambda>st.
     obind (stream_at st s) (\<lambda>S.
     (let diff = ei_vpts (vf_extra_info v) - ei_vpts (st_current_info S) in
      Ret (if diff > 3000 \<or> diff < - 300000
           then put_stream st (S\<lparr>st_current_info := extra_info_merge (st_current_info S) (vf_extra_info v)\<rparr>) s else s)))))"

definition overlay_and_display_frame :: "nat \<Rightarrow> vo_driver \<Rightarrow> nat \<Rightarrow> int \<Rightarrow> vos \<Rightarrow> vos outcome" where
  "overlay_and_display_frame k drv img vpts s =
     obind (frame_at img s) (\<lambda>v.
     obind (if \<not> vf_proc_called v then vo_frame_driver_proc drv img s else Ret s) (\<lambda>s1.
     obind (shown_position img s1) (\<lambda>s2.
     obind (release_last (vo_call (V_blend vpts img (vs_loop_running s2 \<and> vs_overlay_enabled s2)) s2)) (\<lambda>s3.
     obind (vo_frame_inc_lock img s3) (\<lambda>s4.
     (let s5 = vo_call (V_display img) (s4\<lparr>vs_last_frame := Some img\<rparr>) in
      obind (frame_at img s5) (\<lambda>v1.
      obind (if vf_is_first v1 then for_streams k wake_play s5 else Ret s5) (\<lambda>s6.
      Ret (s6\<lparr>vs_redraw_needed := 0\<rparr>)))))))))"

definition check_redraw_needed :: "vo_driver \<Rightarrow> bool \<Rightarrow> vos \<Rightarrow> vos" where
  "check_redraw_needed drv ovl s =
     (let s1 = (if ovl then s\<lparr>vs_redraw_needed := 1\<rparr> else s) in
      if drv_redraw_needed drv (vs_calls s1) \<noteq> 0 then s1\<lparr>vs_redraw_needed := 1\<rparr> else s1)"

section \<open>Pause\<close>

text \<open>A turn of the loop: a frame for the free queue, a backup, and a copy of it to show.\<close>

definition pause_free :: "vos \<Rightarrow> vos outcome" where
  "pause_free s =
     (if iq_first (vs_display s) \<noteq> None \<and> iq_first (vs_free s) = None then
        obind (remove_display s) (\<lambda>(img, s1).
        obind (frame_at img s1) (\<lambda>v.
        Ret ((put_frame img (v\<lparr>vf_next := None\<rparr>) s1)
               \<lparr>vs_free := (vs_free s1)\<lparr>iq_first := Some img, iq_last := Some img, iq_num := 1\<rparr>\<rparr>)))
      else Ret s)"

definition pause_backup :: "vos \<Rightarrow> vos outcome" where
  "pause_backup s =
     (if iq_first (vs_display s) \<noteq> None \<and> vs_img_backup s = None then
        obind (remove_display s) (\<lambda>(img, s1). Ret (s1\<lparr>vs_img_backup := Some img, vs_redraw_needed := 1\<rparr>))
      else Ret s)"

definition pause_copy :: "vo_driver \<Rightarrow> vos \<Rightarrow> (nat option \<times> vos) outcome" where
  "pause_copy drv s =
     (case vs_img_backup s of
        None \<Rightarrow> Ret (None, s)
      | Some b \<Rightarrow>
          if vs_redraw_needed s = 0 then Ret (None, s)
          else
            obind (duplicate_frame drv b s) (\<lambda>(img, s1).
            case img of
              None \<Rightarrow> Ret (None, s1)
            | Some f \<Rightarrow> obind (frame_at f s1) (\<lambda>v. Ret (Some f, put_frame f (v\<lparr>vf_extra_info := extra_info_reset\<rparr>) s1))))"

text \<open>Up to the unlocking before the frame is shown; the frame is shown without the lock.\<close>

definition paused_turn :: "vo_driver \<Rightarrow> bool \<Rightarrow> vos \<Rightarrow> (nat option \<times> vos) outcome" where
  "paused_turn drv ovl s =
     obind (pause_free s) (\<lambda>s1.
     obind (pause_backup s1) (\<lambda>s2. pause_copy drv (check_redraw_needed drv ovl s2)))"

definition lock_free_queue :: "bool \<Rightarrow> vos \<Rightarrow> vos" where
  "lock_free_queue b s = s\<lparr>vs_free := (vs_free s)\<lparr>iq_locked := b\<rparr>\<rparr>"

text \<open>The loop without the other threads; \<open>speeds\<close> are the readings of the speed.\<close>

fun paused_turns :: "nat \<Rightarrow> vo_driver \<Rightarrow> (vos \<Rightarrow> bool) \<Rightarrow> int \<Rightarrow> int list \<Rightarrow> vos \<Rightarrow> vos outcome" where
  "paused_turns k drv ovl vpts [] s = Spin"
| "paused_turns k drv ovl vpts (speed # speeds) s =
     (if speed = XINE_SPEED_PAUSE then
        obind (paused_turn drv (ovl s) s) (\<lambda>(img, s1).
        obind (case img of None \<Rightarrow> Ret s1 | Some f \<Rightarrow> overlay_and_display_frame k drv f vpts s1) (\<lambda>s2.
        paused_turns k drv ovl vpts speeds s2))
      else Ret s)"

definition paused_loop :: "nat \<Rightarrow> vo_driver \<Rightarrow> (vos \<Rightarrow> bool) \<Rightarrow> int \<Rightarrow> int list \<Rightarrow> vos \<Rightarrow> vos outcome" where
  "paused_loop k drv ovl vpts speeds s =
     obind (paused_turns k drv ovl vpts speeds (lock_free_queue True s)) (\<lambda>s1. Ret (lock_free_queue False s1))"

section \<open>A turn of the output loop\<close>

definition display_next :: "nat \<Rightarrow> vo_driver \<Rightarrow> bool \<Rightarrow> int \<Rightarrow> vos \<Rightarrow> (nat option \<times> vos) outcome" where
  "display_next k drv ovl vpts s =
     obind (expire_frames k vpts s) (\<lambda>s1.
     obind (get_next_frame drv vpts s1) (\<lambda>(img, s2).
     case img of
       None \<Rightarrow> Ret (None, check_redraw_needed drv ovl s2)
     | Some f \<Rightarrow>
         obind (overlay_and_display_frame k drv f vpts s2) (\<lambda>s3.
         obind (frame_at f s3) (\<lambda>v.
         obind (of_opt (vf_stream v)) (\<lambda>st.
         obind (stream_at st s3) (\<lambda>S.
         Ret (Some f, if vpts \<ge> st_next_cue_time S then vo_call (V_cue_points st vpts) s3 else s3)))))))"

text \<open>A decoder that has not been heard of for a third of a second is flushed.\<close>

definition flush_decoder :: "nat \<Rightarrow> vos \<Rightarrow> vos outcome" where
  "flush_decoder st s =
     obind (stream_at st s) (\<lambda>S. Ret (if st_has_decoder S then vo_call (V_flush_decoder st) s else s))"

definition flush_decoders :: "nat \<Rightarrow> int \<Rightarrow> vos \<Rightarrow> vos outcome" where
  "flush_decoders k vpts s =
     (if vpts - vs_last_delivery_pts s > 30000 \<and> iq_first (vs_display s) = None then
        obind (for_streams k flush_decoder s) (\<lambda>s1. Ret (s1\<lparr>vs_last_delivery_pts := vpts\<rparr>))
      else Ret s)"

text \<open>When the next frame is due: the duration of the last frame, and its end.\<close>

definition vo_next_due :: "nat option \<Rightarrow> int \<times> int \<Rightarrow> vos \<Rightarrow> (int \<times> int) outcome" where
  "vo_next_due img due s =
     (let (frame_duration, next_frame_vpts) = due in
      case img of
        Some f \<Rightarrow> obind (frame_at f s) (\<lambda>v.
          Ret (fr_duration (vf_time v), fr_vpts (vf_time v) + fr_duration (vf_time v)))
      | None \<Rightarrow> Ret (frame_duration, next_frame_vpts + frame_duration))"

definition usec_to_sleep :: "int \<Rightarrow> int \<Rightarrow> int" where
  "usec_to_sleep next_frame_vpts vpts = (next_frame_vpts - vpts) * 100 sdiv 9"

text \<open>
  Sleeping until then: a reading is the time, the speed, the speeds that the paused loop sees, and
  whether the output still runs.
\<close>

type_synonym nap = "int \<times> int \<times> int list \<times> bool"

fun sleep_loop :: "nat \<Rightarrow> vo_driver \<Rightarrow> (vos \<Rightarrow> bool) \<Rightarrow> int \<Rightarrow> nap list \<Rightarrow> vos \<Rightarrow> vos outcome" where
  "sleep_loop k drv ovl next_vpts [] s = Spin"
| "sleep_loop k drv ovl next_vpts ((vpts, speed, speeds, running) # naps) s =
     obind (if speed = XINE_SPEED_PAUSE then paused_loop k drv ovl vpts speeds s else Ret s) (\<lambda>s1.
     if usec_to_sleep next_vpts vpts > 0 \<and> running then sleep_loop k drv ovl next_vpts naps s1 else Ret s1)"

definition loop_turn ::
  "nat \<Rightarrow> vo_driver \<Rightarrow> (vos \<Rightarrow> bool) \<Rightarrow> int \<Rightarrow> nap list \<Rightarrow> int \<times> int \<Rightarrow> vos \<Rightarrow> ((int \<times> int) \<times> vos) outcome" where
  "loop_turn k drv ovl vpts naps due s =
     obind (display_next k drv (ovl s) vpts s) (\<lambda>(img, s1).
     obind (flush_decoders k vpts s1) (\<lambda>s2.
     obind (vo_next_due img due s2) (\<lambda>due1.
     obind (sleep_loop k drv ovl (snd due1) naps s2) (\<lambda>s3. Ret (due1, s3)))))"

text \<open>After the loop: what was not shown is released.\<close>

fun discard_display :: "nat \<Rightarrow> vos \<Rightarrow> vos outcome" where
  "discard_display 0 s = Spin"
| "discard_display (Suc k) s =
     (if iq_first (vs_display s) = None then Ret s
      else obind (remove_display s) (\<lambda>(img, s1). obind (vo_frame_dec_lock img s1) (discard_display k)))"

definition end_of_loop :: "nat \<Rightarrow> vos \<Rightarrow> vos outcome" where
  "end_of_loop k s =
     obind (discard_display k s) (\<lambda>s1.
     obind (free_backup s1) (\<lambda>s2.
     obind (release_last s2) (\<lambda>s3. Ret (s3\<lparr>vs_last_frame := None\<rparr>))))"

text \<open>The whole loop: a turn is the time it starts with and its naps; it stops when none is left.\<close>

fun loop_turns :: "nat \<Rightarrow> vo_driver \<Rightarrow> (vos \<Rightarrow> bool) \<Rightarrow> (int \<times> nap list) list \<Rightarrow> int \<times> int \<Rightarrow> vos \<Rightarrow> vos outcome" where
  "loop_turns k drv ovl [] due s = end_of_loop k s"
| "loop_turns k drv ovl ((vpts, naps) # turns) due s =
     obind (loop_turn k drv ovl vpts naps due s) (\<lambda>(due1, s1). loop_turns k drv ovl turns due1 s1)"

definition video_out_loop :: "nat \<Rightarrow> vo_driver \<Rightarrow> (vos \<Rightarrow> bool) \<Rightarrow> int \<Rightarrow> (int \<times> nap list) list \<Rightarrow> vos \<Rightarrow> vos outcome" where
  "video_out_loop k drv ovl now turns s = loop_turns k drv ovl turns (1500, now) s"

section \<open>Frontends\<close>

record video_frame =
  xf_time :: vo_frame
  xf_width :: int
  xf_height :: int
  xf_pos_stream :: int
  xf_pos_time :: int
  xf_ratio :: "int \<times> int"
  xf_colorspace :: u32
  xf_data :: plane
  xf_frame :: nat

text \<open>
  Frames for a frontend, which waits for a stream. \<open>busy\<close>: the first stream has
  buffers left or its demuxer still runs; then an empty queue is waited for.
\<close>

definition xine_get_next_video_frame :: "(nat \<Rightarrow> bool) \<Rightarrow> vos \<Rightarrow> (video_frame option \<times> vos) outcome" where
  "xine_get_next_video_frame busy s =
     obind (xine_list_first_content (vs_streams s)) (\<lambda>(stream, l).
     (let s1 = s\<lparr>vs_streams := l\<rparr> in
      case stream of
        None \<Rightarrow> Wait
      | Some st \<Rightarrow>
          if iq_first (vs_display s1) = None then (if busy st then Wait else Ret (None, s1))
          else
            obind (remove_display s1) (\<lambda>(img, s2).
            obind (frame_at img s2) (\<lambda>v.
            Ret (Some \<lparr>xf_time = vf_time v, xf_width = vf_width v, xf_height = vf_height v,
                   xf_pos_stream = ei_input_pos (vf_extra_info v), xf_pos_time = ei_input_time (vf_extra_info v),
                   xf_ratio = vf_ratio v, xf_colorspace = vf_format v, xf_data = fst (fst (vf_picture v)), xf_frame = img\<rparr>, s2)))))"

definition xine_free_video_frame :: "video_frame \<Rightarrow> vos \<Rightarrow> vos outcome" where
  "xine_free_video_frame frame s = vo_frame_dec_lock (xf_frame frame) s"

section \<open>The port\<close>

definition vo_get_capabilities :: "vo_driver \<Rightarrow> vos \<Rightarrow> u32" where
  "vo_get_capabilities drv s = drv_capabilities drv"

definition vo_open :: "nat \<Rightarrow> vos \<Rightarrow> vos outcome" where
  "vo_open st s =
     obind (stream_at st s) (\<lambda>S.
     (let s1 = s\<lparr>vs_opened := True, vs_discard_frames := 0, vs_last_delivery_pts := 0, vs_warn_sent := 0, vs_warn_exceeded := 0\<rparr>;
          s2 = (if \<not> vs_overlay_enabled s1 \<and> st_spu_channel_user S > - 2 then s1\<lparr>vs_overlay_enabled := True\<rparr> else s1) in
      obind (xine_list_append_content (Some st) (vs_streams s2)) (\<lambda>l. Ret (s2\<lparr>vs_streams := l\<rparr>))))"

definition vo_close :: "nat \<Rightarrow> nat \<Rightarrow> vos \<Rightarrow> vos outcome" where
  "vo_close k st s =
     (let s1 = (vo_call V_flush_overlays s)\<lparr>vs_opened := False\<rparr> in
      obind (search xine_list_first_content xine_list_next_content (\<lambda>cur. cur = st) k (vs_streams s1)) (\<lambda>(c, l).
      obind (if c = None then Ret l else xine_list_delete_current l) (\<lambda>l1. Ret (s1\<lparr>vs_streams := l1\<rparr>))))"

definition VO_PROP_DISCARD_FRAMES :: int where
  "VO_PROP_DISCARD_FRAMES = 14"

definition VO_PROP_MAX_NUM_FRAMES :: int where
  "VO_PROP_MAX_NUM_FRAMES = 11"

text \<open>
  Hue, saturation, contrast and brightness run from 0 to 65535 for frontends.
  \<open>property & 0xffffff\<close>.
\<close>

definition vo_color_params :: "int list" where
  "vo_color_params = [0x01000002, 0x01000003, 0x01000004, 0x01000005]"

definition driver_property :: "int \<Rightarrow> int" where
  "driver_property property = property AND 0xffffff"

definition vo_get_property :: "vo_driver \<Rightarrow> int \<Rightarrow> vos \<Rightarrow> int outcome" where
  "vo_get_property drv property s =
     (if property = VO_PROP_DISCARD_FRAMES then Ret (vs_discard_frames s)
      else if property \<in> set vo_color_params then
        (let (min_v, max_v) = drv_min_max drv (driver_property property);
             v = drv_get_property drv (vs_calls s) (driver_property property);
             range_v = s32 (max_v - min_v) in
         if range_v > 0 then cdiv (s32 ((v - min_v) * 65535)) range_v else Ret 0)
      else Ret (drv_get_property drv (vs_calls s) (driver_property property)))"

definition set_driver_property :: "vo_driver \<Rightarrow> int \<Rightarrow> int \<Rightarrow> vos \<Rightarrow> int \<times> vos" where
  "set_driver_property drv p v s = (drv_set_property drv (vs_calls s) p v, vo_call (V_set_property p v) s)"

definition vo_set_property :: "nat \<Rightarrow> vo_driver \<Rightarrow> int \<Rightarrow> int \<Rightarrow> vos \<Rightarrow> (int \<times> vos) outcome" where
  "vo_set_property k drv property value s =
     (if property = VO_PROP_DISCARD_FRAMES then
        (let s1 = s\<lparr>vs_discard_frames := vs_discard_frames s + (if value \<noteq> 0 then 1 else - 1)\<rparr> in
         obind (if vs_grab_only s1 \<and> vs_discard_frames s1 \<noteq> 0 then discard_display k s1 else Ret s1) (\<lambda>s2.
         Ret (vs_discard_frames s1, s2)))
      else if property \<in> set vo_color_params then
        (if \<not> vs_grab_only s then
           (let (min_v, max_v) = drv_min_max drv (driver_property property);
                range_v = s32 (max_v - min_v);
                v = s32 (s32 (value * range_v) sdiv 65535 + min_v) in
            Ret (value, snd (set_driver_property drv (driver_property property) v s)))
         else Ret (0, s))
      else if \<not> vs_grab_only s then Ret (set_driver_property drv (driver_property property) value s)
      else Ret (0, s))"

definition vo_status :: "nat \<Rightarrow> nat option \<Rightarrow> vos \<Rightarrow> ((int \<times> int \<times> int) option \<times> vos) outcome" where
  "vo_status k stream s =
     obind (search xine_list_first_content xine_list_next_content (\<lambda>cur. Some cur = stream \<or> stream = None) k (vs_streams s)) (\<lambda>(c, l).
     Ret (if c = None then None else Some (vs_current_width s, vs_current_height s, vs_current_duration s), s\<lparr>vs_streams := l\<rparr>))"

definition vo_get_last_frame :: "vos \<Rightarrow> nat option" where
  "vo_get_last_frame s = vs_last_frame s"

text \<open>Overlays are switched off only when no stream wants subpictures.\<close>

definition wants_spu :: "vos \<Rightarrow> nat \<Rightarrow> bool" where
  "wants_spu s st \<longleftrightarrow> (case vs_stream s st of None \<Rightarrow> False | Some S \<Rightarrow> st_spu_channel_user S > - 2)"

definition vo_enable_overlay :: "nat \<Rightarrow> bool \<Rightarrow> vos \<Rightarrow> vos outcome" where
  "vo_enable_overlay k overlay_enabled s =
     (if overlay_enabled then Ret (s\<lparr>vs_overlay_enabled := True\<rparr>)
      else
        obind (search xine_list_first_content xine_list_next_content (wants_spu s) k (vs_streams s)) (\<lambda>(c, l).
        Ret (if c = None then s\<lparr>vs_streams := l, vs_overlay_enabled := False\<rparr> else s\<lparr>vs_streams := l\<rparr>)))"

text \<open>
  Flushing: while frames are discarded, the caller waits for the queue to be empty, but not in a
  pause.
\<close>

definition flush_begin :: "vos \<Rightarrow> vos" where
  "flush_begin s = s\<lparr>vs_discard_frames := vs_discard_frames s + 1\<rparr>"

definition flush_end :: "int \<Rightarrow> vos \<Rightarrow> vos outcome" where
  "flush_end speed s =
     (if speed \<noteq> XINE_SPEED_PAUSE \<and> iq_first (vs_display s) \<noteq> None then Wait
      else Ret (s\<lparr>vs_discard_frames := vs_discard_frames s - 1\<rparr>))"

definition vo_flush :: "int \<Rightarrow> vos \<Rightarrow> vos outcome" where
  "vo_flush speed s = (if vs_loop_running s then flush_end speed (flush_begin s) else Ret s)"

section \<open>Creation and end\<close>

fun dispose_queue :: "nat \<Rightarrow> (vos \<Rightarrow> nat option) \<Rightarrow> (vos \<Rightarrow> (nat \<times> vos) outcome) \<Rightarrow> vos \<Rightarrow> vos outcome" where
  "dispose_queue 0 first remove s = Spin"
| "dispose_queue (Suc k) first remove s =
     (if first s = None then Ret s
      else
        obind (remove s) (\<lambda>(img, s1).
        obind (frame_at img s1) (\<lambda>_.
        dispose_queue k first remove (vo_call (V_dispose_frame img) (s1\<lparr>vs_frame := (vs_frame s1)(img := None)\<rparr>)))))"

definition vo_free_img_buffers :: "nat \<Rightarrow> vos \<Rightarrow> vos outcome" where
  "vo_free_img_buffers k s =
     obind (dispose_queue k (\<lambda>s. iq_first (vs_free s)) remove_free s)
       (dispose_queue k (\<lambda>s. iq_first (vs_display s)) remove_display)"

text \<open>
  The output loop is told to stop and joined. It sleeps, or is in the paused loop, when it is told:
  it goes on with its naps, and past them with its end. \<open>k\<close> is the fuel of the end.
\<close>

definition join_loop :: "nat \<Rightarrow> vo_driver \<Rightarrow> (vos \<Rightarrow> bool) \<Rightarrow> int \<Rightarrow> nap list \<Rightarrow> vos \<Rightarrow> vos outcome" where
  "join_loop k drv ovl next_vpts naps s =
     obind (sleep_loop k drv ovl next_vpts naps (s\<lparr>vs_loop_running := False\<rparr>)) (end_of_loop k)"

definition vo_exit :: "nat \<Rightarrow> vo_driver \<Rightarrow> (vos \<Rightarrow> bool) \<Rightarrow> int \<Rightarrow> nap list \<Rightarrow> vos \<Rightarrow> vos outcome" where
  "vo_exit k drv ovl next_vpts naps s =
     obind (if vs_loop_running s then join_loop k drv ovl next_vpts naps s else Ret s) (\<lambda>s1.
     obind (vo_free_img_buffers k s1) (\<lambda>s2.
     obind (xine_list_free k (vs_streams s2)) (\<lambda>l.
     Ret (vo_call V_dispose_overlays (vo_call V_dispose_driver (s2\<lparr>vs_streams := l\<rparr>))))))"

definition num_frame_buffers :: "int \<Rightarrow> nat" where
  "num_frame_buffers n = (if n = 0 then NUM_FRAME_BUFFERS else if n < 5 then 5 else nat n)"

text \<open>
  The frames, up to the first that the driver does not allocate. Frame \<open>i\<close> is at
  address \<open>i\<close>; its extra info, from \<open>calloc\<close>, is zero.
\<close>

fun alloc_frames :: "nat \<Rightarrow> nat \<Rightarrow> vo_driver \<Rightarrow> vos \<Rightarrow> vos outcome" where
  "alloc_frames 0 i drv s = Ret s"
| "alloc_frames (Suc n) i drv s =
     (case drv_alloc_frame drv i of
        None \<Rightarrow> Ret s
      | Some v \<Rightarrow>
          obind (append_free i (put_frame i (v\<lparr>vf_id := i, vf_extra_info := extra_info_reset\<rparr>) s))
            (alloc_frames n (i + 1) drv))"

definition vo_new_port :: "vo_driver \<Rightarrow> bool \<Rightarrow> int \<Rightarrow> int \<Rightarrow> (nat \<rightharpoonup> vo_stream) \<Rightarrow> vos outcome" where
  "vo_new_port drv grabonly warn_skipped warn_discarded streams =
     alloc_frames (num_frame_buffers (drv_get_property drv [] VO_PROP_MAX_NUM_FRAMES)) 0 drv
       \<lparr>vs_free = vo_new_img_buf_queue, vs_display = vo_new_img_buf_queue, vs_frame = Map.empty, vs_stream = streams,
        vs_streams = xine_list_new, vs_last_frame = None, vs_img_backup = None, vs_redraw_needed = 0,
        vs_discard_frames = 0, vs_loop_running = \<not> grabonly, vs_opened = False, vs_delivered = 0, vs_skipped = 0,
        vs_discarded = 0, vs_warn_skipped = warn_skipped, vs_warn_discarded = warn_discarded, vs_warn_exceeded = 0,
        vs_warn_sent = 0, vs_last_delivery_pts = 0, vs_overlay_enabled = True, vs_grab_only = grabonly,
        vs_current_width = 0, vs_current_height = 0, vs_current_duration = 0, vs_drop_limit = 3, vs_drop_cpt = 0,
        vs_calls = []\<rparr>"

end
