(* ===== verification/Vo_Heap.thy ===== *)
theory Vo_Heap
  imports Video_Out
begin

text \<open>
  Who refers to a frame: it is free, or its lock counter is the number of its references. Each
  step of the queues and the counters under that.
\<close>

section \<open>Queues\<close>

definition vf_nexts :: "(nat \<rightharpoonup> vframe) \<Rightarrow> nat \<Rightarrow> nat option option" where
  "vf_nexts fr f = map_option vf_next (fr f)"

definition queue_is :: "(nat \<rightharpoonup> vframe) \<Rightarrow> img_buf_fifo \<Rightarrow> nat list \<Rightarrow> bool" where
  "queue_is fr q xs \<longleftrightarrow>
     lseg (vf_nexts fr) (iq_first q) xs None \<and> iq_last q = (if xs = [] then None else Some (last xs)) \<and> iq_num q = int (length xs)"

text \<open>A frame without its link and its counter.\<close>

definition view :: "vframe \<Rightarrow> vframe" where
  "view v = v\<lparr>vf_next := None, vf_lock := 0\<rparr>"

definition views :: "(nat \<rightharpoonup> vframe) \<Rightarrow> nat \<rightharpoonup> vframe" where
  "views fr f = map_option view (fr f)"

lemma vf_nexts_upd: "vf_nexts (fr(f \<mapsto> v)) = (vf_nexts fr)(f \<mapsto> vf_next v)"
  by (auto simp: vf_nexts_def)

lemma vf_nexts_same: "fr f = Some v \<Longrightarrow> vf_next v' = vf_next v \<Longrightarrow> vf_nexts (fr(f \<mapsto> v')) = vf_nexts fr"
  by (auto simp: vf_nexts_def)

lemma views_upd: "fr f = Some v \<Longrightarrow> view v' = view v \<Longrightarrow> views (fr(f \<mapsto> v')) = views fr"
  by (auto simp: views_def)

lemma view_simps [simp]:
  "view (v\<lparr>vf_next := n\<rparr>) = view v" "view (v\<lparr>vf_lock := l\<rparr>) = view v"
  "vf_stream (view v) = vf_stream v" "vf_time (view v) = vf_time v" "vf_is_first (view v) = vf_is_first v"
  "vf_picture (view v) = vf_picture v" "vf_width (view v) = vf_width v" "vf_height (view v) = vf_height v"
  "vf_format (view v) = vf_format v" "vf_flags (view v) = vf_flags v"
  by (simp_all add: view_def)

lemma views_Some: "views fr' = views fr \<Longrightarrow> fr f = Some v \<Longrightarrow> \<exists>v'. fr' f = Some v' \<and> view v' = view v"
  by (drule fun_cong [of _ _ f]) (auto simp: views_def)

lemma views_dom: "views fr' = views fr \<Longrightarrow> (fr' f = None) = (fr f = None)"
  by (drule fun_cong [of _ _ f]) (auto simp: views_def)

lemma queue_first: "queue_is fr q xs \<Longrightarrow> iq_first q = (case xs of [] \<Rightarrow> None | x # _ \<Rightarrow> Some x)"
  unfolding queue_is_def by (blast dest: lseg_start)

lemma queue_distinct: "queue_is fr q xs \<Longrightarrow> distinct xs"
  unfolding queue_is_def by (blast dest: lseg_distinct)

lemma queue_allocated: "queue_is fr q xs \<Longrightarrow> f \<in> set xs \<Longrightarrow> \<exists>v. fr f = Some v"
  using lseg_allocated [of "vf_nexts fr" "iq_first q" xs None f] by (auto simp: queue_is_def vf_nexts_def)

lemma queue_frame_rule: "queue_is fr q xs \<Longrightarrow> (\<And>f. f \<in> set xs \<Longrightarrow> vf_nexts fr' f = vf_nexts fr f) \<Longrightarrow> queue_is fr' q xs"
  unfolding queue_is_def using lseg_cong [of xs "vf_nexts fr" "vf_nexts fr'"] by metis

lemma append_int_ok:
  assumes "queue_is fr q xs" and "f \<notin> set xs" and "fr f = Some v" and "vf_next v = None"
  shows "\<exists>fr' q'. vo_append_to_img_buf_queue_int f (fr, q) = Ret (fr', q') \<and> queue_is fr' q' (xs @ [f]) \<and>
    iq_locked q' = iq_locked q \<and> views fr' = views fr \<and>
    (\<forall>g w. fr g = Some w \<longrightarrow> (\<exists>w'. fr' g = Some w' \<and> vf_lock w' = vf_lock w)) \<and>
    (\<forall>g. g \<notin> set xs \<longrightarrow> fr' g = fr g)"
proof (cases xs rule: rev_cases)
  case Nil
  then show ?thesis using assms queue_first [OF assms(1)]
    by (auto simp: vo_append_to_img_buf_queue_int_def queue_is_def vf_nexts_def)
next
  case (snoc ys l)
  obtain w where w: "fr l = Some w" using queue_allocated [OF assms(1), of l] snoc by auto
  have fl: "f \<noteq> l" using assms(2) snoc by auto
  obtain x where x: "iq_first q = Some x" using queue_first [OF assms(1)] snoc by (cases "ys @ [l]") auto
  have last: "iq_last q = Some l" "iq_num q = int (length xs)" using assms(1) snoc by (simp_all add: queue_is_def)
  let ?fr = "fr(l \<mapsto> w\<lparr>vf_next := Some f\<rparr>)" and ?q = "q\<lparr>iq_last := Some f, iq_num := iq_num q + 1\<rparr>"
  have "lseg (vf_nexts fr) (iq_first q) (ys @ [l]) None" using assms(1) snoc by (simp add: queue_is_def)
  then have "lseg ((vf_nexts fr)(l := Some (Some f), f := Some None)) (iq_first q) (ys @ [l, f]) None"
    using assms(2) snoc by (intro lseg_snoc) simp_all
  moreover have "(vf_nexts fr)(l := Some (Some f), f := Some None) = vf_nexts ?fr"
    using assms(3,4) fl by (auto simp: vf_nexts_def)
  ultimately have "queue_is ?fr ?q (xs @ [f])" using snoc last by (simp add: queue_is_def)
  moreover have "views ?fr = views fr" using w by (simp add: views_upd)
  moreover have "vo_append_to_img_buf_queue_int f (fr, q) = Ret (?fr, ?q)"
    using assms(3,4) x last w by (simp add: vo_append_to_img_buf_queue_int_def)
  ultimately show ?thesis using w snoc by (intro exI [of _ ?fr] exI [of _ ?q]) auto
qed

lemma pop_ok:
  assumes "queue_is fr q (f # xs)"
  shows "\<exists>v fr' q'. fr f = Some v \<and> queue_pop f (fr, q) = Ret (fr', q') \<and> fr' = fr(f \<mapsto> v\<lparr>vf_next := None\<rparr>) \<and>
    queue_is fr' q' xs \<and> iq_locked q' = iq_locked q"
proof -
  obtain v where v: "fr f = Some v" using queue_allocated [OF assms, of f] by auto
  have l: "lseg (vf_nexts fr) (vf_next v) xs None" using assms v by (auto simp: queue_is_def vf_nexts_def)
  have d: "f \<notin> set xs" using queue_distinct [OF assms] by simp
  have n: "vf_next v = (case xs of [] \<Rightarrow> None | x # _ \<Rightarrow> Some x)" using lseg_start [OF l] .
  have l2: "lseg (vf_nexts (fr(f \<mapsto> v\<lparr>vf_next := None\<rparr>))) (vf_next v) xs None" using l d by (simp add: vf_nexts_upd)
  show ?thesis
    using v l2 n assms by (cases xs) (auto simp: queue_pop_def queue_is_def)
qed

lemma queue_apart:
  assumes "queue_is fr q xs" and "\<forall>g. g \<notin> set ys \<longrightarrow> fr' g = fr g" and "set xs \<inter> set ys = {}"
  shows "queue_is fr' q xs"
  by (rule queue_frame_rule [OF assms(1)]) (use assms(2,3) in \<open>auto simp: vf_nexts_def\<close>)

section \<open>References\<close>

text \<open>
  What the driver makes of a frame fits its format: the planes have room for the rows that are
  copied. \<open>E\<close> counts the references besides the queue of waiting frames.
\<close>

definition plane_room :: "int \<Rightarrow> plane \<Rightarrow> bool" where
  "plane_room n pl \<longleftrightarrow> (case pl of None \<Rightarrow> True | Some p \<Rightarrow> 0 \<le> n \<and> nat n \<le> length p)"

definition fits :: "int \<Rightarrow> u32 \<Rightarrow> picture \<Rightarrow> bool" where
  "fits height format pic \<longleftrightarrow>
     (let half = s32 (height + 1) sdiv 2; ((b0, b1, b2), (p0, p1, p2)) = pic in
      plane_room (s32 (p0 * height)) b0 \<and>
      (format = XINE_IMGFMT_YV12 \<longrightarrow> plane_room (s32 (p1 * half)) b1 \<and> plane_room (s32 (p2 * half)) b2))"

text \<open>The sizes of the planes, and which there are.\<close>

definition sizes :: "picture \<Rightarrow> (nat option \<times> nat option \<times> nat option) \<times> (int \<times> int \<times> int)" where
  "sizes pic = (let ((b0, b1, b2), p) = pic in ((map_option length b0, map_option length b1, map_option length b2), p))"

definition shape_ok :: "vo_driver \<Rightarrow> vframe \<Rightarrow> bool" where
  "shape_ok drv v \<longleftrightarrow>
     (\<exists>(w :: u32) (h :: u32). vf_width v = sint w \<and> vf_height v = sint h \<and>
        sizes (vf_picture v) = sizes (drv_format drv w h (vf_format v) (vf_flags v)))"

definition driver_ok :: "vo_driver \<Rightarrow> bool" where
  "driver_ok drv \<longleftrightarrow>
     (\<forall>w h format flags. fits (sint h) format (drv_format drv w h format flags)) \<and>
     (\<forall>w h format flags flags'. sizes (drv_format drv w h format flags) = sizes (drv_format drv w h format flags'))"

definition used_ok :: "vo_driver \<Rightarrow> nat \<Rightarrow> bool \<Rightarrow> vframe \<Rightarrow> bool" where
  "used_ok drv e shown v \<longleftrightarrow>
     vf_lock v = int (e + (if shown then 1 else 0)) \<and> 0 < vf_lock v \<and> shape_ok drv v \<and> (\<not> shown \<longrightarrow> vf_next v = None)"

definition frames_ok ::
  "vo_driver \<Rightarrow> (nat \<rightharpoonup> vframe) \<Rightarrow> img_buf_fifo \<Rightarrow> img_buf_fifo \<Rightarrow> nat list \<Rightarrow> nat list \<Rightarrow> (nat \<Rightarrow> nat) \<Rightarrow> bool" where
  "frames_ok drv fr qf qd FQ DQ E \<longleftrightarrow>
     queue_is fr qf FQ \<and> queue_is fr qd DQ \<and> set FQ \<inter> set DQ = {} \<and> (\<forall>f. f \<in> set FQ \<longrightarrow> E f = 0) \<and>
     (\<forall>f. fr f = None \<longrightarrow> E f = 0) \<and>
     (\<forall>f v. fr f = Some v \<and> f \<notin> set FQ \<longrightarrow> used_ok drv (E f) (f \<in> set DQ) v)"

lemma frames_okD:
  assumes "frames_ok drv fr qf qd FQ DQ E"
  shows "queue_is fr qf FQ" and "queue_is fr qd DQ" and "set FQ \<inter> set DQ = {}" and "f \<in> set FQ \<Longrightarrow> E f = 0"
    and "fr f = None \<Longrightarrow> E f = 0" and "fr f = Some v \<Longrightarrow> f \<notin> set FQ \<Longrightarrow> used_ok drv (E f) (f \<in> set DQ) v"
  using assms by (simp_all add: frames_ok_def)

lemma frames_okI:
  assumes "queue_is fr qf FQ" and "queue_is fr qd DQ" and "set FQ \<inter> set DQ = {}" and "\<And>f. f \<in> set FQ \<Longrightarrow> E f = 0"
    and "\<And>f. fr f = None \<Longrightarrow> E f = 0" and "\<And>f v. fr f = Some v \<Longrightarrow> f \<notin> set FQ \<Longrightarrow> used_ok drv (E f) (f \<in> set DQ) v"
  shows "frames_ok drv fr qf qd FQ DQ E"
  using assms by (simp add: frames_ok_def)

lemma used_ok_next: "used_ok drv e True v \<Longrightarrow> used_ok drv (Suc e) False (v\<lparr>vf_next := None\<rparr>)"
  by (simp add: used_ok_def shape_ok_def)

lemma shape_ok_view: "view v' = view v \<Longrightarrow> shape_ok drv v' = shape_ok drv v"
  unfolding shape_ok_def using view_simps(6-10) by metis

lemma plane_room_length: "map_option length p' = map_option length p \<Longrightarrow> plane_room n p' = plane_room n p"
  by (cases p; cases p') (simp_all add: plane_room_def)

lemma fits_sizes: "sizes pic' = sizes pic \<Longrightarrow> fits h fm pic' = fits h fm pic"
  by (cases pic; cases pic'; clarsimp simp: sizes_def fits_def Let_def)
    (use plane_room_length in metis)

lemma shape_fits: "driver_ok drv \<Longrightarrow> shape_ok drv v \<Longrightarrow> fits (vf_height v) (vf_format v) (vf_picture v)"
  unfolding driver_ok_def shape_ok_def using fits_sizes by metis

lemma copy_plane_ok:
  assumes "plane_room n src" and "map_option length dst = map_option length src"
  shows "\<exists>d. copy_plane n src dst = Ret d \<and> map_option length d = map_option length src"
  using assms by (cases src; cases dst) (auto simp: copy_plane_def plane_room_def)

lemma copy_picture_ok:
  assumes "fits (vf_height v) (vf_format v) (vf_picture v)" and "sizes (vf_picture d) = sizes (vf_picture v)"
  shows "\<exists>pic. copy_picture v d = Ret pic \<and> sizes pic = sizes (vf_picture v)"
proof -
  obtain b0 b1 b2 p0 p1 p2 where v: "vf_picture v = ((b0, b1, b2), (p0, p1, p2))" by (metis prod.exhaust)
  obtain d0 d1 d2 pd where d: "vf_picture d = ((d0, d1, d2), pd)" by (metis prod.exhaust)
  have l: "map_option length d0 = map_option length b0" "map_option length d1 = map_option length b1"
    "map_option length d2 = map_option length b2" "pd = (p0, p1, p2)" using assms(2) v d by (simp_all add: sizes_def)
  define half where "half = s32 (vf_height v + 1) sdiv 2"
  have r: "plane_room (s32 (p0 * vf_height v)) b0"
    "vf_format v = XINE_IMGFMT_YV12 \<Longrightarrow> plane_room (s32 (p1 * half)) b1"
    "vf_format v = XINE_IMGFMT_YV12 \<Longrightarrow> plane_room (s32 (p2 * half)) b2"
    using assms(1) v by (simp_all add: fits_def half_def Let_def)
  obtain e0 where e0: "copy_plane (s32 (p0 * vf_height v)) b0 d0 = Ret e0" "map_option length e0 = map_option length b0"
    using copy_plane_ok [OF r(1) l(1)] by blast
  show ?thesis
  proof (cases "vf_format v = XINE_IMGFMT_YV12")
    case True
    obtain e1 where e1: "copy_plane (s32 (p1 * half)) b1 d1 = Ret e1" "map_option length e1 = map_option length b1"
      using copy_plane_ok [OF r(2) l(2)] True by blast
    obtain e2 where e2: "copy_plane (s32 (p2 * half)) b2 d2 = Ret e2" "map_option length e2 = map_option length b2"
      using copy_plane_ok [OF r(3) l(3)] True by blast
    show ?thesis using True v d e0 e1 e2 l(4) by (simp add: copy_picture_def half_def sizes_def)
  next
    case False
    then show ?thesis using v d e0 l by (simp add: copy_picture_def sizes_def)
  qed
qed

section \<open>Steps of the queues and counters\<close>

lemma frames_frame:
  assumes "frames_ok drv fr qf qd FQ DQ E" and "0 < E f \<or> f \<in> set DQ"
  obtains v where "fr f = Some v" and "f \<notin> set FQ" and "used_ok drv (E f) (f \<in> set DQ) v"
proof -
  note D = frames_okD [OF assms(1)]
  have f: "f \<notin> set FQ" using D(3,4) assms(2) by auto
  have "fr f \<noteq> None"
  proof
    assume "fr f = None"
    then show False using D(5) [of f] queue_allocated [OF D(2), of f] assms(2) by auto
  qed
  then show ?thesis using that f D(6) by blast
qed

text \<open>A change of a frame in use that leaves its link and the shape of its picture.\<close>

lemma frames_write:
  assumes "frames_ok drv fr qf qd FQ DQ E" and "fr f = Some v" and "f \<notin> set FQ"
    and "vf_next v' = vf_next v" and "used_ok drv e (f \<in> set DQ) v'"
  shows "frames_ok drv (fr(f \<mapsto> v')) qf qd FQ DQ (E(f := e))"
proof -
  note D = frames_okD [OF assms(1)]
  have n: "vf_nexts (fr(f \<mapsto> v')) = vf_nexts fr" using assms(2,4) by (rule vf_nexts_same)
  show ?thesis
    using D assms(3,5) by (intro frames_okI) (auto simp: queue_is_def n split: if_splits)
qed

lemma frames_pop_display:
  assumes "frames_ok drv fr qf qd FQ (f # DQ) E"
  shows "\<exists>fr' qd'. queue_pop f (fr, qd) = Ret (fr', qd') \<and> iq_locked qd' = iq_locked qd \<and> views fr' = views fr \<and>
    frames_ok drv fr' qf qd' FQ DQ (E(f := Suc (E f)))"
proof -
  note D = frames_okD [OF assms]
  obtain v fr' qd' where p: "fr f = Some v" "queue_pop f (fr, qd) = Ret (fr', qd')" "fr' = fr(f \<mapsto> v\<lparr>vf_next := None\<rparr>)"
    "queue_is fr' qd' DQ" "iq_locked qd' = iq_locked qd" using pop_ok [OF D(2)] by blast
  have d: "f \<notin> set DQ" "f \<notin> set FQ" using queue_distinct [OF D(2)] D(3) by auto
  have qf: "queue_is fr' qf FQ" using D(3) p(3) by (intro queue_apart [OF D(1), of "[f]"]) auto
  have "used_ok drv (Suc (E f)) False (v\<lparr>vf_next := None\<rparr>)" using D(6) [OF p(1) d(2)] by (simp add: used_ok_next)
  moreover have "used_ok drv (E g) (g \<in> set DQ) w" if "fr g = Some w" "g \<notin> set FQ" "g \<noteq> f" for g w using D(6) [OF that(1,2)] that(3) by simp
  ultimately have "frames_ok drv fr' qf qd' FQ DQ (E(f := Suc (E f)))"
    using qf p(3,4) D(3,4,5) d by (intro frames_okI) (auto split: if_splits)
  moreover have "views fr' = views fr" using p by (simp add: views_upd)
  ultimately show ?thesis using p by blast
qed

lemma frames_pop_free:
  assumes "frames_ok drv fr qf qd (f # FQ) DQ E"
  shows "\<exists>v fr' qf'. fr f = Some v \<and> queue_pop f (fr, qf) = Ret (fr', qf') \<and> iq_locked qf' = iq_locked qf \<and> fr' = fr(f \<mapsto> v\<lparr>vf_next := None\<rparr>) \<and>
    f \<notin> set FQ \<and> f \<notin> set DQ \<and> E f = 0 \<and>
    (\<forall>v'. used_ok drv 1 False v' \<longrightarrow> frames_ok drv (fr'(f \<mapsto> v')) qf' qd FQ DQ (E(f := 1)))"
proof -
  note D = frames_okD [OF assms]
  obtain v fr' qf' where p: "fr f = Some v" "queue_pop f (fr, qf) = Ret (fr', qf')" "fr' = fr(f \<mapsto> v\<lparr>vf_next := None\<rparr>)"
    "queue_is fr' qf' FQ" "iq_locked qf' = iq_locked qf" using pop_ok [OF D(1)] by blast
  have d: "f \<notin> set FQ" "f \<notin> set DQ" "E f = 0" using queue_distinct [OF D(1)] D(3,4) by auto
  have "frames_ok drv (fr'(f \<mapsto> v')) qf' qd FQ DQ (E(f := 1))" if v': "used_ok drv 1 False v'" for v'
  proof -
    have 1: "queue_is (fr'(f \<mapsto> v')) qf' FQ" using d by (intro queue_apart [OF p(4), of "[f]"]) auto
    have 2: "queue_is (fr'(f \<mapsto> v')) qd DQ" using d p(3) by (intro queue_apart [OF D(2), of "[f]"]) auto
    show ?thesis using 1 2 v' d p(3) D(3,4,5,6) by (intro frames_okI) (auto split: if_splits)
  qed
  then show ?thesis using p d by blast
qed

lemma append_views:
  assumes "views fr' = views fr" and "\<forall>g w. fr g = Some w \<longrightarrow> (\<exists>w'. fr' g = Some w' \<and> vf_lock w' = vf_lock w)" and "fr' g = Some w'"
  shows "\<exists>w. fr g = Some w \<and> vf_lock w' = vf_lock w \<and> shape_ok drv w' = shape_ok drv w"
proof -
  obtain w where w: "fr g = Some w" "view w = view w'" using views_Some [OF assms(1) [symmetric] assms(3)] by auto
  then show ?thesis using assms(2,3) shape_ok_view [of w w'] by fastforce
qed

lemma frames_append_display:
  assumes "frames_ok drv fr qf qd FQ DQ (E(f := Suc (E f)))" and "f \<notin> set DQ"
  shows "\<exists>fr' qd'. vo_append_to_img_buf_queue_int f (fr, qd) = Ret (fr', qd') \<and> iq_locked qd' = iq_locked qd \<and>
    views fr' = views fr \<and> frames_ok drv fr' qf qd' FQ (DQ @ [f]) E"
proof -
  note D = frames_okD [OF assms(1)]
  obtain v where v: "fr f = Some v" "f \<notin> set FQ" "vf_next v = None"
    using frames_frame [OF assms(1), of f] assms(2) by (auto simp: used_ok_def)
  obtain fr' qd' where a: "vo_append_to_img_buf_queue_int f (fr, qd) = Ret (fr', qd')" "queue_is fr' qd' (DQ @ [f])"
    "iq_locked qd' = iq_locked qd" "views fr' = views fr"
    "\<forall>g w. fr g = Some w \<longrightarrow> (\<exists>w'. fr' g = Some w' \<and> vf_lock w' = vf_lock w)" "\<forall>g. g \<notin> set DQ \<longrightarrow> fr' g = fr g"
    using append_int_ok [OF D(2) assms(2) v(1,3)] by blast
  have "used_ok drv (E g) (g \<in> set (DQ @ [f])) w'" if g: "fr' g = Some w'" "g \<notin> set FQ" for g w'
  proof -
    obtain w where w: "fr g = Some w" "vf_lock w' = vf_lock w" "shape_ok drv w' = shape_ok drv w"
      using append_views [OF a(4,5) g(1)] by blast
    have "g \<notin> set DQ \<Longrightarrow> w' = w" using a(6) g(1) w(1) by simp
    then show ?thesis using D(6) [OF w(1) g(2)] w assms(2) by (cases "g = f") (auto simp: used_ok_def)
  qed
  moreover have "queue_is fr' qf FQ" using D(3) a(6) by (intro queue_apart [OF D(1), of DQ]) auto
  moreover have "E g = 0" if "fr' g = None" for g
    using that views_dom [OF a(4), of g] v(1) D(5) [of g] by (auto split: if_splits)
  moreover have "E g = 0" if "g \<in> set FQ" for g using D(4) [OF that] v(2) that by (auto split: if_splits)
  ultimately have "frames_ok drv fr' qf qd' FQ (DQ @ [f]) E" using a(2) D(3) v(2) by (intro frames_okI) auto
  then show ?thesis using a by blast
qed

text \<open>The end of a reference; the last one frees the frame.\<close>

lemma frames_append_free:
  assumes "frames_ok drv fr qf qd FQ DQ (E(f := Suc 0))" and "E f = 0" and "f \<notin> set DQ" and "fr f = Some v" and "vf_next v = None"
  shows "\<exists>fr' qf'. vo_append_to_img_buf_queue_int f (fr(f \<mapsto> v\<lparr>vf_lock := l\<rparr>), qf) = Ret (fr', qf') \<and> iq_locked qf' = iq_locked qf \<and>
    views fr' = views fr \<and> frames_ok drv fr' qf' qd (FQ @ [f]) DQ E"
proof -
  note D = frames_okD [OF assms(1)]
  have fq: "f \<notin> set FQ" using D(4) [of f] by auto
  let ?fr = "fr(f \<mapsto> v\<lparr>vf_lock := l\<rparr>)"
  have n: "vf_nexts ?fr = vf_nexts fr" using assms(4) by (simp add: vf_nexts_same)
  have q: "queue_is ?fr qf FQ" using D(1) by (simp add: queue_is_def n)
  obtain fr' qf' where a: "vo_append_to_img_buf_queue_int f (?fr, qf) = Ret (fr', qf')" "queue_is fr' qf' (FQ @ [f])"
    "iq_locked qf' = iq_locked qf" "views fr' = views ?fr" "\<forall>g. g \<notin> set FQ \<longrightarrow> fr' g = ?fr g"
    using append_int_ok [OF q fq, of "v\<lparr>vf_lock := l\<rparr>"] assms(5) by auto
  have vw: "views fr' = views fr" using a(4) assms(4) by (simp add: views_upd)
  have "queue_is fr' qd DQ" using D(3) a(5) assms(3) by (intro queue_apart [OF D(2), of "f # FQ"]) auto
  moreover have "E g = 0" if "fr' g = None" for g
    using that views_dom [OF vw, of g] assms(4) D(5) [of g] by (auto split: if_splits)
  moreover have "used_ok drv (E g) (g \<in> set DQ) w" if "fr' g = Some w" "g \<notin> set (FQ @ [f])" for g w
    using that a(5) D(6) [of g w] by auto
  moreover have "E g = 0" if "g \<in> set (FQ @ [f])" for g using that D(4) [of g] assms(2) by (auto split: if_splits)
  ultimately have "frames_ok drv fr' qf' qd (FQ @ [f]) DQ E" using a(2) D(3) assms(3) by (intro frames_okI) auto
  then show ?thesis using a(1,3) vw by blast
qed

end
