(* ===== verification/Vo_Inv.thy ===== *)
theory Vo_Inv
  imports Vo_Heap
begin

text \<open>
  The invariant of the video output: the references to a frame are its lock counter.
  \<open>h\<close> counts the references that decoders, the driver, frontends and the output
  loop's local variable hold.
\<close>

section \<open>The invariant\<close>

definition refs :: "vos \<Rightarrow> (nat \<Rightarrow> nat) \<Rightarrow> nat \<Rightarrow> nat" where
  "refs s h f = h f + (if vs_img_backup s = Some f then 1 else 0) + (if vs_last_frame s = Some f then 1 else 0)"

definition has_stream :: "vos \<Rightarrow> nat \<Rightarrow> bool" where
  "has_stream s f \<longleftrightarrow> (\<exists>v st. vs_frame s f = Some v \<and> vf_stream v = Some st \<and> st \<in> dom (vs_stream s))"

definition vo_is :: "vo_driver \<Rightarrow> vos \<Rightarrow> nat list \<Rightarrow> nat list \<Rightarrow> (nat \<Rightarrow> nat) \<Rightarrow> nat list \<Rightarrow> bool" where
  "vo_is drv s FQ DQ h sts \<longleftrightarrow>
     frames_ok drv (vs_frame s) (vs_free s) (vs_display s) FQ DQ (refs s h) \<and> \<not> iq_locked (vs_display s) \<and>
     (\<forall>f. f \<in> set DQ \<or> vs_img_backup s = Some f \<longrightarrow> has_stream s f) \<and>
     holds xl_is (vs_streams s) sts \<and> set sts \<subseteq> dom (vs_stream s)"

text \<open>What no operation takes away.\<close>

definition vo_keeps :: "vos \<Rightarrow> vos \<Rightarrow> bool" where
  "vo_keeps s s' \<longleftrightarrow>
     (\<forall>f. has_stream s f \<longrightarrow> has_stream s' f) \<and> dom (vs_frame s') = dom (vs_frame s) \<and> dom (vs_stream s') = dom (vs_stream s)"

definition same_refs :: "vos \<Rightarrow> vos \<Rightarrow> bool" where
  "same_refs s s' \<longleftrightarrow> vs_img_backup s' = vs_img_backup s \<and> vs_last_frame s' = vs_last_frame s \<and> iq_locked (vs_free s') = iq_locked (vs_free s)"

lemma refs_simps [simp]:
  "refs (s\<lparr>vs_frame := fr\<rparr>) h = refs s h" "refs (s\<lparr>vs_free := q\<rparr>) h = refs s h" "refs (s\<lparr>vs_display := q\<rparr>) h = refs s h"
  "refs (s\<lparr>vs_calls := cs\<rparr>) h = refs s h" "refs (s\<lparr>vs_streams := l\<rparr>) h = refs s h" "refs (s\<lparr>vs_stream := m\<rparr>) h = refs s h"
  by (simp_all add: refs_def fun_eq_iff)

lemma vo_isD:
  assumes "vo_is drv s FQ DQ h sts"
  shows "frames_ok drv (vs_frame s) (vs_free s) (vs_display s) FQ DQ (refs s h)" and "\<not> iq_locked (vs_display s)"
    and "f \<in> set DQ \<Longrightarrow> has_stream s f" and "vs_img_backup s = Some f \<Longrightarrow> has_stream s f"
    and "holds xl_is (vs_streams s) sts" and "set sts \<subseteq> dom (vs_stream s)"
  using assms by (simp_all add: vo_is_def)

lemma vo_isI:
  assumes "frames_ok drv (vs_frame s) (vs_free s) (vs_display s) FQ DQ (refs s h)" and "\<not> iq_locked (vs_display s)"
    and "\<And>f. f \<in> set DQ \<Longrightarrow> has_stream s f" and "\<And>f. vs_img_backup s = Some f \<Longrightarrow> has_stream s f"
    and "holds xl_is (vs_streams s) sts" and "set sts \<subseteq> dom (vs_stream s)"
  shows "vo_is drv s FQ DQ h sts"
  using assms by (auto simp: vo_is_def)

lemma vo_keeps_refl [simp]: "vo_keeps s s"
  by (simp add: vo_keeps_def)

lemma vo_keeps_trans: "vo_keeps s t \<Longrightarrow> vo_keeps t u \<Longrightarrow> vo_keeps s u"
  by (auto simp: vo_keeps_def)

lemma vo_keeps_stream: "vo_keeps s t \<Longrightarrow> has_stream s f \<Longrightarrow> has_stream t f"
  by (simp add: vo_keeps_def)

lemma same_refs_refl [simp]: "same_refs s s"
  by (simp add: same_refs_def)

lemma same_refs_trans: "same_refs s t \<Longrightarrow> same_refs t u \<Longrightarrow> same_refs s u"
  by (simp add: same_refs_def)

lemma same_refs_refs: "same_refs s t \<Longrightarrow> refs t h = refs s h"
  by (rule ext) (simp add: same_refs_def refs_def)

text \<open>Fields that do not matter.\<close>

lemma vo_is_cong:
  assumes "vo_is drv s FQ DQ h sts"
    and "vs_frame t = vs_frame s" "vs_free t = vs_free s" "vs_display t = vs_display s" "vs_stream t = vs_stream s"
      "vs_streams t = vs_streams s" "vs_img_backup t = vs_img_backup s" "vs_last_frame t = vs_last_frame s"
  shows "vo_is drv t FQ DQ h sts" and "vo_keeps s t" and "same_refs s t"
proof -
  have hs: "has_stream t f = has_stream s f" for f using assms by (simp add: has_stream_def)
  have r: "refs t h = refs s h" using assms by (intro ext) (simp add: refs_def)
  show "vo_is drv t FQ DQ h sts" using assms by (simp add: vo_is_def hs r)
  show "vo_keeps s t" "same_refs s t" using assms by (simp_all add: vo_keeps_def same_refs_def hs)
qed

lemma has_stream_views: "views (vs_frame t) = views (vs_frame s) \<Longrightarrow> vs_stream t = vs_stream s \<Longrightarrow> has_stream s f \<Longrightarrow> has_stream t f"
proof -
  assume v: "views (vs_frame t) = views (vs_frame s)" and st: "vs_stream t = vs_stream s" and "has_stream s f"
  then obtain w x where w: "vs_frame s f = Some w" "vf_stream w = Some x" "x \<in> dom (vs_stream s)" by (auto simp: has_stream_def)
  obtain w' where "vs_frame t f = Some w'" "view w' = view w" using views_Some [OF v w(1)] by blast
  moreover from this(2) have "vf_stream w' = vf_stream w" by (metis view_simps(3))
  ultimately show ?thesis using w st by (auto simp: has_stream_def)
qed

lemma views_keeps: "views (vs_frame t) = views (vs_frame s) \<Longrightarrow> vs_stream t = vs_stream s \<Longrightarrow> vo_keeps s t"
  using has_stream_views [of t s] views_dom [of "vs_frame t" "vs_frame s"] by (auto simp: vo_keeps_def dom_def)

text \<open>A change of the frames and queues alone.\<close>

lemma vo_is_frames:
  assumes "vo_is drv s FQ DQ h sts" and "frames_ok drv fr qf qd FQ' DQ' (refs s h')" and "views fr = views (vs_frame s)"
    and "\<not> iq_locked qd" and "\<And>f. f \<in> set DQ' \<Longrightarrow> f \<in> set DQ \<or> has_stream s f"
  shows "vo_is drv (s\<lparr>vs_frame := fr, vs_free := qf, vs_display := qd\<rparr>) FQ' DQ' h' sts"
    and "vo_keeps s (s\<lparr>vs_frame := fr, vs_free := qf, vs_display := qd\<rparr>)"
proof -
  let ?t = "s\<lparr>vs_frame := fr, vs_free := qf, vs_display := qd\<rparr>"
  note D = vo_isD [OF assms(1)]
  show k: "vo_keeps s ?t" using assms(3) by (intro views_keeps) simp_all
  show "vo_is drv ?t FQ' DQ' h' sts"
    using assms(2,4) D vo_keeps_stream [OF k] by (intro vo_isI) (auto dest: assms(5))
qed

section \<open>References\<close>

lemma refs_more: "refs s (h(f := Suc (h f))) = (refs s h)(f := Suc (refs s h f))"
  by (rule ext) (simp add: refs_def)

lemma refs_less: "0 < (h f :: nat) \<Longrightarrow> refs s h = (refs s (h(f := h f - 1)))(f := Suc (refs s (h(f := h f - 1)) f))"
  by (rule ext) (simp add: refs_def)

lemma vo_frame_of:
  assumes "vo_is drv s FQ DQ h sts" and "0 < refs s h f \<or> f \<in> set DQ"
  obtains v where "vs_frame s f = Some v" and "f \<notin> set FQ" and "used_ok drv (refs s h f) (f \<in> set DQ) v"
  using frames_frame [OF vo_isD(1) [OF assms(1)] assms(2)] .

lemma inc_ok:
  assumes "vo_is drv s FQ DQ h sts" and "0 < refs s h f \<or> f \<in> set DQ"
  shows "\<exists>s'. vo_frame_inc_lock f s = Ret s' \<and> vo_is drv s' FQ DQ (h(f := Suc (h f))) sts \<and> vo_keeps s s' \<and> same_refs s s' \<and>
    views (vs_frame s') = views (vs_frame s) \<and> s' = s\<lparr>vs_frame := vs_frame s'\<rparr>"
proof -
  obtain v where v: "vs_frame s f = Some v" "f \<notin> set FQ" "used_ok drv (refs s h f) (f \<in> set DQ) v"
    using vo_frame_of [OF assms] .
  let ?v = "v\<lparr>vf_lock := vf_lock v + 1\<rparr>" and ?fr = "(vs_frame s)(f \<mapsto> v\<lparr>vf_lock := vf_lock v + 1\<rparr>)"
  have "used_ok drv (Suc (refs s h f)) (f \<in> set DQ) ?v" using v(3) by (simp add: used_ok_def shape_ok_def)
  then have "frames_ok drv ?fr (vs_free s) (vs_display s) FQ DQ (refs s (h(f := Suc (h f))))"
    unfolding refs_more using vo_isD(1) [OF assms(1)] v by (intro frames_write) simp_all
  from vo_is_frames [OF assms(1) this] v vo_isD(2) [OF assms(1)]
  have "vo_is drv (put_frame f ?v s) FQ DQ (h(f := Suc (h f))) sts" "vo_keeps s (put_frame f ?v s)"
    by (simp_all add: views_upd put_frame_def)
  then show ?thesis using v(1) by (simp add: vo_frame_inc_lock_def frame_at_def put_frame_def same_refs_def views_upd)
qed

lemma dec_ok:
  assumes "vo_is drv s FQ DQ h sts" and "0 < h f"
  shows "\<exists>s' FQ'. vo_frame_dec_lock f s = Ret s' \<and> vo_is drv s' FQ' DQ (h(f := h f - 1)) sts \<and> vo_keeps s s' \<and> same_refs s s' \<and>
    views (vs_frame s') = views (vs_frame s) \<and> s' = s\<lparr>vs_frame := vs_frame s', vs_free := vs_free s'\<rparr> \<and>
    FQ' = (if refs s h f = 1 \<and> f \<notin> set DQ then FQ @ [f] else FQ)"
proof -
  have r0: "0 < refs s h f" using assms(2) by (simp add: refs_def)
  obtain v where v: "vs_frame s f = Some v" "f \<notin> set FQ" "used_ok drv (refs s h f) (f \<in> set DQ) v"
    using vo_frame_of [OF assms(1)] r0 by blast
  let ?h = "h(f := h f - 1)" and ?v = "v\<lparr>vf_lock := vf_lock v - 1\<rparr>"
  note r = refs_less [where h = h and f = f and s = s, OF assms(2)]
  have rf: "refs s h f = Suc (refs s ?h f)" using assms(2) by (simp add: refs_def)
  note D = vo_isD [OF assms(1)]
  show ?thesis
  proof (cases "refs s h f = 1 \<and> f \<notin> set DQ")
    case True
    have l: "vf_lock v = 1" "vf_next v = None" using v(3) True by (simp_all add: used_ok_def)
    have "refs s ?h f = 0" using rf True by simp
    with r have "refs s h = (refs s ?h)(f := Suc 0)" by simp
    then have "frames_ok drv (vs_frame s) (vs_free s) (vs_display s) FQ DQ ((refs s ?h)(f := Suc 0))" using D(1) by (simp only:)
    from frames_append_free [OF this _ _ v(1) l(2), of "vf_lock v - 1"] rf True obtain fr qf where
      a: "vo_append_to_img_buf_queue_int f ((vs_frame s)(f \<mapsto> ?v), vs_free s) = Ret (fr, qf)" "iq_locked qf = iq_locked (vs_free s)"
        "views fr = views (vs_frame s)" "frames_ok drv fr qf (vs_display s) (FQ @ [f]) DQ (refs s ?h)" by auto
    let ?s = "s\<lparr>vs_frame := fr, vs_free := qf\<rparr>"
    from vo_is_frames [OF assms(1) a(4,3) D(2)] have "vo_is drv ?s (FQ @ [f]) DQ ?h sts" "vo_keeps s ?s" by simp_all
    moreover have "vo_frame_dec_lock f s = Ret ?s"
      using v(1) l a(1) by (simp add: vo_frame_dec_lock_def frame_at_def put_frame_def append_free_def)
    ultimately show ?thesis using True a by (intro exI [of _ ?s]) (simp add: same_refs_def)
  next
    case False
    let ?fr = "(vs_frame s)(f \<mapsto> ?v)"
    have u: "used_ok drv (refs s ?h f) (f \<in> set DQ) ?v"
      using v(3) False rf by (auto simp: used_ok_def shape_ok_def)
    then have "0 < vf_lock v - 1" by (simp add: used_ok_def)
    moreover have "frames_ok drv ?fr (vs_free s) (vs_display s) FQ DQ ((refs s h)(f := refs s ?h f))"
      using D(1) v u by (intro frames_write) simp_all
    moreover have "(refs s h)(f := refs s ?h f) = refs s ?h" by (subst r) simp
    ultimately have fo: "frames_ok drv ?fr (vs_free s) (vs_display s) FQ DQ (refs s ?h)" by simp
    let ?s = "put_frame f ?v s"
    from vo_is_frames [OF assms(1) fo _ D(2)] v(1) have "vo_is drv ?s FQ DQ ?h sts" "vo_keeps s ?s"
      by (simp_all add: views_upd put_frame_def)
    moreover have "vo_frame_dec_lock f s = Ret ?s"
      using v(1) \<open>0 < vf_lock v - 1\<close> by (simp add: vo_frame_dec_lock_def frame_at_def put_frame_def)
    ultimately show ?thesis using False v(1)
      by (intro exI [of _ ?s] exI [of _ FQ]) (auto simp: same_refs_def put_frame_def views_upd)
  qed
qed

section \<open>Frames and streams\<close>

lemma put_frame_ok:
  assumes "vo_is drv s FQ DQ h sts" and "vs_frame s f = Some v" and "f \<notin> set FQ" and "vf_next v' = vf_next v"
    and "vf_lock v' = vf_lock v" and "shape_ok drv v \<Longrightarrow> shape_ok drv v'"
    and "vf_stream v' = vf_stream v \<or> (\<exists>st. vf_stream v' = Some st \<and> st \<in> dom (vs_stream s))"
  shows "vo_is drv (put_frame f v' s) FQ DQ h sts" and "vo_keeps s (put_frame f v' s)" and "same_refs s (put_frame f v' s)"
proof -
  let ?t = "put_frame f v' s"
  note D = vo_isD [OF assms(1)]
  have "used_ok drv (refs s h f) (f \<in> set DQ) v" using frames_okD(6) [OF D(1) assms(2,3)] .
  then have "used_ok drv (refs s h f) (f \<in> set DQ) v'" using assms(4-6) by (simp add: used_ok_def)
  then have "frames_ok drv ((vs_frame s)(f \<mapsto> v')) (vs_free s) (vs_display s) FQ DQ ((refs s h)(f := refs s h f))"
    using D(1) assms(2-4) by (intro frames_write) simp_all
  then have fo: "frames_ok drv (vs_frame ?t) (vs_free ?t) (vs_display ?t) FQ DQ (refs ?t h)"
    by (simp add: put_frame_def)
  show k: "vo_keeps s ?t" using assms(2,7) by (auto simp: vo_keeps_def has_stream_def put_frame_def)
  show "vo_is drv ?t FQ DQ h sts"
    using fo D vo_keeps_stream [OF k] by (intro vo_isI) (simp_all add: put_frame_def)
  show "same_refs s ?t" by (simp add: same_refs_def put_frame_def)
qed

lemma put_stream_ok:
  assumes "vo_is drv s FQ DQ h sts" and "vs_stream s st = Some S0"
  shows "vo_is drv (put_stream st S s) FQ DQ h sts" and "vo_keeps s (put_stream st S s)" and "same_refs s (put_stream st S s)"
proof -
  let ?t = "put_stream st S s"
  note D = vo_isD [OF assms(1)]
  have r: "refs ?t h = refs s h" by (simp add: put_stream_def)
  have dom: "dom (vs_stream ?t) = dom (vs_stream s)" using assms(2) by (auto simp: put_stream_def)
  then show k: "vo_keeps s ?t" by (simp add: vo_keeps_def has_stream_def) (simp add: put_stream_def)
  show "vo_is drv ?t FQ DQ h sts"
    using D vo_keeps_stream [OF k] r dom by (intro vo_isI) (auto simp: put_stream_def)
  show "same_refs s ?t" by (simp add: same_refs_def put_stream_def)
qed

lemma vo_call_ok:
  assumes "vo_is drv s FQ DQ h sts"
  shows "vo_is drv (vo_call c s) FQ DQ h sts" and "vo_keeps s (vo_call c s)" and "same_refs s (vo_call c s)"
  using vo_is_cong [OF assms, of "vo_call c s"] by (simp_all add: vo_call_def)

lemma list_ok:
  assumes "vo_is drv s FQ DQ h sts" and "holds xl_is l sts'" and "set sts' \<subseteq> dom (vs_stream s)"
  shows "vo_is drv (s\<lparr>vs_streams := l\<rparr>) FQ DQ h sts'" and "vo_keeps s (s\<lparr>vs_streams := l\<rparr>)" and "same_refs s (s\<lparr>vs_streams := l\<rparr>)"
proof -
  let ?t = "s\<lparr>vs_streams := l\<rparr>"
  have hs: "has_stream ?t f = has_stream s f" for f by (simp add: has_stream_def)
  show "vo_is drv ?t FQ DQ h sts'" using vo_isD [OF assms(1)] assms(2,3) by (intro vo_isI) (auto simp: hs)
  show "vo_keeps s ?t" "same_refs s ?t" by (simp_all add: vo_keeps_def same_refs_def hs)
qed

lemma stream_of: "vo_is drv s FQ DQ h sts \<Longrightarrow> st \<in> set sts \<Longrightarrow> \<exists>S. vs_stream s st = Some S"
  using vo_isD(6) by fastforce

text \<open>A loop over the streams.\<close>

lemma for_streams_ok:
  assumes "vo_is drv s FQ DQ h sts" and "length sts < k"
    and "\<And>t st. vo_is drv t FQ DQ h sts \<Longrightarrow> vo_keeps s t \<Longrightarrow> same_refs s t \<Longrightarrow> J t \<Longrightarrow> st \<in> set sts \<Longrightarrow>
      \<exists>t'. body st t = Ret t' \<and> vo_is drv t' FQ DQ h sts \<and> vo_keeps t t' \<and> same_refs t t' \<and> J t'"
    and "J s" and "\<And>t l. J t \<Longrightarrow> J (t\<lparr>vs_streams := l\<rparr>)"
  shows "\<exists>s'. for_streams k body s = Ret s' \<and> vo_is drv s' FQ DQ h sts \<and> vo_keeps s s' \<and> same_refs s s' \<and> J s'"
proof -
  have "\<exists>t'. fold_all body xs t = Ret t' \<and> vo_is drv t' FQ DQ h sts \<and> vo_keeps s t' \<and> same_refs s t' \<and> J t'"
    if "vo_is drv t FQ DQ h sts" "vo_keeps s t" "same_refs s t" "J t" "set xs \<subseteq> set sts" for xs t
    using that
  proof (induction xs arbitrary: t)
    case (Cons x xs)
    have "x \<in> set sts" "set xs \<subseteq> set sts" using Cons.prems(5) by auto
    then obtain t1 where t1: "body x t = Ret t1" "vo_is drv t1 FQ DQ h sts" "vo_keeps t t1" "same_refs t t1" "J t1"
      using assms(3) [OF Cons.prems(1-4)] by blast
    show ?case using t1(1) Cons.IH [OF t1(2) vo_keeps_trans [OF Cons.prems(2) t1(3)] same_refs_trans [OF Cons.prems(3) t1(4)]
      t1(5) \<open>set xs \<subseteq> set sts\<close>] by simp
  qed simp
  from this [OF assms(1) _ _ assms(4), of sts] obtain t where
    t: "fold_all body sts s = Ret t" "vo_is drv t FQ DQ h sts" "vo_keeps s t" "same_refs s t" "J t" by auto
  obtain l where l: "visit_all xine_list_first_content xine_list_next_content body k (vs_streams s) s = Ret (t, l)" "holds xl_is l sts"
    using xl.holds_visit [OF vo_isD(5) [OF assms(1)] assms(2) t(1)] by blast
  note L = list_ok [OF t(2) l(2) vo_isD(6) [OF t(2)]]
  have "for_streams k body s = Ret (t\<lparr>vs_streams := l\<rparr>)" using l(1) by (simp add: for_streams_def)
  then show ?thesis using L(1) vo_keeps_trans [OF t(3) L(2)] same_refs_trans [OF t(4) L(3)] assms(5) [OF t(5)]
    by (intro exI [of _ "t\<lparr>vs_streams := l\<rparr>"] conjI)
qed

section \<open>The queues\<close>

lemma remove_display_ok:
  assumes "vo_is drv s FQ (f # DQ) h sts"
  shows "\<exists>s'. remove_display s = Ret (f, s') \<and> vo_is drv s' FQ DQ (h(f := Suc (h f))) sts \<and> vo_keeps s s' \<and> same_refs s s' \<and>
    has_stream s' f \<and> views (vs_frame s') = views (vs_frame s) \<and> s' = s\<lparr>vs_frame := vs_frame s', vs_display := vs_display s'\<rparr>"
proof -
  note D = vo_isD [OF assms]
  from frames_pop_display [OF D(1)] obtain fr qd where
    p: "queue_pop f (vs_frame s, vs_display s) = Ret (fr, qd)" "iq_locked qd = iq_locked (vs_display s)" "views fr = views (vs_frame s)"
      "frames_ok drv fr (vs_free s) qd FQ DQ (refs s (h(f := Suc (h f))))" unfolding refs_more by blast
  let ?s = "s\<lparr>vs_frame := fr, vs_display := qd\<rparr>"
  have "\<not> iq_locked qd" using p(2) D(2) by simp
  from vo_is_frames [OF assms p(4,3) this] have "vo_is drv ?s FQ DQ (h(f := Suc (h f))) sts" "vo_keeps s ?s" by auto
  moreover have "iq_first (vs_display s) = Some f" using queue_first [OF frames_okD(2) [OF D(1)]] by simp
  then have "remove_display s = Ret (f, ?s)" using p(1) D(2) by (simp add: remove_display_def vo_remove_from_img_buf_queue_int_def)
  moreover have "has_stream ?s f" using vo_keeps_stream [OF calculation(2)] D(3) [of f] by simp
  ultimately show ?thesis using p(3) by (intro exI [of _ ?s]) (simp add: same_refs_def)
qed

lemma append_display_ok:
  assumes "vo_is drv s FQ DQ h sts" and "0 < h f" and "f \<notin> set DQ" and "has_stream s f"
  shows "\<exists>s'. append_display f s = Ret s' \<and> vo_is drv s' FQ (DQ @ [f]) (h(f := h f - 1)) sts \<and> vo_keeps s s' \<and> same_refs s s' \<and>
    views (vs_frame s') = views (vs_frame s) \<and> s' = s\<lparr>vs_frame := vs_frame s', vs_display := vs_display s'\<rparr>"
proof -
  let ?h = "h(f := h f - 1)"
  note D = vo_isD [OF assms(1)] and r = refs_less [where h = h and f = f and s = s, OF assms(2)]
  have "frames_ok drv (vs_frame s) (vs_free s) (vs_display s) FQ DQ ((refs s ?h)(f := Suc (refs s ?h f)))" using D(1) r by (simp only:)
  from frames_append_display [OF this assms(3)] obtain fr qd where
    a: "vo_append_to_img_buf_queue_int f (vs_frame s, vs_display s) = Ret (fr, qd)" "iq_locked qd = iq_locked (vs_display s)"
      "views fr = views (vs_frame s)" "frames_ok drv fr (vs_free s) qd FQ (DQ @ [f]) (refs s ?h)" by blast
  let ?s = "s\<lparr>vs_frame := fr, vs_display := qd\<rparr>"
  have "\<not> iq_locked qd" using a(2) D(2) by simp
  from vo_is_frames [OF assms(1) a(4,3) this] assms(4) have "vo_is drv ?s FQ (DQ @ [f]) ?h sts" "vo_keeps s ?s" by auto
  then show ?thesis using a by (intro exI [of _ ?s]) (simp add: append_display_def same_refs_def)
qed

lemma first_free: "vo_is drv s FQ DQ h sts \<Longrightarrow> iq_first (vs_free s) = (case FQ of [] \<Rightarrow> None | x # _ \<Rightarrow> Some x)"
  using queue_first [OF frames_okD(1) [OF vo_isD(1)]] .

lemma first_display: "vo_is drv s FQ DQ h sts \<Longrightarrow> iq_first (vs_display s) = (case DQ of [] \<Rightarrow> None | x # _ \<Rightarrow> Some x)"
  using queue_first [OF frames_okD(2) [OF vo_isD(1)]] .

text \<open>A frame from the free queue, once it is formatted.\<close>

lemma pop_free_ok:
  assumes "vo_is drv s (f # FQ) DQ h sts"
  shows "\<exists>v fr qf. vs_frame s f = Some v \<and> queue_pop f (vs_frame s, vs_free s) = Ret (fr, qf) \<and> iq_locked qf = iq_locked (vs_free s) \<and>
    fr = (vs_frame s)(f \<mapsto> v\<lparr>vf_next := None\<rparr>) \<and> f \<notin> set FQ \<and> f \<notin> set DQ \<and> refs s h f = 0 \<and>
    (\<forall>v' cs. vf_next v' = None \<and> vf_lock v' = 1 \<and> shape_ok drv v' \<and>
       (vf_stream v' = vf_stream v \<or> (\<exists>st. vf_stream v' = Some st \<and> st \<in> dom (vs_stream s))) \<longrightarrow>
       (let t = s\<lparr>vs_frame := fr(f \<mapsto> v'), vs_free := qf, vs_calls := cs\<rparr> in
          vo_is drv t FQ DQ (h(f := Suc (h f))) sts \<and> vo_keeps s t \<and> same_refs s t))"
proof -
  note D = vo_isD [OF assms]
  from frames_pop_free [OF D(1)] obtain v fr qf where
    p: "vs_frame s f = Some v" "queue_pop f (vs_frame s, vs_free s) = Ret (fr, qf)" "iq_locked qf = iq_locked (vs_free s)"
      "fr = (vs_frame s)(f \<mapsto> v\<lparr>vf_next := None\<rparr>)" "f \<notin> set FQ" "f \<notin> set DQ" "refs s h f = 0"
      "\<forall>v'. used_ok drv 1 False v' \<longrightarrow> frames_ok drv (fr(f \<mapsto> v')) qf (vs_display s) FQ DQ ((refs s h)(f := 1))"
    by (elim exE conjE)
  have "vo_is drv (s\<lparr>vs_frame := fr(f \<mapsto> v'), vs_free := qf, vs_calls := cs\<rparr>) FQ DQ (h(f := Suc (h f))) sts \<and>
      vo_keeps s (s\<lparr>vs_frame := fr(f \<mapsto> v'), vs_free := qf, vs_calls := cs\<rparr>) \<and>
      same_refs s (s\<lparr>vs_frame := fr(f \<mapsto> v'), vs_free := qf, vs_calls := cs\<rparr>)" (is "vo_is drv ?t _ _ _ _ \<and> _")
    if v': "vf_next v' = None" "vf_lock v' = 1" "shape_ok drv v'"
      "vf_stream v' = vf_stream v \<or> (\<exists>st. vf_stream v' = Some st \<and> st \<in> dom (vs_stream s))" for v' cs
  proof -
    have "refs ?t (h(f := Suc (h f))) = (refs s h)(f := 1)" using p(7) refs_more [of s h f] by (simp add: refs_def fun_eq_iff)
    moreover have "used_ok drv 1 False v'" using v' by (simp add: used_ok_def)
    ultimately have fo: "frames_ok drv (vs_frame ?t) (vs_free ?t) (vs_display ?t) FQ DQ (refs ?t (h(f := Suc (h f))))"
      using p(8) by simp
    have k: "vo_keeps s ?t" using v'(4) p(1,4) by (auto simp: vo_keeps_def has_stream_def)
    have "vo_is drv ?t FQ DQ (h(f := Suc (h f))) sts"
      using fo D vo_keeps_stream [OF k] by (intro vo_isI) simp_all
    then show ?thesis using k p(3) by (simp add: same_refs_def)
  qed
  then show ?thesis using p(1-7) unfolding Let_def by blast
qed

end
