(* ===== verification/Vo_Ops.thy ===== *)
theory Vo_Ops
  imports Vo_Inv
begin

text \<open>
  Each operation of the video output under the invariant: it returns, keeps the invariant, and
  what it does with the queue of waiting frames and with the references.
\<close>

definition moves :: "vo_driver \<Rightarrow> nat list \<Rightarrow> vos \<Rightarrow> vos \<Rightarrow> nat list \<Rightarrow> nat list \<Rightarrow> (nat \<Rightarrow> nat) \<Rightarrow> bool" where
  "moves drv sts s t FQ DQ h \<longleftrightarrow> vo_is drv t FQ DQ h sts \<and> vo_keeps s t \<and> same_refs s t"

lemma movesI: "vo_is drv t FQ DQ h sts \<Longrightarrow> vo_keeps s t \<Longrightarrow> same_refs s t \<Longrightarrow> moves drv sts s t FQ DQ h"
  by (simp add: moves_def)

lemma moves_trans: "moves drv sts s t FQ DQ h \<Longrightarrow> moves drv sts t u FQ' DQ' h' \<Longrightarrow> moves drv sts s u FQ' DQ' h'"
  unfolding moves_def using vo_keeps_trans same_refs_trans by blast

lemma moves_refl: "vo_is drv s FQ DQ h sts \<Longrightarrow> moves drv sts s s FQ DQ h"
  by (simp add: moves_def)

lemma movesD:
  assumes "moves drv sts s t FQ DQ h"
  shows "vo_is drv t FQ DQ h sts" and "vo_keeps s t" and "same_refs s t" and "has_stream s f \<Longrightarrow> has_stream t f"
    and "vs_img_backup t = vs_img_backup s" and "vs_last_frame t = vs_last_frame s" and "iq_locked (vs_free t) = iq_locked (vs_free s)"
  using assms vo_keeps_stream [of s t f] by (simp_all add: moves_def same_refs_def)

section \<open>Getting, processing and copying frames\<close>

lemma get_frame_ok:
  assumes "vo_is drv s (f # FQ) DQ h sts" and "\<not> iq_locked (vs_free s)"
  shows "\<exists>s' v. vo_get_frame drv width height ratio format flags s = Ret (f, s') \<and> moves drv sts s s' FQ DQ (h(f := Suc (h f))) \<and>
    vs_frame s' f = Some v \<and> vf_lock v = 1 \<and> vf_width v = sint width \<and> vf_height v = sint height \<and> vf_format v = format \<and>
    vf_picture v = drv_format drv width height format flags \<and> \<not> vf_bad_frame v \<and> \<not> vf_proc_called v \<and> h f = 0 \<and> f \<notin> set DQ"
proof -
  obtain v fr qf where p: "vs_frame s f = Some v" "queue_pop f (vs_frame s, vs_free s) = Ret (fr, qf)"
    "fr = (vs_frame s)(f \<mapsto> v\<lparr>vf_next := None\<rparr>)" "f \<notin> set DQ" "refs s h f = 0"
    "\<forall>v' cs. vf_next v' = None \<and> vf_lock v' = 1 \<and> shape_ok drv v' \<and>
       (vf_stream v' = vf_stream v \<or> (\<exists>st. vf_stream v' = Some st \<and> st \<in> dom (vs_stream s))) \<longrightarrow>
       (let t = s\<lparr>vs_frame := fr(f \<mapsto> v'), vs_free := qf, vs_calls := cs\<rparr> in
          vo_is drv t FQ DQ (h(f := Suc (h f))) sts \<and> vo_keeps s t \<and> same_refs s t)"
    using pop_free_ok [OF assms(1)] by blast
  let ?v = "v\<lparr>vf_next := None, vf_lock := 1, vf_width := sint width, vf_height := sint height,
          vf_ratio := (if fst ratio * snd ratio \<le> 0 then (uint width, uint height) else ratio),
          vf_format := format, vf_flags := flags, vf_proc_called := False, vf_bad_frame := False,
          vf_progressive_frame := False, vf_repeat_first_field := False, vf_top_field_first := True,
          vf_macroblocks := None, vf_extra_info := extra_info_reset, vf_picture := drv_format drv width height format flags\<rparr>"
  let ?s = "s\<lparr>vs_frame := fr(f \<mapsto> ?v), vs_free := qf, vs_calls := vs_calls s @ [V_update_format f]\<rparr>"
  have "iq_first (vs_free s) = Some f" using first_free [OF assms(1)] by simp
  then have r: "vo_get_frame drv width height ratio format flags s = Ret (f, ?s)"
    using p(1-3) assms(2)
    by (simp add: vo_get_frame_def remove_free_def vo_remove_from_img_buf_queue_int_def frame_at_def update_frame_format_def
        put_frame_def vo_call_def)
  have "shape_ok drv ?v" unfolding shape_ok_def by (intro exI [of _ width] exI [of _ height]) simp
  then have "moves drv sts s ?s FQ DQ (h(f := Suc (h f)))"
    using p(6) [rule_format, of ?v "vs_calls s @ [V_update_format f]"] by (simp add: moves_def Let_def)
  moreover have "h f = 0" using p(5) by (simp add: refs_def)
  ultimately show ?thesis using r p(4) by (intro exI [of _ ?s] exI [of _ ?v]) simp
qed

lemma driver_proc_ok:
  assumes "vo_is drv s FQ DQ h sts" and "vs_frame s f = Some v" and "f \<notin> set FQ"
  shows "\<exists>s' p. vo_frame_driver_proc drv f s = Ret s' \<and> moves drv sts s s' FQ DQ h \<and>
    vs_frame s' = (vs_frame s)(f \<mapsto> v\<lparr>vf_proc_called := p\<rparr>) \<and> s' = s\<lparr>vs_frame := vs_frame s', vs_calls := vs_calls s'\<rparr>"
proof -
  have "\<exists>s' p. vo_frame_driver_proc drv f s = Ret s' \<and> vs_frame s' = (vs_frame s)(f \<mapsto> v\<lparr>vf_proc_called := p\<rparr>) \<and>
      s' = s\<lparr>vs_frame := vs_frame s', vs_calls := vs_calls s'\<rparr>"
  proof (cases "vf_has_proc_frame v")
    case True
    then show ?thesis using assms(2)
      by (auto simp: vo_frame_driver_proc_def frame_at_def put_frame_def vo_call_def Let_def)
  next
    case False
    have id: "\<exists>p. vs_frame s = (vs_frame s)(f \<mapsto> v\<lparr>vf_proc_called := p\<rparr>)"
      using assms(2) by (intro exI [of _ "vf_proc_called v"]) (simp add: fun_upd_idem)
    show ?thesis
    proof (cases "vf_proc_called v \<or> \<not> vf_has_proc_slice v")
      case True
      then have "vo_frame_driver_proc drv f s = Ret s" using assms(2) False
        by (auto simp: vo_frame_driver_proc_def frame_at_def)
      then show ?thesis using id by simp
    next
      case False': False
      then show ?thesis using assms(2) False
        by (auto simp: vo_frame_driver_proc_def frame_at_def put_frame_def Let_def)
    qed
  qed
  then obtain s' p where r: "vo_frame_driver_proc drv f s = Ret s'" "vs_frame s' = (vs_frame s)(f \<mapsto> v\<lparr>vf_proc_called := p\<rparr>)"
    "s' = s\<lparr>vs_frame := vs_frame s', vs_calls := vs_calls s'\<rparr>" by blast
  let ?t = "put_frame f (v\<lparr>vf_proc_called := p\<rparr>) s"
  note P = put_frame_ok [OF assms, of "v\<lparr>vf_proc_called := p\<rparr>"]
  have t: "moves drv sts s ?t FQ DQ h" using P by (intro movesI) (simp_all add: shape_ok_def)
  have s': "s' = ?t\<lparr>vs_calls := vs_calls s'\<rparr>" by (subst r(3)) (simp add: put_frame_def r(2))
  have "vs_frame s' = vs_frame ?t" "vs_free s' = vs_free ?t" "vs_display s' = vs_display ?t" "vs_stream s' = vs_stream ?t"
      "vs_streams s' = vs_streams ?t" "vs_img_backup s' = vs_img_backup ?t" "vs_last_frame s' = vs_last_frame ?t"
    by (subst s', simp)+
  from vo_is_cong [OF movesD(1) [OF t] this] have "moves drv sts ?t s' FQ DQ h" by (rule movesI)
  from moves_trans [OF t this] r show ?thesis by blast
qed


definition copy_of :: "vframe \<Rightarrow> vframe \<Rightarrow> bool" where
  "copy_of v d \<longleftrightarrow> vf_lock d = 1 \<and> vf_time d = \<lparr>fr_pts = 0, fr_duration = fr_duration (vf_time v), fr_vpts = 0\<rparr> \<and>
     vf_stream d = vf_stream v \<and> vf_extra_info d = vf_extra_info v \<and> vf_width d = vf_width v \<and> vf_height d = vf_height v \<and>
     vf_ratio d = vf_ratio v \<and> vf_format d = vf_format v \<and> \<not> vf_bad_frame d \<and> \<not> vf_proc_called d \<and>
     (\<exists>d0. copy_picture v d0 = Ret (vf_picture d))"

lemma duplicate_ok:
  assumes "driver_ok drv" and "vo_is drv s (d # FQ) DQ h sts" and "0 < refs s h f \<or> f \<in> set DQ" and "has_stream s f"
  shows "\<exists>s' v w. duplicate_frame drv f s = Ret (Some d, s') \<and> moves drv sts s s' FQ DQ (h(d := Suc (h d))) \<and> d \<noteq> f \<and>
    vs_frame s f = Some v \<and> vs_frame s' d = Some w \<and> copy_of v w \<and> has_stream s' d \<and> h d = 0 \<and> d \<notin> set DQ \<and> d \<notin> set FQ \<and>
    (\<forall>g. g \<noteq> d \<longrightarrow> vs_frame s' g = vs_frame s g) \<and>
    s' = s\<lparr>vs_frame := vs_frame s', vs_free := vs_free s', vs_calls := vs_calls s'\<rparr>"
proof -
  obtain v where v: "vs_frame s f = Some v" "f \<notin> set (d # FQ)" "used_ok drv (refs s h f) (f \<in> set DQ) v"
    using vo_frame_of [OF assms(2,3)] .
  obtain st where st: "vf_stream v = Some st" "st \<in> dom (vs_stream s)" using assms(4) v(1) by (auto simp: has_stream_def)
  have df: "d \<noteq> f" using v(2) by auto
  have fits: "fits (vf_height v) (vf_format v) (vf_picture v)" using shape_fits [OF assms(1)] v(3) by (simp add: used_ok_def)
  obtain W H where wh: "vf_width v = sint (W :: u32)" "vf_height v = sint (H :: u32)"
    "sizes (vf_picture v) = sizes (drv_format drv W H (vf_format v) (vf_flags v))" using v(3) by (auto simp: used_ok_def shape_ok_def)
  obtain u fr qf where p: "vs_frame s d = Some u" "queue_pop d (vs_frame s, vs_free s) = Ret (fr, qf)"
    "fr = (vs_frame s)(d \<mapsto> u\<lparr>vf_next := None\<rparr>)" "d \<notin> set DQ" "d \<notin> set FQ" "refs s h d = 0"
    "\<forall>v' cs. vf_next v' = None \<and> vf_lock v' = 1 \<and> shape_ok drv v' \<and>
       (vf_stream v' = vf_stream u \<or> (\<exists>st. vf_stream v' = Some st \<and> st \<in> dom (vs_stream s))) \<longrightarrow>
       (let t = s\<lparr>vs_frame := fr(d \<mapsto> v'), vs_free := qf, vs_calls := cs\<rparr> in
          vo_is drv t FQ DQ (h(d := Suc (h d))) sts \<and> vo_keeps s t \<and> same_refs s t)"
    using pop_free_ok [OF assms(2)] by blast
  let ?d = "u\<lparr>vf_next := None, vf_lock := 1, vf_width := vf_width v, vf_height := vf_height v, vf_ratio := vf_ratio v,
     vf_format := vf_format v, vf_flags := vf_flags v OR VO_BOTH_FIELDS,
     vf_picture := drv_format drv W H (vf_format v) (vf_flags v OR VO_BOTH_FIELDS)\<rparr>"
  have sz: "sizes (vf_picture ?d) = sizes (vf_picture v)" using assms(1) wh(3) unfolding driver_ok_def by simp
  obtain pic where pic: "copy_picture v ?d = Ret pic" "sizes pic = sizes (vf_picture v)" using copy_picture_ok [OF fits sz] by blast
  let ?w = "?d\<lparr>vf_picture := pic, vf_bad_frame := False,
     vf_time := \<lparr>fr_pts = 0, fr_duration = fr_duration (vf_time v), fr_vpts = 0\<rparr>,
     vf_proc_called := False, vf_stream := vf_stream v, vf_extra_info := vf_extra_info v\<rparr>"
  let ?s = "s\<lparr>vs_frame := fr(d \<mapsto> ?w), vs_free := qf, vs_calls := vs_calls s @ [V_update_format d]\<rparr>"
  have "iq_first (vs_free s) = Some d" using first_free [OF assms(2)] by simp
  then have r: "duplicate_frame drv f s = Ret (Some d, ?s)"
    using p(1-3) v(1) df pic(1) wh(1,2)
    by (simp add: duplicate_frame_def frame_at_def update_frame_format_def put_frame_def vo_call_def)
  have "shape_ok drv ?w" unfolding shape_ok_def using pic(2) sz wh by (intro exI [of _ W] exI [of _ H]) simp
  then have m: "moves drv sts s ?s FQ DQ (h(d := Suc (h d)))"
    using p(7) [rule_format, of ?w "vs_calls s @ [V_update_format d]"] st by (simp add: moves_def Let_def)
  have "h d = 0" using p(6) by (simp add: refs_def)
  moreover have "has_stream ?s d" using st by (simp add: has_stream_def)
  ultimately show ?thesis using r m df v(1) p(3-5)
    by (intro exI [of _ ?s] exI [of _ v] exI [of _ ?w]) (auto simp: copy_of_def intro: pic(1))
qed

lemma duplicate_none:
  "vo_is drv s [] DQ h sts \<Longrightarrow> duplicate_frame drv f s = Ret (None, s)"
  using first_free by (fastforce simp: duplicate_frame_def)

section \<open>The backup and the last frame\<close>

lemma refs_give_backup: "vs_img_backup s = Some b \<Longrightarrow> refs (s\<lparr>vs_img_backup := None\<rparr>) (h(b := Suc (h b))) = refs s h"
  by (rule ext) (simp add: refs_def)

lemma refs_give_last: "vs_last_frame s = Some b \<Longrightarrow> refs (s\<lparr>vs_last_frame := None\<rparr>) (h(b := Suc (h b))) = refs s h"
  by (rule ext) (simp add: refs_def)

lemma refs_take_backup: "vs_img_backup s = None \<Longrightarrow> 0 < h b \<Longrightarrow> refs (s\<lparr>vs_img_backup := Some b\<rparr>) (h(b := h b - 1)) = refs s h"
  by (rule ext) (auto simp: refs_def)

lemma refs_take_last: "vs_last_frame s = None \<Longrightarrow> 0 < h b \<Longrightarrow> refs (s\<lparr>vs_last_frame := Some b\<rparr>) (h(b := h b - 1)) = refs s h"
  by (rule ext) (auto simp: refs_def)

text \<open>A reference changes its holder.\<close>

lemma holder_ok:
  assumes "vo_is drv s FQ DQ h sts"
    and "vs_frame t = vs_frame s" "vs_free t = vs_free s" "vs_display t = vs_display s" "vs_stream t = vs_stream s" "vs_streams t = vs_streams s"
    and "refs t h' = refs s h" and "\<And>b. vs_img_backup t = Some b \<Longrightarrow> has_stream s b"
  shows "vo_is drv t FQ DQ h' sts" and "vo_keeps s t"
proof -
  have hs: "has_stream t f = has_stream s f" for f using assms by (simp add: has_stream_def)
  show "vo_is drv t FQ DQ h' sts" using assms(1-7) by (auto simp: vo_is_def hs dest: assms(8))
  show "vo_keeps s t" using assms by (simp add: vo_keeps_def hs)
qed

lemma dec_lock_cong:
  "vs_frame t = vs_frame s \<Longrightarrow> vs_free t = vs_free s \<Longrightarrow> vo_frame_dec_lock f t = Ret t' \<Longrightarrow>
   vo_frame_dec_lock f s = Ret (s\<lparr>vs_frame := vs_frame t', vs_free := vs_free t'\<rparr>)"
  (is "_ \<Longrightarrow> _ \<Longrightarrow> _ \<Longrightarrow> ?thesis")
proof -
  assume t: "vs_frame t = vs_frame s" "vs_free t = vs_free s" "vo_frame_dec_lock f t = Ret t'"
  obtain v where v: "vs_frame s f = Some v" using t by (cases "vs_frame s f") (simp_all add: vo_frame_dec_lock_def frame_at_def)
  show ?thesis
  proof (cases "vf_lock v = 1")
    case True
    then show ?thesis using t v
      by (cases "vo_append_to_img_buf_queue_int f ((vs_frame s)(f \<mapsto> v\<lparr>vf_lock := vf_lock v - 1\<rparr>), vs_free s)")
        (auto simp: vo_frame_dec_lock_def frame_at_def put_frame_def append_free_def)
  next
    case False
    then show ?thesis using t v by (auto simp: vo_frame_dec_lock_def frame_at_def put_frame_def)
  qed
qed

text \<open>
  The reference of \<open>t\<close> ends; \<open>t\<close> is \<open>s\<close> with the holder
  forgotten.
\<close>

lemma release_ok:
  assumes "vo_is drv s FQ DQ h sts"
    and "vs_frame t = vs_frame s" "vs_free t = vs_free s" "vs_display t = vs_display s" "vs_stream t = vs_stream s" "vs_streams t = vs_streams s"
    and "refs t (h(b := Suc (h b))) = refs s h" and "\<And>b. vs_img_backup t = Some b \<Longrightarrow> has_stream s b"
  shows "\<exists>s' FQ'. vo_frame_dec_lock b s = Ret s' \<and> vo_is drv (t\<lparr>vs_frame := vs_frame s', vs_free := vs_free s'\<rparr>) FQ' DQ h sts \<and>
    vo_keeps s (t\<lparr>vs_frame := vs_frame s', vs_free := vs_free s'\<rparr>) \<and> s' = s\<lparr>vs_frame := vs_frame s', vs_free := vs_free s'\<rparr> \<and>
    iq_locked (vs_free s') = iq_locked (vs_free s) \<and> views (vs_frame s') = views (vs_frame s)"
proof -
  note H = holder_ok [OF assms]
  from dec_ok [OF H(1), of b] obtain t' FQ' where
    d: "vo_frame_dec_lock b t = Ret t'" "vo_is drv t' FQ' DQ h sts" "vo_keeps t t'" "same_refs t t'"
      "views (vs_frame t') = views (vs_frame t)" "t' = t\<lparr>vs_frame := vs_frame t', vs_free := vs_free t'\<rparr>" by auto
  let ?s = "s\<lparr>vs_frame := vs_frame t', vs_free := vs_free t'\<rparr>"
  have "vo_frame_dec_lock b s = Ret ?s" using dec_lock_cong [OF assms(2,3) d(1)] .
  then show ?thesis using d(2-6) assms(2,3) vo_keeps_trans [OF H(2) d(3)]
    by (intro exI [of _ ?s] exI [of _ FQ']) (simp add: same_refs_def)
qed

lemma release_backup_ok:
  assumes "vo_is drv s FQ DQ h sts" and "vs_img_backup s = Some b"
  shows "\<exists>s' FQ'. vo_frame_dec_lock b s = Ret s' \<and> vo_is drv (s'\<lparr>vs_img_backup := None\<rparr>) FQ' DQ h sts \<and>
    vo_keeps s (s'\<lparr>vs_img_backup := None\<rparr>) \<and> s' = s\<lparr>vs_frame := vs_frame s', vs_free := vs_free s'\<rparr> \<and>
    iq_locked (vs_free s') = iq_locked (vs_free s) \<and> views (vs_frame s') = views (vs_frame s)"
proof -
  from release_ok [OF assms(1) _ _ _ _ _ refs_give_backup [OF assms(2)]] obtain s' FQ' where
    r: "vo_frame_dec_lock b s = Ret s'" "vo_is drv (s\<lparr>vs_img_backup := None, vs_frame := vs_frame s', vs_free := vs_free s'\<rparr>) FQ' DQ h sts"
      "vo_keeps s (s\<lparr>vs_img_backup := None, vs_frame := vs_frame s', vs_free := vs_free s'\<rparr>)"
      "s' = s\<lparr>vs_frame := vs_frame s', vs_free := vs_free s'\<rparr>" "iq_locked (vs_free s') = iq_locked (vs_free s)"
      "views (vs_frame s') = views (vs_frame s)" by auto
  have "s'\<lparr>vs_img_backup := None\<rparr> = s\<lparr>vs_img_backup := None, vs_frame := vs_frame s', vs_free := vs_free s'\<rparr>" by (subst r(4)) simp
  then show ?thesis using r by (intro exI [of _ s'] exI [of _ FQ']) simp
qed

lemma release_last_ok:
  assumes "vo_is drv s FQ DQ h sts"
  shows "\<exists>s' FQ'. release_last s = Ret s' \<and> vo_is drv (s'\<lparr>vs_last_frame := None\<rparr>) FQ' DQ h sts \<and>
    vo_keeps s (s'\<lparr>vs_last_frame := None\<rparr>) \<and> s' = s\<lparr>vs_frame := vs_frame s', vs_free := vs_free s'\<rparr> \<and>
    iq_locked (vs_free s') = iq_locked (vs_free s) \<and> views (vs_frame s') = views (vs_frame s)"
proof (cases "vs_last_frame s")
  case None
  then have eq: "s\<lparr>vs_last_frame := None\<rparr> = s" by simp
  show ?thesis using assms by (intro exI [of _ s] exI [of _ FQ]) (simp add: release_last_def None eq)
next
  case (Some b)
  from release_ok [OF assms _ _ _ _ _ refs_give_last [OF Some]] vo_isD(4) [OF assms] obtain s' FQ' where
    r: "vo_frame_dec_lock b s = Ret s'" "vo_is drv (s\<lparr>vs_last_frame := None, vs_frame := vs_frame s', vs_free := vs_free s'\<rparr>) FQ' DQ h sts"
      "vo_keeps s (s\<lparr>vs_last_frame := None, vs_frame := vs_frame s', vs_free := vs_free s'\<rparr>)"
      "s' = s\<lparr>vs_frame := vs_frame s', vs_free := vs_free s'\<rparr>" "iq_locked (vs_free s') = iq_locked (vs_free s)"
      "views (vs_frame s') = views (vs_frame s)" by auto
  have "s'\<lparr>vs_last_frame := None\<rparr> = s\<lparr>vs_last_frame := None, vs_frame := vs_frame s', vs_free := vs_free s'\<rparr>" by (subst r(4)) simp
  then show ?thesis using r Some by (intro exI [of _ s'] exI [of _ FQ']) (simp add: release_last_def)
qed

end
