(* ===== verification/Vo_Expire.thy ===== *)
theory Vo_Expire
  imports Vo_Ops
begin

text \<open>
  What the output loop does with the waiting frames: which are thrown away, which one is shown,
  which one is kept for a still picture.
\<close>

section \<open>Throwing frames away\<close>

text \<open>
  How many frames the loop takes from the front of the queue: it goes on while the frame is too
  old, up to a first frame after a seek. \<open>diff\<close> is the age of the frame before.
\<close>

fun expired :: "bool \<Rightarrow> int \<Rightarrow> int \<Rightarrow> vframe list \<Rightarrow> nat" where
  "expired flush cur diff [] = 0"
| "expired flush cur diff (v # vs) =
     (if (diff > fr_duration (vf_time v) \<or> flush) \<and> \<not> vf_is_first v \<and> (cur - fr_vpts (vf_time v) > fr_duration (vf_time v) \<or> flush)
      then Suc (expired flush cur (cur - fr_vpts (vf_time v)) vs) else 0)"

lemma expired_le: "expired flush cur diff vs \<le> length vs"
  by (induction vs arbitrary: diff) auto

lemma expired_old:
  "i < expired flush cur diff vs \<Longrightarrow> \<not> vf_is_first (vs ! i) \<and> (flush \<or> cur - fr_vpts (vf_time (vs ! i)) > fr_duration (vf_time (vs ! i)))"
proof (induction vs arbitrary: diff i)
  case (Cons v vs)
  then show ?case by (cases i) (auto split: if_splits)
qed simp

text \<open>Where it stops with frames of one duration: at a first frame or one that is not too old.\<close>

lemma expired_stops:
  assumes "\<forall>v \<in> set vs. fr_duration (vf_time v) = d" and "d < diff \<or> flush" and "expired flush cur diff vs < length vs"
  shows "vf_is_first (vs ! expired flush cur diff vs) \<or>
    \<not> flush \<and> cur - fr_vpts (vf_time (vs ! expired flush cur diff vs)) \<le> fr_duration (vf_time (vs ! expired flush cur diff vs))"
  using assms
proof (induction vs arbitrary: diff)
  case (Cons v vs)
  show ?case
  proof (cases "vf_is_first v \<or> \<not> flush \<and> cur - fr_vpts (vf_time v) \<le> d")
    case True
    then show ?thesis using Cons.prems(1) by auto
  next
    case False
    then show ?thesis using Cons.prems Cons.IH [of "cur - fr_vpts (vf_time v)"]
      by (cases flush) auto
  qed
qed simp

definition shown_frames :: "vos \<Rightarrow> nat list \<Rightarrow> vframe list" where
  "shown_frames s fs = map (the \<circ> views (vs_frame s)) fs"

lemma tell_position_ok:
  assumes "vo_is drv s FQ DQ h sts" and "has_stream s f"
  shows "\<exists>s'. tell_position f s = Ret s' \<and> moves drv sts s s' FQ DQ h \<and> s' = s\<lparr>vs_stream := vs_stream s'\<rparr>"
proof -
  obtain v st S where v: "vs_frame s f = Some v" "vf_stream v = Some st" "vs_stream s st = Some S"
    using assms(2) by (auto simp: has_stream_def)
  then show ?thesis using put_stream_ok [OF assms(1) v(3)]
    by (simp add: tell_position_def frame_at_def stream_at_def moves_def) (simp add: put_stream_def)
qed

lemma drop_frame_ok:
  assumes "vo_is drv s FQ DQ h sts" and "0 < h f" and "has_stream s f"
  shows "\<exists>s' FQ'. drop_frame f s = Ret s' \<and> vo_is drv s' FQ' DQ (h(f := h f - 1)) sts \<and> vo_keeps s s' \<and>
    iq_locked (vs_free s') = iq_locked (vs_free s) \<and> views (vs_frame s') = views (vs_frame s) \<and>
    s' = s\<lparr>vs_frame := vs_frame s', vs_free := vs_free s', vs_img_backup := vs_img_backup s', vs_redraw_needed := vs_redraw_needed s'\<rparr> \<and>
    vs_img_backup s' = (if vs_discard_frames s \<noteq> 0 then (if vs_img_backup s = None then Some f else vs_img_backup s)
                        else if DQ = [] then Some f else vs_img_backup s)"
proof -
  have take: "vo_is drv (t\<lparr>vs_img_backup := Some f\<rparr>) FQ' DQ (h(f := h f - 1)) sts \<and> vo_keeps t (t\<lparr>vs_img_backup := Some f\<rparr>)"
    if "vo_is drv t FQ' DQ h sts" "vs_img_backup t = None" "has_stream t f" for t FQ'
    using holder_ok [OF that(1), of "t\<lparr>vs_img_backup := Some f\<rparr>", OF _ _ _ _ _ refs_take_backup [where h = h and b = f, OF that(2) assms(2)]] that(3) by auto
  have dec: "\<exists>s' FQ'. vo_frame_dec_lock f s = Ret s' \<and> vo_is drv s' FQ' DQ (h(f := h f - 1)) sts \<and> vo_keeps s s' \<and>
      iq_locked (vs_free s') = iq_locked (vs_free s) \<and> views (vs_frame s') = views (vs_frame s) \<and>
      s' = s\<lparr>vs_frame := vs_frame s', vs_free := vs_free s', vs_img_backup := vs_img_backup s', vs_redraw_needed := vs_redraw_needed s'\<rparr> \<and>
      vs_img_backup s' = vs_img_backup s"
  proof -
    obtain s' FQ' where d: "vo_frame_dec_lock f s = Ret s'" "vo_is drv s' FQ' DQ (h(f := h f - 1)) sts" "vo_keeps s s'"
      "same_refs s s'" "views (vs_frame s') = views (vs_frame s)" "s' = s\<lparr>vs_frame := vs_frame s', vs_free := vs_free s'\<rparr>"
      using dec_ok [OF assms(1,2)] by blast
    have "vs_redraw_needed s' = vs_redraw_needed s" by (subst d(6)) simp
    then show ?thesis using d by (intro exI [of _ s'] exI [of _ FQ']) (simp add: same_refs_def)
  qed
  have empty: "iq_first (vs_display s) = None \<longleftrightarrow> DQ = []" using first_display [OF assms(1)] by (cases DQ) auto
  show ?thesis
  proof (cases "vs_discard_frames s \<noteq> 0")
    case True
    then show ?thesis using dec take [OF assms(1) _ assms(3)]
      by (cases "vs_img_backup s") (auto simp: drop_frame_def)
  next
    case keep: False
    show ?thesis
    proof (cases "DQ = []")
      case True
      show ?thesis
      proof (cases "vs_img_backup s")
        case None
        let ?s = "s\<lparr>vs_img_backup := Some f, vs_redraw_needed := 4\<rparr>"
        note C = vo_is_cong [OF conjunct1 [OF take [OF assms(1) None assms(3)]], of ?s]
        have "vo_keeps s ?s" using vo_keeps_trans [OF conjunct2 [OF take [OF assms(1) None assms(3)]] C(2)] by simp
        then show ?thesis using C(1) keep True None empty
          by (intro exI [of _ ?s] exI [of _ FQ]) (simp add: drop_frame_def)
      next
        case (Some b)
        obtain s1 FQ' where r: "vo_frame_dec_lock b s = Ret s1" "vo_is drv (s1\<lparr>vs_img_backup := None\<rparr>) FQ' DQ h sts"
          "vo_keeps s (s1\<lparr>vs_img_backup := None\<rparr>)" "s1 = s\<lparr>vs_frame := vs_frame s1, vs_free := vs_free s1\<rparr>"
          "iq_locked (vs_free s1) = iq_locked (vs_free s)" "views (vs_frame s1) = views (vs_frame s)"
          using release_backup_ok [OF assms(1) Some] by blast
        let ?s = "s1\<lparr>vs_img_backup := Some f, vs_redraw_needed := 4\<rparr>"
        have t: "vo_is drv (s1\<lparr>vs_img_backup := Some f\<rparr>) FQ' DQ (h(f := h f - 1)) sts" "vo_keeps s (s1\<lparr>vs_img_backup := Some f\<rparr>)"
          using take [OF r(2)] vo_keeps_stream [OF r(3) assms(3)] vo_keeps_trans [OF r(3)] by auto
        have C: "vo_is drv ?s FQ' DQ (h(f := h f - 1)) sts" "vo_keeps (s1\<lparr>vs_img_backup := Some f\<rparr>) ?s"
          using vo_is_cong [OF t(1), of ?s] by simp_all
        have "?s = s\<lparr>vs_frame := vs_frame s1, vs_free := vs_free s1, vs_img_backup := Some f, vs_redraw_needed := 4\<rparr>" by (subst r(4)) simp
        then show ?thesis using C(1) vo_keeps_trans [OF t(2) C(2)] keep True Some empty r(1,5,6)
          by (intro exI [of _ ?s] exI [of _ FQ']) (simp add: drop_frame_def)
      qed
    next
      case False
      then have "drop_frame f s = vo_frame_dec_lock f s" using keep empty by (auto simp: drop_frame_def)
      then show ?thesis using keep dec False by simp
    qed
  qed
qed


lemma expire_one_ok:
  assumes "vo_is drv s FQ (f # DQ) h sts"
  shows "\<exists>s' FQ'. expire_one s = Ret s' \<and> vo_is drv s' FQ' DQ h sts \<and> vo_keeps s s' \<and>
    iq_locked (vs_free s') = iq_locked (vs_free s) \<and> views (vs_frame s') = views (vs_frame s) \<and>
    vs_last_frame s' = vs_last_frame s \<and> vs_discard_frames s' = vs_discard_frames s \<and>
    vs_discarded s' = vs_discarded s + (if vs_discard_frames s = 0 then 1 else 0) \<and>
    vs_img_backup s' = (if vs_discard_frames s \<noteq> 0 then (if vs_img_backup s = None then Some f else vs_img_backup s)
                        else if DQ = [] then Some f else vs_img_backup s)"
proof -
  let ?s1 = "if vs_discard_frames s = 0 then s\<lparr>vs_discarded := vs_discarded s + 1\<rparr> else s"
  note C = vo_is_cong [OF assms, of ?s1]
  have s1: "vo_is drv ?s1 FQ (f # DQ) h sts" "vo_keeps s ?s1" using C by simp_all
  obtain s2 where s2: "remove_display ?s1 = Ret (f, s2)" "vo_is drv s2 FQ DQ (h(f := Suc (h f))) sts" "vo_keeps ?s1 s2"
    "same_refs ?s1 s2" "has_stream s2 f" "views (vs_frame s2) = views (vs_frame ?s1)"
    "s2 = ?s1\<lparr>vs_frame := vs_frame s2, vs_display := vs_display s2\<rparr>" using remove_display_ok [OF s1(1)] by blast
  obtain s3 where s3: "tell_position f s2 = Ret s3" "moves drv sts s2 s3 FQ DQ (h(f := Suc (h f)))" "s3 = s2\<lparr>vs_stream := vs_stream s3\<rparr>"
    using tell_position_ok [OF s2(2,5)] by blast
  note M = movesD [OF s3(2)]
  obtain s4 FQ' where s4: "drop_frame f s3 = Ret s4" "vo_is drv s4 FQ' DQ ((h(f := Suc (h f)))(f := (h(f := Suc (h f))) f - 1)) sts"
    "vo_keeps s3 s4" "iq_locked (vs_free s4) = iq_locked (vs_free s3)" "views (vs_frame s4) = views (vs_frame s3)"
    "s4 = s3\<lparr>vs_frame := vs_frame s4, vs_free := vs_free s4, vs_img_backup := vs_img_backup s4, vs_redraw_needed := vs_redraw_needed s4\<rparr>"
    "vs_img_backup s4 = (if vs_discard_frames s3 \<noteq> 0 then (if vs_img_backup s3 = None then Some f else vs_img_backup s3)
                        else if DQ = [] then Some f else vs_img_backup s3)"
    using drop_frame_ok [OF M(1) _ M(4) [OF s2(5)]] by auto
  have "expire_one s = Ret s4" using s2(1) s3(1) s4(1) by (simp add: expire_one_def Let_def)
  moreover have "vo_is drv s4 FQ' DQ h sts" using s4(2) by simp
  moreover have "vo_keeps s s4" using vo_keeps_trans [OF vo_keeps_trans [OF s1(2) s2(3)] vo_keeps_trans [OF M(2) s4(3)]] .
  moreover have d2: "vs_discard_frames s2 = vs_discard_frames s" "vs_last_frame s2 = vs_last_frame s" "vs_img_backup s2 = vs_img_backup s"
    "iq_locked (vs_free s2) = iq_locked (vs_free s)" "vs_discarded s2 = vs_discarded s + (if vs_discard_frames s = 0 then 1 else 0)"
    "views (vs_frame s2) = views (vs_frame s)"
    using s2(4,6) by (simp_all add: same_refs_def) (subst s2(7), simp)+
  moreover have d3: "vs_discard_frames s3 = vs_discard_frames s2" "vs_discarded s3 = vs_discarded s2" "vs_frame s3 = vs_frame s2"
    by (subst s3(3), simp)+
  moreover have "vs_discard_frames s4 = vs_discard_frames s3" "vs_discarded s4 = vs_discarded s3" "vs_last_frame s4 = vs_last_frame s3"
    by (subst s4(6), simp)+
  ultimately show ?thesis using s4(4,5,7) M(5-7) by (intro exI [of _ s4] exI [of _ FQ']) simp
qed

text \<open>The backup after \<open>n\<close> frames are taken.\<close>

definition backup_after :: "bool \<Rightarrow> nat option \<Rightarrow> nat \<Rightarrow> nat list \<Rightarrow> nat option" where
  "backup_after flush b n DQ =
     (if n = 0 then b
      else if flush then (if b = None then Some (hd DQ) else b)
      else if n = length DQ then Some (last DQ) else b)"

lemma expire_loop_ok:
  assumes "vo_is drv s FQ DQ h sts" and "length DQ + 1 < k"
  shows "\<exists>s' FQ'. expire_loop k cur diff (iq_first (vs_display s)) s = Ret s' \<and>
    (let n = expired (vs_discard_frames s \<noteq> 0) cur diff (shown_frames s DQ) in
       vo_is drv s' FQ' (drop n DQ) h sts \<and> vo_keeps s s' \<and> iq_locked (vs_free s') = iq_locked (vs_free s) \<and>
       vs_last_frame s' = vs_last_frame s \<and> vs_discard_frames s' = vs_discard_frames s \<and>
       vs_discarded s' = vs_discarded s + (if vs_discard_frames s = 0 then int n else 0) \<and>
       vs_img_backup s' = backup_after (vs_discard_frames s \<noteq> 0) (vs_img_backup s) n DQ)"
  using assms
proof (induction DQ arbitrary: s FQ k diff)
  case Nil
  then show ?case using first_display [OF Nil.prems(1)]
    by (cases k) (auto simp: shown_frames_def backup_after_def)
next
  case (Cons f DQ)
  obtain j where k: "k = Suc (Suc j)" using Cons.prems(2) by (cases k; cases "k - 1") auto
  obtain v where v: "vs_frame s f = Some v" "f \<notin> set FQ" using vo_frame_of [OF Cons.prems(1), of f] by auto
  have first: "iq_first (vs_display s) = Some f" using first_display [OF Cons.prems(1)] by simp
  let ?fl = "vs_discard_frames s \<noteq> 0" and ?vs = "shown_frames s (f # DQ)"
  have vs: "?vs = view v # shown_frames s DQ" using v(1) by (simp add: shown_frames_def views_def)
  consider (stop) "\<not> (diff > fr_duration (vf_time v) \<or> ?fl)" | (first) "diff > fr_duration (vf_time v) \<or> ?fl" "vf_is_first v"
    | (young) "diff > fr_duration (vf_time v)" "\<not> ?fl" "\<not> vf_is_first v" "\<not> cur - fr_vpts (vf_time v) > fr_duration (vf_time v)"
    | (old) "diff > fr_duration (vf_time v) \<or> ?fl" "\<not> vf_is_first v" "cur - fr_vpts (vf_time v) > fr_duration (vf_time v) \<or> ?fl" by blast
  then show ?case
  proof cases
    case stop
    then show ?thesis using Cons.prems(1) v(1) first k vs
      by (intro exI [of _ s] exI [of _ FQ]) (simp add: frame_at_def backup_after_def)
  next
    case first
    let ?v = "v\<lparr>vf_time := (vf_time v)\<lparr>fr_vpts := cur\<rparr>\<rparr>"
    have "moves drv sts s (put_frame f ?v s) FQ (f # DQ) h"
      using put_frame_ok [OF Cons.prems(1) v, of ?v] by (intro movesI) (simp_all add: shape_ok_def)
    note M = movesD [OF this]
    have f: "put_frame f ?v s = s\<lparr>vs_frame := vs_frame (put_frame f ?v s)\<rparr>" by (simp add: put_frame_def)
    have "vs_discard_frames (put_frame f ?v s) = vs_discard_frames s" "vs_discarded (put_frame f ?v s) = vs_discarded s"
      by (simp_all add: put_frame_def)
    then show ?thesis using first \<open>iq_first (vs_display s) = Some f\<close> M Cons.prems(1) v(1) k vs
      by (intro exI [of _ "if vf_lock v = 1 then put_frame f ?v s else s"] exI [of _ FQ])
        (auto simp: frame_at_def backup_after_def)
  next
    case young
    then show ?thesis using Cons.prems(1) v(1) first k vs
      by (intro exI [of _ s] exI [of _ FQ]) (simp add: frame_at_def backup_after_def)
  next
    case old
    obtain s1 FQ1 where s1: "expire_one s = Ret s1" "vo_is drv s1 FQ1 DQ h sts" "vo_keeps s s1"
      "iq_locked (vs_free s1) = iq_locked (vs_free s)" "views (vs_frame s1) = views (vs_frame s)" "vs_last_frame s1 = vs_last_frame s"
      "vs_discard_frames s1 = vs_discard_frames s" "vs_discarded s1 = vs_discarded s + (if vs_discard_frames s = 0 then 1 else 0)"
      "vs_img_backup s1 = (if vs_discard_frames s \<noteq> 0 then (if vs_img_backup s = None then Some f else vs_img_backup s)
                        else if DQ = [] then Some f else vs_img_backup s)"
      using expire_one_ok [OF Cons.prems(1)] by blast
    let ?d = "cur - fr_vpts (vf_time v)" and ?n = "expired ?fl cur (cur - fr_vpts (vf_time v)) (shown_frames s DQ)"
    have sf: "shown_frames s1 DQ = shown_frames s DQ" using s1(5) by (simp add: shown_frames_def)
    have "length DQ + 1 < Suc j" using Cons.prems(2) k by simp
    from Cons.IH [OF s1(2) this, of ?d] obtain s' FQ' where
      s': "expire_loop (Suc j) cur ?d (iq_first (vs_display s1)) s1 = Ret s'" "vo_is drv s' FQ' (drop ?n DQ) h sts" "vo_keeps s1 s'"
        "iq_locked (vs_free s') = iq_locked (vs_free s1)" "vs_last_frame s' = vs_last_frame s1" "vs_discard_frames s' = vs_discard_frames s"
        "vs_discarded s' = vs_discarded s1 + (if vs_discard_frames s = 0 then int ?n else 0)"
        "vs_img_backup s' = backup_after ?fl (vs_img_backup s1) ?n DQ"
      unfolding sf s1(7) Let_def by blast
    have n: "expired ?fl cur diff ?vs = Suc ?n" using old vs by simp
    have "expire_loop k cur diff (iq_first (vs_display s)) s = Ret s'"
      using old first v(1) k s1(1) s'(1) by (auto simp: frame_at_def Let_def)
    moreover have "vs_img_backup s' = backup_after ?fl (vs_img_backup s) (Suc ?n) (f # DQ)"
      using s'(8) s1(9) expired_le [of ?fl cur ?d "shown_frames s DQ"]
      by (cases DQ) (auto simp: backup_after_def shown_frames_def)
    ultimately show ?thesis using s' s1 vo_keeps_trans [OF s1(3) s'(3)] unfolding n Let_def
      by (intro exI [of _ s'] exI [of _ FQ']) auto
  qed
qed

end
