(* ===== verification/Vo_Show.thy ===== *)
theory Vo_Show
  imports Vo_Expire
begin

text \<open>Showing frames: the next one, the pause, the end of the loop.\<close>

section \<open>The next frame\<close>

lemma take_backup_ok:
  assumes "vo_is drv s FQ DQ h sts" and "vs_img_backup s = None" and "0 < h f" and "has_stream s f"
  shows "vo_is drv (s\<lparr>vs_img_backup := Some f\<rparr>) FQ DQ (h(f := h f - 1)) sts" and "vo_keeps s (s\<lparr>vs_img_backup := Some f\<rparr>)"
  using holder_ok [OF assms(1), of "s\<lparr>vs_img_backup := Some f\<rparr>", OF _ _ _ _ _ refs_take_backup [where h = h and b = f, OF assms(2,3)]]
    assms(4) by auto

lemma free_backup_ok:
  assumes "vo_is drv s FQ DQ h sts"
  shows "\<exists>s' FQ'. free_backup s = Ret s' \<and> vo_is drv s' FQ' DQ h sts \<and> vo_keeps s s' \<and> vs_img_backup s' = None \<and>
    vs_last_frame s' = vs_last_frame s \<and> iq_locked (vs_free s') = iq_locked (vs_free s) \<and> views (vs_frame s') = views (vs_frame s) \<and>
    vs_stream s' = vs_stream s"
proof (cases "vs_img_backup s")
  case None
  then show ?thesis using assms by (intro exI [of _ s] exI [of _ FQ]) (simp add: free_backup_def)
next
  case (Some b)
  from release_backup_ok [OF assms Some] obtain s1 FQ' where r: "vo_frame_dec_lock b s = Ret s1"
    "vo_is drv (s1\<lparr>vs_img_backup := None\<rparr>) FQ' DQ h sts" "vo_keeps s (s1\<lparr>vs_img_backup := None\<rparr>)"
    "s1 = s\<lparr>vs_frame := vs_frame s1, vs_free := vs_free s1\<rparr>" "iq_locked (vs_free s1) = iq_locked (vs_free s)"
    "views (vs_frame s1) = views (vs_frame s)" by blast
  have "vs_last_frame s1 = vs_last_frame s" "vs_stream s1 = vs_stream s" by (subst r(4), simp)+
  then show ?thesis using r(1-3,5,6) Some
    by (intro exI [of _ "s1\<lparr>vs_img_backup := None\<rparr>"] exI [of _ FQ']) (simp add: free_backup_def)
qed

lemma backup_last_ok:
  assumes "driver_ok drv" and "vo_is drv s FQ DQ h sts" and "f \<in> set DQ" and "vs_img_backup s = None"
  shows "\<exists>s' FQ'. backup_last drv f s = Ret s' \<and> vo_is drv s' FQ' DQ h sts \<and> vo_keeps s s' \<and>
    vs_last_frame s' = vs_last_frame s \<and> iq_locked (vs_free s') = iq_locked (vs_free s)"
proof -
  obtain v where v: "vs_frame s f = Some v" using vo_frame_of [OF assms(2)] assms(3) by blast
  obtain st S where st: "vf_stream v = Some st" "vs_stream s st = Some S"
    using vo_isD(3) [OF assms(2,3)] v by (auto simp: has_stream_def)
  show ?thesis
  proof (cases "vf_next v = None \<and> (st_has_still S \<or> st_fifo_size S < 10)")
    case False
    then show ?thesis using assms(2) v st
      by (intro exI [of _ s] exI [of _ FQ]) (auto simp: backup_last_def frame_at_def stream_at_def)
  next
    case True
    then have e: "backup_last drv f s = obind (duplicate_frame drv f s) (\<lambda>(b, s1). Ret (s1\<lparr>vs_img_backup := b\<rparr>))"
      using v st by (simp add: backup_last_def frame_at_def stream_at_def)
    show ?thesis
    proof (cases FQ)
      case Nil
      have eq: "s\<lparr>vs_img_backup := None\<rparr> = s" using assms(4) by simp
      show ?thesis using assms(2) duplicate_none [of drv s DQ h sts f] Nil
        by (intro exI [of _ s] exI [of _ FQ]) (simp add: e eq)
    next
      case (Cons d FQ')
      obtain s1 where d: "duplicate_frame drv f s = Ret (Some d, s1)" "moves drv sts s s1 FQ' DQ (h(d := Suc (h d)))" "has_stream s1 d"
        using duplicate_ok [OF assms(1) assms(2) [unfolded Cons]] assms(3) vo_isD(3) [OF assms(2,3)] by blast
      note M = movesD [OF d(2)]
      have b: "vs_img_backup s1 = None" using M(5) assms(4) by simp
      have hd: "(h(d := Suc (h d)))(d := (h(d := Suc (h d))) d - 1) = h" by simp
      have "0 < (h(d := Suc (h d))) d" by simp
      note T = take_backup_ok [OF M(1) b this d(3), unfolded hd]
      show ?thesis using d(1) e T(1) vo_keeps_trans [OF M(2) T(2)] M(6,7)
        by (intro exI [of _ "s1\<lparr>vs_img_backup := Some d\<rparr>"] exI [of _ FQ']) simp
    qed
  qed
qed

definition taken :: "nat option \<Rightarrow> (nat \<Rightarrow> nat) \<Rightarrow> nat \<Rightarrow> nat" where
  "taken r h = (case r of None \<Rightarrow> h | Some f \<Rightarrow> h(f := Suc (h f)))"

text \<open>A still picture: a copy of the backup that is due now.\<close>

definition still_of :: "int \<Rightarrow> vframe \<Rightarrow> vframe \<Rightarrow> bool" where
  "still_of cur v w \<longleftrightarrow> (\<exists>d. copy_of v d \<and> w = d\<lparr>vf_time := (vf_time d)\<lparr>fr_vpts := cur\<rparr>, vf_extra_info := extra_info_reset\<rparr>)"

definition shows_still :: "int \<Rightarrow> nat \<Rightarrow> vos \<Rightarrow> nat option \<Rightarrow> vos \<Rightarrow> bool" where
  "shows_still cur b s r s' \<longleftrightarrow> r = iq_first (vs_free s) \<and> vs_img_backup s' = Some b \<and> vs_redraw_needed s' = vs_redraw_needed s \<and>
     (\<forall>d. r = Some d \<longrightarrow> (\<exists>v w. vs_frame s b = Some v \<and> vs_frame s' d = Some w \<and> still_of cur v w))"

lemma still_frame_ok:
  assumes "driver_ok drv" and "vo_is drv s FQ DQ h sts" and "vs_img_backup s = Some b"
  shows "\<exists>r s' FQ'. still_frame drv cur b s = Ret (r, s') \<and> moves drv sts s s' FQ' DQ (taken r h) \<and> (\<forall>g. r = Some g \<longrightarrow> has_stream s' g) \<and>
    shows_still cur b s r s'"
proof (cases FQ)
  case Nil
  then have "iq_first (vs_free s) = None" using first_free [OF assms(2)] by simp
  then show ?thesis using assms(2,3) Nil duplicate_none [of drv s DQ h sts b]
    by (intro exI [of _ None] exI [of _ s] exI [of _ FQ]) (simp add: still_frame_def moves_refl taken_def shows_still_def)
next
  case (Cons d FQ')
  have "0 < refs s h b" using assms(3) by (simp add: refs_def)
  then obtain s1 v w where d: "duplicate_frame drv b s = Ret (Some d, s1)" "moves drv sts s s1 FQ' DQ (h(d := Suc (h d)))"
    "has_stream s1 d" "vs_frame s1 d = Some w" "d \<notin> set FQ'" and c: "vs_frame s b = Some v" "copy_of v w"
      "s1 = s\<lparr>vs_frame := vs_frame s1, vs_free := vs_free s1, vs_calls := vs_calls s1\<rparr>"
    using duplicate_ok [OF assms(1) assms(2) [unfolded Cons] _ vo_isD(4) [OF assms(2,3)]] by blast
  have keep: "vs_img_backup s1 = Some b" "vs_redraw_needed s1 = vs_redraw_needed s" by (subst c(3), simp add: assms(3))+
  let ?v = "w\<lparr>vf_time := (vf_time w)\<lparr>fr_vpts := cur\<rparr>, vf_extra_info := extra_info_reset\<rparr>"
  note P = put_frame_ok [OF movesD(1) [OF d(2)] d(4,5), of ?v]
  have "moves drv sts s1 (put_frame d ?v s1) FQ' DQ (h(d := Suc (h d)))" using P by (intro movesI) (simp_all add: shape_ok_def)
  moreover have "still_of cur v ?v" using c(2) unfolding still_of_def by (intro exI [of _ w]) simp
  then have "shows_still cur b s (Some d) (put_frame d ?v s1)"
    using first_free [OF assms(2)] Cons c(1) keep by (simp add: shows_still_def put_frame_def)
  ultimately show ?thesis using d(1,4) moves_trans [OF d(2)] movesD(4) [OF _ d(3)]
    by (intro exI [of _ "Some d"] exI [of _ "put_frame d ?v s1"] exI [of _ FQ']) (auto simp: still_frame_def frame_at_def taken_def)
qed

lemma redraw_ok:
  assumes "vo_is drv s FQ DQ h sts"
  shows "moves drv sts s (s\<lparr>vs_redraw_needed := n\<rparr>) FQ DQ h"
  using vo_is_cong [OF assms, of "s\<lparr>vs_redraw_needed := n\<rparr>"] by (simp add: moves_def)

text \<open>The front of the queue is shown once it is due; without frames, a still picture.\<close>

definition next_without_frames :: "int \<Rightarrow> vos \<Rightarrow> nat option \<Rightarrow> vos \<Rightarrow> bool" where
  "next_without_frames cur s r s' \<longleftrightarrow>
     (case vs_img_backup s of
        Some b \<Rightarrow> if vs_redraw_needed s = 1 then shows_still cur b s r s'
                  else r = None \<and> s' = s\<lparr>vs_redraw_needed := (if vs_redraw_needed s = 0 then 0 else vs_redraw_needed s - 1)\<rparr>
      | None \<Rightarrow> r = None \<and> s' = s\<lparr>vs_redraw_needed := (if vs_redraw_needed s = 0 then 0 else vs_redraw_needed s - 1)\<rparr>)"

lemma get_next_frame_ok:
  assumes "driver_ok drv" and "vo_is drv s FQ DQ h sts"
  shows "\<exists>r s' FQ'. get_next_frame drv cur s = Ret (r, s') \<and>
    vo_is drv s' FQ' (if r = None then DQ else tl DQ) (taken r h) sts \<and> vo_keeps s s' \<and>
    vs_last_frame s' = vs_last_frame s \<and> iq_locked (vs_free s') = iq_locked (vs_free s) \<and> (\<forall>g. r = Some g \<longrightarrow> has_stream s' g) \<and>
    (case DQ of
       f # _ \<Rightarrow> (\<exists>v. vs_frame s f = Some v \<and> r = (if cur < fr_vpts (vf_time v) then None else Some f))
     | [] \<Rightarrow> next_without_frames cur s r s')"
proof (cases DQ)
  case Nil
  then have first: "iq_first (vs_display s) = None" using first_display [OF assms(2)] by simp
  show ?thesis
  proof (cases "vs_redraw_needed s = 1 \<and> vs_img_backup s \<noteq> None")
    case True
    then obtain b where b: "vs_img_backup s = Some b" by auto
    obtain r s' FQ' where S: "still_frame drv cur b s = Ret (r, s')" "moves drv sts s s' FQ' DQ (taken r h)" "\<forall>g. r = Some g \<longrightarrow> has_stream s' g" "shows_still cur b s r s'"
      using still_frame_ok [OF assms b] by blast
    have "get_next_frame drv cur s = Ret (r, s')" using first True b S(1) by (simp add: get_next_frame_def)
    then show ?thesis using movesD [OF S(2)] S(3,4) True b Nil
      by (intro exI [of _ r] exI [of _ s'] exI [of _ FQ']) (auto simp: next_without_frames_def)
  next
    case False
    let ?s = "s\<lparr>vs_redraw_needed := (if vs_redraw_needed s = 0 then 0 else vs_redraw_needed s - 1)\<rparr>"
    have m: "moves drv sts s ?s FQ DQ h" using assms(2) by (simp add: redraw_ok)
    have e: "(if vs_redraw_needed s \<noteq> 0 then s\<lparr>vs_redraw_needed := vs_redraw_needed s - 1\<rparr> else s) = ?s" by (cases s) simp
    have "get_next_frame drv cur s = Ret (None, ?s)" using first False unfolding get_next_frame_def e by (auto split: option.splits)
    moreover have "next_without_frames cur s None ?s" using False by (auto simp: next_without_frames_def split: option.splits)
    ultimately show ?thesis using movesD [OF m] Nil
      by (intro exI [of _ None] exI [of _ ?s] exI [of _ FQ]) (simp add: taken_def)
  qed
next
  case (Cons f DQ')
  obtain v where v: "vs_frame s f = Some v" using vo_frame_of [OF assms(2), of f] Cons by auto
  have first: "iq_first (vs_display s) = Some f" using first_display [OF assms(2)] Cons by simp
  show ?thesis
  proof (cases "cur < fr_vpts (vf_time v)")
    case True
    then show ?thesis using v first Cons assms(2)
      by (intro exI [of _ None] exI [of _ s] exI [of _ FQ]) (simp add: get_next_frame_def frame_at_def taken_def)
  next
    case False
    obtain s1 FQ1 where s1: "free_backup s = Ret s1" "vo_is drv s1 FQ1 DQ h sts" "vo_keeps s s1" "vs_img_backup s1 = None"
      "vs_last_frame s1 = vs_last_frame s" "iq_locked (vs_free s1) = iq_locked (vs_free s)" using free_backup_ok [OF assms(2)] by blast
    obtain s2 FQ2 where s2: "backup_last drv f s1 = Ret s2" "vo_is drv s2 FQ2 DQ h sts" "vo_keeps s1 s2"
      "vs_last_frame s2 = vs_last_frame s1" "iq_locked (vs_free s2) = iq_locked (vs_free s1)"
      using backup_last_ok [OF assms(1) s1(2) _ s1(4), of f] Cons by auto
    obtain s3 where s3: "remove_display s2 = Ret (f, s3)" "vo_is drv s3 FQ2 DQ' (h(f := Suc (h f))) sts" "vo_keeps s2 s3"
      "same_refs s2 s3" "has_stream s3 f" using remove_display_ok [OF s2(2) [unfolded Cons]] by blast
    have "get_next_frame drv cur s = Ret (Some f, s3)"
      using first v False s1(1) s2(1) s3(1) by (simp add: get_next_frame_def frame_at_def)
    then show ?thesis using s3 s1(5,6) s2(4,5) v False Cons vo_keeps_trans [OF vo_keeps_trans [OF s1(3) s2(3)] s3(3)]
      by (intro exI [of _ "Some f"] exI [of _ s3] exI [of _ FQ2]) (simp add: taken_def same_refs_def)
  qed
qed

section \<open>Showing it\<close>

lemma inc_lock_cong:
  "vs_frame t = vs_frame s \<Longrightarrow> vo_frame_inc_lock f t = Ret t' \<Longrightarrow> vo_frame_inc_lock f s = Ret (s\<lparr>vs_frame := vs_frame t'\<rparr>)"
  by (cases "vs_frame s f") (auto simp: vo_frame_inc_lock_def frame_at_def put_frame_def)

lemma shown_position_ok:
  assumes "vo_is drv s FQ DQ h sts" and "has_stream s f"
  shows "\<exists>s'. shown_position f s = Ret s' \<and> moves drv sts s s' FQ DQ h \<and> s' = s\<lparr>vs_stream := vs_stream s'\<rparr>"
proof -
  obtain v st S where v: "vs_frame s f = Some v" "vf_stream v = Some st" "vs_stream s st = Some S"
    using assms(2) by (auto simp: has_stream_def)
  show ?thesis using v put_stream_ok [OF assms(1) v(3)] moves_refl [OF assms(1)]
    by (auto simp: shown_position_def frame_at_def stream_at_def Let_def moves_def) (simp_all add: put_stream_def)
qed

lemma wake_play_ok:
  assumes "vo_is drv s FQ DQ h sts" and "st \<in> set sts" and "J s"
    and "\<And>t S. J t \<Longrightarrow> J (put_stream st S t)" and "\<And>t c. J t \<Longrightarrow> J (vo_call c t)"
  shows "\<exists>s'. wake_play st s = Ret s' \<and> vo_is drv s' FQ DQ h sts \<and> vo_keeps s s' \<and> same_refs s s' \<and> J s'"
proof -
  obtain S where S: "vs_stream s st = Some S" using stream_of [OF assms(1,2)] by blast
  let ?t = "put_stream st (S\<lparr>st_first_frame_flag := 0\<rparr>) s"
  note P = put_stream_ok [OF assms(1) S, of "S\<lparr>st_first_frame_flag := 0\<rparr>"]
  have m: "moves drv sts s ?t FQ DQ h" using P by (rule movesI)
  have "moves drv sts ?t (vo_call (V_first_frame st) ?t) FQ DQ h" using vo_call_ok [OF P(1)] by (rule movesI)
  note M = movesD [OF moves_trans [OF m this]]
  show ?thesis using S M(1-3) assms(1,3-5)
    by (cases "st_first_frame_flag S = 0") (auto simp: wake_play_def stream_at_def)
qed

lemma take_last_ok:
  assumes "vo_is drv s FQ DQ h sts" and "vs_last_frame s = None" and "0 < h f"
  shows "vo_is drv (s\<lparr>vs_last_frame := Some f\<rparr>) FQ DQ (h(f := h f - 1)) sts" and "vo_keeps s (s\<lparr>vs_last_frame := Some f\<rparr>)"
  using holder_ok [OF assms(1), of "s\<lparr>vs_last_frame := Some f\<rparr>", OF _ _ _ _ _ refs_take_last [where h = h and b = f, OF assms(2,3)]]
    vo_isD(4) [OF assms(1)] by auto

lemma overlay_ok:
  assumes "vo_is drv s FQ DQ h sts" and "0 < h f" and "has_stream s f" and "length sts < k"
  shows "\<exists>s' FQ'. overlay_and_display_frame k drv f vpts s = Ret s' \<and> vo_is drv s' FQ' DQ h sts \<and> vo_keeps s s' \<and>
    vs_img_backup s' = vs_img_backup s \<and> iq_locked (vs_free s') = iq_locked (vs_free s) \<and>
    vs_last_frame s' = Some f \<and> vs_redraw_needed s' = 0 \<and> V_display f \<in> set (vs_calls s')"
proof -
  have r: "0 < refs s h f" using assms(2) by (simp add: refs_def)
  obtain v where v: "vs_frame s f = Some v" "f \<notin> set FQ" using vo_frame_of [OF assms(1)] r by blast
  obtain s1 where s1: "(if \<not> vf_proc_called v then vo_frame_driver_proc drv f s else Ret s) = Ret s1" "moves drv sts s s1 FQ DQ h"
    using driver_proc_ok [OF assms(1) v] moves_refl [OF assms(1)] by (cases "vf_proc_called v") auto
  obtain s2 where s2: "shown_position f s1 = Ret s2" "moves drv sts s1 s2 FQ DQ h"
    using shown_position_ok [OF movesD(1,4) [OF s1(2)]] assms(3) by blast
  let ?t = "vo_call (V_blend vpts f (vs_loop_running s2 \<and> vs_overlay_enabled s2)) s2"
  have t: "moves drv sts s2 ?t FQ DQ h" using vo_call_ok [OF movesD(1) [OF s2(2)]] by (rule movesI)
  note T = movesD [OF moves_trans [OF moves_trans [OF s1(2) s2(2)] t]]
  obtain s3 FQ' where s3: "release_last ?t = Ret s3" "vo_is drv (s3\<lparr>vs_last_frame := None\<rparr>) FQ' DQ h sts"
    "vo_keeps ?t (s3\<lparr>vs_last_frame := None\<rparr>)" "s3 = ?t\<lparr>vs_frame := vs_frame s3, vs_free := vs_free s3\<rparr>"
    "iq_locked (vs_free s3) = iq_locked (vs_free ?t)" using release_last_ok [OF T(1)] by blast
  let ?n = "s3\<lparr>vs_last_frame := None\<rparr>"
  obtain u where u: "vo_frame_inc_lock f ?n = Ret u" "vo_is drv u FQ' DQ (h(f := Suc (h f))) sts" "vo_keeps ?n u"
    "u = ?n\<lparr>vs_frame := vs_frame u\<rparr>" using inc_ok [OF s3(2), of f] assms(2) by (auto simp: refs_def)
  let ?s4 = "s3\<lparr>vs_frame := vs_frame u\<rparr>"
  have s4: "vo_frame_inc_lock f s3 = Ret ?s4" using inc_lock_cong [OF _ u(1), of s3] by simp
  have "vs_last_frame u = None" by (subst u(4)) simp
  note L = take_last_ok [OF u(2) this, of f]
  have hd: "(h(f := Suc (h f)))(f := (h(f := Suc (h f))) f - 1) = h" by simp
  have eq: "u\<lparr>vs_last_frame := Some f\<rparr> = ?s4\<lparr>vs_last_frame := Some f\<rparr>" by (subst u(4)) simp
  let ?s5 = "vo_call (V_display f) (?s4\<lparr>vs_last_frame := Some f\<rparr>)"
  have l: "vo_is drv (?s4\<lparr>vs_last_frame := Some f\<rparr>) FQ' DQ h sts" "vo_keeps u (?s4\<lparr>vs_last_frame := Some f\<rparr>)"
    using L unfolding hd eq by simp_all
  note C = vo_call_ok [OF l(1), of "V_display f"]
  have k5: "vo_keeps s ?s5"
    using vo_keeps_trans [OF vo_keeps_trans [OF T(2) s3(3)] vo_keeps_trans [OF u(3) vo_keeps_trans [OF l(2) C(2)]]] .
  have s5: "vs_last_frame ?s5 = Some f" "V_display f \<in> set (vs_calls ?s5)" "vs_img_backup ?s5 = vs_img_backup s" "iq_locked (vs_free ?s5) = iq_locked (vs_free s)"
  proof -
    have "vs_img_backup s3 = vs_img_backup ?t" by (subst s3(4)) simp
    then show "vs_img_backup ?s5 = vs_img_backup s" using T(5) by (simp add: vo_call_def)
    show "iq_locked (vs_free ?s5) = iq_locked (vs_free s)" using T(7) s3(5) by (simp add: vo_call_def)
  qed (simp_all add: vo_call_def)
  obtain v1 where v1: "vs_frame ?s5 f = Some v1" using vo_frame_of [OF C(1), of f] assms(2) by (auto simp: refs_def)
  let ?J = "\<lambda>t. V_display f \<in> set (vs_calls t)"
  obtain s6 where s6: "(if vf_is_first v1 then for_streams k wake_play ?s5 else Ret ?s5) = Ret s6" "vo_is drv s6 FQ' DQ h sts"
    "vo_keeps ?s5 s6" "same_refs ?s5 s6" "?J s6"
  proof (cases "vf_is_first v1")
    case True
    have "\<exists>t'. wake_play st t = Ret t' \<and> vo_is drv t' FQ' DQ h sts \<and> vo_keeps t t' \<and> same_refs t t' \<and> ?J t'"
      if "vo_is drv t FQ' DQ h sts" "?J t" "st \<in> set sts" for t st
      by (rule wake_play_ok [OF that(1,3), of ?J]) (use that(2) in \<open>simp_all add: put_stream_def vo_call_def\<close>)
    from for_streams_ok [OF C(1) assms(4), of ?J wake_play, OF this s5(2)] show ?thesis using that True by auto
  next
    case False
    then show ?thesis using that C(1) s5(2) by simp
  qed
  note R = movesD [OF redraw_ok [OF s6(2), of 0]]
  have "overlay_and_display_frame k drv f vpts s = Ret (s6\<lparr>vs_redraw_needed := 0\<rparr>)"
    using v(1) s1(1) s2(1) s3(1) s4 v1 s6(1) by (simp add: overlay_and_display_frame_def frame_at_def Let_def)
  then show ?thesis using R(1) vo_keeps_trans [OF vo_keeps_trans [OF k5 s6(3)] R(2)] s6(4,5) s5
    by (intro exI [of _ "s6\<lparr>vs_redraw_needed := 0\<rparr>"] exI [of _ FQ']) (simp add: same_refs_def)
qed

end
