(* ===== verification/Vo_Draw.thy ===== *)
theory Vo_Draw
  imports Vo_Show Metronom_Props
begin

text \<open>Frames from the decoder, and the other callers of the port.\<close>

section \<open>A frame of the decoder\<close>

lemma video_time_ok: "\<exists>m' t. metronom_got_video_frame img m = Ret (m', t)"
proof -
  obtain m1 f where "frame_duration img (m\<lparr>mt_img_cpt := s32 (mt_img_cpt m + 1)\<rparr>) = Ret (m1, f)"
    using frame_duration_ok [of img "m\<lparr>mt_img_cpt := s32 (mt_img_cpt m + 1)\<rparr>"] by auto
  then show ?thesis
    by (cases "video_advance (m\<lparr>mt_img_cpt := s32 (mt_img_cpt m + 1)\<rparr>, img\<lparr>fr_duration := s32 (mt_img_duration m)\<rparr>)";
        cases "video_advance (m\<lparr>mt_img_cpt := s32 (mt_img_cpt m + 1), mt_img_duration := fr_duration img\<rparr>, img)";
        cases "video_advance (video_predict (fr_pts img) (m1\<lparr>mt_img_cpt := 0, mt_last_video_pts := fr_pts img\<rparr>), f)")
      (auto simp: metronom_got_video_frame_def Let_def)
qed

text \<open>What the steps of a delivery leave alone.\<close>

definition still :: "nat \<Rightarrow> vos \<Rightarrow> vos \<Rightarrow> bool" where
  "still f s t \<longleftrightarrow> vs_grab_only t = vs_grab_only s \<and> vs_discard_frames t = vs_discard_frames s \<and>
     map_option vf_bad_frame (vs_frame t f) = map_option vf_bad_frame (vs_frame s f)"

lemma still_refl [simp]: "still f s s"
  by (simp add: still_def)

lemma still_trans: "still f s t \<Longrightarrow> still f t u \<Longrightarrow> still f s u"
  by (simp add: still_def)

lemma views_still: "views (vs_frame t) = views (vs_frame s) \<Longrightarrow> map_option vf_bad_frame (vs_frame t f) = map_option vf_bad_frame (vs_frame s f)"
proof -
  assume "views (vs_frame t) = views (vs_frame s)"
  then have "map_option view (vs_frame t f) = map_option view (vs_frame s f)" by (metis views_def)
  then have "map_option (vf_bad_frame \<circ> view) (vs_frame t f) = map_option (vf_bad_frame \<circ> view) (vs_frame s f)"
    by (metis option.map_comp)
  then show ?thesis by (simp add: view_def comp_def)
qed

lemma fields_ok:
  assumes "vo_is drv s FQ DQ h sts"
    and "vs_frame t = vs_frame s" "vs_free t = vs_free s" "vs_display t = vs_display s" "vs_stream t = vs_stream s"
      "vs_streams t = vs_streams s" "vs_img_backup t = vs_img_backup s" "vs_last_frame t = vs_last_frame s"
  shows "moves drv sts s t FQ DQ h"
  using vo_is_cong [OF assms] by (rule movesI)

lemma draw_time_ok:
  assumes "vo_is drv s FQ DQ h sts" and "0 < h f" and "vs_stream s st = Some S"
  shows "\<exists>s'. draw_time f st s = Ret s' \<and> moves drv sts s s' FQ DQ h \<and> has_stream s' f \<and> still f s s'"
proof -
  have "0 < refs s h f" using assms(2) by (simp add: refs_def)
  then obtain v where v: "vs_frame s f = Some v" "f \<notin> set FQ" using vo_frame_of [OF assms(1)] by blast
  obtain m t where m: "metronom_got_video_frame (vf_time v) (st_metronom S) = Ret (m, t)" using video_time_ok by blast
  let ?v = "v\<lparr>vf_stream := Some st, vf_extra_info := extra_info_merge (vf_extra_info v) (st_decoder_info S), vf_time := t\<rparr>"
  let ?a = "put_frame f ?v s" and ?S = "S\<lparr>st_metronom := m\<rparr>"
  have a: "moves drv sts s ?a FQ DQ h"
    using put_frame_ok [OF assms(1) v, of ?v] assms(3) by (intro movesI) (auto simp: shape_ok_def)
  have "vs_stream ?a st = Some S" using assms(3) by (simp add: put_frame_def)
  from put_stream_ok [OF movesD(1) [OF a] this, of ?S] have b: "moves drv sts ?a (put_stream st ?S ?a) FQ DQ h" by (rule movesI)
  let ?b = "put_stream st ?S ?a"
  let ?c = "?b\<lparr>vs_current_width := vf_width v, vs_current_height := vf_height v, vs_current_duration := fr_duration t\<rparr>"
  have c: "moves drv sts ?b ?c FQ DQ h" using fields_ok [OF movesD(1) [OF b], of ?c] by simp
  have "has_stream ?c f" by (simp add: has_stream_def put_stream_def put_frame_def)
  moreover have "still f s ?c" using v(1) by (simp add: still_def put_stream_def put_frame_def)
  moreover have "draw_time f st s = Ret ?c" using v(1) assms(3) m by (simp add: draw_time_def frame_at_def stream_at_def)
  ultimately show ?thesis using moves_trans [OF moves_trans [OF a b] c] by blast
qed

lemma frames_to_skip_ok: "d \<noteq> 0 \<Longrightarrow> \<exists>n. frames_to_skip diff d limit = Ret n \<and> 0 \<le> n"
  by (simp add: frames_to_skip_def cdiv_def Let_def)

lemma delivery_ok:
  assumes "vo_is drv s FQ DQ h sts" and "0 < h f" and "vs_stream s st = Some S"
  shows "\<exists>n s'. delivery f st cur s = Ret (n, s') \<and> moves drv sts s s' FQ DQ h \<and> still f s s' \<and> 0 \<le> n"
proof -
  have "0 < refs s h f" using assms(2) by (simp add: refs_def)
  then obtain v where v: "vs_frame s f = Some v" "f \<notin> set FQ" using vo_frame_of [OF assms(1)] by blast
  let ?t = "vf_time v"
  let ?v = "v\<lparr>vf_extra_info := (vf_extra_info v)\<lparr>ei_vpts := fr_vpts ?t\<rparr>,
                 vf_time := (if fr_duration ?t \<le> 0 then ?t\<lparr>fr_duration := 3000\<rparr> else ?t)\<rparr>"
  let ?a = "put_frame f ?v s"
  have a: "moves drv sts s ?a FQ DQ h" using put_frame_ok [OF assms(1) v, of ?v] by (intro movesI) (simp_all add: shape_ok_def)
  let ?b = "drop_limit S (?a\<lparr>vs_last_delivery_pts := cur, vs_delivered := vs_delivered ?a + 1\<rparr>)"
  have b: "moves drv sts ?a ?b FQ DQ h" by (rule fields_ok [OF movesD(1) [OF a]]) (simp_all add: drop_limit_def Let_def)
  have "still f s ?b" using v(1) by (simp add: still_def drop_limit_def put_frame_def Let_def)
  moreover obtain n where "frames_to_skip (fr_vpts ?t - cur) (if fr_duration ?t \<le> 0 then 3000 else fr_duration ?t) (vs_drop_limit ?b) = Ret n" "0 \<le> n"
    using frames_to_skip_ok [of "if fr_duration ?t \<le> 0 then 3000 else fr_duration ?t"] by (force split: if_splits)
  ultimately show ?thesis using moves_trans [OF a b] v(1) assms(3)
    by (intro exI [of _ n] exI [of _ ?b]) (simp add: delivery_def frame_at_def stream_at_def Let_def)
qed

lemma mark_first_ok:
  assumes "vo_is drv s FQ DQ h sts" and "0 < h f" and "st \<in> set sts" and "still f s0 s"
  shows "\<exists>s'. mark_first f st s = Ret s' \<and> vo_is drv s' FQ DQ h sts \<and> vo_keeps s s' \<and> same_refs s s' \<and> still f s0 s'"
proof -
  obtain S where S: "vs_stream s st = Some S" using stream_of [OF assms(1,3)] by blast
  have "0 < refs s h f" using assms(2) by (simp add: refs_def)
  then obtain v where v: "vs_frame s f = Some v" "f \<notin> set FQ" using vo_frame_of [OF assms(1)] by blast
  let ?S = "S\<lparr>st_first_frame_flag := (if vs_grab_only s then 0 else 1)\<rparr>" and ?v = "v\<lparr>vf_is_first := True\<rparr>"
  let ?a = "put_stream st ?S s"
  have a: "moves drv sts s ?a FQ DQ h" using put_stream_ok [OF assms(1) S, of ?S] by (rule movesI)
  have va: "vs_frame ?a f = Some v" using v(1) by (simp add: put_stream_def)
  have "moves drv sts ?a (put_frame f ?v ?a) FQ DQ h"
    using put_frame_ok [OF movesD(1) [OF a] va v(2), of ?v] by (intro movesI) (simp_all add: shape_ok_def)
  note M = movesD [OF moves_trans [OF a this]]
  have "still f s0 (put_frame f ?v ?a)" using assms(4) v(1) by (simp add: still_def put_frame_def put_stream_def)
  then show ?thesis using S v(1) M(1-3) assms(1,4)
    by (cases "st_first_frame_flag S = 2") (simp_all add: mark_first_def stream_at_def frame_at_def)
qed

lemma queue_frame_ok:
  assumes "vo_is drv s FQ DQ h sts" and "0 < h f" and "f \<notin> set DQ" and "has_stream s f" and "length sts < k"
  shows "\<exists>s'. queue_frame k drv f skip s = Ret s' \<and> moves drv sts s s' FQ (DQ @ [f]) h \<and> still f s s'"
proof -
  have r: "0 < refs t h f" for t using assms(2) by (simp add: refs_def)
  obtain v where v: "vs_frame s f = Some v" "f \<notin> set FQ" using vo_frame_of [OF assms(1)] r by blast
  obtain s1 where s1: "(if skip = 0 \<and> \<not> vf_proc_called v then vo_frame_driver_proc drv f s else Ret s) = Ret s1"
    "moves drv sts s s1 FQ DQ h" "still f s s1"
  proof (cases "skip = 0 \<and> \<not> vf_proc_called v")
    case True
    obtain t p where t: "vo_frame_driver_proc drv f s = Ret t" "moves drv sts s t FQ DQ h"
      "vs_frame t = (vs_frame s)(f \<mapsto> v\<lparr>vf_proc_called := p\<rparr>)" "t = s\<lparr>vs_frame := vs_frame t, vs_calls := vs_calls t\<rparr>"
      using driver_proc_ok [OF assms(1) v] by blast
    have "vs_grab_only t = vs_grab_only s" "vs_discard_frames t = vs_discard_frames s" by (subst t(4), simp)+
    then have "still f s t" using t(3) v(1) by (simp add: still_def)
    then show ?thesis using that [of t] t(1,2) True by simp
  next
    case False
    then have "(if skip = 0 \<and> \<not> vf_proc_called v then vo_frame_driver_proc drv f s else Ret s) = Ret s" by auto
    then show ?thesis using that [of s] moves_refl [OF assms(1)] by simp
  qed
  obtain v1 where v1: "vs_frame s1 f = Some v1" using vo_frame_of [OF movesD(1) [OF s1(2)]] r by blast
  let ?a = "put_frame f (v1\<lparr>vf_is_first := False\<rparr>) s1"
  have a: "moves drv sts s1 ?a FQ DQ h"
    using put_frame_ok [OF movesD(1) [OF s1(2)] v1 v(2), of "v1\<lparr>vf_is_first := False\<rparr>"] by (intro movesI) (simp_all add: shape_ok_def)
  have sa: "still f s ?a" using s1(3) v1 by (simp add: still_def put_frame_def)
  have J: "still f s (t\<lparr>vs_streams := l\<rparr>)" if "still f s t" for t l using that by (simp add: still_def)
  have body: "\<exists>t'. mark_first f x t = Ret t' \<and> vo_is drv t' FQ DQ h sts \<and> vo_keeps t t' \<and> same_refs t t' \<and> still f s t'"
    if "vo_is drv t FQ DQ h sts" "still f s t" "x \<in> set sts" for t x
    using mark_first_ok [where h = h and f = f, OF that(1) assms(2) that(3,2)] .
  obtain s2 where s2: "for_streams k (mark_first f) ?a = Ret s2" "vo_is drv s2 FQ DQ h sts" "vo_keeps ?a s2" "same_refs ?a s2" "still f s s2"
    using for_streams_ok [OF movesD(1) [OF a] assms(5), of "still f s" "mark_first f", OF body sa J] by blast
  have m2: "moves drv sts ?a s2 FQ DQ h" using s2(2-4) by (rule movesI)
  have hs: "has_stream s2 f" using movesD(4) [OF moves_trans [OF moves_trans [OF s1(2) a] m2] assms(4)] .
  obtain s3 where s3: "vo_frame_inc_lock f s2 = Ret s3" "vo_is drv s3 FQ DQ (h(f := Suc (h f))) sts" "vo_keeps s2 s3" "same_refs s2 s3"
    "views (vs_frame s3) = views (vs_frame s2)" "s3 = s2\<lparr>vs_frame := vs_frame s3\<rparr>" using inc_ok [OF s2(2)] r by blast
  have m3: "moves drv sts s2 s3 FQ DQ (h(f := Suc (h f)))" using s3(2-4) by (rule movesI)
  have hd: "(h(f := Suc (h f)))(f := (h(f := Suc (h f))) f - 1) = h" by simp
  have "0 < (h(f := Suc (h f))) f" by simp
  from append_display_ok [OF s3(2) this assms(3) movesD(4) [OF m3 hs], unfolded hd] obtain s4 where
    s4: "append_display f s3 = Ret s4" "vo_is drv s4 FQ (DQ @ [f]) h sts" "vo_keeps s3 s4" "same_refs s3 s4"
      "views (vs_frame s4) = views (vs_frame s3)" "s4 = s3\<lparr>vs_frame := vs_frame s4, vs_display := vs_display s4\<rparr>" by blast
  have m4: "moves drv sts s3 s4 FQ (DQ @ [f]) h" using s4(2-4) by (rule movesI)
  have "vs_grab_only s3 = vs_grab_only s2" "vs_discard_frames s3 = vs_discard_frames s2" by (subst s3(6), simp)+
  then have "still f s2 s3" using views_still [OF s3(5)] by (simp add: still_def)
  moreover have "vs_grab_only s4 = vs_grab_only s3" "vs_discard_frames s4 = vs_discard_frames s3" by (subst s4(6), simp)+
  then have "still f s3 s4" using views_still [OF s4(5)] by (simp add: still_def)
  ultimately have "still f s s4" using still_trans [OF s2(5) still_trans] by blast
  moreover have "queue_frame k drv f skip s = Ret s4"
    using v(1) s1(1) v1 s2(1) s3(1) s4(1) by (simp add: queue_frame_def frame_at_def)
  moreover have "moves drv sts s s4 FQ (DQ @ [f]) h"
    using moves_trans [OF moves_trans [OF moves_trans [OF s1(2) a] m2] moves_trans [OF m3 m4]] .
  ultimately show ?thesis by blast
qed


lemma skip_bad_ok:
  assumes "vo_is drv s FQ DQ h sts" and "0 < h f" and "vs_stream s st = Some S"
  shows "\<exists>s'. skip_bad_frame f st s = Ret s' \<and> moves drv sts s s' FQ DQ h"
proof -
  have "0 < refs s h f" using assms(2) by (simp add: refs_def)
  then obtain v where v: "vs_frame s f = Some v" using vo_frame_of [OF assms(1)] by blast
  let ?a = "put_stream st (S\<lparr>st_current_info := extra_info_merge (st_current_info S) (vf_extra_info v)\<rparr>) s"
  have a: "moves drv sts s ?a FQ DQ h" using put_stream_ok [OF assms(1,3)] by (rule movesI)
  have "moves drv sts ?a (?a\<lparr>vs_skipped := vs_skipped s + 1\<rparr>) FQ DQ h" by (rule fields_ok [OF movesD(1) [OF a]]) simp_all
  from moves_trans [OF a this] show ?thesis using v assms(3) by (simp add: skip_bad_frame_def frame_at_def stream_at_def)
qed

lemma measure_ok:
  assumes "vo_is drv s FQ DQ h sts" and "length sts < k"
  shows "\<exists>s'. measure_drops k s = Ret s' \<and> moves drv sts s s' FQ DQ h"
proof (cases "vs_delivered s smod 200 = 0 \<and> vs_delivered s \<noteq> 0")
  case False
  then show ?thesis using moves_refl [OF assms(1)] by (auto simp: measure_drops_def)
next
  case True
  let ?sk = "100 * vs_skipped s sdiv vs_delivered s" and ?di = "100 * vs_discarded s sdiv vs_delivered s"
  define e where "e = (if ?sk > vs_warn_skipped s \<or> ?di > vs_warn_discarded s then vs_warn_exceeded s + 1 else 0)"
  define b where "b = (e = 5 \<and> vs_warn_sent s = 0)"
  let ?a = "s\<lparr>vs_warn_exceeded := e, vs_warn_sent := vs_warn_sent s + (if b then 1 else 0)\<rparr>"
  have a: "moves drv sts s ?a FQ DQ h" by (rule fields_ok [OF assms(1)]) simp_all
  let ?J = "\<lambda>t. vs_delivered t \<noteq> 0"
  have body: "\<exists>t'. tell_stream b x t = Ret t' \<and> vo_is drv t' FQ DQ h sts \<and> vo_keeps t t' \<and> same_refs t t' \<and> ?J t'"
    if t: "vo_is drv t FQ DQ h sts" "?J t" "x \<in> set sts" for t x
  proof -
    obtain S where S: "vs_stream t x = Some S" using stream_of [OF t(1,3)] by blast
    let ?t = "put_stream x (S\<lparr>st_skipped := 1000 * vs_skipped t sdiv vs_delivered t, st_discarded := 1000 * vs_discarded t sdiv vs_delivered t\<rparr>) t"
    let ?c = "V_dropped x (1000 * vs_skipped t sdiv vs_delivered t) (vs_warn_skipped t * 10)
      (1000 * vs_discarded t sdiv vs_delivered t) (vs_warn_discarded t * 10)"
    have m: "moves drv sts t ?t FQ DQ h" using put_stream_ok [OF t(1) S] by (rule movesI)
    have "moves drv sts ?t (vo_call ?c ?t) FQ DQ h" using vo_call_ok [OF movesD(1) [OF m]] by (rule movesI)
    note M = movesD [OF moves_trans [OF m this]] movesD [OF m]
    show ?thesis using S t(2) M by (cases b) (simp_all add: tell_stream_def stream_at_def cdiv_def Let_def put_stream_def vo_call_def)
  qed
  have J: "?J (t\<lparr>vs_streams := l\<rparr>)" if "?J t" for t l using that by simp
  have "?J ?a" using True by simp
  from for_streams_ok [OF movesD(1) [OF a] assms(2), of ?J "tell_stream b", OF body this J] obtain t where
    t: "for_streams k (tell_stream b) ?a = Ret t" "vo_is drv t FQ DQ h sts" "vo_keeps ?a t" "same_refs ?a t" by blast
  have m: "moves drv sts ?a t FQ DQ h" using t(2-4) by (rule movesI)
  have c: "moves drv sts t (t\<lparr>vs_delivered := 0, vs_discarded := 0, vs_skipped := 0\<rparr>) FQ DQ h" by (rule fields_ok [OF t(2)]) simp_all
  have "measure_drops k s = Ret (t\<lparr>vs_delivered := 0, vs_discarded := 0, vs_skipped := 0\<rparr>)"
    using True t(1) by (simp add: measure_drops_def cdiv_def Let_def flip: e_def b_def)
  then show ?thesis using moves_trans [OF moves_trans [OF a m] c] by blast
qed

text \<open>Drawing: the frame is queued, unless it is bad or frames are not wanted.\<close>

lemma draw_ok:
  assumes "vo_is drv s FQ DQ h sts" and "0 < h f" and "f \<notin> set DQ" and "vs_frame s f = Some v" and "vs_stream s st = Some S" and "length sts < k"
  shows "\<exists>n s'. vo_frame_draw k drv cur f st s = Ret (n, s') \<and> 0 \<le> n \<and>
    moves drv sts s s' FQ (if vf_bad_frame v \<or> vs_grab_only s \<and> vs_discard_frames s \<noteq> 0 then DQ else DQ @ [f]) h"
proof -
  obtain s1 where s1: "draw_time f st s = Ret s1" "moves drv sts s s1 FQ DQ h" "has_stream s1 f" "still f s s1"
    using draw_time_ok [OF assms(1,2,5)] by blast
  have st1: "\<exists>S. vs_stream t st = Some S" if "vo_keeps s t" for t using that assms(5) by (auto simp: vo_keeps_def dom_def)
  show ?thesis
  proof (cases "vs_grab_only s \<and> vs_discard_frames s \<noteq> 0")
    case True
    then show ?thesis using s1 by (intro exI [of _ 0] exI [of _ s1]) (simp add: vo_frame_draw_def still_def)
  next
    case False
    obtain n s2 where s2: "(if vs_grab_only s1 then Ret (0, s1) else delivery f st cur s1) = Ret (n, s2)"
      "moves drv sts s1 s2 FQ DQ h" "still f s1 s2" "0 \<le> n"
    proof (cases "vs_grab_only s1")
      case True
      then show ?thesis using that [of 0 s1] moves_refl [OF movesD(1) [OF s1(2)]] by simp
    next
      case False
      obtain S1 where "vs_stream s1 st = Some S1" using st1 [OF movesD(2) [OF s1(2)]] by blast
      from delivery_ok [OF movesD(1) [OF s1(2)] assms(2) this] show ?thesis using that False by fastforce
    qed
    note m2 = moves_trans [OF s1(2) s2(2)]
    obtain v2 where v2: "vs_frame s2 f = Some v2" "vf_bad_frame v2 = vf_bad_frame v"
      using still_trans [OF s1(4) s2(3)] assms(4) by (auto simp: still_def)
    define DQ' where "DQ' = (if vf_bad_frame v then DQ else DQ @ [f])"
    obtain s3 where s3: "(if \<not> vf_bad_frame v2 then queue_frame k drv f n s2 else skip_bad_frame f st s2) = Ret s3" "moves drv sts s2 s3 FQ DQ' h"
    proof (cases "vf_bad_frame v")
      case True
      obtain S2 where "vs_stream s2 st = Some S2" using st1 [OF movesD(2) [OF m2]] by blast
      from skip_bad_ok [OF movesD(1) [OF m2] assms(2) this] show ?thesis using that True v2(2) by (auto simp: DQ'_def)
    next
      case False
      from queue_frame_ok [OF movesD(1) [OF m2] assms(2,3) movesD(4) [OF s2(2) s1(3)] assms(6), of n]
      show ?thesis using that False v2(2) by (auto simp: DQ'_def)
    qed
    obtain s4 where s4: "measure_drops k s3 = Ret s4" "moves drv sts s3 s4 FQ DQ' h"
      using measure_ok [OF movesD(1) [OF s3(2)] assms(6)] by blast
    have "\<not> (vs_grab_only s1 \<and> vs_discard_frames s1 \<noteq> 0)" using False s1(4) by (simp add: still_def)
    then have "vo_frame_draw k drv cur f st s = Ret (n, s4)"
      using s1(1) s2(1) v2(1) s3(1) s4(1) by (auto simp: vo_frame_draw_def frame_at_def)
    then show ?thesis using s2(4) moves_trans [OF moves_trans [OF m2 s3(2)] s4(2)] False unfolding DQ'_def
      by (intro exI [of _ n] exI [of _ s4]) auto
  qed
qed

end
