(* ===== verification/Vo_Port.thy ===== *)
theory Vo_Port
  imports Vo_Draw
begin

text \<open>The pause, the end of the output loop, and the rest of the port under the invariant.\<close>

section \<open>The pause\<close>

lemma pause_backup_ok:
  assumes "vo_is drv s FQ DQ h sts"
  shows "\<exists>s' DQ'. pause_backup s = Ret s' \<and> vo_is drv s' FQ DQ' h sts \<and> vo_keeps s s' \<and>
    vs_last_frame s' = vs_last_frame s \<and> iq_locked (vs_free s') = iq_locked (vs_free s)"
proof (cases "DQ = [] \<or> vs_img_backup s \<noteq> None")
  case True
  then have "pause_backup s = Ret s" using first_display [OF assms] by (auto simp: pause_backup_def)
  then show ?thesis using assms by (intro exI [of _ s] exI [of _ DQ]) simp
next
  case False
  then obtain f DQ' where DQ: "DQ = f # DQ'" by (cases DQ) auto
  obtain s1 where s1: "remove_display s = Ret (f, s1)" "vo_is drv s1 FQ DQ' (h(f := Suc (h f))) sts" "vo_keeps s s1" "same_refs s s1"
    "has_stream s1 f" using remove_display_ok [OF assms [unfolded DQ]] by blast
  have b: "vs_img_backup s1 = None" using s1(4) False by (simp add: same_refs_def)
  have hd: "(h(f := Suc (h f)))(f := (h(f := Suc (h f))) f - 1) = h" by simp
  have "0 < (h(f := Suc (h f))) f" by simp
  note T = take_backup_ok [OF s1(2) b this s1(5), unfolded hd]
  have m: "moves drv sts (s1\<lparr>vs_img_backup := Some f\<rparr>) (s1\<lparr>vs_img_backup := Some f, vs_redraw_needed := 1\<rparr>) FQ DQ' h"
    by (rule fields_ok [OF T(1)]) simp_all
  have "pause_backup s = Ret (s1\<lparr>vs_img_backup := Some f, vs_redraw_needed := 1\<rparr>)"
    using first_display [OF assms] DQ False s1(1) by (simp add: pause_backup_def)
  then show ?thesis using movesD [OF m] vo_keeps_trans [OF vo_keeps_trans [OF s1(3) T(2)] movesD(2) [OF m]] s1(4)
    by (intro exI [of _ "s1\<lparr>vs_img_backup := Some f, vs_redraw_needed := 1\<rparr>"] exI [of _ DQ']) (simp add: same_refs_def)
qed

lemma pause_copy_ok:
  assumes "driver_ok drv" and "vo_is drv s FQ DQ h sts"
  shows "\<exists>r s' FQ'. pause_copy drv s = Ret (r, s') \<and> moves drv sts s s' FQ' DQ (taken r h) \<and> (\<forall>g. r = Some g \<longrightarrow> has_stream s' g)"
proof (cases "vs_redraw_needed s = 0 \<or> vs_img_backup s = None \<or> FQ = []")
  case True
  then have "pause_copy drv s = Ret (None, s)" using duplicate_none [of drv s DQ h sts] assms(2)
    by (auto simp: pause_copy_def split: option.splits)
  then show ?thesis using moves_refl [OF assms(2)] by (intro exI [of _ None] exI [of _ s] exI [of _ FQ]) (simp add: taken_def)
next
  case False
  then obtain b d FQ' where b: "vs_img_backup s = Some b" "FQ = d # FQ'" "vs_redraw_needed s \<noteq> 0" by (cases FQ) auto
  have "0 < refs s h b" using b(1) by (simp add: refs_def)
  then obtain s1 w where d: "duplicate_frame drv b s = Ret (Some d, s1)" "moves drv sts s s1 FQ' DQ (h(d := Suc (h d)))"
    "has_stream s1 d" "vs_frame s1 d = Some w" "d \<notin> set FQ'"
    using duplicate_ok [OF assms(1) assms(2) [unfolded b(2)] _ vo_isD(4) [OF assms(2) b(1)]] by blast
  let ?v = "w\<lparr>vf_extra_info := extra_info_reset\<rparr>"
  note P = put_frame_ok [OF movesD(1) [OF d(2)] d(4,5), of ?v]
  have "moves drv sts s1 (put_frame d ?v s1) FQ' DQ (h(d := Suc (h d)))" using P by (intro movesI) (simp_all add: shape_ok_def)
  from moves_trans [OF d(2) this] movesD(4) [OF this d(3)] show ?thesis using d(1,4) b
    by (intro exI [of _ "Some d"] exI [of _ "put_frame d ?v s1"] exI [of _ FQ']) (simp add: pause_copy_def frame_at_def taken_def)
qed

text \<open>
  The frame for the free queue is moved there with its reference count as it is: right only when
  nobody else refers to it. The free queue is empty then.
\<close>

definition pause_safe :: "vos \<Rightarrow> bool" where
  "pause_safe s \<longleftrightarrow> (case iq_first (vs_display s) of
      Some f \<Rightarrow> iq_first (vs_free s) = None \<longrightarrow> map_option vf_lock (vs_frame s f) = Some 1
    | None \<Rightarrow> True)"

lemma pause_free_ok:
  assumes "vo_is drv s FQ DQ h sts" and "pause_safe s"
  shows "\<exists>s' FQ' DQ'. pause_free s = Ret s' \<and> moves drv sts s s' FQ' DQ' h"
proof (cases "DQ = [] \<or> FQ \<noteq> []")
  case True
  then have "pause_free s = Ret s" using first_display [OF assms(1)] first_free [OF assms(1)]
    by (cases DQ; cases FQ) (auto simp: pause_free_def)
  then show ?thesis using moves_refl [OF assms(1)] by blast
next
  case False
  then obtain f DQ' where DQ: "DQ = f # DQ'" "FQ = []" by (cases DQ) auto
  note D = vo_isD [OF assms(1)]
  note F = frames_okD [OF D(1)]
  have first: "iq_first (vs_display s) = Some f" "iq_first (vs_free s) = None"
    using first_display [OF assms(1)] first_free [OF assms(1)] DQ by simp_all
  obtain v where v: "vs_frame s f = Some v" "used_ok drv (refs s h f) True v" using vo_frame_of [OF assms(1), of f] DQ by auto
  have "vf_lock v = 1" using assms(2) first v(1) by (simp add: pause_safe_def)
  then have r: "refs s h f = 0" using v(2) by (simp add: used_ok_def)
  obtain s1 where s1: "remove_display s = Ret (f, s1)" "vo_is drv s1 [] DQ' (h(f := Suc (h f))) sts" "vo_keeps s s1" "same_refs s s1"
    "has_stream s1 f" using remove_display_ok [OF assms(1) [unfolded DQ]] by blast
  note D1 = vo_isD [OF s1(2)]
  note F1 = frames_okD [OF D1(1)]
  obtain v1 where v1: "vs_frame s1 f = Some v1" using vo_frame_of [OF s1(2), of f] by (auto simp: refs_def)
  have d: "f \<notin> set DQ'" using queue_distinct [OF F(2)] DQ by simp
  let ?fr = "(vs_frame s1)(f \<mapsto> v1\<lparr>vf_next := None\<rparr>)" and ?q = "(vs_free s1)\<lparr>iq_first := Some f, iq_last := Some f, iq_num := 1\<rparr>"
  let ?t = "s1\<lparr>vs_frame := ?fr, vs_free := ?q\<rparr>"
  have e: "refs s1 (h(f := Suc (h f))) = (refs s h)(f := 1)"
    using same_refs_refs [OF s1(4)] refs_more [of s h f] r by simp
  have "queue_is ?fr ?q [f]" by (simp add: queue_is_def vf_nexts_def)
  moreover have "queue_is ?fr (vs_display s1) DQ'" using d by (intro queue_apart [OF F1(2), of "[f]"]) auto
  moreover have "refs s h g = 0" if "?fr g = None" for g using that F1(5) [of g] e by (auto split: if_splits)
  moreover have "used_ok drv (refs s h g) (g \<in> set DQ') w" if "?fr g = Some w" "g \<notin> set [f]" for g w
    using that F1(6) [of g w] e by (auto split: if_splits)
  ultimately have fo: "frames_ok drv ?fr ?q (vs_display s1) [f] DQ' (refs s h)" using d r by (intro frames_okI) auto
  have k: "vo_keeps s1 ?t" using v1 by (auto simp: vo_keeps_def has_stream_def)
  have "refs ?t h = refs s h" using same_refs_refs [OF s1(4)] by simp
  then have "vo_is drv ?t [f] DQ' h sts"
    using fo D1 vo_keeps_stream [OF k] by (intro vo_isI) simp_all
  moreover have "pause_free s = Ret ?t" using first s1(1) v1 by (simp add: pause_free_def frame_at_def put_frame_def)
  ultimately show ?thesis using vo_keeps_trans [OF s1(3) k] s1(4) by (fastforce simp: moves_def same_refs_def)
qed

lemma redraw_check_ok:
  assumes "vo_is drv s FQ DQ h sts"
  shows "moves drv sts s (check_redraw_needed drv' ovl s) FQ DQ h"
  by (rule fields_ok [OF assms]) (simp_all add: check_redraw_needed_def Let_def)

lemma paused_turn_ok:
  assumes "driver_ok drv" and "vo_is drv s FQ DQ h sts" and "pause_safe s"
  shows "\<exists>r s' FQ' DQ'. paused_turn drv ovl s = Ret (r, s') \<and> vo_is drv s' FQ' DQ' (taken r h) sts \<and> vo_keeps s s' \<and>
    vs_last_frame s' = vs_last_frame s \<and> iq_locked (vs_free s') = iq_locked (vs_free s) \<and> (\<forall>g. r = Some g \<longrightarrow> has_stream s' g)"
proof -
  obtain s1 FQ1 DQ1 where s1: "pause_free s = Ret s1" "moves drv sts s s1 FQ1 DQ1 h" using pause_free_ok [OF assms(2,3)] by blast
  obtain s2 DQ2 where s2: "pause_backup s1 = Ret s2" "vo_is drv s2 FQ1 DQ2 h sts" "vo_keeps s1 s2"
    "vs_last_frame s2 = vs_last_frame s1" "iq_locked (vs_free s2) = iq_locked (vs_free s1)"
    using pause_backup_ok [OF movesD(1) [OF s1(2)]] by blast
  note C = redraw_check_ok [OF s2(2), of drv ovl]
  obtain r s3 FQ3 where s3: "pause_copy drv (check_redraw_needed drv ovl s2) = Ret (r, s3)"
    "moves drv sts (check_redraw_needed drv ovl s2) s3 FQ3 DQ2 (taken r h)" "\<forall>g. r = Some g \<longrightarrow> has_stream s3 g"
    using pause_copy_ok [OF assms(1) movesD(1) [OF C]] by blast
  note M = moves_trans [OF C s3(2)]
  have "paused_turn drv ovl s = Ret (r, s3)" using s1(1) s2(1) s3(1) by (simp add: paused_turn_def)
  then show ?thesis using movesD [OF M] movesD [OF s1(2)] s2(4,5) s3(3) vo_keeps_trans [OF vo_keeps_trans [OF movesD(2) [OF s1(2)] s2(3)] movesD(2) [OF M]]
    by (intro exI [of _ r] exI [of _ s3] exI [of _ FQ3] exI [of _ DQ2]) simp
qed

section \<open>The end of the loop\<close>

lemma discard_display_ok:
  assumes "vo_is drv s FQ DQ h sts" and "length DQ < k"
  shows "\<exists>s' FQ'. discard_display k s = Ret s' \<and> moves drv sts s s' FQ' [] h"
  using assms
proof (induction DQ arbitrary: s FQ k)
  case Nil
  then show ?case using first_display [OF Nil.prems(1)] moves_refl [OF Nil.prems(1)] by (cases k) auto
next
  case (Cons f DQ)
  obtain j where k: "k = Suc j" using Cons.prems(2) by (cases k) auto
  obtain s1 where s1: "remove_display s = Ret (f, s1)" "vo_is drv s1 FQ DQ (h(f := Suc (h f))) sts" "vo_keeps s s1" "same_refs s s1"
    using remove_display_ok [OF Cons.prems(1)] by blast
  obtain s2 FQ2 where s2: "vo_frame_dec_lock f s1 = Ret s2" "vo_is drv s2 FQ2 DQ h sts" "vo_keeps s1 s2" "same_refs s1 s2"
    using dec_ok [OF s1(2), of f] by auto
  have m: "moves drv sts s s2 FQ2 DQ h" using s2(2) vo_keeps_trans [OF s1(3) s2(3)] same_refs_trans [OF s1(4) s2(4)] by (rule movesI)
  obtain s' FQ' where s': "discard_display j s2 = Ret s'" "moves drv sts s2 s' FQ' [] h"
    using Cons.IH [OF s2(2), of j] Cons.prems(2) k by auto
  have "discard_display k s = Ret s'" using k first_display [OF Cons.prems(1)] s1(1) s2(1) s'(1) by simp
  then show ?case using moves_trans [OF m s'(2)] by blast
qed

lemma end_of_loop_ok:
  assumes "vo_is drv s FQ DQ h sts" and "length DQ < k"
  shows "\<exists>s' FQ'. end_of_loop k s = Ret s' \<and> vo_is drv s' FQ' [] h sts \<and> vo_keeps s s' \<and>
    vs_img_backup s' = None \<and> vs_last_frame s' = None \<and> iq_locked (vs_free s') = iq_locked (vs_free s)"
proof -
  obtain s1 FQ1 where s1: "discard_display k s = Ret s1" "moves drv sts s s1 FQ1 [] h" using discard_display_ok [OF assms] by blast
  obtain s2 FQ2 where s2: "free_backup s1 = Ret s2" "vo_is drv s2 FQ2 [] h sts" "vo_keeps s1 s2" "vs_img_backup s2 = None"
    "iq_locked (vs_free s2) = iq_locked (vs_free s1)" using free_backup_ok [OF movesD(1) [OF s1(2)]] by blast
  obtain s3 FQ3 where s3: "release_last s2 = Ret s3" "vo_is drv (s3\<lparr>vs_last_frame := None\<rparr>) FQ3 [] h sts"
    "vo_keeps s2 (s3\<lparr>vs_last_frame := None\<rparr>)" "s3 = s2\<lparr>vs_frame := vs_frame s3, vs_free := vs_free s3\<rparr>"
    "iq_locked (vs_free s3) = iq_locked (vs_free s2)" using release_last_ok [OF s2(2)] by blast
  have "vs_img_backup s3 = None" by (subst s3(4)) (simp add: s2(4))
  moreover have "end_of_loop k s = Ret (s3\<lparr>vs_last_frame := None\<rparr>)" using s1(1) s2(1) s3(1) by (simp add: end_of_loop_def)
  ultimately show ?thesis using s3(2,5) s2(5) movesD(7) [OF s1(2)] vo_keeps_trans [OF vo_keeps_trans [OF movesD(2) [OF s1(2)] s2(3)] s3(3)]
    by (intro exI [of _ "s3\<lparr>vs_last_frame := None\<rparr>"] exI [of _ FQ3]) simp
qed


section \<open>Streams and properties\<close>

lemma first_stream_ok:
  assumes "holds xl_is l sts"
  shows "\<exists>l'. xine_list_first_content l = Ret (case sts of [] \<Rightarrow> None | x # _ \<Rightarrow> Some x, l') \<and> holds xl_is l' sts"
proof -
  obtain z where z: "xl_is l z" "solid z" "contents z = sts" using assms by (auto simp: holds_def)
  obtain l' where l': "xine_list_first_content l = Ret (cl_content (cl_first z), l')" "xl_is l' (cl_first z)"
    using list_first_ok [OF z(1)] by blast
  have "cl_content (cl_first z) = (case sts of [] \<Rightarrow> None | x # _ \<Rightarrow> Some x)"
    using z(2,3) by (cases "cl_all z") (auto simp: contents_def solid_def cl_content_def)
  moreover have "holds xl_is l' sts" using l'(2) z by (intro holdsI [of xl_is, OF l'(2)]) (simp_all add: solid_def contents_def)
  ultimately show ?thesis using l'(1) by simp
qed

lemma flush_decoders_ok:
  assumes "vo_is drv s FQ DQ h sts" and "length sts < k"
  shows "\<exists>s'. flush_decoders k vpts s = Ret s' \<and> moves drv sts s s' FQ DQ h"
proof (cases "vpts - vs_last_delivery_pts s > 30000 \<and> iq_first (vs_display s) = None")
  case False
  then show ?thesis using moves_refl [OF assms(1)] by (auto simp: flush_decoders_def)
next
  case True
  have body: "\<exists>t'. flush_decoder x t = Ret t' \<and> vo_is drv t' FQ DQ h sts \<and> vo_keeps t t' \<and> same_refs t t' \<and> True"
    if t: "vo_is drv t FQ DQ h sts" "x \<in> set sts" for t x
    using stream_of [OF t] t(1) vo_call_ok [OF t(1), of "V_flush_decoder x"]
    by (auto simp: flush_decoder_def stream_at_def)
  from for_streams_ok [OF assms, of "\<lambda>_. True" flush_decoder, OF body] obtain t where
    t: "for_streams k flush_decoder s = Ret t" "vo_is drv t FQ DQ h sts" "vo_keeps s t" "same_refs s t" by auto
  have m: "moves drv sts t (t\<lparr>vs_last_delivery_pts := vpts\<rparr>) FQ DQ h" by (rule fields_ok [OF t(2)]) simp_all
  have "moves drv sts s t FQ DQ h" using t(2-4) by (rule movesI)
  from moves_trans [OF this m] show ?thesis using True t(1) by (simp add: flush_decoders_def)
qed

lemma port_open_ok:
  assumes "vo_is drv s FQ DQ h sts" and "vs_stream s st = Some S"
  shows "\<exists>s'. vo_open st s = Ret s' \<and> moves drv (sts @ [st]) s s' FQ DQ h"
proof -
  let ?s1 = "s\<lparr>vs_opened := True, vs_discard_frames := 0, vs_last_delivery_pts := 0, vs_warn_sent := 0, vs_warn_exceeded := 0\<rparr>"
  define s2 where "s2 = (if \<not> vs_overlay_enabled ?s1 \<and> st_spu_channel_user S > - 2 then ?s1\<lparr>vs_overlay_enabled := True\<rparr> else ?s1)"
  have m: "moves drv sts s s2 FQ DQ h" by (rule fields_ok [OF assms(1)]) (simp_all add: s2_def)
  note M = movesD [OF m]
  obtain l where l: "xine_list_append_content (Some st) (vs_streams s2) = Ret l" "holds xl_is l (sts @ [st])"
    using xl.holds_append [OF vo_isD(5) [OF M(1)]] by blast
  have "st \<in> dom (vs_stream s2)" using assms(2) M(2) by (auto simp: vo_keeps_def)
  then have "set (sts @ [st]) \<subseteq> dom (vs_stream s2)" using vo_isD(6) [OF M(1)] by simp
  note L = list_ok [OF M(1) l(2) this]
  have "vo_open st s = Ret (s2\<lparr>vs_streams := l\<rparr>)" using assms(2) l(1) by (simp add: vo_open_def stream_at_def Let_def s2_def)
  moreover have "moves drv (sts @ [st]) s (s2\<lparr>vs_streams := l\<rparr>) FQ DQ h"
    using L(1) vo_keeps_trans [OF M(2) L(2)] same_refs_trans [OF M(3) L(3)] by (rule movesI)
  ultimately show ?thesis by blast
qed

lemma port_close_ok:
  assumes "vo_is drv s FQ DQ h sts" and "length sts < k"
  shows "\<exists>s'. vo_close k st s = Ret s' \<and> moves drv (remove1 st sts) s s' FQ DQ h"
proof -
  let ?s1 = "(vo_call V_flush_overlays s)\<lparr>vs_opened := False\<rparr>"
  have m: "moves drv sts s ?s1 FQ DQ h" by (rule fields_ok [OF assms(1)]) (simp_all add: vo_call_def)
  note M = movesD [OF m]
  obtain l where l: "search xine_list_first_content xine_list_next_content (\<lambda>cur. cur = st) k (vs_streams ?s1) =
      Ret (if st \<in> set sts then Some st else None, l)" "holds xl_is l sts"
    "st \<in> set sts \<Longrightarrow> \<exists>l2. xine_list_delete_current l = Ret l2 \<and> holds xl_is l2 (remove1 st sts)"
    using xl.holds_search_delete [OF vo_isD(5) [OF M(1)] assms(2), of "\<lambda>cur. cur = st"] unfolding find_eq remove1_split
    by (cases "st \<in> set sts") auto
  obtain l1 where l1: "(if st \<in> set sts then xine_list_delete_current l else Ret l) = Ret l1" "holds xl_is l1 (remove1 st sts)"
    using l(2,3) by (cases "st \<in> set sts") (auto simp: remove1_idem)
  have "set (remove1 st sts) \<subseteq> dom (vs_stream ?s1)" using vo_isD(6) [OF M(1)] set_remove1_subset [of st sts] by blast
  note L = list_ok [OF M(1) l1(2) this]
  have "vo_close k st s = Ret (?s1\<lparr>vs_streams := l1\<rparr>)" using l(1) l1(1) by (auto simp: vo_close_def Let_def split: if_splits)
  moreover have "moves drv (remove1 st sts) s (?s1\<lparr>vs_streams := l1\<rparr>) FQ DQ h"
    using L(1) vo_keeps_trans [OF M(2) L(2)] same_refs_trans [OF M(3) L(3)] by (rule movesI)
  ultimately show ?thesis by blast
qed

lemma search_ok:
  assumes "vo_is drv s FQ DQ h sts" and "length sts < k"
  shows "\<exists>l. search xine_list_first_content xine_list_next_content P k (vs_streams s) = Ret (find P sts, l) \<and>
    moves drv sts s (s\<lparr>vs_streams := l\<rparr>) FQ DQ h"
proof -
  obtain l where l: "search xine_list_first_content xine_list_next_content P k (vs_streams s) = Ret (find P sts, l)" "holds xl_is l sts"
    using xl.holds_search_delete [OF vo_isD(5) [OF assms(1)] assms(2), of P] by blast
  have "moves drv sts s (s\<lparr>vs_streams := l\<rparr>) FQ DQ h" using list_ok [OF assms(1) l(2) vo_isD(6) [OF assms(1)]] by (rule movesI)
  then show ?thesis using l(1) by blast
qed

lemma enable_ok:
  assumes "vo_is drv s FQ DQ h sts" and "length sts < k"
  shows "\<exists>s'. vo_enable_overlay k b s = Ret s' \<and> moves drv sts s s' FQ DQ h"
proof (cases b)
  case True
  have "moves drv sts s (s\<lparr>vs_overlay_enabled := True\<rparr>) FQ DQ h" by (rule fields_ok [OF assms(1)]) simp_all
  then show ?thesis using True by (simp add: vo_enable_overlay_def)
next
  case False
  obtain l where l: "search xine_list_first_content xine_list_next_content (wants_spu s) k (vs_streams s) = Ret (find (wants_spu s) sts, l)"
    "moves drv sts s (s\<lparr>vs_streams := l\<rparr>) FQ DQ h" using search_ok [OF assms] by blast
  have "moves drv sts (s\<lparr>vs_streams := l\<rparr>) (s\<lparr>vs_streams := l, vs_overlay_enabled := False\<rparr>) FQ DQ h"
    by (rule fields_ok [OF movesD(1) [OF l(2)]]) simp_all
  from moves_trans [OF l(2) this] show ?thesis using False l by (auto simp: vo_enable_overlay_def)
qed

lemma status_ok:
  assumes "vo_is drv s FQ DQ h sts" and "length sts < k"
  shows "\<exists>r s'. vo_status k st s = Ret (r, s') \<and> moves drv sts s s' FQ DQ h"
  using search_ok [OF assms, of "\<lambda>cur. Some cur = st \<or> st = None"] by (auto simp: vo_status_def)

lemma set_property_ok:
  assumes "vo_is drv s FQ DQ h sts" and "length DQ < k"
  shows "\<exists>r s' FQ' DQ'. vo_set_property k drv p value s = Ret (r, s') \<and> moves drv sts s s' FQ' DQ' h"
proof (cases "p = VO_PROP_DISCARD_FRAMES")
  case True
  let ?s1 = "s\<lparr>vs_discard_frames := vs_discard_frames s + (if value \<noteq> 0 then 1 else - 1)\<rparr>"
  have m: "moves drv sts s ?s1 FQ DQ h" by (rule fields_ok [OF assms(1)]) simp_all
  obtain s2 FQ2 where "discard_display k ?s1 = Ret s2" "moves drv sts ?s1 s2 FQ2 [] h"
    using discard_display_ok [OF movesD(1) [OF m] assms(2)] by blast
  note d = this
  show ?thesis
  proof (cases "vs_grab_only ?s1 \<and> vs_discard_frames ?s1 \<noteq> 0")
    case D: True
    have "vo_set_property k drv p value s = Ret (vs_discard_frames ?s1, s2)" using True D d(1) by (simp add: vo_set_property_def Let_def)
    then show ?thesis using moves_trans [OF m d(2)] by blast
  next
    case D: False
    have "vo_set_property k drv p value s = Ret (vs_discard_frames ?s1, ?s1)" using True D by (auto simp: vo_set_property_def Let_def)
    then show ?thesis using m by blast
  qed
next
  case False
  have "\<exists>r cs. vo_set_property k drv p value s = Ret (r, s\<lparr>vs_calls := cs\<rparr>)"
  proof (cases "vs_grab_only s")
    case True
    then show ?thesis using False by (intro exI [of _ 0] exI [of _ "vs_calls s"]) (simp add: vo_set_property_def)
  next
    case G: False
    then show ?thesis using False
      by (cases "drv_min_max drv (driver_property p)") (auto simp: vo_set_property_def set_driver_property_def vo_call_def Let_def)
  qed
  moreover have "moves drv sts s (s\<lparr>vs_calls := cs\<rparr>) FQ DQ h" for cs by (rule fields_ok [OF assms(1)]) simp_all
  ultimately show ?thesis by blast
qed

lemma take_frame_ok:
  assumes "vo_is drv s FQ DQ h sts"
  shows "xine_get_next_video_frame busy s = Wait \<or>
    (\<exists>r s' DQ'. xine_get_next_video_frame busy s = Ret (r, s') \<and> moves drv sts s s' FQ DQ' (taken (map_option xf_frame r) h))"
proof -
  obtain l where l: "xine_list_first_content (vs_streams s) = Ret (case sts of [] \<Rightarrow> None | x # _ \<Rightarrow> Some x, l)" "holds xl_is l sts"
    using first_stream_ok [OF vo_isD(5) [OF assms]] by blast
  let ?s1 = "s\<lparr>vs_streams := l\<rparr>"
  have m: "moves drv sts s ?s1 FQ DQ h" using list_ok [OF assms l(2) vo_isD(6) [OF assms]] by (rule movesI)
  show ?thesis
  proof (cases DQ)
    case Nil
    then show ?thesis using l(1) first_display [OF assms] m
      by (cases sts) (auto simp: xine_get_next_video_frame_def Let_def taken_def)
  next
    case (Cons f DQ')
    obtain s2 where s2: "remove_display ?s1 = Ret (f, s2)" "vo_is drv s2 FQ DQ' (h(f := Suc (h f))) sts" "vo_keeps ?s1 s2" "same_refs ?s1 s2"
      using remove_display_ok [OF movesD(1) [OF m, unfolded Cons]] by blast
    have "moves drv sts ?s1 s2 FQ DQ' (h(f := Suc (h f)))" using s2(2-4) by (rule movesI)
    note M = moves_trans [OF m this]
    obtain v where "vs_frame s2 f = Some v" using vo_frame_of [OF s2(2), of f] by (auto simp: refs_def)
    then show ?thesis using l(1) first_display [OF assms] s2(1) M Cons
      by (cases sts) (auto simp: xine_get_next_video_frame_def Let_def taken_def frame_at_def)
  qed
qed

end
