(* ===== verification/Vo_System.thy ===== *)
theory Vo_System
  imports Vo_Port
begin

text \<open>
  The video output with everybody who calls it: decoders, the output loop, the driver and
  frontends, in any order, each operation whole. What they hold is kept beside the state; an
  operation is allowed when its caller holds what it passes.
\<close>

section \<open>Clients\<close>

text \<open>
  \<open>vc_held\<close> counts the references outside the video output, \<open>vc_due\<close> is
  the frame that the output loop has taken and not yet shown, \<open>vc_open\<close> are the
  streams that have the port open, \<open>vc_stolen\<close> says whether a pause has ever taken a
  frame that somebody else uses.
\<close>

record vo_clients =
  vc_held :: "nat \<Rightarrow> nat"
  vc_due :: "nat option"
  vc_open :: "nat list"
  vc_stolen :: bool

definition no_clients :: vo_clients where
  "no_clients = \<lparr>vc_held = \<lambda>_. 0, vc_due = None, vc_open = [], vc_stolen = False\<rparr>"

definition hold :: "nat \<Rightarrow> vo_clients \<Rightarrow> vo_clients" where
  "hold f c = c\<lparr>vc_held := (vc_held c)(f := Suc (vc_held c f))\<rparr>"

definition drop_hold :: "nat \<Rightarrow> vo_clients \<Rightarrow> vo_clients" where
  "drop_hold f c = c\<lparr>vc_held := (vc_held c)(f := vc_held c f - 1)\<rparr>"

definition counts :: "vo_clients \<Rightarrow> nat \<Rightarrow> nat" where
  "counts c f = vc_held c f + (if vc_due c = Some f then 1 else 0)"

text \<open>
  \<open>O_write\<close> is the decoder filling a frame: its time, whether it is bad, and the
  contents of its planes. \<open>O_draw\<close>, \<open>O_lock\<close> and \<open>O_free\<close>
  are its functions; \<open>O_free\<close> is also what the driver and frontends do with a frame
  when they are done. \<open>O_expire\<close> to \<open>O_end\<close> are the parts of the output
  loop and of its pause. \<open>O_stream\<close> is the rest of the engine changing a stream.
\<close>

datatype vo_op =
    O_get u32 u32 "int \<times> int" u32 u32 | O_write nat vo_frame bool picture | O_draw nat nat int | O_lock nat | O_free nat
  | O_expire int | O_next int | O_show int | O_redraw bool | O_flush_decoders int | O_pause bool | O_lock_queue bool | O_end
  | O_take "nat \<Rightarrow> bool" | O_open nat | O_close nat | O_set int int | O_enable bool | O_status "nat option"
  | O_flush_begin | O_flush_end int | O_stream nat vo_stream

text \<open>
  The pause takes the first waiting frame for its still pictures when no frame is free, and does
  not ask whether the queue is the only one to refer to it.
\<close>

definition steals :: "vos \<Rightarrow> bool" where
  "steals s \<longleftrightarrow> iq_first (vs_free s) = None \<and>
     (case iq_first (vs_display s) of None \<Rightarrow> False | Some f \<Rightarrow> map_option vf_lock (vs_frame s f) \<noteq> Some 1)"

lemma steals_iff: "steals s \<longleftrightarrow> \<not> pause_safe s"
  by (auto simp: steals_def pause_safe_def split: option.splits)

type_synonym vo_sys = "vos \<times> vo_clients"

definition hold_opt :: "nat option \<Rightarrow> vo_clients \<Rightarrow> vo_clients" where
  "hold_opt r c = (case r of None \<Rightarrow> c | Some f \<Rightarrow> hold f c)"

fun run_op :: "nat \<Rightarrow> vo_driver \<Rightarrow> vo_op \<Rightarrow> vo_sys \<Rightarrow> vo_sys outcome" where
  "run_op k drv (O_get w h ratio format flags) (s, c) = obind (vo_get_frame drv w h ratio format flags s) (\<lambda>(f, s1). Ret (s1, hold f c))"
| "run_op k drv (O_write f t bad pic) (s, c) =
     obind (frame_at f s) (\<lambda>v. Ret (put_frame f (v\<lparr>vf_time := t, vf_bad_frame := bad, vf_picture := pic\<rparr>) s, c))"
| "run_op k drv (O_draw f st cur) (s, c) = obind (vo_frame_draw k drv cur f st s) (\<lambda>(_, s1). Ret (s1, c))"
| "run_op k drv (O_lock f) (s, c) = obind (vo_frame_inc_lock f s) (\<lambda>s1. Ret (s1, hold f c))"
| "run_op k drv (O_free f) (s, c) = obind (vo_frame_dec_lock f s) (\<lambda>s1. Ret (s1, drop_hold f c))"
| "run_op k drv (O_expire cur) (s, c) = obind (expire_frames k cur s) (\<lambda>s1. Ret (s1, c))"
| "run_op k drv (O_next cur) (s, c) = obind (get_next_frame drv cur s) (\<lambda>(r, s1). Ret (s1, c\<lparr>vc_due := r\<rparr>))"
| "run_op k drv (O_show vpts) (s, c) =
     (case vc_due c of
        None \<Rightarrow> Ret (s, c)
      | Some f \<Rightarrow> obind (overlay_and_display_frame k drv f vpts s) (\<lambda>s1. Ret (s1, hold f (c\<lparr>vc_due := None\<rparr>))))"
| "run_op k drv (O_redraw ovl) (s, c) = Ret (check_redraw_needed drv ovl s, c)"
| "run_op k drv (O_flush_decoders vpts) (s, c) = obind (flush_decoders k vpts s) (\<lambda>s1. Ret (s1, c))"
| "run_op k drv (O_pause ovl) (s, c) = 
     obind (paused_turn drv ovl s) (\<lambda>(r, s1). Ret (s1, c\<lparr>vc_due := r, vc_stolen := vc_stolen c \<or> steals s\<rparr>))"
| "run_op k drv (O_lock_queue b) (s, c) = Ret (lock_free_queue b s, c)"
| "run_op k drv O_end (s, c) = obind (end_of_loop k s) (\<lambda>s1. Ret (s1, c))"
| "run_op k drv (O_take busy) (s, c) =
     obind (xine_get_next_video_frame busy s) (\<lambda>(r, s1). Ret (s1, hold_opt (map_option xf_frame r) c))"
| "run_op k drv (O_open st) (s, c) = obind (vo_open st s) (\<lambda>s1. Ret (s1, c\<lparr>vc_open := vc_open c @ [st]\<rparr>))"
| "run_op k drv (O_close st) (s, c) = obind (vo_close k st s) (\<lambda>s1. Ret (s1, c\<lparr>vc_open := remove1 st (vc_open c)\<rparr>))"
| "run_op k drv (O_set p value) (s, c) = obind (vo_set_property k drv p value s) (\<lambda>(_, s1). Ret (s1, c))"
| "run_op k drv (O_enable b) (s, c) = obind (vo_enable_overlay k b s) (\<lambda>s1. Ret (s1, c))"
| "run_op k drv (O_status st) (s, c) = obind (vo_status k st s) (\<lambda>(_, s1). Ret (s1, c))"
| "run_op k drv O_flush_begin (s, c) = Ret (flush_begin s, c)"
| "run_op k drv (O_flush_end speed) (s, c) = obind (flush_end speed s) (\<lambda>s1. Ret (s1, c))"
| "run_op k drv (O_stream st S) (s, c) = Ret (put_stream st S s, c)"

text \<open>
  The rules: a frame is written, drawn, locked and freed by who holds it; what is written has the
  size of the planes; a frame is not drawn again while it waits to be shown (the queue asserts
  that); the output loop shows a frame before it takes the next one; streams that are passed exist.
\<close>

definition waiting :: "nat \<Rightarrow> vos \<Rightarrow> nat list" where
  "waiting k s = walk (vf_nexts (vs_frame s)) k (iq_first (vs_display s))"

fun allowed :: "nat \<Rightarrow> vo_op \<Rightarrow> vo_sys \<Rightarrow> bool" where
  "allowed k (O_write f t bad pic) (s, c) \<longleftrightarrow>
     0 < vc_held c f \<and> (case vs_frame s f of None \<Rightarrow> False | Some v \<Rightarrow> sizes pic = sizes (vf_picture v))"
| "allowed k (O_draw f st cur) (s, c) \<longleftrightarrow> 0 < vc_held c f \<and> f \<notin> set (waiting k s) \<and> vs_stream s st \<noteq> None"
| "allowed k (O_lock f) (s, c) \<longleftrightarrow> 0 < vc_held c f"
| "allowed k (O_free f) (s, c) \<longleftrightarrow> 0 < vc_held c f"
| "allowed k (O_next cur) (s, c) \<longleftrightarrow> vc_due c = None"
| "allowed k (O_pause ovl) (s, c) \<longleftrightarrow> vc_due c = None"
| "allowed k (O_open st) (s, c) \<longleftrightarrow> vs_stream s st \<noteq> None \<and> length (vc_open c) + 1 < k"
| "allowed k (O_stream st S) (s, c) \<longleftrightarrow> vs_stream s st \<noteq> None"
| "allowed k _ _ \<longleftrightarrow> True"

inductive vo_step :: "nat \<Rightarrow> vo_driver \<Rightarrow> vo_sys \<Rightarrow> vo_sys \<Rightarrow> bool" for k drv where
  step: "allowed k op x \<Longrightarrow> run_op k drv op x = Ret y \<Longrightarrow> vo_step k drv x y"

inductive vo_reachable :: "nat \<Rightarrow> vo_driver \<Rightarrow> vo_sys \<Rightarrow> bool" for k drv where
  start: "vo_new_port drv grab warn_skipped warn_discarded streams = Ret s \<Longrightarrow> vo_reachable k drv (s, no_clients)"
| next_op: "vo_reachable k drv x \<Longrightarrow> vo_step k drv x y \<Longrightarrow> vo_reachable k drv y"

section \<open>Every operation keeps the invariant\<close>

definition vo_inv :: "nat \<Rightarrow> vo_driver \<Rightarrow> vo_sys \<Rightarrow> bool" where
  "vo_inv k drv x \<longleftrightarrow>
     (\<exists>FQ DQ. vo_is drv (fst x) FQ DQ (counts (snd x)) (vc_open (snd x))) \<and> length (vc_open (snd x)) < k \<and>
     finite (dom (vs_frame (fst x))) \<and> card (dom (vs_frame (fst x))) + 1 < k \<and>
     (\<forall>f. vc_due (snd x) = Some f \<longrightarrow> has_stream (fst x) f)"

lemma counts_simps:
  "counts (hold f c) = (counts c)(f := Suc (counts c f))"
  "0 < vc_held c f \<Longrightarrow> counts (drop_hold f c) = (counts c)(f := counts c f - 1)"
  "vc_due c = None \<Longrightarrow> counts (c\<lparr>vc_due := r\<rparr>) = taken r (counts c)"
  "vc_due c = Some f \<Longrightarrow> counts (hold f (c\<lparr>vc_due := None\<rparr>)) = counts c"
  "counts (c\<lparr>vc_open := xs\<rparr>) = counts c"
  "vc_due c = None \<Longrightarrow> counts (c\<lparr>vc_due := r, vc_stolen := b\<rparr>) = taken r (counts c)"
  "counts (hold_opt r c) = taken r (counts c)"
  by (auto simp: counts_def hold_def drop_hold_def hold_opt_def taken_def fun_eq_iff split: option.splits)

lemma client_simps [simp]:
  "vc_due (hold f c) = vc_due c" "vc_open (hold f c) = vc_open c" "vc_due (drop_hold f c) = vc_due c" "vc_open (drop_hold f c) = vc_open c"
  "vc_due (hold_opt r c) = vc_due c" "vc_open (hold_opt r c) = vc_open c"
  "vc_stolen (hold f c) = vc_stolen c" "vc_stolen (drop_hold f c) = vc_stolen c" "vc_stolen (hold_opt r c) = vc_stolen c"
  by (simp_all add: hold_def drop_hold_def hold_opt_def split: option.splits)

lemma vo_invI:
  assumes "vo_is drv s' FQ DQ (counts c') (vc_open c')" and "vo_keeps s s'" and "vo_inv k drv (s, c)"
    and "vc_due c' = vc_due c \<or> (\<forall>f. vc_due c' = Some f \<longrightarrow> has_stream s' f)" and "length (vc_open c') < k"
  shows "vo_inv k drv (s', c')"
  using assms vo_keeps_stream [OF assms(2)] unfolding vo_inv_def by (auto simp: vo_keeps_def)

lemma waiting_ok:
  assumes "vo_is drv s FQ DQ h sts" and "finite (dom (vs_frame s))" and "card (dom (vs_frame s)) + 1 < k"
  shows "waiting k s = DQ" and "length DQ + 1 < k"
proof -
  note D = frames_okD [OF vo_isD(1) [OF assms(1)]]
  have "set DQ \<subseteq> dom (vs_frame s)" using queue_allocated [OF D(2)] by auto
  then have "card (set DQ) \<le> card (dom (vs_frame s))" using assms(2) by (rule card_mono [rotated])
  then show len: "length DQ + 1 < k" using distinct_card [OF queue_distinct [OF D(2)]] assms(3) by simp
  then show "waiting k s = DQ" using D(2) unfolding waiting_def queue_is_def by (intro walk_lseg) auto
qed


definition op_fine :: "nat \<Rightarrow> vo_driver \<Rightarrow> vo_op \<Rightarrow> vo_sys \<Rightarrow> bool" where
  "op_fine k drv op x \<longleftrightarrow> run_op k drv op x = Wait \<or> (\<exists>y. run_op k drv op x = Ret y \<and> vo_inv k drv y)"

lemma op_fineI:
  assumes "vo_inv k drv (s, c)" and "run_op k drv op (s, c) = Ret (s', c')" and "vo_is drv s' FQ DQ h sts" and "vo_keeps s s'"
    and "h = counts c'" and "sts = vc_open c'" and "vc_due c' = vc_due c \<or> (\<forall>f. vc_due c' = Some f \<longrightarrow> has_stream s' f)"
    and "length (vc_open c') < k"
  shows "op_fine k drv op (s, c)"
  using assms vo_invI [of drv s' FQ DQ c' s k c] by (simp add: op_fine_def)

lemma vo_invD:
  assumes "vo_inv k drv (s, c)"
  obtains FQ DQ where "vo_is drv s FQ DQ (counts c) (vc_open c)" and "length (vc_open c) < k" and "waiting k s = DQ" and "length DQ + 1 < k"
    and "\<forall>f. vc_due c = Some f \<longrightarrow> has_stream s f"
  using assms waiting_ok unfolding vo_inv_def fst_conv snd_conv by metis

lemma frame_ops_ok:
  assumes "driver_ok drv" and "vo_inv k drv (s, c)" and "allowed k op (s, c)"
    and "op \<in> {O_get w ht ratio format flags, O_write f t bad pic, O_draw f st cur, O_lock f, O_free f}"
  shows "op_fine k drv op (s, c)"
proof -
  obtain FQ DQ where I: "vo_is drv s FQ DQ (counts c) (vc_open c)" "length (vc_open c) < k" "waiting k s = DQ" "length DQ + 1 < k"
    "\<forall>f. vc_due c = Some f \<longrightarrow> has_stream s f" using vo_invD [OF assms(2)] .
  have held: "0 < counts c f" if "0 < vc_held c f" for f using that by (simp add: counts_def)
  from assms(4) consider "op = O_get w ht ratio format flags" | "op = O_write f t bad pic" | "op = O_draw f st cur" | "op = O_lock f" | "op = O_free f" by auto
  then show ?thesis
  proof cases
    case 1
    show ?thesis
    proof (cases "FQ = [] \<or> iq_locked (vs_free s)")
      case True
      then have "remove_free s = Wait" using first_free [OF I(1)]
        by (auto simp: remove_free_def vo_remove_from_img_buf_queue_int_def split: option.splits)
      then show ?thesis using 1 by (simp add: op_fine_def vo_get_frame_def)
    next
      case False
      then obtain d FQ' where FQ: "FQ = d # FQ'" "\<not> iq_locked (vs_free s)" by (cases FQ) auto
      obtain s' where r: "vo_get_frame drv w ht ratio format flags s = Ret (d, s')"
        "moves drv (vc_open c) s s' FQ' DQ ((counts c)(d := Suc (counts c d)))"
        using get_frame_ok [OF I(1) [unfolded FQ(1)] FQ(2)] by blast
      note M = movesD [OF r(2)]
      show ?thesis by (rule op_fineI [where c' = "hold d c", OF assms(2) _ M(1,2)]) (use 1 r(1) I(2) in \<open>simp_all add: counts_simps\<close>)
    qed
  next
    case 2
    obtain v where v: "vs_frame s f = Some v" "sizes pic = sizes (vf_picture v)" using assms(3) 2 by (auto split: option.splits)
    have "0 < refs s (counts c) f" using assms(3) 2 held by (simp add: refs_def)
    then have fq: "f \<notin> set FQ" using vo_frame_of [OF I(1)] by blast
    let ?v = "v\<lparr>vf_time := t, vf_bad_frame := bad, vf_picture := pic\<rparr>"
    have "shape_ok drv v \<Longrightarrow> shape_ok drv ?v" using v(2) by (simp add: shape_ok_def)
    note P = put_frame_ok [OF I(1) v(1) fq, of ?v, OF _ _ this]
    show ?thesis by (rule op_fineI [OF assms(2) _ P(1,2)]) (use 2 v(1) I(2) in \<open>simp_all add: frame_at_def\<close>)
  next
    case 3
    have a: "0 < counts c f" "f \<notin> set DQ" using assms(3) 3 held I(3) by simp_all
    obtain S where S: "vs_stream s st = Some S" using assms(3) 3 by auto
    have "0 < refs s (counts c) f" using a(1) by (simp add: refs_def)
    then obtain v where v: "vs_frame s f = Some v" using vo_frame_of [OF I(1)] by blast
    obtain n s' DQ' where r: "vo_frame_draw k drv cur f st s = Ret (n, s')" "moves drv (vc_open c) s s' FQ DQ' (counts c)"
      using draw_ok [OF I(1) a v S I(2)] by blast
    note M = movesD [OF r(2)]
    show ?thesis by (rule op_fineI [OF assms(2) _ M(1,2)]) (use 3 r(1) I(2) in simp_all)
  next
    case 4
    have "0 < refs s (counts c) f" using assms(3) 4 held by (simp add: refs_def)
    then obtain s' where r: "vo_frame_inc_lock f s = Ret s'" "vo_is drv s' FQ DQ ((counts c)(f := Suc (counts c f))) (vc_open c)" "vo_keeps s s'"
      using inc_ok [OF I(1)] by blast
    show ?thesis by (rule op_fineI [where c' = "hold f c", OF assms(2) _ r(2,3)]) (use 4 r(1) I(2) in \<open>simp_all add: counts_simps\<close>)
  next
    case 5
    have h: "0 < vc_held c f" using assms(3) 5 by simp
    obtain s' FQ' where r: "vo_frame_dec_lock f s = Ret s'" "vo_is drv s' FQ' DQ ((counts c)(f := counts c f - 1)) (vc_open c)" "vo_keeps s s'"
      using dec_ok [OF I(1) held [OF h]] by blast
    show ?thesis by (rule op_fineI [where c' = "drop_hold f c", OF assms(2) _ r(2,3)]) (use 5 r(1) I(2) h in \<open>simp_all add: counts_simps\<close>)
  qed
qed

lemma loop_ops_ok:
  assumes "driver_ok drv" and "vo_inv k drv (s, c)" and "allowed k op (s, c)" and "\<forall>b. op = O_pause b \<longrightarrow> \<not> steals s"
    and "op \<in> {O_expire cur, O_next cur, O_show cur, O_redraw b, O_flush_decoders cur, O_pause b, O_lock_queue b, O_end}"
  shows "op_fine k drv op (s, c)"
proof -
  obtain FQ DQ where I: "vo_is drv s FQ DQ (counts c) (vc_open c)" "length (vc_open c) < k" "waiting k s = DQ" "length DQ + 1 < k"
    "\<forall>f. vc_due c = Some f \<longrightarrow> has_stream s f" using vo_invD [OF assms(2)] .
  from assms(5) consider "op = O_expire cur" | "op = O_next cur" | "op = O_show cur" | "op = O_redraw b" | "op = O_flush_decoders cur"
    | "op = O_pause b" | "op = O_lock_queue b" | "op = O_end" by auto
  then show ?thesis
  proof cases
    case 1
    obtain s' FQ' n where r: "expire_frames k cur s = Ret s'" "vo_is drv s' FQ' (drop n DQ) (counts c) (vc_open c)" "vo_keeps s s'"
      using expire_loop_ok [OF I(1,4), of cur 1000000] unfolding expire_frames_def Let_def by blast
    show ?thesis by (rule op_fineI [OF assms(2) _ r(2,3)]) (use 1 r(1) I(2) in simp_all)
  next
    case 2
    obtain r s' FQ' DQ' where r: "get_next_frame drv cur s = Ret (r, s')" "vo_is drv s' FQ' DQ' (taken r (counts c)) (vc_open c)" "vo_keeps s s'"
      "\<forall>g. r = Some g \<longrightarrow> has_stream s' g" using get_next_frame_ok [OF assms(1) I(1), of cur] by blast
    show ?thesis by (rule op_fineI [where c' = "c\<lparr>vc_due := r\<rparr>", OF assms(2) _ r(2,3)]) (use 2 r(1,4) I(2) assms(3) in \<open>simp_all add: counts_simps\<close>)
  next
    case 3
    show ?thesis
    proof (cases "vc_due c")
      case None
      then show ?thesis using 3 assms(2) by (simp add: op_fine_def)
    next
      case (Some f)
      have "0 < counts c f" using Some by (simp add: counts_def)
      from overlay_ok [OF I(1) this I(5) [rule_format, OF Some] I(2)] obtain s' FQ' where
        r: "overlay_and_display_frame k drv f cur s = Ret s'" "vo_is drv s' FQ' DQ (counts c) (vc_open c)" "vo_keeps s s'" by blast
      show ?thesis by (rule op_fineI [where c' = "hold f (c\<lparr>vc_due := None\<rparr>)", OF assms(2) _ r(2,3)]) (use 3 Some r(1) I(2) in \<open>simp_all add: counts_simps(4)\<close>)
    qed
  next
    case 4
    note M = movesD [OF redraw_check_ok [OF I(1), of drv b]]
    show ?thesis by (rule op_fineI [OF assms(2) _ M(1,2)]) (use 4 I(2) in simp_all)
  next
    case 5
    obtain s' where r: "flush_decoders k cur s = Ret s'" "moves drv (vc_open c) s s' FQ DQ (counts c)" using flush_decoders_ok [OF I(1,2)] by blast
    note M = movesD [OF r(2)]
    show ?thesis by (rule op_fineI [OF assms(2) _ M(1,2)]) (use 5 r(1) I(2) in simp_all)
  next
    case 6
    obtain r s' FQ' DQ' where r: "paused_turn drv b s = Ret (r, s')" "vo_is drv s' FQ' DQ' (taken r (counts c)) (vc_open c)" "vo_keeps s s'"
      "\<forall>g. r = Some g \<longrightarrow> has_stream s' g" using paused_turn_ok [OF assms(1) I(1), of b] assms(4) 6 by (auto simp: steals_iff)
    show ?thesis by (rule op_fineI [where c' = "c\<lparr>vc_due := r, vc_stolen := vc_stolen c \<or> steals s\<rparr>", OF assms(2) _ r(2,3)]) (use 6 r(1,4) I(2) assms(3) in \<open>simp_all add: counts_simps\<close>)
  next
    case 7
    note D = vo_isD [OF I(1)]
    let ?s = "lock_free_queue b s"
    have hs: "has_stream ?s f = has_stream s f" for f by (simp add: has_stream_def lock_free_queue_def)
    have "queue_is fr (q\<lparr>iq_locked := b\<rparr>) xs = queue_is fr q xs" for fr q xs by (simp add: queue_is_def)
    then have "vo_is drv ?s FQ DQ (counts c) (vc_open c)" using I(1) by (simp add: vo_is_def hs frames_ok_def) (simp add: lock_free_queue_def)
    moreover have "vo_keeps s ?s" by (simp add: vo_keeps_def hs) (simp add: lock_free_queue_def)
    ultimately show ?thesis by (rule op_fineI [OF assms(2), rotated]) (use 7 I(2) in simp_all)
  next
    case 8
    obtain s' FQ' where r: "end_of_loop k s = Ret s'" "vo_is drv s' FQ' [] (counts c) (vc_open c)" "vo_keeps s s'"
      using end_of_loop_ok [OF I(1), of k] I(4) by auto
    show ?thesis by (rule op_fineI [OF assms(2) _ r(2,3)]) (use 8 r(1) I(2) in simp_all)
  qed
qed

lemma port_ops_ok:
  assumes "vo_inv k drv (s, c)" and "allowed k op (s, c)"
    and "op \<in> {O_take busy, O_open st, O_close st, O_set p value, O_enable b, O_status sto, O_flush_begin, O_flush_end speed, O_stream st S}"
  shows "op_fine k drv op (s, c)"
proof -
  obtain FQ DQ where I: "vo_is drv s FQ DQ (counts c) (vc_open c)" "length (vc_open c) < k" "waiting k s = DQ" "length DQ + 1 < k"
    "\<forall>f. vc_due c = Some f \<longrightarrow> has_stream s f" using vo_invD [OF assms(1)] .
  from assms(3) consider "op = O_take busy" | "op = O_open st" | "op = O_close st" | "op = O_set p value" | "op = O_enable b"
    | "op = O_status sto" | "op = O_flush_begin" | "op = O_flush_end speed" | "op = O_stream st S" by auto
  then show ?thesis
  proof cases
    case 1
    from take_frame_ok [OF I(1), of busy] show ?thesis
    proof (elim disjE exE conjE)
      fix r s' DQ' assume r: "xine_get_next_video_frame busy s = Ret (r, s')"
        "moves drv (vc_open c) s s' FQ DQ' (taken (map_option xf_frame r) (counts c))"
      note M = movesD [OF r(2)]
      show ?thesis by (rule op_fineI [where c' = "hold_opt (map_option xf_frame r) c", OF assms(1) _ M(1,2)]) (use 1 r(1) I(2) in \<open>simp_all add: counts_simps\<close>)
    qed (use 1 in \<open>simp add: op_fine_def\<close>)
  next
    case 2
    then obtain S where "vs_stream s st = Some S" using assms(2) by auto
    from port_open_ok [OF I(1) this] obtain s' where r: "vo_open st s = Ret s'" "moves drv (vc_open c @ [st]) s s' FQ DQ (counts c)" by blast
    note M = movesD [OF r(2)]
    show ?thesis by (rule op_fineI [where c' = "c\<lparr>vc_open := vc_open c @ [st]\<rparr>", OF assms(1) _ M(1,2)]) (use 2 r(1) assms(2) in \<open>simp_all add: counts_simps\<close>)
  next
    case 3
    from port_close_ok [OF I(1,2)] obtain s' where r: "vo_close k st s = Ret s'" "moves drv (remove1 st (vc_open c)) s s' FQ DQ (counts c)" by blast
    note M = movesD [OF r(2)]
    have "length (remove1 st (vc_open c)) < k" using I(2) by (auto simp: length_remove1)
    then show ?thesis by (intro op_fineI [where c' = "c\<lparr>vc_open := remove1 st (vc_open c)\<rparr>", OF assms(1) _ M(1,2)]) (use 3 r(1) in \<open>simp_all add: counts_simps\<close>)
  next
    case 4
    have "length DQ < k" using I(4) by simp
    from set_property_ok [OF I(1) this] obtain r s' FQ' DQ' where
      r: "vo_set_property k drv p value s = Ret (r, s')" "moves drv (vc_open c) s s' FQ' DQ' (counts c)" by blast
    note M = movesD [OF r(2)]
    show ?thesis by (rule op_fineI [OF assms(1) _ M(1,2)]) (use 4 r(1) I(2) in simp_all)
  next
    case 5
    from enable_ok [OF I(1,2)] obtain s' where r: "vo_enable_overlay k b s = Ret s'" "moves drv (vc_open c) s s' FQ DQ (counts c)" by blast
    note M = movesD [OF r(2)]
    show ?thesis by (rule op_fineI [OF assms(1) _ M(1,2)]) (use 5 r(1) I(2) in simp_all)
  next
    case 6
    from status_ok [OF I(1,2)] obtain r s' where r: "vo_status k sto s = Ret (r, s')" "moves drv (vc_open c) s s' FQ DQ (counts c)" by blast
    note M = movesD [OF r(2)]
    show ?thesis by (rule op_fineI [OF assms(1) _ M(1,2)]) (use 6 r(1) I(2) in simp_all)
  next
    case 7
    have "moves drv (vc_open c) s (flush_begin s) FQ DQ (counts c)" by (rule fields_ok [OF I(1)]) (simp_all add: flush_begin_def)
    note M = movesD [OF this]
    show ?thesis by (rule op_fineI [OF assms(1) _ M(1,2)]) (use 7 I(2) in simp_all)
  next
    case 8
    have "moves drv (vc_open c) s (s\<lparr>vs_discard_frames := vs_discard_frames s - 1\<rparr>) FQ DQ (counts c)" by (rule fields_ok [OF I(1)]) simp_all
    note M = movesD [OF this]
    show ?thesis
    proof (cases "speed \<noteq> XINE_SPEED_PAUSE \<and> iq_first (vs_display s) \<noteq> None")
      case True
      then show ?thesis using 8 by (simp add: op_fine_def flush_end_def)
    next
      case False
      then show ?thesis by (intro op_fineI [OF assms(1) _ M(1,2)]) (use 8 I(2) in \<open>auto simp: flush_end_def\<close>)
    qed
  next
    case 9
    obtain S0 where "vs_stream s st = Some S0" using assms(2) 9 by auto
    note P = put_stream_ok [OF I(1) this, of S]
    show ?thesis by (rule op_fineI [OF assms(1) _ P(1,2)]) (use 9 I(2) in simp_all)
  qed
qed

lemma op_ok:
  assumes "driver_ok drv" and "vo_inv k drv x" and "allowed k op x" and "\<forall>b. op = O_pause b \<longrightarrow> \<not> steals (fst x)"
  shows "op_fine k drv op x"
proof -
  obtain s c where x: "x = (s, c)" by (cases x)
  note ops = frame_ops_ok [OF assms(1) assms(2,3) [unfolded x]] loop_ops_ok [OF assms(1) assms(2-4) [unfolded x fst_conv]]
    port_ops_ok [OF assms(2,3) [unfolded x]]
  show ?thesis unfolding x by (cases op) (rule ops, blast)+
qed


section \<open>The start\<close>

text \<open>What the driver allocates: a frame that is in no queue.\<close>

definition alloc_ok :: "vo_driver \<Rightarrow> bool" where
  "alloc_ok drv \<longleftrightarrow> (\<forall>i v. drv_alloc_frame drv i = Some v \<longrightarrow> vf_next v = None)"

definition idle :: "vos \<Rightarrow> nat \<Rightarrow> bool" where
  "idle s n \<longleftrightarrow> queue_is (vs_frame s) (vs_free s) [0..<n] \<and> dom (vs_frame s) = {0..<n}"

lemma append_free_idle:
  assumes "idle s n" and "vf_next v = None"
  shows "\<exists>s'. append_free n (put_frame n v s) = Ret s' \<and> idle s' (Suc n) \<and> s' = s\<lparr>vs_frame := vs_frame s', vs_free := vs_free s'\<rparr>"
proof -
  let ?fr = "(vs_frame s)(n \<mapsto> v)"
  have q: "queue_is ?fr (vs_free s) [0..<n]"
  proof (rule queue_frame_rule [of "vs_frame s" "vs_free s" "[0..<n]"])
    show "queue_is (vs_frame s) (vs_free s) [0..<n]" using assms(1) by (simp add: idle_def)
    show "vf_nexts ?fr f = vf_nexts (vs_frame s) f" if "f \<in> set [0..<n]" for f using that by (simp add: vf_nexts_def)
  qed
  obtain fr qf where a: "vo_append_to_img_buf_queue_int n (?fr, vs_free s) = Ret (fr, qf)" "queue_is fr qf ([0..<n] @ [n])" "views fr = views ?fr"
    using append_int_ok [OF q, of n v] assms(2) by auto
  have "dom fr = dom ?fr"
  proof (rule set_eqI)
    show "g \<in> dom fr \<longleftrightarrow> g \<in> dom ?fr" for g using views_dom [OF a(3), of g] by (simp only: domIff)
  qed
  then have "idle (s\<lparr>vs_frame := fr, vs_free := qf\<rparr>) (Suc n)" using a(2) assms(1) by (auto simp: idle_def)
  then show ?thesis using a(1) by (intro exI [of _ "s\<lparr>vs_frame := fr, vs_free := qf\<rparr>"]) (simp add: append_free_def put_frame_def)
qed

lemma alloc_frames_ok:
  assumes "alloc_ok drv" and "idle s i"
  shows "\<exists>s' m. alloc_frames n i drv s = Ret s' \<and> idle s' m \<and> m \<le> i + n \<and> s' = s\<lparr>vs_frame := vs_frame s', vs_free := vs_free s'\<rparr>"
  using assms(2)
proof (induction n arbitrary: i s)
  case 0
  then show ?case by (intro exI [of _ s] exI [of _ i]) simp
next
  case (Suc n)
  show ?case
  proof (cases "drv_alloc_frame drv i")
    case None
    then show ?thesis using Suc.prems by (intro exI [of _ s] exI [of _ i]) simp
  next
    case (Some v)
    let ?v = "v\<lparr>vf_id := i, vf_extra_info := extra_info_reset\<rparr>"
    have "vf_next ?v = None" using assms(1) Some by (simp add: alloc_ok_def)
    from append_free_idle [OF Suc.prems this] obtain s1 where
      s1: "append_free i (put_frame i ?v s) = Ret s1" "idle s1 (Suc i)" "s1 = s\<lparr>vs_frame := vs_frame s1, vs_free := vs_free s1\<rparr>" by blast
    obtain s' m where s': "alloc_frames n (Suc i) drv s1 = Ret s'" "idle s' m" "m \<le> Suc i + n" "s' = s1\<lparr>vs_frame := vs_frame s', vs_free := vs_free s'\<rparr>"
      using Suc.IH [OF s1(2)] by blast
    have "s1\<lparr>vs_frame := vs_frame s', vs_free := vs_free s'\<rparr> = s\<lparr>vs_frame := vs_frame s', vs_free := vs_free s'\<rparr>"
      by (rule subst [OF s1(3) [symmetric], of "\<lambda>t. t\<lparr>vs_frame := vs_frame s', vs_free := vs_free s'\<rparr> = s\<lparr>vs_frame := vs_frame s', vs_free := vs_free s'\<rparr>"]) simp
    with s'(4) have "s' = s\<lparr>vs_frame := vs_frame s', vs_free := vs_free s'\<rparr>" by (rule trans)
    then show ?thesis using Some s1(1) s'(1-3) by (intro exI [of _ s'] exI [of _ m]) simp
  qed
qed

lemma new_port_ok:
  assumes "alloc_ok drv" and "num_frame_buffers (drv_get_property drv [] VO_PROP_MAX_NUM_FRAMES) + 1 < k"
  shows "\<exists>s. vo_new_port drv grab warn_skipped warn_discarded streams = Ret s \<and> vo_inv k drv (s, no_clients) \<and>
    vs_img_backup s = None \<and> vs_last_frame s = None"
proof -
  let ?n = "num_frame_buffers (drv_get_property drv [] VO_PROP_MAX_NUM_FRAMES)"
  let ?s0 = "\<lparr>vs_free = vo_new_img_buf_queue, vs_display = vo_new_img_buf_queue, vs_frame = Map.empty, vs_stream = streams,
        vs_streams = xine_list_new, vs_last_frame = None, vs_img_backup = None, vs_redraw_needed = 0,
        vs_discard_frames = 0, vs_loop_running = \<not> grab, vs_opened = False, vs_delivered = 0, vs_skipped = 0,
        vs_discarded = 0, vs_warn_skipped = warn_skipped, vs_warn_discarded = warn_discarded, vs_warn_exceeded = 0,
        vs_warn_sent = 0, vs_last_delivery_pts = 0, vs_overlay_enabled = True, vs_grab_only = grab,
        vs_current_width = 0, vs_current_height = 0, vs_current_duration = 0, vs_drop_limit = 3, vs_drop_cpt = 0,
        vs_calls = []\<rparr> :: vos"
  have "idle ?s0 0" by (simp add: idle_def queue_is_def vo_new_img_buf_queue_def)
  from alloc_frames_ok [OF assms(1) this, of ?n] obtain s m where
    s: "alloc_frames ?n 0 drv ?s0 = Ret s" "idle s m" "m \<le> ?n" "s = ?s0\<lparr>vs_frame := vs_frame s, vs_free := vs_free s\<rparr>" by auto
  have f: "vs_display s = vo_new_img_buf_queue" "vs_streams s = xine_list_new" "vs_img_backup s = None" "vs_last_frame s = None"
    by (subst s(4), simp)+
  have h: "holds xl_is (vs_streams s) []" unfolding f(2) by (rule holdsI [of xl_is, OF list_new_ok]) (simp_all add: solid_def contents_def cl_all_def)
  have fr: "frames_ok drv (vs_frame s) (vs_free s) (vs_display s) [0..<m] [] (refs s (counts no_clients))"
  proof (rule frames_okI)
    show "queue_is (vs_frame s) (vs_free s) [0..<m]" using s(2) by (simp add: idle_def)
    show "queue_is (vs_frame s) (vs_display s) []" by (simp add: f queue_is_def vo_new_img_buf_queue_def)
    show "refs s (counts no_clients) g = 0" for g by (simp add: refs_def counts_def no_clients_def f)
    show "refs s (counts no_clients) g = 0" for g by (simp add: refs_def counts_def no_clients_def f)
    show "used_ok drv (refs s (counts no_clients) g) (g \<in> set []) v" if "vs_frame s g = Some v" "g \<notin> set [0..<m]" for g v
      using that s(2) by (auto simp: idle_def)
  qed simp
  have "vo_is drv s [0..<m] [] (counts no_clients) []"
    by (rule vo_isI) (use fr h in \<open>simp_all add: f vo_new_img_buf_queue_def\<close>)
  moreover have "dom (vs_frame s) = {0..<m}" using s(2) by (simp add: idle_def)
  ultimately have "vo_inv k drv (s, no_clients)"
    unfolding vo_inv_def using s(3) assms(2) by (auto simp: no_clients_def)
  then show ?thesis using s(1) f by (simp add: vo_new_port_def)
qed

lemma stolen_step:
  assumes "run_op k drv op x = Ret y"
  shows "vc_stolen (snd y) \<longleftrightarrow> vc_stolen (snd x) \<or> (\<exists>b. op = O_pause b) \<and> steals (fst x)"
proof -
  obtain s c where x: "x = (s, c)" by (cases x)
  show ?thesis using assms unfolding x by (cases op) (auto simp: obind_eq_Ret split: option.splits)
qed

lemma reachable_inv:
  assumes "vo_reachable k drv x" and "\<not> vc_stolen (snd x)" and "driver_ok drv" and "alloc_ok drv"
    and "num_frame_buffers (drv_get_property drv [] VO_PROP_MAX_NUM_FRAMES) + 1 < k"
  shows "vo_inv k drv x"
  using assms(1,2)
proof (induction rule: vo_reachable.induct)
  case (start grab warn_skipped warn_discarded streams s)
  then show ?case using new_port_ok [OF assms(4,5), of grab warn_skipped warn_discarded streams] by auto
next
  case (next_op x y)
  from next_op.hyps(2) obtain op where op: "allowed k op x" "run_op k drv op x = Ret y" by (auto elim: vo_step.cases)
  have "\<not> vc_stolen (snd x)" "\<forall>b. op = O_pause b \<longrightarrow> \<not> steals (fst x)" using stolen_step [OF op(2)] next_op.prems by auto
  then show ?case using op_ok [OF assms(3) next_op.IH op(1)] op(2) by (auto simp: op_fine_def)
qed

end
