(* ===== verification/Vo_Demo.thy ===== *)
theory Vo_Demo
  imports Vo_System
begin

text \<open>
  What a state of the video output shows: its queues and who refers to a frame; and runs of a
  small driver, for concrete instances of the theorems.
\<close>

section \<open>References\<close>

definition unused :: "nat \<Rightarrow> vos \<Rightarrow> nat list" where
  "unused k s = walk (vf_nexts (vs_frame s)) k (iq_first (vs_free s))"

text \<open>How many refer to a frame.\<close>

definition users :: "nat \<Rightarrow> vo_sys \<Rightarrow> nat \<Rightarrow> nat" where
  "users k x f =
     (let (s, c) = x in
      vc_held c f + (if vc_due c = Some f then 1 else 0) + (if f \<in> set (waiting k s) then 1 else 0) +
      (if vs_img_backup s = Some f then 1 else 0) + (if vs_last_frame s = Some f then 1 else 0))"

lemma unused_ok:
  assumes "vo_is drv s FQ DQ h sts" and "finite (dom (vs_frame s))" and "card (dom (vs_frame s)) + 1 < k"
  shows "unused k s = FQ"
proof -
  note D = frames_okD [OF vo_isD(1) [OF assms(1)]]
  have "set FQ \<subseteq> dom (vs_frame s)" using queue_allocated [OF D(1)] by auto
  then have "card (set FQ) \<le> card (dom (vs_frame s))" using assms(2) by (rule card_mono [rotated])
  then have "length FQ < k" using distinct_card [OF queue_distinct [OF D(1)]] assms(3) by simp
  then show ?thesis using D(1) unfolding unused_def queue_is_def by (intro walk_lseg) auto
qed

text \<open>The invariant in terms of what a state shows.\<close>

lemma vo_inv_lists:
  assumes "vo_inv k drv (s, c)"
  shows "vo_is drv s (unused k s) (waiting k s) (counts c) (vc_open c)" and "length (vc_open c) < k" and "length (waiting k s) + 1 < k"
    and "length (unused k s) < k" and "vc_due c = Some f \<Longrightarrow> has_stream s f"
proof -
  obtain FQ DQ where I: "vo_is drv s FQ DQ (counts c) (vc_open c)" "finite (dom (vs_frame s))" "card (dom (vs_frame s)) + 1 < k"
    "length (vc_open c) < k" "\<forall>f. vc_due c = Some f \<longrightarrow> has_stream s f" using assms unfolding vo_inv_def by auto
  note W = waiting_ok [OF I(1-3)] unused_ok [OF I(1-3)]
  show v: "vo_is drv s (unused k s) (waiting k s) (counts c) (vc_open c)" using I(1) W by simp
  show "length (vc_open c) < k" "length (waiting k s) + 1 < k" "vc_due c = Some f \<Longrightarrow> has_stream s f" using I W by simp_all
  note D = frames_okD [OF vo_isD(1) [OF v]]
  have "set (unused k s) \<subseteq> dom (vs_frame s)" using queue_allocated [OF D(1)] by auto
  then have "card (set (unused k s)) \<le> card (dom (vs_frame s))" using I(2) by (rule card_mono [rotated])
  then show "length (unused k s) < k" using distinct_card [OF queue_distinct [OF D(1)]] I(3) by simp
qed

lemma users_refs: "users k (s, c) f = refs s (counts c) f + (if f \<in> set (waiting k s) then 1 else 0)"
  by (simp add: users_def refs_def counts_def)

definition vo_enough :: "nat \<Rightarrow> vo_driver \<Rightarrow> bool" where
  "vo_enough k drv \<longleftrightarrow> num_frame_buffers (drv_get_property drv [] VO_PROP_MAX_NUM_FRAMES) + 1 < k"

lemma reachable_ok:
  "vo_reachable k drv (s, c) \<Longrightarrow> \<not> vc_stolen c \<Longrightarrow> driver_ok drv \<Longrightarrow> alloc_ok drv \<Longrightarrow> vo_enough k drv \<Longrightarrow> vo_inv k drv (s, c)"
  using reachable_inv [of k drv "(s, c)"] by (simp add: vo_enough_def)

section \<open>A run\<close>

text \<open>
  Operations one after the other, when each is allowed; and a driver with five frames to run them
  on.
\<close>

fun run_allowed :: "nat \<Rightarrow> vo_driver \<Rightarrow> vo_op list \<Rightarrow> vo_sys \<Rightarrow> vo_sys option" where
  "run_allowed k drv [] x = Some x"
| "run_allowed k drv (op # ops) x =
     (if allowed k op x then (case run_op k drv op x of Ret y \<Rightarrow> run_allowed k drv ops y | _ \<Rightarrow> None) else None)"

lemma run_allowed_reachable: "run_allowed k drv ops x = Some y \<Longrightarrow> vo_reachable k drv x \<Longrightarrow> vo_reachable k drv y"
proof (induction ops arbitrary: x)
  case (Cons op ops)
  then obtain z where z: "allowed k op x" "run_op k drv op x = Ret z" "run_allowed k drv ops z = Some y"
    by (auto split: if_splits outcome.splits)
  then show ?case using Cons.IH [OF z(3) next_op [OF Cons.prems(2) step [OF z(1,2)]]] by simp
qed simp

definition demo_frame :: vframe where
  "demo_frame = \<lparr>vf_time = \<lparr>fr_pts = 0, fr_duration = 0, fr_vpts = 0\<rparr>, vf_bad_frame = False,
     vf_picture = ((None, None, None), (0, 0, 0)), vf_top_field_first = False, vf_repeat_first_field = False,
     vf_progressive_frame = False, vf_macroblocks = None, vf_extra_info = extra_info_reset, vf_width = 0, vf_height = 0,
     vf_ratio = (1, 1), vf_format = 0, vf_flags = 0, vf_proc_called = False, vf_stream = None, vf_next = None, vf_lock = 0,
     vf_id = 0, vf_is_first = False, vf_has_proc_frame = True, vf_has_proc_slice = False\<rparr>"

text \<open>Five frames of one plane, a byte a row.\<close>

definition demo_driver :: vo_driver where
  "demo_driver = \<lparr>drv_format = \<lambda>w h format flags.
       if 0 \<le> sint h \<and> sint h < 100 then ((Some (replicate (nat (sint h)) 7), None, None), (1, 0, 0)) else ((None, None, None), (0, 0, 0)),
     drv_proc_frame = \<lambda>_. True, drv_proc_slice = \<lambda>_. True, drv_redraw_needed = \<lambda>_. 0, drv_capabilities = 0,
     drv_get_property = \<lambda>cs p. if cs = [] then 5 else case last cs of V_set_property q v \<Rightarrow> if q = p then v else 0 | _ \<Rightarrow> 0,
     drv_set_property = \<lambda>_ _ v. v, drv_min_max = \<lambda>_. (-100, 100), drv_alloc_frame = \<lambda>_. Some demo_frame\<rparr>"

definition demo_stream :: vo_stream where
  "demo_stream = \<lparr>st_metronom = metronom_init True 0, st_decoder_info = extra_info_reset, st_current_info = extra_info_reset,
     st_first_frame_flag = 0, st_skipped = 0, st_discarded = 0, st_has_still = True, st_spu_channel_user = 0, st_fifo_size = 0,
     st_next_cue_time = 0, st_has_decoder = True\<rparr>"

definition vo_demo_start :: vo_sys where
  "vo_demo_start = (case vo_new_port demo_driver False 10 10 [0 \<mapsto> demo_stream] of Ret s \<Rightarrow> (s, no_clients) | _ \<Rightarrow> undefined)"

definition demo_draw :: "int \<Rightarrow> nat \<Rightarrow> vo_op list" where
  "demo_draw pts f = [O_get 4 3 (1, 1) 0 0, O_write f \<lparr>fr_pts = pts, fr_duration = 3000, fr_vpts = 0\<rparr> False ((Some [1, 2, 3], None, None), (1, 0, 0)), O_draw f 0 0]"

definition demo_state :: "vo_op list \<Rightarrow> vo_sys" where
  "demo_state ops = (case run_allowed 20 demo_driver ops vo_demo_start of Some x \<Rightarrow> x | None \<Rightarrow> vo_demo_start)"

text \<open>A frame that is got, and two and five that are drawn and still held.\<close>

definition demo1 :: vo_sys where
  "demo1 = demo_state (O_open 0 # butlast (demo_draw 100000 0))"

definition demo2 :: vo_sys where
  "demo2 = demo_state (O_open 0 # demo_draw 100000 0 @ demo_draw 0 1)"

definition demo5 :: vo_sys where
  "demo5 = demo_state (O_open 0 # demo_draw 100000 0 @ demo_draw 0 1 @ demo_draw 0 2 @ demo_draw 0 3 @ demo_draw 0 4)"

definition demo_flush :: vo_sys where
  "demo_flush = demo_state (O_open 0 # demo_draw 100000 0 @ demo_draw 0 1 @ [O_flush_begin])"

lemma demo_driver_ok: "driver_ok demo_driver" "alloc_ok demo_driver" "vo_enough 20 demo_driver"
proof -
  have "fits (sint h) format (drv_format demo_driver w h format flags)" for w h :: u32 and format flags
    by (auto simp: demo_driver_def fits_def plane_room_def Let_def s32_id)
  moreover have "sizes (drv_format demo_driver w h format flags) = sizes (drv_format demo_driver w h format flags')"
    for w h :: u32 and format flags flags' by (simp add: demo_driver_def)
  ultimately show "driver_ok demo_driver" unfolding driver_ok_def by blast
  show "alloc_ok demo_driver" by (simp add: alloc_ok_def demo_driver_def demo_frame_def)
  show "vo_enough 20 demo_driver" by (simp add: vo_enough_def num_frame_buffers_def demo_driver_def)
qed

lemma vo_demo_start_reachable: "vo_reachable 20 demo_driver vo_demo_start"
proof -
  obtain s where "vo_new_port demo_driver False 10 10 [0 \<mapsto> demo_stream] = Ret s"
    using new_port_ok [OF demo_driver_ok(2,3) [unfolded vo_enough_def]] by blast
  then show ?thesis using start [of demo_driver False 10 10 "[0 \<mapsto> demo_stream]" s 20] by (simp add: vo_demo_start_def)
qed

lemma demo_reachable: "vo_reachable 20 demo_driver (demo_state ops)"
  using run_allowed_reachable [OF _ vo_demo_start_reachable] vo_demo_start_reachable
  by (auto simp: demo_state_def split: option.splits)

lemma demo_states:
  "vo_reachable 20 demo_driver (fst demo1, snd demo1)" "vo_reachable 20 demo_driver (fst demo2, snd demo2)"
  "vo_reachable 20 demo_driver (fst demo5, snd demo5)" "vo_reachable 20 demo_driver (fst demo_flush, snd demo_flush)"
  "vo_reachable 20 demo_driver (fst vo_demo_start, snd vo_demo_start)"
  using demo_reachable vo_demo_start_reachable by (simp_all add: demo1_def demo2_def demo5_def demo_flush_def)

lemma demo_not_stolen:
  "\<not> vc_stolen (snd demo1)" "\<not> vc_stolen (snd demo2)" "\<not> vc_stolen (snd demo5)" "\<not> vc_stolen (snd demo_flush)"
  "\<not> vc_stolen (snd vo_demo_start)"
  by code_simp+

lemma demo_facts:
  "waiting 20 (fst demo2) = [0, 1]" "unused 20 (fst demo2) = [2, 3, 4]" "users 20 (fst demo2, snd demo2) 0 = 2"
  "vs_frame (fst demo2) 0 \<noteq> None" "vc_due (snd demo2) = None" "vs_discard_frames (fst demo2) = 0"
  by code_simp+

end
