(* ===== verification/Vo_Props.thy ===== *)
theory Vo_Props
  imports Vo_Demo Queue_Iface
begin

text \<open>
  What holds of the video output whatever its clients do: references are counted, no operation
  faults, the store is well typed, the queue of waiting frames keeps its order.
\<close>

section \<open>Every state\<close>

text \<open>
  C20. Whatever decoders, the output loop, the driver and frontends do with the frames they hold,
  as long as no pause has taken a waiting frame that somebody else uses (C27 is what happens
  then), a frame is never in two places: it is in the queue of free frames and nobody refers to
  it, or its lock counter is the number of those who do: the holders outside, the output loop, the
  queue of waiting frames, the backup and the last frame shown.
\<close>

theorem vo_frames_conserved:
  assumes "vo_reachable k drv (s, c)" and "\<not> vc_stolen c" and "driver_ok drv" and "alloc_ok drv" and "vo_enough k drv" and "vs_frame s f = Some v"
  shows "distinct (unused k s @ waiting k s) \<and>
    (if f \<in> set (unused k s) then users k (s, c) f = 0 else vf_lock v = int (users k (s, c) f) \<and> 0 < users k (s, c) f)"
proof -
  note I = vo_inv_lists [OF reachable_ok [OF assms(1-5)]]
  note D = frames_okD [OF vo_isD(1) [OF I(1)]]
  have "distinct (unused k s @ waiting k s)" using queue_distinct [OF D(1)] queue_distinct [OF D(2)] D(3) by simp
  moreover have "users k (s, c) f = 0" if "f \<in> set (unused k s)" using that D(3,4) by (auto simp: users_refs)
  moreover have "vf_lock v = int (users k (s, c) f) \<and> 0 < users k (s, c) f" if "f \<notin> set (unused k s)"
    using D(6) [OF assms(6) that] by (auto simp: users_refs used_ok_def)
  ultimately show ?thesis by simp
qed

theorem vo_frames_conserved_witness:
  "distinct (unused 20 (fst demo2) @ waiting 20 (fst demo2)) \<and> vf_lock (the (vs_frame (fst demo2) 0)) = 2"
  using vo_frames_conserved [OF demo_states(2) demo_not_stolen(2) demo_driver_ok, of 0 "the (vs_frame (fst demo2) 0)"] demo_facts
  by (auto split: if_splits)



definition planes_fit :: "vframe \<Rightarrow> bool" where
  "planes_fit v \<longleftrightarrow> fits (vf_height v) (vf_format v) (vf_picture v)"



section \<open>The queue of waiting frames\<close>

text \<open>The queue in the terms of the interface: what may be put is held by somebody outside.\<close>

definition vq_inv :: "nat \<Rightarrow> vo_driver \<Rightarrow> vos \<Rightarrow> bool" where
  "vq_inv k drv s \<longleftrightarrow> (\<exists>FQ DQ h sts. vo_is drv s FQ DQ h sts) \<and> finite (dom (vs_frame s)) \<and> card (dom (vs_frame s)) + 1 < k"

definition vq_fresh :: "nat \<Rightarrow> vos \<Rightarrow> nat \<Rightarrow> bool" where
  "vq_fresh k s f \<longleftrightarrow> f \<notin> set (unused k s) \<and> f \<notin> set (waiting k s) \<and> has_stream s f \<and>
     (\<exists>v. vs_frame s f = Some v \<and> int (refs s (\<lambda>_. 0) f) < vf_lock v)"

lemma vq_invD:
  assumes "vq_inv k drv s"
  obtains h sts where "vo_is drv s (unused k s) (waiting k s) h sts"
proof -
  obtain FQ DQ h sts where "vo_is drv s FQ DQ h sts" using assms by (auto simp: vq_inv_def)
  with that show ?thesis using waiting_ok(1) unused_ok assms unfolding vq_inv_def by metis
qed

lemma vq_invI:
  assumes "vo_is drv s' FQ DQ h sts" and "vo_keeps s s'" and "vq_inv k drv s"
  shows "vq_inv k drv s'" and "unused k s' = FQ" and "waiting k s' = DQ"
proof -
  have f: "finite (dom (vs_frame s'))" "card (dom (vs_frame s')) + 1 < k" using assms(2,3) by (simp_all add: vq_inv_def vo_keeps_def)
  then show "vq_inv k drv s'" using assms(1) unfolding vq_inv_def by blast
  show "unused k s' = FQ" using unused_ok [OF assms(1) f] .
  show "waiting k s' = DQ" using waiting_ok(1) [OF assms(1) f] .
qed

lemma refs_sum: "refs s h f = h f + refs s (\<lambda>_. 0) f"
  by (simp add: refs_def)

lemma vq_fresh_held:
  assumes "vo_is drv s (unused k s) (waiting k s) h sts" and "f \<notin> set (unused k s)" and "f \<notin> set (waiting k s)"
  shows "vq_fresh k s f \<longleftrightarrow> has_stream s f \<and> 0 < h f"
proof -
  have "int (refs s (\<lambda>_. 0) f) < vf_lock v \<longleftrightarrow> 0 < h f" if "vs_frame s f = Some v" for v
    using frames_okD(6) [OF vo_isD(1) [OF assms(1)] that assms(2)] assms(3) by (simp add: used_ok_def refs_sum [of s h])
  then show ?thesis using assms(2,3) by (auto simp: vq_fresh_def has_stream_def)
qed

lemma vq_put:
  assumes "vq_inv k drv s" and "vq_fresh k s f"
  shows "\<exists>s'. append_display f s = Ret s' \<and> vq_inv k drv s' \<and> waiting k s' = waiting k s @ [f] \<and>
    (\<forall>g. g \<noteq> f \<longrightarrow> vq_fresh k s g \<longrightarrow> vq_fresh k s' g)"
proof -
  obtain h sts where V: "vo_is drv s (unused k s) (waiting k s) h sts" using vq_invD [OF assms(1)] .
  have f: "f \<notin> set (unused k s)" "f \<notin> set (waiting k s)" using assms(2) by (simp_all add: vq_fresh_def)
  then have h: "has_stream s f" "0 < h f" using vq_fresh_held [OF V f] assms(2) by simp_all
  obtain s' where r: "append_display f s = Ret s'" "vo_is drv s' (unused k s) (waiting k s @ [f]) (h(f := h f - 1)) sts" "vo_keeps s s'"
    using append_display_ok [OF V h(2) f(2) h(1)] by blast
  note I = vq_invI [OF r(2,3) assms(1)]
  have "vq_fresh k s' g" if "g \<noteq> f" "vq_fresh k s g" for g
  proof -
    have g: "g \<notin> set (unused k s)" "g \<notin> set (waiting k s)" using that(2) by (simp_all add: vq_fresh_def)
    then have "has_stream s' g" "0 < (h(f := h f - 1)) g" using vq_fresh_held [OF V g] that vo_keeps_stream [OF r(3)] by simp_all
    then show ?thesis using vq_fresh_held [OF r(2) [folded I(2,3)], of g] g that(1) unfolding I(2,3) by simp
  qed
  then show ?thesis using r(1) I(1,3) by blast
qed

lemma vq_get:
  assumes "vq_inv k drv s" and "waiting k s = f # fs"
  shows "\<exists>s'. remove_display s = Ret (f, s') \<and> vq_inv k drv s' \<and> waiting k s' = fs"
proof -
  obtain h sts where V: "vo_is drv s (unused k s) (f # fs) h sts" using vq_invD [OF assms(1)] unfolding assms(2) .
  obtain s' where r: "remove_display s = Ret (f, s')" "vo_is drv s' (unused k s) fs (h(f := Suc (h f))) sts" "vo_keeps s s'"
    using remove_display_ok [OF V] by blast
  show ?thesis using r(1) vq_invI [OF r(2,3) assms(1)] by blast
qed

lemma vq_empty:
  assumes "vq_inv k drv s" and "waiting k s = []"
  shows "remove_display s = Wait"
proof -
  obtain h sts where V: "vo_is drv s (unused k s) (waiting k s) h sts" using vq_invD [OF assms(1)] .
  show ?thesis using first_display [OF V] assms(2) by (simp add: remove_display_def vo_remove_from_img_buf_queue_int_def)
qed

interpretation vq: fifo_queue "vq_inv k drv" "waiting k" "vq_fresh k" append_display remove_display
  for k drv
  by unfold_locales (auto intro: vq_put vq_get vq_empty)

section \<open>Operations\<close>

text \<open>
  Frames held by a decoder that are queued come out of the queue once, in the order in which they
  were queued and after those that waited; then who takes a frame waits.
\<close>

theorem vo_queue_discipline:
  assumes "vo_reachable k drv (s, c)" and "\<not> vc_stolen c" and "driver_ok drv" and "alloc_ok drv" and "vo_enough k drv"
    and "distinct fs" and "\<And>f. f \<in> set fs \<Longrightarrow> 0 < vc_held c f \<and> f \<notin> set (waiting k s) \<and> has_stream s f"
  shows "\<exists>s1 s2. put_all append_display fs s = Ret s1 \<and>
    get_many remove_display (length (waiting k s) + length fs) s1 = Ret (waiting k s @ fs, s2) \<and> remove_display s2 = Wait"
proof (rule vq.fifo_discipline [OF _ assms(6), of k drv s])
  note R = reachable_ok [OF assms(1-5)]
  note I = vo_inv_lists [OF R]
  show "vq_inv k drv s" using I(1) R unfolding vq_inv_def vo_inv_def by auto
  fix f assume f: "f \<in> set fs"
  have h: "0 < counts c f" "0 < refs s (counts c) f" using assms(7) [OF f] by (simp_all add: counts_def refs_def)
  have "f \<notin> set (unused k s)" using frames_okD(4) [OF vo_isD(1) [OF I(1)], of f] h(2) by auto
  then show "vq_fresh k s f" using vq_fresh_held [OF I(1), of f] assms(7) [OF f] h(1) by simp
qed

text \<open>
  A drawn frame goes to the end of the queue with one reference more, the caller keeping its
  own; the others keep their places. A bad frame is not queued, nor is one that comes while a port
  without an output loop is flushed. The number of frames to skip is never negative.
\<close>

theorem vo_draw_queues:
  assumes "vo_reachable k drv (s, c)" and "\<not> vc_stolen c" and "driver_ok drv" and "alloc_ok drv" and "vo_enough k drv"
    and "allowed k (O_draw f st cur) (s, c)" and "vs_frame s f = Some v"
  shows "\<exists>n s'. vo_frame_draw k drv cur f st s = Ret (n, s') \<and> 0 \<le> n \<and> unused k s' = unused k s \<and>
    (if vf_bad_frame v \<or> vs_grab_only s \<and> vs_discard_frames s \<noteq> 0 then waiting k s' = waiting k s \<and> map_option vf_lock (vs_frame s' f) = Some (vf_lock v)
     else waiting k s' = waiting k s @ [f] \<and> map_option vf_lock (vs_frame s' f) = Some (vf_lock v + 1))"
proof -
  note R = reachable_ok [OF assms(1-5)]
  note I = vo_inv_lists [OF R]
  have q: "vq_inv k drv s" using I(1) R unfolding vq_inv_def vo_inv_def by auto
  have a: "0 < counts c f" "f \<notin> set (waiting k s)" using assms(6) by (auto simp: counts_def)
  obtain S where S: "vs_stream s st = Some S" using assms(6) by auto
  let ?DQ = "if vf_bad_frame v \<or> vs_grab_only s \<and> vs_discard_frames s \<noteq> 0 then waiting k s else waiting k s @ [f]"
  obtain n s' where r: "vo_frame_draw k drv cur f st s = Ret (n, s')" "0 \<le> n" "moves drv (vc_open c) s s' (unused k s) ?DQ (counts c)"
    using draw_ok [OF I(1) a assms(7) S I(2), of cur] by blast
  note M = movesD [OF r(3)]
  note W = vq_invI [OF M(1,2) q]
  have rf: "refs s' (counts c) f = refs s (counts c) f" using same_refs_refs [OF M(3)] by simp
  have pos: "0 < refs s (counts c) f" using a(1) by (simp add: refs_def)
  obtain v0 where v0: "vs_frame s f = Some v0" "used_ok drv (refs s (counts c) f) (f \<in> set (waiting k s)) v0"
    using vo_frame_of [OF I(1)] pos by blast
  obtain v1 where v1: "vs_frame s' f = Some v1" "used_ok drv (refs s' (counts c) f) (f \<in> set ?DQ) v1"
    using vo_frame_of [OF M(1)] pos rf by metis
  show ?thesis using r(1,2) W(2,3) v0 v1 a(2) assms(7) rf
    by (intro exI [of _ n] exI [of _ s']) (auto simp: used_ok_def)
qed


lemma demo1_facts:
  "allowed 20 (O_draw 0 0 5) (fst demo1, snd demo1)" "vs_frame (fst demo1) 0 \<noteq> None" "waiting 20 (fst demo1) = []"
  "map_option vf_bad_frame (vs_frame (fst demo1) 0) = Some False" "vs_grab_only (fst demo1) = False" "map_option vf_lock (vs_frame (fst demo1) 0) = Some 1"
  by code_simp+

theorem vo_draw_queues_witness:
  "\<exists>n s'. vo_frame_draw 20 demo_driver 5 0 0 (fst demo1) = Ret (n, s') \<and> 0 \<le> n \<and> waiting 20 s' = [0] \<and> map_option vf_lock (vs_frame s' 0) = Some 2"
proof -
  obtain v where v: "vs_frame (fst demo1) 0 = Some v" "\<not> vf_bad_frame v" "vf_lock v = 1" using demo1_facts(2,4,6) by auto
  show ?thesis using vo_draw_queues [OF demo_states(1) demo_not_stolen(1) demo_driver_ok demo1_facts(1) v(1)] v(2,3) demo1_facts(3,5) by auto
qed

end
