(* ===== verification/Vo_Loop_Props.thy ===== *)
theory Vo_Loop_Props
  imports Vo_Props
begin

text \<open>What the output loop does with the frames, how it ends, the numbers of the port, and the pause.\<close>

section \<open>The output loop\<close>

text \<open>
  C23. \<open>expire_frames\<close> takes frames from the front of the queue only: each of them is
  older than its duration, unless frames are flushed, and none is the first one after a seek. With
  frames of one duration it stops only at a first frame or at one that is not too old. Every frame
  taken loses its reference, except the one kept as a backup: the last of the queue, or the first
  one flushed.
\<close>

theorem vo_expire_frames:
  assumes "vo_reachable k drv (s, c)" and "\<not> vc_stolen c" and "driver_ok drv" and "alloc_ok drv" and "vo_enough k drv"
  defines "v \<equiv> \<lambda>i. the (vs_frame s (waiting k s ! i))" and "flush \<equiv> vs_discard_frames s \<noteq> 0"
  shows "\<exists>n s'. expire_frames k cur s = Ret s' \<and> n \<le> length (waiting k s) \<and> waiting k s' = drop n (waiting k s) \<and>
    vo_inv k drv (s', c) \<and> vs_discarded s' = vs_discarded s + (if flush then 0 else int n) \<and>
    (\<forall>i < n. \<not> vf_is_first (v i) \<and> (flush \<or> fr_duration (vf_time (v i)) < cur - fr_vpts (vf_time (v i)))) \<and>
    (\<forall>d < 1000000. (\<forall>i < length (waiting k s). fr_duration (vf_time (v i)) = d) \<and> n < length (waiting k s) \<longrightarrow>
       vf_is_first (v n) \<or> \<not> flush \<and> cur - fr_vpts (vf_time (v n)) \<le> d) \<and>
    vs_img_backup s' = (if n = 0 then vs_img_backup s
      else if flush then (if vs_img_backup s = None then Some (hd (waiting k s)) else vs_img_backup s)
      else if n = length (waiting k s) then Some (last (waiting k s)) else vs_img_backup s)"
proof -
  note R = reachable_ok [OF assms(1-5)]
  note I = vo_inv_lists [OF R]
  have q: "vq_inv k drv s" using I(1) R unfolding vq_inv_def vo_inv_def by auto
  let ?W = "waiting k s" and ?vs = "shown_frames s (waiting k s)"
  let ?n = "expired flush cur 1000000 ?vs"
  obtain s' FQ' where r: "expire_frames k cur s = Ret s'" "vo_is drv s' FQ' (drop ?n ?W) (counts c) (vc_open c)" "vo_keeps s s'"
    "vs_discarded s' = vs_discarded s + (if vs_discard_frames s = 0 then int ?n else 0)"
    "vs_img_backup s' = backup_after flush (vs_img_backup s) ?n ?W"
    using expire_loop_ok [OF I(1,3), of cur 1000000] unfolding expire_frames_def flush_def Let_def by blast
  have vs: "length ?vs = length ?W" "?vs ! i = view (v i)" if "i < length ?W" for i
  proof -
    show "length ?vs = length ?W" by (simp add: shown_frames_def)
    have "?W ! i \<in> set ?W" using that by simp
    then obtain w where "vs_frame s (?W ! i) = Some w" using vo_frame_of [OF I(1), of "?W ! i"] by blast
    then show "?vs ! i = view (v i)" using that by (simp add: shown_frames_def views_def v_def)
  qed
  have len: "length ?vs = length ?W" by (simp add: shown_frames_def)
  have n: "?n \<le> length ?W" using expired_le [of flush cur 1000000 ?vs] len by simp
  have old: "\<not> vf_is_first (v i) \<and> (flush \<or> fr_duration (vf_time (v i)) < cur - fr_vpts (vf_time (v i)))" if "i < ?n" for i
    using expired_old [OF that] vs(2) [of i] that n by simp
  have stop: "vf_is_first (v ?n) \<or> \<not> flush \<and> cur - fr_vpts (vf_time (v ?n)) \<le> d"
    if d: "d < 1000000" "\<forall>i < length ?W. fr_duration (vf_time (v i)) = d" "?n < length ?W" for d
  proof -
    have "\<forall>w \<in> set ?vs. fr_duration (vf_time w) = d" using d(2) vs(2) len by (auto simp: in_set_conv_nth)
    from expired_stops [OF this, of 1000000 flush cur] d len vs(2) [OF d(3)] show ?thesis by auto
  qed
  have "vo_inv k drv (s', c)" by (rule vo_invI [OF r(2,3) R]) (use I(2) in simp_all)
  then show ?thesis using r(1,4,5) vq_invI(3) [OF r(2,3) q] n old stop
    by (intro exI [of _ ?n] exI [of _ s']) (auto simp: backup_after_def flush_def)
qed

theorem vo_expire_frames_witness:
  "\<exists>n s'. expire_frames 20 200000 (fst demo2) = Ret s' \<and> n \<le> 2 \<and> waiting 20 s' = drop n [0, 1] \<and>
    vs_discarded s' = vs_discarded (fst demo2) + int n"
  using vo_expire_frames [OF demo_states(2) demo_not_stolen(2) demo_driver_ok, of 200000] demo_facts(1,6)
  by (elim exE conjE) (rule exI, rule exI, intro conjI, auto)

text \<open>
  C24. The output loop shows frames in the order of the queue, each as soon as it is due and not
  before. With no frame waiting it shows a still picture exactly when there is a backup and the
  redraw counter is 1: the first free frame (none if no frame is free), made a copy of the backup,
  of its picture, size and stream, and due now; the counter and the backup stay. Otherwise it
  shows nothing and counts the redraw counter down.
\<close>

theorem vo_next_frame:
  assumes "vo_reachable k drv (s, c)" and "\<not> vc_stolen c" and "driver_ok drv" and "alloc_ok drv" and "vo_enough k drv" and "vc_due c = None"
  shows "\<exists>r s'. get_next_frame drv cur s = Ret (r, s') \<and> vo_inv k drv (s', c\<lparr>vc_due := r\<rparr>) \<and> vs_last_frame s' = vs_last_frame s \<and>
    (case waiting k s of
       f # fs \<Rightarrow> (\<exists>v. vs_frame s f = Some v \<and>
         (if fr_vpts (vf_time v) \<le> cur then r = Some f \<and> waiting k s' = fs else r = None \<and> waiting k s' = f # fs))
     | [] \<Rightarrow> waiting k s' = [] \<and> next_without_frames cur s r s')"
proof -
  note R = reachable_ok [OF assms(1-5)]
  note I = vo_inv_lists [OF R]
  have q: "vq_inv k drv s" using I(1) R unfolding vq_inv_def vo_inv_def by auto
  from get_next_frame_ok [OF assms(3) I(1), of cur] obtain r s' FQ' where r: "get_next_frame drv cur s = Ret (r, s')"
    "vo_is drv s' FQ' (if r = None then waiting k s else tl (waiting k s)) (taken r (counts c)) (vc_open c)" "vo_keeps s s'"
    "vs_last_frame s' = vs_last_frame s" "\<forall>g. r = Some g \<longrightarrow> has_stream s' g"
    "case waiting k s of f # _ \<Rightarrow> \<exists>v. vs_frame s f = Some v \<and> r = (if cur < fr_vpts (vf_time v) then None else Some f)
     | [] \<Rightarrow> next_without_frames cur s r s'" by blast
  have c: "counts (c\<lparr>vc_due := r\<rparr>) = taken r (counts c)" using counts_simps(3) [OF assms(6)] .
  have "vo_inv k drv (s', c\<lparr>vc_due := r\<rparr>)" by (rule vo_invI [OF _ r(3) R]) (use r(2,5) c I(2) in simp_all)
  moreover have "case waiting k s of
       f # fs \<Rightarrow> (\<exists>v. vs_frame s f = Some v \<and>
         (if fr_vpts (vf_time v) \<le> cur then r = Some f \<and> waiting k s' = fs else r = None \<and> waiting k s' = f # fs))
     | [] \<Rightarrow> waiting k s' = [] \<and> next_without_frames cur s r s'"
  proof (cases "waiting k s")
    case Nil
    then show ?thesis using r(6) vq_invI(3) [OF r(2,3) q] by (cases r) auto
  next
    case (Cons f fs)
    then obtain v where "vs_frame s f = Some v" "r = (if cur < fr_vpts (vf_time v) then None else Some f)" using r(6) by auto
    then show ?thesis using Cons vq_invI(3) [OF r(2,3) q] by (cases "cur < fr_vpts (vf_time v)") auto
  qed
  ultimately show ?thesis using r(1,4) by blast
qed

lemma demo2_due: "map_option (\<lambda>v. fr_vpts (vf_time v)) (vs_frame (fst demo2) 0) = Some 100000"
  by code_simp

theorem vo_next_frame_witness:
  "\<exists>s'. get_next_frame demo_driver 100000 (fst demo2) = Ret (Some 0, s') \<and> waiting 20 s' = [1]"
  using vo_next_frame [OF demo_states(2) demo_not_stolen(2) demo_driver_ok demo_facts(5), of 100000] demo_facts(1) demo2_due by auto

text \<open>
  C25. A flush takes the frames up to the first one after a seek in one pass of
  \<open>expire_frames\<close>, and all of them when there is no such frame; then the caller of
  \<open>vo_flush\<close> goes on. Otherwise it waits on, until that frame is shown.
\<close>

theorem vo_flush_empties:
  assumes "vo_reachable k drv (s, c)" and "\<not> vc_stolen c" and "driver_ok drv" and "alloc_ok drv" and "vo_enough k drv"
    and "vs_discard_frames s \<noteq> 0" and "speed \<noteq> XINE_SPEED_PAUSE"
  shows "\<exists>s'. expire_frames k cur s = Ret s' \<and>
    waiting k s' = dropWhile (\<lambda>f. \<not> vf_is_first (the (vs_frame s f))) (waiting k s) \<and>
    (if \<exists>f \<in> set (waiting k s). vf_is_first (the (vs_frame s f)) then flush_end speed s' = Wait
     else flush_end speed s' = Ret (s'\<lparr>vs_discard_frames := vs_discard_frames s - 1\<rparr>))"
proof -
  note R = reachable_ok [OF assms(1-5)]
  note I = vo_inv_lists [OF R]
  have q: "vq_inv k drv s" using I(1) R unfolding vq_inv_def vo_inv_def by auto
  let ?W = "waiting k s" and ?n = "expired True cur 1000000 (shown_frames s (waiting k s))"
  obtain s' FQ' where r: "expire_frames k cur s = Ret s'" "vo_is drv s' FQ' (drop ?n ?W) (counts c) (vc_open c)" "vo_keeps s s'"
    "vs_discard_frames s' = vs_discard_frames s"
    using expire_loop_ok [OF I(1,3), of cur 1000000] assms(6) unfolding expire_frames_def Let_def by auto
  have drop: "drop (expired True cur d (shown_frames s fs)) fs = dropWhile (\<lambda>f. \<not> vf_is_first (the (vs_frame s f))) fs"
    if "set fs \<subseteq> dom (vs_frame s)" for d fs
    using that by (induction fs arbitrary: d) (auto simp: shown_frames_def views_def)
  have "set ?W \<subseteq> dom (vs_frame s)" using queue_allocated [OF frames_okD(2) [OF vo_isD(1) [OF I(1)]]] by auto
  note W = drop [OF this, of 1000000]
  have "dropWhile (\<lambda>f. \<not> vf_is_first (the (vs_frame s f))) ?W = [] \<longleftrightarrow> \<not> (\<exists>f \<in> set ?W. vf_is_first (the (vs_frame s f)))"
    by (auto simp: dropWhile_eq_Nil_conv)
  moreover have "iq_first (vs_display s') = None \<longleftrightarrow> drop ?n ?W = []"
    using first_display [OF r(2)] by (cases "drop ?n ?W") auto
  ultimately show ?thesis using r(1,4) vq_invI(3) [OF r(2,3) q] assms(7) W by (auto simp: flush_end_def)
qed


lemma demo_flush_facts:
  "vs_discard_frames (fst demo_flush) = 1" "waiting 20 (fst demo_flush) = [0, 1]"
  "map_option vf_is_first (vs_frame (fst demo_flush) 0) = Some False" "map_option vf_is_first (vs_frame (fst demo_flush) 1) = Some False"
  by code_simp+

theorem vo_flush_empties_witness:
  "\<exists>s'. expire_frames 20 0 (fst demo_flush) = Ret s' \<and> waiting 20 s' = [] \<and> flush_end 1 s' = Ret (s'\<lparr>vs_discard_frames := 0\<rparr>)"
  using vo_flush_empties [OF demo_states(4) demo_not_stolen(4) demo_driver_ok, of 1 0] demo_flush_facts by (auto simp: XINE_SPEED_PAUSE_def)

section \<open>The end\<close>

lemma pop_dispose:
  assumes "queue_is fr q (f # xs)"
  shows "\<exists>fr' q'. queue_pop f (fr, q) = Ret (fr', q') \<and> f \<in> dom fr' \<and> queue_is (fr'(f := None)) q' xs \<and> iq_locked q' = iq_locked q \<and>
    fr'(f := None) = fr(f := None)"
proof -
  obtain v fr' q' where p: "queue_pop f (fr, q) = Ret (fr', q')" "fr' = fr(f \<mapsto> v\<lparr>vf_next := None\<rparr>)" "queue_is fr' q' xs"
    "iq_locked q' = iq_locked q" using pop_ok [OF assms] by blast
  have "f \<notin> set xs" using queue_distinct [OF assms] by simp
  then have "queue_is (fr'(f := None)) q' xs" by (intro queue_apart [OF p(3), of "[f]"]) auto
  then show ?thesis using p by auto
qed

text \<open>
  A queue is disposed of: the free one, or the display queue; \<open>keep\<close> is what the
  other parts see.
\<close>

lemma dispose_queue_ok:
  assumes first: "\<And>t. first t = iq_first (sel t)"
    and remove: "\<And>t. remove t = obind (vo_remove_from_img_buf_queue_int (vs_frame t, sel t)) (\<lambda>(img, fr, q). Ret (img, upd fr q t))"
    and upd: "\<And>fr q t. vs_frame (upd fr q t) = fr" "\<And>fr q t. sel (upd fr q t) = q" "\<And>fr q t. vs_calls (upd fr q t) = vs_calls t"
      "\<And>fr q t. keep (upd fr q t) = keep t"
    and sel: "\<And>t m cs. sel (t\<lparr>vs_frame := m, vs_calls := cs\<rparr>) = sel t" "\<And>t m cs. keep (t\<lparr>vs_frame := m, vs_calls := cs\<rparr>) = keep t"
    and "queue_is (vs_frame s) (sel s) xs" and "\<not> iq_locked (sel s)" and "length xs < k"
  shows "\<exists>s'. dispose_queue k first remove s = Ret s' \<and> vs_frame s' = vs_frame s |` (- set xs) \<and> keep s' = keep s \<and>
    vs_calls s' = vs_calls s @ map V_dispose_frame xs"
  using assms(9-11)
proof (induction xs arbitrary: s k)
  case Nil
  then show ?case using first queue_first [OF Nil(1)] by (cases k) (auto simp: restrict_map_def)
next
  case (Cons f xs)
  obtain j where k: "k = Suc j" using Cons.prems(3) by (cases k) auto
  obtain fr q where p: "queue_pop f (vs_frame s, sel s) = Ret (fr, q)" "f \<in> dom fr" "queue_is (fr(f := None)) q xs"
    "iq_locked q = iq_locked (sel s)" "fr(f := None) = (vs_frame s)(f := None)" using pop_dispose [OF Cons.prems(1)] by blast
  obtain v where v: "fr f = Some v" using p(2) by auto
  let ?t = "(upd fr q s)\<lparr>vs_frame := fr(f := None), vs_calls := vs_calls s @ [V_dispose_frame f]\<rparr>"
  have t: "vs_frame ?t = (vs_frame s)(f := None)" "sel ?t = q" "keep ?t = keep s" "vs_calls ?t = vs_calls s @ [V_dispose_frame f]"
    using p(5) sel upd by simp_all
  have "queue_is (vs_frame ?t) (sel ?t) xs" unfolding t(1,2) using p(3) by (simp only: p(5))
  moreover have "\<not> iq_locked (sel ?t)" using p(4) Cons.prems(2) t(2) by simp
  moreover have "length xs < j" using Cons.prems(3) k by simp
  ultimately obtain s' where
    s': "dispose_queue j first remove ?t = Ret s'" "vs_frame s' = vs_frame ?t |` (- set xs)" "keep s' = keep ?t"
      "vs_calls s' = vs_calls ?t @ map V_dispose_frame xs" using Cons.IH [of ?t j] by blast
  have "iq_first (sel s) = Some f" using queue_first [OF Cons.prems(1)] by simp
  moreover from this have "remove s = Ret (f, upd fr q s)"
    using remove [of s] p(1) Cons.prems(2) by (simp add: vo_remove_from_img_buf_queue_int_def)
  ultimately have "dispose_queue k first remove s = Ret s'"
    using k first v s'(1) upd by (simp add: frame_at_def vo_call_def)
  moreover have "vs_frame s' = vs_frame s |` (- set (f # xs))" using s'(2) t(1) by (auto simp: restrict_map_def)
  ultimately show ?case using s'(3,4) t(3,4) by simp
qed

lemma free_buffers_ok:
  assumes "vo_is drv s FQ DQ h sts" and "\<not> iq_locked (vs_free s)" and "length FQ < k" and "length DQ < k"
  shows "\<exists>s'. vo_free_img_buffers k s = Ret s' \<and> vs_frame s' = vs_frame s |` (- set (FQ @ DQ)) \<and> vs_streams s' = vs_streams s \<and>
    vs_calls s' = vs_calls s @ map V_dispose_frame (FQ @ DQ)"
proof -
  note V = vo_isD [OF assms(1)]
  note D = frames_okD [OF V(1)]
  have rf: "remove_free t = obind (vo_remove_from_img_buf_queue_int (vs_frame t, vs_free t))
      (\<lambda>(img, fr, q). Ret (img, t\<lparr>vs_frame := fr, vs_free := q\<rparr>))" for t by (simp add: remove_free_def)
  have rd: "remove_display t = obind (vo_remove_from_img_buf_queue_int (vs_frame t, vs_display t))
      (\<lambda>(img, fr, q). Ret (img, t\<lparr>vs_frame := fr, vs_display := q\<rparr>))" for t by (simp add: remove_display_def)
  from dispose_queue_ok [of "\<lambda>s. iq_first (vs_free s)" vs_free remove_free "\<lambda>fr q t. t\<lparr>vs_frame := fr, vs_free := q\<rparr>"
      "\<lambda>t. (vs_display t, vs_streams t)", OF _ rf _ _ _ _ _ _ D(1) assms(2,3)] obtain s1 where
    s1: "dispose_queue k (\<lambda>s. iq_first (vs_free s)) remove_free s = Ret s1" "vs_frame s1 = vs_frame s |` (- set FQ)"
      "vs_display s1 = vs_display s" "vs_streams s1 = vs_streams s" "vs_calls s1 = vs_calls s @ map V_dispose_frame FQ" by auto
  have "queue_is (vs_frame s1) (vs_display s1) DQ"
    unfolding s1(3) by (rule queue_apart [OF D(2), of FQ]) (use D(3) s1(2) in auto)
  moreover have "\<not> iq_locked (vs_display s1)" using V(2) s1(3) by simp
  ultimately obtain s2 where
    s2: "dispose_queue k (\<lambda>s. iq_first (vs_display s)) remove_display s1 = Ret s2" "vs_frame s2 = vs_frame s1 |` (- set DQ)"
      "vs_streams s2 = vs_streams s1" "vs_calls s2 = vs_calls s1 @ map V_dispose_frame DQ"
    using dispose_queue_ok [of "\<lambda>s. iq_first (vs_display s)" vs_display remove_display "\<lambda>fr q t. t\<lparr>vs_frame := fr, vs_display := q\<rparr>"
      vs_streams, OF _ rd, of s1 DQ k] assms(4) by auto
  show ?thesis using s1 s2 by (simp add: vo_free_img_buffers_def)
qed

definition disposed :: "vo_call list \<Rightarrow> nat list" where
  "disposed cs = concat (map (\<lambda>x. case x of V_dispose_frame f \<Rightarrow> [f] | _ \<Rightarrow> []) cs)"

lemma disposed_simps [simp]: "disposed (xs @ ys) = disposed xs @ disposed ys" "disposed (map V_dispose_frame fs) = fs"
  by (simp_all add: disposed_def comp_def)

lemma dec_lock_calls: "vo_frame_dec_lock f s = Ret s' \<Longrightarrow> vs_calls s' = vs_calls s"
  by (auto simp: vo_frame_dec_lock_def append_free_def put_frame_def Let_def obind_eq_Ret split: if_splits)

lemma remove_display_calls: "remove_display s = Ret (f, s') \<Longrightarrow> vs_calls s' = vs_calls s"
  by (auto simp: remove_display_def obind_eq_Ret)

lemma discard_display_calls: "discard_display k s = Ret s' \<Longrightarrow> vs_calls s' = vs_calls s"
proof (induction k arbitrary: s)
  case (Suc k)
  then show ?case by (cases "iq_first (vs_display s)") (auto simp: obind_eq_Ret dest!: dec_lock_calls remove_display_calls)
qed simp

lemma end_of_loop_calls: "end_of_loop k s = Ret s' \<Longrightarrow> vs_calls s' = vs_calls s"
  by (auto simp: end_of_loop_def free_backup_def release_last_def obind_eq_Ret split: option.splits
      dest!: discard_display_calls dec_lock_calls)

lemma paused_for_ever: "set speeds \<subseteq> {XINE_SPEED_PAUSE} \<Longrightarrow> paused_turns k drv ovl vpts speeds s \<noteq> Ret s'"
  by (induction speeds arbitrary: s) (auto simp: obind_eq_Ret)


lemma vo_demo_start_facts:
  "iq_locked (vs_free (fst vo_demo_start)) = False" "vs_loop_running (fst vo_demo_start)" "unused 20 (fst vo_demo_start) = [0, 1, 2, 3, 4]"
  by code_simp+


section \<open>Numbers\<close>

text \<open>
  The slow start: with the first frame after a seek the limit falls to -2, the next ones raise it
  by steps to 3 with the tenth, and there it stays.
\<close>

theorem vo_slow_start:
  assumes "st_first_frame_flag S = 2" and "st_first_frame_flag T \<noteq> 2"
  shows "vs_drop_limit ((drop_limit T ^^ n) (drop_limit S s)) = (if n < 9 then 3 - (10 - int n) div 2 else 3)"
proof -
  have step: "vs_drop_limit (drop_limit T t) = (if vs_drop_cpt t \<noteq> 0 then 3 - vs_drop_cpt t sdiv 2 else vs_drop_limit t) \<and>
      vs_drop_cpt (drop_limit T t) = (if vs_drop_cpt t \<noteq> 0 then vs_drop_cpt t - 1 else 0)" for t
    using assms(2) by (simp add: drop_limit_def Let_def)
  have "vs_drop_cpt ((drop_limit T ^^ n) (drop_limit S s)) = (if n < 9 then 9 - int n else 0) \<and>
      vs_drop_limit ((drop_limit T ^^ n) (drop_limit S s)) = (if n < 9 then 3 - (10 - int n) div 2 else 3)"
  proof (induction n)
    case 0
    then show ?case using assms(1) by (simp add: drop_limit_def Let_def)
  next
    case (Suc n)
    define t where "t = (drop_limit T ^^ n) (drop_limit S s)"
    have t: "(drop_limit T ^^ Suc n) (drop_limit S s) = drop_limit T t" by (simp add: t_def)
    have e: "n < 9 \<Longrightarrow> (9 - int n) sdiv 2 = (10 - int (Suc n)) div 2" by (simp add: sdiv_nonneg)
    consider "n < 8" | "n = 8" | "9 \<le> n" by linarith
    then show ?case unfolding t by cases (use Suc.IH [folded t_def] step [of t] e in auto)
  qed
  then show ?thesis by simp
qed


text \<open>
  Hue, saturation, contrast and brightness survive the conversion to the driver's range and
  back: what is read is at most what was set, less by no more than a step of the driver's range,
  and exact at both ends; for a driver whose range is below 2 ^ 15 and that remembers what is set.
\<close>

theorem vo_property_roundtrip:
  assumes "p \<in> set vo_color_params" and "drv_min_max drv (driver_property p) = (lo, hi)" and "lo < hi" and "hi - lo < 2 ^ 15"
    and "\<bar>lo\<bar> < 2 ^ 30" and "0 \<le> x" and "x \<le> 65535" and "\<not> vs_grab_only s"
    and "\<And>cs v. drv_get_property drv (cs @ [V_set_property (driver_property p) v]) (driver_property p) = v"
  shows "\<exists>s' r. vo_set_property k drv p x s = Ret (x, s') \<and> vo_get_property drv p s' = Ret r \<and>
    r \<le> x \<and> x \<le> r + 65534 div (hi - lo) + 1 \<and> (x = 0 \<or> x = 65535 \<longrightarrow> r = x)"
proof -
  let ?R = "hi - lo" and ?q = "x * (hi - lo) div 65535"
  let ?r = "?q * 65535 div ?R"
  have np: "p \<noteq> VO_PROP_DISCARD_FRAMES" using assms(1) by (auto simp: vo_color_params_def VO_PROP_DISCARD_FRAMES_def)
  have R: "0 < ?R" "?R \<le> 32767" using assms(3,4) by simp_all
  have vR: "0 \<le> x * ?R" "x * ?R \<le> 65535 * 32767"
    using mult_nonneg_nonneg [of x ?R] mult_mono [of x 65535 ?R 32767] R assms(6,7) by simp_all
  have q: "0 \<le> ?q" "?q * 65535 \<le> x * ?R" "x * ?R \<le> ?q * 65535 + 65534"
    using vR(1) by (simp_all add: pos_imp_zdiv_nonneg_iff)
  have qR: "?q \<le> ?R" using q(2) assms(7) R(1) mult_mono [of x 65535 ?R ?R] by simp
  have s1: "s32 ?R = ?R" "s32 (x * ?R) = x * ?R" "s32 (?q + lo) = ?q + lo" "s32 (?q * 65535) = ?q * 65535"
    using R vR q qR assms(5) by (simp_all add: s32_id)
  have r1: "?r \<le> x" using zdiv_mono1 [OF q(2) R(1)] R(1) by simp
  have below: "a < (a div ?R + 1) * ?R" for a
    using R(1) mult_div_mod_eq [of ?R a] pos_mod_bound [of ?R a] by (simp add: algebra_simps)
  have "x * ?R < (?r + 65534 div ?R + 2) * ?R"
    using q(3) below [of "?q * 65535"] below [of 65534] unfolding distrib_right by linarith
  then have r2: "x \<le> ?r + 65534 div ?R + 1" using R(1) mult_less_cancel_right [of x ?R] by simp
  have r3: "?r = x" if "x = 0 \<or> x = 65535"
  proof -
    have a: "65535 * ?R div 65535 = ?R" by (rule nonzero_mult_div_cancel_left) simp
    have b: "?R * 65535 div ?R = 65535" by (rule nonzero_mult_div_cancel_left) (use R(1) in simp)
    from that show ?thesis
    proof
      assume x: "x = 65535"
      show ?thesis unfolding x a b ..
    qed simp
  qed
  have "vo_set_property k drv p x s = Ret (x, vo_call (V_set_property (driver_property p) (?q + lo)) s)"
    using np assms(1,2,8) s1 vR(1) by (simp add: vo_set_property_def set_driver_property_def sdiv_nonneg Let_def)
  moreover have "vo_get_property drv p (vo_call (V_set_property (driver_property p) (?q + lo)) s) = Ret ?r"
    using np assms(1,2,9) s1 R(1) q(1) by (simp add: vo_get_property_def vo_call_def cdiv_def sdiv_nonneg Let_def)
  ultimately show ?thesis using r1 r2 r3 by blast
qed

theorem vo_property_roundtrip_witness:
  "\<exists>s' r. vo_set_property 20 demo_driver 0x01000002 30000 (fst demo2) = Ret (30000, s') \<and>
    vo_get_property demo_driver 0x01000002 s' = Ret r \<and> r \<le> 30000 \<and> 30000 \<le> r + 328"
proof -
  have "vs_grab_only (fst demo2) = False" by code_simp
  then show ?thesis
    using vo_property_roundtrip [where p = "0x01000002" and drv = demo_driver and lo = "-100" and hi = 100 and x = 30000 and s = "fst demo2" and k = 20]
    by (auto simp: vo_color_params_def demo_driver_def)
qed

section \<open>The pause\<close>

text \<open>
  C27. What the pause gets wrong: with no free frame it takes the first waiting frame for its
  still picture, also when a decoder still holds that frame. The frame is formatted and
  overwritten with a copy of the next one, and its lock counter is 1, with the decoder and the
  output loop referring to it.
\<close>

theorem vo_pause_steals:
  assumes "vo_reachable k drv (s, c)" and "\<not> vc_stolen c" and "driver_ok drv" and "alloc_ok drv" and "vo_enough k drv"
    and "waiting k s = f # g # fs" and "unused k s = []" and "0 < vc_held c f" and "vs_img_backup s = None"
  shows "\<exists>s' w. paused_turn drv ovl s = Ret (Some f, s') \<and> vs_frame s' f = Some w \<and> V_update_format f \<in> set (vs_calls s') \<and>
    vf_lock w = 1 \<and> vs_img_backup s' = Some g \<and> map_option vf_width (vs_frame s g) = Some (vf_width w) \<and>
    int (users k (s, c) f) > vf_lock w"
proof -
  note I = vo_inv_lists [OF reachable_ok [OF assms(1-5)], unfolded assms(6,7)]
  note V = vo_isD [OF I(1)]
  note D = frames_okD [OF V(1)]
  have fg: "f \<noteq> g" using queue_distinct [OF D(2)] by simp
  obtain v where v: "vs_frame s f = Some v" "used_ok drv (refs s (counts c) f) True v" using vo_frame_of [OF I(1), of f] by auto
  obtain w where w: "vs_frame s g = Some w" "used_ok drv (refs s (counts c) g) True w" using vo_frame_of [OF I(1), of g] by auto
  have q: "vf_next v = Some g" "iq_first (vs_display s) = Some f" using D(2) v(1) by (auto simp: queue_is_def vf_nexts_def)
  have e: "iq_first (vs_free s) = None" using first_free [OF I(1)] by simp
  have fits: "fits (vf_height w) (vf_format w) (vf_picture w)" using shape_fits [OF assms(3)] w(2) by (simp add: used_ok_def)
  obtain W H where wh: "vf_width w = sint (W :: u32)" "vf_height w = sint (H :: u32)"
    "sizes (vf_picture w) = sizes (drv_format drv W H (vf_format w) (vf_flags w))" using w(2) by (auto simp: used_ok_def shape_ok_def)
  have sz: "sizes (drv_format drv W H (vf_format w) (vf_flags w OR VO_BOTH_FIELDS)) = sizes (vf_picture w)"
    using assms(3) wh(3) unfolding driver_ok_def by simp
  let ?d = "v\<lparr>vf_next := None, vf_lock := 1, vf_width := vf_width w, vf_height := vf_height w, vf_ratio := vf_ratio w,
     vf_format := vf_format w, vf_flags := vf_flags w OR VO_BOTH_FIELDS,
     vf_picture := drv_format drv W H (vf_format w) (vf_flags w OR VO_BOTH_FIELDS)\<rparr>"
  have "fits (vf_height (w\<lparr>vf_next := None\<rparr>)) (vf_format (w\<lparr>vf_next := None\<rparr>)) (vf_picture (w\<lparr>vf_next := None\<rparr>))"
    "sizes (vf_picture ?d) = sizes (vf_picture (w\<lparr>vf_next := None\<rparr>))" using fits sz by simp_all
  then obtain pic where pic: "copy_picture (w\<lparr>vf_next := None\<rparr>) ?d = Ret pic" using copy_picture_ok by blast
  obtain s1 where s1: "pause_free s = Ret s1" "vs_frame s1 = (vs_frame s)(f \<mapsto> v\<lparr>vf_next := None\<rparr>)" "iq_first (vs_free s1) = Some f"
    "iq_first (vs_display s1) = Some g" "\<not> iq_locked (vs_display s1)" "vs_img_backup s1 = None"
    using q e v(1) V(2) assms(9)
    by (simp add: pause_free_def remove_display_def vo_remove_from_img_buf_queue_int_def queue_pop_def frame_at_def put_frame_def)
  obtain s2 where s2: "pause_backup s1 = Ret s2" "vs_frame s2 = (vs_frame s1)(g \<mapsto> w\<lparr>vf_next := None\<rparr>)" "iq_first (vs_free s2) = Some f"
    "vs_img_backup s2 = Some g" "vs_redraw_needed s2 = 1"
  proof -
    have "vs_frame s1 g = Some w" using s1(2) w(1) fg by simp
    then show ?thesis using that s1(3-6)
      by (cases "vf_next w") (simp_all add: pause_backup_def remove_display_def vo_remove_from_img_buf_queue_int_def queue_pop_def)
  qed
  let ?s3 = "check_redraw_needed drv ovl s2"
  have s3: "vs_frame ?s3 = vs_frame s2" "iq_first (vs_free ?s3) = Some f" "vs_img_backup ?s3 = Some g" "vs_redraw_needed ?s3 \<noteq> 0"
    using s2(3-5) by (simp_all add: check_redraw_needed_def Let_def)
  have fr: "vs_frame ?s3 f = Some (v\<lparr>vf_next := None\<rparr>)" "vs_frame ?s3 g = Some (w\<lparr>vf_next := None\<rparr>)" using s3(1) s2(2) s1(2) fg by simp_all
  obtain s4 u where s4: "duplicate_frame drv g ?s3 = Ret (Some f, s4)" "vs_frame s4 f = Some u" "vf_lock u = 1" "vf_width u = vf_width w"
    "V_update_format f \<in> set (vs_calls s4)" "vs_img_backup s4 = Some g"
    using s3(2,3) fr fg pic wh(1,2)
    by (simp add: duplicate_frame_def queue_pop_def frame_at_def update_frame_format_def put_frame_def vo_call_def Let_def)
  have "pause_copy drv ?s3 = Ret (Some f, put_frame f (u\<lparr>vf_extra_info := extra_info_reset\<rparr>) s4)"
    using s3(3,4) s4(1,2) by (simp add: pause_copy_def frame_at_def)
  then have "paused_turn drv ovl s = Ret (Some f, put_frame f (u\<lparr>vf_extra_info := extra_info_reset\<rparr>) s4)"
    using s1(1) s2(1) by (simp add: paused_turn_def)
  moreover have "1 < int (users k (s, c) f)" using assms(6,8) by (simp add: users_def)
  ultimately show ?thesis using s4 w(1)
    by (intro exI [of _ "put_frame f (u\<lparr>vf_extra_info := extra_info_reset\<rparr>) s4"] exI [of _ "u\<lparr>vf_extra_info := extra_info_reset\<rparr>"])
      (simp add: put_frame_def)
qed

lemma demo5_facts:
  "waiting 20 (fst demo5) = [0, 1, 2, 3, 4]" "unused 20 (fst demo5) = []" "vc_held (snd demo5) 0 = 1" "vs_img_backup (fst demo5) = None"
  by code_simp+

theorem vo_pause_steals_witness:
  "\<exists>s' w. paused_turn demo_driver False (fst demo5) = Ret (Some 0, s') \<and> vs_frame s' 0 = Some w \<and> vf_lock w = 1 \<and> vc_held (snd demo5) 0 = 1 \<and>
    vs_img_backup s' = Some 1"
  using vo_pause_steals [OF demo_states(3) demo_not_stolen(3) demo_driver_ok demo5_facts(1,2) _ demo5_facts(4), of False] demo5_facts(3) by auto

end
