(* ===== verification/Resample.thy ===== *)
theory Resample
  imports Xine_Prelude
begin

unbundle bit_operations_syntax

text \<open>
  Conversion of audio samples, src/src/xine-engine/resample.c: linear interpolation to another
  rate in 16.16 fixed point, for 1, 2, 4, 5 and 6 channels, between 8 and 16 bits, and between
  mono and stereo. The arithmetic is that of the C types: \<open>int16_t\<close> samples are
  16-bit words read signed, the fixed point numbers are \<open>uint32_t\<close>. An array is the
  list of its elements; an index outside of it faults.
\<close>

section \<open>Interpolation\<close>

text \<open>
  \<open>os = (s1 * (0x10000-t)+ s2 * t) >> 16\<close>: \<open>t\<close> is unsigned, so the whole
  expression is; the result is cut to 16 bits.
\<close>

definition interpolate :: "u16 \<Rightarrow> u16 \<Rightarrow> u32 \<Rightarrow> u16" where
  "interpolate s1 s2 t = ucast (drop_bit 16 (scast s1 * (0x10000 - t) + scast s2 * t :: u32))"

definition resample_istep :: "u32 \<Rightarrow> u32 \<Rightarrow> u32 outcome" where
  "resample_istep in_samples out_samples =
     (if out_samples - 2 = 0 then Fault else Ret (push_bit 16 (in_samples - 2) div (out_samples - 2)))"

text \<open>One frame: channel by channel, from the two input frames at \<open>isample >> 16\<close>.\<close>

fun resample_frame :: "nat \<Rightarrow> u16 list \<Rightarrow> u32 \<Rightarrow> nat \<Rightarrow> nat list \<Rightarrow> u16 list \<Rightarrow> u16 list outcome" where
  "resample_frame n inp isample osample [] out = Ret out"
| "resample_frame n inp isample osample (c # cs) out =
     (let i = unat (drop_bit 16 isample) in
      obind (aget inp (i * n + c)) (\<lambda>s1.
      obind (aget inp (i * n + n + c)) (\<lambda>s2.
      obind (aset out (osample * n + c) (interpolate s1 s2 (isample AND 0xffff))) (\<lambda>out1.
      resample_frame n inp isample osample cs out1))))"

text \<open>The loop over the output frames; the first argument counts the turns that are left.\<close>

fun resample_loop :: "nat \<Rightarrow> nat \<Rightarrow> u16 list \<Rightarrow> u32 \<Rightarrow> nat \<Rightarrow> u32 \<Rightarrow> u16 list \<Rightarrow> u16 list outcome" where
  "resample_loop 0 n inp istep osample isample out = Ret out"
| "resample_loop (Suc k) n inp istep osample isample out =
     obind (resample_frame n inp isample osample [0..<n] out) (\<lambda>out1.
     resample_loop k n inp istep (osample + 1) (isample + istep) out1)"

text \<open>The last frame is copied.\<close>

fun resample_last :: "nat \<Rightarrow> u16 list \<Rightarrow> u32 \<Rightarrow> u32 \<Rightarrow> nat list \<Rightarrow> u16 list \<Rightarrow> u16 list outcome" where
  "resample_last n inp in_samples out_samples [] out = Ret out"
| "resample_last n inp in_samples out_samples (c # cs) out =
     obind (aget inp (unat (in_samples * of_nat n - of_nat (n - c)))) (\<lambda>s.
     obind (aset out (unat (out_samples * of_nat n - of_nat (n - c))) s) (\<lambda>out1.
     resample_last n inp in_samples out_samples cs out1))"

definition resample_channels :: "nat \<Rightarrow> u16 list \<Rightarrow> u32 \<Rightarrow> u16 list \<Rightarrow> u32 \<Rightarrow> u16 list outcome" where
  "resample_channels n input_samples in_samples output_samples out_samples =
     obind (resample_istep in_samples out_samples) (\<lambda>istep.
     obind (resample_loop (unat (out_samples - 1)) n input_samples istep 0 0 output_samples) (\<lambda>out1.
     resample_last n input_samples in_samples out_samples [0..<n] out1))"

definition audio_out_resample_mono :: "u16 list \<Rightarrow> u32 \<Rightarrow> u16 list \<Rightarrow> u32 \<Rightarrow> u16 list outcome" where
  "audio_out_resample_mono = resample_channels 1"

definition audio_out_resample_stereo :: "u16 list \<Rightarrow> u32 \<Rightarrow> u16 list \<Rightarrow> u32 \<Rightarrow> u16 list outcome" where
  "audio_out_resample_stereo = resample_channels 2"

definition audio_out_resample_4channel :: "u16 list \<Rightarrow> u32 \<Rightarrow> u16 list \<Rightarrow> u32 \<Rightarrow> u16 list outcome" where
  "audio_out_resample_4channel = resample_channels 4"

definition audio_out_resample_5channel :: "u16 list \<Rightarrow> u32 \<Rightarrow> u16 list \<Rightarrow> u32 \<Rightarrow> u16 list outcome" where
  "audio_out_resample_5channel = resample_channels 5"

definition audio_out_resample_6channel :: "u16 list \<Rightarrow> u32 \<Rightarrow> u16 list \<Rightarrow> u32 \<Rightarrow> u16 list outcome" where
  "audio_out_resample_6channel = resample_channels 6"

section \<open>Widths and channels\<close>

text \<open>
  \<open>os = *input_samples++; os = (os - 0x80) << 8\<close> on a signed byte, cut to 16 bits,
  and back.
\<close>

definition to_16bit :: "u8 \<Rightarrow> u16" where
  "to_16bit b = push_bit 8 (scast b - 0x80)"

definition to_8bit :: "u16 \<Rightarrow> u8" where
  "to_8bit w = ucast (signed_drop_bit 8 w + 0x80)"

text \<open>The pointers of the loops move on by one: here an index.\<close>

fun audio_out_resample_8to16 :: "nat \<Rightarrow> nat \<Rightarrow> u8 list \<Rightarrow> u16 list \<Rightarrow> u16 list outcome" where
  "audio_out_resample_8to16 0 i inp out = Ret out"
| "audio_out_resample_8to16 (Suc samples) i inp out =
     obind (aget inp i) (\<lambda>b. obind (aset out i (to_16bit b)) (\<lambda>out1.
     audio_out_resample_8to16 samples (i + 1) inp out1))"

fun audio_out_resample_16to8 :: "nat \<Rightarrow> nat \<Rightarrow> u16 list \<Rightarrow> u8 list \<Rightarrow> u8 list outcome" where
  "audio_out_resample_16to8 0 i inp out = Ret out"
| "audio_out_resample_16to8 (Suc samples) i inp out =
     obind (aget inp i) (\<lambda>w. obind (aset out i (to_8bit w)) (\<lambda>out1.
     audio_out_resample_16to8 samples (i + 1) inp out1))"

fun audio_out_resample_monotostereo :: "nat \<Rightarrow> nat \<Rightarrow> u16 list \<Rightarrow> u16 list \<Rightarrow> u16 list outcome" where
  "audio_out_resample_monotostereo 0 i inp out = Ret out"
| "audio_out_resample_monotostereo (Suc frames) i inp out =
     obind (aget inp i) (\<lambda>w. obind (aset out (2 * i) w) (\<lambda>out1. obind (aset out1 (2 * i + 1) w) (\<lambda>out2.
     audio_out_resample_monotostereo frames (i + 1) inp out2)))"

definition half_sum :: "u16 \<Rightarrow> u16 \<Rightarrow> u16" where
  "half_sum l r = signed_drop_bit 1 l + signed_drop_bit 1 r"

fun audio_out_resample_stereotomono :: "nat \<Rightarrow> nat \<Rightarrow> u16 list \<Rightarrow> u16 list \<Rightarrow> u16 list outcome" where
  "audio_out_resample_stereotomono 0 i inp out = Ret out"
| "audio_out_resample_stereotomono (Suc frames) i inp out =
     obind (aget inp (2 * i)) (\<lambda>l. obind (aget inp (2 * i + 1)) (\<lambda>r. obind (aset out i (half_sum l r)) (\<lambda>out1.
     audio_out_resample_stereotomono frames (i + 1) inp out1)))"

section \<open>What a sample becomes\<close>

lemma sint16_range: "- 32768 \<le> sint (w :: u16)" "sint (w :: u16) < 32768"
  using sint_greater_eq [of w] sint_less [of w] by simp_all

lemma sint_of_int16: "- 32768 \<le> x \<Longrightarrow> x < 32768 \<Longrightarrow> sint (word_of_int x :: u16) = x"
  by transfer (simp add: signed_take_bit_int_eq_self)

lemma high_half: 
  fixes x :: int
  assumes "- (2 ^ 31) \<le> x" and "x < 2 ^ 31"
  shows "sint (ucast (drop_bit 16 (word_of_int x :: u32)) :: u16) = x div 0x10000"
proof -
  have "uint (ucast (drop_bit 16 (word_of_int x :: u32)) :: u16) = take_bit 16 (drop_bit 16 (take_bit 32 x))"
    by transfer simp
  also have "\<dots> = take_bit 16 (x div 0x10000)"
    by (simp only: drop_bit_take_bit) (simp add: drop_bit_eq_div)
  also have "\<dots> = uint (word_of_int (x div 0x10000) :: u16)" by (simp add: uint_word_of_int_eq)
  finally have "(ucast (drop_bit 16 (word_of_int x :: u32)) :: u16) = word_of_int (x div 0x10000)"
    by (rule word_uint_eq_iff [THEN iffD2])
  moreover have "- 32768 \<le> x div 0x10000" "x div 0x10000 < 32768" using div_bounds [of 65536 x] assms by simp_all
  ultimately show ?thesis by (simp only: sint_of_int16)
qed

lemma mix_between:
  fixes a b t m M :: int
  assumes "0 \<le> t" and "t \<le> k" and "m \<le> a" "a \<le> M" "m \<le> b" "b \<le> M"
  shows "m * k \<le> a * (k - t) + b * t" and "a * (k - t) + b * t \<le> M * k"
proof -
  have "m * (k - t) \<le> a * (k - t)" "m * t \<le> b * t" "a * (k - t) \<le> M * (k - t)" "b * t \<le> M * t"
    using assms by (simp_all add: mult_right_mono)
  then show "m * k \<le> a * (k - t) + b * t" and "a * (k - t) + b * t \<le> M * k" by (simp_all add: algebra_simps)
qed

text \<open>The unsigned expression is the exact interpolation, rounded down.\<close>

lemma interpolate_exact:
  assumes "uint t \<le> 0x10000"
  shows "sint (interpolate s1 s2 t) = (sint s1 * (0x10000 - uint t) + sint s2 * uint t) div 0x10000"
proof -
  let ?x = "sint s1 * (0x10000 - uint t) + sint s2 * uint t"
  have "(scast s1 * (0x10000 - t) + scast s2 * t :: u32) =
      word_of_int (sint s1) * (word_of_int 0x10000 - word_of_int (uint t)) + word_of_int (sint s2) * word_of_int (uint t)"
    by (simp only: of_int_sint word_of_int_uint of_int_numeral)
  also have "\<dots> = word_of_int ?x" by (simp only: wi_hom_syms)
  finally have e: "(scast s1 * (0x10000 - t) + scast s2 * t :: u32) = word_of_int ?x" .
  have "(- 32768) * 0x10000 \<le> ?x \<and> ?x \<le> 32767 * 0x10000"
    using sint16_range [of s1] sint16_range [of s2] assms
    by (intro conjI mix_between [where m = "- 32768" and M = 32767]) simp_all
  then have "sint (ucast (drop_bit 16 (word_of_int ?x :: u32)) :: u16) = ?x div 0x10000"
    by (intro high_half) simp_all
  then show ?thesis using e by (simp only: interpolate_def)
qed

lemma interpolate_between:
  assumes "uint t \<le> 0x10000"
  shows "min (sint s1) (sint s2) \<le> sint (interpolate s1 s2 t)" and "sint (interpolate s1 s2 t) \<le> max (sint s1) (sint s2)"
proof -
  let ?x = "sint s1 * (0x10000 - uint t) + sint s2 * uint t"
  have "min (sint s1) (sint s2) * 0x10000 \<le> ?x \<and> ?x \<le> max (sint s1) (sint s2) * 0x10000"
    using assms by (intro conjI mix_between [where m = "min (sint s1) (sint s2)" and M = "max (sint s1) (sint s2)"]) simp_all
  then show "min (sint s1) (sint s2) \<le> sint (interpolate s1 s2 t)" and "sint (interpolate s1 s2 t) \<le> max (sint s1) (sint s2)"
    unfolding interpolate_exact [OF assms] using div_bounds [of 65536 ?x] by simp_all
qed

section \<open>What the loop writes\<close>

lemma upt_below: "set [0..<n] \<subseteq> {..<n}"
  by auto

lemma resample_frame_ok:
  assumes "set cs \<subseteq> {..<n}" and "distinct cs"
    and "unat (drop_bit 16 isample) * n + 2 * n \<le> length inp" and "osample * n + n \<le> length out"
  shows "\<exists>out'. resample_frame n inp isample osample cs out = Ret out' \<and> length out' = length out \<and>
    (\<forall>c \<in> set cs. out' ! (osample * n + c) = interpolate (inp ! (unat (drop_bit 16 isample) * n + c))
        (inp ! (unat (drop_bit 16 isample) * n + n + c)) (isample AND 0xffff)) \<and>
    (\<forall>j. (\<forall>c \<in> set cs. j \<noteq> osample * n + c) \<longrightarrow> out' ! j = out ! j)"
  using assms
proof (induction cs arbitrary: out)
  case Nil
  then show ?case by simp
next
  case (Cons c cs)
  let ?i = "unat (drop_bit 16 isample)"
  let ?out1 = "out[osample * n + c := interpolate (inp ! (?i * n + c)) (inp ! (?i * n + n + c)) (isample AND 0xffff)]"
  have c: "c < n" using Cons.prems(1) by simp
  obtain out' where o: "resample_frame n inp isample osample cs ?out1 = Ret out'" "length out' = length ?out1"
    "\<forall>c \<in> set cs. out' ! (osample * n + c) = interpolate (inp ! (?i * n + c)) (inp ! (?i * n + n + c)) (isample AND 0xffff)"
    "\<forall>j. (\<forall>c \<in> set cs. j \<noteq> osample * n + c) \<longrightarrow> out' ! j = ?out1 ! j"
    using Cons.IH [of ?out1] Cons.prems by auto
  have "resample_frame n inp isample osample (c # cs) out = Ret out'"
    using o(1) c Cons.prems(3,4) by (simp add: Let_def)
  moreover have "out' ! (osample * n + c) = interpolate (inp ! (?i * n + c)) (inp ! (?i * n + n + c)) (isample AND 0xffff)"
    using o(4) [rule_format, of "osample * n + c"] c Cons.prems(2,4) by auto
  ultimately show ?case using o(2-4) by auto
qed

lemma unat_small: "x < 2 ^ 32 \<Longrightarrow> unat (of_nat x :: u32) = x"
  by (simp add: unat_of_nat)

lemma high_part: "x < 2 ^ 32 \<Longrightarrow> unat (drop_bit 16 (of_nat x :: u32)) = x div 65536"
  by transfer (simp add: take_bit_nat_eq_self drop_bit_eq_div nat_div_distrib take_bit_int_eq_self zdiv_int)

lemma low_part: "(of_nat x AND 0xffff :: u32) = of_nat (x mod 65536)"
proof -
  have "(0xffff :: u32) = mask 16" by (simp add: mask_eq_exp_minus_1)
  then have "(of_nat x AND 0xffff :: u32) = take_bit 16 (of_nat x)" by (simp only: take_bit_eq_mask)
  also have "\<dots> = of_nat (take_bit 16 x)" by (simp only: take_bit_of_nat)
  finally show ?thesis by (simp add: take_bit_eq_mod)
qed

definition sample_at :: "u16 list \<Rightarrow> nat \<Rightarrow> nat \<Rightarrow> nat \<Rightarrow> nat \<Rightarrow> u16" where
  "sample_at inp n S j c =
     interpolate (inp ! (j * S div 65536 * n + c)) (inp ! (j * S div 65536 * n + n + c)) (of_nat (j * S mod 65536))"

lemma resample_loop_ok:
  assumes "\<forall>j < osample + k. j * S div 65536 + 2 \<le> m \<and> j * S < 2 ^ 32"
    and "m * n \<le> length inp" and "(osample + k) * n \<le> length out"
  shows "\<exists>out'. resample_loop k n inp (of_nat S) osample (of_nat (osample * S)) out = Ret out' \<and> length out' = length out \<and>
    (\<forall>j c. osample \<le> j \<and> j < osample + k \<and> c < n \<longrightarrow> out' ! (j * n + c) = sample_at inp n S j c) \<and>
    (\<forall>p. p < osample * n \<or> (osample + k) * n \<le> p \<longrightarrow> out' ! p = out ! p)"
  using assms
proof (induction k arbitrary: osample out)
  case 0
  then show ?case by auto
next
  case (Suc k)
  let ?i = "of_nat (osample * S) :: u32"
  have b: "osample * S div 65536 + 2 \<le> m" "osample * S < 2 ^ 32" using Suc.prems(1) by auto
  have h: "unat (drop_bit 16 ?i) = osample * S div 65536" using b(2) by (rule high_part)
  have "(osample * S div 65536 + 2) * n \<le> m * n" using b(1) by (rule mult_le_mono1)
  then have in1: "unat (drop_bit 16 ?i) * n + 2 * n \<le> length inp" using Suc.prems(2) h by (simp add: algebra_simps)
  have out1: "osample * n + n \<le> length out" using Suc.prems(3) by (simp add: algebra_simps)
  obtain o1 where o1: "resample_frame n inp ?i osample [0..<n] out = Ret o1" "length o1 = length out"
    "\<forall>c \<in> set [0..<n]. o1 ! (osample * n + c) = interpolate (inp ! (unat (drop_bit 16 ?i) * n + c))
        (inp ! (unat (drop_bit 16 ?i) * n + n + c)) (?i AND 0xffff)"
    "\<forall>j. (\<forall>c \<in> set [0..<n]. j \<noteq> osample * n + c) \<longrightarrow> o1 ! j = out ! j"
    using resample_frame_ok [OF upt_below distinct_upt in1 out1] by blast
  have v: "o1 ! (osample * n + c) = sample_at inp n S osample c" if "c < n" for c
    using o1(3) [unfolded h low_part] that by (simp add: sample_at_def del: of_nat_mod)
  have step: "?i + of_nat S = of_nat ((osample + 1) * S)" by (simp add: algebra_simps)
  obtain o2 where o2: "resample_loop k n inp (of_nat S) (osample + 1) (of_nat ((osample + 1) * S)) o1 = Ret o2"
    "length o2 = length o1"
    "\<forall>j c. osample + 1 \<le> j \<and> j < osample + 1 + k \<and> c < n \<longrightarrow> o2 ! (j * n + c) = sample_at inp n S j c"
    "\<forall>p. p < (osample + 1) * n \<or> (osample + 1 + k) * n \<le> p \<longrightarrow> o2 ! p = o1 ! p"
    using Suc.IH [of "osample + 1" o1] Suc.prems o1(2) by auto
  have "resample_loop (Suc k) n inp (of_nat S) osample ?i out = Ret o2"
    using o1(1) o2(1) step by (simp add: add.commute)
  moreover have "o2 ! (j * n + c) = sample_at inp n S j c" if "osample \<le> j" "j < osample + Suc k" "c < n" for j c
  proof (cases "j = osample")
    case True
    have "o2 ! (osample * n + c) = o1 ! (osample * n + c)" using o2(4) that(3) by (simp add: algebra_simps)
    then show ?thesis using True v [OF that(3)] by simp
  next
    case False
    then show ?thesis using o2(3) that by simp
  qed
  moreover have "o2 ! p = out ! p" if "p < osample * n \<or> (osample + Suc k) * n \<le> p" for p
  proof -
    have a: "p < (osample + 1) * n \<or> (osample + 1 + k) * n \<le> p" using that by (auto simp: algebra_simps)
    have "\<forall>c \<in> set [0..<n]. p \<noteq> osample * n + c" using that by (auto simp: algebra_simps)
    then show ?thesis using o1(4) o2(4) a by metis
  qed
  ultimately show ?case using o1(2) o2(2) by auto
qed

lemma resample_last_ok:
  assumes "set cs \<subseteq> {..<n}" and "distinct cs" and "0 < i" and "0 < k" and "i * n < 2 ^ 32" and "k * n < 2 ^ 32"
    and "i * n \<le> length inp" and "k * n \<le> length out"
  shows "\<exists>out'. resample_last n inp (of_nat i) (of_nat k) cs out = Ret out' \<and> length out' = length out \<and>
    (\<forall>c \<in> set cs. out' ! ((k - 1) * n + c) = inp ! ((i - 1) * n + c)) \<and>
    (\<forall>p. (\<forall>c \<in> set cs. p \<noteq> (k - 1) * n + c) \<longrightarrow> out' ! p = out ! p)"
  using assms
proof (induction cs arbitrary: out)
  case Nil
  then show ?case by simp
next
  case (Cons c cs)
  have c: "c < n" using Cons.prems(1) by simp
  have last: "unat (of_nat x * of_nat n - of_nat (n - c) :: u32) = (x - 1) * n + c \<and> (x - 1) * n + c < x * n"
    if "0 < x" "x * n < 2 ^ 32" for x
  proof -
    note pos = that
    obtain y where y: "x = Suc y" using pos(1) by (cases x) auto
    have le: "n - c \<le> x * n" unfolding y by simp
    have "(of_nat x * of_nat n - of_nat (n - c) :: u32) = of_nat (x * n - (n - c))" using le by (simp only: of_nat_diff of_nat_mult)
    also have "x * n - (n - c) = (x - 1) * n + c" using c y by simp
    finally have e: "(of_nat x * of_nat n - of_nat (n - c) :: u32) = of_nat ((x - 1) * n + c)" .
    have l: "(x - 1) * n + c < x * n" using c y by simp
    moreover have "unat (of_nat ((x - 1) * n + c) :: u32) = (x - 1) * n + c"
      using l pos(2) by (intro unat_small) simp
    ultimately show ?thesis using l by (simp only: e)
  qed
  let ?out1 = "out[(k - 1) * n + c := inp ! ((i - 1) * n + c)]"
  note li = last [OF Cons.prems(3,5)] and lk = last [OF Cons.prems(4,6)]
  obtain out' where o: "resample_last n inp (of_nat i) (of_nat k) cs ?out1 = Ret out'" "length out' = length ?out1"
    "\<forall>c \<in> set cs. out' ! ((k - 1) * n + c) = inp ! ((i - 1) * n + c)"
    "\<forall>p. (\<forall>c \<in> set cs. p \<noteq> (k - 1) * n + c) \<longrightarrow> out' ! p = ?out1 ! p"
    using Cons.IH [of ?out1] Cons.prems by auto
  have "resample_last n inp (of_nat i) (of_nat k) (c # cs) out = Ret out'"
    using o(1) li lk Cons.prems(7,8) by simp
  moreover have "out' ! ((k - 1) * n + c) = inp ! ((i - 1) * n + c)"
    using o(4) [rule_format, of "(k - 1) * n + c"] lk Cons.prems(2,8) by auto
  ultimately show ?case using o(2-4) by auto
qed

text \<open>
  The reference: sample \<open>j\<close> of \<open>k\<close> lies between two samples of the
  input, at a distance in 65536ths.
\<close>

definition resampled :: "u16 list \<Rightarrow> nat \<Rightarrow> nat \<Rightarrow> nat \<Rightarrow> nat \<Rightarrow> nat \<Rightarrow> int" where
  "resampled inp n i k j c =
     (if j = k - 1 then sint (inp ! ((i - 1) * n + c))
      else (let x = j * ((i - 2) * 65536 div (k - 2)); a = x div 65536; t = int (x mod 65536) in
        (sint (inp ! (a * n + c)) * (65536 - t) + sint (inp ! ((a + 1) * n + c)) * t) div 65536))"

lemma sample_at_int:
  "sint (sample_at inp n S j c) =
     (sint (inp ! (j * S div 65536 * n + c)) * (65536 - int (j * S mod 65536)) +
      sint (inp ! ((j * S div 65536 + 1) * n + c)) * int (j * S mod 65536)) div 65536"
proof -
  have "unat (of_nat (j * S mod 65536) :: u32) = j * S mod 65536" by (rule unat_small) simp
  then have u: "uint (of_nat (j * S mod 65536) :: u32) = int (j * S mod 65536)" by (metis uint_nat)
  then have "uint (of_nat (j * S mod 65536) :: u32) \<le> 0x10000" by simp
  moreover have "j * S div 65536 * n + n + c = (j * S div 65536 + 1) * n + c" by simp
  ultimately show ?thesis unfolding sample_at_def by (simp only: interpolate_exact u)
qed

lemma sample_at_resampled:
  "j < k - 1 \<Longrightarrow> sint (sample_at inp n ((i - 2) * 65536 div (k - 2)) j c) = resampled inp n i k j c"
  unfolding sample_at_int resampled_def Let_def by simp

lemma position_in:
  assumes "2 \<le> i" and "i \<le> 65537" and "3 \<le> (k :: nat)" and "j < k - 1"
  shows "j * ((i - 2) * 65536 div (k - 2)) div 65536 + 2 \<le> i" and "j * ((i - 2) * 65536 div (k - 2)) < 2 ^ 32"
proof -
  let ?S = "(i - 2) * 65536 div (k - 2)"
  have "j * ?S \<le> (k - 2) * ?S" using assms by (intro mult_le_mono1) simp
  also have "\<dots> \<le> (i - 2) * 65536" by simp
  finally have le: "j * ?S \<le> (i - 2) * 65536" .
  then have "j * ?S div 65536 \<le> (i - 2) * 65536 div 65536" by (rule div_le_mono)
  then show "j * ?S div 65536 + 2 \<le> i" using assms(1) by simp
  have "(i - 2) * 65536 \<le> 65535 * 65536" using assms(2) by simp
  then show "j * ?S < 2 ^ 32" using le by simp
qed

lemma istep_ok:
  assumes "2 \<le> i" and "i \<le> 65537" and "3 \<le> k" and "k < 2 ^ 32"
  shows "resample_istep (of_nat i) (of_nat k) = Ret (of_nat ((i - 2) * 65536 div (k - 2)))"
proof -
  have k: "(of_nat k - 2 :: u32) = of_nat (k - 2)" using assms(3) by simp
  have i: "(of_nat i - 2 :: u32) = of_nat (i - 2)" using assms(1) by simp
  have uk: "unat (of_nat (k - 2) :: u32) = k - 2" using assms(4) by (intro unat_small) simp
  then have nz: "(of_nat (k - 2) :: u32) \<noteq> 0" using assms(3) by (metis unat_0 diff_is_0_eq not_numeral_le_zero le_refl nat_le_linear numeral_le_iff semiring_norm le_trans)
  have p: "(push_bit 16 (of_nat (i - 2)) :: u32) = of_nat ((i - 2) * 65536)"
    by (simp add: push_bit_eq_mult)
  have ui: "unat (of_nat ((i - 2) * 65536) :: u32) = (i - 2) * 65536"
    using assms(2) by (intro unat_small) simp
  have "(of_nat ((i - 2) * 65536) div of_nat (k - 2) :: u32) = of_nat ((i - 2) * 65536 div (k - 2))"
    by (simp only: word_arith_nat_div ui uk)
  then show ?thesis using nz by (simp only: resample_istep_def k i p if_False)
qed

theorem resample_channels_exact:
  assumes "2 \<le> i" and "i \<le> 65537" and "3 \<le> k" and "n * i < 2 ^ 32" and "n * k < 2 ^ 32" and "0 < n"
    and "i * n \<le> length inp" and "k * n \<le> length out"
  shows "\<exists>out'. resample_channels n inp (of_nat i) out (of_nat k) = Ret out' \<and> length out' = length out \<and>
    (\<forall>j < k. \<forall>c < n. sint (out' ! (j * n + c)) = resampled inp n i k j c) \<and> drop (k * n) out' = drop (k * n) out"
proof -
  let ?S = "(i - 2) * 65536 div (k - 2)"
  have k32: "k < 2 ^ 32" using assms(5,6) by (metis mult_le_mono1 nat_mult_1 le_less_trans Suc_leI One_nat_def)
  have u1: "unat (of_nat k - 1 :: u32) = k - 1"
  proof -
    have "(of_nat k - 1 :: u32) = of_nat (k - 1)" using assms(3) by simp
    then show ?thesis using k32 by (simp add: unat_small)
  qed
  have pos: "\<forall>j < 0 + (k - 1). j * ?S div 65536 + 2 \<le> i \<and> j * ?S < 2 ^ 32"
    using position_in [OF assms(1-3)] by simp
  have len: "(0 + (k - 1)) * n \<le> length out"
    using assms(8) by (metis add_0 diff_le_self mult_le_mono1 le_trans)
  obtain o1 where o1: "resample_loop (k - 1) n inp (of_nat ?S) 0 (of_nat (0 * ?S)) out = Ret o1" "length o1 = length out"
    "\<forall>j c. 0 \<le> j \<and> j < 0 + (k - 1) \<and> c < n \<longrightarrow> o1 ! (j * n + c) = sample_at inp n ?S j c"
    "\<forall>p. p < 0 * n \<or> (0 + (k - 1)) * n \<le> p \<longrightarrow> o1 ! p = out ! p"
    using resample_loop_ok [OF pos assms(7) len] by blast
  have pre: "0 < i" "0 < k" "i * n < 2 ^ 32" "k * n < 2 ^ 32" "i * n \<le> length inp"
    using assms by (auto simp: mult.commute)
  obtain o2 where o2: "resample_last n inp (of_nat i) (of_nat k) [0..<n] o1 = Ret o2" "length o2 = length o1"
    "\<forall>c \<in> set [0..<n]. o2 ! ((k - 1) * n + c) = inp ! ((i - 1) * n + c)"
    "\<forall>p. (\<forall>c \<in> set [0..<n]. p \<noteq> (k - 1) * n + c) \<longrightarrow> o2 ! p = o1 ! p"
    using resample_last_ok [of "[0..<n]" n i k inp o1, OF upt_below distinct_upt pre] o1(2) assms(8) by (simp del: set_upt) blast
  have "resample_channels n inp (of_nat i) out (of_nat k) = Ret o2"
    using o1(1) o2(1) by (simp add: resample_channels_def istep_ok [OF assms(1-3) k32] u1)
  moreover have "sint (o2 ! (j * n + c)) = resampled inp n i k j c" if "j < k" "c < n" for j c
  proof (cases "j = k - 1")
    case True
    then show ?thesis using o2(3) that(2) by (simp add: resampled_def)
  next
    case False
    then have j: "j < k - 1" using that(1) by simp
    have "j * n + n \<le> (k - 1) * n" using j by (metis Suc_leI mult_Suc mult_le_mono1 add.commute)
    then have "\<forall>c' \<in> set [0..<n]. j * n + c \<noteq> (k - 1) * n + c'" using that(2) by auto
    then have "o2 ! (j * n + c) = o1 ! (j * n + c)" using o2(4) by blast
    then show ?thesis using o1(3) j that(2) sample_at_resampled [OF j] by simp
  qed
  moreover have "drop (k * n) o2 = drop (k * n) out"
  proof (rule nth_equalityI)
    show "length (drop (k * n) o2) = length (drop (k * n) out)" using o1(2) o2(2) by simp
    fix q assume q: "q < length (drop (k * n) o2)"
    have kn: "k * n = (k - 1) * n + n" using assms(3) by (metis add.commute mult_Suc Suc_diff_1 less_le_trans zero_less_numeral)
    have "o2 ! (k * n + q) = o1 ! (k * n + q)" using o2(4) kn by auto
    also have "\<dots> = out ! (k * n + q)" using o1(4) kn by simp
    finally show "drop (k * n) o2 ! q = drop (k * n) out ! q" using q o1(2) o2(2) by simp
  qed
  ultimately show ?thesis using o1(2) o2(2) by auto
qed

section \<open>Widths and channels\<close>

lemma sint_of_byte: "sint (b :: u8) = uint b \<or> sint b = uint b - 256"
proof -
  have "uint b = take_bit 8 (sint b)" by (simp add: uint_sint)
  then have "uint b = sint b mod 256" by (simp add: take_bit_eq_mod)
  moreover have "- 128 \<le> sint b" "sint b < 128" using sint_greater_eq [of b] sint_less [of b] by simp_all
  ultimately show ?thesis by presburger
qed

text \<open>A byte is read unsigned, as 8-bit samples are, although the code reads it through a signed type.\<close>

lemma to_16bit_value: "sint (to_16bit b) = (uint b - 128) * 256"
proof -
  have "to_16bit b = (scast b - 0x80) * 256" by (simp add: to_16bit_def push_bit_eq_mult)
  also have "\<dots> = (word_of_int (sint b) - word_of_int 0x80) * word_of_int 256"
    by (simp only: of_int_sint of_int_numeral)
  also have "\<dots> = word_of_int ((sint b - 128) * 256)" by (simp only: wi_hom_syms)
  also have "\<dots> = word_of_int ((uint b - 128) * 256)"
  proof (cases "sint b = uint b")
    case False
    then have "(sint b - 128) * 256 = (uint b - 128) * 256 + - 65536" using sint_of_byte [of b] by simp
    moreover have "(word_of_int (x + - 65536) :: u16) = word_of_int x" for x :: int
      by (simp only: of_int_add) simp
    ultimately show ?thesis by (simp only:)
  qed simp
  finally have e: "to_16bit b = word_of_int ((uint b - 128) * 256)" .
  show ?thesis unfolding e using uint_bounded [of b] by (intro sint_of_int16) simp_all
qed

lemma to_8bit_value: "uint (to_8bit w) = sint w div 256 + 128"
proof -
  have s: "sint (signed_drop_bit 8 w) = sint w div 256" by (simp add: sint_signed_drop_bit_eq drop_bit_eq_div)
  have "to_8bit w = ucast (word_of_int (sint (signed_drop_bit 8 w)) + 0x80 :: u16)" by (simp add: to_8bit_def)
  also have "\<dots> = word_of_int (sint w div 256 + 128)" unfolding s by transfer simp
  finally have e: "to_8bit w = word_of_int (sint w div 256 + 128)" .
  show ?thesis unfolding e uint_word_of_int using sint16_range [of w] div_bounds [of 256 "sint w"] by simp
qed

lemma convert_back: "to_8bit (to_16bit b) = b"
  by (rule word_uint_eq_iff [THEN iffD2]) (simp add: to_8bit_value to_16bit_value)

lemma half_sum_value: "sint (half_sum l r) = sint l div 2 + sint r div 2"
proof -
  have s: "sint (signed_drop_bit 1 w) = sint w div 2" for w :: u16 by (simp add: sint_signed_drop_bit_eq drop_bit_eq_div)
  have half: "- 16384 \<le> sint w div 2 \<and> sint w div 2 < 16384" for w :: u16
    using sint16_range [of w] div_bounds [of 2 "sint w"] by linarith
  have "half_sum l r = word_of_int (sint (signed_drop_bit 1 l)) + word_of_int (sint (signed_drop_bit 1 r))" by (simp add: half_sum_def)
  also have "\<dots> = word_of_int (sint l div 2 + sint r div 2)" unfolding s by (simp only: wi_hom_syms)
  finally have e: "half_sum l r = word_of_int (sint l div 2 + sint r div 2)" .
  show ?thesis unfolding e using half [of l] half [of r] by (intro sint_of_int16) simp_all
qed

text \<open>The loops of the conversions write one value after the other.\<close>

lemma write_next: "i < length out \<Longrightarrow> take (i + 1) (out[i := x]) = take i out @ [x]"
  by (simp add: take_Suc_conv_app_nth)

lemma write_rest: "i + 1 \<le> j \<Longrightarrow> drop j (out[i := x]) = drop j out"
  by simp

lemma resample_8to16_ok:
  "i + k \<le> length inp \<Longrightarrow> i + k \<le> length out \<Longrightarrow>
   audio_out_resample_8to16 k i inp out = Ret (take i out @ map to_16bit (take k (drop i inp)) @ drop (i + k) out)"
proof (induction k arbitrary: i out)
  case (Suc k)
  have "audio_out_resample_8to16 k (i + 1) inp (out[i := to_16bit (inp ! i)]) =
      Ret (take (i + 1) (out[i := to_16bit (inp ! i)]) @ map to_16bit (take k (drop (i + 1) inp)) @
           drop (i + 1 + k) (out[i := to_16bit (inp ! i)]))"
    using Suc.prems by (intro Suc.IH) simp_all
  then show ?case using Suc.prems
    by (simp add: write_next [unfolded Suc_eq_plus1 [symmetric]] Cons_nth_drop_Suc [symmetric])
qed simp

lemma resample_16to8_ok:
  "i + k \<le> length inp \<Longrightarrow> i + k \<le> length out \<Longrightarrow>
   audio_out_resample_16to8 k i inp out = Ret (take i out @ map to_8bit (take k (drop i inp)) @ drop (i + k) out)"
proof (induction k arbitrary: i out)
  case (Suc k)
  have "audio_out_resample_16to8 k (i + 1) inp (out[i := to_8bit (inp ! i)]) =
      Ret (take (i + 1) (out[i := to_8bit (inp ! i)]) @ map to_8bit (take k (drop (i + 1) inp)) @
           drop (i + 1 + k) (out[i := to_8bit (inp ! i)]))"
    using Suc.prems by (intro Suc.IH) simp_all
  then show ?case using Suc.prems
    by (simp add: write_next [unfolded Suc_eq_plus1 [symmetric]] Cons_nth_drop_Suc [symmetric])
qed simp

text \<open>Pairs of samples.\<close>

fun doubled :: "u16 list \<Rightarrow> u16 list" where
  "doubled [] = []"
| "doubled (w # ws) = w # w # doubled ws"

fun halved :: "u16 list \<Rightarrow> u16 list" where
  "halved (l # r # ws) = half_sum l r # halved ws"
| "halved _ = []"

lemma length_doubled [simp]: "length (doubled ws) = 2 * length ws"
  by (induction ws) simp_all

lemma length_halved [simp]: "length (halved ws) = length ws div 2"
  by (induction ws rule: halved.induct) simp_all

lemma resample_monotostereo_ok:
  "i + k \<le> length inp \<Longrightarrow> 2 * (i + k) \<le> length out \<Longrightarrow>
   audio_out_resample_monotostereo k i inp out =
     Ret (take (2 * i) out @ doubled (take k (drop i inp)) @ drop (2 * (i + k)) out)"
proof (induction k arbitrary: i out)
  case (Suc k)
  let ?o = "out[2 * i := inp ! i, 2 * i + 1 := inp ! i]"
  have "audio_out_resample_monotostereo k (i + 1) inp ?o =
      Ret (take (2 * (i + 1)) ?o @ doubled (take k (drop (i + 1) inp)) @ drop (2 * (i + 1 + k)) ?o)"
    using Suc.prems by (intro Suc.IH) simp_all
  moreover have "take (2 * (i + 1)) ?o = take (2 * i) out @ [inp ! i, inp ! i]"
    using Suc.prems by (simp add: take_Suc_conv_app_nth)
  ultimately show ?case using Suc.prems by (simp add: Cons_nth_drop_Suc [symmetric])
qed simp

lemma resample_stereotomono_ok:
  "2 * (i + k) \<le> length inp \<Longrightarrow> i + k \<le> length out \<Longrightarrow>
   audio_out_resample_stereotomono k i inp out =
     Ret (take i out @ halved (take (2 * k) (drop (2 * i) inp)) @ drop (i + k) out)"
proof (induction k arbitrary: i out)
  case (Suc k)
  let ?o = "out[i := half_sum (inp ! (2 * i)) (inp ! (2 * i + 1))]"
  have "audio_out_resample_stereotomono k (i + 1) inp ?o =
      Ret (take (i + 1) ?o @ halved (take (2 * k) (drop (2 * (i + 1)) inp)) @ drop (i + 1 + k) ?o)"
    using Suc.prems by (intro Suc.IH) simp_all
  moreover have "take (2 * Suc k) (drop (2 * i) inp) =
      inp ! (2 * i) # inp ! (2 * i + 1) # take (2 * k) (drop (2 * (i + 1)) inp)"
    using Suc.prems(1) by (simp add: Cons_nth_drop_Suc [symmetric])
  ultimately show ?case using Suc.prems
    by (simp add: write_next [unfolded Suc_eq_plus1 [symmetric]])
qed simp

end
