(* ===== verification/Audio_Bufs.thy ===== *)
theory Audio_Bufs
  imports Complex_Main Resample Metronom Buf_Fifo
begin

unbundle bit_operations_syntax

text \<open>
  The data of the audio output, src/src/xine-engine/audio_out.c and audio_out.h: buffers of
  samples in a store, linked through \<open>next\<close> in a fifo of free and one of waiting
  buffers; what a buffer holds as bytes and as 16-bit samples. The driver is a parameter, its
  calls are a list.
\<close>

section \<open>Data\<close>

record ao_format =
  af_bits :: u32
  af_rate :: u32
  af_mode :: u32

text \<open>\<open>mem\<close> is the bytes its pointer points to.\<close>

record audio_buffer =
  ab_next :: "nat option"
  ab_mem :: "u8 list"
  ab_mem_size :: int
  ab_num_frames :: int
  ab_vpts :: int
  ab_extra_info :: extra_info
  ab_stream :: "nat option"
  ab_format :: ao_format

record audio_fifo =
  aq_first :: "nat option"
  aq_last :: "nat option"
  aq_num :: int

text \<open>What audio_out.c uses of a stream.\<close>

record ao_stream =
  sa_metronom :: metronom
  sa_decoder_info :: extra_info
  sa_current_info :: extra_info
  sa_has_video :: bool
  sa_bits :: u32
  sa_rate :: u32
  sa_mode :: u32
  sa_channels :: int
  sa_demux_ok :: bool

text \<open>Calls to the driver and to the configuration.\<close>

datatype ao_call =
    A_open u32 u32 u32 | A_close | A_write "u8 list" int | A_silence int | A_burst | A_control int | A_exit
  | A_set_property int int | A_volume int

text \<open>The driver's answers, which may depend on the calls so far.\<close>

record ao_driver =
  ad_capabilities :: u32
  ad_open :: "ao_call list \<Rightarrow> u32 \<Rightarrow> u32 \<Rightarrow> u32 \<Rightarrow> u32"
  ad_delay :: "ao_call list \<Rightarrow> int"
  ad_write :: "ao_call list \<Rightarrow> u8 list \<Rightarrow> int \<Rightarrow> int"
  ad_gap_tolerance :: int
  ad_get_property :: "ao_call list \<Rightarrow> int \<Rightarrow> int"
  ad_set_property :: "ao_call list \<Rightarrow> int \<Rightarrow> int \<Rightarrow> int"
  ad_control :: "ao_call list \<Rightarrow> int \<Rightarrow> int"

text \<open>
  \<open>resample_sync_t\<close>. The \<open>double\<close> values of this file are exact
  rationals; a quotient by zero, which is no number in the code, is 0.
\<close>

record resample_sync =
  rs_last_factor :: rat
  rs_window :: int
  rs_reduce_gap :: bool
  rs_window_duration :: int
  rs_last_vpts :: int
  rs_recent_gap :: "int list"
  rs_last_avg_gap :: int
  rs_valid :: bool

text \<open>The coefficient history of a band and a channel.\<close>

record xy_data =
  xy_x :: "int list"
  xy_y :: "int list"

record aos =
  as_buf :: "nat \<rightharpoonup> audio_buffer"
  as_free :: audio_fifo
  as_out :: audio_fifo
  as_stream :: "nat \<rightharpoonup> ao_stream"
  as_streams :: "nat xlist"
  as_driver_open :: bool
  as_loop_running :: bool
  as_grab_only :: bool
  as_paused :: int
  as_audio_step :: int
  as_frames_per_kpts :: int
  as_input :: ao_format
  as_output :: ao_format
  as_rate_factor :: rat
  as_excess :: rat
  as_sync_info :: resample_sync
  as_sync_method :: bool
  as_sync_factor :: rat
  as_resample_conf :: int
  as_force_rate :: u32
  as_do_resample :: bool
  as_gap_tolerance :: int
  as_last_vpts :: int
  as_frame_buf :: "nat \<times> nat"
  as_passthrough_offset :: int
  as_flush :: int
  as_discard :: int
  as_do_compress :: bool
  as_compression :: rat
  as_compression_max :: rat
  as_do_amp :: bool
  as_amp :: rat
  as_do_equ :: bool
  as_eq_gain :: "int list"
  as_eq_i :: nat
  as_eq_j :: nat
  as_eq_k :: nat
  as_eq_history :: "xy_data list list"
  as_calls :: "ao_call list"

definition NUM_AUDIO_BUFFERS :: nat where
  "NUM_AUDIO_BUFFERS = 32"

definition AUDIO_BUF_SIZE :: nat where
  "AUDIO_BUF_SIZE = 32768"

definition ZERO_BUF_SIZE :: int where
  "ZERO_BUF_SIZE = 5000"

definition AO_MAX_GAP :: int where
  "AO_MAX_GAP = 15000"

definition AO_CAP_MODE_A52 :: u32 where
  "AO_CAP_MODE_A52 = 0x1"

definition AO_CAP_MODE_AC5 :: u32 where
  "AO_CAP_MODE_AC5 = 0x2"

definition AO_CAP_MODE_MONO :: u32 where
  "AO_CAP_MODE_MONO = 0x4"

definition AO_CAP_MODE_STEREO :: u32 where
  "AO_CAP_MODE_STEREO = 0x8"

definition AO_CAP_MODE_4CHANNEL :: u32 where
  "AO_CAP_MODE_4CHANNEL = 0x10"

definition AO_CAP_MODE_4_1CHANNEL :: u32 where
  "AO_CAP_MODE_4_1CHANNEL = 0x20"

definition AO_CAP_MODE_5CHANNEL :: u32 where
  "AO_CAP_MODE_5CHANNEL = 0x40"

definition AO_CAP_MODE_5_1CHANNEL :: u32 where
  "AO_CAP_MODE_5_1CHANNEL = 0x80"

definition AO_CAP_MIXER_VOL :: u32 where
  "AO_CAP_MIXER_VOL = 0x100"

definition AO_CAP_PCM_VOL :: u32 where
  "AO_CAP_PCM_VOL = 0x200"

definition AO_CAP_8BITS :: u32 where
  "AO_CAP_8BITS = 0x800"

section \<open>Access\<close>

definition buf_at :: "nat \<Rightarrow> aos \<Rightarrow> audio_buffer outcome" where
  "buf_at b s = of_opt (as_buf s b)"

definition put_buf :: "nat \<Rightarrow> audio_buffer \<Rightarrow> aos \<Rightarrow> aos" where
  "put_buf b B s = s\<lparr>as_buf := (as_buf s)(b \<mapsto> B)\<rparr>"

definition ao_stream_at :: "nat \<Rightarrow> aos \<Rightarrow> ao_stream outcome" where
  "ao_stream_at st s = of_opt (as_stream s st)"

definition put_ao_stream :: "nat \<Rightarrow> ao_stream \<Rightarrow> aos \<Rightarrow> aos" where
  "put_ao_stream st S s = s\<lparr>as_stream := (as_stream s)(st \<mapsto> S)\<rparr>"

definition ao_call :: "ao_call \<Rightarrow> aos \<Rightarrow> aos" where
  "ao_call c s = s\<lparr>as_calls := as_calls s @ [c]\<rparr>"

section \<open>Fifos\<close>

definition audio_fifo_new :: audio_fifo where
  "audio_fifo_new = \<lparr>aq_first = None, aq_last = None, aq_num = 0\<rparr>"

text \<open>The first statement of \<open>fifo_append_int\<close> is an assertion.\<close>

type_synonym on_fifo = "(nat \<rightharpoonup> audio_buffer) \<times> audio_fifo"

definition fifo_append_int :: "nat \<Rightarrow> on_fifo \<Rightarrow> on_fifo outcome" where
  "fifo_append_int buf x =
     (let (bs, q) = x in
      obind (of_opt (bs buf)) (\<lambda>B.
      if ab_next B \<noteq> None then Fault
      else if aq_first q = None then Ret (bs, q\<lparr>aq_first := Some buf, aq_last := Some buf, aq_num := 1\<rparr>)
      else
        obind (of_opt (aq_last q)) (\<lambda>l.
        obind (of_opt (bs l)) (\<lambda>L.
        Ret (bs(l \<mapsto> L\<lparr>ab_next := Some buf\<rparr>), q\<lparr>aq_last := Some buf, aq_num := aq_num q + 1\<rparr>)))))"

definition fifo_remove_int :: "on_fifo \<Rightarrow> (nat \<times> on_fifo) outcome" where
  "fifo_remove_int x =
     (let (bs, q) = x in
      case aq_first q of
        None \<Rightarrow> Wait
      | Some buf \<Rightarrow>
          obind (of_opt (bs buf)) (\<lambda>B.
          (let q1 = q\<lparr>aq_first := ab_next B\<rparr>;
               q2 = (if ab_next B = None then q1\<lparr>aq_last := None, aq_num := 0\<rparr> else q1\<lparr>aq_num := aq_num q - 1\<rparr>) in
           Ret (buf, bs(buf \<mapsto> B\<lparr>ab_next := None\<rparr>), q2))))"

definition fifo_append_free :: "nat \<Rightarrow> aos \<Rightarrow> aos outcome" where
  "fifo_append_free buf s =
     obind (fifo_append_int buf (as_buf s, as_free s)) (\<lambda>(bs, q). Ret (s\<lparr>as_buf := bs, as_free := q\<rparr>))"

definition fifo_append_out :: "nat \<Rightarrow> aos \<Rightarrow> aos outcome" where
  "fifo_append_out buf s =
     obind (fifo_append_int buf (as_buf s, as_out s)) (\<lambda>(bs, q). Ret (s\<lparr>as_buf := bs, as_out := q\<rparr>))"

definition fifo_remove_free :: "aos \<Rightarrow> (nat \<times> aos) outcome" where
  "fifo_remove_free s =
     obind (fifo_remove_int (as_buf s, as_free s)) (\<lambda>(buf, bs, q). Ret (buf, s\<lparr>as_buf := bs, as_free := q\<rparr>))"

definition fifo_remove_out :: "aos \<Rightarrow> (nat \<times> aos) outcome" where
  "fifo_remove_out s =
     obind (fifo_remove_int (as_buf s, as_out s)) (\<lambda>(buf, bs, q). Ret (buf, s\<lparr>as_buf := bs, as_out := q\<rparr>))"

text \<open>
  Waiting until the reader has found the fifo empty: \<open>reading\<close> says that it is in
  \<open>fifo_remove\<close>, where it signals that and waits.
\<close>

definition fifo_wait_empty :: "bool \<Rightarrow> audio_fifo \<Rightarrow> unit outcome" where
  "fifo_wait_empty reading q = (if reading \<and> aq_first q = None then Ret () else Wait)"

section \<open>Bytes and samples\<close>

text \<open>Memory read and written through an \<open>int16_t\<close> pointer; the low byte comes first.\<close>

fun words_of :: "u8 list \<Rightarrow> u16 list" where
  "words_of (lo # hi # bs) = word_cat hi lo # words_of bs"
| "words_of _ = []"

fun bytes_of :: "u16 list \<Rightarrow> u8 list" where
  "bytes_of [] = []"
| "bytes_of (w # ws) = ucast w # ucast (drop_bit 8 w) # bytes_of ws"

definition set_words :: "u16 list \<Rightarrow> u8 list \<Rightarrow> u8 list" where
  "set_words ws mem = bytes_of ws @ drop (2 * length ws) mem"

lemma length_words_of [simp]: "length (words_of bs) = length bs div 2"
  by (induction bs rule: words_of.induct) simp_all

lemma length_bytes_of [simp]: "length (bytes_of ws) = 2 * length ws"
  by (induction ws) simp_all

lemma cat_split_16: "(word_cat (ucast (drop_bit 8 (w :: u16)) :: u8) (ucast w :: u8) :: u16) = w"
  by (rule word_cat_split_alt) (simp_all add: word_split_bin' word_size)

lemma words_of_bytes: "words_of (bytes_of ws @ bs) = ws @ words_of bs"
  by (induction ws) (simp_all add: cat_split_16)

lemma length_set_words: "length ws = length mem div 2 \<Longrightarrow> length (set_words ws mem) = length mem"
  by (simp add: set_words_def)

lemma words_of_set: "length ws = length mem div 2 \<Longrightarrow> words_of (set_words ws mem) = ws"
proof -
  assume a: "length ws = length mem div 2"
  have "length (drop (2 * length ws) mem) < 2" using a by simp
  then have "words_of (drop (2 * length ws) mem) = []"
    by (cases "drop (2 * length ws) mem" rule: words_of.cases) auto
  then show ?thesis by (simp add: set_words_def words_of_bytes)
qed

end
