(* ===== verification/Audio_Filter.thy ===== *)
theory Audio_Filter
  imports Audio_Bufs
begin

text \<open>
  What happens to the samples of a buffer before the driver gets them, audio_out.c: the equalizer,
  the compressor and the amplifier, and the conversion to the rate, the width and the channels of
  the output. A \<open>double\<close> is exact; one that does not fit the integer it is assigned
  to is cut to its low bits.
\<close>

definition rtrunc :: "rat \<Rightarrow> int" where
  "rtrunc x = (if x < 0 then - \<lfloor>- x\<rfloor> else \<lfloor>x\<rfloor>)"

definition mode_channels :: "u32 \<Rightarrow> nat" where
  "mode_channels mode =
     (if mode = AO_CAP_MODE_MONO then 1
      else if mode = AO_CAP_MODE_STEREO then 2
      else if mode = AO_CAP_MODE_4CHANNEL then 4
      else if mode = AO_CAP_MODE_4_1CHANNEL \<or> mode = AO_CAP_MODE_5CHANNEL \<or> mode = AO_CAP_MODE_5_1CHANNEL then 6
      else 0)"

section \<open>Compressor and amplifier\<close>

text \<open>The loudest sample; \<open>abs\<close> of a sample is assigned to an \<open>int16_t\<close>.\<close>

fun loudest :: "nat \<Rightarrow> nat \<Rightarrow> u16 list \<Rightarrow> int \<Rightarrow> int outcome" where
  "loudest 0 i mem maxs = Ret maxs"
| "loudest (Suc k) i mem maxs =
     obind (aget mem i) (\<lambda>w.
     (let sample = sint (word_of_int \<bar>sint w\<bar> :: u16) in
      loudest k (i + 1) mem (if sample > maxs then sample else maxs)))"

definition scaled :: "rat \<Rightarrow> u16 \<Rightarrow> u16" where
  "scaled f w = word_of_int (rtrunc (of_int (sint w) * f))"

fun scale_samples :: "nat \<Rightarrow> nat \<Rightarrow> rat \<Rightarrow> u16 list \<Rightarrow> u16 list outcome" where
  "scale_samples 0 i f mem = Ret mem"
| "scale_samples (Suc k) i f mem =
     obind (aget mem i) (\<lambda>w. obind (aset mem i (scaled f w)) (\<lambda>mem1. scale_samples k (i + 1) f mem1))"

definition next_compression :: "int \<Rightarrow> rat \<Rightarrow> rat \<Rightarrow> rat" where
  "next_compression maxs limit factor =
     (if maxs > 0 then
        (let f_max = 32767 / of_int maxs;
             f1 = factor * (999 / 1000) + f_max * (1 / 1000);
             f2 = (if f1 > f_max then f_max else f1) in
         if f2 > limit then limit else f2)
      else factor)"

definition audio_filter_compress :: "int \<Rightarrow> u16 list \<Rightarrow> aos \<Rightarrow> (u16 list \<times> aos) outcome" where
  "audio_filter_compress num_frames mem s =
     (let num_channels = mode_channels (af_mode (as_input s));
          n = nat (num_frames * int num_channels) in
      if num_channels = 0 then Ret (mem, s)
      else
        obind (loudest n 0 mem 0) (\<lambda>maxs.
        (let s1 = s\<lparr>as_compression := next_compression maxs (as_compression_max s) (as_compression s)\<rparr> in
         obind (scale_samples n 0 (98 / 100 * as_compression s1 * as_amp s1) mem) (\<lambda>mem1. Ret (mem1, s1)))))"

definition audio_filter_amp :: "int \<Rightarrow> u16 list \<Rightarrow> aos \<Rightarrow> u16 list outcome" where
  "audio_filter_amp num_frames mem s =
     (let num_channels = mode_channels (af_mode (as_input s)) in
      if num_channels = 0 then Ret mem
      else scale_samples (nat (num_frames * int num_channels)) 0 (as_amp s) mem)"

section \<open>Equalizer\<close>

definition EQ_BANDS :: nat where
  "EQ_BANDS = 10"

definition EQ_CHANNELS :: nat where
  "EQ_CHANNELS = 8"

definition FP_FRBITS :: nat where
  "FP_FRBITS = 28"

text \<open>
  \<open>EQ_REAL (x) = ((int)((x) * (1 << FP_FRBITS)))\<close>, here of a number in units of
  1/10^13.
\<close>

definition EQ_REAL :: "int \<Rightarrow> int" where
  "EQ_REAL x = x * 2 ^ FP_FRBITS sdiv 10 ^ 13"

text \<open>\<open>beta\<close>, \<open>alpha\<close> and \<open>gamma\<close> of the bands.\<close>

definition iir_cf :: "(int \<times> int \<times> int) list" where
  "iir_cf =
   [(EQ_REAL 9969156244100, EQ_REAL 15421877947, EQ_REAL 19968961468000),
    (EQ_REAL 9938407754600, EQ_REAL 30796122698, EQ_REAL 19937629855000),
    (EQ_REAL 9877427772500, EQ_REAL 61286113769, EQ_REAL 19874275518000),
    (EQ_REAL 9752211256900, EQ_REAL 123894371560, EQ_REAL 19739682661000),
    (EQ_REAL 9510562852600, EQ_REAL 244718573680, EQ_REAL 19461077269000),
    (EQ_REAL 9045084449900, EQ_REAL 477457775040, EQ_REAL 18852109613000),
    (EQ_REAL 8177897170100, EQ_REAL 911051414970, EQ_REAL 17444877599000),
    (EQ_REAL 6685718526400, EQ_REAL 1657140736800, EQ_REAL 14048592171000),
    (EQ_REAL 4486133367800, EQ_REAL 2756933316100, EQ_REAL 6051871807500),
    (EQ_REAL 2420124184500, EQ_REAL 3789937907700, EQ_REAL (- 8084711783100))]"

text \<open>One band of one channel: the history moves on, the output is what the band adds.\<close>

definition equalize_band :: "nat \<Rightarrow> nat \<Rightarrow> int \<Rightarrow> int \<Rightarrow> aos \<Rightarrow> (int \<times> aos) outcome" where
  "equalize_band band channel pcm out s =
     obind (aget iir_cf band) (\<lambda>(beta, alpha, gamma).
     obind (aget (as_eq_history s) band) (\<lambda>row.
     obind (aget row channel) (\<lambda>h.
     obind (aset (xy_x h) (as_eq_i s) pcm) (\<lambda>x.
     obind (aget x (as_eq_i s)) (\<lambda>xi.
     obind (aget x (as_eq_k s)) (\<lambda>xk.
     obind (aget (xy_y h) (as_eq_j s)) (\<lambda>yj.
     obind (aget (xy_y h) (as_eq_k s)) (\<lambda>yk.
     (let l = alpha * s32 (xi - xk) + gamma * yj - beta * yk;
          yi = s32 (l div 2 ^ FP_FRBITS) in
      obind (aset (xy_y h) (as_eq_i s) yi) (\<lambda>y.
      obind (aget (as_eq_gain s) band) (\<lambda>gain.
      Ret (s32 (out + s32 (yi * gain div 2 ^ FP_FRBITS)),
           s\<lparr>as_eq_history := (as_eq_history s)[band := row[channel := \<lparr>xy_x = x, xy_y = y\<rparr>]]\<rparr>))))))))))))"

fun equalize_bands :: "nat list \<Rightarrow> nat \<Rightarrow> int \<Rightarrow> int \<Rightarrow> aos \<Rightarrow> (int \<times> aos) outcome" where
  "equalize_bands [] channel pcm out s = Ret (out, s)"
| "equalize_bands (band # bands) channel pcm out s =
     obind (equalize_band band channel pcm out s) (\<lambda>(out1, s1). equalize_bands bands channel pcm out1 s1)"

definition limit_output :: "int \<Rightarrow> u16" where
  "limit_output out = (if out < - 32768 then word_of_int (- 32768) else if out > 32767 then word_of_int 32767 else word_of_int out)"

fun equalize_channels :: "nat list \<Rightarrow> nat \<Rightarrow> u16 list \<Rightarrow> aos \<Rightarrow> (u16 list \<times> aos) outcome" where
  "equalize_channels [] index mem s = Ret (mem, s)"
| "equalize_channels (channel # cs) index mem s =
     obind (aget mem (index + channel)) (\<lambda>w.
     (let pcm = s32 (sint w * 2 ^ (FP_FRBITS - 16 - 1)) in
      obind (equalize_bands [0..<EQ_BANDS] channel pcm 0 s) (\<lambda>(out, s1).
      (let out1 = s32 (out + pcm div 2 ^ 2) div 2 ^ (FP_FRBITS - 16) in
       obind (aset mem (index + channel) (limit_output out1)) (\<lambda>mem1.
       equalize_channels cs index mem1 s1)))))"

definition eq_rotate :: "aos \<Rightarrow> aos" where
  "eq_rotate s =
     (let s1 = s\<lparr>as_eq_i := as_eq_i s + 1, as_eq_j := as_eq_j s + 1, as_eq_k := as_eq_k s + 1\<rparr> in
      if as_eq_i s1 = 3 then s1\<lparr>as_eq_i := 0\<rparr>
      else if as_eq_j s1 = 3 then s1\<lparr>as_eq_j := 0\<rparr>
      else s1\<lparr>as_eq_k := 0\<rparr>)"

text \<open>
  \<open>for (index = 0; index < halflength; index += 2)\<close>; the first argument counts the
  turns.
\<close>

fun equalize_loop :: "nat \<Rightarrow> nat \<Rightarrow> nat \<Rightarrow> u16 list \<Rightarrow> aos \<Rightarrow> (u16 list \<times> aos) outcome" where
  "equalize_loop 0 index num_channels mem s = Ret (mem, s)"
| "equalize_loop (Suc k) index num_channels mem s =
     obind (equalize_channels [0..<num_channels] index mem s) (\<lambda>(mem1, s1).
     equalize_loop k (index + 2) num_channels mem1 (eq_rotate s1))"

definition audio_filter_equalize :: "int \<Rightarrow> u16 list \<Rightarrow> aos \<Rightarrow> (u16 list \<times> aos) outcome" where
  "audio_filter_equalize num_frames data s =
     (let num_channels = mode_channels (af_mode (as_input s)) in
      if num_channels = 0 then Ret (data, s)
      else equalize_loop (nat num_frames) 0 num_channels data s)"

section \<open>Buffers for conversions\<close>

text \<open>What \<open>realloc\<close> adds is zero here; the conversions write it before it is read.\<close>

definition ensure_buffer_size :: "nat \<Rightarrow> int \<Rightarrow> int \<Rightarrow> aos \<Rightarrow> aos outcome" where
  "ensure_buffer_size buf bytes_per_frame frames s =
     obind (buf_at buf s) (\<lambda>B.
     (let sz = s32 (bytes_per_frame * frames);
          B1 = (if ab_mem_size B < sz
                then B\<lparr>ab_mem := ab_mem B @ replicate (nat sz - length (ab_mem B)) 0, ab_mem_size := sz\<rparr> else B) in
      Ret (put_buf buf (B1\<lparr>ab_num_frames := frames\<rparr>) s)))"

definition swap_frame_buffers :: "aos \<Rightarrow> nat \<times> aos" where
  "swap_frame_buffers s = (snd (as_frame_buf s), s\<lparr>as_frame_buf := (snd (as_frame_buf s), fst (as_frame_buf s))\<rparr>)"

text \<open>
  A conversion into \<open>frame_buf[1]\<close>, of which it needs \<open>bytes_per_frame\<close>
  for each of \<open>frames\<close>: \<open>conv\<close> makes of the bytes of the buffer and
  those of the target the new ones.
\<close>

definition convert_into ::
  "int \<Rightarrow> int \<Rightarrow> (u8 list \<Rightarrow> u8 list \<Rightarrow> u8 list outcome) \<Rightarrow> nat \<Rightarrow> aos \<Rightarrow> (nat \<times> aos) outcome" where
  "convert_into bytes_per_frame frames conv buf s =
     obind (ensure_buffer_size (snd (as_frame_buf s)) bytes_per_frame frames s) (\<lambda>s1.
     (let target = snd (as_frame_buf s1) in
      obind (buf_at buf s1) (\<lambda>B.
      obind (buf_at target s1) (\<lambda>T.
      obind (conv (ab_mem B) (ab_mem T)) (\<lambda>mem.
      Ret (swap_frame_buffers (put_buf target (T\<lparr>ab_mem := mem\<rparr>) s1)))))))"

definition words_to_words :: "(u16 list \<Rightarrow> u16 list \<Rightarrow> u16 list outcome) \<Rightarrow> u8 list \<Rightarrow> u8 list \<Rightarrow> u8 list outcome" where
  "words_to_words conv src dst = obind (conv (words_of src) (words_of dst)) (\<lambda>ws. Ret (set_words ws dst))"

definition bytes_to_words :: "(u8 list \<Rightarrow> u16 list \<Rightarrow> u16 list outcome) \<Rightarrow> u8 list \<Rightarrow> u8 list \<Rightarrow> u8 list outcome" where
  "bytes_to_words conv src dst = obind (conv src (words_of dst)) (\<lambda>ws. Ret (set_words ws dst))"

definition words_to_bytes :: "(u16 list \<Rightarrow> u8 list \<Rightarrow> u8 list outcome) \<Rightarrow> u8 list \<Rightarrow> u8 list \<Rightarrow> u8 list outcome" where
  "words_to_bytes conv src dst = conv (words_of src) dst"

section \<open>All of it\<close>

text \<open>A filter on the samples of a buffer.\<close>

definition filter_mem :: "bool \<Rightarrow> (int \<Rightarrow> u16 list \<Rightarrow> aos \<Rightarrow> (u16 list \<times> aos) outcome) \<Rightarrow> nat \<Rightarrow> aos \<Rightarrow> aos outcome" where
  "filter_mem on f buf s =
     (if on then
        obind (buf_at buf s) (\<lambda>B.
        obind (f (ab_num_frames B) (words_of (ab_mem B)) s) (\<lambda>(ws, s1).
        Ret (put_buf buf (B\<lparr>ab_mem := set_words ws (ab_mem B)\<rparr>) s1)))
      else Ret s)"

definition filter_samples :: "nat \<Rightarrow> aos \<Rightarrow> aos outcome" where
  "filter_samples buf s =
     (if af_bits (as_input s) = 16 then
        obind (filter_mem (as_do_equ s) audio_filter_equalize buf s) (\<lambda>s1.
        obind (filter_mem (as_do_compress s1) audio_filter_compress buf s1) (\<lambda>s2.
        filter_mem (as_do_amp s2) (\<lambda>n mem s. obind (audio_filter_amp n mem s) (\<lambda>mem1. Ret (mem1, s))) buf s2))
      else Ret s)"

definition output_frames :: "nat \<Rightarrow> aos \<Rightarrow> (int \<times> aos) outcome" where
  "output_frames buf s =
     obind (buf_at buf s) (\<lambda>B.
     (let acc = of_int (ab_num_frames B) * as_rate_factor s * as_sync_factor s + as_excess s;
          n = rtrunc acc;
          excess = acc - of_int n in
      Ret (n, s\<lparr>as_excess := (if excess \<noteq> 0 \<and> \<not> as_do_resample s \<and> \<not> as_sync_method s then 0 else excess)\<rparr>)))"

definition resampling :: "aos \<Rightarrow> bool" where
  "resampling s \<longleftrightarrow> as_sync_method s \<or> as_do_resample s"

definition convert_to_16 :: "nat \<Rightarrow> aos \<Rightarrow> (nat \<times> aos) outcome" where
  "convert_to_16 buf s =
     (if af_bits (as_input s) = 8 \<and>
         (resampling s \<or> af_bits (as_output s) \<noteq> 8 \<or> af_mode (as_input s) \<noteq> af_mode (as_output s)) then
        obind (buf_at buf s) (\<lambda>B.
        (let ch = mode_channels (af_mode (as_input s)) in
         convert_into (2 * int ch) (ab_num_frames B)
           (bytes_to_words (audio_out_resample_8to16 (nat (int ch * ab_num_frames B)) 0)) buf s))
      else Ret (buf, s))"

definition resample_frames :: "int \<Rightarrow> nat \<Rightarrow> aos \<Rightarrow> (nat \<times> aos) outcome" where
  "resample_frames num_output_frames buf s =
     obind (buf_at buf s) (\<lambda>B.
     (let mode = af_mode (as_input s);
          conv = (\<lambda>r. words_to_words (\<lambda>src dst. r src (word_of_int (ab_num_frames B)) dst (word_of_int num_output_frames))) in
      if resampling s \<and> ab_num_frames B \<noteq> num_output_frames then
        if mode = AO_CAP_MODE_MONO then convert_into 2 num_output_frames (conv audio_out_resample_mono) buf s
        else if mode = AO_CAP_MODE_STEREO then convert_into 4 num_output_frames (conv audio_out_resample_stereo) buf s
        else if mode = AO_CAP_MODE_4CHANNEL then convert_into 8 num_output_frames (conv audio_out_resample_4channel) buf s
        else if mode = AO_CAP_MODE_4_1CHANNEL \<or> mode = AO_CAP_MODE_5CHANNEL \<or> mode = AO_CAP_MODE_5_1CHANNEL then
          convert_into 12 num_output_frames (conv audio_out_resample_6channel) buf s
        else Ret (buf, s)
      else Ret (buf, s)))"

definition convert_mode :: "nat \<Rightarrow> aos \<Rightarrow> (nat \<times> aos) outcome" where
  "convert_mode buf s =
     obind (buf_at buf s) (\<lambda>B.
     (let n = nat (ab_num_frames B) in
      if af_mode (as_input s) = AO_CAP_MODE_MONO \<and> af_mode (as_output s) = AO_CAP_MODE_STEREO then
        convert_into 4 (ab_num_frames B) (words_to_words (audio_out_resample_monotostereo n 0)) buf s
      else if af_mode (as_input s) = AO_CAP_MODE_STEREO \<and> af_mode (as_output s) = AO_CAP_MODE_MONO then
        convert_into 2 (ab_num_frames B) (words_to_words (audio_out_resample_stereotomono n 0)) buf s
      else Ret (buf, s)))"

definition convert_to_8 :: "nat \<Rightarrow> aos \<Rightarrow> (nat \<times> aos) outcome" where
  "convert_to_8 buf s =
     (if af_bits (as_output s) = 8 \<and> (resampling s \<or> af_mode (as_input s) \<noteq> af_mode (as_output s)) then
        obind (buf_at buf s) (\<lambda>B.
        (let ch = mode_channels (af_mode (as_output s)) in
         convert_into (int ch) (ab_num_frames B)
           (words_to_bytes (audio_out_resample_16to8 (nat (int ch * ab_num_frames B)) 0)) buf s))
      else Ret (buf, s))"

definition prepare_samples :: "nat \<Rightarrow> aos \<Rightarrow> (nat \<times> aos) outcome" where
  "prepare_samples buf s =
     obind (filter_samples buf s) (\<lambda>s1.
     obind (output_frames buf s1) (\<lambda>(n, s2).
     obind (convert_to_16 buf s2) (\<lambda>(b1, s3).
     obind (resample_frames n b1 s3) (\<lambda>(b2, s4).
     obind (convert_mode b2 s4) (\<lambda>(b3, s5).
     convert_to_8 b3 s5)))))"

end
