(* ===== verification/Audio_Out.thy ===== *)
theory Audio_Out
  imports Audio_Filter
begin

text \<open>
  The audio output, src/src/xine-engine/audio_out.c: the output loop and what decoders and
  frontends call. A turn of the loop is the sequence of its parts between two locks; a function
  that blocks in its middle is in two parts. A reading of the clock is an argument.
  \<open>k\<close> is the fuel of the loops over the streams and the buffers and of the wait for
  the driver.
\<close>

section \<open>Silence\<close>

text \<open>The driver's functions are called only while it is open.\<close>

definition when_open :: "ao_call \<Rightarrow> aos \<Rightarrow> aos" where
  "when_open c s = (if as_driver_open s then ao_call c s else s)"

function write_pause_burst :: "int \<Rightarrow> aos \<Rightarrow> aos" where
  "write_pause_burst num_frames s =
     (if num_frames > 1536 then write_pause_burst (num_frames - 1536) (when_open A_burst s) else s)"
  by pat_completeness auto
termination by (relation "measure (\<lambda>(n, _). nat n)") auto

declare write_pause_burst.simps [simp del]

function fill_silence :: "int \<Rightarrow> aos \<Rightarrow> aos" where
  "fill_silence num_frames s =
     (if num_frames > 0 \<and> as_discard s = 0 then
        if num_frames > ZERO_BUF_SIZE then fill_silence (num_frames - ZERO_BUF_SIZE) (when_open (A_silence ZERO_BUF_SIZE) s)
        else fill_silence 0 (when_open (A_silence num_frames) s)
      else s)"
  by pat_completeness auto
termination by (relation "measure (\<lambda>(n, _). nat n)") (auto simp: ZERO_BUF_SIZE_def)

declare fill_silence.simps [simp del]

text \<open>
  \<open>num_frames\<close> is an \<open>int\<close>; \<open>write_pause_burst\<close> takes it
  unsigned.
\<close>

definition pass_through :: "aos \<Rightarrow> bool" where
  "pass_through s \<longleftrightarrow> af_mode (as_output s) = AO_CAP_MODE_A52 \<or> af_mode (as_output s) = AO_CAP_MODE_AC5"

definition gap_frames :: "int \<Rightarrow> aos \<Rightarrow> int" where
  "gap_frames pts_len s = s32 (s64 (pts_len * as_frames_per_kpts s) sdiv 1024)"

definition ao_fill_gap :: "int \<Rightarrow> aos \<Rightarrow> aos" where
  "ao_fill_gap pts_len s =
     (let num_frames = gap_frames pts_len s in
      if pass_through s then write_pause_burst (num_frames mod 2 ^ 32) s else fill_silence num_frames s)"

section \<open>The rate that keeps step with the clock\<close>

definition RESAMPLE_SYNC_WINDOW :: int where
  "RESAMPLE_SYNC_WINDOW = 50"

definition RESAMPLE_MAX_GAP_DIFF :: int where
  "RESAMPLE_MAX_GAP_DIFF = 150"

definition RESAMPLE_REDUCE_GAP_THRESHOLD :: int where
  "RESAMPLE_REDUCE_GAP_THRESHOLD = 200"

text \<open>\<open>abs\<close> of a 64-bit value: it takes an \<open>int\<close>.\<close>

definition c_abs :: "int \<Rightarrow> int" where
  "c_abs x = s32 \<bar>s32 x\<bar>"

definition rate_reset :: "int \<Rightarrow> aos \<Rightarrow> aos" where
  "rate_reset gap s =
     (if rs_valid (as_sync_info s) then s
      else s\<lparr>as_sync_factor := 1,
             as_sync_info := (as_sync_info s)\<lparr>rs_window := 0, rs_reduce_gap := False, rs_last_avg_gap := gap, rs_last_factor := 0,
               rs_window_duration := 0, rs_last_vpts := 0, rs_valid := True\<rparr>\<rparr>)"

definition gap_history :: "int \<Rightarrow> aos \<Rightarrow> int list" where
  "gap_history gap s = tl (rs_recent_gap (as_sync_info s)) @ [gap]"

definition rate_measure :: "int \<Rightarrow> audio_buffer \<Rightarrow> aos \<Rightarrow> aos" where
  "rate_measure avg_gap B s =
     (let i = as_sync_info s in
      if rs_window i > RESAMPLE_SYNC_WINDOW then
        let gap_diff = avg_gap - rs_last_avg_gap i in
        if gap_diff < RESAMPLE_MAX_GAP_DIFF then
          let factor = of_int gap_diff / of_int (rs_window_duration i + rtrunc (rs_last_factor i)) in
          s\<lparr>as_sync_factor := 1 + factor,
            as_sync_info := i\<lparr>rs_last_factor := factor, rs_last_avg_gap := avg_gap, rs_window_duration := 0, rs_window := 0\<rparr>\<rparr>
        else s\<lparr>as_sync_info := i\<lparr>rs_valid := False\<rparr>\<rparr>
      else
        s\<lparr>as_sync_info :=
            i\<lparr>rs_window_duration :=
                (if rs_window i > 0 then rs_window_duration i + (ab_vpts B - rs_last_vpts i) else rs_window_duration i),
              rs_last_vpts := ab_vpts B, rs_window := rs_window i + 1\<rparr>\<rparr>)"

definition resample_rate_adjust :: "int \<Rightarrow> audio_buffer \<Rightarrow> aos \<Rightarrow> int \<times> aos" where
  "resample_rate_adjust gap B s =
     (if c_abs gap > AO_MAX_GAP then (- 1, s\<lparr>as_sync_info := (as_sync_info s)\<lparr>rs_valid := False\<rparr>\<rparr>)
      else
        let s0 = rate_reset gap s;
            gaps = gap_history gap s0;
            s1 = s0\<lparr>as_sync_info := (as_sync_info s0)\<lparr>rs_recent_gap := gaps\<rparr>\<rparr>;
            avg_gap = sum_list gaps sdiv 8;
            i = as_sync_info s1 in
        if c_abs avg_gap > RESAMPLE_REDUCE_GAP_THRESHOLD \<and> \<not> rs_reduce_gap i then
          (0, s1\<lparr>as_sync_info := i\<lparr>rs_reduce_gap := True\<rparr>, as_sync_factor := (if avg_gap < 0 then 995 / 1000 else 1005 / 1000)\<rparr>)
        else if rs_reduce_gap i \<and> c_abs avg_gap < 50 then
          (0, s1\<lparr>as_sync_info := i\<lparr>rs_reduce_gap := False, rs_valid := False\<rparr>\<rparr>)
        else if rs_reduce_gap i then
          (0, s1\<lparr>as_sync_factor :=
                (if c_abs avg_gap > 300 then (if avg_gap < 0 then 995 / 1000 else 1005 / 1000)
                 else (if avg_gap < 0 then 998 / 1000 else 1002 / 1000))\<rparr>)
        else (0, rate_measure avg_gap B s1))"

section \<open>Format of the driver\<close>

definition close_driver :: "aos \<Rightarrow> aos" where
  "close_driver s = (when_open A_close s)\<lparr>as_driver_open := False\<rparr>"

text \<open>
  What the driver is asked for: 16 bits instead of 8, stereo for mono and mono for stereo when it
  cannot.
\<close>

definition driver_bits :: "ao_driver \<Rightarrow> u32 \<Rightarrow> u32" where
  "driver_bits D bits = (if bits = 8 \<and> ad_capabilities D AND AO_CAP_8BITS = 0 then 16 else bits)"

definition driver_mode :: "ao_driver \<Rightarrow> u32 \<Rightarrow> u32" where
  "driver_mode D mode =
     (let m1 = (if mode = AO_CAP_MODE_MONO \<and> ad_capabilities D AND AO_CAP_MODE_MONO = 0 then AO_CAP_MODE_STEREO else mode) in
      if mode = AO_CAP_MODE_STEREO \<and> ad_capabilities D AND AO_CAP_MODE_STEREO = 0 then AO_CAP_MODE_MONO else m1)"

definition open_driver :: "ao_driver option \<Rightarrow> u32 \<Rightarrow> u32 \<Rightarrow> u32 \<Rightarrow> aos \<Rightarrow> (ao_format \<times> aos) outcome" where
  "open_driver drv bits rate mode s =
     (if as_grab_only s then Ret (\<lparr>af_bits = bits, af_rate = rate, af_mode = mode\<rparr>, s)
      else
        obind (of_opt drv) (\<lambda>D.
        (let b = driver_bits D bits; m = driver_mode D mode;
             r = (if as_force_rate s \<noteq> 0 then as_force_rate s else rate) in
         Ret (\<lparr>af_bits = b, af_rate = ad_open D (as_calls s) b r m, af_mode = m\<rparr>,
              (ao_call (A_open b r m) s)\<lparr>as_driver_open := True\<rparr>))))"

definition ao_change_settings :: "ao_driver option \<Rightarrow> u32 \<Rightarrow> u32 \<Rightarrow> u32 \<Rightarrow> aos \<Rightarrow> (u32 \<times> aos) outcome" where
  "ao_change_settings drv bits rate mode s =
     obind (open_driver drv bits rate mode ((close_driver s)\<lparr>as_input := \<lparr>af_bits = bits, af_rate = rate, af_mode = mode\<rparr>\<rparr>)) (\<lambda>(f, s1).
     if af_rate f = 0 then Ret (0, s1\<lparr>as_driver_open := False\<rparr>)
     else
       obind (cdiv (90000 * 32768) (uint rate)) (\<lambda>step.
       Ret (af_rate f,
            s1\<lparr>as_last_vpts := 0, as_output := f,
               as_do_resample := (if as_resample_conf s1 = 1 then False else if as_resample_conf s1 = 2 then True else af_rate f \<noteq> rate),
               as_rate_factor := of_int (uint (af_rate f)) / of_int (uint rate),
               as_frames_per_kpts := uint (af_rate f * 1024 div 90000),
               as_audio_step := step\<rparr>)))"

section \<open>The output loop\<close>

text \<open>The variables of \<open>ao_loop\<close>.\<close>

record ao_local =
  lo_in_buf :: "nat option"
  lo_last_sync_time :: int
  lo_bufs_since_sync :: int

definition loop_start :: ao_local where
  "loop_start = \<lparr>lo_in_buf = None, lo_last_sync_time = 0, lo_bufs_since_sync = 0\<rparr>"

definition loop_continues :: "aos \<Rightarrow> bool" where
  "loop_continues s \<longleftrightarrow> as_loop_running s \<or> aq_first (as_out s) \<noteq> None"

definition loop_take :: "ao_local \<times> aos \<Rightarrow> (ao_local \<times> aos) outcome" where
  "loop_take x =
     (let (L, s) = x in
      if lo_in_buf L = None then
        obind (fifo_remove_out s) (\<lambda>(buf, s1).
        Ret (L\<lparr>lo_in_buf := Some buf, lo_bufs_since_sync := lo_bufs_since_sync L + 1\<rparr>, s1))
      else Ret (L, s))"

definition AO_CTRL_FLUSH_BUFFERS :: int where
  "AO_CTRL_FLUSH_BUFFERS = 2"

definition ao_control :: "ao_driver option \<Rightarrow> int \<Rightarrow> aos \<Rightarrow> (int \<times> aos) outcome" where
  "ao_control drv cmd s =
     (if as_grab_only s then Ret (0, s)
      else if as_driver_open s then
        obind (of_opt drv) (\<lambda>D. Ret (ad_control D (as_calls s) cmd, ao_call (A_control cmd) s))
      else Ret (0, s))"

text \<open>Giving the buffer back.\<close>

definition release_in_buf :: "ao_local \<times> aos \<Rightarrow> (ao_local \<times> aos) outcome" where
  "release_in_buf x =
     (let (L, s) = x in
      obind (of_opt (lo_in_buf L)) (\<lambda>b. obind (fifo_append_free b s) (\<lambda>s1. Ret (L\<lparr>lo_in_buf := None\<rparr>, s1))))"

text \<open>The parts that may end the turn say whether it goes on.\<close>

definition loop_flush :: "ao_driver option \<Rightarrow> ao_local \<times> aos \<Rightarrow> (bool \<times> ao_local \<times> aos) outcome" where
  "loop_flush drv x =
     (let (L, s) = x in
      obind (if as_flush s \<noteq> 0
             then obind (ao_control drv AO_CTRL_FLUSH_BUFFERS s) (\<lambda>(_, s1). Ret (s1\<lparr>as_flush := as_flush s1 - 1\<rparr>))
             else Ret s) (\<lambda>s1.
      if as_discard s1 \<noteq> 0 then obind (release_in_buf (L, s1)) (\<lambda>y. Ret (False, y))
      else Ret (True, L, s1)))"

definition loop_pause :: "int \<Rightarrow> ao_local \<times> aos \<Rightarrow> (bool \<times> ao_local \<times> aos) outcome" where
  "loop_pause cur_time x =
     (let (L, s) = x in
      if as_paused s \<noteq> 0 \<and> as_loop_running s then
        if as_paused s = 1 then
          obind (of_opt (lo_in_buf L)) (\<lambda>b. obind (buf_at b s) (\<lambda>B.
          if ab_vpts B < cur_time then obind (release_in_buf x) (\<lambda>y. Ret (False, y)) else Ret (False, x)))
        else Ret (False, x)
      else Ret (True, x))"

definition loop_settings :: "ao_driver option \<Rightarrow> ao_local \<times> aos \<Rightarrow> aos outcome" where
  "loop_settings drv x =
     (let (L, s) = x in
      obind (of_opt (lo_in_buf L)) (\<lambda>b. obind (buf_at b s) (\<lambda>B.
      if ab_num_frames B \<noteq> 0 \<and> (\<not> as_driver_open s \<or> ab_format B \<noteq> as_input s)
      then obind (ao_change_settings drv (af_bits (ab_format B)) (af_rate (ab_format B)) (af_mode (ab_format B)) s) (\<lambda>(_, s1). Ret s1)
      else Ret s)))"

text \<open>While the driver does not know its delay yet it gets silence.\<close>

fun delay_loop :: "nat \<Rightarrow> ao_driver \<Rightarrow> int \<Rightarrow> aos \<Rightarrow> (int \<times> aos) outcome" where
  "delay_loop 0 D delay s = Spin"
| "delay_loop (Suc k) D delay s =
     (if delay < 0 \<and> as_loop_running s then
        let s1 = ao_fill_gap 10000 s in delay_loop k D (ad_delay D (as_calls s1)) s1
      else Ret (delay, s))"

definition loop_delay :: "nat \<Rightarrow> ao_driver option \<Rightarrow> aos \<Rightarrow> (int \<times> aos) outcome" where
  "loop_delay k drv s =
     (if as_driver_open s then obind (of_opt drv) (\<lambda>D. delay_loop k D (ad_delay D (as_calls s)) s)
      else Ret (0, s))"

text \<open>The position of the stream, when no video keeps it up to date.\<close>

definition loop_position :: "int \<Rightarrow> audio_buffer \<Rightarrow> aos \<Rightarrow> aos outcome" where
  "loop_position cur_time B s =
     (case ab_stream B of
        None \<Rightarrow> Ret s
      | Some st \<Rightarrow>
          obind (ao_stream_at st s) (\<lambda>S.
          if \<not> sa_has_video S \<or> cur_time - ei_vpts (sa_current_info S) > 30000
          then Ret (put_ao_stream st (S\<lparr>sa_current_info := extra_info_merge (sa_current_info S) (ab_extra_info B)\<rparr>) s)
          else Ret s))"

text \<open>The time at which the driver plays what it gets now.\<close>

definition hardware_vpts :: "int \<Rightarrow> int \<Rightarrow> aos \<Rightarrow> int" where
  "hardware_vpts cur_time delay s =
     (let d = (if pass_through s then delay + as_passthrough_offset s else delay) in
      if as_frames_per_kpts s \<noteq> 0 then cur_time + d * 1024 sdiv as_frames_per_kpts s else cur_time)"

definition SYNC_TIME_INVERVAL :: int where
  "SYNC_TIME_INVERVAL = 90000"

definition SYNC_BUF_INTERVAL :: int where
  "SYNC_BUF_INTERVAL = int NUM_AUDIO_BUFFERS div 2"

definition SYNC_GAP_RATE :: int where
  "SYNC_GAP_RATE = 4"

definition adjust_metronom :: "int \<Rightarrow> int \<Rightarrow> nat \<Rightarrow> ao_local \<times> aos \<Rightarrow> (ao_local \<times> aos) outcome" where
  "adjust_metronom gap cur_time st x =
     (let (L, s) = x in
      obind (ao_stream_at st s) (\<lambda>S.
      Ret (L\<lparr>lo_last_sync_time := cur_time, lo_bufs_since_sync := 0\<rparr>,
           put_ao_stream st (S\<lparr>sa_metronom := metronom_set_option METRONOM_ADJ_VPTS_OFFSET (- gap sdiv SYNC_GAP_RATE) (sa_metronom S)\<rparr>) s)))"

definition adjust_metronoms :: "nat \<Rightarrow> int \<Rightarrow> int \<Rightarrow> ao_local \<times> aos \<Rightarrow> (ao_local \<times> aos) outcome" where
  "adjust_metronoms k gap cur_time x =
     obind (visit_all xine_list_first_content xine_list_next_content (adjust_metronom gap cur_time) k (as_streams (snd x)) x)
       (\<lambda>((L, s), l). Ret (L, s\<lparr>as_streams := l\<rparr>))"

text \<open>The last statement of this part is an assertion.\<close>

definition loop_write :: "ao_driver option \<Rightarrow> nat \<Rightarrow> ao_local \<times> aos \<Rightarrow> (ao_local \<times> aos) outcome" where
  "loop_write drv b x =
     (let (L, s) = x in
      obind (prepare_samples b s) (\<lambda>(out, s1).
      obind (buf_at out s1) (\<lambda>T.
      obind (of_opt drv) (\<lambda>D.
      (let result = ad_write D (as_calls s1) (ab_mem T) (ab_num_frames T) in
       if result < 0 then Fault
       else release_in_buf (L, ao_call (A_write (ab_mem T) (ab_num_frames T)) s1))))))"

text \<open>
  The gap between the time of the buffer and that of the driver, and the rate that follows from
  it.
\<close>

definition loop_gap :: "int \<Rightarrow> int \<Rightarrow> audio_buffer \<Rightarrow> aos \<Rightarrow> (int \<times> aos) outcome" where
  "loop_gap cur_time delay B s =
     obind (loop_position cur_time B s) (\<lambda>s1.
     (let gap = ab_vpts B - hardware_vpts cur_time delay s1 in
      Ret (gap, if as_sync_method s1 then snd (resample_rate_adjust gap B s1) else s1\<lparr>as_sync_factor := 1\<rparr>)))"

definition loop_decide :: "nat \<Rightarrow> ao_driver option \<Rightarrow> int \<Rightarrow> nat \<Rightarrow> audio_buffer \<Rightarrow> int \<Rightarrow> ao_local \<times> aos \<Rightarrow> (ao_local \<times> aos) outcome" where
  "loop_decide k drv cur_time b B gap x =
     (let (L, s) = x in
      if gap < - AO_MAX_GAP \<or> ab_num_frames B = 0 then release_in_buf x
      else if c_abs gap < AO_MAX_GAP \<and> c_abs gap > as_gap_tolerance s \<and>
              cur_time > lo_last_sync_time L + SYNC_TIME_INVERVAL \<and> lo_bufs_since_sync L \<ge> SYNC_BUF_INTERVAL \<and>
              \<not> as_sync_method s
      then adjust_metronoms k gap cur_time x
      else if gap > AO_MAX_GAP then Ret (L, ao_fill_gap gap s)
      else loop_write drv b x)"

definition loop_output :: "nat \<Rightarrow> ao_driver option \<Rightarrow> int \<Rightarrow> int \<Rightarrow> ao_local \<times> aos \<Rightarrow> (ao_local \<times> aos) outcome" where
  "loop_output k drv cur_time delay x =
     obind (of_opt (lo_in_buf (fst x))) (\<lambda>b.
     obind (buf_at b (snd x)) (\<lambda>B.
     obind (loop_gap cur_time delay B (snd x)) (\<lambda>(gap, s1).
     loop_decide k drv cur_time b B gap (fst x, s1))))"

text \<open>A turn, and what follows the loop.\<close>

definition loop_play :: "nat \<Rightarrow> ao_driver option \<Rightarrow> int \<Rightarrow> ao_local \<times> aos \<Rightarrow> (ao_local \<times> aos) outcome" where
  "loop_play k drv cur_time x =
     obind (loop_settings drv x) (\<lambda>s1.
     obind (loop_delay k drv s1) (\<lambda>(delay, s2).
     loop_output k drv cur_time delay (fst x, s2)))"

definition ao_loop_turn :: "nat \<Rightarrow> ao_driver option \<Rightarrow> int \<Rightarrow> int \<Rightarrow> ao_local \<times> aos \<Rightarrow> (ao_local \<times> aos) outcome" where
  "ao_loop_turn k drv pause_time cur_time x =
     obind (loop_take x) (\<lambda>x1.
     obind (loop_flush drv x1) (\<lambda>(go, x2).
     if \<not> go then Ret x2
     else obind (loop_pause pause_time x2) (\<lambda>(go2, x3). if \<not> go2 then Ret x3 else loop_play k drv cur_time x3)))"

definition ao_loop_end :: "ao_local \<times> aos \<Rightarrow> (ao_local \<times> aos) outcome" where
  "ao_loop_end x = (if lo_in_buf (fst x) \<noteq> None then release_in_buf x else Ret x)"

text \<open>The loop, with the clock's readings before and in each turn.\<close>

fun ao_loop :: "nat \<Rightarrow> ao_driver option \<Rightarrow> (int \<times> int) list \<Rightarrow> ao_local \<times> aos \<Rightarrow> (ao_local \<times> aos) outcome" where
  "ao_loop k drv [] x = (if loop_continues (snd x) then Spin else ao_loop_end x)"
| "ao_loop k drv ((t0, t1) # ts) x =
     (if loop_continues (snd x) then obind (ao_loop_turn k drv t0 t1 x) (ao_loop k drv ts) else ao_loop_end x)"

section \<open>Decoders\<close>

definition ao_get_buffer :: "aos \<Rightarrow> (nat \<times> aos) outcome" where
  "ao_get_buffer s =
     obind (fifo_remove_free s) (\<lambda>(b, s1).
     obind (buf_at b s1) (\<lambda>B. Ret (b, put_buf b (B\<lparr>ab_extra_info := extra_info_reset\<rparr>) s1)))"

definition ao_put_buffer :: "nat \<Rightarrow> nat \<Rightarrow> aos \<Rightarrow> aos outcome" where
  "ao_put_buffer buf st s =
     obind (buf_at buf s) (\<lambda>B.
     if ab_num_frames B = 0 then fifo_append_free buf s
     else
       obind (ao_stream_at st s) (\<lambda>S.
       obind (metronom_got_audio_samples (ab_vpts B) (ab_num_frames B) (sa_metronom S)) (\<lambda>(vpts, m).
       (let B1 = B\<lparr>ab_stream := Some st, ab_format := \<lparr>af_bits = sa_bits S, af_rate = sa_rate S, af_mode = sa_mode S\<rparr>,
               ab_vpts := vpts,
               ab_extra_info := (extra_info_merge (ab_extra_info B) (sa_decoder_info S))\<lparr>ei_vpts := vpts\<rparr>\<rparr>;
            s1 = put_ao_stream st (S\<lparr>sa_metronom := m\<rparr>) (put_buf buf B1 s) in
        obind (if as_discard s1 = 0 then fifo_append_out buf s1 else fifo_append_free buf s1) (\<lambda>s2.
        Ret (s2\<lparr>as_last_vpts := vpts\<rparr>))))))"

definition stream_channels :: "u32 \<Rightarrow> int" where
  "stream_channels mode =
     (if mode = AO_CAP_MODE_MONO then 1
      else if mode = AO_CAP_MODE_STEREO then 2
      else if mode = AO_CAP_MODE_4CHANNEL then 4
      else if mode = AO_CAP_MODE_4_1CHANNEL \<or> mode = AO_CAP_MODE_5CHANNEL \<or> mode = AO_CAP_MODE_5_1CHANNEL then 6
      else 255)"

definition ao_open :: "ao_driver option \<Rightarrow> bool \<Rightarrow> nat \<Rightarrow> u32 \<Rightarrow> u32 \<Rightarrow> u32 \<Rightarrow> aos \<Rightarrow> (u32 \<times> aos) outcome" where
  "ao_open drv reading st bits rate mode s =
     obind (if \<not> as_driver_open s \<or> as_input s \<noteq> \<lparr>af_bits = bits, af_rate = rate, af_mode = mode\<rparr>
            then obind (if as_loop_running s then fifo_wait_empty reading (as_out s) else Ret ()) (\<lambda>_.
                 ao_change_settings drv bits rate mode s)
            else Ret (1, s)) (\<lambda>(ret, s1).
     if ret = 0 then Ret (0, s1)
     else
       obind (xine_list_append_content (Some st) (as_streams s1)) (\<lambda>l.
       obind (ao_stream_at st s1) (\<lambda>S.
       Ret (af_rate (as_output s1),
            put_ao_stream st
              (S\<lparr>sa_mode := mode, sa_channels := stream_channels mode, sa_bits := bits, sa_rate := rate,
                 sa_metronom := metronom_set_audio_rate (as_audio_step s1) (sa_metronom S)\<rparr>) (s1\<lparr>as_streams := l\<rparr>)))))"

text \<open>Closing: unregistering the stream, and, when it was the last one, the driver.\<close>

definition ao_close_stream :: "nat \<Rightarrow> nat \<Rightarrow> aos \<Rightarrow> (bool \<times> aos) outcome" where
  "ao_close_stream k st s =
     obind (search xine_list_first_content xine_list_next_content (\<lambda>cur. cur = st) k (as_streams s)) (\<lambda>(c, l).
     obind (if c = None then Ret l else xine_list_delete_current l) (\<lambda>l1.
     obind (xine_list_first_content l1) (\<lambda>(cur, l2).
     Ret (cur = None \<and> \<not> as_grab_only s, s\<lparr>as_streams := l2\<rparr>))))"

definition ao_close_driver :: "bool \<Rightarrow> aos \<Rightarrow> aos outcome" where
  "ao_close_driver reading s =
     obind (if as_loop_running s then fifo_wait_empty reading (as_out s) else Ret ()) (\<lambda>_. Ret (close_driver s))"

section \<open>Frontends\<close>

text \<open>A flush: what the caller waits for, and the buffers it puts in to keep the loop going.\<close>

definition ao_flush_begin :: "aos \<Rightarrow> aos" where
  "ao_flush_begin s =
     (if as_loop_running s then s\<lparr>as_discard := as_discard s + 1, as_flush := as_flush s + 1\<rparr> else s)"

definition dummy_buffer :: "aos \<Rightarrow> aos outcome" where
  "dummy_buffer s =
     obind (fifo_remove_free s) (\<lambda>(b, s1).
     obind (buf_at b s1) (\<lambda>B. fifo_append_out b (put_buf b (B\<lparr>ab_num_frames := 0, ab_stream := None\<rparr>) s1)))"

definition ao_flush_push :: "aos \<Rightarrow> aos outcome" where
  "ao_flush_push s = (if as_flush s \<noteq> 0 \<and> as_paused s = 0 then dummy_buffer s else Ret s)"

definition ao_flush_end :: "aos \<Rightarrow> aos outcome" where
  "ao_flush_end s =
     (if as_loop_running s then
        if as_flush s \<noteq> 0 \<and> as_paused s = 0 then Wait else Ret (s\<lparr>as_discard := as_discard s - 1\<rparr>)
      else Ret s)"

definition ao_status :: "nat \<Rightarrow> nat option \<Rightarrow> aos \<Rightarrow> (ao_format option \<times> aos) outcome" where
  "ao_status k st s =
     obind (search xine_list_first_content xine_list_next_content (\<lambda>cur. Some cur = st \<or> st = None) k (as_streams s)) (\<lambda>(c, l).
     Ret (if c = None then None else Some (as_input s), s\<lparr>as_streams := l\<rparr>))"

definition ao_get_capabilities :: "ao_driver option \<Rightarrow> aos \<Rightarrow> u32 outcome" where
  "ao_get_capabilities drv s =
     (if as_grab_only s then Ret (AO_CAP_MODE_MONO OR AO_CAP_MODE_STEREO)
      else obind (of_opt drv) (\<lambda>D. Ret (ad_capabilities D)))"

definition AO_PROP_MIXER_VOL :: int where
  "AO_PROP_MIXER_VOL = 0"

definition AO_PROP_PCM_VOL :: int where
  "AO_PROP_PCM_VOL = 1"

definition AO_PROP_COMPRESSOR :: int where
  "AO_PROP_COMPRESSOR = 3"

definition AO_PROP_DISCARD_BUFFERS :: int where
  "AO_PROP_DISCARD_BUFFERS = 4"

definition AO_PROP_AMP :: int where
  "AO_PROP_AMP = 6"

definition AO_PROP_EQ_30HZ :: int where
  "AO_PROP_EQ_30HZ = 7"

definition AO_PROP_EQ_16000HZ :: int where
  "AO_PROP_EQ_16000HZ = 16"

definition AO_PROP_CLOSE_DEVICE :: int where
  "AO_PROP_CLOSE_DEVICE = 17"

definition is_eq_prop :: "int \<Rightarrow> bool" where
  "is_eq_prop property \<longleftrightarrow> AO_PROP_EQ_30HZ \<le> property \<and> property \<le> AO_PROP_EQ_16000HZ"

definition ao_get_property :: "ao_driver option \<Rightarrow> int \<Rightarrow> aos \<Rightarrow> int outcome" where
  "ao_get_property drv property s =
     (if property = AO_PROP_COMPRESSOR then Ret (s32 (rtrunc (as_compression_max s * 100)))
      else if property = AO_PROP_AMP then Ret (s32 (rtrunc (as_amp s * 100)))
      else if is_eq_prop property then
        obind (aget (as_eq_gain s) (nat (property - AO_PROP_EQ_30HZ))) (\<lambda>g. Ret (s32 (100 * g) sdiv 2 ^ FP_FRBITS))
      else if property = AO_PROP_DISCARD_BUFFERS then Ret (as_discard s)
      else if property = AO_PROP_PAUSED then Ret (as_paused s)
      else obind (of_opt drv) (\<lambda>D. Ret (ad_get_property D (as_calls s) property)))"

text \<open>\<open>EQ_REAL (((float)value / 100.0))\<close>.\<close>

definition eq_gain_of :: "int \<Rightarrow> int" where
  "eq_gain_of value = s32 (value * 2 ^ FP_FRBITS sdiv 100)"

definition set_eq_gain :: "int \<Rightarrow> int \<Rightarrow> aos \<Rightarrow> (int \<times> aos) outcome" where
  "set_eq_gain property value s =
     obind (aset (as_eq_gain s) (nat (property - AO_PROP_EQ_30HZ)) (eq_gain_of value)) (\<lambda>gains.
     (let min_gain = fold min (take EQ_BANDS gains) 0; max_gain = fold max (take EQ_BANDS gains) 0 in
      Ret (value, s\<lparr>as_eq_gain := gains, as_do_equ := (min_gain \<noteq> 0 \<or> max_gain \<noteq> 0)\<rparr>)))"

text \<open>Without an output thread the waiting buffers are given back at once.\<close>

fun discard_out :: "nat \<Rightarrow> aos \<Rightarrow> aos outcome" where
  "discard_out 0 s = Spin"
| "discard_out (Suc k) s =
     (if aq_first (as_out s) = None then Ret s
      else obind (fifo_remove_out s) (\<lambda>(b, s1). obind (fifo_append_free b s1) (discard_out k)))"

definition ao_set_property :: "nat \<Rightarrow> ao_driver option \<Rightarrow> int \<Rightarrow> int \<Rightarrow> aos \<Rightarrow> (int \<times> aos) outcome" where
  "ao_set_property k drv property value s =
     (if property = AO_PROP_COMPRESSOR then
        let m = of_int value / 100 in
        Ret (s32 (rtrunc (m * 100)), s\<lparr>as_compression_max := m, as_do_compress := m > 1\<rparr>)
      else if property = AO_PROP_AMP then
        let a = of_int value / 100 in
        Ret (s32 (rtrunc (a * 100)), s\<lparr>as_amp := a, as_do_amp := a \<noteq> 1\<rparr>)
      else if is_eq_prop property then set_eq_gain property value s
      else if property = AO_PROP_DISCARD_BUFFERS then
        (let s1 = s\<lparr>as_discard := as_discard s + (if value \<noteq> 0 then 1 else - 1)\<rparr> in
         obind (if as_grab_only s1 \<and> as_discard s1 \<noteq> 0 then discard_out k s1 else Ret s1) (\<lambda>s2.
         Ret (as_discard s1, s2)))
      else if property = AO_PROP_PAUSED then Ret (value, s\<lparr>as_paused := value\<rparr>)
      else if property = AO_PROP_CLOSE_DEVICE then Ret (0, close_driver s)
      else if \<not> as_grab_only s then
        obind (of_opt drv) (\<lambda>D. Ret (ad_set_property D (as_calls s) property value, ao_call (A_set_property property value) s))
      else Ret (0, s))"

definition ao_update_av_sync_method :: "int \<Rightarrow> aos \<Rightarrow> aos" where
  "ao_update_av_sync_method num_value s =
     s\<lparr>as_sync_method := num_value = 1, as_sync_info := (as_sync_info s)\<lparr>rs_valid := False\<rparr>\<rparr>"

section \<open>Frontends that take the samples\<close>

record audio_frame =
  xa_vpts :: int
  xa_num_samples :: int
  xa_sample_rate :: u32
  xa_num_channels :: nat
  xa_bits_per_sample :: u32
  xa_pos_stream :: int
  xa_pos_time :: int
  xa_data :: "u8 list"
  xa_frame :: "nat option"

text \<open>The first stream decides whether more is to come.\<close>

definition xine_get_next_audio_frame :: "aos \<Rightarrow> (audio_frame option \<times> aos) outcome" where
  "xine_get_next_audio_frame s =
     obind (xine_list_first_content (as_streams s)) (\<lambda>(c, l).
     (case c of
        None \<Rightarrow> Wait
      | Some st \<Rightarrow>
          (let s0 = s\<lparr>as_streams := l\<rparr> in
           obind (ao_stream_at st s0) (\<lambda>S.
           if aq_first (as_out s0) = None then (if sa_demux_ok S then Wait else Ret (None, s0))
           else
             obind (fifo_remove_out s0) (\<lambda>(b, s1).
             obind (prepare_samples b s1) (\<lambda>(out, s2).
             obind (if out \<noteq> b then fifo_append_free b s2 else Ret s2) (\<lambda>s3.
             obind (buf_at out s3) (\<lambda>T.
             Ret (Some \<lparr>xa_vpts = ab_vpts T, xa_num_samples = ab_num_frames T, xa_sample_rate = af_rate (as_input s3),
                     xa_num_channels = mode_channels (af_mode (as_input s3)), xa_bits_per_sample = af_bits (as_input s3),
                     xa_pos_stream = ei_input_pos (ab_extra_info T), xa_pos_time = ei_input_time (ab_extra_info T),
                     xa_data = ab_mem T, xa_frame = (if out \<noteq> b then None else Some out)\<rparr>, s3)))))))))"

definition xine_free_audio_frame :: "audio_frame \<Rightarrow> aos \<Rightarrow> aos outcome" where
  "xine_free_audio_frame frame s = (case xa_frame frame of None \<Rightarrow> Ret s | Some b \<Rightarrow> fifo_append_free b s)"

section \<open>Creation and exit\<close>

text \<open>
  \<open>junk\<close> is what the memory for \<open>extra_info\<close> holds, which is not
  initialised.
\<close>

definition new_audio_buffer :: "extra_info \<Rightarrow> nat \<Rightarrow> audio_buffer" where
  "new_audio_buffer junk sz =
     \<lparr>ab_next = None, ab_mem = replicate sz 0, ab_mem_size = int sz, ab_num_frames = 0, ab_vpts = 0, ab_extra_info = junk,
      ab_stream = None, ab_format = \<lparr>af_bits = 0, af_rate = 0, af_mode = 0\<rparr>\<rparr>"

fun alloc_buffers :: "extra_info \<Rightarrow> nat list \<Rightarrow> aos \<Rightarrow> aos outcome" where
  "alloc_buffers junk [] s = Ret s"
| "alloc_buffers junk (b # bs) s =
     obind (fifo_append_free b (put_buf b (new_audio_buffer junk AUDIO_BUF_SIZE) s)) (alloc_buffers junk bs)"

text \<open>What the configuration says.\<close>

record ao_config =
  ac_sync_method :: int
  ac_resample_mode :: int
  ac_force_rate :: u32
  ac_passthrough_offset :: int
  ac_volume :: int
  ac_remember_volume :: bool

definition no_format :: ao_format where
  "no_format = \<lparr>af_bits = 0, af_rate = 0, af_mode = 0\<rparr>"

definition new_port_fields :: "ao_config \<Rightarrow> bool \<Rightarrow> (nat \<rightharpoonup> ao_stream) \<Rightarrow> aos" where
  "new_port_fields C grab_only streams =
     \<lparr>as_buf = Map.empty, as_free = audio_fifo_new, as_out = audio_fifo_new, as_stream = streams, as_streams = xine_list_new,
      as_driver_open = False, as_loop_running = False, as_grab_only = grab_only, as_paused = 0, as_audio_step = 0,
      as_frames_per_kpts = 0, as_input = no_format, as_output = no_format, as_rate_factor = 0, as_excess = 0,
      as_sync_info = \<lparr>rs_last_factor = 0, rs_window = 0, rs_reduce_gap = False, rs_window_duration = 0, rs_last_vpts = 0,
        rs_recent_gap = replicate 8 0, rs_last_avg_gap = 0, rs_valid = False\<rparr>,
      as_sync_method = False, as_sync_factor = 0, as_resample_conf = ac_resample_mode C, as_force_rate = ac_force_rate C,
      as_do_resample = False, as_gap_tolerance = 0, as_last_vpts = 0, as_frame_buf = (NUM_AUDIO_BUFFERS, NUM_AUDIO_BUFFERS + 1),
      as_passthrough_offset = ac_passthrough_offset C, as_flush = 0, as_discard = 0, as_do_compress = False, as_compression = 2,
      as_compression_max = 0, as_do_amp = False, as_amp = 1, as_do_equ = False, as_eq_gain = replicate EQ_BANDS 0,
      as_eq_i = 0, as_eq_j = 2, as_eq_k = 1,
      as_eq_history = replicate EQ_BANDS (replicate EQ_CHANNELS \<lparr>xy_x = [0, 0, 0], xy_y = [0, 0, 0]\<rparr>), as_calls = []\<rparr>"

definition volume_property :: "u32 \<Rightarrow> int" where
  "volume_property caps =
     (if caps AND AO_CAP_MIXER_VOL \<noteq> 0 then AO_PROP_MIXER_VOL
      else if caps AND AO_CAP_PCM_VOL \<noteq> 0 then AO_PROP_PCM_VOL else 0)"

definition restore_volume :: "ao_driver option \<Rightarrow> ao_config \<Rightarrow> aos \<Rightarrow> aos outcome" where
  "restore_volume drv C s =
     (if drv \<noteq> None \<and> ac_remember_volume C then
        obind (ao_get_capabilities drv s) (\<lambda>caps.
        obind (ao_set_property 0 drv (volume_property caps) (ac_volume C) s) (\<lambda>(_, s1). Ret s1))
      else Ret s)"

definition ao_new_port :: "ao_driver option \<Rightarrow> extra_info \<Rightarrow> ao_config \<Rightarrow> bool \<Rightarrow> (nat \<rightharpoonup> ao_stream) \<Rightarrow> aos outcome" where
  "ao_new_port drv junk C grab_only streams =
     (let s0 = new_port_fields C grab_only streams in
      obind (if grab_only then Ret s0 else obind (of_opt drv) (\<lambda>D. Ret (s0\<lparr>as_gap_tolerance := ad_gap_tolerance D\<rparr>))) (\<lambda>s1.
      obind (alloc_buffers junk [0..<NUM_AUDIO_BUFFERS] (ao_update_av_sync_method (ac_sync_method C) s1)) (\<lambda>s2.
      (let s3 = put_buf (fst (as_frame_buf s2)) (new_audio_buffer junk (4 * AUDIO_BUF_SIZE))
             (put_buf (snd (as_frame_buf s2)) (new_audio_buffer junk (4 * AUDIO_BUF_SIZE)) s2) in
       obind (restore_volume drv C s3) (\<lambda>s4.
       Ret (if grab_only then s4 else s4\<lparr>as_loop_running := True\<rparr>))))))"

text \<open>
  Exit: the loop is told to stop and gets a buffer to wake it; when it has ended the driver is
  closed and everything freed.
\<close>

definition ao_exit_stop :: "aos \<Rightarrow> aos" where
  "ao_exit_stop s = s\<lparr>as_loop_running := False, as_paused := 0\<rparr>"

definition ao_exit_driver :: "ao_driver option \<Rightarrow> aos \<Rightarrow> aos outcome" where
  "ao_exit_driver drv s =
     (if as_grab_only s then Ret s
      else
        obind (of_opt drv) (\<lambda>D.
        (let s1 = ao_call (A_volume (ad_get_property D (as_calls s) (volume_property (ad_capabilities D)))) s in
         Ret (ao_call A_exit (when_open A_close s1)))))"

definition free_buffer :: "nat \<Rightarrow> aos \<Rightarrow> aos outcome" where
  "free_buffer b s = obind (buf_at b s) (\<lambda>_. Ret (s\<lparr>as_buf := (as_buf s)(b := None)\<rparr>))"

fun free_chain :: "nat \<Rightarrow> nat option \<Rightarrow> aos \<Rightarrow> aos outcome" where
  "free_chain 0 p s = Spin"
| "free_chain (Suc k) p s =
     (case p of
        None \<Rightarrow> Ret s
      | Some b \<Rightarrow> obind (buf_at b s) (\<lambda>B. obind (free_buffer b s) (free_chain k (ab_next B))))"

definition ao_exit_end :: "nat \<Rightarrow> ao_driver option \<Rightarrow> aos \<Rightarrow> aos outcome" where
  "ao_exit_end k drv s =
     obind (ao_exit_driver drv s) (\<lambda>s1.
     obind (xine_list_free k (as_streams s1)) (\<lambda>l.
     obind (free_buffer (fst (as_frame_buf s1)) (s1\<lparr>as_streams := l\<rparr>)) (\<lambda>s2.
     obind (free_buffer (snd (as_frame_buf s2)) s2) (\<lambda>s3.
     obind (free_chain k (aq_first (as_free s3)) s3) (\<lambda>s4.
     free_chain k (aq_first (as_out s4)) s4)))))"

end
