(* ===== verification/Audio_Heap.thy ===== *)
theory Audio_Heap
  imports Audio_Out
begin

text \<open>
  Where the buffers of the audio output are: the fifos as lists, what the filters and conversions
  leave alone, and that they return.
\<close>

section \<open>Fifos\<close>

definition ab_nexts :: "(nat \<rightharpoonup> audio_buffer) \<Rightarrow> nat \<Rightarrow> nat option option" where
  "ab_nexts bs b = map_option ab_next (bs b)"

definition fifo_is :: "(nat \<rightharpoonup> audio_buffer) \<Rightarrow> audio_fifo \<Rightarrow> nat list \<Rightarrow> bool" where
  "fifo_is bs q xs \<longleftrightarrow>
     lseg (ab_nexts bs) (aq_first q) xs None \<and> aq_last q = (if xs = [] then None else Some (last xs)) \<and> aq_num q = int (length xs)"

lemma ab_nexts_upd: "ab_nexts (bs(b \<mapsto> B)) = (ab_nexts bs)(b \<mapsto> ab_next B)"
  by (auto simp: ab_nexts_def)

lemma fifo_first: "fifo_is bs q xs \<Longrightarrow> aq_first q = (case xs of [] \<Rightarrow> None | x # _ \<Rightarrow> Some x)"
  unfolding fifo_is_def by (blast dest: lseg_start)

lemma fifo_distinct: "fifo_is bs q xs \<Longrightarrow> distinct xs"
  unfolding fifo_is_def by (blast dest: lseg_distinct)

lemma fifo_allocated: "fifo_is bs q xs \<Longrightarrow> b \<in> set xs \<Longrightarrow> \<exists>B. bs b = Some B"
  using lseg_allocated [of "ab_nexts bs" "aq_first q" xs None b] by (auto simp: fifo_is_def ab_nexts_def)

lemma fifo_frame_rule: "fifo_is bs q xs \<Longrightarrow> (\<And>b. b \<in> set xs \<Longrightarrow> ab_nexts bs' b = ab_nexts bs b) \<Longrightarrow> fifo_is bs' q xs"
  unfolding fifo_is_def using lseg_cong [of xs "ab_nexts bs" "ab_nexts bs'"] by metis

text \<open>A buffer without its link.\<close>

definition bview :: "audio_buffer \<Rightarrow> audio_buffer" where
  "bview B = B\<lparr>ab_next := None\<rparr>"

definition bviews :: "(nat \<rightharpoonup> audio_buffer) \<Rightarrow> nat \<rightharpoonup> audio_buffer" where
  "bviews bs b = map_option bview (bs b)"

lemma bview_simps [simp]:
  "bview (B\<lparr>ab_next := n\<rparr>) = bview B" "ab_mem (bview B) = ab_mem B" "ab_mem_size (bview B) = ab_mem_size B"
  "ab_num_frames (bview B) = ab_num_frames B" "ab_vpts (bview B) = ab_vpts B" "ab_stream (bview B) = ab_stream B"
  "ab_format (bview B) = ab_format B" "ab_extra_info (bview B) = ab_extra_info B"
  by (simp_all add: bview_def)

lemma bviews_upd: "bs b = Some B \<Longrightarrow> bview B' = bview B \<Longrightarrow> bviews (bs(b \<mapsto> B')) = bviews bs"
  by (auto simp: bviews_def)

lemma bviews_Some: "bviews bs' = bviews bs \<Longrightarrow> bs b = Some B \<Longrightarrow> \<exists>B'. bs' b = Some B' \<and> bview B' = bview B"
  by (drule fun_cong [of _ _ b]) (auto simp: bviews_def)

lemma bviews_None: "bviews bs' = bviews bs \<Longrightarrow> (bs' b = None) = (bs b = None)"
  by (drule fun_cong [of _ _ b]) (auto simp: bviews_def)

lemma bviews_dom: "bviews bs' = bviews bs \<Longrightarrow> dom bs' = dom bs"
  using bviews_None [of bs' bs] by (auto simp: dom_def)

lemma fifo_append_int_ok:
  assumes "fifo_is bs q xs" and "b \<notin> set xs" and "bs b = Some B" and "ab_next B = None"
  shows "\<exists>bs' q'. fifo_append_int b (bs, q) = Ret (bs', q') \<and> fifo_is bs' q' (xs @ [b]) \<and> bviews bs' = bviews bs \<and>
    (\<forall>c. c \<notin> set xs \<longrightarrow> bs' c = bs c)"
proof (cases xs rule: rev_cases)
  case Nil
  then show ?thesis using assms fifo_first [OF assms(1)]
    by (auto simp: fifo_append_int_def fifo_is_def ab_nexts_def)
next
  case (snoc ys l)
  obtain L where L: "bs l = Some L" using fifo_allocated [OF assms(1), of l] snoc by auto
  have bl: "b \<noteq> l" using assms(2) snoc by auto
  obtain x where x: "aq_first q = Some x" using fifo_first [OF assms(1)] snoc by (cases "ys @ [l]") auto
  have q: "aq_last q = Some l" "aq_num q = int (length xs)" using assms(1) snoc by (simp_all add: fifo_is_def)
  let ?bs = "bs(l \<mapsto> L\<lparr>ab_next := Some b\<rparr>)" and ?q = "q\<lparr>aq_last := Some b, aq_num := aq_num q + 1\<rparr>"
  have "lseg (ab_nexts bs) (aq_first q) (ys @ [l]) None" using assms(1) snoc by (simp add: fifo_is_def)
  then have "lseg ((ab_nexts bs)(l := Some (Some b), b := Some None)) (aq_first q) (ys @ [l, b]) None"
    using assms(2) snoc by (intro lseg_snoc) simp_all
  moreover have "(ab_nexts bs)(l := Some (Some b), b := Some None) = ab_nexts ?bs"
    using assms(3,4) bl by (auto simp: ab_nexts_def)
  ultimately have "fifo_is ?bs ?q (xs @ [b])" using snoc q by (simp add: fifo_is_def)
  moreover have "bviews ?bs = bviews bs" using L by (simp add: bviews_upd)
  moreover have "fifo_append_int b (bs, q) = Ret (?bs, ?q)"
    using assms(3,4) x q L by (simp add: fifo_append_int_def)
  ultimately show ?thesis using snoc by (intro exI [of _ ?bs] exI [of _ ?q]) auto
qed

lemma fifo_remove_int_ok:
  assumes "fifo_is bs q (b # xs)"
  shows "\<exists>B q'. bs b = Some B \<and> fifo_remove_int (bs, q) = Ret (b, bs(b \<mapsto> B\<lparr>ab_next := None\<rparr>), q') \<and>
    fifo_is (bs(b \<mapsto> B\<lparr>ab_next := None\<rparr>)) q' xs"
proof -
  obtain B where B: "bs b = Some B" using fifo_allocated [OF assms, of b] by auto
  have l: "lseg (ab_nexts bs) (ab_next B) xs None" using assms B by (auto simp: fifo_is_def ab_nexts_def)
  have d: "b \<notin> set xs" using fifo_distinct [OF assms] by simp
  have n: "ab_next B = (case xs of [] \<Rightarrow> None | x # _ \<Rightarrow> Some x)" using lseg_start [OF l] .
  have l2: "lseg (ab_nexts (bs(b \<mapsto> B\<lparr>ab_next := None\<rparr>))) (ab_next B) xs None" using l d by (simp add: ab_nexts_upd)
  have f: "aq_first q = Some b" using fifo_first [OF assms] by simp
  show ?thesis
    using B l2 n f assms by (cases xs) (auto simp: fifo_remove_int_def fifo_is_def Let_def)
qed

lemma fifo_remove_empty: "fifo_is bs q [] \<Longrightarrow> fifo_remove_int (bs, q) = Wait"
  using fifo_first [of bs q "[]"] by (simp add: fifo_remove_int_def)

lemma fifo_apart:
  assumes "fifo_is bs q xs" and "\<forall>c. c \<notin> set ys \<longrightarrow> bs' c = bs c" and "set xs \<inter> set ys = {}"
  shows "fifo_is bs' q xs"
  by (rule fifo_frame_rule [OF assms(1)]) (use assms(2,3) in \<open>auto simp: ab_nexts_def\<close>)

section \<open>What the filters change\<close>

text \<open>Everything but the memory of buffers, the conversion buffers and the state of the filters.\<close>

definition aos_rest :: "aos \<Rightarrow> aos" where
  "aos_rest s = s\<lparr>as_buf := Map.empty, as_frame_buf := (0, 0), as_excess := 0, as_compression := 0, as_eq_i := 0, as_eq_j := 0,
     as_eq_k := 0, as_eq_history := []\<rparr>"

lemma aos_rest_fields:
  assumes "aos_rest s' = aos_rest s"
  shows "as_free s' = as_free s" "as_out s' = as_out s" "as_stream s' = as_stream s" "as_streams s' = as_streams s"
    "as_driver_open s' = as_driver_open s" "as_loop_running s' = as_loop_running s" "as_grab_only s' = as_grab_only s"
    "as_paused s' = as_paused s" "as_input s' = as_input s" "as_output s' = as_output s" "as_sync_method s' = as_sync_method s"
    "as_do_resample s' = as_do_resample s" "as_calls s' = as_calls s" "as_rate_factor s' = as_rate_factor s"
    "as_sync_factor s' = as_sync_factor s" "as_discard s' = as_discard s" "as_flush s' = as_flush s"
    "as_do_equ s' = as_do_equ s" "as_do_compress s' = as_do_compress s" "as_do_amp s' = as_do_amp s"
    "as_eq_gain s' = as_eq_gain s" "as_amp s' = as_amp s" "as_compression_max s' = as_compression_max s"
    "as_sync_info s' = as_sync_info s" "as_gap_tolerance s' = as_gap_tolerance s" "as_frames_per_kpts s' = as_frames_per_kpts s"
    "as_passthrough_offset s' = as_passthrough_offset s"
  using arg_cong [OF assms, of as_free] arg_cong [OF assms, of as_out] arg_cong [OF assms, of as_stream]
    arg_cong [OF assms, of as_streams] arg_cong [OF assms, of as_driver_open] arg_cong [OF assms, of as_loop_running]
    arg_cong [OF assms, of as_grab_only] arg_cong [OF assms, of as_paused] arg_cong [OF assms, of as_input]
    arg_cong [OF assms, of as_output] arg_cong [OF assms, of as_sync_method] arg_cong [OF assms, of as_do_resample]
    arg_cong [OF assms, of as_calls] arg_cong [OF assms, of as_rate_factor] arg_cong [OF assms, of as_sync_factor]
    arg_cong [OF assms, of as_discard] arg_cong [OF assms, of as_flush] arg_cong [OF assms, of as_do_equ]
    arg_cong [OF assms, of as_do_compress] arg_cong [OF assms, of as_do_amp] arg_cong [OF assms, of as_eq_gain]
    arg_cong [OF assms, of as_amp] arg_cong [OF assms, of as_compression_max] arg_cong [OF assms, of as_sync_info]
    arg_cong [OF assms, of as_gap_tolerance] arg_cong [OF assms, of as_frames_per_kpts]
    arg_cong [OF assms, of as_passthrough_offset]
  by (simp_all add: aos_rest_def)

text \<open>The history of the equalizer has its dimensions, and its three indices are a rotation.\<close>

definition eq_ok :: "aos \<Rightarrow> bool" where
  "eq_ok s \<longleftrightarrow>
     (as_eq_i s, as_eq_j s, as_eq_k s) \<in> {(0, 2, 1), (1, 0, 2), (2, 1, 0)} \<and> length (as_eq_gain s) = EQ_BANDS \<and>
     length (as_eq_history s) = EQ_BANDS \<and>
     (\<forall>row \<in> set (as_eq_history s). length row = EQ_CHANNELS \<and> (\<forall>h \<in> set row. length (xy_x h) = 3 \<and> length (xy_y h) = 3))"

lemma iir_cf_length: "length iir_cf = EQ_BANDS"
  by (simp add: iir_cf_def EQ_BANDS_def)

lemma eq_ok_rotate: "eq_ok s \<Longrightarrow> eq_ok (eq_rotate s)"
  by (auto simp: eq_ok_def eq_rotate_def Let_def)

lemma aos_rest_rotate [simp]: "aos_rest (eq_rotate s) = aos_rest s"
  by (simp add: eq_rotate_def aos_rest_def Let_def)

definition same_bufs :: "aos \<Rightarrow> aos \<Rightarrow> bool" where
  "same_bufs s s' \<longleftrightarrow> as_buf s' = as_buf s \<and> as_frame_buf s' = as_frame_buf s \<and> as_excess s' = as_excess s"

lemma same_bufs_rotate [simp]: "same_bufs s (eq_rotate s') = same_bufs s s'"
  by (simp add: eq_rotate_def same_bufs_def Let_def)

lemma all_update: "\<forall>x \<in> set xs. P x \<Longrightarrow> P y \<Longrightarrow> \<forall>x \<in> set (xs[i := y]). P x"
  using set_update_subset_insert [of xs i y] by blast

lemma eq_ok_history:
  "eq_ok s \<Longrightarrow> length H = EQ_BANDS \<Longrightarrow>
   \<forall>row \<in> set H. length row = EQ_CHANNELS \<and> (\<forall>h \<in> set row. length (xy_x h) = 3 \<and> length (xy_y h) = 3) \<Longrightarrow>
   eq_ok (s\<lparr>as_eq_history := H\<rparr>)"
  by (simp add: eq_ok_def)

lemma equalize_band_ok:
  assumes "eq_ok s" and "band < EQ_BANDS" and "channel < EQ_CHANNELS"
  shows "\<exists>out' s'. equalize_band band channel pcm out s = Ret (out', s') \<and> eq_ok s' \<and> aos_rest s' = aos_rest s \<and> same_bufs s s'"
proof -
  have ijk: "as_eq_i s < 3" "as_eq_j s < 3" "as_eq_k s < 3" using assms(1) by (auto simp: eq_ok_def)
  have ijk_ok: "(as_eq_i s, as_eq_j s, as_eq_k s) \<in> {(0, 2, 1), (1, 0, 2), (2, 1, 0)}" using assms(1) by (simp add: eq_ok_def)
  have rows: "\<forall>row \<in> set (as_eq_history s). length row = EQ_CHANNELS \<and> (\<forall>h \<in> set row. length (xy_x h) = 3 \<and> length (xy_y h) = 3)"
    using assms(1) by (simp add: eq_ok_def)
  have len: "length (as_eq_gain s) = EQ_BANDS" "length (as_eq_history s) = EQ_BANDS" using assms(1) by (auto simp: eq_ok_def)
  let ?row = "as_eq_history s ! band"
  have row: "?row \<in> set (as_eq_history s)" using len assms(2) by simp
  then have rl: "length ?row = EQ_CHANNELS" "\<forall>h \<in> set ?row. length (xy_x h) = 3 \<and> length (xy_y h) = 3"
    using assms(1) by (auto simp: eq_ok_def)
  let ?h = "?row ! channel"
  have h: "length (xy_x ?h) = 3" "length (xy_y ?h) = 3" using rl assms(3) by simp_all
  obtain beta alpha gamma where c: "iir_cf ! band = (beta, alpha, gamma)" by (cases "iir_cf ! band") auto
  let ?l = "alpha * s32 ((xy_x ?h)[as_eq_i s := pcm] ! as_eq_i s - (xy_x ?h)[as_eq_i s := pcm] ! as_eq_k s) +
     gamma * xy_y ?h ! as_eq_j s - beta * xy_y ?h ! as_eq_k s"
  let ?y = "s32 (?l div 2 ^ FP_FRBITS)"
  let ?g = "\<lparr>xy_x = (xy_x ?h)[as_eq_i s := pcm], xy_y = (xy_y ?h)[as_eq_i s := ?y]\<rparr>"
  let ?s = "s\<lparr>as_eq_history := (as_eq_history s)[band := ?row[channel := ?g]]\<rparr>"
  have "equalize_band band channel pcm out s = Ret (s32 (out + s32 (?y * as_eq_gain s ! band div 2 ^ FP_FRBITS)), ?s)"
    using assms(2,3) ijk len rl h c by (simp add: equalize_band_def iir_cf_length Let_def)
  moreover have "eq_ok ?s"
  proof -
    have new: "\<forall>h \<in> set (?row[channel := ?g]). length (xy_x h) = 3 \<and> length (xy_y h) = 3"
      by (rule all_update [OF rl(2)]) (simp add: h)
    have len_row: "length (?row[channel := ?g]) = EQ_CHANNELS" using rl(1) by (simp only: length_list_update)
    have all: "\<forall>row \<in> set ((as_eq_history s)[band := ?row[channel := ?g]]).
        length row = EQ_CHANNELS \<and> (\<forall>h \<in> set row. length (xy_x h) = 3 \<and> length (xy_y h) = 3)"
      by (rule all_update [OF rows]) (rule conjI [OF len_row new])
    show ?thesis by (rule eq_ok_history [OF assms(1) _ all]) (simp only: length_list_update len)
  qed
  moreover have "aos_rest ?s = aos_rest s" "same_bufs s ?s" by (simp_all add: aos_rest_def same_bufs_def)
  ultimately show ?thesis by blast
qed

definition filtered :: "aos \<Rightarrow> aos \<Rightarrow> bool" where
  "filtered s s' \<longleftrightarrow> aos_rest s' = aos_rest s \<and> same_bufs s s' \<and> (eq_ok s \<longrightarrow> eq_ok s')"

lemma filtered_refl [simp]: "filtered s s"
  by (simp add: filtered_def same_bufs_def)

lemma filtered_trans: "filtered s t \<Longrightarrow> filtered t u \<Longrightarrow> filtered s u"
  by (simp add: filtered_def same_bufs_def)

lemma filtered_rotate: "filtered s s' \<Longrightarrow> filtered s (eq_rotate s')"
  by (simp add: filtered_def eq_ok_rotate)

lemma equalize_bands_ok:
  "eq_ok s \<Longrightarrow> set bands \<subseteq> {..<EQ_BANDS} \<Longrightarrow> channel < EQ_CHANNELS \<Longrightarrow>
   \<exists>out' s'. equalize_bands bands channel pcm out s = Ret (out', s') \<and> eq_ok s' \<and> filtered s s'"
proof (induction bands arbitrary: out s)
  case (Cons band bands)
  obtain o1 s1 where 1: "equalize_band band channel pcm out s = Ret (o1, s1)" "eq_ok s1" "aos_rest s1 = aos_rest s" "same_bufs s s1"
    using equalize_band_ok [OF Cons.prems(1), of band channel pcm out] Cons.prems(2,3) by auto
  obtain o2 s2 where 2: "equalize_bands bands channel pcm o1 s1 = Ret (o2, s2)" "eq_ok s2" "filtered s1 s2"
    using Cons.IH [OF 1(2), of o1] Cons.prems(2,3) by auto
  have "filtered s s1" using 1 by (simp add: filtered_def)
  then show ?case using 1(1) 2 by (auto intro: filtered_trans)
qed auto

lemma equalize_channels_ok:
  "eq_ok s \<Longrightarrow> set cs \<subseteq> {..<n} \<Longrightarrow> n \<le> EQ_CHANNELS \<Longrightarrow> index + n \<le> length mem \<Longrightarrow>
   \<exists>mem' s'. equalize_channels cs index mem s = Ret (mem', s') \<and> length mem' = length mem \<and> eq_ok s' \<and> filtered s s'"
proof (induction cs arbitrary: mem s)
  case (Cons c cs)
  let ?pcm = "s32 (sint (mem ! (index + c)) * 2 ^ (FP_FRBITS - 16 - 1))"
  have c: "c < EQ_CHANNELS" "index + c < length mem" using Cons.prems(2-4) by auto
  obtain out s1 where 1: "equalize_bands [0..<EQ_BANDS] c ?pcm 0 s = Ret (out, s1)" "eq_ok s1" "filtered s s1"
    using equalize_bands_ok [OF Cons.prems(1) upt_below c(1), of ?pcm 0] by auto
  let ?mem = "mem[index + c := limit_output (s32 (out + ?pcm div 2 ^ 2) div 2 ^ (FP_FRBITS - 16))]"
  obtain m2 s2 where 2: "equalize_channels cs index ?mem s1 = Ret (m2, s2)" "length m2 = length ?mem" "eq_ok s2" "filtered s1 s2"
    using Cons.IH [OF 1(2), of ?mem] Cons.prems(2-4) by auto
  then show ?case using 1 c by (auto simp: Let_def intro: filtered_trans)
qed auto

lemma equalize_loop_ok:
  "eq_ok s \<Longrightarrow> n \<le> EQ_CHANNELS \<Longrightarrow> k = 0 \<or> index + 2 * (k - 1) + n \<le> length mem \<Longrightarrow>
   \<exists>mem' s'. equalize_loop k index n mem s = Ret (mem', s') \<and> length mem' = length mem \<and> filtered s s'"
proof (induction k arbitrary: index mem s)
  case (Suc k)
  obtain m1 s1 where 1: "equalize_channels [0..<n] index mem s = Ret (m1, s1)" "length m1 = length mem" "eq_ok s1" "filtered s s1"
    using equalize_channels_ok [OF Suc.prems(1) upt_below Suc.prems(2), of index mem] Suc.prems(3) by auto
  have "eq_ok (eq_rotate s1)" using 1(3) by (rule eq_ok_rotate)
  moreover have "k = 0 \<or> index + 2 + 2 * (k - 1) + n \<le> length m1" using Suc.prems(3) 1(2) by (cases k) auto
  ultimately obtain m2 s2 where 2: "equalize_loop k (index + 2) n m1 (eq_rotate s1) = Ret (m2, s2)" "length m2 = length m1"
    "filtered (eq_rotate s1) s2"
    using Suc.IH [of "eq_rotate s1" "index + 2" m1] Suc.prems(2) by auto
  have "filtered s s2" using filtered_trans [OF filtered_rotate [OF 1(4)] 2(3)] .
  then show ?case using 1(1,2) 2(1,2) by simp
qed auto

lemma mode_channels_le: "mode_channels m \<le> 6"
  by (simp add: mode_channels_def)

text \<open>The equalizer takes two samples a frame, whatever the number of channels is.\<close>

lemma equalize_ok:
  assumes "eq_ok s" and "0 < n \<longrightarrow> 2 * nat n + mode_channels (af_mode (as_input s)) \<le> length mem + 2"
  shows "\<exists>mem' s'. audio_filter_equalize n mem s = Ret (mem', s') \<and> length mem' = length mem \<and> filtered s s'"
proof -
  let ?n = "mode_channels (af_mode (as_input s))"
  have "?n \<le> EQ_CHANNELS" using mode_channels_le [of "af_mode (as_input s)"] by (simp add: EQ_CHANNELS_def)
  moreover have "nat n = 0 \<or> 0 + 2 * (nat n - 1) + ?n \<le> length mem" using assms(2) by (cases "nat n") auto
  ultimately show ?thesis using equalize_loop_ok [OF assms(1), of ?n "nat n" 0 mem]
    by (auto simp: audio_filter_equalize_def Let_def)
qed

section \<open>Compressor and amplifier\<close>

lemma loudest_ok: "i + k \<le> length mem \<Longrightarrow> \<exists>m. loudest k i mem m0 = Ret m"
  by (induction k arbitrary: i m0) (simp_all add: Let_def)

lemma scale_samples_ok:
  "i + k \<le> length mem \<Longrightarrow>
   scale_samples k i f mem = Ret (take i mem @ map (scaled f) (take k (drop i mem)) @ drop (i + k) mem)"
proof (induction k arbitrary: i mem)
  case (Suc k)
  let ?m = "mem[i := scaled f (mem ! i)]"
  have "scale_samples k (i + 1) f ?m = Ret (take (i + 1) ?m @ map (scaled f) (take k (drop (i + 1) ?m)) @ drop (i + 1 + k) ?m)"
    using Suc.prems by (intro Suc.IH) simp
  then show ?case using Suc.prems
    by (simp add: write_next [unfolded Suc_eq_plus1 [symmetric]] Cons_nth_drop_Suc [symmetric])
qed simp

lemma compress_ok:
  assumes "nat n * mode_channels (af_mode (as_input s)) \<le> length mem" and "0 \<le> n"
  shows "\<exists>mem' s'. audio_filter_compress n mem s = Ret (mem', s') \<and> length mem' = length mem \<and> filtered s s'"
proof -
  let ?k = "nat (n * int (mode_channels (af_mode (as_input s))))"
  have k: "0 + ?k \<le> length mem" using assms by (simp add: nat_mult_distrib)
  obtain m where m: "loudest ?k 0 mem 0 = Ret m" using loudest_ok [OF k] by blast
  show ?thesis using k m scale_samples_ok [OF k]
    by (auto simp: audio_filter_compress_def Let_def filtered_def aos_rest_def same_bufs_def eq_ok_def)
qed

lemma amp_ok:
  assumes "nat n * mode_channels (af_mode (as_input s)) \<le> length mem" and "0 \<le> n"
  shows "\<exists>mem'. audio_filter_amp n mem s = Ret mem' \<and> length mem' = length mem"
proof -
  let ?k = "nat (n * int (mode_channels (af_mode (as_input s))))"
  have k: "0 + ?k \<le> length mem" using assms by (simp add: nat_mult_distrib)
  show ?thesis using k scale_samples_ok [OF k] by (auto simp: audio_filter_amp_def Let_def)
qed

end
