(* ===== verification/Audio_Prepare.thy ===== *)
theory Audio_Prepare
  imports Audio_Heap
begin

text \<open>
  Filters and conversions on the buffers of the audio output: with room for the samples in the
  buffer, and numbers of frames that the resampler can work on, they return and write nothing but
  sample memory.
\<close>

section \<open>What they leave alone\<close>

definition frame_bufs :: "aos \<Rightarrow> nat set" where
  "frame_bufs s = {fst (as_frame_buf s), snd (as_frame_buf s)}"

definition bufs_ok :: "aos \<Rightarrow> bool" where
  "bufs_ok s \<longleftrightarrow>
     (\<forall>b B. as_buf s b = Some B \<longrightarrow> ab_mem_size B = int (length (ab_mem B))) \<and> fst (as_frame_buf s) \<noteq> snd (as_frame_buf s) \<and>
     frame_bufs s \<subseteq> dom (as_buf s)"

text \<open>A buffer without the values of its samples.\<close>

definition outline :: "audio_buffer \<Rightarrow> audio_buffer" where
  "outline B = B\<lparr>ab_mem := replicate (length (ab_mem B)) 0\<rparr>"

lemma outline_eq:
  "outline B' = outline B \<Longrightarrow> ab_num_frames B' = ab_num_frames B \<and> length (ab_mem B') = length (ab_mem B) \<and> ab_next B' = ab_next B \<and>
     ab_mem_size B' = ab_mem_size B \<and> ab_format B' = ab_format B \<and> ab_stream B' = ab_stream B \<and> ab_vpts B' = ab_vpts B \<and>
     ab_extra_info B' = ab_extra_info B"
  by (cases B', cases B) (simp add: outline_def replicate_eq_replicate)

lemma outline_mem: "length mem = length (ab_mem B) \<Longrightarrow> outline (B\<lparr>ab_mem := mem\<rparr>) = outline B"
  by (simp add: outline_def)

definition prepared :: "aos \<Rightarrow> aos \<Rightarrow> bool" where
  "prepared s s' \<longleftrightarrow>
     aos_rest s' = aos_rest s \<and> (eq_ok s \<longrightarrow> eq_ok s') \<and> (bufs_ok s \<longrightarrow> bufs_ok s') \<and> frame_bufs s' = frame_bufs s \<and>
     ab_nexts (as_buf s') = ab_nexts (as_buf s) \<and>
     (\<forall>b. b \<notin> frame_bufs s \<longrightarrow> map_option outline (as_buf s' b) = map_option outline (as_buf s b))"

lemma prepared_refl [simp]: "prepared s s"
  by (simp add: prepared_def)

lemma prepared_trans: "prepared s t \<Longrightarrow> prepared t u \<Longrightarrow> prepared s u"
  by (simp add: prepared_def)

lemma prepared_rest:
  assumes "aos_rest s' = aos_rest s" and "as_buf s' = as_buf s" and "as_frame_buf s' = as_frame_buf s" and "eq_ok s \<longrightarrow> eq_ok s'"
  shows "prepared s s'"
  using assms by (simp add: prepared_def bufs_ok_def frame_bufs_def)

lemma prepared_filtered: "filtered s s' \<Longrightarrow> prepared s s'"
  by (intro prepared_rest) (simp_all add: filtered_def same_bufs_def)

text \<open>Writing sample memory of the same length.\<close>

lemma prepared_mem:
  assumes "as_buf s b = Some B" and "length mem = length (ab_mem B)"
  shows "prepared s (put_buf b (B\<lparr>ab_mem := mem\<rparr>) s)"
  using assms by (auto simp: prepared_def put_buf_def aos_rest_def eq_ok_def bufs_ok_def frame_bufs_def ab_nexts_upd ab_nexts_def outline_mem fun_eq_iff)

lemma prepared_Some:
  assumes "prepared s s'" and "as_buf s b = Some B" and "b \<notin> frame_bufs s"
  shows "\<exists>B'. as_buf s' b = Some B' \<and> outline B' = outline B"
proof -
  have "map_option outline (as_buf s' b) = map_option outline (Some B)" using assms by (auto simp: prepared_def)
  then show ?thesis by (cases "as_buf s' b") auto
qed

section \<open>Filters\<close>

text \<open>Room for the samples in 16 bits, or in 8.\<close>

definition room :: "nat \<Rightarrow> nat \<Rightarrow> audio_buffer \<Rightarrow> bool" where
  "room width ch B \<longleftrightarrow>
     0 \<le> ab_num_frames B \<and> ab_num_frames B < 2 ^ 24 \<and> nat (ab_num_frames B) * ch * width \<le> length (ab_mem B)"

definition eq_room :: "nat \<Rightarrow> audio_buffer \<Rightarrow> bool" where
  "eq_room ch B \<longleftrightarrow> (0 < ab_num_frames B \<longrightarrow> 2 * nat (ab_num_frames B) + ch \<le> length (ab_mem B) div 2 + 2)"

lemma room_outline: "outline B' = outline B \<Longrightarrow> room w ch B' = room w ch B"
  using outline_eq [of B' B] by (simp add: room_def)

definition same_fb :: "aos \<Rightarrow> aos \<Rightarrow> bool" where
  "same_fb s s' \<longleftrightarrow> as_frame_buf s' = as_frame_buf s \<and> as_excess s' = as_excess s"

lemma filter_mem_ok:
  assumes "as_buf s b = Some B"
    and "on \<Longrightarrow> \<exists>mem' s'. f (ab_num_frames B) (words_of (ab_mem B)) s = Ret (mem', s') \<and>
        length mem' = length (words_of (ab_mem B)) \<and> filtered s s'"
  shows "\<exists>s'. filter_mem on f b s = Ret s' \<and> prepared s s' \<and> same_fb s s' \<and>
    (\<exists>B'. as_buf s' b = Some B' \<and> outline B' = outline B)"
proof (cases on)
  case True
  obtain ws s1 where 1: "f (ab_num_frames B) (words_of (ab_mem B)) s = Ret (ws, s1)" "length ws = length (ab_mem B) div 2" "filtered s s1"
    using assms(2) True by auto
  have b: "as_buf s1 b = Some B" "as_frame_buf s1 = as_frame_buf s" "as_excess s1 = as_excess s" using 1(3) assms(1) by (simp_all add: filtered_def same_bufs_def)
  let ?m = "set_words ws (ab_mem B)"
  have l: "length ?m = length (ab_mem B)" using 1(2) by (rule length_set_words)
  have "prepared s (put_buf b (B\<lparr>ab_mem := ?m\<rparr>) s1)"
    using prepared_trans [OF prepared_filtered [OF 1(3)] prepared_mem [OF b(1) l]] .
  then show ?thesis using True assms(1) 1(1) b outline_mem [OF l] by (simp add: filter_mem_def buf_at_def put_buf_def same_fb_def)
qed (use assms(1) in \<open>simp add: filter_mem_def same_fb_def\<close>)

lemma filter_samples_ok:
  assumes "eq_ok s" and "as_buf s b = Some B" and "af_bits (as_input s) = 16 \<Longrightarrow> room 2 (mode_channels (af_mode (as_input s))) B"
    and "af_bits (as_input s) = 16 \<and> as_do_equ s \<Longrightarrow> eq_room (mode_channels (af_mode (as_input s))) B"
  shows "\<exists>s'. filter_samples b s = Ret s' \<and> prepared s s' \<and> same_fb s s' \<and>
    (\<exists>B'. as_buf s' b = Some B' \<and> outline B' = outline B)"
proof (cases "af_bits (as_input s) = 16")
  case True
  let ?ch = "mode_channels (af_mode (as_input s))"
  have rm: "0 \<le> ab_num_frames B" "nat (ab_num_frames B) * ?ch \<le> length (ab_mem B) div 2"
    using assms(3) [OF True] by (auto simp: room_def)
  have "\<exists>s'. filter_mem (as_do_equ s) audio_filter_equalize b s = Ret s' \<and> prepared s s' \<and> same_fb s s' \<and>
    (\<exists>B'. as_buf s' b = Some B' \<and> outline B' = outline B)"
    by (intro filter_mem_ok assms equalize_ok) (use assms(4) True in \<open>simp add: eq_room_def\<close>)
  then obtain s1 B1 where 1: "filter_mem (as_do_equ s) audio_filter_equalize b s = Ret s1" "prepared s s1"
    "same_fb s s1" "as_buf s1 b = Some B1" "outline B1 = outline B" by auto
  note f1 = aos_rest_fields [of s1 s]
  have r1: "aos_rest s1 = aos_rest s" using 1(2) by (simp add: prepared_def)
  note B1 = outline_eq [OF 1(5)]
  have "\<exists>s'. filter_mem (as_do_compress s1) audio_filter_compress b s1 = Ret s' \<and> prepared s1 s' \<and> same_fb s1 s' \<and>
    (\<exists>B'. as_buf s' b = Some B' \<and> outline B' = outline B1)"
    by (intro filter_mem_ok 1 compress_ok) (use rm B1 f1 [OF r1] in simp_all)
  then obtain s2 B2 where 2: "filter_mem (as_do_compress s1) audio_filter_compress b s1 = Ret s2" "prepared s1 s2"
    "same_fb s1 s2" "as_buf s2 b = Some B2" "outline B2 = outline B1" by auto
  have r2: "aos_rest s2 = aos_rest s" using 2(2) r1 by (simp add: prepared_def)
  note f2 = aos_rest_fields [OF r2] and B2 = outline_eq [OF 2(5)]
  have "\<exists>mem'. audio_filter_amp (ab_num_frames B2) (words_of (ab_mem B2)) s2 = Ret mem' \<and> length mem' = length (words_of (ab_mem B2))"
    by (rule amp_ok) (use rm B1 B2 f2 in simp_all)
  then have "\<exists>s'. filter_mem (as_do_amp s2) (\<lambda>n mem s. obind (audio_filter_amp n mem s) (\<lambda>mem1. Ret (mem1, s))) b s2 = Ret s' \<and>
     prepared s2 s' \<and> same_fb s2 s' \<and> (\<exists>B'. as_buf s' b = Some B' \<and> outline B' = outline B2)"
    by (intro filter_mem_ok 2) auto
  then obtain s3 B3 where 3: "filter_mem (as_do_amp s2) (\<lambda>n mem s. obind (audio_filter_amp n mem s) (\<lambda>mem1. Ret (mem1, s))) b s2 = Ret s3"
    "prepared s2 s3" "same_fb s2 s3" "as_buf s3 b = Some B3" "outline B3 = outline B2" by auto
  have "prepared s s3" using prepared_trans [OF prepared_trans [OF 1(2) 2(2)] 3(2)] .
  then show ?thesis using True 1 2 3 by (simp add: filter_samples_def same_fb_def)
qed (use assms(2) in \<open>simp add: filter_samples_def same_fb_def\<close>)

section \<open>Conversions\<close>

text \<open>\<open>cur\<close> holds the samples; the conversion goes to the other buffer.\<close>

lemma convert_into_ok:
  assumes "bufs_ok s" and "as_buf s cur = Some B" and "cur \<noteq> snd (as_frame_buf s)"
    and "0 \<le> bpf" and "0 \<le> frames" and "bpf * frames < 2 ^ 31"
    and "\<And>dst. nat (bpf * frames) \<le> length dst \<Longrightarrow> \<exists>mem. conv (ab_mem B) dst = Ret mem \<and> length mem = length dst"
  shows "\<exists>cur' s' T. convert_into bpf frames conv cur s = Ret (cur', s') \<and> prepared s s' \<and> cur' \<noteq> snd (as_frame_buf s') \<and>
    cur' \<in> frame_bufs s \<and> as_buf s' cur' = Some T \<and> ab_num_frames T = frames \<and> nat (bpf * frames) \<le> length (ab_mem T)"
proof -
  let ?t = "snd (as_frame_buf s)" and ?sz = "bpf * frames"
  obtain T where T: "as_buf s ?t = Some T" using assms(1) by (auto simp: bufs_ok_def frame_bufs_def)
  have size: "ab_mem_size T = int (length (ab_mem T))" using assms(1) T by (auto simp: bufs_ok_def)
  have "0 \<le> ?sz" using assms(4,5) by simp
  then have sz: "s32 ?sz = ?sz" "0 \<le> ?sz" using assms(6) s32_id [of ?sz] by simp_all
  define T1 where "T1 = (if ab_mem_size T < ?sz
      then T\<lparr>ab_mem := ab_mem T @ replicate (nat ?sz - length (ab_mem T)) 0, ab_mem_size := ?sz\<rparr> else T)\<lparr>ab_num_frames := frames\<rparr>"
  have T1: "nat ?sz \<le> length (ab_mem T1)" "ab_mem_size T1 = int (length (ab_mem T1))" "ab_num_frames T1 = frames" "ab_next T1 = ab_next T"
    using size sz(2) by (auto simp: T1_def)
  obtain mem where mem: "conv (ab_mem B) (ab_mem T1) = Ret mem" "length mem = length (ab_mem T1)"
    using assms(7) [OF T1(1)] by blast
  let ?s1 = "put_buf ?t T1 s"
  let ?s' = "(put_buf ?t (T1\<lparr>ab_mem := mem\<rparr>) ?s1)\<lparr>as_frame_buf := (?t, fst (as_frame_buf s))\<rparr>"
  have e: "ensure_buffer_size ?t bpf frames s = Ret ?s1"
    using T sz by (simp add: ensure_buffer_size_def buf_at_def T1_def Let_def)
  have "convert_into bpf frames conv cur s = Ret (?t, ?s')"
    using assms(2,3) mem(1) by (simp add: convert_into_def e buf_at_def put_buf_def swap_frame_buffers_def Let_def)
  moreover have "prepared s ?s'"
    using T T1 mem(2) by (auto simp: prepared_def put_buf_def aos_rest_def eq_ok_def bufs_ok_def frame_bufs_def ab_nexts_upd ab_nexts_def fun_eq_iff)
  moreover have "?t \<noteq> snd (as_frame_buf ?s')" using assms(1) by (auto simp: bufs_ok_def)
  ultimately show ?thesis using T1 mem(2) by (intro exI [of _ ?t] exI [of _ ?s'] exI [of _ "T1\<lparr>ab_mem := mem\<rparr>"])
      (simp add: frame_bufs_def put_buf_def)
qed

lemma words_to_words_ok:
  assumes "\<exists>out. conv (words_of src) (words_of dst) = Ret out \<and> length out = length (words_of dst)"
  shows "\<exists>mem. words_to_words conv src dst = Ret mem \<and> length mem = length dst"
  using assms by (auto simp: words_to_words_def length_set_words)

text \<open>\<open>n\<close> frames of 16-bit samples in \<open>ch\<close> channels.\<close>

definition holds_words :: "aos \<Rightarrow> nat \<Rightarrow> int \<Rightarrow> nat \<Rightarrow> bool" where
  "holds_words s cur n ch \<longleftrightarrow>
     (\<exists>B. as_buf s cur = Some B \<and> ab_num_frames B = n \<and> nat n * ch * 2 \<le> length (ab_mem B)) \<and>
     cur \<noteq> snd (as_frame_buf s) \<and> 0 \<le> n \<and> n < 2 ^ 24"

text \<open>Where the samples are: in the buffer they came in, or in a conversion buffer.\<close>

definition in_place :: "aos \<Rightarrow> nat \<Rightarrow> nat \<Rightarrow> bool" where
  "in_place s b cur \<longleftrightarrow> cur = b \<or> cur \<in> frame_bufs s"

lemma convert_words_ok:
  assumes "bufs_ok s" and "as_buf s cur = Some B" and "cur \<noteq> snd (as_frame_buf s)" and "0 \<le> n" and "n < 2 ^ 24" and "ch \<le> 6"
    and "bpf = 2 * int ch"
    and "\<And>dst. nat n * ch \<le> length (words_of dst) \<Longrightarrow> \<exists>mem. conv (ab_mem B) dst = Ret mem \<and> length mem = length dst"
  shows "\<exists>cur' s'. convert_into bpf n conv cur s = Ret (cur', s') \<and> prepared s s' \<and> bufs_ok s' \<and> cur' \<in> frame_bufs s \<and>
    holds_words s' cur' n ch"
proof -
  have eq: "nat (bpf * n) = nat n * ch * 2" using assms(4,7) by (simp add: nat_mult_distrib)
  have bp: "0 \<le> bpf" using assms(7) by simp
  have "bpf * n \<le> 12 * n" using assms(4,6,7) by (intro mult_right_mono) simp_all
  then have lt: "bpf * n < 2 ^ 31" using assms(5) by simp
  have c: "\<exists>mem. conv (ab_mem B) dst = Ret mem \<and> length mem = length dst" if "nat (bpf * n) \<le> length dst" for dst
    by (rule assms(8)) (use that eq in simp)
  obtain cur' s' T where s': "convert_into bpf n conv cur s = Ret (cur', s')" "prepared s s'" "cur' \<noteq> snd (as_frame_buf s')"
    "cur' \<in> frame_bufs s" "as_buf s' cur' = Some T" "ab_num_frames T = n" "nat (bpf * n) \<le> length (ab_mem T)"
    using convert_into_ok [where conv = conv, OF assms(1-3) bp assms(4) lt c] by auto
  then have "holds_words s' cur' n ch" using assms(4,5) eq by (simp add: holds_words_def)
  then show ?thesis using s' assms(1) by (auto simp: prepared_def)
qed

definition after_stage :: "aos \<Rightarrow> nat \<Rightarrow> nat \<Rightarrow> aos \<Rightarrow> int \<Rightarrow> nat \<Rightarrow> bool" where
  "after_stage s cur cur' s' n ch \<longleftrightarrow> prepared s s' \<and> bufs_ok s' \<and> (cur' = cur \<or> cur' \<in> frame_bufs s) \<and> holds_words s' cur' n ch"

lemma after_stage_refl: "bufs_ok s \<Longrightarrow> holds_words s cur n ch \<Longrightarrow> after_stage s cur cur s n ch"
  by (simp add: after_stage_def)

lemma after_stage_trans:
  "after_stage s cur cur1 s1 n1 ch1 \<Longrightarrow> after_stage s1 cur1 cur2 s2 n2 ch2 \<Longrightarrow> after_stage s cur cur2 s2 n2 ch2"
  by (auto simp: after_stage_def prepared_def)

lemma convert_to_16_ok:
  assumes "bufs_ok s" and "as_buf s cur = Some B" and "cur \<noteq> snd (as_frame_buf s)"
    and "room (if af_bits (as_input s) = 8 then 1 else 2) (mode_channels (af_mode (as_input s))) B"
    and "af_bits (as_input s) = 8 \<Longrightarrow> resampling s \<or> af_bits (as_output s) \<noteq> 8 \<or> af_mode (as_input s) \<noteq> af_mode (as_output s)"
  shows "\<exists>cur' s'. convert_to_16 cur s = Ret (cur', s') \<and>
    after_stage s cur cur' s' (ab_num_frames B) (mode_channels (af_mode (as_input s)))"
proof (cases "af_bits (as_input s) = 8")
  case True
  let ?ch = "mode_channels (af_mode (as_input s))" and ?n = "ab_num_frames B"
  have rm: "0 \<le> ?n" "?n < 2 ^ 24" "nat ?n * ?ch \<le> length (ab_mem B)" using assms(4) True by (simp_all add: room_def)
  have e: "nat (int ?ch * ?n) = nat ?n * ?ch" by (simp add: nat_mult_distrib)
  have conv: "\<exists>mem. bytes_to_words (audio_out_resample_8to16 (nat (int ?ch * ?n)) 0) (ab_mem B) dst = Ret mem \<and> length mem = length dst"
    if "nat ?n * ?ch \<le> length (words_of dst)" for dst
    using that rm(3) resample_8to16_ok [of 0 "nat ?n * ?ch" "ab_mem B" "words_of dst"]
    by (auto simp: bytes_to_words_def e length_set_words)
  have "convert_to_16 cur s = convert_into (2 * int ?ch) ?n (bytes_to_words (audio_out_resample_8to16 (nat (int ?ch * ?n)) 0)) cur s"
    using True assms(2,5) by (simp add: convert_to_16_def buf_at_def Let_def)
  moreover have "\<exists>cur' s'. convert_into (2 * int ?ch) ?n (bytes_to_words (audio_out_resample_8to16 (nat (int ?ch * ?n)) 0)) cur s = Ret (cur', s') \<and>
      prepared s s' \<and> bufs_ok s' \<and> cur' \<in> frame_bufs s \<and> holds_words s' cur' ?n ?ch"
    by (rule convert_words_ok [OF assms(1-3) rm(1,2) mode_channels_le refl]) (rule conv)
  ultimately show ?thesis unfolding after_stage_def by metis
next
  case False
  then have "holds_words s cur (ab_num_frames B) (mode_channels (af_mode (as_input s)))"
    using assms(2-4) by (simp add: holds_words_def room_def)
  then show ?thesis using False assms(1) after_stage_refl by (auto simp: convert_to_16_def)
qed

lemma resample_conv_ok:
  assumes "2 \<le> n" and "n \<le> 65537" and "3 \<le> m" and "m < 2 ^ 24" and "0 < ch" and "ch \<le> 6"
    and "nat n * ch * 2 \<le> length src" and "nat m * ch \<le> length (words_of dst)"
  shows "\<exists>mem. words_to_words (\<lambda>src dst. resample_channels ch src (word_of_int n) dst (word_of_int m)) src dst = Ret mem \<and> length mem = length dst"
proof (rule words_to_words_ok)
  have n: "(word_of_int n :: u32) = of_nat (nat n)" "(word_of_int m :: u32) = of_nat (nat m)" using assms(1,3) by simp_all
  have "ch * nat n \<le> 6 * 65537" using assms(2,6) by (intro mult_le_mono) simp_all
  then have b1: "ch * nat n < 2 ^ 32" by simp
  have "ch * nat m \<le> 6 * 2 ^ 24" using assms(4,6) by (intro mult_le_mono) simp_all
  then have b2: "ch * nat m < 2 ^ 32" by simp
  have c: "2 \<le> nat n" "nat n \<le> 65537" "3 \<le> nat m" using assms(1-3) by simp_all
  have l: "nat n * ch \<le> length (words_of src)" "nat m * ch \<le> length (words_of dst)" using assms(7,8) by simp_all
  show "\<exists>out. resample_channels ch (words_of src) (word_of_int n) (words_of dst) (word_of_int m) = Ret out \<and> length out = length (words_of dst)"
    unfolding n using resample_channels_exact [OF c b1 b2 assms(5) l] by blast
qed

definition frames_workable :: "aos \<Rightarrow> int \<Rightarrow> int \<Rightarrow> bool" where
  "frames_workable s n m \<longleftrightarrow> (resampling s \<and> n \<noteq> m \<and> mode_channels (af_mode (as_input s)) \<noteq> 0 \<longrightarrow> 2 \<le> n \<and> n \<le> 65537 \<and> 3 \<le> m \<and> m < 2 ^ 24)"

lemma resample_frames_ok:
  assumes "bufs_ok s" and "holds_words s cur n (mode_channels (af_mode (as_input s)))" and "frames_workable s n m"
  shows "\<exists>cur' s' n'. resample_frames m cur s = Ret (cur', s') \<and> after_stage s cur cur' s' n' (mode_channels (af_mode (as_input s)))"
proof -
  let ?mode = "af_mode (as_input s)" and ?ch = "mode_channels (af_mode (as_input s))"
  obtain B where B: "as_buf s cur = Some B" "ab_num_frames B = n" "nat n * ?ch * 2 \<le> length (ab_mem B)" "cur \<noteq> snd (as_frame_buf s)"
    using assms(2) by (auto simp: holds_words_def)
  let ?conv = "words_to_words (\<lambda>src dst. resample_channels ?ch src (word_of_int n) dst (word_of_int m))"
  show ?thesis
  proof (cases "resampling s \<and> n \<noteq> m \<and> ?ch \<noteq> 0")
    case True
    then have w: "2 \<le> n" "n \<le> 65537" "3 \<le> m" "m < 2 ^ 24" "0 < ?ch" using assms(3) by (simp_all add: frames_workable_def)
    have m: "0 \<le> m" using w(3) by simp
    have "resample_frames m cur s = convert_into (2 * int ?ch) m ?conv cur s"
      using True B by (auto simp: resample_frames_def buf_at_def Let_def mode_channels_def audio_out_resample_mono_def
          audio_out_resample_stereo_def audio_out_resample_4channel_def audio_out_resample_6channel_def
          AO_CAP_MODE_MONO_def AO_CAP_MODE_STEREO_def AO_CAP_MODE_4CHANNEL_def AO_CAP_MODE_4_1CHANNEL_def
          AO_CAP_MODE_5CHANNEL_def AO_CAP_MODE_5_1CHANNEL_def)
    moreover have "\<exists>cur' s'. convert_into (2 * int ?ch) m ?conv cur s = Ret (cur', s') \<and> prepared s s' \<and> bufs_ok s' \<and> cur' \<in> frame_bufs s \<and>
        holds_words s' cur' m ?ch"
      by (rule convert_words_ok [OF assms(1) B(1,4) m w(4) mode_channels_le refl])
         (rule resample_conv_ok [OF w mode_channels_le B(3)])
    ultimately show ?thesis unfolding after_stage_def by metis
  next
    case False
    then have "resample_frames m cur s = Ret (cur, s)"
      using B by (auto simp: resample_frames_def buf_at_def Let_def mode_channels_def split: if_splits)
    then show ?thesis using after_stage_refl [OF assms(1,2)] by blast
  qed
qed

text \<open>The output has the channels of the input, or it is stereo for mono or mono for stereo.\<close>

definition modes_match :: "aos \<Rightarrow> bool" where
  "modes_match s \<longleftrightarrow>
     af_mode (as_output s) = af_mode (as_input s) \<or>
     (af_mode (as_input s) = AO_CAP_MODE_MONO \<and> af_mode (as_output s) = AO_CAP_MODE_STEREO) \<or>
     (af_mode (as_input s) = AO_CAP_MODE_STEREO \<and> af_mode (as_output s) = AO_CAP_MODE_MONO)"

lemma mode_channels_simps [simp]:
  "mode_channels AO_CAP_MODE_MONO = 1" "mode_channels AO_CAP_MODE_STEREO = 2" "AO_CAP_MODE_MONO \<noteq> AO_CAP_MODE_STEREO"
  "AO_CAP_MODE_STEREO \<noteq> AO_CAP_MODE_MONO"
  by (simp_all add: mode_channels_def AO_CAP_MODE_MONO_def AO_CAP_MODE_STEREO_def)

lemma convert_mode_ok:
  assumes "bufs_ok s" and "holds_words s cur n (mode_channels (af_mode (as_input s)))" and "modes_match s"
  shows "\<exists>cur' s'. convert_mode cur s = Ret (cur', s') \<and> after_stage s cur cur' s' n (mode_channels (af_mode (as_output s)))"
proof -
  obtain B where B: "as_buf s cur = Some B" "ab_num_frames B = n" "nat n * mode_channels (af_mode (as_input s)) * 2 \<le> length (ab_mem B)"
    "cur \<noteq> snd (as_frame_buf s)" "0 \<le> n" "n < 2 ^ 24"
    using assms(2) by (auto simp: holds_words_def)
  consider (up) "af_mode (as_input s) = AO_CAP_MODE_MONO" "af_mode (as_output s) = AO_CAP_MODE_STEREO"
    | (down) "af_mode (as_input s) = AO_CAP_MODE_STEREO" "af_mode (as_output s) = AO_CAP_MODE_MONO"
    | (same) "af_mode (as_output s) = af_mode (as_input s)"
    using assms(3) by (auto simp: modes_match_def)
  then show ?thesis
  proof cases
    case up
    have "\<exists>cur' s'. convert_into 4 n (words_to_words (audio_out_resample_monotostereo (nat n) 0)) cur s = Ret (cur', s') \<and> prepared s s' \<and>
        bufs_ok s' \<and> cur' \<in> frame_bufs s \<and> holds_words s' cur' n 2"
    proof (rule convert_words_ok [OF assms(1) B(1,4-6)])
      fix dst :: "u8 list" assume "nat n * 2 \<le> length (words_of dst)"
      then show "\<exists>mem. words_to_words (audio_out_resample_monotostereo (nat n) 0) (ab_mem B) dst = Ret mem \<and> length mem = length dst"
        using B(3) up resample_monotostereo_ok [of 0 "nat n" "words_of (ab_mem B)" "words_of dst"]
        by (intro words_to_words_ok) simp
    qed simp_all
    moreover have "convert_mode cur s = convert_into 4 n (words_to_words (audio_out_resample_monotostereo (nat n) 0)) cur s"
      using up B by (simp add: convert_mode_def buf_at_def Let_def)
    ultimately show ?thesis unfolding after_stage_def up mode_channels_simps by metis
  next
    case down
    have "\<exists>cur' s'. convert_into 2 n (words_to_words (audio_out_resample_stereotomono (nat n) 0)) cur s = Ret (cur', s') \<and> prepared s s' \<and>
        bufs_ok s' \<and> cur' \<in> frame_bufs s \<and> holds_words s' cur' n 1"
    proof (rule convert_words_ok [OF assms(1) B(1,4-6)])
      fix dst :: "u8 list" assume "nat n * 1 \<le> length (words_of dst)"
      then show "\<exists>mem. words_to_words (audio_out_resample_stereotomono (nat n) 0) (ab_mem B) dst = Ret mem \<and> length mem = length dst"
        using B(3) down resample_stereotomono_ok [of 0 "nat n" "words_of (ab_mem B)" "words_of dst"]
        by (intro words_to_words_ok) simp
    qed simp_all
    moreover have "convert_mode cur s = convert_into 2 n (words_to_words (audio_out_resample_stereotomono (nat n) 0)) cur s"
      using down B by (simp add: convert_mode_def buf_at_def Let_def)
    ultimately show ?thesis unfolding after_stage_def down mode_channels_simps by metis
  next
    case same
    then have "convert_mode cur s = Ret (cur, s)" using B by (auto simp: convert_mode_def buf_at_def Let_def)
    moreover have "after_stage s cur cur s n (mode_channels (af_mode (as_output s)))"
      unfolding same by (rule after_stage_refl [OF assms(1,2)])
    ultimately show ?thesis by blast
  qed
qed

lemma convert_to_8_ok:
  assumes "bufs_ok s" and "holds_words s cur n (mode_channels (af_mode (as_output s)))"
  shows "\<exists>cur' s'. convert_to_8 cur s = Ret (cur', s') \<and> prepared s s' \<and> bufs_ok s' \<and> (cur' = cur \<or> cur' \<in> frame_bufs s) \<and> as_buf s' cur' \<noteq> None"
proof -
  let ?ch = "mode_channels (af_mode (as_output s))"
  obtain B where B: "as_buf s cur = Some B" "ab_num_frames B = n" "nat n * ?ch * 2 \<le> length (ab_mem B)"
    "cur \<noteq> snd (as_frame_buf s)" "0 \<le> n" "n < 2 ^ 24"
    using assms(2) by (auto simp: holds_words_def)
  show ?thesis
  proof (cases "af_bits (as_output s) = 8 \<and> (resampling s \<or> af_mode (as_input s) \<noteq> af_mode (as_output s))")
    case True
    have e: "nat (int ?ch * n) = nat n * ?ch" by (simp add: nat_mult_distrib)
    have "int ?ch * n \<le> 6 * n" using B(5) mode_channels_le [of "af_mode (as_output s)"] by (intro mult_right_mono) simp_all
    then have lt: "int ?ch * n < 2 ^ 31" using B(6) by simp
    have conv: "\<exists>mem. words_to_bytes (audio_out_resample_16to8 (nat (int ?ch * n)) 0) (ab_mem B) dst = Ret mem \<and> length mem = length dst"
      if "nat (int ?ch * n) \<le> length dst" for dst
      using that B(3) resample_16to8_ok [of 0 "nat n * ?ch" "words_of (ab_mem B)" dst] unfolding words_to_bytes_def e by simp
    have "convert_to_8 cur s = convert_into (int ?ch) n (words_to_bytes (audio_out_resample_16to8 (nat (int ?ch * n)) 0)) cur s"
      using True B by (simp add: convert_to_8_def buf_at_def Let_def)
    moreover have "\<exists>cur' s' T. convert_into (int ?ch) n (words_to_bytes (audio_out_resample_16to8 (nat (int ?ch * n)) 0)) cur s = Ret (cur', s') \<and>
        prepared s s' \<and> cur' \<noteq> snd (as_frame_buf s') \<and> cur' \<in> frame_bufs s \<and> as_buf s' cur' = Some T \<and> ab_num_frames T = n \<and>
        nat (int ?ch * n) \<le> length (ab_mem T)"
      by (rule convert_into_ok [OF assms(1) B(1,4) _ B(5) lt]) (simp, rule conv)
    ultimately show ?thesis using assms(1) by (auto simp: prepared_def)
  next
    case False
    then have "convert_to_8 cur s = Ret (cur, s)" by (auto simp: convert_to_8_def)
    then show ?thesis using assms(1) B(1) by simp
  qed
qed

section \<open>All of it\<close>

text \<open>
  What the buffer must have: room for its frames, more of it when the equalizer is on, and numbers
  of frames that the resampler can work on.
\<close>

definition frames_out :: "audio_buffer \<Rightarrow> aos \<Rightarrow> int" where
  "frames_out B s = rtrunc (of_int (ab_num_frames B) * as_rate_factor s * as_sync_factor s + as_excess s)"

definition width_of :: "ao_format \<Rightarrow> nat" where
  "width_of f = (if af_bits f = 8 then 1 else 2)"

definition can_prepare :: "audio_buffer \<Rightarrow> aos \<Rightarrow> bool" where
  "can_prepare B s \<longleftrightarrow>
     room (width_of (as_input s)) (mode_channels (af_mode (as_input s))) B \<and>
     (af_bits (as_input s) = 16 \<and> as_do_equ s \<longrightarrow> eq_room (mode_channels (af_mode (as_input s))) B) \<and>
     frames_workable s (ab_num_frames B) (frames_out B s) \<and> modes_match s"

lemma filtered_excess: "aos_rest (s\<lparr>as_excess := x\<rparr>) = aos_rest s"
  by (simp add: aos_rest_def)

lemma prepare_samples_ok:
  assumes "bufs_ok s" and "eq_ok s" and "as_buf s b = Some B" and "b \<notin> frame_bufs s" and "can_prepare B s"
  shows "\<exists>cur s'. prepare_samples b s = Ret (cur, s') \<and> prepared s s' \<and> (cur = b \<or> cur \<in> frame_bufs s) \<and> as_buf s' cur \<noteq> None"
proof -
  let ?ch = "mode_channels (af_mode (as_input s))"
  have rm: "room (width_of (as_input s)) ?ch B" and fw: "frames_workable s (ab_num_frames B) (frames_out B s)" and mm: "modes_match s"
    using assms(5) by (simp_all add: can_prepare_def)
  have "\<exists>s'. filter_samples b s = Ret s' \<and> prepared s s' \<and> same_fb s s' \<and>
    (\<exists>B'. as_buf s' b = Some B' \<and> outline B' = outline B)"
    by (rule filter_samples_ok [OF assms(2,3)]) (use assms(5) in \<open>simp_all add: can_prepare_def width_of_def\<close>)
  then obtain s1 B1 where 1: "filter_samples b s = Ret s1" "prepared s s1" "same_fb s s1" "as_buf s1 b = Some B1"
    "outline B1 = outline B" by auto
  have r1: "aos_rest s1 = aos_rest s" using 1(2) by (simp add: prepared_def)
  note f1 = aos_rest_fields [OF r1] and B1 = outline_eq [OF 1(5)]
  let ?m = "frames_out B s"
  obtain x where 2: "output_frames b s1 = Ret (?m, s1\<lparr>as_excess := x\<rparr>)"
    using 1(3,4) f1 B1 by (auto simp: output_frames_def buf_at_def frames_out_def same_fb_def Let_def)
  let ?s2 = "s1\<lparr>as_excess := x\<rparr>"
  have "prepared s1 ?s2" by (rule prepared_rest) (simp_all add: filtered_excess eq_ok_def)
  then have p2: "prepared s ?s2" by (rule prepared_trans [OF 1(2)])
  have r2: "aos_rest ?s2 = aos_rest s" using p2 by (simp add: prepared_def)
  note f2 = aos_rest_fields [OF r2]
  have b2: "bufs_ok ?s2" "frame_bufs ?s2 = frame_bufs s" "as_buf ?s2 b = Some B1" "b \<noteq> snd (as_frame_buf ?s2)"
    using p2 assms(1,4) 1(3,4) by (auto simp: prepared_def same_fb_def frame_bufs_def)
  show ?thesis
  proof (cases "af_bits (as_input s) = 8 \<and>
      \<not> (resampling s \<or> af_bits (as_output s) \<noteq> 8 \<or> af_mode (as_input s) \<noteq> af_mode (as_output s))")
    case True
    then have "convert_to_16 b ?s2 = Ret (b, ?s2)" "resample_frames ?m b ?s2 = Ret (b, ?s2)" "convert_mode b ?s2 = Ret (b, ?s2)"
      "convert_to_8 b ?s2 = Ret (b, ?s2)"
      using b2 f2 by (auto simp: convert_to_16_def resample_frames_def convert_mode_def convert_to_8_def resampling_def buf_at_def Let_def)
    then have "prepare_samples b s = Ret (b, ?s2)" using 1(1) 2 by (simp add: prepare_samples_def)
    then show ?thesis using p2 b2(3) by auto
  next
    case False
    have same: "resampling ?s2 = resampling s" using f2 by (simp add: resampling_def)
    have rm2: "room (if af_bits (as_input ?s2) = 8 then 1 else 2) (mode_channels (af_mode (as_input ?s2))) B1"
      using rm room_outline [OF 1(5)] f2 by (simp add: width_of_def)
    have c2: "af_bits (as_input ?s2) = 8 \<Longrightarrow>
        resampling ?s2 \<or> af_bits (as_output ?s2) \<noteq> 8 \<or> af_mode (as_input ?s2) \<noteq> af_mode (as_output ?s2)"
      using False f2 same by auto
    obtain c3 s3 where 3: "convert_to_16 b ?s2 = Ret (c3, s3)" "after_stage ?s2 b c3 s3 (ab_num_frames B1) (mode_channels (af_mode (as_input ?s2)))"
      using convert_to_16_ok [OF b2(1,3,4) rm2 c2] by blast
    have r3: "aos_rest s3 = aos_rest s" using 3(2) r2 by (simp add: after_stage_def prepared_def)
    note f3 = aos_rest_fields [OF r3]
    have h3: "bufs_ok s3" "holds_words s3 c3 (ab_num_frames B) (mode_channels (af_mode (as_input s3)))"
      using 3(2) B1 f2 f3 by (simp_all add: after_stage_def)
    have fw3: "frames_workable s3 (ab_num_frames B) ?m" using fw f3 by (simp add: frames_workable_def resampling_def)
    obtain c4 s4 n4 where 4: "resample_frames ?m c3 s3 = Ret (c4, s4)" "after_stage s3 c3 c4 s4 n4 (mode_channels (af_mode (as_input s3)))"
      using resample_frames_ok [OF h3 fw3] by blast
    have r4: "aos_rest s4 = aos_rest s" using 4(2) r3 by (simp add: after_stage_def prepared_def)
    note f4 = aos_rest_fields [OF r4]
    have h4: "bufs_ok s4" "holds_words s4 c4 n4 (mode_channels (af_mode (as_input s4)))" "modes_match s4"
      using 4(2) mm f3 f4 by (simp_all add: after_stage_def modes_match_def)
    obtain c5 s5 where 5: "convert_mode c4 s4 = Ret (c5, s5)" "after_stage s4 c4 c5 s5 n4 (mode_channels (af_mode (as_output s4)))"
      using convert_mode_ok [OF h4] by blast
    have r5: "aos_rest s5 = aos_rest s" using 5(2) r4 by (simp add: after_stage_def prepared_def)
    note f5 = aos_rest_fields [OF r5]
    have h5: "bufs_ok s5" "holds_words s5 c5 n4 (mode_channels (af_mode (as_output s5)))"
      using 5(2) f4 f5 by (simp_all add: after_stage_def)
    obtain c6 s6 where 6: "convert_to_8 c5 s5 = Ret (c6, s6)" "prepared s5 s6" "c6 = c5 \<or> c6 \<in> frame_bufs s5" "as_buf s6 c6 \<noteq> None"
      using convert_to_8_ok [OF h5] by blast
    note st = after_stage_trans [OF after_stage_trans [OF 3(2) 4(2)] 5(2)]
    have p5: "prepared s s5" using st p2 by (auto simp: after_stage_def intro: prepared_trans)
    have "prepare_samples b s = Ret (c6, s6)" using 1(1) 2 3(1) 4(1) 5(1) 6(1) by (simp add: prepare_samples_def)
    moreover have "prepared s s6" using prepared_trans [OF p5 6(2)] .
    moreover have "c6 = b \<or> c6 \<in> frame_bufs s"
      using st 6(3) p5 b2(2) by (auto simp: after_stage_def prepared_def)
    ultimately show ?thesis using 6(4) by blast
  qed
qed

end
