(* ===== verification/Audio_Inv.thy ===== *)
theory Audio_Inv
  imports Audio_Prepare
begin

text \<open>
  Where the buffers are: every one is free, waiting, or held by somebody; and each operation of
  the fifos under that.
\<close>

definition placed :: "aos \<Rightarrow> nat list \<Rightarrow> nat list \<Rightarrow> nat set \<Rightarrow> bool" where
  "placed s F Q H \<longleftrightarrow>
     fifo_is (as_buf s) (as_free s) F \<and> fifo_is (as_buf s) (as_out s) Q \<and> set F \<inter> set Q = {} \<and>
     (set F \<union> set Q) \<inter> H = {} \<and> (set F \<union> set Q \<union> H) \<inter> frame_bufs s = {} \<and>
     set F \<union> set Q \<union> H \<union> frame_bufs s = dom (as_buf s) \<and>
     (\<forall>b B. b \<in> H \<and> as_buf s b = Some B \<longrightarrow> ab_next B = None) \<and> bufs_ok s"

lemma placedD:
  assumes "placed s F Q H"
  shows "fifo_is (as_buf s) (as_free s) F" "fifo_is (as_buf s) (as_out s) Q" "set F \<inter> set Q = {}" "(set F \<union> set Q) \<inter> H = {}"
    "(set F \<union> set Q \<union> H) \<inter> frame_bufs s = {}" "set F \<union> set Q \<union> H \<union> frame_bufs s = dom (as_buf s)"
    "\<forall>b B. b \<in> H \<and> as_buf s b = Some B \<longrightarrow> ab_next B = None" "bufs_ok s"
  using assms by (simp_all add: placed_def)

lemma placed_held: "placed s F Q H \<Longrightarrow> b \<in> H \<Longrightarrow> \<exists>B. as_buf s b = Some B \<and> ab_next B = None \<and> b \<notin> frame_bufs s \<and> b \<notin> set F \<and> b \<notin> set Q"
  using placedD [of s F Q H] by blast

text \<open>Nothing of what \<open>placed\<close> looks at changes.\<close>

lemma placed_same:
  assumes "placed s F Q H" and "as_buf s' = as_buf s" and "as_free s' = as_free s" and "as_out s' = as_out s"
    and "as_frame_buf s' = as_frame_buf s"
  shows "placed s' F Q H"
  using assms by (simp add: placed_def bufs_ok_def frame_bufs_def)

lemma bufs_ok_views:
  assumes "bufs_ok s" and "bviews bs = bviews (as_buf s)" and "as_buf s' = bs" and "as_frame_buf s' = as_frame_buf s"
  shows "bufs_ok s'"
proof -
  have "ab_mem_size B = int (length (ab_mem B))" if B: "bs b = Some B" for b B
  proof -
    obtain C where C: "as_buf s b = Some C" "bview C = bview B" using bviews_Some [OF assms(2) [symmetric] B] by auto
    have "ab_mem_size C = int (length (ab_mem C))" using assms(1) C(1) by (simp add: bufs_ok_def)
    then show ?thesis using arg_cong [OF C(2), of ab_mem_size] arg_cong [OF C(2), of ab_mem] by simp
  qed
  then show ?thesis using assms bviews_dom [OF assms(2)] by (simp add: bufs_ok_def frame_bufs_def)
qed

text \<open>A change of links only.\<close>

lemma placed_take_out:
  assumes "placed s F (b # Q) H"
  shows "\<exists>bs q. fifo_remove_out s = Ret (b, s\<lparr>as_buf := bs, as_out := q\<rparr>) \<and> placed (s\<lparr>as_buf := bs, as_out := q\<rparr>) F Q (insert b H) \<and>
    bviews bs = bviews (as_buf s)"
proof -
  note C = placedD [OF assms]
  obtain B q where q: "as_buf s b = Some B"
    "fifo_remove_int (as_buf s, as_out s) = Ret (b, (as_buf s)(b \<mapsto> B\<lparr>ab_next := None\<rparr>), q)"
    "fifo_is ((as_buf s)(b \<mapsto> B\<lparr>ab_next := None\<rparr>)) q Q"
    using fifo_remove_int_ok [OF C(2)] by blast
  let ?bs = "(as_buf s)(b \<mapsto> B\<lparr>ab_next := None\<rparr>)"
  let ?s = "s\<lparr>as_buf := ?bs, as_out := q\<rparr>"
  have v: "bviews ?bs = bviews (as_buf s)" using q(1) by (simp add: bviews_upd)
  have d: "b \<notin> set Q" using fifo_distinct [OF C(2)] by simp
  have F: "fifo_is ?bs (as_free s) F"
    by (rule fifo_apart [OF C(1), of "[b]"]) (use C(3) in auto)
  have bo: "bufs_ok ?s" by (rule bufs_ok_views [OF C(8) v]) simp_all
  have dm: "dom ?bs = dom (as_buf s)" using q(1) by auto
  have fb: "frame_bufs ?s = frame_bufs s" by (simp add: frame_bufs_def)
  have "placed ?s F Q (insert b H)"
    unfolding placed_def fb using F q(3) C bo d dm by (auto split: if_splits)
  then show ?thesis using q(2) v by (intro exI [of _ ?bs] exI [of _ q]) (simp add: fifo_remove_out_def)
qed

lemma placed_take_free:
  assumes "placed s (b # F) Q H"
  shows "\<exists>bs q. fifo_remove_free s = Ret (b, s\<lparr>as_buf := bs, as_free := q\<rparr>) \<and> placed (s\<lparr>as_buf := bs, as_free := q\<rparr>) F Q (insert b H) \<and>
    bviews bs = bviews (as_buf s)"
proof -
  note C = placedD [OF assms]
  obtain B q where q: "as_buf s b = Some B"
    "fifo_remove_int (as_buf s, as_free s) = Ret (b, (as_buf s)(b \<mapsto> B\<lparr>ab_next := None\<rparr>), q)"
    "fifo_is ((as_buf s)(b \<mapsto> B\<lparr>ab_next := None\<rparr>)) q F"
    using fifo_remove_int_ok [OF C(1)] by blast
  let ?bs = "(as_buf s)(b \<mapsto> B\<lparr>ab_next := None\<rparr>)"
  let ?s = "s\<lparr>as_buf := ?bs, as_free := q\<rparr>"
  have v: "bviews ?bs = bviews (as_buf s)" using q(1) by (simp add: bviews_upd)
  have d: "b \<notin> set F" using fifo_distinct [OF C(1)] by simp
  have Q: "fifo_is ?bs (as_out s) Q"
    by (rule fifo_apart [OF C(2), of "[b]"]) (use C(3) in auto)
  have bo: "bufs_ok ?s" by (rule bufs_ok_views [OF C(8) v]) simp_all
  have dm: "dom ?bs = dom (as_buf s)" using q(1) by auto
  have fb: "frame_bufs ?s = frame_bufs s" by (simp add: frame_bufs_def)
  have "placed ?s F Q (insert b H)"
    unfolding placed_def fb using Q q(3) C bo d dm by (auto split: if_splits)
  then show ?thesis using q(2) v by (intro exI [of _ ?bs] exI [of _ q]) (simp add: fifo_remove_free_def)
qed

lemma placed_empty:
  "placed s F [] H \<Longrightarrow> fifo_remove_out s = Wait" "placed s [] Q H \<Longrightarrow> fifo_remove_free s = Wait"
  using fifo_remove_empty by (auto simp: placed_def fifo_remove_out_def fifo_remove_free_def)

lemma held_keep:
  assumes "\<forall>b B. b \<in> H \<and> bs b = Some B \<longrightarrow> ab_next B = None" and "H \<inter> set xs = {}" and "\<forall>c. c \<notin> set xs \<longrightarrow> bs' c = bs c"
  shows "\<forall>b B. b \<in> H - {x} \<and> bs' b = Some B \<longrightarrow> ab_next B = None"
proof (intro allI impI)
  fix b B assume a: "b \<in> H - {x} \<and> bs' b = Some B"
  then have "b \<notin> set xs" using assms(2) by blast
  then have "bs b = Some B" using a assms(3) by simp
  then show "ab_next B = None" using a assms(1) by blast
qed

lemma placed_put_free:
  assumes "placed s F Q H" and "b \<in> H"
  shows "\<exists>bs q. fifo_append_free b s = Ret (s\<lparr>as_buf := bs, as_free := q\<rparr>) \<and> placed (s\<lparr>as_buf := bs, as_free := q\<rparr>) (F @ [b]) Q (H - {b}) \<and>
    bviews bs = bviews (as_buf s)"
proof -
  note C = placedD [OF assms(1)]
  obtain B where B: "as_buf s b = Some B" "ab_next B = None" "b \<notin> frame_bufs s" "b \<notin> set F" "b \<notin> set Q"
    using placed_held [OF assms] by blast
  obtain bs q where q: "fifo_append_int b (as_buf s, as_free s) = Ret (bs, q)" "fifo_is bs q (F @ [b])" "bviews bs = bviews (as_buf s)"
    "\<forall>c. c \<notin> set F \<longrightarrow> bs c = as_buf s c"
    using fifo_append_int_ok [OF C(1) B(4,1,2)] by blast
  let ?s = "s\<lparr>as_buf := bs, as_free := q\<rparr>"
  have Q: "fifo_is bs (as_out s) Q" by (rule fifo_apart [OF C(2) q(4)]) (use C(3) in auto)
  have bo: "bufs_ok ?s" by (rule bufs_ok_views [OF C(8) q(3)]) simp_all
  have dm: "dom bs = dom (as_buf s)" using q(3) by (rule bviews_dom)
  have fb: "frame_bufs ?s = frame_bufs s" by (simp add: frame_bufs_def)
  have nx: "\<forall>c D. c \<in> H - {b} \<and> bs c = Some D \<longrightarrow> ab_next D = None"
    by (rule held_keep [OF C(7) _ q(4)]) (use C(4) in auto)
  have "placed ?s (F @ [b]) Q (H - {b})"
    unfolding placed_def fb using Q q(2) C(3-6) bo dm nx B assms(2) by auto
  then show ?thesis using q(1,3) by (intro exI [of _ bs] exI [of _ q]) (simp add: fifo_append_free_def)
qed

lemma placed_put_out:
  assumes "placed s F Q H" and "b \<in> H"
  shows "\<exists>bs q. fifo_append_out b s = Ret (s\<lparr>as_buf := bs, as_out := q\<rparr>) \<and> placed (s\<lparr>as_buf := bs, as_out := q\<rparr>) F (Q @ [b]) (H - {b}) \<and>
    bviews bs = bviews (as_buf s)"
proof -
  note C = placedD [OF assms(1)]
  obtain B where B: "as_buf s b = Some B" "ab_next B = None" "b \<notin> frame_bufs s" "b \<notin> set F" "b \<notin> set Q"
    using placed_held [OF assms] by blast
  obtain bs q where q: "fifo_append_int b (as_buf s, as_out s) = Ret (bs, q)" "fifo_is bs q (Q @ [b])" "bviews bs = bviews (as_buf s)"
    "\<forall>c. c \<notin> set Q \<longrightarrow> bs c = as_buf s c"
    using fifo_append_int_ok [OF C(2) B(5,1,2)] by blast
  let ?s = "s\<lparr>as_buf := bs, as_out := q\<rparr>"
  have F: "fifo_is bs (as_free s) F" by (rule fifo_apart [OF C(1) q(4)]) (use C(3) in auto)
  have bo: "bufs_ok ?s" by (rule bufs_ok_views [OF C(8) q(3)]) simp_all
  have dm: "dom bs = dom (as_buf s)" using q(3) by (rule bviews_dom)
  have fb: "frame_bufs ?s = frame_bufs s" by (simp add: frame_bufs_def)
  have nx: "\<forall>c D. c \<in> H - {b} \<and> bs c = Some D \<longrightarrow> ab_next D = None"
    by (rule held_keep [OF C(7) _ q(4)]) (use C(4) in auto)
  have "placed ?s F (Q @ [b]) (H - {b})"
    unfolding placed_def fb using F q(2) C(3-6) bo dm nx B assms(2) by auto
  then show ?thesis using q(1,3) by (intro exI [of _ bs] exI [of _ q]) (simp add: fifo_append_out_def)
qed

lemma placed_write:
  assumes "placed s F Q H" and "b \<in> H" and "ab_next B = None" and "ab_mem_size B = int (length (ab_mem B))"
  shows "placed (put_buf b B s) F Q H"
proof -
  note C = placedD [OF assms(1)]
  have b: "b \<notin> frame_bufs s" "b \<notin> set F" "b \<notin> set Q" using placed_held [OF assms(1,2)] by auto
  have F: "fifo_is ((as_buf s)(b \<mapsto> B)) (as_free s) F" by (rule fifo_apart [OF C(1), of "[b]"]) (use b in auto)
  have Q: "fifo_is ((as_buf s)(b \<mapsto> B)) (as_out s) Q" by (rule fifo_apart [OF C(2), of "[b]"]) (use b in auto)
  have dm: "dom ((as_buf s)(b \<mapsto> B)) = dom (as_buf s)" using C(6) assms(2) by auto
  have bo: "bufs_ok (put_buf b B s)" using C(8) assms(4) by (auto simp: bufs_ok_def put_buf_def frame_bufs_def)
  have fb: "frame_bufs (put_buf b B s) = frame_bufs s" by (simp add: frame_bufs_def put_buf_def)
  show ?thesis unfolding placed_def fb using F Q C(3-7) dm bo assms(3) by (auto simp: put_buf_def)
qed

lemma placed_prepared:
  assumes "placed s F Q H" and "prepared s s'"
  shows "placed s' F Q H"
proof -
  note C = placedD [OF assms(1)]
  have r: "aos_rest s' = aos_rest s" and nx: "ab_nexts (as_buf s') = ab_nexts (as_buf s)" and fb: "frame_bufs s' = frame_bufs s"
    and bo: "bufs_ok s'" using assms(2) C(8) by (auto simp: prepared_def)
  note f = aos_rest_fields [OF r]
  have F: "fifo_is (as_buf s') (as_free s') F" "fifo_is (as_buf s') (as_out s') Q"
    unfolding f using C(1,2) nx by (simp_all add: fifo_is_def)
  have dm: "dom (as_buf s') = dom (as_buf s)"
  proof -
    have "(as_buf s' b = None) = (as_buf s b = None)" for b using fun_cong [OF nx, of b]
      by (cases "as_buf s' b"; cases "as_buf s b") (simp_all add: ab_nexts_def)
    then show ?thesis by (auto simp: dom_def)
  qed
  have "ab_next B = None" if "b \<in> H" "as_buf s' b = Some B" for b B
  proof -
    note b = that
    obtain D where "as_buf s b = Some D" "ab_next D = None" using placed_held [OF assms(1) b(1)] by blast
    then show ?thesis using fun_cong [OF nx, of b] b(2) by (simp add: ab_nexts_def)
  qed
  then show ?thesis unfolding placed_def fb dm using F C(3-6) bo by blast
qed

section \<open>The invariant\<close>

text \<open>
  \<open>F\<close> and \<open>Q\<close> are the free and the waiting buffers, \<open>H\<close>
  those that somebody holds, among them \<open>W\<close>, that of the output loop, and
  \<open>sts\<close> the streams that have the port open. What waits has room for the frames it
  claims, in its format, and a stream that exists.
\<close>

definition fit_format :: "audio_buffer \<Rightarrow> bool" where
  "fit_format B \<longleftrightarrow>
     (ab_num_frames B \<noteq> 0 \<longrightarrow>
        room (width_of (ab_format B)) (mode_channels (af_mode (ab_format B))) B \<and> af_rate (ab_format B) \<noteq> 0)"

definition ready :: "aos \<Rightarrow> nat \<Rightarrow> bool" where
  "ready s b \<longleftrightarrow> (\<exists>B. as_buf s b = Some B \<and> fit_format B \<and> (\<forall>st. ab_stream B = Some st \<longrightarrow> as_stream s st \<noteq> None))"

definition streams_ok :: "aos \<Rightarrow> nat list \<Rightarrow> bool" where
  "streams_ok s sts \<longleftrightarrow> holds xl_is (as_streams s) sts \<and> set sts \<subseteq> dom (as_stream s)"

definition settings_ok :: "ao_driver option \<Rightarrow> aos \<Rightarrow> bool" where
  "settings_ok drv s \<longleftrightarrow>
     modes_match s \<and> (as_driver_open s \<longrightarrow> \<not> as_grab_only s) \<and> (as_loop_running s \<longrightarrow> \<not> as_grab_only s) \<and>
     (drv = None \<longleftrightarrow> as_grab_only s)"

definition ao_is :: "ao_driver option \<Rightarrow> aos \<Rightarrow> nat list \<Rightarrow> nat list \<Rightarrow> nat set \<Rightarrow> nat set \<Rightarrow> nat list \<Rightarrow> bool" where
  "ao_is drv s F Q H W sts \<longleftrightarrow>
     placed s F Q H \<and> set F \<union> set Q \<union> H = {..<NUM_AUDIO_BUFFERS} \<and> eq_ok s \<and> streams_ok s sts \<and> settings_ok drv s \<and>
     (\<forall>b \<in> set Q \<union> W. ready s b)"

lemma ao_isD:
  assumes "ao_is drv s F Q H W sts"
  shows "placed s F Q H" "set F \<union> set Q \<union> H = {..<NUM_AUDIO_BUFFERS}" "eq_ok s" "streams_ok s sts" "settings_ok drv s"
    "\<forall>b \<in> set Q \<union> W. ready s b"
  using assms by (simp_all add: ao_is_def)

lemma fit_format_view: "bview B' = bview B \<Longrightarrow> fit_format B' = fit_format B"
  by (cases B', cases B) (simp add: fit_format_def room_def bview_def)

lemma fit_format_outline: "outline B' = outline B \<Longrightarrow> fit_format B' = fit_format B"
  using outline_eq [of B' B] room_outline [of B' B] by (simp add: fit_format_def)

lemma ready_views:
  assumes "ready s b" and "bviews (as_buf s') = bviews (as_buf s)" and "dom (as_stream s) \<subseteq> dom (as_stream s')"
  shows "ready s' b"
proof -
  obtain B where B: "as_buf s b = Some B" "fit_format B" "\<forall>st. ab_stream B = Some st \<longrightarrow> as_stream s st \<noteq> None"
    using assms(1) by (auto simp: ready_def)
  obtain B' where B': "as_buf s' b = Some B'" "bview B' = bview B" using bviews_Some [OF assms(2) B(1)] by blast
  have "ab_stream B' = ab_stream B" using arg_cong [OF B'(2), of ab_stream] by simp
  then show ?thesis using B B' fit_format_view [OF B'(2)] assms(3) by (auto simp: ready_def)
qed

text \<open>Fields that the invariant does not look at.\<close>

lemma ao_is_fields:
  assumes "ao_is drv s F Q H W sts" and "as_buf s' = as_buf s" and "as_free s' = as_free s" and "as_out s' = as_out s"
    and "as_frame_buf s' = as_frame_buf s" and "eq_ok s'" and "as_streams s' = as_streams s"
    and "dom (as_stream s) \<subseteq> dom (as_stream s')" and "settings_ok drv s'"
  shows "ao_is drv s' F Q H W sts"
proof -
  note I = ao_isD [OF assms(1)]
  have "\<forall>b \<in> set Q \<union> W. ready s' b" using I(6) ready_views [of s _ s'] assms(2,8) by simp
  moreover have "streams_ok s' sts" using I(4) assms(7) subset_trans [OF _ assms(8)] by (simp add: streams_ok_def)
  ultimately show ?thesis using placed_same [OF I(1) assms(2-5)] I(2) assms(6,9) by (simp add: ao_is_def)
qed

text \<open>The same fields, but links.\<close>

lemma ao_is_links:
  assumes "ao_is drv s F Q H W sts" and "placed s' F' Q' H'" and "set F' \<union> set Q' \<union> H' = set F \<union> set Q \<union> H"
    and "bviews (as_buf s') = bviews (as_buf s)" and "eq_ok s'" and "as_streams s' = as_streams s"
    and "as_stream s' = as_stream s" and "settings_ok drv s'" and "\<forall>b \<in> set Q' \<union> W'. ready s b"
  shows "ao_is drv s' F' Q' H' W' sts"
proof -
  note I = ao_isD [OF assms(1)]
  have "\<forall>b \<in> set Q' \<union> W'. ready s' b" using assms(9) ready_views [of s _ s'] assms(4,7) by simp
  then show ?thesis using I(2,4) assms(2,3,5-8) by (simp add: ao_is_def streams_ok_def)
qed

lemma same_settings:
  "settings_ok drv s \<Longrightarrow> settings_ok drv (s\<lparr>as_buf := bs, as_out := q\<rparr>)" "settings_ok drv s \<Longrightarrow> settings_ok drv (s\<lparr>as_buf := bs, as_free := q\<rparr>)"
  "eq_ok s \<Longrightarrow> eq_ok (s\<lparr>as_buf := bs, as_out := q\<rparr>)" "eq_ok s \<Longrightarrow> eq_ok (s\<lparr>as_buf := bs, as_free := q\<rparr>)"
  by (simp_all add: settings_ok_def modes_match_def eq_ok_def)

lemma take_out_ok:
  assumes "ao_is drv s F (b # Q) H W sts"
  shows "\<exists>bs q. fifo_remove_out s = Ret (b, s\<lparr>as_buf := bs, as_out := q\<rparr>) \<and>
    ao_is drv (s\<lparr>as_buf := bs, as_out := q\<rparr>) F Q (insert b H) (insert b W) sts \<and> bviews bs = bviews (as_buf s)"
proof -
  note I = ao_isD [OF assms]
  obtain bs q where q: "fifo_remove_out s = Ret (b, s\<lparr>as_buf := bs, as_out := q\<rparr>)"
    "placed (s\<lparr>as_buf := bs, as_out := q\<rparr>) F Q (insert b H)" "bviews bs = bviews (as_buf s)"
    using placed_take_out [OF I(1)] by blast
  have "ao_is drv (s\<lparr>as_buf := bs, as_out := q\<rparr>) F Q (insert b H) (insert b W) sts"
    by (rule ao_is_links [OF assms q(2)]) (use q(3) I in \<open>simp_all add: same_settings\<close>)
  then show ?thesis using q by blast
qed

lemma take_free_ok:
  assumes "ao_is drv s (b # F) Q H W sts"
  shows "\<exists>bs q. fifo_remove_free s = Ret (b, s\<lparr>as_buf := bs, as_free := q\<rparr>) \<and>
    ao_is drv (s\<lparr>as_buf := bs, as_free := q\<rparr>) F Q (insert b H) W sts \<and> bviews bs = bviews (as_buf s)"
proof -
  note I = ao_isD [OF assms]
  obtain bs q where q: "fifo_remove_free s = Ret (b, s\<lparr>as_buf := bs, as_free := q\<rparr>)"
    "placed (s\<lparr>as_buf := bs, as_free := q\<rparr>) F Q (insert b H)" "bviews bs = bviews (as_buf s)"
    using placed_take_free [OF I(1)] by blast
  have "ao_is drv (s\<lparr>as_buf := bs, as_free := q\<rparr>) F Q (insert b H) W sts"
    by (rule ao_is_links [OF assms q(2)]) (use q(3) I in \<open>auto simp: same_settings\<close>)
  then show ?thesis using q by blast
qed

lemma put_free_ok:
  assumes "ao_is drv s F Q H W sts" and "b \<in> H"
  shows "\<exists>bs q. fifo_append_free b s = Ret (s\<lparr>as_buf := bs, as_free := q\<rparr>) \<and>
    ao_is drv (s\<lparr>as_buf := bs, as_free := q\<rparr>) (F @ [b]) Q (H - {b}) (W - {b}) sts \<and> bviews bs = bviews (as_buf s)"
proof -
  note I = ao_isD [OF assms(1)]
  obtain bs q where q: "fifo_append_free b s = Ret (s\<lparr>as_buf := bs, as_free := q\<rparr>)"
    "placed (s\<lparr>as_buf := bs, as_free := q\<rparr>) (F @ [b]) Q (H - {b})" "bviews bs = bviews (as_buf s)"
    using placed_put_free [OF I(1) assms(2)] by blast
  have "ao_is drv (s\<lparr>as_buf := bs, as_free := q\<rparr>) (F @ [b]) Q (H - {b}) (W - {b}) sts"
    by (rule ao_is_links [OF assms(1) q(2)]) (use q(3) I assms(2) in \<open>auto simp: same_settings\<close>)
  then show ?thesis using q by blast
qed

lemma put_out_ok:
  assumes "ao_is drv s F Q H W sts" and "b \<in> H" and "ready s b"
  shows "\<exists>bs q. fifo_append_out b s = Ret (s\<lparr>as_buf := bs, as_out := q\<rparr>) \<and>
    ao_is drv (s\<lparr>as_buf := bs, as_out := q\<rparr>) F (Q @ [b]) (H - {b}) W sts \<and> bviews bs = bviews (as_buf s)"
proof -
  note I = ao_isD [OF assms(1)]
  obtain bs q where q: "fifo_append_out b s = Ret (s\<lparr>as_buf := bs, as_out := q\<rparr>)"
    "placed (s\<lparr>as_buf := bs, as_out := q\<rparr>) F (Q @ [b]) (H - {b})" "bviews bs = bviews (as_buf s)"
    using placed_put_out [OF I(1) assms(2)] by blast
  have "ao_is drv (s\<lparr>as_buf := bs, as_out := q\<rparr>) F (Q @ [b]) (H - {b}) W sts"
    by (rule ao_is_links [OF assms(1) q(2)]) (use q(3) I assms(2,3) in \<open>auto simp: same_settings\<close>)
  then show ?thesis using q by blast
qed

lemma empty_waits:
  "ao_is drv s F [] H W sts \<Longrightarrow> fifo_remove_out s = Wait" "ao_is drv s [] Q H W sts \<Longrightarrow> fifo_remove_free s = Wait"
  using placed_empty by (blast dest: ao_isD(1))+

text \<open>Writing into a buffer that the loop does not have.\<close>

lemma write_ok:
  assumes "ao_is drv s F Q H W sts" and "b \<in> H" and "ab_next B = None" and "ab_mem_size B = int (length (ab_mem B))" and "b \<notin> W"
  shows "ao_is drv (put_buf b B s) F Q H W sts"
proof -
  note I = ao_isD [OF assms(1)]
  have "b \<notin> set Q" using placed_held [OF I(1) assms(2)] by blast
  then have "\<forall>c \<in> set Q \<union> W. ready (put_buf b B s) c" using I(6) assms(5) by (auto simp: ready_def put_buf_def)
  moreover have "streams_ok (put_buf b B s) sts" "eq_ok (put_buf b B s)" "settings_ok drv (put_buf b B s)"
    using I(3-5) by (simp_all add: streams_ok_def eq_ok_def settings_ok_def modes_match_def put_buf_def)
  ultimately show ?thesis using placed_write [OF I(1) assms(2-4)] I(2) by (simp add: ao_is_def)
qed

end
