(* ===== verification/Audio_Ops.thy ===== *)
theory Audio_Ops
  imports Audio_Inv
begin

text \<open>
  Each operation of the audio output keeps the invariant. What the code relies on in a driver: it
  opens at a rate that is not zero, and it does not fail to write.
\<close>

definition driver_works :: "ao_driver option \<Rightarrow> bool" where
  "driver_works drv \<longleftrightarrow>
     (case drv of
        None \<Rightarrow> True
      | Some D \<Rightarrow> (\<forall>calls bits rate mode. rate \<noteq> 0 \<longrightarrow> ad_open D calls bits rate mode \<noteq> 0) \<and>
          (\<forall>calls mem n. 0 \<le> ad_write D calls mem n))"

section \<open>Steps that leave the buffers alone\<close>

definition ao_still :: "aos \<Rightarrow> aos \<Rightarrow> bool" where
  "ao_still s s' \<longleftrightarrow>
     as_buf s' = as_buf s \<and> as_free s' = as_free s \<and> as_out s' = as_out s \<and> as_frame_buf s' = as_frame_buf s \<and>
     (as_eq_i s', as_eq_j s', as_eq_k s', as_eq_history s') = (as_eq_i s, as_eq_j s, as_eq_k s, as_eq_history s) \<and>
     length (as_eq_gain s') = length (as_eq_gain s) \<and>
     as_streams s' = as_streams s \<and> dom (as_stream s) \<subseteq> dom (as_stream s') \<and>
     as_grab_only s' = as_grab_only s \<and> (as_loop_running s' \<longrightarrow> as_loop_running s)"

lemma ao_still_refl [simp]: "ao_still s s"
  by (simp add: ao_still_def)

lemma ao_still_trans: "ao_still s t \<Longrightarrow> ao_still t u \<Longrightarrow> ao_still s u"
  unfolding ao_still_def by (auto simp del: not_None_eq)

lemma ao_still_bufs: "ao_still s s' \<Longrightarrow> as_buf s' = as_buf s"
  by (simp add: ao_still_def)

lemma ao_is_still:
  assumes "ao_is drv s F Q H W sts" and "ao_still s s'" and "settings_ok drv s'"
  shows "ao_is drv s' F Q H W sts"
proof (rule ao_is_fields [OF assms(1)])
  show "eq_ok s'" using ao_isD(3) [OF assms(1)] assms(2) by (simp add: ao_still_def eq_ok_def)
qed (use assms(2,3) in \<open>simp_all add: ao_still_def\<close>)

text \<open>Everything a step does but to the format of the driver.\<close>

definition unset :: "aos \<Rightarrow> aos \<Rightarrow> bool" where
  "unset s s' \<longleftrightarrow>
     ao_still s s' \<and> as_input s' = as_input s \<and> as_output s' = as_output s \<and> as_driver_open s' = as_driver_open s \<and>
     as_do_resample s' = as_do_resample s \<and> as_rate_factor s' = as_rate_factor s \<and> as_frames_per_kpts s' = as_frames_per_kpts s"

lemma unset_refl [simp]: "unset s s"
  by (simp add: unset_def)

lemma unset_trans: "unset s t \<Longrightarrow> unset t u \<Longrightarrow> unset s u"
  using ao_still_trans by (auto simp: unset_def)

lemma unset_settings: "unset s s' \<Longrightarrow> settings_ok drv s \<Longrightarrow> settings_ok drv s'"
  by (auto simp: unset_def ao_still_def settings_ok_def modes_match_def)

lemma ao_is_unset: "ao_is drv s F Q H W sts \<Longrightarrow> unset s s' \<Longrightarrow> ao_is drv s' F Q H W sts"
  using ao_is_still [of drv s F Q H W sts s'] unset_settings [of s s' drv] ao_isD(5) [of drv s F Q H W sts]
  by (simp add: unset_def)

lemma unset_call [simp]: "unset s (ao_call c s)"
  by (simp add: unset_def ao_still_def ao_call_def)

lemma unset_when_open [simp]: "unset s (when_open c s)"
  by (simp add: when_open_def)

lemma unset_burst: "unset s (write_pause_burst n s)"
proof (induction n s rule: write_pause_burst.induct)
  case (1 n s)
  show ?case
  proof (cases "n > 1536")
    case True
    then show ?thesis using 1 [OF True] unset_trans [OF unset_when_open] by (simp add: write_pause_burst.simps [of n])
  qed (simp add: write_pause_burst.simps [of n])
qed

lemma unset_silence: "unset s (fill_silence n s)"
proof (induction n s rule: fill_silence.induct)
  case (1 n s)
  have z: "fill_silence 0 t = t" for t by (simp add: fill_silence.simps)
  show ?case
  proof (cases "n > 0 \<and> as_discard s = 0")
    case True
    show ?thesis
    proof (cases "n > ZERO_BUF_SIZE")
      case big: True
      have "unset (when_open (A_silence ZERO_BUF_SIZE) s) (fill_silence (n - ZERO_BUF_SIZE) (when_open (A_silence ZERO_BUF_SIZE) s))"
        using 1(1) [OF True big] .
      then have "unset s (fill_silence (n - ZERO_BUF_SIZE) (when_open (A_silence ZERO_BUF_SIZE) s))"
        by (rule unset_trans [OF unset_when_open])
      then show ?thesis using True big by (simp add: fill_silence.simps [of n])
    next
      case False
      then show ?thesis using True by (simp add: fill_silence.simps [of n] z)
    qed
  next
    case False
    then show ?thesis by (auto simp: fill_silence.simps [of n])
  qed
qed

lemma unset_fill_gap: "unset s (ao_fill_gap n s)"
  by (simp add: ao_fill_gap_def Let_def unset_burst unset_silence)

lemma delay_unset: "delay_loop k D d s = Ret (d', s') \<Longrightarrow> unset s s'"
proof (induction k arbitrary: d s)
  case (Suc k)
  show ?case
  proof (cases "d < 0 \<and> as_loop_running s")
    case True
    then have "delay_loop k D (ad_delay D (as_calls (ao_fill_gap 10000 s))) (ao_fill_gap 10000 s) = Ret (d', s')"
      using Suc.prems by (simp add: Let_def)
    from unset_trans [OF unset_fill_gap Suc.IH [OF this]] show ?thesis .
  qed (use Suc.prems in auto)
qed simp

lemma delay_no_fault: "delay_loop k D d s \<noteq> Fault \<and> delay_loop k D d s \<noteq> Wait"
  by (induction k arbitrary: d s) (simp_all add: Let_def)

lemma loop_delay_ok:
  assumes "as_driver_open s \<longrightarrow> drv \<noteq> None"
  shows "loop_delay k drv s = Spin \<or> (\<exists>d s'. loop_delay k drv s = Ret (d, s') \<and> unset s s')"
proof (cases "as_driver_open s")
  case True
  then obtain D where D: "drv = Some D" using assms by auto
  have "delay_loop k D (ad_delay D (as_calls s)) s = Spin \<or>
      (\<exists>d s'. delay_loop k D (ad_delay D (as_calls s)) s = Ret (d, s') \<and> unset s s')"
    using delay_no_fault [of k D "ad_delay D (as_calls s)" s] delay_unset [of k D "ad_delay D (as_calls s)" s]
    by (cases "delay_loop k D (ad_delay D (as_calls s)) s") auto
  then show ?thesis using True D by (simp add: loop_delay_def)
qed (simp add: loop_delay_def)

section \<open>Settings\<close>

lemma change_settings_ok:
  assumes "settings_ok drv s" and "driver_works drv" and "rate \<noteq> 0"
  shows "\<exists>r s'. ao_change_settings drv bits rate mode s = Ret (r, s') \<and> r \<noteq> 0 \<and> ao_still s s' \<and> settings_ok drv s' \<and>
    as_input s' = \<lparr>af_bits = bits, af_rate = rate, af_mode = mode\<rparr>"
proof -
  let ?i = "\<lparr>af_bits = bits, af_rate = rate, af_mode = mode\<rparr>"
  let ?s0 = "(close_driver s)\<lparr>as_input := ?i\<rparr>"
  have s0: "ao_still s ?s0" "\<not> as_driver_open ?s0" "as_grab_only ?s0 = as_grab_only s" "as_loop_running ?s0 = as_loop_running s"
    by (simp_all add: close_driver_def ao_still_def when_open_def ao_call_def)
  have st: "cdiv (90000 * 32768) (uint rate) = Ret (90000 * 32768 sdiv uint rate)"
    using assms(3) by (simp add: cdiv_def uint_0_iff)
  show ?thesis
  proof (cases "as_grab_only s")
    case True
    then have o: "open_driver drv bits rate mode ?s0 = Ret (?i, ?s0)" using s0(3) by (simp add: open_driver_def)
    show ?thesis unfolding ao_change_settings_def o using assms(1,3) st s0 True
      by (auto simp: ao_still_def settings_ok_def modes_match_def)
  next
    case False
    then obtain D where D: "drv = Some D" using assms(1) by (auto simp: settings_ok_def)
    let ?r = "if as_force_rate ?s0 \<noteq> 0 then as_force_rate ?s0 else rate"
    let ?f = "\<lparr>af_bits = driver_bits D bits, af_rate = ad_open D (as_calls ?s0) (driver_bits D bits) ?r (driver_mode D mode), af_mode = driver_mode D mode\<rparr>"
    let ?s1 = "(ao_call (A_open (driver_bits D bits) ?r (driver_mode D mode)) ?s0)\<lparr>as_driver_open := True\<rparr>"
    have r: "?r \<noteq> 0" using assms(3) by simp
    have f: "af_rate ?f \<noteq> 0" using assms(2) r D by (simp add: driver_works_def)
    have o: "open_driver drv bits rate mode ?s0 = Ret (?f, ?s1)"
      using False s0(3) D by (simp add: open_driver_def Let_def)
    let ?s2 = "?s1\<lparr>as_last_vpts := 0, as_output := ?f,
               as_do_resample := (if as_resample_conf ?s1 = 1 then False else if as_resample_conf ?s1 = 2 then True else af_rate ?f \<noteq> rate),
               as_rate_factor := of_int (uint (af_rate ?f)) / of_int (uint rate),
               as_frames_per_kpts := uint (af_rate ?f * 1024 div 90000),
               as_audio_step := 90000 * 32768 sdiv uint rate\<rparr>"
    have e: "ao_change_settings drv bits rate mode s = Ret (af_rate ?f, ?s2)"
      unfolding ao_change_settings_def o obind.simps prod.case using f st by (simp only: if_False obind.simps)
    have "ao_still s ?s2" using s0(1) by (simp add: ao_still_def ao_call_def)
    moreover have "modes_match ?s2" by (auto simp: modes_match_def driver_mode_def Let_def ao_call_def)
    then have "settings_ok drv ?s2" using False D s0 by (simp add: settings_ok_def ao_call_def)
    moreover have "as_input ?s2 = ?i" by (simp add: ao_call_def)
    ultimately show ?thesis using e f by blast
  qed
qed

section \<open>The output loop\<close>

lemma ao_is_prepared:
  assumes "ao_is drv s F Q H W sts" and "W \<subseteq> H" and "prepared s s'"
  shows "ao_is drv s' F Q H W sts"
proof -
  note I = ao_isD [OF assms(1)]
  have r: "aos_rest s' = aos_rest s" using assms(3) by (simp add: prepared_def)
  note f = aos_rest_fields [OF r]
  have "ready s' b" if b: "b \<in> set Q \<union> W" for b
  proof -
    have "ready s b" using I(6) b by blast
    then obtain B where B: "as_buf s b = Some B" "fit_format B" "\<forall>st. ab_stream B = Some st \<longrightarrow> as_stream s st \<noteq> None"
      unfolding ready_def by blast
    have "b \<notin> frame_bufs s" using placedD(5) [OF I(1)] assms(2) b by blast
    then obtain B' where B': "as_buf s' b = Some B'" "outline B' = outline B" using prepared_Some [OF assms(3) B(1)] by blast
    then show ?thesis using B f outline_eq [OF B'(2)] fit_format_outline [OF B'(2)] by (simp add: ready_def)
  qed
  moreover have "eq_ok s'" using I(3) assms(3) by (simp add: prepared_def)
  moreover have "streams_ok s' sts" "settings_ok drv s'" using I(4,5) f by (simp_all add: streams_ok_def settings_ok_def modes_match_def)
  ultimately show ?thesis using placed_prepared [OF I(1) assms(3)] I(2) by (simp add: ao_is_def)
qed

lemma ao_is_list:
  assumes "ao_is drv s F Q H W sts" and "holds xl_is l sts'" and "set sts' \<subseteq> dom (as_stream s)"
  shows "ao_is drv (s\<lparr>as_streams := l\<rparr>) F Q H W sts'"
proof -
  note I = ao_isD [OF assms(1)]
  let ?s = "s\<lparr>as_streams := l\<rparr>"
  have "placed ?s F Q H" by (rule placed_same [OF I(1)]) simp_all
  moreover have "eq_ok ?s" "streams_ok ?s sts'" "settings_ok drv ?s" "\<forall>b \<in> set Q \<union> W. ready ?s b"
    using I(3,5,6) assms(2,3) by (simp_all add: eq_ok_def streams_ok_def settings_ok_def modes_match_def ready_def)
  ultimately show ?thesis using I(2) by (simp add: ao_is_def)
qed

lemma loop_take_ok:
  assumes "ao_is drv s F (b # Q) H W sts" and "lo_in_buf L = None"
  shows "\<exists>L' s'. loop_take (L, s) = Ret (L', s') \<and> lo_in_buf L' = Some b \<and> ao_is drv s' F Q (insert b H) (insert b W) sts"
  using take_out_ok [OF assms(1)] assms(2) by (auto simp: loop_take_def)

lemma release_in_buf_ok:
  assumes "ao_is drv s F Q H W sts" and "lo_in_buf L = Some b" and "b \<in> H"
  shows "\<exists>s'. release_in_buf (L, s) = Ret (L\<lparr>lo_in_buf := None\<rparr>, s') \<and> ao_is drv s' (F @ [b]) Q (H - {b}) (W - {b}) sts"
  using put_free_ok [OF assms(1,3)] assms(2) by (auto simp: release_in_buf_def)

text \<open>What a part of a turn does with the buffer of the loop: it keeps it, or gives it back.\<close>

definition kept_or_free ::
  "ao_driver option \<Rightarrow> nat \<Rightarrow> nat list \<Rightarrow> nat list \<Rightarrow> nat set \<Rightarrow> nat list \<Rightarrow> ao_local \<times> aos \<Rightarrow> bool" where
  "kept_or_free drv b F Q H sts x \<longleftrightarrow>
     (lo_in_buf (fst x) = Some b \<and> ao_is drv (snd x) F Q H {b} sts) \<or>
     (lo_in_buf (fst x) = None \<and> ao_is drv (snd x) (F @ [b]) Q (H - {b}) {} sts)"

lemma kept: "lo_in_buf L = Some b \<Longrightarrow> ao_is drv s F Q H {b} sts \<Longrightarrow> kept_or_free drv b F Q H sts (L, s)"
  by (simp add: kept_or_free_def)

lemma released:
  "ao_is drv s F Q H {b} sts \<Longrightarrow> lo_in_buf L = Some b \<Longrightarrow> b \<in> H \<Longrightarrow>
   \<exists>x. release_in_buf (L, s) = Ret x \<and> kept_or_free drv b F Q H sts x"
  using release_in_buf_ok [of drv s F Q H "{b}" sts L b] by (auto simp: kept_or_free_def)

lemma control_ok:
  assumes "settings_ok drv s"
  shows "\<exists>v s'. ao_control drv cmd s = Ret (v, s') \<and> unset s s'"
  using assms by (auto simp: ao_control_def settings_ok_def)

lemma loop_flush_ok:
  assumes "ao_is drv s F Q H {b} sts" and "lo_in_buf L = Some b" and "b \<in> H"
  shows "\<exists>go x. loop_flush drv (L, s) = Ret (go, x) \<and> kept_or_free drv b F Q H sts x"
proof -
  obtain v s0 where c: "ao_control drv AO_CTRL_FLUSH_BUFFERS s = Ret (v, s0)" "unset s s0"
    using control_ok [OF ao_isD(5) [OF assms(1)]] by blast
  define s1 where "s1 = (if as_flush s \<noteq> 0 then s0\<lparr>as_flush := as_flush s0 - 1\<rparr> else s)"
  have "unset s0 (s0\<lparr>as_flush := as_flush s0 - 1\<rparr>)" by (simp add: unset_def ao_still_def)
  then have "unset s s1" using unset_trans [OF c(2)] by (simp add: s1_def)
  then have s1: "ao_is drv s1 F Q H {b} sts" by (rule ao_is_unset [OF assms(1)])
  have e: "(if as_flush s \<noteq> 0 then obind (ao_control drv AO_CTRL_FLUSH_BUFFERS s) (\<lambda>(_, s1). Ret (s1\<lparr>as_flush := as_flush s1 - 1\<rparr>))
      else Ret s) = Ret s1" using c(1) by (simp add: s1_def)
  have f: "loop_flush drv (L, s) = (if as_discard s1 \<noteq> 0 then obind (release_in_buf (L, s1)) (\<lambda>y. Ret (False, y)) else Ret (True, L, s1))"
    by (simp add: loop_flush_def e del: if_split)
  show ?thesis using f released [OF s1 assms(2,3)] kept [OF assms(2) s1] by auto
qed

lemma loop_pause_ok:
  assumes "ao_is drv s F Q H {b} sts" and "lo_in_buf L = Some b" and "b \<in> H"
  shows "\<exists>go x. loop_pause t (L, s) = Ret (go, x) \<and> kept_or_free drv b F Q H sts x"
proof -
  obtain B where "as_buf s b = Some B" using placed_held [OF ao_isD(1) [OF assms(1)] assms(3)] by blast
  then show ?thesis using released [OF assms] kept [OF assms(2,1)] assms(2) by (auto simp: loop_pause_def buf_at_def)
qed

text \<open>After the settings the driver plays the format of the buffer.\<close>

lemma loop_settings_ok:
  assumes "ao_is drv s F Q H {b} sts" and "lo_in_buf L = Some b" and "as_buf s b = Some B" and "driver_works drv"
  shows "\<exists>s'. loop_settings drv (L, s) = Ret s' \<and> ao_still s s' \<and> ao_is drv s' F Q H {b} sts \<and>
    (ab_num_frames B \<noteq> 0 \<longrightarrow> as_input s' = ab_format B)"
proof (cases "ab_num_frames B \<noteq> 0 \<and> (\<not> as_driver_open s \<or> ab_format B \<noteq> as_input s)")
  case True
  have "af_rate (ab_format B) \<noteq> 0" using ao_isD(6) [OF assms(1)] assms(3) True by (auto simp: ready_def fit_format_def)
  from change_settings_ok [OF ao_isD(5) [OF assms(1)] assms(4) this, of "af_bits (ab_format B)" "af_mode (ab_format B)"]
  obtain r s' where s': "ao_change_settings drv (af_bits (ab_format B)) (af_rate (ab_format B)) (af_mode (ab_format B)) s = Ret (r, s')"
    "ao_still s s'" "settings_ok drv s'" "as_input s' = ab_format B" by auto
  then show ?thesis using True assms(2,3) ao_is_still [OF assms(1) s'(2,3)] by (simp add: loop_settings_def buf_at_def)
next
  case False
  then have "loop_settings drv (L, s) = Ret s" using assms(2,3) by (auto simp: loop_settings_def buf_at_def)
  then show ?thesis using False assms(1) by auto
qed

lemma loop_gap_ok:
  assumes "ao_is drv s F Q H {b} sts" and "as_buf s b = Some B"
  shows "\<exists>gap s'. loop_gap t d B s = Ret (gap, s') \<and> unset s s'"
proof -
  have st: "\<forall>st. ab_stream B = Some st \<longrightarrow> as_stream s st \<noteq> None" using ao_isD(6) [OF assms(1)] assms(2) by (auto simp: ready_def)
  have "\<exists>s1. loop_position t B s = Ret s1 \<and> unset s s1"
  proof (cases "ab_stream B")
    case (Some st)
    then obtain S where "as_stream s st = Some S" using st by auto
    then show ?thesis using Some by (auto simp: loop_position_def ao_stream_at_def put_ao_stream_def unset_def ao_still_def)
  qed (simp add: loop_position_def)
  then obtain s1 where s1: "loop_position t B s = Ret s1" "unset s s1" by blast
  have r: "unset s1 (snd (resample_rate_adjust g B s1))" for g
    by (auto simp: resample_rate_adjust_def rate_reset_def rate_measure_def Let_def unset_def ao_still_def)
  have "unset s1 (s1\<lparr>as_sync_factor := 1\<rparr>)" by (simp add: unset_def ao_still_def)
  then show ?thesis using s1 r unset_trans [OF s1(2)] by (auto simp: loop_gap_def Let_def)
qed

lemma adjust_ok:
  assumes "ao_is drv s F Q H W sts" and "length sts < k"
  shows "\<exists>L' s'. adjust_metronoms k gap t (L, s) = Ret (L', s') \<and> lo_in_buf L' = lo_in_buf L \<and> ao_is drv s' F Q H W sts \<and>
    as_calls s' = as_calls s"
proof -
  note I = ao_isD [OF assms(1)]
  have st: "holds xl_is (as_streams s) sts" "set sts \<subseteq> dom (as_stream s)" using I(4) by (simp_all add: streams_ok_def)
  have "\<exists>L' s'. fold_all (adjust_metronom gap t) xs (M, u) = Ret (L', s') \<and> lo_in_buf L' = lo_in_buf M \<and> unset u s' \<and>
      as_calls s' = as_calls u"
    if "set xs \<subseteq> dom (as_stream u)" for xs M u
    using that
  proof (induction xs arbitrary: M u)
    case (Cons x xs)
    obtain S where S: "as_stream u x = Some S" using Cons.prems by auto
    obtain M1 u1 where 1: "adjust_metronom gap t x (M, u) = Ret (M1, u1)" "lo_in_buf M1 = lo_in_buf M" "unset u u1" "as_calls u1 = as_calls u"
      using S by (auto simp: adjust_metronom_def ao_stream_at_def put_ao_stream_def unset_def ao_still_def)
    have "set xs \<subseteq> dom (as_stream u1)" using Cons.prems 1(3) by (auto simp: unset_def ao_still_def)
    from Cons.IH [OF this, of M1] 1 show ?case using unset_trans [OF 1(3)] by auto
  qed simp
  from this [OF st(2), of L] obtain L' u where
    u: "fold_all (adjust_metronom gap t) sts (L, s) = Ret (L', u)" "lo_in_buf L' = lo_in_buf L" "unset s u"
    "as_calls u = as_calls s" by blast
  obtain l where l: "visit_all xine_list_first_content xine_list_next_content (adjust_metronom gap t) k (as_streams s) (L, s) = Ret ((L', u), l)"
    "holds xl_is l sts"
    using xl.holds_visit [OF st(1) assms(2) u(1)] by blast
  have "ao_is drv (u\<lparr>as_streams := l\<rparr>) F Q H W sts"
    using ao_is_list [OF ao_is_unset [OF assms(1) u(3)] l(2)] st(2) u(3) by (auto simp: unset_def ao_still_def)
  then show ?thesis using l(1) u(2,4) by (simp add: adjust_metronoms_def)
qed

text \<open>The filters and the resampler can work on the buffer, beyond its room.\<close>

definition can_play :: "audio_buffer \<Rightarrow> aos \<Rightarrow> bool" where
  "can_play B s \<longleftrightarrow>
     (af_bits (as_input s) = 16 \<and> as_do_equ s \<longrightarrow> eq_room (mode_channels (af_mode (as_input s))) B) \<and>
     frames_workable s (ab_num_frames B) (frames_out B s)"

lemma loop_write_ok:
  assumes "ao_is drv s F Q H {b} sts" and "lo_in_buf L = Some b" and "b \<in> H" and "as_buf s b = Some B"
    and "ab_num_frames B \<noteq> 0" and "as_input s = ab_format B" and "can_play B s" and "drv \<noteq> None" and "driver_works drv"
  shows "\<exists>x. loop_write drv b (L, s) = Ret x \<and> kept_or_free drv b F Q H sts x"
proof -
  note I = ao_isD [OF assms(1)]
  have fb: "b \<notin> frame_bufs s" using placed_held [OF I(1) assms(3)] by blast
  have "room (width_of (as_input s)) (mode_channels (af_mode (as_input s))) B"
    using I(6) assms(4-6) by (auto simp: ready_def fit_format_def)
  then have "can_prepare B s" using assms(7) I(5) by (simp add: can_prepare_def can_play_def settings_ok_def)
  then obtain cur s1 where 1: "prepare_samples b s = Ret (cur, s1)" "prepared s s1" "as_buf s1 cur \<noteq> None"
    using prepare_samples_ok [OF placedD(8) [OF I(1)] I(3) assms(4) fb] by blast
  obtain T where T: "as_buf s1 cur = Some T" using 1(3) by blast
  obtain D where D: "drv = Some D" using assms(8) by blast
  have w: "\<not> ad_write D (as_calls s1) (ab_mem T) (ab_num_frames T) < 0"
    using assms(9) D by (simp add: driver_works_def not_less)
  have sub: "{b} \<subseteq> H" using assms(3) by simp
  have "ao_is drv (ao_call (A_write (ab_mem T) (ab_num_frames T)) s1) F Q H {b} sts"
    by (rule ao_is_unset [OF ao_is_prepared [OF assms(1) sub 1(2)] unset_call])
  from released [OF this assms(2,3)] show ?thesis using 1(1) T D w by (simp add: loop_write_def buf_at_def)
qed

lemma loop_decide_ok:
  assumes "ao_is drv s F Q H {b} sts" and "lo_in_buf L = Some b" and "b \<in> H" and "as_buf s b = Some B" and "length sts < k"
    and "ab_num_frames B \<noteq> 0 \<Longrightarrow> as_input s = ab_format B" and "ab_num_frames B \<noteq> 0 \<Longrightarrow> can_play B s" and "drv \<noteq> None" and "driver_works drv"
  shows "\<exists>x. loop_decide k drv t b B gap (L, s) = Ret x \<and> kept_or_free drv b F Q H sts x"
proof -
  have a: "\<exists>x. adjust_metronoms k gap t (L, s) = Ret x \<and> kept_or_free drv b F Q H sts x"
  proof -
    obtain L' s' where "adjust_metronoms k gap t (L, s) = Ret (L', s')" "lo_in_buf L' = lo_in_buf L" "ao_is drv s' F Q H {b} sts"
      using adjust_ok [OF assms(1,5)] by blast
    then show ?thesis using assms(2) by (auto simp: kept_or_free_def)
  qed
  have f: "kept_or_free drv b F Q H sts (L, ao_fill_gap gap s)"
    by (rule kept [OF assms(2) ao_is_unset [OF assms(1) unset_fill_gap]])
  show ?thesis
    using a f released [OF assms(1-3)] loop_write_ok [OF assms(1-4) _ assms(6,7,8,9)]
    by (simp add: loop_decide_def)
qed

text \<open>What the loop plays, once the driver has its settings and knows its delay.\<close>

definition play_state :: "nat \<Rightarrow> ao_driver option \<Rightarrow> int \<Rightarrow> ao_local \<times> aos \<Rightarrow> (audio_buffer \<times> aos) outcome" where
  "play_state k drv t x =
     obind (loop_settings drv x) (\<lambda>s1.
     obind (loop_delay k drv s1) (\<lambda>(delay, s2).
     obind (of_opt (lo_in_buf (fst x))) (\<lambda>b.
     obind (buf_at b s2) (\<lambda>B.
     obind (loop_gap t delay B s2) (\<lambda>(gap, s3). Ret (B, s3))))))"

definition may_play :: "nat \<Rightarrow> ao_driver option \<Rightarrow> int \<Rightarrow> ao_local \<times> aos \<Rightarrow> bool" where
  "may_play k drv t x \<longleftrightarrow>
     (case play_state k drv t x of Ret (B, s) \<Rightarrow> ab_num_frames B \<noteq> 0 \<longrightarrow> can_play B s | Spin \<Rightarrow> False | _ \<Rightarrow> True)"

lemma loop_play_ok:
  assumes "ao_is drv s F Q H {b} sts" and "lo_in_buf L = Some b" and "b \<in> H" and "length sts < k"
    and "may_play k drv t (L, s)" and "drv \<noteq> None" and "driver_works drv"
  shows "\<exists>x. loop_play k drv t (L, s) = Ret x \<and> kept_or_free drv b F Q H sts x"
proof -
  obtain B where B: "as_buf s b = Some B" using placed_held [OF ao_isD(1) [OF assms(1)] assms(3)] by blast
  obtain s1 where 1: "loop_settings drv (L, s) = Ret s1" "ao_still s s1" "ao_is drv s1 F Q H {b} sts"
    "ab_num_frames B \<noteq> 0 \<longrightarrow> as_input s1 = ab_format B"
    using loop_settings_ok [OF assms(1,2) B assms(7)] by blast
  have "loop_delay k drv s1 \<noteq> Spin"
  proof
    assume "loop_delay k drv s1 = Spin"
    then show False using assms(5) 1(1) by (simp add: may_play_def play_state_def)
  qed
  then obtain d s2 where 2: "loop_delay k drv s1 = Ret (d, s2)" "unset s1 s2"
    using loop_delay_ok [of s1 drv k] assms(6) by blast
  have i2: "ao_is drv s2 F Q H {b} sts" by (rule ao_is_unset [OF 1(3) 2(2)])
  have b2: "as_buf s2 b = Some B" using B 1(2) 2(2) by (simp add: unset_def ao_still_def)
  obtain gap s3 where 3: "loop_gap t d B s2 = Ret (gap, s3)" "unset s2 s3" using loop_gap_ok [OF i2 b2] by blast
  have i3: "ao_is drv s3 F Q H {b} sts" by (rule ao_is_unset [OF i2 3(2)])
  have b3: "as_buf s3 b = Some B" using b2 3(2) by (simp add: unset_def ao_still_def)
  have inp: "as_input s3 = as_input s1" using 2(2) 3(2) by (simp add: unset_def)
  have c3: "ab_num_frames B \<noteq> 0 \<longrightarrow> can_play B s3"
    using assms(5) 1(1) 2(1) 3(1) b2 assms(2) by (simp add: may_play_def play_state_def buf_at_def)
  have "\<exists>x. loop_decide k drv t b B gap (L, s3) = Ret x \<and> kept_or_free drv b F Q H sts x"
    by (rule loop_decide_ok [OF i3 assms(2,3) b3 assms(4) _ _ assms(6,7)]) (use 1(4) inp c3 in auto)
  then show ?thesis using 1(1) 2(1) 3(1) b2 assms(2) by (simp add: loop_play_def loop_output_def buf_at_def)
qed

end
