(* ===== verification/Audio_Port.thy ===== *)
theory Audio_Port
  imports Audio_Ops
begin

text \<open>
  What decoders and frontends do with the audio output keeps the invariant: buffers, opening and
  closing, flushing, properties, and taking the samples without a driver.
\<close>

section \<open>Buffers\<close>

lemma get_buffer_ok:
  assumes "ao_is drv s (b # F) Q H W sts" and "W \<subseteq> H"
  shows "\<exists>s'. ao_get_buffer s = Ret (b, s') \<and> ao_is drv s' F Q (insert b H) W sts"
proof -
  obtain bs q where q: "fifo_remove_free s = Ret (b, s\<lparr>as_buf := bs, as_free := q\<rparr>)"
    "ao_is drv (s\<lparr>as_buf := bs, as_free := q\<rparr>) F Q (insert b H) W sts"
    using take_free_ok [OF assms(1)] by blast
  let ?s = "s\<lparr>as_buf := bs, as_free := q\<rparr>"
  obtain B where B: "as_buf ?s b = Some B" "ab_next B = None" using placed_held [OF ao_isD(1) [OF q(2)]] by blast
  have "ab_mem_size B = int (length (ab_mem B))" using placedD(8) [OF ao_isD(1) [OF q(2)]] B(1) by (simp add: bufs_ok_def)
  moreover have "b \<notin> W" using assms(2) placedD(4) [OF ao_isD(1) [OF assms(1)]] by auto
  ultimately have "ao_is drv (put_buf b (B\<lparr>ab_extra_info := extra_info_reset\<rparr>) ?s) F Q (insert b H) W sts"
    using write_ok [OF q(2), of b "B\<lparr>ab_extra_info := extra_info_reset\<rparr>"] B(2) by simp
  then show ?thesis using q(1) B(1) by (simp add: ao_get_buffer_def buf_at_def)
qed

text \<open>The counter of samples since the last stamp, times 4, must not be a multiple of 2^32.\<close>

definition audio_stamps :: "metronom \<Rightarrow> bool" where
  "audio_stamps m \<longleftrightarrow> mt_audio_samples m \<noteq> 0 \<longrightarrow> s32 (mt_audio_samples m * 4) \<noteq> 0"

lemma got_audio_returns: "audio_stamps m \<Longrightarrow> \<exists>v m'. metronom_got_audio_samples pts n m = Ret (v, m')"
proof -
  assume a: "audio_stamps m"
  have d: "\<exists>m2. audio_drift diff (m\<lparr>mt_last_audio_pts := pts\<rparr>) = Ret m2" for diff
    using a by (auto simp: audio_drift_def cdiv_def audio_stamps_def Let_def)
  have "\<exists>m1. audio_predict pts m = Ret m1"
  proof (cases "\<bar>mt_audio_vpts m - (pts + mt_vpts_offset m)\<bar> > AUDIO_DRIFT_TOLERANCE \<or> mt_force_audio_jump m")
    case False
    then show ?thesis using d [of "mt_audio_vpts m - (pts + mt_vpts_offset m)"] by (auto simp: audio_predict_def Let_def)
  qed (auto simp: audio_predict_def Let_def)
  then show ?thesis by (cases "pts \<noteq> 0 \<and> pts \<noteq> mt_last_audio_pts m") (auto simp: metronom_got_audio_samples_def Let_def)
qed

text \<open>What a decoder may put: frames that have room, in the format that its stream was opened with.\<close>

definition may_put :: "nat \<Rightarrow> nat \<Rightarrow> aos \<Rightarrow> bool" where
  "may_put b st s \<longleftrightarrow>
     (case (as_buf s b, as_stream s st) of
        (Some B, Some S) \<Rightarrow>
          ab_num_frames B \<noteq> 0 \<longrightarrow>
            room (width_of \<lparr>af_bits = sa_bits S, af_rate = sa_rate S, af_mode = sa_mode S\<rparr>) (mode_channels (sa_mode S)) B \<and>
            sa_rate S \<noteq> 0 \<and> audio_stamps (sa_metronom S)
      | _ \<Rightarrow> False)"

lemma put_buffer_ok:
  assumes "ao_is drv s F Q H W sts" and "b \<in> H" and "b \<notin> W" and "may_put b st s"
  shows "\<exists>s' F' Q'. ao_put_buffer b st s = Ret s' \<and> ao_is drv s' F' Q' (H - {b}) W sts \<and>
    (F' = F @ [b] \<and> Q' = Q \<or> F' = F \<and> Q' = Q @ [b])"
proof -
  have Wb: "W - {b} = W" using assms(3) by simp
  obtain B S where B: "as_buf s b = Some B" and S: "as_stream s st = Some S"
    using assms(4) by (auto simp: may_put_def split: option.splits)
  note mp = assms(4) [unfolded may_put_def B S option.case prod.case]
  show ?thesis
  proof (cases "ab_num_frames B = 0")
    case True
    then show ?thesis using put_free_ok [OF assms(1,2)] B unfolding Wb by (auto simp: ao_put_buffer_def buf_at_def)
  next
    case False
    obtain v m where vm: "metronom_got_audio_samples (ab_vpts B) (ab_num_frames B) (sa_metronom S) = Ret (v, m)"
      using got_audio_returns [of "sa_metronom S"] mp False by blast
    let ?f = "\<lparr>af_bits = sa_bits S, af_rate = sa_rate S, af_mode = sa_mode S\<rparr>"
    let ?B = "B\<lparr>ab_stream := Some st, ab_format := ?f, ab_vpts := v,
        ab_extra_info := (extra_info_merge (ab_extra_info B) (sa_decoder_info S))\<lparr>ei_vpts := v\<rparr>\<rparr>"
    let ?s0 = "put_buf b ?B s"
    let ?s1 = "put_ao_stream st (S\<lparr>sa_metronom := m\<rparr>) ?s0"
    note I = ao_isD [OF assms(1)]
    have n: "ab_next B = None" using placed_held [OF I(1) assms(2)] B by auto
    have ms: "ab_mem_size B = int (length (ab_mem B))" using placedD(8) [OF I(1)] B by (simp add: bufs_ok_def)
    have i0: "ao_is drv ?s0 F Q H W sts" by (rule write_ok [OF assms(1,2) _ _ assms(3)]) (use n ms in simp_all)
    have u: "unset ?s0 ?s1" using S by (auto simp: unset_def ao_still_def put_ao_stream_def put_buf_def)
    have i1: "ao_is drv ?s1 F Q H W sts" by (rule ao_is_unset [OF i0 u])
    have r: "ready ?s1 b" using mp False S by (auto simp: ready_def fit_format_def room_def put_ao_stream_def put_buf_def)
    have d: "as_discard ?s1 = as_discard s" by (simp add: put_ao_stream_def put_buf_def)
    have e: "ao_put_buffer b st s = obind (if as_discard s = 0 then fifo_append_out b ?s1 else fifo_append_free b ?s1)
        (\<lambda>s2. Ret (s2\<lparr>as_last_vpts := v\<rparr>))"
      using B S False vm by (simp add: ao_put_buffer_def buf_at_def ao_stream_at_def Let_def d del: if_split)
    have last: "ao_is drv t F' Q' H' W sts \<Longrightarrow> ao_is drv (t\<lparr>as_last_vpts := v\<rparr>) F' Q' H' W sts" for t F' Q' H'
      by (erule ao_is_unset) (simp add: unset_def ao_still_def)
    show ?thesis
    proof (cases "as_discard s = 0")
      case True
      then show ?thesis using e put_out_ok [OF i1 assms(2) r] last by fastforce
    next
      case False
      then show ?thesis using e put_free_ok [OF i1 assms(2)] last unfolding Wb by fastforce
    qed
  qed
qed

section \<open>Opening and closing\<close>

lemma wait_empty_cases: "fifo_wait_empty reading q = Ret () \<or> fifo_wait_empty reading q = Wait"
  by (simp add: fifo_wait_empty_def)

lemma ao_open_ok:
  assumes "ao_is drv s F Q H W sts" and "as_stream s st \<noteq> None" and "rate \<noteq> 0" and "driver_works drv"
  shows "ao_open drv reading st bits rate mode s = Wait \<or>
    (\<exists>r s'. ao_open drv reading st bits rate mode s = Ret (r, s') \<and> ao_is drv s' F Q H W (sts @ [st]))"
proof -
  let ?f = "\<lparr>af_bits = bits, af_rate = rate, af_mode = mode\<rparr>"
  let ?change = "\<not> as_driver_open s \<or> as_input s \<noteq> ?f"
  let ?wait = "if as_loop_running s then fifo_wait_empty reading (as_out s) else Ret ()"
  have w: "?wait = Ret () \<or> ?wait = Wait" using wait_empty_cases by simp
  obtain r s1 where c: "ao_change_settings drv bits rate mode s = Ret (r, s1)" "r \<noteq> 0" "ao_still s s1" "settings_ok drv s1"
    using change_settings_ok [OF ao_isD(5) [OF assms(1)] assms(4,3)] by blast
  let ?first = "if ?change then obind ?wait (\<lambda>_. ao_change_settings drv bits rate mode s) else Ret (1, s)"
  have "?first = Wait \<or> (\<exists>r s1. ?first = Ret (r, s1) \<and> r \<noteq> 0 \<and> ao_still s s1 \<and> settings_ok drv s1)"
  proof (cases ?change)
    case True
    then show ?thesis using w c by auto
  qed (use ao_isD(5) [OF assms(1)] in auto)
  then show ?thesis
  proof (elim disjE exE conjE)
    assume "?first = Wait"
    then have "ao_open drv reading st bits rate mode s = Wait" unfolding ao_open_def by (simp only: obind.simps)
    then show ?thesis by blast
  next
    fix r s1 assume f: "?first = Ret (r, s1)" "r \<noteq> 0" "ao_still s s1" "settings_ok drv s1"
    have i1: "ao_is drv s1 F Q H W sts" by (rule ao_is_still [OF assms(1) f(3,4)])
    have st1: "st \<in> dom (as_stream s1)" using assms(2) f(3) by (auto simp: ao_still_def)
    then obtain S where S: "as_stream s1 st = Some S" by blast
    have ss: "holds xl_is (as_streams s1) sts" "set sts \<subseteq> dom (as_stream s1)" using ao_isD(4) [OF i1] by (simp_all add: streams_ok_def)
    obtain l where l: "xine_list_append_content (Some st) (as_streams s1) = Ret l" "holds xl_is l (sts @ [st])"
      using xl.holds_append [OF ss(1)] by blast
    let ?s2 = "s1\<lparr>as_streams := l\<rparr>"
    have i2: "ao_is drv ?s2 F Q H W (sts @ [st])" by (rule ao_is_list [OF i1 l(2)]) (use ss(2) st1 in simp)
    let ?S = "S\<lparr>sa_mode := mode, sa_channels := stream_channels mode, sa_bits := bits, sa_rate := rate,
        sa_metronom := metronom_set_audio_rate (as_audio_step s1) (sa_metronom S)\<rparr>"
    have "ao_open drv reading st bits rate mode s = Ret (af_rate (as_output s1), put_ao_stream st ?S ?s2)"
      unfolding ao_open_def f(1) using f(2) l(1) S by (simp add: ao_stream_at_def)
    moreover have "ao_is drv (put_ao_stream st ?S ?s2) F Q H W (sts @ [st])"
      by (rule ao_is_unset [OF i2]) (auto simp: unset_def ao_still_def put_ao_stream_def)
    ultimately show ?thesis by blast
  qed
qed

lemma close_stream_ok:
  assumes "ao_is drv s F Q H W sts" and "length sts < k"
  shows "\<exists>r s'. ao_close_stream k st s = Ret (r, s') \<and> ao_is drv s' F Q H W (remove1 st sts)"
proof -
  have ss: "holds xl_is (as_streams s) sts" "set sts \<subseteq> dom (as_stream s)" using ao_isD(4) [OF assms(1)] by (simp_all add: streams_ok_def)
  obtain l where l: "search xine_list_first_content xine_list_next_content (\<lambda>cur. cur = st) k (as_streams s) =
      Ret (if st \<in> set sts then Some st else None, l)" "holds xl_is l sts"
    "st \<in> set sts \<Longrightarrow> \<exists>l2. xine_list_delete_current l = Ret l2 \<and> holds xl_is l2 (remove1 st sts)"
    using xl.holds_search_delete [OF ss(1) assms(2), of "\<lambda>cur. cur = st"] unfolding find_eq remove1_split
    by (cases "st \<in> set sts") auto
  obtain l1 where l1: "(if st \<in> set sts then xine_list_delete_current l else Ret l) = Ret l1" "holds xl_is l1 (remove1 st sts)"
    using l(2,3) by (cases "st \<in> set sts") (auto simp: remove1_idem)
  obtain c l2 where l2: "xine_list_first_content l1 = Ret (c, l2)" "holds xl_is l2 (remove1 st sts)"
    using xl.holds_first [OF l1(2)] by blast
  have "ao_close_stream k st s = Ret (c = None \<and> \<not> as_grab_only s, s\<lparr>as_streams := l2\<rparr>)"
    using l(1) l1(1) l2(1) by (auto simp: ao_close_stream_def split: if_splits)
  moreover have "ao_is drv (s\<lparr>as_streams := l2\<rparr>) F Q H W (remove1 st sts)"
    by (rule ao_is_list [OF assms(1) l2(2)]) (use ss(2) set_remove1_subset [of st sts] in blast)
  ultimately show ?thesis by blast
qed

lemma ao_still_close: "ao_still s (close_driver s)"
  by (simp add: close_driver_def ao_still_def when_open_def ao_call_def)

lemma close_driver_ok: "ao_is drv s F Q H W sts \<Longrightarrow> ao_is drv (close_driver s) F Q H W sts"
  by (rule ao_is_still [OF _ ao_still_close])
     (auto dest!: ao_isD(5) simp: settings_ok_def modes_match_def close_driver_def when_open_def ao_call_def)

section \<open>Flushing and properties\<close>

lemma dummy_ok:
  assumes "ao_is drv s (b # F) Q H W sts" and "W \<subseteq> H"
  shows "\<exists>s'. dummy_buffer s = Ret s' \<and> ao_is drv s' F (Q @ [b]) H W sts"
proof -
  have b: "b \<notin> H" using placedD(4) [OF ao_isD(1) [OF assms(1)]] by auto
  obtain bs q where q: "fifo_remove_free s = Ret (b, s\<lparr>as_buf := bs, as_free := q\<rparr>)"
    "ao_is drv (s\<lparr>as_buf := bs, as_free := q\<rparr>) F Q (insert b H) W sts"
    using take_free_ok [OF assms(1)] by blast
  let ?s = "s\<lparr>as_buf := bs, as_free := q\<rparr>"
  obtain B where B: "as_buf ?s b = Some B" "ab_next B = None" using placed_held [OF ao_isD(1) [OF q(2)]] by blast
  have ms: "ab_mem_size B = int (length (ab_mem B))" using placedD(8) [OF ao_isD(1) [OF q(2)]] B(1) by (simp add: bufs_ok_def)
  let ?B = "B\<lparr>ab_num_frames := 0, ab_stream := None\<rparr>"
  have i: "ao_is drv (put_buf b ?B ?s) F Q (insert b H) W sts"
    by (rule write_ok [OF q(2)]) (use B ms b assms(2) in auto)
  have r: "ready (put_buf b ?B ?s) b" by (simp add: ready_def put_buf_def fit_format_def)
  have "insert b H - {b} = H" using b by simp
  then obtain s' where "fifo_append_out b (put_buf b ?B ?s) = Ret s'" "ao_is drv s' F (Q @ [b]) H W sts"
    using put_out_ok [OF i _ r] by auto
  then show ?thesis using q(1) B(1) by (auto simp: dummy_buffer_def buf_at_def)
qed

lemma discard_ok:
  "ao_is drv s F Q H W sts \<Longrightarrow> length Q < k \<Longrightarrow> W = {} \<Longrightarrow>
   \<exists>s'. discard_out k s = Ret s' \<and> ao_is drv s' (F @ Q) [] H W sts \<and> as_discard s' = as_discard s"
proof (induction k arbitrary: s F Q)
  case (Suc k)
  show ?case
  proof (cases Q)
    case Nil
    then have "aq_first (as_out s) = None" using fifo_first [OF placedD(2) [OF ao_isD(1) [OF Suc.prems(1)]]] by simp
    then show ?thesis using Nil Suc.prems(1) by simp
  next
    case (Cons b R)
    have f: "aq_first (as_out s) \<noteq> None" using fifo_first [OF placedD(2) [OF ao_isD(1) [OF Suc.prems(1)]]] Cons by simp
    have i: "ao_is drv s F (b # R) H W sts" using Suc.prems(1) Cons by simp
    obtain bs q where q: "fifo_remove_out s = Ret (b, s\<lparr>as_buf := bs, as_out := q\<rparr>)"
      "ao_is drv (s\<lparr>as_buf := bs, as_out := q\<rparr>) F R (insert b H) (insert b W) sts"
      using take_out_ok [OF i] by blast
    have b: "b \<notin> H" using placedD(4) [OF ao_isD(1) [OF i]] by auto
    have e: "insert b H - {b} = H" "insert b W - {b} = W" using b Suc.prems(3) by simp_all
    obtain s2 where p: "fifo_append_free b (s\<lparr>as_buf := bs, as_out := q\<rparr>) = Ret s2"
      "ao_is drv s2 (F @ [b]) R H W sts" "as_discard s2 = as_discard s"
      using put_free_ok [OF q(2), of b] unfolding e by auto
    have "length R < k" using Suc.prems(2) Cons by simp
    from Suc.IH [OF p(2) this Suc.prems(3)] obtain s' where
      "discard_out k s2 = Ret s'" "ao_is drv s' ((F @ [b]) @ R) [] H W sts" "as_discard s' = as_discard s"
      using p(3) by auto
    then show ?thesis using f q(1) p(1) Cons by (auto simp del: not_None_eq)
  qed
qed simp

text \<open>Fields that only the filters and the loop's tests read.\<close>

lemma unset_fields [simp]:
  "unset s (s\<lparr>as_compression_max := x, as_do_compress := b\<rparr>)" "unset s (s\<lparr>as_amp := x, as_do_amp := b\<rparr>)"
  "unset s (s\<lparr>as_discard := d\<rparr>)" "unset s (s\<lparr>as_paused := d\<rparr>)" "unset s (s\<lparr>as_discard := d, as_flush := e\<rparr>)"
  "unset s (s\<lparr>as_sync_method := b, as_sync_info := i\<rparr>)"
  "length g = length (as_eq_gain s) \<Longrightarrow> unset s (s\<lparr>as_eq_gain := g, as_do_equ := b\<rparr>)"
  by (simp_all add: unset_def ao_still_def)

lemma set_eq_gain_ok:
  assumes "eq_ok s" and "is_eq_prop p"
  shows "\<exists>s'. set_eq_gain p v s = Ret (v, s') \<and> unset s s'"
proof -
  have "nat (p - AO_PROP_EQ_30HZ) < length (as_eq_gain s)"
    using assms by (auto simp: eq_ok_def is_eq_prop_def AO_PROP_EQ_30HZ_def AO_PROP_EQ_16000HZ_def EQ_BANDS_def)
  then show ?thesis by (simp add: set_eq_gain_def Let_def)
qed

lemma ao_set_property_ok:
  assumes "ao_is drv s F Q H W sts" and "length Q < k" and "as_grab_only s \<Longrightarrow> W = {}"
  shows "\<exists>r s' F' Q'. ao_set_property k drv p v s = Ret (r, s') \<and> ao_is drv s' F' Q' H W sts \<and> set F' \<union> set Q' = set F \<union> set Q"
proof -
  note I = ao_isD [OF assms(1)]
  have u: "\<exists>F' Q'. ao_is drv s' F' Q' H W sts \<and> set F' \<union> set Q' = set F \<union> set Q" if "unset s s'" for s'
    using ao_is_unset [OF assms(1) that] by blast
  consider (comp) "p = AO_PROP_COMPRESSOR" | (amp) "p = AO_PROP_AMP" | (eq) "is_eq_prop p" | (disc) "p = AO_PROP_DISCARD_BUFFERS"
    | (paused) "p = AO_PROP_PAUSED" | (cls) "p = AO_PROP_CLOSE_DEVICE"
    | (other) "p \<noteq> AO_PROP_COMPRESSOR" "p \<noteq> AO_PROP_AMP" "\<not> is_eq_prop p" "p \<noteq> AO_PROP_DISCARD_BUFFERS" "p \<noteq> AO_PROP_PAUSED"
        "p \<noteq> AO_PROP_CLOSE_DEVICE" by blast
  then show ?thesis
  proof cases
    case comp
    then show ?thesis using u by (simp add: ao_set_property_def Let_def)
  next
    case amp
    then show ?thesis using u by (simp add: ao_set_property_def Let_def AO_PROP_AMP_def AO_PROP_COMPRESSOR_def)
  next
    case eq
    then have "ao_set_property k drv p v s = set_eq_gain p v s"
      by (auto simp: ao_set_property_def is_eq_prop_def AO_PROP_AMP_def AO_PROP_COMPRESSOR_def AO_PROP_EQ_30HZ_def AO_PROP_EQ_16000HZ_def)
    then show ?thesis using set_eq_gain_ok [OF I(3) eq] u by metis
  next
    case disc
    let ?d = "as_discard s + (if v \<noteq> 0 then 1 else - 1)"
    have e: "ao_set_property k drv p v s = obind (if as_grab_only s \<and> ?d \<noteq> 0 then discard_out k (s\<lparr>as_discard := ?d\<rparr>) else Ret (s\<lparr>as_discard := ?d\<rparr>))
        (\<lambda>s2. Ret (?d, s2))"
      using disc by (simp add: ao_set_property_def AO_PROP_AMP_def AO_PROP_COMPRESSOR_def AO_PROP_DISCARD_BUFFERS_def is_eq_prop_def
          AO_PROP_EQ_30HZ_def AO_PROP_EQ_16000HZ_def Let_def del: if_split)
    show ?thesis
    proof (cases "as_grab_only s \<and> ?d \<noteq> 0")
      case True
      have W: "W = {}" using assms(3) True by simp
      have "ao_is drv (s\<lparr>as_discard := ?d\<rparr>) F Q H W sts" by (rule ao_is_unset [OF assms(1)]) simp
      from discard_ok [OF this assms(2) W] obtain s' where "discard_out k (s\<lparr>as_discard := ?d\<rparr>) = Ret s'" "ao_is drv s' (F @ Q) [] H W sts" by blast
      then show ?thesis unfolding e using True by (intro exI [of _ ?d] exI [of _ s'] exI [of _ "F @ Q"] exI [of _ "[]"]) simp
    next
      case False
      then have "ao_set_property k drv p v s = Ret (?d, s\<lparr>as_discard := ?d\<rparr>)" unfolding e by (simp only: if_False obind.simps)
      then show ?thesis using u [of "s\<lparr>as_discard := ?d\<rparr>"] by (metis unset_fields(3))
    qed
  next
    case paused
    then show ?thesis using u [of "s\<lparr>as_paused := v\<rparr>"] by (simp add: ao_set_property_def AO_PROP_AMP_def AO_PROP_COMPRESSOR_def
        AO_PROP_DISCARD_BUFFERS_def AO_PROP_PAUSED_def is_eq_prop_def AO_PROP_EQ_30HZ_def AO_PROP_EQ_16000HZ_def)
  next
    case cls
    then have "ao_set_property k drv p v s = Ret (0, close_driver s)" by (simp add: ao_set_property_def AO_PROP_AMP_def AO_PROP_COMPRESSOR_def
        AO_PROP_DISCARD_BUFFERS_def AO_PROP_PAUSED_def AO_PROP_CLOSE_DEVICE_def is_eq_prop_def AO_PROP_EQ_30HZ_def AO_PROP_EQ_16000HZ_def)
    then show ?thesis using close_driver_ok [OF assms(1)] by blast
  next
    case other
    show ?thesis
    proof (cases "as_grab_only s")
      case True
      then show ?thesis using other assms(1) by (auto simp: ao_set_property_def)
    next
      case False
      then obtain D where "drv = Some D" using I(5) by (auto simp: settings_ok_def)
      then have "\<exists>r. ao_set_property k drv p v s = Ret (r, ao_call (A_set_property p v) s)"
        using other False by (simp add: ao_set_property_def)
      then show ?thesis using u [OF unset_call] by metis
    qed
  qed
qed

lemma ao_status_ok:
  assumes "ao_is drv s F Q H W sts" and "length sts < k"
  shows "\<exists>r s'. ao_status k st s = Ret (r, s') \<and> ao_is drv s' F Q H W sts"
proof -
  have ss: "holds xl_is (as_streams s) sts" "set sts \<subseteq> dom (as_stream s)" using ao_isD(4) [OF assms(1)] by (simp_all add: streams_ok_def)
  obtain c l where l: "search xine_list_first_content xine_list_next_content (\<lambda>cur. Some cur = st \<or> st = None) k (as_streams s) = Ret (c, l)"
    "holds xl_is l sts"
    using xl.holds_search_delete [OF ss(1) assms(2)] by blast
  then show ?thesis using ao_is_list [OF assms(1) l(2) ss(2)] by (simp add: ao_status_def)
qed

section \<open>Taking samples without a driver\<close>

definition may_grab :: "aos \<Rightarrow> bool" where
  "may_grab s \<longleftrightarrow>
     (case fifo_remove_out s of
        Ret (b, s1) \<Rightarrow> (case as_buf s1 b of None \<Rightarrow> True | Some B \<Rightarrow> can_prepare B s1)
      | _ \<Rightarrow> True)"

lemma fifo_remove_out_streams:
  assumes "fifo_remove_out s = Ret (b, s\<lparr>as_buf := bs, as_out := q\<rparr>)"
  shows "fifo_remove_out (s\<lparr>as_streams := l\<rparr>) = Ret (b, s\<lparr>as_streams := l, as_buf := bs, as_out := q\<rparr>)"
proof -
  obtain b1 bs1 q1 where r: "fifo_remove_int (as_buf s, as_out s) = Ret (b1, bs1, q1)"
    "s\<lparr>as_buf := bs1, as_out := q1\<rparr> = s\<lparr>as_buf := bs, as_out := q\<rparr>" "b1 = b"
    using assms by (auto simp: fifo_remove_out_def obind_eq_Ret)
  have "bs1 = bs" "q1 = q" using arg_cong [OF r(2), of as_buf] arg_cong [OF r(2), of as_out] by simp_all
  then show ?thesis using r(1,3) by (simp add: fifo_remove_out_def)
qed

lemma grab_eq:
  assumes "xine_list_first_content (as_streams s) = Ret (Some st, l)" and "as_stream s st = Some S" and "aq_first (as_out s) \<noteq> None"
    and "fifo_remove_out (s\<lparr>as_streams := l\<rparr>) = Ret (b, s1)" and "prepare_samples b s1 = Ret (cur, s2)"
    and "(if cur \<noteq> b then fifo_append_free b s2 else Ret s2) = Ret s3" and "as_buf s3 cur = Some T"
  shows "\<exists>fr. xine_get_next_audio_frame s = Ret (Some fr, s3) \<and> xa_frame fr = (if cur \<noteq> b then None else Some cur)"
  using assms by (simp add: xine_get_next_audio_frame_def ao_stream_at_def buf_at_def Let_def del: if_split not_None_eq)

lemma grab_ok:
  assumes "ao_is drv s F Q H W sts" and "W \<subseteq> H" and "may_grab s"
  shows "xine_get_next_audio_frame s = Wait \<or>
    (\<exists>r s' F' Q'. xine_get_next_audio_frame s = Ret (r, s') \<and> set F' \<union> set Q' \<union> H \<union> set_option (Option.bind r xa_frame) = set F \<union> set Q \<union> H \<and>
       ao_is drv s' F' Q' (H \<union> set_option (Option.bind r xa_frame)) W sts \<and> set_option (Option.bind r xa_frame) \<inter> H = {})"
proof -
  note I = ao_isD [OF assms(1)]
  have ss: "holds xl_is (as_streams s) sts" "set sts \<subseteq> dom (as_stream s)" using I(4) by (simp_all add: streams_ok_def)
  obtain l where l: "xine_list_first_content (as_streams s) = Ret (case sts of [] \<Rightarrow> None | c # _ \<Rightarrow> Some c, l)" "holds xl_is l sts"
    using xl.holds_first [OF ss(1)] by blast
  let ?s0 = "s\<lparr>as_streams := l\<rparr>"
  have i0: "ao_is drv ?s0 F Q H W sts" by (rule ao_is_list [OF assms(1) l(2) ss(2)])
  have first: "aq_first (as_out ?s0) = (case Q of [] \<Rightarrow> None | x # _ \<Rightarrow> Some x)"
    using fifo_first [OF placedD(2) [OF ao_isD(1) [OF i0]]] .
  show ?thesis
  proof (cases sts)
    case Nil
    then show ?thesis using l(1) by (simp add: xine_get_next_audio_frame_def)
  next
    case (Cons st rest_sts)
    obtain S where S: "as_stream ?s0 st = Some S" using ss(2) Cons by auto
    show ?thesis
    proof (cases Q)
      case Nil
      then show ?thesis using l(1) Cons S first i0
        by (cases "sa_demux_ok S") (fastforce simp: xine_get_next_audio_frame_def ao_stream_at_def Let_def)+
    next
      case Q: (Cons b R)
      obtain bs q where ro: "fifo_remove_out s = Ret (b, s\<lparr>as_buf := bs, as_out := q\<rparr>)"
        using take_out_ok [of drv s F b R H W sts] assms(1) Q by blast
      obtain bs' q' where q': "fifo_remove_out ?s0 = Ret (b, ?s0\<lparr>as_buf := bs', as_out := q'\<rparr>)"
        "ao_is drv (?s0\<lparr>as_buf := bs', as_out := q'\<rparr>) F R (insert b H) (insert b W) sts"
        using take_out_ok [of drv ?s0 F b R H W sts] i0 Q by blast
      have "fifo_remove_out ?s0 = Ret (b, ?s0\<lparr>as_buf := bs, as_out := q\<rparr>)" by (rule fifo_remove_out_streams [OF ro])
      then have same: "?s0\<lparr>as_buf := bs', as_out := q'\<rparr> = ?s0\<lparr>as_buf := bs, as_out := q\<rparr>" using q'(1) by simp
      note q = q' [unfolded same]
      let ?s1 = "?s0\<lparr>as_buf := bs, as_out := q\<rparr>"
      note I1 = ao_isD [OF q(2)]
      have bH: "b \<notin> H" using placedD(4) [OF I(1)] Q by auto
      obtain B where B: "as_buf ?s1 b = Some B" "b \<notin> frame_bufs ?s1" using placed_held [OF I1(1), of b] by blast
      have "can_prepare B (s\<lparr>as_buf := bs, as_out := q\<rparr>)" using assms(3) ro B(1) by (simp add: may_grab_def)
      then have cp: "can_prepare B ?s1" by (simp add: can_prepare_def frames_workable_def resampling_def frames_out_def modes_match_def)
      obtain cur s2 where 2: "prepare_samples b ?s1 = Ret (cur, s2)" "prepared ?s1 s2" "cur = b \<or> cur \<in> frame_bufs ?s1" "as_buf s2 cur \<noteq> None"
        using prepare_samples_ok [OF placedD(8) [OF I1(1)] I1(3) B cp] by blast
      have sub: "insert b W \<subseteq> insert b H" using assms(2) by blast
      have i2: "ao_is drv s2 F R (insert b H) (insert b W) sts" by (rule ao_is_prepared [OF q(2) sub 2(2)])
      have W: "b \<notin> W" using bH assms(2) by blast
      have e: "insert b H - {b} = H" "insert b W - {b} = W" using bH W by simp_all
      have "\<exists>s3. (if cur \<noteq> b then fifo_append_free b s2 else Ret s2) = Ret s3 \<and> as_buf s3 cur \<noteq> None \<and>
         (cur \<noteq> b \<longrightarrow> ao_is drv s3 (F @ [b]) R H W sts) \<and> (cur = b \<longrightarrow> ao_is drv s3 F R (insert b H) W sts)"
      proof (cases "cur = b")
        case True
        have "ao_is drv s2 F R (insert b H) W sts" using i2 by (auto simp: ao_is_def)
        then show ?thesis using True 2(4) by auto
      next
        case False
        obtain bs3 q3 where "fifo_append_free b s2 = Ret (s2\<lparr>as_buf := bs3, as_free := q3\<rparr>)"
          "ao_is drv (s2\<lparr>as_buf := bs3, as_free := q3\<rparr>) (F @ [b]) R H W sts" "bviews bs3 = bviews (as_buf s2)"
          using put_free_ok [OF i2, of b] unfolding e by blast
        moreover have "bs3 cur \<noteq> None" using 2(4) bviews_None [OF \<open>bviews bs3 = _\<close>, of cur] by simp
        ultimately show ?thesis using False by auto
      qed
      then obtain s3 where s3: "(if cur \<noteq> b then fifo_append_free b s2 else Ret s2) = Ret s3 \<and> as_buf s3 cur \<noteq> None \<and>
         (cur \<noteq> b \<longrightarrow> ao_is drv s3 (F @ [b]) R H W sts) \<and> (cur = b \<longrightarrow> ao_is drv s3 F R (insert b H) W sts)" ..
      note 3 = s3 [THEN conjunct1] s3 [THEN conjunct2, THEN conjunct1] s3 [THEN conjunct2, THEN conjunct2, THEN conjunct1]
        s3 [THEN conjunct2, THEN conjunct2, THEN conjunct2]
      obtain T where T: "as_buf s3 cur = Some T" using 3(2) by blast
      have ne: "aq_first (as_out s) \<noteq> None" using first Q by simp
      have S': "as_stream s st = Some S" using S by simp
      have l1: "xine_list_first_content (as_streams s) = Ret (Some st, l)" using l(1) Cons by simp
      obtain fr where fr: "xine_get_next_audio_frame s = Ret (Some fr, s3)" "xa_frame fr = (if cur \<noteq> b then None else Some cur)"
        using grab_eq [OF l1 S' ne q(1) 2(1) 3(1) T] by blast
      show ?thesis
      proof (cases "cur = b")
        case True
        then have x: "set_option (Option.bind (Some fr) xa_frame) = {b}" using fr(2) by simp
        have "set F \<union> set R \<union> H \<union> {b} = set F \<union> set Q \<union> H" using Q by auto
        moreover have "ao_is drv s3 F R (H \<union> {b}) W sts" using 3(4) True by simp
        moreover have "{b} \<inter> H = {}" using bH by simp
        ultimately show ?thesis unfolding x [symmetric] using fr(1) by blast
      next
        case False
        then have x: "set_option (Option.bind (Some fr) xa_frame) = {}" using fr(2) by simp
        have "set (F @ [b]) \<union> set R \<union> H \<union> {} = set F \<union> set Q \<union> H" using Q by auto
        moreover have "ao_is drv s3 (F @ [b]) R (H \<union> {}) W sts" using 3(3) False by simp
        moreover have "{} \<inter> H = {}" by simp
        ultimately show ?thesis unfolding x [symmetric] using fr(1) by blast
      qed
    qed
  qed
qed

end
