(* ===== verification/Audio_System.thy ===== *)
theory Audio_System
  imports Audio_Port
begin

text \<open>
  The audio output with everybody who calls it: decoders, the parts of the output loop, frontends,
  in any order, each operation whole. What decoders and frontends hold is kept beside the state;
  an operation is allowed when its caller holds what it passes, and what it passes has room for
  the filters.
\<close>

section \<open>Clients\<close>

text \<open>
  \<open>ac_held\<close> are the buffers of decoders and frontends, \<open>ac_loop\<close> the
  variables of the output loop, \<open>ac_open\<close> the streams that have the port open.
\<close>

record ao_clients =
  ac_held :: "nat set"
  ac_loop :: ao_local
  ac_open :: "nat list"

definition no_ao_clients :: ao_clients where
  "no_ao_clients = \<lparr>ac_held = {}, ac_loop = loop_start, ac_open = []\<rparr>"

text \<open>
  \<open>A_fill\<close> is the decoder writing the samples, their number and their time;
  \<open>A_take\<close> to \<open>A_end\<close> are the parts of the output loop;
  \<open>A_stream\<close> is the rest of the engine changing a stream.
\<close>

datatype ao_op =
    A_get | A_fill nat "u8 list" int int | A_put nat nat
  | A_take | A_flush | A_pause int | A_play int | A_end
  | A_open_port nat u32 u32 u32 | A_close_stream nat | A_close_driver
  | A_flush_begin | A_flush_push | A_flush_end | A_set int int | A_sync int | A_status "nat option"
  | A_grab | A_release nat | A_stop | A_wake | A_stream nat ao_stream

type_synonym ao_sys = "aos \<times> ao_clients"

definition with_loop :: "(ao_local \<times> aos) outcome \<Rightarrow> ao_clients \<Rightarrow> ao_sys outcome" where
  "with_loop r c = obind r (\<lambda>(L, s). Ret (s, c\<lparr>ac_loop := L\<rparr>))"

definition loop_idle :: "ao_clients \<Rightarrow> bool" where
  "loop_idle c \<longleftrightarrow> lo_in_buf (ac_loop c) = None"

fun run_ao :: "nat \<Rightarrow> ao_driver option \<Rightarrow> ao_op \<Rightarrow> ao_sys \<Rightarrow> ao_sys outcome" where
  "run_ao k drv A_get (s, c) = obind (ao_get_buffer s) (\<lambda>(b, s1). Ret (s1, c\<lparr>ac_held := insert b (ac_held c)\<rparr>))"
| "run_ao k drv (A_fill b mem n vpts) (s, c) =
     obind (buf_at b s) (\<lambda>B. Ret (put_buf b (B\<lparr>ab_mem := mem, ab_num_frames := n, ab_vpts := vpts\<rparr>) s, c))"
| "run_ao k drv (A_put b st) (s, c) = obind (ao_put_buffer b st s) (\<lambda>s1. Ret (s1, c\<lparr>ac_held := ac_held c - {b}\<rparr>))"
| "run_ao k drv A_take (s, c) = with_loop (loop_take (ac_loop c, s)) c"
| "run_ao k drv A_flush (s, c) = with_loop (obind (loop_flush drv (ac_loop c, s)) (\<lambda>(go, x). Ret x)) c"
| "run_ao k drv (A_pause t) (s, c) = with_loop (obind (loop_pause t (ac_loop c, s)) (\<lambda>(go, x). Ret x)) c"
| "run_ao k drv (A_play t) (s, c) = with_loop (loop_play k drv t (ac_loop c, s)) c"
| "run_ao k drv A_end (s, c) = with_loop (ao_loop_end (ac_loop c, s)) c"
| "run_ao k drv (A_open_port st bits rate mode) (s, c) =
     obind (ao_open drv (loop_idle c) st bits rate mode s) (\<lambda>(_, s1). Ret (s1, c\<lparr>ac_open := ac_open c @ [st]\<rparr>))"
| "run_ao k drv (A_close_stream st) (s, c) =
     obind (ao_close_stream k st s) (\<lambda>(_, s1). Ret (s1, c\<lparr>ac_open := remove1 st (ac_open c)\<rparr>))"
| "run_ao k drv A_close_driver (s, c) = obind (ao_close_driver (loop_idle c) s) (\<lambda>s1. Ret (s1, c))"
| "run_ao k drv A_flush_begin (s, c) = Ret (ao_flush_begin s, c)"
| "run_ao k drv A_flush_push (s, c) = obind (ao_flush_push s) (\<lambda>s1. Ret (s1, c))"
| "run_ao k drv A_flush_end (s, c) = obind (ao_flush_end s) (\<lambda>s1. Ret (s1, c))"
| "run_ao k drv (A_set p v) (s, c) = obind (ao_set_property k drv p v s) (\<lambda>(_, s1). Ret (s1, c))"
| "run_ao k drv (A_sync n) (s, c) = Ret (ao_update_av_sync_method n s, c)"
| "run_ao k drv (A_status st) (s, c) = obind (ao_status k st s) (\<lambda>(_, s1). Ret (s1, c))"
| "run_ao k drv A_grab (s, c) =
     obind (xine_get_next_audio_frame s) (\<lambda>(r, s1). Ret (s1, c\<lparr>ac_held := ac_held c \<union> set_option (Option.bind r xa_frame)\<rparr>))"
| "run_ao k drv (A_release b) (s, c) = obind (fifo_append_free b s) (\<lambda>s1. Ret (s1, c\<lparr>ac_held := ac_held c - {b}\<rparr>))"
| "run_ao k drv A_stop (s, c) = Ret (ao_exit_stop s, c)"
| "run_ao k drv A_wake (s, c) = obind (dummy_buffer s) (\<lambda>s1. Ret (s1, c))"
| "run_ao k drv (A_stream st S) (s, c) = Ret (put_ao_stream st S s, c)"

fun ao_allowed :: "nat \<Rightarrow> ao_driver option \<Rightarrow> ao_op \<Rightarrow> ao_sys \<Rightarrow> bool" where
  "ao_allowed k drv (A_fill b mem n vpts) (s, c) \<longleftrightarrow>
     b \<in> ac_held c \<and> (case as_buf s b of None \<Rightarrow> False | Some B \<Rightarrow> length mem = length (ab_mem B))"
| "ao_allowed k drv (A_put b st) (s, c) \<longleftrightarrow> b \<in> ac_held c \<and> may_put b st s"
| "ao_allowed k drv A_take (s, c) \<longleftrightarrow> drv \<noteq> None"
| "ao_allowed k drv A_flush (s, c) \<longleftrightarrow> \<not> loop_idle c"
| "ao_allowed k drv (A_pause t) (s, c) \<longleftrightarrow> \<not> loop_idle c"
| "ao_allowed k drv (A_play t) (s, c) \<longleftrightarrow> \<not> loop_idle c \<and> may_play k drv t (ac_loop c, s)"
| "ao_allowed k drv (A_open_port st bits rate mode) (s, c) \<longleftrightarrow> as_stream s st \<noteq> None \<and> rate \<noteq> 0 \<and> length (ac_open c) + 1 < k"
| "ao_allowed k drv A_grab (s, c) \<longleftrightarrow> may_grab s"
| "ao_allowed k drv (A_release b) (s, c) \<longleftrightarrow> b \<in> ac_held c"
| "ao_allowed k drv (A_stream st S) (s, c) \<longleftrightarrow> as_stream s st \<noteq> None"
| "ao_allowed k drv _ _ \<longleftrightarrow> True"

inductive ao_step :: "nat \<Rightarrow> ao_driver option \<Rightarrow> ao_sys \<Rightarrow> ao_sys \<Rightarrow> bool" for k drv where
  ao_step: "ao_allowed k drv op x \<Longrightarrow> run_ao k drv op x = Ret y \<Longrightarrow> ao_step k drv x y"

text \<open>A port that only gives its samples to a frontend has no driver, and the others have one.\<close>

inductive ao_reachable :: "nat \<Rightarrow> ao_driver option \<Rightarrow> ao_sys \<Rightarrow> bool" for k drv where
  ao_start: "ao_new_port drv junk C (drv = None) streams = Ret s \<Longrightarrow> ao_reachable k drv (s, no_ao_clients)"
| ao_next: "ao_reachable k drv x \<Longrightarrow> ao_step k drv x y \<Longrightarrow> ao_reachable k drv y"

section \<open>Every operation keeps the invariant\<close>

definition loop_bufs :: "ao_clients \<Rightarrow> nat set" where
  "loop_bufs c = set_option (lo_in_buf (ac_loop c))"

definition ao_inv :: "nat \<Rightarrow> ao_driver option \<Rightarrow> ao_sys \<Rightarrow> bool" where
  "ao_inv k drv x \<longleftrightarrow>
     (\<exists>F Q. ao_is drv (fst x) F Q (ac_held (snd x) \<union> loop_bufs (snd x)) (loop_bufs (snd x)) (ac_open (snd x))) \<and>
     length (ac_open (snd x)) < k \<and> ac_held (snd x) \<inter> loop_bufs (snd x) = {} \<and> (drv = None \<longrightarrow> loop_idle (snd x))"

definition ao_fine :: "nat \<Rightarrow> ao_driver option \<Rightarrow> ao_op \<Rightarrow> ao_sys \<Rightarrow> bool" where
  "ao_fine k drv op x \<longleftrightarrow> run_ao k drv op x = Wait \<or> (\<exists>y. run_ao k drv op x = Ret y \<and> ao_inv k drv y)"

lemma ao_invD:
  assumes "ao_inv k drv (s, c)"
  obtains F Q where "ao_is drv s F Q (ac_held c \<union> loop_bufs c) (loop_bufs c) (ac_open c)" and "length (ac_open c) < k"
    and "ac_held c \<inter> loop_bufs c = {}" and "drv = None \<longrightarrow> loop_bufs c = {}"
  using assms by (auto simp: ao_inv_def loop_idle_def loop_bufs_def)

text \<open>An operation of somebody other than the loop.\<close>

lemma ao_fineI:
  assumes "ao_inv k drv (s, c)" and "run_ao k drv op (s, c) = Ret (s', c')" and "ao_is drv s' F Q H (loop_bufs c) (ac_open c')"
    and "ac_loop c' = ac_loop c" and "H = ac_held c' \<union> loop_bufs c" and "ac_held c' \<inter> loop_bufs c = {}" and "length (ac_open c') < k"
  shows "ao_fine k drv op (s, c)"
  using assms by (auto simp: ao_fine_def ao_inv_def loop_bufs_def loop_idle_def)

lemma few_bufs:
  assumes "ao_is drv s F Q H W sts" and "NUM_AUDIO_BUFFERS < k"
  shows "length F < k" "length Q < k"
proof -
  note I = ao_isD [OF assms(1)]
  have "set F \<subseteq> {..<NUM_AUDIO_BUFFERS}" "set Q \<subseteq> {..<NUM_AUDIO_BUFFERS}" using I(2) by auto
  from card_mono [OF _ this(1)] card_mono [OF _ this(2)] distinct_card [OF fifo_distinct [OF placedD(1) [OF I(1)]]]
    distinct_card [OF fifo_distinct [OF placedD(2) [OF I(1)]]] assms(2)
  show "length F < k" "length Q < k" by simp_all
qed

lemma decoder_ops_ok:
  assumes "driver_works drv" and "ao_inv k drv (s, c)" and "ao_allowed k drv op (s, c)"
    and "op \<in> {A_get, A_fill b mem n vpts, A_put b st, A_open_port st bits rate mode, A_close_stream st, A_close_driver, A_stream st S}"
  shows "ao_fine k drv op (s, c)"
proof -
  obtain F Q where I: "ao_is drv s F Q (ac_held c \<union> loop_bufs c) (loop_bufs c) (ac_open c)" "length (ac_open c) < k"
    "ac_held c \<inter> loop_bufs c = {}" "drv = None \<longrightarrow> loop_bufs c = {}" using ao_invD [OF assms(2)] .
  have W: "loop_bufs c \<subseteq> ac_held c \<union> loop_bufs c" by blast
  from assms(4) consider "op = A_get" | "op = A_fill b mem n vpts" | "op = A_put b st" | "op = A_open_port st bits rate mode"
    | "op = A_close_stream st" | "op = A_close_driver" | "op = A_stream st S" by auto
  then show ?thesis
  proof cases
    case 1
    show ?thesis
    proof (cases F)
      case Nil
      then have "fifo_remove_free s = Wait" using empty_waits(2) I(1) by blast
      then show ?thesis using 1 by (simp add: ao_fine_def ao_get_buffer_def)
    next
      case (Cons d G)
      have d: "d \<notin> ac_held c \<union> loop_bufs c" using placedD(4) [OF ao_isD(1) [OF I(1)]] Cons by auto
      obtain s' where s': "ao_get_buffer s = Ret (d, s')" "ao_is drv s' G Q (insert d (ac_held c \<union> loop_bufs c)) (loop_bufs c) (ac_open c)"
        using get_buffer_ok [OF I(1) [unfolded Cons] W] by blast
      have o: "ac_open c = ac_open (c\<lparr>ac_held := insert d (ac_held c)\<rparr>)" by simp
      show ?thesis by (rule ao_fineI [OF assms(2) _ s'(2) [unfolded o]]) (use 1 s'(1) d I(2,3) in auto)
    qed
  next
    case 2
    have b: "b \<in> ac_held c" "b \<in> ac_held c \<union> loop_bufs c" "b \<notin> loop_bufs c" using assms(3) 2 I(3) by auto
    obtain B where B: "as_buf s b = Some B" "length mem = length (ab_mem B)" using assms(3) 2 by (auto split: option.splits)
    have n: "ab_next B = None" using placed_held [OF ao_isD(1) [OF I(1)] b(2)] B by auto
    have ms: "ab_mem_size B = int (length (ab_mem B))" using placedD(8) [OF ao_isD(1) [OF I(1)]] B by (simp add: bufs_ok_def)
    have "ao_is drv (put_buf b (B\<lparr>ab_mem := mem, ab_num_frames := n, ab_vpts := vpts\<rparr>) s) F Q (ac_held c \<union> loop_bufs c) (loop_bufs c) (ac_open c)"
      by (rule write_ok [OF I(1) b(2) _ _ b(3)]) (use n ms B(2) in simp_all)
    from ao_fineI [OF assms(2) _ this] show ?thesis using 2 B(1) I(2,3) by (simp add: buf_at_def)
  next
    case 3
    have b: "b \<in> ac_held c \<union> loop_bufs c" "b \<notin> loop_bufs c" "may_put b st s" using assms(3) 3 I(3) by auto
    obtain s' F' Q' where s': "ao_put_buffer b st s = Ret s'" "ao_is drv s' F' Q' (ac_held c \<union> loop_bufs c - {b}) (loop_bufs c) (ac_open c)"
      using put_buffer_ok [OF I(1) b] by blast
    have o: "ac_open c = ac_open (c\<lparr>ac_held := ac_held c - {b}\<rparr>)" by simp
    show ?thesis by (rule ao_fineI [OF assms(2) _ s'(2) [unfolded o]]) (use 3 s'(1) b I(2,3) in auto)
  next
    case 4
    have a: "as_stream s st \<noteq> None" "rate \<noteq> 0" "length (ac_open c) + 1 < k" using assms(3) 4 by simp_all
    from ao_open_ok [OF I(1) a(1,2) assms(1), of "loop_idle c" bits mode] show ?thesis
    proof (elim disjE exE conjE)
      fix r s' assume s': "ao_open drv (loop_idle c) st bits rate mode s = Ret (r, s')"
        "ao_is drv s' F Q (ac_held c \<union> loop_bufs c) (loop_bufs c) (ac_open c @ [st])"
      show ?thesis
        by (rule ao_fineI [where c' = "c\<lparr>ac_open := ac_open c @ [st]\<rparr>" and F = F and Q = Q, OF assms(2)])
           (use 4 s' a I(3) in auto)
    qed (use 4 in \<open>simp add: ao_fine_def\<close>)
  next
    case 5
    obtain r s' where s': "ao_close_stream k st s = Ret (r, s')"
      "ao_is drv s' F Q (ac_held c \<union> loop_bufs c) (loop_bufs c) (remove1 st (ac_open c))"
      using close_stream_ok [OF I(1,2)] by blast
    have l: "length (remove1 st (ac_open c)) < k" using I(2) by (auto simp: length_remove1)
    show ?thesis
      by (rule ao_fineI [where c' = "c\<lparr>ac_open := remove1 st (ac_open c)\<rparr>" and F = F and Q = Q, OF assms(2)])
         (use 5 s' I(3) l in auto)
  next
    case 6
    have "ao_close_driver (loop_idle c) s = Wait \<or> ao_close_driver (loop_idle c) s = Ret (close_driver s)"
      using wait_empty_cases by (auto simp: ao_close_driver_def fifo_wait_empty_def)
    then show ?thesis
    proof
      assume r: "ao_close_driver (loop_idle c) s = Ret (close_driver s)"
      show ?thesis by (rule ao_fineI [OF assms(2) _ close_driver_ok [OF I(1)]]) (use 6 r I(2,3) in simp_all)
    qed (use 6 in \<open>simp add: ao_fine_def\<close>)
  next
    case 7
    have "ao_is drv (put_ao_stream st S s) F Q (ac_held c \<union> loop_bufs c) (loop_bufs c) (ac_open c)"
      by (rule ao_is_unset [OF I(1)]) (auto simp: unset_def ao_still_def put_ao_stream_def)
    from ao_fineI [OF assms(2) _ this] show ?thesis using 7 I(2,3) by simp
  qed
qed

text \<open>An operation of the loop.\<close>

lemma loop_fineI:
  assumes "ao_inv k drv (s, c)" and "run_ao k drv op (s, c) = with_loop (Ret x) c" and "kept_or_free drv b F Q (ac_held c \<union> {b}) (ac_open c) x"
    and "lo_in_buf (ac_loop c) = Some b"
  shows "ao_fine k drv op (s, c)"
proof -
  obtain L s' where x: "x = (L, s')" by (cases x)
  have i: "length (ac_open c) < k" "b \<notin> ac_held c" "drv \<noteq> None"
    using assms(1,4) by (auto simp: ao_inv_def loop_bufs_def loop_idle_def)
  have "ao_inv k drv (s', c\<lparr>ac_loop := L\<rparr>)"
    using assms(3) i unfolding x kept_or_free_def ao_inv_def by (auto simp: loop_bufs_def loop_idle_def) blast+
  then show ?thesis using assms(2) by (simp add: ao_fine_def with_loop_def x)
qed

lemma loop_ops_fine:
  assumes "driver_works drv" and "ao_inv k drv (s, c)" and "ao_allowed k drv op (s, c)"
    and "op \<in> {A_take, A_flush, A_pause t, A_play t, A_end}"
  shows "ao_fine k drv op (s, c)"
proof -
  obtain F Q where I: "ao_is drv s F Q (ac_held c \<union> loop_bufs c) (loop_bufs c) (ac_open c)" "length (ac_open c) < k"
    "ac_held c \<inter> loop_bufs c = {}" "drv = None \<longrightarrow> loop_bufs c = {}" using ao_invD [OF assms(2)] .
  show ?thesis
  proof (cases "lo_in_buf (ac_loop c)")
    case None
    then have w: "loop_bufs c = {}" by (simp add: loop_bufs_def)
    consider "op = A_take" | "op = A_end" using assms(3,4) None by (auto simp: loop_idle_def)
    then show ?thesis
    proof cases
      case 1
      show ?thesis
      proof (cases Q)
        case Nil
        then have "fifo_remove_out s = Wait" using empty_waits(1) I(1) by blast
        then show ?thesis using 1 None by (simp add: ao_fine_def loop_take_def with_loop_def)
      next
        case (Cons b R)
        have b: "b \<notin> ac_held c" using placedD(4) [OF ao_isD(1) [OF I(1)]] Cons by auto
        obtain L' s' where r: "loop_take (ac_loop c, s) = Ret (L', s')" "lo_in_buf L' = Some b"
          "ao_is drv s' F R (insert b (ac_held c)) {b} (ac_open c)"
          using loop_take_ok [OF I(1) [unfolded Cons] None] w by auto
        then have "ao_inv k drv (s', c\<lparr>ac_loop := L'\<rparr>)"
          using b I(2) assms(3) 1 by (auto simp: ao_inv_def loop_bufs_def loop_idle_def)
        then show ?thesis using 1 r(1) by (simp add: ao_fine_def with_loop_def)
      qed
    next
      case 2
      then show ?thesis using None assms(2) by (simp add: ao_fine_def ao_loop_end_def with_loop_def)
    qed
  next
    case (Some b)
    then have w: "loop_bufs c = {b}" by (simp add: loop_bufs_def)
    have i: "ao_is drv s F Q (ac_held c \<union> {b}) {b} (ac_open c)" using I(1) w by simp
    have b: "b \<in> ac_held c \<union> {b}" by simp
    have d: "drv \<noteq> None" using I(4) w by auto
    from assms(4) consider "op = A_take" | "op = A_flush" | "op = A_pause t" | "op = A_play t" | "op = A_end" by auto
    then show ?thesis
    proof cases
      case 1
      then show ?thesis using assms(2) Some by (simp add: ao_fine_def loop_take_def with_loop_def)
    next
      case 2
      obtain go x where "loop_flush drv (ac_loop c, s) = Ret (go, x)" "kept_or_free drv b F Q (ac_held c \<union> {b}) (ac_open c) x"
        using loop_flush_ok [OF i Some b] by blast
      then show ?thesis using loop_fineI [OF assms(2) _ _ Some] 2 by auto
    next
      case 3
      obtain go x where "loop_pause t (ac_loop c, s) = Ret (go, x)" "kept_or_free drv b F Q (ac_held c \<union> {b}) (ac_open c) x"
        using loop_pause_ok [OF i Some b] by blast
      then show ?thesis using loop_fineI [OF assms(2) _ _ Some] 3 by auto
    next
      case 4
      then have "may_play k drv t (ac_loop c, s)" using assms(3) by simp
      then obtain x where "loop_play k drv t (ac_loop c, s) = Ret x" "kept_or_free drv b F Q (ac_held c \<union> {b}) (ac_open c) x"
        using loop_play_ok [OF i Some b I(2) _ d assms(1)] by blast
      then show ?thesis using loop_fineI [OF assms(2) _ _ Some] 4 by auto
    next
      case 5
      obtain x where "release_in_buf (ac_loop c, s) = Ret x" "kept_or_free drv b F Q (ac_held c \<union> {b}) (ac_open c) x"
        using released [OF i Some b] by blast
      then show ?thesis using loop_fineI [OF assms(2) _ _ Some] 5 Some by (auto simp: ao_loop_end_def)
    qed
  qed
qed

lemma frontend_ops_fine:
  assumes "NUM_AUDIO_BUFFERS < k" and "ao_inv k drv (s, c)" and "ao_allowed k drv op (s, c)"
    and "op \<in> {A_flush_begin, A_flush_push, A_flush_end, A_set p v, A_sync n, A_status sto, A_grab, A_release b, A_stop, A_wake}"
  shows "ao_fine k drv op (s, c)"
proof -
  obtain F Q where I: "ao_is drv s F Q (ac_held c \<union> loop_bufs c) (loop_bufs c) (ac_open c)" "length (ac_open c) < k"
    "ac_held c \<inter> loop_bufs c = {}" "drv = None \<longrightarrow> loop_bufs c = {}" using ao_invD [OF assms(2)] .
  have W: "loop_bufs c \<subseteq> ac_held c \<union> loop_bufs c" by blast
  have plain: "ao_fine k drv op (s, c)" if "run_ao k drv op (s, c) = Ret (s', c)" "unset s s'" for s'
    by (rule ao_fineI [OF assms(2) that(1) ao_is_unset [OF I(1) that(2)]]) (use I(2,3) in simp_all)
  have dummy: "dummy_buffer s = Wait \<or> (\<exists>s' F' Q'. dummy_buffer s = Ret s' \<and> ao_is drv s' F' Q' (ac_held c \<union> loop_bufs c) (loop_bufs c) (ac_open c))"
  proof (cases F)
    case Nil
    then have "fifo_remove_free s = Wait" using empty_waits(2) I(1) by blast
    then show ?thesis by (simp add: dummy_buffer_def)
  next
    case (Cons d G)
    show ?thesis using dummy_ok [OF I(1) [unfolded Cons] W] by blast
  qed
  have pushed: "ao_fine k drv op (s, c)" if "run_ao k drv op (s, c) = obind (dummy_buffer s) (\<lambda>s1. Ret (s1, c))"
    using dummy
  proof (elim disjE exE conjE)
    fix s' F' Q' assume s': "dummy_buffer s = Ret s'" "ao_is drv s' F' Q' (ac_held c \<union> loop_bufs c) (loop_bufs c) (ac_open c)"
    show ?thesis by (rule ao_fineI [OF assms(2) _ s'(2)]) (use that s'(1) I(2,3) in simp_all)
  qed (use that in \<open>simp add: ao_fine_def\<close>)
  from assms(4) consider "op = A_flush_begin" | "op = A_flush_push" | "op = A_flush_end" | "op = A_set p v" | "op = A_sync n"
    | "op = A_status sto" | "op = A_grab" | "op = A_release b" | "op = A_stop" | "op = A_wake" by auto
  then show ?thesis
  proof cases
    case 1
    have "unset s (ao_flush_begin s)" by (simp add: ao_flush_begin_def)
    then show ?thesis using plain 1 by simp
  next
    case 2
    then show ?thesis using pushed plain by (cases "as_flush s \<noteq> 0 \<and> as_paused s = 0") (auto simp: ao_flush_push_def)
  next
    case 3
    show ?thesis
    proof (cases "as_loop_running s")
      case True
      then show ?thesis using plain [of "s\<lparr>as_discard := as_discard s - 1\<rparr>"] 3
        by (cases "as_flush s \<noteq> 0 \<and> as_paused s = 0") (simp_all add: ao_fine_def ao_flush_end_def)
    next
      case False
      then show ?thesis using plain [of s] 3 by (simp add: ao_flush_end_def)
    qed
  next
    case 4
    have g: "as_grab_only s \<Longrightarrow> loop_bufs c = {}" using ao_isD(5) [OF I(1)] I(4) by (simp add: settings_ok_def)
    obtain r s' F' Q' where s': "ao_set_property k drv p v s = Ret (r, s')"
      "ao_is drv s' F' Q' (ac_held c \<union> loop_bufs c) (loop_bufs c) (ac_open c)"
      using ao_set_property_ok [OF I(1) few_bufs(2) [OF I(1) assms(1)] g] by blast
    show ?thesis by (rule ao_fineI [OF assms(2) _ s'(2)]) (use 4 s'(1) I(2,3) in simp_all)
  next
    case 5
    have "unset s (ao_update_av_sync_method n s)" by (simp add: ao_update_av_sync_method_def)
    then show ?thesis using plain 5 by simp
  next
    case 6
    obtain r s' where s': "ao_status k sto s = Ret (r, s')" "ao_is drv s' F Q (ac_held c \<union> loop_bufs c) (loop_bufs c) (ac_open c)"
      using ao_status_ok [OF I(1,2)] by blast
    show ?thesis by (rule ao_fineI [OF assms(2) _ s'(2)]) (use 6 s'(1) I(2,3) in simp_all)
  next
    case 7
    have m: "may_grab s" using assms(3) 7 by simp
    from grab_ok [OF I(1) W m] show ?thesis
    proof (elim disjE exE conjE)
      fix r :: "audio_frame option" and s' F' Q'
      let ?x = "set_option (Option.bind r xa_frame)"
      assume s': "xine_get_next_audio_frame s = Ret (r, s')" "?x \<inter> (ac_held c \<union> loop_bufs c) = {}"
        "ao_is drv s' F' Q' (ac_held c \<union> loop_bufs c \<union> ?x) (loop_bufs c) (ac_open c)"
      have o: "ac_open c = ac_open (c\<lparr>ac_held := ac_held c \<union> ?x\<rparr>)" by simp
      show ?thesis by (rule ao_fineI [OF assms(2) _ s'(3) [unfolded o]]) (use 7 s'(1,2) I(2,3) in auto)
    qed (use 7 in \<open>simp add: ao_fine_def\<close>)
  next
    case 8
    have b: "b \<in> ac_held c \<union> loop_bufs c" "b \<notin> loop_bufs c" using assms(3) 8 I(3) by auto
    obtain s' where s': "fifo_append_free b s = Ret s'"
      "ao_is drv s' (F @ [b]) Q (ac_held c \<union> loop_bufs c - {b}) (loop_bufs c - {b}) (ac_open c)"
      using put_free_ok [OF I(1) b(1)] by blast
    have e: "loop_bufs c - {b} = loop_bufs c" "ac_open c = ac_open (c\<lparr>ac_held := ac_held c - {b}\<rparr>)" using b(2) by simp_all
    show ?thesis by (rule ao_fineI [OF assms(2) _ s'(2) [unfolded e]]) (use 8 s'(1) b I(2,3) in auto)
  next
    case 9
    have "unset s (ao_exit_stop s)" by (simp add: ao_exit_stop_def unset_def ao_still_def)
    then show ?thesis using plain 9 by simp
  next
    case 10
    then show ?thesis using pushed by simp
  qed
qed

lemma ao_op_ok:
  assumes "driver_works drv" and "NUM_AUDIO_BUFFERS < k" and "ao_inv k drv x" and "ao_allowed k drv op x"
  shows "ao_fine k drv op x"
proof -
  obtain s c where x: "x = (s, c)" by (cases x)
  note ops = decoder_ops_ok [OF assms(1) assms(3,4) [unfolded x]] loop_ops_fine [OF assms(1) assms(3,4) [unfolded x]]
    frontend_ops_fine [OF assms(2) assms(3,4) [unfolded x]]
  show ?thesis unfolding x by (cases op) (rule ops, blast)+
qed

section \<open>The start\<close>

definition fresh_bufs :: "aos \<Rightarrow> nat \<Rightarrow> bool" where
  "fresh_bufs s n \<longleftrightarrow>
     fifo_is (as_buf s) (as_free s) [0..<n] \<and> dom (as_buf s) = {..<n} \<and>
     (\<forall>b B. as_buf s b = Some B \<longrightarrow> ab_mem_size B = int (length (ab_mem B)) \<and> ab_num_frames B = 0 \<and> ab_stream B = None)"

lemma append_fresh:
  assumes "fresh_bufs s n"
  shows "\<exists>bs q. fifo_append_free n (put_buf n (new_audio_buffer junk sz) s) = Ret (s\<lparr>as_buf := bs, as_free := q\<rparr>) \<and>
    fresh_bufs (s\<lparr>as_buf := bs, as_free := q\<rparr>) (Suc n)"
proof -
  let ?B = "new_audio_buffer junk sz" and ?bs = "(as_buf s)(n \<mapsto> new_audio_buffer junk sz)"
  have f: "fifo_is ?bs (as_free s) [0..<n]"
    by (rule fifo_apart [of "as_buf s" _ _ "[n]"]) (use assms in \<open>auto simp: fresh_bufs_def\<close>)
  obtain bs q where q: "fifo_append_int n (?bs, as_free s) = Ret (bs, q)" "fifo_is bs q ([0..<n] @ [n])" "bviews bs = bviews ?bs"
    using fifo_append_int_ok [OF f, of n ?B] by (auto simp: new_audio_buffer_def)
  have d: "dom bs = {..<Suc n}" using bviews_dom [OF q(3)] assms by (auto simp: fresh_bufs_def)
  have "ab_mem_size B = int (length (ab_mem B)) \<and> ab_num_frames B = 0 \<and> ab_stream B = None" if B: "bs b = Some B" for b B
  proof -
    obtain C where C: "?bs b = Some C" "bview C = bview B" using bviews_Some [OF q(3) [symmetric] B] by auto
    have "ab_mem_size C = int (length (ab_mem C)) \<and> ab_num_frames C = 0 \<and> ab_stream C = None"
      using C(1) assms by (auto simp: fresh_bufs_def new_audio_buffer_def split: if_splits)
    then show ?thesis using arg_cong [OF C(2), of ab_mem_size] arg_cong [OF C(2), of ab_mem] arg_cong [OF C(2), of ab_num_frames]
        arg_cong [OF C(2), of ab_stream] by simp
  qed
  then have "fresh_bufs (s\<lparr>as_buf := bs, as_free := q\<rparr>) (Suc n)" using q(2) d by (simp add: fresh_bufs_def)
  then show ?thesis using q(1) by (intro exI [of _ bs] exI [of _ q]) (simp add: fifo_append_free_def put_buf_def)
qed

lemma alloc_buffers_ok:
  "fresh_bufs s n \<Longrightarrow> \<exists>bs q. alloc_buffers junk [n..<n + m] s = Ret (s\<lparr>as_buf := bs, as_free := q\<rparr>) \<and>
    fresh_bufs (s\<lparr>as_buf := bs, as_free := q\<rparr>) (n + m)"
proof (induction m arbitrary: n s)
  case 0
  then show ?case by (intro exI [of _ "as_buf s"] exI [of _ "as_free s"]) simp
next
  case (Suc m)
  obtain bs q where q: "fifo_append_free n (put_buf n (new_audio_buffer junk AUDIO_BUF_SIZE) s) = Ret (s\<lparr>as_buf := bs, as_free := q\<rparr>)"
    "fresh_bufs (s\<lparr>as_buf := bs, as_free := q\<rparr>) (Suc n)" using append_fresh [OF Suc.prems] by blast
  obtain bs2 q2 where "alloc_buffers junk [Suc n..<Suc n + m] (s\<lparr>as_buf := bs, as_free := q\<rparr>) =
      Ret (s\<lparr>as_buf := bs, as_free := q, as_buf := bs2, as_free := q2\<rparr>)"
    "fresh_bufs (s\<lparr>as_buf := bs, as_free := q, as_buf := bs2, as_free := q2\<rparr>) (Suc n + m)"
    using Suc.IH [OF q(2)] by blast
  moreover have "[n..<n + Suc m] = n # [Suc n..<Suc n + m]" by (simp add: upt_conv_Cons)
  ultimately show ?case using q(1) by (intro exI [of _ bs2] exI [of _ q2]) simp
qed

lemma restore_volume_ok: "settings_ok drv s \<Longrightarrow> \<exists>s'. restore_volume drv C s = Ret s' \<and> unset s s'"
proof (cases drv)
  case (Some D)
  assume a: "settings_ok drv s"
  then have g: "\<not> as_grab_only s" using Some by (simp add: settings_ok_def)
  have p: "volume_property caps \<in> {AO_PROP_MIXER_VOL, AO_PROP_PCM_VOL}" for caps
    by (simp add: volume_property_def AO_PROP_MIXER_VOL_def AO_PROP_PCM_VOL_def)
  have "ao_set_property 0 (Some D) q v s = Ret (ad_set_property D (as_calls s) q v, ao_call (A_set_property q v) s)"
    if "q \<in> {AO_PROP_MIXER_VOL, AO_PROP_PCM_VOL}" for q v
    using that g by (auto simp: ao_set_property_def AO_PROP_MIXER_VOL_def AO_PROP_PCM_VOL_def AO_PROP_COMPRESSOR_def AO_PROP_AMP_def
        is_eq_prop_def AO_PROP_EQ_30HZ_def AO_PROP_EQ_16000HZ_def AO_PROP_DISCARD_BUFFERS_def AO_PROP_PAUSED_def AO_PROP_CLOSE_DEVICE_def)
  from this [OF p] show ?thesis using Some g by (simp add: restore_volume_def ao_get_capabilities_def)
qed (simp add: restore_volume_def)

lemma ao_new_port_ok:
  "\<exists>s. ao_new_port drv junk C (drv = None) streams = Ret s \<and> ao_is drv s [0..<NUM_AUDIO_BUFFERS] [] {} {} [] \<and>
    (\<forall>b < NUM_AUDIO_BUFFERS. ready s b)"
proof -
  define g where "g = (case drv of None \<Rightarrow> 0 | Some D \<Rightarrow> ad_gap_tolerance D)"
  let ?s0 = "new_port_fields C (drv = None) streams"
  let ?s1 = "if drv = None then ?s0 else ?s0\<lparr>as_gap_tolerance := g\<rparr>"
  have 1: "(if drv = None then Ret ?s0 else obind (of_opt drv) (\<lambda>D. Ret (?s0\<lparr>as_gap_tolerance := ad_gap_tolerance D\<rparr>))) = Ret ?s1"
    by (auto simp: g_def split: option.splits)
  let ?s2 = "ao_update_av_sync_method (ac_sync_method C) ?s1"
  have f: "as_buf ?s2 = Map.empty" "as_free ?s2 = audio_fifo_new" "as_out ?s2 = audio_fifo_new" "as_streams ?s2 = xine_list_new"
    "as_frame_buf ?s2 = (NUM_AUDIO_BUFFERS, NUM_AUDIO_BUFFERS + 1)" "as_grab_only ?s2 = (drv = None)" "\<not> as_driver_open ?s2"
    "\<not> as_loop_running ?s2" "as_input ?s2 = as_output ?s2" "eq_ok ?s2"
    by (auto simp: new_port_fields_def ao_update_av_sync_method_def eq_ok_def)
  have "fresh_bufs ?s2 0" unfolding fresh_bufs_def f by (simp add: fifo_is_def audio_fifo_new_def)
  from alloc_buffers_ok [OF this, of junk NUM_AUDIO_BUFFERS] obtain bs q where
    q: "alloc_buffers junk [0..<NUM_AUDIO_BUFFERS] ?s2 = Ret (?s2\<lparr>as_buf := bs, as_free := q\<rparr>)"
      "fresh_bufs (?s2\<lparr>as_buf := bs, as_free := q\<rparr>) NUM_AUDIO_BUFFERS" by auto
  let ?s3 = "?s2\<lparr>as_buf := bs, as_free := q\<rparr>" and ?n = "new_audio_buffer junk (4 * AUDIO_BUF_SIZE)"
  define s4 where "s4 = put_buf (fst (as_frame_buf ?s3)) ?n (put_buf (snd (as_frame_buf ?s3)) ?n ?s3)"
  have f4: "as_buf s4 = bs(NUM_AUDIO_BUFFERS + 1 \<mapsto> ?n, NUM_AUDIO_BUFFERS \<mapsto> ?n)" "as_free s4 = q" "as_out s4 = audio_fifo_new"
    "as_streams s4 = xine_list_new" "frame_bufs s4 = {NUM_AUDIO_BUFFERS, NUM_AUDIO_BUFFERS + 1}" "as_frame_buf s4 = (NUM_AUDIO_BUFFERS, NUM_AUDIO_BUFFERS + 1)"
    "as_grab_only s4 = (drv = None)" "\<not> as_driver_open s4" "\<not> as_loop_running s4" "as_input s4 = as_output s4" "eq_ok s4"
    using f by (simp_all add: s4_def put_buf_def frame_bufs_def eq_ok_def)
  have B: "fifo_is bs q [0..<NUM_AUDIO_BUFFERS]" "dom bs = {..<NUM_AUDIO_BUFFERS}" "\<forall>b B. bs b = Some B \<longrightarrow> ab_mem_size B = int (length (ab_mem B)) \<and> ab_num_frames B = 0 \<and> ab_stream B = None"
    using q(2) by (simp_all add: fresh_bufs_def)
  have F: "fifo_is (as_buf s4) q [0..<NUM_AUDIO_BUFFERS]" unfolding f4
    by (rule fifo_apart [OF B(1), of "[NUM_AUDIO_BUFFERS, NUM_AUDIO_BUFFERS + 1]"]) auto
  have O: "fifo_is (as_buf s4) audio_fifo_new []" by (simp add: fifo_is_def audio_fifo_new_def)
  have bo: "bufs_ok s4" unfolding bufs_ok_def f4 using B(3) by (auto simp: new_audio_buffer_def)
  have "placed s4 [0..<NUM_AUDIO_BUFFERS] [] {}"
    unfolding placed_def using F O bo B(2) by (auto simp: f4)
  moreover have "holds xl_is (as_streams s4) []" unfolding f4(4)
    by (rule holdsI [of xl_is, OF list_new_ok]) (simp_all add: solid_def contents_def cl_all_def)
  moreover have se: "settings_ok drv s4" using f4 by (simp add: settings_ok_def modes_match_def)
  ultimately have i: "ao_is drv s4 [0..<NUM_AUDIO_BUFFERS] [] {} {} []"
    using f4(11) by (auto simp: ao_is_def streams_ok_def)
  obtain s5 where 5: "restore_volume drv C s4 = Ret s5" "unset s4 s5" using restore_volume_ok [OF se] by blast
  let ?s6 = "if drv = None then s5 else s5\<lparr>as_loop_running := True\<rparr>"
  have i5: "ao_is drv s5 [0..<NUM_AUDIO_BUFFERS] [] {} {} []" by (rule ao_is_unset [OF i 5(2)])
  note I5 = ao_isD [OF i5]
  have "ao_is drv ?s6 [0..<NUM_AUDIO_BUFFERS] [] {} {} []"
    by (rule ao_is_fields [OF i5]) (use I5(3,5) in \<open>auto simp: eq_ok_def settings_ok_def modes_match_def\<close>)
  moreover have "ready ?s6 b" if b: "b < NUM_AUDIO_BUFFERS" for b
  proof -
    have "b \<in> dom bs" using b B(2) by simp
    then obtain D where D: "bs b = Some D" by blast
    then have "as_buf ?s6 b = Some D" using f4(1) 5(2) b by (simp add: unset_def ao_still_def)
    then show ?thesis using B(3) D by (simp add: ready_def fit_format_def)
  qed
  moreover have "ao_new_port drv junk C (drv = None) streams = Ret ?s6"
    unfolding ao_new_port_def Let_def 1 obind.simps q(1) s4_def [symmetric] 5(1) by simp
  ultimately show ?thesis by blast
qed

lemma ao_reachable_inv:
  assumes "ao_reachable k drv x" and "driver_works drv" and "NUM_AUDIO_BUFFERS < k"
  shows "ao_inv k drv x"
  using assms(1)
proof (induction rule: ao_reachable.induct)
  case (ao_start junk C streams s)
  then show ?case using ao_new_port_ok [of drv junk C streams] assms(3)
    by (auto simp: ao_inv_def no_ao_clients_def loop_bufs_def loop_start_def loop_idle_def)
next
  case (ao_next x y)
  from ao_next.hyps(2) obtain op where "ao_allowed k drv op x" "run_ao k drv op x = Ret y" by (auto elim: ao_step.cases)
  then show ?case using ao_op_ok [OF assms(2,3) ao_next.IH, of op] by (auto simp: ao_fine_def)
qed

section \<open>The lists of buffers\<close>

definition free_bufs :: "nat \<Rightarrow> aos \<Rightarrow> nat list" where
  "free_bufs k s = walk (ab_nexts (as_buf s)) k (aq_first (as_free s))"

definition out_bufs :: "nat \<Rightarrow> aos \<Rightarrow> nat list" where
  "out_bufs k s = walk (ab_nexts (as_buf s)) k (aq_first (as_out s))"

lemma bufs_lists:
  assumes "ao_is drv s F Q H W sts" and "NUM_AUDIO_BUFFERS < k"
  shows "free_bufs k s = F" and "out_bufs k s = Q"
  using few_bufs [OF assms] placedD(1,2) [OF ao_isD(1) [OF assms(1)]]
  unfolding free_bufs_def out_bufs_def fifo_is_def by (auto intro!: walk_lseg)

lemma reachable_is:
  assumes "ao_reachable k drv (s, c)" and "driver_works drv" and "NUM_AUDIO_BUFFERS < k"
  shows "ao_is drv s (free_bufs k s) (out_bufs k s) (ac_held c \<union> loop_bufs c) (loop_bufs c) (ac_open c)"
    and "length (ac_open c) < k" and "ac_held c \<inter> loop_bufs c = {}" and "drv = None \<longrightarrow> loop_bufs c = {}"
proof -
  from ao_invD [OF ao_reachable_inv [OF assms]] obtain F Q where
    I: "ao_is drv s F Q (ac_held c \<union> loop_bufs c) (loop_bufs c) (ac_open c)" "length (ac_open c) < k"
    "ac_held c \<inter> loop_bufs c = {}" "drv = None \<longrightarrow> loop_bufs c = {}" .
  show "ao_is drv s (free_bufs k s) (out_bufs k s) (ac_held c \<union> loop_bufs c) (loop_bufs c) (ac_open c)"
    using I(1) bufs_lists [OF I(1) assms(3)] by simp
qed (use ao_invD [OF ao_reachable_inv [OF assms]] in blast)+

end
