(* ===== verification/Audio_Demo.thy ===== *)
theory Audio_Demo
  imports Audio_System
begin

text \<open>
  A run of the audio output with a small driver, for concrete instances of the theorems: a stream
  opens the port, and a decoder gets a buffer, fills it and puts it.
\<close>

definition demo_ao_driver :: ao_driver where
  "demo_ao_driver =
     \<lparr>ad_capabilities = AO_CAP_MODE_A52, ad_open = \<lambda>_ _ rate _. rate, ad_delay = \<lambda>calls. if length calls < 3 then - 1 else 0,
      ad_write = \<lambda>_ _ n. 1, ad_gap_tolerance = 5000, ad_get_property = \<lambda>_ _. 0, ad_set_property = \<lambda>_ _ v. v, ad_control = \<lambda>_ _. 0\<rparr>"

definition demo_ao_stream :: ao_stream where
  "demo_ao_stream =
     \<lparr>sa_metronom = metronom_init True 0, sa_decoder_info = extra_info_reset, sa_current_info = extra_info_reset,
      sa_has_video = False, sa_bits = 16, sa_rate = 48000, sa_mode = AO_CAP_MODE_A52, sa_channels = 255, sa_demux_ok = True\<rparr>"

definition demo_ao_config :: ao_config where
  "demo_ao_config =
     \<lparr>ac_sync_method = 0, ac_resample_mode = 1, ac_force_rate = 0, ac_passthrough_offset = 0, ac_volume = 50,
      ac_remember_volume = False\<rparr>"

definition demo_ao_start :: ao_sys where
  "demo_ao_start =
     (case ao_new_port (Some demo_ao_driver) extra_info_reset demo_ao_config False [0 \<mapsto> demo_ao_stream] of
        Ret s \<Rightarrow> (s, no_ao_clients) | _ \<Rightarrow> undefined)"

definition demo_op :: "ao_op \<Rightarrow> ao_sys \<Rightarrow> ao_sys" where
  "demo_op op x = (case run_ao 40 (Some demo_ao_driver) op x of Ret y \<Rightarrow> y | _ \<Rightarrow> x)"

lemma demo_ao_works: "driver_works (Some demo_ao_driver)" "NUM_AUDIO_BUFFERS < 40"
  by (simp_all add: driver_works_def demo_ao_driver_def NUM_AUDIO_BUFFERS_def)

abbreviation demo_reachable :: "ao_sys \<Rightarrow> bool" where
  "demo_reachable \<equiv> ao_reachable 40 (Some demo_ao_driver)"

lemma demo_op_reachable: "demo_reachable x \<Longrightarrow> ao_allowed 40 (Some demo_ao_driver) op x \<Longrightarrow> demo_reachable (demo_op op x)"
  using ao_next [OF _ ao_step] by (auto simp: demo_op_def split: outcome.splits)

lemma alloc_buffers_form: "alloc_buffers junk bs s = Ret s' \<Longrightarrow> \<exists>m q. s' = s\<lparr>as_buf := m, as_free := q\<rparr>"
proof (induction bs arbitrary: s)
  case Nil
  then show ?case by (intro exI [of _ "as_buf s"] exI [of _ "as_free s"]) simp
next
  case (Cons b bs)
  then obtain s1 where s1: "fifo_append_free b (put_buf b (new_audio_buffer junk AUDIO_BUF_SIZE) s) = Ret s1" "alloc_buffers junk bs s1 = Ret s'"
    by (auto simp: obind_eq_Ret)
  obtain m q where "s1 = s\<lparr>as_buf := m, as_free := q\<rparr>" using s1(1) by (auto simp: fifo_append_free_def put_buf_def obind_eq_Ret)
  then show ?case using Cons.IH [OF s1(2)] by auto
qed

text \<open>The port after its creation, and once it is open.\<close>

definition demo_format :: ao_format where
  "demo_format = \<lparr>af_bits = 16, af_rate = 48000, af_mode = AO_CAP_MODE_A52\<rparr>"

definition demo_quiet :: "aos \<Rightarrow> bool" where
  "demo_quiet s \<longleftrightarrow>
     \<not> as_sync_method s \<and> \<not> as_do_equ s \<and> as_discard s = 0 \<and> as_flush s = 0 \<and> as_paused s = 0 \<and> as_loop_running s \<and>
     as_passthrough_offset s = 0 \<and> as_gap_tolerance s = 5000 \<and> \<not> as_grab_only s \<and> as_resample_conf s = 1 \<and> as_force_rate s = 0"

definition demo_port :: "aos \<Rightarrow> bool" where
  "demo_port s \<longleftrightarrow>
     demo_quiet s \<and> as_input s = demo_format \<and> as_output s = demo_format \<and> \<not> as_do_resample s \<and>
     as_calls s = [A_open 16 48000 AO_CAP_MODE_A52] \<and> as_driver_open s"

lemma demo_start:
  obtains s where "demo_ao_start = (s, no_ao_clients)" and "demo_reachable (s, no_ao_clients)" and "demo_quiet s"
    and "as_out s = audio_fifo_new" and "as_stream s 0 = Some demo_ao_stream" and "\<not> as_driver_open s" and "as_calls s = []"
    and "ao_is (Some demo_ao_driver) s [0..<NUM_AUDIO_BUFFERS] [] {} {} []" and "\<forall>b < NUM_AUDIO_BUFFERS. ready s b"
proof -
  obtain s where s: "ao_new_port (Some demo_ao_driver) extra_info_reset demo_ao_config False [0 \<mapsto> demo_ao_stream] = Ret s"
    "ao_is (Some demo_ao_driver) s [0..<NUM_AUDIO_BUFFERS] [] {} {} []" "\<forall>b < NUM_AUDIO_BUFFERS. ready s b"
    using ao_new_port_ok [of "Some demo_ao_driver" extra_info_reset demo_ao_config "[0 \<mapsto> demo_ao_stream]"] by auto
  have r: "demo_reachable (s, no_ao_clients)" using ao_start [of "Some demo_ao_driver"] s(1) by auto
  let ?s2 = "ao_update_av_sync_method 0 ((new_port_fields demo_ao_config False [0 \<mapsto> demo_ao_stream])\<lparr>as_gap_tolerance := 5000\<rparr>)"
  have c: "ac_sync_method demo_ao_config = 0" "\<not> ac_remember_volume demo_ao_config" "ad_gap_tolerance demo_ao_driver = 5000"
    by (simp_all add: demo_ao_config_def demo_ao_driver_def)
  obtain s3 where s3: "alloc_buffers extra_info_reset [0..<NUM_AUDIO_BUFFERS] ?s2 = Ret s3"
    "s = (put_buf (fst (as_frame_buf s3)) (new_audio_buffer extra_info_reset (4 * AUDIO_BUF_SIZE))
             (put_buf (snd (as_frame_buf s3)) (new_audio_buffer extra_info_reset (4 * AUDIO_BUF_SIZE)) s3))\<lparr>as_loop_running := True\<rparr>"
    using s(1) c by (auto simp: ao_new_port_def obind_eq_Ret restore_volume_def Let_def)
  obtain m q where m: "s3 = ?s2\<lparr>as_buf := m, as_free := q\<rparr>" using alloc_buffers_form [OF s3(1)] by blast
  have "demo_quiet s" "as_out s = audio_fifo_new" "as_stream s 0 = Some demo_ao_stream" "\<not> as_driver_open s" "as_calls s = []"
    unfolding s3(2) m
    by (simp_all add: demo_quiet_def put_buf_def ao_update_av_sync_method_def new_port_fields_def demo_ao_config_def)
  then show ?thesis using that [of s] s r by (simp add: demo_ao_start_def)
qed

definition demo_opened :: ao_sys where
  "demo_opened = demo_op (A_open_port 0 16 48000 AO_CAP_MODE_A52) demo_ao_start"

lemma demo_opened_state:
  obtains s S where "demo_opened = (s, no_ao_clients\<lparr>ac_open := [0]\<rparr>)" and "demo_reachable (s, no_ao_clients\<lparr>ac_open := [0]\<rparr>)" and "demo_port s"
    and "as_stream s 0 = Some S" and "sa_bits S = 16" and "sa_rate S = 48000" and "sa_mode S = AO_CAP_MODE_A52" and "audio_stamps (sa_metronom S)"
    and "ao_is (Some demo_ao_driver) s [0..<NUM_AUDIO_BUFFERS] [] {} {} [0]" and "\<forall>b < NUM_AUDIO_BUFFERS. ready s b"
proof -
  obtain s where s: "demo_ao_start = (s, no_ao_clients)" "demo_reachable (s, no_ao_clients)" "demo_quiet s"
    "as_out s = audio_fifo_new" "as_stream s 0 = Some demo_ao_stream" "\<not> as_driver_open s" "as_calls s = []"
    "ao_is (Some demo_ao_driver) s [0..<NUM_AUDIO_BUFFERS] [] {} {} []" "\<forall>b < NUM_AUDIO_BUFFERS. ready s b" using demo_start .
  let ?f = "demo_format"
  define s1 where "s1 = (ao_call (A_open 16 48000 AO_CAP_MODE_A52) ((close_driver s)\<lparr>as_input := ?f\<rparr>))\<lparr>as_driver_open := True\<rparr>"
  define s2 where "s2 = s1\<lparr>as_last_vpts := 0, as_output := ?f, as_do_resample := False, as_rate_factor := 1,
    as_frames_per_kpts := uint ((48000 :: u32) * 1024 div 90000), as_audio_step := 61440\<rparr>"
  have b: "driver_bits demo_ao_driver 16 = 16" "driver_mode demo_ao_driver AO_CAP_MODE_A52 = AO_CAP_MODE_A52"
    by (simp_all add: driver_bits_def driver_mode_def AO_CAP_MODE_A52_def AO_CAP_MODE_MONO_def AO_CAP_MODE_STEREO_def)
  have q: "\<not> as_grab_only s" "as_resample_conf s = 1" "as_force_rate s = 0" using s(3) by (simp_all add: demo_quiet_def)
  have step: "cdiv (90000 * 32768) 48000 = Ret 61440" by (simp add: cdiv_def)
  have c: "ao_change_settings (Some demo_ao_driver) 16 48000 AO_CAP_MODE_A52 s = Ret (48000, s2)"
    using q s(6) step b
    by (simp add: ao_change_settings_def open_driver_def close_driver_def when_open_def ao_call_def demo_format_def s1_def s2_def Let_def
        demo_ao_driver_def)
  obtain l where l: "xine_list_append_content (Some 0) (as_streams s) = Ret l"
    using xl.holds_append [of "as_streams s" "[]" 0] ao_isD(4) [OF s(8)] by (auto simp: streams_ok_def)
  let ?S = "demo_ao_stream\<lparr>sa_mode := AO_CAP_MODE_A52, sa_channels := stream_channels AO_CAP_MODE_A52, sa_bits := 16, sa_rate := 48000,
        sa_metronom := metronom_set_audio_rate 61440 (metronom_init True 0)\<rparr>"
  let ?t = "put_ao_stream 0 ?S (s2\<lparr>as_streams := l\<rparr>)"
  have f2: "as_streams s2 = as_streams s" "as_stream s2 0 = Some demo_ao_stream" "as_audio_step s2 = 61440" "as_output s2 = demo_format"
    using s(5) by (simp_all add: s2_def s1_def ao_call_def close_driver_def when_open_def)
  have m: "sa_metronom demo_ao_stream = metronom_init True 0" by (simp add: demo_ao_stream_def)
  have o: "ao_open (Some demo_ao_driver) True 0 16 48000 AO_CAP_MODE_A52 s = Ret (48000, ?t)"
    using s(4,6) c l f2 m by (simp add: ao_open_def fifo_wait_empty_def audio_fifo_new_def ao_stream_at_def demo_format_def del: if_split)
  have al: "ao_allowed 40 (Some demo_ao_driver) (A_open_port 0 16 48000 AO_CAP_MODE_A52) (s, no_ao_clients)"
    using s(5) by (simp add: no_ao_clients_def)
  have cl: "loop_idle no_ao_clients" "ac_open no_ao_clients = []" by (simp_all add: no_ao_clients_def loop_idle_def loop_start_def)
  have e: "demo_opened = (?t, no_ao_clients\<lparr>ac_open := [0]\<rparr>)"
    unfolding demo_opened_def demo_op_def s(1) by (simp add: o cl)
  have r: "demo_reachable (?t, no_ao_clients\<lparr>ac_open := [0]\<rparr>)"
    using demo_op_reachable [OF s(2) al] e s(1) unfolding demo_opened_def by simp
  have st: "as_stream s 0 \<noteq> None" using s(5) by simp
  have i: "ao_is (Some demo_ao_driver) ?t [0..<NUM_AUDIO_BUFFERS] [] {} {} [0]"
    using ao_open_ok [OF s(8) st _ demo_ao_works(1), of 48000 True 16 AO_CAP_MODE_A52] o by simp
  have ft: "as_buf ?t = as_buf s" "dom (as_stream s) \<subseteq> dom (as_stream ?t)"
    by (auto simp: put_ao_stream_def s2_def s1_def ao_call_def close_driver_def when_open_def)
  have rd: "\<forall>b < NUM_AUDIO_BUFFERS. ready ?t b" using s(9) ready_views [of s _ ?t] ft by simp
  have "demo_port ?t" using s(3,6,7)
    by (simp add: demo_port_def demo_quiet_def put_ao_stream_def s2_def s1_def ao_call_def close_driver_def when_open_def)
  moreover have "audio_stamps (sa_metronom ?S)" by (simp add: audio_stamps_def metronom_set_audio_rate_def metronom_init_def)
  moreover have "as_stream ?t 0 = Some ?S" by (simp add: put_ao_stream_def)
  ultimately show ?thesis using that [of ?t ?S] e r i rd by simp
qed

text \<open>The buffer with the decoder, filled, waiting, and with the loop.\<close>

definition demo_got :: ao_sys where
  "demo_got = demo_op A_get demo_opened"

definition demo_filled :: ao_sys where
  "demo_filled = demo_op (A_fill 0 (ab_mem (the (as_buf (fst demo_got) 0))) 1 90000) demo_got"

definition demo_waiting :: ao_sys where
  "demo_waiting = demo_op (A_put 0 0) demo_filled"

definition demo_taken :: ao_sys where
  "demo_taken = demo_op A_take demo_waiting"

definition demo_clients :: "nat set \<Rightarrow> ao_local \<Rightarrow> ao_clients" where
  "demo_clients H L = \<lparr>ac_held = H, ac_loop = L, ac_open = [0]\<rparr>"

lemma demo_free: "[0..<NUM_AUDIO_BUFFERS] = 0 # [1..<NUM_AUDIO_BUFFERS]"
  by (simp add: NUM_AUDIO_BUFFERS_def upt_conv_Cons)

lemma demo_links:
  "demo_port (s\<lparr>as_buf := a\<rparr>) = demo_port s" "demo_port (s\<lparr>as_free := b\<rparr>) = demo_port s" "demo_port (s\<lparr>as_out := b\<rparr>) = demo_port s"
  "demo_port (s\<lparr>as_stream := d\<rparr>) = demo_port s" "demo_port (s\<lparr>as_last_vpts := e\<rparr>) = demo_port s"
  by (simp_all add: demo_port_def demo_quiet_def)

lemma demo_got_state:
  obtains s S B where "demo_got = (s, demo_clients {0} loop_start)" and "demo_reachable (s, demo_clients {0} loop_start)" and "demo_port s"
    and "as_stream s 0 = Some S" and "sa_bits S = 16" and "sa_rate S = 48000" and "sa_mode S = AO_CAP_MODE_A52" and "audio_stamps (sa_metronom S)"
    and "ao_is (Some demo_ao_driver) s [1..<NUM_AUDIO_BUFFERS] [] {0} {} [0]" and "ready s 0" and "as_buf s 0 = Some B"
proof -
  obtain s S where s: "demo_opened = (s, no_ao_clients\<lparr>ac_open := [0]\<rparr>)" "demo_reachable (s, no_ao_clients\<lparr>ac_open := [0]\<rparr>)" "demo_port s"
    "as_stream s 0 = Some S" "sa_bits S = 16" "sa_rate S = 48000" "sa_mode S = AO_CAP_MODE_A52" "audio_stamps (sa_metronom S)"
    "ao_is (Some demo_ao_driver) s [0..<NUM_AUDIO_BUFFERS] [] {} {} [0]" "\<forall>b < NUM_AUDIO_BUFFERS. ready s b" using demo_opened_state .
  obtain m q where q: "fifo_remove_free s = Ret (0, s\<lparr>as_buf := m, as_free := q\<rparr>)"
    "ao_is (Some demo_ao_driver) (s\<lparr>as_buf := m, as_free := q\<rparr>) [1..<NUM_AUDIO_BUFFERS] [] (insert 0 {}) {} [0]" "bviews m = bviews (as_buf s)"
    using take_free_ok [OF s(9) [unfolded demo_free]] by blast
  let ?s = "s\<lparr>as_buf := m, as_free := q\<rparr>"
  have i: "ao_is (Some demo_ao_driver) ?s [1..<NUM_AUDIO_BUFFERS] [] {0} {} [0]" using q(2) by simp
  obtain B where B: "as_buf ?s 0 = Some B" "ab_next B = None" using placed_held [OF ao_isD(1) [OF i]] by blast
  have "ready s 0" using s(10) by (simp add: NUM_AUDIO_BUFFERS_def)
  then have r: "ready ?s 0" by (rule ready_views) (use q(3) in simp_all)
  let ?B = "B\<lparr>ab_extra_info := extra_info_reset\<rparr>"
  have ms: "ab_mem_size B = int (length (ab_mem B))" using placedD(8) [OF ao_isD(1) [OF i]] B by (simp add: bufs_ok_def)
  have i2: "ao_is (Some demo_ao_driver) (put_buf 0 ?B ?s) [1..<NUM_AUDIO_BUFFERS] [] {0} {} [0]"
    by (rule write_ok [OF i]) (use B ms in simp_all)
  have g: "ao_get_buffer s = Ret (0, put_buf 0 ?B ?s)" using q(1) B by (simp add: ao_get_buffer_def buf_at_def)
  have c: "no_ao_clients\<lparr>ac_open := [0], ac_held := {0}\<rparr> = demo_clients {0} loop_start" by (simp add: no_ao_clients_def demo_clients_def)
  have h: "ac_held no_ao_clients = {}" by (simp add: no_ao_clients_def)
  have e: "demo_got = (put_buf 0 ?B ?s, demo_clients {0} loop_start)"
    unfolding demo_got_def demo_op_def s(1) c [symmetric] using g h by simp
  have re: "demo_reachable (put_buf 0 ?B ?s, demo_clients {0} loop_start)"
    using demo_op_reachable [OF s(2), of A_get] e unfolding demo_got_def s(1) by simp
  have "ready (put_buf 0 ?B ?s) 0" using r B by (auto simp: ready_def fit_format_def put_buf_def room_def)
  moreover have "demo_port (put_buf 0 ?B ?s)" using s(3) by (simp add: put_buf_def demo_links)
  ultimately show ?thesis using that [of "put_buf 0 ?B ?s" S ?B] e re s(4-8) i2 by (simp add: put_buf_def)
qed

lemma demo_filled_state:
  obtains s S B where "demo_filled = (s, demo_clients {0} loop_start)" and "demo_reachable (s, demo_clients {0} loop_start)" and "demo_port s"
    and "as_stream s 0 = Some S" and "sa_bits S = 16" and "sa_rate S = 48000" and "sa_mode S = AO_CAP_MODE_A52" and "audio_stamps (sa_metronom S)"
    and "ao_is (Some demo_ao_driver) s [1..<NUM_AUDIO_BUFFERS] [] {0} {} [0]" and "as_buf s 0 = Some B" and "ab_num_frames B = 1"
proof -
  obtain s S B where s: "demo_got = (s, demo_clients {0} loop_start)" "demo_reachable (s, demo_clients {0} loop_start)" "demo_port s"
    "as_stream s 0 = Some S" "sa_bits S = 16" "sa_rate S = 48000" "sa_mode S = AO_CAP_MODE_A52" "audio_stamps (sa_metronom S)"
    "ao_is (Some demo_ao_driver) s [1..<NUM_AUDIO_BUFFERS] [] {0} {} [0]" "ready s 0" "as_buf s 0 = Some B" using demo_got_state .
  let ?B = "B\<lparr>ab_mem := ab_mem B, ab_num_frames := 1, ab_vpts := 90000\<rparr>"
  have B: "ab_next B = None" using placed_held [OF ao_isD(1) [OF s(9)]] s(11) by auto
  have ms: "ab_mem_size B = int (length (ab_mem B))" using placedD(8) [OF ao_isD(1) [OF s(9)]] s(11) by (simp add: bufs_ok_def)
  have i: "ao_is (Some demo_ao_driver) (put_buf 0 ?B s) [1..<NUM_AUDIO_BUFFERS] [] {0} {} [0]"
    by (rule write_ok [OF s(9)]) (use B ms in simp_all)
  have e: "demo_filled = (put_buf 0 ?B s, demo_clients {0} loop_start)"
    unfolding demo_filled_def demo_op_def s(1) using s(11) by (simp add: buf_at_def)
  have al: "ao_allowed 40 (Some demo_ao_driver) (A_fill 0 (ab_mem (the (as_buf (fst demo_got) 0))) 1 90000) (s, demo_clients {0} loop_start)"
    unfolding s(1) using s(11) by (simp add: demo_clients_def)
  have re: "demo_reachable (put_buf 0 ?B s, demo_clients {0} loop_start)"
    using demo_op_reachable [OF s(2) al] e unfolding demo_filled_def s(1) by simp
  have p: "demo_port (put_buf 0 ?B s)" using s(3) by (simp add: put_buf_def demo_links)
  show ?thesis using that [of "put_buf 0 ?B s" S ?B] e re p s(4-8) i by (simp add: put_buf_def)
qed

lemma demo_waiting_state:
  obtains s B where "demo_waiting = (s, demo_clients {} loop_start)" and "demo_reachable (s, demo_clients {} loop_start)" and "demo_port s"
    and "ao_is (Some demo_ao_driver) s [1..<NUM_AUDIO_BUFFERS] [0] {} {} [0]" and "as_buf s 0 = Some B" and "ab_num_frames B = 1"
    and "ab_format B = demo_format"
proof -
  obtain s S B where s: "demo_filled = (s, demo_clients {0} loop_start)" "demo_reachable (s, demo_clients {0} loop_start)" "demo_port s"
    "as_stream s 0 = Some S" "sa_bits S = 16" "sa_rate S = 48000" "sa_mode S = AO_CAP_MODE_A52" "audio_stamps (sa_metronom S)"
    "ao_is (Some demo_ao_driver) s [1..<NUM_AUDIO_BUFFERS] [] {0} {} [0]" "as_buf s 0 = Some B" "ab_num_frames B = 1" using demo_filled_state .
  have mp: "may_put 0 0 s" using s(4-8,10,11)
    by (simp add: may_put_def room_def mode_channels_def AO_CAP_MODE_A52_def AO_CAP_MODE_MONO_def AO_CAP_MODE_STEREO_def AO_CAP_MODE_4CHANNEL_def
        AO_CAP_MODE_4_1CHANNEL_def AO_CAP_MODE_5CHANNEL_def AO_CAP_MODE_5_1CHANNEL_def)
  have o: "aq_first (as_out s) = None" using fifo_first [OF placedD(2) [OF ao_isD(1) [OF s(9)]]] by simp
  have n: "ab_next B = None" using placed_held [OF ao_isD(1) [OF s(9)]] s(10) by auto
  have d: "as_discard s = 0" using s(3) by (simp add: demo_port_def demo_quiet_def)
  obtain v m where vm: "metronom_got_audio_samples (ab_vpts B) 1 (sa_metronom S) = Ret (v, m)" using got_audio_returns [OF s(8)] by blast
  define B' where "B' = B\<lparr>ab_stream := Some 0, ab_format := demo_format, ab_vpts := v,
        ab_extra_info := (extra_info_merge (ab_extra_info B) (sa_decoder_info S))\<lparr>ei_vpts := v\<rparr>\<rparr>"
  let ?t = "(put_ao_stream 0 (S\<lparr>sa_metronom := m\<rparr>) (put_buf 0 B' s))\<lparr>as_buf := (as_buf s)(0 \<mapsto> B'), as_out := \<lparr>aq_first = Some 0, aq_last = Some 0, aq_num = 1\<rparr>, as_last_vpts := v\<rparr>"
  have p: "ao_put_buffer 0 0 s = Ret ?t"
    using s(4-7,10,11) vm o n d
    by (simp add: ao_put_buffer_def buf_at_def ao_stream_at_def Let_def put_ao_stream_def put_buf_def fifo_append_out_def fifo_append_int_def
        B'_def demo_format_def)
  have b: "0 \<in> {0 :: nat}" "0 \<notin> ({} :: nat set)" by simp_all
  obtain F' Q' where i: "ao_is (Some demo_ao_driver) ?t F' Q' ({0} - {0}) {} [0]"
    "F' = [1..<NUM_AUDIO_BUFFERS] @ [0] \<and> Q' = [] \<or> F' = [1..<NUM_AUDIO_BUFFERS] \<and> Q' = [] @ [0]"
    using put_buffer_ok [OF s(9) b mp] p by auto
  have "Q' \<noteq> []" using fifo_first [OF placedD(2) [OF ao_isD(1) [OF i(1)]]] by auto
  then have i2: "ao_is (Some demo_ao_driver) ?t [1..<NUM_AUDIO_BUFFERS] [0] {} {} [0]" using i by auto
  have c: "(demo_clients {0} loop_start)\<lparr>ac_held := {}\<rparr> = demo_clients {} loop_start" "ac_held (demo_clients {0} loop_start) = {0}"
    by (simp_all add: demo_clients_def)
  have e: "demo_waiting = (?t, demo_clients {} loop_start)"
    unfolding demo_waiting_def demo_op_def s(1) by (simp add: p c del: put_buf_def)
  have al: "ao_allowed 40 (Some demo_ao_driver) (A_put 0 0) (s, demo_clients {0} loop_start)" using mp by (simp add: c)
  have re: "demo_reachable (?t, demo_clients {} loop_start)"
    using demo_op_reachable [OF s(2) al] e unfolding demo_waiting_def s(1) by simp
  have dp: "demo_port ?t" using s(3) by (simp add: put_buf_def put_ao_stream_def demo_links)
  show ?thesis using that [of ?t B'] e re dp i2 s(11) by (simp add: B'_def)
qed

lemma demo_taken_state:
  obtains s B where "demo_taken = (s, demo_clients {} \<lparr>lo_in_buf = Some 0, lo_last_sync_time = 0, lo_bufs_since_sync = 1\<rparr>)"
    and "demo_reachable demo_taken" and "demo_port s" and "as_buf s 0 = Some B" and "ab_num_frames B = 1" and "ab_format B = demo_format"
proof -
  obtain s B where s: "demo_waiting = (s, demo_clients {} loop_start)" "demo_reachable (s, demo_clients {} loop_start)" "demo_port s"
    "ao_is (Some demo_ao_driver) s [1..<NUM_AUDIO_BUFFERS] [0] {} {} [0]" "as_buf s 0 = Some B" "ab_num_frames B = 1" "ab_format B = demo_format"
    using demo_waiting_state .
  obtain m q where q: "fifo_remove_out s = Ret (0, s\<lparr>as_buf := m, as_out := q\<rparr>)" "bviews m = bviews (as_buf s)"
    using take_out_ok [OF s(4)] by blast
  obtain B' where B': "m 0 = Some B'" "bview B' = bview B" using bviews_Some [OF q(2) s(5)] by blast
  have f: "ab_num_frames B' = 1" "ab_format B' = demo_format"
    using arg_cong [OF B'(2), of ab_num_frames] arg_cong [OF B'(2), of ab_format] s(6,7) by simp_all
  let ?L = "\<lparr>lo_in_buf = Some 0, lo_last_sync_time = 0, lo_bufs_since_sync = 1\<rparr>"
  have e: "demo_taken = (s\<lparr>as_buf := m, as_out := q\<rparr>, demo_clients {} ?L)"
    unfolding demo_taken_def demo_op_def s(1) using q(1)
    by (simp add: with_loop_def loop_take_def demo_clients_def loop_start_def)
  have re: "demo_reachable demo_taken" using demo_op_reachable [OF s(2), of A_take] unfolding demo_taken_def s(1) by simp
  show ?thesis using that [OF e re] s(3) B'(1) f by (simp add: demo_links)
qed

end
