(* ===== verification/Audio_Props.thy ===== *)
theory Audio_Props
  imports Audio_Demo Queue_Iface
begin

text \<open>The properties of the audio output over everything its clients do.\<close>

section \<open>Buffers\<close>





section \<open>The fifo of waiting buffers\<close>

text \<open>In the terms of the interface: what may be put is in no fifo, and has room for what it claims.\<close>

definition aq_inv :: "nat \<Rightarrow> ao_driver option \<Rightarrow> aos \<Rightarrow> bool" where
  "aq_inv k drv s \<longleftrightarrow> NUM_AUDIO_BUFFERS < k \<and> (\<exists>H W sts. ao_is drv s (free_bufs k s) (out_bufs k s) H W sts)"

definition aq_fresh :: "nat \<Rightarrow> aos \<Rightarrow> nat \<Rightarrow> bool" where
  "aq_fresh k s b \<longleftrightarrow> b < NUM_AUDIO_BUFFERS \<and> b \<notin> set (free_bufs k s) \<and> b \<notin> set (out_bufs k s) \<and> ready s b"

lemma aq_invI:
  assumes "ao_is drv s F Q H W sts" and "NUM_AUDIO_BUFFERS < k"
  shows "aq_inv k drv s" "free_bufs k s = F" "out_bufs k s = Q"
  using assms bufs_lists [OF assms] by (auto simp: aq_inv_def)

lemma aq_put:
  assumes "aq_inv k drv s" and "aq_fresh k s b"
  shows "\<exists>s'. fifo_append_out b s = Ret s' \<and> aq_inv k drv s' \<and> out_bufs k s' = out_bufs k s @ [b] \<and>
    (\<forall>c. c \<noteq> b \<longrightarrow> aq_fresh k s c \<longrightarrow> aq_fresh k s' c)"
proof -
  obtain H W sts where I: "NUM_AUDIO_BUFFERS < k" "ao_is drv s (free_bufs k s) (out_bufs k s) H W sts" using assms(1) by (auto simp: aq_inv_def)
  have b: "b \<in> H" "ready s b" using assms(2) ao_isD(2) [OF I(2)] by (auto simp: aq_fresh_def)
  obtain bs q where q: "fifo_append_out b s = Ret (s\<lparr>as_buf := bs, as_out := q\<rparr>)"
    "ao_is drv (s\<lparr>as_buf := bs, as_out := q\<rparr>) (free_bufs k s) (out_bufs k s @ [b]) (H - {b}) W sts" "bviews bs = bviews (as_buf s)"
    using put_out_ok [OF I(2) b] by blast
  note N = aq_invI [OF q(2) I(1)]
  have "aq_fresh k (s\<lparr>as_buf := bs, as_out := q\<rparr>) c" if "c \<noteq> b" "aq_fresh k s c" for c
    using that ready_views [of s c "s\<lparr>as_buf := bs, as_out := q\<rparr>"] q(3) unfolding aq_fresh_def N(2,3) by auto
  then show ?thesis using q(1) N(1,3) by blast
qed

lemma aq_get:
  assumes "aq_inv k drv s" and "out_bufs k s = b # bs"
  shows "\<exists>s'. fifo_remove_out s = Ret (b, s') \<and> aq_inv k drv s' \<and> out_bufs k s' = bs"
proof -
  obtain H W sts where I: "NUM_AUDIO_BUFFERS < k" "ao_is drv s (free_bufs k s) (b # bs) H W sts"
    using assms by (auto simp: aq_inv_def)
  obtain s' where "fifo_remove_out s = Ret (b, s')" "ao_is drv s' (free_bufs k s) bs (insert b H) (insert b W) sts"
    using take_out_ok [OF I(2)] by blast
  note s' = this
  show ?thesis using s'(1) aq_invI(1,3) [OF s'(2) I(1)] by blast
qed

lemma aq_empty: "aq_inv k drv s \<Longrightarrow> out_bufs k s = [] \<Longrightarrow> fifo_remove_out s = Wait"
  using empty_waits(1) by (auto simp: aq_inv_def)

interpretation aq: fifo_queue "aq_inv k drv" "out_bufs k" "aq_fresh k" fifo_append_out fifo_remove_out
  for k drv
  by unfold_locales (auto intro: aq_put aq_get aq_empty)

text \<open>
  Buffers that decoders hold come out of the fifo once, in the order in which they were put
  in and after those that waited; then the reader waits.
\<close>

theorem ao_buffers_in_order:
  assumes "ao_reachable k drv (s, c)" and "driver_works drv" and "NUM_AUDIO_BUFFERS < k" and "distinct bs" and "set bs \<subseteq> ac_held c"
    and "\<And>b. b \<in> set bs \<Longrightarrow> ready s b"
  shows "\<exists>s1 s2. put_all fifo_append_out bs s = Ret s1 \<and>
    get_many fifo_remove_out (length (out_bufs k s) + length bs) s1 = Ret (out_bufs k s @ bs, s2) \<and> fifo_remove_out s2 = Wait"
proof (rule aq.fifo_discipline [OF _ assms(4), of k drv s])
  note R = reachable_is [OF assms(1-3)]
  show "aq_inv k drv s" using aq_invI [OF R(1) assms(3)] by blast
  fix b assume b: "b \<in> set bs"
  then have "b \<in> ac_held c \<union> loop_bufs c" using assms(5) by blast
  moreover have "b \<notin> set (free_bufs k s)" "b \<notin> set (out_bufs k s)" "b < NUM_AUDIO_BUFFERS"
    using calculation placedD(4) [OF ao_isD(1) [OF R(1)]] ao_isD(2) [OF R(1)] by auto
  ultimately show "aq_fresh k s b" using assms(6) [OF b] by (simp add: aq_fresh_def)
qed

theorem ao_buffers_in_order_witness:
  "\<exists>s1 s2. put_all fifo_append_out [0] (fst demo_got) = Ret s1 \<and> get_many fifo_remove_out 1 s1 = Ret ([0], s2) \<and>
     fifo_remove_out s2 = Wait"
proof -
  obtain s S B where s: "demo_got = (s, demo_clients {0} loop_start)" "demo_reachable (s, demo_clients {0} loop_start)"
    "ao_is (Some demo_ao_driver) s [1..<NUM_AUDIO_BUFFERS] [] {0} {} [0]" "ready s 0" using demo_got_state .
  have o: "out_bufs 40 s = []" using bufs_lists(2) [OF s(3) demo_ao_works(2)] .
  have h: "set [0] \<subseteq> ac_held (demo_clients {0} loop_start)" by (simp add: demo_clients_def)
  have d: "distinct [0 :: nat]" by simp
  have r: "ready s b" if "b \<in> set [0]" for b using that s(4) by simp
  show ?thesis using ao_buffers_in_order [OF s(2) demo_ao_works d h r] unfolding s(1) o by simp
qed

section \<open>A flush\<close>

text \<open>The turns of the loop, with the clock's readings in each.\<close>

fun ao_loop_turns :: "nat \<Rightarrow> ao_driver option \<Rightarrow> (int \<times> int) list \<Rightarrow> ao_local \<times> aos \<Rightarrow> (ao_local \<times> aos) outcome" where
  "ao_loop_turns k drv [] x = Ret x"
| "ao_loop_turns k drv ((t0, t1) # ts) x = obind (ao_loop_turn k drv t0 t1 x) (ao_loop_turns k drv ts)"

lemma control_fields:
  assumes "drv \<noteq> None"
  shows "\<exists>v s'. ao_control drv cmd s = Ret (v, s') \<and> unset s s' \<and> as_discard s' = as_discard s \<and>
    as_loop_running s' = as_loop_running s \<and> as_paused s' = as_paused s \<and> as_flush s' = as_flush s"
proof (cases "as_driver_open s \<and> \<not> as_grab_only s")
  case True
  then have "ao_control drv cmd s = Ret (ad_control (the drv) (as_calls s) cmd, ao_call (A_control cmd) s)"
    using assms by (auto simp: ao_control_def)
  then show ?thesis by (simp add: ao_call_def unset_def ao_still_def)
next
  case False
  then have "ao_control drv cmd s = Ret (0, s)" by (auto simp: ao_control_def)
  then show ?thesis by simp
qed

lemma discard_turn:
  assumes "ao_is drv s F (b # Q) H {} sts" and "lo_in_buf L = None" and "as_discard s \<noteq> 0" and "drv \<noteq> None"
  shows "\<exists>L' s'. ao_loop_turn k drv t0 t1 (L, s) = Ret (L', s') \<and> lo_in_buf L' = None \<and> ao_is drv s' (F @ [b]) Q H {} sts \<and>
    as_discard s' = as_discard s \<and> as_loop_running s' = as_loop_running s \<and> as_paused s' = as_paused s \<and>
    as_flush s' = (if as_flush s = 0 then 0 else as_flush s - 1)"
proof -
  have bH: "b \<notin> H" using placedD(4) [OF ao_isD(1) [OF assms(1)]] by auto
  obtain bs q where q: "fifo_remove_out s = Ret (b, s\<lparr>as_buf := bs, as_out := q\<rparr>)"
    "ao_is drv (s\<lparr>as_buf := bs, as_out := q\<rparr>) F Q (insert b H) {b} sts"
    using take_out_ok [OF assms(1)] by blast
  let ?s1 = "s\<lparr>as_buf := bs, as_out := q\<rparr>"
  obtain v s2 where c: "ao_control drv AO_CTRL_FLUSH_BUFFERS ?s1 = Ret (v, s2)" "unset ?s1 s2" "as_discard s2 = as_discard s"
    "as_loop_running s2 = as_loop_running s" "as_paused s2 = as_paused s" "as_flush s2 = as_flush s"
    using control_fields [of drv AO_CTRL_FLUSH_BUFFERS ?s1] assms(4) by auto
  let ?s3 = "if as_flush s = 0 then ?s1 else s2\<lparr>as_flush := as_flush s - 1\<rparr>"
  have "unset s2 (s2\<lparr>as_flush := as_flush s - 1\<rparr>)" by (simp add: unset_def ao_still_def)
  then have "unset ?s1 ?s3" using unset_trans [OF c(2)] by simp
  then have i3: "ao_is drv ?s3 F Q (insert b H) {b} sts" by (rule ao_is_unset [OF q(2)])
  obtain bs4 q4 where r: "fifo_append_free b ?s3 = Ret (?s3\<lparr>as_buf := bs4, as_free := q4\<rparr>)"
    "ao_is drv (?s3\<lparr>as_buf := bs4, as_free := q4\<rparr>) (F @ [b]) Q (insert b H - {b}) ({b} - {b}) sts"
    using put_free_ok [OF i3, of b] by blast
  have e: "insert b H - {b} = H" "{b} - {b} = {}" using bH by simp_all
  have f: "as_discard ?s3 = as_discard s" "as_loop_running ?s3 = as_loop_running s" "as_paused ?s3 = as_paused s"
    "as_flush ?s3 = (if as_flush s = 0 then 0 else as_flush s - 1)" using c by simp_all
  have "ao_loop_turn k drv t0 t1 (L, s) =
      Ret (L\<lparr>lo_in_buf := None, lo_bufs_since_sync := lo_bufs_since_sync L + 1\<rparr>, ?s3\<lparr>as_buf := bs4, as_free := q4\<rparr>)"
    using assms(2,3) q(1) c(1,3,6) r(1)
    by (cases "as_flush s = 0") (simp_all add: ao_loop_turn_def loop_take_def loop_flush_def release_in_buf_def)
  moreover have "ao_is drv (?s3\<lparr>as_buf := bs4, as_free := q4\<rparr>) (F @ [b]) Q H {} sts" using r(2) unfolding e .
  ultimately show ?thesis using f by (intro exI conjI) (assumption | simp)+
qed

lemma discard_turns:
  "ao_is drv s F Q H {} sts \<Longrightarrow> lo_in_buf L = None \<Longrightarrow> as_discard s \<noteq> 0 \<Longrightarrow> drv \<noteq> None \<Longrightarrow> 0 \<le> as_flush s \<Longrightarrow> length ts = length Q \<Longrightarrow>
   \<exists>L' s'. ao_loop_turns k drv ts (L, s) = Ret (L', s') \<and> lo_in_buf L' = None \<and> ao_is drv s' (F @ Q) [] H {} sts \<and>
     as_discard s' = as_discard s \<and> as_loop_running s' = as_loop_running s \<and> as_paused s' = as_paused s \<and>
     as_flush s' = max 0 (as_flush s - int (length Q))"
proof (induction Q arbitrary: s F L ts)
  case (Cons b Q)
  obtain t0 t1 us where ts: "ts = (t0, t1) # us" "length us = length Q" using Cons.prems(6) by (cases ts) auto
  obtain L1 s1 where 1: "ao_loop_turn k drv t0 t1 (L, s) = Ret (L1, s1)" "lo_in_buf L1 = None" "ao_is drv s1 (F @ [b]) Q H {} sts"
    "as_discard s1 = as_discard s" "as_loop_running s1 = as_loop_running s" "as_paused s1 = as_paused s"
    "as_flush s1 = (if as_flush s = 0 then 0 else as_flush s - 1)"
    using discard_turn [OF Cons.prems(1-4), of k t0 t1] by blast
  have "as_discard s1 \<noteq> 0" "0 \<le> as_flush s1" using 1(4,7) Cons.prems(3,5) by simp_all
  from Cons.IH [OF 1(3,2) this(1) Cons.prems(4) this(2) ts(2)] 1 ts(1) show ?case by auto
qed simp



section \<open>Exit\<close>

lemma free_chain_ok:
  "lseg (ab_nexts (as_buf s)) p xs None \<Longrightarrow> length xs < k \<Longrightarrow>
   \<exists>m. free_chain k p s = Ret (s\<lparr>as_buf := m\<rparr>) \<and> dom m = dom (as_buf s) - set xs \<and> (\<forall>b. b \<notin> set xs \<longrightarrow> m b = as_buf s b)"
proof (induction xs arbitrary: p k s)
  case Nil
  then show ?case by (cases k) (auto intro!: exI [of _ "as_buf s"])
next
  case (Cons b xs)
  obtain j where k: "k = Suc j" using Cons.prems(2) by (cases k) auto
  have d: "b \<notin> set xs" using lseg_distinct [OF Cons.prems(1)] by simp
  obtain B where B: "p = Some b" "as_buf s b = Some B" "lseg (ab_nexts (as_buf s)) (ab_next B) xs None"
  proof -
    obtain n where n: "p = Some b" "ab_nexts (as_buf s) b = Some n" "lseg (ab_nexts (as_buf s)) n xs None"
      using Cons.prems(1) by auto
    then obtain B where "as_buf s b = Some B" "ab_next B = n" by (auto simp: ab_nexts_def)
    with n that show ?thesis by blast
  qed
  let ?s = "s\<lparr>as_buf := (as_buf s)(b := None)\<rparr>"
  have "ab_nexts (as_buf ?s) = (ab_nexts (as_buf s))(b := None)" by (auto simp: ab_nexts_def)
  then have "lseg (ab_nexts (as_buf ?s)) (ab_next B) xs None" using B(3) d by simp
  note chain = this
  have "length xs < j" using Cons.prems(2) k by simp
  from Cons.IH [OF chain this] obtain m where
    m: "free_chain j (ab_next B) ?s = Ret (?s\<lparr>as_buf := m\<rparr>)" "dom m = dom (as_buf ?s) - set xs"
      "\<forall>c. c \<notin> set xs \<longrightarrow> m c = as_buf ?s c" by blast
  then show ?case using k B(1,2) d by (intro exI [of _ m]) (auto simp: buf_at_def free_buffer_def)
qed

text \<open>The last calls to a driver: its volume is read, it is closed when it is open, and exited.\<close>

definition exit_calls :: "bool \<Rightarrow> int \<Rightarrow> ao_call list" where
  "exit_calls is_open v = A_volume v # (if is_open then [A_close] else []) @ [A_exit]"

lemma exit_driver_ok:
  assumes "settings_ok drv s"
  shows "\<exists>s1. ao_exit_driver drv s = Ret s1 \<and> unset s s1 \<and>
    (drv \<noteq> None \<longrightarrow> (\<exists>v. as_calls s1 = as_calls s @ exit_calls (as_driver_open s) v))"
proof (cases drv)
  case None
  then show ?thesis using assms by (simp add: ao_exit_driver_def settings_ok_def)
next
  case (Some D)
  define v where "v = ad_get_property D (as_calls s) (volume_property (ad_capabilities D))"
  let ?s1 = "ao_call A_exit (when_open A_close (ao_call (A_volume v) s))"
  have "ao_exit_driver drv s = Ret ?s1" using assms Some by (simp add: ao_exit_driver_def settings_ok_def v_def Let_def)
  moreover have "unset s ?s1" by (rule unset_trans [OF unset_call unset_trans [OF unset_when_open unset_call]])
  moreover have "as_calls ?s1 = as_calls s @ exit_calls (as_driver_open s) v"
    by (simp add: ao_call_def when_open_def exit_calls_def)
  ultimately show ?thesis by (intro exI [of _ ?s1] exI [of _ v] conjI impI)
qed



end
