(* ===== verification/Audio_Loop_Props.thy ===== *)
theory Audio_Loop_Props
  imports Audio_Props
begin

text \<open>What the output loop plays, and when; the wait for the driver's delay.\<close>

section \<open>Silence\<close>

text \<open>How many frames of silence there are among calls to the driver.\<close>

fun silence_frames :: "ao_call list \<Rightarrow> int" where
  "silence_frames [] = 0"
| "silence_frames (A_silence n # cs) = n + silence_frames cs"
| "silence_frames (_ # cs) = silence_frames cs"

lemma fill_silence_calls:
  assumes "as_driver_open s" and "as_discard s = 0"
  shows "\<exists>cs. as_calls (fill_silence n s) = as_calls s @ cs \<and> silence_frames cs = max 0 n \<and>
    set cs \<subseteq> A_silence ` {0<..ZERO_BUF_SIZE}"
  using assms
proof (induction n s rule: fill_silence.induct)
  case (1 n s)
  have z: "fill_silence 0 t = t" for t by (simp add: fill_silence.simps)
  show ?case
  proof (cases "n > 0")
    case True
    show ?thesis
    proof (cases "n > ZERO_BUF_SIZE")
      case big: True
      let ?s = "when_open (A_silence ZERO_BUF_SIZE) s"
      have f: "as_driver_open ?s" "as_discard ?s = 0" "as_calls ?s = as_calls s @ [A_silence ZERO_BUF_SIZE]"
        using "1.prems" by (simp_all add: when_open_def ao_call_def)
      have g: "n > 0 \<and> as_discard s = 0" using True "1.prems" by simp
      from "1.IH"(1) [OF g big f(1,2)] obtain cs where
        "as_calls (fill_silence (n - ZERO_BUF_SIZE) ?s) = as_calls ?s @ cs" "silence_frames cs = max 0 (n - ZERO_BUF_SIZE)"
        "set cs \<subseteq> A_silence ` {0<..ZERO_BUF_SIZE}" by blast
      then show ?thesis using g big f(3)
        by (intro exI [of _ "A_silence ZERO_BUF_SIZE # cs"]) (simp add: fill_silence.simps [of n] ZERO_BUF_SIZE_def)
    next
      case False
      then show ?thesis using True "1.prems"
        by (intro exI [of _ "[A_silence n]"]) (simp add: fill_silence.simps [of n] z when_open_def ao_call_def)
    qed
  next
    case False
    then show ?thesis by (intro exI [of _ "[]"]) (simp add: fill_silence.simps [of n])
  qed
qed

lemma fill_silence_fields:
  "as_driver_open (fill_silence n s) = as_driver_open s" "as_discard (fill_silence n s) = as_discard s"
  "as_output (fill_silence n s) = as_output s" "as_frames_per_kpts (fill_silence n s) = as_frames_per_kpts s"
  "as_loop_running (fill_silence n s) = as_loop_running s"
proof -
  have "as_driver_open (fill_silence n s) = as_driver_open s \<and> as_discard (fill_silence n s) = as_discard s \<and>
    as_output (fill_silence n s) = as_output s \<and> as_frames_per_kpts (fill_silence n s) = as_frames_per_kpts s \<and>
    as_loop_running (fill_silence n s) = as_loop_running s"
  proof (induction n s rule: fill_silence.induct)
    case (1 n s)
    have z: "fill_silence 0 t = t" for t by (simp add: fill_silence.simps)
    have w: "as_driver_open (when_open x s) = as_driver_open s" "as_discard (when_open x s) = as_discard s" "as_output (when_open x s) = as_output s"
      "as_frames_per_kpts (when_open x s) = as_frames_per_kpts s" "as_loop_running (when_open x s) = as_loop_running s" for x
      by (simp_all add: when_open_def ao_call_def)
    show ?case using "1.IH"(1) by (cases "n > 0 \<and> as_discard s = 0"; cases "n > ZERO_BUF_SIZE") (auto simp: fill_silence.simps [of n] z w)
  qed
  then show "as_driver_open (fill_silence n s) = as_driver_open s" "as_discard (fill_silence n s) = as_discard s"
    "as_output (fill_silence n s) = as_output s" "as_frames_per_kpts (fill_silence n s) = as_frames_per_kpts s"
    "as_loop_running (fill_silence n s) = as_loop_running s" by simp_all
qed

section \<open>What the loop decides\<close>

text \<open>What the decision looks at, which the step before it leaves alone.\<close>

definition decides_alike :: "aos \<Rightarrow> aos \<Rightarrow> bool" where
  "decides_alike s s' \<longleftrightarrow>
     as_calls s' = as_calls s \<and> as_sync_method s' = as_sync_method s \<and> as_gap_tolerance s' = as_gap_tolerance s \<and>
     as_discard s' = as_discard s \<and> as_driver_open s' = as_driver_open s \<and> as_output s' = as_output s \<and>
     as_frames_per_kpts s' = as_frames_per_kpts s \<and> as_passthrough_offset s' = as_passthrough_offset s \<and>
     as_input s' = as_input s \<and> as_do_equ s' = as_do_equ s \<and> as_do_resample s' = as_do_resample s"

lemma position_alike: "loop_position t B s = Ret s' \<Longrightarrow> decides_alike s s'"
  by (auto simp: loop_position_def ao_stream_at_def put_ao_stream_def decides_alike_def obind_eq_Ret split: option.splits if_splits)

lemma rate_adjust_alike: "decides_alike s (snd (resample_rate_adjust g B s))"
  by (auto simp: resample_rate_adjust_def rate_reset_def rate_measure_def Let_def decides_alike_def)

lemma loop_gap_value:
  assumes "loop_gap t d B s = Ret (gap, s')"
  shows "gap = ab_vpts B - hardware_vpts t d s" and "decides_alike s s'"
proof -
  obtain s1 where s1: "loop_position t B s = Ret s1" "gap = ab_vpts B - hardware_vpts t d s1"
    "s' = (if as_sync_method s1 then snd (resample_rate_adjust gap B s1) else s1\<lparr>as_sync_factor := 1\<rparr>)"
    using assms by (auto simp: loop_gap_def obind_eq_Ret Let_def)
  have a: "decides_alike s s1" using position_alike [OF s1(1)] .
  then show "gap = ab_vpts B - hardware_vpts t d s"
    unfolding s1(2) by (simp add: decides_alike_def hardware_vpts_def pass_through_def)
  have "decides_alike s1 s'" using rate_adjust_alike s1(3) by (simp add: decides_alike_def)
  with a show "decides_alike s s'" by (simp add: decides_alike_def)
qed

text \<open>The filters and the resampler can work on the buffer that is to be played.\<close>

definition may_output :: "int \<Rightarrow> int \<Rightarrow> audio_buffer \<Rightarrow> aos \<Rightarrow> bool" where
  "may_output t delay B s \<longleftrightarrow>
     (case loop_gap t delay B s of Ret (_, s1) \<Rightarrow> ab_num_frames B \<noteq> 0 \<longrightarrow> as_input s1 = ab_format B \<and> can_play B s1 | _ \<Rightarrow> True)"

text \<open>When the clock of the streams is moved instead.\<close>

definition adjusts :: "int \<Rightarrow> int \<Rightarrow> ao_local \<Rightarrow> aos \<Rightarrow> bool" where
  "adjusts gap t L s \<longleftrightarrow>
     c_abs gap < AO_MAX_GAP \<and> c_abs gap > as_gap_tolerance s \<and> t > lo_last_sync_time L + SYNC_TIME_INVERVAL \<and>
     lo_bufs_since_sync L \<ge> SYNC_BUF_INTERVAL \<and> \<not> as_sync_method s"

lemma loop_decide_eq:
  "loop_decide k drv t b B gap (L, s) =
     (if gap < - AO_MAX_GAP \<or> ab_num_frames B = 0 then release_in_buf (L, s)
      else if adjusts gap t L s then adjust_metronoms k gap t (L, s)
      else if gap > AO_MAX_GAP then Ret (L, ao_fill_gap gap s)
      else loop_write drv b (L, s))"
  by (simp add: loop_decide_def adjusts_def)

lemma released_form:
  assumes "ao_is drv s F Q H {b} sts" and "lo_in_buf L = Some b" and "b \<in> H"
  shows "\<exists>s'. release_in_buf (L, s) = Ret (L\<lparr>lo_in_buf := None\<rparr>, s') \<and> ao_is drv s' (F @ [b]) Q (H - {b}) {} sts \<and> as_calls s' = as_calls s"
proof -
  obtain bs q where "fifo_append_free b s = Ret (s\<lparr>as_buf := bs, as_free := q\<rparr>)"
    "ao_is drv (s\<lparr>as_buf := bs, as_free := q\<rparr>) (F @ [b]) Q (H - {b}) ({b} - {b}) sts"
    using put_free_ok [OF assms(1,3)] by blast
  then show ?thesis using assms(2) by (intro exI [of _ "s\<lparr>as_buf := bs, as_free := q\<rparr>"]) (simp add: release_in_buf_def)
qed

lemma written_form:
  assumes "ao_is drv s F Q H {b} sts" and "lo_in_buf L = Some b" and "b \<in> H" and "as_buf s b = Some B"
    and "ab_num_frames B \<noteq> 0" and "as_input s = ab_format B" and "can_play B s" and "drv \<noteq> None" and "driver_works drv"
  shows "\<exists>s' mem n. loop_write drv b (L, s) = Ret (L\<lparr>lo_in_buf := None\<rparr>, s') \<and> ao_is drv s' (F @ [b]) Q (H - {b}) {} sts \<and>
    as_calls s' = as_calls s @ [A_write mem n]"
proof -
  note I = ao_isD [OF assms(1)]
  have fb: "b \<notin> frame_bufs s" using placed_held [OF I(1) assms(3)] by blast
  have "room (width_of (as_input s)) (mode_channels (af_mode (as_input s))) B"
    using I(6) assms(4-6) by (auto simp: ready_def fit_format_def)
  then have "can_prepare B s" using assms(7) I(5) by (simp add: can_prepare_def can_play_def settings_ok_def)
  then obtain cur s1 where 1: "prepare_samples b s = Ret (cur, s1)" "prepared s s1" "as_buf s1 cur \<noteq> None"
    using prepare_samples_ok [OF placedD(8) [OF I(1)] I(3) assms(4) fb] by blast
  obtain T where T: "as_buf s1 cur = Some T" using 1(3) by blast
  obtain D where D: "drv = Some D" using assms(8) by blast
  have w: "\<not> ad_write D (as_calls s1) (ab_mem T) (ab_num_frames T) < 0"
    using assms(9) D by (simp add: driver_works_def not_less)
  have sub: "{b} \<subseteq> H" using assms(3) by simp
  let ?s2 = "ao_call (A_write (ab_mem T) (ab_num_frames T)) s1"
  have i2: "ao_is drv ?s2 F Q H {b} sts" by (rule ao_is_unset [OF ao_is_prepared [OF assms(1) sub 1(2)] unset_call])
  have c: "as_calls s1 = as_calls s" using aos_rest_fields(13) [of s1 s] 1(2) by (simp add: prepared_def)
  obtain s' where s': "release_in_buf (L, ?s2) = Ret (L\<lparr>lo_in_buf := None\<rparr>, s')" "ao_is drv s' (F @ [b]) Q (H - {b}) {} sts"
    "as_calls s' = as_calls ?s2" using released_form [OF i2 assms(2,3)] by blast
  have "as_calls s' = as_calls s @ [A_write (ab_mem T) (ab_num_frames T)]" using s'(3) c by (simp add: ao_call_def)
  moreover have "loop_write drv b (L, s) = Ret (L\<lparr>lo_in_buf := None\<rparr>, s')"
    using 1(1) T D w s'(1) by (simp add: loop_write_def buf_at_def)
  ultimately show ?thesis using s'(2) by blast
qed



section \<open>Waiting for the driver\<close>

text \<open>
  C33. A driver that does not know its delay gets silence until it does, and then the loop goes
  on; but while buffers are discarded \<open>ao_fill_gap\<close> writes nothing, and a driver
  whose delay stays negative until it has samples is asked for ever: no number of rounds is
  enough.
\<close>

theorem ao_delay_wait:
  assumes "as_driver_open s" and "as_loop_running s" and "\<not> pass_through s" and "0 < gap_frames 10000 s"
    and "\<And>calls. length calls < m \<Longrightarrow> ad_delay D calls < 0" and "\<And>calls. m \<le> length calls \<Longrightarrow> 0 \<le> ad_delay D calls"
    and "length (as_calls s) < m"
  shows "(as_discard s = 0 \<longrightarrow> (\<forall>k > m. \<exists>d s'. loop_delay k (Some D) s = Ret (d, s') \<and> 0 \<le> d)) \<and>
    (as_discard s \<noteq> 0 \<longrightarrow> (\<forall>k. loop_delay k (Some D) s = Spin))"
proof (intro conjI impI allI)
  fix k assume a: "as_discard s \<noteq> 0"
  have g: "ao_fill_gap 10000 s = s" using a assms(3) by (simp add: ao_fill_gap_def Let_def fill_silence.simps)
  have "delay_loop k D (ad_delay D (as_calls s)) s = Spin" by (induction k) (simp_all add: g assms(2) assms(5) [OF assms(7)])
  then show "loop_delay k (Some D) s = Spin" using assms(1) by (simp add: loop_delay_def)
next
  fix k assume a: "as_discard s = 0" and k: "k > m"
  have "\<exists>d s'. delay_loop j D (ad_delay D (as_calls u)) u = Ret (d, s') \<and> 0 \<le> d"
    if "as_driver_open u" "as_discard u = 0" "\<not> pass_through u" "gap_frames 10000 u = gap_frames 10000 s" "as_loop_running u" "m - length (as_calls u) < j" for j u
    using that
  proof (induction j arbitrary: u)
    case 0
    then show ?case by simp
  next
    case (Suc j)
    show ?case
    proof (cases "ad_delay D (as_calls u) < 0")
      case True
      let ?u = "ao_fill_gap 10000 u"
      have f: "?u = fill_silence (gap_frames 10000 u) u" using Suc.prems(3) by (simp add: ao_fill_gap_def Let_def)
      obtain cs where cs: "as_calls ?u = as_calls u @ cs" "silence_frames cs = max 0 (gap_frames 10000 u)"
        using fill_silence_calls [OF Suc.prems(1,2), of "gap_frames 10000 u"] f by auto
      have "cs \<noteq> []" using cs(2) Suc.prems(4) assms(4) by (cases cs) auto
      moreover have "length (as_calls u) < m" using assms(6) [of "as_calls u"] True by (meson not_less)
      ultimately have l: "m - length (as_calls ?u) < j" using Suc.prems(6) cs(1) by (cases cs) auto
      note F = fill_silence_fields [of "gap_frames 10000 u" u, folded f]
      have "\<exists>d s'. delay_loop j D (ad_delay D (as_calls ?u)) ?u = Ret (d, s') \<and> 0 \<le> d"
        by (rule Suc.IH) (use F Suc.prems l in \<open>simp_all add: pass_through_def gap_frames_def\<close>)
      then show ?thesis using True Suc.prems(5) by (simp add: Let_def)
    qed simp
  qed
  from this [OF assms(1) a assms(3) refl assms(2), of k] k
  show "\<exists>d s'. loop_delay k (Some D) s = Ret (d, s') \<and> 0 \<le> d" using assms(1) by (simp add: loop_delay_def)
qed

text \<open>A driver that knows its delay after three calls.\<close>

definition demo_delay_state :: "int \<Rightarrow> aos" where
  "demo_delay_state d =
     (new_port_fields demo_ao_config False Map.empty)\<lparr>as_driver_open := True, as_loop_running := True, as_frames_per_kpts := 546, as_discard := d\<rparr>"

theorem ao_delay_wait_witness:
  "(\<exists>d s'. loop_delay 4 (Some demo_ao_driver) (demo_delay_state 0) = Ret (d, s') \<and> 0 \<le> d) \<and>
   (\<forall>k. loop_delay k (Some demo_ao_driver) (demo_delay_state 1) = Spin)"
proof -
  have s: "as_driver_open (demo_delay_state d)" "as_loop_running (demo_delay_state d)" "\<not> pass_through (demo_delay_state d)"
    "0 < gap_frames 10000 (demo_delay_state d)" "length (as_calls (demo_delay_state d)) < 3" "as_discard (demo_delay_state d) = d" for d
    by (simp_all add: demo_delay_state_def new_port_fields_def pass_through_def no_format_def gap_frames_def AO_CAP_MODE_A52_def AO_CAP_MODE_AC5_def
        s32_def s64_def signed_divide_int_def)
  have neg: "ad_delay demo_ao_driver calls < 0" if "length calls < 3" for calls using that by (simp add: demo_ao_driver_def)
  have pos: "0 \<le> ad_delay demo_ao_driver calls" if "3 \<le> length calls" for calls using that by (simp add: demo_ao_driver_def)
  show ?thesis using ao_delay_wait [OF s(1-4) neg pos s(5), of 0] ao_delay_wait [OF s(1-4) neg pos s(5), of 1] s(6) by simp
qed

end
