(* ===== verification/Audio_Sample_Props.thy ===== *)
theory Audio_Sample_Props
  imports Audio_Heap
begin

text \<open>What happens to samples, and the gains of the equalizer.\<close>

section \<open>Rates\<close>

definition resamplers :: "(nat \<times> (u16 list \<Rightarrow> u32 \<Rightarrow> u16 list \<Rightarrow> u32 \<Rightarrow> u16 list outcome)) list" where
  "resamplers =
     [(1, audio_out_resample_mono), (2, audio_out_resample_stereo), (4, audio_out_resample_4channel),
      (5, audio_out_resample_5channel), (6, audio_out_resample_6channel)]"

lemma resamplers_channels: "(n, f) \<in> set resamplers \<Longrightarrow> f = resample_channels n \<and> 0 < n"
  by (auto simp: resamplers_def audio_out_resample_mono_def audio_out_resample_stereo_def audio_out_resample_4channel_def
      audio_out_resample_5channel_def audio_out_resample_6channel_def)

text \<open>The input frame at or before the time of output frame \<open>j\<close>.\<close>

definition resampled_from :: "nat \<Rightarrow> nat \<Rightarrow> nat \<Rightarrow> nat" where
  "resampled_from i k j = j * ((i - 2) * 65536 div (k - 2)) div 65536"

definition between :: "int \<Rightarrow> int \<Rightarrow> int \<Rightarrow> bool" where
  "between a x b \<longleftrightarrow> min a b \<le> x \<and> x \<le> max a b"

lemma resampled_between:
  assumes "j \<noteq> k - 1"
  shows "between (sint (inp ! (resampled_from i k j * n + c))) (resampled inp n i k j c)
    (sint (inp ! ((resampled_from i k j + 1) * n + c)))"
proof -
  define x where "x = j * ((i - 2) * 65536 div (k - 2))"
  define s1 s2 t where "s1 = sint (inp ! (x div 65536 * n + c))" and "s2 = sint (inp ! ((x div 65536 + 1) * n + c))"
    and "t = int (x mod 65536)"
  have t: "0 \<le> t" "t \<le> 65536" by (simp_all add: t_def)
  have r: "resampled inp n i k j c = (s1 * (65536 - t) + s2 * t) div 65536"
    using assms by (simp add: resampled_def Let_def x_def s1_def s2_def t_def)
  have m: "min s1 s2 * 65536 \<le> s1 * (65536 - t) + s2 * t \<and> s1 * (65536 - t) + s2 * t \<le> max s1 s2 * 65536"
    using t by (intro conjI mix_between [where m = "min s1 s2" and M = "max s1 s2"]) simp_all
  have "min s1 s2 * 65536 div 65536 \<le> (s1 * (65536 - t) + s2 * t) div 65536"
    "(s1 * (65536 - t) + s2 * t) div 65536 \<le> max s1 s2 * 65536 div 65536"
    using m by (simp_all only: zdiv_mono1 zero_less_numeral)
  then show ?thesis unfolding r between_def resampled_from_def x_def [symmetric] s1_def [symmetric] s2_def [symmetric] by simp
qed

text \<open>
  C34. For every number of channels the resampler returns, writes the asked number of frames and
  nothing behind them, and each sample is the linear interpolation of its channel at its time, in
  exact integers: no intermediate value overflows. It lies between the two samples around it; the
  first and the last frame are those of the input.
\<close>

theorem audio_resample_exact:
  assumes "(n, f) \<in> set resamplers" and "2 \<le> i" and "i \<le> 65537" and "3 \<le> k" and "n * i < 2 ^ 32" and "n * k < 2 ^ 32"
    and "i * n \<le> length inp" and "k * n \<le> length out"
  shows "\<exists>out'. f inp (of_nat i) out (of_nat k) = Ret out' \<and> length out' = length out \<and> drop (k * n) out' = drop (k * n) out \<and>
    (\<forall>j < k. \<forall>c < n. sint (out' ! (j * n + c)) = resampled inp n i k j c \<and>
       (j < k - 1 \<longrightarrow> between (sint (inp ! (resampled_from i k j * n + c))) (sint (out' ! (j * n + c)))
          (sint (inp ! ((resampled_from i k j + 1) * n + c))))) \<and>
    (\<forall>c < n. out' ! c = inp ! c \<and> out' ! ((k - 1) * n + c) = inp ! ((i - 1) * n + c))"
proof -
  have f: "f = resample_channels n" "0 < n" using resamplers_channels [OF assms(1)] by simp_all
  obtain out' where o: "f inp (of_nat i) out (of_nat k) = Ret out'" "length out' = length out"
    "\<forall>j < k. \<forall>c < n. sint (out' ! (j * n + c)) = resampled inp n i k j c" "drop (k * n) out' = drop (k * n) out"
    using resample_channels_exact [OF assms(2-6) f(2) assms(7,8)] unfolding f(1) by blast
  have "out' ! c = inp ! c \<and> out' ! ((k - 1) * n + c) = inp ! ((i - 1) * n + c)" if c: "c < n" for c
  proof -
    have "sint (out' ! (0 * n + c)) = resampled inp n i k 0 c" using o(3) c assms(4) by (metis not_gr_zero not_numeral_le_zero)
    then have "sint (out' ! c) = sint (inp ! c)" using assms(4) by (simp add: resampled_def)
    moreover have "sint (out' ! ((k - 1) * n + c)) = sint (inp ! ((i - 1) * n + c))"
      using o(3) [rule_format, of "k - 1" c] c assms(4) by (simp add: resampled_def)
    ultimately show ?thesis by (simp add: signed_word_eqI)
  qed
  moreover have "between (sint (inp ! (resampled_from i k j * n + c))) (sint (out' ! (j * n + c)))
      (sint (inp ! ((resampled_from i k j + 1) * n + c)))" if "j < k - 1" "c < n" for j c
  proof -
    have "sint (out' ! (j * n + c)) = resampled inp n i k j c" using o(3) that by simp
    moreover have "j \<noteq> k - 1" using that(1) by simp
    ultimately show ?thesis using resampled_between [of j k inp i n c] by simp
  qed
  ultimately show ?thesis using o by (intro exI [of _ out']) auto
qed

theorem audio_resample_exact_witness:
  "\<exists>out'. audio_out_resample_stereo [0, 100, 10, 200, 20, 300] (of_nat 3) [1, 1, 1, 1, 1, 1, 1, 1, 7] (of_nat 4) = Ret out' \<and>
     length out' = 9 \<and> drop 8 out' = [7] \<and> out' ! 1 = 100 \<and> out' ! 7 = 300"
proof -
  have m: "(2, audio_out_resample_stereo) \<in> set resamplers" by (simp add: resamplers_def)
  obtain out' where o: "audio_out_resample_stereo [0, 100, 10, 200, 20, 300] (of_nat 3) [1, 1, 1, 1, 1, 1, 1, 1, 7] (of_nat 4) = Ret out'"
    "length out' = 9" "drop 8 out' = [7]"
    "\<forall>c < 2. out' ! c = [0, 100, 10, 200, 20, 300] ! c \<and> out' ! (3 * 2 + c) = [0, 100, 10, 200, 20, 300] ! (2 * 2 + c)"
    using audio_resample_exact [OF m, of 3 4 "[0, 100, 10, 200, 20, 300]" "[1, 1, 1, 1, 1, 1, 1, 1, 7]"] by auto
  show ?thesis using o(1-3) o(4) [rule_format, of 1] by auto
qed

section \<open>Widths and channels\<close>

lemma halved_doubled: "length (halved (doubled ws)) = length ws \<and>
    (\<forall>i < length ws. sint (halved (doubled ws) ! i) = 2 * (sint (ws ! i) div 2))"
  by (induction ws) (auto simp: half_sum_value nth_Cons split: nat.splits)

text \<open>
  8-bit samples survive the conversion to 16 bits and back, 16-bit samples lose only the low
  byte on the way through 8 bits, and mono samples on the way through stereo at most their lowest
  bit.
\<close>

theorem audio_width_roundtrip:
  assumes "m \<le> length bs" and "m \<le> length ws" and "m \<le> length w2" and "m \<le> length b2" and "2 * m \<le> length st"
  shows "(\<exists>mid out. audio_out_resample_8to16 m 0 bs w2 = Ret mid \<and> audio_out_resample_16to8 m 0 mid b2 = Ret out \<and>
      take m out = take m bs) \<and>
    (\<exists>mid out. audio_out_resample_16to8 m 0 ws b2 = Ret mid \<and> audio_out_resample_8to16 m 0 mid w2 = Ret out \<and>
      (\<forall>i < m. sint (out ! i) = 256 * (sint (ws ! i) div 256))) \<and>
    (\<exists>mid out. audio_out_resample_monotostereo m 0 ws st = Ret mid \<and> audio_out_resample_stereotomono m 0 mid w2 = Ret out \<and>
      (\<forall>i < m. sint (out ! i) = 2 * (sint (ws ! i) div 2)))"
proof (intro conjI)
  let ?mid = "map to_16bit (take m bs) @ drop m w2"
  have "audio_out_resample_8to16 m 0 bs w2 = Ret ?mid" using resample_8to16_ok [of 0 m bs w2] assms by simp
  moreover have "audio_out_resample_16to8 m 0 ?mid b2 = Ret (take m bs @ drop m b2)"
    using resample_16to8_ok [of 0 m ?mid b2] assms by (simp add: comp_def convert_back)
  ultimately show "\<exists>mid out. audio_out_resample_8to16 m 0 bs w2 = Ret mid \<and> audio_out_resample_16to8 m 0 mid b2 = Ret out \<and>
      take m out = take m bs" using assms(1) by (intro exI conjI) (assumption | simp)+
next
  let ?mid = "map to_8bit (take m ws) @ drop m b2" and ?out = "map (to_16bit \<circ> to_8bit) (take m ws) @ drop m w2"
  have "audio_out_resample_16to8 m 0 ws b2 = Ret ?mid" using resample_16to8_ok [of 0 m ws b2] assms by simp
  moreover have "audio_out_resample_8to16 m 0 ?mid w2 = Ret ?out" using resample_8to16_ok [of 0 m ?mid w2] assms by simp
  moreover have "sint (?out ! i) = 256 * (sint (ws ! i) div 256)" if "i < m" for i
    using that assms(2) by (simp add: nth_append to_16bit_value to_8bit_value)
  ultimately show "\<exists>mid out. audio_out_resample_16to8 m 0 ws b2 = Ret mid \<and> audio_out_resample_8to16 m 0 mid w2 = Ret out \<and>
      (\<forall>i < m. sint (out ! i) = 256 * (sint (ws ! i) div 256))" by blast
next
  let ?mid = "doubled (take m ws) @ drop (2 * m) st" and ?out = "halved (doubled (take m ws)) @ drop m w2"
  have "audio_out_resample_monotostereo m 0 ws st = Ret ?mid" using resample_monotostereo_ok [of 0 m ws st] assms by simp
  moreover have "audio_out_resample_stereotomono m 0 ?mid w2 = Ret ?out" using resample_stereotomono_ok [of 0 m ?mid w2] assms by simp
  moreover have "sint (?out ! i) = 2 * (sint (ws ! i) div 2)" if "i < m" for i
    using that assms(2) halved_doubled [of "take m ws"] by (simp add: nth_append)
  ultimately show "\<exists>mid out. audio_out_resample_monotostereo m 0 ws st = Ret mid \<and> audio_out_resample_stereotomono m 0 mid w2 = Ret out \<and>
      (\<forall>i < m. sint (out ! i) = 2 * (sint (ws ! i) div 2))" by blast
qed

theorem audio_width_roundtrip_witness:
  "(\<exists>mid out. audio_out_resample_8to16 2 0 [7, 200] [0, 0] = Ret mid \<and> audio_out_resample_16to8 2 0 mid [0, 0] = Ret out \<and>
     take 2 out = [7, 200]) \<and>
   (\<exists>mid out. audio_out_resample_monotostereo 2 0 [7, - 3] [0, 0, 0, 0] = Ret mid \<and>
     audio_out_resample_stereotomono 2 0 mid [0, 0] = Ret out \<and> sint (out ! 1) = - 4)"
proof -
  have "2 * (sint ([7, - 3 :: u16] ! 1) div 2) = - 4" by simp
  then show ?thesis using audio_width_roundtrip [of 2 "[7, 200]" "[7, - 3]" "[0, 0]" "[0, 0]" "[0, 0, 0, 0]"]
    by (auto simp: less_2_cases_iff)
qed

section \<open>Gains\<close>

lemma gain_back: "\<forall>v \<in> set [- 100..100]. (s32 (100 * eq_gain_of v) sdiv 2 ^ FP_FRBITS = v) = (v = 0)"
  by code_simp

lemma gain_exact: "\<forall>v \<in> set [- 100..100]. eq_gain_of v = v * 2 ^ FP_FRBITS sdiv 100"
  by code_simp

text \<open>
  Setting a band of the equalizer to a value between -100 and 100 stores value/100 as a
  fixed point number, rounded towards 0, and turns the equalizer on exactly when a band is not 0.
  But reading the property back gives the value only for 0: its product by 100 is an
  \<open>int\<close>, which wraps around from 8 on, and below that the quotient is rounded towards
  0.
\<close>

theorem ao_eq_property:
  assumes "eq_ok s" and "is_eq_prop p" and "- 100 \<le> v" and "v \<le> 100"
  shows "\<exists>s' r. ao_set_property k drv p v s = Ret (v, s') \<and>
    as_eq_gain s' = (as_eq_gain s)[nat (p - AO_PROP_EQ_30HZ) := v * 2 ^ FP_FRBITS sdiv 100] \<and>
    as_do_equ s' = (\<exists>g \<in> set (as_eq_gain s'). g \<noteq> 0) \<and>
    ao_get_property drv p s' = Ret r \<and> (r = v \<longleftrightarrow> v = 0)"
proof -
  let ?b = "nat (p - AO_PROP_EQ_30HZ)" and ?g = "v * 2 ^ FP_FRBITS sdiv 100"
  have b: "?b < EQ_BANDS" "length (as_eq_gain s) = EQ_BANDS"
    using assms(1,2) by (auto simp: eq_ok_def is_eq_prop_def AO_PROP_EQ_30HZ_def AO_PROP_EQ_16000HZ_def EQ_BANDS_def)
  have v: "v \<in> set [- 100..100]" using assms(3,4) by (simp only: set_upto atLeastAtMost_iff)
  have g: "eq_gain_of v = ?g" "s32 (100 * ?g) sdiv 2 ^ FP_FRBITS = v \<longleftrightarrow> v = 0"
    using bspec [OF gain_exact v] bspec [OF gain_back v] by (simp_all only:)
  let ?gs = "(as_eq_gain s)[?b := ?g]"
  have ne: "p \<noteq> AO_PROP_COMPRESSOR" "p \<noteq> AO_PROP_AMP"
    using assms(2) by (auto simp: is_eq_prop_def AO_PROP_EQ_30HZ_def AO_PROP_COMPRESSOR_def AO_PROP_AMP_def)
  have mm: "fold min xs a \<noteq> (0 :: int) \<or> fold max xs c \<noteq> 0 \<longleftrightarrow> (\<exists>x \<in> set xs. x \<noteq> 0)" if "a = 0" "c = 0" for xs a c
  proof -
    have lo: "fold min xs a \<le> a \<and> (\<forall>x \<in> set xs. fold min xs a \<le> x) \<and> fold min xs a \<in> insert a (set xs)" for a :: int
      by (induction xs arbitrary: a) (fastforce simp: min_def)+
    have hi: "c \<le> fold max xs c \<and> (\<forall>x \<in> set xs. x \<le> fold max xs c) \<and> fold max xs c \<in> insert c (set xs)" for c :: int
      by (induction xs arbitrary: c) (fastforce simp: max_def)+
    show ?thesis using lo [of 0] hi [of 0] that by (metis insertE order_antisym)
  qed
  let ?s = "s\<lparr>as_eq_gain := ?gs, as_do_equ := (\<exists>x \<in> set ?gs. x \<noteq> 0)\<rparr>"
  have "ao_set_property k drv p v s = Ret (v, ?s)"
    using ne assms(2) b g(1) mm [OF refl refl, of ?gs] by (simp add: ao_set_property_def set_eq_gain_def Let_def)
  moreover have "ao_get_property drv p ?s = Ret (s32 (100 * ?g) sdiv 2 ^ FP_FRBITS)"
    using ne assms(2) b by (simp add: ao_get_property_def)
  ultimately show ?thesis using g(2) by (intro exI [of _ ?s] exI [of _ "s32 (100 * ?g) sdiv 2 ^ FP_FRBITS"]) simp
qed

theorem ao_eq_property_witness:
  "\<exists>s' r. ao_set_property 1 None AO_PROP_EQ_30HZ 50 (new_port_fields \<lparr>ac_sync_method = 0, ac_resample_mode = 0, ac_force_rate = 0,
       ac_passthrough_offset = 0, ac_volume = 50, ac_remember_volume = False\<rparr> True Map.empty) = Ret (50, s') \<and>
     ao_get_property None AO_PROP_EQ_30HZ s' = Ret r \<and> r \<noteq> 50"
proof -
  let ?s = "new_port_fields \<lparr>ac_sync_method = 0, ac_resample_mode = 0, ac_force_rate = 0, ac_passthrough_offset = 0, ac_volume = 50,
    ac_remember_volume = False\<rparr> True Map.empty"
  have "eq_ok ?s" by (auto simp: new_port_fields_def eq_ok_def)
  moreover have "is_eq_prop AO_PROP_EQ_30HZ" by (simp add: is_eq_prop_def AO_PROP_EQ_30HZ_def AO_PROP_EQ_16000HZ_def)
  ultimately show ?thesis using ao_eq_property [of ?s AO_PROP_EQ_30HZ 50 1 None] by auto
qed

end
