(* ===== verification/Config.thy ===== *)
theory Config
  imports Chain C_Text
begin

text \<open>
  The configuration, src/src/xine-engine/configfile.c: typed entries in a sorted chain, which
  the parts of the engine register, the file they are loaded from and saved to, and options in
  an MRL. Entries are in a store, linked through \<open>next\<close>; a walk over the chain has the
  number of entries ever allocated plus one for fuel. Calls of the entries' callbacks are a list.
\<close>

section \<open>Entries\<close>

datatype cfg_type = CONFIG_TYPE_UNKNOWN | CONFIG_TYPE_RANGE | CONFIG_TYPE_STRING | CONFIG_TYPE_ENUM | CONFIG_TYPE_NUM
  | CONFIG_TYPE_BOOL

text \<open>
  A \<open>char *\<close> that the entry owns: NULL, freed, or a string. The pointers are never
  shared, so that freeing one twice or reading it after that shows here.
\<close>

datatype cfg_str = S_null | S_freed | S_str string

definition read_str :: "cfg_str \<Rightarrow> string outcome" where
  "read_str p = (case p of S_str s \<Rightarrow> Ret s | _ \<Rightarrow> Fault)"

definition free_str :: "cfg_str \<Rightarrow> cfg_str outcome" where
  "free_str p = (case p of S_null \<Rightarrow> Ret S_null | S_freed \<Rightarrow> Fault | S_str s \<Rightarrow> Ret S_freed)"

record cfg_entry =
  ce_next :: "nat option"
  ce_key :: string
  ce_type :: cfg_type
  ce_unknown :: cfg_str
  ce_str :: cfg_str
  ce_str_default :: cfg_str
  ce_num :: int
  ce_num_default :: int
  ce_range_min :: int
  ce_range_max :: int
  ce_enum_values :: "string list option"
  ce_description :: "string option"
  ce_help :: "string option"
  ce_exp_level :: int
  ce_callback :: "nat option"
  ce_callback_data :: nat

text \<open>Calls of callbacks: the function, its data, the copy of the entry.\<close>

record config_values =
  cv_entry :: "nat \<rightharpoonup> cfg_entry"
  cv_fresh :: nat
  cv_first :: "nat option"
  cv_last :: "nat option"
  cv_version :: int
  cv_calls :: "(nat \<times> nat \<times> cfg_entry) list"

definition xine_config_init :: config_values where
  "xine_config_init =
     \<lparr>cv_entry = Map.empty, cv_fresh = 0, cv_first = None, cv_last = None, cv_version = 0, cv_calls = []\<rparr>"

definition entry_at :: "nat \<Rightarrow> config_values \<Rightarrow> cfg_entry outcome" where
  "entry_at e c = of_opt (cv_entry c e)"

definition put_entry :: "nat \<Rightarrow> cfg_entry \<Rightarrow> config_values \<Rightarrow> config_values" where
  "put_entry e E c = c\<lparr>cv_entry := (cv_entry c)(e \<mapsto> E)\<rparr>"

section \<open>The place of a key\<close>

text \<open>\<open>strchr\<close>, and the string cut at what it found.\<close>

definition cut_at :: "char \<Rightarrow> string \<Rightarrow> string \<times> string option" where
  "cut_at ch s = (takeWhile (\<lambda>c. c \<noteq> ch) s, if ch \<in> set s then Some (tl (dropWhile (\<lambda>c. c \<noteq> ch) s)) else None)"

text \<open>A key is section.plugin.name, section.name or name.\<close>

type_synonym key_parts = "string option \<times> string option \<times> string"

definition key_parts :: "string \<Rightarrow> key_parts" where
  "key_parts key =
     (case cut_at (CHR ''.'') key of
        (name, None) \<Rightarrow> (None, None, name)
      | (sect, Some tmp) \<Rightarrow>
          (case cut_at (CHR ''.'') tmp of
             (name, None) \<Rightarrow> (Some sect, None, name)
           | (plugin, Some name) \<Rightarrow> (Some sect, Some plugin, name)))"

text \<open>The sign of \<open>strcmp\<close>, which compares unsigned characters.\<close>

fun strcmp :: "string \<Rightarrow> string \<Rightarrow> int" where
  "strcmp [] [] = 0"
| "strcmp [] (d # ds) = - 1"
| "strcmp (c # cs) [] = 1"
| "strcmp (c # cs) (d # ds) = (if c = d then strcmp cs ds else if (of_char c :: nat) < of_char d then - 1 else 1)"

definition known_section :: "string list" where
  "known_section = [''gui'', ''audio'', ''video'', ''dxr3'', ''input'', ''codec'', ''post'', ''decoder'', ''misc'']"

fun find_section :: "string \<Rightarrow> string list \<Rightarrow> nat \<Rightarrow> nat" where
  "find_section sect [] i = i + 1"
| "find_section sect (known # ks) i = (if sect = known then i + 1 else find_section sect ks (i + 1))"

definition enum_config_section :: "string \<Rightarrow> nat" where
  "enum_config_section sect = find_section sect known_section 0"

text \<open>
  Whether the search stops at an entry: a missing part comes first, known sections come in
  their order and before the others, strings are compared by \<open>strcmp\<close>.
\<close>

definition before_part :: "(string \<Rightarrow> string \<Rightarrow> int) \<Rightarrow> string option \<Rightarrow> string option \<Rightarrow> bool option" where
  "before_part cmp new cur =
     (case (new, cur) of
        (None, Some _) \<Rightarrow> Some True
      | (Some _, None) \<Rightarrow> Some False
      | (Some n, Some c) \<Rightarrow> (if cmp n c < 0 then Some True else if cmp n c > 0 then Some False else None)
      | (None, None) \<Rightarrow> None)"

definition section_cmp :: "string \<Rightarrow> string \<Rightarrow> int" where
  "section_cmp n c =
     (if enum_config_section n < enum_config_section c then - 1
      else if enum_config_section n > enum_config_section c then 1 else strcmp n c)"

definition search_stops :: "key_parts \<Rightarrow> key_parts \<Rightarrow> bool" where
  "search_stops new cur =
     (let (nsect, nplug, nname) = new; (csect, cplug, cname) = cur in
      case before_part section_cmp nsect csect of
        Some b \<Rightarrow> b
      | None \<Rightarrow>
          (case before_part strcmp nplug cplug of
             Some b \<Rightarrow> b
           | None \<Rightarrow> \<not> strcmp nname cname > 0))"

text \<open>The search loop: \<open>cur\<close> and \<open>prev\<close> when it ends.\<close>

fun search_place :: "nat \<Rightarrow> key_parts \<Rightarrow> nat option \<Rightarrow> nat option \<Rightarrow> config_values \<Rightarrow> (nat option \<times> nat option) outcome" where
  "search_place 0 new cur prev c = Spin"
| "search_place (Suc k) new cur prev c =
     (case cur of
        None \<Rightarrow> Ret (None, prev)
      | Some e \<Rightarrow>
          obind (entry_at e c) (\<lambda>E.
          if search_stops new (key_parts (ce_key E)) then Ret (Some e, prev)
          else search_place k new (ce_next E) (Some e) c))"

definition new_entry :: "string \<Rightarrow> cfg_entry" where
  "new_entry key =
     \<lparr>ce_next = None, ce_key = key, ce_type = CONFIG_TYPE_UNKNOWN, ce_unknown = S_null, ce_str = S_null, ce_str_default = S_null,
      ce_num = 0, ce_num_default = 0, ce_range_min = 0, ce_range_max = 0, ce_enum_values = None, ce_description = None,
      ce_help = None, ce_exp_level = 0, ce_callback = None, ce_callback_data = 0\<rparr>"

definition xine_config_add :: "string \<Rightarrow> config_values \<Rightarrow> (nat \<times> config_values) outcome" where
  "xine_config_add key c =
     obind (search_place (Suc (cv_fresh c)) (key_parts key) (cv_first c) None c) (\<lambda>(cur, prev).
     (let e = cv_fresh c;
          c1 = (put_entry e ((new_entry key)\<lparr>ce_next := cur\<rparr>) c)
                 \<lparr>cv_fresh := e + 1, cv_last := (if cur = None then Some e else cv_last c)\<rparr> in
      case prev of
        None \<Rightarrow> Ret (e, c1\<lparr>cv_first := Some e\<rparr>)
      | Some p \<Rightarrow> obind (entry_at p c1) (\<lambda>P. Ret (e, put_entry p (P\<lparr>ce_next := Some e\<rparr>) c1))))"

fun lookup_from :: "nat \<Rightarrow> string \<Rightarrow> nat option \<Rightarrow> config_values \<Rightarrow> nat option outcome" where
  "lookup_from 0 key entry c = Spin"
| "lookup_from (Suc k) key entry c =
     (case entry of
        None \<Rightarrow> Ret None
      | Some e \<Rightarrow> obind (entry_at e c) (\<lambda>E. if strcmp (ce_key E) key = 0 then Ret (Some e) else lookup_from k key (ce_next E) c))"

definition xine_config_lookup_entry :: "string \<Rightarrow> config_values \<Rightarrow> nat option outcome" where
  "xine_config_lookup_entry key c = lookup_from (Suc (cv_fresh c)) key (cv_first c) c"

section \<open>Numbers\<close>

text \<open>A value that is no \<open>int\<close> is undefined behaviour, in \<open>sscanf\<close> and in \<open>atoi\<close>.\<close>

definition sscanf_d :: "string \<Rightarrow> int \<Rightarrow> int outcome" where
  "sscanf_d s old = (case scan_int s of None \<Rightarrow> Ret old | Some v \<Rightarrow> if int_range v then Ret v else Fault)"

definition atoi :: "string \<Rightarrow> int outcome" where
  "atoi s = sscanf_d s 0"

section \<open>Registration\<close>

text \<open>What every registration passes besides the value.\<close>

record cfg_info =
  ci_description :: "string option"
  ci_help :: "string option"
  ci_exp_level :: int
  ci_callback :: "nat option"
  ci_callback_data :: nat

definition describe :: "cfg_info \<Rightarrow> cfg_entry \<Rightarrow> cfg_entry" where
  "describe I E =
     E\<lparr>ce_description := ci_description I, ce_help := ci_help I, ce_exp_level := ci_exp_level I,
       ce_callback := ci_callback I, ce_callback_data := ci_callback_data I\<rparr>"

text \<open>The entry of a key, created when there is none with the \<open>unknown_value\<close> given.\<close>

definition ensure_entry :: "string \<Rightarrow> cfg_str \<Rightarrow> config_values \<Rightarrow> (nat \<times> config_values) outcome" where
  "ensure_entry key unknown c =
     obind (xine_config_lookup_entry key c) (\<lambda>p.
     case p of
       Some e \<Rightarrow> Ret (e, c)
     | None \<Rightarrow>
         obind (xine_config_add key c) (\<lambda>(e, c1).
         obind (entry_at e c1) (\<lambda>E. Ret (e, put_entry e (E\<lparr>ce_unknown := unknown\<rparr>) c1))))"

definition to_string :: "string \<Rightarrow> cfg_entry \<Rightarrow> cfg_entry outcome" where
  "to_string def_value E =
     (if ce_type E \<noteq> CONFIG_TYPE_STRING then
        let E1 = E\<lparr>ce_type := CONFIG_TYPE_STRING,
                   ce_unknown := (if ce_unknown E = S_null then S_str def_value else ce_unknown E)\<rparr> in
        obind (read_str (ce_unknown E1)) (\<lambda>s. Ret (E1\<lparr>ce_str := S_str s\<rparr>))
      else obind (free_str (ce_str_default E)) (\<lambda>p. Ret (E\<lparr>ce_str_default := p\<rparr>)))"

text \<open>
  A registration: the entry is created if need be, then converted to the type and filled out by
  \<open>f\<close>.
\<close>

definition registered ::
  "string \<Rightarrow> cfg_str \<Rightarrow> (cfg_entry \<Rightarrow> cfg_entry outcome) \<Rightarrow> config_values \<Rightarrow> (cfg_entry \<times> config_values) outcome" where
  "registered key unknown f c =
     obind (ensure_entry key unknown c) (\<lambda>(e, c1).
     obind (entry_at e c1) (\<lambda>E. obind (f E) (\<lambda>E1. Ret (E1, put_entry e E1 c1))))"

definition fill_string :: "string \<Rightarrow> cfg_info \<Rightarrow> cfg_entry \<Rightarrow> cfg_entry outcome" where
  "fill_string def_value I E = obind (to_string def_value E) (\<lambda>E1. Ret (describe I (E1\<lparr>ce_str_default := S_str def_value\<rparr>)))"

definition register_string :: "string \<Rightarrow> string \<Rightarrow> cfg_info \<Rightarrow> config_values \<Rightarrow> (cfg_str \<times> config_values) outcome" where
  "register_string key def_value I c =
     obind (registered key (S_str def_value) (fill_string def_value I) c) (\<lambda>(E, c1). Ret (ce_str E, c1))"

text \<open>An entry that was a string gives its strings up.\<close>

definition drop_strings :: "cfg_entry \<Rightarrow> cfg_entry outcome" where
  "drop_strings E =
     (if ce_type E = CONFIG_TYPE_STRING then
        obind (free_str (ce_str E)) (\<lambda>p. obind (free_str (ce_str_default E)) (\<lambda>q. Ret (E\<lparr>ce_str := p, ce_str_default := q\<rparr>)))
      else Ret E)"

text \<open>Conversion to one of the types with a number, which \<open>conv\<close> reads from the unknown value.\<close>

definition to_number :: "cfg_type \<Rightarrow> (string \<Rightarrow> int \<Rightarrow> int outcome) \<Rightarrow> int \<Rightarrow> cfg_entry \<Rightarrow> cfg_entry outcome" where
  "to_number ty conv def_value E =
     (if ce_type E \<noteq> ty then
        obind (drop_strings E) (\<lambda>E1.
        if ce_unknown E1 = S_null then Ret (E1\<lparr>ce_type := ty, ce_num := def_value\<rparr>)
        else
          obind (read_str (ce_unknown E1)) (\<lambda>s.
          obind (conv s (ce_num E1)) (\<lambda>v. Ret (E1\<lparr>ce_type := ty, ce_num := v\<rparr>))))
      else Ret E)"

definition fill_num :: "int \<Rightarrow> cfg_info \<Rightarrow> cfg_entry \<Rightarrow> cfg_entry outcome" where
  "fill_num def_value I E =
     obind (to_number CONFIG_TYPE_NUM sscanf_d def_value E) (\<lambda>E1. Ret (describe I (E1\<lparr>ce_num_default := def_value\<rparr>)))"

definition register_num :: "string \<Rightarrow> int \<Rightarrow> cfg_info \<Rightarrow> config_values \<Rightarrow> (int \<times> config_values) outcome" where
  "register_num key def_value I c = obind (registered key S_null (fill_num def_value I) c) (\<lambda>(E, c1). Ret (ce_num E, c1))"

definition fill_bool :: "int \<Rightarrow> cfg_info \<Rightarrow> cfg_entry \<Rightarrow> cfg_entry outcome" where
  "fill_bool def_value I E =
     obind (to_number CONFIG_TYPE_BOOL sscanf_d def_value E) (\<lambda>E1. Ret (describe I (E1\<lparr>ce_num_default := def_value\<rparr>)))"

definition register_bool :: "string \<Rightarrow> int \<Rightarrow> cfg_info \<Rightarrow> config_values \<Rightarrow> (int \<times> config_values) outcome" where
  "register_bool key def_value I c = obind (registered key S_null (fill_bool def_value I) c) (\<lambda>(E, c1). Ret (ce_num E, c1))"

definition fill_range :: "int \<Rightarrow> int \<Rightarrow> int \<Rightarrow> cfg_info \<Rightarrow> cfg_entry \<Rightarrow> cfg_entry outcome" where
  "fill_range def_value lo hi I E =
     obind (to_number CONFIG_TYPE_RANGE sscanf_d def_value E) (\<lambda>E1.
     Ret (describe I (E1\<lparr>ce_num_default := def_value, ce_range_min := lo, ce_range_max := hi\<rparr>)))"

definition register_range ::
  "string \<Rightarrow> int \<Rightarrow> int \<Rightarrow> int \<Rightarrow> cfg_info \<Rightarrow> config_values \<Rightarrow> (int \<times> config_values) outcome" where
  "register_range key def_value lo hi I c =
     obind (registered key S_null (fill_range def_value lo hi I) c) (\<lambda>(E, c1). Ret (ce_num E, c1))"

fun parse_values :: "string \<Rightarrow> string list \<Rightarrow> int \<Rightarrow> int" where
  "parse_values str [] i = 0"
| "parse_values str (value # values) i = (if strcmp value str = 0 then i else parse_values str values (i + 1))"

definition xine_config_parse_enum :: "string \<Rightarrow> string list \<Rightarrow> int" where
  "xine_config_parse_enum str values = parse_values str values 0"

definition fill_enum :: "int \<Rightarrow> string list \<Rightarrow> cfg_info \<Rightarrow> cfg_entry \<Rightarrow> cfg_entry outcome" where
  "fill_enum def_value values I E =
     obind (to_number CONFIG_TYPE_ENUM (\<lambda>s _. Ret (xine_config_parse_enum s values)) def_value E) (\<lambda>E1.
     Ret (describe I (E1\<lparr>ce_num_default := def_value, ce_enum_values := Some values\<rparr>)))"

definition register_enum ::
  "string \<Rightarrow> int \<Rightarrow> string list \<Rightarrow> cfg_info \<Rightarrow> config_values \<Rightarrow> (int \<times> config_values) outcome" where
  "register_enum key def_value values I c =
     obind (registered key S_null (fill_enum def_value values I) c) (\<lambda>(E, c1). Ret (ce_num E, c1))"

section \<open>Updates\<close>

text \<open>The callback gets a copy of the entry, without its place in the chain.\<close>

definition xine_config_shallow_copy :: "cfg_entry \<Rightarrow> cfg_entry" where
  "xine_config_shallow_copy E = E\<lparr>ce_next := None\<rparr>"

definition call_back :: "cfg_entry \<Rightarrow> config_values \<Rightarrow> config_values" where
  "call_back E c =
     (case ce_callback E of None \<Rightarrow> c | Some f \<Rightarrow> c\<lparr>cv_calls := cv_calls c @ [(f, ce_callback_data E, xine_config_shallow_copy E)]\<rparr>)"

definition xine_config_update_num :: "string \<Rightarrow> int \<Rightarrow> config_values \<Rightarrow> config_values outcome" where
  "xine_config_update_num key value c =
     obind (xine_config_lookup_entry key c) (\<lambda>p.
     case p of
       None \<Rightarrow> Ret c
     | Some e \<Rightarrow>
         obind (entry_at e c) (\<lambda>E.
         if ce_type E = CONFIG_TYPE_UNKNOWN \<or> ce_type E = CONFIG_TYPE_STRING then Ret c
         else Ret (call_back (E\<lparr>ce_num := value\<rparr>) (put_entry e (E\<lparr>ce_num := value\<rparr>) c))))"

text \<open>
  The value is another string than the entry's or (None) the pointer \<open>str_value\<close>
  itself, which is not copied. The old string is freed after the callback.
\<close>

definition xine_config_update_string :: "string \<Rightarrow> string option \<Rightarrow> config_values \<Rightarrow> config_values outcome" where
  "xine_config_update_string key value c =
     obind (xine_config_lookup_entry key c) (\<lambda>p.
     case p of
       None \<Rightarrow> Ret c
     | Some e \<Rightarrow>
         obind (entry_at e c) (\<lambda>E.
         if ce_type E \<noteq> CONFIG_TYPE_STRING then Ret c
         else
           (let E1 = (case value of None \<Rightarrow> E | Some v \<Rightarrow> E\<lparr>ce_str := S_str v\<rparr>);
                c1 = call_back E1 (put_entry e E1 c) in
            obind (if value = None then Ret S_null else free_str (ce_str E)) (\<lambda>_. Ret c1))))"

definition xine_config_unregister_cb :: "string \<Rightarrow> config_values \<Rightarrow> config_values outcome" where
  "xine_config_unregister_cb key c =
     obind (xine_config_lookup_entry key c) (\<lambda>p.
     case p of
       None \<Rightarrow> Ret c
     | Some e \<Rightarrow> obind (entry_at e c) (\<lambda>E. Ret (put_entry e (E\<lparr>ce_callback := None, ce_callback_data := 0\<rparr>) c)))"

section \<open>Options in an MRL\<close>

definition XINE_CONFIG_SECURITY :: int where
  "XINE_CONFIG_SECURITY = 30"

text \<open>\<open>strrchr\<close>: cut at the last one.\<close>

definition cut_last :: "char \<Rightarrow> string \<Rightarrow> (string \<times> string) option" where
  "cut_last ch s =
     (if ch \<in> set s then Some (rev (tl (dropWhile (\<lambda>c. c \<noteq> ch) (rev s))), rev (takeWhile (\<lambda>c. c \<noteq> ch) (rev s))) else None)"

definition xine_config_change_opt :: "string option \<Rightarrow> config_values \<Rightarrow> (int \<times> config_values) outcome" where
  "xine_config_change_opt opt c =
     (case opt of
        None \<Rightarrow> Ret (0, c)
      | Some s \<Rightarrow>
          (case cut_last (CHR '':'') s of
             None \<Rightarrow> Ret (0, c)
           | Some (key, value) \<Rightarrow>
               obind (xine_config_lookup_entry key c) (\<lambda>p.
               obind (of_opt p) (\<lambda>e.
               obind (entry_at e c) (\<lambda>E.
               if ce_exp_level E \<ge> XINE_CONFIG_SECURITY then Ret (- 1, c)
               else
                 (case ce_type E of
                    CONFIG_TYPE_STRING \<Rightarrow> obind (xine_config_update_string key (Some value) c) (\<lambda>c1. Ret (1, c1))
                  | CONFIG_TYPE_UNKNOWN \<Rightarrow> Ret (1, put_entry e (E\<lparr>ce_unknown := S_str value\<rparr>) c)
                  | _ \<Rightarrow> obind (atoi value) (\<lambda>v. obind (xine_config_update_num key v c) (\<lambda>c1. Ret (1, c1)))))))))"

section \<open>Loading\<close>

text \<open>\<open>fgets\<close> of at most \<open>n\<close> characters.\<close>

fun read_line :: "nat \<Rightarrow> string \<Rightarrow> string \<times> string" where
  "read_line 0 s = ([], s)"
| "read_line (Suc n) [] = ([], [])"
| "read_line (Suc n) (c # cs) =
     (if c = LF then ([c], cs) else (case read_line n cs of (l, r) \<Rightarrow> (c # l, r)))"

lemma read_line_rest: "length (snd (read_line n s)) \<le> length s"
  by (induction n s rule: read_line.induct) (auto split: prod.split)

definition load_pair :: "string \<Rightarrow> string \<Rightarrow> config_values \<Rightarrow> config_values outcome" where
  "load_pair key value c =
     obind (xine_config_lookup_entry key c) (\<lambda>p.
     case p of
       None \<Rightarrow>
         obind (xine_config_add key c) (\<lambda>(e, c1).
         obind (entry_at e c1) (\<lambda>E. Ret (put_entry e (E\<lparr>ce_unknown := S_str value\<rparr>) c1)))
     | Some e \<Rightarrow>
         obind (entry_at e c) (\<lambda>E.
         (case ce_type E of
            CONFIG_TYPE_STRING \<Rightarrow> xine_config_update_string (ce_key E) (Some value) c
          | CONFIG_TYPE_UNKNOWN \<Rightarrow>
              obind (free_str (ce_unknown E)) (\<lambda>_. Ret (put_entry e (E\<lparr>ce_unknown := S_str value\<rparr>) c))
          | _ \<Rightarrow> obind (atoi value) (\<lambda>v. xine_config_update_num (ce_key E) v c))))"

definition load_line :: "string \<Rightarrow> config_values \<Rightarrow> config_values outcome" where
  "load_line line c =
     (if take 1 line = ''#'' then Ret c
      else if take 1 line = ''.'' then
        (if take 9 line = ''.version:'' then obind (sscanf_d (drop 9 line) (cv_version c)) (\<lambda>v. Ret (c\<lparr>cv_version := v\<rparr>))
         else Ret c)
      else
        (case cut_at (CHR '':'') line of
           (_, None) \<Rightarrow> Ret c
         | (key, Some value) \<Rightarrow> load_pair key value c))"

text \<open>The lines of a file as \<open>fgets\<close> into 1023 characters reads them.\<close>

function file_lines :: "string \<Rightarrow> string list" where
  "file_lines s = (if s = [] then [] else (let (l, r) = read_line 1022 s in l # file_lines r))"
  by pat_completeness auto
termination
proof (relation "measure length")
  fix s :: string and x l r
  assume "s \<noteq> []" and x: "x = read_line 1022 s" "(l, r) = x"
  then obtain ch cs where "s = ch # cs" by (cases s) auto
  then have "length r < length s" using x read_line_rest [of 1021 cs]
    by (auto simp: numeral_eq_Suc Let_def split: prod.splits if_splits)
  then show "(r, s) \<in> measure length" by simp
qed simp

declare file_lines.simps [simp del]

text \<open>The last character that was read is taken for the end of the line and cut off.\<close>

fun load_lines :: "string list \<Rightarrow> config_values \<Rightarrow> config_values outcome" where
  "load_lines [] c = Ret c"
| "load_lines (l # ls) c =
     (let line = cstr l in if line = [] then Fault else obind (load_line (butlast line) c) (load_lines ls))"

definition xine_config_load :: "string option \<Rightarrow> config_values \<Rightarrow> config_values outcome" where
  "xine_config_load file c = (case file of None \<Rightarrow> Ret c | Some s \<Rightarrow> load_lines (file_lines s) c)"

section \<open>Saving\<close>

definition describe_line :: "cfg_entry \<Rightarrow> string" where
  "describe_line E = (case ce_description E of None \<Rightarrow> [] | Some d \<Rightarrow> ''# '' @ d @ [LF])"

definition value_line :: "cfg_entry \<Rightarrow> string \<Rightarrow> string" where
  "value_line E value = ce_key E @ '':'' @ value @ [LF]"

definition enum_lines :: "cfg_entry \<Rightarrow> string outcome" where
  "enum_lines E =
     obind (of_opt (ce_enum_values E)) (\<lambda>values.
     if ce_num E < 0 \<or> int (length values) < ce_num E then Fault
     else
       Ret (''# {'' @ concat (map (\<lambda>v. '' '' @ v @ '' '') values) @ ''}, default: '' @ dec (ce_num_default E) @ [LF] @
         (if ce_num E < int (length values) then value_line E (values ! nat (ce_num E)) else []) @ [LF]))"

definition entry_lines :: "cfg_entry \<Rightarrow> string outcome" where
  "entry_lines E =
     (case ce_type E of
        CONFIG_TYPE_UNKNOWN \<Rightarrow> obind (read_str (ce_unknown E)) (\<lambda>s. Ret (value_line E s))
      | CONFIG_TYPE_RANGE \<Rightarrow>
          Ret (''# ['' @ dec (ce_range_min E) @ ''..'' @ dec (ce_range_max E) @ ''], default: '' @ dec (ce_num_default E) @ [LF] @
            value_line E (dec (ce_num E)) @ [LF])
      | CONFIG_TYPE_STRING \<Rightarrow>
          obind (read_str (ce_str_default E)) (\<lambda>d. obind (read_str (ce_str E)) (\<lambda>s.
          Ret (''# string, default: '' @ d @ [LF] @ value_line E s @ [LF])))
      | CONFIG_TYPE_ENUM \<Rightarrow> enum_lines E
      | CONFIG_TYPE_NUM \<Rightarrow> Ret (''# numeric, default: '' @ dec (ce_num_default E) @ [LF] @ value_line E (dec (ce_num E)) @ [LF])
      | CONFIG_TYPE_BOOL \<Rightarrow> Ret (''# bool, default: '' @ dec (ce_num_default E) @ [LF] @ value_line E (dec (ce_num E)) @ [LF]))"

fun entries_text :: "nat \<Rightarrow> nat option \<Rightarrow> config_values \<Rightarrow> string outcome" where
  "entries_text 0 entry c = Spin"
| "entries_text (Suc k) entry c =
     (case entry of
        None \<Rightarrow> Ret []
      | Some e \<Rightarrow>
          obind (entry_at e c) (\<lambda>E.
          obind (entry_lines E) (\<lambda>t.
          obind (entries_text k (ce_next E) c) (\<lambda>ts. Ret (describe_line E @ t @ ts)))))"

definition CONFIG_FILE_VERSION :: int where
  "CONFIG_FILE_VERSION = 1"

definition config_text :: "config_values \<Rightarrow> string outcome" where
  "config_text c =
     obind (entries_text (Suc (cv_fresh c)) (cv_first c) c) (\<lambda>t.
     Ret (''#'' @ [LF] @ ''# xine config file'' @ [LF] @ ''#'' @ [LF] @ ''.version:'' @ dec CONFIG_FILE_VERSION @ [LF, LF] @ t))"

text \<open>
  The file system, and its answers: which files can be opened for reading and writing and
  unlinked, how much of what is written to a file arrives, and whether closing the
  configuration file reports success.
\<close>

type_synonym files = "string \<rightharpoonup> string"

record cfg_io =
  io_read :: "string \<Rightarrow> bool"
  io_write :: "string \<Rightarrow> bool"
  io_unlink :: "string \<Rightarrow> bool"
  io_room :: "string \<Rightarrow> nat"
  io_closed :: bool

definition XINE_PATH_MAX :: nat where
  "XINE_PATH_MAX = 768"

definition unlink_file :: "cfg_io \<Rightarrow> string \<Rightarrow> files \<Rightarrow> files" where
  "unlink_file io p fs = (if io_unlink io p then fs(p := None) else fs)"

text \<open>Lines are copied as C strings.\<close>

definition copy_lines :: "string \<Rightarrow> string" where
  "copy_lines s = concat (map cstr (file_lines s))"

text \<open>The copy of the old file: whether it is complete, or not needed.\<close>

definition backup_file :: "cfg_io \<Rightarrow> string \<Rightarrow> files \<Rightarrow> bool \<times> files" where
  "backup_file io filename fs =
     (let temp = filename @ ''~''; fs1 = unlink_file io temp fs in
      if fs1 temp \<noteq> None then (False, fs1)
      else
        (let fs2 = (if io_write io temp then fs1(temp \<mapsto> []) else fs1) in
         case (if io_read io filename then fs2 filename else None) of
           Some old \<Rightarrow>
             if io_write io temp then
               (let new = take (io_room io temp) (copy_lines old); fs3 = fs2(temp \<mapsto> new) in
                if length old = length new then (True, fs3) else (False, unlink_file io temp fs3))
             else (False, fs2)
         | None \<Rightarrow> (True, fs2)))"

definition drop_backup :: "cfg_io \<Rightarrow> bool \<Rightarrow> string \<Rightarrow> files \<Rightarrow> files" where
  "drop_backup io backup filename fs = (if backup then unlink_file io (filename @ ''~'') fs else fs)"

definition xine_config_save :: "cfg_io \<Rightarrow> string \<Rightarrow> config_values \<Rightarrow> files \<Rightarrow> files outcome" where
  "xine_config_save io filename c fs =
     (if XINE_PATH_MAX < length filename + 2 then Fault
      else
        (let (backup, fs1) = backup_file io filename fs in
         if \<not> backup \<and> fs1 filename \<noteq> None then Ret fs1
         else if io_write io filename then
           obind (config_text c) (\<lambda>text.
           (let fs2 = fs1(filename \<mapsto> take (io_room io filename) text) in
            if io_closed io then Ret (drop_backup io backup filename fs2) else Ret (unlink_file io filename fs2)))
         else Ret (drop_backup io backup filename fs1)))"

section \<open>Disposal\<close>

fun free_entries :: "nat \<Rightarrow> nat option \<Rightarrow> config_values \<Rightarrow> config_values outcome" where
  "free_entries 0 entry c = Spin"
| "free_entries (Suc k) entry c =
     (case entry of
        None \<Rightarrow> Ret c
      | Some e \<Rightarrow>
          obind (entry_at e c) (\<lambda>E.
          obind (free_str (ce_unknown E)) (\<lambda>_.
          obind (drop_strings E) (\<lambda>_.
          free_entries k (ce_next E) (c\<lparr>cv_entry := (cv_entry c)(e := None)\<rparr>)))))"

definition xine_config_dispose :: "config_values \<Rightarrow> config_values outcome" where
  "xine_config_dispose c = free_entries (Suc (cv_fresh c)) (cv_first c) c"

end
