(* ===== verification/Config_Inv.thy ===== *)
theory Config_Inv
  imports Config "HOL-Library.List_Lexorder"
begin

text \<open>
  The chain of entries: sorted by the place of the keys, which are different, and what each
  operation makes of it. \<open>cfg_map\<close> is the configuration as a map from keys to
  entries.
\<close>

section \<open>The order of the keys\<close>

definition codes :: "string \<Rightarrow> nat list" where
  "codes s = map of_char s"

lemma codes_eq [simp]: "codes s = codes t \<longleftrightarrow> s = t"
  by (simp add: codes_def inj_map_eq_map inj_of_char)

lemma strcmp_codes: "(strcmp s t < 0 \<longleftrightarrow> codes s < codes t) \<and> (strcmp s t > 0 \<longleftrightarrow> codes t < codes s) \<and> (strcmp s t = 0 \<longleftrightarrow> s = t)"
proof (induction s t rule: strcmp.induct)
  case (4 c cs d ds)
  have "c \<noteq> d \<Longrightarrow> of_char c < (of_char d :: nat) \<or> of_char d < (of_char c :: nat)" by (meson linorder_neqE_nat of_char_eq_iff)
  then show ?case using 4 by (auto simp: codes_def)
qed (auto simp: codes_def)

text \<open>A number for the order of the parts of a key.\<close>

definition part_place :: "(string \<Rightarrow> nat list) \<Rightarrow> string option \<Rightarrow> nat list" where
  "part_place f p = (case p of None \<Rightarrow> [] | Some s \<Rightarrow> 1 # f s)"

definition key_place :: "string \<Rightarrow> nat list list" where
  "key_place key =
     (let (sect, plugin, name) = key_parts key in
      [part_place (\<lambda>s. enum_config_section s # codes s) sect, part_place codes plugin, codes name])"

lemma strcmp_simps [simp]:
  "strcmp s t < 0 \<longleftrightarrow> codes s < codes t" "strcmp s t > 0 \<longleftrightarrow> codes t < codes s" "strcmp s t = 0 \<longleftrightarrow> s = t"
  using strcmp_codes [of s t] by blast+

lemma codes_linear: "codes s < codes t \<or> s = t \<or> codes t < codes s"
  using less_linear [of "codes s" "codes t"] by simp

lemma search_stops_place: "search_stops (key_parts new) (key_parts cur) \<longleftrightarrow> key_place new \<le> key_place cur"
proof -
  have [simp]: "\<not> codes s < codes t \<longleftrightarrow> s = t \<or> codes t < codes s" for s t using codes_linear [of s t] by auto
  show ?thesis
    by (cases "key_parts new"; cases "key_parts cur")
      (auto simp: search_stops_def key_place_def before_part_def section_cmp_def part_place_def split: option.splits)
qed

text \<open>A key is its parts with dots between them.\<close>

definition join_parts :: "key_parts \<Rightarrow> string" where
  "join_parts p =
     (case p of (sect, plugin, name) \<Rightarrow>
        (case sect of None \<Rightarrow> [] | Some s \<Rightarrow> s @ ''.'') @ (case plugin of None \<Rightarrow> [] | Some s \<Rightarrow> s @ ''.'') @ name)"

lemma cut_None: "cut_at ch s = (a, None) \<Longrightarrow> s = a"
  by (auto simp: cut_at_def split: if_splits intro!: takeWhile_eq_all_conv [THEN iffD2, symmetric])

lemma cut_Some:
  assumes "cut_at ch s = (a, Some b)"
  shows "s = a @ ch # b"
proof -
  have ne: "dropWhile (\<lambda>c. c \<noteq> ch) s \<noteq> []" using assms by (auto simp: cut_at_def dropWhile_eq_Nil_conv split: if_splits)
  then have "dropWhile (\<lambda>c. c \<noteq> ch) s = ch # b" using assms hd_dropWhile [OF ne]
    by (cases "dropWhile (\<lambda>c. c \<noteq> ch) s") (auto simp: cut_at_def split: if_splits)
  moreover have "a = takeWhile (\<lambda>c. c \<noteq> ch) s" using assms by (simp add: cut_at_def split: if_splits)
  ultimately show ?thesis by (metis takeWhile_dropWhile_id)
qed

lemma key_whole: "join_parts (key_parts key) = key"
proof (cases "cut_at (CHR ''.'') key")
  case (Pair a r)
  show ?thesis
  proof (cases r)
    case None
    then show ?thesis using Pair cut_None [of "CHR ''.''" key a] by (simp add: join_parts_def key_parts_def)
  next
    case (Some b)
    then have k: "key = a @ CHR ''.'' # b" using Pair cut_Some by blast
    show ?thesis
    proof (cases "cut_at (CHR ''.'') b")
      case b: (Pair a' r')
      show ?thesis
      proof (cases r')
        case None
        then show ?thesis using Pair Some k b cut_None [of "CHR ''.''" b a'] by (simp add: join_parts_def key_parts_def)
      next
        case (Some b')
        then show ?thesis using Pair \<open>r = Some b\<close> k b cut_Some [of "CHR ''.''" b a' b'] by (simp add: join_parts_def key_parts_def)
      qed
    qed
  qed
qed

lemma part_place_eq: "(\<And>s t. f s = f t \<Longrightarrow> s = t) \<Longrightarrow> part_place f p = part_place f q \<longleftrightarrow> p = q"
  by (cases p; cases q) (auto simp: part_place_def)

lemma key_place_inj [simp]: "key_place a = key_place b \<longleftrightarrow> a = b"
proof
  assume e: "key_place a = key_place b"
  obtain s p n where a: "key_parts a = (s, p, n)" by (cases "key_parts a")
  obtain s' p' n' where b: "key_parts b = (s', p', n')" by (cases "key_parts b")
  have "s = s'" "p = p'" "n = n'"
    using e part_place_eq [of "\<lambda>s. enum_config_section s # codes s" s s'] part_place_eq [of codes p p']
    by (simp_all add: key_place_def a b)
  then show "a = b" using key_whole [of a] key_whole [of b] a b by simp
qed simp

section \<open>The chain\<close>

definition ce_nexts :: "config_values \<Rightarrow> nat \<Rightarrow> nat option option" where
  "ce_nexts c e = map_option ce_next (cv_entry c e)"

definition key_of :: "config_values \<Rightarrow> nat \<Rightarrow> string" where
  "key_of c e = ce_key (the (cv_entry c e))"

text \<open>An entry without its place in the chain.\<close>

definition view :: "cfg_entry \<Rightarrow> cfg_entry" where
  "view E = E\<lparr>ce_next := None\<rparr>"

lemma ce_view_simps [simp]:
  "ce_key (view E) = ce_key E" "ce_type (view E) = ce_type E" "ce_unknown (view E) = ce_unknown E" "ce_str (view E) = ce_str E"
  "ce_str_default (view E) = ce_str_default E" "ce_num (view E) = ce_num E" "ce_enum_values (view E) = ce_enum_values E"
  "ce_exp_level (view E) = ce_exp_level E" "view (view E) = view E" "view (E\<lparr>ce_next := p\<rparr>) = view E"
  "view (new_entry key) = new_entry key"
  by (simp_all add: view_def new_entry_def)

definition cfg_map :: "config_values \<Rightarrow> nat list \<Rightarrow> string \<rightharpoonup> cfg_entry" where
  "cfg_map c es = map_of (map (\<lambda>e. (key_of c e, view (the (cv_entry c e)))) es)"

definition cfg_is :: "config_values \<Rightarrow> nat list \<Rightarrow> bool" where
  "cfg_is c es \<longleftrightarrow> lseg (ce_nexts c) (cv_first c) es None \<and> dom (cv_entry c) = set es \<and> (\<forall>e \<in> set es. e < cv_fresh c) \<and>
     cv_last c = (if es = [] then None else Some (last es)) \<and> sorted_wrt (<) (map (key_place \<circ> key_of c) es)"

lemma cfg_isD:
  assumes "cfg_is c es"
  shows "lseg (ce_nexts c) (cv_first c) es None" and "dom (cv_entry c) = set es" and "\<And>e. e \<in> set es \<Longrightarrow> e < cv_fresh c"
    and "cv_last c = (if es = [] then None else Some (last es))" and "sorted_wrt (<) (map (key_place \<circ> key_of c) es)"
  using assms by (simp_all add: cfg_is_def)

lemma cfg_distinct: "cfg_is c es \<Longrightarrow> distinct es"
  by (rule lseg_distinct [OF cfg_isD(1)])

lemma cfg_entry: "cfg_is c es \<Longrightarrow> e \<in> set es \<Longrightarrow> \<exists>E. cv_entry c e = Some E \<and> ce_key E = key_of c e"
  using cfg_isD(2) by (fastforce simp: key_of_def)

lemma cfg_keys_distinct:
  assumes "cfg_is c es"
  shows "distinct (map (key_of c) es)"
proof -
  have "distinct (map key_place (map (key_of c) es))"
    using strict_sorted_iff [of "map (key_place \<circ> key_of c) es"] cfg_isD(5) [OF assms] by simp
  then show ?thesis unfolding distinct_map [of key_place] by blast
qed

lemma cfg_key_eq: "cfg_is c es \<Longrightarrow> e \<in> set es \<Longrightarrow> e' \<in> set es \<Longrightarrow> key_of c e = key_of c e' \<longleftrightarrow> e = e'"
  using cfg_keys_distinct [of c es] by (auto simp: distinct_map dest: inj_onD)

lemma cfg_map_Some:
  assumes "cfg_is c es"
  shows "cfg_map c es key = Some V \<longleftrightarrow> (\<exists>e \<in> set es. \<exists>E. cv_entry c e = Some E \<and> ce_key E = key \<and> V = view E)"
proof -
  have "distinct (map fst (map (\<lambda>e. (key_of c e, view (the (cv_entry c e)))) es))"
    using cfg_keys_distinct [OF assms] by (simp add: comp_def)
  then have "cfg_map c es key = Some V \<longleftrightarrow> (\<exists>e \<in> set es. key = key_of c e \<and> V = view (the (cv_entry c e)))"
    unfolding cfg_map_def by (subst map_of_eq_Some_iff) auto
  then show ?thesis using cfg_entry [OF assms] by (metis option.sel key_of_def)
qed

lemma cfg_map_None: "cfg_map c es key = None \<longleftrightarrow> key \<notin> key_of c ` set es"
  by (auto simp: cfg_map_def map_of_eq_None_iff image_image)

lemma cfg_length: "cfg_is c es \<Longrightarrow> length es < Suc (cv_fresh c)"
  using card_mono [of "{..<cv_fresh c}" "set es"] cfg_isD(3) [of c es] distinct_card [OF cfg_distinct, of c es] by fastforce

section \<open>Looking up\<close>

lemma lookup_from_ok:
  assumes "lseg (ce_nexts c) p es None" and "length es < k"
  shows "lookup_from k key p c = Ret (find (\<lambda>e. key_of c e = key) es)"
  using assms
proof (induction es arbitrary: p k)
  case Nil
  then show ?case by (cases k) auto
next
  case (Cons e es)
  from Cons.prems(2) obtain j where k: "k = Suc j" by (cases k) auto
  from Cons.prems(1) obtain E where E: "cv_entry c e = Some E" "lseg (ce_nexts c) (ce_next E) es None" "p = Some e"
    by (auto simp: ce_nexts_def [of c e])
  then show ?case using Cons.IH [of "ce_next E" j] Cons.prems(2) by (simp add: k entry_at_def key_of_def)
qed

lemma lookup_ok: "cfg_is c es \<Longrightarrow> xine_config_lookup_entry key c = Ret (find (\<lambda>e. key_of c e = key) es)"
  unfolding xine_config_lookup_entry_def by (rule lookup_from_ok [OF cfg_isD(1) cfg_length])

lemma lookup_cases:
  assumes "cfg_is c es"
  obtains (None) "xine_config_lookup_entry key c = Ret None" "cfg_map c es key = None"
  | (Some) e E where "xine_config_lookup_entry key c = Ret (Some e)" "e \<in> set es" "cv_entry c e = Some E" "ce_key E = key"
      "cfg_map c es key = Some (view E)"
proof (cases "find (\<lambda>e. key_of c e = key) es")
  case n: None
  then have "key \<notin> key_of c ` set es" by (auto simp: find_None_iff)
  then show thesis using None lookup_ok [OF assms] n by (simp add: cfg_map_None)
next
  case s: (Some e)
  then have e: "e \<in> set es" "key_of c e = key" by (auto simp: find_Some_iff)
  obtain E where E: "cv_entry c e = Some E" "ce_key E = key_of c e" using cfg_entry [OF assms e(1)] by blast
  have "cfg_map c es key = Some (view E)" using cfg_map_Some [OF assms, of key "view E"] e E by auto
  then show thesis using Some [OF _ e(1) E(1)] E(2) e(2) lookup_ok [OF assms] s by simp
qed

section \<open>Changing an entry\<close>

lemma put_entry_ok:
  assumes "cfg_is c es" and "cv_entry c e = Some E" and "ce_next E' = ce_next E" and "ce_key E' = ce_key E"
  shows "cfg_is (put_entry e E' c) es" and "cfg_map (put_entry e E' c) es = (cfg_map c es)(ce_key E \<mapsto> view E')"
proof -
  note C = cfg_isD [OF assms(1)]
  let ?c = "put_entry e E' c"
  have n: "ce_nexts ?c = ce_nexts c" using assms(2,3) by (auto simp: ce_nexts_def put_entry_def)
  have k: "key_of ?c = key_of c" using assms(2,4) by (auto simp: key_of_def put_entry_def)
  have e: "e \<in> set es" using assms(2) C(2) by blast
  show i: "cfg_is ?c es" using C e n unfolding cfg_is_def k by (auto simp: put_entry_def)
  show "cfg_map ?c es = (cfg_map c es)(ce_key E \<mapsto> view E')"
  proof
    fix key
    show "cfg_map ?c es key = ((cfg_map c es)(ce_key E \<mapsto> view E')) key"
    proof (cases "key = ce_key E")
      case True
      then show ?thesis using cfg_map_Some [OF i, of key "view E'"] e assms(4) by (auto simp: put_entry_def)
    next
      case False
      have "cfg_map ?c es key = Some V \<longleftrightarrow> cfg_map c es key = Some V" for V
        unfolding cfg_map_Some [OF i] cfg_map_Some [OF assms(1)] using False assms(2,4)
        by (intro bex_cong refl) (auto simp: put_entry_def)
      then show ?thesis using False by (metis fun_upd_other not_Some_eq)
    qed
  qed
qed

section \<open>Adding an entry\<close>

lemma search_place_ok:
  fixes new :: key_parts
  assumes "lseg (ce_nexts c) cur es None" and "length es < k"
  defines "P \<equiv> \<lambda>e. \<not> search_stops new (key_parts (key_of c e))"
  shows "search_place k new cur prev c =
    Ret (case dropWhile P es of [] \<Rightarrow> None | e # _ \<Rightarrow> Some e, if takeWhile P es = [] then prev else Some (last (takeWhile P es)))"
  using assms(1,2)
proof (induction es arbitrary: cur prev k)
  case Nil
  then show ?case by (cases k) auto
next
  case (Cons e es)
  from Cons.prems(2) obtain j where k: "k = Suc j" by (cases k) auto
  from Cons.prems(1) obtain E where E: "cv_entry c e = Some E" "lseg (ce_nexts c) (ce_next E) es None" "cur = Some e"
    by (auto simp: ce_nexts_def [of c e])
  have p: "P e \<longleftrightarrow> \<not> search_stops new (key_parts (ce_key E))" by (simp add: P_def key_of_def E(1))
  show ?case using Cons.IH [OF E(2), of j "Some e"] Cons.prems(2) E by (auto simp: k entry_at_def p)
qed

lemma search_split:
  fixes key :: string
  assumes "cfg_is c es" and "key \<notin> key_of c ` set es"
  defines "P \<equiv> \<lambda>e. \<not> search_stops (key_parts key) (key_parts (key_of c e))"
  shows "\<And>e. e \<in> set (takeWhile P es) \<Longrightarrow> key_place (key_of c e) < key_place key"
    and "\<And>e. e \<in> set (dropWhile P es) \<Longrightarrow> key_place key < key_place (key_of c e)"
proof -
  have p: "P e \<longleftrightarrow> key_place (key_of c e) < key_place key" for e by (simp add: P_def search_stops_place not_le)
  show "key_place (key_of c e) < key_place key" if "e \<in> set (takeWhile P es)" for e using that set_takeWhileD p by metis
  show "key_place key < key_place (key_of c e)" if e: "e \<in> set (dropWhile P es)" for e
  proof -
    obtain a as where d: "dropWhile P es = a # as" using e by (cases "dropWhile P es") auto
    then have "a \<in> set es" "\<not> P a" using hd_dropWhile [of P es] set_dropWhileD [of a P es] by auto
    then have a: "key_place key < key_place (key_of c a)" using p [of a] assms(2) key_place_inj [of key "key_of c a"]
      by (metis image_eqI linorder_neqE)
    have "sorted_wrt (<) (map (key_place \<circ> key_of c) (takeWhile P es @ a # as))"
      using cfg_isD(5) [OF assms(1)] d takeWhile_dropWhile_id [of P es] by simp
    then have "\<forall>x \<in> set as. key_place (key_of c a) < key_place (key_of c x)" by (simp add: sorted_wrt_append)
    then show ?thesis using e d a by fastforce
  qed
qed

lemma add_ok:
  assumes "cfg_is c es" and "cfg_map c es key = None"
  obtains e c' es' where "xine_config_add key c = Ret (e, c')" "cfg_is c' es'" "length es' = Suc (length es)"
    "cfg_map c' es' = (cfg_map c es)(key \<mapsto> new_entry key)" "\<exists>E. cv_entry c' e = Some E \<and> view E = new_entry key"
    "cv_version c' = cv_version c" "cv_calls c' = cv_calls c"
proof -
  note C = cfg_isD [OF assms(1)]
  have nk: "key \<notin> key_of c ` set es" using assms(2) by (simp add: cfg_map_None)
  let ?P = "\<lambda>e. \<not> search_stops (key_parts key) (key_parts (key_of c e))"
  define as where "as = takeWhile ?P es"
  define bs where "bs = dropWhile ?P es"
  have es: "es = as @ bs" by (simp add: as_def bs_def)
  note S = search_split [OF assms(1) nk, folded as_def bs_def]
  let ?e = "cv_fresh c" and ?cur = "case bs of [] \<Rightarrow> None | e # _ \<Rightarrow> Some e" and ?prev = "if as = [] then None else Some (last as)"
  have sp: "search_place (Suc (cv_fresh c)) (key_parts key) (cv_first c) None c = Ret (?cur, ?prev)"
    using search_place_ok [OF C(1) cfg_length [OF assms(1)], of "key_parts key" None] by (simp add: as_def bs_def)
  have new: "?e \<notin> set es" using C(3) by blast
  let ?c1 = "(put_entry ?e ((new_entry key)\<lparr>ce_next := ?cur\<rparr>) c)
               \<lparr>cv_fresh := ?e + 1, cv_last := (if ?cur = None then Some ?e else cv_last c)\<rparr>"
  obtain c' where c': "xine_config_add key c = Ret (?e, c')"
    "c' = (if as = [] then ?c1\<lparr>cv_first := Some ?e\<rparr> else put_entry (last as) ((the (cv_entry c (last as)))\<lparr>ce_next := Some ?e\<rparr>) ?c1)"
  proof (cases "as = []")
    case True
    then show thesis using that unfolding xine_config_add_def sp by (simp add: Let_def)
  next
    case False
    then have l: "last as \<in> set es" using es by simp
    then obtain L where "cv_entry c (last as) = Some L" using cfg_entry [OF assms(1)] by blast
    moreover have "last as \<noteq> ?e" using l new by auto
    ultimately show thesis using that False unfolding xine_config_add_def sp by (simp add: Let_def entry_at_def put_entry_def)
  qed
  let ?es = "as @ ?e # bs"
  have e': "cv_entry c' ?e = Some ((new_entry key)\<lparr>ce_next := ?cur\<rparr>)"
    using c'(2) new es by (cases as rule: rev_cases) (auto simp: put_entry_def)
  have v: "map_option view (cv_entry c' x) = map_option view (cv_entry c x)" if "x \<in> set es" for x
    using c'(2) new es that cfg_entry [OF assms(1) that] by (cases as rule: rev_cases) (auto simp: put_entry_def)
  have k: "key_of c' x = (if x = ?e then key else key_of c x)" if "x \<in> insert ?e (set es)" for x
    using that e' v [of x] cfg_entry [OF assms(1), of x] by (auto simp: key_of_def new_entry_def) (metis ce_view_simps(1))
  have l: "lseg (ce_nexts c') (cv_first c') ?es None"
  proof (cases as rule: rev_cases)
    case Nil
    have "ce_nexts c' = (ce_nexts c)(?e := Some ?cur)" using c'(2) Nil by (auto simp: ce_nexts_def put_entry_def)
    moreover have "cv_first c = ?cur" using lseg_start [OF C(1)] es Nil by simp
    ultimately show ?thesis using C(1) es Nil new c'(2) by simp
  next
    case (snoc xs a)
    have a: "ce_nexts c a = Some ?cur" using C(1) unfolding es snoc by (auto simp: lseg_append dest: lseg_start)
    obtain A where A: "cv_entry c a = Some A" using cfg_entry [OF assms(1), of a] es snoc by auto
    have ne: "a \<noteq> ?e" using new es snoc by auto
    have "ce_nexts c' = (ce_nexts c)(a := Some (Some ?e), ?e := ce_nexts c a)"
      using c'(2) snoc A ne a by (auto simp: ce_nexts_def put_entry_def fun_eq_iff)
    moreover have "cv_first c' = cv_first c" using c'(2) snoc by (simp add: put_entry_def)
    ultimately show ?thesis using lseg_link [of "ce_nexts c" "cv_first c" xs a bs ?e] C(1) new es snoc by simp
  qed
  have i: "cfg_is c' ?es"
    unfolding cfg_is_def
  proof (intro conjI)
    show "lseg (ce_nexts c') (cv_first c') ?es None" by (rule l)
    show "dom (cv_entry c') = set ?es" using c'(2) C(2) es by (cases as rule: rev_cases) (auto simp: put_entry_def)
    have "cv_fresh c' = ?e + 1" using c'(2) by (simp add: put_entry_def)
    then show "\<forall>x \<in> set ?es. x < cv_fresh c'" using C(3) es by fastforce
    show "cv_last c' = (if ?es = [] then None else Some (last ?es))"
      using c'(2) C(4) es by (cases bs) (auto simp: put_entry_def)
    have e: "map (key_place \<circ> key_of c') as = map (key_place \<circ> key_of c) as" "map (key_place \<circ> key_of c') bs = map (key_place \<circ> key_of c) bs"
      "(key_place \<circ> key_of c') ?e = key_place key"
      using k new es by auto
    have "sorted_wrt (<) (map (key_place \<circ> key_of c) (as @ bs))" using C(5) es by simp
    then show "sorted_wrt (<) (map (key_place \<circ> key_of c') ?es)"
      using S unfolding map_append list.map e by (auto simp: sorted_wrt_append dest: S)
  qed
  have m: "cfg_map c' ?es = (cfg_map c es)(key \<mapsto> new_entry key)"
  proof
    fix x
    show "cfg_map c' ?es x = ((cfg_map c es)(key \<mapsto> new_entry key)) x"
    proof (cases "x = key")
      case True
      have "cfg_map c' ?es key = Some (new_entry key)"
        unfolding cfg_map_Some [OF i] using e' by (intro bexI [of _ ?e] exI conjI) (auto simp: new_entry_def view_def)
      then show ?thesis using True by simp
    next
      case False
      have "cfg_map c' ?es x = Some V \<longleftrightarrow> cfg_map c es x = Some V" for V
        unfolding cfg_map_Some [OF i] cfg_map_Some [OF assms(1)]
      proof (intro iffI; elim bexE exE conjE)
        fix e E assume e: "e \<in> set ?es" "cv_entry c' e = Some E" "ce_key E = x" "V = view E"
        then have n: "e \<in> set es" using e' False es by (auto simp: new_entry_def)
        then obtain E0 where "cv_entry c e = Some E0" "view E0 = view E" using v [OF n] e(2) cfg_entry [OF assms(1) n] by auto
        then show "\<exists>e \<in> set es. \<exists>E. cv_entry c e = Some E \<and> ce_key E = x \<and> V = view E"
          using n e(3,4) by (metis ce_view_simps(1))
      next
        fix e E assume e: "e \<in> set es" "cv_entry c e = Some E" "ce_key E = x" "V = view E"
        then obtain E0 where E0: "cv_entry c' e = Some E0" "view E0 = view E" using v [OF e(1)] by auto
        then have "ce_key E0 = ce_key E" by (metis ce_view_simps(1))
        then show "\<exists>e \<in> set ?es. \<exists>E. cv_entry c' e = Some E \<and> ce_key E = x \<and> V = view E"
          using e es E0 by (intro bexI [of _ e] exI [of _ E0] conjI) auto
      qed
      then show ?thesis using False by (metis fun_upd_other not_Some_eq)
    qed
  qed
  show thesis
  proof (rule that [OF c'(1) i _ m])
    show "length ?es = Suc (length es)" by (simp add: es)
    show "\<exists>E. cv_entry c' ?e = Some E \<and> view E = new_entry key" using e' by simp
    show "cv_version c' = cv_version c" "cv_calls c' = cv_calls c" using c'(2) by (simp_all add: put_entry_def)
  qed
qed

section \<open>Configurations as maps\<close>

definition cfg_rep :: "config_values \<Rightarrow> (string \<rightharpoonup> cfg_entry) \<Rightarrow> bool" where
  "cfg_rep c m \<longleftrightarrow> (\<exists>es. cfg_is c es \<and> m = cfg_map c es)"

text \<open>What is true of every entry between two calls.\<close>

definition entry_ok :: "cfg_entry \<Rightarrow> bool" where
  "entry_ok E \<longleftrightarrow> ce_unknown E \<noteq> S_freed \<and> (ce_type E = CONFIG_TYPE_UNKNOWN \<longrightarrow> ce_unknown E \<noteq> S_null) \<and>
     (ce_type E = CONFIG_TYPE_STRING \<longrightarrow> (\<exists>s d. ce_str E = S_str s \<and> ce_str_default E = S_str d)) \<and>
     (ce_type E = CONFIG_TYPE_ENUM \<longrightarrow> ce_enum_values E \<noteq> None)"

definition map_ok :: "(string \<rightharpoonup> cfg_entry) \<Rightarrow> bool" where
  "map_ok m \<longleftrightarrow> (\<forall>E \<in> ran m. entry_ok E)"

lemma map_ok_upd: "map_ok m \<Longrightarrow> entry_ok E \<Longrightarrow> map_ok (m(key \<mapsto> E))"
  by (auto simp: map_ok_def ran_def)

lemma map_okD: "map_ok m \<Longrightarrow> m key = Some E \<Longrightarrow> entry_ok E"
  by (auto simp: map_ok_def ran_def)

lemma entry_ok_view [simp]: "entry_ok (view E) = entry_ok E"
  by (simp add: entry_ok_def)

lemma cfg_rep_fields [simp]:
  "cfg_rep (c\<lparr>cv_calls := x\<rparr>) m = cfg_rep c m" "cfg_rep (c\<lparr>cv_version := v\<rparr>) m = cfg_rep c m"
  "cfg_rep (call_back E c) m = cfg_rep c m"
proof -
  have f: "cfg_is c' es = cfg_is c es" "cfg_map c' es = cfg_map c es"
    if "cv_entry c' = cv_entry c" "cv_first c' = cv_first c" "cv_last c' = cv_last c" "cv_fresh c' = cv_fresh c" for c' c es
  proof -
    have "ce_nexts c' = ce_nexts c" "key_of c' = key_of c" using that by (auto simp: ce_nexts_def key_of_def)
    then show "cfg_is c' es = cfg_is c es" "cfg_map c' es = cfg_map c es" using that by (simp_all add: cfg_is_def cfg_map_def)
  qed
  show c: "cfg_rep (c\<lparr>cv_calls := x\<rparr>) m = cfg_rep c m" for x unfolding cfg_rep_def using f [of "c\<lparr>cv_calls := x\<rparr>" c] by simp
  show "cfg_rep (c\<lparr>cv_version := v\<rparr>) m = cfg_rep c m" unfolding cfg_rep_def using f [of "c\<lparr>cv_version := v\<rparr>" c] by simp
  show "cfg_rep (call_back E c) m = cfg_rep c m" using c by (simp add: call_back_def split: option.split)
qed

lemma rep_init: "cfg_rep xine_config_init Map.empty"
  by (auto simp: cfg_rep_def cfg_is_def cfg_map_def xine_config_init_def intro!: exI [of _ "[]"])

lemma rep_None: "cfg_rep c m \<Longrightarrow> m key = None \<Longrightarrow> xine_config_lookup_entry key c = Ret None"
  by (auto simp: cfg_rep_def elim: lookup_cases)

lemma rep_Some:
  assumes "cfg_rep c m" and "m key = Some V"
  obtains e E where "xine_config_lookup_entry key c = Ret (Some e)" "cv_entry c e = Some E" "ce_key E = key" "view E = V"
proof -
  obtain es where "cfg_is c es" "m = cfg_map c es" using assms(1) by (auto simp: cfg_rep_def)
  then show thesis using assms(2) that by (cases rule: lookup_cases [of c es key]) auto
qed

lemma rep_put:
  assumes "cfg_rep c m" and "cv_entry c e = Some E" and "ce_next E' = ce_next E" and "ce_key E' = ce_key E"
  shows "cfg_rep (put_entry e E' c) (m(ce_key E \<mapsto> view E'))"
  using assms(1) put_entry_ok [OF _ assms(2-4)] unfolding cfg_rep_def by metis

lemma rep_add:
  assumes "cfg_rep c m" and "m key = None"
  obtains e c' E where "xine_config_add key c = Ret (e, c')" "cfg_rep c' (m(key \<mapsto> new_entry key))"
    "cv_entry c' e = Some E" "view E = new_entry key" "cv_version c' = cv_version c" "cv_calls c' = cv_calls c"
proof -
  obtain es where "cfg_is c es" "m = cfg_map c es" using assms(1) by (auto simp: cfg_rep_def)
  then show thesis using add_ok [of c es key] assms(2) that unfolding cfg_rep_def by metis
qed

text \<open>The entry a registration works on.\<close>

definition entry_for :: "(string \<rightharpoonup> cfg_entry) \<Rightarrow> string \<Rightarrow> cfg_str \<Rightarrow> cfg_entry" where
  "entry_for m key u = (case m key of Some V \<Rightarrow> V | None \<Rightarrow> (new_entry key)\<lparr>ce_unknown := u\<rparr>)"

lemma view_eqD: "view E = V \<Longrightarrow> E = V\<lparr>ce_next := ce_next E\<rparr>"
  by (auto simp: view_def)

lemma ensure_ok:
  assumes "cfg_rep c m"
  obtains e c1 E where "ensure_entry key u c = Ret (e, c1)" "cfg_rep c1 (m(key \<mapsto> entry_for m key u))" "cv_entry c1 e = Some E"
    "view E = entry_for m key u" "ce_key E = key" "cv_version c1 = cv_version c" "cv_calls c1 = cv_calls c"
proof (cases "m key")
  case None
  obtain e c' E where a: "xine_config_add key c = Ret (e, c')" "cfg_rep c' (m(key \<mapsto> new_entry key))"
    "cv_entry c' e = Some E" "view E = new_entry key" "cv_version c' = cv_version c" "cv_calls c' = cv_calls c"
    using rep_add [OF assms None] .
  have k: "ce_key E = key" using arg_cong [OF a(4), of ce_key] by (simp add: new_entry_def)
  have v: "view (E\<lparr>ce_unknown := u\<rparr>) = entry_for m key u" using arg_cong [OF a(4), of "\<lambda>E. E\<lparr>ce_unknown := u\<rparr>"] None
    by (cases E) (simp add: entry_for_def view_def)
  show thesis
  proof (rule that [where E = "E\<lparr>ce_unknown := u\<rparr>"])
    show "ensure_entry key u c = Ret (e, put_entry e (E\<lparr>ce_unknown := u\<rparr>) c')"
      using rep_None [OF assms None] a(1,3) by (simp add: ensure_entry_def entry_at_def)
    show "cfg_rep (put_entry e (E\<lparr>ce_unknown := u\<rparr>) c') (m(key \<mapsto> entry_for m key u))"
      using rep_put [OF a(2,3), of "E\<lparr>ce_unknown := u\<rparr>"] k v by simp
  qed (use a(5,6) v k in \<open>simp_all add: put_entry_def\<close>)
next
  case (Some V)
  obtain e E where "xine_config_lookup_entry key c = Ret (Some e)" "cv_entry c e = Some E" "ce_key E = key" "view E = V"
    using rep_Some [OF assms Some] .
  then show thesis using that [of e c E] assms Some by (simp add: ensure_entry_def entry_for_def map_upd_triv)
qed

text \<open>A change of an entry that has nothing to do with its place.\<close>

definition entry_map :: "(cfg_entry \<Rightarrow> cfg_entry outcome) \<Rightarrow> bool" where
  "entry_map f \<longleftrightarrow> (\<forall>E p. f (E\<lparr>ce_next := p\<rparr>) = obind (f E) (\<lambda>E1. Ret (E1\<lparr>ce_next := p\<rparr>))) \<and>
     (\<forall>E E1. f E = Ret E1 \<longrightarrow> ce_key E1 = ce_key E)"

lemma registered_ok:
  assumes "cfg_rep c m" and "entry_map f" and "f (entry_for m key u) = Ret V"
  obtains E c' where "registered key u f c = Ret (E, c')" "view E = view V" "cfg_rep c' (m(key \<mapsto> view V))"
    "cv_version c' = cv_version c" "cv_calls c' = cv_calls c"
proof -
  obtain e c1 E where n: "ensure_entry key u c = Ret (e, c1)" "cfg_rep c1 (m(key \<mapsto> entry_for m key u))" "cv_entry c1 e = Some E"
    "view E = entry_for m key u" "ce_key E = key" "cv_version c1 = cv_version c" "cv_calls c1 = cv_calls c"
    using ensure_ok [OF assms(1)] .
  have E: "E = (entry_for m key u)\<lparr>ce_next := ce_next E\<rparr>" using view_eqD [OF n(4)] .
  have "f ((entry_for m key u)\<lparr>ce_next := ce_next E\<rparr>) = Ret (V\<lparr>ce_next := ce_next E\<rparr>)"
    using assms(2,3) by (simp add: entry_map_def)
  then have f: "f E = Ret (V\<lparr>ce_next := ce_next E\<rparr>)" using E by metis
  have "ce_key (V\<lparr>ce_next := ce_next E\<rparr>) = key" using assms(2) f n(5) unfolding entry_map_def by metis
  then have "cfg_rep (put_entry e (V\<lparr>ce_next := ce_next E\<rparr>) c1) (m(key \<mapsto> view V))"
    using rep_put [OF n(2,3), of "V\<lparr>ce_next := ce_next E\<rparr>"] n(5) by simp
  then show thesis using that n(1,3,6,7) f by (simp add: registered_def entry_at_def put_entry_def)
qed

end
