(* ===== verification/Config_Ops.thy ===== *)
theory Config_Ops
  imports Config_Inv
begin

text \<open>
  Every operation on the configuration, as a change of the map from keys to entries: what it
  needs to return, that entries stay well formed, and the runs of its clients.
\<close>

section \<open>Registrations\<close>

lemma read_str_simps [simp]: "read_str (S_str s) = Ret s" "read_str S_null = Fault" "read_str S_freed = Fault"
  by (simp_all add: read_str_def)

lemma free_str_simps [simp]: "free_str (S_str s) = Ret S_freed" "free_str S_null = Ret S_null" "free_str S_freed = Fault"
  by (simp_all add: free_str_def)

lemma describe_simps [simp]:
  "ce_key (describe I E) = ce_key E" "ce_type (describe I E) = ce_type E" "ce_unknown (describe I E) = ce_unknown E"
  "ce_str (describe I E) = ce_str E" "ce_str_default (describe I E) = ce_str_default E" "ce_num (describe I E) = ce_num E"
  "ce_num_default (describe I E) = ce_num_default E" "ce_enum_values (describe I E) = ce_enum_values E"
  "ce_exp_level (describe I E) = ci_exp_level I" "ce_next (describe I E) = ce_next E"
  "describe I (E\<lparr>ce_next := p\<rparr>) = (describe I E)\<lparr>ce_next := p\<rparr>"
  by (simp_all add: describe_def)

text \<open>Numbers in texts that are \<open>int\<close>s.\<close>

definition number_fits :: "string \<Rightarrow> bool" where
  "number_fits s \<longleftrightarrow> (\<forall>v. scan_int s = Some v \<longrightarrow> int_range v)"

definition unknown_fits :: "cfg_entry \<Rightarrow> bool" where
  "unknown_fits E \<longleftrightarrow> (\<forall>s. ce_unknown E = S_str s \<longrightarrow> number_fits s)"

lemma number_fits_code [code]: "number_fits s = (case scan_int s of None \<Rightarrow> True | Some v \<Rightarrow> int_range v)"
  by (simp add: number_fits_def split: option.split)

lemma unknown_fits_code [code]: "unknown_fits E = (case ce_unknown E of S_str s \<Rightarrow> number_fits s | _ \<Rightarrow> True)"
  by (simp add: unknown_fits_def split: cfg_str.split)

lemma sscanf_fits: "number_fits s \<Longrightarrow> sscanf_d s old = Ret (case scan_int s of None \<Rightarrow> old | Some v \<Rightarrow> v)"
  by (auto simp: sscanf_d_def number_fits_def split: option.split)

lemma entry_map_number:
  assumes "\<And>E p. g (E\<lparr>ce_next := p\<rparr>) = (g E)\<lparr>ce_next := p\<rparr>" and "\<And>E. ce_key (g E) = ce_key E"
  shows "entry_map (\<lambda>E. obind (to_number ty conv d E) (\<lambda>E1. Ret (g E1)))"
  unfolding entry_map_def
proof (intro conjI allI impI)
  fix E p
  have "to_number ty conv d (E\<lparr>ce_next := p\<rparr>) = obind (to_number ty conv d E) (\<lambda>E1. Ret (E1\<lparr>ce_next := p\<rparr>))"
    by (cases E) (auto simp: to_number_def drop_strings_def)
  then show "obind (to_number ty conv d (E\<lparr>ce_next := p\<rparr>)) (\<lambda>E1. Ret (g E1)) =
    obind (obind (to_number ty conv d E) (\<lambda>E1. Ret (g E1))) (\<lambda>E1. Ret (E1\<lparr>ce_next := p\<rparr>))"
    using assms(1) by simp
next
  fix E E1 assume "obind (to_number ty conv d E) (\<lambda>E1. Ret (g E1)) = Ret E1"
  then show "ce_key E1 = ce_key E" using assms(2) by (auto simp: to_number_def drop_strings_def obind_eq_Ret split: if_splits)
qed

lemma fill_maps: "entry_map (fill_string d I)" "entry_map (fill_num v I)" "entry_map (fill_bool v I)" "entry_map (fill_range v lo hi I)"
  "entry_map (fill_enum v vs I)"
proof -
  show "entry_map (fill_string d I)"
    unfolding entry_map_def
  proof (intro conjI allI impI)
    fix E p show "fill_string d I (E\<lparr>ce_next := p\<rparr>) = obind (fill_string d I E) (\<lambda>E1. Ret (E1\<lparr>ce_next := p\<rparr>))"
      by (cases E) (auto simp: fill_string_def to_string_def describe_def Let_def)
  next
    fix E E1 show "fill_string d I E = Ret E1 \<Longrightarrow> ce_key E1 = ce_key E"
      by (auto simp: fill_string_def to_string_def Let_def obind_eq_Ret split: if_splits)
  qed
  have d: "describe I (E\<lparr>ce_next := p, ce_num_default := a\<rparr>) = (describe I (E\<lparr>ce_num_default := a\<rparr>))\<lparr>ce_next := p\<rparr>" for E p a
    by (cases E) (simp add: describe_def)
  have "(\<lambda>E. fill_num v I E) = (\<lambda>E. obind (to_number CONFIG_TYPE_NUM sscanf_d v E) (\<lambda>E1. Ret (describe I (E1\<lparr>ce_num_default := v\<rparr>))))"
    by (simp add: fill_num_def)
  show "entry_map (fill_num v I)" "entry_map (fill_bool v I)"
    unfolding fill_num_def [abs_def] fill_bool_def [abs_def] by (rule entry_map_number; simp add: d)+
  show "entry_map (fill_range v lo hi I)"
    unfolding fill_range_def [abs_def]
  proof (rule entry_map_number)
    fix E p show "describe I (E\<lparr>ce_next := p, ce_num_default := v, ce_range_min := lo, ce_range_max := hi\<rparr>) =
      (describe I (E\<lparr>ce_num_default := v, ce_range_min := lo, ce_range_max := hi\<rparr>))\<lparr>ce_next := p\<rparr>"
      by (cases E) (simp add: describe_def)
  qed simp
  show "entry_map (fill_enum v vs I)"
    unfolding fill_enum_def [abs_def]
  proof (rule entry_map_number)
    fix E p show "describe I (E\<lparr>ce_next := p, ce_num_default := v, ce_enum_values := Some vs\<rparr>) =
      (describe I (E\<lparr>ce_num_default := v, ce_enum_values := Some vs\<rparr>))\<lparr>ce_next := p\<rparr>"
      by (cases E) (simp add: describe_def)
  qed simp
qed

lemma fill_string_ok:
  assumes "entry_ok E \<or> E = (new_entry key)\<lparr>ce_unknown := S_str d\<rparr>"
  shows "\<exists>V. fill_string d I E = Ret V \<and> entry_ok V \<and> ce_type V = CONFIG_TYPE_STRING \<and> ce_exp_level V = ci_exp_level I \<and>
    ce_str V = (if ce_type E = CONFIG_TYPE_STRING then ce_str E else if ce_unknown E = S_null then S_str d else ce_unknown E)"
proof (cases "ce_type E = CONFIG_TYPE_STRING")
  case True
  then show ?thesis using assms by (auto simp: fill_string_def to_string_def entry_ok_def new_entry_def)
next
  case False
  then show ?thesis using assms
    by (cases "ce_unknown E") (auto simp: fill_string_def to_string_def Let_def entry_ok_def new_entry_def)
qed

text \<open>The value a number gets when its entry is not yet of the type \<open>ty\<close>.\<close>

definition first_value :: "cfg_type \<Rightarrow> (string \<Rightarrow> int \<Rightarrow> int) \<Rightarrow> int \<Rightarrow> cfg_entry \<Rightarrow> int" where
  "first_value ty conv d E =
     (if ce_type E = ty then ce_num E else case ce_unknown E of S_str s \<Rightarrow> conv s (ce_num E) | _ \<Rightarrow> d)"

lemma to_number_ok:
  assumes "entry_ok E \<or> E = new_entry key" and "ty \<noteq> CONFIG_TYPE_STRING" and "ty \<noteq> CONFIG_TYPE_UNKNOWN"
    and "\<And>s. ce_type E \<noteq> ty \<Longrightarrow> ce_unknown E = S_str s \<Longrightarrow> conv s (ce_num E) = Ret (f s (ce_num E))"
  shows "\<exists>V. to_number ty conv d E = Ret V \<and> ce_type V = ty \<and> ce_unknown V = ce_unknown E \<and>
    ce_num V = first_value ty f d E \<and> ce_unknown V \<noteq> S_freed"
proof (cases "ce_type E = ty")
  case True
  then show ?thesis using assms(1-3) by (auto simp: to_number_def first_value_def entry_ok_def new_entry_def)
next
  case False
  have "\<exists>E1. drop_strings E = Ret E1 \<and> ce_unknown E1 = ce_unknown E \<and> ce_num E1 = ce_num E"
    using assms(1) by (cases "ce_type E = CONFIG_TYPE_STRING") (auto simp: drop_strings_def entry_ok_def new_entry_def)
  then obtain E1 where E1: "drop_strings E = Ret E1" "ce_unknown E1 = ce_unknown E" "ce_num E1 = ce_num E" by blast
  have "ce_unknown E \<noteq> S_freed" using assms(1) by (auto simp: entry_ok_def new_entry_def)
  then show ?thesis using E1 assms(4) False by (cases "ce_unknown E") (auto simp: to_number_def first_value_def)
qed

definition scanned :: "string \<Rightarrow> int \<Rightarrow> int" where
  "scanned s old = (case scan_int s of None \<Rightarrow> old | Some v \<Rightarrow> v)"

lemma fill_number_ok:
  assumes "entry_ok E \<or> E = new_entry key" and "unknown_fits E"
  shows "\<exists>V. fill_num d I E = Ret V \<and> entry_ok V \<and> ce_type V = CONFIG_TYPE_NUM \<and> ce_exp_level V = ci_exp_level I \<and>
      ce_num V = first_value CONFIG_TYPE_NUM scanned d E"
    and "\<exists>V. fill_bool d I E = Ret V \<and> entry_ok V \<and> ce_type V = CONFIG_TYPE_BOOL \<and> ce_exp_level V = ci_exp_level I \<and>
      ce_num V = first_value CONFIG_TYPE_BOOL scanned d E"
    and "\<exists>V. fill_range d lo hi I E = Ret V \<and> entry_ok V \<and> ce_type V = CONFIG_TYPE_RANGE \<and> ce_exp_level V = ci_exp_level I \<and>
      ce_num V = first_value CONFIG_TYPE_RANGE scanned d E"
proof -
  have c: "ce_unknown E = S_str s \<Longrightarrow> sscanf_d s (ce_num E) = Ret (scanned s (ce_num E))" for s
    using assms(2) by (simp add: unknown_fits_def sscanf_fits scanned_def)
  show "\<exists>V. fill_num d I E = Ret V \<and> entry_ok V \<and> ce_type V = CONFIG_TYPE_NUM \<and> ce_exp_level V = ci_exp_level I \<and>
      ce_num V = first_value CONFIG_TYPE_NUM scanned d E"
    using to_number_ok [OF assms(1), of CONFIG_TYPE_NUM sscanf_d scanned d] c by (auto simp: fill_num_def entry_ok_def)
  show "\<exists>V. fill_bool d I E = Ret V \<and> entry_ok V \<and> ce_type V = CONFIG_TYPE_BOOL \<and> ce_exp_level V = ci_exp_level I \<and>
      ce_num V = first_value CONFIG_TYPE_BOOL scanned d E"
    using to_number_ok [OF assms(1), of CONFIG_TYPE_BOOL sscanf_d scanned d] c by (auto simp: fill_bool_def entry_ok_def)
  show "\<exists>V. fill_range d lo hi I E = Ret V \<and> entry_ok V \<and> ce_type V = CONFIG_TYPE_RANGE \<and> ce_exp_level V = ci_exp_level I \<and>
      ce_num V = first_value CONFIG_TYPE_RANGE scanned d E"
    using to_number_ok [OF assms(1), of CONFIG_TYPE_RANGE sscanf_d scanned d] c by (auto simp: fill_range_def entry_ok_def)
qed

lemma fill_enum_ok:
  assumes "entry_ok E \<or> E = new_entry key"
  shows "\<exists>V. fill_enum d vs I E = Ret V \<and> entry_ok V \<and> ce_type V = CONFIG_TYPE_ENUM \<and> ce_exp_level V = ci_exp_level I \<and>
      ce_num V = first_value CONFIG_TYPE_ENUM (\<lambda>s _. xine_config_parse_enum s vs) d E \<and> ce_enum_values V = Some vs"
  using to_number_ok [OF assms, of CONFIG_TYPE_ENUM "\<lambda>s _. Ret (xine_config_parse_enum s vs)" "\<lambda>s _. xine_config_parse_enum s vs" d]
  by (auto simp: fill_enum_def entry_ok_def)

text \<open>A registration that works returns an entry for its key and leaves the others alone.\<close>

lemma registered_entry:
  assumes "cfg_rep c m" and "map_ok m" and "entry_map f" and "\<exists>V. f (entry_for m key u) = Ret V \<and> entry_ok V \<and> P V"
    and "\<And>V. P (view V) = P V"
  obtains E c' V where "registered key u f c = Ret (E, c')" "cfg_rep c' (m(key \<mapsto> V))" "map_ok (m(key \<mapsto> V))" "view E = V" "P E" "P V"
    "cv_version c' = cv_version c" "cv_calls c' = cv_calls c"
proof -
  obtain V where V: "f (entry_for m key u) = Ret V" "entry_ok V" "P V" using assms(4) by blast
  obtain E c' where r: "registered key u f c = Ret (E, c')" "view E = view V" "cfg_rep c' (m(key \<mapsto> view V))"
    "cv_version c' = cv_version c" "cv_calls c' = cv_calls c"
    using registered_ok [OF assms(1,3) V(1)] .
  have "P E" using assms(5) V(3) r(2) by metis
  then show thesis using that [OF r(1,3)] map_ok_upd [OF assms(2)] V assms(5) r by simp
qed

lemma entry_for_ok: "map_ok m \<Longrightarrow> entry_ok (entry_for m key u) \<or> entry_for m key u = (new_entry key)\<lparr>ce_unknown := u\<rparr>"
  by (auto simp: entry_for_def dest: map_okD split: option.split)

lemma entry_for_null: "map_ok m \<Longrightarrow> entry_ok (entry_for m key S_null) \<or> entry_for m key S_null = new_entry key"
  using entry_for_ok [of m key S_null] by (simp add: new_entry_def)

section \<open>Updates and options\<close>

lemma rep_change:
  assumes "cfg_rep c m" and "cv_entry c e = Some E" and "view E = V" and "ce_key E = key"
    and "ce_next E' = ce_next E" and "ce_key E' = ce_key E" and "map_ok m" and "entry_ok E'"
  shows "cfg_rep (put_entry e E' c) (m(key \<mapsto> view E')) \<and> map_ok (m(key \<mapsto> view E'))"
  using rep_put [OF assms(1,2,5,6)] assms(4) map_ok_upd [OF assms(7), of "view E'" key] assms(8) by simp

lemma view_fields: "view E = V \<Longrightarrow> ce_type E = ce_type V \<and> ce_unknown E = ce_unknown V \<and> ce_str E = ce_str V \<and>
    ce_exp_level E = ce_exp_level V \<and> ce_num E = ce_num V \<and> entry_ok E = entry_ok V \<and> ce_callback E = ce_callback V"
  by (auto simp: view_def entry_ok_def)

lemma update_num_ok:
  assumes "cfg_rep c m" and "map_ok m"
  shows "\<exists>c' m'. xine_config_update_num key v c = Ret c' \<and> cfg_rep c' m' \<and> map_ok m' \<and> cv_version c' = cv_version c \<and>
    m' = (case m key of None \<Rightarrow> m
          | Some V \<Rightarrow> if ce_type V \<in> {CONFIG_TYPE_UNKNOWN, CONFIG_TYPE_STRING} then m else m(key \<mapsto> V\<lparr>ce_num := v\<rparr>))"
proof (cases "m key")
  case None
  then show ?thesis using assms rep_None [OF assms(1) None] by (simp add: xine_config_update_num_def)
next
  case (Some V)
  obtain e E where E: "xine_config_lookup_entry key c = Ret (Some e)" "cv_entry c e = Some E" "ce_key E = key" "view E = V"
    using rep_Some [OF assms(1) Some] .
  note F = view_fields [OF E(4)]
  have "view (E\<lparr>ce_num := v\<rparr>) = V\<lparr>ce_num := v\<rparr>" using E(4) by (cases E) (auto simp: view_def)
  moreover have "entry_ok (E\<lparr>ce_num := v\<rparr>)" using map_okD [OF assms(2) Some] F by (simp add: entry_ok_def)
  ultimately show ?thesis using rep_change [OF assms(1) E(2,4,3), of "E\<lparr>ce_num := v\<rparr>"] assms E Some F
    by (auto simp: xine_config_update_num_def entry_at_def put_entry_def call_back_def split: option.split)
qed

lemma update_string_ok:
  assumes "cfg_rep c m" and "map_ok m"
  shows "\<exists>c' m'. xine_config_update_string key v c = Ret c' \<and> cfg_rep c' m' \<and> map_ok m' \<and> cv_version c' = cv_version c \<and>
    m' = (case m key of None \<Rightarrow> m
          | Some V \<Rightarrow> if ce_type V \<noteq> CONFIG_TYPE_STRING then m
                     else m(key \<mapsto> (case v of None \<Rightarrow> V | Some s \<Rightarrow> V\<lparr>ce_str := S_str s\<rparr>)))"
proof (cases "m key")
  case None
  then show ?thesis using assms rep_None [OF assms(1) None] by (simp add: xine_config_update_string_def)
next
  case (Some V)
  obtain e E where E: "xine_config_lookup_entry key c = Ret (Some e)" "cv_entry c e = Some E" "ce_key E = key" "view E = V"
    using rep_Some [OF assms(1) Some] .
  note F = view_fields [OF E(4)] and ok = map_okD [OF assms(2) Some]
  show ?thesis
  proof (cases "ce_type V = CONFIG_TYPE_STRING")
    case False
    then show ?thesis using assms E Some F by (auto simp: xine_config_update_string_def entry_at_def)
  next
    case True
    define E1 where "E1 = (case v of None \<Rightarrow> E | Some s \<Rightarrow> E\<lparr>ce_str := S_str s\<rparr>)"
    have v: "view E1 = (case v of None \<Rightarrow> V | Some s \<Rightarrow> V\<lparr>ce_str := S_str s\<rparr>)"
      using E(4) by (cases E; cases v) (auto simp: view_def E1_def)
    have "entry_ok E1" using ok F True by (cases v) (auto simp: entry_ok_def E1_def)
    moreover have "ce_next E1 = ce_next E" "ce_key E1 = ce_key E" by (cases v; simp add: E1_def)+
    ultimately have r: "cfg_rep (put_entry e E1 c) (m(key \<mapsto> view E1)) \<and> map_ok (m(key \<mapsto> view E1))"
      using rep_change [OF assms(1) E(2,4,3), of E1] assms(2) by simp
    obtain p where p: "free_str (ce_str E) = Ret p" using ok F True by (auto simp: entry_ok_def)
    have t: "ce_type E = CONFIG_TYPE_STRING" using F True by simp
    have "xine_config_update_string key v c = Ret (call_back E1 (put_entry e E1 c))"
      using E(1,2) t p by (cases v) (simp_all add: xine_config_update_string_def entry_at_def Let_def E1_def)
    moreover have "cv_version (call_back E1 (put_entry e E1 c)) = cv_version c"
      by (simp add: call_back_def put_entry_def split: option.split)
    ultimately show ?thesis using r Some True by (simp add: v)
  qed
qed

lemma unregister_entry_ok:
  assumes "cfg_rep c m" and "map_ok m"
  shows "\<exists>c' m'. xine_config_unregister_cb key c = Ret c' \<and> cfg_rep c' m' \<and> map_ok m'"
proof (cases "m key")
  case None
  then show ?thesis using assms rep_None [OF assms(1) None] by (auto simp: xine_config_unregister_cb_def)
next
  case (Some V)
  obtain e E where E: "xine_config_lookup_entry key c = Ret (Some e)" "cv_entry c e = Some E" "ce_key E = key" "view E = V"
    using rep_Some [OF assms(1) Some] .
  let ?E1 = "E\<lparr>ce_callback := None, ce_callback_data := 0\<rparr>"
  have "entry_ok ?E1" using map_okD [OF assms(2) Some] view_fields [OF E(4)] by (simp add: entry_ok_def)
  then show ?thesis using rep_change [OF assms(1) E(2,4,3), of ?E1] assms E
    by (auto simp: xine_config_unregister_cb_def entry_at_def)
qed

lemma atoi_fits: "number_fits s \<Longrightarrow> atoi s = Ret (scanned s 0)"
  by (simp add: atoi_def sscanf_fits scanned_def)

section \<open>Loading\<close>

text \<open>What a pair of the file does to the entry of its key.\<close>

definition loaded_entry :: "cfg_entry option \<Rightarrow> string \<Rightarrow> string \<Rightarrow> cfg_entry" where
  "loaded_entry V key value =
     (case V of
        None \<Rightarrow> (new_entry key)\<lparr>ce_unknown := S_str value\<rparr>
      | Some V \<Rightarrow>
          (case ce_type V of
             CONFIG_TYPE_STRING \<Rightarrow> V\<lparr>ce_str := S_str value\<rparr>
           | CONFIG_TYPE_UNKNOWN \<Rightarrow> V\<lparr>ce_unknown := S_str value\<rparr>
           | _ \<Rightarrow> V\<lparr>ce_num := scanned value 0\<rparr>))"

lemma load_pair_ok:
  assumes "cfg_rep c m" and "map_ok m"
    and "\<And>V. m key = Some V \<Longrightarrow> ce_type V \<notin> {CONFIG_TYPE_UNKNOWN, CONFIG_TYPE_STRING} \<Longrightarrow> number_fits value"
  shows "\<exists>c'. load_pair key value c = Ret c' \<and> cfg_rep c' (m(key \<mapsto> loaded_entry (m key) key value)) \<and>
    map_ok (m(key \<mapsto> loaded_entry (m key) key value)) \<and> cv_version c' = cv_version c"
proof (cases "m key")
  case None
  obtain e c' E where a: "xine_config_add key c = Ret (e, c')" "cfg_rep c' (m(key \<mapsto> new_entry key))"
    "cv_entry c' e = Some E" "view E = new_entry key" "cv_version c' = cv_version c"
    using rep_add [OF assms(1) None] by metis
  have k: "ce_key E = key" using arg_cong [OF a(4), of ce_key] by (simp add: new_entry_def)
  let ?E1 = "E\<lparr>ce_unknown := S_str value\<rparr>"
  have v: "view ?E1 = (new_entry key)\<lparr>ce_unknown := S_str value\<rparr>"
    using arg_cong [OF a(4), of "\<lambda>E. E\<lparr>ce_unknown := S_str value\<rparr>"] by (cases E) (simp add: view_def)
  have "entry_ok ((new_entry key)\<lparr>ce_unknown := S_str value\<rparr>)" by (simp add: entry_ok_def new_entry_def)
  then show ?thesis using rep_put [OF a(2,3), of ?E1] v k map_ok_upd [OF assms(2)] rep_None [OF assms(1) None] a None
    by (auto simp: load_pair_def entry_at_def loaded_entry_def put_entry_def)
next
  case (Some V)
  obtain e E where E: "xine_config_lookup_entry key c = Ret (Some e)" "cv_entry c e = Some E" "ce_key E = key" "view E = V"
    using rep_Some [OF assms(1) Some] .
  note F = view_fields [OF E(4)] and ok = map_okD [OF assms(2) Some]
  have "\<exists>cn. xine_config_update_num key (scanned value 0) c = Ret cn \<and> cv_version cn = cv_version c \<and>
    (ce_type V \<notin> {CONFIG_TYPE_UNKNOWN, CONFIG_TYPE_STRING} \<longrightarrow>
       cfg_rep cn (m(key \<mapsto> V\<lparr>ce_num := scanned value 0\<rparr>)) \<and> map_ok (m(key \<mapsto> V\<lparr>ce_num := scanned value 0\<rparr>)))"
    using update_num_ok [OF assms(1,2), of key "scanned value 0"] Some by auto
  then obtain cn where n: "xine_config_update_num key (scanned value 0) c = Ret cn" "cv_version cn = cv_version c"
    "ce_type V \<notin> {CONFIG_TYPE_UNKNOWN, CONFIG_TYPE_STRING} \<longrightarrow>
       cfg_rep cn (m(key \<mapsto> V\<lparr>ce_num := scanned value 0\<rparr>)) \<and> map_ok (m(key \<mapsto> V\<lparr>ce_num := scanned value 0\<rparr>))" by blast
  have "\<exists>cs. xine_config_update_string key (Some value) c = Ret cs \<and> cv_version cs = cv_version c \<and>
    (ce_type V = CONFIG_TYPE_STRING \<longrightarrow>
       cfg_rep cs (m(key \<mapsto> V\<lparr>ce_str := S_str value\<rparr>)) \<and> map_ok (m(key \<mapsto> V\<lparr>ce_str := S_str value\<rparr>)))"
    using update_string_ok [OF assms(1,2), of key "Some value"] Some by auto
  then obtain cs where s: "xine_config_update_string key (Some value) c = Ret cs" "cv_version cs = cv_version c"
    "ce_type V = CONFIG_TYPE_STRING \<longrightarrow>
       cfg_rep cs (m(key \<mapsto> V\<lparr>ce_str := S_str value\<rparr>)) \<and> map_ok (m(key \<mapsto> V\<lparr>ce_str := S_str value\<rparr>))" by blast
  let ?E1 = "E\<lparr>ce_unknown := S_str value\<rparr>"
  have u: "cfg_rep (put_entry e ?E1 c) (m(key \<mapsto> V\<lparr>ce_unknown := S_str value\<rparr>)) \<and> map_ok (m(key \<mapsto> V\<lparr>ce_unknown := S_str value\<rparr>))"
  proof -
    have "view ?E1 = V\<lparr>ce_unknown := S_str value\<rparr>" using E(4) by (cases E) (auto simp: view_def)
    moreover have "entry_ok ?E1" using ok F by (simp add: entry_ok_def)
    ultimately show ?thesis using rep_change [OF assms(1) E(2,4,3), of ?E1] assms(2) by simp
  qed
  show ?thesis
  proof (cases "ce_type V")
    case CONFIG_TYPE_UNKNOWN
    have t: "ce_type E = CONFIG_TYPE_UNKNOWN" using F CONFIG_TYPE_UNKNOWN by simp
    obtain p where p: "free_str (ce_unknown E) = Ret p" using ok F by (cases "ce_unknown V") (auto simp: entry_ok_def)
    have "load_pair key value c = Ret (put_entry e ?E1 c)" using E(1,2) t p by (simp add: load_pair_def entry_at_def)
    moreover have "loaded_entry (m key) key value = V\<lparr>ce_unknown := S_str value\<rparr>"
      using Some CONFIG_TYPE_UNKNOWN by (simp add: loaded_entry_def)
    ultimately show ?thesis using u by (simp add: put_entry_def)
  next
    case CONFIG_TYPE_STRING
    then show ?thesis using E F s Some by (simp add: load_pair_def entry_at_def loaded_entry_def)
  qed (use E F n Some atoi_fits [OF assms(3) [OF Some]] in \<open>simp_all add: load_pair_def entry_at_def loaded_entry_def\<close>)
qed

definition line_fits :: "string \<Rightarrow> bool" where
  "line_fits line \<longleftrightarrow>
     (if take 1 line = ''#'' then True
      else if take 1 line = ''.'' then take 9 line = ''.version:'' \<longrightarrow> number_fits (drop 9 line)
      else case cut_at (CHR '':'') line of (_, None) \<Rightarrow> True | (_, Some value) \<Rightarrow> number_fits value)"

lemma load_line_ok:
  assumes "cfg_rep c m" and "map_ok m" and "line_fits line"
  shows "\<exists>c' m'. load_line line c = Ret c' \<and> cfg_rep c' m' \<and> map_ok m'"
proof (cases "take 1 line = ''#'' \<or> take 1 line = ''.''")
  case True
  then show ?thesis using assms by (auto simp: load_line_def line_fits_def sscanf_fits)
next
  case False
  obtain key r where c: "cut_at (CHR '':'') line = (key, r)" by (cases "cut_at (CHR '':'') line")
  show ?thesis
  proof (cases r)
    case None
    then show ?thesis using assms c False by (auto simp: load_line_def)
  next
    case (Some v)
    then have "number_fits v" using assms(3) c False by (simp add: line_fits_def)
    then obtain c' where "load_pair key v c = Ret c'" "cfg_rep c' (m(key \<mapsto> loaded_entry (m key) key v))"
      "map_ok (m(key \<mapsto> loaded_entry (m key) key v))" using load_pair_ok [OF assms(1,2)] by blast
    then show ?thesis using c False Some by (auto simp: load_line_def)
  qed
qed

text \<open>Files in which no line starts with a NUL and every value that is a number is an \<open>int\<close>.\<close>

definition file_fits :: "string \<Rightarrow> bool" where
  "file_fits s \<longleftrightarrow> (\<forall>l \<in> set (file_lines s). cstr l \<noteq> [] \<and> line_fits (butlast (cstr l)))"

lemma load_lines_ok:
  assumes "cfg_rep c m" and "map_ok m" and "\<forall>l \<in> set ls. cstr l \<noteq> [] \<and> line_fits (butlast (cstr l))"
  shows "\<exists>c' m'. load_lines ls c = Ret c' \<and> cfg_rep c' m' \<and> map_ok m'"
  using assms
proof (induction ls arbitrary: c m)
  case (Cons l ls)
  obtain c1 m1 where l: "load_line (butlast (cstr l)) c = Ret c1" "cfg_rep c1 m1" "map_ok m1"
    using load_line_ok [OF Cons.prems(1,2), of "butlast (cstr l)"] Cons.prems(3) by auto
  then show ?case using Cons.IH [OF l(2,3)] Cons.prems(3) by (simp add: Let_def)
qed auto

section \<open>The configuration as its clients see it\<close>

definition config_entries :: "config_values \<Rightarrow> cfg_entry list" where
  "config_entries c = map (\<lambda>e. the (cv_entry c e)) (walk (ce_nexts c) (cv_fresh c) (cv_first c))"

definition config_map :: "config_values \<Rightarrow> string \<rightharpoonup> cfg_entry" where
  "config_map c = map_of (map (\<lambda>E. (ce_key E, view E)) (config_entries c))"

lemma entries_is:
  assumes "cfg_is c es"
  shows "config_entries c = map (\<lambda>e. the (cv_entry c e)) es" and "config_map c = cfg_map c es"
proof -
  have "walk (ce_nexts c) (cv_fresh c) (cv_first c) = es"
    by (rule walk_lseg [OF cfg_isD(1) [OF assms]]) (use cfg_length [OF assms] in simp)
  then show "config_entries c = map (\<lambda>e. the (cv_entry c e)) es" by (simp add: config_entries_def)
  then show "config_map c = cfg_map c es" by (simp add: config_map_def cfg_map_def comp_def key_of_def)
qed

lemma rep_map: "cfg_rep c m \<Longrightarrow> config_map c = m"
  by (auto simp: cfg_rep_def entries_is)

lemma entries_map:
  assumes "cfg_rep c m" and "map_ok m" and "E \<in> set (config_entries c)"
  shows "m (ce_key E) = Some (view E)" and "entry_ok E"
proof -
  obtain es where es: "cfg_is c es" "m = cfg_map c es" using assms(1) by (auto simp: cfg_rep_def)
  obtain e where e: "e \<in> set es" "E = the (cv_entry c e)" using assms(3) entries_is(1) [OF es(1)] by auto
  then obtain F where "cv_entry c e = Some F" using cfg_entry [OF es(1)] by blast
  then show "m (ce_key E) = Some (view E)" using e unfolding es(2) cfg_map_Some [OF es(1)] by auto
  then show "entry_ok E" using map_okD [OF assms(2)] by fastforce
qed

section \<open>Options in an MRL\<close>

lemma cut_last_opt:
  assumes "CHR '':'' \<notin> set v"
  shows "cut_last (CHR '':'') (key @ CHR '':'' # v) = Some (key, v)"
proof -
  have r: "rev (key @ CHR '':'' # v) = rev v @ CHR '':'' # rev key" by simp
  have n: "\<And>c. c \<in> set (rev v) \<Longrightarrow> c \<noteq> CHR '':''" using assms by auto
  show ?thesis unfolding cut_last_def r using takeWhile_append2 [of "rev v" "\<lambda>c. c \<noteq> CHR '':''" "CHR '':'' # rev key"]
      dropWhile_append2 [of "rev v" "\<lambda>c. c \<noteq> CHR '':''" "CHR '':'' # rev key"] n by simp
qed

lemma change_opt_ok:
  assumes "cfg_rep c m" and "map_ok m" and "m key = Some V" and "number_fits v" and "CHR '':'' \<notin> set v"
  shows "\<exists>r c' m'. xine_config_change_opt (Some (key @ CHR '':'' # v)) c = Ret (r, c') \<and> cfg_rep c' m' \<and> map_ok m' \<and>
    (if ce_exp_level V \<ge> XINE_CONFIG_SECURITY then r = - 1 \<and> c' = c else r = 1 \<and> m' = m(key \<mapsto> loaded_entry (m key) key v))"
proof -
  note cut = cut_last_opt [OF assms(5)]
  obtain e E where E: "xine_config_lookup_entry key c = Ret (Some e)" "cv_entry c e = Some E" "ce_key E = key" "view E = V"
    using rep_Some [OF assms(1,3)] .
  note F = view_fields [OF E(4)] and ok = map_okD [OF assms(2,3)]
  show ?thesis
  proof (cases "ce_exp_level V \<ge> XINE_CONFIG_SECURITY")
    case True
    then show ?thesis using assms(1,2) E(1,2) F by (auto simp: xine_config_change_opt_def cut entry_at_def)
  next
    case False
    obtain c' where l: "load_pair key v c = Ret c'" "cfg_rep c' (m(key \<mapsto> loaded_entry (m key) key v))"
      "map_ok (m(key \<mapsto> loaded_entry (m key) key v))" using load_pair_ok [OF assms(1,2,4)] by blast
    have x: "\<not> XINE_CONFIG_SECURITY \<le> ce_exp_level E" using False F by simp
    obtain p where p: "free_str (ce_unknown E) = Ret p" using ok F by (cases "ce_unknown V") (auto simp: entry_ok_def)
    have "xine_config_change_opt (Some (key @ CHR '':'' # v)) c = obind (load_pair key v c) (\<lambda>c1. Ret (1, c1))"
      using x p E(1-3) by (cases "ce_type E") (simp_all add: xine_config_change_opt_def cut entry_at_def load_pair_def)
    then show ?thesis using l False by auto
  qed
qed

section \<open>Clients\<close>

datatype cfg_op =
    G_string string string cfg_info | G_num string int cfg_info | G_bool string int cfg_info
  | G_range string int int int cfg_info | G_enum string int "string list" cfg_info
  | G_update_num string int | G_update_string string "string option" | G_unregister string
  | G_load "string option" | G_option string string

fun run_cfg :: "cfg_op \<Rightarrow> config_values \<Rightarrow> config_values outcome" where
  "run_cfg (G_string key d I) c = obind (register_string key d I c) (\<lambda>(_, c1). Ret c1)"
| "run_cfg (G_num key d I) c = obind (register_num key d I c) (\<lambda>(_, c1). Ret c1)"
| "run_cfg (G_bool key d I) c = obind (register_bool key d I c) (\<lambda>(_, c1). Ret c1)"
| "run_cfg (G_range key d lo hi I) c = obind (register_range key d lo hi I c) (\<lambda>(_, c1). Ret c1)"
| "run_cfg (G_enum key d vs I) c = obind (register_enum key d vs I c) (\<lambda>(_, c1). Ret c1)"
| "run_cfg (G_update_num key v) c = xine_config_update_num key v c"
| "run_cfg (G_update_string key v) c = xine_config_update_string key v c"
| "run_cfg (G_unregister key) c = xine_config_unregister_cb key c"
| "run_cfg (G_load file) c = xine_config_load file c"
| "run_cfg (G_option key v) c = obind (xine_config_change_opt (Some (key @ CHR '':'' # v)) c) (\<lambda>(_, c1). Ret c1)"

text \<open>
  What the operations rely on: numbers in the texts that are read as numbers are
  \<open>int\<close>s, and an option names an entry that exists.
\<close>

fun cfg_allowed :: "cfg_op \<Rightarrow> config_values \<Rightarrow> bool" where
  "cfg_allowed (G_num key d I) c = unknown_fits (entry_for (config_map c) key S_null)"
| "cfg_allowed (G_bool key d I) c = unknown_fits (entry_for (config_map c) key S_null)"
| "cfg_allowed (G_range key d lo hi I) c = unknown_fits (entry_for (config_map c) key S_null)"
| "cfg_allowed (G_load (Some s)) c = file_fits s"
| "cfg_allowed (G_option key v) c = (CHR '':'' \<notin> set v \<and> number_fits v \<and> config_map c key \<noteq> None)"
| "cfg_allowed _ c = True"

lemma run_cfg_ok:
  assumes "cfg_rep c m" and "map_ok m" and "cfg_allowed op c"
  shows "\<exists>c' m'. run_cfg op c = Ret c' \<and> cfg_rep c' m' \<and> map_ok m'"
proof -
  have R: "\<exists>E c' m'. registered key u f c = Ret (E, c') \<and> cfg_rep c' m' \<and> map_ok m'"
    if "entry_map f" "\<exists>V. f (entry_for m key u) = Ret V \<and> entry_ok V \<and> P V" for key u f P
    using registered_entry [OF assms(1,2) that(1), of key u "\<lambda>_. True"] that(2) by blast
  note M = rep_map [OF assms(1)] and N = entry_for_null [OF assms(2)]
  show ?thesis
  proof (cases op)
    case (G_string key d I)
    show ?thesis using R [OF fill_maps(1) fill_string_ok [OF entry_for_ok [OF assms(2)]], of key d I] G_string
      by (auto simp: register_string_def)
  next
    case (G_num key d I)
    then show ?thesis using R [OF fill_maps(2) fill_number_ok(1) [OF N], of key d I] assms(3) M by (auto simp: register_num_def)
  next
    case (G_bool key d I)
    then show ?thesis using R [OF fill_maps(3) fill_number_ok(2) [OF N], of key d I] assms(3) M by (auto simp: register_bool_def)
  next
    case (G_range key d lo hi I)
    then show ?thesis using R [OF fill_maps(4) fill_number_ok(3) [OF N], of key d lo hi I] assms(3) M
      by (auto simp: register_range_def)
  next
    case (G_enum key d vs I)
    then show ?thesis using R [OF fill_maps(5) fill_enum_ok [OF N], of key d vs I] by (auto simp: register_enum_def)
  next
    case (G_update_num key v)
    then show ?thesis using update_num_ok [OF assms(1,2)] by fastforce
  next
    case (G_update_string key v)
    then show ?thesis using update_string_ok [OF assms(1,2)] by fastforce
  next
    case (G_unregister key)
    then show ?thesis using unregister_entry_ok [OF assms(1,2)] by simp
  next
    case (G_load f)
    then show ?thesis using load_lines_ok [OF assms(1,2)] assms
      by (cases f) (auto simp: xine_config_load_def file_fits_def)
  next
    case (G_option key v)
    then obtain V where "m key = Some V" "number_fits v" "CHR '':'' \<notin> set v" using assms(3) M by auto
    then show ?thesis using change_opt_ok [OF assms(1,2)] G_option by fastforce
  qed
qed

inductive cfg_step :: "config_values \<Rightarrow> config_values \<Rightarrow> bool" where
  cfg_step: "cfg_allowed op c \<Longrightarrow> run_cfg op c = Ret c' \<Longrightarrow> cfg_step c c'"

inductive cfg_reachable :: "config_values \<Rightarrow> bool" where
  cfg_init: "cfg_reachable xine_config_init"
| cfg_next: "cfg_reachable c \<Longrightarrow> cfg_step c c' \<Longrightarrow> cfg_reachable c'"

inductive_cases cfg_stepE: "cfg_step c c'"

lemma cfg_reachable_rep: "cfg_reachable c \<Longrightarrow> cfg_rep c (config_map c) \<and> map_ok (config_map c)"
proof (induction rule: cfg_reachable.induct)
  case cfg_init
  have "config_map xine_config_init = Map.empty" using rep_map [OF rep_init] .
  then show ?case using rep_init by (simp add: map_ok_def)
next
  case (cfg_next c c')
  from cfg_next.hyps(2) obtain op where "cfg_allowed op c" "run_cfg op c = Ret c'" by (rule cfg_stepE)
  then obtain m' where "cfg_rep c' m'" "map_ok m'" using run_cfg_ok cfg_next.IH by fastforce
  then show ?case using rep_map by blast
qed

text \<open>Runs of a list of operations, and one with an entry of every kind but two.\<close>

fun cfg_run :: "cfg_op list \<Rightarrow> config_values \<Rightarrow> config_values outcome" where
  "cfg_run [] c = Ret c"
| "cfg_run (op # ops) c = (if cfg_allowed op c then obind (run_cfg op c) (cfg_run ops) else Fault)"

lemma cfg_run_reachable: "cfg_reachable c \<Longrightarrow> cfg_run ops c = Ret c' \<Longrightarrow> cfg_reachable c'"
proof (induction ops arbitrary: c)
  case (Cons op ops)
  then obtain c1 where "cfg_allowed op c" "run_cfg op c = Ret c1" "cfg_run ops c1 = Ret c'" by (auto simp: obind_eq_Ret split: if_splits)
  then show ?case using Cons cfg_reachable.cfg_next [OF Cons.prems(1) cfg_step.cfg_step] by blast
qed simp

definition level_info :: "int \<Rightarrow> cfg_info" where
  "level_info n =
     \<lparr>ci_description = Some ''text'', ci_help = None, ci_exp_level = n, ci_callback = Some 1, ci_callback_data = 2\<rparr>"

definition sample_ops :: "cfg_op list" where
  "sample_ops = [G_num ''video.b'' 5 (level_info 0), G_string ''gui.s'' ''x'' (level_info 30), G_load (Some (''misc.x:7'' @ [LF])),
     G_enum ''audio.e'' 0 [''p'', ''q''] (level_info 20), G_update_num ''audio.e'' 1]"

definition sample_config :: config_values where
  "sample_config = (case cfg_run sample_ops xine_config_init of Ret c \<Rightarrow> c | _ \<Rightarrow> xine_config_init)"

lemma sample_reachable: "cfg_reachable sample_config"
proof -
  have "case cfg_run sample_ops xine_config_init of Ret c \<Rightarrow> True | _ \<Rightarrow> False" by code_simp
  then have "cfg_run sample_ops xine_config_init = Ret sample_config"
    by (cases "cfg_run sample_ops xine_config_init") (simp_all add: sample_config_def)
  then show ?thesis using cfg_run_reachable cfg_reachable.cfg_init by blast
qed

end
