(* ===== verification/Config_Props.thy ===== *)
theory Config_Props
  imports Config_Ops
begin

text \<open>The properties of the configuration.\<close>

section \<open>The entries\<close>

text \<open>
  C35. In every state the entries are sorted: known sections in their order and before the
  others, then by section, plugin and name; no key occurs twice. Looking up a key finds its
  entry, \<open>last\<close> is the last one, and the strings that the type of an entry says it has
  are allocated.
\<close>

theorem config_sorted:
  assumes "cfg_reachable c"
  shows "sorted_wrt (\<lambda>E F. key_place (ce_key E) < key_place (ce_key F)) (config_entries c) \<and>
    (\<forall>E \<in> set (config_entries c). entry_ok E) \<and>
    (\<forall>key. \<exists>p. xine_config_lookup_entry key c = Ret p \<and> map_option view (Option.bind p (cv_entry c)) = config_map c key) \<and>
    Option.bind (cv_last c) (cv_entry c) = (if config_entries c = [] then None else Some (last (config_entries c)))"
proof -
  note R = cfg_reachable_rep [OF assms]
  obtain es where es: "cfg_is c es" using R by (auto simp: cfg_rep_def)
  note C = cfg_isD [OF es] and N = entries_is [OF es]
  have 1: "sorted_wrt (\<lambda>E F. key_place (ce_key E) < key_place (ce_key F)) (config_entries c)"
    using C(5) unfolding N(1) by (simp add: sorted_wrt_map comp_def key_of_def)
  have 2: "entry_ok E" if "E \<in> set (config_entries c)" for E using entries_map(2) R that by blast
  have 3: "\<exists>p. xine_config_lookup_entry key c = Ret p \<and> map_option view (Option.bind p (cv_entry c)) = config_map c key" for key
    by (rule lookup_cases [OF es, of key]) (simp_all add: N(2))
  have 4: "Option.bind (cv_last c) (cv_entry c) = (if config_entries c = [] then None else Some (last (config_entries c)))"
    using C(4) cfg_entry [OF es, of "last es"] N(1) by (auto simp: last_map)
  show ?thesis using 1 2 3 4 by blast
qed

theorem config_sorted_witness:
  "sorted_wrt (\<lambda>E F. key_place (ce_key E) < key_place (ce_key F)) (config_entries sample_config) \<and>
    map ce_key (config_entries sample_config) = [''gui.s'', ''audio.e'', ''video.b'', ''misc.x'']"
proof
  show "map ce_key (config_entries sample_config) = [''gui.s'', ''audio.e'', ''video.b'', ''misc.x'']" by code_simp
qed (use config_sorted [OF sample_reachable] in blast)

lemma free_entries_ok:
  assumes "lseg (ce_nexts c) p es None" and "length es < k" and "dom (cv_entry c) = set es"
    and "\<And>e E. cv_entry c e = Some E \<Longrightarrow> entry_ok E"
  shows "\<exists>c'. free_entries k p c = Ret c' \<and> cv_entry c' = Map.empty"
  using assms
proof (induction es arbitrary: p k c)
  case Nil
  then show ?case by (cases k) auto
next
  case (Cons e es)
  from Cons.prems(2) obtain j where k: "k = Suc j" by (cases k) auto
  from Cons.prems(1) obtain E where E: "cv_entry c e = Some E" "lseg (ce_nexts c) (ce_next E) es None" "p = Some e"
    by (auto simp: ce_nexts_def [of c e])
  have d: "e \<notin> set es" using lseg_distinct [OF Cons.prems(1)] by simp
  let ?c = "c\<lparr>cv_entry := (cv_entry c)(e := None)\<rparr>"
  have a: "lseg (ce_nexts ?c) (ce_next E) es None"
    using E(2) d by (subst lseg_cong [of _ "ce_nexts ?c" "ce_nexts c"]) (auto simp: ce_nexts_def)
  have b: "dom (cv_entry ?c) = set es" using Cons.prems(3) d by auto
  have "length es < j" using Cons.prems(2) k by simp
  then have "\<exists>c'. free_entries j (ce_next E) ?c = Ret c' \<and> cv_entry c' = Map.empty"
    by (rule Cons.IH [OF a _ b]) (use Cons.prems(4) in \<open>auto split: if_splits\<close>)
  then obtain c' where "free_entries j (ce_next E) ?c = Ret c'" "cv_entry c' = Map.empty" by blast
  moreover have ok: "entry_ok E" using Cons.prems(4) E(1) .
  moreover obtain q where "free_str (ce_unknown E) = Ret q" using ok by (cases "ce_unknown E") (auto simp: entry_ok_def)
  moreover obtain F where "drop_strings E = Ret F"
    using ok by (cases "ce_type E = CONFIG_TYPE_STRING") (auto simp: drop_strings_def entry_ok_def)
  ultimately show ?case using E by (simp add: k entry_at_def)
qed



section \<open>Values\<close>

lemma fill_num_same:
  assumes "entry_ok E" and "ce_type E = CONFIG_TYPE_NUM"
  shows "\<exists>V. fill_num d I E = Ret V \<and> entry_ok V \<and> ce_num V = ce_num E"
  using assms by (simp add: fill_num_def to_number_def entry_ok_def)

lemma register_num_again:
  assumes "cfg_rep c m" and "map_ok m" and "m key = Some V" and "ce_type V = CONFIG_TYPE_NUM"
  shows "\<exists>c'. register_num key d I c = Ret (ce_num V, c')"
proof -
  have "entry_for m key S_null = V" using assms(3) by (simp add: entry_for_def)
  then have f: "\<exists>E. fill_num d I (entry_for m key S_null) = Ret E \<and> entry_ok E \<and> ce_num E = ce_num V"
    using fill_num_same map_okD [OF assms(2,3)] assms(4) by simp
  obtain E c' where "registered key S_null (fill_num d I) c = Ret (E, c')" "ce_num E = ce_num V"
    by (rule registered_entry [OF assms(1,2) fill_maps(2) f]) auto
  then show ?thesis by (simp add: register_num_def)
qed

lemma register_string_again:
  assumes "cfg_rep c m" and "map_ok m" and "m key = Some V" and "ce_type V = CONFIG_TYPE_STRING"
  shows "\<exists>c'. register_string key d I c = Ret (ce_str V, c')"
proof -
  have e: "entry_for m key (S_str d) = V" using assms(3) by (simp add: entry_for_def)
  have f: "\<exists>E. fill_string d I (entry_for m key (S_str d)) = Ret E \<and> entry_ok E \<and> ce_str E = ce_str V"
    using fill_string_ok [where E = V and d = d and I = I and key = key] map_okD [OF assms(2,3)] assms(4) unfolding e by auto
  obtain E c' where "registered key (S_str d) (fill_string d I) c = Ret (E, c')" "ce_str E = ce_str V"
    by (rule registered_entry [OF assms(1,2) fill_maps(1) f]) auto
  then show ?thesis by (simp add: register_string_def)
qed

text \<open>The value of a string when it is registered.\<close>

definition first_string :: "string \<Rightarrow> cfg_entry \<Rightarrow> cfg_str" where
  "first_string d E =
     (if ce_type E = CONFIG_TYPE_STRING then ce_str E else if ce_unknown E = S_null then S_str d else ce_unknown E)"

lemma first_string_new: "first_string d (entry_for m key (S_str d)) = first_string d (entry_for m key S_null)"
  by (simp add: first_string_def entry_for_def new_entry_def split: option.split)

lemma fill_string_first:
  assumes "map_ok m"
  shows "\<exists>V. fill_string d I (entry_for m key (S_str d)) = Ret V \<and> entry_ok V \<and>
    (ce_type V = CONFIG_TYPE_STRING \<and> ce_str V = first_string d (entry_for m key S_null))"
  using fill_string_ok [OF entry_for_ok [OF assms], folded first_string_def] unfolding first_string_new by blast

lemma register_string_first:
  assumes "cfg_rep c m" and "map_ok m"
  obtains c' V where "register_string key d I c = Ret (first_string d (entry_for m key S_null), c')" "cfg_rep c' (m(key \<mapsto> V))"
    "map_ok (m(key \<mapsto> V))" "ce_type V = CONFIG_TYPE_STRING"
proof -
  obtain E c' V where "registered key (S_str d) (fill_string d I) c = Ret (E, c')" "cfg_rep c' (m(key \<mapsto> V))"
    "map_ok (m(key \<mapsto> V))" "ce_type V = CONFIG_TYPE_STRING" "ce_str E = first_string d (entry_for m key S_null)"
    by (rule registered_entry [OF assms fill_maps(1) fill_string_first [OF assms(2), of d I key]]) auto
  then show thesis using that by (simp add: register_string_def)
qed

text \<open>
  C37. Registering a number gives the default when the key is new, the number the file or an
  MRL gave it when it was not registered before, and its value when it was; an update then
  gives what every later registration returns. The same is true of strings. No other key changes.
\<close>

theorem config_register_update:
  assumes "cfg_reachable c" and "unknown_fits (entry_for (config_map c) key S_null)"
  shows "(\<exists>c1. register_num key d I c = Ret (first_value CONFIG_TYPE_NUM scanned d (entry_for (config_map c) key S_null), c1) \<and>
      (\<forall>k. k \<noteq> key \<longrightarrow> config_map c1 k = config_map c k) \<and>
      (\<forall>v. \<exists>c2. xine_config_update_num key v c1 = Ret c2 \<and> (\<forall>k. k \<noteq> key \<longrightarrow> config_map c2 k = config_map c k) \<and>
         (\<forall>d' I'. \<exists>c3. register_num key d' I' c2 = Ret (v, c3)))) \<and>
    (\<exists>c1. register_string key s I c = Ret (first_string s (entry_for (config_map c) key S_null), c1) \<and>
      (\<forall>k. k \<noteq> key \<longrightarrow> config_map c1 k = config_map c k) \<and>
      (\<forall>v. \<exists>c2. xine_config_update_string key (Some v) c1 = Ret c2 \<and> (\<forall>k. k \<noteq> key \<longrightarrow> config_map c2 k = config_map c k) \<and>
         (\<forall>d' I'. \<exists>c3. register_string key d' I' c2 = Ret (S_str v, c3))))"
    (is "?num \<and> ?str")
proof
  let ?m = "config_map c"
  from cfg_reachable_rep [OF assms(1)] have R: "cfg_rep c ?m" "map_ok ?m" by auto
  show ?num
  proof -
    obtain E c1 V where c1: "registered key S_null (fill_num d I) c = Ret (E, c1)" "cfg_rep c1 (?m(key \<mapsto> V))"
      "map_ok (?m(key \<mapsto> V))" "ce_type V = CONFIG_TYPE_NUM"
      "ce_num E = first_value CONFIG_TYPE_NUM scanned d (entry_for ?m key S_null)"
      by (rule registered_entry [OF R fill_maps(2) fill_number_ok(1) [OF entry_for_null [OF R(2)] assms(2)]]) auto
    have "\<exists>c2. xine_config_update_num key v c1 = Ret c2 \<and> (\<forall>k. k \<noteq> key \<longrightarrow> config_map c2 k = ?m k) \<and>
      (\<forall>d' I'. \<exists>c3. register_num key d' I' c2 = Ret (v, c3))" for v
    proof -
      obtain c2 where "xine_config_update_num key v c1 = Ret c2" "cfg_rep c2 (?m(key \<mapsto> V\<lparr>ce_num := v\<rparr>))"
        "map_ok (?m(key \<mapsto> V\<lparr>ce_num := v\<rparr>))"
        using update_num_ok [OF c1(2,3), of key v] c1(4) by auto
      then show ?thesis using register_num_again [of c2 "?m(key \<mapsto> V\<lparr>ce_num := v\<rparr>)" key "V\<lparr>ce_num := v\<rparr>"] c1(4) rep_map
        by auto
    qed
    then show ?thesis using c1(1,5) rep_map [OF c1(2)] by (simp add: register_num_def)
  qed
  show ?str
  proof -
    obtain c1 V where c1: "register_string key s I c = Ret (first_string s (entry_for ?m key S_null), c1)"
      "cfg_rep c1 (?m(key \<mapsto> V))" "map_ok (?m(key \<mapsto> V))" "ce_type V = CONFIG_TYPE_STRING"
      by (rule register_string_first [OF R])
    have "\<exists>c2. xine_config_update_string key (Some v) c1 = Ret c2 \<and> (\<forall>k. k \<noteq> key \<longrightarrow> config_map c2 k = ?m k) \<and>
      (\<forall>d' I'. \<exists>c3. register_string key d' I' c2 = Ret (S_str v, c3))" for v
    proof -
      obtain c2 where "xine_config_update_string key (Some v) c1 = Ret c2" "cfg_rep c2 (?m(key \<mapsto> V\<lparr>ce_str := S_str v\<rparr>))"
        "map_ok (?m(key \<mapsto> V\<lparr>ce_str := S_str v\<rparr>))"
        using update_string_ok [OF c1(2,3), of key "Some v"] c1(4) by auto
      then show ?thesis using register_string_again [of c2 "?m(key \<mapsto> V\<lparr>ce_str := S_str v\<rparr>)" key "V\<lparr>ce_str := S_str v\<rparr>"] c1(4) rep_map
        by auto
    qed
    then show ?thesis using c1(1) rep_map [OF c1(2)] by simp
  qed
qed

theorem config_register_update_witness:
  "(\<exists>c1. register_num ''misc.x'' 3 (level_info 10) sample_config = Ret (7, c1)) \<and>
    (\<exists>c1. register_string ''misc.x'' ''z'' (level_info 10) sample_config = Ret (S_str ''7'', c1))"
proof -
  have 1: "unknown_fits (entry_for (config_map sample_config) ''misc.x'' S_null)" by code_simp
  have 2: "first_value CONFIG_TYPE_NUM scanned 3 (entry_for (config_map sample_config) ''misc.x'' S_null) = 7" by code_simp
  have 3: "first_string ''z'' (entry_for (config_map sample_config) ''misc.x'' S_null) = S_str ''7''" by code_simp
  note P = config_register_update [OF sample_reachable 1, of 3 "level_info 10" "''z''", unfolded 2 3]
  show ?thesis
  proof (rule conjI)
    show "\<exists>c1. register_num ''misc.x'' 3 (level_info 10) sample_config = Ret (7, c1)"
      using conjunct1 [OF P] by (elim exE conjE) (rule exI)
    show "\<exists>c1. register_string ''misc.x'' ''z'' (level_info 10) sample_config = Ret (S_str ''7'', c1)"
      using conjunct2 [OF P] by (elim exE conjE) (rule exI)
  qed
qed

section \<open>Options in an MRL\<close>



section \<open>The old file\<close>

lemma read_line_whole: "read_line n s = (l, r) \<Longrightarrow> l @ r = s"
  by (induction n s arbitrary: l r rule: read_line.induct) (auto split: prod.splits if_splits)

lemma concat_file_lines: "concat (file_lines s) = s"
proof (induction s rule: file_lines.induct)
  case (1 s)
  show ?case
  proof (cases "s = []")
    case False
    obtain l r where "read_line 1022 s = (l, r)" by (cases "read_line 1022 s")
    then show ?thesis using 1 [OF False] read_line_whole False by (subst file_lines.simps) simp
  qed (simp add: file_lines.simps)
qed

lemma length_cstrs: "length (concat (map cstr ls)) \<le> length (concat ls)"
  by (induction ls) (auto simp: cstr_def intro: add_mono length_takeWhile_le)

lemma cstrs_whole: "length (concat (map cstr ls)) = length (concat ls) \<Longrightarrow> concat (map cstr ls) = concat ls"
proof (induction ls)
  case (Cons l ls)
  have "length (cstr l) \<le> length l" by (simp add: cstr_def length_takeWhile_le)
  then have "length (cstr l) = length l" "length (concat (map cstr ls)) = length (concat ls)"
    using Cons.prems length_cstrs [of ls] by simp_all
  moreover from this(1) have "cstr l = l" unfolding cstr_def by (metis takeWhile_dropWhile_id append_eq_append_conv append.right_neutral)
  ultimately show ?case using Cons.IH by simp
qed simp

lemma copy_complete:
  assumes "length old = length (take n (copy_lines old))"
  shows "take n (copy_lines old) = old"
proof -
  have "length (copy_lines old) \<le> length old" using length_cstrs [of "file_lines old"] by (simp add: copy_lines_def concat_file_lines)
  then have "length (copy_lines old) = length old" "take n (copy_lines old) = copy_lines old" using assms by auto
  then show ?thesis using cstrs_whole [of "file_lines old"] by (simp add: copy_lines_def concat_file_lines)
qed

lemma backup_ok:
  assumes "backup_file io filename fs = (b, fs1)" and "fs filename = Some old" and "io_read io filename"
  shows "fs1 filename = Some old \<and> (b \<longrightarrow> fs1 (filename @ ''~'') = Some old)"
  using assms copy_complete [of old "io_room io (filename @ ''~'')"]
  by (auto simp: backup_file_def unlink_file_def Let_def split: if_splits)

text \<open>
  C39. Saving never loses the old file when it can be read and the file system reports a
  short write when the file is closed: after it the file is the new text, or it is the old one,
  or the backup is.
\<close>

theorem config_save_keeps:
  assumes "xine_config_save io filename c fs = Ret fs'" and "fs filename = Some old" and "io_read io filename"
    and "\<And>text. config_text c = Ret text \<Longrightarrow> io_closed io \<Longrightarrow> length text \<le> io_room io filename"
  shows "fs' filename = Some old \<or> fs' (filename @ ''~'') = Some old \<or>
    (\<exists>text. config_text c = Ret text \<and> fs' filename = Some text)"
proof -
  obtain b fs1 where b: "backup_file io filename fs = (b, fs1)" by (cases "backup_file io filename fs")
  note B = backup_ok [OF b assms(2,3)]
  show ?thesis
  proof (cases "b \<and> io_write io filename")
    case True
    then obtain new where t: "config_text c = Ret new" using assms(1) b
      by (auto simp: xine_config_save_def Let_def obind_eq_Ret split: if_splits)
    then show ?thesis using assms(1) b B True assms(4) [OF t]
      by (cases "io_closed io") (auto simp: xine_config_save_def Let_def drop_backup_def unlink_file_def split: if_splits)
  next
    case False
    then show ?thesis using assms(1) b B
      by (auto simp: xine_config_save_def Let_def drop_backup_def unlink_file_def split: if_splits)
  qed
qed

text \<open>A disk that is full.\<close>

definition full_disk :: cfg_io where
  "full_disk = \<lparr>io_read = (\<lambda>_. True), io_write = (\<lambda>_. True), io_unlink = (\<lambda>_. True), io_room = (\<lambda>f. if f = ''f'' then 3 else 10),
     io_closed = False\<rparr>"

theorem config_save_keeps_witness:
  "case xine_config_save full_disk ''f'' sample_config [''f'' \<mapsto> ''a:b''] of
     Ret fs' \<Rightarrow> fs' ''f'' = None \<and> (fs' ''f'' = Some ''a:b'' \<or> fs' ''f~'' = Some ''a:b'' \<or>
       (\<exists>new. config_text sample_config = Ret new \<and> fs' ''f'' = Some new))
   | _ \<Rightarrow> False"
proof -
  have "case xine_config_save full_disk ''f'' sample_config [''f'' \<mapsto> ''a:b''] of Ret fs' \<Rightarrow> fs' ''f'' = None | _ \<Rightarrow> False"
    by code_simp
  then obtain fs' where "xine_config_save full_disk ''f'' sample_config [''f'' \<mapsto> ''a:b''] = Ret fs'" "fs' ''f'' = None"
    by (auto split: outcome.splits)
  then show ?thesis using config_save_keeps [of full_disk "''f''" sample_config "[''f'' \<mapsto> ''a:b'']" fs' "''a:b''"]
    by (simp add: full_disk_def)
qed

end
