(* ===== verification/Config_File.thy ===== *)
theory Config_File
  imports Config_Props
begin

text \<open>
  Saving the configuration and loading it again: the text of the file as a list of lines, what
  each line does when it is loaded, and what the registrations after that return.
\<close>

section \<open>Lines\<close>

definition plain_line :: "string \<Rightarrow> bool" where
  "plain_line l \<longleftrightarrow> length l < 1022 \<and> LF \<notin> set l \<and> NUL \<notin> set l"

definition lines_text :: "string list \<Rightarrow> string" where
  "lines_text ls = concat (map (\<lambda>l. l @ [LF]) ls)"

lemma lines_text_simps [simp]:
  "lines_text [] = []" "lines_text (l # ls) = l @ LF # lines_text ls" "lines_text (ls @ ls') = lines_text ls @ lines_text ls'"
  by (simp_all add: lines_text_def)

lemma read_line_plain: "length l < n \<Longrightarrow> LF \<notin> set l \<Longrightarrow> read_line n (l @ LF # r) = (l @ [LF], r)"
proof (induction l arbitrary: n)
  case Nil
  then show ?case by (cases n) simp_all
next
  case (Cons x l)
  then show ?case by (cases n) auto
qed

lemma file_lines_plain: "\<forall>l \<in> set ls. plain_line l \<Longrightarrow> file_lines (lines_text ls) = map (\<lambda>l. l @ [LF]) ls"
proof (induction ls)
  case (Cons l ls)
  then show ?case by (subst file_lines.simps) (simp add: plain_line_def read_line_plain)
qed (simp add: file_lines.simps)

fun load_texts :: "string list \<Rightarrow> config_values \<Rightarrow> config_values outcome" where
  "load_texts [] c = Ret c"
| "load_texts (l # ls) c = obind (load_line l c) (load_texts ls)"

lemma load_texts_append [simp]: "load_texts (ls @ ls') c = obind (load_texts ls c) (load_texts ls')"
proof (induction ls arbitrary: c)
  case (Cons l ls)
  then show ?case by (cases "load_line l c") simp_all
qed simp

lemma load_lines_plain: "\<forall>l \<in> set ls. plain_line l \<Longrightarrow> load_lines (map (\<lambda>l. l @ [LF]) ls) c = load_texts ls c"
proof (induction ls arbitrary: c)
  case (Cons l ls)
  have "cstr (l @ [LF]) = l @ [LF]" using Cons.prems by (auto simp: cstr_def plain_line_def LF_def NUL_def takeWhile_eq_all_conv)
  moreover have "load_lines (map (\<lambda>l. l @ [LF]) ls) = load_texts ls" using Cons by (intro ext) simp
  ultimately show ?case by (simp add: Let_def)
qed simp

text \<open>The name of an enum's value is found again.\<close>

lemma parse_nth: "distinct vs \<Longrightarrow> i < length vs \<Longrightarrow> parse_values (vs ! i) vs j = j + int i"
proof (induction vs arbitrary: i j)
  case (Cons v vs)
  then show ?case by (cases i) (auto simp: nth_mem)
qed simp

section \<open>Entries as lines\<close>

text \<open>The value of an entry as the file has it.\<close>

definition entry_value :: "cfg_entry \<Rightarrow> string" where
  "entry_value E =
     (case ce_type E of
        CONFIG_TYPE_UNKNOWN \<Rightarrow> (case ce_unknown E of S_str s \<Rightarrow> s | _ \<Rightarrow> [])
      | CONFIG_TYPE_STRING \<Rightarrow> (case ce_str E of S_str s \<Rightarrow> s | _ \<Rightarrow> [])
      | CONFIG_TYPE_ENUM \<Rightarrow> the (ce_enum_values E) ! nat (ce_num E)
      | _ \<Rightarrow> dec (ce_num E))"

definition type_line :: "cfg_entry \<Rightarrow> string" where
  "type_line E =
     (case ce_type E of
        CONFIG_TYPE_UNKNOWN \<Rightarrow> []
      | CONFIG_TYPE_RANGE \<Rightarrow> ''# ['' @ dec (ce_range_min E) @ ''..'' @ dec (ce_range_max E) @ ''], default: '' @ dec (ce_num_default E)
      | CONFIG_TYPE_STRING \<Rightarrow> ''# string, default: '' @ (case ce_str_default E of S_str s \<Rightarrow> s | _ \<Rightarrow> [])
      | CONFIG_TYPE_ENUM \<Rightarrow> ''# {'' @ concat (map (\<lambda>v. '' '' @ v @ '' '') (the (ce_enum_values E))) @ ''}, default: '' @ dec (ce_num_default E)
      | CONFIG_TYPE_NUM \<Rightarrow> ''# numeric, default: '' @ dec (ce_num_default E)
      | CONFIG_TYPE_BOOL \<Rightarrow> ''# bool, default: '' @ dec (ce_num_default E))"

definition entry_texts :: "cfg_entry \<Rightarrow> string list" where
  "entry_texts E =
     (case ce_description E of None \<Rightarrow> [] | Some d \<Rightarrow> [''# '' @ d]) @
     (if ce_type E = CONFIG_TYPE_UNKNOWN then [ce_key E @ CHR '':'' # entry_value E]
      else [type_line E, ce_key E @ CHR '':'' # entry_value E, []])"

text \<open>
  Entries that the file can hold: no line is longer than the buffer it is read into or is
  really several, the key is taken for a key, an enum has one of its values and numbers are
  \<open>int\<close>s.
\<close>

definition saveable :: "cfg_entry \<Rightarrow> bool" where
  "saveable E \<longleftrightarrow> list_all plain_line (entry_texts E) \<and> CHR '':'' \<notin> set (ce_key E) \<and>
     take 1 (ce_key E) \<noteq> ''#'' \<and> take 1 (ce_key E) \<noteq> ''.'' \<and> int_range (ce_num E) \<and>
     (ce_type E = CONFIG_TYPE_ENUM \<longrightarrow>
        0 \<le> ce_num E \<and> ce_num E < int (length (the (ce_enum_values E))) \<and> distinct (the (ce_enum_values E)))"

lemma entry_lines_texts:
  assumes "entry_ok E" and "saveable E"
  shows "\<exists>t. entry_lines E = Ret t \<and> describe_line E @ t = lines_text (entry_texts E)"
proof -
  have d: "describe_line E = lines_text (case ce_description E of None \<Rightarrow> [] | Some d \<Rightarrow> [''# '' @ d])"
    by (simp add: describe_line_def split: option.split)
  show ?thesis
  proof (cases "ce_type E")
    case CONFIG_TYPE_UNKNOWN
    then obtain s where "ce_unknown E = S_str s" using assms(1) by (cases "ce_unknown E") (auto simp: entry_ok_def)
    then show ?thesis using CONFIG_TYPE_UNKNOWN by (simp add: entry_lines_def entry_texts_def d value_line_def entry_value_def)
  next
    case CONFIG_TYPE_STRING
    then obtain s d where "ce_str E = S_str s" "ce_str_default E = S_str d" using assms(1) by (auto simp: entry_ok_def)
    then show ?thesis using CONFIG_TYPE_STRING
      by (simp add: entry_lines_def entry_texts_def d type_line_def value_line_def entry_value_def)
  next
    case CONFIG_TYPE_ENUM
    then obtain vs where "ce_enum_values E = Some vs" using assms(1) by (auto simp: entry_ok_def)
    then show ?thesis using CONFIG_TYPE_ENUM assms(2)
      by (simp add: entry_lines_def enum_lines_def saveable_def entry_texts_def d type_line_def value_line_def entry_value_def)
  qed (simp_all add: entry_lines_def entry_texts_def d type_line_def value_line_def entry_value_def)
qed

lemma load_comment: "take 1 l = ''#'' \<Longrightarrow> load_line l c = Ret c"
  by (simp add: load_line_def)

lemma load_value:
  assumes "CHR '':'' \<notin> set key" and "take 1 key \<noteq> ''#''" and "take 1 key \<noteq> ''.''"
  shows "load_line (key @ CHR '':'' # v) c = load_pair key v c"
proof -
  have n: "\<And>c. c \<in> set key \<Longrightarrow> c \<noteq> CHR '':''" using assms(1) by auto
  have "takeWhile (\<lambda>c. c \<noteq> CHR '':'') (key @ CHR '':'' # v) = key" "dropWhile (\<lambda>c. c \<noteq> CHR '':'') (key @ CHR '':'' # v) = CHR '':'' # v"
    using n takeWhile_append2 [of key "\<lambda>c. c \<noteq> CHR '':''" "CHR '':'' # v"]
      dropWhile_append2 [of key "\<lambda>c. c \<noteq> CHR '':''" "CHR '':'' # v"] by simp_all
  then have "cut_at (CHR '':'') (key @ CHR '':'' # v) = (key, Some v)" by (simp add: cut_at_def)
  then show ?thesis using assms(2,3) by (cases key) (auto simp: load_line_def)
qed

lemma load_entry_texts:
  assumes "saveable E"
  shows "load_texts (entry_texts E) c = load_pair (ce_key E) (entry_value E) c"
proof -
  have v: "load_line (ce_key E @ CHR '':'' # entry_value E) c' = load_pair (ce_key E) (entry_value E) c'" for c'
    using assms by (intro load_value) (simp_all add: saveable_def)
  have t: "load_line (type_line E) c' = Ret c'" if "ce_type E \<noteq> CONFIG_TYPE_UNKNOWN" for c'
    using that by (intro load_comment) (cases "ce_type E"; simp add: type_line_def)
  have e: "load_line [] c' = Ret c'" for c' by (simp add: load_line_def cut_at_def)
  have r: "obind m Ret = m" for m :: "config_values outcome" by (cases m) simp_all
  have l: "load_texts [] = Ret" "load_texts [[]] = Ret" by (simp_all add: fun_eq_iff e)
  have "load_texts (case ce_description E of None \<Rightarrow> [] | Some d \<Rightarrow> [''# '' @ d]) c = Ret c"
    by (simp add: load_comment split: option.split)
  then show ?thesis by (simp add: entry_texts_def v t r l del: load_texts.simps(1))
qed

section \<open>The whole file\<close>

definition header_texts :: "string list" where
  "header_texts = [''#'', ''# xine config file'', ''#'', ''.version:1'', []]"

definition file_texts :: "config_values \<Rightarrow> string list" where
  "file_texts c = header_texts @ concat (map entry_texts (config_entries c))"

lemma entries_text_ok:
  assumes "lseg (ce_nexts c) p es None" and "length es < k"
    and "\<And>E. E \<in> set (map (\<lambda>e. the (cv_entry c e)) es) \<Longrightarrow> entry_ok E \<and> saveable E"
  shows "entries_text k p c = Ret (lines_text (concat (map entry_texts (map (\<lambda>e. the (cv_entry c e)) es))))"
  using assms
proof (induction es arbitrary: p k)
  case Nil
  then show ?case by (cases k) auto
next
  case (Cons e es)
  from Cons.prems(2) obtain j where k: "k = Suc j" by (cases k) auto
  from Cons.prems(1) obtain E where E: "cv_entry c e = Some E" "lseg (ce_nexts c) (ce_next E) es None" "p = Some e"
    by (auto simp: ce_nexts_def [of c e])
  then have "entry_ok E \<and> saveable E" using Cons.prems(3) by simp
  then obtain t where t: "entry_lines E = Ret t" "describe_line E @ t = lines_text (entry_texts E)" using entry_lines_texts by blast
  have "length es < j" using Cons.prems(2) k by simp
  note IH = Cons.IH [OF E(2) this Cons.prems(3)]
  show ?case using IH t E(1,3) by (simp add: k entry_at_def append.assoc [symmetric] del: append.assoc append_assoc)
qed

lemma dec_1: "dec 1 = ''1''"
  by code_simp

lemma header_text: "''#'' @ [LF] @ ''# xine config file'' @ [LF] @ ''#'' @ [LF] @ ''.version:'' @ dec CONFIG_FILE_VERSION @ [LF, LF] =
    lines_text header_texts"
  by (simp add: header_texts_def CONFIG_FILE_VERSION_def dec_1)

lemma config_text_ok:
  assumes "cfg_is c es" and "\<forall>E \<in> set (config_entries c). entry_ok E \<and> saveable E"
  shows "config_text c = Ret (lines_text (file_texts c))"
proof -
  have "entries_text (Suc (cv_fresh c)) (cv_first c) c =
      Ret (lines_text (concat (map entry_texts (map (\<lambda>e. the (cv_entry c e)) es))))"
    by (rule entries_text_ok [OF cfg_isD(1) cfg_length]) (use assms entries_is(1) [OF assms(1)] in auto)
  then show ?thesis using header_text entries_is(1) [OF assms(1)] by (simp add: config_text_def file_texts_def)
qed

lemma file_texts_plain: "\<forall>E \<in> set (config_entries c). saveable E \<Longrightarrow> \<forall>l \<in> set (file_texts c). plain_line l"
  by (auto simp: file_texts_def header_texts_def saveable_def list_all_iff plain_line_def LF_def NUL_def)

text \<open>The entry a saved one is loaded as.\<close>

definition saved_entry :: "cfg_entry \<Rightarrow> cfg_entry" where
  "saved_entry E = (new_entry (ce_key E))\<lparr>ce_unknown := S_str (entry_value E)\<rparr>"

lemma load_entries:
  assumes "cfg_rep c m" and "map_ok m" and "distinct (map ce_key Es)" and "\<forall>E \<in> set Es. m (ce_key E) = None \<and> saveable E"
  shows "\<exists>c'. load_texts (concat (map entry_texts Es)) c = Ret c' \<and>
    cfg_rep c' (m ++ map_of (map (\<lambda>E. (ce_key E, saved_entry E)) Es)) \<and>
    map_ok (m ++ map_of (map (\<lambda>E. (ce_key E, saved_entry E)) Es))"
  using assms
proof (induction Es arbitrary: c m)
  case (Cons E Es)
  have n: "m (ce_key E) = None" "saveable E" using Cons.prems(4) by auto
  have "loaded_entry (m (ce_key E)) (ce_key E) (entry_value E) = saved_entry E" by (simp add: n loaded_entry_def saved_entry_def)
  then obtain c1 where c1: "load_pair (ce_key E) (entry_value E) c = Ret c1" "cfg_rep c1 (m(ce_key E \<mapsto> saved_entry E))"
    "map_ok (m(ce_key E \<mapsto> saved_entry E))"
    using load_pair_ok [OF Cons.prems(1,2), of "ce_key E" "entry_value E"] n by auto
  let ?M = "map_of (map (\<lambda>E. (ce_key E, saved_entry E)) Es)"
  have "ce_key E \<notin> set (map ce_key Es)" using Cons.prems(3) by simp
  then have "?M (ce_key E) = None" by (simp add: map_of_eq_None_iff image_image)
  then have eq: "m ++ map_of (map (\<lambda>E. (ce_key E, saved_entry E)) (E # Es)) = m(ce_key E \<mapsto> saved_entry E) ++ ?M"
    by (auto simp: map_add_def fun_eq_iff split: option.splits)
  have "\<forall>F \<in> set Es. ce_key F \<noteq> ce_key E" using Cons.prems(3) by (metis distinct.simps(2) image_eqI list.simps(9) list.set_map)
  then have "\<forall>F \<in> set Es. (m(ce_key E \<mapsto> saved_entry E)) (ce_key F) = None \<and> saveable F" using Cons.prems(4) by simp
  then have "\<exists>c'. load_texts (concat (map entry_texts Es)) c1 = Ret c' \<and>
    cfg_rep c' (m(ce_key E \<mapsto> saved_entry E) ++ ?M) \<and> map_ok (m(ce_key E \<mapsto> saved_entry E) ++ ?M)"
    by (intro Cons.IH [OF c1(2,3)]) (use Cons.prems(3) in simp_all)
  then show ?case unfolding eq using c1(1) load_entry_texts [OF n(2)] by simp
qed simp

lemma saved_view [simp]: "saved_entry (view E) = saved_entry E"
  by (cases "ce_type E") (simp_all add: saved_entry_def entry_value_def)

lemma loaded_map:
  "map_of (map (\<lambda>E. (ce_key E, saved_entry E)) Es) key =
    map_option saved_entry (map_of (map (\<lambda>E. (ce_key E, view E)) Es) key)"
  by (induction Es) auto

lemma load_saved:
  assumes "cfg_rep c m" and "map_ok m" and "\<forall>E \<in> set (config_entries c). saveable E"
  shows "\<exists>c'. config_text c = Ret (lines_text (file_texts c)) \<and>
    xine_config_load (Some (lines_text (file_texts c))) xine_config_init = Ret c' \<and>
    cfg_rep c' (map_option saved_entry \<circ> m) \<and> map_ok (map_option saved_entry \<circ> m)"
proof -
  obtain es where es: "cfg_is c es" "m = cfg_map c es" using assms(1) by (auto simp: cfg_rep_def)
  note N = entries_is [OF es(1)]
  have ok: "entry_ok E" if "E \<in> set (config_entries c)" for E by (rule entries_map(2) [OF assms(1,2) that])
  have k: "distinct (map ce_key (config_entries c))" using cfg_keys_distinct [OF es(1)] N(1) by (simp add: key_of_def [abs_def] comp_def)
  let ?c0 = "xine_config_init\<lparr>cv_version := 1\<rparr>"
  have r: "cfg_rep ?c0 Map.empty" "map_ok Map.empty" using rep_init by (simp_all add: map_ok_def)
  have h: "load_texts header_texts xine_config_init = Ret ?c0"
    using scan_dec [of 1] by (simp add: header_texts_def load_line_def cut_at_def sscanf_d_def int_range_def dec_1)
  obtain c' where c': "load_texts (concat (map entry_texts (config_entries c))) ?c0 = Ret c'"
    "cfg_rep c' (map_of (map (\<lambda>E. (ce_key E, saved_entry E)) (config_entries c)))"
    "map_ok (map_of (map (\<lambda>E. (ce_key E, saved_entry E)) (config_entries c)))"
    using load_entries [OF r k] assms(3) by auto
  have "map_of (map (\<lambda>E. (ce_key E, saved_entry E)) (config_entries c)) = map_option saved_entry \<circ> m"
    using N(2) es(2) by (auto simp: loaded_map config_map_def [symmetric] fun_eq_iff)
  then show ?thesis
    using c' h config_text_ok [OF es(1)] ok assms(3) load_lines_plain [OF file_texts_plain [OF assms(3)]]
      file_lines_plain [OF file_texts_plain [OF assms(3)]]
    by (simp add: xine_config_load_def file_texts_def)
qed

lemma copy_plain: "NUL \<notin> set s \<Longrightarrow> copy_lines s = s"
proof -
  assume n: "NUL \<notin> set s"
  have "\<forall>l \<in> set (file_lines s). NUL \<notin> set l" using n concat_file_lines [of s] by (metis UN_I set_concat)
  then have "map cstr (file_lines s) = file_lines s" by (intro map_idI) (auto simp: cstr_def takeWhile_eq_all_conv)
  then show ?thesis by (simp add: copy_lines_def concat_file_lines)
qed

text \<open>A file system with enough room, and an old file that can be copied.\<close>

definition io_works :: "cfg_io \<Rightarrow> string \<Rightarrow> files \<Rightarrow> string \<Rightarrow> bool" where
  "io_works io filename fs new \<longleftrightarrow> length filename + 2 \<le> XINE_PATH_MAX \<and> io_write io filename \<and> io_write io (filename @ ''~'') \<and>
     io_unlink io (filename @ ''~'') \<and> io_closed io \<and> length new \<le> io_room io filename \<and>
     (\<forall>old. fs filename = Some old \<longrightarrow> NUL \<notin> set old \<and> length old \<le> io_room io (filename @ ''~''))"

lemma save_works:
  assumes "config_text c = Ret new" and "io_works io filename fs new"
  shows "\<exists>fs'. xine_config_save io filename c fs = Ret fs' \<and> fs' filename = Some new \<and> fs' (filename @ ''~'') = None"
  using assms copy_plain
  by (cases "fs filename")
    (auto simp: xine_config_save_def io_works_def backup_file_def unlink_file_def drop_backup_def Let_def)

text \<open>What a registration in the loaded configuration returns: the value that was saved.\<close>

definition restores :: "config_values \<Rightarrow> cfg_entry \<Rightarrow> bool" where
  "restores c V \<longleftrightarrow>
     (case ce_type V of
        CONFIG_TYPE_UNKNOWN \<Rightarrow> map_option ce_unknown (config_map c (ce_key V)) = Some (ce_unknown V)
      | CONFIG_TYPE_STRING \<Rightarrow> \<forall>d I. \<exists>c'. register_string (ce_key V) d I c = Ret (ce_str V, c')
      | CONFIG_TYPE_NUM \<Rightarrow> \<forall>d I. \<exists>c'. register_num (ce_key V) d I c = Ret (ce_num V, c')
      | CONFIG_TYPE_BOOL \<Rightarrow> \<forall>d I. \<exists>c'. register_bool (ce_key V) d I c = Ret (ce_num V, c')
      | CONFIG_TYPE_RANGE \<Rightarrow> \<forall>d lo hi I. \<exists>c'. register_range (ce_key V) d lo hi I c = Ret (ce_num V, c')
      | CONFIG_TYPE_ENUM \<Rightarrow> \<forall>d I. \<exists>c'. register_enum (ce_key V) d (the (ce_enum_values V)) I c = Ret (ce_num V, c'))"

lemma restores_saved:
  assumes "cfg_rep c m" and "map_ok m" and "m (ce_key V) = Some (saved_entry V)" and "entry_ok V" and "saveable V"
  shows "restores c V"
proof -
  let ?E = "saved_entry V"
  have e: "entry_for m (ce_key V) u = ?E" for u using assms(3) by (simp add: entry_for_def)
  have t: "ce_type ?E = CONFIG_TYPE_UNKNOWN" "ce_unknown ?E = S_str (entry_value V)" "ce_num ?E = 0"
    by (simp_all add: saved_entry_def new_entry_def)
  have ok: "entry_ok ?E \<or> ?E = new_entry (ce_key V)" using map_okD [OF assms(2,3)] by simp
  have R: "\<exists>E c'. registered (ce_key V) u f c = Ret (E, c') \<and> ce_num E = v"
    if "entry_map f" "\<exists>W. f ?E = Ret W \<and> entry_ok W \<and> P W" "\<And>W. P W \<Longrightarrow> ce_num W = v" for f P u v
    by (rule registered_entry [OF assms(1,2) that(1), of "ce_key V" u "\<lambda>W. ce_num W = v"]) (use that(2,3) e in auto)
  have num: "unknown_fits ?E \<and> first_value ty scanned d ?E = ce_num V"
    if "entry_value V = dec (ce_num V)" "ty \<noteq> CONFIG_TYPE_UNKNOWN" for ty d
    using that t assms(5) by (simp add: unknown_fits_def number_fits_def first_value_def scanned_def saveable_def)
  show ?thesis
  proof (cases "ce_type V")
    case CONFIG_TYPE_UNKNOWN
    then show ?thesis using assms(3,4) t rep_map [OF assms(1)]
      by (cases "ce_unknown V") (auto simp: restores_def entry_value_def entry_ok_def)
  next
    case CONFIG_TYPE_STRING
    then obtain s where s: "ce_str V = S_str s" using assms(4) by (auto simp: entry_ok_def)
    have "\<exists>c'. register_string (ce_key V) d I c = Ret (ce_str V, c')" for d I
      by (rule register_string_first [OF assms(1,2), of "ce_key V" d I])
        (use CONFIG_TYPE_STRING s e t in \<open>auto simp: first_string_def entry_value_def\<close>)
    then show ?thesis using CONFIG_TYPE_STRING by (simp add: restores_def)
  next
    case CONFIG_TYPE_NUM
    then have v: "entry_value V = dec (ce_num V)" by (simp add: entry_value_def)
    have "\<exists>c'. register_num (ce_key V) d I c = Ret (ce_num V, c')" for d I
      using R [OF fill_maps(2) fill_number_ok(1) [OF ok, of d I], of "ce_num V" S_null] num [OF v, of CONFIG_TYPE_NUM d]
      by (auto simp: register_num_def)
    then show ?thesis using CONFIG_TYPE_NUM by (simp add: restores_def)
  next
    case CONFIG_TYPE_BOOL
    then have v: "entry_value V = dec (ce_num V)" by (simp add: entry_value_def)
    have "\<exists>c'. register_bool (ce_key V) d I c = Ret (ce_num V, c')" for d I
      using R [OF fill_maps(3) fill_number_ok(2) [OF ok, of d I], of "ce_num V" S_null] num [OF v, of CONFIG_TYPE_BOOL d]
      by (auto simp: register_bool_def)
    then show ?thesis using CONFIG_TYPE_BOOL by (simp add: restores_def)
  next
    case CONFIG_TYPE_RANGE
    then have v: "entry_value V = dec (ce_num V)" by (simp add: entry_value_def)
    have "\<exists>c'. register_range (ce_key V) d lo hi I c = Ret (ce_num V, c')" for d lo hi I
      using R [OF fill_maps(4) fill_number_ok(3) [OF ok, of d lo hi I], of "ce_num V" S_null] num [OF v, of CONFIG_TYPE_RANGE d]
      by (auto simp: register_range_def)
    then show ?thesis using CONFIG_TYPE_RANGE by (simp add: restores_def)
  next
    case CONFIG_TYPE_ENUM
    define vs where "vs = the (ce_enum_values V)"
    have "xine_config_parse_enum (entry_value V) vs = ce_num V"
      using CONFIG_TYPE_ENUM assms(5) parse_nth [of vs "nat (ce_num V)" 0]
      by (auto simp: entry_value_def xine_config_parse_enum_def saveable_def vs_def)
    then have v: "first_value CONFIG_TYPE_ENUM (\<lambda>s _. xine_config_parse_enum s vs) d ?E = ce_num V" for d
      using t by (simp add: first_value_def)
    have "\<exists>c'. register_enum (ce_key V) d vs I c = Ret (ce_num V, c')" for d I
      using R [OF fill_maps(5) fill_enum_ok [OF ok, of d vs I], of "ce_num V" S_null] v [of d]
      by (auto simp: register_enum_def)
    then show ?thesis using CONFIG_TYPE_ENUM by (simp add: restores_def vs_def)
  qed
qed

text \<open>
  C40. A configuration whose entries fit into lines, saved to a file and loaded into a fresh
  configuration: every key has an entry again and no other key has; registering it returns the
  value that was saved, whatever the default is; a value that was not registered when it was
  saved is still there. The backup is gone.
\<close>

theorem config_save_load:
  assumes "cfg_reachable c" and "\<forall>E \<in> set (config_entries c). saveable E"
    and "\<And>new. config_text c = Ret new \<Longrightarrow> io_works io filename fs new"
  shows "\<exists>fs' c'. xine_config_save io filename c fs = Ret fs' \<and> fs' (filename @ ''~'') = None \<and>
    xine_config_load (fs' filename) xine_config_init = Ret c' \<and> dom (config_map c') = dom (config_map c) \<and>
    (\<forall>E \<in> set (config_entries c). restores c' E)"
proof -
  let ?m = "config_map c" and ?t = "lines_text (file_texts c)"
  from cfg_reachable_rep [OF assms(1)] have R: "cfg_rep c ?m" "map_ok ?m" by auto
  obtain c' where c': "config_text c = Ret ?t" "xine_config_load (Some ?t) xine_config_init = Ret c'"
    "cfg_rep c' (map_option saved_entry \<circ> ?m)" "map_ok (map_option saved_entry \<circ> ?m)"
    using load_saved [OF R assms(2)] by blast
  obtain fs' where fs': "xine_config_save io filename c fs = Ret fs'" "fs' filename = Some ?t" "fs' (filename @ ''~'') = None"
    using save_works [OF c'(1) assms(3) [OF c'(1)]] by blast
  have "restores c' E" if E: "E \<in> set (config_entries c)" for E
    using restores_saved [OF c'(3,4), of E] entries_map [OF R E] E assms(2) by simp
  moreover have "dom (config_map c') = dom ?m" by (simp add: rep_map [OF c'(3)] dom_def)
  ultimately show ?thesis using c'(2) fs' by (intro exI [of _ fs'] exI [of _ c']) simp
qed

definition good_disk :: cfg_io where
  "good_disk = full_disk\<lparr>io_room := (\<lambda>_. 1000), io_closed := True\<rparr>"

theorem config_save_load_witness:
  "\<exists>fs' c'. xine_config_save good_disk ''f'' sample_config [''f'' \<mapsto> ''a:b''] = Ret fs' \<and>
    xine_config_load (fs' ''f'') xine_config_init = Ret c' \<and> (\<forall>E \<in> set (config_entries sample_config). restores c' E) \<and>
    length (config_entries sample_config) = 4"
proof -
  have s: "\<forall>E \<in> set (config_entries sample_config). saveable E" by code_simp
  have "case config_text sample_config of Ret new \<Rightarrow> length new \<le> 1000 | _ \<Rightarrow> False" by code_simp
  then have "io_works good_disk ''f'' [''f'' \<mapsto> ''a:b''] new" if "config_text sample_config = Ret new" for new
    using that by (simp add: io_works_def good_disk_def full_disk_def XINE_PATH_MAX_def NUL_def)
  from config_save_load [OF sample_reachable s this] have "\<exists>fs' c'. xine_config_save good_disk ''f'' sample_config [''f'' \<mapsto> ''a:b''] = Ret fs' \<and>
    xine_config_load (fs' ''f'') xine_config_init = Ret c' \<and> (\<forall>E \<in> set (config_entries sample_config). restores c' E)" by blast
  moreover have "length (config_entries sample_config) = 4" by code_simp
  ultimately show ?thesis by blast
qed

end
