(* ===== verification/Spec2Isabelle.thy ===== *)
theory Spec2Isabelle
  imports Xine_Prelude C_Text Chain Buf_Fifo Buf_Fifo_Inv Queue_Iface Buf_System Cursor_Iface Xine_List
    Events Events_Inv Event_System
    Scr_Clock Metronom Metronom_Props Mcd Mcd_Inv Mcd_Props
    Overlay Overlay_Heap Overlay_Spec Overlay_Refine Overlay_Props
    Net_Buf Net_Buf_Props
    Xml_Lexer Xml_Parser Xml_Tokens Xml_Lexer_Safe Xml_Roundtrip Xml_Parser_Props
    Vo_Frames Video_Out Vo_Heap Vo_Inv Vo_Ops Vo_Expire Vo_Show Vo_Draw Vo_Port Vo_System
    Vo_Demo Vo_Props Vo_Loop_Props
    Resample Audio_Bufs Audio_Filter Audio_Out Audio_Heap Audio_Prepare Audio_Inv Audio_Ops Audio_Port
    Audio_System Audio_Demo Audio_Props Audio_Loop_Props Audio_Sample_Props
    Config Config_Inv Config_Ops Config_Props Config_File
begin

text \<open>
  The core of the xine engine and the OS/2 driver on top of it.

  The program. xine plays a stream: an input plugin and a demuxer put buffers into the video and
  the audio fifo of the stream (src/src/xine-engine/buffer.c), decoder threads take them out, ask
  the metronom (metronom.c) at which time of the system clock each frame and each block of samples
  is due, and hand them to the outputs. The video output (video_out.c) keeps a frame until it is due, then
  gives it to its driver, throws it away when it is too old, and shows the last one again while the
  engine is paused. The audio output (audio_out.c) does the same with blocks of samples: it fills gaps with silence, drops what
  is late, and converts the samples to the rate, width and channels of its driver (resample.c). Frontends are told what happens by events
  (events.c), which are kept in the lists of src/src/xine-utils/list.c. Subtitles and menus go
  through the overlay manager (video_overlay.c). For streams from the network the buffering
  control (src/src/input/net_buf_ctrl.c) watches the fifos and pauses the engine while they fill.
  Playlists and subtitles in XML are read by the parser of src/src/xine-utils.
  Every part registers its settings with the configuration (configfile.c), which loads them from
  a file and saves them.
  In this port the frontend is src/src/mcd/mcd.c, a media control driver of OS/2: a state machine over
  messages that drives the engine.

  Results. A C function is a function of the state that gives an \<open>outcome\<close> (Xine_Prelude):
  \<open>Ret\<close> for a return, \<open>Wait\<close> when it blocks on a condition variable, \<open>Fault\<close> for undefined
  behaviour (NULL or freed memory, an index outside an array, a second free, a division by zero, a
  failed assertion), \<open>Spin\<close> when the fuel of a loop over a pointer chain is used up, which the
  lemmas exclude. A mutex that an operation holds to its end makes it one step.

  Theories and code.

  \<^item> Xine_Prelude: outcomes, C division, 32-bit and 64-bit integers, array access. C_Text: C strings and decimal numbers. Chain: singly linked
  chains in a store, used by the fifos and by the overlay manager.

  \<^item> Buf_Fifo models buffer.c: elements in a store, linked through their \<open>next\<close> fields, the pool of
  free elements and the fifo, callbacks, constructor and disposal. Buf_Fifo_Inv has the invariant
  (every element in exactly one place, the counters agree with the chains) and what each
  operation does under it; Queue_Iface the contract of a queue as a locale, interpreted there; Buf_System
  the clients and the properties. A client may use only the elements it holds.

  \<^item> Cursor_Iface and Xine_List: list.c, doubly linked nodes with a cursor. The contract is a list split
  at the cursor (locale, interpreted on the code's model); the model implements it.

  \<^item> Events models events.c over the lists: queues of copies of events, the listener threads, cue
  points. Events_Inv and Event_System: the invariant of the stores, clients, and the properties.

  \<^item> Scr_Clock: the unix clock, the master clock and its providers, which are a parameter (a record of
  functions with the laws of metronom.h as a locale). Metronom: the mapping of stream times to clock
  times; the two discontinuity handlers are split at their wait loops, so that
  every interleaving of the video and the audio thread is a run. Metronom_Props: the properties.

  \<^item> Mcd models every message of \<open>mciDriverEntry\<close>, the listener of the event queue and the helpers of
  mcd.c, with the event queues and cue points of Events. The operating system and the rest of
  the engine are a log of calls and answers that are a function of the calls so far. Mcd_Inv and Mcd_Props:
  reachable states, the invariant, the properties.

  \<^item> Overlay models video_overlay.c: events in 50 slots linked by index, 50 objects, five
  handles showing, a heap of overlays and of run-length data. Overlay_Heap: who holds which overlay, and the
  chain of slots. Overlay_Spec: the manager as a value, its contract. Overlay_Refine: every
  operation is that of the value. Overlay_Props: clients, reachable states, the properties.

  \<^item> Net_Buf models net_buf_ctrl.c: its callbacks on the fifos of Buf_Fifo, whose world it is.
  Net_Buf_Props: any order of the callbacks, the invariant, and with Buf_Fifo that the producer is never
  blocked by a pause.

  \<^item> Xml_Lexer and Xml_Parser model xmllexer.c and xmlparser.c: the lexer over its static variables and the
  token array of its caller, the parser as a step per token with the recursion for a subtree; trees
  are values. Xml_Tokens: what the lexer makes of each kind of token. Xml_Lexer_Safe: it stays in its arrays and
  moves on. Xml_Roundtrip: a printed tree is parsed to itself. Xml_Parser_Props: bounds, termination, and where they end.

  \<^item> Vo_Frames and Video_Out model video_out.c over a store of frames with lock counters and two queues, of
  free frames and of waiting ones. The driver is a parameter (the record \<open>vo_driver\<close>, what the code relies
  on is \<open>driver_ok\<close>); calls to the driver, the overlay manager and the engine are a list; every
  function between two locks is a function, and a pass of the output loop is the sequence of those.
  Vo_Heap and Vo_Inv: who refers to a frame, the invariant that a frame in use has as many
  references as its lock counts. Vo_Ops, Vo_Expire, Vo_Show, Vo_Draw and Vo_Port: every operation
  keeps it. Vo_System: decoders, the loop and frontends as clients whose operations interleave. Vo_Demo: runs of a
  small driver. Vo_Props and Vo_Loop_Props: the properties, among them the contract of Queue_Iface for the queue of
  waiting frames.

  \<^item> Resample models resample.c, on lists of words that stand for the arrays. Audio_Bufs, Audio_Filter and Audio_Out model
  audio_out.c: buffers in a store, linked in a fifo of free and one of waiting ones; the equalizer,
  compressor and amplifier and the conversions; the output loop as the sequence of its parts between two locks, the
  drift correction, the settings of the driver, and what decoders and frontends call. The driver is an optional parameter
  (the record \<open>ao_driver\<close>; what the code relies on is \<open>driver_works\<close>), the calls to it are a list; there is none
  when a frontend takes the samples itself. Memory is bytes, the low byte of a sample first. Audio_Heap and
  Audio_Prepare: the fifos as lists of buffers, and that filters and conversions keep to the memory they have. Audio_Inv: the
  invariant, each buffer in one place. Audio_Ops and Audio_Port: every operation keeps it. Audio_System: decoders, the loop
  and frontends as clients whose operations interleave. Audio_Demo: runs with a small driver. Audio_Props, Audio_Loop_Props and
  Audio_Sample_Props: the properties, among them the contract of Queue_Iface for the fifo of waiting buffers.

  \<^item> Config models configfile.c: entries in a store, linked in the order of their keys, with strings that
  can be NULL, freed or there; texts of files, and a file system whose answers are a parameter; calls of
  callbacks are a list, and a callback does not call back. Config_Inv: the order of the keys, and the chain as a
  map from keys to entries. Config_Ops: what each operation makes of the map, clients. Config_Props: the properties. Config_File:
  what is saved is loaded.

  Fuel. Loops over a chain have fuel and the lemmas say how much is enough: more than the elements
  of the chain (for buffers and nodes, the number allocated; for the overlay manager
  \<open>MAX_EVENTS\<close>, since slot 0 is never used; for the cursor and priority loops the length of the
  list plus one; for the lexer the characters that are left, for the parser four times as many; for the video output
  more than the frames of the driver plus one and than the streams; for the audio output more than its 32 buffers and than the
  streams; for the configuration the entries ever added plus one). The turns of the output loops and their naps are lists of readings of the clock, since the loop runs until it is told to stop. With enough fuel the results are proved to be returns.

  Simplifications. \<open>malloc\<close> and \<open>xine_xmalloc\<close> succeed and give addresses that are not in use;
  threads and mutexes are created and joined as asked. Signed integers are unbounded where the
  code's values are far from the limits of their type (counts, sizes, times in 64 bits); where they are
  not, the width is written out (32-bit milliseconds and MMTIME of the driver, event times in
  \<open>int\<close>, \<open>uint32_t\<close> sizes). The speed factor of the unix clock, a \<open>double\<close> in the code, is
  exact. Callbacks of an allocation run once before it waits, as in the code; an allocation that has
  to wait is asked again. A listener thread has run to its end when its queue is disposed.
  The streams that a video output knows exist as long as it does; the pixel ratio of a frame is a
  quotient; a driver's planes have room for the rows of their format.
  The \<open>double\<close> values of the audio output are exact rationals with x/0 = 0, so that a value truncated to an integer may
  differ by one from the code's; one that does not fit its integer is cut to its low bits; what \<open>realloc\<close> adds is zero.
  A path has 768 characters, the code's value where the system gives none. A number in a text that is no \<open>int\<close> is
  undefined behaviour, as \<open>sscanf\<close> and \<open>atoi\<close> have it.
  Whether the reader of a fifo is waiting in it, which \<open>fifo_wait_empty\<close> waits for, is an argument of the calls that use it.
  \<open>printf\<close>, logging and the code under \<open>#if 0\<close> or \<open>LOG\<close> are left out.

  Not modelled. The third-party libraries in the tree (libffmpeg, libfaad, libmad, liba52, libdts,
  libmpeg2, libw32dll, libdvdnav, libvcd and libcdio, vidix and libdha, goom, intl); the drivers of the
  audio and video outputs, the inputs and demuxers, which are mostly input and output; and of
  the engine what remains to be done: vo_scale.c and tvmode.c, the
  decoder loops (video_decoder.c, audio_decoder.c), osd.c, load_plugins.c, xine.c beyond the functions used here,
  the ring buffers lrb.c and scratch.c; and of the XML parser the functions
  that free a tree.
\<close>

end
